(* ===== verification/Prelude.thy ===== *)
theory Prelude
  imports Complex_Main "HOL-Library.AList"
begin

text \<open>
  Shared vocabulary of the development: the Python values and the string, dictionary and
  truthiness operations that several components use, with the lemmas the component proofs rest on.

  Conventions.
  \<^item> A Python \<open>str\<close> is a \<^typ>\<open>string\<close>; a character stands for one code point of the
    Latin-1 range, so the whitespace table below is Python's table cut to that range.
  \<^item> A Python \<open>dict\<close> that the code iterates over is an association list with distinct keys,
    in insertion order; \<open>AList.update\<close> keeps the position of a key that is already there and
    appends a new one, as an assignment to a dictionary does.
  \<^item> A Python \<open>float\<close> that is finite is the rational number it denotes.
\<close>

named_theorems py_str \<open>rewrite rules for the string operations\<close>
named_theorems py_val \<open>rewrite rules for dynamically typed values\<close>


section \<open>Lists\<close>

lemma dropWhile_id_iff: "dropWhile P xs = xs \<longleftrightarrow> (xs = [] \<or> \<not> P (hd xs))"
proof (cases xs)
  case (Cons x ys)
  have "length (dropWhile P ys) < length (x # ys)"
    by (simp add: le_imp_less_Suc length_dropWhile_le)
  then show ?thesis using Cons by auto
qed simp

lemma hd_append_dropWhile:
  "rev (dropWhile P (rev xs)) \<noteq> [] \<Longrightarrow> hd (rev (dropWhile P (rev xs))) = hd xs"
proof -
  assume ne: "rev (dropWhile P (rev xs)) \<noteq> []"
  have "xs = rev (dropWhile P (rev xs)) @ rev (takeWhile P (rev xs))"
    by (metis rev_append rev_rev_ident takeWhile_dropWhile_id)
  then show ?thesis using ne by (metis hd_append2)
qed

lemma filter_distinct_map_fst: "distinct (map fst xs) \<Longrightarrow> distinct (map fst (filter P xs))"
  by (induction xs) (auto simp: image_iff)

lemma map_of_eqI_distinct:
  "distinct (map fst xs) \<Longrightarrow> (k, v) \<in> set xs \<Longrightarrow> map_of xs k = Some v"
  by simp


section \<open>Strings\<close>

definition py_isspace :: "char \<Rightarrow> bool" where
  "py_isspace c = (let n = of_char c :: nat in
     (9 \<le> n \<and> n \<le> 13) \<or> (28 \<le> n \<and> n \<le> 32) \<or> n = 133 \<or> n = 160)"

definition py_strip :: "string \<Rightarrow> string" where
  "py_strip s = rev (dropWhile py_isspace (rev (dropWhile py_isspace s)))"

definition py_lower_char :: "char \<Rightarrow> char" where
  "py_lower_char c = (let n = of_char c :: nat in
     if (65 \<le> n \<and> n \<le> 90) \<or> (192 \<le> n \<and> n \<le> 222 \<and> n \<noteq> 215) then char_of (n + 32) else c)"

definition py_lower :: "string \<Rightarrow> string" where
  "py_lower s = map py_lower_char s"

text \<open>\<open>s.split()\<close>: the maximal runs of characters that are not whitespace.\<close>

fun py_split_aux :: "string \<Rightarrow> string \<Rightarrow> string list" where
  "py_split_aux w [] = (if w = [] then [] else [w])"
| "py_split_aux w (c # cs) =
     (if py_isspace c then (if w = [] then [] else [w]) @ py_split_aux [] cs
      else py_split_aux (w @ [c]) cs)"

definition py_split :: "string \<Rightarrow> string list" where "py_split s = py_split_aux [] s"

lemma py_split_blank: "list_all py_isspace s \<Longrightarrow> py_split s = []"
proof -
  have "list_all py_isspace s \<Longrightarrow> py_split_aux [] s = []" by (induction s) auto
  then show "list_all py_isspace s \<Longrightarrow> py_split s = []" by (simp add: py_split_def)
qed

text \<open>\<open>x or d\<close> for a value that is \<open>None\<close> or a string: the empty string is falsy.\<close>

definition or_str :: "string option \<Rightarrow> string \<Rightarrow> string" where
  "or_str x d = (case x of None \<Rightarrow> d | Some s \<Rightarrow> if s = [] then d else s)"

lemma or_str_simps [simp, py_str]:
  "or_str None d = d"
  "or_str (Some []) d = d"
  "s \<noteq> [] \<Longrightarrow> or_str (Some s) d = s"
  by (simp_all add: or_str_def)

lemma or_str_nonempty: "d \<noteq> [] \<Longrightarrow> or_str x d \<noteq> []"
  by (auto simp: or_str_def split: option.splits)

lemma py_strip_Nil [simp, py_str]: "py_strip [] = []"
  by (simp add: py_strip_def)

lemma py_strip_fixed:
  "py_strip s = s \<longleftrightarrow> s = [] \<or> (\<not> py_isspace (hd s) \<and> \<not> py_isspace (last s))"
proof
  assume l: "py_strip s = s"
  show "s = [] \<or> (\<not> py_isspace (hd s) \<and> \<not> py_isspace (last s))"
  proof (cases "s = []")
    case False
    let ?t = "dropWhile py_isspace s"
    have len: "length (py_strip s) \<le> length ?t" "length ?t \<le> length s"
      unfolding py_strip_def using length_dropWhile_le[of py_isspace "rev ?t"]
      by (simp_all add: length_dropWhile_le)
    then have "length ?t = length s" using l by simp
    then have t: "?t = s"
      by (metis append_self_conv2 length_0_conv length_append add_cancel_left_left takeWhile_dropWhile_id)
    then have "rev (dropWhile py_isspace (rev s)) = s" using l by (simp add: py_strip_def)
    then have "dropWhile py_isspace (rev s) = rev s" by (metis rev_rev_ident)
    then show ?thesis using t False by (simp add: dropWhile_id_iff hd_rev)
  qed simp
next
  assume "s = [] \<or> (\<not> py_isspace (hd s) \<and> \<not> py_isspace (last s))"
  then show "py_strip s = s"
    by (metis dropWhile_id_iff hd_rev py_strip_Nil py_strip_def rev_is_Nil_conv rev_rev_ident)
qed

lemma py_strip_idem [simp, py_str]: "py_strip (py_strip s) = py_strip s"
proof -
  let ?t = "dropWhile py_isspace s"
  have "py_strip s \<noteq> [] \<Longrightarrow> \<not> py_isspace (hd (py_strip s)) \<and> \<not> py_isspace (last (py_strip s))"
  proof -
    assume ne: "py_strip s \<noteq> []"
    then have "hd (py_strip s) = hd ?t" by (simp add: py_strip_def hd_append_dropWhile)
    moreover have "?t \<noteq> []" using ne unfolding py_strip_def by fastforce
    then have "\<not> py_isspace (hd ?t)" by (rule hd_dropWhile)
    moreover have "\<not> py_isspace (hd (dropWhile py_isspace (rev ?t)))"
      using ne unfolding py_strip_def by (metis hd_dropWhile rev.simps(1))
    ultimately show ?thesis by (simp add: py_strip_def last_rev)
  qed
  then show ?thesis using py_strip_fixed by blast
qed


section \<open>Dynamically typed values\<close>

text \<open>
  What a wire payload or parsed JSON may hold. Floats are the finite ones or the three
  special values; a dictionary keeps its insertion order.
\<close>

datatype pyfloat = Fin rat | PosInf | NegInf | NaN

datatype pyval =
    PyNone
  | PyBool bool
  | PyInt int
  | PyFloat pyfloat
  | PyStr string
  | PyList "pyval list"
  | PyDict "(string \<times> pyval) list"

type_synonym pydict = "(string \<times> pyval) list"

text \<open>\<open>d.get(k)\<close>: the stored value, or \<open>None\<close>.\<close>

definition py_get :: "pydict \<Rightarrow> string \<Rightarrow> pyval" where
  "py_get d k = (case map_of d k of None \<Rightarrow> PyNone | Some v \<Rightarrow> v)"

text \<open>\<open>d.get(k) is True\<close>: identity with the boolean, which no other truthy value has.\<close>

definition is_true :: "pyval \<Rightarrow> bool" where
  "is_true v = (v = PyBool True)"

fun truthy :: "pyval \<Rightarrow> bool" where
  "truthy PyNone = False"
| "truthy (PyBool b) = b"
| "truthy (PyInt i) = (i \<noteq> 0)"
| "truthy (PyFloat f) = (f \<noteq> Fin 0)"
| "truthy (PyStr s) = (s \<noteq> [])"
| "truthy (PyList xs) = (xs \<noteq> [])"
| "truthy (PyDict d) = (d \<noteq> [])"

lemma py_get_Nil [simp, py_val]: "py_get [] k = PyNone"
  by (simp add: py_get_def)

lemma py_get_Cons [simp, py_val]: "py_get ((k', v) # d) k = (if k = k' then v else py_get d k)"
  by (simp add: py_get_def)

lemma py_get_update [simp, py_val]:
  "py_get (AList.update k v d) k' = (if k' = k then v else py_get d k')"
  by (simp add: py_get_def update_conv')

lemma is_true_simps [simp, py_val]:
  "is_true (PyBool b) = b" "\<not> is_true PyNone" "\<not> is_true (PyInt i)" "\<not> is_true (PyFloat f)"
  "\<not> is_true (PyStr s)" "\<not> is_true (PyList xs)" "\<not> is_true (PyDict d)"
  by (auto simp: is_true_def)


section \<open>Errors as values\<close>

text \<open>The exceptions the modelled functions raise, with what the code puts in the message left out.\<close>

datatype py_error = TypeError | ValueError | KeyError | OverflowError | AttributeError | StopIteration | IndexError | IntegrityError | RuntimeError

type_synonym 'a result = "py_error + 'a"

definition bind_r :: "'a result \<Rightarrow> ('a \<Rightarrow> 'b result) \<Rightarrow> 'b result" where
  "bind_r x f = (case x of Inl e \<Rightarrow> Inl e | Inr v \<Rightarrow> f v)"

lemma bind_r_simps [simp]: "bind_r (Inl e) f = Inl e" "bind_r (Inr v) f = f v"
  by (simp_all add: bind_r_def)

lemma bind_r_Inr_iff: "bind_r x f = Inr y \<longleftrightarrow> (\<exists>v. x = Inr v \<and> f v = Inr y)"
  by (cases x) auto

text \<open>Run a fallible function over a list, stopping at the first error.\<close>

fun mapM_r :: "('a \<Rightarrow> 'b result) \<Rightarrow> 'a list \<Rightarrow> 'b list result" where
  "mapM_r f [] = Inr []"
| "mapM_r f (x # xs) = bind_r (f x) (\<lambda>y. bind_r (mapM_r f xs) (\<lambda>ys. Inr (y # ys)))"

lemma mapM_r_map: "(\<And>x. x \<in> set xs \<Longrightarrow> f (g x) = Inr (h x)) \<Longrightarrow> mapM_r f (map g xs) = Inr (map h xs)"
  by (induction xs) auto


text \<open>
  Iterating a value: a list gives its elements, a string its characters, a dictionary its keys;
  anything else raises. \<open>v.get(k)\<close> on a value that is not a dictionary raises.
\<close>

fun py_iter :: "pyval \<Rightarrow> pyval list result" where
  "py_iter (PyList xs) = Inr xs"
| "py_iter (PyStr s) = Inr (map (\<lambda>c. PyStr [c]) s)"
| "py_iter (PyDict d) = Inr (map (PyStr \<circ> fst) d)"
| "py_iter _ = Inl TypeError"

definition py_dict_of :: "pyval \<Rightarrow> pydict result" where
  "py_dict_of v = (case v of PyDict d \<Rightarrow> Inr d | _ \<Rightarrow> Inl AttributeError)"

definition py_str_of :: "pyval \<Rightarrow> string result" where
  "py_str_of v = (case v of PyStr s \<Rightarrow> Inr s | _ \<Rightarrow> Inl AttributeError)"

definition py_get_or :: "pydict \<Rightarrow> string \<Rightarrow> pyval \<Rightarrow> pyval" where
  "py_get_or d k v = (case map_of d k of None \<Rightarrow> v | Some x \<Rightarrow> x)"

lemma mapM_r_Inr_map:
  "mapM_r f xs = Inr ys \<Longrightarrow> length ys = length xs \<and> (\<forall>i < length xs. f (xs ! i) = Inr (ys ! i))"
proof (induction xs arbitrary: ys)
  case (Cons x xs)
  then obtain y zs where "f x = Inr y" "mapM_r f xs = Inr zs" "ys = y # zs"
    by (auto simp: bind_r_Inr_iff)
  then show ?case using Cons.IH[of zs] by (auto simp: nth_Cons split: nat.splits)
qed simp

end
