(* ===== verification/Scope_Ids.thy ===== *)
theory Scope_Ids
  imports Prelude
begin

text \<open>
  The three scope axes a memory row is written under: the principal (\<open>agents/principal_id.py\<close>),
  the session (\<open>agents/session_id.py\<close>) and the epoch (\<open>agents/epoch_id.py\<close>). Each module has a
  default, a task-local override (a \<open>ContextVar\<close>), an environment variable, a normaliser for the
  storage boundary, a context manager that binds the override for a block, and a reader of the
  override from event metadata.

  The task-local overrides and the environment are the record \<open>ambient\<close>. A \<open>with\<close> block is a
  state transformer on it: the scope runs the block's body under the bound value and restores the
  saved one afterwards, whether the body returns or raises (its result type is the caller's).
\<close>

record ambient =
  active_principal :: "string option"
  active_session :: "string option"
  active_epoch :: "string option"
  env_principal :: "string option"
  env_session :: "string option"
  env_epoch :: "string option"

text \<open>\<open>os.environ.get(name, "").strip()\<close>\<close>

definition env_stripped :: "string option \<Rightarrow> string" where
  "env_stripped v = py_strip (case v of None \<Rightarrow> [] | Some s \<Rightarrow> s)"


section \<open>The principal axis\<close>

definition DEFAULT_PRINCIPAL_ID :: string where "DEFAULT_PRINCIPAL_ID = ''local''"
definition EVENT_PRINCIPAL_METADATA_KEY :: string where
  "EVENT_PRINCIPAL_METADATA_KEY = ''persatrix_principal''"
definition SEEDED_PRINCIPAL_MAX_BYTES :: nat where "SEEDED_PRINCIPAL_MAX_BYTES = 256"

definition current_principal_id :: "ambient \<Rightarrow> string option" where
  "current_principal_id a = active_principal a"

definition resolve_principal_id_silent :: "ambient \<Rightarrow> string" where
  "resolve_principal_id_silent a =
     or_str (current_principal_id a)
       (or_str (Some (env_stripped (env_principal a))) DEFAULT_PRINCIPAL_ID)"

definition normalize_principal_id :: "string option \<Rightarrow> string" where
  "normalize_principal_id v =
     or_str (Some (py_strip (or_str v []))) DEFAULT_PRINCIPAL_ID"

definition principal_scope ::
  "string option \<Rightarrow> (string \<Rightarrow> ambient \<Rightarrow> 'r \<times> ambient) \<Rightarrow> ambient \<Rightarrow> 'r \<times> ambient" where
  "principal_scope pid body a =
     (let resolved = normalize_principal_id pid;
          token = active_principal a;
          (r, a') = body resolved (a\<lparr>active_principal := Some resolved\<rparr>)
      in (r, a'\<lparr>active_principal := token\<rparr>))"

definition principal_id_from_metadata :: "pydict \<Rightarrow> string option" where
  "principal_id_from_metadata md =
     (case py_get md EVENT_PRINCIPAL_METADATA_KEY of
        PyStr s \<Rightarrow> if s \<noteq> [] then Some s else None
      | _ \<Rightarrow> None)"

text \<open>A \<open>nullcontext\<close> yields \<open>None\<close> and binds nothing.\<close>

definition principal_scope_from_metadata ::
  "pydict \<Rightarrow> (string option \<Rightarrow> ambient \<Rightarrow> 'r \<times> ambient) \<Rightarrow> ambient \<Rightarrow> 'r \<times> ambient" where
  "principal_scope_from_metadata md body a =
     (case principal_id_from_metadata md of
        Some pid \<Rightarrow> principal_scope (Some pid) (\<lambda>s. body (Some s)) a
      | None \<Rightarrow> body None a)"

text \<open>
  Length of the UTF-8 encoding: a code point of the Latin-1 range takes one byte below 128 and
  two from there on.
\<close>

definition utf8_length :: "string \<Rightarrow> nat" where
  "utf8_length s = sum_list (map (\<lambda>c. if (of_char c :: nat) < 128 then 1 else 2) s)"

definition seed_principal_metadata :: "pydict \<Rightarrow> pyval \<Rightarrow> bool \<times> pydict" where
  "seed_principal_metadata md raw =
     (case raw of
        PyStr r \<Rightarrow>
          (let seeded = py_strip r in
             if seeded = [] \<or> utf8_length seeded > SEEDED_PRINCIPAL_MAX_BYTES then (False, md)
             else (True, AList.update EVENT_PRINCIPAL_METADATA_KEY (PyStr seeded) md))
      | _ \<Rightarrow> (False, md))"


section \<open>The session axis\<close>

definition LEGACY_SESSION_ID :: string where "LEGACY_SESSION_ID = ''legacy''"
definition EVENT_SESSION_METADATA_KEY :: string where
  "EVENT_SESSION_METADATA_KEY = ''persatrix_session''"

definition current_session_id :: "ambient \<Rightarrow> string option" where
  "current_session_id a = active_session a"

definition resolve_session_id_silent :: "ambient \<Rightarrow> string" where
  "resolve_session_id_silent a =
     or_str (current_session_id a)
       (or_str (Some (env_stripped (env_session a))) LEGACY_SESSION_ID)"

definition normalize_session_id :: "string option \<Rightarrow> string" where
  "normalize_session_id v = or_str (Some (py_strip (or_str v []))) LEGACY_SESSION_ID"

definition session_scope ::
  "string option \<Rightarrow> (string \<Rightarrow> ambient \<Rightarrow> 'r \<times> ambient) \<Rightarrow> ambient \<Rightarrow> 'r \<times> ambient" where
  "session_scope sid body a =
     (let resolved = normalize_session_id sid;
          token = active_session a;
          (r, a') = body resolved (a\<lparr>active_session := Some resolved\<rparr>)
      in (r, a'\<lparr>active_session := token\<rparr>))"

definition session_id_from_metadata :: "pydict \<Rightarrow> string option" where
  "session_id_from_metadata md =
     (case py_get md EVENT_SESSION_METADATA_KEY of
        PyStr s \<Rightarrow> if s \<noteq> [] then Some s else None
      | _ \<Rightarrow> None)"

definition session_scope_from_metadata ::
  "pydict \<Rightarrow> (string option \<Rightarrow> ambient \<Rightarrow> 'r \<times> ambient) \<Rightarrow> ambient \<Rightarrow> 'r \<times> ambient" where
  "session_scope_from_metadata md body a =
     (case session_id_from_metadata md of
        Some sid \<Rightarrow> session_scope (Some sid) (\<lambda>s. body (Some s)) a
      | None \<Rightarrow> body None a)"


section \<open>The epoch axis\<close>

definition DEFAULT_EPOCH_ID :: string where "DEFAULT_EPOCH_ID = ''live''"
definition EVENT_EPOCH_METADATA_KEY :: string where
  "EVENT_EPOCH_METADATA_KEY = ''persatrix_epoch''"

definition current_epoch_id :: "ambient \<Rightarrow> string option" where
  "current_epoch_id a = active_epoch a"

definition resolve_world_epoch_id :: "ambient \<Rightarrow> string" where
  "resolve_world_epoch_id a = or_str (Some (env_stripped (env_epoch a))) DEFAULT_EPOCH_ID"

definition resolve_epoch_id_silent :: "ambient \<Rightarrow> string" where
  "resolve_epoch_id_silent a = or_str (current_epoch_id a) (resolve_world_epoch_id a)"

definition normalize_epoch_id :: "string option \<Rightarrow> string" where
  "normalize_epoch_id v = or_str (Some (py_strip (or_str v []))) DEFAULT_EPOCH_ID"

definition epoch_scope ::
  "string option \<Rightarrow> (string \<Rightarrow> ambient \<Rightarrow> 'r \<times> ambient) \<Rightarrow> ambient \<Rightarrow> 'r \<times> ambient" where
  "epoch_scope eid body a =
     (let resolved = normalize_epoch_id eid;
          token = active_epoch a;
          (r, a') = body resolved (a\<lparr>active_epoch := Some resolved\<rparr>)
      in (r, a'\<lparr>active_epoch := token\<rparr>))"

definition epoch_id_from_metadata :: "pydict \<Rightarrow> string option" where
  "epoch_id_from_metadata md =
     (case py_get md EVENT_EPOCH_METADATA_KEY of
        PyStr s \<Rightarrow> if s \<noteq> [] then Some s else None
      | _ \<Rightarrow> None)"

definition epoch_scope_from_metadata ::
  "pydict \<Rightarrow> (string option \<Rightarrow> ambient \<Rightarrow> 'r \<times> ambient) \<Rightarrow> ambient \<Rightarrow> 'r \<times> ambient" where
  "epoch_scope_from_metadata md body a =
     (case epoch_id_from_metadata md of
        Some eid \<Rightarrow> epoch_scope (Some eid) (\<lambda>s. body (Some s)) a
      | None \<Rightarrow> body None a)"


section \<open>What every axis promises\<close>

text \<open>
  The contract the storage boundary relies on, stated once for the three axes: a normaliser into
  the stripped, non-blank ids; an ambient resolver; the task-local variable it reads first; and the
  scope that binds it. \<open>canonical\<close> ids are the fixed points of the normaliser.
\<close>

definition canonical :: "string \<Rightarrow> bool" where
  "canonical s \<longleftrightarrow> s \<noteq> [] \<and> py_strip s = s"

locale id_axis =
  fixes dflt :: string
    and norm :: "string option \<Rightarrow> string"
    and current :: "ambient \<Rightarrow> string option"
    and resolve :: "ambient \<Rightarrow> string"
    and bind_to :: "string option \<Rightarrow> ambient \<Rightarrow> ambient"
    and env_of :: "ambient \<Rightarrow> string option"
  assumes dflt_canonical: "canonical dflt"
    and norm_eq: "norm v = or_str (Some (py_strip (or_str v []))) dflt"
    and resolve_eq: "resolve a = or_str (current a) (or_str (Some (env_stripped (env_of a))) dflt)"
    and current_bind: "current (bind_to v a) = v"
    and env_bind: "env_of (bind_to v a) = env_of a"
    and bind_bind: "bind_to v (bind_to w a) = bind_to v a"
begin

lemma norm_canonical: "canonical (norm v)"
  using dflt_canonical by (auto simp: norm_eq canonical_def or_str_def)

lemma norm_fixes_canonical: "canonical s \<Longrightarrow> norm (Some s) = s"
  by (simp add: norm_eq canonical_def)

lemma norm_idem: "norm (Some (norm v)) = norm v"
  by (rule norm_fixes_canonical[OF norm_canonical])

lemma norm_blank: "py_strip (or_str v []) = [] \<Longrightarrow> norm v = dflt"
  by (simp add: norm_eq)

lemma resolve_canonical:
  assumes "\<And>s. current a = Some s \<Longrightarrow> canonical s"
  shows "canonical (resolve a)"
proof (cases "current a")
  case None
  then show ?thesis
    using dflt_canonical by (auto simp: resolve_eq canonical_def or_str_def env_stripped_def)
next
  case (Some s)
  then show ?thesis using assms[OF Some] by (simp add: resolve_eq canonical_def)
qed

lemma resolve_under_scope: "resolve (bind_to (Some (norm v)) a) = norm v"
  using norm_canonical[of v] by (simp add: resolve_eq current_bind canonical_def)

lemma norm_resolve:
  assumes "\<And>s. current a = Some s \<Longrightarrow> canonical s"
  shows "norm (Some (resolve a)) = resolve a"
  by (rule norm_fixes_canonical[OF resolve_canonical]) (rule assms)

end

interpretation principal: id_axis
  DEFAULT_PRINCIPAL_ID normalize_principal_id current_principal_id resolve_principal_id_silent
  "\<lambda>v a. a\<lparr>active_principal := v\<rparr>" env_principal
  by unfold_locales
    (simp_all add: canonical_def DEFAULT_PRINCIPAL_ID_def normalize_principal_id_def
      resolve_principal_id_silent_def current_principal_id_def py_strip_fixed py_isspace_def)

interpretation session: id_axis
  LEGACY_SESSION_ID normalize_session_id current_session_id resolve_session_id_silent
  "\<lambda>v a. a\<lparr>active_session := v\<rparr>" env_session
  by unfold_locales
    (simp_all add: canonical_def LEGACY_SESSION_ID_def normalize_session_id_def
      resolve_session_id_silent_def current_session_id_def py_strip_fixed py_isspace_def)

interpretation epoch: id_axis
  DEFAULT_EPOCH_ID normalize_epoch_id current_epoch_id resolve_epoch_id_silent
  "\<lambda>v a. a\<lparr>active_epoch := v\<rparr>" env_epoch
  by unfold_locales
    (simp_all add: canonical_def DEFAULT_EPOCH_ID_def normalize_epoch_id_def
      resolve_epoch_id_silent_def resolve_world_epoch_id_def current_epoch_id_def
      py_strip_fixed py_isspace_def)


section \<open>Scopes\<close>

text \<open>Inside a scope the bound id is the resolved one; after it the old override is back.\<close>

lemma principal_scope_runs:
  "principal_scope pid body a =
     (let p = body (normalize_principal_id pid) (a\<lparr>active_principal := Some (normalize_principal_id pid)\<rparr>)
      in (fst p, (snd p)\<lparr>active_principal := active_principal a\<rparr>))"
  by (simp add: principal_scope_def Let_def split: prod.splits)

lemma session_scope_runs:
  "session_scope sid body a =
     (let p = body (normalize_session_id sid) (a\<lparr>active_session := Some (normalize_session_id sid)\<rparr>)
      in (fst p, (snd p)\<lparr>active_session := active_session a\<rparr>))"
  by (simp add: session_scope_def Let_def split: prod.splits)

lemma epoch_scope_runs:
  "epoch_scope eid body a =
     (let p = body (normalize_epoch_id eid) (a\<lparr>active_epoch := Some (normalize_epoch_id eid)\<rparr>)
      in (fst p, (snd p)\<lparr>active_epoch := active_epoch a\<rparr>))"
  by (simp add: epoch_scope_def Let_def split: prod.splits)

lemmas scope_runs = principal_scope_runs session_scope_runs epoch_scope_runs

lemma seeded_principal_read_back:
  "seed_principal_metadata md raw = (True, md') \<Longrightarrow>
     \<exists>s. raw = PyStr s \<and> principal_id_from_metadata md' = Some (py_strip s) \<and> canonical (py_strip s)"
  by (auto simp: seed_principal_metadata_def principal_id_from_metadata_def Let_def canonical_def
      split: pyval.splits if_splits)

text \<open>
  A scope on any of the three axes restores the override it replaced, whatever its body does,
  and inside it the ambient resolver gives exactly the canonical (stripped, non-blank) form of the
  requested id, so a blank request can never fall through to the process's environment.
\<close>

lemma scopes_isolate:
  "active_principal (snd (principal_scope pid body a)) = active_principal a \<and>
   fst (principal_scope pid (\<lambda>s b. ((s, resolve_principal_id_silent b), b)) a)
     = (normalize_principal_id pid, normalize_principal_id pid) \<and>
   canonical (normalize_principal_id pid) \<and>
   active_session (snd (session_scope sid body a)) = active_session a \<and>
   fst (session_scope sid (\<lambda>s b. ((s, resolve_session_id_silent b), b)) a)
     = (normalize_session_id sid, normalize_session_id sid) \<and>
   canonical (normalize_session_id sid) \<and>
   active_epoch (snd (epoch_scope eid body a)) = active_epoch a \<and>
   fst (epoch_scope eid (\<lambda>s b. ((s, resolve_epoch_id_silent b), b)) a)
     = (normalize_epoch_id eid, normalize_epoch_id eid) \<and>
   canonical (normalize_epoch_id eid)"
  by (simp add: principal.norm_canonical principal.resolve_under_scope
      session.norm_canonical session.resolve_under_scope
      epoch.norm_canonical epoch.resolve_under_scope scope_runs Let_def)

text \<open>
  Seeding a replayed row's principal marks the span attributed exactly when the value read back
  from the metadata normalises to itself: the presence bit and the tenant the record key will use
  always agree, and a value that is not a non-blank string of at most 256 bytes changes nothing.
\<close>

lemma seed_principal_agrees:
  "(case seed_principal_metadata md raw of
      (True, md') \<Rightarrow> \<exists>s. raw = PyStr s \<and> principal_id_from_metadata md' = Some (py_strip s) \<and>
         normalize_principal_id (principal_id_from_metadata md') = py_strip s \<and>
         utf8_length (py_strip s) \<le> SEEDED_PRINCIPAL_MAX_BYTES
    | (False, md') \<Rightarrow> md' = md \<and>
         (\<forall>s. raw = PyStr s \<longrightarrow>
            py_strip s = [] \<or> utf8_length (py_strip s) > SEEDED_PRINCIPAL_MAX_BYTES))"
proof (cases "seed_principal_metadata md raw")
  case (Pair ok md')
  show ?thesis
  proof (cases ok)
    case True
    with Pair have "seed_principal_metadata md raw = (True, md')" by simp
    then obtain s where s: "raw = PyStr s"
        "principal_id_from_metadata md' = Some (py_strip s)" "canonical (py_strip s)"
      using seeded_principal_read_back by blast
    moreover have "utf8_length (py_strip s) \<le> SEEDED_PRINCIPAL_MAX_BYTES"
      using Pair True s(1) by (auto simp: seed_principal_metadata_def Let_def split: if_splits)
    ultimately show ?thesis using Pair True by (simp add: principal.norm_fixes_canonical)
  next
    case False
    then show ?thesis using Pair
      by (auto simp: seed_principal_metadata_def Let_def split: pyval.splits if_splits)
  qed
qed

theorem seed_principal_agrees_witness:
  "seed_principal_metadata [] (PyStr '' acme '') =
     (True, [(EVENT_PRINCIPAL_METADATA_KEY, PyStr ''acme'')]) \<and>
   normalize_principal_id (principal_id_from_metadata
      [(EVENT_PRINCIPAL_METADATA_KEY, PyStr ''acme'')]) = ''acme''"
proof -
  have e: "seed_principal_metadata [] (PyStr '' acme '') =
     (True, [(EVENT_PRINCIPAL_METADATA_KEY, PyStr ''acme'')])"
    by code_simp
  show ?thesis using seed_principal_agrees[where md = "[]" and raw = "PyStr '' acme ''"] unfolding e
    by (auto simp: principal_id_from_metadata_def split: if_splits)
qed

end
