(* ===== verification/Classification.thy ===== *)
theory Classification
  imports Prelude
begin

text \<open>
  The confidentiality lattice (\<open>agents/persona_runtime/classification.py\<close>): four level names with
  a total order, and one resolver per fail-closed rule. Level names are wire strings, so every
  resolver is defined on an optional string; the abstract lattice \<open>level\<close>, a linear order, is the
  specification the resolvers are proved to implement.
\<close>

section \<open>The module\<close>

definition CLASSIFICATION_PUBLIC :: string where "CLASSIFICATION_PUBLIC = ''public''"
definition CLASSIFICATION_INTERNAL :: string where "CLASSIFICATION_INTERNAL = ''internal''"
definition CLASSIFICATION_RESTRICTED :: string where "CLASSIFICATION_RESTRICTED = ''restricted''"
definition CLASSIFICATION_SECRET :: string where "CLASSIFICATION_SECRET = ''secret''"

definition DEFAULT_CLASSIFICATION :: string where
  "DEFAULT_CLASSIFICATION = CLASSIFICATION_INTERNAL"

definition CLASSIFICATION_RANKS :: "(string \<times> int) list" where
  "CLASSIFICATION_RANKS =
     [(CLASSIFICATION_PUBLIC, 0), (CLASSIFICATION_INTERNAL, 1),
      (CLASSIFICATION_RESTRICTED, 2), (CLASSIFICATION_SECRET, 3)]"

text \<open>\<open>CLASSIFICATION_RANKS[level]\<close>: a \<open>KeyError\<close> for a string outside the vocabulary.\<close>

definition rank_index :: "string \<Rightarrow> int result" where
  "rank_index level = (case map_of CLASSIFICATION_RANKS level of None \<Rightarrow> Inl KeyError | Some r \<Rightarrow> Inr r)"

definition classification_rank :: "string option \<Rightarrow> int option" where
  "classification_rank level =
     (case level of None \<Rightarrow> None | Some l \<Rightarrow> map_of CLASSIFICATION_RANKS l)"

definition is_valid_classification :: "string option \<Rightarrow> bool" where
  "is_valid_classification level \<longleftrightarrow>
     (case level of None \<Rightarrow> False | Some l \<Rightarrow> map_of CLASSIFICATION_RANKS l \<noteq> None)"

definition normalize_for_stamp :: "string option \<Rightarrow> string" where
  "normalize_for_stamp level =
     (case level of
        Some l \<Rightarrow> if map_of CLASSIFICATION_RANKS l \<noteq> None then l else DEFAULT_CLASSIFICATION
      | None \<Rightarrow> DEFAULT_CLASSIFICATION)"

definition rank_for_stamp :: "string option \<Rightarrow> int result" where
  "rank_for_stamp level = rank_index (normalize_for_stamp level)"

definition acting_rank :: "string option \<Rightarrow> int result" where
  "acting_rank level =
     (case classification_rank level of
        Some rank \<Rightarrow> Inr rank
      | None \<Rightarrow> rank_index CLASSIFICATION_PUBLIC)"

definition normalize_acting :: "string option \<Rightarrow> string" where
  "normalize_acting level =
     (case level of
        Some l \<Rightarrow> if map_of CLASSIFICATION_RANKS l \<noteq> None then l else CLASSIFICATION_PUBLIC
      | None \<Rightarrow> CLASSIFICATION_PUBLIC)"

definition acting_at_or_below_internal :: "string option \<Rightarrow> bool result" where
  "acting_at_or_below_internal level =
     bind_r (acting_rank level) (\<lambda>r. bind_r (rank_index CLASSIFICATION_INTERNAL) (\<lambda>i. Inr (r \<le> i)))"

definition entry_rank_or_withhold :: "string option \<Rightarrow> int option" where
  "entry_rank_or_withhold level = classification_rank level"

definition injectable_levels :: "string option \<Rightarrow> string list result" where
  "injectable_levels acting =
     bind_r (acting_rank acting)
       (\<lambda>bound. Inr (map fst (filter (\<lambda>(level, rank). rank \<le> bound) CLASSIFICATION_RANKS)))"

definition levels_below_stamp :: "string option \<Rightarrow> string list result" where
  "levels_below_stamp level =
     bind_r (rank_for_stamp level)
       (\<lambda>bound. Inr (map fst (filter (\<lambda>(level, rank). rank < bound) CLASSIFICATION_RANKS)))"


section \<open>The abstract lattice\<close>

datatype level = Public | Internal | Restricted | Secret

fun level_ord :: "level \<Rightarrow> int" where
  "level_ord Public = 0"
| "level_ord Internal = 1"
| "level_ord Restricted = 2"
| "level_ord Secret = 3"

lemma level_ord_inj: "level_ord a = level_ord b \<Longrightarrow> a = b"
  by (cases a; cases b) auto

lemma level_ord_range: "0 \<le> level_ord a \<and> level_ord a \<le> 3"
  by (cases a) auto

instantiation level :: linorder
begin

definition less_eq_level :: "level \<Rightarrow> level \<Rightarrow> bool" where
  "less_eq_level a b \<longleftrightarrow> level_ord a \<le> level_ord b"

definition less_level :: "level \<Rightarrow> level \<Rightarrow> bool" where
  "less_level a b \<longleftrightarrow> level_ord a < level_ord b"

instance
  by standard (auto simp: less_eq_level_def less_level_def dest: level_ord_inj)

end

text \<open>Reading a wire string, and writing a level.\<close>

definition level_of :: "string \<Rightarrow> level option" where
  "level_of s =
     (if s = CLASSIFICATION_PUBLIC then Some Public
      else if s = CLASSIFICATION_INTERNAL then Some Internal
      else if s = CLASSIFICATION_RESTRICTED then Some Restricted
      else if s = CLASSIFICATION_SECRET then Some Secret
      else None)"

fun level_name :: "level \<Rightarrow> string" where
  "level_name Public = CLASSIFICATION_PUBLIC"
| "level_name Internal = CLASSIFICATION_INTERNAL"
| "level_name Restricted = CLASSIFICATION_RESTRICTED"
| "level_name Secret = CLASSIFICATION_SECRET"

lemmas level_names = CLASSIFICATION_PUBLIC_def CLASSIFICATION_INTERNAL_def
  CLASSIFICATION_RESTRICTED_def CLASSIFICATION_SECRET_def

lemma level_of_name [simp]: "level_of (level_name l) = Some l"
  by (cases l) (simp_all add: level_of_def level_names)

lemma level_of_SomeD: "level_of s = Some l \<Longrightarrow> s = level_name l"
  by (auto simp: level_of_def split: if_splits)

lemma level_of_iff: "level_of s = Some l \<longleftrightarrow> s = level_name l"
  using level_of_SomeD level_of_name by blast

text \<open>The lookup table is the order of the lattice.\<close>

lemma map_of_ranks: "map_of CLASSIFICATION_RANKS s = map_option level_ord (level_of s)"
  by (simp add: CLASSIFICATION_RANKS_def level_of_def level_names)

lemma rank_index_name [simp]: "rank_index (level_name l) = Inr (level_ord l)"
  by (simp add: rank_index_def map_of_ranks)

lemma classification_rank_eq:
  "classification_rank v = map_option level_ord (Option.bind v level_of)"
  by (cases v) (simp_all add: classification_rank_def map_of_ranks)

text \<open>Membership in the two level sets, read on the abstract lattice.\<close>

lemma names_of_ranks:
  "x \<in> set (map fst (filter (\<lambda>(l, r). P r) CLASSIFICATION_RANKS)) \<longleftrightarrow>
     (\<exists>l. level_of x = Some l \<and> P (level_ord l))"
proof -
  have "\<And>r. (x, r) \<in> set CLASSIFICATION_RANKS \<longleftrightarrow> map_option level_ord (level_of x) = Some r"
    by (auto simp: CLASSIFICATION_RANKS_def level_of_def level_names)
  then show ?thesis by force
qed


section \<open>One default per rule\<close>

text \<open>
  The three rules disagree on what an unknown label means. A \<open>resolver\<close> is a reading of an optional
  label that agrees with the lattice on every known label and sends the others to one default;
  rules (a) and (b) are its two interpretations, with defaults in opposite directions.
\<close>

definition abs_level :: "level \<Rightarrow> string option \<Rightarrow> level" where
  "abs_level d v = (case Option.bind v level_of of Some l \<Rightarrow> l | None \<Rightarrow> d)"

locale resolver =
  fixes dflt :: level
    and to_name :: "string option \<Rightarrow> string"
    and to_rank :: "string option \<Rightarrow> int result"
  assumes name_ok: "to_name v = level_name (abs_level dflt v)"
    and rank_ok: "to_rank v = Inr (level_ord (abs_level dflt v))"
begin

lemma rank_total: "\<exists>r. to_rank v = Inr r \<and> 0 \<le> r \<and> r \<le> 3"
  using level_ord_range by (auto simp: rank_ok)

lemma rank_known: "level_of s = Some l \<Longrightarrow> to_rank (Some s) = Inr (level_ord l)"
  by (simp add: rank_ok abs_level_def)

lemma rank_unknown: "Option.bind v level_of = None \<Longrightarrow> to_rank v = Inr (level_ord dflt)"
  by (simp add: rank_ok abs_level_def)

lemma name_valid: "level_of (to_name v) = Some (abs_level dflt v)"
  by (simp add: name_ok)

lemma name_idem: "to_name (Some (to_name v)) = to_name v"
  by (simp add: name_ok abs_level_def)

end

interpretation stamp: resolver Internal normalize_for_stamp rank_for_stamp
  by unfold_locales
    (auto simp: rank_for_stamp_def normalize_for_stamp_def abs_level_def map_of_ranks
      DEFAULT_CLASSIFICATION_def level_of_iff rank_index_def level_of_def level_names
      split: option.splits)

interpretation acting: resolver Public normalize_acting acting_rank
  by unfold_locales
    (auto simp: acting_rank_def classification_rank_eq normalize_acting_def abs_level_def
      map_of_ranks rank_index_def level_of_iff level_of_def level_names split: option.splits)

lemma entry_rank_eq: "entry_rank_or_withhold v = map_option level_ord (Option.bind v level_of)"
  by (simp add: entry_rank_or_withhold_def classification_rank_eq)

lemma injectable_levels_eq:
  "\<exists>ls. injectable_levels a = Inr ls \<and>
     (\<forall>x. x \<in> set ls \<longleftrightarrow> (\<exists>l. level_of x = Some l \<and> l \<le> abs_level Public a))"
proof -
  let ?ls = "map fst (filter (\<lambda>(level, rank). rank \<le> level_ord (abs_level Public a)) CLASSIFICATION_RANKS)"
  have "injectable_levels a = Inr ?ls" by (simp add: injectable_levels_def acting.rank_ok)
  moreover have "\<forall>x. x \<in> set ?ls \<longleftrightarrow> (\<exists>l. level_of x = Some l \<and> l \<le> abs_level Public a)"
    unfolding names_of_ranks by (simp add: less_eq_level_def)
  ultimately show ?thesis by blast
qed

lemma levels_below_stamp_eq:
  "\<exists>ls. levels_below_stamp a = Inr ls \<and>
     (\<forall>x. x \<in> set ls \<longleftrightarrow> (\<exists>l. level_of x = Some l \<and> l < abs_level Internal a))"
proof -
  let ?ls = "map fst (filter (\<lambda>(level, rank). rank < level_ord (abs_level Internal a)) CLASSIFICATION_RANKS)"
  have "levels_below_stamp a = Inr ?ls" by (simp add: levels_below_stamp_def stamp.rank_ok)
  moreover have "\<forall>x. x \<in> set ?ls \<longleftrightarrow> (\<exists>l. level_of x = Some l \<and> l < abs_level Internal a)"
    unfolding names_of_ranks by (simp add: less_level_def)
  ultimately show ?thesis by blast
qed


section \<open>Properties\<close>

text \<open>
  The level set handed to the recall predicates is the gate's own decision: a stored label is in
  \<open>injectable_levels\<close> of the acting level exactly when it parses and ranks at or below the acting
  rank, so a corrupted label is withheld whatever the acting level; the set never fails to compute.
\<close>

lemma injectable_levels_is_gate:
  "\<exists>ls bound. injectable_levels acting = Inr ls \<and> acting_rank acting = Inr bound \<and>
     (\<forall>entry. entry \<in> set ls \<longleftrightarrow>
        (case entry_rank_or_withhold (Some entry) of None \<Rightarrow> False | Some r \<Rightarrow> r \<le> bound))"
proof -
  obtain ls where ls: "injectable_levels acting = Inr ls"
      "\<forall>x. x \<in> set ls \<longleftrightarrow> (\<exists>l. level_of x = Some l \<and> l \<le> abs_level Public acting)"
    using injectable_levels_eq by blast
  have "\<forall>entry. entry \<in> set ls \<longleftrightarrow> (case entry_rank_or_withhold (Some entry) of
      None \<Rightarrow> False | Some r \<Rightarrow> r \<le> level_ord (abs_level Public acting))"
    using ls(2) by (auto simp: entry_rank_eq less_eq_level_def split: option.splits)
  then show ?thesis using ls(1) by (auto simp: acting.rank_ok)
qed

text \<open>
  The three fail-closed rules move in the directions the module states. For a label outside the
  vocabulary (absent, empty, misspelt) the stamp is \<open>internal\<close>, the acting rank is the floor of
  \<open>public\<close> and the entry is withheld; for a known label all three agree with the lattice. An absent
  acting level therefore always sees a subset of what any stated level sees.
\<close>

lemma fail_closed_directions:
  "(if is_valid_classification v
    then normalize_for_stamp v = the v \<and> normalize_acting v = the v \<and>
         (\<exists>r. rank_for_stamp v = Inr r \<and> acting_rank v = Inr r \<and> entry_rank_or_withhold v = Some r)
    else normalize_for_stamp v = CLASSIFICATION_INTERNAL \<and>
         normalize_acting v = CLASSIFICATION_PUBLIC \<and>
         rank_for_stamp v = Inr 1 \<and> acting_rank v = Inr 0 \<and> entry_rank_or_withhold v = None) \<and>
   (\<exists>floor ls. injectable_levels None = Inr floor \<and> injectable_levels v = Inr ls \<and> set floor \<subseteq> set ls)"
proof
  show "if is_valid_classification v
    then normalize_for_stamp v = the v \<and> normalize_acting v = the v \<and>
         (\<exists>r. rank_for_stamp v = Inr r \<and> acting_rank v = Inr r \<and> entry_rank_or_withhold v = Some r)
    else normalize_for_stamp v = CLASSIFICATION_INTERNAL \<and>
         normalize_acting v = CLASSIFICATION_PUBLIC \<and>
         rank_for_stamp v = Inr 1 \<and> acting_rank v = Inr 0 \<and> entry_rank_or_withhold v = None"
    by (auto simp: is_valid_classification_def map_of_ranks stamp.name_ok acting.name_ok
        stamp.rank_ok acting.rank_ok entry_rank_eq abs_level_def dest: level_of_SomeD
        split: option.splits)
  have "Public \<le> abs_level Public v" by (simp add: less_eq_level_def level_ord_range)
  then show "\<exists>floor ls. injectable_levels None = Inr floor \<and> injectable_levels v = Inr ls
      \<and> set floor \<subseteq> set ls"
    using injectable_levels_eq[of None] injectable_levels_eq[of v]
    by (fastforce simp: abs_level_def)
qed

text \<open>
  The raise-only re-stamp. \<open>levels_below_stamp\<close> names exactly the stored labels an edit raises:
  replacing a label in that set by the acting stamp and keeping any other gives the maximum of the
  two levels when the stored label parses, and keeps a corrupted label as it is, so an edit neither
  lowers a level nor launders an unreadable one onto the lattice.
\<close>

lemma restamp_is_max:
  "\<exists>below. levels_below_stamp acting = Inr below \<and>
     (\<forall>stored. let kept = (if stored \<in> set below then normalize_for_stamp acting else stored) in
        case level_of stored of
          Some l \<Rightarrow> level_of kept = Some (max l (abs_level Internal acting))
        | None \<Rightarrow> kept = stored)"
proof -
  obtain ls where ls: "levels_below_stamp acting = Inr ls"
      "\<forall>x. x \<in> set ls \<longleftrightarrow> (\<exists>l. level_of x = Some l \<and> l < abs_level Internal acting)"
    using levels_below_stamp_eq by blast
  have "\<forall>stored. let kept = (if stored \<in> set ls then normalize_for_stamp acting else stored) in
        case level_of stored of
          Some l \<Rightarrow> level_of kept = Some (max l (abs_level Internal acting))
        | None \<Rightarrow> kept = stored"
    using ls(2) stamp.name_valid by (auto simp: Let_def max_def split: option.splits)
  then show ?thesis using ls(1) by blast
qed

end
