(* ===== verification/Audience.thy ===== *)
theory Audience
  imports Classification "HOL-Library.List_Lexorder" "HOL-Library.Char_ord"
begin

text \<open>
  Who is in the room (\<open>agents/persona_runtime/audience.py\<close>): the audience verdict on an entry that
  already passed the classification comparison, and the resolution of the member sets a turn needs.
  The roster service is outside the program; a fetch is a parameter that may raise or return a
  parsed JSON value. The concurrent fetches are independent, so they are a map over the rooms.
\<close>

text \<open>A memory entry as the gate reads it, whichever tier stored it.\<close>

record mem_entry =
  entry_id :: string
  protection_level :: "string option"
  source_channel_id :: "string option"
  interaction_id :: "string option"
  summary :: string

definition AUDIENCE_OFF :: string where "AUDIENCE_OFF = ''off''"
definition AUDIENCE_SHADOW :: string where "AUDIENCE_SHADOW = ''shadow''"
definition AUDIENCE_LIVE :: string where "AUDIENCE_LIVE = ''live''"

definition AUDIENCE_MODES :: "string list" where
  "AUDIENCE_MODES = [AUDIENCE_OFF, AUDIENCE_SHADOW, AUDIENCE_LIVE]"

definition AUDIENCE_TIERS :: "string list" where
  "AUDIENCE_TIERS = [''channel_history'', ''facts'', ''episodic'']"

definition DEFAULT_MEMORY_AUDIENCE :: string where "DEFAULT_MEMORY_AUDIENCE = AUDIENCE_LIVE"

datatype AudienceVerdict =
    ADMIT | WITHHOLD_DISJOINT | WITHHOLD_UNKNOWN_FETCH_FAILED | WITHHOLD_UNKNOWN_NO_PROVENANCE

definition ENFORCED_VERDICTS :: "AudienceVerdict list" where
  "ENFORCED_VERDICTS = [WITHHOLD_DISJOINT]"

record AudienceRecord =
  ar_tier :: string
  ar_entry_id :: string
  ar_protection_level :: string
  ar_source_channel_id :: "string option"
  ar_verdict :: AudienceVerdict

text \<open>
  \<open>(config.get("memory") or {}).get("egress") or {}\<close>: a value that is truthy and not a dictionary
  has no \<open>get\<close>, so the access raises.
\<close>

definition sub_dict :: "pyval \<Rightarrow> pydict result" where
  "sub_dict v = (if \<not> truthy v then Inr [] else py_dict_of v)"

definition resolve_memory_audience :: "pydict \<Rightarrow> string result" where
  "resolve_memory_audience config =
     bind_r (sub_dict (py_get config ''memory'')) (\<lambda>mem.
     bind_r (sub_dict (py_get mem ''egress'')) (\<lambda>egress.
       case py_get egress ''audience'' of
         PyNone \<Rightarrow> Inr DEFAULT_MEMORY_AUDIENCE
       | PyStr raw \<Rightarrow> if raw \<in> set AUDIENCE_MODES then Inr raw else Inl ValueError
       | _ \<Rightarrow> Inl ValueError))"

type_synonym rooms = "(string \<times> string set option) list"

definition room_get :: "rooms \<Rightarrow> string \<Rightarrow> string set option" where
  "room_get rs k = (case map_of rs k of Some m \<Rightarrow> m | None \<Rightarrow> None)"

record TurnAudience =
  mode :: string
  acting_channel_id :: "string option"
  rooms_of :: rooms
  fetches :: nat
  source_rooms :: nat
  acting_members :: "string set option"

text \<open>The constructor, with the snapshot \<open>__post_init__\<close> takes.\<close>

definition mk_TurnAudience ::
  "string \<Rightarrow> string option \<Rightarrow> rooms \<Rightarrow> nat \<Rightarrow> nat \<Rightarrow> TurnAudience" where
  "mk_TurnAudience m ch rs n k =
     \<lparr>mode = m, acting_channel_id = ch, rooms_of = rs, fetches = n, source_rooms = k,
      acting_members =
        (case ch of Some c \<Rightarrow> if c \<noteq> [] then room_get rs c else None | None \<Rightarrow> None)\<rparr>"

definition enforcing :: "TurnAudience \<Rightarrow> bool" where
  "enforcing a \<longleftrightarrow> mode a = AUDIENCE_LIVE"

definition verdict :: "TurnAudience \<Rightarrow> string \<Rightarrow> string \<Rightarrow> string option \<Rightarrow> AudienceVerdict option" where
  "verdict a tier level src =
     (if tier \<notin> set AUDIENCE_TIERS then None
      else if level = CLASSIFICATION_PUBLIC then None
      else if or_str src [] = [] then Some WITHHOLD_UNKNOWN_NO_PROVENANCE
      else (case (room_get (rooms_of a) (the src), acting_members a) of
              (Some source, Some acting) \<Rightarrow>
                if acting \<subseteq> source then Some ADMIT else Some WITHHOLD_DISJOINT
            | _ \<Rightarrow> Some WITHHOLD_UNKNOWN_FETCH_FAILED))"

text \<open>The dictionary \<open>seen\<close> keeps the first occurrence of each room.\<close>

definition add_room :: "string list \<Rightarrow> string \<Rightarrow> string list" where
  "add_room seen r = (if r \<in> set seen then seen else seen @ [r])"

definition judged_room :: "int \<Rightarrow> mem_entry \<Rightarrow> string option" where
  "judged_room acting e =
     (if protection_level e = Some CLASSIFICATION_PUBLIC then None
      else case entry_rank_or_withhold (protection_level e) of
             None \<Rightarrow> None
           | Some r \<Rightarrow>
               if r > acting then None
               else (case source_channel_id e of
                       Some room \<Rightarrow> if room \<noteq> [] then Some room else None
                     | None \<Rightarrow> None))"

fun rooms_of_tier :: "int \<Rightarrow> mem_entry list \<Rightarrow> string list \<Rightarrow> string list" where
  "rooms_of_tier acting [] seen = seen"
| "rooms_of_tier acting (e # es) seen =
     rooms_of_tier acting es
       (case judged_room acting e of None \<Rightarrow> seen | Some r \<Rightarrow> add_room seen r)"

fun distinct_source_rooms :: "int \<Rightarrow> (string \<times> mem_entry list) list \<Rightarrow> string list \<Rightarrow> string list" where
  "distinct_source_rooms acting [] seen = seen"
| "distinct_source_rooms acting ((tier, es) # rest) seen =
     distinct_source_rooms acting rest
       (if tier \<in> set AUDIENCE_TIERS then rooms_of_tier acting es seen else seen)"

datatype fetch_answer = Fetch_raises | Fetched pyval

definition member_id :: "pyval \<Rightarrow> string option" where
  "member_id m =
     (case m of
        PyDict d \<Rightarrow> (case py_get d ''id'' of PyStr s \<Rightarrow> if s \<noteq> [] then Some s else None | _ \<Rightarrow> None)
      | _ \<Rightarrow> None)"

definition member_ids_from_meta :: "pyval \<Rightarrow> string set option" where
  "member_ids_from_meta meta =
     (case meta of
        PyDict d \<Rightarrow>
          (case py_get d ''members'' of
             PyList declared \<Rightarrow>
               (let ids = set (List.map_filter member_id declared)
                in if ids = {} then None else Some ids)
           | _ \<Rightarrow> None)
      | _ \<Rightarrow> None)"

definition fetch_member_ids :: "(string \<Rightarrow> fetch_answer) option \<Rightarrow> string \<Rightarrow> string set option" where
  "fetch_member_ids fetcher room =
     (case fetcher of
        None \<Rightarrow> None
      | Some f \<Rightarrow> (case f room of Fetch_raises \<Rightarrow> None | Fetched meta \<Rightarrow> member_ids_from_meta meta))"

text \<open>The acting roster, as far as the audience reads it: its channel and its member ids.\<close>

record ChannelRoster =
  roster_channel_id :: string
  member_ids :: "string set"

definition resolve_turn_audience ::
  "(string \<Rightarrow> fetch_answer) option \<Rightarrow> ChannelRoster option \<Rightarrow> string \<Rightarrow> string option \<Rightarrow>
   string option \<Rightarrow> (string \<times> mem_entry list) list \<Rightarrow> TurnAudience option result" where
  "resolve_turn_audience fetcher roster m acting_ch acting_cls candidates =
     (if m = AUDIENCE_OFF then Inr None else
      bind_r (acting_rank acting_cls) (\<lambda>acting.
      bind_r (rank_index CLASSIFICATION_PUBLIC) (\<lambda>floor.
        if acting \<le> floor then Inr None else
        let members =
              (case (roster, acting_ch) of
                 (Some r, Some c) \<Rightarrow> if roster_channel_id r = c then Some (member_ids r) else None
               | _ \<Rightarrow> None);
            rs = (case acting_ch of Some c \<Rightarrow> if c \<noteq> [] then [(c, members)] else [] | None \<Rightarrow> []);
            srcs = distinct_source_rooms acting candidates [];
            view = mk_TurnAudience m acting_ch rs 0 (length srcs)
        in if members = None \<or> fetcher = None then Inr (Some view)
           else let pending = filter (\<lambda>r. map_of rs r = None) srcs;
                    resolved = map (fetch_member_ids fetcher) pending;
                    rs' = fold (\<lambda>(k, v). AList.update k v) (zip pending resolved) rs
                in Inr (Some (mk_TurnAudience m acting_ch rs' (length pending) (length srcs))))))"


section \<open>Lemmas\<close>

lemma enforced_iff [simp]: "v \<in> set ENFORCED_VERDICTS \<longleftrightarrow> v = WITHHOLD_DISJOINT"
  by (simp add: ENFORCED_VERDICTS_def)

lemma verdict_public [simp]: "verdict a tier CLASSIFICATION_PUBLIC src = None"
  by (simp add: verdict_def)

lemma judged_room_SomeD:
  "judged_room acting e = Some r \<Longrightarrow>
     source_channel_id e = Some r \<and> r \<noteq> [] \<and> the (protection_level e) \<noteq> CLASSIFICATION_PUBLIC"
  by (auto simp: judged_room_def entry_rank_eq split: option.splits if_splits bind_splits)

lemma set_rooms_of_tier:
  "set (rooms_of_tier acting es seen) = set seen \<union> {r. \<exists>e \<in> set es. judged_room acting e = Some r}"
  by (induction es arbitrary: seen) (auto simp: add_room_def split: option.splits)

lemma distinct_rooms_of_tier: "distinct seen \<Longrightarrow> distinct (rooms_of_tier acting es seen)"
  by (induction es arbitrary: seen) (auto simp: add_room_def split: option.splits)

lemma set_distinct_source_rooms:
  "set (distinct_source_rooms acting cs seen) = set seen \<union>
     {r. \<exists>tier es e. (tier, es) \<in> set cs \<and> tier \<in> set AUDIENCE_TIERS \<and> e \<in> set es \<and> judged_room acting e = Some r}"
  by (induction acting cs seen rule: distinct_source_rooms.induct)
    (auto simp: set_rooms_of_tier)

lemma distinct_distinct_source_rooms:
  "distinct seen \<Longrightarrow> distinct (distinct_source_rooms acting cs seen)"
  by (induction acting cs seen rule: distinct_source_rooms.induct)
    (auto simp: distinct_rooms_of_tier)

lemma room_get_fold_update:
  assumes "distinct ks"
  shows "map_of (fold (\<lambda>(k, v). AList.update k v) (zip ks (map f ks)) rs) r =
     (if r \<in> set ks then Some (f r) else map_of rs r)"
  using assms by (induction ks arbitrary: rs) (auto simp: update_conv')


lemma resolve_turn_audience_unfold:
  assumes "m \<noteq> AUDIENCE_OFF" and "level_ord (abs_level Public cls) > 0" and "c \<noteq> []"
    and "roster_channel_id r = c"
  shows "resolve_turn_audience (Some f) (Some r) m (Some c) cls cands =
     (let srcs = distinct_source_rooms (level_ord (abs_level Public cls)) cands [];
          pending = filter (\<lambda>x. x \<noteq> c) srcs;
          rs = fold (\<lambda>(k, v). AList.update k v)
                 (zip pending (map (fetch_member_ids (Some f)) pending)) [(c, Some (member_ids r))]
      in Inr (Some (mk_TurnAudience m (Some c) rs (length pending) (length srcs))))"
proof -
  have "rank_index CLASSIFICATION_PUBLIC = Inr 0"
    using rank_index_name[of Public] by simp
  moreover have "filter (\<lambda>x. map_of [(c, Some (member_ids r))] x = None) xs = filter (\<lambda>x. x \<noteq> c) xs" for xs
    by (induction xs) auto
  ultimately show ?thesis using assms
    by (simp add: resolve_turn_audience_def acting.rank_ok Let_def)
qed

text \<open>
  The audience view a turn resolves is complete and needs no more fetches than it must. On a
  channel turn above the public floor whose acting roster is known, every candidate the gate will
  judge gets the verdict its own rooms give: the acting room's members against the members of the
  entry's source room, fetched once, with a failed fetch reported as unknown. The fetches issued are
  exactly the distinct judged source rooms other than the acting one.
\<close>

lemma resolve_turn_audience_complete:
  assumes mode: "m \<noteq> AUDIENCE_OFF" and above: "acting_rank cls = Inr rk" "rk > 0"
    and room: "c \<noteq> []" "roster_channel_id r = c"
    and cand: "(tier, es) \<in> set cands" "tier \<in> set AUDIENCE_TIERS" "e \<in> set es"
      "judged_room rk e = Some src"
  shows "\<exists>a. resolve_turn_audience (Some f) (Some r) m (Some c) cls cands = Inr (Some a) \<and>
     verdict a tier (the (protection_level e)) (source_channel_id e) =
       Some (case (if src = c then Some (member_ids r) else fetch_member_ids (Some f) src) of
               None \<Rightarrow> WITHHOLD_UNKNOWN_FETCH_FAILED
             | Some members \<Rightarrow> if member_ids r \<subseteq> members then ADMIT else WITHHOLD_DISJOINT) \<and>
     fetches a = card ({s. \<exists>t xs x. (t, xs) \<in> set cands \<and> t \<in> set AUDIENCE_TIERS \<and> x \<in> set xs
                          \<and> judged_room rk x = Some s} - {c})"
proof -
  let ?srcs = "distinct_source_rooms rk cands []"
  let ?pending = "filter (\<lambda>x. x \<noteq> c) ?srcs"
  let ?rs = "fold (\<lambda>(k, v). AList.update k v)
      (zip ?pending (map (fetch_member_ids (Some f)) ?pending)) [(c, Some (member_ids r))]"
  let ?a = "mk_TurnAudience m (Some c) ?rs (length ?pending) (length ?srcs)"
  have rk: "rk = level_ord (abs_level Public cls)" using above by (simp add: acting.rank_ok)
  have dist: "distinct ?pending" by (simp add: distinct_distinct_source_rooms)
  have res: "resolve_turn_audience (Some f) (Some r) m (Some c) cls cands = Inr (Some ?a)"
    using resolve_turn_audience_unfold[of m cls c r f cands] mode above room rk by (simp add: Let_def)
  have lookup: "room_get ?rs x =
      (if x \<in> set ?pending then fetch_member_ids (Some f) x
       else if x = c then Some (member_ids r) else None)" for x
    unfolding room_get_def room_get_fold_update[OF dist, of "fetch_member_ids (Some f)"] by simp
  have acting: "acting_members ?a = Some (member_ids r)"
    using room lookup[of c] by (simp add: mk_TurnAudience_def)
  have "src \<in> set ?srcs" unfolding set_distinct_source_rooms using cand by blast
  note src = this judged_room_SomeD[OF cand(4)]
  have "verdict ?a tier (the (protection_level e)) (source_channel_id e) =
       Some (case (if src = c then Some (member_ids r) else fetch_member_ids (Some f) src) of
               None \<Rightarrow> WITHHOLD_UNKNOWN_FETCH_FAILED
             | Some members \<Rightarrow> if member_ids r \<subseteq> members then ADMIT else WITHHOLD_DISJOINT)"
    using src cand(2) acting lookup[of src]
    by (cases "src = c") (auto simp: verdict_def mk_TurnAudience_def split: option.splits)
  moreover have "fetches ?a = card (set ?pending)"
    unfolding distinct_card[OF dist] by (simp add: mk_TurnAudience_def)
  moreover have "set ?pending = {s. \<exists>t xs x. (t, xs) \<in> set cands \<and> t \<in> set AUDIENCE_TIERS \<and> x \<in> set xs
      \<and> judged_room rk x = Some s} - {c}"
    by (auto simp: set_distinct_source_rooms)
  ultimately show ?thesis using res by auto
qed

theorem resolve_turn_audience_complete_witness:
  "\<exists>a. resolve_turn_audience
      (Some (\<lambda>_. Fetched (PyDict [(''members'', PyList [PyDict [(''id'', PyStr ''alice'')]])])))
      (Some \<lparr>roster_channel_id = ''ops'', member_ids = {''alice'', ''bob''}\<rparr>)
      AUDIENCE_LIVE (Some ''ops'') (Some ''internal'')
      [(''facts'', [\<lparr>entry_id = ''f1'', protection_level = Some ''internal'',
         source_channel_id = Some ''dm:alice'', interaction_id = None, summary = ''x''\<rparr>])]
      = Inr (Some a) \<and>
    verdict a ''facts'' ''internal'' (Some ''dm:alice'') = Some WITHHOLD_DISJOINT \<and> fetches a = 1"
proof -
  let ?e = "\<lparr>entry_id = ''f1'', protection_level = Some ''internal'',
         source_channel_id = Some ''dm:alice'', interaction_id = None, summary = ''x''\<rparr>"
  have j: "judged_room 1 ?e = Some ''dm:alice''" by code_simp
  have m: "member_ids_from_meta (PyDict [(''members'', PyList [PyDict [(''id'', PyStr ''alice'')]])])
      = Some {''alice''}"
    by (simp add: member_ids_from_meta_def member_id_def map_filter_def)
  have s: "{s. \<exists>t xs x. (t, xs) \<in> set [(''facts'', [?e])] \<and> t \<in> set AUDIENCE_TIERS \<and> x \<in> set xs
      \<and> judged_room 1 x = Some s} - {''ops''} = {''dm:alice''}"
    using j by (auto simp: AUDIENCE_TIERS_def)
  have r: "acting_rank (Some ''internal'') = Inr 1" by code_simp
  obtain a where "resolve_turn_audience
      (Some (\<lambda>_. Fetched (PyDict [(''members'', PyList [PyDict [(''id'', PyStr ''alice'')]])])))
      (Some \<lparr>roster_channel_id = ''ops'', member_ids = {''alice'', ''bob''}\<rparr>)
      AUDIENCE_LIVE (Some ''ops'') (Some ''internal'') [(''facts'', [?e])] = Inr (Some a)"
    "verdict a ''facts'' (the (protection_level ?e)) (source_channel_id ?e) = Some WITHHOLD_DISJOINT"
    "fetches a = card {''dm:alice''}"
    using resolve_turn_audience_complete[of AUDIENCE_LIVE "Some ''internal''" 1 "''ops''"
        "\<lparr>roster_channel_id = ''ops'', member_ids = {''alice'', ''bob''}\<rparr>" "''facts''" "[?e]"
        "[(''facts'', [?e])]" ?e "''dm:alice''"
        "\<lambda>_. Fetched (PyDict [(''members'', PyList [PyDict [(''id'', PyStr ''alice'')]])])"] r j m
    unfolding s by (auto simp: AUDIENCE_LIVE_def AUDIENCE_OFF_def AUDIENCE_TIERS_def fetch_member_ids_def)
  then show ?thesis by auto
qed

end
