(* ===== verification/Memory_Budget.thy ===== *)
theory Memory_Budget
  imports Prelude
begin

text \<open>
  The token budget for injected memory (\<open>agents/persona_runtime/memory_budget.py\<close>): a greedy
  allocator with truncation, and the registry of what each tier admitted.

  A text is a list of code points here, because the truncator appends an ellipsis outside Latin-1.
  The tokenizer is the third-party package \<open>tiktoken\<close>: a parameter, absent when the import fails,
  whose calls may raise. Every failure falls back to a quarter of the length in characters.
\<close>

type_synonym ptext = "nat list"

definition ellipsis :: ptext where "ellipsis = [8230]"

record tokenizer =
  encode :: "ptext \<Rightarrow> nat list option"
  decode :: "nat list \<Rightarrow> ptext option"

definition KNOWN_TIERS :: "string list" where
  "KNOWN_TIERS = [''facts'', ''episodic'', ''notes'', ''relationship'', ''channel_history'']"

definition encode_text :: "tokenizer option \<Rightarrow> ptext \<Rightarrow> int \<times> nat list option" where
  "encode_text tok text =
     (case Option.bind tok (\<lambda>t. encode t text) of
        Some tokens \<Rightarrow> (int (length tokens), Some tokens)
      | None \<Rightarrow> (max 0 (int (length text) div 4), None))"

definition count_tokens :: "tokenizer option \<Rightarrow> ptext \<Rightarrow> int" where
  "count_tokens tok text = fst (encode_text tok text)"

text \<open>The body of the \<open>try\<close>: the truncated text, or \<open>None\<close> when a call of the tokenizer raises.\<close>

definition truncate_tokens :: "tokenizer \<Rightarrow> ptext \<Rightarrow> int \<Rightarrow> nat list option \<Rightarrow> ptext option" where
  "truncate_tokens t text limit ids =
     (case (case ids of None \<Rightarrow> encode t text | Some ts \<Rightarrow> Some ts) of
        None \<Rightarrow> None
      | Some tokens \<Rightarrow>
          if int (length tokens) \<le> limit then Some text
          else (case encode t ellipsis of
                  None \<Rightarrow> None
                | Some ell \<Rightarrow>
                    let content_budget = limit - int (length ell) in
                    if content_budget \<le> 0 then Some ellipsis
                    else (case decode t (take (nat content_budget) tokens) of
                            None \<Rightarrow> None
                          | Some truncated \<Rightarrow> Some (truncated @ ellipsis))))"

definition truncate_chars :: "ptext \<Rightarrow> int \<Rightarrow> ptext" where
  "truncate_chars text limit =
     (let total_approx = int (length text) div 4 in
      if total_approx \<le> limit then text
      else let content_budget = limit - 1 in
           if content_budget \<le> 0 then ellipsis
           else take (nat (content_budget * 4)) text @ ellipsis)"

definition truncate_to_token_limit ::
  "tokenizer option \<Rightarrow> ptext \<Rightarrow> int \<Rightarrow> nat list option \<Rightarrow> ptext" where
  "truncate_to_token_limit tok text limit ids =
     (if limit \<le> 0 then ellipsis
      else case Option.bind tok (\<lambda>t. truncate_tokens t text limit ids) of
             Some r \<Rightarrow> r
           | None \<Rightarrow> truncate_chars text limit)"

record MemoryBudget =
  remaining :: int
  admissions :: "(string \<times> string list) list"

definition mk_MemoryBudget :: "int \<Rightarrow> MemoryBudget" where
  "mk_MemoryBudget total_tokens = \<lparr>remaining = max 0 total_tokens, admissions = []\<rparr>"

definition admissions_by_tier :: "MemoryBudget \<Rightarrow> string \<Rightarrow> string list" where
  "admissions_by_tier b tier = (case map_of (admissions b) tier of None \<Rightarrow> [] | Some ids \<Rightarrow> ids)"

definition record_admission :: "string \<Rightarrow> string \<Rightarrow> MemoryBudget \<Rightarrow> MemoryBudget result" where
  "record_admission tier item_id b =
     (if tier \<notin> set KNOWN_TIERS then Inl ValueError
      else Inr (b\<lparr>admissions :=
                  AList.update tier (admissions_by_tier b tier @ [item_id]) (admissions b)\<rparr>))"

definition try_add ::
  "tokenizer option \<Rightarrow> ptext \<Rightarrow> int \<Rightarrow> MemoryBudget \<Rightarrow> ptext option \<times> MemoryBudget" where
  "try_add tok text min_tokens b =
     (if text = [] then (None, b)
      else if remaining b \<le> 0 then (None, b)
      else let (count, ids) = encode_text tok text in
           if count \<le> remaining b then (Some text, b\<lparr>remaining := remaining b - count\<rparr>)
           else let truncated = truncate_to_token_limit tok text (remaining b) ids;
                    truncated_count = count_tokens tok truncated
                in if truncated_count \<ge> min_tokens
                   then (Some truncated, b\<lparr>remaining := remaining b - truncated_count\<rparr>)
                   else (None, b))"

text \<open>The allocation loop of a tier: items offered in order.\<close>

fun allocate :: "tokenizer option \<Rightarrow> int \<Rightarrow> ptext list \<Rightarrow> MemoryBudget \<Rightarrow> ptext list \<times> MemoryBudget" where
  "allocate tok min_tokens [] b = ([], b)"
| "allocate tok min_tokens (x # xs) b =
     (let (r, b1) = try_add tok x min_tokens b;
          (rs, b2) = allocate tok min_tokens xs b1
      in ((case r of None \<Rightarrow> rs | Some t \<Rightarrow> t # rs), b2))"


section \<open>What the budget relies on\<close>

text \<open>
  The one thing the allocator needs of a tokenizer: cutting an encoded text at a token boundary and
  appending the ellipsis does not encode to more tokens than the cut asked for. The character
  fallback satisfies it; a tokenizer is assumed to by the locale \<open>cut_safe\<close>.
\<close>

definition cut_ok :: "tokenizer option \<Rightarrow> bool" where
  "cut_ok tok \<longleftrightarrow> (\<forall>text limit.
     0 < limit \<longrightarrow> limit < count_tokens tok text \<longrightarrow>
     count_tokens tok (truncate_to_token_limit tok text limit (snd (encode_text tok text))) \<le> limit)"

locale cut_safe =
  fixes tok :: "tokenizer option"
  assumes cut: "cut_ok tok"
begin

lemma try_add_remaining:
  assumes "0 \<le> remaining b"
  shows "0 \<le> remaining (snd (try_add tok text m b))"
proof (cases "text = [] \<or> remaining b \<le> 0 \<or> count_tokens tok text \<le> remaining b")
  case True
  then show ?thesis using assms
    by (auto simp: try_add_def count_tokens_def Let_def split: prod.splits)
next
  case False
  then have "count_tokens tok (truncate_to_token_limit tok text (remaining b) (snd (encode_text tok text)))
      \<le> remaining b"
    using cut by (simp add: cut_ok_def)
  then show ?thesis using assms False
    by (auto simp: try_add_def count_tokens_def Let_def split: prod.splits)
qed

lemma try_add_charges:
  "remaining (snd (try_add tok text m b)) =
     remaining b - (case fst (try_add tok text m b) of None \<Rightarrow> 0 | Some t \<Rightarrow> count_tokens tok t)"
  by (auto simp: try_add_def count_tokens_def Let_def split: prod.splits)

lemma allocate_charges:
  "remaining (snd (allocate tok m xs b)) =
     remaining b - sum_list (map (count_tokens tok) (fst (allocate tok m xs b)))"
proof (induction xs arbitrary: b)
  case (Cons x xs)
  have "remaining (snd (try_add tok x m b)) =
     remaining b - (case fst (try_add tok x m b) of None \<Rightarrow> 0 | Some t \<Rightarrow> count_tokens tok t)"
    by (rule try_add_charges)
  then show ?case using Cons.IH[of "snd (try_add tok x m b)"]
    by (auto simp: Let_def split: prod.splits option.splits)
qed simp

lemma allocate_remaining: "0 \<le> remaining b \<Longrightarrow> 0 \<le> remaining (snd (allocate tok m xs b))"
proof (induction xs arbitrary: b)
  case (Cons x xs)
  have "0 \<le> remaining (snd (try_add tok x m b))" by (rule try_add_remaining[OF Cons.prems])
  then show ?case using Cons.IH[of "snd (try_add tok x m b)"]
    by (auto simp: Let_def split: prod.splits)
qed simp

lemma allocate_within:
  "0 \<le> remaining b \<Longrightarrow>
     sum_list (map (count_tokens tok) (fst (allocate tok m xs b))) \<le> remaining b"
  using allocate_charges[of m xs b] allocate_remaining[of b m xs] by simp

end

lemma count_fallback: "count_tokens None t = int (length t) div 4"
  by (simp add: count_tokens_def encode_text_def)

lemma cut_ok_fallback: "cut_ok None"
proof (unfold cut_ok_def, intro allI impI)
  fix w :: ptext and limit :: int
  assume l: "0 < limit" "limit < count_tokens None w"
  then have n: "4 * limit + 4 \<le> int (length w)" by (simp add: count_fallback)
  have t: "truncate_to_token_limit None w limit ids =
      (if limit \<le> 1 then ellipsis else take (nat ((limit - 1) * 4)) w @ ellipsis)" for ids
    using l by (auto simp: truncate_to_token_limit_def truncate_chars_def count_fallback Let_def)
  show "count_tokens None (truncate_to_token_limit None w limit (snd (encode_text None w))) \<le> limit"
    unfolding t count_fallback using l n by (auto simp: ellipsis_def)
qed

interpretation chars_fallback: cut_safe None
  by unfold_locales (rule cut_ok_fallback)


section \<open>Properties\<close>

text \<open>
  With the character estimate (no tokenizer installed), a tier's allocation loop never spends
  more than the budget: the admitted texts together cost at most what was left, the budget stays
  non-negative, and it drops by exactly the cost of what was admitted.
\<close>

lemma allocate_respects_budget:
  "let b = mk_MemoryBudget total_tokens; (texts, b') = allocate None min_tokens items b in
     0 \<le> remaining b' \<and>
     sum_list (map (count_tokens None) texts) \<le> max 0 total_tokens \<and>
     remaining b' = max 0 total_tokens - sum_list (map (count_tokens None) texts)"
proof -
  let ?b = "mk_MemoryBudget total_tokens"
  have "0 \<le> remaining ?b" by (simp add: mk_MemoryBudget_def)
  then show ?thesis
    using chars_fallback.allocate_remaining[of ?b min_tokens items]
      chars_fallback.allocate_within[of ?b min_tokens items]
      chars_fallback.allocate_charges[of min_tokens items ?b]
    by (auto simp: mk_MemoryBudget_def Let_def split: prod.splits)
qed

text \<open>
  One offer to the budget, on every branch. An empty text or a spent budget drops the item and
  changes nothing; an item that fits is admitted whole at its own cost; an oversized item is
  admitted in a truncated form of at least \<open>min_tokens\<close> tokens and, with the character estimate, at
  most the remaining budget, or dropped with the budget unchanged. The registry is never touched.
\<close>

lemma try_add_branches:
  "case try_add None text min_tokens b of
     (None, b') \<Rightarrow> b' = b \<and>
        (text = [] \<or> remaining b \<le> 0 \<or>
         remaining b < count_tokens None text \<and>
         count_tokens None (truncate_to_token_limit None text (remaining b) None) < min_tokens)
   | (Some t, b') \<Rightarrow> text \<noteq> [] \<and> 0 < remaining b \<and>
        remaining b' = remaining b - count_tokens None t \<and> admissions b' = admissions b \<and>
        (if count_tokens None text \<le> remaining b then t = text
         else min_tokens \<le> count_tokens None t \<and> count_tokens None t \<le> remaining b \<and>
              t = truncate_to_token_limit None text (remaining b) None)"
proof -
  have e: "encode_text None text = (count_tokens None text, None)"
    by (simp add: encode_text_def count_tokens_def)
  have "0 < remaining b \<Longrightarrow> remaining b < count_tokens None text \<Longrightarrow>
      count_tokens None (truncate_to_token_limit None text (remaining b) None) \<le> remaining b"
    using cut_ok_fallback[unfolded cut_ok_def, rule_format, of "remaining b" "text"] by (simp add: e)
  then show ?thesis
    by (auto simp: try_add_def e Let_def)
qed

end
