(* ===== verification/Projections.thy ===== *)
theory Projections
  imports Prelude "HOL-Library.Product_Lexorder" "HOL-Library.List_Lexorder" "HOL-Library.Char_ord"
begin

text \<open>
  The declassification projections table (\<open>agents/memory/projections.py\<close>). The table is its list
  of rows; each SQL statement of the module is a function on that list, with the primary key
  \<open>(entry_id, entry_tier, level)\<close> of the schema (\<open>agents/memory/_migration_protection.py\<close>) enforced
  by the insert. A statement that raises leaves the effect of the earlier ones in the transaction.
\<close>

record projection_row =
  pr_agent_id :: string
  pr_entry_id :: string
  pr_entry_tier :: string
  pr_level :: string
  pr_text :: string
  pr_created_at :: rat

definition ENTRY_TIER_EPISODE :: string where "ENTRY_TIER_EPISODE = ''episode''"

definition primary_key :: "projection_row \<Rightarrow> string \<times> string \<times> string" where
  "primary_key r = (pr_entry_id r, pr_entry_tier r, pr_level r)"

definition insert_projection :: "projection_row \<Rightarrow> projection_row list \<Rightarrow> projection_row list result" where
  "insert_projection r db =
     (if primary_key r \<in> primary_key ` set db then Inl IntegrityError else Inr (db @ [r]))"

text \<open>The \<open>VALUES\<close> of the insert.\<close>

definition row_values :: "string \<Rightarrow> string \<Rightarrow> string \<Rightarrow> rat \<Rightarrow> string \<times> string \<Rightarrow> projection_row" where
  "row_values agent eid etier now lt =
     \<lparr>pr_agent_id = agent, pr_entry_id = eid, pr_entry_tier = etier, pr_level = fst lt,
      pr_text = snd lt, pr_created_at = now\<rparr>"

fun insert_levels ::
  "string \<Rightarrow> string \<Rightarrow> string \<Rightarrow> rat \<Rightarrow> (string \<times> string) list \<Rightarrow> nat \<Rightarrow>
   projection_row list \<Rightarrow> nat result \<times> projection_row list" where
  "insert_levels agent eid etier now [] written db = (Inr written, db)"
| "insert_levels agent eid etier now ((level, body) # rest) written db =
     (if py_strip body = [] then insert_levels agent eid etier now rest written db
      else case insert_projection (row_values agent eid etier now (level, body)) db of
             Inl e \<Rightarrow> (Inl e, db)
           | Inr db' \<Rightarrow> insert_levels agent eid etier now rest (written + 1) db')"

definition replace_entry_projections ::
  "string \<Rightarrow> string \<Rightarrow> string \<Rightarrow> (string \<times> string) list \<Rightarrow> rat \<Rightarrow>
   projection_row list \<Rightarrow> nat result \<times> projection_row list" where
  "replace_entry_projections agent eid etier projections now db =
     insert_levels agent eid etier now projections 0
       (filter (\<lambda>r. \<not> (pr_agent_id r = agent \<and> pr_entry_id r = eid \<and> pr_entry_tier r = etier)) db)"

text \<open>\<open>out.setdefault(row[0], []).append((row[1], row[2]))\<close> over the rows of the cursor.\<close>

definition add_row ::
  "projection_row \<Rightarrow> (string \<times> (string \<times> string) list) list \<Rightarrow> (string \<times> (string \<times> string) list) list" where
  "add_row r out =
     AList.update (pr_entry_id r)
       ((case map_of out (pr_entry_id r) of None \<Rightarrow> [] | Some xs \<Rightarrow> xs) @ [(pr_level r, pr_text r)]) out"

definition projections_for ::
  "string \<Rightarrow> string \<Rightarrow> string list \<Rightarrow> string list \<Rightarrow> projection_row list \<Rightarrow>
   (string \<times> (string \<times> string) list) list" where
  "projections_for agent etier ids levels db =
     (if ids = [] \<or> levels = [] then []
      else fold add_row
        (sort_key (\<lambda>r. (pr_entry_id r, pr_level r))
          (filter (\<lambda>r. pr_agent_id r = agent \<and> pr_entry_tier r = etier
                     \<and> pr_entry_id r \<in> set ids \<and> pr_level r \<in> set levels) db)) [])"


section \<open>Lemmas\<close>

lemma row_values_sel [simp]:
  "pr_agent_id (row_values a e t n lt) = a" "pr_entry_id (row_values a e t n lt) = e"
  "pr_entry_tier (row_values a e t n lt) = t" "pr_level (row_values a e t n lt) = fst lt"
  "pr_text (row_values a e t n lt) = snd lt"
  by (simp_all add: row_values_def)

lemma map_of_add_rows:
  "map_of (fold add_row rows out) k =
     (case map (\<lambda>r. (pr_level r, pr_text r)) (filter (\<lambda>r. pr_entry_id r = k) rows) of
        [] \<Rightarrow> map_of out k
      | xs \<Rightarrow> Some ((case map_of out k of None \<Rightarrow> [] | Some ys \<Rightarrow> ys) @ xs))"
proof (induction rows arbitrary: out)
  case (Cons r rows)
  have "map_of (add_row r out) k =
      (if pr_entry_id r = k
       then Some ((case map_of out k of None \<Rightarrow> [] | Some ys \<Rightarrow> ys) @ [(pr_level r, pr_text r)])
       else map_of out k)"
    by (simp add: add_row_def update_conv')
  then show ?case using Cons.IH[of "add_row r out"] by (auto split: list.splits option.splits)
qed simp

lemma map_of_projections_for:
  "map_of (projections_for agent etier ids levels db) k =
     (case map (\<lambda>r. (pr_level r, pr_text r))
             (sort_key (\<lambda>r. (pr_entry_id r, pr_level r))
               (filter (\<lambda>r. pr_agent_id r = agent \<and> pr_entry_tier r = etier \<and> pr_entry_id r = k
                  \<and> k \<in> set ids \<and> pr_level r \<in> set levels) db)) of
        [] \<Rightarrow> None | xs \<Rightarrow> Some xs)"
proof (cases "ids = [] \<or> levels = []")
  case True
  then have "filter (\<lambda>r. pr_agent_id r = agent \<and> pr_entry_tier r = etier \<and> pr_entry_id r = k
                  \<and> k \<in> set ids \<and> pr_level r \<in> set levels) db = []"
    by (auto simp: filter_empty_conv)
  then show ?thesis using True by (simp add: projections_for_def)
next
  case False
  have "filter (\<lambda>r. pr_entry_id r = k) (filter (\<lambda>r. pr_agent_id r = agent \<and> pr_entry_tier r = etier
       \<and> pr_entry_id r \<in> set ids \<and> pr_level r \<in> set levels) db) =
     filter (\<lambda>r. pr_agent_id r = agent \<and> pr_entry_tier r = etier \<and> pr_entry_id r = k
                  \<and> k \<in> set ids \<and> pr_level r \<in> set levels) db"
    by (auto intro: filter_cong)
  then show ?thesis using False
    by (simp add: projections_for_def map_of_add_rows filter_sort split: list.splits)
qed

text \<open>What a lookup can return: only rows of the agent, at a level of the caller's set.\<close>

lemma projections_for_sound:
  assumes "map_of (projections_for agent etier ids levels db) k = Some xs" "(l, t) \<in> set xs"
  shows "l \<in> set levels \<and> k \<in> set ids \<and>
    (\<exists>r \<in> set db. pr_agent_id r = agent \<and> pr_entry_tier r = etier \<and> pr_entry_id r = k
       \<and> pr_level r = l \<and> pr_text r = t)"
proof -
  have "xs = map (\<lambda>r. (pr_level r, pr_text r))
             (sort_key (\<lambda>r. (pr_entry_id r, pr_level r))
               (filter (\<lambda>r. pr_agent_id r = agent \<and> pr_entry_tier r = etier \<and> pr_entry_id r = k
                  \<and> k \<in> set ids \<and> pr_level r \<in> set levels) db))"
    using assms(1) unfolding map_of_projections_for by (simp split: list.splits)
  then show ?thesis using assms(2) by auto
qed

lemma insert_levels_ok:
  assumes "distinct (map fst ps)"
    "\<And>l r. l \<in> fst ` set ps \<Longrightarrow> r \<in> set db \<Longrightarrow> primary_key r \<noteq> (eid, etier, l)"
  shows "insert_levels agent eid etier now ps n db =
     (Inr (n + length (filter (\<lambda>lt. py_strip (snd lt) \<noteq> []) ps)),
      db @ map (row_values agent eid etier now) (filter (\<lambda>lt. py_strip (snd lt) \<noteq> []) ps))"
  using assms
proof (induction ps arbitrary: n db)
  case (Cons p ps)
  obtain l t where p: "p = (l, t)" by fastforce
  show ?case
  proof (cases "py_strip t = []")
    case True
    have "insert_levels agent eid etier now ps n db =
       (Inr (n + length (filter (\<lambda>lt. py_strip (snd lt) \<noteq> []) ps)),
        db @ map (row_values agent eid etier now) (filter (\<lambda>lt. py_strip (snd lt) \<noteq> []) ps))"
      by (rule Cons.IH) (use Cons.prems p in simp_all)
    then show ?thesis using True p by simp
  next
    case False
    let ?r = "row_values agent eid etier now (l, t)"
    have "primary_key ?r \<notin> primary_key ` set db"
      using Cons.prems(2)[of l] p by (auto simp: primary_key_def)
    then have "insert_projection ?r db = Inr (db @ [?r])" by (simp add: insert_projection_def)
    moreover have "insert_levels agent eid etier now ps (n + 1) (db @ [?r]) =
       (Inr (n + 1 + length (filter (\<lambda>lt. py_strip (snd lt) \<noteq> []) ps)),
        (db @ [?r]) @ map (row_values agent eid etier now) (filter (\<lambda>lt. py_strip (snd lt) \<noteq> []) ps))"
    proof (rule Cons.IH)
      fix l' r assume a: "l' \<in> fst ` set ps" "r \<in> set (db @ [?r])"
      then have "l' \<noteq> l" using Cons.prems(1) p by auto
      then have "primary_key ?r \<noteq> (eid, etier, l')" by (simp add: primary_key_def)
      then show "primary_key r \<noteq> (eid, etier, l')" using a Cons.prems(2)[of l' r] by auto
    qed (use Cons.prems p in simp)
    ultimately show ?thesis using False p by simp
  qed
qed simp


section \<open>Properties\<close>

text \<open>
  Replacing an entry's projections and reading them back. When no other agent holds a row under
  the same natural key, the replacement succeeds, writes one row per non-blank text, leaves every row
  of another agent or another entry as it was, and a later lookup of the entry sees exactly the new
  texts at the admissible levels: no level dropped by the new set keeps serving its old text.
\<close>

lemma replace_then_lookup:
  assumes mapping: "distinct (map fst projections)"
    and free: "\<forall>r \<in> set db. pr_entry_id r = eid \<longrightarrow> pr_entry_tier r = etier \<longrightarrow> pr_agent_id r = agent"
    and asked: "eid \<in> set ids"
  shows "\<exists>n db'. replace_entry_projections agent eid etier projections now db = (Inr n, db') \<and>
     n = length (filter (\<lambda>lt. py_strip (snd lt) \<noteq> []) projections) \<and>
     filter (\<lambda>r. \<not> (pr_entry_id r = eid \<and> pr_entry_tier r = etier)) db' =
       filter (\<lambda>r. \<not> (pr_entry_id r = eid \<and> pr_entry_tier r = etier)) db \<and>
     set (case map_of (projections_for agent etier ids levels db') eid of None \<Rightarrow> [] | Some xs \<Rightarrow> xs) =
       {(l, t). (l, t) \<in> set projections \<and> py_strip t \<noteq> [] \<and> l \<in> set levels}"
proof -
  let ?own = "\<lambda>r. pr_agent_id r = agent \<and> pr_entry_id r = eid \<and> pr_entry_tier r = etier"
  let ?kept = "filter (\<lambda>r. \<not> ?own r) db"
  let ?new = "map (row_values agent eid etier now) (filter (\<lambda>lt. py_strip (snd lt) \<noteq> []) projections)"
  have r: "replace_entry_projections agent eid etier projections now db =
      (Inr (length (filter (\<lambda>lt. py_strip (snd lt) \<noteq> []) projections)), ?kept @ ?new)"
    unfolding replace_entry_projections_def
    by (subst insert_levels_ok[OF mapping]) (use free in \<open>auto simp: primary_key_def\<close>)
  have "filter (\<lambda>r. \<not> (pr_entry_id r = eid \<and> pr_entry_tier r = etier)) (?kept @ ?new) =
      filter (\<lambda>r. \<not> (pr_entry_id r = eid \<and> pr_entry_tier r = etier)) db"
    by (auto simp: filter_empty_conv intro!: filter_cong)
  moreover have "set (case map_of (projections_for agent etier ids levels db') eid of
        None \<Rightarrow> [] | Some xs \<Rightarrow> xs) =
      (\<lambda>r. (pr_level r, pr_text r)) ` {r \<in> set db'. ?own r \<and> pr_level r \<in> set levels}" for db'
  proof -
    have "(case (case xs of [] \<Rightarrow> None | ys \<Rightarrow> Some ys) of None \<Rightarrow> [] | Some ys \<Rightarrow> ys) = xs"
      for xs :: "(string \<times> string) list"
      by (cases xs) auto
    then show ?thesis unfolding map_of_projections_for using asked by auto
  qed
  then have "set (case map_of (projections_for agent etier ids levels (?kept @ ?new)) eid of
        None \<Rightarrow> [] | Some xs \<Rightarrow> xs) =
      {(l, t). (l, t) \<in> set projections \<and> py_strip t \<noteq> [] \<and> l \<in> set levels}"
  proof (rule trans)
    have "{r \<in> set (?kept @ ?new). ?own r \<and> pr_level r \<in> set levels} = {r \<in> set ?new. pr_level r \<in> set levels}"
      by auto
    also have "\<dots> = row_values agent eid etier now `
        {lt \<in> set projections. py_strip (snd lt) \<noteq> [] \<and> fst lt \<in> set levels}"
      by (simp add: Compr_image_eq conj_assoc)
    finally have "{r \<in> set (?kept @ ?new). ?own r \<and> pr_level r \<in> set levels} =
        row_values agent eid etier now `
          {lt \<in> set projections. py_strip (snd lt) \<noteq> [] \<and> fst lt \<in> set levels}" .
    then show "(\<lambda>r. (pr_level r, pr_text r)) ` {r \<in> set (?kept @ ?new). ?own r \<and> pr_level r \<in> set levels} =
        {(l, t). (l, t) \<in> set projections \<and> py_strip t \<noteq> [] \<and> l \<in> set levels}"
      by (simp add: image_image split_def)
  qed
  ultimately show ?thesis using r by blast
qed

theorem replace_then_lookup_witness:
  "\<exists>n db'. replace_entry_projections ''ada'' ''i1'' ''episode'' [(''public'', ''a deal''), (''internal'', '' '')] 5
        [\<lparr>pr_agent_id = ''ada'', pr_entry_id = ''i1'', pr_entry_tier = ''episode'', pr_level = ''internal'',
          pr_text = ''old'', pr_created_at = 1\<rparr>] = (Inr n, db') \<and> n = 1 \<and>
     set (case map_of (projections_for ''ada'' ''episode'' [''i1''] [''public'', ''internal''] db') ''i1'' of
            None \<Rightarrow> [] | Some xs \<Rightarrow> xs) = {(''public'', ''a deal'')}"
proof -
  have "py_strip '' '' = []" "py_strip ''a deal'' \<noteq> []" by code_simp+
  then show ?thesis
    using replace_then_lookup[of "[(''public'', ''a deal''), (''internal'', '' '')]"
        "[\<lparr>pr_agent_id = ''ada'', pr_entry_id = ''i1'', pr_entry_tier = ''episode'', pr_level = ''internal'',
          pr_text = ''old'', pr_created_at = 1\<rparr>]" "''i1''" "''episode''" "''ada''" "[''i1'']" 5
        "[''public'', ''internal'']"]
    by (auto simp: set_eq_iff)
qed

end
