(* ===== verification/Persona_Types.thy ===== *)
theory Persona_Types
  imports Prelude Scope_Ids
begin

text \<open>
  The event and action vocabulary of a persona agent (\<open>agents/persona_types.py\<close>) and the
  classification stamp an event carries in its metadata
  (\<open>agents/channel_event_classification.py\<close>).
\<close>

datatype EventType =
    TASK_ASSIGNED | CHANNEL_MESSAGE | MENTION | SUB_AGENT_COMPLETED | APPROVAL_REQUESTED
  | APPROVAL_RESPONSE | TICK | AGENT_JOINED | AGENT_LEFT

record AgentEvent =
  event_type :: EventType
  payload :: pydict
  channel_id :: "string option"
  sender_id :: "string option"
  message_id :: "string option"
  thread_id :: "string option"
  timestamp :: rat
  metadata :: pydict

datatype ActionType =
    SEND_CHANNEL_MESSAGE | COMPLETE_TASK | DELEGATE_ACTION | SPAWN_SUB_AGENT | USE_TOOL
  | REQUEST_APPROVAL | GRANT_APPROVAL | DENY_APPROVAL | DO_NOTHING | END_INTERACTION_VOTE

text \<open>A payload is whatever the model wrote; only the parser of some kinds of action insists on an object.\<close>

record AgentAction =
  action_type :: ActionType
  action_payload :: pyval

definition CHANNEL_CLASSIFICATION_METADATA_KEY :: string where
  "CHANNEL_CLASSIFICATION_METADATA_KEY = ''channel_classification''"

definition CLASSIFICATION_MAX_BYTES :: nat where "CLASSIFICATION_MAX_BYTES = 64"

definition seed_channel_classification :: "pydict \<Rightarrow> pyval \<Rightarrow> pydict" where
  "seed_channel_classification md classification =
     (case classification of
        PyStr s \<Rightarrow>
          if s \<noteq> [] \<and> utf8_length s \<le> CLASSIFICATION_MAX_BYTES
          then AList.update CHANNEL_CLASSIFICATION_METADATA_KEY (PyStr s) md
          else md
      | _ \<Rightarrow> md)"

definition wire_channel_classification :: "AgentEvent \<Rightarrow> string option" where
  "wire_channel_classification ev =
     (case py_get (metadata ev) CHANNEL_CLASSIFICATION_METADATA_KEY of
        PyStr s \<Rightarrow> if s \<noteq> [] then Some s else None
      | _ \<Rightarrow> None)"

text \<open>The seed is the only writer of its key, and what it writes is what the reader returns.\<close>

lemma wire_after_seed:
  assumes "py_get (metadata ev) CHANNEL_CLASSIFICATION_METADATA_KEY = PyNone"
  shows "wire_channel_classification (ev\<lparr>metadata := seed_channel_classification (metadata ev) c\<rparr>) =
     (case c of PyStr s \<Rightarrow> if s \<noteq> [] \<and> utf8_length s \<le> 64 then Some s else None | _ \<Rightarrow> None)"
  using assms
  by (auto simp: wire_channel_classification_def seed_channel_classification_def
      CLASSIFICATION_MAX_BYTES_def split: pyval.splits)

end
