(* ===== verification/Injection_Gate.thy ===== *)
theory Injection_Gate
  imports Persona_Types Audience Memory_Budget Projections "HOL-Library.Sublist"
begin

text \<open>
  The injection gate of a turn (\<open>agents/persona_runtime/injection_gate.py\<close>) and the branch that
  serves declassified projections for what the gate withheld
  (\<open>agents/persona_runtime/projection_branch.py\<close>). The gate is a mutable object; every method that
  changes it takes and returns the record. The step relation \<open>gate_step\<close> is every way the code
  drives a gate, and the invariant is proved over it.
\<close>

section \<open>The gate\<close>

definition CHANNEL_ACTING_EVENT_TYPES :: "EventType list" where
  "CHANNEL_ACTING_EVENT_TYPES = [CHANNEL_MESSAGE, MENTION]"

definition PUBLIC_FLOOR_EVENT_TYPES :: "EventType list" where
  "PUBLIC_FLOOR_EVENT_TYPES =
     [TICK, TASK_ASSIGNED, SUB_AGENT_COMPLETED, APPROVAL_REQUESTED, APPROVAL_RESPONSE,
      AGENT_JOINED, AGENT_LEFT]"

definition acting_classification_for_event :: "AgentEvent \<Rightarrow> string option" where
  "acting_classification_for_event ev =
     (if event_type ev \<in> set CHANNEL_ACTING_EVENT_TYPES then wire_channel_classification ev else None)"

record InjectionManifestEntry =
  me_tier :: string
  me_entry_id :: string
  me_protection_level :: string

definition MANIFEST_TIERS :: "string list" where
  "MANIFEST_TIERS = [''channel_history'', ''facts'', ''episodic'', ''notes'']"

record TurnInjectionGate =
  g_acting :: "string option"
  g_acting_rank :: int
  g_agent_id :: string
  g_audience :: "TurnAudience option"
  g_audience_records :: "AudienceRecord list"
  g_audience_terminal :: "(string \<times> string) set"
  g_withheld :: nat
  g_unknown :: "(string \<times> string \<times> string option \<times> string option) list"
  g_passed_levels :: "((string \<times> string) \<times> string) list"
  g_decisions :: "(string \<times> (mem_entry \<times> bool) list) list"

definition mk_TurnInjectionGate ::
  "string option \<Rightarrow> string \<Rightarrow> TurnAudience option \<Rightarrow> TurnInjectionGate result" where
  "mk_TurnInjectionGate acting agent aud =
     bind_r (acting_rank acting) (\<lambda>rk. Inr
       \<lparr>g_acting = acting, g_acting_rank = rk, g_agent_id = agent, g_audience = aud,
        g_audience_records = [], g_audience_terminal = {}, g_withheld = 0, g_unknown = [],
        g_passed_levels = [], g_decisions = []\<rparr>)"

definition judge_audience ::
  "string \<Rightarrow> string \<Rightarrow> string \<Rightarrow> string option \<Rightarrow> TurnInjectionGate \<Rightarrow> bool \<times> TurnInjectionGate" where
  "judge_audience tier eid level src g =
     (case g_audience g of
        None \<Rightarrow> (True, g)
      | Some a \<Rightarrow>
          (case verdict a tier level src of
             None \<Rightarrow> (True, g)
           | Some v \<Rightarrow>
               let g1 = g\<lparr>g_audience_records := g_audience_records g @
                    [\<lparr>ar_tier = tier, ar_entry_id = eid, ar_protection_level = level,
                      ar_source_channel_id = src, ar_verdict = v\<rparr>]\<rparr>
               in if \<not> (enforcing a \<and> v \<in> set ENFORCED_VERDICTS) then (True, g1)
                  else (False, g1\<lparr>g_audience_terminal := insert (tier, eid) (g_audience_terminal g1)\<rparr>)))"

definition admit ::
  "string \<Rightarrow> string \<Rightarrow> string option \<Rightarrow> string option \<Rightarrow> TurnInjectionGate \<Rightarrow> bool \<times> TurnInjectionGate" where
  "admit tier eid level src g =
     (case entry_rank_or_withhold level of
        None \<Rightarrow> (False, g\<lparr>g_unknown := g_unknown g @ [(tier, eid, level, src)]\<rparr>)
      | Some rank \<Rightarrow>
          if rank > g_acting_rank g then (False, g\<lparr>g_withheld := g_withheld g + 1\<rparr>)
          else let (ok, g1) = judge_audience tier eid (the level) src g
               in if \<not> ok then (False, g1)
                  else (True, g1\<lparr>g_passed_levels :=
                          AList.update (tier, eid) (the level) (g_passed_levels g1)\<rparr>))"

definition audience_admits_projection ::
  "string \<Rightarrow> string \<Rightarrow> string \<Rightarrow> string option \<Rightarrow> TurnInjectionGate \<Rightarrow> bool \<times> TurnInjectionGate" where
  "audience_admits_projection tier eid level src g = judge_audience tier eid level src g"

text \<open>\<open>self._decisions.get(tier, ())\<close>, and one append to the tier's list.\<close>

definition decisions :: "TurnInjectionGate \<Rightarrow> string \<Rightarrow> (mem_entry \<times> bool) list" where
  "decisions g tier = (case map_of (g_decisions g) tier of None \<Rightarrow> [] | Some ds \<Rightarrow> ds)"

definition append_decision :: "string \<Rightarrow> mem_entry \<times> bool \<Rightarrow> TurnInjectionGate \<Rightarrow> TurnInjectionGate" where
  "append_decision tier d g =
     g\<lparr>g_decisions := AList.update tier (decisions g tier @ [d]) (g_decisions g)\<rparr>"

fun filter_loop ::
  "string \<Rightarrow> mem_entry list \<Rightarrow> TurnInjectionGate \<Rightarrow> mem_entry list \<times> TurnInjectionGate" where
  "filter_loop tier [] g = ([], g)"
| "filter_loop tier (e # es) g =
     (let (ok, g1) = admit tier (entry_id e) (protection_level e) (source_channel_id e) g;
          (rest, g2) = filter_loop tier es (append_decision tier (e, ok) g1)
      in (if ok then e # rest else rest, g2))"

definition filter_entries ::
  "string \<Rightarrow> mem_entry list \<Rightarrow> TurnInjectionGate \<Rightarrow> mem_entry list \<times> TurnInjectionGate" where
  "filter_entries tier es g =
     filter_loop tier es (g\<lparr>g_decisions := AList.update tier (decisions g tier) (g_decisions g)\<rparr>)"

definition record_projection ::
  "string \<Rightarrow> string \<Rightarrow> string \<Rightarrow> TurnInjectionGate \<Rightarrow> TurnInjectionGate" where
  "record_projection tier eid level g =
     g\<lparr>g_passed_levels := AList.update (tier, eid) level (g_passed_levels g)\<rparr>"

definition audience_withheld_count :: "TurnInjectionGate \<Rightarrow> nat" where
  "audience_withheld_count g = card (g_audience_terminal g)"

definition audience_terminal :: "TurnInjectionGate \<Rightarrow> string \<Rightarrow> string \<Rightarrow> bool" where
  "audience_terminal g tier eid \<longleftrightarrow> (tier, eid) \<in> g_audience_terminal g"

definition withheld_count :: "TurnInjectionGate \<Rightarrow> nat" where
  "withheld_count g = g_withheld g"

definition unknown_label_count :: "TurnInjectionGate \<Rightarrow> nat" where
  "unknown_label_count g = length (g_unknown g)"

definition manifest_entry ::
  "TurnInjectionGate \<Rightarrow> string \<Rightarrow> string \<Rightarrow> InjectionManifestEntry option" where
  "manifest_entry g tier eid =
     map_option (\<lambda>level. \<lparr>me_tier = tier, me_entry_id = eid, me_protection_level = level\<rparr>)
       (map_of (g_passed_levels g) (tier, eid))"

definition manifest :: "MemoryBudget \<Rightarrow> TurnInjectionGate \<Rightarrow> InjectionManifestEntry list" where
  "manifest budget g =
     concat (map (\<lambda>tier. List.map_filter (manifest_entry g tier) (admissions_by_tier budget tier))
       MANIFEST_TIERS)"


section \<open>The projection branch\<close>

definition EPISODE_TIERS :: "string list" where
  "EPISODE_TIERS = [''channel_history'', ''episodic'']"

definition level_rank :: "string \<Rightarrow> int" where
  "level_rank level = (case entry_rank_or_withhold (Some level) of None \<Rightarrow> -1 | Some r \<Rightarrow> r)"

text \<open>\<open>max(xs, key=f)\<close> on a non-empty list: the first of the greatest.\<close>

fun max_key :: "('a \<Rightarrow> int) \<Rightarrow> 'a \<Rightarrow> 'a list \<Rightarrow> 'a" where
  "max_key f best [] = best"
| "max_key f best (x # xs) = max_key f (if f x > f best then x else best) xs"

definition withheld_ids :: "TurnInjectionGate \<Rightarrow> string list" where
  "withheld_ids g =
     remdups (List.map_filter
       (\<lambda>(tier, e, admitted).
          if \<not> admitted \<and> \<not> audience_terminal g tier (entry_id e) \<and> or_str (interaction_id e) [] \<noteq> []
          then interaction_id e else None)
       (concat (map (\<lambda>tier. map (Pair tier) (decisions g tier)) EPISODE_TIERS)))"

type_synonym available = "(string \<times> (string \<times> string) list) list"

fun rebuild_loop ::
  "available \<Rightarrow> string \<Rightarrow> (mem_entry \<times> bool) list \<Rightarrow> TurnInjectionGate \<Rightarrow>
   mem_entry list \<times> bool \<times> TurnInjectionGate" where
  "rebuild_loop av tier [] g = ([], False, g)"
| "rebuild_loop av tier ((e, admitted) # ds) g =
     (if admitted
      then (let (out, served, g1) = rebuild_loop av tier ds g in (e # out, served, g1))
      else if audience_terminal g tier (entry_id e) then rebuild_loop av tier ds g
      else case map_of av (or_str (interaction_id e) []) of
             None \<Rightarrow> rebuild_loop av tier ds g
           | Some [] \<Rightarrow> rebuild_loop av tier ds g
           | Some (c # cs) \<Rightarrow>
               let (level, body) = max_key (\<lambda>lt. level_rank (fst lt)) c cs;
                   (ok, g1) = audience_admits_projection tier (entry_id e) level (source_channel_id e) g
               in if \<not> ok then rebuild_loop av tier ds g1
                  else let (out, served, g2) =
                             rebuild_loop av tier ds (record_projection tier (entry_id e) level g1)
                       in (e\<lparr>summary := body, protection_level := Some level\<rparr> # out, True, g2))"

definition rebuild ::
  "available \<Rightarrow> string \<Rightarrow> mem_entry list \<Rightarrow> TurnInjectionGate \<Rightarrow> mem_entry list \<times> TurnInjectionGate" where
  "rebuild av tier admitted_now g =
     (let (out, served, g1) = rebuild_loop av tier (decisions g tier) g
      in (if served then out else admitted_now, g1))"

text \<open>The memory is its agent's id and its table, \<open>None\<close> when the lookup raises.\<close>

definition apply_episode_projections ::
  "string \<Rightarrow> projection_row list option \<Rightarrow> mem_entry list \<Rightarrow> mem_entry list \<Rightarrow> TurnInjectionGate \<Rightarrow>
   (mem_entry list \<times> mem_entry list) \<times> TurnInjectionGate" where
  "apply_episode_projections agent db channel_history episodic_entries g =
     (let ids = sort (withheld_ids g) in
      if ids = [] then ((channel_history, episodic_entries), g)
      else case (db, injectable_levels (g_acting g)) of
             (Some rows, Inr levels) \<Rightarrow>
               let av = projections_for agent ENTRY_TIER_EPISODE ids levels rows in
               if av = [] then ((channel_history, episodic_entries), g)
               else let (ch, g1) = rebuild av ''channel_history'' channel_history g;
                        (ep, g2) = rebuild av ''episodic'' episodic_entries g1
                    in ((ch, ep), g2)
           | _ \<Rightarrow> ((channel_history, episodic_entries), g))"


text \<open>
  The gated part of a turn's memory assembly (\<open>inject_memory_context\<close> of
  \<open>agents/persona_runtime/memory_context.py\<close>): the audience is resolved over the three judged
  tiers, the gate is built and the four tiers pass it, then the projections are served.
\<close>

type_synonym tiers = "mem_entry list \<times> mem_entry list \<times> mem_entry list \<times> mem_entry list"

definition gate_turn ::
  "(string \<Rightarrow> fetch_answer) option \<Rightarrow> ChannelRoster option \<Rightarrow> string \<Rightarrow> AgentEvent \<Rightarrow> string \<Rightarrow>
   projection_row list option \<Rightarrow> tiers \<Rightarrow> (tiers \<times> TurnInjectionGate) result" where
  "gate_turn fetcher roster m ev agent db recalled =
     (case recalled of (channel_episodes, episodes, facts, notes) \<Rightarrow>
      let acting = acting_classification_for_event ev in
      bind_r (resolve_turn_audience fetcher roster m (channel_id ev) acting
                [(''channel_history'', channel_episodes), (''episodic'', episodes), (''facts'', facts)])
        (\<lambda>audience.
      bind_r (mk_TurnInjectionGate acting agent audience) (\<lambda>g0.
        let (ch, g1) = filter_entries ''channel_history'' channel_episodes g0;
            (ep, g2) = filter_entries ''episodic'' episodes g1;
            (fa, g3) = filter_entries ''facts'' facts g2;
            (no, g4) = filter_entries ''notes'' notes g3;
            ((ch', ep'), g5) = apply_episode_projections agent db ch ep g4
        in Inr ((ch', ep', fa, no), g5))))"


section \<open>The gate invariant\<close>

text \<open>What may reach the prompt, and the part of a gate no method changes.\<close>

definition level_safe :: "TurnInjectionGate \<Rightarrow> string \<Rightarrow> bool" where
  "level_safe g level \<longleftrightarrow>
     (case entry_rank_or_withhold (Some level) of None \<Rightarrow> False | Some r \<Rightarrow> r \<le> g_acting_rank g)"

definition audience_safe :: "TurnInjectionGate \<Rightarrow> string \<Rightarrow> string \<Rightarrow> string option \<Rightarrow> bool" where
  "audience_safe g tier level src \<longleftrightarrow>
     (case g_audience g of
        None \<Rightarrow> True
      | Some a \<Rightarrow> \<not> (enforcing a \<and> verdict a tier level src = Some WITHHOLD_DISJOINT))"

definition entry_safe :: "TurnInjectionGate \<Rightarrow> string \<Rightarrow> mem_entry \<Rightarrow> bool" where
  "entry_safe g tier e \<longleftrightarrow>
     (case protection_level e of
        None \<Rightarrow> False
      | Some l \<Rightarrow> level_safe g l \<and> audience_safe g tier l (source_channel_id e))"

definition same_turn :: "TurnInjectionGate \<Rightarrow> TurnInjectionGate \<Rightarrow> bool" where
  "same_turn g h \<longleftrightarrow> g_acting g = g_acting h \<and> g_acting_rank g = g_acting_rank h \<and> g_audience g = g_audience h"

definition gate_inv :: "TurnInjectionGate \<Rightarrow> bool" where
  "gate_inv g \<longleftrightarrow>
     acting_rank (g_acting g) = Inr (g_acting_rank g) \<and>
     (\<forall>tier e. (e, True) \<in> set (decisions g tier) \<longrightarrow> entry_safe g tier e) \<and>
     (\<forall>k l. map_of (g_passed_levels g) k = Some l \<longrightarrow> level_safe g l)"

lemma same_turn_refl [simp]: "same_turn g g"
  by (simp add: same_turn_def)

lemma same_turn_trans: "same_turn g h \<Longrightarrow> same_turn h k \<Longrightarrow> same_turn g k"
  by (simp add: same_turn_def)

lemma safe_cong:
  assumes "same_turn g h"
  shows "level_safe g l = level_safe h l" "audience_safe g t l s = audience_safe h t l s"
    "entry_safe g t e = entry_safe h t e"
  using assms by (auto simp: same_turn_def level_safe_def audience_safe_def entry_safe_def
      split: option.splits)

lemma judge_audience_fst: "fst (judge_audience tier eid level src g) \<longleftrightarrow> audience_safe g tier level src"
  by (auto simp: judge_audience_def audience_safe_def Let_def split: option.splits)

lemma judge_audience_frame:
  "same_turn g (snd (judge_audience tier eid level src g))"
  "g_decisions (snd (judge_audience tier eid level src g)) = g_decisions g"
  "g_passed_levels (snd (judge_audience tier eid level src g)) = g_passed_levels g"
  "g_withheld (snd (judge_audience tier eid level src g)) = g_withheld g"
  "g_unknown (snd (judge_audience tier eid level src g)) = g_unknown g"
  "g_audience_terminal (snd (judge_audience tier eid level src g)) =
     (if audience_safe g tier level src then {} else {(tier, eid)}) \<union> g_audience_terminal g"
  by (auto simp: judge_audience_def same_turn_def audience_safe_def Let_def split: option.splits)

text \<open>The decision of the gate, and what one decision changes.\<close>

lemma admit_fst:
  "fst (admit tier (entry_id e) (protection_level e) (source_channel_id e) g) \<longleftrightarrow> entry_safe g tier e"
  using judge_audience_fst[of tier "entry_id e" "the (protection_level e)" "source_channel_id e" g]
  by (auto simp: admit_def entry_safe_def level_safe_def entry_rank_eq split: option.splits prod.splits
      bind_splits)

lemma admit_frame:
  "same_turn g (snd (admit tier eid level src g))"
  "g_decisions (snd (admit tier eid level src g)) = g_decisions g"
  using judge_audience_frame(1,2)[where tier = tier and eid = eid and level = "the level" and src = src and g = g]
  by (auto simp: admit_def same_turn_def split: option.splits prod.splits)

lemma admit_passed:
  "g_passed_levels (snd (admit tier (entry_id e) (protection_level e) (source_channel_id e) g)) =
     (if entry_safe g tier e
      then AList.update (tier, entry_id e) (the (protection_level e)) (g_passed_levels g)
      else g_passed_levels g)"
  using admit_fst[of tier e g] judge_audience_frame(3)[of tier "entry_id e" "the (protection_level e)" "source_channel_id e" g]
  by (auto simp: admit_def split: option.splits prod.splits if_splits)

lemma decisions_append [simp]:
  "decisions (append_decision tier d g) t = decisions g t @ (if t = tier then [d] else [])"
  by (simp add: decisions_def append_decision_def update_conv')

lemma append_decision_frame [simp]:
  "same_turn g (append_decision tier d g)" "same_turn (append_decision tier d g) h = same_turn g h"
  "g_passed_levels (append_decision tier d g) = g_passed_levels g"
  "g_withheld (append_decision tier d g) = g_withheld g"
  "g_unknown (append_decision tier d g) = g_unknown g"
  "g_audience_terminal (append_decision tier d g) = g_audience_terminal g"
  by (simp_all add: append_decision_def same_turn_def)

text \<open>One round of the filter loop.\<close>

definition admit_step :: "string \<Rightarrow> mem_entry \<Rightarrow> TurnInjectionGate \<Rightarrow> TurnInjectionGate" where
  "admit_step tier e g =
     append_decision tier (e, entry_safe g tier e)
       (snd (admit tier (entry_id e) (protection_level e) (source_channel_id e) g))"

lemma filter_loop_Cons:
  "filter_loop tier (e # es) g =
     ((if entry_safe g tier e then [e] else []) @ fst (filter_loop tier es (admit_step tier e g)),
      snd (filter_loop tier es (admit_step tier e g)))"
  using admit_fst[of tier e g] by (auto simp: admit_step_def Let_def split: prod.splits)

declare filter_loop.simps(2) [simp del]

lemma admit_decisions: "decisions (snd (admit tier eid level src g)) t = decisions g t"
  by (simp add: decisions_def admit_frame(2))

lemma admit_step_frame:
  "same_turn g (admit_step tier e g)"
  "decisions (admit_step tier e g) t = decisions g t @ (if t = tier then [(e, entry_safe g tier e)] else [])"
  "g_passed_levels (admit_step tier e g) =
     (if entry_safe g tier e
      then AList.update (tier, entry_id e) (the (protection_level e)) (g_passed_levels g)
      else g_passed_levels g)"
  by (simp_all add: admit_step_def admit_passed admit_decisions)
    (metis admit_frame(1) append_decision_frame(1) same_turn_trans)

lemma gate_invI:
  assumes "gate_inv g" "same_turn g h"
    and "\<And>tier e. (e, True) \<in> set (decisions h tier) \<Longrightarrow> (e, True) \<in> set (decisions g tier) \<or> entry_safe g tier e"
    and "\<And>k l. map_of (g_passed_levels h) k = Some l \<Longrightarrow> map_of (g_passed_levels g) k = Some l \<or> level_safe g l"
  shows "gate_inv h"
  using assms safe_cong[OF assms(2)] unfolding gate_inv_def same_turn_def by metis

lemma admit_step_inv: "gate_inv g \<Longrightarrow> gate_inv (admit_step tier e g)"
  by (rule gate_invI[OF _ admit_step_frame(1)])
    (auto simp: admit_step_frame update_conv' entry_safe_def split: if_splits option.splits)

lemma filter_loop_spec:
  "fst (filter_loop tier es g) = filter (entry_safe g tier) es"
  "same_turn g (snd (filter_loop tier es g))"
  "decisions (snd (filter_loop tier es g)) t =
     decisions g t @ (if t = tier then map (\<lambda>e. (e, entry_safe g tier e)) es else [])"
  "gate_inv g \<Longrightarrow> gate_inv (snd (filter_loop tier es g))"
proof (induction es arbitrary: g)
  case (Cons e es)
  note f = admit_step_frame(1)[of _ tier e]
  have c: "entry_safe (admit_step tier e g) tier = entry_safe g tier" for g
    using safe_cong(3)[OF f] by auto
  { case 1 show ?case using Cons.IH(1)[of "admit_step tier e g"] by (simp add: filter_loop_Cons c) }
  { case 2 show ?case using same_turn_trans[OF f Cons.IH(2)] by (simp add: filter_loop_Cons) }
  { case 3 show ?case using Cons.IH(3)[of "admit_step tier e g"]
      by (simp add: filter_loop_Cons c admit_step_frame(2)) }
  { case 4 then show ?case using Cons.IH(4)[OF admit_step_inv] by (simp add: filter_loop_Cons) }
qed simp_all

lemma filter_entries_spec:
  "fst (filter_entries tier es g) = filter (entry_safe g tier) es"
  "same_turn g (snd (filter_entries tier es g))"
  "decisions (snd (filter_entries tier es g)) t =
     decisions g t @ (if t = tier then map (\<lambda>e. (e, entry_safe g tier e)) es else [])"
  "gate_inv g \<Longrightarrow> gate_inv (snd (filter_entries tier es g))"
proof -
  let ?h = "g\<lparr>g_decisions := AList.update tier (decisions g tier) (g_decisions g)\<rparr>"
  have h: "same_turn g ?h" "decisions ?h t = decisions g t" for t
    by (auto simp: same_turn_def decisions_def update_conv')
  then have c: "entry_safe ?h = entry_safe g" using safe_cong(3)[OF h(1)] by (intro ext) simp
  show "fst (filter_entries tier es g) = filter (entry_safe g tier) es"
    by (simp add: filter_entries_def filter_loop_spec(1) c)
  show "same_turn g (snd (filter_entries tier es g))"
    unfolding filter_entries_def by (rule same_turn_trans[OF h(1) filter_loop_spec(2)])
  show "decisions (snd (filter_entries tier es g)) t =
     decisions g t @ (if t = tier then map (\<lambda>e. (e, entry_safe g tier e)) es else [])"
    by (simp add: filter_entries_def filter_loop_spec(3) c h(2))
  have "gate_inv g \<Longrightarrow> gate_inv ?h"
    by (rule gate_invI[OF _ h(1)]) (auto simp: h(2))
  then show "gate_inv g \<Longrightarrow> gate_inv (snd (filter_entries tier es g))"
    unfolding filter_entries_def by (rule filter_loop_spec(4))
qed

lemma mk_gate:
  "\<exists>g. mk_TurnInjectionGate a ag aud = Inr g \<and> gate_inv g \<and> g_acting g = a \<and> g_audience g = aud"
  by (simp add: mk_TurnInjectionGate_def acting.rank_ok gate_inv_def decisions_def)


section \<open>The projection branch keeps the invariant\<close>

lemma max_key_mem: "max_key f b xs \<in> set (b # xs)"
  by (induction xs arbitrary: b) (auto split: if_splits)

lemma max_key_max: "x \<in> set (b # xs) \<Longrightarrow> f x \<le> f (max_key f b xs)"
proof (induction xs arbitrary: b x)
  case (Cons y ys)
  have "f b \<le> f (max_key f (if f y > f b then y else b) ys)"
    "f y \<le> f (max_key f (if f y > f b then y else b) ys)"
    using Cons.IH[of "if f y > f b then y else b" "if f y > f b then y else b"]
    by (auto split: if_splits)
  then show ?case using Cons.IH[of x "if f y > f b then y else b"] Cons.prems by auto
qed simp

definition levels_ok :: "available \<Rightarrow> TurnInjectionGate \<Rightarrow> bool" where
  "levels_ok av g \<longleftrightarrow> (\<forall>k xs l t. map_of av k = Some xs \<longrightarrow> (l, t) \<in> set xs \<longrightarrow> level_safe g l)"

lemma levels_ok_cong: "same_turn g h \<Longrightarrow> levels_ok av g = levels_ok av h"
  unfolding levels_ok_def using safe_cong(1) by blast

text \<open>What the branch does with one withheld entry: nothing, or a judgement, or a served stand-in.\<close>

definition served_gate :: "string \<Rightarrow> mem_entry \<Rightarrow> string \<Rightarrow> TurnInjectionGate \<Rightarrow> TurnInjectionGate" where
  "served_gate tier e level g =
     record_projection tier (entry_id e) level
       (snd (judge_audience tier (entry_id e) level (source_channel_id e) g))"

lemma judge_inv: "gate_inv g \<Longrightarrow> gate_inv (snd (judge_audience tier eid level src g))"
  by (rule gate_invI[OF _ judge_audience_frame(1)])
    (auto simp: judge_audience_frame decisions_def)

lemma served_gate_frame:
  "same_turn g (served_gate tier e level g)"
  "decisions (served_gate tier e level g) t = decisions g t"
  "g_passed_levels (served_gate tier e level g) = AList.update (tier, entry_id e) level (g_passed_levels g)"
  using judge_audience_frame(1)[where tier = tier and eid = "entry_id e" and level = level
      and src = "source_channel_id e" and g = g]
  by (auto simp: served_gate_def record_projection_def same_turn_def decisions_def judge_audience_frame)

lemma served_gate_inv: "gate_inv g \<Longrightarrow> level_safe g level \<Longrightarrow> gate_inv (served_gate tier e level g)"
  by (rule gate_invI[OF _ served_gate_frame(1)])
    (auto simp: served_gate_frame update_conv' split: if_splits)

lemma rebuild_loop_withheld:
  assumes "rebuild_loop av tier ((e, False) # ds) g = (out, served, h)"
  shows "rebuild_loop av tier ds g = (out, served, h) \<or>
    (\<exists>level body xs. map_of av (or_str (interaction_id e) []) = Some xs \<and> (level, body) \<in> set xs \<and>
      (\<forall>p \<in> set xs. level_rank (fst p) \<le> level_rank level) \<and>
      (if audience_safe g tier level (source_channel_id e)
       then \<exists>out'. out = e\<lparr>summary := body, protection_level := Some level\<rparr> # out' \<and> served \<and>
            (\<exists>s. rebuild_loop av tier ds (served_gate tier e level g) = (out', s, h))
       else rebuild_loop av tier ds
              (snd (judge_audience tier (entry_id e) level (source_channel_id e) g)) = (out, served, h)))"
proof (cases "audience_terminal g tier (entry_id e) \<or>
    (case map_of av (or_str (interaction_id e) []) of None \<Rightarrow> True | Some xs \<Rightarrow> xs = [])")
  case True
  then have "rebuild_loop av tier ((e, False) # ds) g = rebuild_loop av tier ds g"
    by (auto split: option.splits)
  then show ?thesis using assms by simp
next
  case False
  then obtain c cs where c: "map_of av (or_str (interaction_id e) []) = Some (c # cs)"
    by (auto split: option.splits simp: neq_Nil_conv)
  obtain level body where m: "max_key (\<lambda>lt. level_rank (fst lt)) c cs = (level, body)" by fastforce
  have "(level, body) \<in> set (c # cs)" using max_key_mem[of "\<lambda>lt. level_rank (fst lt)" c cs] m by simp
  moreover have "\<forall>p \<in> set (c # cs). level_rank (fst p) \<le> level_rank level"
    using max_key_max[of _ c cs "\<lambda>lt. level_rank (fst lt)"] m by simp
  moreover have "audience_safe g tier level (source_channel_id e) \<longleftrightarrow>
      fst (judge_audience tier (entry_id e) level (source_channel_id e) g)"
    by (simp add: judge_audience_fst)
  ultimately show ?thesis using assms False c m
    by (intro disjI2 exI[of _ level] exI[of _ body] exI[of _ "c # cs"])
      (auto simp: audience_admits_projection_def served_gate_def Let_def split: prod.splits if_splits)
qed

declare rebuild_loop.simps(2) [simp del]

lemma rebuild_loop_admitted:
  "rebuild_loop av tier ((e, True) # ds) g =
     (e # fst (rebuild_loop av tier ds g), snd (rebuild_loop av tier ds g))"
  by (simp add: rebuild_loop.simps(2) split_def Let_def)

lemma rebuild_loop_safe:
  assumes "rebuild_loop av tier ds g = (out, served, h)" "gate_inv g" "levels_ok av g"
    and "\<forall>e. (e, True) \<in> set ds \<longrightarrow> entry_safe g tier e"
  shows "same_turn g h \<and> gate_inv h \<and> (\<forall>t. decisions h t = decisions g t) \<and>
    (\<forall>e \<in> set out. entry_safe g tier e)"
  using assms
proof (induction ds arbitrary: g out served)
  case (Cons d ds)
  obtain e b where d: "d = (e, b)" by fastforce
  have ih: "same_turn g h \<and> gate_inv h \<and> (\<forall>t. decisions h t = decisions g t) \<and>
      (\<forall>e \<in> set out'. entry_safe g tier e)"
    if r: "rebuild_loop av tier ds k = (out', s, h)" and k: "same_turn g k" "gate_inv k"
      "\<forall>t. decisions k t = decisions g t" for k out' s
  proof -
    have "levels_ok av k" "\<forall>e. (e, True) \<in> set ds \<longrightarrow> entry_safe k tier e"
      using levels_ok_cong[OF k(1)] safe_cong(3)[OF k(1)] Cons.prems by simp_all
    from Cons.IH[OF r k(2) this] have "same_turn k h" "gate_inv h" "\<forall>t. decisions h t = decisions k t"
        "\<forall>e \<in> set out'. entry_safe k tier e" by simp_all
    then show ?thesis using k(3) same_turn_trans[OF k(1)] safe_cong(3)[OF k(1)] by simp
  qed
  show ?case
  proof (cases b)
    case True
    then show ?thesis
      using Cons.prems d ih[of g] by (cases "rebuild_loop av tier ds g") (auto simp: rebuild_loop_admitted)
  next
    case False
    then have w: "rebuild_loop av tier ((e, False) # ds) g = (out, served, h)" using Cons.prems d by simp
    from rebuild_loop_withheld[OF w] show ?thesis
    proof (elim disjE exE conjE)
      assume "rebuild_loop av tier ds g = (out, served, h)"
      then show ?thesis using ih[of g] Cons.prems by simp
    next
      fix level body xs
      assume x: "map_of av (or_str (interaction_id e) []) = Some xs" "(level, body) \<in> set xs"
        and c: "if audience_safe g tier level (source_channel_id e)
          then \<exists>out'. out = e\<lparr>summary := body, protection_level := Some level\<rparr> # out' \<and> served \<and>
            (\<exists>s. rebuild_loop av tier ds (served_gate tier e level g) = (out', s, h))
          else rebuild_loop av tier ds
              (snd (judge_audience tier (entry_id e) level (source_channel_id e) g)) = (out, served, h)"
      have l: "level_safe g level" using Cons.prems(3) x by (auto simp: levels_ok_def)
      show ?thesis
      proof (cases "audience_safe g tier level (source_channel_id e)")
        case True
        then obtain out' s where o: "out = e\<lparr>summary := body, protection_level := Some level\<rparr> # out'"
            "rebuild_loop av tier ds (served_gate tier e level g) = (out', s, h)"
          using c by auto
        have "entry_safe g tier (e\<lparr>summary := body, protection_level := Some level\<rparr>)"
          using l True by (simp add: entry_safe_def)
        then show ?thesis
          using ih[OF o(2)] served_gate_frame(1,2) served_gate_inv[OF Cons.prems(2) l] o(1) by simp
      next
        case False
        then show ?thesis using c ih judge_audience_frame(1,2) judge_inv[OF Cons.prems(2)]
          by (simp add: decisions_def)
      qed
    qed
  qed
qed simp


lemma injectable_level_safe:
  assumes "gate_inv g" "injectable_levels (g_acting g) = Inr ls" "l \<in> set ls"
  shows "level_safe g l"
  using assms injectable_levels_eq[of "g_acting g"]
  by (auto simp: gate_inv_def acting.rank_ok level_safe_def entry_rank_eq less_eq_level_def)

lemma rebuild_safe:
  assumes "rebuild av tier now g = (out, h)" "gate_inv g" "levels_ok av g"
    and "list_all (entry_safe g tier) now"
  shows "same_turn g h \<and> gate_inv h \<and> (\<forall>t. decisions h t = decisions g t) \<and> list_all (entry_safe g tier) out"
proof -
  obtain o' s h' where r: "rebuild_loop av tier (decisions g tier) g = (o', s, h')"
    by (cases "rebuild_loop av tier (decisions g tier) g")
  have "\<forall>e. (e, True) \<in> set (decisions g tier) \<longrightarrow> entry_safe g tier e"
    using assms(2) by (simp add: gate_inv_def)
  from rebuild_loop_safe[OF r assms(2,3) this] show ?thesis
    using assms(1,4) r by (auto simp: rebuild_def list_all_iff split: if_splits)
qed

lemma apply_episode_projections_safe:
  assumes "apply_episode_projections agent db ch ep g = ((ch', ep'), h)" "gate_inv g"
    and "list_all (entry_safe g ''channel_history'') ch" "list_all (entry_safe g ''episodic'') ep"
  shows "same_turn g h \<and> gate_inv h \<and> list_all (entry_safe g ''channel_history'') ch' \<and>
    list_all (entry_safe g ''episodic'') ep'"
proof (cases "(ch', ep') = (ch, ep) \<and> h = g")
  case False
  then obtain rows levels av where av: "injectable_levels (g_acting g) = Inr levels"
      "av = projections_for agent ENTRY_TIER_EPISODE (sort (withheld_ids g)) levels rows"
    and run: "(let (c, g1) = rebuild av ''channel_history'' ch g;
        (p, g2) = rebuild av ''episodic'' ep g1 in ((c, p), g2)) = ((ch', ep'), h)"
    using assms(1) by (auto simp: apply_episode_projections_def Let_def split: if_splits option.splits sum.splits)
  have ok: "levels_ok av g"
    unfolding levels_ok_def using projections_for_sound injectable_level_safe[OF assms(2) av(1)] av(2) by blast
  obtain g1 where r1: "rebuild av ''channel_history'' ch g = (ch', g1)"
      and r2: "rebuild av ''episodic'' ep g1 = (ep', h)"
    using run by (auto split: prod.splits)
  note s1 = rebuild_safe[OF r1 assms(2) ok assms(3)]
  then have t1: "same_turn g g1" by simp
  have c: "entry_safe g1 = entry_safe g" using safe_cong(3)[OF t1] by (intro ext) simp
  have "same_turn g1 h \<and> gate_inv h \<and> (\<forall>t. decisions h t = decisions g1 t) \<and>
      list_all (entry_safe g1 ''episodic'') ep'"
    by (rule rebuild_safe[OF r2]) (use s1 ok levels_ok_cong[OF t1] assms(4) c in simp_all)
  then show ?thesis using s1 c same_turn_trans[OF t1] by simp
qed (use assms in simp)


section \<open>One contract for the operations that drive a gate\<close>

text \<open>
  A gate operation keeps the invariant and stays on its turn; whatever it is, the manifest taken
  afterwards names only budget-admitted entries at levels the turn may see.
\<close>

locale gate_op =
  fixes run :: "TurnInjectionGate \<Rightarrow> 'a \<times> TurnInjectionGate"
  assumes keeps_inv: "gate_inv g \<Longrightarrow> gate_inv (snd (run g))"
    and keeps_turn: "gate_inv g \<Longrightarrow> same_turn g (snd (run g))"
begin

lemma manifest_safe:
  assumes "gate_inv g" "m \<in> set (manifest budget (snd (run g)))"
  shows "level_safe g (me_protection_level m) \<and> me_tier m \<in> set MANIFEST_TIERS \<and>
    me_entry_id m \<in> set (admissions_by_tier budget (me_tier m))"
proof -
  have "\<And>k l. map_of (g_passed_levels (snd (run g))) k = Some l \<Longrightarrow> level_safe g l"
    using keeps_inv[OF assms(1)] unfolding gate_inv_def safe_cong(1)[OF keeps_turn[OF assms(1)]] by blast
  then show ?thesis using assms(2)
    by (fastforce simp: manifest_def manifest_entry_def map_filter_def)
qed

end

interpretation filter_op: gate_op "filter_entries tier es" for tier es
  by unfold_locales (simp_all add: filter_entries_spec)

lemma apply_projections_any:
  assumes "gate_inv g"
  shows "gate_inv (snd (apply_episode_projections agent db ch ep g)) \<and>
    same_turn g (snd (apply_episode_projections agent db ch ep g))"
proof -
  have indep: "snd (apply_episode_projections agent db ch ep g) =
      snd (apply_episode_projections agent db [] [] g)"
    by (auto simp: apply_episode_projections_def rebuild_def Let_def split: option.splits sum.splits prod.splits)
  show ?thesis unfolding indep
    using apply_episode_projections_safe[of agent db "[]" "[]" g] assms
    by (cases "apply_episode_projections agent db [] [] g") auto
qed

interpretation project_op: gate_op "apply_episode_projections agent db ch ep" for agent db ch ep
  by unfold_locales (simp_all add: apply_projections_any)


section \<open>Properties\<close>

text \<open>
  The rule the gate stands for, on the abstract lattice: the label parses, ranks at or below the
  acting level, and in live mode the audience verdict is not a disjoint one.
\<close>

definition may_inject :: "level \<Rightarrow> TurnAudience option \<Rightarrow> string \<Rightarrow> mem_entry \<Rightarrow> bool" where
  "may_inject bound aud tier e \<longleftrightarrow>
     (case protection_level e of
        None \<Rightarrow> False
      | Some l \<Rightarrow>
          (case level_of l of None \<Rightarrow> False | Some v \<Rightarrow> v \<le> bound) \<and>
          (case aud of
             None \<Rightarrow> True
           | Some a \<Rightarrow> mode a = AUDIENCE_LIVE \<longrightarrow> verdict a tier l (source_channel_id e) \<noteq> Some WITHHOLD_DISJOINT))"

lemma entry_safe_may_inject:
  assumes "gate_inv g"
  shows "entry_safe g tier e \<longleftrightarrow> may_inject (abs_level Public (g_acting g)) (g_audience g) tier e"
  using assms
  by (auto simp: entry_safe_def may_inject_def level_safe_def audience_safe_def gate_inv_def
      acting.rank_ok entry_rank_eq enforcing_def less_eq_level_def split: option.splits)

lemma gate_turn_run:
  assumes "mk_TurnInjectionGate acting agent aud = Inr g0"
    and "filter_entries ''channel_history'' channel_episodes g0 = (ch, g1)"
    and "filter_entries ''episodic'' episodes g1 = (ep, g2)"
    and "filter_entries ''facts'' facts g2 = (fa, g3)"
    and "filter_entries ''notes'' notes g3 = (no, g4)"
    and "apply_episode_projections agent db ch ep g4 = ((ch', ep'), g5)"
  shows "gate_inv g5 \<and> g_acting g5 = acting \<and> g_audience g5 = aud \<and>
    list_all (entry_safe g0 ''channel_history'') ch' \<and> list_all (entry_safe g0 ''episodic'') ep' \<and>
    list_all (entry_safe g0 ''facts'') fa \<and> list_all (entry_safe g0 ''notes'') no \<and> gate_inv g0 \<and>
    g_acting g0 = acting \<and> g_audience g0 = aud"
proof -
  have g0: "gate_inv g0" "g_acting g0 = acting" "g_audience g0 = aud"
    using mk_gate[of acting agent aud] assms(1) by auto
  have t: "same_turn g0 g1" "same_turn g1 g2" "same_turn g2 g3" "same_turn g3 g4"
    using assms filter_entries_spec(2) by (metis snd_conv)+
  have i: "gate_inv g1" "gate_inv g2" "gate_inv g3" "gate_inv g4"
    using assms g0 filter_entries_spec(4) by (metis snd_conv)+
  have s: "entry_safe g1 = entry_safe g0" "entry_safe g2 = entry_safe g0"
      "entry_safe g3 = entry_safe g0" "entry_safe g4 = entry_safe g0"
    using t safe_cong(3) same_turn_trans by (intro ext, metis)+
  have l: "list_all (entry_safe g0 ''channel_history'') ch" "list_all (entry_safe g0 ''episodic'') ep"
      "list_all (entry_safe g0 ''facts'') fa" "list_all (entry_safe g0 ''notes'') no"
    using assms filter_entries_spec(1)[of "''channel_history''" channel_episodes g0]
      filter_entries_spec(1)[of "''episodic''" episodes g1] filter_entries_spec(1)[of "''facts''" facts g2]
      filter_entries_spec(1)[of "''notes''" "notes" g3]
    by (simp_all add: list_all_iff s)
  have "same_turn g4 g5 \<and> gate_inv g5 \<and> list_all (entry_safe g4 ''channel_history'') ch' \<and>
    list_all (entry_safe g4 ''episodic'') ep'"
    by (rule apply_episode_projections_safe[OF assms(6) i(4)]) (simp_all add: s l)
  then show ?thesis using g0 l s t by (auto simp: same_turn_def)
qed

lemma gate_turn_total:
  "\<exists>ch ep fa no g aud. gate_turn fetcher roster m ev agent db (ce, es, fs, ns) = Inr ((ch, ep, fa, no), g) \<and>
     resolve_turn_audience fetcher roster m (channel_id ev) (acting_classification_for_event ev)
       [(''channel_history'', ce), (''episodic'', es), (''facts'', fs)] = Inr aud \<and>
     gate_inv g \<and> g_acting g = acting_classification_for_event ev \<and> g_audience g = aud \<and>
     list_all (entry_safe g ''channel_history'') ch \<and> list_all (entry_safe g ''episodic'') ep \<and>
     list_all (entry_safe g ''facts'') fa \<and> list_all (entry_safe g ''notes'') no"
proof -
  let ?a = "acting_classification_for_event ev"
  have "\<exists>aud. resolve_turn_audience fetcher roster m (channel_id ev) ?a
       [(''channel_history'', ce), (''episodic'', es), (''facts'', fs)] = Inr aud"
    using rank_index_name[of Public]
    by (simp add: resolve_turn_audience_def acting.rank_ok Let_def)
  then obtain aud where aud: "resolve_turn_audience fetcher roster m (channel_id ev) ?a
       [(''channel_history'', ce), (''episodic'', es), (''facts'', fs)] = Inr aud" by blast
  obtain g0 where g0: "mk_TurnInjectionGate ?a agent aud = Inr g0" using mk_gate by blast
  obtain ch g1 where 1: "filter_entries ''channel_history'' ce g0 = (ch, g1)" by fastforce
  obtain ep g2 where 2: "filter_entries ''episodic'' es g1 = (ep, g2)" by fastforce
  obtain fa g3 where 3: "filter_entries ''facts'' fs g2 = (fa, g3)" by fastforce
  obtain no g4 where 4: "filter_entries ''notes'' ns g3 = (no, g4)" by fastforce
  obtain ch' ep' g5 where 5: "apply_episode_projections agent db ch ep g4 = ((ch', ep'), g5)"
    by (metis prod.exhaust)
  have run: "gate_turn fetcher roster m ev agent db (ce, es, fs, ns) = Inr ((ch', ep', fa, no), g5)"
    using aud g0 1 2 3 4 5 by (simp add: gate_turn_def)
  note r = gate_turn_run[OF g0 1 2 3 4 5]
  then have "entry_safe g5 = entry_safe g0"
    by (intro ext) (simp add: entry_safe_may_inject)
  then show ?thesis using run aud r by auto
qed



text \<open>
  Turns without a classified channel see public memory only. For every event type of the floor
  class, whatever its metadata claims, each entry that reaches the renderers is labelled \<open>public\<close>
  and no audience is resolved; the floor class and the channel class together are all event types.
\<close>

lemma floor_turn_public_only:
  assumes "event_type ev \<in> set PUBLIC_FLOOR_EVENT_TYPES"
    and "gate_turn fetcher roster m ev agent db (ce, es, fs, ns) = Inr ((ch, ep, fa, no), g)"
  shows "g_audience g = None \<and> (\<forall>e \<in> set (ch @ ep @ fa @ no). protection_level e = Some CLASSIFICATION_PUBLIC) \<and>
    set PUBLIC_FLOOR_EVENT_TYPES = - set CHANNEL_ACTING_EVENT_TYPES"
proof -
  have part: "set PUBLIC_FLOOR_EVENT_TYPES = - set CHANNEL_ACTING_EVENT_TYPES"
  proof (rule set_eqI)
    fix x show "x \<in> set PUBLIC_FLOOR_EVENT_TYPES \<longleftrightarrow> x \<in> - set CHANNEL_ACTING_EVENT_TYPES"
      by (cases x) (simp_all add: PUBLIC_FLOOR_EVENT_TYPES_def CHANNEL_ACTING_EVENT_TYPES_def)
  qed
  then have a: "acting_classification_for_event ev = None"
    using assms(1) by (simp add: acting_classification_for_event_def)
  have aud: "resolve_turn_audience fetcher roster m c None cands = Inr None" for c cands
    using rank_index_name[of Public]
    by (simp add: resolve_turn_audience_def acting.rank_ok abs_level_def)
  have pub: "protection_level e = Some CLASSIFICATION_PUBLIC" if "may_inject Public None t e" for t e
    using that by (auto simp: may_inject_def less_eq_level_def split: option.splits dest!: level_of_SomeD)
      (metis level_ord_range level_ord_inj level_name.simps(1) level_ord.simps(1) order_antisym)
  obtain ch' ep' fa' no' g' aud' where t:
    "gate_turn fetcher roster m ev agent db (ce, es, fs, ns) = Inr ((ch', ep', fa', no'), g')"
    "resolve_turn_audience fetcher roster m (channel_id ev) (acting_classification_for_event ev)
       [(''channel_history'', ce), (''episodic'', es), (''facts'', fs)] = Inr aud'"
    "gate_inv g'" "g_acting g' = acting_classification_for_event ev" "g_audience g' = aud'"
    "list_all (entry_safe g' ''channel_history'') ch'" "list_all (entry_safe g' ''episodic'') ep'"
    "list_all (entry_safe g' ''facts'') fa'" "list_all (entry_safe g' ''notes'') no'"
    using gate_turn_total[of fetcher roster m ev agent db ce es fs ns] by (elim exE conjE)
  have "entry_safe g' t e \<longleftrightarrow> may_inject Public None t e" for t e
    using entry_safe_may_inject[OF t(3), of t e] t a aud by (simp add: abs_level_def)
  then show ?thesis using t assms(2) a aud part pub by (auto simp: list_all_iff)
qed

theorem floor_turn_public_only_witness:
  "\<exists>ch ep fa no g. gate_turn None None AUDIENCE_LIVE
      \<lparr>event_type = TICK, payload = [], channel_id = None, sender_id = None, message_id = None,
       thread_id = None, timestamp = 0, metadata = [(''channel_classification'', PyStr ''secret'')]\<rparr>
      ''ada'' (Some [])
      ([], [], [\<lparr>entry_id = ''f1'', protection_level = Some ''internal'', source_channel_id = None,
                 interaction_id = None, summary = ''x''\<rparr>],
       [\<lparr>entry_id = ''n1'', protection_level = Some ''public'', source_channel_id = None,
         interaction_id = None, summary = ''y''\<rparr>]) = Inr ((ch, ep, fa, no), g) \<and>
      g_audience g = None \<and> (\<forall>e \<in> set (ch @ ep @ fa @ no). protection_level e = Some CLASSIFICATION_PUBLIC)"
proof -
  let ?ev = "\<lparr>event_type = TICK, payload = [], channel_id = None, sender_id = None, message_id = None,
       thread_id = None, timestamp = 0, metadata = [(''channel_classification'', PyStr ''secret'')]\<rparr>"
  let ?fs = "[\<lparr>entry_id = ''f1'', protection_level = Some ''internal'', source_channel_id = None,
                 interaction_id = None, summary = ''x''\<rparr>]"
  let ?ns = "[\<lparr>entry_id = ''n1'', protection_level = Some ''public'', source_channel_id = None,
         interaction_id = None, summary = ''y''\<rparr>]"
  obtain ch ep fa no g where
    g: "gate_turn None None AUDIENCE_LIVE ?ev ''ada'' (Some []) ([], [], ?fs, ?ns) = Inr ((ch, ep, fa, no), g)"
    using gate_turn_total[of None None AUDIENCE_LIVE ?ev "''ada''" "Some []" "[]" "[]" ?fs ?ns] by auto
  have "event_type ?ev \<in> set PUBLIC_FLOOR_EVENT_TYPES" by (simp add: PUBLIC_FLOOR_EVENT_TYPES_def)
  from floor_turn_public_only[OF this g] g show ?thesis by blast
qed


text \<open>Every candidate is counted once.\<close>

definition withheld_total :: "TurnInjectionGate \<Rightarrow> nat" where
  "withheld_total g = withheld_count g + unknown_label_count g + audience_withheld_count g"

lemmas withheld_counts = withheld_total_def withheld_count_def unknown_label_count_def
  audience_withheld_count_def

lemma admit_step_counts:
  assumes "finite (g_audience_terminal g)" "(tier, entry_id e) \<notin> g_audience_terminal g"
  shows "withheld_total (admit_step tier e g) = withheld_total g + (if entry_safe g tier e then 0 else 1)"
    and "g_audience_terminal (admit_step tier e g) \<subseteq> insert (tier, entry_id e) (g_audience_terminal g)"
    and "finite (g_audience_terminal (admit_step tier e g))"
proof -
  let ?j = "judge_audience tier (entry_id e) (the (protection_level e)) (source_channel_id e) g"
  let ?a = "admit tier (entry_id e) (protection_level e) (source_channel_id e) g"
  consider (unknown) "entry_rank_or_withhold (protection_level e) = None"
    | (above) r where "entry_rank_or_withhold (protection_level e) = Some r" "r > g_acting_rank g"
    | (judged) r l where "entry_rank_or_withhold (protection_level e) = Some r" "r \<le> g_acting_rank g"
        "protection_level e = Some l"
    by (cases "protection_level e") (auto simp: entry_rank_eq, metis linorder_le_less_linear option.exhaust)
  then have "withheld_total (snd ?a) = withheld_total g + (if entry_safe g tier e then 0 else 1) \<and>
      g_audience_terminal (snd ?a) \<subseteq> insert (tier, entry_id e) (g_audience_terminal g)"
  proof cases
    case unknown
    then show ?thesis
      by (auto simp: admit_def entry_safe_def level_safe_def withheld_counts split: option.splits)
  next
    case above
    then show ?thesis
      by (auto simp: admit_def entry_safe_def level_safe_def withheld_counts split: option.splits)
  next
    case judged
    then have "entry_safe g tier e \<longleftrightarrow> audience_safe g tier l (source_channel_id e)"
      by (simp add: entry_safe_def level_safe_def)
    moreover have "withheld_total (snd ?a) = withheld_total (snd ?j)"
      "g_audience_terminal (snd ?a) = g_audience_terminal (snd ?j)"
      using judged by (auto simp: admit_def withheld_counts split: prod.splits)
    ultimately show ?thesis using judged assms
      by (auto simp: withheld_counts judge_audience_frame)
  qed
  then show "withheld_total (admit_step tier e g) = withheld_total g + (if entry_safe g tier e then 0 else 1)"
    and t: "g_audience_terminal (admit_step tier e g) \<subseteq> insert (tier, entry_id e) (g_audience_terminal g)"
    by (simp_all add: admit_step_def withheld_counts)
  then show "finite (g_audience_terminal (admit_step tier e g))"
    using assms(1) by (meson finite.insertI finite_subset)
qed

lemma filter_loop_counts:
  assumes "finite (g_audience_terminal g)" "distinct (map entry_id es)"
    "\<And>e. e \<in> set es \<Longrightarrow> (tier, entry_id e) \<notin> g_audience_terminal g"
  shows "withheld_total (snd (filter_loop tier es g)) + length (fst (filter_loop tier es g)) =
     withheld_total g + length es"
  using assms
proof (induction es arbitrary: g)
  case (Cons e es)
  have n: "(tier, entry_id e) \<notin> g_audience_terminal g" using Cons.prems by simp
  note c = admit_step_counts[OF Cons.prems(1) n]
  have "withheld_total (snd (filter_loop tier es (admit_step tier e g))) +
      length (fst (filter_loop tier es (admit_step tier e g))) = withheld_total (admit_step tier e g) + length es"
  proof (rule Cons.IH)
    fix x assume "x \<in> set es"
    then have "entry_id x \<noteq> entry_id e" "(tier, entry_id x) \<notin> g_audience_terminal g"
      using Cons.prems(2) Cons.prems(3)[of x] by (simp_all, metis image_eqI)
    then show "(tier, entry_id x) \<notin> g_audience_terminal (admit_step tier e g)" using c(2) by blast
  qed (use Cons.prems c in simp_all)
  then show ?case using c(1) by (simp add: filter_loop_Cons)
qed simp

text \<open>
  The gate accounts for every candidate. Filtering a tier of distinct entries through a fresh
  gate keeps, in order, exactly the entries the rule admits; each of the others is in exactly one of
  the three tallies (above the acting rank, unparseable label, withheld for audience), so the tallies
  and the admitted entries add up to the candidates.
\<close>

lemma filter_entries_accounts:
  assumes "mk_TurnInjectionGate acting agent aud = Inr g0" "distinct (map entry_id es)"
    and "filter_entries tier es g0 = (admitted, g)"
  shows "admitted = filter (may_inject (abs_level Public acting) aud tier) es \<and>
    length es = length admitted + withheld_count g + unknown_label_count g + audience_withheld_count g \<and>
    decisions g tier = map (\<lambda>e. (e, may_inject (abs_level Public acting) aud tier e)) es"
proof -
  have g0: "gate_inv g0" "g_acting g0 = acting" "g_audience g0 = aud"
    using mk_gate[of acting agent aud] assms(1) by auto
  have fresh: "decisions g0 tier = []" "g_audience_terminal g0 = {}" "withheld_total g0 = 0"
    using assms(1) by (auto simp: mk_TurnInjectionGate_def acting.rank_ok decisions_def withheld_counts)
  have "entry_safe g0 tier = may_inject (abs_level Public acting) aud tier"
    using entry_safe_may_inject[OF g0(1)] g0(2,3) by auto
  note spec = filter_entries_spec(1,3)[of tier es g0, unfolded this]
  let ?h = "g0\<lparr>g_decisions := AList.update tier (decisions g0 tier) (g_decisions g0)\<rparr>"
  have "withheld_total (snd (filter_loop tier es ?h)) + length (fst (filter_loop tier es ?h)) =
     withheld_total ?h + length es"
    using fresh assms(2) by (intro filter_loop_counts) simp_all
  then have "withheld_total g + length admitted = length es"
    using assms(3) fresh by (simp add: filter_entries_def withheld_counts)
  then show ?thesis using spec assms(3) fresh by (simp add: withheld_total_def)
qed


theorem filter_entries_accounts_witness:
  "\<exists>g0 admitted g. mk_TurnInjectionGate (Some ''internal'') ''ada'' None = Inr g0 \<and>
     filter_entries ''facts''
       [\<lparr>entry_id = ''f1'', protection_level = Some ''secret'', source_channel_id = None,
         interaction_id = None, summary = ''x''\<rparr>,
        \<lparr>entry_id = ''f2'', protection_level = Some ''public'', source_channel_id = None,
         interaction_id = None, summary = ''y''\<rparr>] g0 = (admitted, g) \<and>
     map entry_id admitted = [''f2''] \<and>
     2 = length admitted + withheld_count g + unknown_label_count g + audience_withheld_count g"
proof -
  let ?es = "[\<lparr>entry_id = ''f1'', protection_level = Some ''secret'', source_channel_id = None,
         interaction_id = None, summary = ''x''\<rparr>,
        \<lparr>entry_id = ''f2'', protection_level = Some ''public'', source_channel_id = None,
         interaction_id = None, summary = ''y''\<rparr>]"
  obtain g0 where g0: "mk_TurnInjectionGate (Some ''internal'') ''ada'' None = Inr g0"
    using mk_gate by blast
  obtain a g where f: "filter_entries ''facts'' ?es g0 = (a, g)" by fastforce
  have d: "distinct (map entry_id ?es)" by simp
  have m: "map entry_id (filter (may_inject (abs_level Public (Some ''internal'')) None ''facts'') ?es) = [''f2'']"
    by code_simp
  have c: "a = filter (may_inject (abs_level Public (Some ''internal'')) None ''facts'') ?es"
    "length ?es = length a + withheld_count g + unknown_label_count g + audience_withheld_count g"
    using filter_entries_accounts[OF g0 d f] by blast+
  have "map entry_id a = [''f2'']" using m unfolding c(1)[symmetric] .
  then show ?thesis using g0 f c(2) by auto
qed

text \<open>The stand-in of a withheld entry: its best admissible projection under its own identity.\<close>

definition stand_in :: "available \<Rightarrow> mem_entry \<Rightarrow> mem_entry \<Rightarrow> bool" where
  "stand_in av x e \<longleftrightarrow> (\<exists>xs level body. map_of av (or_str (interaction_id e) []) = Some xs \<and>
     (level, body) \<in> set xs \<and> (\<forall>p \<in> set xs. level_rank (fst p) \<le> level_rank level) \<and>
     x = e\<lparr>summary := body, protection_level := Some level\<rparr>)"

lemma stand_inI:
  "map_of av (or_str (interaction_id e) []) = Some xs \<Longrightarrow> (level, body) \<in> set xs \<Longrightarrow>
   \<forall>p \<in> set xs. level_rank (fst p) \<le> level_rank level \<Longrightarrow>
   stand_in av (e\<lparr>summary := body, protection_level := Some level\<rparr>) e"
  by (auto simp: stand_in_def)

lemma rebuild_loop_order:
  assumes "rebuild_loop av tier ds g = (out, served, h)"
  shows "subseq (map entry_id out) (map (entry_id \<circ> fst) ds) \<and>
    (\<forall>e. (e, True) \<in> set ds \<longrightarrow> e \<in> set out) \<and>
    (\<forall>x \<in> set out. (x, True) \<in> set ds \<or> (\<exists>e. (e, False) \<in> set ds \<and> stand_in av x e))"
  using assms
proof (induction ds arbitrary: g out served)
  case (Cons d ds)
  obtain e b where d: "d = (e, b)" by fastforce
  show ?case
  proof (cases b)
    case True
    obtain o' s where r: "rebuild_loop av tier ds g = (o', s, h)" "out = e # o'"
      using Cons.prems True d
      by (cases "rebuild_loop av tier ds g") (auto simp: rebuild_loop_admitted)
    show ?thesis using Cons.IH[OF r(1)] r(2) True d by auto
  next
    case False
    then have "rebuild_loop av tier ((e, False) # ds) g = (out, served, h)" using Cons.prems d by simp
    from rebuild_loop_withheld[OF this] consider
      (skip) k s where "rebuild_loop av tier ds k = (out, s, h)"
      | (serve) x o' k s where "out = x # o'" "stand_in av x e" "rebuild_loop av tier ds k = (o', s, h)"
      by (auto dest: stand_inI split: if_splits)
    then show ?thesis
    proof cases
      case skip
      show ?thesis using Cons.IH[OF skip] False d by auto
    next
      case serve
      have "entry_id x = entry_id e" using serve(2) by (auto simp: stand_in_def)
      then show ?thesis using Cons.IH[OF serve(3)] serve(1,2) False d by auto
    qed
  qed
qed simp

text \<open>
  A served projection stands where the withheld entry stood. When the branch rebuilds a tier,
  the entries come out in candidate order without a new identity, every entry the gate admitted is
  still there verbatim, and each of the others is a withheld candidate with its text and label
  replaced by the projection of the highest level among those the lookup returned for it.
\<close>

lemma rebuild_keeps_order:
  assumes "rebuild av tier admitted_now g = (out, h)" "admitted_now = map fst (filter snd (decisions g tier))"
  shows "subseq (map entry_id out) (map (entry_id \<circ> fst) (decisions g tier)) \<and>
    (\<forall>e. (e, True) \<in> set (decisions g tier) \<longrightarrow> e \<in> set out) \<and>
    (\<forall>x \<in> set out. (x, True) \<in> set (decisions g tier) \<or>
       (\<exists>e. (e, False) \<in> set (decisions g tier) \<and> stand_in av x e))"
proof -
  obtain o' s k where r: "rebuild_loop av tier (decisions g tier) g = (o', s, k)"
    by (cases "rebuild_loop av tier (decisions g tier) g")
  have "subseq (map (entry_id \<circ> fst) (filter snd (decisions g tier))) (map (entry_id \<circ> fst) (decisions g tier))"
    by (intro subseq_map subseq_filter_left)
  moreover have "(e, True) \<in> set (decisions g tier) \<longleftrightarrow> e \<in> fst ` {x \<in> set (decisions g tier). snd x}" for e
    by (auto intro!: image_eqI[where x = "(e, True)"])
  ultimately show ?thesis
    using rebuild_loop_order[OF r] assms r by (auto simp: rebuild_def split: if_splits)
qed

theorem rebuild_keeps_order_witness:
  "\<exists>out h. rebuild [(''i1'', [(''public'', ''a deal'')])] ''episodic'' []
      \<lparr>g_acting = Some ''internal'', g_acting_rank = 1, g_agent_id = ''ada'', g_audience = None,
       g_audience_records = [], g_audience_terminal = {}, g_withheld = 1, g_unknown = [],
       g_passed_levels = [],
       g_decisions = [(''episodic'', [(\<lparr>entry_id = ''e1'', protection_level = Some ''secret'',
          source_channel_id = None, interaction_id = Some ''i1'', summary = ''Zephyr''\<rparr>, False)])]\<rparr>
      = (out, h) \<and> subseq (map entry_id out) [''e1''] \<and> map summary out = [''a deal'']"
proof -
  let ?e = "\<lparr>entry_id = ''e1'', protection_level = Some ''secret'',
          source_channel_id = None, interaction_id = Some ''i1'', summary = ''Zephyr''\<rparr>"
  let ?g = "\<lparr>g_acting = Some ''internal'', g_acting_rank = 1, g_agent_id = ''ada'', g_audience = None,
       g_audience_records = [], g_audience_terminal = {}, g_withheld = 1, g_unknown = [],
       g_passed_levels = [], g_decisions = [(''episodic'', [(?e, False)])]\<rparr>"
  have d: "decisions ?g ''episodic'' = [(?e, False)]" by (simp add: decisions_def)
  obtain out h where r: "rebuild [(''i1'', [(''public'', ''a deal'')])] ''episodic'' [] ?g = (out, h)" by fastforce
  have "map summary (fst (rebuild [(''i1'', [(''public'', ''a deal'')])] ''episodic'' [] ?g)) = [''a deal'']"
    by code_simp
  then have "map summary out = [''a deal'']" using r by simp
  then show ?thesis using rebuild_keeps_order[OF r] r d by auto
qed

text \<open>
  The manifest tells the truth about the prompt. After any filtering of any tier and any run of
  the projection branch, whatever the budget admitted, every manifest line names an entry the budget
  admitted in that tier, in a gated tier, at a level that parses and ranks at or below the turn's
  acting level.
\<close>

lemma manifest_within_acting:
  assumes "gate_turn fetcher roster m ev agent db (ce, es, fs, ns) = Inr ((ch, ep, fa, no), g)"
    and "l \<in> set (manifest budget g)"
  shows "me_tier l \<in> set MANIFEST_TIERS \<and> me_entry_id l \<in> set (admissions_by_tier budget (me_tier l)) \<and>
    (\<exists>v. level_of (me_protection_level l) = Some v \<and> v \<le> abs_level Public (acting_classification_for_event ev))"
proof -
  let ?a = "acting_classification_for_event ev"
  obtain aud g0 where g0: "mk_TurnInjectionGate ?a agent aud = Inr g0"
    and run: "(let (ch, g1) = filter_entries ''channel_history'' ce g0;
            (ep, g2) = filter_entries ''episodic'' es g1; (fa, g3) = filter_entries ''facts'' fs g2;
            (no, g4) = filter_entries ''notes'' ns g3;
            ((ch', ep'), g5) = apply_episode_projections agent db ch ep g4
        in Inr ((ch', ep', fa, no), g5)) = (Inr ((ch, ep, fa, no), g) :: (tiers \<times> TurnInjectionGate) result)"
    using assms(1) by (auto simp: gate_turn_def Let_def bind_r_Inr_iff)
  obtain c1 g1 where 1: "filter_entries ''channel_history'' ce g0 = (c1, g1)" by fastforce
  obtain c2 g2 where 2: "filter_entries ''episodic'' es g1 = (c2, g2)" by fastforce
  obtain c3 g3 where 3: "filter_entries ''facts'' fs g2 = (c3, g3)" by fastforce
  obtain c4 g4 where 4: "filter_entries ''notes'' ns g3 = (c4, g4)" by fastforce
  obtain c5 c6 g5 where 5: "apply_episode_projections agent db c1 c2 g4 = ((c5, c6), g5)" by (metis prod.exhaust)
  have g: "g = g5" using run 1 2 3 4 5 by simp
  have i: "gate_inv g0" "g_acting g0 = ?a" using mk_gate[of ?a agent aud] g0 by auto
  have t: "same_turn g0 g1" "same_turn g1 g2" "same_turn g2 g3" "same_turn g3 g4"
    using 1 2 3 4 filter_entries_spec(2) by (metis snd_conv)+
  have i4: "gate_inv g4" using 1 2 3 4 i filter_entries_spec(4) by (metis snd_conv)
  have "l \<in> set (manifest budget (snd (apply_episode_projections agent db c1 c2 g4)))"
    using assms(2) g 5 by simp
  note m = project_op.manifest_safe[OF i4 this]
  have "g_acting g4 = ?a" using t i by (simp add: same_turn_def)
  then show ?thesis using m i4
    by (auto simp: level_safe_def gate_inv_def acting.rank_ok entry_rank_eq less_eq_level_def split: option.splits)
qed


theorem manifest_within_acting_witness:
  "\<exists>ch ep fa no g. gate_turn None None AUDIENCE_LIVE
      \<lparr>event_type = TICK, payload = [], channel_id = None, sender_id = None, message_id = None,
       thread_id = None, timestamp = 0, metadata = []\<rparr> ''ada'' None
      ([], [], [], [\<lparr>entry_id = ''n1'', protection_level = Some ''public'', source_channel_id = None,
         interaction_id = None, summary = ''y''\<rparr>]) = Inr ((ch, ep, fa, no), g) \<and>
     manifest \<lparr>remaining = 0, admissions = [(''notes'', [''n1''])]\<rparr> g =
       [\<lparr>me_tier = ''notes'', me_entry_id = ''n1'', me_protection_level = ''public''\<rparr>] \<and>
     (\<exists>v. level_of ''public'' = Some v \<and> v \<le> Public)"
proof -
  let ?ev = "\<lparr>event_type = TICK, payload = [], channel_id = None, sender_id = None, message_id = None,
       thread_id = None, timestamp = 0, metadata = []\<rparr>"
  let ?ns = "[\<lparr>entry_id = ''n1'', protection_level = Some ''public'', source_channel_id = None,
         interaction_id = None, summary = ''y''\<rparr>]"
  let ?b = "\<lparr>remaining = 0, admissions = [(''notes'', [''n1''])]\<rparr>"
  let ?m = "\<lparr>me_tier = ''notes'', me_entry_id = ''n1'', me_protection_level = ''public''\<rparr>"
  obtain ch ep fa no g where
    g: "gate_turn None None AUDIENCE_LIVE ?ev ''ada'' None ([], [], [], ?ns) = Inr ((ch, ep, fa, no), g)"
    using gate_turn_total[of None None AUDIENCE_LIVE ?ev "''ada''" None "[]" "[]" "[]" ?ns] by auto
  have "(case gate_turn None None AUDIENCE_LIVE ?ev ''ada'' None ([], [], [], ?ns) of
      Inr (_, h) \<Rightarrow> manifest ?b h = [?m] | Inl _ \<Rightarrow> False)"
    by code_simp
  then have m: "manifest ?b g = [?m]" using g by simp
  then have "?m \<in> set (manifest ?b g)" by simp
  from manifest_within_acting[OF g this] have "\<exists>v. level_of ''public'' = Some v \<and> v \<le> Public"
    by (simp add: acting_classification_for_event_def CHANNEL_ACTING_EVENT_TYPES_def abs_level_def)
  then show ?thesis using g m by blast
qed

end
