(* ===== verification/Permissions.thy ===== *)
theory Permissions
  imports Prelude "HOL-Library.Sublist"
begin

text \<open>
  The permission gate of tool calls (\<open>agents/tools/permissions.py\<close>). The \<open>permissions\<close> block is a
  parsed configuration value, so a section of the wrong shape raises where the code calls a method
  it does not have; a raise denies the tool call as well.
\<close>

definition GRANTED_BY_LIST :: "(string \<times> string) list" where
  "GRANTED_BY_LIST = [(''shell:exec'', ''allowed_commands''), (''network:http'', ''allow'')]"

record PermissionGate =
  permissions :: pydict

text \<open>\<open>permissions or {}\<close>.\<close>

definition mk_PermissionGate :: "pydict option \<Rightarrow> PermissionGate" where
  "mk_PermissionGate p = \<lparr>permissions = (case p of None \<Rightarrow> [] | Some d \<Rightarrow> d)\<rparr>"

text \<open>\<open>s.split(":", 1)\<close> with the two parts when the separator occurs.\<close>

definition split_colon :: "string \<Rightarrow> (string \<times> string) option" where
  "split_colon s =
     (case dropWhile (\<lambda>c. c \<noteq> CHR '':'') s of
        [] \<Rightarrow> None
      | _ # rest \<Rightarrow> Some (takeWhile (\<lambda>c. c \<noteq> CHR '':'') s, rest))"

definition granting_key :: "string \<Rightarrow> string \<Rightarrow> string" where
  "granting_key permission act =
     (case map_of GRANTED_BY_LIST permission of None \<Rightarrow> act | Some k \<Rightarrow> k)"

definition check :: "PermissionGate \<Rightarrow> string \<Rightarrow> bool result" where
  "check g permission =
     (case split_colon permission of
        None \<Rightarrow> Inr False
      | Some (category, act) \<Rightarrow>
          let cat_config = py_get (permissions g) category in
          if cat_config = PyNone then Inr False
          else bind_r (py_dict_of cat_config) (\<lambda>cfg.
                 Inr (truthy (py_get cfg (granting_key permission act)))))"

fun match_patterns :: "string list \<Rightarrow> pyval list \<Rightarrow> bool result" where
  "match_patterns args [] = Inr False"
| "match_patterns args (p # ps) =
     bind_r (py_str_of p) (\<lambda>pattern.
       let parts = py_split pattern in
       if length parts > length args then match_patterns args ps
       else if take (length parts) args = parts then Inr True
       else match_patterns args ps)"

definition is_command_allowed :: "PermissionGate \<Rightarrow> string list \<Rightarrow> bool result" where
  "is_command_allowed g args =
     (if args = [] then Inr False
      else let shell = py_get (permissions g) ''shell'' in
           if shell = PyNone then Inr False
           else bind_r (py_dict_of shell) (\<lambda>cfg.
                  let allowed = py_get_or cfg ''allowed_commands'' (PyList []) in
                  if \<not> truthy allowed then Inr False
                  else bind_r (py_iter allowed) (match_patterns args)))"

definition shell_time_limit :: "PermissionGate \<Rightarrow> int option result" where
  "shell_time_limit g =
     (let shell = py_get (permissions g) ''shell'' in
      bind_r (if truthy shell then py_dict_of shell else Inr []) (\<lambda>cfg.
        Inr (case py_get cfg ''max_execution_seconds'' of
               PyInt limit \<Rightarrow> if limit < 1 then None else Some limit
             | _ \<Rightarrow> None)))"

definition lowered :: "pyval \<Rightarrow> string list result" where
  "lowered v = bind_r (py_iter v) (mapM_r (\<lambda>d. bind_r (py_str_of d) (\<lambda>s. Inr (py_lower s))))"

definition is_domain_allowed :: "PermissionGate \<Rightarrow> string \<Rightarrow> bool result" where
  "is_domain_allowed g host =
     (let domain = py_lower host;
          net = py_get (permissions g) ''network''
      in if net = PyNone then Inr False
         else bind_r (py_dict_of net) (\<lambda>cfg.
              bind_r (lowered (py_get_or cfg ''allow'' (PyList []))) (\<lambda>allow_list.
              bind_r (lowered (py_get_or cfg ''deny'' (PyList []))) (\<lambda>deny_list.
                if domain \<in> set allow_list then Inr True
                else if ''*'' \<in> set deny_list \<or> domain \<in> set deny_list then Inr False
                else if deny_list \<noteq> [] then Inr False
                else if allow_list \<noteq> [] then Inr False
                else Inr False))))"


section \<open>Lemmas\<close>

lemma take_eq_prefix: "length p \<le> length xs \<Longrightarrow> take (length p) xs = p \<longleftrightarrow> prefix p xs"
  by (metis append_eq_conv_conj append_take_drop_id prefix_def)

lemma match_patterns_strs:
  "match_patterns args (map PyStr ps) = Inr (\<exists>p \<in> set ps. prefix (py_split p) args)"
proof (induction ps)
  case (Cons p ps)
  have "prefix (py_split p) args \<longleftrightarrow>
      length (py_split p) \<le> length args \<and> take (length (py_split p)) args = py_split p"
    using take_eq_prefix prefix_length_le by blast
  then show ?case using Cons by (auto simp: py_str_of_def Let_def)
qed simp

lemma lowered_strs: "lowered (PyList (map PyStr ds)) = Inr (map py_lower ds)"
  unfolding lowered_def by (simp add: mapM_r_map py_str_of_def)


section \<open>Properties\<close>

text \<open>
  Deny by default. A permission is granted exactly when its string has a category and an
  action, the configuration has a section for that category, and the key that grants the action holds
  a truthy value; a malformed string and an absent section are always denied.
\<close>

lemma check_grants_iff:
  "check g permission = Inr True \<longleftrightarrow>
     (\<exists>category act cfg. permission = category @ '':'' @ act \<and> CHR '':'' \<notin> set category \<and>
        py_get (permissions g) category = PyDict cfg \<and>
        truthy (py_get cfg (granting_key permission act)))"
proof -
  have split: "split_colon permission = Some (category, act) \<longleftrightarrow>
      permission = category @ '':'' @ act \<and> CHR '':'' \<notin> set category" for category act
  proof
    assume a: "split_colon permission = Some (category, act)"
    then obtain c rest where d: "dropWhile (\<lambda>c. c \<noteq> CHR '':'') permission = c # rest"
        "category = takeWhile (\<lambda>c. c \<noteq> CHR '':'') permission" "act = rest"
      by (auto simp: split_colon_def split: list.splits)
    have "c = CHR '':''" using d(1) by (metis (mono_tags, lifting) dropWhile_eq_Cons_conv)
    then show "permission = category @ '':'' @ act \<and> CHR '':'' \<notin> set category"
      using d takeWhile_dropWhile_id[of "\<lambda>c. c \<noteq> CHR '':''" permission]
      by (auto dest: set_takeWhileD)
  next
    assume a: "permission = category @ '':'' @ act \<and> CHR '':'' \<notin> set category"
    then have "dropWhile (\<lambda>c. c \<noteq> CHR '':'') permission = CHR '':'' # act"
      "takeWhile (\<lambda>c. c \<noteq> CHR '':'') permission = category"
      by (auto simp: dropWhile_append takeWhile_append)
    then show "split_colon permission = Some (category, act)" by (simp add: split_colon_def)
  qed
  show ?thesis
    unfolding conj_assoc[symmetric] split[symmetric]
    by (auto simp: check_def Let_def py_dict_of_def split: option.splits pyval.splits if_splits)
qed

text \<open>
  The shell allowlist. With a list of command patterns configured, a command is allowed exactly
  when it has a first word and the words of some pattern are a prefix of its words; whatever else the
  configuration holds, an allowed command implies that the tool's own permission is granted.
\<close>

lemma command_allowed_iff:
  "(\<forall>cfg patterns. py_get (permissions g) ''shell'' = PyDict cfg \<longrightarrow>
      py_get cfg ''allowed_commands'' = PyList (map PyStr patterns) \<longrightarrow>
      is_command_allowed g args = Inr (args \<noteq> [] \<and> (\<exists>p \<in> set patterns. prefix (py_split p) args))) \<and>
   (is_command_allowed g args = Inr True \<longrightarrow> check g ''shell:exec'' = Inr True)"
proof
  show "\<forall>cfg patterns. py_get (permissions g) ''shell'' = PyDict cfg \<longrightarrow>
      py_get cfg ''allowed_commands'' = PyList (map PyStr patterns) \<longrightarrow>
      is_command_allowed g args = Inr (args \<noteq> [] \<and> (\<exists>p \<in> set patterns. prefix (py_split p) args))"
    by (auto simp: is_command_allowed_def Let_def py_dict_of_def py_get_def py_get_or_def
        match_patterns_strs split: option.splits)
  have "split_colon ''shell:exec'' = Some (''shell'', ''exec'')"
    "granting_key ''shell:exec'' ''exec'' = ''allowed_commands''" by code_simp+
  then show "is_command_allowed g args = Inr True \<longrightarrow> check g ''shell:exec'' = Inr True"
    by (auto simp: is_command_allowed_def check_def Let_def py_dict_of_def py_get_def py_get_or_def
        split: option.splits pyval.splits if_splits)
qed

theorem command_allowed_iff_witness:
  "is_command_allowed \<lparr>permissions = [(''shell'', PyDict [(''allowed_commands'', PyList [PyStr ''git diff''])])]\<rparr>
     [''git'', ''diff'', ''a.py''] = Inr True \<and>
   check \<lparr>permissions = [(''shell'', PyDict [(''allowed_commands'', PyList [PyStr ''git diff''])])]\<rparr>
     ''shell:exec'' = Inr True"
proof -
  let ?g = "\<lparr>permissions = [(''shell'', PyDict [(''allowed_commands'', PyList [PyStr ''git diff''])])]\<rparr>"
  have "py_split ''git diff'' = [''git'', ''diff'']" by code_simp
  then have "is_command_allowed ?g [''git'', ''diff'', ''a.py''] = Inr True"
    using conjunct1[OF command_allowed_iff[of ?g "[''git'', ''diff'', ''a.py'']"], rule_format,
        of "[(''allowed_commands'', PyList [PyStr ''git diff''])]" "[''git diff'']"]
    by simp
  then show ?thesis using command_allowed_iff[of ?g "[''git'', ''diff'', ''a.py'']"] by blast
qed

text \<open>
  The domain rule is the allow list alone. When both lists are well formed, a domain is allowed
  exactly when its lower-case form is in the lower-cased allow list: the deny list, its wildcard and
  the order of the tests never change the answer, and without an allow list nothing is allowed.
\<close>

lemma domain_allowed_iff:
  "is_domain_allowed \<lparr>permissions = perms\<rparr> host =
     (case py_get perms ''network'' of
        PyNone \<Rightarrow> Inr False
      | PyDict cfg \<Rightarrow>
          bind_r (lowered (py_get_or cfg ''allow'' (PyList []))) (\<lambda>allow_list.
          bind_r (lowered (py_get_or cfg ''deny'' (PyList []))) (\<lambda>deny_list.
            Inr (py_lower host \<in> set allow_list)))
      | _ \<Rightarrow> Inl AttributeError) \<and>
   is_domain_allowed \<lparr>permissions = [(''network'', PyDict [(''allow'', PyList (map PyStr as)),
       (''deny'', PyList (map PyStr ds))])]\<rparr> host = Inr (py_lower host \<in> py_lower ` set as)"
proof
  show "is_domain_allowed \<lparr>permissions = perms\<rparr> host =
     (case py_get perms ''network'' of
        PyNone \<Rightarrow> Inr False
      | PyDict cfg \<Rightarrow>
          bind_r (lowered (py_get_or cfg ''allow'' (PyList []))) (\<lambda>allow_list.
          bind_r (lowered (py_get_or cfg ''deny'' (PyList []))) (\<lambda>deny_list.
            Inr (py_lower host \<in> set allow_list)))
      | _ \<Rightarrow> Inl AttributeError)"
    by (cases "py_get perms ''network''")
      (auto simp: is_domain_allowed_def Let_def py_dict_of_def bind_r_def split: sum.splits)
  show "is_domain_allowed \<lparr>permissions = [(''network'', PyDict [(''allow'', PyList (map PyStr as)),
       (''deny'', PyList (map PyStr ds))])]\<rparr> host = Inr (py_lower host \<in> py_lower ` set as)"
    by (auto simp: is_domain_allowed_def Let_def py_dict_of_def py_get_or_def lowered_strs)
qed

text \<open>
  A blank pattern has no words, and no words are a prefix of every command: one blank entry in the
  allowlist allows every command.
\<close>

lemma blank_pattern_allows_everything:
  assumes "py_get (permissions g) ''shell'' = PyDict cfg"
    and "py_get cfg ''allowed_commands'' = PyList (map PyStr patterns)"
    and "p \<in> set patterns" "list_all py_isspace p" "args \<noteq> []"
  shows "is_command_allowed g args = Inr True"
  using assms py_split_blank[of p]
  by (auto simp: is_command_allowed_def Let_def py_dict_of_def py_get_def py_get_or_def
      match_patterns_strs split: option.splits) (metis Nil_prefix)

end
