(* ===== verification/Decision_Types.thy ===== *)
theory Decision_Types
  imports Persona_Types
begin

text \<open>
  The decision contract's types (\<open>agents/decision/decision_types.py\<close>) and the action-class tables
  (\<open>agents/decision/action_classes.py\<close>). A frozen dataclass with a \<open>__post_init__\<close> is a record with
  a constructor that may raise; the predicate \<open>valid_*\<close> is what the constructor accepts. The JSON
  codec is modelled on parsed values: \<open>encode_*\<close> walks the fields in order, \<open>decode_*\<close> follows the
  type hints. The text form of JSON and SHA-256 are the standard library's and not modelled.
\<close>

section \<open>Enums and tables\<close>

datatype ActionClass = RESPOND | ASK_CLARIFICATION | TOOL_CALL | DELEGATE | PUBLISH_CHANNEL | DEFER
datatype Checkpoint = PRE_ACT | PRE_TOOL | PRE_DELEGATE | POST_OUTCOME
datatype DecisionSubject = ACTION | DIRECTIVE
datatype DirectiveVerdict = ACCEPT | ADAPT | REFUSE
datatype PolicyMode = MANUAL | SEMI_AUTOMATED | AUTOMATED
datatype StopReason = END_TURN | TOOL_USE | MAX_TOKENS

fun class_of_action :: "ActionType \<Rightarrow> ActionClass" where
  "class_of_action SEND_CHANNEL_MESSAGE = PUBLISH_CHANNEL"
| "class_of_action COMPLETE_TASK = RESPOND"
| "class_of_action DELEGATE_ACTION = DELEGATE"
| "class_of_action SPAWN_SUB_AGENT = DELEGATE"
| "class_of_action USE_TOOL = TOOL_CALL"
| "class_of_action REQUEST_APPROVAL = ASK_CLARIFICATION"
| "class_of_action GRANT_APPROVAL = RESPOND"
| "class_of_action DENY_APPROVAL = RESPOND"
| "class_of_action DO_NOTHING = DEFER"
| "class_of_action END_INTERACTION_VOTE = PUBLISH_CHANNEL"

fun class_of_step :: "StopReason \<Rightarrow> ActionClass" where
  "class_of_step END_TURN = RESPOND"
| "class_of_step TOOL_USE = TOOL_CALL"
| "class_of_step MAX_TOKENS = DEFER"


section \<open>Numbers and codes\<close>

definition is_lower_char :: "char \<Rightarrow> bool" where
  "is_lower_char c \<longleftrightarrow> (let n = of_char c :: nat in 97 \<le> n \<and> n \<le> 122)"

definition is_digit_char :: "char \<Rightarrow> bool" where
  "is_digit_char c \<longleftrightarrow> (let n = of_char c :: nat in 48 \<le> n \<and> n \<le> 57)"

text \<open>\<open>_REASON_CODE.fullmatch\<close> and \<open>_SHA256_HEX.fullmatch\<close>.\<close>

fun reason_code :: "string \<Rightarrow> bool" where
  "reason_code [] \<longleftrightarrow> False"
| "reason_code (c # cs) \<longleftrightarrow>
     is_lower_char c \<and> list_all (\<lambda>d. is_lower_char d \<or> is_digit_char d \<or> d = CHR ''_'') cs"

declare reason_code.simps [simp del]

definition sha256_hex :: "string \<Rightarrow> bool" where
  "sha256_hex s \<longleftrightarrow> length s = 64 \<and>
     list_all (\<lambda>c. is_digit_char c \<or> (let n = of_char c :: nat in 97 \<le> n \<and> n \<le> 102)) s"

text \<open>
  \<open>float(i)\<close> for an integer: the nearest double, ties to even, or \<open>None\<close> for the \<open>OverflowError\<close>
  past the largest one.
\<close>

fun bit_length :: "nat \<Rightarrow> nat" where
  "bit_length n = (if n = 0 then 0 else Suc (bit_length (n div 2)))"

declare bit_length.simps [simp del]

definition float_of_int :: "int \<Rightarrow> rat option" where
  "float_of_int i =
     (let m = nat \<bar>i\<bar>; b = bit_length m in
      if b \<le> 53 then Some (of_int i)
      else let e = b - 53; q = m div 2 ^ e; r = m mod 2 ^ e; half = 2 ^ (e - 1);
               q' = (if r > half \<or> (r = half \<and> odd q) then q + 1 else q);
               v = int (q' * 2 ^ e)
           in if v \<ge> 2 ^ 1024 then None else Some (of_int (sgn i * v)))"

definition as_float :: "pyval \<Rightarrow> rat result" where
  "as_float v =
     (case v of
        PyInt i \<Rightarrow> (case float_of_int i of None \<Rightarrow> Inl ValueError | Some r \<Rightarrow> Inr r)
      | PyFloat (Fin r) \<Rightarrow> Inr r
      | _ \<Rightarrow> Inl ValueError)"

text \<open>A reason that is neither \<open>None\<close> nor a string makes the regular expression raise.\<close>

definition check_reason :: "pyval \<Rightarrow> unit result" where
  "check_reason v =
     (case v of
        PyNone \<Rightarrow> Inr ()
      | PyStr s \<Rightarrow> if reason_code s then Inr () else Inl ValueError
      | _ \<Rightarrow> Inl TypeError)"

definition opt_str :: "string option \<Rightarrow> pyval" where
  "opt_str v = (case v of None \<Rightarrow> PyNone | Some s \<Rightarrow> PyStr s)"


section \<open>Records\<close>

text \<open>A field the code checks with \<open>isinstance\<close>: a member of the enum, or something else.\<close>

datatype 'a dyn = IsA 'a | NotA pyval

record DecisionContext =
  dc_checkpoint :: "Checkpoint dyn"
  dc_agent_id :: string
  dc_mode :: "PolicyMode dyn"
  dc_agent_type :: "string option"
  dc_event_type :: "string option"
  dc_event_id :: "string option"
  dc_workflow_id :: "string option"
  dc_channel_id :: "string option"
  dc_protection_level :: "string option"
  dc_autonomy_level :: "string option"
  dc_mood :: "string option"

record DecisionCandidate =
  candidate_id :: string
  cand_class :: ActionClass
  cand_action :: string
  tool_name :: "string option"
  argument_names :: "string list"
  target :: "string option"
  content_hash :: "string option"

definition mk_DecisionCandidate :: "DecisionCandidate \<Rightarrow> DecisionCandidate result" where
  "mk_DecisionCandidate c =
     (case content_hash c of
        Some h \<Rightarrow> if sha256_hex h then Inr c else Inl ValueError
      | None \<Rightarrow> Inr c)"

record Rejection =
  rj_candidate_id :: string
  rj_reason :: string

definition mk_Rejection :: "string \<Rightarrow> pyval \<Rightarrow> Rejection result" where
  "mk_Rejection cid v =
     bind_r (check_reason v) (\<lambda>_. case v of
       PyStr s \<Rightarrow> Inr \<lparr>rj_candidate_id = cid, rj_reason = s\<rparr>
     | _ \<Rightarrow> Inl TypeError)"

record DecisionOutcome =
  do_action_class :: "ActionClass option"
  do_selected_id :: "string option"
  do_reason :: "string option"
  do_confidence :: "rat option"
  do_rejected :: "Rejection list"
  do_rationale :: string
  do_verdict :: "DirectiveVerdict option"

text \<open>
  The constructor: \<open>conf\<close> is the confidence as passed, converted to a float. Copying with
  \<open>dataclasses.replace\<close> runs it again.
\<close>

definition mk_DecisionOutcome :: "DecisionOutcome \<Rightarrow> pyval \<Rightarrow> DecisionOutcome result" where
  "mk_DecisionOutcome out conf =
     bind_r (check_reason (opt_str (do_reason out))) (\<lambda>_.
       if conf = PyNone then Inr (out\<lparr>do_confidence := None\<rparr>)
       else bind_r (as_float conf) (\<lambda>x.
              if 0 \<le> x \<and> x \<le> 1 then Inr (out\<lparr>do_confidence := Some x\<rparr>) else Inl ValueError))"

definition opt_float :: "rat option \<Rightarrow> pyval" where
  "opt_float v = (case v of None \<Rightarrow> PyNone | Some r \<Rightarrow> PyFloat (Fin r))"

definition outcome_copy :: "DecisionOutcome \<Rightarrow> DecisionOutcome result" where
  "outcome_copy out = mk_DecisionOutcome out (opt_float (do_confidence out))"

definition plain_outcome :: "ActionClass \<Rightarrow> string \<Rightarrow> DecisionOutcome" where
  "plain_outcome cls why =
     \<lparr>do_action_class = Some cls, do_selected_id = None, do_reason = Some why, do_confidence = None,
      do_rejected = [], do_rationale = [], do_verdict = None\<rparr>"

record DecisionRecord =
  dr_context :: DecisionContext
  dr_candidates :: "DecisionCandidate list"
  dr_outcome :: DecisionOutcome
  dr_subject :: DecisionSubject
  dr_subject_id :: "string option"
  dr_record_id :: string
  dr_recorded_at :: rat

definition check_candidates :: "DecisionCandidate list \<Rightarrow> unit result" where
  "check_candidates cs = (if distinct (map candidate_id cs) then Inr () else Inl ValueError)"

text \<open>The dictionary \<open>classes\<close>: a later candidate of the same id overrides an earlier one.\<close>

definition classes_of :: "DecisionCandidate list \<Rightarrow> string \<Rightarrow> ActionClass option" where
  "classes_of cs = map_of (rev (map (\<lambda>c. (candidate_id c, cand_class c)) cs))"

definition check_outcome ::
  "DecisionContext \<Rightarrow> DecisionCandidate list \<Rightarrow> DecisionOutcome \<Rightarrow> DecisionSubject \<Rightarrow> string option \<Rightarrow>
   unit result" where
  "check_outcome ctx cs out subj subj_id =
     (let rejected = map rj_candidate_id (do_rejected out);
          deferred = (do_action_class out = Some DEFER \<and> or_str (do_reason out) [] \<noteq> [])
      in
      if dc_mode ctx = IsA MANUAL \<and> do_confidence out \<noteq> None then Inl ValueError
      else if \<not> distinct rejected \<or> \<not> list_all (\<lambda>r. classes_of cs r \<noteq> None) rejected then Inl ValueError
      else if (case do_selected_id out of
                 None \<Rightarrow> False
               | Some sid \<Rightarrow> sid \<in> set rejected \<or> classes_of cs sid = None
                             \<or> classes_of cs sid \<noteq> do_action_class out) then Inl ValueError
      else if subj = ACTION
        then if do_action_class out = None \<or> do_verdict out \<noteq> None then Inl ValueError
             else if subj_id \<noteq> None then Inl ValueError
             else if do_selected_id out = None \<and> \<not> deferred then Inl ValueError
             else Inr ()
        else if or_str subj_id [] = [] then Inl ValueError
             else let reached = (do_verdict out \<noteq> None \<and> do_action_class out = None) in
                  if \<not> reached \<and> \<not> (deferred \<and> do_verdict out = None) then Inl ValueError
                  else Inr ())"

definition check_record :: "DecisionRecord \<Rightarrow> unit result" where
  "check_record r =
     bind_r (check_candidates (dr_candidates r)) (\<lambda>_.
       check_outcome (dr_context r) (dr_candidates r) (dr_outcome r) (dr_subject r) (dr_subject_id r))"

text \<open>The record's constructor; \<open>at_time\<close> is \<open>recorded_at\<close> as passed.\<close>

definition mk_DecisionRecord :: "DecisionRecord \<Rightarrow> pyval \<Rightarrow> DecisionRecord result" where
  "mk_DecisionRecord r at_time =
     bind_r (as_float at_time) (\<lambda>t.
       let r' = r\<lparr>dr_recorded_at := t\<rparr> in bind_r (check_record r') (\<lambda>_. Inr r'))"


section \<open>The JSON line, on parsed values\<close>

definition RECORD_FORMAT_VERSION :: int where "RECORD_FORMAT_VERSION = 1"

fun ActionClass_value :: "ActionClass \<Rightarrow> string" where
  "ActionClass_value RESPOND = ''respond''"
| "ActionClass_value ASK_CLARIFICATION = ''ask_clarification''"
| "ActionClass_value TOOL_CALL = ''tool_call''"
| "ActionClass_value DELEGATE = ''delegate''"
| "ActionClass_value PUBLISH_CHANNEL = ''publish_channel''"
| "ActionClass_value DEFER = ''defer''"

fun Checkpoint_value :: "Checkpoint \<Rightarrow> string" where
  "Checkpoint_value PRE_ACT = ''pre_act''"
| "Checkpoint_value PRE_TOOL = ''pre_tool''"
| "Checkpoint_value PRE_DELEGATE = ''pre_delegate''"
| "Checkpoint_value POST_OUTCOME = ''post_outcome''"

fun DecisionSubject_value :: "DecisionSubject \<Rightarrow> string" where
  "DecisionSubject_value ACTION = ''action''"
| "DecisionSubject_value DIRECTIVE = ''directive''"

fun DirectiveVerdict_value :: "DirectiveVerdict \<Rightarrow> string" where
  "DirectiveVerdict_value ACCEPT = ''accept''"
| "DirectiveVerdict_value ADAPT = ''adapt''"
| "DirectiveVerdict_value REFUSE = ''refuse''"

fun PolicyMode_value :: "PolicyMode \<Rightarrow> string" where
  "PolicyMode_value MANUAL = ''manual''"
| "PolicyMode_value SEMI_AUTOMATED = ''semi_automated''"
| "PolicyMode_value AUTOMATED = ''automated''"

fun encode_dyn :: "('a \<Rightarrow> string) \<Rightarrow> 'a dyn \<Rightarrow> pyval" where
  "encode_dyn val (IsA x) = PyStr (val x)"
| "encode_dyn val (NotA v) = v"

definition encode_context :: "DecisionContext \<Rightarrow> pyval" where
  "encode_context c = PyDict
     [(''checkpoint'', encode_dyn Checkpoint_value (dc_checkpoint c)),
      (''agent_id'', PyStr (dc_agent_id c)),
      (''mode'', encode_dyn PolicyMode_value (dc_mode c)),
      (''agent_type'', opt_str (dc_agent_type c)),
      (''event_type'', opt_str (dc_event_type c)),
      (''event_id'', opt_str (dc_event_id c)),
      (''workflow_id'', opt_str (dc_workflow_id c)),
      (''channel_id'', opt_str (dc_channel_id c)),
      (''protection_level'', opt_str (dc_protection_level c)),
      (''autonomy_level'', opt_str (dc_autonomy_level c)),
      (''mood'', opt_str (dc_mood c))]"

definition encode_candidate :: "DecisionCandidate \<Rightarrow> pyval" where
  "encode_candidate c = PyDict
     [(''candidate_id'', PyStr (candidate_id c)),
      (''action_class'', PyStr (ActionClass_value (cand_class c))),
      (''action'', PyStr (cand_action c)),
      (''tool_name'', opt_str (tool_name c)),
      (''argument_names'', PyList (map PyStr (argument_names c))),
      (''target'', opt_str (target c)),
      (''content_hash'', opt_str (content_hash c))]"

definition encode_rejection :: "Rejection \<Rightarrow> pyval" where
  "encode_rejection r = PyDict [(''candidate_id'', PyStr (rj_candidate_id r)), (''reason'', PyStr (rj_reason r))]"

definition encode_outcome :: "DecisionOutcome \<Rightarrow> pyval" where
  "encode_outcome o' = PyDict
     [(''action_class'', opt_str (map_option ActionClass_value (do_action_class o'))),
      (''selected_id'', opt_str (do_selected_id o')),
      (''reason'', opt_str (do_reason o')),
      (''confidence'', opt_float (do_confidence o')),
      (''rejected'', PyList (map encode_rejection (do_rejected o'))),
      (''rationale'', PyStr (do_rationale o')),
      (''verdict'', opt_str (map_option DirectiveVerdict_value (do_verdict o')))]"

definition record_to_value :: "DecisionRecord \<Rightarrow> pydict" where
  "record_to_value r =
     [(''v'', PyInt RECORD_FORMAT_VERSION),
      (''context'', encode_context (dr_context r)),
      (''candidates'', PyList (map encode_candidate (dr_candidates r))),
      (''outcome'', encode_outcome (dr_outcome r)),
      (''subject'', PyStr (DecisionSubject_value (dr_subject r))),
      (''subject_id'', opt_str (dr_subject_id r)),
      (''record_id'', PyStr (dr_record_id r)),
      (''recorded_at'', PyFloat (Fin (dr_recorded_at r)))]"

definition dec_str :: "pyval \<Rightarrow> string result" where
  "dec_str v = (case v of PyStr s \<Rightarrow> Inr s | _ \<Rightarrow> Inl ValueError)"

definition dec_opt :: "(pyval \<Rightarrow> 'a result) \<Rightarrow> pyval \<Rightarrow> 'a option result" where
  "dec_opt dec v = (if v = PyNone then Inr None else bind_r (dec v) (\<lambda>x. Inr (Some x)))"

definition dec_tuple :: "(pyval \<Rightarrow> 'a result) \<Rightarrow> pyval \<Rightarrow> 'a list result" where
  "dec_tuple dec v = (case v of PyList xs \<Rightarrow> mapM_r dec xs | _ \<Rightarrow> Inl ValueError)"

definition dec_enum :: "('a \<Rightarrow> string) \<Rightarrow> 'a list \<Rightarrow> pyval \<Rightarrow> 'a result" where
  "dec_enum val members v =
     (case v of
        PyStr s \<Rightarrow> (case find (\<lambda>e. val e = s) members of Some e \<Rightarrow> Inr e | None \<Rightarrow> Inl ValueError)
      | _ \<Rightarrow> Inl ValueError)"

text \<open>An object whose keys are all fields of the class.\<close>

definition dec_object :: "string list \<Rightarrow> pyval \<Rightarrow> pydict result" where
  "dec_object names v =
     (case v of
        PyDict d \<Rightarrow> if list_all (\<lambda>(k, _). k \<in> set names) d then Inr d else Inl ValueError
      | _ \<Rightarrow> Inl ValueError)"

definition field_req :: "(pyval \<Rightarrow> 'a result) \<Rightarrow> pydict \<Rightarrow> string \<Rightarrow> 'a result" where
  "field_req dec d k = (case map_of d k of None \<Rightarrow> Inl ValueError | Some v \<Rightarrow> dec v)"

definition field_or :: "(pyval \<Rightarrow> 'a result) \<Rightarrow> 'a \<Rightarrow> pydict \<Rightarrow> string \<Rightarrow> 'a result" where
  "field_or dec dflt d k = (case map_of d k of None \<Rightarrow> Inr dflt | Some v \<Rightarrow> dec v)"

abbreviation dec_action_class :: "pyval \<Rightarrow> ActionClass result" where
  "dec_action_class \<equiv> dec_enum ActionClass_value
     [RESPOND, ASK_CLARIFICATION, TOOL_CALL, DELEGATE, PUBLISH_CHANNEL, DEFER]"

abbreviation dec_checkpoint :: "pyval \<Rightarrow> Checkpoint result" where
  "dec_checkpoint \<equiv> dec_enum Checkpoint_value [PRE_ACT, PRE_TOOL, PRE_DELEGATE, POST_OUTCOME]"

abbreviation dec_subject :: "pyval \<Rightarrow> DecisionSubject result" where
  "dec_subject \<equiv> dec_enum DecisionSubject_value [ACTION, DIRECTIVE]"

abbreviation dec_verdict :: "pyval \<Rightarrow> DirectiveVerdict result" where
  "dec_verdict \<equiv> dec_enum DirectiveVerdict_value [ACCEPT, ADAPT, REFUSE]"

abbreviation dec_mode :: "pyval \<Rightarrow> PolicyMode result" where
  "dec_mode \<equiv> dec_enum PolicyMode_value [MANUAL, SEMI_AUTOMATED, AUTOMATED]"

definition decode_context :: "pyval \<Rightarrow> DecisionContext result" where
  "decode_context v =
     bind_r (dec_object [''checkpoint'', ''agent_id'', ''mode'', ''agent_type'', ''event_type'', ''event_id'', ''workflow_id'', ''channel_id'', ''protection_level'', ''autonomy_level'', ''mood''] v) (\<lambda>d.
     bind_r (field_req dec_checkpoint d ''checkpoint'') (\<lambda>x_checkpoint.
     bind_r (field_req dec_str d ''agent_id'') (\<lambda>x_agent_id.
     bind_r (field_req dec_mode d ''mode'') (\<lambda>x_mode.
     bind_r (field_or (dec_opt dec_str) None d ''agent_type'') (\<lambda>x_agent_type.
     bind_r (field_or (dec_opt dec_str) None d ''event_type'') (\<lambda>x_event_type.
     bind_r (field_or (dec_opt dec_str) None d ''event_id'') (\<lambda>x_event_id.
     bind_r (field_or (dec_opt dec_str) None d ''workflow_id'') (\<lambda>x_workflow_id.
     bind_r (field_or (dec_opt dec_str) None d ''channel_id'') (\<lambda>x_channel_id.
     bind_r (field_or (dec_opt dec_str) None d ''protection_level'') (\<lambda>x_protection_level.
     bind_r (field_or (dec_opt dec_str) None d ''autonomy_level'') (\<lambda>x_autonomy_level.
     bind_r (field_or (dec_opt dec_str) None d ''mood'') (\<lambda>x_mood.
       Inr \<lparr>dc_checkpoint = IsA x_checkpoint, dc_agent_id = x_agent_id, dc_mode = IsA x_mode,
            dc_agent_type = x_agent_type, dc_event_type = x_event_type, dc_event_id = x_event_id, dc_workflow_id = x_workflow_id, dc_channel_id = x_channel_id, dc_protection_level = x_protection_level, dc_autonomy_level = x_autonomy_level, dc_mood = x_mood\<rparr>))))))))))))"

definition decode_candidate :: "pyval \<Rightarrow> DecisionCandidate result" where
  "decode_candidate v =
     bind_r (dec_object [''candidate_id'', ''action_class'', ''action'', ''tool_name'',
                         ''argument_names'', ''target'', ''content_hash''] v) (\<lambda>d.
     bind_r (field_req dec_str d ''candidate_id'') (\<lambda>i.
     bind_r (field_req dec_action_class d ''action_class'') (\<lambda>c.
     bind_r (field_req dec_str d ''action'') (\<lambda>a.
     bind_r (field_or (dec_opt dec_str) None d ''tool_name'') (\<lambda>t.
     bind_r (field_or (dec_tuple dec_str) [] d ''argument_names'') (\<lambda>ns.
     bind_r (field_or (dec_opt dec_str) None d ''target'') (\<lambda>g.
     bind_r (field_or (dec_opt dec_str) None d ''content_hash'') (\<lambda>h.
       mk_DecisionCandidate \<lparr>candidate_id = i, cand_class = c, cand_action = a, tool_name = t,
         argument_names = ns, target = g, content_hash = h\<rparr>))))))))"

definition decode_rejection :: "pyval \<Rightarrow> Rejection result" where
  "decode_rejection v =
     bind_r (dec_object [''candidate_id'', ''reason''] v) (\<lambda>d.
     bind_r (field_req dec_str d ''candidate_id'') (\<lambda>i.
     bind_r (field_req dec_str d ''reason'') (\<lambda>w. mk_Rejection i (PyStr w))))"

definition decode_outcome :: "pyval \<Rightarrow> DecisionOutcome result" where
  "decode_outcome v =
     bind_r (dec_object [''action_class'', ''selected_id'', ''reason'', ''confidence'', ''rejected'',
                         ''rationale'', ''verdict''] v) (\<lambda>d.
     bind_r (field_req (dec_opt dec_action_class) d ''action_class'') (\<lambda>c.
     bind_r (field_or (dec_opt dec_str) None d ''selected_id'') (\<lambda>s.
     bind_r (field_or (dec_opt dec_str) None d ''reason'') (\<lambda>w.
     bind_r (field_or (dec_opt as_float) None d ''confidence'') (\<lambda>x.
     bind_r (field_or (dec_tuple decode_rejection) [] d ''rejected'') (\<lambda>rs.
     bind_r (field_or dec_str [] d ''rationale'') (\<lambda>t.
     bind_r (field_or (dec_opt dec_verdict) None d ''verdict'') (\<lambda>y.
       mk_DecisionOutcome \<lparr>do_action_class = c, do_selected_id = s, do_reason = w, do_confidence = x,
         do_rejected = rs, do_rationale = t, do_verdict = y\<rparr> (opt_float x)))))))))"

text \<open>
  \<open>from_json\<close> after \<open>json.loads\<close>: the version is popped and checked, the two fields whose defaults
  are fresh must be present, then the fields are decoded and the constructor runs.
\<close>

definition record_from_value :: "pyval \<Rightarrow> DecisionRecord result" where
  "record_from_value data =
     (case data of
        PyDict d0 \<Rightarrow>
          (case py_get d0 ''v'' of
             PyInt version \<Rightarrow>
               if \<not> (1 \<le> version \<and> version \<le> RECORD_FORMAT_VERSION) then Inl ValueError
               else let d1 = AList.delete ''v'' d0 in
                 if map_of d1 ''record_id'' = None \<or> map_of d1 ''recorded_at'' = None then Inl ValueError
                 else
                   bind_r (dec_object [''context'', ''candidates'', ''outcome'', ''subject'',
                                       ''subject_id'', ''record_id'', ''recorded_at''] (PyDict d1)) (\<lambda>d.
                   bind_r (field_req decode_context d ''context'') (\<lambda>ctx.
                   bind_r (field_req (dec_tuple decode_candidate) d ''candidates'') (\<lambda>cs.
                   bind_r (field_req decode_outcome d ''outcome'') (\<lambda>out.
                   bind_r (field_or dec_subject ACTION d ''subject'') (\<lambda>subj.
                   bind_r (field_or (dec_opt dec_str) None d ''subject_id'') (\<lambda>sid.
                   bind_r (field_req dec_str d ''record_id'') (\<lambda>rid.
                   bind_r (field_req as_float d ''recorded_at'') (\<lambda>t.
                     mk_DecisionRecord \<lparr>dr_context = ctx, dr_candidates = cs, dr_outcome = out,
                       dr_subject = subj, dr_subject_id = sid, dr_record_id = rid, dr_recorded_at = t\<rparr>
                       (PyFloat (Fin t))))))))))
           | _ \<Rightarrow> Inl ValueError)
      | _ \<Rightarrow> Inl ValueError)"


section \<open>Lemmas\<close>

lemma as_float_Fin [simp]: "as_float (PyFloat (Fin r)) = Inr r"
  by (simp add: as_float_def)

definition valid_outcome :: "DecisionOutcome \<Rightarrow> bool" where
  "valid_outcome out \<longleftrightarrow>
     (case do_reason out of None \<Rightarrow> True | Some s \<Rightarrow> reason_code s) \<and>
     (case do_confidence out of None \<Rightarrow> True | Some x \<Rightarrow> 0 \<le> x \<and> x \<le> 1) \<and>
     list_all (\<lambda>r. reason_code (rj_reason r)) (do_rejected out)"

lemma outcome_copy_valid: "valid_outcome out \<Longrightarrow> outcome_copy out = Inr out"
  by (auto simp: valid_outcome_def outcome_copy_def mk_DecisionOutcome_def check_reason_def opt_str_def
      opt_float_def split: option.splits)

lemma mk_Rejection_ok [simp]:
  "reason_code s \<Longrightarrow> mk_Rejection i (PyStr s) = Inr \<lparr>rj_candidate_id = i, rj_reason = s\<rparr>"
  by (simp add: mk_Rejection_def check_reason_def)

lemma mk_Rejection_InrD: "mk_Rejection i v = Inr r \<Longrightarrow> rj_candidate_id r = i \<and> reason_code (rj_reason r) \<and> v = PyStr (rj_reason r)"
  by (auto simp: mk_Rejection_def check_reason_def bind_r_Inr_iff split: pyval.splits if_splits)

definition valid_record :: "DecisionRecord \<Rightarrow> bool" where
  "valid_record r \<longleftrightarrow>
     (\<exists>c. dc_checkpoint (dr_context r) = IsA c) \<and> (\<exists>m. dc_mode (dr_context r) = IsA m) \<and>
     list_all (\<lambda>c. mk_DecisionCandidate c = Inr c) (dr_candidates r) \<and>
     valid_outcome (dr_outcome r) \<and> check_record r = Inr ()"

text \<open>Each decoder undoes its encoder.\<close>

lemma dec_enum_ok:
  "find (\<lambda>e. val e = val x) members = Some x \<Longrightarrow> dec_enum val members (PyStr (val x)) = Inr x"
  by (simp add: dec_enum_def)

lemma dec_enums [simp]:
  "dec_action_class (PyStr (ActionClass_value a)) = Inr a"
  "dec_checkpoint (PyStr (Checkpoint_value c)) = Inr c"
  "dec_subject (PyStr (DecisionSubject_value s)) = Inr s"
  "dec_verdict (PyStr (DirectiveVerdict_value v)) = Inr v"
  "dec_mode (PyStr (PolicyMode_value m)) = Inr m"
proof -
  show "dec_action_class (PyStr (ActionClass_value a)) = Inr a" by (cases a) (simp_all add: dec_enum_def)
  show "dec_checkpoint (PyStr (Checkpoint_value c)) = Inr c" by (cases c) (simp_all add: dec_enum_def)
  show "dec_subject (PyStr (DecisionSubject_value s)) = Inr s" by (cases s) (simp_all add: dec_enum_def)
  show "dec_verdict (PyStr (DirectiveVerdict_value v)) = Inr v" by (cases v) (simp_all add: dec_enum_def)
  show "dec_mode (PyStr (PolicyMode_value m)) = Inr m" by (cases m) (simp_all add: dec_enum_def)
qed

text \<open>A record rebuilt from its fields.\<close>

lemma record_eta [simp]:
  "\<lparr>candidate_id = candidate_id c, cand_class = cand_class c, cand_action = cand_action c,
    tool_name = tool_name c, argument_names = argument_names c, target = target c,
    content_hash = content_hash c\<rparr> = c"
  "\<lparr>do_action_class = do_action_class out, do_selected_id = do_selected_id out, do_reason = do_reason out,
    do_confidence = do_confidence out, do_rejected = do_rejected out, do_rationale = do_rationale out,
    do_verdict = do_verdict out\<rparr> = out"
  "\<lparr>dr_context = dr_context r, dr_candidates = dr_candidates r, dr_outcome = dr_outcome r,
    dr_subject = dr_subject r, dr_subject_id = dr_subject_id r, dr_record_id = dr_record_id r,
    dr_recorded_at = dr_recorded_at r\<rparr> = r"
  by simp_all

lemma dec_str_PyStr [simp]: "dec_str (PyStr s) = Inr s"
  by (simp add: dec_str_def)

lemma dec_opt_str [simp]: "dec_opt dec_str (opt_str v) = Inr v"
  by (cases v) (simp_all add: dec_opt_def opt_str_def)

lemma dec_opt_enum:
  "(\<And>x. dec (PyStr (val x)) = Inr x) \<Longrightarrow> dec_opt dec (opt_str (map_option val v)) = Inr v"
  by (cases v) (simp_all add: dec_opt_def opt_str_def)

lemma dec_opt_float [simp]: "dec_opt as_float (opt_float v) = Inr v"
  by (cases v) (simp_all add: dec_opt_def opt_float_def)

lemma dec_tuple_map: "(\<And>x. x \<in> set xs \<Longrightarrow> dec (enc x) = Inr x) \<Longrightarrow> dec_tuple dec (PyList (map enc xs)) = Inr xs"
  using mapM_r_map[of xs dec enc id] by (simp add: dec_tuple_def)

lemmas codec_simps = dec_object_def field_req_def field_or_def

lemma decode_context_encode:
  "dc_checkpoint c = IsA x \<Longrightarrow> dc_mode c = IsA y \<Longrightarrow> decode_context (encode_context c) = Inr c"
  by (simp add: decode_context_def encode_context_def codec_simps)

lemma decode_candidate_encode:
  "mk_DecisionCandidate c = Inr c \<Longrightarrow> decode_candidate (encode_candidate c) = Inr c"
  by (simp add: decode_candidate_def encode_candidate_def codec_simps dec_tuple_map)

lemma decode_rejection_encode:
  "reason_code (rj_reason r) \<Longrightarrow> decode_rejection (encode_rejection r) = Inr r"
  by (simp add: decode_rejection_def encode_rejection_def codec_simps)

lemma decode_outcome_encode:
  assumes "valid_outcome out"
  shows "decode_outcome (encode_outcome out) = Inr out"
proof -
  have "dec_tuple decode_rejection (PyList (map encode_rejection (do_rejected out))) = Inr (do_rejected out)"
    using assms by (intro dec_tuple_map decode_rejection_encode) (auto simp: valid_outcome_def list_all_iff)
  then show ?thesis using outcome_copy_valid[OF assms]
    by (simp add: decode_outcome_def encode_outcome_def codec_simps dec_opt_enum outcome_copy_def)
qed

text \<open>A decoder that fails, fails with \<open>ValueError\<close>.\<close>

definition only_ValueError :: "'a result \<Rightarrow> bool" where
  "only_ValueError r \<longleftrightarrow> (case r of Inl e \<Rightarrow> e = ValueError | Inr _ \<Rightarrow> True)"

named_theorems value_errors \<open>results that fail only with ValueError\<close>

lemma only_ValueError_simps [simp]: "only_ValueError (Inr x)" "only_ValueError (Inl e) \<longleftrightarrow> e = ValueError"
  by (simp_all add: only_ValueError_def)

lemma only_ValueError_bind [value_errors]:
  "only_ValueError r \<Longrightarrow> (\<And>x. only_ValueError (f x)) \<Longrightarrow> only_ValueError (bind_r r f)"
  by (cases r) auto

lemma only_ValueError_mapM [value_errors]:
  "(\<And>x. only_ValueError (f x)) \<Longrightarrow> only_ValueError (mapM_r f xs)"
  by (induction xs) (auto intro!: only_ValueError_bind)

lemma only_ValueError_as_float [value_errors]: "only_ValueError (as_float v)"
  by (auto simp: as_float_def split: pyval.splits pyfloat.splits option.splits)

lemma only_ValueError_dec_str [value_errors]: "only_ValueError (dec_str v)"
  by (auto simp: dec_str_def split: pyval.splits)

lemma only_ValueError_dec_enum [value_errors]: "only_ValueError (dec_enum val members v)"
  by (auto simp: dec_enum_def split: pyval.splits option.splits)

lemma only_ValueError_dec_opt [value_errors]:
  "(\<And>v. only_ValueError (dec v)) \<Longrightarrow> only_ValueError (dec_opt dec v)"
  by (auto simp: dec_opt_def intro: only_ValueError_bind)

lemma only_ValueError_dec_tuple [value_errors]:
  "(\<And>v. only_ValueError (dec v)) \<Longrightarrow> only_ValueError (dec_tuple dec v)"
  by (auto simp: dec_tuple_def split: pyval.splits intro: only_ValueError_mapM)

lemma only_ValueError_fields [value_errors]:
  "(\<And>v. only_ValueError (dec v)) \<Longrightarrow> only_ValueError (field_req dec d k)"
  "(\<And>v. only_ValueError (dec v)) \<Longrightarrow> only_ValueError (field_or dec dflt d k)"
  by (auto simp: field_req_def field_or_def split: option.splits)

lemma only_ValueError_object [value_errors]: "only_ValueError (dec_object names v)"
  by (auto simp: dec_object_def split: pyval.splits)

lemma only_ValueError_constructors [value_errors]:
  "only_ValueError (mk_DecisionCandidate c)"
  "only_ValueError (mk_Rejection i (PyStr w))"
  "only_ValueError (mk_DecisionOutcome out (opt_float x))"
  "only_ValueError (mk_DecisionRecord r at_time)"
proof -
  show "only_ValueError (mk_DecisionCandidate c)"
    by (auto simp: mk_DecisionCandidate_def split: option.splits)
  show "only_ValueError (mk_Rejection i (PyStr w))"
    by (auto simp: mk_Rejection_def check_reason_def)
  show "only_ValueError (mk_DecisionOutcome out (opt_float x))"
    by (auto simp: mk_DecisionOutcome_def check_reason_def opt_str_def opt_float_def split: option.splits)
  show "only_ValueError (mk_DecisionRecord r at_time)"
    by (auto simp: mk_DecisionRecord_def check_record_def check_candidates_def check_outcome_def Let_def
        intro!: only_ValueError_bind only_ValueError_as_float split: option.splits)
qed

lemma only_ValueError_decoders [value_errors]:
  "only_ValueError (decode_context v)" "only_ValueError (decode_candidate v)"
  "only_ValueError (decode_rejection v)"
  unfolding decode_context_def decode_candidate_def decode_rejection_def
  by (intro value_errors only_ValueError_simps(1))+

lemma only_ValueError_outcome [value_errors]: "only_ValueError (decode_outcome v)"
  unfolding decode_outcome_def by (intro value_errors)


section \<open>Properties\<close>

text \<open>
  A decision record survives its JSON line. Encoding a valid record and decoding the value gives
  the same record; and reading any value that is not such a record fails with \<open>ValueError\<close> and never
  with another exception, so a log reader needs to catch only that one.
\<close>

lemma record_value_roundtrip:
  "(valid_record r \<longrightarrow> record_from_value (PyDict (record_to_value r)) = Inr r) \<and>
   (\<forall>e. record_from_value data = Inl e \<longrightarrow> e = ValueError)"
proof
  show "valid_record r \<longrightarrow> record_from_value (PyDict (record_to_value r)) = Inr r"
  proof
    assume v: "valid_record r"
    then obtain x y where xy: "dc_checkpoint (dr_context r) = IsA x" "dc_mode (dr_context r) = IsA y"
      by (auto simp: valid_record_def)
    have cs: "dec_tuple decode_candidate (PyList (map encode_candidate (dr_candidates r))) = Inr (dr_candidates r)"
      using v by (intro dec_tuple_map decode_candidate_encode) (auto simp: valid_record_def list_all_iff)
    have "mk_DecisionRecord r (PyFloat (Fin (dr_recorded_at r))) = Inr r"
      using v by (simp add: mk_DecisionRecord_def valid_record_def Let_def)
    then show "record_from_value (PyDict (record_to_value r)) = Inr r"
      using v decode_context_encode[OF xy] decode_outcome_encode[of "dr_outcome r"] cs
      by (simp add: record_from_value_def record_to_value_def RECORD_FORMAT_VERSION_def Let_def codec_simps
          valid_record_def delete_conv')
  qed
  have "only_ValueError (record_from_value data)"
    unfolding record_from_value_def Let_def
    by (auto split: pyval.splits intro!: value_errors)
  then show "\<forall>e. record_from_value data = Inl e \<longrightarrow> e = ValueError"
    by (auto simp: only_ValueError_def)
qed


theorem record_value_roundtrip_witness:
  "record_from_value (PyDict (record_to_value
     \<lparr>dr_context = \<lparr>dc_checkpoint = IsA PRE_ACT, dc_agent_id = ''ada'', dc_mode = IsA MANUAL, dc_agent_type = None,
        dc_event_type = None, dc_event_id = None, dc_workflow_id = None, dc_channel_id = None,
        dc_protection_level = None, dc_autonomy_level = None, dc_mood = None\<rparr>,
      dr_candidates = [\<lparr>candidate_id = ''c1'', cand_class = TOOL_CALL, cand_action = ''a'', tool_name = None,
        argument_names = [], target = None, content_hash = None\<rparr>],
      dr_outcome = (plain_outcome DEFER ''approval_required'')\<lparr>do_rejected :=
         [\<lparr>rj_candidate_id = ''c1'', rj_reason = ''approval_required''\<rparr>]\<rparr>,
      dr_subject = ACTION, dr_subject_id = None, dr_record_id = ''r'', dr_recorded_at = 1 / 2\<rparr>)) = Inr
     \<lparr>dr_context = \<lparr>dc_checkpoint = IsA PRE_ACT, dc_agent_id = ''ada'', dc_mode = IsA MANUAL, dc_agent_type = None,
        dc_event_type = None, dc_event_id = None, dc_workflow_id = None, dc_channel_id = None,
        dc_protection_level = None, dc_autonomy_level = None, dc_mood = None\<rparr>,
      dr_candidates = [\<lparr>candidate_id = ''c1'', cand_class = TOOL_CALL, cand_action = ''a'', tool_name = None,
        argument_names = [], target = None, content_hash = None\<rparr>],
      dr_outcome = (plain_outcome DEFER ''approval_required'')\<lparr>do_rejected :=
         [\<lparr>rj_candidate_id = ''c1'', rj_reason = ''approval_required''\<rparr>]\<rparr>,
      dr_subject = ACTION, dr_subject_id = None, dr_record_id = ''r'', dr_recorded_at = 1 / 2\<rparr>"
proof -
  let ?r = "\<lparr>dr_context = \<lparr>dc_checkpoint = IsA PRE_ACT, dc_agent_id = ''ada'', dc_mode = IsA MANUAL, dc_agent_type = None,
        dc_event_type = None, dc_event_id = None, dc_workflow_id = None, dc_channel_id = None,
        dc_protection_level = None, dc_autonomy_level = None, dc_mood = None\<rparr>,
      dr_candidates = [\<lparr>candidate_id = ''c1'', cand_class = TOOL_CALL, cand_action = ''a'', tool_name = None,
        argument_names = [], target = None, content_hash = None\<rparr>],
      dr_outcome = (plain_outcome DEFER ''approval_required'')\<lparr>do_rejected :=
         [\<lparr>rj_candidate_id = ''c1'', rj_reason = ''approval_required''\<rparr>]\<rparr>,
      dr_subject = ACTION, dr_subject_id = None, dr_record_id = ''r'', dr_recorded_at = 1 / 2\<rparr>"
  have "reason_code ''approval_required''" by code_simp
  moreover have "check_record ?r = Inr ()" by code_simp
  ultimately have "valid_record ?r"
    by (simp add: valid_record_def valid_outcome_def plain_outcome_def mk_DecisionCandidate_def)
  then show ?thesis using record_value_roundtrip[of ?r PyNone] by blast
qed

end
