(* ===== verification/Decision_Pipeline.thy ===== *)
theory Decision_Pipeline
  imports Decision_Types
begin

text \<open>
  The selection pipeline (\<open>agents/decision/pipeline.py\<close>) and manual mode's policy
  (\<open>agents/decision/baseline.py\<close>). A constraint input, an approval gate and a policy are the
  runtime's own code, so each is a function whose answer may be anything Python allows: an exception,
  a coroutine, a value of any type. The record's id and time are arguments.
\<close>

section \<open>The pipeline\<close>

datatype check_answer = Check_raises | Check_coroutine | Check_answers pyval | Check_other

datatype policy_answer = Policy_raises | Policy_coroutine | Policy_returns DecisionOutcome | Policy_other

type_synonym check_fn = "DecisionContext \<Rightarrow> DecisionCandidate \<Rightarrow> check_answer"
type_synonym policy_fn = "DecisionContext \<Rightarrow> DecisionCandidate list \<Rightarrow> policy_answer"

definition NO_CANDIDATE :: DecisionOutcome where
  "NO_CANDIDATE = plain_outcome DEFER ''no_candidate''"

definition RUNTIME_PROPOSAL :: string where "RUNTIME_PROPOSAL = ''runtime_proposal''"
definition PROPOSAL_REMOVED :: string where "PROPOSAL_REMOVED = ''proposal_removed''"

text \<open>The rejection, if any, and whether the check broke instead.\<close>

definition ask :: "DecisionContext \<Rightarrow> DecisionCandidate \<Rightarrow> check_fn \<Rightarrow> Rejection option \<times> bool" where
  "ask ctx c chk =
     (case chk ctx c of
        Check_raises \<Rightarrow> (None, True)
      | Check_coroutine \<Rightarrow> (None, True)
      | Check_other \<Rightarrow> (None, True)
      | Check_answers PyNone \<Rightarrow> (None, False)
      | Check_answers v \<Rightarrow>
          (case mk_Rejection (candidate_id c) v of
             Inr r \<Rightarrow> (Some r, False)
           | Inl _ \<Rightarrow> (None, True)))"

text \<open>The inner loop of \<open>_constrain\<close>: stop at the first rejection, remember a broken input.\<close>

fun ask_all :: "DecisionContext \<Rightarrow> DecisionCandidate \<Rightarrow> check_fn list \<Rightarrow> bool \<Rightarrow> Rejection option \<times> bool" where
  "ask_all ctx c [] broke = (None, broke)"
| "ask_all ctx c (k # ks) broke =
     (case ask ctx c k of
        (Some r, failed) \<Rightarrow> (Some r, broke)
      | (None, failed) \<Rightarrow> ask_all ctx c ks (broke \<or> failed))"

fun constrain ::
  "DecisionContext \<Rightarrow> DecisionCandidate list \<Rightarrow> check_fn list \<Rightarrow>
   DecisionCandidate list \<times> Rejection list \<times> bool" where
  "constrain ctx [] checks = ([], [], False)"
| "constrain ctx (c # cs) checks =
     (let (survivors, removed, broke_any) = constrain ctx cs checks in
      case ask_all ctx c checks False of
        (Some r, _) \<Rightarrow> (survivors, r # removed, broke_any)
      | (None, True) \<Rightarrow>
          (survivors, \<lparr>rj_candidate_id = candidate_id c, rj_reason = ''constraint_error''\<rparr> # removed, True)
      | (None, False) \<Rightarrow> (c # survivors, removed, broke_any))"

definition policy_broke :: DecisionOutcome where
  "policy_broke = plain_outcome DEFER ''policy_error''"

definition pick :: "DecisionContext \<Rightarrow> DecisionCandidate list \<Rightarrow> policy_fn \<Rightarrow> DecisionOutcome" where
  "pick ctx survivors policy =
     (case policy ctx survivors of
        Policy_returns out \<Rightarrow>
          (case check_outcome ctx survivors out ACTION None of Inr _ \<Rightarrow> out | Inl _ \<Rightarrow> policy_broke)
      | _ \<Rightarrow> policy_broke)"

definition relabel :: "DecisionOutcome \<Rightarrow> DecisionCandidate \<Rightarrow> DecisionOutcome result" where
  "relabel out proposal =
     (if do_reason out \<noteq> Some RUNTIME_PROPOSAL \<or> do_selected_id out \<in> {None, Some (candidate_id proposal)}
      then Inr out
      else outcome_copy (out\<lparr>do_reason := Some PROPOSAL_REMOVED\<rparr>))"

fun gate_loop ::
  "DecisionContext \<Rightarrow> DecisionCandidate \<Rightarrow> DecisionOutcome \<Rightarrow> check_fn list \<Rightarrow> DecisionOutcome" where
  "gate_loop ctx sel out [] = out"
| "gate_loop ctx sel out (k # ks) =
     (case ask ctx sel k of
        (held, broke) \<Rightarrow>
          (case (if broke then Some \<lparr>rj_candidate_id = candidate_id sel, rj_reason = ''approval_gate_error''\<rparr>
                 else held) of
             Some h \<Rightarrow> (plain_outcome DEFER (rj_reason h))\<lparr>do_rejected := do_rejected out @ [h]\<rparr>
           | None \<Rightarrow> gate_loop ctx sel out ks))"

text \<open>The generator behind \<open>next\<close> is never exhausted; its \<open>StopIteration\<close> is kept as a branch.\<close>

definition gate ::
  "DecisionContext \<Rightarrow> DecisionCandidate list \<Rightarrow> DecisionOutcome \<Rightarrow> check_fn list \<Rightarrow> DecisionOutcome result" where
  "gate ctx survivors out gates =
     (case do_selected_id out of
        None \<Rightarrow> Inr out
      | Some sid \<Rightarrow>
          (case find (\<lambda>c. candidate_id c = sid) survivors of
             None \<Rightarrow> Inl StopIteration
           | Some sel \<Rightarrow> Inr (gate_loop ctx sel out gates)))"

definition decide ::
  "DecisionContext \<Rightarrow> DecisionCandidate list \<Rightarrow> policy_fn \<Rightarrow> check_fn list \<Rightarrow> check_fn list \<Rightarrow>
   string \<Rightarrow> rat \<Rightarrow> DecisionRecord result" where
  "decide ctx built policy checks gates rid now =
     (case (dc_checkpoint ctx, dc_mode ctx) of
        (IsA _, IsA _) \<Rightarrow>
          bind_r (check_candidates built) (\<lambda>_.
            let (survivors, removed, broke) = constrain ctx built checks in
            bind_r (if built = [] then Inr NO_CANDIDATE
                    else if survivors = [] then
                      Inr (plain_outcome DEFER
                             (if broke then ''constraint_error'' else ''no_permitted_candidate''))
                    else bind_r (relabel (pick ctx survivors policy) (hd built)) (\<lambda>picked.
                           gate ctx survivors picked gates)) (\<lambda>out.
            bind_r (outcome_copy (out\<lparr>do_rejected := removed @ do_rejected out\<rparr>)) (\<lambda>final.
              mk_DecisionRecord
                \<lparr>dr_context = ctx, dr_candidates = built, dr_outcome = final, dr_subject = ACTION,
                 dr_subject_id = None, dr_record_id = rid, dr_recorded_at = now\<rparr>
                (PyFloat (Fin now)))))
      | _ \<Rightarrow> Inl TypeError)"

definition BaselinePolicy_select :: policy_fn where
  "BaselinePolicy_select ctx candidates =
     (if dc_mode ctx \<noteq> IsA MANUAL then Policy_raises
      else case candidates of
             [] \<Rightarrow> Policy_returns NO_CANDIDATE
           | first # _ \<Rightarrow> Policy_returns
               \<lparr>do_action_class = Some (cand_class first), do_selected_id = Some (candidate_id first),
                do_reason = Some RUNTIME_PROPOSAL, do_confidence = None, do_rejected = [],
                do_rationale = ''manual mode takes the first candidate left in the runtime's own order'',
                do_verdict = None\<rparr>)"


section \<open>What a check lets through\<close>

definition lets_through :: "DecisionContext \<Rightarrow> DecisionCandidate \<Rightarrow> check_fn \<Rightarrow> bool" where
  "lets_through ctx c chk \<longleftrightarrow> chk ctx c = Check_answers PyNone"

lemma ask_pass: "ask ctx c k = (None, False) \<longleftrightarrow> lets_through ctx c k"
  by (auto simp: ask_def lets_through_def split: check_answer.splits pyval.splits sum.splits)

lemma ask_Some: "ask ctx c k = (Some r, b) \<Longrightarrow> rj_candidate_id r = candidate_id c \<and> reason_code (rj_reason r) \<and>
    k ctx c = Check_answers (PyStr (rj_reason r)) \<and> \<not> b"
  by (auto simp: ask_def split: check_answer.splits pyval.splits sum.splits dest!: mk_Rejection_InrD)

lemma ask_all_pass: "ask_all ctx c ks b = (None, False) \<longleftrightarrow> \<not> b \<and> list_all (lets_through ctx c) ks"
proof (induction ks arbitrary: b)
  case (Cons k ks)
  obtain r f where a: "ask ctx c k = (r, f)" by fastforce
  then show ?case using Cons ask_pass[of ctx c k] by (cases r) auto
qed simp

lemma ask_all_Some: "ask_all ctx c ks b = (Some r, b') \<Longrightarrow> rj_candidate_id r = candidate_id c \<and> reason_code (rj_reason r)"
proof (induction ks arbitrary: b)
  case (Cons k ks)
  obtain r' f where a: "ask ctx c k = (r', f)" by fastforce
  then show ?case using Cons ask_Some[of ctx c k] by (cases r') auto
qed simp

lemma reason_code_literals [simp]:
  "reason_code ''constraint_error''" "reason_code ''approval_gate_error''" "reason_code ''policy_error''"
  "reason_code ''no_candidate''" "reason_code ''no_permitted_candidate''" "reason_code RUNTIME_PROPOSAL"
  "reason_code PROPOSAL_REMOVED"
  by code_simp+

lemma constrain_spec:
  assumes "constrain ctx cs checks = (survivors, removed, broke)"
  shows "survivors = filter (\<lambda>c. list_all (lets_through ctx c) checks) cs \<and>
    map rj_candidate_id removed = map candidate_id (filter (\<lambda>c. \<not> list_all (lets_through ctx c) checks) cs) \<and>
    list_all (\<lambda>r. reason_code (rj_reason r)) removed"
  using assms
proof (induction cs arbitrary: survivors removed broke)
  case (Cons c cs)
  obtain s r b where r: "constrain ctx cs checks = (s, r, b)" by (metis prod_cases3)
  obtain a f where a: "ask_all ctx c checks False = (a, f)" by fastforce
  note ih = Cons.IH[OF r]
  have pass: "list_all (lets_through ctx c) checks \<longleftrightarrow> a = None \<and> \<not> f"
    using ask_all_pass[of ctx c checks False] a by auto
  show ?case
  proof (cases a)
    case None
    then show ?thesis using Cons.prems r a ih pass by (cases f) auto
  next
    case (Some rj)
    then show ?thesis using Cons.prems r a ih pass ask_all_Some[of ctx c checks False rj f] by auto
  qed
qed simp


section \<open>Outcomes that make a valid record\<close>

lemma classes_of_Some:
  "distinct (map candidate_id cs) \<Longrightarrow> c \<in> set cs \<Longrightarrow> classes_of cs (candidate_id c) = Some (cand_class c)"
  unfolding classes_of_def by (rule map_of_is_SomeI) (auto simp: rev_map comp_def distinct_map)

lemma classes_of_SomeD: "classes_of cs i = Some k \<Longrightarrow> \<exists>c \<in> set cs. candidate_id c = i \<and> cand_class c = k"
  by (auto simp: classes_of_def dest!: map_of_SomeD)

lemma classes_of_filter:
  assumes "distinct (map candidate_id cs)" "classes_of (filter P cs) i = Some k"
  shows "classes_of cs i = Some k"
  using classes_of_SomeD[OF assms(2)] classes_of_Some[OF assms(1)] by auto

lemma check_action_iff:
  "check_outcome ctx cs out ACTION None = Inr () \<longleftrightarrow>
     (dc_mode ctx = IsA MANUAL \<longrightarrow> do_confidence out = None) \<and>
     distinct (map rj_candidate_id (do_rejected out)) \<and>
     (\<forall>r \<in> set (do_rejected out). classes_of cs (rj_candidate_id r) \<noteq> None) \<and>
     (\<forall>sid. do_selected_id out = Some sid \<longrightarrow> sid \<notin> rj_candidate_id ` set (do_rejected out) \<and>
        classes_of cs sid \<noteq> None \<and> classes_of cs sid = do_action_class out) \<and>
     do_action_class out \<noteq> None \<and> do_verdict out = None \<and>
     (do_selected_id out = None \<longrightarrow> do_action_class out = Some DEFER \<and> or_str (do_reason out) [] \<noteq> [])"
  by (auto simp: check_outcome_def Let_def list_all_iff split: option.splits)

definition sound_pick :: "DecisionContext \<Rightarrow> DecisionCandidate list \<Rightarrow> DecisionOutcome \<Rightarrow> bool" where
  "sound_pick ctx cs out \<longleftrightarrow> valid_outcome out \<and> check_outcome ctx cs out ACTION None = Inr ()"

lemma reason_code_ne [simp]: "\<not> reason_code []"
  by (simp add: reason_code.simps)

lemma sound_plain: "reason_code why \<Longrightarrow> sound_pick ctx cs (plain_outcome DEFER why)"
  by (cases why) (auto simp: sound_pick_def check_action_iff valid_outcome_def plain_outcome_def)

lemma sound_relabel:
  assumes "sound_pick ctx cs out"
  shows "\<exists>out'. relabel out p = Inr out' \<and> sound_pick ctx cs out' \<and>
    do_selected_id out' = do_selected_id out \<and> do_rejected out' = do_rejected out \<and>
    do_action_class out' = do_action_class out"
proof (cases "do_reason out \<noteq> Some RUNTIME_PROPOSAL \<or> do_selected_id out \<in> {None, Some (candidate_id p)}")
  case True
  then show ?thesis using assms by (simp add: relabel_def)
next
  case False
  let ?o = "out\<lparr>do_reason := Some PROPOSAL_REMOVED\<rparr>"
  have v: "valid_outcome ?o" using assms by (auto simp: sound_pick_def valid_outcome_def)
  moreover have "check_outcome ctx cs ?o ACTION None = Inr ()"
    using assms False by (auto simp: sound_pick_def check_action_iff)
  ultimately show ?thesis using False outcome_copy_valid[OF v]
    by (auto simp: relabel_def sound_pick_def)
qed

text \<open>The gates either let the selection through, all of them, or defer with one more rejection.\<close>

lemma gate_loop_cases:
  "(gate_loop ctx sel out ks = out \<and> list_all (lets_through ctx sel) ks) \<or>
   (\<not> list_all (lets_through ctx sel) ks \<and> (\<exists>h. rj_candidate_id h = candidate_id sel \<and> reason_code (rj_reason h) \<and>
      gate_loop ctx sel out ks = (plain_outcome DEFER (rj_reason h))\<lparr>do_rejected := do_rejected out @ [h]\<rparr>))"
proof (induction ks)
  case (Cons k ks)
  obtain r f where a: "ask ctx sel k = (r, f)" by fastforce
  consider (pass) "r = None" "\<not> f" | (broke) f | (held) h where "r = Some h" "\<not> f" by blast
  then show ?case
  proof cases
    case pass
    then show ?thesis using Cons a ask_pass[of ctx sel k] by auto
  next
    case broke
    let ?h = "\<lparr>rj_candidate_id = candidate_id sel, rj_reason = ''approval_gate_error''\<rparr>"
    have "gate_loop ctx sel out (k # ks) =
        (plain_outcome DEFER (rj_reason ?h))\<lparr>do_rejected := do_rejected out @ [?h]\<rparr>"
      using a broke by simp
    moreover have "\<not> lets_through ctx sel k" using a broke ask_pass[of ctx sel k] by auto
    ultimately show ?thesis
      by (intro disjI2 conjI exI[of _ ?h]) simp_all
  next
    case held
    then show ?thesis using a ask_pass[of ctx sel k] ask_Some[of ctx sel k h f] by auto
  qed
qed simp

lemma gate_sound:
  assumes s: "sound_pick ctx cs out" and d: "distinct (map candidate_id cs)"
  shows "\<exists>out'. gate ctx cs out gates = Inr out' \<and> sound_pick ctx cs out' \<and>
    (\<forall>sid. do_selected_id out' = Some sid \<longrightarrow> do_selected_id out = Some sid \<and>
       (\<exists>c \<in> set cs. candidate_id c = sid \<and> Some (cand_class c) = do_action_class out' \<and>
          list_all (lets_through ctx c) gates))"
proof (cases "do_selected_id out")
  case None
  then show ?thesis using s by (simp add: gate_def)
next
  case (Some sid)
  then have k: "classes_of cs sid \<noteq> None" "classes_of cs sid = do_action_class out"
      "sid \<notin> rj_candidate_id ` set (do_rejected out)"
    using s by (auto simp: sound_pick_def check_action_iff)
  then obtain c where c: "c \<in> set cs" "candidate_id c = sid" "Some (cand_class c) = do_action_class out"
    using classes_of_SomeD by fastforce
  have "find (\<lambda>x. candidate_id x = sid) cs = Some c"
  proof -
    obtain c' where f: "find (\<lambda>x. candidate_id x = sid) cs = Some c'"
      using c(1,2) by (cases "find (\<lambda>x. candidate_id x = sid) cs") (auto simp: find_None_iff)
    then have "c' \<in> set cs" "candidate_id c' = sid" by (auto simp: find_Some_iff)
    then show ?thesis using f c d by (metis distinct_map inj_onD)
  qed
  then have g: "gate ctx cs out gates = Inr (gate_loop ctx c out gates)" using Some by (simp add: gate_def)
  from gate_loop_cases[of ctx c out gates] show ?thesis
  proof (elim disjE conjE exE)
    assume "gate_loop ctx c out gates = out" "list_all (lets_through ctx c) gates"
    then show ?thesis using g s Some c by auto
  next
    fix h assume h: "rj_candidate_id h = candidate_id c" "reason_code (rj_reason h)"
      "gate_loop ctx c out gates = (plain_outcome DEFER (rj_reason h))\<lparr>do_rejected := do_rejected out @ [h]\<rparr>"
    have "rj_reason h \<noteq> []" using h(2) by auto
    then have "sound_pick ctx cs (gate_loop ctx c out gates)"
      using h s k c by (auto simp: sound_pick_def check_action_iff valid_outcome_def plain_outcome_def)
    then show ?thesis using g h(3) by (simp add: plain_outcome_def)
  qed
qed


section \<open>The policy contract\<close>

text \<open>
  What the pipeline needs of a policy: a returned outcome was built by its own constructor, which a
  frozen dataclass guarantees. Whatever else the policy does, a valid record comes out.
\<close>

locale decision_policy =
  fixes policy :: policy_fn
  assumes constructed: "policy ctx cs = Policy_returns out \<Longrightarrow> valid_outcome out"
begin

lemma pick_sound: "sound_pick ctx cs (pick ctx cs policy)"
proof (cases "policy ctx cs")
  case (Policy_returns out)
  then show ?thesis using constructed[of ctx cs out] sound_plain[of "''policy_error''" ctx cs]
    by (auto simp: pick_def policy_broke_def sound_pick_def split: sum.splits)
qed (auto simp: pick_def policy_broke_def sound_plain)

lemma stages_sound:
  assumes "distinct (map candidate_id built)" "constrain ctx built checks = (survivors, removed, broke)"
  shows "\<exists>out. (if built = [] then Inr NO_CANDIDATE
        else if survivors = [] then Inr (plain_outcome DEFER
               (if broke then ''constraint_error'' else ''no_permitted_candidate''))
        else bind_r (relabel (pick ctx survivors policy) (hd built)) (\<lambda>picked.
               gate ctx survivors picked gates)) = Inr out \<and>
     sound_pick ctx survivors out \<and>
     (\<forall>sid. do_selected_id out = Some sid \<longrightarrow> (\<exists>c \<in> set survivors. candidate_id c = sid \<and>
        Some (cand_class c) = do_action_class out \<and> list_all (lets_through ctx c) gates))"
proof -
  have d: "distinct (map candidate_id survivors)"
    using assms(1) constrain_spec[OF assms(2)] distinct_map_filter by blast
  obtain out1 where r: "relabel (pick ctx survivors policy) (hd built) = Inr out1"
      "sound_pick ctx survivors out1"
    using sound_relabel[OF pick_sound] by blast
  obtain out2 where "gate ctx survivors out1 gates = Inr out2" "sound_pick ctx survivors out2"
      "\<forall>sid. do_selected_id out2 = Some sid \<longrightarrow> (\<exists>c \<in> set survivors. candidate_id c = sid \<and>
        Some (cand_class c) = do_action_class out2 \<and> list_all (lets_through ctx c) gates)"
    using gate_sound[OF r(2) d, of gates] by blast
  moreover have "sound_pick ctx cs NO_CANDIDATE" for cs by (simp add: NO_CANDIDATE_def sound_plain)
  moreover have "do_selected_id (plain_outcome DEFER w) = None" for w by (simp add: plain_outcome_def)
  ultimately show ?thesis using r(1) by (simp add: sound_plain NO_CANDIDATE_def)
qed

lemma final_sound:
  assumes d: "distinct (map candidate_id built)"
    and c: "constrain ctx built checks = (survivors, removed, broke)" and s: "sound_pick ctx survivors out"
  shows "sound_pick ctx built (out\<lparr>do_rejected := removed @ do_rejected out\<rparr>)"
proof -
  note cs = constrain_spec[OF c]
  have k: "classes_of survivors i = Some x \<Longrightarrow> classes_of built i = Some x" for i x
    using classes_of_filter[OF d] cs by metis
  have dis: "rj_candidate_id r \<noteq> i" if r: "r \<in> set removed" and i: "classes_of survivors i = Some x" for r i x
  proof
    assume e: "rj_candidate_id r = i"
    have "i \<in> set (map candidate_id (filter (\<lambda>c. \<not> list_all (lets_through ctx c) checks) built))"
      using r e cs by (metis in_set_conv_decomp list.set_intros(1) list.set_map image_eqI)
    then obtain a where a: "a \<in> set built" "\<not> list_all (lets_through ctx a) checks" "candidate_id a = i" by auto
    obtain b where b: "b \<in> set built" "list_all (lets_through ctx b) checks" "candidate_id b = i"
      using classes_of_SomeD[OF i] cs by auto
    show False using a b d by (metis distinct_map inj_onD)
  qed
  have mem: "classes_of built (rj_candidate_id r) \<noteq> None" if "r \<in> set removed" for r
  proof -
    have "rj_candidate_id r \<in> set (map candidate_id (filter (\<lambda>c. \<not> list_all (lets_through ctx c) checks) built))"
      using that cs by (metis list.set_map image_eqI)
    then show ?thesis using classes_of_Some[OF d] by auto
  qed
  have dr: "distinct (map rj_candidate_id removed)" using cs d distinct_map_filter by metis
  let ?final = "out\<lparr>do_rejected := removed @ do_rejected out\<rparr>"
  have v: "valid_outcome out" and chk: "check_outcome ctx survivors out ACTION None = Inr ()"
    using s by (simp_all add: sound_pick_def)
  note chk = chk[unfolded check_action_iff]
  have rej: "\<exists>x. classes_of survivors (rj_candidate_id r) = Some x" if "r \<in> set (do_rejected out)" for r
    using chk that by blast
  have 1: "distinct (map rj_candidate_id (do_rejected ?final))"
    using dr chk dis rej by fastforce
  have 2: "\<forall>r \<in> set (do_rejected ?final). classes_of built (rj_candidate_id r) \<noteq> None"
    using mem rej k by fastforce
  have 3: "sid \<notin> rj_candidate_id ` set (do_rejected ?final) \<and> classes_of built sid \<noteq> None \<and>
      classes_of built sid = do_action_class ?final" if "do_selected_id ?final = Some sid" for sid
  proof -
    have "do_selected_id out = Some sid" using that by simp
    then obtain x where x: "classes_of survivors sid = Some x" "do_action_class out = Some x"
        "sid \<notin> rj_candidate_id ` set (do_rejected out)" using chk by force
    then show ?thesis using dis[OF _ x(1)] k[OF x(1)] by auto
  qed
  have "check_outcome ctx built ?final ACTION None = Inr ()"
    unfolding check_action_iff using 1 2 3 chk by simp
  moreover have "valid_outcome ?final" using v cs by (simp add: valid_outcome_def)
  ultimately show ?thesis by (simp add: sound_pick_def)
qed

lemma decide_sound:
  assumes "dc_checkpoint ctx = IsA x" "dc_mode ctx = IsA y" "distinct (map candidate_id built)"
  shows "\<exists>r. decide ctx built policy checks gates rid now = Inr r \<and> dr_context r = ctx \<and>
     dr_candidates r = built \<and> sound_pick ctx built (dr_outcome r) \<and>
     (\<forall>sid. do_selected_id (dr_outcome r) = Some sid \<longrightarrow>
        (\<exists>c \<in> set built. candidate_id c = sid \<and> Some (cand_class c) = do_action_class (dr_outcome r) \<and>
           list_all (lets_through ctx c) checks \<and> list_all (lets_through ctx c) gates))"
proof -
  obtain survivors removed broke where c: "constrain ctx built checks = (survivors, removed, broke)"
    by (metis prod_cases3)
  obtain out where o: "(if built = [] then Inr NO_CANDIDATE
        else if survivors = [] then Inr (plain_outcome DEFER
               (if broke then ''constraint_error'' else ''no_permitted_candidate''))
        else bind_r (relabel (pick ctx survivors policy) (hd built)) (\<lambda>picked.
               gate ctx survivors picked gates)) = Inr out" "sound_pick ctx survivors out"
     "\<forall>sid. do_selected_id out = Some sid \<longrightarrow> (\<exists>c \<in> set survivors. candidate_id c = sid \<and>
        Some (cand_class c) = do_action_class out \<and> list_all (lets_through ctx c) gates)"
    using stages_sound[OF assms(3) c, of gates] by blast
  let ?final = "out\<lparr>do_rejected := removed @ do_rejected out\<rparr>"
  let ?r = "\<lparr>dr_context = ctx, dr_candidates = built, dr_outcome = ?final, dr_subject = ACTION,
                 dr_subject_id = None, dr_record_id = rid, dr_recorded_at = now\<rparr>"
  have f: "sound_pick ctx built ?final" by (rule final_sound[OF assms(3) c o(2)])
  then have cp: "outcome_copy ?final = Inr ?final" by (simp add: sound_pick_def outcome_copy_valid)
  have "mk_DecisionRecord ?r (PyFloat (Fin now)) = Inr ?r"
    using f assms(3) by (simp add: mk_DecisionRecord_def check_record_def check_candidates_def sound_pick_def)
  then have "decide ctx built policy checks gates rid now = Inr ?r"
    unfolding decide_def using assms c o(1) cp by (simp add: check_candidates_def)
  moreover have "set survivors \<subseteq> {c \<in> set built. list_all (lets_through ctx c) checks}"
    using constrain_spec[OF c] by auto
  ultimately show ?thesis using f o(3) by fastforce
qed

end

interpretation baseline: decision_policy BaselinePolicy_select
  by unfold_locales
    (auto simp: BaselinePolicy_select_def NO_CANDIDATE_def plain_outcome_def valid_outcome_def
      split: if_splits list.splits)


section \<open>Properties\<close>

text \<open>
  C3. The pipeline always settles, and only a permitted candidate runs. For any policy whose
  outcomes were built by their constructor, any constraint inputs and approval gates, whatever they
  raise or answer, and unique candidate ids, \<open>decide\<close> returns a record that passes the record rules;
  a selected candidate is one of the proposed ones, of the outcome's class, and every constraint
  input and every gate answered \<open>None\<close> for it.
\<close>

theorem decide_selects_permitted:
  assumes policy: "\<And>c cs out. policy c cs = Policy_returns out \<Longrightarrow> valid_outcome out"
    and "dc_checkpoint ctx = IsA x" "dc_mode ctx = IsA y" "distinct (map candidate_id built)"
  shows "\<exists>r. decide ctx built policy checks gates rid now = Inr r \<and> dr_candidates r = built \<and>
     check_record r = Inr () \<and>
     (\<forall>sid. do_selected_id (dr_outcome r) = Some sid \<longrightarrow>
        (\<exists>c \<in> set built. candidate_id c = sid \<and> do_action_class (dr_outcome r) = Some (cand_class c) \<and>
           (\<forall>k \<in> set (checks @ gates). k ctx c = Check_answers PyNone)))"
proof -
  have "decision_policy policy" by (rule decision_policy.intro) (rule policy)
  from decision_policy.decide_sound[OF this assms(2-4), of checks gates rid now]
  obtain r where r: "decide ctx built policy checks gates rid now = Inr r"
    "\<forall>sid. do_selected_id (dr_outcome r) = Some sid \<longrightarrow>
        (\<exists>c \<in> set built. candidate_id c = sid \<and> Some (cand_class c) = do_action_class (dr_outcome r) \<and>
           list_all (lets_through ctx c) checks \<and> list_all (lets_through ctx c) gates)"
    and c: "dr_candidates r = built"
    by blast
  have "check_record r = Inr ()"
    using r(1) by (auto simp: decide_def bind_r_Inr_iff mk_DecisionRecord_def Let_def
        split: dyn.splits prod.splits)
  then show ?thesis using r c by (fastforce simp: list_all_iff lets_through_def)
qed

theorem decide_selects_permitted_witness:
  "\<exists>r. decide \<lparr>dc_checkpoint = IsA PRE_ACT, dc_agent_id = ''ada'', dc_mode = IsA MANUAL, dc_agent_type = None,
        dc_event_type = None, dc_event_id = None, dc_workflow_id = None, dc_channel_id = None,
        dc_protection_level = None, dc_autonomy_level = None, dc_mood = None\<rparr>
      [\<lparr>candidate_id = ''c1'', cand_class = TOOL_CALL, cand_action = ''use_tool'', tool_name = None,
        argument_names = [], target = None, content_hash = None\<rparr>]
      BaselinePolicy_select [\<lambda>_ _. Check_raises] [] ''r'' 0 = Inr r \<and>
    do_selected_id (dr_outcome r) = None"
proof -
  let ?ctx = "\<lparr>dc_checkpoint = IsA PRE_ACT, dc_agent_id = ''ada'', dc_mode = IsA MANUAL, dc_agent_type = None,
        dc_event_type = None, dc_event_id = None, dc_workflow_id = None, dc_channel_id = None,
        dc_protection_level = None, dc_autonomy_level = None, dc_mood = None\<rparr>"
  let ?c = "\<lparr>candidate_id = ''c1'', cand_class = TOOL_CALL, cand_action = ''use_tool'', tool_name = None,
        argument_names = [], target = None, content_hash = None\<rparr>"
  have "\<exists>r. decide ?ctx [?c] BaselinePolicy_select [\<lambda>_ _. Check_raises] [] ''r'' 0 = Inr r \<and>
     dr_candidates r = [?c] \<and> check_record r = Inr () \<and>
     (\<forall>sid. do_selected_id (dr_outcome r) = Some sid \<longrightarrow>
        (\<exists>c \<in> set [?c]. candidate_id c = sid \<and> do_action_class (dr_outcome r) = Some (cand_class c) \<and>
           (\<forall>k \<in> set ([\<lambda>_ _. Check_raises] @ []). k ?ctx c = Check_answers PyNone)))"
    by (rule decide_selects_permitted[where x = PRE_ACT and y = MANUAL])
      (auto intro: baseline.constructed)
  then show ?thesis by (auto simp: option.exhaust_sel)
qed

text \<open>The candidates every constraint input lets through, and the codes of the others.\<close>

definition refuses :: "DecisionContext \<Rightarrow> DecisionCandidate \<Rightarrow> check_fn \<Rightarrow> string option" where
  "refuses ctx c chk =
     (case chk ctx c of Check_answers (PyStr s) \<Rightarrow> if reason_code s then Some s else None | _ \<Rightarrow> None)"

definition removal_code :: "DecisionContext \<Rightarrow> check_fn list \<Rightarrow> DecisionCandidate \<Rightarrow> string" where
  "removal_code ctx checks c =
     (case List.map_filter (refuses ctx c) checks of [] \<Rightarrow> ''constraint_error'' | s # _ \<Rightarrow> s)"

lemma ask_refuses:
  "ask ctx c k = (case refuses ctx c k of
     Some s \<Rightarrow> (Some \<lparr>rj_candidate_id = candidate_id c, rj_reason = s\<rparr>, False)
   | None \<Rightarrow> (None, \<not> lets_through ctx c k))"
  by (auto simp: ask_def refuses_def lets_through_def mk_Rejection_def check_reason_def
      split: check_answer.splits pyval.splits)

lemma ask_all_code:
  "ask_all ctx c ks b = (case List.map_filter (refuses ctx c) ks of
     s # _ \<Rightarrow> (Some \<lparr>rj_candidate_id = candidate_id c, rj_reason = s\<rparr>, snd (ask_all ctx c ks b))
   | [] \<Rightarrow> (None, b \<or> \<not> list_all (lets_through ctx c) ks))"
proof (induction ks arbitrary: b)
  case (Cons k ks)
  then show ?case
    by (cases "refuses ctx c k") (auto simp: ask_refuses map_filter_simps split: list.splits)
qed (simp add: map_filter_simps)

lemma constrain_codes:
  assumes "constrain ctx cs checks = (survivors, removed, broke)"
  shows "removed = map (\<lambda>c. \<lparr>rj_candidate_id = candidate_id c, rj_reason = removal_code ctx checks c\<rparr>)
      (filter (\<lambda>c. \<not> list_all (lets_through ctx c) checks) cs) \<and>
    (broke \<longleftrightarrow> (\<exists>c \<in> set cs. \<not> list_all (lets_through ctx c) checks \<and> List.map_filter (refuses ctx c) checks = []))"
  using assms
proof (induction cs arbitrary: survivors removed broke)
  case (Cons c cs)
  obtain s r b where r: "constrain ctx cs checks = (s, r, b)" by (metis prod_cases3)
  note ih = Cons.IH[OF r]
  show ?case
  proof (cases "List.map_filter (refuses ctx c) checks")
    case Nil
    then have "ask_all ctx c checks False = (None, \<not> list_all (lets_through ctx c) checks)"
      by (simp add: ask_all_code)
    then show ?thesis using Cons.prems r ih Nil
      by (cases "list_all (lets_through ctx c) checks") (auto simp: removal_code_def)
  next
    case (Cons code rest)
    then have a: "ask_all ctx c checks False =
        (Some \<lparr>rj_candidate_id = candidate_id c, rj_reason = code\<rparr>, snd (ask_all ctx c checks False))"
      using ask_all_code[of ctx c checks False] by simp
    then have "\<not> list_all (lets_through ctx c) checks"
      using ask_all_pass[of ctx c checks False] by (metis option.distinct(1) prod.inject)
    moreover obtain f where "ask_all ctx c checks False =
        (Some \<lparr>rj_candidate_id = candidate_id c, rj_reason = code\<rparr>, f)" using a by blast
    ultimately show ?thesis using Cons.prems r ih \<open>List.map_filter (refuses ctx c) checks = code # rest\<close>
      by (auto simp: removal_code_def)
  qed
qed simp


lemma decide_InrD:
  assumes "decide ctx built policy checks gates rid now = Inr r"
    and "constrain ctx built checks = (survivors, removed, broke)"
  shows "\<exists>out. (if built = [] then Inr NO_CANDIDATE
        else if survivors = [] then Inr (plain_outcome DEFER
               (if broke then ''constraint_error'' else ''no_permitted_candidate''))
        else bind_r (relabel (pick ctx survivors policy) (hd built)) (\<lambda>picked.
               gate ctx survivors picked gates)) = Inr out \<and>
     outcome_copy (out\<lparr>do_rejected := removed @ do_rejected out\<rparr>) = Inr (dr_outcome r)"
  using assms
  by (auto simp: decide_def bind_r_Inr_iff mk_DecisionRecord_def Let_def split: dyn.splits)

lemma outcome_copy_InrD: "outcome_copy out = Inr out' \<Longrightarrow> out' = out"
  by (cases "do_confidence out")
    (auto simp: outcome_copy_def mk_DecisionOutcome_def opt_float_def bind_r_Inr_iff split: if_splits)

text \<open>
  Removed candidates are all on the record, with the first code that refused them. The record's
  rejections begin, in the runtime's order, with every candidate some constraint input did not let
  through: under the code of the first input that refused it, or \<open>constraint_error\<close> when inputs only
  broke on it. When none is left the outcome defers with nothing selected, and its reason tells
  an empty proposal, a broken input and a clean refusal apart.
\<close>

lemma decide_records_removals:
  assumes "decide ctx built policy checks gates rid now = Inr r"
  shows "\<exists>extra. do_rejected (dr_outcome r) =
      map (\<lambda>c. \<lparr>rj_candidate_id = candidate_id c, rj_reason = removal_code ctx checks c\<rparr>)
        (filter (\<lambda>c. \<exists>k \<in> set checks. k ctx c \<noteq> Check_answers PyNone) built) @ extra \<and>
     ((\<forall>c \<in> set built. \<exists>k \<in> set checks. k ctx c \<noteq> Check_answers PyNone) \<longrightarrow>
        extra = [] \<and> do_selected_id (dr_outcome r) = None \<and> do_action_class (dr_outcome r) = Some DEFER \<and>
        do_reason (dr_outcome r) = Some
          (if built = [] then ''no_candidate''
           else if \<exists>c \<in> set built. \<forall>k \<in> set checks. refuses ctx c k = None then ''constraint_error''
           else ''no_permitted_candidate''))"
proof -
  obtain survivors removed broke where c: "constrain ctx built checks = (survivors, removed, broke)"
    by (metis prod_cases3)
  obtain out where o: "(if built = [] then Inr NO_CANDIDATE
        else if survivors = [] then Inr (plain_outcome DEFER
               (if broke then ''constraint_error'' else ''no_permitted_candidate''))
        else bind_r (relabel (pick ctx survivors policy) (hd built)) (\<lambda>picked.
               gate ctx survivors picked gates)) = Inr out"
      and f: "outcome_copy (out\<lparr>do_rejected := removed @ do_rejected out\<rparr>) = Inr (dr_outcome r)"
    using decide_InrD[OF assms c] by blast
  note f = outcome_copy_InrD[OF f]
  have nl: "\<not> list_all (lets_through ctx x) checks \<longleftrightarrow> (\<exists>k \<in> set checks. k ctx x \<noteq> Check_answers PyNone)" for x
    by (auto simp: list_all_iff lets_through_def)
  have mf: "List.map_filter (refuses ctx x) checks = [] \<longleftrightarrow> (\<forall>k \<in> set checks. refuses ctx x k = None)" for x
    by (induction checks) (auto simp: map_filter_simps split: option.splits)
  note codes = constrain_codes[OF c, unfolded nl mf]
  have s: "survivors = [] \<longleftrightarrow> (\<forall>x \<in> set built. \<exists>k \<in> set checks. k ctx x \<noteq> Check_answers PyNone)"
    using constrain_spec[OF c] by (auto simp: filter_empty_conv list_all_iff lets_through_def)
  have "do_rejected (dr_outcome r) = removed @ do_rejected out" using f by simp
  moreover have "do_rejected out = [] \<and> do_selected_id out = None \<and> do_action_class out = Some DEFER \<and>
      do_reason out = Some (if built = [] then ''no_candidate''
        else if broke then ''constraint_error'' else ''no_permitted_candidate'')" if "survivors = []"
    using that o by (auto simp: NO_CANDIDATE_def plain_outcome_def split: if_splits)
  moreover have "broke \<longleftrightarrow> (\<exists>x \<in> set built. \<forall>k \<in> set checks. refuses ctx x k = None)" if "survivors = []"
    using that s codes by auto
  ultimately show ?thesis using codes s f by (intro exI[of _ "do_rejected out"]) auto
qed

text \<open>
  In manual mode the checkpoint changes no choice it need not. With the baseline policy the
  first candidate the constraint inputs leave is selected if every gate lets it run, unscored and
  under \<open>runtime_proposal\<close>, or \<open>proposal_removed\<close> when it is not the runtime's own first proposal;
  with no constraint input and no gate that is the runtime's proposal itself.
\<close>

lemma manual_takes_first_left:
  assumes "dc_checkpoint ctx = IsA x" "dc_mode ctx = IsA MANUAL" "distinct (map candidate_id built)"
    and "filter (\<lambda>c. \<forall>k \<in> set checks. k ctx c = Check_answers PyNone) built = first # rest"
    and "\<forall>k \<in> set gates. k ctx first = Check_answers PyNone"
  shows "\<exists>r. decide ctx built BaselinePolicy_select checks gates rid now = Inr r \<and>
     do_selected_id (dr_outcome r) = Some (candidate_id first) \<and>
     do_action_class (dr_outcome r) = Some (cand_class first) \<and> do_confidence (dr_outcome r) = None \<and>
     do_reason (dr_outcome r) = Some (if first = hd built then RUNTIME_PROPOSAL else PROPOSAL_REMOVED)"
proof -
  obtain r where r: "decide ctx built BaselinePolicy_select checks gates rid now = Inr r"
    using baseline.decide_sound[OF assms(1-3)] by blast
  obtain survivors removed broke where c: "constrain ctx built checks = (survivors, removed, broke)"
    by (metis prod_cases3)
  have sv: "survivors = first # rest"
    using constrain_spec[OF c] assms(4) by (simp add: list_all_iff lets_through_def)
  have "first \<in> set (filter (\<lambda>c. \<forall>k \<in> set checks. k ctx c = Check_answers PyNone) built)" using assms(4) by simp
  then have fb: "first \<in> set built" by simp
  then have ne: "built \<noteq> []" by auto
  let ?pick = "\<lparr>do_action_class = Some (cand_class first), do_selected_id = Some (candidate_id first),
                do_reason = Some RUNTIME_PROPOSAL, do_confidence = None, do_rejected = [],
                do_rationale = ''manual mode takes the first candidate left in the runtime's own order'',
                do_verdict = None\<rparr>"
  have dv: "distinct (map candidate_id survivors)"
    using assms(3) constrain_spec[OF c] distinct_map_filter by metis
  have "check_outcome ctx (first # rest) ?pick ACTION None = Inr ()"
    unfolding check_action_iff using classes_of_Some[OF dv, of first] sv by simp
  then have pick: "pick ctx survivors BaselinePolicy_select = ?pick"
    unfolding sv pick_def using assms(2) by (simp add: BaselinePolicy_select_def)
  have eq: "candidate_id first = candidate_id (hd built) \<longleftrightarrow> first = hd built"
    using fb ne assms(3) by (metis distinct_map inj_onD list.set_sel(1))
  let ?lab = "?pick\<lparr>do_reason := Some (if first = hd built then RUNTIME_PROPOSAL else PROPOSAL_REMOVED)\<rparr>"
  have lab: "relabel ?pick (hd built) = Inr ?lab"
    using eq outcome_copy_valid[of ?lab] by (auto simp: relabel_def valid_outcome_def)
  have "find (\<lambda>c. candidate_id c = candidate_id first) survivors = Some first" using sv by simp
  moreover have "gate_loop ctx first ?lab gates = ?lab"
    using gate_loop_cases[of ctx first ?lab gates] assms(5) by (auto simp: list_all_iff lets_through_def)
  ultimately have "gate ctx survivors ?lab gates = Inr ?lab" by (simp add: gate_def)
  then obtain out where "out = ?lab"
      and f: "outcome_copy (out\<lparr>do_rejected := removed @ do_rejected out\<rparr>) = Inr (dr_outcome r)"
    using decide_InrD[OF r c] ne sv pick lab by auto
  then show ?thesis using r outcome_copy_InrD[OF f] by simp
qed


theorem manual_takes_first_left_witness:
  "\<exists>r. decide \<lparr>dc_checkpoint = IsA PRE_ACT, dc_agent_id = ''ada'', dc_mode = IsA MANUAL, dc_agent_type = None,
        dc_event_type = None, dc_event_id = None, dc_workflow_id = None, dc_channel_id = None,
        dc_protection_level = None, dc_autonomy_level = None, dc_mood = None\<rparr>
      [\<lparr>candidate_id = ''c1'', cand_class = TOOL_CALL, cand_action = ''a'', tool_name = None,
        argument_names = [], target = None, content_hash = None\<rparr>,
       \<lparr>candidate_id = ''c2'', cand_class = RESPOND, cand_action = ''a'', tool_name = None,
        argument_names = [], target = None, content_hash = None\<rparr>]
      BaselinePolicy_select [\<lambda>_ c. if candidate_id c = ''c1'' then Check_answers (PyStr ''forbidden'') else Check_answers PyNone] [] ''r'' 0 = Inr r \<and>
     do_selected_id (dr_outcome r) = Some ''c2'' \<and> do_reason (dr_outcome r) = Some PROPOSAL_REMOVED"
proof -
  let ?ctx = "\<lparr>dc_checkpoint = IsA PRE_ACT, dc_agent_id = ''ada'', dc_mode = IsA MANUAL, dc_agent_type = None,
        dc_event_type = None, dc_event_id = None, dc_workflow_id = None, dc_channel_id = None,
        dc_protection_level = None, dc_autonomy_level = None, dc_mood = None\<rparr>"
  let ?c1 = "\<lparr>candidate_id = ''c1'', cand_class = TOOL_CALL, cand_action = ''a'', tool_name = None,
        argument_names = [], target = None, content_hash = None\<rparr>"
  let ?c2 = "\<lparr>candidate_id = ''c2'', cand_class = RESPOND, cand_action = ''a'', tool_name = None,
        argument_names = [], target = None, content_hash = None\<rparr>"
  let ?k = "\<lambda>_ c. if candidate_id c = ''c1'' then Check_answers (PyStr ''forbidden'') else Check_answers PyNone"
  have "filter (\<lambda>c. \<forall>k \<in> set [?k]. k ?ctx c = Check_answers PyNone) [?c1, ?c2] = [?c2]" by simp
  from manual_takes_first_left[OF _ _ _ this, of PRE_ACT "[]" "''r''" 0] show ?thesis by auto
qed

theorem decide_records_removals_witness:
  "\<exists>r. decide \<lparr>dc_checkpoint = IsA PRE_ACT, dc_agent_id = ''ada'', dc_mode = IsA MANUAL, dc_agent_type = None,
        dc_event_type = None, dc_event_id = None, dc_workflow_id = None, dc_channel_id = None,
        dc_protection_level = None, dc_autonomy_level = None, dc_mood = None\<rparr>
      [\<lparr>candidate_id = ''c1'', cand_class = TOOL_CALL, cand_action = ''a'', tool_name = None,
        argument_names = [], target = None, content_hash = None\<rparr>]
      BaselinePolicy_select [\<lambda>_ _. Check_raises, \<lambda>_ c. if candidate_id c = ''c1'' then Check_answers (PyStr ''forbidden'') else Check_answers PyNone] [] ''r'' 0 = Inr r \<and>
     do_reason (dr_outcome r) = Some ''no_permitted_candidate'' \<and>
     map rj_reason (do_rejected (dr_outcome r)) = [''forbidden'']"
proof -
  let ?ctx = "\<lparr>dc_checkpoint = IsA PRE_ACT, dc_agent_id = ''ada'', dc_mode = IsA MANUAL, dc_agent_type = None,
        dc_event_type = None, dc_event_id = None, dc_workflow_id = None, dc_channel_id = None,
        dc_protection_level = None, dc_autonomy_level = None, dc_mood = None\<rparr>"
  let ?c1 = "\<lparr>candidate_id = ''c1'', cand_class = TOOL_CALL, cand_action = ''a'', tool_name = None,
        argument_names = [], target = None, content_hash = None\<rparr>"
  let ?ks = "[\<lambda>_ _. Check_raises, \<lambda>_ c. if candidate_id c = ''c1'' then Check_answers (PyStr ''forbidden'') else Check_answers PyNone]"
  have "reason_code ''forbidden''" by code_simp
  then have f: "refuses ?ctx ?c1 (?ks ! 0) = None" "refuses ?ctx ?c1 (?ks ! 1) = Some ''forbidden''"
    by (simp_all add: refuses_def)
  then have code: "removal_code ?ctx ?ks ?c1 = ''forbidden''" by (simp add: removal_code_def map_filter_simps)
  obtain r where r: "decide ?ctx [?c1] BaselinePolicy_select ?ks [] ''r'' 0 = Inr r"
    using baseline.decide_sound[of ?ctx PRE_ACT MANUAL "[?c1]" ?ks "[]" "''r''" 0] by auto
  from decide_records_removals[OF r] show ?thesis using r f code by auto
qed

end
