(* ===== verification/Response_Gate.thy ===== *)
theory Response_Gate
  imports Persona_Types "HOL-Library.Sublist"
begin

text \<open>
  The response gate (\<open>agents/response_gate.py\<close>) with its vocabulary (\<open>agents/response_policies.py\<close>):
  whether a persona answers a channel message. The payload is untrusted wire data of any JSON type, so
  the strict tests \<open>is True\<close> are \<^const>\<open>is_true\<close> and a mention is a string in a list of any values.
\<close>

section \<open>Vocabulary\<close>

definition POLICY_WHEN_MENTIONED :: string where "POLICY_WHEN_MENTIONED = ''when_mentioned''"
definition POLICY_ALWAYS :: string where "POLICY_ALWAYS = ''always''"
definition POLICY_NEVER :: string where "POLICY_NEVER = ''never''"
definition POLICY_PARTICIPANT :: string where "POLICY_PARTICIPANT = ''participant''"
definition POLICY_ADDRESSED :: string where "POLICY_ADDRESSED = ''addressed''"
definition POLICY_OBSERVER :: string where "POLICY_OBSERVER = ''observer''"
definition POLICY_CHAIR :: string where "POLICY_CHAIR = ''chair''"
definition POLICY_DEFENSE_IN_DEPTH :: string where "POLICY_DEFENSE_IN_DEPTH = ''defense_in_depth''"
definition POLICY_UNKNOWN :: string where "POLICY_UNKNOWN = ''unknown''"
definition MENTION_EVERYONE :: string where "MENTION_EVERYONE = ''@everyone''"
definition DM_CHANNEL_PREFIX :: string where "DM_CHANNEL_PREFIX = ''dm:''"

definition DISPOSITION_ALIASES :: "(string \<times> string) list" where
  "DISPOSITION_ALIASES =
     [(POLICY_PARTICIPANT, POLICY_ALWAYS), (POLICY_CHAIR, POLICY_ALWAYS),
      (POLICY_ADDRESSED, POLICY_WHEN_MENTIONED), (POLICY_OBSERVER, POLICY_NEVER)]"

definition FORCED_TURN_MARKERS :: "string list" where
  "FORCED_TURN_MARKERS = [''chair_escalation'', ''convene'', ''synthesis_turn'']"

record GateDecision =
  gd_respond :: bool
  gd_policy :: string
  gd_reason :: string

abbreviation gate_decision :: "bool \<Rightarrow> string \<Rightarrow> string \<Rightarrow> GateDecision" where
  "gate_decision r p w \<equiv> \<lparr>gd_respond = r, gd_policy = p, gd_reason = w\<rparr>"

definition is_open_floor_admit :: "GateDecision \<Rightarrow> bool" where
  "is_open_floor_admit d \<longleftrightarrow> gd_respond d \<and> gd_policy d = POLICY_ALWAYS \<and> gd_reason d = ''policy_always''"


section \<open>The gate\<close>

definition normalized_policy :: "pydict \<Rightarrow> string" where
  "normalized_policy pl =
     (let policy = (case py_get_or pl ''respond_policy'' (PyStr []) of PyStr s \<Rightarrow> s | _ \<Rightarrow> [])
      in case map_of DISPOSITION_ALIASES policy of None \<Rightarrow> policy | Some p \<Rightarrow> p)"

text \<open>\<open>payload.get("mentions") or []\<close>, as the list it is if it is one.\<close>

definition mentions_of :: "pydict \<Rightarrow> pyval list" where
  "mentions_of pl = (case py_get pl ''mentions'' of PyList xs \<Rightarrow> xs | _ \<Rightarrow> [])"

definition floor_basis :: "pydict \<Rightarrow> pyval list \<Rightarrow> pyval list" where
  "floor_basis pl mentions =
     (if is_true (py_get pl ''floor_mentions_resolved'')
      then case py_get pl ''floor_mentions'' of PyList fs \<Rightarrow> fs | _ \<Rightarrow> mentions
      else mentions)"

definition gate_always :: "pydict \<Rightarrow> string \<Rightarrow> GateDecision" where
  "gate_always pl agent =
     (let mentions = mentions_of pl in
      if mentions \<noteq> [] \<and> PyStr agent \<in> set mentions then gate_decision True POLICY_ALWAYS ''mentioned''
      else if mentions \<noteq> [] \<and> PyStr MENTION_EVERYONE \<in> set mentions
        then gate_decision True POLICY_ALWAYS ''broadcast''
      else if mentions \<noteq> [] \<and> floor_basis pl mentions \<noteq> []
        then gate_decision False POLICY_ALWAYS ''directed_elsewhere''
      else gate_decision True POLICY_ALWAYS ''policy_always'')"

definition gate_when_mentioned :: "AgentEvent \<Rightarrow> pydict \<Rightarrow> string \<Rightarrow> GateDecision" where
  "gate_when_mentioned ev pl agent =
     (if PyStr agent \<in> set (mentions_of pl)
        then gate_decision True POLICY_WHEN_MENTIONED ''mentioned''
      else if or_str (thread_id ev) [] \<noteq> [] \<and>
              py_get_or pl ''thread_parent_sender_id'' (PyStr []) = PyStr agent
        then gate_decision True POLICY_WHEN_MENTIONED ''thread_reply_to_self''
      else gate_decision False POLICY_WHEN_MENTIONED ''not_mentioned'')"

definition gate_dm :: "AgentEvent \<Rightarrow> pydict \<Rightarrow> string \<Rightarrow> GateDecision" where
  "gate_dm ev pl agent =
     (if sender_id ev = Some agent then gate_decision False POLICY_DEFENSE_IN_DEPTH ''dm_self_sender''
      else if is_true (py_get pl ''interaction_close_notification'')
        then gate_decision False POLICY_ALWAYS ''close_notification''
      else gate_decision True POLICY_ALWAYS ''dm'')"

definition evaluate_response_gate :: "AgentEvent \<Rightarrow> string \<Rightarrow> GateDecision" where
  "evaluate_response_gate ev agent =
     (if event_type ev \<noteq> CHANNEL_MESSAGE then gate_decision True [] ''not_channel_message'' else
      let ch = or_str (channel_id ev) [] in
      if ch = [] then gate_decision True [] ''no_channel_id'' else
      let pl = payload ev; policy = normalized_policy pl in
      if prefix DM_CHANNEL_PREFIX ch then gate_dm ev pl agent
      else if is_true (py_get pl ''interaction_close_notification'')
        then gate_decision False
               (if policy \<notin> {POLICY_ALWAYS, POLICY_WHEN_MENTIONED, POLICY_NEVER} then POLICY_UNKNOWN
                else policy) ''close_notification''
      else if sender_id ev = Some agent then gate_decision False POLICY_DEFENSE_IN_DEPTH ''self_sender''
      else if policy = POLICY_NEVER then gate_decision False POLICY_NEVER ''policy_never''
      else case find (\<lambda>m. is_true (py_get pl m) \<and> policy \<in> {POLICY_ALWAYS, POLICY_WHEN_MENTIONED})
                  FORCED_TURN_MARKERS of
             Some marker \<Rightarrow> gate_decision True policy marker
           | None \<Rightarrow>
               if policy = POLICY_ALWAYS then gate_always pl agent
               else if policy = POLICY_WHEN_MENTIONED then gate_when_mentioned ev pl agent
               else gate_decision False POLICY_UNKNOWN ''unknown_policy'')"


section \<open>Properties\<close>

lemmas policy_names = POLICY_WHEN_MENTIONED_def POLICY_ALWAYS_def POLICY_NEVER_def POLICY_UNKNOWN_def
  POLICY_DEFENSE_IN_DEPTH_def POLICY_PARTICIPANT_def POLICY_ADDRESSED_def POLICY_OBSERVER_def POLICY_CHAIR_def

lemma find_marker:
  "find P FORCED_TURN_MARKERS = Some m \<Longrightarrow> P m \<and> m \<in> set FORCED_TURN_MARKERS"
  by (auto simp: find_Some_iff in_set_conv_nth)

text \<open>The branches of the gate, in order.\<close>

lemma gate_cases:
  assumes "event_type ev \<noteq> CHANNEL_MESSAGE \<Longrightarrow> P (gate_decision True [] ''not_channel_message'')"
    and "or_str (channel_id ev) [] = [] \<Longrightarrow> P (gate_decision True [] ''no_channel_id'')"
    and "prefix DM_CHANNEL_PREFIX (or_str (channel_id ev) []) \<Longrightarrow> P (gate_dm ev (payload ev) agent)"
    and "is_true (py_get (payload ev) ''interaction_close_notification'') \<Longrightarrow>
      P (gate_decision False
        (if normalized_policy (payload ev) \<notin> {POLICY_ALWAYS, POLICY_WHEN_MENTIONED, POLICY_NEVER}
         then POLICY_UNKNOWN else normalized_policy (payload ev)) ''close_notification'')"
    and "sender_id ev = Some agent \<Longrightarrow> P (gate_decision False POLICY_DEFENSE_IN_DEPTH ''self_sender'')"
    and "normalized_policy (payload ev) = POLICY_NEVER \<Longrightarrow> P (gate_decision False POLICY_NEVER ''policy_never'')"
    and "\<And>m. \<not> is_true (py_get (payload ev) ''interaction_close_notification'') \<Longrightarrow> sender_id ev \<noteq> Some agent \<Longrightarrow>
      m \<in> set FORCED_TURN_MARKERS \<Longrightarrow> is_true (py_get (payload ev) m) \<Longrightarrow>
      normalized_policy (payload ev) \<in> {POLICY_ALWAYS, POLICY_WHEN_MENTIONED} \<Longrightarrow>
      P (gate_decision True (normalized_policy (payload ev)) m)"
    and "\<not> is_true (py_get (payload ev) ''interaction_close_notification'') \<Longrightarrow> sender_id ev \<noteq> Some agent \<Longrightarrow>
      normalized_policy (payload ev) = POLICY_ALWAYS \<Longrightarrow> P (gate_always (payload ev) agent)"
    and "\<not> is_true (py_get (payload ev) ''interaction_close_notification'') \<Longrightarrow> sender_id ev \<noteq> Some agent \<Longrightarrow>
      normalized_policy (payload ev) = POLICY_WHEN_MENTIONED \<Longrightarrow> P (gate_when_mentioned ev (payload ev) agent)"
    and "P (gate_decision False POLICY_UNKNOWN ''unknown_policy'')"
  shows "P (evaluate_response_gate ev agent)"
proof (cases "find (\<lambda>m. is_true (py_get (payload ev) m) \<and>
    normalized_policy (payload ev) \<in> {POLICY_ALWAYS, POLICY_WHEN_MENTIONED}) FORCED_TURN_MARKERS")
  case None
  show ?thesis unfolding evaluate_response_gate_def Let_def None using assms(1-6) assms(8-10) by simp
next
  case (Some m)
  then have "is_true (py_get (payload ev) m)" "m \<in> set FORCED_TURN_MARKERS"
      "normalized_policy (payload ev) \<in> {POLICY_ALWAYS, POLICY_WHEN_MENTIONED}"
    using find_marker[OF Some] by blast+
  then show ?thesis unfolding evaluate_response_gate_def Let_def Some using assms(1-7) by simp
qed

definition GATE_REASONS :: "string list" where
  "GATE_REASONS = [''not_channel_message'', ''no_channel_id'', ''dm_self_sender'', ''close_notification'',
       ''dm'', ''self_sender'', ''policy_never'', ''mentioned'', ''broadcast'', ''directed_elsewhere'',
       ''policy_always'', ''thread_reply_to_self'', ''not_mentioned'', ''unknown_policy'']"

text \<open>
  The metric labels are bounded. Whatever the wire carries, the decision's policy is one of the
  five labels or empty, empty only on the two pass-through branches, which respond; and its reason is
  one of a fixed list or a forced-turn marker.
\<close>

lemma gate_labels_bounded:
  "let d = evaluate_response_gate ev agent in
     (gd_policy d \<in> {POLICY_ALWAYS, POLICY_WHEN_MENTIONED, POLICY_NEVER, POLICY_DEFENSE_IN_DEPTH, POLICY_UNKNOWN} \<or>
      gd_policy d = [] \<and> gd_respond d) \<and>
     gd_reason d \<in> set GATE_REASONS \<union> set FORCED_TURN_MARKERS"
  unfolding Let_def
  by (rule gate_cases)
    (auto simp add: GATE_REASONS_def gate_dm_def gate_always_def gate_when_mentioned_def Let_def)

text \<open>
  What never starts a turn. On a channel message of a real channel, a close notification is
  refused in every room and under every policy (a self-sent one in a direct message under its own
  label); an own message is refused in every room; and outside direct messages a \<open>never\<close> member, or
  one with an unknown policy, is refused, whatever markers and mentions the payload carries.
\<close>

lemma gate_refuses:
  assumes "event_type ev = CHANNEL_MESSAGE" "channel_id ev = Some ch" "ch \<noteq> []"
    and "is_true (py_get (payload ev) ''interaction_close_notification'') \<or> sender_id ev = Some agent \<or>
      \<not> prefix DM_CHANNEL_PREFIX ch \<and> normalized_policy (payload ev) \<notin> {POLICY_ALWAYS, POLICY_WHEN_MENTIONED}"
  shows "\<not> gd_respond (evaluate_response_gate ev agent)"
proof (rule gate_cases[where ev = ev and agent = agent])
  assume "prefix DM_CHANNEL_PREFIX (or_str (channel_id ev) [])"
  then show "\<not> gd_respond (gate_dm ev (payload ev) agent)" using assms by (auto simp: gate_dm_def)
next
  fix m assume "\<not> is_true (py_get (payload ev) ''interaction_close_notification'')" "sender_id ev \<noteq> Some agent"
    "normalized_policy (payload ev) \<in> {POLICY_ALWAYS, POLICY_WHEN_MENTIONED}"
  then show "\<not> gd_respond (gate_decision True (normalized_policy (payload ev)) m)" using assms(4) by blast
qed (use assms in simp_all)

theorem gate_refuses_witness:
  "\<not> gd_respond (evaluate_response_gate
     \<lparr>event_type = CHANNEL_MESSAGE,
      payload = [(''respond_policy'', PyStr ''observer''), (''convene'', PyBool True),
                 (''mentions'', PyList [PyStr ''ada''])],
      channel_id = Some ''ops'', sender_id = Some ''bob'', message_id = None, thread_id = None,
      timestamp = 0, metadata = []\<rparr> ''ada'')"
proof -
  have "normalized_policy [(''respond_policy'', PyStr ''observer''), (''convene'', PyBool True),
      (''mentions'', PyList [PyStr ''ada''])] = POLICY_NEVER" by code_simp
  moreover have "POLICY_NEVER \<notin> {POLICY_ALWAYS, POLICY_WHEN_MENTIONED}" "\<not> prefix DM_CHANNEL_PREFIX ''ops''"
    by code_simp+
  ultimately show ?thesis by (intro gate_refuses[where ch = "''ops''"]) simp_all
qed

text \<open>The open-floor admit on each lane of the gate: only the \<open>always\<close> lane can give it.\<close>

lemma forced_none_iff:
  "find (\<lambda>m. is_true (py_get pl m) \<and> policy \<in> {POLICY_ALWAYS, POLICY_WHEN_MENTIONED}) FORCED_TURN_MARKERS = None \<longleftrightarrow>
   policy \<notin> {POLICY_ALWAYS, POLICY_WHEN_MENTIONED} \<or>
   list_all (\<lambda>m. \<not> is_true (py_get pl m)) FORCED_TURN_MARKERS"
  by (auto simp: find_None_iff list_all_iff FORCED_TURN_MARKERS_def)

lemma not_open_floor:
  "w \<noteq> ''policy_always'' \<Longrightarrow> \<not> is_open_floor_admit (gate_decision r p w)"
  by (simp add: is_open_floor_admit_def)

lemma open_floor_lanes:
  "\<not> is_open_floor_admit (gate_dm ev pl agent)"
  "\<not> is_open_floor_admit (gate_when_mentioned ev pl agent)"
  by (simp_all add: gate_dm_def gate_when_mentioned_def not_open_floor)

lemma open_floor_always:
  "is_open_floor_admit (gate_always pl agent) \<longleftrightarrow> mentions_of pl = [] \<or>
     PyStr agent \<notin> set (mentions_of pl) \<and> PyStr MENTION_EVERYONE \<notin> set (mentions_of pl) \<and>
     py_get pl ''floor_mentions_resolved'' = PyBool True \<and> py_get pl ''floor_mentions'' = PyList []"
proof -
  have "mentions \<noteq> [] \<Longrightarrow> floor_basis pl mentions = [] \<longleftrightarrow>
      py_get pl ''floor_mentions_resolved'' = PyBool True \<and> py_get pl ''floor_mentions'' = PyList []" for mentions
    by (auto simp: floor_basis_def is_true_def split: pyval.splits)
  from this[of "mentions_of pl"] show ?thesis
    by (auto simp: is_open_floor_admit_def gate_always_def Let_def)
qed

lemma open_floor_marker:
  assumes "find (\<lambda>m. is_true (py_get pl m) \<and> policy \<in> {POLICY_ALWAYS, POLICY_WHEN_MENTIONED}) FORCED_TURN_MARKERS = Some m'"
  shows "\<not> is_open_floor_admit (gate_decision True p m')"
proof (rule not_open_floor)
  have "m' \<in> set FORCED_TURN_MARKERS" using find_marker[OF assms] by (rule conjunct2)
  moreover have "''policy_always'' \<notin> set FORCED_TURN_MARKERS" by (simp add: FORCED_TURN_MARKERS_def)
  ultimately show "m' \<noteq> ''policy_always''" by metis
qed

text \<open>
  The open floor, exactly. The decision that the salience bid may refine is reached if and only
  if the event is a group-channel message from someone else, not a close notification, for an
  \<open>always\<close> member, with no forced-turn marker, whose mentions are empty, or name neither this agent
  nor everyone while the orchestrator declared that none of the mentioned can take the floor. So a bid
  never runs on a directed, forced or broadcast turn.
\<close>

lemma open_floor_iff:
  "is_open_floor_admit (evaluate_response_gate ev agent) \<longleftrightarrow>
     event_type ev = CHANNEL_MESSAGE \<and> or_str (channel_id ev) [] \<noteq> [] \<and>
     \<not> prefix DM_CHANNEL_PREFIX (or_str (channel_id ev) []) \<and> sender_id ev \<noteq> Some agent \<and>
     \<not> is_true (py_get (payload ev) ''interaction_close_notification'') \<and>
     normalized_policy (payload ev) = POLICY_ALWAYS \<and>
     list_all (\<lambda>m. \<not> is_true (py_get (payload ev) m)) FORCED_TURN_MARKERS \<and>
     (mentions_of (payload ev) = [] \<or>
      PyStr agent \<notin> set (mentions_of (payload ev)) \<and> PyStr MENTION_EVERYONE \<notin> set (mentions_of (payload ev)) \<and>
      py_get (payload ev) ''floor_mentions_resolved'' = PyBool True \<and> py_get (payload ev) ''floor_mentions'' = PyList [])"
proof -
  let ?f = "find (\<lambda>m. is_true (py_get (payload ev) m) \<and>
     normalized_policy (payload ev) \<in> {POLICY_ALWAYS, POLICY_WHEN_MENTIONED}) FORCED_TURN_MARKERS"
  have distinct: "POLICY_ALWAYS \<noteq> POLICY_NEVER" "POLICY_WHEN_MENTIONED \<noteq> POLICY_ALWAYS" by (simp_all add: policy_names)
  have "is_open_floor_admit (evaluate_response_gate ev agent) \<longleftrightarrow>
     event_type ev = CHANNEL_MESSAGE \<and> or_str (channel_id ev) [] \<noteq> [] \<and>
     \<not> prefix DM_CHANNEL_PREFIX (or_str (channel_id ev) []) \<and> sender_id ev \<noteq> Some agent \<and>
     \<not> is_true (py_get (payload ev) ''interaction_close_notification'') \<and> ?f = None \<and>
     normalized_policy (payload ev) = POLICY_ALWAYS \<and> is_open_floor_admit (gate_always (payload ev) agent)"
  proof (cases ?f)
    case None
    show ?thesis unfolding evaluate_response_gate_def Let_def None using distinct
      by (simp add: not_open_floor open_floor_lanes if_distrib[of is_open_floor_admit] cong: if_cong)
  next
    case (Some m)
    show ?thesis unfolding evaluate_response_gate_def Let_def Some
      by (simp add: not_open_floor open_floor_lanes open_floor_marker[OF Some]
          if_distrib[of is_open_floor_admit] cong: if_cong)
  qed
  then show ?thesis unfolding forced_none_iff open_floor_always using distinct by auto
qed

text \<open>The decision depends on the payload through five readings only.\<close>

lemma gate_cong:
  assumes "\<And>x. is_true (py_get p x) = is_true (py_get q x)"
    and "normalized_policy p = normalized_policy q" "mentions_of p = mentions_of q"
    and "\<And>ms. floor_basis p ms = floor_basis q ms"
    and "py_get_or p ''thread_parent_sender_id'' (PyStr []) = py_get_or q ''thread_parent_sender_id'' (PyStr [])"
  shows "evaluate_response_gate (ev\<lparr>payload := p\<rparr>) agent = evaluate_response_gate (ev\<lparr>payload := q\<rparr>) agent"
  unfolding evaluate_response_gate_def gate_dm_def gate_always_def gate_when_mentioned_def Let_def
  by (simp add: assms cong: if_cong option.case_cong)

text \<open>
  A spoofed flag changes nothing. Setting any of the control keys the gate reads strictly to a
  value that is not the boolean \<open>True\<close>, however truthy, gives the decision an absent key gives.
\<close>

lemma spoofed_flags_inert:
  assumes "k \<in> set (''interaction_close_notification'' # ''floor_mentions_resolved'' # FORCED_TURN_MARKERS)"
    and "v \<noteq> PyBool True"
  shows "evaluate_response_gate (ev\<lparr>payload := AList.update k v (payload ev)\<rparr>) agent =
     evaluate_response_gate (ev\<lparr>payload := AList.update k PyNone (payload ev)\<rparr>) agent"
proof -
  let ?p = "AList.update k v (payload ev)" and ?q = "AList.update k PyNone (payload ev)"
  have t: "is_true (py_get ?p x) = is_true (py_get ?q x)" for x
    using assms(2) by (auto simp: is_true_def)
  have g: "map_of ?p x = map_of ?q x"
    if "x \<in> {''respond_policy'', ''mentions'', ''floor_mentions'', ''thread_parent_sender_id''}" for x
  proof -
    have "x \<noteq> k" using that assms(1) by (auto simp: FORCED_TURN_MARKERS_def)
    then show ?thesis by (simp add: update_conv')
  qed
  show ?thesis
  proof (rule gate_cong)
    show "normalized_policy ?p = normalized_policy ?q"
      unfolding normalized_policy_def py_get_or_def g[of "''respond_policy''", simplified] ..
    show "mentions_of ?p = mentions_of ?q"
      unfolding mentions_of_def py_get_def g[of "''mentions''", simplified] ..
    show "floor_basis ?p ms = floor_basis ?q ms" for ms
      unfolding floor_basis_def t unfolding py_get_def g[of "''floor_mentions''", simplified] ..
    show "py_get_or ?p ''thread_parent_sender_id'' (PyStr []) = py_get_or ?q ''thread_parent_sender_id'' (PyStr [])"
      unfolding py_get_or_def g[of "''thread_parent_sender_id''", simplified] ..
  qed (rule t)
qed

theorem spoofed_flags_inert_witness:
  "evaluate_response_gate
     \<lparr>event_type = CHANNEL_MESSAGE,
      payload = [(''respond_policy'', PyStr ''addressed''), (''convene'', PyInt 1)],
      channel_id = Some ''ops'', sender_id = Some ''bob'', message_id = None, thread_id = None,
      timestamp = 0, metadata = []\<rparr> ''ada'' = gate_decision False POLICY_WHEN_MENTIONED ''not_mentioned''"
proof -
  let ?ev = "\<lparr>event_type = CHANNEL_MESSAGE, payload = [(''respond_policy'', PyStr ''addressed'')],
      channel_id = Some ''ops'', sender_id = Some ''bob'', message_id = None, thread_id = None,
      timestamp = 0, metadata = []\<rparr>"
  have "evaluate_response_gate (?ev\<lparr>payload := AList.update ''convene'' (PyInt 1) (payload ?ev)\<rparr>) ''ada'' =
      evaluate_response_gate (?ev\<lparr>payload := AList.update ''convene'' PyNone (payload ?ev)\<rparr>) ''ada''"
    by (rule spoofed_flags_inert) (simp_all add: FORCED_TURN_MARKERS_def)
  moreover have "evaluate_response_gate (?ev\<lparr>payload := AList.update ''convene'' PyNone (payload ?ev)\<rparr>) ''ada'' =
      gate_decision False POLICY_WHEN_MENTIONED ''not_mentioned''" by code_simp
  ultimately show ?thesis by simp
qed


text \<open>
  Dispositions are aliases. A disposition name that reaches the gate un-normalised gives, on
  every event, exactly the decision of the legacy policy it stands for.
\<close>

lemma disposition_alias_equivalent:
  assumes "map_of DISPOSITION_ALIASES d = Some legacy"
  shows "evaluate_response_gate (ev\<lparr>payload := AList.update ''respond_policy'' (PyStr d) (payload ev)\<rparr>) agent =
     evaluate_response_gate (ev\<lparr>payload := AList.update ''respond_policy'' (PyStr legacy) (payload ev)\<rparr>) agent"
proof (rule gate_cong)
  have "map_of DISPOSITION_ALIASES legacy = None"
    using assms by (auto simp: DISPOSITION_ALIASES_def policy_names split: if_splits)
  then show "normalized_policy (AList.update ''respond_policy'' (PyStr d) (payload ev)) =
      normalized_policy (AList.update ''respond_policy'' (PyStr legacy) (payload ev))"
    using assms by (simp add: normalized_policy_def py_get_or_def update_conv')
qed (simp_all add: mentions_of_def floor_basis_def py_get_or_def update_conv' if_distrib[of is_true])

lemma disposition_alias_equivalent_witness:
  "gd_reason (evaluate_response_gate
     \<lparr>event_type = CHANNEL_MESSAGE, payload = [(''respond_policy'', PyStr ''chair'')],
      channel_id = Some ''ops'', sender_id = Some ''bob'', message_id = None, thread_id = None,
      timestamp = 0, metadata = []\<rparr> ''ada'') = ''policy_always''"
proof -
  let ?ev = "\<lparr>event_type = CHANNEL_MESSAGE, payload = [],
      channel_id = Some ''ops'', sender_id = Some ''bob'', message_id = None, thread_id = None,
      timestamp = 0, metadata = []\<rparr>"
  have m: "map_of DISPOSITION_ALIASES ''chair'' = Some ''always''" by code_simp
  have "gd_reason (evaluate_response_gate (?ev\<lparr>payload := AList.update ''respond_policy'' (PyStr ''always'') (payload ?ev)\<rparr>) ''ada'')
      = ''policy_always''" by code_simp
  then show ?thesis using disposition_alias_equivalent[OF m, of ?ev "''ada''"] by simp
qed

end
