(* ===== verification/Interaction_Types.thy ===== *)
theory Interaction_Types
  imports Scope_Ids
begin

text \<open>
  The interaction record (\<open>agents/memory/interaction_types.py\<close>), its key
  (\<open>agents/memory/interaction_key.py\<close>) and the boundary detectors that decide when it closes
  (\<open>agents/memory/boundary_detectors.py\<close>).
\<close>

section \<open>Records\<close>

record Turn =
  turn_at :: rat
  turn_payload :: pydict

record Interaction =
  i_interaction_id :: string
  i_scope :: string
  i_started_at :: rat
  i_turns :: "Turn list"
  i_closed_at :: "rat option"
  i_close_reason :: string
  i_structural_close_reason :: string
  i_wire_interaction_id :: string
  i_predecessor_wire_id :: string
  i_session_id :: string
  i_principal_id :: string
  i_speaker_id :: string
  i_epoch_id :: string
  i_replayed :: bool
  i_replay_attributed :: bool
  i_replay_window_complete :: bool
  i_classification :: "string option"
  i_source_channel_id :: "string option"
  i_meter_close_summary :: bool

definition turn_count :: "Interaction \<Rightarrow> nat" where "turn_count i = length (i_turns i)"

definition last_turn_at :: "Interaction \<Rightarrow> rat option" where
  "last_turn_at i = (if i_turns i = [] then None else Some (turn_at (last (i_turns i))))"

definition is_open :: "Interaction \<Rightarrow> bool" where "is_open i \<longleftrightarrow> i_closed_at i = None"

type_synonym RecordKey = "string \<times> string \<times> string"

definition record_key :: "Interaction \<Rightarrow> RecordKey" where
  "record_key i = (i_principal_id i, i_speaker_id i, i_scope i)"

definition resolve_record_key :: "ambient \<Rightarrow> string \<Rightarrow> string option \<Rightarrow> string option \<Rightarrow> RecordKey" where
  "resolve_record_key amb scope pid sid =
     (let principal = (case pid of
                         Some p \<Rightarrow> normalize_principal_id (Some p)
                       | None \<Rightarrow> resolve_principal_id_silent amb)
      in (principal, py_strip (or_str sid []), scope))"


section \<open>Boundary detectors\<close>

definition REASON_STRUCTURAL :: string where "REASON_STRUCTURAL = ''structural''"
definition REASON_IDLE_GAP :: string where "REASON_IDLE_GAP = ''idle_gap''"
definition REASON_TOPIC_SHIFT :: string where "REASON_TOPIC_SHIFT = ''topic_shift''"
definition REASON_MAX_TURNS :: string where "REASON_MAX_TURNS = ''max_turns''"
definition REASON_SHUTDOWN :: string where "REASON_SHUTDOWN = ''shutdown''"
definition REASON_COST :: string where "REASON_COST = ''cost''"
definition REASON_CATCHUP_COMPLETE :: string where "REASON_CATCHUP_COMPLETE = ''catchup_complete''"

definition DEFAULT_IDLE_TIMEOUT_SEC :: rat where "DEFAULT_IDLE_TIMEOUT_SEC = 600"
definition DEFAULT_MAX_INTERACTION_TURNS :: int where "DEFAULT_MAX_INTERACTION_TURNS = 200"

definition StructuralCloseDetector_evaluate :: "Interaction \<Rightarrow> rat \<Rightarrow> bool \<times> string" where
  "StructuralCloseDetector_evaluate i now =
     (let reason = i_structural_close_reason i in if reason \<noteq> [] then (True, reason) else (False, []))"

definition IdleGapDetector_evaluate :: "rat \<Rightarrow> Interaction \<Rightarrow> rat \<Rightarrow> bool \<times> string" where
  "IdleGapDetector_evaluate idle_timeout_sec i now =
     (case last_turn_at i of
        None \<Rightarrow> (False, [])
      | Some t \<Rightarrow> if now - t \<ge> idle_timeout_sec then (True, REASON_IDLE_GAP) else (False, []))"

definition TopicShiftDetector_evaluate :: "Interaction \<Rightarrow> rat \<Rightarrow> bool \<times> string" where
  "TopicShiftDetector_evaluate i now = (False, [])"

definition MaxTurnsDetector_evaluate :: "int \<Rightarrow> Interaction \<Rightarrow> rat \<Rightarrow> bool \<times> string" where
  "MaxTurnsDetector_evaluate max_turns i now =
     (if int (turn_count i) \<ge> max_turns then (True, REASON_MAX_TURNS) else (False, []))"

datatype Detector =
    StructuralCloseDetector | IdleGapDetector rat | MaxTurnsDetector int | TopicShiftDetector

fun evaluate :: "Detector \<Rightarrow> Interaction \<Rightarrow> rat \<Rightarrow> bool \<times> string" where
  "evaluate StructuralCloseDetector i now = StructuralCloseDetector_evaluate i now"
| "evaluate (IdleGapDetector t) i now = IdleGapDetector_evaluate t i now"
| "evaluate (MaxTurnsDetector m) i now = MaxTurnsDetector_evaluate m i now"
| "evaluate TopicShiftDetector i now = TopicShiftDetector_evaluate i now"

definition default_detectors :: "rat \<Rightarrow> int \<Rightarrow> Detector list" where
  "default_detectors idle_timeout_sec max_turns =
     [StructuralCloseDetector, IdleGapDetector idle_timeout_sec, MaxTurnsDetector max_turns, TopicShiftDetector]"

text \<open>
  The protocol the detectors implement: the answer is a tagged union, in which the empty reason goes
  with \<open>False\<close> and only with it. A chain of detectors is read from the left.
\<close>

fun first_firing :: "(Interaction \<Rightarrow> rat \<Rightarrow> bool \<times> string) list \<Rightarrow> Interaction \<Rightarrow> rat \<Rightarrow> string option" where
  "first_firing [] i now = None"
| "first_firing (ev # evs) i now = (case ev i now of (True, r) \<Rightarrow> Some r | (False, _) \<Rightarrow> first_firing evs i now)"

locale BoundaryDetector =
  fixes ev :: "Interaction \<Rightarrow> rat \<Rightarrow> bool \<times> string"
  assumes tagged: "fst (ev i now) \<longleftrightarrow> snd (ev i now) \<noteq> []"
begin

lemma fires_first: "fst (ev i now) \<Longrightarrow> first_firing (ev # evs) i now = Some (snd (ev i now))"
  by (cases "ev i now") auto

lemma silent_passes: "\<not> fst (ev i now) \<Longrightarrow> first_firing (ev # evs) i now = first_firing evs i now"
  by (cases "ev i now") auto

lemma reason_when_first: "first_firing [ev] i now \<noteq> Some []"
  using tagged[of i now] by (cases "ev i now") (auto split: bool.splits)

end

lemmas reason_names = REASON_STRUCTURAL_def REASON_IDLE_GAP_def REASON_TOPIC_SHIFT_def REASON_MAX_TURNS_def
  REASON_SHUTDOWN_def REASON_COST_def REASON_CATCHUP_COMPLETE_def

interpretation structural_detector: BoundaryDetector StructuralCloseDetector_evaluate
  by unfold_locales (simp add: StructuralCloseDetector_evaluate_def Let_def)

interpretation idle_detector: BoundaryDetector "IdleGapDetector_evaluate t" for t
  by unfold_locales (simp add: IdleGapDetector_evaluate_def reason_names split: option.splits)

interpretation topic_detector: BoundaryDetector TopicShiftDetector_evaluate
  by unfold_locales (simp add: TopicShiftDetector_evaluate_def)

interpretation max_turns_detector: BoundaryDetector "MaxTurnsDetector_evaluate m" for m
  by unfold_locales (simp add: MaxTurnsDetector_evaluate_def reason_names)

lemma evaluate_tagged: "fst (evaluate d i now) \<longleftrightarrow> snd (evaluate d i now) \<noteq> []"
  by (cases d) (simp_all add: structural_detector.tagged idle_detector.tagged max_turns_detector.tagged
      topic_detector.tagged)

text \<open>
  The default chain's priorities. A structural marker closes whatever the clock and the turns
  say; otherwise an interaction with a turn closes as idle exactly when its last turn is at least
  the timeout old; otherwise it closes at the turn cap; and without any of the three it stays open.
\<close>

lemma default_chain_priority:
  "first_firing (map evaluate (default_detectors timeout cap)) i now =
     (if i_structural_close_reason i \<noteq> [] then Some (i_structural_close_reason i)
      else if i_turns i \<noteq> [] \<and> now - turn_at (last (i_turns i)) \<ge> timeout then Some REASON_IDLE_GAP
      else if int (length (i_turns i)) \<ge> cap then Some REASON_MAX_TURNS
      else None)"
  by (simp add: default_detectors_def StructuralCloseDetector_evaluate_def IdleGapDetector_evaluate_def
      MaxTurnsDetector_evaluate_def TopicShiftDetector_evaluate_def last_turn_at_def turn_count_def Let_def)


section \<open>The key\<close>

text \<open>An ambient whose override was bound by a scope, so it is unset, or canonical.\<close>

definition ambient_ok :: "ambient \<Rightarrow> bool" where
  "ambient_ok a \<longleftrightarrow> (case active_principal a of None \<Rightarrow> True | Some s \<Rightarrow> canonical s)"

lemma principal_scope_ambient_ok: "ambient_ok (a\<lparr>active_principal := Some (normalize_principal_id pid)\<rparr>)"
  by (simp add: ambient_ok_def principal.norm_canonical)

lemma normalize_canonical: "canonical s \<Longrightarrow> normalize_principal_id (Some s) = s"
  by (auto simp: canonical_def normalize_principal_id_def)

lemma ambient_principal_canonical: "ambient_ok a \<Longrightarrow> canonical (resolve_principal_id_silent a)"
  by (cases "active_principal a"; cases "env_stripped (env_principal a) = []")
    (auto simp: ambient_ok_def resolve_principal_id_silent_def current_principal_id_def canonical_def
      env_stripped_def DEFAULT_PRINCIPAL_ID_def or_str_def, (code_simp)?)

text \<open>
  Resolving a record key twice gives the same key. Under an ambient whose override a scope bound,
  handing the halves of a resolved key back to the resolver returns that key, under any other ambient
  as well, so the key a turn is looked up under and the key its record is stored under agree.
\<close>

lemma resolve_record_key_idempotent:
  assumes "ambient_ok amb" "resolve_record_key amb scope pid sid = (p, s, sc)"
  shows "resolve_record_key amb' sc (Some p) (Some s) = (p, s, sc)"
proof -
  have "canonical p"
    using assms ambient_principal_canonical[OF assms(1)] principal.norm_canonical
    by (auto simp: resolve_record_key_def Let_def split: option.splits)
  moreover have "py_strip s = s" using assms(2) by (auto simp: resolve_record_key_def Let_def)
  ultimately show ?thesis
    using normalize_canonical by (cases "s = []") (auto simp: resolve_record_key_def Let_def)
qed


theorem resolve_record_key_idempotent_witness:
  "resolve_record_key \<lparr>active_principal = Some ''alice'', active_session = None, active_epoch = None,
      env_principal = None, env_session = None, env_epoch = None\<rparr> ''room'' (Some ''local'') (Some ''bob'') =
     (''local'', ''bob'', ''room'')"
proof -
  let ?a = "\<lparr>active_principal = None, active_session = None, active_epoch = None,
      env_principal = Some '' '', env_session = None, env_epoch = None\<rparr>"
  have "resolve_record_key ?a ''room'' None (Some '' bob '') = (''local'', ''bob'', ''room'')" by code_simp
  moreover have "ambient_ok ?a" by (simp add: ambient_ok_def)
  ultimately show ?thesis by (intro resolve_record_key_idempotent)
qed

end
