(* ===== verification/Interaction_Tracker.thy ===== *)
theory Interaction_Tracker
  imports Interaction_Types "HOL-Library.Sublist"
begin

text \<open>
  The interaction tracker (\<open>agents/memory/interaction_tracker.py\<close>) with its replay bookkeeping
  (\<open>agents/memory/_replay_bookkeeping.py\<close>) and metric emission
  (\<open>agents/memory/interaction_metrics.py\<close>). Records are mutable objects that callers hold and the
  close guard compares by identity, so the tracker is a heap of records and a map from keys to
  addresses. The clock reading, the fresh id and the ambient scope are arguments; the counters a call
  increments are appended to a list.
\<close>

section \<open>State\<close>

type_synonym addr = nat

record InteractionTracker =
  t_open :: "(RecordKey \<times> addr) list"
  t_heap :: "addr \<rightharpoonup> Interaction"
  t_next :: addr
  t_detectors :: "Detector list"
  t_max_turns :: "int option"
  t_compromised_records :: "(string \<times> string) set"
  t_compromised_channels :: "string set"
  t_live_message_ids :: "string set"
  t_replay_pass_open :: bool
  t_metrics :: "string list"

definition cached_max_turns :: "Detector list \<Rightarrow> int option" where
  "cached_max_turns ds =
     (case List.map_filter (\<lambda>d. case d of MaxTurnsDetector m \<Rightarrow> Some m | _ \<Rightarrow> None) ds of
        [] \<Rightarrow> None | m # _ \<Rightarrow> Some m)"

definition mk_InteractionTracker :: "Detector list option \<Rightarrow> rat \<Rightarrow> InteractionTracker" where
  "mk_InteractionTracker detectors idle_timeout_sec =
     (let ds = (case detectors of
                  Some ds \<Rightarrow> ds
                | None \<Rightarrow> default_detectors idle_timeout_sec DEFAULT_MAX_INTERACTION_TURNS)
      in \<lparr>t_open = [], t_heap = Map.empty, t_next = 0, t_detectors = ds,
          t_max_turns = cached_max_turns ds, t_compromised_records = {}, t_compromised_channels = {},
          t_live_message_ids = {}, t_replay_pass_open = True, t_metrics = []\<rparr>)"


section \<open>Replay bookkeeping\<close>

definition note_replayed_close :: "string \<Rightarrow> string \<Rightarrow> InteractionTracker \<Rightarrow> InteractionTracker" where
  "note_replayed_close ch sp tr =
     tr\<lparr>t_compromised_records := insert (ch, sp) (t_compromised_records tr)\<rparr>"

definition note_replay_gap :: "string \<Rightarrow> string \<Rightarrow> InteractionTracker \<Rightarrow> InteractionTracker" where
  "note_replay_gap ch sp tr =
     (if sp \<noteq> [] then tr\<lparr>t_compromised_records := insert (ch, sp) (t_compromised_records tr)\<rparr>
      else tr\<lparr>t_compromised_channels := insert ch (t_compromised_channels tr)\<rparr>)"

definition replay_record_compromised :: "InteractionTracker \<Rightarrow> string \<Rightarrow> string \<Rightarrow> bool" where
  "replay_record_compromised tr ch sp \<longleftrightarrow>
     ch \<in> t_compromised_channels tr \<or> (ch, sp) \<in> t_compromised_records tr"

definition observe_wire_message :: "string \<Rightarrow> bool \<Rightarrow> InteractionTracker \<Rightarrow> bool \<times> InteractionTracker" where
  "observe_wire_message mid replayed tr =
     (if mid = [] then (False, tr)
      else if \<not> replayed
        then (False, if t_replay_pass_open tr
                     then tr\<lparr>t_live_message_ids := insert mid (t_live_message_ids tr)\<rparr> else tr)
      else (mid \<in> t_live_message_ids tr, tr))"

definition clear_replay_pass_state :: "InteractionTracker \<Rightarrow> InteractionTracker" where
  "clear_replay_pass_state tr =
     tr\<lparr>t_compromised_records := {}, t_compromised_channels := {}, t_live_message_ids := {},
        t_replay_pass_open := False\<rparr>"


section \<open>Metrics\<close>

definition REASON_COUNTER_ATTR :: "(string \<times> string) list" where
  "REASON_COUNTER_ATTR =
     [(REASON_STRUCTURAL, ''interactions_closed_by_structural''),
      (REASON_IDLE_GAP, ''interactions_closed_by_idle_gap''),
      (REASON_MAX_TURNS, ''interactions_closed_by_max_turns''),
      (REASON_TOPIC_SHIFT, ''interactions_closed_by_topic_shift''),
      (REASON_SHUTDOWN, ''interactions_closed_by_shutdown''),
      (REASON_COST, ''interactions_closed_by_cost''),
      (REASON_CATCHUP_COMPLETE, ''interactions_closed_by_catchup_complete'')]"

definition emit_opened :: "InteractionTracker \<Rightarrow> InteractionTracker" where
  "emit_opened tr = tr\<lparr>t_metrics := t_metrics tr @ [''interactions_opened'']\<rparr>"

definition emit_closed :: "string \<Rightarrow> InteractionTracker \<Rightarrow> InteractionTracker" where
  "emit_closed reason tr =
     tr\<lparr>t_metrics := t_metrics tr @ [''interactions_closed''] @
        (case map_of REASON_COUNTER_ATTR reason of None \<Rightarrow> [] | Some attr \<Rightarrow> [attr])\<rparr>"


section \<open>Lifecycle\<close>

text \<open>The open records in insertion order, and one record changed in place.\<close>

definition open_records :: "InteractionTracker \<Rightarrow> addr list" where
  "open_records tr = map snd (t_open tr)"

definition set_record :: "addr \<Rightarrow> Interaction \<Rightarrow> InteractionTracker \<Rightarrow> InteractionTracker" where
  "set_record a i tr = tr\<lparr>t_heap := (t_heap tr)(a \<mapsto> i)\<rparr>"

definition the_record :: "InteractionTracker \<Rightarrow> addr \<Rightarrow> Interaction" where
  "the_record tr a = the (t_heap tr a)"

definition records_for_scope :: "InteractionTracker \<Rightarrow> string \<Rightarrow> addr list" where
  "records_for_scope tr scope = filter (\<lambda>a. i_scope (the_record tr a) = scope) (open_records tr)"

definition get_record ::
  "ambient \<Rightarrow> InteractionTracker \<Rightarrow> string \<Rightarrow> string option \<Rightarrow> string option \<Rightarrow> addr option" where
  "get_record amb tr scope pid sid = map_of (t_open tr) (resolve_record_key amb scope pid sid)"

text \<open>The keyword arguments of \<open>start\<close> and \<open>add_turn\<close> that are frozen when a record opens.\<close>

record open_args =
  oa_session_id :: "string option"
  oa_classification :: "string option"
  oa_source_channel_id :: "string option"
  oa_replayed :: bool
  oa_replay_attributed :: bool

definition read_now :: "rat option \<Rightarrow> rat \<Rightarrow> rat" where
  "read_now now clock = (case now of Some t \<Rightarrow> t | None \<Rightarrow> clock)"

definition open_new ::
  "ambient \<Rightarrow> rat \<Rightarrow> string \<Rightarrow> string \<Rightarrow> open_args \<Rightarrow> RecordKey \<Rightarrow> InteractionTracker \<Rightarrow>
   addr \<times> InteractionTracker" where
  "open_new amb ts uid scope args key tr =
     (let i = \<lparr>i_interaction_id = uid, i_scope = scope, i_started_at = ts, i_turns = [],
               i_closed_at = None, i_close_reason = [], i_structural_close_reason = [],
               i_wire_interaction_id = [], i_predecessor_wire_id = [],
               i_session_id = or_str (oa_session_id args) LEGACY_SESSION_ID,
               i_principal_id = fst key, i_speaker_id = fst (snd key),
               i_epoch_id = resolve_epoch_id_silent amb, i_replayed = oa_replayed args,
               i_replay_attributed = oa_replay_attributed args, i_replay_window_complete = False,
               i_classification = oa_classification args,
               i_source_channel_id = oa_source_channel_id args, i_meter_close_summary = False\<rparr>;
          a = t_next tr
      in (a, emit_opened (tr\<lparr>t_open := AList.update key a (t_open tr), t_heap := (t_heap tr)(a \<mapsto> i),
                             t_next := a + 1\<rparr>)))"

definition start ::
  "ambient \<Rightarrow> rat \<Rightarrow> string \<Rightarrow> string \<Rightarrow> rat option \<Rightarrow> open_args \<Rightarrow> string option \<Rightarrow> string option \<Rightarrow>
   InteractionTracker \<Rightarrow> addr \<times> InteractionTracker" where
  "start amb clock uid scope now args pid sid tr =
     (let key = resolve_record_key amb scope pid sid in
      case map_of (t_open tr) key of
        Some a \<Rightarrow>
          if is_open (the_record tr a) then (a, tr)
          else open_new amb (read_now now clock) uid scope args key tr
      | None \<Rightarrow> open_new amb (read_now now clock) uid scope args key tr)"

definition close_record ::
  "rat \<Rightarrow> addr \<Rightarrow> string \<Rightarrow> rat option \<Rightarrow> bool option \<Rightarrow> InteractionTracker \<Rightarrow>
   addr option \<times> InteractionTracker" where
  "close_record clock a reason now window_complete tr =
     (let i = the_record tr a; key = record_key i in
      if map_of (t_open tr) key \<noteq> Some a then (None, tr)
      else let ts = read_now now clock;
               i1 = i\<lparr>i_closed_at := Some ts, i_close_reason := reason\<rparr>;
               i2 = (case window_complete of None \<Rightarrow> i1 | Some b \<Rightarrow> i1\<lparr>i_replay_window_complete := b\<rparr>);
               tr1 = set_record a i2 (tr\<lparr>t_open := AList.delete key (t_open tr)\<rparr>);
               tr2 = (if i_replayed i2 \<and> \<not> i_replay_window_complete i2
                      then note_replayed_close (or_str (i_source_channel_id i2) []) (i_speaker_id i2) tr1
                      else tr1)
           in (Some a, emit_closed reason tr2))"

definition push_turn :: "addr \<Rightarrow> rat \<Rightarrow> pydict \<Rightarrow> InteractionTracker \<Rightarrow> InteractionTracker" where
  "push_turn a ts pl tr =
     (let i = the_record tr a
      in set_record a (i\<lparr>i_turns := i_turns i @ [\<lparr>turn_at = ts, turn_payload = pl\<rparr>]\<rparr>) tr)"

definition add_turn ::
  "ambient \<Rightarrow> rat \<Rightarrow> string \<Rightarrow> string \<Rightarrow> pydict option \<Rightarrow> rat option \<Rightarrow> open_args \<Rightarrow> string option \<Rightarrow>
   string option \<Rightarrow> InteractionTracker \<Rightarrow> addr \<times> InteractionTracker" where
  "add_turn amb clock uid scope pl now args pid sid tr =
     (let ts = read_now now clock;
          key = resolve_record_key amb scope pid sid;
          opening = start amb clock uid scope (Some ts) args (Some (fst key)) (Some (fst (snd key))) tr;
          (a, tr1) = (case map_of (t_open tr) key of
                        Some a \<Rightarrow> if is_open (the_record tr a) then (a, tr) else opening
                      | None \<Rightarrow> opening);
          tr2 = push_turn a ts (case pl of None \<Rightarrow> [] | Some d \<Rightarrow> d) tr1
      in if (case t_max_turns tr2 of None \<Rightarrow> False | Some m \<Rightarrow> int (turn_count (the_record tr2 a)) \<ge> m)
         then (case close_record clock a REASON_MAX_TURNS (Some ts) None tr2 of
                 (Some fin, tr3) \<Rightarrow> (fin, tr3)
               | (None, tr3) \<Rightarrow> (a, tr3))
         else (a, tr2))"

definition append_turn ::
  "rat \<Rightarrow> addr \<Rightarrow> pydict option \<Rightarrow> rat option \<Rightarrow> InteractionTracker \<Rightarrow> InteractionTracker" where
  "append_turn clock a pl now tr =
     (if \<not> is_open (the_record tr a) then tr
      else push_turn a (read_now now clock) (case pl of None \<Rightarrow> [] | Some d \<Rightarrow> d) tr)"

definition admitted_records ::
  "InteractionTracker \<Rightarrow> string option \<Rightarrow> (Interaction \<Rightarrow> bool) option \<Rightarrow> addr list" where
  "admitted_records tr scope admit =
     filter (\<lambda>a. let i = the_record tr a in
               (case scope of None \<Rightarrow> True | Some s \<Rightarrow> i_scope i = s) \<and> \<not> i_replayed i \<and>
               (case admit of None \<Rightarrow> True | Some f \<Rightarrow> f i)) (open_records tr)"

fun close_all ::
  "rat \<Rightarrow> string \<Rightarrow> rat \<Rightarrow> addr list \<Rightarrow> InteractionTracker \<Rightarrow> addr list \<times> InteractionTracker" where
  "close_all clock reason ts [] tr = ([], tr)"
| "close_all clock reason ts (a # as) tr =
     (let (finished, tr1) = close_record clock a reason (Some ts) None tr;
          (rest, tr2) = close_all clock reason ts as tr1
      in (case finished of None \<Rightarrow> rest | Some b \<Rightarrow> b # rest, tr2))"

definition close_scope ::
  "rat \<Rightarrow> string option \<Rightarrow> string \<Rightarrow> rat option \<Rightarrow> (Interaction \<Rightarrow> bool) option \<Rightarrow> InteractionTracker \<Rightarrow>
   addr list \<times> InteractionTracker" where
  "close_scope clock scope reason now admit tr =
     close_all clock reason (read_now now clock) (admitted_records tr scope admit) tr"

fun idle_loop ::
  "rat \<Rightarrow> rat \<Rightarrow> addr list \<Rightarrow> InteractionTracker \<Rightarrow> addr list \<times> InteractionTracker" where
  "idle_loop clock ts [] tr = ([], tr)"
| "idle_loop clock ts (a # as) tr =
     (case first_firing (map evaluate (t_detectors tr)) (the_record tr a) ts of
        None \<Rightarrow> idle_loop clock ts as tr
      | Some reason \<Rightarrow>
          (let (finished, tr1) = close_record clock a reason (Some ts) None tr;
               (rest, tr2) = idle_loop clock ts as tr1
           in (case finished of None \<Rightarrow> rest | Some b \<Rightarrow> b # rest, tr2)))"

definition idle_check ::
  "rat \<Rightarrow> rat option \<Rightarrow> addr list option \<Rightarrow> InteractionTracker \<Rightarrow> addr list \<times> InteractionTracker" where
  "idle_check clock now records tr =
     idle_loop clock (read_now now clock) (case records of None \<Rightarrow> open_records tr | Some rs \<Rightarrow> rs) tr"

text \<open>An out-of-band call site marks an open record for a structural close.\<close>

definition mark_structural :: "addr \<Rightarrow> string \<Rightarrow> InteractionTracker \<Rightarrow> InteractionTracker" where
  "mark_structural a reason tr =
     set_record a ((the_record tr a)\<lparr>i_structural_close_reason := reason\<rparr>) tr"


section \<open>The tracker invariant\<close>

text \<open>
  One record per key, every filed record is a live open object filed under the key its own fields
  give, and addresses past the allocation pointer are unused.
\<close>

definition map_inv :: "(RecordKey \<rightharpoonup> addr) \<Rightarrow> (addr \<rightharpoonup> Interaction) \<Rightarrow> addr \<Rightarrow> bool" where
  "map_inv M H n \<longleftrightarrow>
     (\<forall>k a. M k = Some a \<longrightarrow> (\<exists>i. H a = Some i \<and> record_key i = k \<and> is_open i)) \<and>
     (\<forall>a. H a \<noteq> None \<longrightarrow> a < n) \<and>
     (\<forall>a i. H a = Some i \<longrightarrow> is_open i \<longrightarrow> M (record_key i) = Some a)"

definition tracker_inv :: "InteractionTracker \<Rightarrow> bool" where
  "tracker_inv tr \<longleftrightarrow>
     distinct (map fst (t_open tr)) \<and> map_inv (map_of (t_open tr)) (t_heap tr) (t_next tr)"

lemma map_invI:
  assumes "\<And>k a. M k = Some a \<Longrightarrow> \<exists>i. H a = Some i \<and> record_key i = k \<and> is_open i"
    and "\<And>a i. H a = Some i \<Longrightarrow> a < n"
    and "\<And>a i. H a = Some i \<Longrightarrow> is_open i \<Longrightarrow> M (record_key i) = Some a"
  shows "map_inv M H n"
  using assms unfolding map_inv_def by blast

lemma map_invD:
  assumes "map_inv M H n"
  shows "M k = Some a \<Longrightarrow> \<exists>i. H a = Some i \<and> record_key i = k \<and> is_open i"
    and "H a = Some i \<Longrightarrow> a < n"
    and "H a = Some i \<Longrightarrow> is_open i \<Longrightarrow> M (record_key i) = Some a"
  using assms unfolding map_inv_def by blast+

lemma map_inv_set:
  assumes "map_inv M H n" "H a = Some i" "record_key i' = record_key i" "is_open i' = is_open i"
  shows "map_inv M (H(a \<mapsto> i')) n"
proof (rule map_invI)
  fix k b assume "M k = Some b"
  then obtain j where j: "H b = Some j" "record_key j = k" "is_open j" using map_invD(1)[OF assms(1)] by blast
  then show "\<exists>j. (H(a \<mapsto> i')) b = Some j \<and> record_key j = k \<and> is_open j" using assms by (cases "b = a") auto
next
  fix b j assume "(H(a \<mapsto> i')) b = Some j"
  then show "b < n" using map_invD(2)[OF assms(1)] assms(2) by (cases "b = a") auto
next
  fix b j assume "(H(a \<mapsto> i')) b = Some j" "is_open j"
  then show "M (record_key j) = Some b" using map_invD(3)[OF assms(1)] assms by (cases "b = a") auto
qed

lemma map_inv_close:
  assumes "map_inv M H n" "M (record_key i) = Some a" "H a = Some i" "record_key i' = record_key i" "\<not> is_open i'"
  shows "map_inv (M(record_key i := None)) (H(a \<mapsto> i')) n"
proof (rule map_invI)
  fix k b assume k: "(M(record_key i := None)) k = Some b"
  then have k': "M k = Some b" "k \<noteq> record_key i" by (auto split: if_splits)
  then obtain j where j: "H b = Some j" "record_key j = k" "is_open j" using map_invD(1)[OF assms(1)] by blast
  then have "b \<noteq> a" using k' assms(3) by auto
  then show "\<exists>j. (H(a \<mapsto> i')) b = Some j \<and> record_key j = k \<and> is_open j" using j by auto
next
  fix b j assume "(H(a \<mapsto> i')) b = Some j"
  then show "b < n" using map_invD(2)[OF assms(1)] assms(3) by (cases "b = a") auto
next
  fix b j assume b: "(H(a \<mapsto> i')) b = Some j" "is_open j"
  then have "b \<noteq> a" using assms(5) by auto
  then have "M (record_key j) = Some b" using b map_invD(3)[OF assms(1)] by auto
  then show "(M(record_key i := None)) (record_key j) = Some b" using assms(2) \<open>b \<noteq> a\<close> by auto
qed

lemma map_inv_open:
  assumes "map_inv M H n" "M (record_key i) = None" "is_open i"
  shows "map_inv (M(record_key i \<mapsto> n)) (H(n \<mapsto> i)) (Suc n)"
proof (rule map_invI)
  fix k b assume k: "(M(record_key i \<mapsto> n)) k = Some b"
  show "\<exists>j. (H(n \<mapsto> i)) b = Some j \<and> record_key j = k \<and> is_open j"
  proof (cases "k = record_key i")
    case True
    then show ?thesis using k assms(3) by auto
  next
    case False
    then have "M k = Some b" using k by simp
    then obtain j where j: "H b = Some j" "record_key j = k" "is_open j"
      using map_invD(1)[OF assms(1)] by blast
    then have "b \<noteq> n" using map_invD(2)[OF assms(1)] by auto
    then show ?thesis using j by auto
  qed
next
  fix b j assume "(H(n \<mapsto> i)) b = Some j"
  then show "b < Suc n" using map_invD(2)[OF assms(1)] by (cases "b = n") (auto intro: less_SucI)
next
  fix b j assume b: "(H(n \<mapsto> i)) b = Some j" "is_open j"
  then show "(M(record_key i \<mapsto> n)) (record_key j) = Some b"
    using map_invD(3)[OF assms(1), of b j] assms(2) by (cases "b = n") (auto split: if_splits)
qed

lemma inv_mk: "tracker_inv (mk_InteractionTracker ds t)"
  by (simp add: tracker_inv_def map_inv_def mk_InteractionTracker_def Let_def)

lemma emit_sel [simp]:
  "t_open (emit_opened tr) = t_open tr" "t_heap (emit_opened tr) = t_heap tr" "t_next (emit_opened tr) = t_next tr"
  "t_open (emit_closed r tr) = t_open tr" "t_heap (emit_closed r tr) = t_heap tr" "t_next (emit_closed r tr) = t_next tr"
  "t_detectors (emit_opened tr) = t_detectors tr" "t_detectors (emit_closed r tr) = t_detectors tr"
  "t_max_turns (emit_opened tr) = t_max_turns tr" "t_max_turns (emit_closed r tr) = t_max_turns tr"
  "t_open (note_replayed_close c s tr) = t_open tr" "t_heap (note_replayed_close c s tr) = t_heap tr"
  "t_next (note_replayed_close c s tr) = t_next tr" "t_detectors (note_replayed_close c s tr) = t_detectors tr"
  "t_max_turns (note_replayed_close c s tr) = t_max_turns tr"
  by (simp_all add: emit_opened_def emit_closed_def note_replayed_close_def)

lemma set_record_sel [simp]:
  "t_open (set_record a i tr) = t_open tr" "t_heap (set_record a i tr) = (t_heap tr)(a \<mapsto> i)"
  "t_next (set_record a i tr) = t_next tr" "t_detectors (set_record a i tr) = t_detectors tr"
  "t_max_turns (set_record a i tr) = t_max_turns tr"
  by (simp_all add: set_record_def)

lemma the_record_set [simp]: "the_record (set_record a i tr) b = (if b = a then i else the_record tr b)"
  by (simp add: the_record_def)

text \<open>A filed address is an open record, and an open record is filed.\<close>

lemma inv_openD:
  assumes "tracker_inv tr" "map_of (t_open tr) k = Some a"
  shows "t_heap tr a = Some (the_record tr a) \<and> record_key (the_record tr a) = k \<and> is_open (the_record tr a)
    \<and> a < t_next tr"
proof -
  obtain i where "t_heap tr a = Some i" "record_key i = k" "is_open i" "a < t_next tr"
    using assms unfolding tracker_inv_def map_inv_def by (metis option.distinct(1))
  then show ?thesis by (simp add: the_record_def)
qed

lemma inv_filed:
  "tracker_inv tr \<Longrightarrow> t_heap tr a = Some i \<Longrightarrow> is_open i \<Longrightarrow> map_of (t_open tr) (record_key i) = Some a"
  by (simp add: tracker_inv_def map_inv_def)

lemma inv_set_record:
  assumes "tracker_inv tr" "t_heap tr a = Some i" "record_key i' = record_key i" "is_open i' = is_open i"
  shows "tracker_inv (set_record a i' tr)"
  using assms map_inv_set unfolding tracker_inv_def by simp

lemma open_records_iff:
  assumes "tracker_inv tr"
  shows "a \<in> set (open_records tr) \<longleftrightarrow> t_heap tr a \<noteq> None \<and> is_open (the_record tr a)"
proof
  assume "a \<in> set (open_records tr)"
  then obtain k where "map_of (t_open tr) k = Some a"
    using assms by (auto simp: open_records_def tracker_inv_def)
  then show "t_heap tr a \<noteq> None \<and> is_open (the_record tr a)" using inv_openD[OF assms] by auto
next
  assume "t_heap tr a \<noteq> None \<and> is_open (the_record tr a)"
  then have "map_of (t_open tr) (record_key (the_record tr a)) = Some a"
    using inv_filed[OF assms, of a] by (auto simp: the_record_def)
  then show "a \<in> set (open_records tr)" by (force simp: open_records_def dest: map_of_SomeD)
qed

text \<open>The two outcomes of a close.\<close>

definition closed_record :: "Interaction \<Rightarrow> string \<Rightarrow> rat \<Rightarrow> bool option \<Rightarrow> Interaction" where
  "closed_record i reason ts wc = i\<lparr>i_closed_at := Some ts, i_close_reason := reason,
     i_replay_window_complete := (case wc of None \<Rightarrow> i_replay_window_complete i | Some b \<Rightarrow> b)\<rparr>"

lemma closed_record_sel [simp]:
  "record_key (closed_record i r ts wc) = record_key i" "\<not> is_open (closed_record i r ts wc)"
  "i_turns (closed_record i r ts wc) = i_turns i" "i_scope (closed_record i r ts wc) = i_scope i"
  "i_replayed (closed_record i r ts wc) = i_replayed i" "i_closed_at (closed_record i r ts wc) = Some ts"
  "i_close_reason (closed_record i r ts wc) = r"
  by (simp_all add: closed_record_def record_key_def is_open_def)

lemma close_record_filed:
  assumes "map_of (t_open tr) (record_key (the_record tr a)) = Some a"
  shows "\<exists>tr'. close_record clock a reason now wc tr = (Some a, tr') \<and>
     t_open tr' = AList.delete (record_key (the_record tr a)) (t_open tr) \<and>
     t_heap tr' = (t_heap tr)(a \<mapsto> closed_record (the_record tr a) reason (read_now now clock) wc) \<and>
     t_next tr' = t_next tr \<and> t_detectors tr' = t_detectors tr \<and> t_max_turns tr' = t_max_turns tr"
proof -
  have "(case wc of None \<Rightarrow> i\<lparr>i_closed_at := Some ts, i_close_reason := r\<rparr>
      | Some b \<Rightarrow> i\<lparr>i_closed_at := Some ts, i_close_reason := r, i_replay_window_complete := b\<rparr>) = closed_record i r ts wc" for i r ts
    by (cases wc) (simp_all add: closed_record_def)
  then show ?thesis using assms by (simp add: close_record_def Let_def cong: option.case_cong)
qed

lemma close_record_unfiled:
  "map_of (t_open tr) (record_key (the_record tr a)) \<noteq> Some a \<Longrightarrow> close_record clock a reason now wc tr = (None, tr)"
  by (simp add: close_record_def Let_def)

lemma close_record_inv:
  assumes "tracker_inv tr"
  shows "tracker_inv (snd (close_record clock a reason now wc tr))"
proof (cases "map_of (t_open tr) (record_key (the_record tr a)) = Some a")
  case True
  then obtain tr' where tr': "close_record clock a reason now wc tr = (Some a, tr')"
     "t_open tr' = AList.delete (record_key (the_record tr a)) (t_open tr)"
     "t_heap tr' = (t_heap tr)(a \<mapsto> closed_record (the_record tr a) reason (read_now now clock) wc)"
     "t_next tr' = t_next tr"
    using close_record_filed by blast
  have "map_inv ((map_of (t_open tr))(record_key (the_record tr a) := None)) (t_heap tr') (t_next tr')"
    unfolding tr'(3,4) using assms True inv_openD[OF assms True]
    by (intro map_inv_close) (simp_all add: tracker_inv_def)
  then show ?thesis using assms tr' by (simp add: tracker_inv_def delete_conv' distinct_delete)
next
  case False
  then show ?thesis using assms close_record_unfiled by simp
qed


section \<open>Every operation keeps the invariant\<close>

lemma open_new_spec:
  "\<exists>i tr'. open_new amb ts uid scope args (p, sp, scope) tr = (t_next tr, tr') \<and>
     t_open tr' = AList.update (p, sp, scope) (t_next tr) (t_open tr) \<and>
     t_heap tr' = (t_heap tr)(t_next tr \<mapsto> i) \<and> t_next tr' = Suc (t_next tr) \<and>
     t_detectors tr' = t_detectors tr \<and> t_max_turns tr' = t_max_turns tr \<and>
     record_key i = (p, sp, scope) \<and> is_open i \<and> i_turns i = [] \<and> i_started_at i = ts \<and>
     i_session_id i = or_str (oa_session_id args) LEGACY_SESSION_ID \<and>
     i_epoch_id i = resolve_epoch_id_silent amb \<and> i_replayed i = oa_replayed args \<and>
     i_classification i = oa_classification args \<and> i_source_channel_id i = oa_source_channel_id args"
  by (rule exI[of _ "the_record (snd (open_new amb ts uid scope args (p, sp, scope) tr)) (t_next tr)"])
    (simp add: open_new_def Let_def record_key_def is_open_def the_record_def)

lemma key_scope: "snd (snd (resolve_record_key amb scope pid sid)) = scope"
  by (simp add: resolve_record_key_def Let_def)

lemma start_cases:
  assumes "tracker_inv tr"
  shows "(\<exists>a. map_of (t_open tr) (resolve_record_key amb scope pid sid) = Some a \<and>
        start amb clock uid scope now args pid sid tr = (a, tr)) \<or>
     (map_of (t_open tr) (resolve_record_key amb scope pid sid) = None \<and>
        start amb clock uid scope now args pid sid tr =
          open_new amb (read_now now clock) uid scope args (resolve_record_key amb scope pid sid) tr)"
  using inv_openD[OF assms]
  by (cases "map_of (t_open tr) (resolve_record_key amb scope pid sid)") (auto simp: start_def Let_def)

text \<open>A record that an operation hands back: alive, open, and filed.\<close>

definition live :: "InteractionTracker \<Rightarrow> addr \<Rightarrow> bool" where
  "live tr a \<longleftrightarrow> t_heap tr a = Some (the_record tr a) \<and> is_open (the_record tr a)"

lemma start_inv:
  assumes "tracker_inv tr" "start amb clock uid scope now args pid sid tr = (a, tr')"
  shows "tracker_inv tr' \<and> live tr' a \<and> t_max_turns tr' = t_max_turns tr \<and>
    record_key (the_record tr' a) = resolve_record_key amb scope pid sid"
proof -
  obtain p sp where k: "resolve_record_key amb scope pid sid = (p, sp, scope)"
    using key_scope[of amb scope pid sid] by (metis prod.collapse)
  from start_cases[OF assms(1), of amb scope pid sid clock uid now args] show ?thesis
  proof (elim disjE exE conjE)
    fix b assume "map_of (t_open tr) (resolve_record_key amb scope pid sid) = Some b"
      "start amb clock uid scope now args pid sid tr = (b, tr)"
    then show ?thesis using assms inv_openD[OF assms(1)] by (auto simp: live_def)
  next
    assume none: "map_of (t_open tr) (resolve_record_key amb scope pid sid) = None"
      and st: "start amb clock uid scope now args pid sid tr =
          open_new amb (read_now now clock) uid scope args (resolve_record_key amb scope pid sid) tr"
    obtain i where i: "a = t_next tr" "t_open tr' = AList.update (p, sp, scope) (t_next tr) (t_open tr)"
        "t_heap tr' = (t_heap tr)(t_next tr \<mapsto> i)" "t_next tr' = Suc (t_next tr)"
        "record_key i = (p, sp, scope)" "is_open i" "t_max_turns tr' = t_max_turns tr"
      using open_new_spec[of amb "read_now now clock" uid scope args p sp tr] assms(2) st k by auto
    have "map_inv ((map_of (t_open tr))(record_key i \<mapsto> t_next tr)) ((t_heap tr)(t_next tr \<mapsto> i)) (Suc (t_next tr))"
      using assms(1) none k i by (intro map_inv_open) (simp_all add: tracker_inv_def)
    then have "tracker_inv tr'"
      using assms(1) i by (simp add: tracker_inv_def update_conv' distinct_update)
    then show ?thesis using i k by (simp add: live_def the_record_def)
  qed
qed

lemma push_turn_inv:
  assumes "tracker_inv tr" "live tr a"
  shows "tracker_inv (push_turn a ts pl tr) \<and> live (push_turn a ts pl tr) a \<and>
    record_key (the_record (push_turn a ts pl tr) a) = record_key (the_record tr a)"
  using assms inv_set_record[OF assms(1), of a "the_record tr a"]
  by (auto simp: push_turn_def Let_def live_def record_key_def is_open_def)

text \<open>The record a turn lands in, before the cap is looked at.\<close>

definition landing ::
  "ambient \<Rightarrow> rat \<Rightarrow> string \<Rightarrow> string \<Rightarrow> rat option \<Rightarrow> open_args \<Rightarrow> string option \<Rightarrow> string option \<Rightarrow>
   InteractionTracker \<Rightarrow> addr \<times> InteractionTracker" where
  "landing amb clock uid scope now args pid sid tr =
     (let key = resolve_record_key amb scope pid sid in
      case map_of (t_open tr) key of
        Some a \<Rightarrow> (a, tr)
      | None \<Rightarrow> start amb clock uid scope (Some (read_now now clock)) args (Some (fst key)) (Some (fst (snd key))) tr)"

lemma landing_inv:
  assumes "tracker_inv tr" "landing amb clock uid scope now args pid sid tr = (a, tr1)"
  shows "tracker_inv tr1 \<and> live tr1 a \<and> t_max_turns tr1 = t_max_turns tr"
  using assms inv_openD[OF assms(1)] start_inv[OF assms(1)]
  by (fastforce simp: landing_def Let_def live_def split: option.splits)

lemma add_turn_eq:
  assumes "tracker_inv tr" "landing amb clock uid scope now args pid sid tr = (a, tr1)"
  shows "add_turn amb clock uid scope pl now args pid sid tr =
     (let tr2 = push_turn a (read_now now clock) (case pl of None \<Rightarrow> [] | Some d \<Rightarrow> d) tr1 in
      if (case t_max_turns tr of None \<Rightarrow> False | Some m \<Rightarrow> int (length (i_turns (the_record tr1 a))) + 1 \<ge> m)
      then (a, snd (close_record clock a REASON_MAX_TURNS (Some (read_now now clock)) None tr2))
      else (a, tr2))"
proof -
  let ?ts = "read_now now clock" and ?key = "resolve_record_key amb scope pid sid"
  let ?tr2 = "push_turn a ?ts (case pl of None \<Rightarrow> [] | Some d \<Rightarrow> d) tr1"
  note l = landing_inv[OF assms]
  have open1: "(case map_of (t_open tr) ?key of
      Some b \<Rightarrow> if is_open (the_record tr b) then (b, tr)
                else start amb clock uid scope (Some ?ts) args (Some (fst ?key)) (Some (fst (snd ?key))) tr
    | None \<Rightarrow> start amb clock uid scope (Some ?ts) args (Some (fst ?key)) (Some (fst (snd ?key))) tr) = (a, tr1)"
    using assms(2) inv_openD[OF assms(1)] by (auto simp: landing_def Let_def split: option.splits)
  have p: "tracker_inv ?tr2" "live ?tr2 a" using push_turn_inv l by blast+
  have m: "t_max_turns ?tr2 = t_max_turns tr" using l by (simp add: push_turn_def Let_def)
  have n: "turn_count (the_record ?tr2 a) = Suc (length (i_turns (the_record tr1 a)))"
    by (simp add: push_turn_def Let_def turn_count_def)
  have "map_of (t_open ?tr2) (record_key (the_record ?tr2 a)) = Some a"
    using inv_filed[OF p(1)] p(2) by (simp add: live_def)
  then obtain tr3 where c: "close_record clock a REASON_MAX_TURNS (Some ?ts) None ?tr2 = (Some a, tr3)"
    using close_record_filed by blast
  show ?thesis
    unfolding add_turn_def Let_def open1 using m n c
    by (auto simp: turn_count_def add.commute split: option.splits)
qed

lemma add_turn_inv:
  assumes "tracker_inv tr"
  shows "tracker_inv (snd (add_turn amb clock uid scope pl now args pid sid tr))"
proof -
  obtain a tr1 where l: "landing amb clock uid scope now args pid sid tr = (a, tr1)" by fastforce
  have "tracker_inv (push_turn a ts d tr1)" for ts d
    using push_turn_inv landing_inv[OF assms l] by blast
  then show ?thesis using close_record_inv by (simp add: add_turn_eq[OF assms l] Let_def)
qed

lemma close_all_inv: "tracker_inv tr \<Longrightarrow> tracker_inv (snd (close_all clock reason ts as tr))"
proof (induction as arbitrary: tr)
  case (Cons a as)
  then show ?case using close_record_inv[OF Cons.prems, of clock a reason "Some ts" None]
    by (auto simp: Let_def split: prod.splits dest: Cons.IH)
qed simp

lemma idle_loop_inv: "tracker_inv tr \<Longrightarrow> tracker_inv (snd (idle_loop clock ts as tr))"
proof (induction as arbitrary: tr)
  case (Cons a as)
  have "tracker_inv (snd (close_record clock a r (Some ts) None tr))" for r
    by (rule close_record_inv[OF Cons.prems])
  then show ?case using Cons by (auto simp: Let_def split: prod.splits option.splits) (metis Cons.IH snd_conv)
qed simp


section \<open>What a record keeps for life\<close>

definition frozen :: "Interaction \<Rightarrow> string list \<times> rat \<times> bool \<times> bool \<times> string option \<times> string option" where
  "frozen i = ([i_interaction_id i, i_scope i, i_session_id i, i_principal_id i, i_speaker_id i, i_epoch_id i],
     i_started_at i, i_replayed i, i_replay_attributed i, i_classification i, i_source_channel_id i)"

definition evolves :: "Interaction \<Rightarrow> Interaction \<Rightarrow> bool" where
  "evolves i j \<longleftrightarrow> frozen j = frozen i \<and> prefix (i_turns i) (i_turns j) \<and> (is_open i \<or> j = i)"

definition heap_evolves :: "InteractionTracker \<Rightarrow> InteractionTracker \<Rightarrow> bool" where
  "heap_evolves tr tr' \<longleftrightarrow> (\<forall>a i. t_heap tr a = Some i \<longrightarrow> (\<exists>j. t_heap tr' a = Some j \<and> evolves i j))"

lemma evolves_refl [simp]: "evolves i i"
  by (simp add: evolves_def)

lemma evolves_trans: "evolves i j \<Longrightarrow> evolves j k \<Longrightarrow> evolves i k"
  by (auto simp: evolves_def intro: prefix_order.trans)

lemma heap_evolves_refl [simp]: "heap_evolves tr tr"
  by (simp add: heap_evolves_def)

lemma heap_evolves_trans: "heap_evolves a b \<Longrightarrow> heap_evolves b c \<Longrightarrow> heap_evolves a c"
  unfolding heap_evolves_def using evolves_trans by meson

lemma heap_evolves_same: "t_heap tr' = t_heap tr \<Longrightarrow> heap_evolves tr tr'"
  by (simp add: heap_evolves_def)

lemma heap_evolves_set: "t_heap tr' = (t_heap tr)(a \<mapsto> j) \<Longrightarrow> (\<And>i. t_heap tr a = Some i \<Longrightarrow> evolves i j) \<Longrightarrow>
    heap_evolves tr tr'"
  by (auto simp: heap_evolves_def)

lemma closed_record_evolves: "is_open i \<Longrightarrow> evolves i (closed_record i r ts wc)"
  by (simp add: evolves_def frozen_def closed_record_def)

lemma close_record_evolves:
  assumes "tracker_inv tr"
  shows "heap_evolves tr (snd (close_record clock a reason now wc tr))"
proof (cases "map_of (t_open tr) (record_key (the_record tr a)) = Some a")
  case True
  then obtain tr' where t: "close_record clock a reason now wc tr = (Some a, tr')"
     "t_heap tr' = (t_heap tr)(a \<mapsto> closed_record (the_record tr a) reason (read_now now clock) wc)"
    using close_record_filed by blast
  have "is_open (the_record tr a)" using inv_openD[OF assms True] by simp
  then have "heap_evolves tr tr'"
    using closed_record_evolves by (intro heap_evolves_set[OF t(2)]) (simp add: the_record_def)
  then show ?thesis using t(1) by simp
qed (simp add: close_record_unfiled)

lemma push_turn_evolves: "live tr a \<Longrightarrow> heap_evolves tr (push_turn a ts pl tr)"
  by (rule heap_evolves_set[where a = a and j = "(the_record tr a)\<lparr>i_turns := i_turns (the_record tr a) @
        [\<lparr>turn_at = ts, turn_payload = pl\<rparr>]\<rparr>"])
    (auto simp: push_turn_def Let_def live_def evolves_def frozen_def the_record_def)

lemma start_evolves:
  assumes "tracker_inv tr"
  shows "heap_evolves tr (snd (start amb clock uid scope now args pid sid tr))"
proof -
  obtain p sp where k: "resolve_record_key amb scope pid sid = (p, sp, scope)"
    using key_scope[of amb scope pid sid] by (metis prod.collapse)
  have fresh: "t_heap tr (t_next tr) = None"
    using assms by (cases "t_heap tr (t_next tr)") (auto simp: tracker_inv_def dest: map_invD(2))
  have "heap_evolves tr (snd (open_new amb (read_now now clock) uid scope args (p, sp, scope) tr))"
    using open_new_spec[of amb "read_now now clock" uid scope args p sp tr] fresh
    by (auto intro: heap_evolves_set)
  then show ?thesis using start_cases[OF assms, of amb scope pid sid clock uid now args] k by auto
qed

lemma add_turn_evolves:
  assumes "tracker_inv tr"
  shows "heap_evolves tr (snd (add_turn amb clock uid scope pl now args pid sid tr))"
proof -
  obtain a tr1 where l: "landing amb clock uid scope now args pid sid tr = (a, tr1)" by fastforce
  note li = landing_inv[OF assms l]
  have 1: "heap_evolves tr tr1"
    using l start_evolves[OF assms] by (auto simp: landing_def Let_def split: option.splits) (metis snd_conv)
  have 2: "heap_evolves tr1 (push_turn a ts d tr1)" for ts d using push_turn_evolves li by blast
  have 3: "heap_evolves (push_turn a ts d tr1)
      (snd (close_record clock a REASON_MAX_TURNS (Some ts) None (push_turn a ts d tr1)))" for ts d
    using close_record_evolves push_turn_inv li by blast
  show ?thesis unfolding add_turn_eq[OF assms l] Let_def
    using heap_evolves_trans[OF 1 2] heap_evolves_trans[OF heap_evolves_trans[OF 1 2] 3] by simp
qed

lemma close_all_evolves: "tracker_inv tr \<Longrightarrow> heap_evolves tr (snd (close_all clock reason ts as tr))"
proof (induction as arbitrary: tr)
  case (Cons a as)
  let ?t = "snd (close_record clock a reason (Some ts) None tr)"
  have "heap_evolves tr ?t" "tracker_inv ?t" using close_record_evolves close_record_inv Cons.prems by blast+
  then have "heap_evolves tr (snd (close_all clock reason ts as ?t))" using Cons.IH heap_evolves_trans by blast
  then show ?case by (simp add: split_def Let_def)
qed simp

lemma idle_loop_evolves: "tracker_inv tr \<Longrightarrow> heap_evolves tr (snd (idle_loop clock ts as tr))"
proof (induction as arbitrary: tr)
  case (Cons a as)
  have "heap_evolves tr (snd (idle_loop clock ts as (snd (close_record clock a r (Some ts) None tr))))" for r
    using close_record_evolves[OF Cons.prems] close_record_inv[OF Cons.prems] Cons.IH heap_evolves_trans by blast
  then show ?case using Cons by (simp add: split_def Let_def split: option.splits)
qed simp


section \<open>Reachable trackers\<close>

text \<open>
  Every way the runtime drives a tracker: the operations above with any arguments, on addresses of
  existing records, and the replay bookkeeping.
\<close>

inductive tracker_step :: "InteractionTracker \<Rightarrow> InteractionTracker \<Rightarrow> bool" where
  step_start: "tracker_step tr (snd (start amb clock uid scope now args pid sid tr))"
| step_add_turn: "tracker_step tr (snd (add_turn amb clock uid scope pl now args pid sid tr))"
| step_append_turn: "t_heap tr a \<noteq> None \<Longrightarrow> tracker_step tr (append_turn clock a pl now tr)"
| step_close_record: "t_heap tr a \<noteq> None \<Longrightarrow> tracker_step tr (snd (close_record clock a reason now wc tr))"
| step_close_scope: "tracker_step tr (snd (close_scope clock sc reason now admit tr))"
| step_idle_check: "tracker_step tr (snd (idle_check clock now records tr))"
| step_mark: "live tr a \<Longrightarrow> tracker_step tr (mark_structural a reason tr)"
| step_gap: "tracker_step tr (note_replay_gap ch sp tr)"
| step_observe: "tracker_step tr (snd (observe_wire_message mid rep tr))"
| step_clear: "tracker_step tr (clear_replay_pass_state tr)"

inductive reachable :: "InteractionTracker \<Rightarrow> bool" where
  reach_init: "reachable (mk_InteractionTracker ds timeout)"
| reach_step: "reachable tr \<Longrightarrow> tracker_step tr tr' \<Longrightarrow> reachable tr'"

lemma bookkeeping_sel:
  "t_open (note_replay_gap ch sp tr) = t_open tr" "t_heap (note_replay_gap ch sp tr) = t_heap tr"
  "t_next (note_replay_gap ch sp tr) = t_next tr"
  "t_open (snd (observe_wire_message mid rep tr)) = t_open tr"
  "t_heap (snd (observe_wire_message mid rep tr)) = t_heap tr"
  "t_next (snd (observe_wire_message mid rep tr)) = t_next tr"
  "t_open (clear_replay_pass_state tr) = t_open tr" "t_heap (clear_replay_pass_state tr) = t_heap tr"
  "t_next (clear_replay_pass_state tr) = t_next tr"
  by (simp_all add: note_replay_gap_def observe_wire_message_def clear_replay_pass_state_def)

lemma step_keeps:
  assumes "tracker_step tr tr'" "tracker_inv tr"
  shows "tracker_inv tr' \<and> heap_evolves tr tr'"
  using assms
proof (cases rule: tracker_step.cases)
  case (step_append_turn a clock pl now)
  then have "live tr a" if "is_open (the_record tr a)" using that by (auto simp: live_def the_record_def)
  then show ?thesis using step_append_turn(1) assms(2) push_turn_inv[OF assms(2)] push_turn_evolves
    by (auto simp: append_turn_def)
next
  case (step_mark a reason)
  let ?j = "(the_record tr a)\<lparr>i_structural_close_reason := reason\<rparr>"
  have "tracker_inv (set_record a ?j tr)" using assms(2) step_mark
    by (intro inv_set_record[where i = "the_record tr a"]) (auto simp: live_def record_key_def is_open_def)
  moreover have "heap_evolves tr (set_record a ?j tr)" using step_mark
    by (intro heap_evolves_set) (auto simp: live_def evolves_def frozen_def the_record_def)
  ultimately show ?thesis using step_mark by (simp add: mark_structural_def)
next
  case step_start
  then show ?thesis using assms(2) start_inv[OF assms(2)] start_evolves[OF assms(2)] by (metis prod.collapse)
next
  case step_add_turn
  then show ?thesis using add_turn_inv add_turn_evolves assms(2) by simp
next
  case step_close_record
  then show ?thesis using close_record_inv close_record_evolves assms(2) by simp
next
  case step_close_scope
  then show ?thesis using close_all_inv close_all_evolves assms(2) by (simp add: close_scope_def)
next
  case step_idle_check
  then show ?thesis using idle_loop_inv idle_loop_evolves assms(2) by (simp add: idle_check_def)
qed (use assms(2) in \<open>simp_all add: tracker_inv_def bookkeeping_sel heap_evolves_same\<close>)

lemma reachable_inv: "reachable tr \<Longrightarrow> tracker_inv tr"
  by (induction rule: reachable.induct) (auto simp: inv_mk dest: step_keeps)

inductive steps :: "InteractionTracker \<Rightarrow> InteractionTracker \<Rightarrow> bool" where
  steps_refl: "steps tr tr"
| steps_step: "steps tr tr' \<Longrightarrow> tracker_step tr' tr'' \<Longrightarrow> steps tr tr''"

lemma steps_keep: "steps tr tr' \<Longrightarrow> tracker_inv tr \<Longrightarrow> tracker_inv tr' \<and> heap_evolves tr tr'"
proof (induction rule: steps.induct)
  case (steps_step tr tr' tr'')
  then show ?case using step_keeps heap_evolves_trans by blast
qed simp


section \<open>What the closes close\<close>

lemma inv_entry: "tracker_inv tr \<Longrightarrow> p \<in> set (t_open tr) \<Longrightarrow> map_of (t_open tr) (fst p) = Some (snd p)"
  by (cases p) (simp add: tracker_inv_def)

lemma distinct_open_records:
  assumes "tracker_inv tr"
  shows "distinct (open_records tr)"
proof -
  have "inj_on snd (set (t_open tr))"
  proof (rule inj_onI)
    fix x y assume xy: "x \<in> set (t_open tr)" "y \<in> set (t_open tr)" "snd x = snd y"
    then have "fst x = fst y"
      using inv_openD[OF assms inv_entry[OF assms xy(1)]] inv_openD[OF assms inv_entry[OF assms xy(2)]] by simp
    then show "x = y" using xy(3) by (simp add: prod_eq_iff)
  qed
  moreover have "distinct (t_open tr)" using assms by (simp add: tracker_inv_def distinct_map)
  ultimately show ?thesis by (simp add: open_records_def distinct_map)
qed

text \<open>Closing one open record takes it, and only it, out of the open list.\<close>

lemma close_open_record:
  assumes "tracker_inv tr" "a \<in> set (open_records tr)"
  shows "\<exists>tr'. close_record clock a reason now wc tr = (Some a, tr') \<and>
     t_heap tr' = (t_heap tr)(a \<mapsto> closed_record (the_record tr a) reason (read_now now clock) wc) \<and>
     open_records tr' = filter (\<lambda>b. b \<noteq> a) (open_records tr) \<and> t_detectors tr' = t_detectors tr \<and> tracker_inv tr'"
proof -
  let ?k = "record_key (the_record tr a)"
  have f: "map_of (t_open tr) ?k = Some a"
    using assms open_records_iff[OF assms(1)] inv_filed[OF assms(1), of a] by (auto simp: the_record_def)
  obtain tr' where t: "close_record clock a reason now wc tr = (Some a, tr')"
     "t_open tr' = AList.delete ?k (t_open tr)"
     "t_heap tr' = (t_heap tr)(a \<mapsto> closed_record (the_record tr a) reason (read_now now clock) wc)"
     "t_detectors tr' = t_detectors tr"
    using close_record_filed[OF f] by blast
  have "fst p \<noteq> ?k \<longleftrightarrow> snd p \<noteq> a" if "p \<in> set (t_open tr)" for p
  proof -
    have "map_of (t_open tr) (fst p) = Some (snd p)" by (rule inv_entry[OF assms(1) that])
    then show ?thesis using inv_openD[OF assms(1)] f by (metis option.inject)
  qed
  then have "filter (\<lambda>p. ?k \<noteq> fst p) (t_open tr) = filter (\<lambda>p. snd p \<noteq> a) (t_open tr)"
    by (intro filter_cong refl) metis
  then have "open_records tr' = filter (\<lambda>b. b \<noteq> a) (open_records tr)"
    by (simp add: open_records_def t(2) AList.delete_eq filter_map comp_def split_def)
  moreover have "tracker_inv tr'" using close_record_inv[OF assms(1), of clock a reason now wc] t(1) by simp
  ultimately show ?thesis using t by blast
qed

lemma close_all_exact:
  assumes "tracker_inv tr" "distinct as" "set as \<subseteq> set (open_records tr)"
  shows "fst (close_all clock reason ts as tr) = as \<and>
     t_heap (snd (close_all clock reason ts as tr)) =
       (\<lambda>a. if a \<in> set as then Some (closed_record (the_record tr a) reason ts None) else t_heap tr a) \<and>
     open_records (snd (close_all clock reason ts as tr)) = filter (\<lambda>b. b \<notin> set as) (open_records tr)"
  using assms
proof (induction as arbitrary: tr)
  case (Cons a as)
  obtain tr' where t: "close_record clock a reason (Some ts) None tr = (Some a, tr')"
     "t_heap tr' = (t_heap tr)(a \<mapsto> closed_record (the_record tr a) reason ts None)"
     "open_records tr' = filter (\<lambda>b. b \<noteq> a) (open_records tr)" "tracker_inv tr'"
    using close_open_record[OF Cons.prems(1), of a clock reason "Some ts" None] Cons.prems(3)
    by (auto simp: read_now_def)
  have "fst (close_all clock reason ts as tr') = as \<and>
     t_heap (snd (close_all clock reason ts as tr')) =
       (\<lambda>b. if b \<in> set as then Some (closed_record (the_record tr' b) reason ts None) else t_heap tr' b) \<and>
     open_records (snd (close_all clock reason ts as tr')) = filter (\<lambda>b. b \<notin> set as) (open_records tr')"
    using Cons.prems t(3,4) by (intro Cons.IH) auto
  moreover have "the_record tr' b = the_record tr b" if "b \<in> set as" for b
    using that t(2) Cons.prems(2) by (auto simp: the_record_def)
  ultimately show ?case using t(1-3) Cons.prems(2)
    by (auto simp: split_def fun_eq_iff intro!: filter_cong)
qed simp

text \<open>The reason the detector chain gives for a record at an instant.\<close>

definition fires :: "InteractionTracker \<Rightarrow> rat \<Rightarrow> addr \<Rightarrow> string option" where
  "fires tr ts a = first_firing (map evaluate (t_detectors tr)) (the_record tr a) ts"

lemma idle_loop_exact:
  assumes "tracker_inv tr" "distinct as" "set as \<subseteq> set (open_records tr)"
  shows "fst (idle_loop clock ts as tr) = filter (\<lambda>a. fires tr ts a \<noteq> None) as \<and>
     t_heap (snd (idle_loop clock ts as tr)) =
       (\<lambda>a. if a \<in> set as \<and> fires tr ts a \<noteq> None
            then Some (closed_record (the_record tr a) (the (fires tr ts a)) ts None) else t_heap tr a)"
  using assms
proof (induction as arbitrary: tr)
  case (Cons a as)
  let ?fire = "\<lambda>tr a. fires tr ts a"
  show ?case
  proof (cases "?fire tr a")
    case None
    then show ?thesis using Cons by (auto simp: fires_def fun_eq_iff)
  next
    case (Some r)
    obtain tr' where t: "close_record clock a r (Some ts) None tr = (Some a, tr')"
       "t_heap tr' = (t_heap tr)(a \<mapsto> closed_record (the_record tr a) r ts None)"
       "open_records tr' = filter (\<lambda>b. b \<noteq> a) (open_records tr)" "t_detectors tr' = t_detectors tr" "tracker_inv tr'"
      using close_open_record[OF Cons.prems(1), of a clock r "Some ts" None] Cons.prems(3)
      by (auto simp: read_now_def)
    have e: "the_record tr' b = the_record tr b" if "b \<in> set as" for b
      using that t(2) Cons.prems(2) by (auto simp: the_record_def)
    have ih: "fst (idle_loop clock ts as tr') = filter (\<lambda>a. ?fire tr' a \<noteq> None) as"
     "t_heap (snd (idle_loop clock ts as tr')) =
       (\<lambda>a. if a \<in> set as \<and> ?fire tr' a \<noteq> None
            then Some (closed_record (the_record tr' a) (the (?fire tr' a)) ts None) else t_heap tr' a)"
      using Cons.IH[of tr'] Cons.prems t(3,5) by auto
    have f: "?fire tr' b = ?fire tr b" if "b \<in> set as" for b using that Cons.prems(2) e t(4) by (auto simp: fires_def)
    have "filter (\<lambda>a. ?fire tr' a \<noteq> None) as = filter (\<lambda>a. ?fire tr a \<noteq> None) as"
      using f by (intro filter_cong) auto
    moreover have "first_firing (map evaluate (t_detectors tr)) (the_record tr a) ts = Some r"
      using Some by (simp add: fires_def)
    ultimately show ?thesis using Some t(1,2) ih f e Cons.prems(2)
      by (auto simp: split_def fun_eq_iff)
  qed
qed simp


section \<open>Properties\<close>

text \<open>
  C2. No open record is ever lost or doubled. In every reachable tracker there is at most one record
  per key, every filed record is open and is filed under the key its own fields give, so a close by
  identity finds it, and every record that is still open is filed.
\<close>

theorem reachable_tracker_sound:
  assumes "reachable tr"
  shows "distinct (map fst (t_open tr)) \<and> distinct (open_records tr) \<and>
    (\<forall>a. a \<in> set (open_records tr) \<longleftrightarrow> t_heap tr a \<noteq> None \<and> is_open (the_record tr a)) \<and>
    (\<forall>a \<in> set (open_records tr). map_of (t_open tr) (record_key (the_record tr a)) = Some a)"
proof -
  have i: "tracker_inv tr" using assms by (rule reachable_inv)
  have "map_of (t_open tr) (record_key (the_record tr a)) = Some a" if "a \<in> set (open_records tr)" for a
    using that i inv_filed[OF i, of a] open_records_iff[OF i] by (auto simp: the_record_def)
  then show ?thesis using i distinct_open_records[OF i] open_records_iff[OF i] by (simp add: tracker_inv_def)
qed

theorem reachable_tracker_sound_witness:
  "distinct (open_records (mk_InteractionTracker None 600))"
  using reachable_tracker_sound[OF reach_init[of None 600]] by blast

text \<open>
  Closed means closed, and a record's identity is for life. Over any sequence of operations from
  a reachable tracker, a closed record never changes again, an open one keeps its id, key, session,
  epoch, classification, source channel and replay marks, and turns are only ever appended.
\<close>

lemma records_evolve:
  assumes "reachable tr" "steps tr tr'" "t_heap tr a = Some i"
  shows "\<exists>j. t_heap tr' a = Some j \<and> frozen j = frozen i \<and> prefix (i_turns i) (i_turns j) \<and>
    (\<not> is_open i \<longrightarrow> j = i)"
  using steps_keep[OF assms(2) reachable_inv[OF assms(1)]] assms(3)
  by (fastforce simp: heap_evolves_def evolves_def)

text \<open>
  A room close closes the room, once, at one instant. Closing a scope of a reachable tracker
  closes exactly the open records the fan admits (never a replay-opened one), in insertion order, all
  with the same time and reason; every other record is untouched and stays open.
\<close>

lemma close_scope_exact:
  assumes "reachable tr" "close_scope clock scope reason now admit tr = (cs, tr')"
  shows "cs = admitted_records tr scope admit \<and>
    (\<forall>a \<in> set cs. \<not> i_replayed (the_record tr a) \<and>
       t_heap tr' a = Some (closed_record (the_record tr a) reason (read_now now clock) None)) \<and>
    (\<forall>a. a \<notin> set cs \<longrightarrow> t_heap tr' a = t_heap tr a) \<and>
    open_records tr' = filter (\<lambda>a. a \<notin> set cs) (open_records tr)"
proof -
  let ?as = "admitted_records tr scope admit"
  have i: "tracker_inv tr" using assms(1) by (rule reachable_inv)
  have "distinct ?as" "set ?as \<subseteq> set (open_records tr)"
    using distinct_open_records[OF i] by (auto simp: admitted_records_def)
  from close_all_exact[OF i this, of clock reason "read_now now clock"] show ?thesis
    using assms(2) by (auto simp: close_scope_def admitted_records_def Let_def)
qed

text \<open>
  The idle sweep closes exactly what the detectors say. Over all open records of a reachable
  tracker, a record is closed if and only if some detector of the chain fires on it at the sweep's
  instant, with the first such detector's reason; all others are untouched.
\<close>

lemma idle_check_exact:
  assumes "reachable tr" "idle_check clock now None tr = (cs, tr')"
  shows "cs = filter (\<lambda>a. fires tr (read_now now clock) a \<noteq> None) (open_records tr) \<and>
    (\<forall>a \<in> set cs. t_heap tr' a = Some (closed_record (the_record tr a)
        (the (fires tr (read_now now clock) a)) (read_now now clock) None)) \<and>
    (\<forall>a. a \<notin> set cs \<longrightarrow> t_heap tr' a = t_heap tr a)"
proof -
  have i: "tracker_inv tr" using assms(1) by (rule reachable_inv)
  from idle_loop_exact[OF i distinct_open_records[OF i] subset_refl, of clock "read_now now clock"]
  show ?thesis using assms(2) by (auto simp: idle_check_def)
qed


lemma landing_exact:
  assumes "tracker_inv tr" "ambient_ok amb" "landing amb clock uid scope now args pid sid tr = (a, tr1)"
  defines "key \<equiv> resolve_record_key amb scope pid sid"
  shows "record_key (the_record tr1 a) = key \<and> (\<forall>b. b \<noteq> a \<longrightarrow> t_heap tr1 b = t_heap tr b) \<and>
    (case map_of (t_open tr) key of
       Some b \<Rightarrow> a = b \<and> tr1 = tr
     | None \<Rightarrow> a = t_next tr \<and> i_turns (the_record tr1 a) = [] \<and>
         i_session_id (the_record tr1 a) = or_str (oa_session_id args) LEGACY_SESSION_ID \<and>
         i_epoch_id (the_record tr1 a) = resolve_epoch_id_silent amb \<and>
         i_replayed (the_record tr1 a) = oa_replayed args \<and>
         i_classification (the_record tr1 a) = oa_classification args)"
proof (cases "map_of (t_open tr) key")
  case (Some b)
  then show ?thesis using assms(3) inv_openD[OF assms(1), of key b] by (simp add: landing_def key_def)
next
  case None
  obtain p sp where k: "key = (p, sp, scope)" unfolding key_def by (metis key_scope prod.collapse)
  have k2: "resolve_record_key amb scope (Some p) (Some sp) = (p, sp, scope)"
    using resolve_record_key_idempotent[OF assms(2)] k unfolding key_def by blast
  have l: "start amb clock uid scope (Some (read_now now clock)) args (Some p) (Some sp) tr = (a, tr1)"
    using assms(3) None k unfolding key_def by (simp add: landing_def)
  have "start amb clock uid scope (Some (read_now now clock)) args (Some p) (Some sp) tr =
      open_new amb (read_now now clock) uid scope args (p, sp, scope) tr"
    using None k k2 by (simp add: start_def read_now_def)
  then obtain i where "a = t_next tr" "t_heap tr1 = (t_heap tr)(t_next tr \<mapsto> i)" "record_key i = (p, sp, scope)"
      "i_turns i = []" "i_session_id i = or_str (oa_session_id args) LEGACY_SESSION_ID"
      "i_epoch_id i = resolve_epoch_id_silent amb" "i_replayed i = oa_replayed args"
      "i_classification i = oa_classification args"
    using open_new_spec[of amb "read_now now clock" uid scope args p sp tr] l by auto
  then show ?thesis using None k by (simp add: the_record_def)
qed

text \<open>
  Where a turn lands. From a reachable tracker, under an ambient bound by a scope, a turn is
  appended to the open record of its resolved key, or to a fresh record opened under that key with the
  call's session, classification and the ambient epoch; no other record changes. The record stays open
  exactly while it has fewer turns than the cap; the turn that reaches the cap closes it at once, as
  \<open>max_turns\<close>, at the turn's own time.
\<close>

lemma add_turn_lands:
  assumes "reachable tr" "ambient_ok amb" "add_turn amb clock uid scope pl now args pid sid tr = (a, tr')"
  shows "let key = resolve_record_key amb scope pid sid; ts = read_now now clock; r = the_record tr' a;
      before = (case map_of (t_open tr) key of None \<Rightarrow> [] | Some b \<Rightarrow> i_turns (the_record tr b)) in
    record_key r = key \<and> (\<forall>b. b \<noteq> a \<longrightarrow> t_heap tr' b = t_heap tr b) \<and>
    i_turns r = before @ [\<lparr>turn_at = ts, turn_payload = (case pl of None \<Rightarrow> [] | Some d \<Rightarrow> d)\<rparr>] \<and>
    (case map_of (t_open tr) key of
       Some b \<Rightarrow> a = b \<and> frozen r = frozen (the_record tr b)
     | None \<Rightarrow> t_heap tr a = None \<and> i_session_id r = or_str (oa_session_id args) LEGACY_SESSION_ID \<and>
         i_epoch_id r = resolve_epoch_id_silent amb \<and> i_classification r = oa_classification args) \<and>
    (is_open r \<longleftrightarrow> (case t_max_turns tr of None \<Rightarrow> True | Some m \<Rightarrow> int (length (i_turns r)) < m)) \<and>
    (is_open r \<or> i_close_reason r = REASON_MAX_TURNS \<and> i_closed_at r = Some ts)"
proof -
  have i: "tracker_inv tr" using assms(1) by (rule reachable_inv)
  obtain b tr1 where l: "landing amb clock uid scope now args pid sid tr = (b, tr1)" by fastforce
  let ?ts = "read_now now clock" and ?d = "case pl of None \<Rightarrow> [] | Some d \<Rightarrow> d"
  let ?tr2 = "push_turn b ?ts ?d tr1"
  let ?full = "case t_max_turns tr of None \<Rightarrow> False | Some m \<Rightarrow> int (length (i_turns (the_record tr1 b))) + 1 \<ge> m"
  note li = landing_inv[OF i l] and le = landing_exact[OF i assms(2) l]
  have p: "tracker_inv ?tr2" "live ?tr2 b" using push_turn_inv li by blast+
  have r2: "the_record ?tr2 b = (the_record tr1 b)\<lparr>i_turns := i_turns (the_record tr1 b) @ [\<lparr>turn_at = ?ts, turn_payload = ?d\<rparr>]\<rparr>"
    "\<And>c. c \<noteq> b \<Longrightarrow> t_heap ?tr2 c = t_heap tr1 c"
    by (simp_all add: push_turn_def Let_def)
  have "b \<in> set (open_records ?tr2)" using p open_records_iff[OF p(1)] by (auto simp: live_def)
  then obtain tr3 where c: "close_record clock b REASON_MAX_TURNS (Some ?ts) None ?tr2 = (Some b, tr3)"
     "t_heap tr3 = (t_heap ?tr2)(b \<mapsto> closed_record (the_record ?tr2 b) REASON_MAX_TURNS ?ts None)"
    using close_open_record[OF p(1), of b clock REASON_MAX_TURNS "Some ?ts" None] by (auto simp: read_now_def)
  have eq: "a = b" "tr' = (if ?full then tr3 else ?tr2)"
    using assms(3) c(1) unfolding add_turn_eq[OF i l] Let_def by (auto split: if_splits)
  have r: "the_record tr' a = (if ?full then closed_record (the_record ?tr2 b) REASON_MAX_TURNS ?ts None else the_record ?tr2 b)"
    "\<And>c. c \<noteq> a \<Longrightarrow> t_heap tr' c = t_heap tr c"
    using eq c(2) r2(2) le by (simp_all add: the_record_def)
  have o: "is_open (the_record ?tr2 b)" "frozen (the_record ?tr2 b) = frozen (the_record tr1 b)"
    "record_key (the_record ?tr2 b) = record_key (the_record tr1 b)"
    using p(2) by (simp_all add: live_def r2(1) frozen_def record_key_def)
  have f: "frozen (closed_record j w t x) = frozen j" for j w t x by (simp add: frozen_def closed_record_def)
  have n: "t_heap tr (t_next tr) = None"
    using i by (cases "t_heap tr (t_next tr)") (auto simp: tracker_inv_def dest: map_invD(2))
  show ?thesis unfolding Let_def
    using le r o f n eq(1) r2(1)
    by (cases "map_of (t_open tr) (resolve_record_key amb scope pid sid)"; cases "t_max_turns tr"; cases ?full)
      (auto simp: frozen_def closed_record_def is_open_def record_key_def)
qed

text \<open>A pass of wire observations, in order.\<close>

fun observe_all :: "(string \<times> bool) list \<Rightarrow> InteractionTracker \<Rightarrow> InteractionTracker" where
  "observe_all [] tr = tr"
| "observe_all ((mid, rep) # rest) tr = observe_all rest (snd (observe_wire_message mid rep tr))"

lemma observe_all_spec:
  "t_replay_pass_open (observe_all obs tr) = t_replay_pass_open tr \<and>
   t_live_message_ids (observe_all obs tr) = t_live_message_ids tr \<union>
     (if t_replay_pass_open tr then {mid. mid \<noteq> [] \<and> (mid, False) \<in> set obs} else {})"
proof (induction obs arbitrary: tr)
  case (Cons o' obs)
  obtain mid rep where o': "o' = (mid, rep)" by fastforce
  show ?case using Cons.IH[of "snd (observe_wire_message mid rep tr)"] unfolding o'
    by (auto simp: observe_wire_message_def)
qed simp

text \<open>
  The same-boot overlap is found exactly, and the record of it ends with the pass. While the
  catch-up pass is open, after any interleaving of live and replayed messages a replayed message is
  reported as a live duplicate if and only if that non-empty id was seen live; once the pass state is
  cleared, no later message is remembered or reported and no window counts as compromised.
\<close>

lemma replay_overlap_exact:
  "fst (observe_wire_message mid True (observe_all obs (mk_InteractionTracker ds t))) =
     (mid \<noteq> [] \<and> (mid, False) \<in> set obs) \<and>
   t_live_message_ids (observe_all obs (clear_replay_pass_state tr)) = {} \<and>
   \<not> fst (observe_wire_message mid rep (observe_all obs (clear_replay_pass_state tr))) \<and>
   \<not> replay_record_compromised (clear_replay_pass_state tr) ch sp"
  using observe_all_spec[of obs "mk_InteractionTracker ds t"] observe_all_spec[of obs "clear_replay_pass_state tr"]
  by (auto simp: observe_wire_message_def clear_replay_pass_state_def mk_InteractionTracker_def Let_def
      replay_record_compromised_def)


section \<open>A concrete run\<close>

text \<open>One turn of one speaker on a fresh default tracker.\<close>

definition run_ambient :: ambient where
  "run_ambient = \<lparr>active_principal = None, active_session = None, active_epoch = None,
     env_principal = None, env_session = None, env_epoch = None\<rparr>"

definition run_args :: open_args where
  "run_args = \<lparr>oa_session_id = None, oa_classification = Some ''internal'', oa_source_channel_id = Some ''room'',
     oa_replayed = False, oa_replay_attributed = False\<rparr>"

definition run_turn :: InteractionTracker where
  "run_turn = snd (add_turn run_ambient 5 ''u1'' ''room'' None None run_args None (Some ''bob'')
     (mk_InteractionTracker None 600))"

lemma run_reachable: "reachable run_turn"
  unfolding run_turn_def by (rule reach_step[OF reach_init step_add_turn])

lemma run_open: "open_records run_turn = [0]"
  by code_simp

theorem add_turn_lands_witness:
  "\<exists>a tr'. add_turn run_ambient 5 ''u1'' ''room'' None None run_args None (Some ''bob'')
      (mk_InteractionTracker None 600) = (a, tr') \<and>
    record_key (the_record tr' a) = (''local'', ''bob'', ''room'') \<and>
    length (i_turns (the_record tr' a)) = 1 \<and> is_open (the_record tr' a)"
proof -
  obtain a tr' where t: "add_turn run_ambient 5 ''u1'' ''room'' None None run_args None (Some ''bob'')
      (mk_InteractionTracker None 600) = (a, tr')" by fastforce
  have ok: "ambient_ok run_ambient" by (simp add: ambient_ok_def run_ambient_def)
  have k: "resolve_record_key run_ambient ''room'' None (Some ''bob'') = (''local'', ''bob'', ''room'')" by code_simp
  have m: "t_open (mk_InteractionTracker None 600) = []" "t_max_turns (mk_InteractionTracker None 600) = Some 200"
    by code_simp+
  show ?thesis using add_turn_lands[OF reach_init ok t] t by (auto simp: Let_def k m)
qed

theorem close_scope_exact_witness:
  "\<exists>cs tr'. close_scope 9 (Some ''room'') REASON_COST None None run_turn = (cs, tr') \<and> cs = [0] \<and>
     open_records tr' = []"
proof -
  obtain cs tr' where t: "close_scope 9 (Some ''room'') REASON_COST None None run_turn = (cs, tr')" by fastforce
  have "admitted_records run_turn (Some ''room'') None = [0]" by code_simp
  then show ?thesis using close_scope_exact[OF run_reachable t] t by (auto simp: run_open)
qed

theorem idle_check_exact_witness:
  "\<exists>cs tr'. idle_check 1000 None None run_turn = (cs, tr') \<and> cs = [0]"
proof -
  obtain cs tr' where t: "idle_check 1000 None None run_turn = (cs, tr')" by fastforce
  have "fires run_turn (read_now None 1000) 0 \<noteq> None" by code_simp
  then show ?thesis using idle_check_exact[OF run_reachable t] t by (auto simp: run_open)
qed

theorem records_evolve_witness:
  "\<exists>i j. t_heap run_turn 0 = Some i \<and>
     t_heap (snd (close_record 9 0 REASON_SHUTDOWN None None run_turn)) 0 = Some j \<and> frozen j = frozen i"
proof -
  have "t_heap run_turn 0 \<noteq> None" using open_records_iff[OF reachable_inv[OF run_reachable], of 0] run_open by simp
  then obtain i where i: "t_heap run_turn 0 = Some i" by blast
  then have "tracker_step run_turn (snd (close_record 9 0 REASON_SHUTDOWN None None run_turn))"
    by (intro step_close_record) simp
  then have "steps run_turn (snd (close_record 9 0 REASON_SHUTDOWN None None run_turn))"
    using steps_refl steps_step by blast
  from records_evolve[OF run_reachable this i] i show ?thesis by blast
qed

end
