(* ===== verification/Working_Memory.thy ===== *)
theory Working_Memory
  imports Prelude "HOL-Library.Sublist" "HOL-Library.Multiset"
begin

text \<open>
  The context window manager (\<open>src/agents/memory/working.py\<close>) and the extractive compressor of the
  memory store (\<open>src/agents/memory/store_compress.py\<close>): the list of named sections, its greedy
  assembly under a token budget, and the background pass that replaces low-priority sections by
  summaries. The tokenizer package, the model alias table and the language model are parameters whose
  calls may fail. While a summary is awaited other tasks may change the sections; what they do is a
  parameter of the pass.
\<close>


section \<open>Sections\<close>

text \<open>
  \<open>encode\<close> stands for the tokenizer package: the number of tokens, or \<open>None\<close> when the package is
  missing or raises.
\<close>

definition estimate_tokens :: "(string \<Rightarrow> nat option) \<Rightarrow> string \<Rightarrow> bool \<Rightarrow> int" where
  "estimate_tokens encode s accurate =
     (if accurate
      then (case encode s of Some n \<Rightarrow> int n | None \<Rightarrow> int (length s) div 4)
      else int (length s) div 4)"

record ContextSection =
  cs_name :: string
  cs_content :: string
  cs_priority :: int
  cs_token_count :: int
  cs_compressible :: bool

datatype compression_task = No_task | Task_running | Task_done

record WorkingMemory =
  wm_max_tokens :: int
  wm_compression_model :: string
  wm_sections :: "ContextSection list"
  wm_task :: compression_task

definition mk_WorkingMemory :: "int \<Rightarrow> string \<Rightarrow> WorkingMemory" where
  "mk_WorkingMemory max_tokens model =
     \<lparr>wm_max_tokens = max_tokens, wm_compression_model = model, wm_sections = [], wm_task = No_task\<rparr>"

definition remove_section :: "string \<Rightarrow> WorkingMemory \<Rightarrow> WorkingMemory" where
  "remove_section name wm = wm\<lparr>wm_sections := filter (\<lambda>s. cs_name s \<noteq> name) (wm_sections wm)\<rparr>"

definition add_section :: "ContextSection \<Rightarrow> WorkingMemory \<Rightarrow> WorkingMemory" where
  "add_section sec wm =
     wm\<lparr>wm_sections := filter (\<lambda>s. cs_name s \<noteq> cs_name sec) (wm_sections wm) @ [sec]\<rparr>"

definition get_section :: "WorkingMemory \<Rightarrow> string \<Rightarrow> ContextSection option" where
  "get_section wm name = find (\<lambda>s. cs_name s = name) (wm_sections wm)"

definition total_tokens :: "WorkingMemory \<Rightarrow> int" where
  "total_tokens wm = sum_list (map cs_token_count (wm_sections wm))"


section \<open>Greedy assembly\<close>

text \<open>
  The loop both assemblers run: walk the candidates with a running total, keep one exactly when it
  still fits, and go on after one that does not.
\<close>

fun fit :: "int \<Rightarrow> ('a \<Rightarrow> int) \<Rightarrow> int \<Rightarrow> 'a list \<Rightarrow> 'a list" where
  "fit cap cost running [] = []"
| "fit cap cost running (x # xs) =
     (if running + cost x \<le> cap then x # fit cap cost (running + cost x) xs
      else fit cap cost running xs)"

definition included_sections :: "WorkingMemory \<Rightarrow> ContextSection list" where
  "included_sections wm =
     fit (wm_max_tokens wm) cs_token_count 0 (sort_key (\<lambda>s. - cs_priority s) (wm_sections wm))"

definition build_context :: "WorkingMemory \<Rightarrow> (string \<times> string) list" where
  "build_context wm = map (\<lambda>s. (cs_name s, cs_content s)) (included_sections wm)"

record MemoryEntry =
  en_id :: string
  en_content :: string
  en_importance :: rat

record CompressedView =
  cv_summary :: string
  cv_entries_dropped :: int
  cv_tokens_before :: int
  cv_tokens_after :: int

text \<open>The estimate the compressor uses is the default one: a quarter of the characters.\<close>

definition entry_tokens :: "MemoryEntry \<Rightarrow> int" where
  "entry_tokens e = estimate_tokens (\<lambda>_. None) (en_content e) False"

fun join_chunks :: "string \<Rightarrow> string list \<Rightarrow> string" where
  "join_chunks sep [] = []"
| "join_chunks sep [x] = x"
| "join_chunks sep (x # y # ys) = x @ sep @ join_chunks sep (y # ys)"

definition compress_entries :: "MemoryEntry list \<Rightarrow> int \<Rightarrow> CompressedView result" where
  "compress_entries entries target =
     (if target < 0 then Inl ValueError
      else let ordered = sort_key (\<lambda>e. - en_importance e) entries;
               admitted = fit target entry_tokens 0 ordered
           in Inr \<lparr>cv_summary = join_chunks [CHR 0x0A, CHR 0x0A] (map en_content admitted),
                   cv_entries_dropped = int (length entries) - int (length admitted),
                   cv_tokens_before = sum_list (map entry_tokens entries),
                   cv_tokens_after = sum_list (map entry_tokens admitted)\<rparr>)"


section \<open>Compression\<close>

datatype llm_answer = LLM_raises | LLM_no_text | LLM_text string

text \<open>
  \<open>during s\<close> is what other tasks do to the sections while the summary of \<open>s\<close> is awaited; the
  section summarised is the one the pass read at its start.
\<close>

fun compress_loop ::
  "(string \<Rightarrow> int \<Rightarrow> llm_answer) \<Rightarrow> (string \<Rightarrow> nat option) \<Rightarrow> (ContextSection \<Rightarrow> WorkingMemory \<Rightarrow> WorkingMemory) \<Rightarrow>
   ContextSection list \<Rightarrow> WorkingMemory \<Rightarrow> WorkingMemory" where
  "compress_loop llm encode during [] wm = wm"
| "compress_loop llm encode during (s # ss) wm =
     (if total_tokens wm \<le> wm_max_tokens wm then wm
      else let wm1 = during s wm
           in compress_loop llm encode during ss
                (case llm (cs_content s) (max (cs_token_count s div 2) 64) of
                   LLM_raises \<Rightarrow> wm1
                 | LLM_no_text \<Rightarrow> wm1
                 | LLM_text summary \<Rightarrow>
                     (let n = estimate_tokens encode summary True in
                      if n \<ge> cs_token_count s then wm1
                      else add_section
                             \<lparr>cs_name = cs_name s, cs_content = summary, cs_priority = cs_priority s,
                              cs_token_count = n, cs_compressible = cs_compressible s\<rparr> wm1)))"

definition compressible_sections :: "WorkingMemory \<Rightarrow> ContextSection list" where
  "compressible_sections wm = sort_key cs_priority (filter cs_compressible (wm_sections wm))"

definition compress_if_needed ::
  "(string \<Rightarrow> (string \<times> string) option) \<Rightarrow> (string \<times> string \<Rightarrow> string \<Rightarrow> int \<Rightarrow> llm_answer) \<Rightarrow> (string \<Rightarrow> nat option) \<Rightarrow>
   (ContextSection \<Rightarrow> WorkingMemory \<Rightarrow> WorkingMemory) \<Rightarrow> WorkingMemory \<Rightarrow> WorkingMemory" where
  "compress_if_needed resolve llm encode during wm =
     (if total_tokens wm \<le> wm_max_tokens wm then wm
      else let compressible = compressible_sections wm in
           if compressible = [] then wm
           else case resolve (wm_compression_model wm) of
                  None \<Rightarrow> wm
                | Some resolved \<Rightarrow> compress_loop (llm resolved) encode during compressible wm)"

definition try_start_compression :: "WorkingMemory \<Rightarrow> WorkingMemory" where
  "try_start_compression wm =
     (if wm_task wm = No_task \<or> wm_task wm = Task_done then wm\<lparr>wm_task := Task_running\<rparr> else wm)"

text \<open>Awaiting the task runs what is left of the pass; a task that is not running changes nothing.\<close>

definition await_pending_compression :: "(WorkingMemory \<Rightarrow> WorkingMemory) \<Rightarrow> WorkingMemory \<Rightarrow> WorkingMemory" where
  "await_pending_compression pass wm =
     (if wm_task wm = Task_running then (pass wm)\<lparr>wm_task := Task_done\<rparr> else wm)"

definition close_memory :: "(WorkingMemory \<Rightarrow> WorkingMemory) \<Rightarrow> WorkingMemory \<Rightarrow> WorkingMemory" where
  "close_memory pass wm = (await_pending_compression pass wm)\<lparr>wm_sections := []\<rparr>"


section \<open>What the greedy loop keeps\<close>

lemma fit_subseq: "subseq (fit cap cost running xs) xs"
  by (induction xs arbitrary: running) (auto intro: subseq_Cons')

lemma fit_sum: "running \<le> cap \<Longrightarrow> running + sum_list (map cost (fit cap cost running xs)) \<le> cap"
  by (induction xs arbitrary: running) (auto simp: add.assoc[symmetric])

lemma fit_append:
  "fit cap cost running (xs @ ys) =
     fit cap cost running xs @ fit cap cost (running + sum_list (map cost (fit cap cost running xs))) ys"
  by (induction xs arbitrary: running) (auto simp: add.assoc)

lemma fit_all:
  "(\<And>x. x \<in> set xs \<Longrightarrow> 0 \<le> cost x) \<Longrightarrow> running + sum_list (map cost xs) \<le> cap \<Longrightarrow> fit cap cost running xs = xs"
proof (induction xs arbitrary: running)
  case (Cons x xs)
  have "0 \<le> sum_list (map cost xs)" using Cons.prems(1) by (intro sum_list_nonneg) auto
  then show ?case using Cons by (auto simp: add.assoc)
qed simp

text \<open>
  Exactly which elements are dropped: those for which there was no room after what was kept of the
  elements before them.
\<close>

lemma fit_exact:
  "fit cap cost 0 (pre @ x # post) =
     fit cap cost 0 pre @
     (if sum_list (map cost (fit cap cost 0 pre)) + cost x \<le> cap
      then x # fit cap cost (sum_list (map cost (fit cap cost 0 pre)) + cost x) post
      else fit cap cost (sum_list (map cost (fit cap cost 0 pre))) post)"
  by (simp add: fit_append)

lemma sorted_subseq: "subseq xs ys \<Longrightarrow> sorted ys \<Longrightarrow> sorted xs"
  by (induction rule: list_emb.induct) (auto dest: list_emb_set)

lemma sum_list_sort_key: "sum_list (map f (sort_key g xs)) = sum_list (map f xs)" for f :: "'a \<Rightarrow> int"
proof -
  have "mset (map f (sort_key g xs)) = mset (map f xs)" by simp
  then show ?thesis by (metis sum_mset_sum_list)
qed

text \<open>
  The context fits the window, highest priority first. What is assembled costs at most the
  budget, is a subsequence of the sections in descending priority with ties in insertion order, and a
  section is missing only when there was no room for it after what was kept of the sections before
  it; when everything fits, everything is there.
\<close>

lemma build_context_fits:
  assumes "0 \<le> wm_max_tokens wm" and "list_all (\<lambda>s. 0 \<le> cs_token_count s) (wm_sections wm)"
  shows "sum_list (map cs_token_count (included_sections wm)) \<le> wm_max_tokens wm \<and>
    sorted (map (\<lambda>s. - cs_priority s) (included_sections wm)) \<and>
    subseq (included_sections wm) (sort_key (\<lambda>s. - cs_priority s) (wm_sections wm)) \<and>
    (sort_key (\<lambda>s. - cs_priority s) (wm_sections wm) = pre @ s # post \<longrightarrow>
       (let kept = fit (wm_max_tokens wm) cs_token_count 0 pre in
        prefix kept (included_sections wm) \<and>
        (s \<notin> set (included_sections wm) \<longrightarrow> sum_list (map cs_token_count kept) + cs_token_count s > wm_max_tokens wm))) \<and>
    (total_tokens wm \<le> wm_max_tokens wm \<longrightarrow> mset (included_sections wm) = mset (wm_sections wm)) \<and>
    build_context wm = map (\<lambda>s. (cs_name s, cs_content s)) (included_sections wm)"
proof -
  let ?xs = "sort_key (\<lambda>s. - cs_priority s) (wm_sections wm)"
  have sub: "subseq (included_sections wm) ?xs" unfolding included_sections_def by (rule fit_subseq)
  moreover have "sorted (map (\<lambda>s. - cs_priority s) (included_sections wm))"
    by (rule sorted_subseq[OF subseq_map[OF sub]]) simp
  moreover have "total_tokens wm \<le> wm_max_tokens wm \<Longrightarrow> included_sections wm = ?xs"
    unfolding included_sections_def using assms(2)
    by (intro fit_all) (auto simp: list_all_iff sum_list_sort_key total_tokens_def)
  moreover have "sum_list (map cs_token_count (included_sections wm)) \<le> wm_max_tokens wm"
    using fit_sum[of 0 "wm_max_tokens wm" cs_token_count ?xs] assms(1) by (simp add: included_sections_def)
  moreover have "?xs = pre @ s # post \<Longrightarrow> included_sections wm =
      fit (wm_max_tokens wm) cs_token_count 0 pre @ fit (wm_max_tokens wm) cs_token_count
        (sum_list (map cs_token_count (fit (wm_max_tokens wm) cs_token_count 0 pre))) (s # post)"
    by (simp add: included_sections_def fit_append)
  ultimately show ?thesis by (auto simp: build_context_def Let_def split: if_splits)
qed

text \<open>A context of three sections, the middle one too large for what the first leaves.\<close>

definition sample_section :: "string \<Rightarrow> int \<Rightarrow> int \<Rightarrow> ContextSection" where
  "sample_section name priority tokens =
     \<lparr>cs_name = name, cs_content = name, cs_priority = priority, cs_token_count = tokens, cs_compressible = True\<rparr>"

definition sample_memory :: WorkingMemory where
  "sample_memory =
     add_section (sample_section ''persona'' 90 200) (add_section (sample_section ''notes'' 10 5)
       (add_section (sample_section ''system'' 100 5) (mk_WorkingMemory 100 ''summarizer'')))"

theorem build_context_fits_witness:
  "sum_list (map cs_token_count (included_sections sample_memory)) \<le> 100 \<and>
   0 \<le> wm_max_tokens sample_memory \<and> list_all (\<lambda>s. 0 \<le> cs_token_count s) (wm_sections sample_memory)"
proof -
  have m: "wm_max_tokens sample_memory = 100" by code_simp
  moreover have "list_all (\<lambda>s. 0 \<le> cs_token_count s) (wm_sections sample_memory)" by code_simp
  ultimately show ?thesis using build_context_fits[of sample_memory] by simp
qed

text \<open>
  The loop skips what does not fit and goes on, so a low-priority section can outlive a higher one:
  dropping does not start from the lowest-priority end.
\<close>

lemma drops_from_the_middle:
  "build_context sample_memory = [(''system'', ''system''), (''notes'', ''notes'')]"
  by code_simp


section \<open>Names stay unique\<close>

definition names_unique :: "WorkingMemory \<Rightarrow> bool" where
  "names_unique wm \<longleftrightarrow> distinct (map cs_name (wm_sections wm))"

lemma add_section_sel [simp]:
  "wm_max_tokens (add_section s wm) = wm_max_tokens wm" "wm_task (add_section s wm) = wm_task wm"
  "wm_compression_model (add_section s wm) = wm_compression_model wm"
  "wm_sections (add_section s wm) = filter (\<lambda>t. cs_name t \<noteq> cs_name s) (wm_sections wm) @ [s]"
  by (simp_all add: add_section_def)

lemma add_section_unique: "names_unique wm \<Longrightarrow> names_unique (add_section s wm)"
  by (auto simp: names_unique_def distinct_map_filter)

lemma remove_section_unique: "names_unique wm \<Longrightarrow> names_unique (remove_section n wm)"
  by (auto simp: names_unique_def remove_section_def distinct_map_filter)

lemma compress_loop_unique:
  assumes "\<And>s wm. names_unique wm \<Longrightarrow> names_unique (during s wm)"
  shows "names_unique wm \<Longrightarrow> names_unique (compress_loop llm encode during ss wm)"
proof (induction ss arbitrary: wm)
  case (Cons s ss)
  then show ?case using assms[of wm s] add_section_unique
    by (simp add: Let_def split: llm_answer.split)
qed simp

lemma compress_unique:
  assumes "\<And>s wm. names_unique wm \<Longrightarrow> names_unique (during s wm)" and "names_unique wm"
  shows "names_unique (compress_if_needed resolve llm encode during wm)"
  using compress_loop_unique[of during, OF assms] assms(2)
  by (simp add: compress_if_needed_def Let_def split: option.split)

text \<open>
  The operations of the memory as steps. A pass is one step whose interference is any sequence of
  the section operations.
\<close>

datatype section_op = Add ContextSection | Remove string

fun run_op :: "section_op \<Rightarrow> WorkingMemory \<Rightarrow> WorkingMemory" where
  "run_op (Add s) = add_section s"
| "run_op (Remove n) = remove_section n"

definition run_ops :: "section_op list \<Rightarrow> WorkingMemory \<Rightarrow> WorkingMemory" where
  "run_ops ops wm = fold run_op ops wm"

inductive wm_step :: "WorkingMemory \<Rightarrow> WorkingMemory \<Rightarrow> bool" where
  wm_op: "wm_step wm (run_op op wm)"
| wm_compress: "wm_step wm (compress_if_needed resolve llm encode (\<lambda>s. run_ops (meanwhile s)) wm)"
| wm_start: "wm_step wm (try_start_compression wm)"
| wm_await: "wm_step wm (await_pending_compression (compress_if_needed resolve llm encode (\<lambda>s. run_ops (meanwhile s))) wm)"
| wm_close: "wm_step wm (close_memory (compress_if_needed resolve llm encode (\<lambda>s. run_ops (meanwhile s))) wm)"

inductive wm_reachable :: "WorkingMemory \<Rightarrow> bool" where
  wm_init: "wm_reachable (mk_WorkingMemory max_tokens model)"
| wm_more: "wm_reachable wm \<Longrightarrow> wm_step wm wm' \<Longrightarrow> wm_reachable wm'"

lemma run_op_unique: "names_unique wm \<Longrightarrow> names_unique (run_op op wm)"
  by (cases op) (simp_all add: add_section_unique remove_section_unique)

lemma run_ops_unique: "names_unique wm \<Longrightarrow> names_unique (run_ops ops wm)"
  unfolding run_ops_def by (induction ops arbitrary: wm) (simp_all add: run_op_unique)

lemma names_unique_task [simp]: "names_unique (wm\<lparr>wm_task := t\<rparr>) = names_unique wm"
  by (simp add: names_unique_def)

lemma wm_step_unique: "wm_step wm wm' \<Longrightarrow> names_unique wm \<Longrightarrow> names_unique wm'"
  by (cases rule: wm_step.cases)
    (auto simp: run_op_unique compress_unique run_ops_unique try_start_compression_def
      await_pending_compression_def close_memory_def names_unique_def[of "_\<lparr>wm_sections := _\<rparr>"])

lemma wm_reachable_unique: "wm_reachable wm \<Longrightarrow> names_unique wm"
  by (induction rule: wm_reachable.induct)
    (auto simp: mk_WorkingMemory_def names_unique_def[of "mk_WorkingMemory _ _"] names_unique_def[of "\<lparr>wm_max_tokens = _, wm_compression_model = _, wm_sections = _, wm_task = _\<rparr>"] dest: wm_step_unique)

lemma get_section_name: "get_section wm n = Some s \<Longrightarrow> cs_name s = n \<and> s \<in> set (wm_sections wm)"
  by (auto simp: get_section_def find_Some_iff)

lemma find_distinct:
  "distinct (map cs_name xs) \<Longrightarrow> find (\<lambda>s. cs_name s = n) xs = Some s \<longleftrightarrow> s \<in> set xs \<and> cs_name s = n"
  by (induction xs) (auto simp: image_iff)

lemma get_section_iff: "names_unique wm \<Longrightarrow> get_section wm n = Some s \<longleftrightarrow> s \<in> set (wm_sections wm) \<and> cs_name s = n"
  by (simp add: names_unique_def get_section_def find_distinct)

lemma find_append: "find P (xs @ ys) = (case find P xs of None \<Rightarrow> find P ys | Some x \<Rightarrow> Some x)"
  by (induction xs) auto

lemma find_other: "find (\<lambda>s. cs_name s = n) (filter (\<lambda>s. cs_name s \<noteq> m) xs) =
    (if n = m then None else find (\<lambda>s. cs_name s = n) xs)"
  by (induction xs) auto

lemma get_section_add [simp]:
  "get_section (add_section s wm) n = (if n = cs_name s then Some s else get_section wm n)"
  by (auto simp: get_section_def find_append find_other split: option.split)

lemma get_section_remove [simp]:
  "get_section (remove_section m wm) n = (if n = m then None else get_section wm n)"
  by (simp add: get_section_def remove_section_def find_other)

text \<open>
  The window is a map from names to sections. After any sequence of operations, a compression
  pass interleaved with other tasks included, no two sections share a name; adding a section makes it
  the one its name finds, removing a name makes it find nothing, and no other name is affected.
\<close>

lemma sections_are_a_map:
  assumes "wm_reachable wm"
  shows "distinct (map cs_name (wm_sections wm)) \<and>
    (get_section wm n = Some s \<longleftrightarrow> s \<in> set (wm_sections wm) \<and> cs_name s = n) \<and>
    get_section (add_section sec wm) n = (if n = cs_name sec then Some sec else get_section wm n) \<and>
    get_section (remove_section m wm) n = (if n = m then None else get_section wm n)"
proof -
  have "names_unique wm" using assms by (rule wm_reachable_unique)
  then show ?thesis using get_section_iff[of wm n s] by (simp add: names_unique_def)
qed

lemma sample_reachable: "wm_reachable sample_memory"
proof -
  have "sample_memory = run_op (Add (sample_section ''persona'' 90 200)) (run_op (Add (sample_section ''notes'' 10 5))
      (run_op (Add (sample_section ''system'' 100 5)) (mk_WorkingMemory 100 ''summarizer'')))"
    by (simp add: sample_memory_def)
  then show ?thesis by (metis wm_init wm_more wm_op)
qed

theorem sections_are_a_map_witness:
  "distinct (map cs_name (wm_sections sample_memory)) \<and>
   get_section (remove_section ''notes'' sample_memory) ''notes'' = None"
  using sections_are_a_map[OF sample_reachable, of "''notes''" _ _ "''notes''"] by simp


section \<open>What a pass does\<close>

definition summarised :: "(string \<Rightarrow> int \<Rightarrow> llm_answer) \<Rightarrow> (string \<Rightarrow> nat option) \<Rightarrow> ContextSection \<Rightarrow> ContextSection" where
  "summarised llm encode s =
     (case llm (cs_content s) (max (cs_token_count s div 2) 64) of
        LLM_text t \<Rightarrow> if estimate_tokens encode t True \<ge> cs_token_count s then s
                       else s\<lparr>cs_content := t, cs_token_count := estimate_tokens encode t True\<rparr>
      | _ \<Rightarrow> s)"

lemma summarised_sel [simp]:
  "cs_name (summarised llm encode s) = cs_name s" "cs_priority (summarised llm encode s) = cs_priority s"
  "cs_compressible (summarised llm encode s) = cs_compressible s"
  by (auto simp: summarised_def split: llm_answer.split)

lemma summarised_smaller:
  "summarised llm encode s = s \<or> cs_token_count (summarised llm encode s) < cs_token_count s"
  by (auto simp: summarised_def split: llm_answer.split)

lemma sum_list_filter_name:
  "distinct (map cs_name xs) \<Longrightarrow> s \<in> set xs \<Longrightarrow>
   sum_list (map cs_token_count (filter (\<lambda>t. cs_name t \<noteq> cs_name s) xs)) =
     sum_list (map cs_token_count xs) - cs_token_count s"
proof (induction xs)
  case (Cons x xs)
  then show ?case
  proof (cases "x = s")
    case True
    then have "filter (\<lambda>t. cs_name t \<noteq> cs_name s) xs = xs" using Cons.prems(1) by (auto simp: filter_id_conv image_iff)
    then show ?thesis using True by simp
  qed (use Cons in \<open>auto simp: image_iff\<close>)
qed simp

lemma total_tokens_add:
  assumes "names_unique wm" "get_section wm (cs_name new) = Some old"
  shows "total_tokens (add_section new wm) = total_tokens wm - cs_token_count old + cs_token_count new"
proof -
  have "old \<in> set (wm_sections wm)" "cs_name old = cs_name new" using assms by (simp_all add: get_section_iff)
  then show ?thesis using sum_list_filter_name[of "wm_sections wm" old] assms(1)
    by (simp add: total_tokens_def names_unique_def)
qed

text \<open>One round of the pass with no other task in between puts the summarised section in place.\<close>

definition compress_one :: "(string \<Rightarrow> int \<Rightarrow> llm_answer) \<Rightarrow> (string \<Rightarrow> nat option) \<Rightarrow> ContextSection \<Rightarrow> WorkingMemory \<Rightarrow> WorkingMemory" where
  "compress_one llm encode s wm =
     (if summarised llm encode s = s then wm else add_section (summarised llm encode s) wm)"

lemma compress_loop_quiet_Cons:
  "compress_loop llm encode (\<lambda>_ w. w) (s # ss) wm =
     (if total_tokens wm \<le> wm_max_tokens wm then wm
      else compress_loop llm encode (\<lambda>_ w. w) ss (compress_one llm encode s wm))"
proof (cases "llm (cs_content s) (max (cs_token_count s div 2) 64)")
  case (LLM_text t)
  then show ?thesis by (cases s) (auto simp: compress_one_def summarised_def Let_def)
qed (simp_all add: compress_one_def summarised_def)

lemma compress_one_spec:
  assumes "names_unique wm" "get_section wm (cs_name s) = Some s"
  shows "names_unique (compress_one llm encode s wm)"
    and "wm_max_tokens (compress_one llm encode s wm) = wm_max_tokens wm"
    and "total_tokens (compress_one llm encode s wm) \<le> total_tokens wm"
    and "get_section (compress_one llm encode s wm) n =
           (if n = cs_name s then Some (summarised llm encode s) else get_section wm n)"
  using assms summarised_smaller[of llm encode s] total_tokens_add[of wm "summarised llm encode s" s]
  by (auto simp: compress_one_def add_section_unique)

text \<open>
  A quiet pass summarises a prefix of the sections it set out to summarise, and stops early only when
  the total fits.
\<close>

lemma compress_loop_quiet:
  assumes "names_unique wm" "distinct (map cs_name ss)" "\<And>s. s \<in> set ss \<Longrightarrow> get_section wm (cs_name s) = Some s"
  shows "\<exists>k \<le> length ss. let wm' = compress_loop llm encode (\<lambda>_ w. w) ss wm in
    total_tokens wm' \<le> total_tokens wm \<and>
    (\<forall>n. get_section wm' n =
       (case find (\<lambda>s. cs_name s = n) (take k ss) of Some s \<Rightarrow> Some (summarised llm encode s) | None \<Rightarrow> get_section wm n)) \<and>
    (k < length ss \<longrightarrow> total_tokens wm' \<le> wm_max_tokens wm)"
  using assms
proof (induction ss arbitrary: wm)
  case (Cons s ss)
  let ?w = "compress_one llm encode s wm"
  show ?case
  proof (cases "total_tokens wm \<le> wm_max_tokens wm")
    case True
    then show ?thesis by (intro exI[of _ 0]) simp
  next
    case False
    have g: "get_section wm (cs_name s) = Some s" using Cons.prems(3) by simp
    note one = compress_one_spec[OF Cons.prems(1) g, of llm encode]
    have "get_section ?w (cs_name t) = Some t" if "t \<in> set ss" for t
      using that Cons.prems(2,3) one(4)[of "cs_name t"] by (auto simp: image_iff)
    then obtain k where k: "k \<le> length ss" and I: "let wm' = compress_loop llm encode (\<lambda>_ w. w) ss ?w in
        total_tokens wm' \<le> total_tokens ?w \<and>
        (\<forall>n. get_section wm' n = (case find (\<lambda>s. cs_name s = n) (take k ss) of
            Some s \<Rightarrow> Some (summarised llm encode s) | None \<Rightarrow> get_section ?w n)) \<and>
        (k < length ss \<longrightarrow> total_tokens wm' \<le> wm_max_tokens wm)"
      using Cons.IH[OF one(1)] Cons.prems(2) one(2) by auto
    have nf: "find (\<lambda>t. cs_name t = cs_name s) (take k ss) = None"
      using Cons.prems(2) by (auto simp: find_None_iff image_iff) (metis in_set_takeD)
    have eq: "compress_loop llm encode (\<lambda>_ w. w) (s # ss) wm = compress_loop llm encode (\<lambda>_ w. w) ss ?w"
      using False by (simp only: compress_loop_quiet_Cons if_False)
    have "get_section (compress_loop llm encode (\<lambda>_ w. w) ss ?w) n =
        (case find (\<lambda>s. cs_name s = n) (take (Suc k) (s # ss)) of
           Some s \<Rightarrow> Some (summarised llm encode s) | None \<Rightarrow> get_section wm n)" for n
      using I nf one(4)[of n] by (cases "cs_name s = n") (auto simp: Let_def split: option.split)
    then show ?thesis using k I one(3) unfolding eq Let_def
      by (intro exI[of _ "Suc k"]) (auto simp del: compress_loop.simps)
  qed
qed (simp add: Let_def)

lemma take_lower_priority:
  assumes "s \<in> set (take k (sort_key f xs))" "t \<in> set xs" "f t < f s"
  shows "t \<in> set (take k (sort_key f xs))"
proof -
  let ?ys = "sort_key f xs"
  obtain i where i: "i < k" "i < length ?ys" "?ys ! i = s" using assms(1) by (auto simp: in_set_conv_nth)
  obtain j where j: "j < length ?ys" "?ys ! j = t" using assms(2) by (metis in_set_conv_nth set_sort)
  have "\<not> i \<le> j"
  proof
    assume "i \<le> j"
    then have "map f ?ys ! i \<le> map f ?ys ! j" using j by (intro sorted_nth_mono) simp_all
    then show False using i j assms(3) by simp
  qed
  then show ?thesis using i j by (auto simp: in_set_conv_nth intro!: exI[of _ j])
qed

text \<open>The sections a quiet pass tried, as a set: closed downwards in priority, and all of them if it did not help enough.\<close>

lemma pass_tried:
  assumes u: "names_unique wm" and over: "total_tokens wm > wm_max_tokens wm"
    and r: "resolve (wm_compression_model wm) = Some r"
    and w: "wm' = compress_if_needed resolve llm encode (\<lambda>_ w. w) wm"
  obtains T where "T \<subseteq> {t \<in> set (wm_sections wm). cs_compressible t}"
    and "\<forall>s t. s \<in> T \<and> t \<in> set (wm_sections wm) \<and> cs_compressible t \<and> cs_priority t < cs_priority s \<longrightarrow> t \<in> T"
    and "\<forall>t \<in> T. get_section wm' (cs_name t) = Some (summarised (llm r) encode t)"
    and "\<forall>m. (\<forall>t \<in> T. cs_name t \<noteq> m) \<longrightarrow> get_section wm' m = get_section wm m"
    and "total_tokens wm' > wm_max_tokens wm \<longrightarrow> T = {t \<in> set (wm_sections wm). cs_compressible t}"
    and "total_tokens wm' \<le> total_tokens wm"
proof -
  let ?cs = "compressible_sections wm"
  have mem: "set ?cs = {t \<in> set (wm_sections wm). cs_compressible t}" by (auto simp: compressible_sections_def)
  have "mset (map cs_name ?cs) = mset (map cs_name (filter cs_compressible (wm_sections wm)))"
    by (simp add: compressible_sections_def)
  then have d: "distinct (map cs_name ?cs)"
    using u distinct_map_filter[of cs_name "wm_sections wm"] mset_eq_imp_distinct_iff by (metis names_unique_def)
  have w': "wm' = compress_loop (llm r) encode (\<lambda>_ w. w) ?cs wm"
    using over r w by (auto simp: compress_if_needed_def Let_def)
  have filed: "get_section wm (cs_name t) = Some t" if "t \<in> set ?cs" for t
    using that by (simp add: get_section_iff[OF u] mem)
  obtain k where k: "k \<le> length ?cs" and tot: "total_tokens wm' \<le> total_tokens wm"
    and get: "\<And>n. get_section wm' n = (case find (\<lambda>s. cs_name s = n) (take k ?cs) of
        Some s \<Rightarrow> Some (summarised (llm r) encode s) | None \<Rightarrow> get_section wm n)"
    and early: "k < length ?cs \<Longrightarrow> total_tokens wm' \<le> wm_max_tokens wm"
    using compress_loop_quiet[OF u d filed, of "llm r" encode] unfolding w' Let_def by blast
  have dk: "distinct (map cs_name (take k ?cs))" using d by (metis distinct_take take_map)
  show thesis
  proof (rule that[of "set (take k ?cs)"])
    show "set (take k ?cs) \<subseteq> {t \<in> set (wm_sections wm). cs_compressible t}" using mem by (auto dest: in_set_takeD)
    show "\<forall>t \<in> set (take k ?cs). get_section wm' (cs_name t) = Some (summarised (llm r) encode t)"
    proof
      fix t assume "t \<in> set (take k ?cs)"
      then show "get_section wm' (cs_name t) = Some (summarised (llm r) encode t)"
        using find_distinct[OF dk, of "cs_name t" t] by (simp add: get)
    qed
    show "\<forall>m. (\<forall>t \<in> set (take k ?cs). cs_name t \<noteq> m) \<longrightarrow> get_section wm' m = get_section wm m"
    proof (intro allI impI)
      fix m assume "\<forall>t \<in> set (take k ?cs). cs_name t \<noteq> m"
      then have "find (\<lambda>s. cs_name s = m) (take k ?cs) = None" by (auto simp: find_None_iff)
      then show "get_section wm' m = get_section wm m" by (simp add: get)
    qed
    show "total_tokens wm' > wm_max_tokens wm \<longrightarrow> set (take k ?cs) = {t \<in> set (wm_sections wm). cs_compressible t}"
      using early k mem by (metis le_neq_implies_less not_less take_all_iff)
    show "\<forall>s t. s \<in> set (take k ?cs) \<and> t \<in> set (wm_sections wm) \<and> cs_compressible t \<and>
        cs_priority t < cs_priority s \<longrightarrow> t \<in> set (take k ?cs)"
      using take_lower_priority[of _ k cs_priority "filter cs_compressible (wm_sections wm)"]
      unfolding compressible_sections_def by auto
  qed (rule tot)
qed

text \<open>
  What a compression pass does when nothing else runs. It never makes the window larger and
  changes nothing when the window fits or the model alias does not resolve; every section keeps its
  name, priority and flag and is either untouched or, if compressible, replaced by a summary with
  strictly fewer tokens; a section is replaced only after every usable summary of lower priority was
  put in place; and if the window is still too large, every compressible section was tried.
\<close>

lemma compression_pass:
  assumes "wm_reachable wm"
    and "wm' = compress_if_needed resolve llm encode (\<lambda>_ w. w) wm"
  shows "total_tokens wm' \<le> total_tokens wm \<and>
    (total_tokens wm \<le> wm_max_tokens wm \<or> resolve (wm_compression_model wm) = None \<longrightarrow> wm' = wm) \<and>
    (get_section wm n = None \<longrightarrow> get_section wm' n = None) \<and>
    (\<forall>r s. resolve (wm_compression_model wm) = Some r \<and> get_section wm n = Some s \<longrightarrow>
       (get_section wm' n = Some s \<or> cs_compressible s \<and> get_section wm' n = Some (summarised (llm r) encode s)) \<and>
       (cs_compressible s \<and> total_tokens wm' > wm_max_tokens wm \<longrightarrow>
          get_section wm' n = Some (summarised (llm r) encode s)) \<and>
       (\<forall>t. get_section wm' n \<noteq> Some s \<and> t \<in> set (wm_sections wm) \<and> cs_compressible t \<and> cs_priority t < cs_priority s \<longrightarrow>
          get_section wm' (cs_name t) = Some (summarised (llm r) encode t)))"
proof (cases "total_tokens wm \<le> wm_max_tokens wm \<or> resolve (wm_compression_model wm) = None")
  case True
  then have "wm' = wm" using assms(2) by (auto simp: compress_if_needed_def Let_def)
  then show ?thesis using True by auto
next
  case False
  then obtain r where over: "total_tokens wm > wm_max_tokens wm"
    and r: "resolve (wm_compression_model wm) = Some r" by auto
  have u: "names_unique wm" using assms(1) by (rule wm_reachable_unique)
  obtain T where T: "T \<subseteq> {t \<in> set (wm_sections wm). cs_compressible t}"
    and down: "\<forall>s t. s \<in> T \<and> t \<in> set (wm_sections wm) \<and> cs_compressible t \<and> cs_priority t < cs_priority s \<longrightarrow> t \<in> T"
    and hit: "\<forall>t \<in> T. get_section wm' (cs_name t) = Some (summarised (llm r) encode t)"
    and miss: "\<forall>m. (\<forall>t \<in> T. cs_name t \<noteq> m) \<longrightarrow> get_section wm' m = get_section wm m"
    and full: "total_tokens wm' > wm_max_tokens wm \<longrightarrow> T = {t \<in> set (wm_sections wm). cs_compressible t}"
    and tot: "total_tokens wm' \<le> total_tokens wm"
    by (rule pass_tried[OF u over r assms(2)])
  have named: "get_section wm (cs_name t) = Some t" if "t \<in> T" for t using that T by (auto simp: get_section_iff[OF u])
  have none: "get_section wm n = None \<longrightarrow> get_section wm' n = None" using miss named by (metis option.distinct(1))
  have some: "get_section wm' n = (if s \<in> T then Some (summarised (llm r) encode s) else Some s)"
    if g: "get_section wm n = Some s" for s
    using g hit miss named get_section_name[OF g] by (metis option.inject)
  have "(get_section wm' n = Some s \<or> cs_compressible s \<and> get_section wm' n = Some (summarised (llm r) encode s)) \<and>
       (cs_compressible s \<and> total_tokens wm' > wm_max_tokens wm \<longrightarrow>
          get_section wm' n = Some (summarised (llm r) encode s)) \<and>
       (\<forall>t. get_section wm' n \<noteq> Some s \<and> t \<in> set (wm_sections wm) \<and> cs_compressible t \<and> cs_priority t < cs_priority s \<longrightarrow>
          get_section wm' (cs_name t) = Some (summarised (llm r) encode t))" if g: "get_section wm n = Some s" for s
    using some[OF g] T full down hit get_section_name[OF g] by (cases "s \<in> T") auto
  then show ?thesis using over r tot none by auto
qed

text \<open>
  The sample window is over its budget; a model that answers every request with one word shrinks the
  lowest section first and stops as soon as the window fits.
\<close>

definition one_word :: "string \<times> string \<Rightarrow> string \<Rightarrow> int \<Rightarrow> llm_answer" where
  "one_word _ _ _ = LLM_text ''short''"

definition sample_pass :: WorkingMemory where
  "sample_pass = compress_if_needed (\<lambda>alias. Some (alias, alias)) one_word (\<lambda>_. None) (\<lambda>_ w. w) sample_memory"

theorem compression_pass_witness:
  "wm_reachable sample_memory \<and> total_tokens sample_pass \<le> total_tokens sample_memory \<and>
   get_section sample_pass ''persona'' = Some ((sample_section ''persona'' 90 200)\<lparr>cs_content := ''short'', cs_token_count := 1\<rparr>)"
proof -
  have "get_section sample_pass ''persona'' = Some ((sample_section ''persona'' 90 200)\<lparr>cs_content := ''short'', cs_token_count := 1\<rparr>)"
    by code_simp
  then show ?thesis
    using compression_pass[OF sample_reachable sample_pass_def, of "''persona''"] sample_reachable by simp
qed

text \<open>
  With other tasks in between the pass can undo them: a section removed while its summary is awaited
  comes back, holding the summary of the content that was removed.
\<close>

lemma pass_revives_removed_section:
  "get_section (compress_if_needed (\<lambda>alias. Some (alias, alias)) one_word (\<lambda>_. None)
      (\<lambda>s. run_ops [Remove (cs_name s)]) sample_memory) ''notes'' =
     Some ((sample_section ''notes'' 10 5)\<lparr>cs_content := ''short'', cs_token_count := 1\<rparr>)"
  by code_simp


section \<open>The extractive compressor\<close>

text \<open>
  The extractive view accounts for every entry. A negative target is the only error; otherwise
  the admitted entries cost at most the target by the estimate used, admitted and dropped entries
  together are all entries, and nothing is dropped when everything fits.
\<close>

lemma compress_entries_accounts:
  "(target < 0 \<longrightarrow> compress_entries entries target = Inl ValueError) \<and>
   (target \<ge> 0 \<longrightarrow> (\<exists>view admitted. compress_entries entries target = Inr view \<and>
      subseq admitted (sort_key (\<lambda>e. - en_importance e) entries) \<and>
      cv_summary view = join_chunks [CHR 0x0A, CHR 0x0A] (map en_content admitted) \<and>
      cv_tokens_after view = sum_list (map entry_tokens admitted) \<and> cv_tokens_after view \<le> target \<and>
      0 \<le> cv_entries_dropped view \<and> cv_entries_dropped view + int (length admitted) = int (length entries) \<and>
      cv_tokens_after view \<le> cv_tokens_before view \<and>
      (cv_tokens_before view \<le> target \<longrightarrow> mset admitted = mset entries)))"
proof (intro conjI impI)
  assume t: "target \<ge> 0"
  let ?ys = "sort_key (\<lambda>e. - en_importance e) entries"
  let ?a = "fit target entry_tokens 0 ?ys"
  have pos: "0 \<le> entry_tokens e" for e by (simp add: entry_tokens_def estimate_tokens_def)
  have before: "sum_list (map entry_tokens ?ys) = sum_list (map entry_tokens entries)" by (rule sum_list_sort_key)
  have sub: "subseq ?a ?ys" by (rule fit_subseq)
  then have "length ?a \<le> length entries" by (metis length_sort list_emb_length)
  moreover have "sum_list (map entry_tokens ?a) \<le> target" using fit_sum[of 0 target entry_tokens ?ys] t by simp
  moreover have all: "?a = ?ys" if "sum_list (map entry_tokens entries) \<le> target"
    using that pos before by (intro fit_all) auto
  moreover have "sum_list (map entry_tokens ?a) \<le> sum_list (map entry_tokens entries)"
    using all calculation(2) by (cases "sum_list (map entry_tokens entries) \<le> target") (auto simp: before)
  ultimately show "\<exists>view admitted. compress_entries entries target = Inr view \<and> subseq admitted ?ys \<and>
      cv_summary view = join_chunks [CHR 0x0A, CHR 0x0A] (map en_content admitted) \<and>
      cv_tokens_after view = sum_list (map entry_tokens admitted) \<and> cv_tokens_after view \<le> target \<and>
      0 \<le> cv_entries_dropped view \<and> cv_entries_dropped view + int (length admitted) = int (length entries) \<and>
      cv_tokens_after view \<le> cv_tokens_before view \<and>
      (cv_tokens_before view \<le> target \<longrightarrow> mset admitted = mset entries)"
    using sub t by (intro exI[of _ "projr (compress_entries entries target)"] exI[of _ ?a])
      (simp add: compress_entries_def Let_def)
qed (simp add: compress_entries_def)

lemma compress_entries_accounts_witness:
  "compress_entries [] (- 1) = Inl ValueError \<and>
   (\<exists>view. compress_entries [\<lparr>en_id = ''e'', en_content = ''abcd'', en_importance = 1\<rparr>] 1 = Inr view \<and> cv_tokens_after view \<le> 1)"
  using compress_entries_accounts[of "- 1" "[]"]
    compress_entries_accounts[of 1 "[\<lparr>en_id = ''e'', en_content = ''abcd'', en_importance = 1\<rparr>]"] by fastforce

text \<open>
  The count adds up the entries and not the joined text: three entries of three characters each cost
  nothing, and their joined summary is over a target of zero by the same estimate.
\<close>

lemma view_over_target:
  defines "e \<equiv> \<lparr>en_id = ''e'', en_content = ''abc'', en_importance = 1\<rparr>"
  shows "\<exists>view. compress_entries [e, e, e] 0 = Inr view \<and> cv_tokens_after view = 0 \<and>
    estimate_tokens (\<lambda>_. None) (cv_summary view) False = 3"
  unfolding e_def by (intro exI[of _ "\<lparr>cv_summary = ''abc'' @ [CHR 0x0A, CHR 0x0A] @ ''abc'' @ [CHR 0x0A, CHR 0x0A] @ ''abc'',
    cv_entries_dropped = 0, cv_tokens_before = 0, cv_tokens_after = 0\<rparr>"])
    (simp add: compress_entries_def entry_tokens_def estimate_tokens_def)

end
