(* ===== verification/Event_Loop.thy ===== *)
theory Event_Loop
  imports Persona_Types "HOL-Library.Sublist" "HOL-Library.Multiset"
begin

text \<open>
  The per-agent wake queue and its supervisor (\<open>src/agents/event_loop.py\<close>, \<open>event_loop_types.py\<close>,
  \<open>event_loop_lifecycle.py\<close>, \<open>event_loop_timers.py\<close>).

  The state is the loop object together with the points at which its tasks are suspended: the
  supervisor (not started yet, waiting for a wake, inside a callback, finished), the detached
  resolvers of reentrant wakes, and the \<open>stop\<close> coroutine between its awaits. Everything between two
  awaits is one function, and the step relation interleaves them with any producer. What a callback
  answers is chosen by the step: it may return, raise, or be cancelled. Handles are numbered; the
  history of the queue and the resolvers that were cancelled before their first step are kept as
  ghost fields, which no operation reads. The counters are those of a process whose instruments are
  configured; without them the source exports nothing and counts its drops all the same.
\<close>


section \<open>Wakes and handles\<close>

record MemoryWriteEvent =
  we_agent_id :: string
  we_tier :: string
  we_salience :: rat
  we_source_span_id :: "string option"
  we_written_at :: rat

type_synonym handle = nat

datatype WakeEvent =
    InboundEventWake AgentEvent "handle option"
  | ScheduledWake string string
  | SalienceWake "MemoryWriteEvent option"
  | StopSentinel

datatype handle_state = Pending | Resolved "AgentAction list" | Rejected | Cancelled

fun wake_handle :: "WakeEvent \<Rightarrow> handle option" where
  "wake_handle (InboundEventWake ev h) = h"
| "wake_handle _ = None"

text \<open>\<open>ET_created\<close>: the task exists and has not run its first step.\<close>

datatype task_state = ET_created | ET_waiting | ET_handling WakeEvent | ET_finished

datatype resolver_state = RS_spawned | RS_running | RS_spawned_cancelled | RS_running_cancelled

datatype stop_phase = Not_stopping | Await_resolvers | Await_supervisor

datatype wake_outcome = Handled | Discarded

record TimerEntry =
  te_interval :: "rat option"
  te_callback_kind :: string
  te_jitter_max :: rat
  te_one_shot :: bool
  te_delay :: rat

record EventLoop =
  el_agent_id :: string
  el_has_on_inbound :: bool
  el_maxsize :: int
  el_queue :: "WakeEvent list"
  el_task :: "task_state option"
  el_cancel :: bool
  el_stopped :: bool
  el_stop :: stop_phase
  el_subscribed :: bool
  el_timers :: "(string \<times> TimerEntry) list"
  el_dropped_count :: nat
  el_last_queue_full_log :: "rat option"
  el_warnings :: "rat list"
  el_metrics :: "string list"
  el_next_handle :: handle
  el_handles :: "handle \<Rightarrow> handle_state option"
  el_reentrant :: "(handle \<times> AgentEvent \<times> resolver_state) list"
  el_accepted :: "WakeEvent list"
  el_history :: "(WakeEvent \<times> wake_outcome) list"
  el_unstarted :: "handle list"

definition DEFAULT_QUEUE_SIZE :: int where "DEFAULT_QUEUE_SIZE = 1024"
definition MIN_INTERVAL :: rat where "MIN_INTERVAL = 1"
definition QUEUE_FULL_LOG_INTERVAL_S :: rat where "QUEUE_FULL_LOG_INTERVAL_S = 60"

definition mk_EventLoop :: "string \<Rightarrow> bool \<Rightarrow> int \<Rightarrow> EventLoop" where
  "mk_EventLoop agent has_on_inbound queue_size =
     \<lparr>el_agent_id = agent, el_has_on_inbound = has_on_inbound, el_maxsize = queue_size, el_queue = [],
      el_task = None, el_cancel = False, el_stopped = False, el_stop = Not_stopping, el_subscribed = False,
      el_timers = [], el_dropped_count = 0, el_last_queue_full_log = None, el_warnings = [],
      el_metrics = [], el_next_handle = 0, el_handles = Map.empty, el_reentrant = [],
      el_accepted = [], el_history = [], el_unstarted = []\<rparr>"

definition is_running :: "EventLoop \<Rightarrow> bool" where
  "is_running el \<longleftrightarrow> el_task el \<noteq> None \<and> el_task el \<noteq> Some ET_finished"

text \<open>Settling a future that is already done is ignored.\<close>

definition settle :: "handle \<Rightarrow> handle_state \<Rightarrow> EventLoop \<Rightarrow> EventLoop" where
  "settle h st el = (if el_handles el h = Some Pending then el\<lparr>el_handles := (el_handles el)(h \<mapsto> st)\<rparr> else el)"

definition resolve_handle :: "handle \<Rightarrow> AgentAction list \<Rightarrow> EventLoop \<Rightarrow> EventLoop" where
  "resolve_handle h actions el = settle h (Resolved actions) el"

definition reject_handle :: "handle \<Rightarrow> EventLoop \<Rightarrow> EventLoop" where
  "reject_handle h el = settle h Rejected el"

definition emit :: "string \<Rightarrow> EventLoop \<Rightarrow> EventLoop" where
  "emit counter el = el\<lparr>el_metrics := el_metrics el @ [counter]\<rparr>"


section \<open>Producers\<close>

definition spawn_reentrant :: "AgentEvent \<Rightarrow> handle \<Rightarrow> EventLoop \<Rightarrow> EventLoop" where
  "spawn_reentrant ev h el =
     (emit ''wake_inbound'' el)\<lparr>el_reentrant := el_reentrant el @ [(h, ev, RS_spawned)]\<rparr>"

definition log_queue_full :: "rat \<Rightarrow> EventLoop \<Rightarrow> EventLoop" where
  "log_queue_full now el =
     (case el_last_queue_full_log el of
        Some prev \<Rightarrow>
          if now - prev < QUEUE_FULL_LOG_INTERVAL_S then el
          else el\<lparr>el_warnings := el_warnings el @ [now], el_last_queue_full_log := Some now\<rparr>
      | None \<Rightarrow> el\<lparr>el_warnings := el_warnings el @ [now], el_last_queue_full_log := Some now\<rparr>)"

definition queue_full :: "EventLoop \<Rightarrow> bool" where
  "queue_full el \<longleftrightarrow> el_maxsize el > 0 \<and> int (length (el_queue el)) \<ge> el_maxsize el"

definition put_nowait :: "WakeEvent \<Rightarrow> EventLoop \<Rightarrow> EventLoop" where
  "put_nowait wake el = el\<lparr>el_queue := el_queue el @ [wake], el_accepted := el_accepted el @ [wake]\<rparr>"

text \<open>\<open>in_supervisor\<close> says whether the calling task is the supervisor itself.\<close>

definition enqueue :: "bool \<Rightarrow> rat \<Rightarrow> WakeEvent \<Rightarrow> EventLoop \<Rightarrow> bool \<times> EventLoop" where
  "enqueue in_supervisor now wake el =
     (if el_stopped el then
        (False, case wake_handle wake of Some h \<Rightarrow> resolve_handle h [] el | None \<Rightarrow> el)
      else case wake of
        InboundEventWake ev (Some h) \<Rightarrow>
          if in_supervisor then (True, spawn_reentrant ev h el)
          else if queue_full el
            then (False, emit ''wake_dropped'' (log_queue_full now (el\<lparr>el_dropped_count := el_dropped_count el + 1\<rparr>)))
          else (True, put_nowait wake el)
      | _ \<Rightarrow>
          if queue_full el
            then (False, emit ''wake_dropped'' (log_queue_full now (el\<lparr>el_dropped_count := el_dropped_count el + 1\<rparr>)))
          else (True, put_nowait wake el))"

text \<open>
  The dispatcher's synchronous path makes a fresh handle for the wake. When the wake is dropped the
  caller answers with no actions at once and the handle, which nothing else refers to, is forgotten.
\<close>

definition dispatch_sync :: "bool \<Rightarrow> rat \<Rightarrow> AgentEvent \<Rightarrow> EventLoop \<Rightarrow> handle option \<times> EventLoop" where
  "dispatch_sync in_supervisor now ev el =
     (let h = el_next_handle el;
          el0 = el\<lparr>el_next_handle := h + 1, el_handles := (el_handles el)(h \<mapsto> Pending)\<rparr>;
          (accepted, el1) = enqueue in_supervisor now (InboundEventWake ev (Some h)) el0
      in if accepted then (Some h, el1)
         else (None, el1\<lparr>el_handles := (el_handles el1)(h := None)\<rparr>))"

text \<open>An awaiter that gives up cancels the future it awaits.\<close>

definition cancel_handle :: "handle \<Rightarrow> EventLoop \<Rightarrow> EventLoop" where
  "cancel_handle h el = settle h Cancelled el"


section \<open>Timers\<close>

text \<open>\<open>rnd\<close> is the draw of \<open>random.uniform(-jitter_max, jitter_max)\<close>.\<close>

definition next_delay :: "rat \<Rightarrow> TimerEntry \<Rightarrow> rat option" where
  "next_delay rnd entry =
     (case te_interval entry of
        None \<Rightarrow> None
      | Some interval \<Rightarrow> if te_jitter_max entry \<le> 0 then Some interval else Some (interval + rnd))"

definition has_timer :: "EventLoop \<Rightarrow> string \<Rightarrow> bool" where
  "has_timer el timer_id \<longleftrightarrow> map_of (el_timers el) timer_id \<noteq> None"

definition arm_timer :: "rat \<Rightarrow> string \<Rightarrow> TimerEntry \<Rightarrow> rat option \<Rightarrow> EventLoop \<Rightarrow> EventLoop" where
  "arm_timer rnd timer_id entry initial_delay el =
     (let d = (case initial_delay of Some d \<Rightarrow> d | None \<Rightarrow> the (next_delay rnd entry))
      in el\<lparr>el_timers := AList.update timer_id (entry\<lparr>te_delay := d\<rparr>) (el_timers el)\<rparr>)"

definition register_timer ::
  "rat \<Rightarrow> string \<Rightarrow> string \<Rightarrow> rat option \<Rightarrow> rat \<Rightarrow> rat option \<Rightarrow> rat option \<Rightarrow> EventLoop \<Rightarrow> EventLoop result" where
  "register_timer rnd timer_id kind interval jitter_max fire_after initial_delay el =
     (if has_timer el timer_id then Inl ValueError
      else if (interval = None) = (fire_after = None) then Inl ValueError
      else if (case interval of Some i \<Rightarrow> i < MIN_INTERVAL | None \<Rightarrow> False) then Inl ValueError
      else if (case fire_after of Some f \<Rightarrow> f \<le> 0 | None \<Rightarrow> False) then Inl ValueError
      else if jitter_max < 0 then Inl ValueError
      else if (case interval of Some i \<Rightarrow> jitter_max > i - MIN_INTERVAL | None \<Rightarrow> False) then Inl ValueError
      else if (case initial_delay of Some d \<Rightarrow> fire_after \<noteq> None \<or> d < 0 | None \<Rightarrow> False) then Inl ValueError
      else let entry = \<lparr>te_interval = interval, te_callback_kind = kind, te_jitter_max = jitter_max,
                        te_one_shot = (fire_after \<noteq> None), te_delay = 0\<rparr>
           in Inr (arm_timer rnd timer_id entry (case fire_after of Some f \<Rightarrow> Some f | None \<Rightarrow> initial_delay) el))"

definition unregister_timer :: "string \<Rightarrow> EventLoop \<Rightarrow> EventLoop" where
  "unregister_timer timer_id el = el\<lparr>el_timers := AList.delete timer_id (el_timers el)\<rparr>"

text \<open>A timer that comes due; a cancelled one is no longer in the registry and never does.\<close>

definition fire_timer :: "rat \<Rightarrow> rat \<Rightarrow> string \<Rightarrow> EventLoop \<Rightarrow> EventLoop" where
  "fire_timer now rnd timer_id el =
     (case map_of (el_timers el) timer_id of
        None \<Rightarrow> el
      | Some entry \<Rightarrow>
          (let el1 = snd (enqueue False now (ScheduledWake timer_id (te_callback_kind entry)) el)
           in if te_one_shot entry then el1\<lparr>el_timers := AList.delete timer_id (el_timers el1)\<rparr>
              else arm_timer rnd timer_id entry (next_delay rnd entry) el1))"


section \<open>Supervisor\<close>

datatype callback_answer = CB_returns "AgentAction list" | CB_raises | CB_cancelled

definition start_loop :: "EventLoop \<Rightarrow> EventLoop" where
  "start_loop el =
     (if is_running el then el
      else el\<lparr>el_stopped := False, el_subscribed := True, el_task := Some ET_created, el_cancel := False\<rparr>)"

text \<open>The first step of the supervisor, and the test of its loop after each wake.\<close>

definition next_task :: "EventLoop \<Rightarrow> task_state" where
  "next_task el = (if el_stopped el then ET_finished else ET_waiting)"

definition sup_begin :: "EventLoop \<Rightarrow> EventLoop" where
  "sup_begin el = el\<lparr>el_task := Some (next_task el)\<rparr>"

fun wake_counter :: "WakeEvent \<Rightarrow> string list" where
  "wake_counter (InboundEventWake _ _) = [''wake_inbound'']"
| "wake_counter (ScheduledWake _ _) = [''wake_scheduled'']"
| "wake_counter _ = []"

definition sup_get :: "EventLoop \<Rightarrow> EventLoop" where
  "sup_get el =
     (case el_queue el of
        [] \<Rightarrow> el
      | wake # rest \<Rightarrow>
          (let el1 = el\<lparr>el_queue := rest, el_history := el_history el @ [(wake, Handled)]\<rparr>
           in if wake = StopSentinel then el1\<lparr>el_task := Some ET_finished\<rparr>
              else el1\<lparr>el_task := Some (ET_handling wake), el_metrics := el_metrics el1 @ wake_counter wake\<rparr>))"

definition handle_wake_supervised :: "WakeEvent \<Rightarrow> callback_answer \<Rightarrow> EventLoop \<Rightarrow> EventLoop" where
  "handle_wake_supervised wake answer el =
     (case answer of
        CB_returns actions \<Rightarrow>
          (case wake_handle wake of Some h \<Rightarrow> resolve_handle h actions el | None \<Rightarrow> el)\<lparr>el_task := Some (next_task el)\<rparr>
      | CB_raises \<Rightarrow>
          (case wake_handle wake of Some h \<Rightarrow> reject_handle h el | None \<Rightarrow> el)\<lparr>el_task := Some (next_task el)\<rparr>
      | CB_cancelled \<Rightarrow>
          (case wake_handle wake of Some h \<Rightarrow> resolve_handle h [] el | None \<Rightarrow> el)\<lparr>el_task := Some ET_finished\<rparr>)"

text \<open>A cancelled supervisor that is not inside a callback just ends.\<close>

definition sup_cancelled :: "EventLoop \<Rightarrow> EventLoop" where
  "sup_cancelled el = el\<lparr>el_task := Some ET_finished\<rparr>"


section \<open>Reentrant resolvers\<close>

definition set_resolver :: "handle \<Rightarrow> resolver_state \<Rightarrow> EventLoop \<Rightarrow> EventLoop" where
  "set_resolver h st el =
     el\<lparr>el_reentrant := map (\<lambda>(k, ev, s). (k, ev, if k = h then st else s)) (el_reentrant el)\<rparr>"

definition drop_resolver :: "handle \<Rightarrow> EventLoop \<Rightarrow> EventLoop" where
  "drop_resolver h el = el\<lparr>el_reentrant := filter (\<lambda>(k, ev, s). k \<noteq> h) (el_reentrant el)\<rparr>"

definition resolver_answer :: "handle \<Rightarrow> callback_answer \<Rightarrow> EventLoop \<Rightarrow> EventLoop" where
  "resolver_answer h answer el =
     drop_resolver h
       (case answer of
          CB_returns actions \<Rightarrow> resolve_handle h actions el
        | CB_raises \<Rightarrow> reject_handle h el
        | CB_cancelled \<Rightarrow> resolve_handle h [] el)"

text \<open>
  A task cancelled before its first step ends without running any of its body: the resolver's own
  handler, which would settle the handle, is never entered.
\<close>

definition resolver_never_ran :: "handle \<Rightarrow> EventLoop \<Rightarrow> EventLoop" where
  "resolver_never_ran h el = (drop_resolver h el)\<lparr>el_unstarted := el_unstarted el @ [h]\<rparr>"


section \<open>Stopping\<close>

fun cancel_resolver :: "handle \<times> AgentEvent \<times> resolver_state \<Rightarrow> handle \<times> AgentEvent \<times> resolver_state" where
  "cancel_resolver (h, ev, RS_spawned) = (h, ev, RS_spawned_cancelled)"
| "cancel_resolver (h, ev, RS_running) = (h, ev, RS_running_cancelled)"
| "cancel_resolver r = r"

definition stop_begin :: "EventLoop \<Rightarrow> EventLoop" where
  "stop_begin el =
     el\<lparr>el_stopped := True, el_subscribed := False, el_timers := [],
        el_reentrant := map cancel_resolver (el_reentrant el), el_stop := Await_resolvers\<rparr>"

definition drain_pending_handles :: "EventLoop \<Rightarrow> EventLoop" where
  "drain_pending_handles el =
     (fold (\<lambda>wake el. case wake_handle wake of Some h \<Rightarrow> resolve_handle h [] el | None \<Rightarrow> el) (el_queue el) el)
       \<lparr>el_queue := [], el_history := el_history el @ map (\<lambda>wake. (wake, Discarded)) (el_queue el)\<rparr>"

definition stop_finish :: "EventLoop \<Rightarrow> EventLoop" where
  "stop_finish el = (drain_pending_handles el)\<lparr>el_task := None, el_stop := Not_stopping\<rparr>"

text \<open>After the resolvers: poison the queue, or cancel the supervisor when the queue is full.\<close>

definition stop_poison :: "EventLoop \<Rightarrow> EventLoop" where
  "stop_poison el =
     (if is_running el
      then (if queue_full el then el\<lparr>el_cancel := True\<rparr> else put_nowait StopSentinel el)\<lparr>el_stop := Await_supervisor\<rparr>
      else stop_finish el)"

definition stop_timeout :: "EventLoop \<Rightarrow> EventLoop" where
  "stop_timeout el = el\<lparr>el_cancel := True\<rparr>"



section \<open>Interleaving\<close>

text \<open>
  Producers may run at any time. Two calls of \<open>stop\<close> do not overlap, and \<open>start\<close> is not called while
  one is under way; a cancelled callback may still answer, which is what swallowing the cancellation
  amounts to.
\<close>

inductive el_step :: "EventLoop \<Rightarrow> EventLoop \<Rightarrow> bool" where
  es_dispatch: "in_sup \<longrightarrow> (\<exists>w. el_task el = Some (ET_handling w)) \<Longrightarrow> el_step el (snd (dispatch_sync in_sup now ev el))"
| es_inbound: "el_step el (snd (enqueue in_sup now (InboundEventWake ev None) el))"
| es_salience: "el_step el (snd (enqueue in_sup now (SalienceWake we) el))"
| es_scheduled: "el_step el (snd (enqueue in_sup now (ScheduledWake tid kind) el))"
| es_register: "register_timer rnd tid kind i j f d el = Inr el' \<Longrightarrow> el_step el el'"
| es_unregister: "el_step el (unregister_timer tid el)"
| es_fire: "el_step el (fire_timer now rnd tid el)"
| es_give_up: "el_step el (cancel_handle h el)"
| es_start: "el_stop el = Not_stopping \<Longrightarrow> el_step el (start_loop el)"
| es_begin: "el_task el = Some ET_created \<Longrightarrow> \<not> el_cancel el \<Longrightarrow> el_step el (sup_begin el)"
| es_get: "el_task el = Some ET_waiting \<Longrightarrow> \<not> el_cancel el \<Longrightarrow> el_queue el \<noteq> [] \<Longrightarrow> el_step el (sup_get el)"
| es_answer: "el_task el = Some (ET_handling w) \<Longrightarrow> answer = CB_cancelled \<longrightarrow> el_cancel el \<Longrightarrow>
     el_step el (handle_wake_supervised w answer el)"
| es_sup_cancelled: "el_task el \<in> {Some ET_created, Some ET_waiting} \<Longrightarrow> el_cancel el \<Longrightarrow> el_step el (sup_cancelled el)"
| es_resolver_start: "(h, ev, RS_spawned) \<in> set (el_reentrant el) \<Longrightarrow> el_step el (set_resolver h RS_running el)"
| es_resolver_answer: "(h, ev, st) \<in> set (el_reentrant el) \<Longrightarrow> st \<in> {RS_running, RS_running_cancelled} \<Longrightarrow>
     answer = CB_cancelled \<longrightarrow> st = RS_running_cancelled \<Longrightarrow> el_step el (resolver_answer h answer el)"
| es_resolver_never_ran: "(h, ev, RS_spawned_cancelled) \<in> set (el_reentrant el) \<Longrightarrow> el_step el (resolver_never_ran h el)"
| es_stop: "el_stop el = Not_stopping \<Longrightarrow> el_step el (stop_begin el)"
| es_poison: "el_stop el = Await_resolvers \<Longrightarrow> el_step el (stop_poison el)"
| es_timeout: "el_stop el = Await_supervisor \<Longrightarrow> el_step el (stop_timeout el)"
| es_finish: "el_stop el = Await_supervisor \<Longrightarrow> el_task el = Some ET_finished \<Longrightarrow> el_step el (stop_finish el)"

inductive el_steps :: "EventLoop \<Rightarrow> EventLoop \<Rightarrow> bool" where
  el_refl: "el_steps el el"
| el_more: "el_steps el el' \<Longrightarrow> el_step el' el'' \<Longrightarrow> el_steps el el''"

definition el_reachable :: "EventLoop \<Rightarrow> bool" where
  "el_reachable el \<longleftrightarrow> (\<exists>agent on_inbound qsize. el_steps (mk_EventLoop agent on_inbound qsize) el)"


section \<open>The queue\<close>

text \<open>
  The queue part of the invariant: bounded, every accepted wake is in the history or still queued, in
  order, and both drop counters agree.
\<close>

definition queue_inv :: "EventLoop \<Rightarrow> bool" where
  "queue_inv el \<longleftrightarrow>
     (el_maxsize el > 0 \<longrightarrow> int (length (el_queue el)) \<le> el_maxsize el) \<and>
     el_accepted el = map fst (el_history el) @ el_queue el \<and>
     el_dropped_count el = length (filter ((=) ''wake_dropped'') (el_metrics el))"

lemma settle_sel [simp]:
  "el_queue (settle h st el) = el_queue el" "el_maxsize (settle h st el) = el_maxsize el"
  "el_accepted (settle h st el) = el_accepted el" "el_history (settle h st el) = el_history el"
  "el_metrics (settle h st el) = el_metrics el" "el_dropped_count (settle h st el) = el_dropped_count el"
  "el_task (settle h st el) = el_task el" "el_reentrant (settle h st el) = el_reentrant el"
  "el_stopped (settle h st el) = el_stopped el" "el_stop (settle h st el) = el_stop el"
  "el_timers (settle h st el) = el_timers el" "el_next_handle (settle h st el) = el_next_handle el"
  "el_unstarted (settle h st el) = el_unstarted el" "el_cancel (settle h st el) = el_cancel el"
  by (simp_all add: settle_def)

lemma settle_handles:
  "el_handles (settle h st el) k = (if k = h \<and> el_handles el h = Some Pending then Some st else el_handles el k)"
  by (simp add: settle_def)

lemmas settle_defs = resolve_handle_def reject_handle_def cancel_handle_def

lemma queue_inv_cong:
  "el_queue el' = el_queue el \<Longrightarrow> el_maxsize el' = el_maxsize el \<Longrightarrow> el_accepted el' = el_accepted el \<Longrightarrow>
   el_history el' = el_history el \<Longrightarrow> el_metrics el' = el_metrics el \<Longrightarrow> el_dropped_count el' = el_dropped_count el \<Longrightarrow>
   queue_inv el' = queue_inv el"
  by (simp add: queue_inv_def)

lemma log_queue_full_sel [simp]:
  "el_queue (log_queue_full now el) = el_queue el" "el_maxsize (log_queue_full now el) = el_maxsize el"
  "el_accepted (log_queue_full now el) = el_accepted el" "el_history (log_queue_full now el) = el_history el"
  "el_metrics (log_queue_full now el) = el_metrics el" "el_dropped_count (log_queue_full now el) = el_dropped_count el"
  "el_task (log_queue_full now el) = el_task el" "el_reentrant (log_queue_full now el) = el_reentrant el"
  "el_handles (log_queue_full now el) = el_handles el" "el_stop (log_queue_full now el) = el_stop el"
  "el_stopped (log_queue_full now el) = el_stopped el" "el_timers (log_queue_full now el) = el_timers el"
  "el_next_handle (log_queue_full now el) = el_next_handle el" "el_unstarted (log_queue_full now el) = el_unstarted el"
  "el_cancel (log_queue_full now el) = el_cancel el"
  by (simp_all add: log_queue_full_def split: option.split)

text \<open>The three outcomes of offering a wake, for the proofs about it.\<close>

lemma enqueue_cases:
  obtains (stopped) "el_stopped el" "enqueue s now w el =
      (False, case wake_handle w of Some h \<Rightarrow> resolve_handle h [] el | None \<Rightarrow> el)"
  | (reentrant) ev h where "\<not> el_stopped el" "s" "w = InboundEventWake ev (Some h)" "enqueue s now w el = (True, spawn_reentrant ev h el)"
  | (full) "\<not> el_stopped el" "queue_full el" "enqueue s now w el =
      (False, emit ''wake_dropped'' (log_queue_full now (el\<lparr>el_dropped_count := el_dropped_count el + 1\<rparr>)))"
  | (put) "\<not> el_stopped el" "\<not> queue_full el" "enqueue s now w el = (True, put_nowait w el)"
proof -
  show thesis
  proof (cases "el_stopped el")
    case True
    then show thesis by (intro stopped) (simp_all add: enqueue_def)
  next
    case False
    show thesis
    proof (cases "\<exists>ev h. w = InboundEventWake ev (Some h) \<and> s")
      case True
      then obtain ev h where "w = InboundEventWake ev (Some h)" s by blast
      then show thesis using False by (intro reentrant[of ev h]) (simp_all add: enqueue_def)
    next
      case nre: False
      then have "enqueue s now w el = (if queue_full el
          then (False, emit ''wake_dropped'' (log_queue_full now (el\<lparr>el_dropped_count := el_dropped_count el + 1\<rparr>)))
          else (True, put_nowait w el))"
        using False by (auto simp: enqueue_def split: WakeEvent.split option.split)
      then show thesis using full put False by (cases "queue_full el") simp_all
    qed
  qed
qed

lemma put_nowait_inv: "queue_inv el \<Longrightarrow> \<not> queue_full el \<Longrightarrow> queue_inv (put_nowait w el)"
  by (auto simp: queue_inv_def put_nowait_def queue_full_def)

lemma enqueue_queue_inv: "queue_inv el \<Longrightarrow> queue_inv (snd (enqueue s now w el))"
proof (cases rule: enqueue_cases[of el s now w])
  case full
  then show "queue_inv el \<Longrightarrow> ?thesis" by (simp add: queue_inv_def emit_def)
next
  case stopped
  then show "queue_inv el \<Longrightarrow> ?thesis"
    by (simp add: settle_defs queue_inv_def split: option.split)
next
  case (reentrant ev h)
  then show "queue_inv el \<Longrightarrow> ?thesis" by (simp add: spawn_reentrant_def emit_def queue_inv_def)
qed (simp add: put_nowait_inv)

text \<open>What draining the queue does to the handles.\<close>

definition discard_wakes :: "WakeEvent list \<Rightarrow> EventLoop \<Rightarrow> EventLoop" where
  "discard_wakes ws el =
     fold (\<lambda>wake el. case wake_handle wake of Some h \<Rightarrow> resolve_handle h [] el | None \<Rightarrow> el) ws el"

lemma discard_wakes_simps:
  "discard_wakes [] el = el"
  "discard_wakes (w # ws) el =
     discard_wakes ws (case wake_handle w of Some h \<Rightarrow> resolve_handle h [] el | None \<Rightarrow> el)"
  by (simp_all add: discard_wakes_def)

lemma discard_wakes_sel [simp]:
  "el_queue (discard_wakes ws el) = el_queue el" "el_maxsize (discard_wakes ws el) = el_maxsize el"
  "el_accepted (discard_wakes ws el) = el_accepted el" "el_history (discard_wakes ws el) = el_history el"
  "el_metrics (discard_wakes ws el) = el_metrics el" "el_dropped_count (discard_wakes ws el) = el_dropped_count el"
  "el_task (discard_wakes ws el) = el_task el" "el_reentrant (discard_wakes ws el) = el_reentrant el"
  "el_stopped (discard_wakes ws el) = el_stopped el" "el_stop (discard_wakes ws el) = el_stop el"
  "el_timers (discard_wakes ws el) = el_timers el" "el_next_handle (discard_wakes ws el) = el_next_handle el"
  "el_unstarted (discard_wakes ws el) = el_unstarted el" "el_cancel (discard_wakes ws el) = el_cancel el"
  by (induction ws arbitrary: el) (simp_all add: discard_wakes_simps settle_defs split: option.split)

definition wake_handles :: "WakeEvent list \<Rightarrow> handle list" where
  "wake_handles ws = List.map_filter wake_handle ws"

lemma wake_handles_simps [simp]:
  "wake_handles [] = []"
  "wake_handles (w # ws) = (case wake_handle w of Some h \<Rightarrow> [h] | None \<Rightarrow> []) @ wake_handles ws"
  "wake_handles (ws @ vs) = wake_handles ws @ wake_handles vs"
  by (simp_all add: wake_handles_def map_filter_simps map_filter_def split: option.split)

lemma discard_wakes_handles:
  "el_handles (discard_wakes ws el) h =
     (if h \<in> set (wake_handles ws) \<and> el_handles el h = Some Pending then Some (Resolved []) else el_handles el h)"
  by (induction ws arbitrary: el)
    (auto simp: discard_wakes_simps settle_defs settle_handles split: option.split)

lemma drain_eq:
  "drain_pending_handles el = (discard_wakes (el_queue el) el)
     \<lparr>el_queue := [], el_history := el_history el @ map (\<lambda>wake. (wake, Discarded)) (el_queue el)\<rparr>"
  by (simp add: drain_pending_handles_def discard_wakes_def)

lemma stop_finish_queue_inv: "queue_inv el \<Longrightarrow> queue_inv (stop_finish el)"
  by (simp add: stop_finish_def drain_eq queue_inv_def comp_def)

lemma resolver_sel [simp]:
  "el_queue (set_resolver h st el) = el_queue el" "el_queue (drop_resolver h el) = el_queue el"
  "el_task (set_resolver h st el) = el_task el" "el_task (drop_resolver h el) = el_task el"
  "el_handles (set_resolver h st el) = el_handles el" "el_handles (drop_resolver h el) = el_handles el"
  "el_stop (set_resolver h st el) = el_stop el" "el_stop (drop_resolver h el) = el_stop el"
  "el_stopped (set_resolver h st el) = el_stopped el" "el_stopped (drop_resolver h el) = el_stopped el"
  "el_next_handle (set_resolver h st el) = el_next_handle el" "el_next_handle (drop_resolver h el) = el_next_handle el"
  "el_unstarted (set_resolver h st el) = el_unstarted el" "el_unstarted (drop_resolver h el) = el_unstarted el"
  "el_timers (set_resolver h st el) = el_timers el" "el_timers (drop_resolver h el) = el_timers el"
  "queue_inv (set_resolver h st el) = queue_inv el" "queue_inv (drop_resolver h el) = queue_inv el"
  by (simp_all add: set_resolver_def drop_resolver_def queue_inv_def)

lemma queue_inv_settle [simp]: "queue_inv (settle h st el) = queue_inv el"
  by (simp add: queue_inv_def)

lemma queue_inv_other [simp]:
  "queue_inv (el\<lparr>el_task := t\<rparr>) = queue_inv el" "queue_inv (el\<lparr>el_timers := ts\<rparr>) = queue_inv el"
  "queue_inv (el\<lparr>el_unstarted := u\<rparr>) = queue_inv el" "queue_inv (el\<lparr>el_cancel := c\<rparr>) = queue_inv el"
  "queue_inv (el\<lparr>el_stop := p\<rparr>) = queue_inv el" "queue_inv (el\<lparr>el_handles := hs\<rparr>) = queue_inv el"
  "queue_inv (el\<lparr>el_next_handle := n\<rparr>) = queue_inv el" "queue_inv (el\<lparr>el_stopped := b\<rparr>) = queue_inv el"
  "queue_inv (el\<lparr>el_subscribed := b\<rparr>) = queue_inv el" "queue_inv (el\<lparr>el_reentrant := rs\<rparr>) = queue_inv el"
  by (simp_all add: queue_inv_def)

lemma wake_counter_dropped: "filter ((=) ''wake_dropped'') (wake_counter w) = []"
  by (cases w) simp_all

lemma sup_get_queue_inv: "queue_inv el \<Longrightarrow> queue_inv (sup_get el)"
  by (auto simp: sup_get_def queue_inv_def Let_def wake_counter_dropped split: list.split)

lemma dispatch_sync_eq:
  "snd (dispatch_sync s now ev el) =
     (let h = el_next_handle el;
          r = enqueue s now (InboundEventWake ev (Some h)) (el\<lparr>el_next_handle := h + 1, el_handles := (el_handles el)(h \<mapsto> Pending)\<rparr>)
      in if fst r then snd r else (snd r)\<lparr>el_handles := (el_handles (snd r))(h := None)\<rparr>)"
  by (simp add: dispatch_sync_def Let_def split: prod.split)

lemma step_queue_inv:
  assumes "el_step el el'" "queue_inv el"
  shows "queue_inv el'"
  using assms(1)
proof (cases rule: el_step.cases)
  case es_dispatch
  then show ?thesis using assms(2) enqueue_queue_inv by (simp add: dispatch_sync_eq Let_def)
next
  case (es_register rnd tid kind i j f d)
  then show ?thesis using assms(2) by (auto simp: register_timer_def arm_timer_def Let_def split: if_splits)
next
  case es_fire
  then show ?thesis using assms(2) enqueue_queue_inv
    by (simp add: fire_timer_def arm_timer_def Let_def split: option.split)
next
  case (es_answer w answer)
  then show ?thesis using assms(2)
    by (simp add: handle_wake_supervised_def settle_defs split: callback_answer.split option.split)
next
  case (es_resolver_answer h ev st answer)
  then show ?thesis using assms(2) by (simp add: resolver_answer_def settle_defs split: callback_answer.split)
next
  case es_poison
  then show ?thesis using assms(2) put_nowait_inv stop_finish_queue_inv by (simp add: stop_poison_def)
qed (use assms(2) enqueue_queue_inv sup_get_queue_inv stop_finish_queue_inv in
  \<open>simp_all add: unregister_timer_def cancel_handle_def start_loop_def sup_begin_def sup_cancelled_def
     resolver_never_ran_def stop_begin_def stop_timeout_def\<close>)

lemma steps_queue_inv: "el_steps el el' \<Longrightarrow> queue_inv el \<Longrightarrow> queue_inv el'"
  by (induction rule: el_steps.induct) (auto dest: step_queue_inv)

lemma mk_queue_inv: "queue_inv (mk_EventLoop agent on_inbound qsize)"
  by (simp add: mk_EventLoop_def queue_inv_def)



section \<open>The handles\<close>

text \<open>
  Where a handle can still be settled from: the queue, the wake the supervisor is handling, a
  resolver. A handle is in at most one of these places, or its resolver was cancelled before it ran.
\<close>

definition inflight_handles :: "task_state option \<Rightarrow> handle list" where
  "inflight_handles t = (case t of Some (ET_handling w) \<Rightarrow> wake_handles [w] | _ \<Rightarrow> [])"

definition settlers :: "EventLoop \<Rightarrow> handle list" where
  "settlers el = wake_handles (el_queue el) @ inflight_handles (el_task el) @ map fst (el_reentrant el)"

definition handle_inv :: "EventLoop \<Rightarrow> bool" where
  "handle_inv el \<longleftrightarrow>
     distinct (settlers el @ el_unstarted el) \<and>
     (\<forall>h \<in> set (settlers el @ el_unstarted el). h < el_next_handle el) \<and>
     (\<forall>h. el_handles el h = Some Pending \<longrightarrow> h \<in> set (settlers el @ el_unstarted el)) \<and>
     (\<forall>h. el_handles el h \<noteq> None \<longrightarrow> h < el_next_handle el)"

definition phase_inv :: "EventLoop \<Rightarrow> bool" where
  "phase_inv el \<longleftrightarrow>
     (el_stop el \<noteq> Not_stopping \<longrightarrow> el_stopped el) \<and>
     (el_stop el = Await_supervisor \<longrightarrow> el_task el \<noteq> None) \<and>
     (el_stopped el \<and> el_stop el = Not_stopping \<longrightarrow> el_task el = None \<and> el_queue el = [])"

lemma inflight_simps [simp]:
  "inflight_handles None = []" "inflight_handles (Some ET_created) = []" "inflight_handles (Some ET_waiting) = []"
  "inflight_handles (Some ET_finished) = []" "inflight_handles (Some (ET_handling w)) = wake_handles [w]"
  by (simp_all add: inflight_handles_def)

lemma inflight_next [simp]: "inflight_handles (Some (next_task el)) = []"
  by (simp add: next_task_def)

text \<open>
  How the invariant moves: the places may shrink and reorder, as long as a handle that leaves them is
  settled.
\<close>

lemma handle_invI:
  assumes "handle_inv el"
    and "el_next_handle el' = el_next_handle el"
    and "distinct (settlers el' @ el_unstarted el')"
    and "set (settlers el' @ el_unstarted el') \<subseteq> set (settlers el @ el_unstarted el)"
    and "\<And>h. h \<in> set (settlers el @ el_unstarted el) \<Longrightarrow> h \<notin> set (settlers el' @ el_unstarted el') \<Longrightarrow> el_handles el' h \<noteq> Some Pending"
    and "\<And>h. el_handles el' h = Some Pending \<Longrightarrow> el_handles el h = Some Pending"
    and "\<And>h. el_handles el' h \<noteq> None \<Longrightarrow> el_handles el h \<noteq> None"
  shows "handle_inv el'"
  unfolding handle_inv_def
proof (intro conjI ballI allI impI)
  show "h < el_next_handle el'" if "h \<in> set (settlers el' @ el_unstarted el')" for h
    using that assms(1,2,4) by (metis handle_inv_def subsetD)
  show "h \<in> set (settlers el' @ el_unstarted el')" if "el_handles el' h = Some Pending" for h
    using that assms(1,5,6) by (metis handle_inv_def)
  show "h < el_next_handle el'" if "el_handles el' h \<noteq> None" for h
    using that assms(1,2,7) by (metis handle_inv_def)
qed (rule assms(3))

lemma handle_inv_cong:
  assumes "handle_inv el" "el_next_handle el' = el_next_handle el" "settlers el' = settlers el"
    "el_unstarted el' = el_unstarted el" "el_handles el' = el_handles el"
  shows "handle_inv el'"
  using assms by (simp add: handle_inv_def)

lemma settle_inv: "handle_inv el \<Longrightarrow> handle_inv (settle h st el)" if "st \<noteq> Pending"
proof -
  assume i: "handle_inv el"
  have p: "settlers (settle h st el) = settlers el" by (simp add: settlers_def)
  show "handle_inv (settle h st el)" using i that
    by (auto simp: handle_inv_def p settle_handles split: if_splits)
qed

lemma settled_not_pending: "st \<noteq> Pending \<Longrightarrow> el_handles (settle h st el) h \<noteq> Some Pending"
  by (simp add: settle_handles)

lemma start_loop_inv: "handle_inv el \<Longrightarrow> handle_inv (start_loop el)"
  by (cases "el_task el")
    (auto simp: start_loop_def is_running_def settlers_def intro!: handle_inv_cong[of el] split: task_state.splits)

text \<open>Accepting a wake moves its fresh handle into the queue or to a resolver.\<close>

lemma enqueue_no_handle_inv:
  assumes "handle_inv el" "wake_handle w = None"
  shows "handle_inv (snd (enqueue s now w el))"
proof (cases rule: enqueue_cases[of el s now w])
  case put
  then show ?thesis using assms(1) by (intro handle_inv_cong[OF assms(1)]) (auto simp: put_nowait_def settlers_def assms(2))
next
  case full
  then show ?thesis by (intro handle_inv_cong[OF assms(1)]) (auto simp: emit_def settlers_def)
qed (use assms in auto)

lemma dispatch_inv:
  assumes "handle_inv el"
  shows "handle_inv (snd (dispatch_sync s now ev el))"
proof -
  let ?h = "el_next_handle el"
  let ?el0 = "el\<lparr>el_next_handle := ?h + 1, el_handles := (el_handles el)(?h \<mapsto> Pending)\<rparr>"
  let ?w = "InboundEventWake ev (Some ?h)"
  have fresh: "?h \<notin> set (settlers el @ el_unstarted el)" using assms by (auto simp: handle_inv_def)
  have old: "h \<in> set (settlers el @ el_unstarted el) \<Longrightarrow> h < ?h" for h using assms by (auto simp: handle_inv_def)
  have keep: "el_handles el h = Some Pending \<Longrightarrow> h \<in> set (settlers el @ el_unstarted el)" "el_handles el h \<noteq> None \<Longrightarrow> h < ?h" for h
    using assms by (auto simp: handle_inv_def)
  have d: "distinct (settlers el @ el_unstarted el)" using assms by (simp add: handle_inv_def)
  have dropped: "handle_inv el1" if "el_next_handle el1 = ?h + 1" "settlers el1 = settlers el" "el_unstarted el1 = el_unstarted el"
    "el_handles el1 = (el_handles el)(?h := None)" for el1
    unfolding handle_inv_def that using d old keep by (auto simp: less_Suc_eq split: if_splits)
  have added: "handle_inv el1" if "el_next_handle el1 = ?h + 1" "mset (settlers el1) = mset (?h # settlers el)"
    "el_unstarted el1 = el_unstarted el" "el_handles el1 = (el_handles el)(?h \<mapsto> Pending)" for el1
  proof -
    have m: "mset (settlers el1 @ el_unstarted el1) = mset (?h # settlers el @ el_unstarted el)" using that by simp
    have "distinct (settlers el1 @ el_unstarted el1)" using mset_eq_imp_distinct_iff[OF m] d fresh by simp
    moreover have "set (settlers el1 @ el_unstarted el1) = insert ?h (set (settlers el @ el_unstarted el))"
      using mset_eq_setD[OF m] by simp
    ultimately show ?thesis unfolding handle_inv_def that(1,4) using old keep
      by (auto simp: less_Suc_eq split: if_splits)
  qed
  show ?thesis
  proof (cases rule: enqueue_cases[of ?el0 s now ?w])
    case stopped
    then show ?thesis
      by (intro dropped) (auto simp: dispatch_sync_eq Let_def resolve_handle_def settle_def settlers_def)
  next
    case (reentrant ev' h')
    then show ?thesis
      by (intro added) (auto simp: dispatch_sync_eq Let_def spawn_reentrant_def emit_def settlers_def)
  next
    case full
    then show ?thesis by (intro dropped) (auto simp: dispatch_sync_eq Let_def emit_def settlers_def)
  next
    case put
    then show ?thesis by (intro added) (auto simp: dispatch_sync_eq Let_def put_nowait_def settlers_def)
  qed
qed

lemma sup_get_inv:
  assumes "handle_inv el" "el_task el = Some ET_waiting"
  shows "handle_inv (sup_get el)"
proof (cases "el_queue el")
  case (Cons w ws)
  show ?thesis
  proof (cases "w = StopSentinel")
    case True
    then show ?thesis using Cons assms by (intro handle_inv_cong[OF assms(1)]) (auto simp: sup_get_def settlers_def)
  next
    case False
    then have e: "settlers (sup_get el) = wake_handles ws @ wake_handles [w] @ map fst (el_reentrant el)"
      using Cons by (simp add: sup_get_def settlers_def Let_def)
    have o: "settlers el = wake_handles [w] @ wake_handles ws @ map fst (el_reentrant el)"
      using Cons assms(2) by (simp add: settlers_def)
    have n: "el_next_handle (sup_get el) = el_next_handle el" "el_handles (sup_get el) = el_handles el"
      "el_unstarted (sup_get el) = el_unstarted el" using Cons by (simp_all add: sup_get_def Let_def)
    show ?thesis by (rule handle_invI[OF assms(1) n(1)]) (use assms(1) in \<open>auto simp: e o n handle_inv_def\<close>)
  qed
qed (use assms in \<open>simp add: sup_get_def\<close>)

text \<open>The common end of every path that answers a handle: settle it, and it leaves its place.\<close>

definition settle_opt :: "handle option \<Rightarrow> handle_state \<Rightarrow> EventLoop \<Rightarrow> EventLoop" where
  "settle_opt h st el = (case h of Some k \<Rightarrow> settle k st el | None \<Rightarrow> el)"

fun answer_state :: "callback_answer \<Rightarrow> handle_state" where
  "answer_state (CB_returns actions) = Resolved actions"
| "answer_state CB_raises = Rejected"
| "answer_state CB_cancelled = Resolved []"

lemma answer_state_done [simp]: "answer_state a \<noteq> Pending"
  by (cases a) simp_all

lemma handle_wake_eq:
  "handle_wake_supervised w a el =
     (settle_opt (wake_handle w) (answer_state a) el)
       \<lparr>el_task := Some (if a = CB_cancelled then ET_finished else next_task el)\<rparr>"
  by (cases a) (simp_all add: handle_wake_supervised_def settle_opt_def settle_defs split: option.split)

lemma resolver_answer_eq: "resolver_answer h a el = drop_resolver h (settle h (answer_state a) el)"
  by (cases a) (simp_all add: resolver_answer_def settle_defs)

lemma handle_wake_inv:
  assumes "handle_inv el" "el_task el = Some (ET_handling w)"
  shows "handle_inv (handle_wake_supervised w a el)"
proof -
  let ?el = "handle_wake_supervised w a el"
  have e: "settlers ?el = wake_handles (el_queue el) @ map fst (el_reentrant el)"
    by (simp add: handle_wake_eq settlers_def settle_opt_def split: option.split)
  have o: "settlers el = wake_handles (el_queue el) @ wake_handles [w] @ map fst (el_reentrant el)"
    using assms(2) by (simp add: settlers_def)
  have n: "el_next_handle ?el = el_next_handle el" "el_unstarted ?el = el_unstarted el"
    by (simp_all add: handle_wake_eq settle_opt_def split: option.split)
  have h: "el_handles ?el k = (if wake_handle w = Some k \<and> el_handles el k = Some Pending then Some (answer_state a) else el_handles el k)" for k
    by (auto simp: handle_wake_eq settle_opt_def settle_handles split: option.split)
  show ?thesis
    by (rule handle_invI[OF assms(1) n(1)])
      (use assms(1) in \<open>auto simp: e o n h handle_inv_def split: if_splits option.splits\<close>)
qed

lemma distinct_map_fst_filter_ne:
  "distinct (map fst xs) \<Longrightarrow> set (map fst (filter (\<lambda>(k, ev, s). k \<noteq> h) xs)) = set (map fst xs) - {h}"
  by (induction xs) auto

lemma drop_resolver_settlers:
  "settlers (drop_resolver h el) =
     wake_handles (el_queue el) @ inflight_handles (el_task el) @ map fst (filter (\<lambda>(k, ev, s). k \<noteq> h) (el_reentrant el))"
  by (simp add: settlers_def drop_resolver_def)

lemma drop_resolver_places:
  assumes "handle_inv el" "h \<in> set (map fst (el_reentrant el))"
  shows "distinct (settlers (drop_resolver h el))" "set (settlers (drop_resolver h el)) = set (settlers el) - {h}"
proof -
  have d: "distinct (wake_handles (el_queue el) @ inflight_handles (el_task el) @ map fst (el_reentrant el))"
    using assms(1) by (auto simp: handle_inv_def settlers_def)
  have s: "set (map fst (filter (\<lambda>(k, ev, s). k \<noteq> h) (el_reentrant el))) = set (map fst (el_reentrant el)) - {h}"
    using d by (intro distinct_map_fst_filter_ne) simp
  have "distinct (map fst (filter (\<lambda>(k, ev, s). k \<noteq> h) (el_reentrant el)))"
    using d by (simp add: filter_distinct_map_fst)
  then show "distinct (settlers (drop_resolver h el))" using d s unfolding drop_resolver_settlers by auto
  show "set (settlers (drop_resolver h el)) = set (settlers el) - {h}"
    using d s assms(2) unfolding drop_resolver_settlers by (auto simp: settlers_def)
qed

lemma resolver_answer_inv:
  assumes "handle_inv el" "h \<in> set (map fst (el_reentrant el))"
  shows "handle_inv (resolver_answer h a el)"
proof -
  let ?s = "settle h (answer_state a) el"
  have i: "handle_inv ?s" using assms(1) by (simp add: settle_inv)
  have m: "h \<in> set (map fst (el_reentrant ?s))" using assms(2) by simp
  note pl = drop_resolver_places[OF i m]
  have "h \<notin> set (el_unstarted ?s)" using i m by (auto simp: handle_inv_def settlers_def)
  then show ?thesis unfolding resolver_answer_eq using i pl settled_not_pending[of "answer_state a" h el]
    by (intro handle_invI[OF i]) (auto simp: handle_inv_def)
qed

lemma resolver_never_ran_inv:
  assumes "handle_inv el" "h \<in> set (map fst (el_reentrant el))"
  shows "handle_inv (resolver_never_ran h el)"
proof -
  let ?el = "resolver_never_ran h el"
  note pl = drop_resolver_places[OF assms]
  have e: "settlers ?el = settlers (drop_resolver h el)" "el_unstarted ?el = el_unstarted el @ [h]"
    "el_handles ?el = el_handles el" "el_next_handle ?el = el_next_handle el"
    by (simp_all add: resolver_never_ran_def settlers_def)
  have "h \<in> set (settlers el)" "h \<notin> set (el_unstarted el)" using assms by (auto simp: settlers_def handle_inv_def)
  then show ?thesis using assms(1) pl
    by (intro handle_invI[OF assms(1) e(4)]) (auto simp: e handle_inv_def)
qed

lemma set_resolver_inv: "handle_inv el \<Longrightarrow> handle_inv (set_resolver h st el)"
  by (rule handle_inv_cong[of el]) (auto simp: settlers_def set_resolver_def comp_def case_prod_beta)

lemma fst_cancel_resolver: "fst (cancel_resolver r) = fst r"
  by (cases r rule: cancel_resolver.cases) simp_all

lemma stop_begin_inv: "handle_inv el \<Longrightarrow> handle_inv (stop_begin el)"
  by (rule handle_inv_cong[of el]) (auto simp: settlers_def stop_begin_def comp_def fst_cancel_resolver)

lemma stop_finish_inv:
  assumes "handle_inv el" "\<not> is_running el"
  shows "handle_inv (stop_finish el)"
proof -
  let ?el = "stop_finish el"
  have t: "inflight_handles (el_task el) = []" using assms(2)
    by (auto simp: is_running_def inflight_handles_def split: option.split task_state.split)
  have e: "settlers ?el = map fst (el_reentrant el)" "el_unstarted ?el = el_unstarted el" "el_next_handle ?el = el_next_handle el"
    "el_handles ?el = el_handles (discard_wakes (el_queue el) el)"
    by (simp_all add: stop_finish_def drain_eq settlers_def)
  have o: "settlers el = wake_handles (el_queue el) @ map fst (el_reentrant el)" by (simp add: settlers_def t)
  show ?thesis using assms(1)
    by (intro handle_invI[OF assms(1) e(3)]) (auto simp: e o handle_inv_def discard_wakes_handles split: if_splits)
qed

lemma stop_poison_inv: "handle_inv el \<Longrightarrow> handle_inv (stop_poison el)"
  by (auto simp: stop_poison_def stop_finish_inv settlers_def put_nowait_def intro!: handle_inv_cong[of el])

lemma register_timer_sel:
  "register_timer rnd tid kind i j f d el = Inr el' \<Longrightarrow> \<exists>ts. el' = el\<lparr>el_timers := ts\<rparr>"
  by (auto simp: register_timer_def arm_timer_def Let_def split: if_splits)

lemma fire_timer_sel:
  "\<exists>ts. fire_timer now rnd tid el =
     (case map_of (el_timers el) tid of None \<Rightarrow> el
      | Some e \<Rightarrow> (snd (enqueue False now (ScheduledWake tid (te_callback_kind e)) el))\<lparr>el_timers := ts\<rparr>)"
  by (auto simp: fire_timer_def arm_timer_def Let_def split: option.split)

lemma handle_inv_timers [simp]: "handle_inv (el\<lparr>el_timers := ts\<rparr>) = handle_inv el"
  by (simp add: handle_inv_def settlers_def)

lemma step_handle_inv:
  assumes "el_step el el'" "handle_inv el"
  shows "handle_inv el'"
  using assms(1)
proof (cases rule: el_step.cases)
  case (es_register rnd tid kind i j f d)
  then show ?thesis using assms(2) register_timer_sel by force
next
  case (es_fire now rnd tid)
  then show ?thesis using assms(2) fire_timer_sel[of now rnd tid el] enqueue_no_handle_inv[OF assms(2)]
    by (auto split: option.splits)
next
  case (es_resolver_answer h ev st answer)
  then show ?thesis using resolver_answer_inv[OF assms(2), of h answer] by force
next
  case (es_resolver_never_ran h ev)
  then show ?thesis using resolver_never_ran_inv[OF assms(2), of h] by force
next
  case es_finish
  then show ?thesis using stop_finish_inv[OF assms(2)] by (simp add: is_running_def)
next
  case es_begin
  then show ?thesis using assms(2) by (auto simp: sup_begin_def settlers_def intro!: handle_inv_cong[of el])
next
  case es_sup_cancelled
  then show ?thesis using assms(2) by (auto simp: sup_cancelled_def settlers_def intro!: handle_inv_cong[of el])
next
  case es_timeout
  then show ?thesis using assms(2) by (auto simp: stop_timeout_def settlers_def intro!: handle_inv_cong[of el])
next
  case (es_unregister tid)
  then show ?thesis using assms(2) by (simp add: unregister_timer_def)
next
  case (es_give_up h)
  then show ?thesis using assms(2) by (simp add: cancel_handle_def settle_inv)
qed (use assms(2) dispatch_inv enqueue_no_handle_inv start_loop_inv sup_get_inv handle_wake_inv set_resolver_inv
  stop_begin_inv stop_poison_inv in simp_all)

lemma phase_inv_cong:
  "phase_inv el \<Longrightarrow> el_stop el' = el_stop el \<Longrightarrow> el_stopped el' = el_stopped el \<Longrightarrow>
   el_task el' = el_task el \<Longrightarrow> (el_stopped el \<Longrightarrow> el_stop el = Not_stopping \<Longrightarrow> el_queue el' = el_queue el) \<Longrightarrow> phase_inv el'"
  by (auto simp: phase_inv_def)

lemma enqueue_phase:
  "el_stop (snd (enqueue s now w el)) = el_stop el" "el_stopped (snd (enqueue s now w el)) = el_stopped el"
  "el_task (snd (enqueue s now w el)) = el_task el"
  "el_stopped el \<Longrightarrow> el_queue (snd (enqueue s now w el)) = el_queue el"
  by (cases rule: enqueue_cases[of el s now w];
      simp add: settle_defs spawn_reentrant_def emit_def put_nowait_def split: option.split)+

lemma dispatch_phase:
  "el_stop (snd (dispatch_sync s now ev el)) = el_stop el" "el_stopped (snd (dispatch_sync s now ev el)) = el_stopped el"
  "el_task (snd (dispatch_sync s now ev el)) = el_task el"
  "el_stopped el \<Longrightarrow> el_queue (snd (dispatch_sync s now ev el)) = el_queue el"
  by (simp_all add: dispatch_sync_eq Let_def enqueue_phase)

lemma step_phase_inv:
  assumes "el_step el el'" "phase_inv el"
  shows "phase_inv el'"
  using assms(1)
proof (cases rule: el_step.cases)
  case (es_fire now rnd tid)
  then show ?thesis using assms(2) fire_timer_sel[of now rnd tid el]
    by (auto simp: enqueue_phase intro!: phase_inv_cong[OF assms(2)] split: option.splits)
next
  case (es_register rnd tid kind i j f d)
  then obtain ts where "el' = el\<lparr>el_timers := ts\<rparr>" using register_timer_sel by blast
  then show ?thesis by (intro phase_inv_cong[OF assms(2)]) simp_all
next
  case (es_answer w answer)
  then show ?thesis using assms(2)
    by (auto simp: phase_inv_def handle_wake_eq settle_opt_def split: option.split)
next
  case es_poison
  then show ?thesis using assms(2)
    by (auto simp: phase_inv_def stop_poison_def stop_finish_def drain_eq put_nowait_def is_running_def)
next
  case es_get
  then show ?thesis using assms(2) by (auto simp: phase_inv_def sup_get_def Let_def split: list.splits)
qed (use assms(2) in \<open>auto simp: phase_inv_def dispatch_phase enqueue_phase unregister_timer_def cancel_handle_def
   start_loop_def is_running_def sup_begin_def sup_cancelled_def resolver_answer_eq resolver_never_ran_def
   stop_begin_def stop_timeout_def stop_finish_def drain_eq\<close>)

text \<open>A settled handle never changes.\<close>

lemma enqueue_handles:
  "el_handles el k \<noteq> Some Pending \<Longrightarrow> el_handles (snd (enqueue s now w el)) k = el_handles el k"
  by (cases rule: enqueue_cases[of el s now w])
    (simp_all add: settle_defs settle_handles spawn_reentrant_def emit_def put_nowait_def split: option.split)

lemma dispatch_handles:
  assumes "handle_inv el" "el_handles el k = Some st" "st \<noteq> Pending"
  shows "el_handles (snd (dispatch_sync s now ev el)) k = Some st"
proof -
  have "k \<noteq> el_next_handle el" using assms(1,2) by (auto simp: handle_inv_def)
  then show ?thesis using assms enqueue_handles by (simp add: dispatch_sync_eq Let_def)
qed

lemma step_settled:
  assumes "el_step el el'" "handle_inv el" "el_handles el k = Some st" "st \<noteq> Pending"
  shows "el_handles el' k = Some st"
  using assms(1)
proof (cases rule: el_step.cases)
  case es_dispatch
  then show ?thesis using dispatch_handles[OF assms(2-4)] by simp
next
  case (es_fire now rnd tid)
  then show ?thesis using assms(3,4) fire_timer_sel[of now rnd tid el] enqueue_handles[of el k]
    by (auto split: option.splits)
next
  case (es_register rnd tid kind i j f d)
  then show ?thesis using assms(3) register_timer_sel by force
next
  case es_get
  then show ?thesis using assms(3) by (auto simp: sup_get_def Let_def split: list.splits)
next
  case (es_answer w answer)
  then show ?thesis using assms(3,4) by (auto simp: handle_wake_eq settle_opt_def settle_handles split: option.split)
next
  case es_poison
  then show ?thesis using assms(3,4) by (auto simp: stop_poison_def stop_finish_def drain_eq discard_wakes_handles put_nowait_def)
qed (use assms(3,4) in \<open>auto simp: enqueue_handles unregister_timer_def cancel_handle_def settle_handles start_loop_def
   sup_begin_def sup_cancelled_def resolver_answer_eq resolver_never_ran_def stop_begin_def stop_timeout_def
   stop_finish_def drain_eq discard_wakes_handles\<close>)

lemma mk_invs: "handle_inv (mk_EventLoop agent on_inbound qsize)" "phase_inv (mk_EventLoop agent on_inbound qsize)"
  by (simp_all add: mk_EventLoop_def handle_inv_def phase_inv_def settlers_def)

lemma steps_invs: "el_steps el el' \<Longrightarrow> handle_inv el \<and> phase_inv el \<Longrightarrow> handle_inv el' \<and> phase_inv el'"
  by (induction rule: el_steps.induct) (auto dest: step_handle_inv step_phase_inv)

lemma reachable_invs:
  assumes "el_reachable el"
  shows "queue_inv el" "handle_inv el" "phase_inv el"
  using assms steps_queue_inv[OF _ mk_queue_inv] steps_invs mk_invs by (auto simp: el_reachable_def)

lemma steps_settled:
  "el_steps el el' \<Longrightarrow> handle_inv el \<and> phase_inv el \<Longrightarrow> el_handles el k = Some st \<Longrightarrow> st \<noteq> Pending \<Longrightarrow> el_handles el' k = Some st"
proof (induction rule: el_steps.induct)
  case (el_more el el' el'')
  then show ?case using step_settled[of el' el'' k st] steps_invs by blast
qed simp

lemma steps_trans: "el_steps b c \<Longrightarrow> el_steps a b \<Longrightarrow> el_steps a c"
  by (induction rule: el_steps.induct) (auto intro: el_more)

lemma reachable_steps: "el_reachable el \<Longrightarrow> el_steps el el' \<Longrightarrow> el_reachable el'"
  unfolding el_reachable_def using steps_trans by blast



section \<open>Properties of the loop\<close>

text \<open>
  C7. The wake queue is bounded, first in first out, and loses nothing silently. In every reachable
  loop the queue holds at most its configured size; the accepted wakes are exactly, and in order, the
  wakes taken from the queue followed by those still in it, and what was handled is a subsequence of
  them; the drop counter and the exported metric agree. A wake is refused if and only if the loop is
  stopped or the queue is full, a reentrant one with a handle excepted.
\<close>

theorem wake_queue_fifo:
  assumes "el_reachable el"
  shows "(el_maxsize el > 0 \<longrightarrow> int (length (el_queue el)) \<le> el_maxsize el) \<and>
    el_accepted el = map fst (el_history el) @ el_queue el \<and>
    subseq (map fst (filter (\<lambda>(w, out). out = Handled) (el_history el))) (el_accepted el) \<and>
    el_dropped_count el = length (filter ((=) ''wake_dropped'') (el_metrics el)) \<and>
    (fst (enqueue in_sup now wake el) \<longleftrightarrow>
       \<not> el_stopped el \<and> (queue_full el \<longrightarrow> in_sup \<and> wake_handle wake \<noteq> None))"
proof -
  have q: "queue_inv el" using assms by (rule reachable_invs)
  have "subseq (map fst (filter (\<lambda>(w, out). out = Handled) (el_history el))) (map fst (el_history el) @ el_queue el)"
    by (intro subseq_rev_drop_many subseq_map subseq_filter_left)
  moreover have "fst (enqueue in_sup now wake el) \<longleftrightarrow>
      \<not> el_stopped el \<and> (queue_full el \<longrightarrow> in_sup \<and> wake_handle wake \<noteq> None)"
    by (cases wake) (auto simp: enqueue_def split: option.split)
  ultimately show ?thesis using q by (simp add: queue_inv_def)
qed

text \<open>
  C6. No caller is forgotten, and none is answered twice. A handle that is still pending in a
  reachable loop is in exactly one place from which it will be settled: the queue, the wake being
  handled, or a live resolver; the only exception is a handle whose resolver was cancelled before its
  first step. Once a handle is settled no later operation changes it. So when \<open>stop\<close> has returned and
  the resolvers have ended, every handle is settled but for that exception.
\<close>

theorem no_caller_forgotten:
  assumes "el_reachable el"
  shows "(el_handles el h = Some Pending \<longrightarrow> h \<in> set (settlers el) \<or> h \<in> set (el_unstarted el)) \<and>
    distinct (settlers el @ el_unstarted el) \<and>
    (el_steps el el' \<and> el_handles el h = Some st \<and> st \<noteq> Pending \<longrightarrow> el_handles el' h = Some st) \<and>
    (el_stopped el \<and> el_stop el = Not_stopping \<and> el_reentrant el = [] \<and> el_handles el h = Some Pending \<longrightarrow>
       h \<in> set (el_unstarted el))"
proof -
  have i: "handle_inv el" "phase_inv el" using assms by (rule reachable_invs)+
  have "settlers el = []" if "el_stopped el" "el_stop el = Not_stopping" "el_reentrant el = []"
    using that i(2) by (simp add: phase_inv_def settlers_def)
  then show ?thesis using i steps_settled[of el el' h st] by (auto simp: handle_inv_def)
qed

text \<open>
  The steps that are the loop's own: the supervisor takes a wake, its callback answers, a cancelled supervisor ends, \<open>stop\<close> goes on
  (after its bounded wait for the resolvers, and when the supervisor has ended). The expiry of the time \<open>stop\<close> gives the supervisor is not among them, nor is anything a producer does.
\<close>

inductive own_step :: "EventLoop \<Rightarrow> EventLoop \<Rightarrow> bool" where
  own_begin: "el_task el = Some ET_created \<Longrightarrow> \<not> el_cancel el \<Longrightarrow> own_step el (sup_begin el)"
| own_get: "el_task el = Some ET_waiting \<Longrightarrow> \<not> el_cancel el \<Longrightarrow> el_queue el \<noteq> [] \<Longrightarrow> own_step el (sup_get el)"
| own_answer: "el_task el = Some (ET_handling w) \<Longrightarrow> answer = CB_cancelled \<longrightarrow> el_cancel el \<Longrightarrow> own_step el (handle_wake_supervised w answer el)"
| own_cancelled: "el_task el \<in> {Some ET_created, Some ET_waiting} \<Longrightarrow> el_cancel el \<Longrightarrow> own_step el (sup_cancelled el)"
| own_poison: "el_stop el = Await_resolvers \<Longrightarrow> own_step el (stop_poison el)"
| own_finish: "el_stop el = Await_supervisor \<Longrightarrow> el_task el = Some ET_finished \<Longrightarrow> own_step el (stop_finish el)"

lemma own_step_is_step: "own_step el el' \<Longrightarrow> el_step el el'"
  by (auto elim!: own_step.cases intro: el_step.intros)

text \<open>How many steps of its own a stopping loop may still take.\<close>

fun task_rank :: "task_state option \<Rightarrow> nat" where
  "task_rank None = 0"
| "task_rank (Some ET_finished) = 1"
| "task_rank (Some (ET_handling w)) = 2"
| "task_rank (Some ET_created) = 2"
| "task_rank (Some ET_waiting) = 3"

definition stop_rank :: "EventLoop \<Rightarrow> nat" where
  "stop_rank el = (if el_stop el = Await_resolvers then 4 else 0) + task_rank (el_task el)"

lemma stop_rank_le: "stop_rank el \<le> 7"
  by (cases "el_task el" rule: task_rank.cases) (simp_all add: stop_rank_def)

lemma own_step_rank:
  assumes "own_step el el'" "el_stopped el"
  shows "el_stopped el' \<and> stop_rank el' < stop_rank el"
  using assms(1)
proof cases
  case own_get
  then show ?thesis using assms(2) by (auto simp: sup_get_def stop_rank_def Let_def split: list.split)
next
  case (own_answer w answer)
  then show ?thesis using assms(2) by (auto simp: handle_wake_eq settle_opt_def stop_rank_def next_task_def split: option.split)
next
  case own_poison
  then show ?thesis using assms(2) by (auto simp: stop_poison_def stop_finish_def drain_eq put_nowait_def stop_rank_def)
qed (use assms(2) in \<open>auto simp: sup_begin_def sup_cancelled_def next_task_def stop_finish_def drain_eq stop_rank_def\<close>)

text \<open>A supervisor that \<open>stop\<close> waits for, and that waits itself, has been cancelled or has something to take.\<close>

definition poisoned :: "EventLoop \<Rightarrow> bool" where
  "poisoned el \<longleftrightarrow> (el_stop el = Await_supervisor \<and> el_task el = Some ET_waiting \<longrightarrow> el_cancel el \<or> el_queue el \<noteq> [])"

lemma enqueue_cancel [simp]: "el_cancel (snd (enqueue s now w el)) = el_cancel el"
  by (cases rule: enqueue_cases[of el s now w])
    (simp_all add: settle_defs spawn_reentrant_def emit_def put_nowait_def split: option.split)

lemma enqueue_queue_grows: "el_queue el \<noteq> [] \<Longrightarrow> el_queue (snd (enqueue s now w el)) \<noteq> []"
  by (cases rule: enqueue_cases[of el s now w])
    (simp_all add: settle_defs spawn_reentrant_def emit_def put_nowait_def split: option.split)

lemma poisoned_cong:
  "poisoned el \<Longrightarrow> el_stop el' = el_stop el \<Longrightarrow> el_task el' = el_task el \<Longrightarrow> el_cancel el' = el_cancel el \<Longrightarrow>
   (el_queue el \<noteq> [] \<Longrightarrow> el_queue el' \<noteq> []) \<Longrightarrow> poisoned el'"
  by (auto simp: poisoned_def)

lemma step_poisoned:
  assumes "el_step el el'" "poisoned el" "phase_inv el"
  shows "poisoned el'"
  using assms(1)
proof (cases rule: el_step.cases)
  case (es_fire now rnd tid)
  then show ?thesis using fire_timer_sel[of now rnd tid el] assms(2)
    by (auto simp: enqueue_phase enqueue_queue_grows intro!: poisoned_cong[OF assms(2)] split: option.splits)
next
  case (es_register rnd tid kind i j f d)
  then obtain ts where "el' = el\<lparr>el_timers := ts\<rparr>" using register_timer_sel by blast
  then show ?thesis by (intro poisoned_cong[OF assms(2)]) simp_all
next
  case (es_dispatch in_sup now ev)
  then show ?thesis by (intro poisoned_cong[OF assms(2)]) (simp_all add: dispatch_sync_eq Let_def enqueue_phase enqueue_queue_grows)
next
  case (es_answer w answer)
  then show ?thesis using assms(2,3)
    by (auto simp: poisoned_def phase_inv_def handle_wake_eq settle_opt_def next_task_def split: option.split)
next
  case es_poison
  then show ?thesis by (auto simp: poisoned_def stop_poison_def stop_finish_def put_nowait_def)
next
  case es_get
  then show ?thesis by (auto simp: poisoned_def sup_get_def Let_def split: list.splits)
qed (use assms(2,3) in \<open>auto simp: poisoned_def phase_inv_def enqueue_phase enqueue_queue_grows unregister_timer_def cancel_handle_def
   start_loop_def is_running_def sup_begin_def next_task_def sup_cancelled_def resolver_answer_eq resolver_never_ran_def
   set_resolver_def drop_resolver_def stop_begin_def stop_timeout_def stop_finish_def\<close>)

lemma reachable_poisoned:
  assumes "el_reachable el"
  shows "poisoned el"
proof -
  have "el_steps a b \<Longrightarrow> handle_inv a \<and> phase_inv a \<Longrightarrow> poisoned a \<Longrightarrow> poisoned b" for a b
  proof (induction rule: el_steps.induct)
    case (el_more el el' el'')
    then show ?case using step_poisoned[of el' el''] steps_invs by blast
  qed simp
  moreover have "poisoned (mk_EventLoop agent on_inbound qsize)" for agent on_inbound qsize
    by (simp add: poisoned_def mk_EventLoop_def)
  ultimately show ?thesis using assms mk_invs unfolding el_reachable_def by blast
qed

lemma stopping_moves:
  assumes "el_reachable el" "el_stop el \<noteq> Not_stopping"
  shows "\<exists>el'. own_step el el'"
proof (cases "el_stop el")
  case Await_supervisor
  then obtain t where t: "el_task el = Some t" using reachable_invs(3)[OF assms(1)] by (auto simp: phase_inv_def)
  show ?thesis
  proof (cases t)
    case (ET_handling w)
    then show ?thesis using t own_answer[of el w CB_raises] by auto
  next
    case ET_waiting
    then show ?thesis using t Await_supervisor reachable_poisoned[OF assms(1)] own_get[of el] own_cancelled[of el]
      by (auto simp: poisoned_def)
  qed (use t Await_supervisor own_begin[of el] own_cancelled[of el] own_finish[of el] in auto)
qed (use own_poison assms(2) in auto)

lemma own_run:
  "(own_step ^^ n) el el' \<Longrightarrow> el_reachable el \<Longrightarrow> el_stopped el \<Longrightarrow> el_reachable el' \<and> el_stopped el' \<and> stop_rank el' + n \<le> stop_rank el"
proof (induction n arbitrary: el')
  case (Suc n)
  then obtain m where m: "(own_step ^^ n) el m" "own_step m el'" by (auto simp: relcompp_apply)
  note i = Suc.IH[OF m(1) Suc.prems(2,3)]
  have "el_reachable el'" using i own_step_is_step[OF m(2)] reachable_steps el_more el_refl by blast
  then show ?case using i own_step_rank[OF m(2)] by auto
qed simp

lemma stopping_rank_falls:
  assumes "el_step el el'" "el_stop el \<noteq> Not_stopping" "el_stopped el"
  shows "stop_rank el' \<le> stop_rank el"
  using assms(1)
proof (cases rule: el_step.cases)
  case (es_fire now rnd tid)
  then show ?thesis using fire_timer_sel[of now rnd tid el] by (auto simp: enqueue_phase stop_rank_def split: option.splits)
next
  case (es_register rnd tid kind i j f d)
  then obtain ts where "el' = el\<lparr>el_timers := ts\<rparr>" using register_timer_sel by blast
  then show ?thesis by (simp add: stop_rank_def)
next
  case es_begin
  then show ?thesis using own_step_rank[OF own_begin assms(3)] by auto
next
  case es_get
  then show ?thesis using own_step_rank[OF own_get assms(3)] by auto
next
  case (es_answer w answer)
  then show ?thesis using own_step_rank[OF own_answer[of el w answer] assms(3)] by auto
next
  case es_sup_cancelled
  then show ?thesis using own_step_rank[OF own_cancelled assms(3)] by auto
next
  case es_poison
  then show ?thesis using own_step_rank[OF own_poison assms(3)] by auto
next
  case es_finish
  then show ?thesis using own_step_rank[OF own_finish assms(3)] by auto
qed (use assms(2) in \<open>auto simp: stop_rank_def dispatch_phase enqueue_phase unregister_timer_def cancel_handle_def resolver_answer_eq
   resolver_never_ran_def stop_timeout_def\<close>)

text \<open>
  C8. A stop that was begun returns, in at most seven steps of the loop's own and without the time it gives the supervisor having to expire. From every reachable loop that is stopping, a run of
  the loop's own steps, in any order, has at most \<open>stop_rank\<close> of them, which is at most seven, and never gets stuck before \<open>stop\<close> has returned with the supervisor gone and the
  queue empty: a supervisor that waits for a wake finds the sentinel, or was cancelled because the queue was full. No step of a producer, a resolver or the timeout sets the stop back, and
  nothing new is accepted meanwhile. That the callback under way answers, if only when it is cancelled, is the one thing the loop relies on.
\<close>

theorem stop_returns:
  assumes "el_reachable el" "el_stop el \<noteq> Not_stopping"
  shows "(\<forall>n el'. (own_step ^^ n) el el' \<longrightarrow>
       n \<le> stop_rank el \<and> ((\<exists>el''. own_step el' el'') \<or> el_stop el' = Not_stopping \<and> el_task el' = None \<and> el_queue el' = [])) \<and>
    stop_rank el \<le> 7 \<and> (\<forall>el'. el_step el el' \<longrightarrow> stop_rank el' \<le> stop_rank el) \<and> \<not> fst (enqueue in_sup now wake el)"
proof -
  have ph: "phase_inv el" using assms(1) by (rule reachable_invs)
  then have st: "el_stopped el" using assms(2) by (simp add: phase_inv_def)
  have "n \<le> stop_rank el \<and> ((\<exists>el''. own_step el' el'') \<or> el_stop el' = Not_stopping \<and> el_task el' = None \<and> el_queue el' = [])"
    if "(own_step ^^ n) el el'" for n el'
  proof -
    note r = own_run[OF that assms(1) st]
    then have "phase_inv el'" using reachable_invs by blast
    then have "el_stop el' = Not_stopping \<longrightarrow> el_task el' = None \<and> el_queue el' = []" using r by (simp add: phase_inv_def)
    then show ?thesis using r stopping_moves[of el'] by auto
  qed
  moreover have "\<not> fst (enqueue in_sup now wake el)" using st by (simp add: enqueue_def)
  ultimately show ?thesis using stop_rank_le stopping_rank_falls[OF _ assms(2) st] by blast
qed



section \<open>Timers never busy-loop\<close>

definition timer_ok :: "TimerEntry \<Rightarrow> bool" where
  "timer_ok e \<longleftrightarrow>
     (te_one_shot e \<longleftrightarrow> te_interval e = None) \<and>
     (\<forall>i. te_interval e = Some i \<longrightarrow> MIN_INTERVAL \<le> i \<and> 0 \<le> te_jitter_max e \<and> te_jitter_max e \<le> i - MIN_INTERVAL)"

definition timers_inv :: "EventLoop \<Rightarrow> bool" where
  "timers_inv el \<longleftrightarrow> (\<forall>tid e. map_of (el_timers el) tid = Some e \<longrightarrow> timer_ok e)"

lemma timer_ok_delay [simp]: "timer_ok (e\<lparr>te_delay := d\<rparr>) = timer_ok e"
  by (simp add: timer_ok_def)

lemma arm_timer_inv: "timers_inv el \<Longrightarrow> timer_ok e \<Longrightarrow> timers_inv (arm_timer rnd tid e d el)"
  by (auto simp: timers_inv_def arm_timer_def Let_def update_conv' split: if_splits)

lemma register_timer_inv:
  "register_timer rnd tid kind i j f d el = Inr el' \<Longrightarrow> timers_inv el \<Longrightarrow> timers_inv el'"
  by (cases i; cases f) (auto simp: register_timer_def Let_def timer_ok_def intro!: arm_timer_inv split: if_splits)

lemma enqueue_timers [simp]: "el_timers (snd (enqueue s now w el)) = el_timers el"
  by (cases rule: enqueue_cases[of el s now w])
    (simp_all add: settle_defs spawn_reentrant_def emit_def put_nowait_def split: option.split)

lemma fire_timer_inv: "timers_inv el \<Longrightarrow> timers_inv (fire_timer now rnd tid el)"
proof (cases "map_of (el_timers el) tid")
  case (Some e)
  assume i: "timers_inv el"
  let ?el = "snd (enqueue False now (ScheduledWake tid (te_callback_kind e)) el)"
  have "timers_inv ?el" "timer_ok e" using i Some by (auto simp: timers_inv_def)
  moreover have "timers_inv (?el\<lparr>el_timers := AList.delete tid (el_timers ?el)\<rparr>)"
    using i by (auto simp: timers_inv_def delete_conv' split: if_splits)
  ultimately show ?thesis using Some by (simp add: fire_timer_def Let_def arm_timer_inv)
qed (simp add: fire_timer_def)

lemma timers_inv_cong: "el_timers el' = el_timers el \<Longrightarrow> timers_inv el' = timers_inv el"
  by (simp add: timers_inv_def)

lemma step_timers_inv:
  assumes "el_step el el'" "timers_inv el"
  shows "timers_inv el'"
  using assms(1)
proof (cases rule: el_step.cases)
  case es_register
  then show ?thesis using assms(2) register_timer_inv by blast
next
  case es_unregister
  then show ?thesis using assms(2) by (auto simp: timers_inv_def unregister_timer_def delete_conv' split: if_splits)
next
  case es_stop
  then show ?thesis by (simp add: timers_inv_def stop_begin_def)
next
  case es_poison
  then show ?thesis using assms(2)
    by (auto simp: stop_poison_def stop_finish_def drain_eq put_nowait_def intro: timers_inv_cong[THEN iffD2])
next
  case es_get
  then show ?thesis using assms(2)
    by (auto simp: sup_get_def Let_def intro: timers_inv_cong[THEN iffD2] split: list.split)
next
  case (es_answer w answer)
  then show ?thesis using assms(2)
    by (auto simp: handle_wake_eq settle_opt_def intro: timers_inv_cong[THEN iffD2] split: option.split)
qed (use assms(2) fire_timer_inv in \<open>auto simp: dispatch_sync_eq Let_def cancel_handle_def start_loop_def sup_begin_def
   sup_cancelled_def resolver_answer_eq resolver_never_ran_def stop_timeout_def stop_finish_def drain_eq
   intro: timers_inv_cong[THEN iffD2]\<close>)

lemma reachable_timers: "el_reachable el \<Longrightarrow> timers_inv el"
proof -
  have "el_steps a b \<Longrightarrow> timers_inv a \<Longrightarrow> timers_inv b" for a b
    by (induction rule: el_steps.induct) (auto dest: step_timers_inv)
  moreover have "timers_inv (mk_EventLoop agent on_inbound qsize)" for agent on_inbound qsize
    by (simp add: timers_inv_def mk_EventLoop_def)
  ultimately show "el_reachable el \<Longrightarrow> timers_inv el" by (auto simp: el_reachable_def)
qed

text \<open>
  The busy-loop guard. Whatever timers were registered, a periodic timer that fires in a reachable
  loop re-arms itself with a delay of at least the minimum interval and within its jitter of its
  interval, and a one-shot timer that fires is gone; registering under a taken id is refused. The draw
  is only assumed to lie in the range it was asked for.
\<close>

lemma timers_never_busy_loop:
  assumes "el_reachable el" "map_of (el_timers el) tid = Some e"
    and "- te_jitter_max e \<le> rnd" "rnd \<le> te_jitter_max e"
  shows "(te_one_shot e \<longrightarrow> \<not> has_timer (fire_timer now rnd tid el) tid) \<and>
    (\<not> te_one_shot e \<longrightarrow> (\<exists>i d. te_interval e = Some i \<and>
       map_of (el_timers (fire_timer now rnd tid el)) tid = Some (e\<lparr>te_delay := d\<rparr>) \<and>
       MIN_INTERVAL \<le> d \<and> i - te_jitter_max e \<le> d \<and> d \<le> i + te_jitter_max e)) \<and>
    register_timer rnd tid kind interval jitter fire_after initial el = Inl ValueError"
proof -
  have ok: "timer_ok e" using reachable_timers[OF assms(1)] assms(2) by (simp add: timers_inv_def)
  have one: "te_one_shot e \<Longrightarrow> \<not> has_timer (fire_timer now rnd tid el) tid"
    using assms(2) by (simp add: fire_timer_def Let_def has_timer_def delete_conv')
  have per: "\<exists>d. map_of (el_timers (fire_timer now rnd tid el)) tid = Some (e\<lparr>te_delay := d\<rparr>) \<and>
      MIN_INTERVAL \<le> d \<and> i - te_jitter_max e \<le> d \<and> d \<le> i + te_jitter_max e"
    if "\<not> te_one_shot e" "te_interval e = Some i" for i
  proof -
    let ?d = "if te_jitter_max e \<le> 0 then i else i + rnd"
    have "map_of (el_timers (fire_timer now rnd tid el)) tid = Some (e\<lparr>te_delay := ?d\<rparr>)"
      using assms(2) that by (simp add: fire_timer_def Let_def arm_timer_def next_delay_def update_conv')
    then show ?thesis using ok that assms(3,4) by (intro exI[of _ ?d]) (auto simp: timer_ok_def)
  qed
  have "register_timer rnd tid kind interval jitter fire_after initial el = Inl ValueError"
    using assms(2) by (simp add: register_timer_def has_timer_def)
  then show ?thesis using one per ok by (auto simp: timer_ok_def)
qed



section \<open>A sample run\<close>

text \<open>
  A loop is started, takes a channel message, dispatches to itself from inside the callback, and is
  stopped before the detached resolver has run.
\<close>

lemma reach_step: "el_reachable el \<Longrightarrow> el_step el el' \<Longrightarrow> el_reachable el'"
  by (rule reachable_steps) (auto intro: el_more el_refl)

definition sample_event :: AgentEvent where
  "sample_event = \<lparr>event_type = CHANNEL_MESSAGE, payload = [], channel_id = None, sender_id = None,
     message_id = None, thread_id = None, timestamp = 0, metadata = []\<rparr>"

definition run_handling :: EventLoop where
  "run_handling = sup_get (snd (enqueue False 0 (InboundEventWake sample_event None)
     (sup_begin (start_loop (mk_EventLoop ''a'' True 2)))))"

definition run_reentrant :: EventLoop where
  "run_reentrant = snd (dispatch_sync True 0 sample_event run_handling)"

definition run_stopping :: EventLoop where
  "run_stopping = stop_poison (resolver_never_ran 0 (stop_begin run_reentrant))"

lemmas run_defs = run_stopping_def run_reentrant_def run_handling_def stop_poison_def resolver_never_ran_def
  drop_resolver_def stop_begin_def dispatch_sync_def enqueue_def spawn_reentrant_def emit_def sup_get_def
  put_nowait_def sup_begin_def next_task_def start_loop_def is_running_def mk_EventLoop_def queue_full_def Let_def

lemma run_handling_reachable: "el_reachable run_handling"
proof -
  let ?a = "mk_EventLoop ''a'' True 2"
  let ?b = "sup_begin (start_loop ?a)"
  have "el_reachable ?a" by (auto simp: el_reachable_def intro: el_refl)
  then have "el_reachable (start_loop ?a)" by (rule reach_step) (rule es_start, simp add: run_defs)
  then have "el_reachable ?b" by (rule reach_step) (rule es_begin, simp_all add: run_defs)
  then have "el_reachable (snd (enqueue False 0 (InboundEventWake sample_event None) ?b))"
    by (rule reach_step) (rule es_inbound)
  then show ?thesis unfolding run_handling_def by (rule reach_step) (rule es_get, simp_all add: run_defs)
qed

lemma run_reentrant_reachable: "el_reachable run_reentrant"
  unfolding run_reentrant_def
  by (rule reach_step[OF run_handling_reachable], rule es_dispatch) (simp add: run_defs)

lemma run_stopping_reachable: "el_reachable run_stopping"
proof -
  have "el_reachable (stop_begin run_reentrant)"
    by (rule reach_step[OF run_reentrant_reachable], rule es_stop) (simp add: run_defs)
  then have "el_reachable (resolver_never_ran 0 (stop_begin run_reentrant))"
    by (rule reach_step) (rule es_resolver_never_ran[where ev = sample_event], simp add: run_defs)
  then show ?thesis unfolding run_stopping_def by (rule reach_step) (rule es_poison, simp add: run_defs)
qed

text \<open>
  The exception of the theorem above is real: a resolver cancelled before its first step never
  enters the handler that would settle its handle, so the callback that awaits it is left with a
  pending handle that no part of the loop will settle.
\<close>

lemma unstarted_resolver_strands_caller:
  "\<exists>el h. el_reachable el \<and> el_stop el = Await_supervisor \<and> (\<exists>w. el_task el = Some (ET_handling w)) \<and>
     el_handles el h = Some Pending \<and> h \<notin> set (settlers el)"
  by (intro exI[of _ run_stopping] exI[of _ 0] conjI run_stopping_reachable)
    (simp_all add: run_defs settlers_def)

theorem wake_queue_fifo_witness:
  "el_reachable run_reentrant \<and> el_accepted run_reentrant = map fst (el_history run_reentrant) @ el_queue run_reentrant"
  using wake_queue_fifo[OF run_reentrant_reachable] run_reentrant_reachable by simp

theorem no_caller_forgotten_witness:
  "el_reachable run_reentrant \<and> el_handles run_reentrant 0 = Some Pending \<and>
   (0 \<in> set (settlers run_reentrant) \<or> 0 \<in> set (el_unstarted run_reentrant))"
proof -
  have p: "el_handles run_reentrant 0 = Some Pending" by (simp add: run_defs)
  with no_caller_forgotten[OF run_reentrant_reachable, of 0, THEN conjunct1] show ?thesis
    using run_reentrant_reachable by blast
qed

theorem stop_returns_witness:
  "el_stop run_stopping = Await_supervisor \<and> stop_rank run_stopping = 2 \<and>
   (\<exists>el. own_step (stop_poison (stop_begin (sup_begin (start_loop (mk_EventLoop ''a'' True 2))))) el) \<and>
   (\<exists>el. own_step (handle_wake_supervised (InboundEventWake sample_event None) CB_raises run_stopping) el)"
proof -
  let ?a = "handle_wake_supervised (InboundEventWake sample_event None) CB_raises run_stopping"
  have s: "el_stop run_stopping = Await_supervisor" by (simp add: run_defs)
  have t: "el_task run_stopping = Some (ET_handling (InboundEventWake sample_event None))" by (simp add: run_defs)
  have "(own_step ^^ 1) run_stopping ?a" using own_answer[OF t, of CB_raises] by (auto simp: relcompp_apply)
  moreover have "el_stop ?a = Await_supervisor" by (simp add: run_defs handle_wake_eq settle_opt_def)
  ultimately have a: "\<exists>el. own_step ?a el" using stop_returns[OF run_stopping_reachable] s by fastforce
  let ?w = "sup_begin (start_loop (mk_EventLoop ''a'' True 2))"
  have "el_reachable (mk_EventLoop ''a'' True 2)" by (auto simp: el_reachable_def intro: el_refl)
  then have "el_reachable (start_loop (mk_EventLoop ''a'' True 2))" by (rule reach_step) (rule es_start, simp add: run_defs)
  then have "el_reachable ?w" by (rule reach_step) (rule es_begin, simp_all add: run_defs)
  then have "el_reachable (stop_begin ?w)" by (rule reach_step) (rule es_stop, simp add: run_defs)
  then have "el_reachable (stop_poison (stop_begin ?w))" by (rule reach_step) (rule es_poison, simp add: run_defs)
  moreover have p: "el_stop (stop_poison (stop_begin ?w)) = Await_supervisor" by (simp add: run_defs)
  moreover have "(own_step ^^ 0) (stop_poison (stop_begin ?w)) (stop_poison (stop_begin ?w))" by simp
  ultimately have "\<exists>el. own_step (stop_poison (stop_begin ?w)) el" using stop_returns[of "stop_poison (stop_begin ?w)"] by fastforce
  then show ?thesis using a s t by (simp add: stop_rank_def)
qed

text \<open>A timer of ten seconds with two seconds of jitter, on the handling loop.\<close>

definition sample_timer :: TimerEntry where
  "sample_timer = \<lparr>te_interval = Some 10, te_callback_kind = ''tick'', te_jitter_max = 2, te_one_shot = False, te_delay = 11\<rparr>"

theorem timers_never_busy_loop_witness:
  "\<exists>el d. el_reachable el \<and> map_of (el_timers el) ''t'' = Some sample_timer \<and>
     map_of (el_timers (fire_timer 0 (- 2) ''t'' el)) ''t'' = Some (sample_timer\<lparr>te_delay := d\<rparr>) \<and> MIN_INTERVAL \<le> d"
proof -
  let ?el = "run_handling\<lparr>el_timers := [(''t'', sample_timer)]\<rparr>"
  have "register_timer 1 ''t'' ''tick'' (Some 10) 2 None None run_handling = Inr ?el"
    by (simp add: register_timer_def arm_timer_def next_delay_def has_timer_def MIN_INTERVAL_def sample_timer_def run_defs)
  then have r: "el_reachable ?el" by (rule reach_step[OF run_handling_reachable es_register])
  have m: "map_of (el_timers ?el) ''t'' = Some sample_timer" by simp
  have "- te_jitter_max sample_timer \<le> - 2" "- 2 \<le> te_jitter_max sample_timer" "\<not> te_one_shot sample_timer"
    by (simp_all add: sample_timer_def)
  note t = timers_never_busy_loop[OF r m this(1,2), of 0, THEN conjunct2, THEN conjunct1, rule_format, OF this(3)]
  then obtain d where "map_of (el_timers (fire_timer 0 (- 2) ''t'' ?el)) ''t'' = Some (sample_timer\<lparr>te_delay := d\<rparr>)" "MIN_INTERVAL \<le> d"
    by (elim exE conjE)
  with r m show ?thesis by (intro exI conjI)
qed

end
