(* ===== verification/Wake_Salience.thy ===== *)
theory Wake_Salience
  imports Event_Loop
begin

text \<open>
  Memory writes that wake an agent: the write event and its salience clip
  (\<open>src/agents/memory/_events.py\<close>) and the subscriber that turns a write into a wake of its own
  loop (\<open>src/agents/event_loop_salience.py\<close>). The clock and the active tracing span are arguments.
  The list of admission times is kept as a ghost next to the sliding window.
\<close>


section \<open>Write events\<close>

text \<open>The constructor clips the salience, special values included.\<close>

fun clip_salience :: "pyfloat \<Rightarrow> rat" where
  "clip_salience NaN = 0"
| "clip_salience NegInf = 0"
| "clip_salience PosInf = 1"
| "clip_salience (Fin x) = max 0 (min 1 x)"

definition mk_MemoryWriteEvent ::
  "string \<Rightarrow> string \<Rightarrow> pyfloat \<Rightarrow> string option \<Rightarrow> rat \<Rightarrow> MemoryWriteEvent" where
  "mk_MemoryWriteEvent agent tier salience span_id written_at =
     \<lparr>we_agent_id = agent, we_tier = tier, we_salience = clip_salience salience,
      we_source_span_id = span_id, we_written_at = written_at\<rparr>"


section \<open>The subscriber\<close>

definition REASON_BELOW :: string where "REASON_BELOW = ''below_threshold''"
definition REASON_LOOPBACK :: string where "REASON_LOOPBACK = ''loopback''"
definition REASON_RATE_LIMIT :: string where "REASON_RATE_LIMIT = ''rate_limit''"
definition REASON_NONE :: string where "REASON_NONE = ''none''"
definition REASON_QUEUE_FULL :: string where "REASON_QUEUE_FULL = ''queue_full''"

definition DEFAULT_SALIENCE_THRESHOLD :: rat where "DEFAULT_SALIENCE_THRESHOLD = 95 / 100"
definition DEFAULT_SALIENCE_RATE_MAX_PER_SEC :: int where "DEFAULT_SALIENCE_RATE_MAX_PER_SEC = 10"

record SalienceSubscriber =
  ss_agent_id :: string
  ss_threshold :: rat
  ss_rate_max :: int
  ss_recent :: "rat list"
  ss_admitted :: "rat list"
  ss_recorded :: "(string \<times> string) list"

definition mk_SalienceSubscriber :: "string \<Rightarrow> rat option \<Rightarrow> int option \<Rightarrow> SalienceSubscriber" where
  "mk_SalienceSubscriber agent threshold rate_max =
     \<lparr>ss_agent_id = agent,
      ss_threshold = (case threshold of Some t \<Rightarrow> t | None \<Rightarrow> DEFAULT_SALIENCE_THRESHOLD),
      ss_rate_max = (case rate_max of Some r \<Rightarrow> r | None \<Rightarrow> DEFAULT_SALIENCE_RATE_MAX_PER_SEC),
      ss_recent = [], ss_admitted = [], ss_recorded = []\<rparr>"

definition decide_salience ::
  "string option \<Rightarrow> rat \<Rightarrow> MemoryWriteEvent \<Rightarrow> SalienceSubscriber \<times> EventLoop \<Rightarrow> string \<times> SalienceSubscriber \<times> EventLoop" where
  "decide_salience active now ev st =
     (let (sub, el) = st in
      if \<not> we_salience ev > ss_threshold sub then (REASON_BELOW, sub, el)
      else if we_source_span_id ev \<noteq> None \<and> active \<noteq> None \<and> we_source_span_id ev = active
        then (REASON_LOOPBACK, sub, el)
      else let cutoff = now - 1;
               recent = dropWhile (\<lambda>t. t < cutoff) (ss_recent sub)
           in if int (length recent) \<ge> ss_rate_max sub
              then (REASON_RATE_LIMIT, sub\<lparr>ss_recent := recent\<rparr>, el)
              else let sub1 = sub\<lparr>ss_recent := recent @ [now], ss_admitted := ss_admitted sub @ [now]\<rparr>;
                       (accepted, el1) = enqueue False now (SalienceWake (Some ev)) el
                   in (if accepted then REASON_NONE else REASON_QUEUE_FULL, sub1, el1))"

text \<open>One delivery of a published write to the subscriber of one loop.\<close>

definition on_write ::
  "string option \<Rightarrow> rat \<Rightarrow> MemoryWriteEvent \<Rightarrow> SalienceSubscriber \<times> EventLoop \<Rightarrow> SalienceSubscriber \<times> EventLoop" where
  "on_write active now ev st =
     (if we_agent_id ev \<noteq> ss_agent_id (fst st) then st
      else let (reason, sub, el) = decide_salience active now ev st
           in (sub\<lparr>ss_recorded := ss_recorded sub @ [(we_tier ev, reason)]\<rparr>, el))"

fun on_writes ::
  "(string option \<times> rat \<times> MemoryWriteEvent) list \<Rightarrow> SalienceSubscriber \<times> EventLoop \<Rightarrow> SalienceSubscriber \<times> EventLoop" where
  "on_writes [] st = st"
| "on_writes ((active, now, ev) # ws) st = on_writes ws (on_write active now ev st)"


section \<open>The rate limit\<close>

definition in_window :: "rat \<Rightarrow> rat list \<Rightarrow> rat list" where
  "in_window t xs = filter (\<lambda>a. t - 1 \<le> a \<and> a \<le> t) xs"

text \<open>
  The window holds the latest admissions; those that left it are more than a second older than
  the clock, and no window of a second ever held more than the cap.
\<close>

definition rate_inv :: "rat \<Rightarrow> SalienceSubscriber \<Rightarrow> bool" where
  "rate_inv clock sub \<longleftrightarrow>
     (\<exists>old. ss_admitted sub = old @ ss_recent sub \<and> (\<forall>a \<in> set old. a < clock - 1)) \<and>
     (\<forall>a \<in> set (ss_admitted sub). a \<le> clock) \<and>
     (\<forall>t. int (length (in_window t (ss_admitted sub))) \<le> max 0 (ss_rate_max sub))"

lemma rate_inv_later: "rate_inv clock sub \<Longrightarrow> clock \<le> now \<Longrightarrow> rate_inv now sub"
  unfolding rate_inv_def by force

lemma rate_inv_drop:
  assumes "rate_inv now sub"
  shows "rate_inv now (sub\<lparr>ss_recent := dropWhile (\<lambda>t. t < now - 1) (ss_recent sub)\<rparr>)"
proof -
  let ?p = "\<lambda>t. t < now - 1"
  obtain old where o: "ss_admitted sub = old @ ss_recent sub" "\<forall>a \<in> set old. a < now - 1"
    using assms by (auto simp: rate_inv_def)
  have "ss_admitted sub = (old @ takeWhile ?p (ss_recent sub)) @ dropWhile ?p (ss_recent sub)" using o(1) by simp
  moreover have "\<forall>a \<in> set (old @ takeWhile ?p (ss_recent sub)). a < now - 1" using o(2) by (auto dest: set_takeWhileD)
  ultimately have "\<exists>old. ss_admitted sub = old @ dropWhile ?p (ss_recent sub) \<and> (\<forall>a \<in> set old. a < now - 1)" by blast
  then show ?thesis using assms by (simp add: rate_inv_def)
qed

lemma rate_inv_admit:
  assumes "rate_inv now sub" "int (length (ss_recent sub)) < ss_rate_max sub"
  shows "rate_inv now (sub\<lparr>ss_recent := ss_recent sub @ [now], ss_admitted := ss_admitted sub @ [now]\<rparr>)"
proof -
  obtain old where o: "ss_admitted sub = old @ ss_recent sub" "\<forall>a \<in> set old. a < now - 1"
    using assms(1) by (auto simp: rate_inv_def)
  have "int (length (in_window t (ss_admitted sub @ [now]))) \<le> max 0 (ss_rate_max sub)" for t
  proof (cases "now \<le> t \<and> t - 1 \<le> now")
    case True
    have "in_window t old = []" using o(2) True by (auto simp: in_window_def filter_empty_conv)
    moreover have "length (in_window t (ss_recent sub)) \<le> length (ss_recent sub)" by (simp add: in_window_def)
    moreover have "length (in_window t (ss_admitted sub @ [now])) \<le> length (in_window t old) + length (in_window t (ss_recent sub)) + 1"
      by (simp add: o(1) in_window_def)
    ultimately show ?thesis using assms(2) by simp
  next
    case False
    then have "in_window t (ss_admitted sub @ [now]) = in_window t (ss_admitted sub)" by (auto simp: in_window_def)
    then show ?thesis using assms(1) by (simp add: rate_inv_def)
  qed
  then show ?thesis using assms(1) o by (auto simp: rate_inv_def)
qed

lemma rate_inv_recorded [simp]: "rate_inv now (sub\<lparr>ss_recorded := rs\<rparr>) = rate_inv now sub"
  by (simp add: rate_inv_def)

lemma on_write_rate_inv:
  assumes "rate_inv clock (fst st)" "clock \<le> now"
  shows "rate_inv now (fst (on_write active now ev st))"
proof -
  have i: "rate_inv now (fst st)" using assms by (rule rate_inv_later)
  show ?thesis using i rate_inv_drop[OF i] rate_inv_admit[OF rate_inv_drop[OF i]]
    by (cases st) (auto simp: on_write_def decide_salience_def Let_def split: prod.splits if_splits)
qed

lemma on_write_config:
  "ss_rate_max (fst (on_write active now ev st)) = ss_rate_max (fst st)"
  "ss_agent_id (fst (on_write active now ev st)) = ss_agent_id (fst st)"
  "ss_threshold (fst (on_write active now ev st)) = ss_threshold (fst st)"
  by (cases st; simp add: on_write_def decide_salience_def Let_def split: prod.split)+

text \<open>A write, its clock and its span, as one delivery of the run.\<close>

lemma on_writes_rate_inv:
  "rate_inv clock (fst st) \<Longrightarrow> sorted (clock # map (fst \<circ> snd) ws) \<Longrightarrow>
   (\<exists>now. rate_inv now (fst (on_writes ws st))) \<and> ss_rate_max (fst (on_writes ws st)) = ss_rate_max (fst st)"
proof (induction ws arbitrary: st clock)
  case (Cons w ws)
  obtain active now ev where w: "w = (active, now, ev)" by (cases w)
  have "rate_inv now (fst (on_write active now ev st))"
    using Cons.prems by (intro on_write_rate_inv[of clock]) (auto simp: w)
  then show ?case using Cons.IH[of now "on_write active now ev st"] Cons.prems(2)
    by (auto simp: w on_write_config)
qed auto

definition own_writes :: "string \<Rightarrow> (string option \<times> rat \<times> MemoryWriteEvent) list \<Rightarrow> (string option \<times> rat \<times> MemoryWriteEvent) list" where
  "own_writes agent ws = filter (\<lambda>(active, now, ev). we_agent_id ev = agent) ws"

lemma on_write_recorded:
  "\<exists>reason \<in> {REASON_BELOW, REASON_LOOPBACK, REASON_RATE_LIMIT, REASON_NONE, REASON_QUEUE_FULL}.
     ss_recorded (fst (on_write active now ev st)) =
       ss_recorded (fst st) @ (if we_agent_id ev = ss_agent_id (fst st) then [(we_tier ev, reason)] else [])"
  by (cases st) (auto simp: on_write_def decide_salience_def Let_def split: prod.split)

lemma on_writes_recorded:
  "map fst (ss_recorded (fst (on_writes ws st))) =
     map fst (ss_recorded (fst st)) @ map (\<lambda>(active, now, ev). we_tier ev) (own_writes (ss_agent_id (fst st)) ws)"
proof (induction ws arbitrary: st)
  case (Cons w ws)
  obtain active now ev where w: "w = (active, now, ev)" by (cases w)
  obtain reason where "ss_recorded (fst (on_write active now ev st)) =
      ss_recorded (fst st) @ (if we_agent_id ev = ss_agent_id (fst st) then [(we_tier ev, reason)] else [])"
    using on_write_recorded by blast
  then show ?case using Cons.IH[of "on_write active now ev st"] by (simp add: w own_writes_def on_write_config)
qed (simp add: own_writes_def)

text \<open>
  A write storm cannot flood the agent. However many memory writes are delivered, on a clock that
  does not run backwards, no second ever sees more than the configured number of admitted wakes; and
  every write of the agent itself, and no other, records exactly one data point, in order.
\<close>

lemma salience_rate_bounded:
  assumes "sorted (map (fst \<circ> snd) ws)"
    and "run = on_writes ws (mk_SalienceSubscriber agent threshold rate_max, el)"
  shows "int (length (in_window t (ss_admitted (fst run)))) \<le>
      max 0 (case rate_max of Some r \<Rightarrow> r | None \<Rightarrow> DEFAULT_SALIENCE_RATE_MAX_PER_SEC) \<and>
    map fst (ss_recorded (fst run)) = map (\<lambda>(active, now, ev). we_tier ev) (own_writes agent ws)"
proof -
  let ?sub = "mk_SalienceSubscriber agent threshold rate_max"
  define clock where "clock = (case ws of [] \<Rightarrow> 0 | w # _ \<Rightarrow> fst (snd w))"
  have "rate_inv clock ?sub" by (simp add: rate_inv_def mk_SalienceSubscriber_def in_window_def)
  moreover have "sorted (clock # map (fst \<circ> snd) ws)" using assms(1) by (cases ws) (auto simp: clock_def)
  ultimately obtain now where "rate_inv now (fst run)" "ss_rate_max (fst run) = ss_rate_max ?sub"
    using on_writes_rate_inv[of clock "(?sub, el)" ws] assms(2) by auto
  then have "int (length (in_window t (ss_admitted (fst run)))) \<le> max 0 (ss_rate_max ?sub)" by (auto simp: rate_inv_def)
  then show ?thesis using on_writes_recorded[of ws "(?sub, el)"] assms(2) by (simp add: mk_SalienceSubscriber_def)
qed

text \<open>
  When a write wakes the agent. A delivery changes the loop only for a write of the same agent
  whose clipped salience is strictly above the threshold, that did not happen inside the span that is
  still active, and while the window has room; then it offers exactly one wake carrying the write, and
  the recorded reason says whether the loop took it. A write of another agent changes nothing at all.
\<close>

lemma write_wakes_iff:
  "let admitted = (we_agent_id ev = ss_agent_id sub \<and> we_salience ev > ss_threshold sub \<and>
         \<not> (we_source_span_id ev \<noteq> None \<and> we_source_span_id ev = active) \<and>
         int (length (dropWhile (\<lambda>t. t < now - 1) (ss_recent sub))) < ss_rate_max sub);
       (sub', el') = on_write active now ev (sub, el)
   in (if admitted
       then el' = snd (enqueue False now (SalienceWake (Some ev)) el) \<and>
            ss_recorded sub' = ss_recorded sub @
              [(we_tier ev, if el_stopped el \<or> queue_full el then REASON_QUEUE_FULL else REASON_NONE)]
       else el' = el) \<and>
      (if we_agent_id ev \<noteq> ss_agent_id sub then sub' = sub else ss_recorded sub' \<noteq> ss_recorded sub)"
proof -
  have f: "fst (enqueue False now (SalienceWake (Some ev)) el) = (\<not> (el_stopped el \<or> queue_full el))"
    by (simp add: enqueue_def)
  show ?thesis using f
    by (cases "we_source_span_id ev")
      (auto simp: on_write_def decide_salience_def Let_def split: prod.splits if_splits)
qed

text \<open>
  The default threshold keeps every write below or at it silent, whatever its writer passed, for the
  clip never leaves the unit interval.
\<close>

lemma clip_salience_unit: "0 \<le> clip_salience s \<and> clip_salience s \<le> 1"
  by (cases s rule: clip_salience.cases) auto

definition sample_write :: MemoryWriteEvent where
  "sample_write = mk_MemoryWriteEvent ''a'' ''notes'' PosInf None 0"

theorem salience_rate_bounded_witness:
  "int (length (in_window 1 (ss_admitted (fst (on_writes [(None, 0, sample_write), (None, 1, sample_write)]
      (mk_SalienceSubscriber ''a'' None (Some 1), mk_EventLoop ''a'' True 2)))))) \<le> 1"
  using salience_rate_bounded[of "[(None, 0, sample_write), (None, 1, sample_write)]" _ "''a''" None "Some 1"
      "mk_EventLoop ''a'' True 2" 1, OF _ refl] by simp

end
