(* ===== verification/Dispatch.thy ===== *)
theory Dispatch
  imports Persona_Types
begin

text \<open>
  Dispatching an event and executing what the agent decides (\<open>src/agents/dispatch.py\<close>,
  \<open>dispatch_context.py\<close>, \<open>action_executor.py\<close>, \<open>end_vote_action.py\<close>): the cascade in which a message sent by one agent is
  dispatched to the agents it mentions.

  Agents are functions from the event and the turns so far to actions or an exception; the publisher
  is a function from the call to its outcome, and there may be none; an executor may have no
  dispatcher; whether a target's event loop takes the wake is a
  function of the turns so far. The close that a published vote discharges is recorded as the call
  made. What Python prints for a value that is no string is a parameter. The payload of an action is any value, and reading one that is no object raises as it does in the code.
  A channel id in the payload of a message is a string; a depth in metadata is an integer, and
  everything else there raises as a non-number does. Timeouts of a hop appear as its exception; the
  leak tripwire, which only watches and never blocks or raises, and the tracing span are left out.
\<close>


section \<open>The dispatch context\<close>

definition DEFAULT_MAX_CASCADE_DEPTH :: int where "DEFAULT_MAX_CASCADE_DEPTH = 5"
definition MAX_MENTIONS_PER_ACTION :: nat where "MAX_MENTIONS_PER_ACTION = 10"

record DispatchContext =
  dx_cascade_depth :: int
  dx_origin_channel_id :: string
  dx_origin_interaction_id :: string
  dx_origin_synthesis_turn :: bool
  dx_origin_epoch_id :: string
  dx_origin_session_id :: string
  dx_origin_principal_id :: string

definition wire_interaction_id :: "AgentEvent \<Rightarrow> string" where
  "wire_interaction_id ev =
     (case py_get_or (metadata ev) ''interaction_id'' (PyStr []) of PyStr s \<Rightarrow> s | _ \<Rightarrow> [])"

definition for_event :: "AgentEvent \<Rightarrow> int \<Rightarrow> DispatchContext" where
  "for_event ev depth =
     \<lparr>dx_cascade_depth = depth,
      dx_origin_channel_id = or_str (channel_id ev) [],
      dx_origin_interaction_id = wire_interaction_id ev,
      dx_origin_synthesis_turn = is_true (py_get (payload ev) ''synthesis_turn''),
      dx_origin_epoch_id = or_str (epoch_id_from_metadata (metadata ev)) [],
      dx_origin_session_id = or_str (session_id_from_metadata (metadata ev)) [],
      dx_origin_principal_id = or_str (principal_id_from_metadata (metadata ev)) []\<rparr>"

text \<open>Session, then principal, then epoch; an empty field enters nothing.\<close>

definition request_scopes :: "DispatchContext \<Rightarrow> (ambient \<Rightarrow> 'r \<times> ambient) \<Rightarrow> ambient \<Rightarrow> 'r \<times> ambient" where
  "request_scopes ctx body =
     (let e = (if dx_origin_epoch_id ctx \<noteq> [] then epoch_scope (Some (dx_origin_epoch_id ctx)) (\<lambda>_. body) else body);
          p = (if dx_origin_principal_id ctx \<noteq> [] then principal_scope (Some (dx_origin_principal_id ctx)) (\<lambda>_. e) else e)
      in if dx_origin_session_id ctx \<noteq> [] then session_scope (Some (dx_origin_session_id ctx)) (\<lambda>_. p) else p)"

definition same_channel_claim :: "DispatchContext \<Rightarrow> string \<Rightarrow> bool \<Rightarrow> pydict option" where
  "same_channel_claim ctx target claim_synthesis_reply =
     (if dx_origin_interaction_id ctx \<noteq> [] \<and> target = dx_origin_channel_id ctx
      then Some ((''interaction_id'', PyStr (dx_origin_interaction_id ctx)) #
                 (if claim_synthesis_reply \<and> dx_origin_synthesis_turn ctx then [(''synthesis_reply'', PyBool True)] else []))
      else None)"


section \<open>Executing actions\<close>

record publish_call =
  pc_channel_id :: string
  pc_sender_id :: string
  pc_content :: pyval
  pc_mentions :: "pyval list"
  pc_metadata :: "pydict option"
  pc_cascade_depth :: int

datatype publish_outcome = Pub_ok | Pub_channels_disabled | Pub_raises

type_synonym turn_log = "(string \<times> AgentEvent) list"

record dispatch_env =
  env_agents :: "string \<Rightarrow> (AgentEvent \<Rightarrow> turn_log \<Rightarrow> AgentAction list result) option"
  env_accepts :: "string \<Rightarrow> turn_log \<Rightarrow> bool"
  env_max_cascade_depth :: int
  env_dispatcher :: bool
  env_publisher :: "(publish_call \<Rightarrow> publish_call list \<Rightarrow> publish_outcome) option"
  env_vote_seam :: "string \<Rightarrow> bool"
  env_str :: "pyval \<Rightarrow> string"
  env_now :: rat

text \<open>A call of \<open>resolve_end_vote_publish\<close> on the voter.\<close>

record vote_outcome =
  vo_agent :: string
  vo_channel_id :: string
  vo_published :: bool
  vo_token :: string
  vo_synthesis_reply :: bool

record cascade =
  cs_turns :: turn_log
  cs_wire :: "publish_call list"
  cs_outcomes :: "vote_outcome list"
  cs_ambient :: ambient

type_synonym child_dispatch = "pyval \<Rightarrow> AgentEvent \<Rightarrow> cascade \<Rightarrow> AgentAction list result \<times> cascade"

definition send_status :: "string \<Rightarrow> string \<Rightarrow> pyval \<Rightarrow> pydict" where
  "send_status status target dispatched =
     [(''action_type'', PyStr ''send_channel_message''), (''status'', PyStr status),
      (''channel_id'', PyStr target), (''dispatched_to'', dispatched)]"

definition send_mentions :: "pydict \<Rightarrow> pyval list" where
  "send_mentions pl =
     (case py_get_or pl ''mentions'' (PyList []) of
        PyList ms \<Rightarrow> take MAX_MENTIONS_PER_ACTION ms
      | _ \<Rightarrow> [])"

definition child_event :: "rat \<Rightarrow> string \<Rightarrow> string \<Rightarrow> pyval \<Rightarrow> pyval list \<Rightarrow> DispatchContext \<Rightarrow> AgentEvent" where
  "child_event now sender target content mentions ctx =
     \<lparr>event_type = CHANNEL_MESSAGE,
      payload = [(''content'', content), (''channel_id'', PyStr target), (''mentions'', PyList mentions),
                 (''respond_policy'', PyStr ''when_mentioned'')],
      channel_id = Some target, sender_id = Some sender, message_id = None, thread_id = None, timestamp = now,
      metadata = [(''cascade_depth'', PyInt (dx_cascade_depth ctx))] @
        (if dx_origin_session_id ctx \<noteq> [] then [(EVENT_SESSION_METADATA_KEY, PyStr (dx_origin_session_id ctx))] else []) @
        (if dx_origin_epoch_id ctx \<noteq> [] then [(EVENT_EPOCH_METADATA_KEY, PyStr (dx_origin_epoch_id ctx))] else []) @
        (if dx_origin_principal_id ctx \<noteq> [] then [(EVENT_PRINCIPAL_METADATA_KEY, PyStr (dx_origin_principal_id ctx))] else [])\<rparr>"

fun fan_out :: "child_dispatch \<Rightarrow> AgentEvent \<Rightarrow> pyval list \<Rightarrow> int \<Rightarrow> cascade \<Rightarrow> int \<times> cascade" where
  "fan_out child ev [] n st = (n, st)"
| "fan_out child ev (t # ts) n st =
     (case child t ev st of
        (Inr _, st1) \<Rightarrow> fan_out child ev ts (n + 1) st1
      | (Inl _, st1) \<Rightarrow> fan_out child ev ts n st1)"

definition handle_send_channel_message ::
  "child_dispatch \<Rightarrow> dispatch_env \<Rightarrow> string \<Rightarrow> pydict \<Rightarrow> DispatchContext \<Rightarrow> cascade \<Rightarrow> pydict \<times> cascade" where
  "handle_send_channel_message child env sender pl ctx st =
     (let target = (case py_get_or pl ''channel_id'' (PyStr []) of PyStr s \<Rightarrow> s | _ \<Rightarrow> []);
          content = py_get_or pl ''content'' (PyStr []);
          mentions = send_mentions pl
      in case (if target \<noteq> [] then env_publisher env else None) of
           Some publish \<Rightarrow>
             (let call = \<lparr>pc_channel_id = target, pc_sender_id = sender, pc_content = content,
                          pc_mentions = mentions, pc_metadata = same_channel_claim ctx target True,
                          pc_cascade_depth = dx_cascade_depth ctx\<rparr>
              in (send_status (case publish call (cs_wire st) of
                                 Pub_ok \<Rightarrow> ''published''
                               | Pub_channels_disabled \<Rightarrow> ''channels_disabled''
                               | Pub_raises \<Rightarrow> ''failed'') target PyNone,
                  st\<lparr>cs_wire := cs_wire st @ [call]\<rparr>))
         | None \<Rightarrow>
             if \<not> env_dispatcher env then (send_status ''no_dispatcher'' target PyNone, st)
             else if mentions = [] then (send_status ''no_targets'' target (PyInt 0), st)
             else (let (n, st1) = fan_out child (child_event (env_now env) sender target content mentions ctx) mentions 0 st
                   in (send_status (if n > 0 then ''dispatched'' else ''failed'') target (PyInt n), st1)))"

definition END_VOTE_DEFAULT_CONTENT :: string where
  "END_VOTE_DEFAULT_CONTENT = ''I have nothing further to add.''"

definition END_VOTE_DM_PREFIX :: string where "END_VOTE_DM_PREFIX = ''dm:''"
definition VOTE_CLOSE_TOKEN_KEY :: string where "VOTE_CLOSE_TOKEN_KEY = ''vote_close_token''"

text \<open>\<open>str(v or "")\<close>.\<close>

definition str_or_empty :: "(pyval \<Rightarrow> string) \<Rightarrow> pyval \<Rightarrow> string" where
  "str_or_empty to_str v = (if truthy v then (case v of PyStr s \<Rightarrow> s | _ \<Rightarrow> to_str v) else [])"

definition vote_status :: "string \<Rightarrow> string \<Rightarrow> string \<Rightarrow> pydict" where
  "vote_status status target token =
     [(''action_type'', PyStr ''end_interaction_vote''), (''status'', PyStr status),
      (''channel_id'', PyStr target), (''vote_close_token'', PyStr token)]"

definition publish_end_interaction_vote ::
  "dispatch_env \<Rightarrow> string \<Rightarrow> pydict \<Rightarrow> DispatchContext \<Rightarrow> cascade \<Rightarrow> pydict \<times> cascade" where
  "publish_end_interaction_vote env sender pl ctx st =
     (let target = py_strip (str_or_empty (env_str env) (py_get_or pl ''channel_id'' (PyStr [])));
          token = str_or_empty (env_str env) (py_get_or pl VOTE_CLOSE_TOKEN_KEY (PyStr []))
      in case env_publisher env of
           None \<Rightarrow> (vote_status ''not_implemented'' target token, st)
         | Some publish \<Rightarrow>
             if target = [] then
               ([(''action_type'', PyStr ''end_interaction_vote''), (''status'', PyStr ''no_channel_id'')], st)
             else if take (length END_VOTE_DM_PREFIX) target = END_VOTE_DM_PREFIX then
               (vote_status ''dm_channel'' target token, st)
             else
               (let content = py_strip (str_or_empty (env_str env) (py_get_or pl ''content'' (PyStr [])));
                    claim = same_channel_claim ctx target True;
                    synthesis_reply = (case claim of None \<Rightarrow> False | Some c \<Rightarrow> map_of c ''synthesis_reply'' \<noteq> None);
                    call = \<lparr>pc_channel_id = target, pc_sender_id = sender,
                            pc_content = PyStr (if content = [] then END_VOTE_DEFAULT_CONTENT else content),
                            pc_mentions = [],
                            pc_metadata = Some ((''end_interaction_vote'', PyBool True) #
                              (case claim of None \<Rightarrow> [] | Some c \<Rightarrow> c)),
                            pc_cascade_depth = dx_cascade_depth ctx\<rparr>;
                    st1 = st\<lparr>cs_wire := cs_wire st @ [call]\<rparr>
                in case publish call (cs_wire st) of
                     Pub_channels_disabled \<Rightarrow> (vote_status ''channels_disabled'' target token, st1)
                   | Pub_raises \<Rightarrow> (vote_status ''failed'' target token, st1)
                   | Pub_ok \<Rightarrow>
                       (vote_status ''published'' target token @ [(''synthesis_reply'', PyBool synthesis_reply)], st1)))"

definition notify_end_vote_outcome :: "dispatch_env \<Rightarrow> string \<Rightarrow> pydict \<Rightarrow> cascade \<Rightarrow> cascade" where
  "notify_end_vote_outcome env agent result st =
     (let channel = str_or_empty (env_str env) (py_get_or result ''channel_id'' (PyStr []))
      in if env_dispatcher env \<and> env_agents env agent \<noteq> None \<and> channel \<noteq> [] \<and> env_vote_seam env agent
         then st\<lparr>cs_outcomes := cs_outcomes st @
                [\<lparr>vo_agent = agent, vo_channel_id = channel,
                  vo_published = (py_get result ''status'' = PyStr ''published''),
                  vo_token = str_or_empty (env_str env) (py_get_or result ''vote_close_token'' (PyStr [])),
                  vo_synthesis_reply = is_true (py_get result ''synthesis_reply'')\<rparr>]\<rparr>
         else st)"

fun status_only :: "string \<Rightarrow> string \<Rightarrow> pydict" where
  "status_only kind status = [(''action_type'', PyStr kind), (''status'', PyStr status)]"

text \<open>\<open>action.payload.get\<close> raises on a payload that is no object; the kinds that read none never do.\<close>

definition reading_payload :: "AgentAction \<Rightarrow> (pydict \<Rightarrow> pydict \<times> cascade) \<Rightarrow> cascade \<Rightarrow> pydict result \<times> cascade" where
  "reading_payload action body st =
     (case py_dict_of (action_payload action) of
        Inl e \<Rightarrow> (Inl e, st)
      | Inr pl \<Rightarrow> (let (result, st1) = body pl in (Inr result, st1)))"

definition execute_one ::
  "child_dispatch \<Rightarrow> dispatch_env \<Rightarrow> string \<Rightarrow> AgentAction \<Rightarrow> DispatchContext \<Rightarrow> cascade \<Rightarrow> pydict result \<times> cascade" where
  "execute_one child env agent action ctx st =
     (case action_type action of
        COMPLETE_TASK \<Rightarrow>
          reading_payload action (\<lambda>pl. (status_only ''complete_task'' ''completed'' @ [(''result'', py_get_or pl ''result'' (PyStr []))], st)) st
      | SEND_CHANNEL_MESSAGE \<Rightarrow> reading_payload action (\<lambda>pl. handle_send_channel_message child env agent pl ctx st) st
      | USE_TOOL \<Rightarrow> (Inr (status_only ''use_tool'' ''skipped''), st)
      | DO_NOTHING \<Rightarrow> (Inr (status_only ''do_nothing'' ''ok''), st)
      | DELEGATE_ACTION \<Rightarrow> reading_payload action (\<lambda>_. (status_only ''delegate'' ''not_implemented'', st)) st
      | SPAWN_SUB_AGENT \<Rightarrow> reading_payload action (\<lambda>_. (status_only ''spawn_sub_agent'' ''not_implemented'', st)) st
      | REQUEST_APPROVAL \<Rightarrow> (Inr (status_only ''request_approval'' ''not_implemented''), st)
      | GRANT_APPROVAL \<Rightarrow> (Inr (status_only ''grant_approval'' ''not_implemented''), st)
      | DENY_APPROVAL \<Rightarrow> (Inr (status_only ''deny_approval'' ''not_implemented''), st)
      | END_INTERACTION_VOTE \<Rightarrow>
          reading_payload action (\<lambda>pl.
            let (result, st1) = publish_end_interaction_vote env agent pl ctx st
            in (result, notify_end_vote_outcome env agent result st1)) st)"

fun execute_all ::
  "child_dispatch \<Rightarrow> dispatch_env \<Rightarrow> string \<Rightarrow> AgentAction list \<Rightarrow> DispatchContext \<Rightarrow> cascade \<Rightarrow> pydict list result \<times> cascade" where
  "execute_all child env agent [] ctx st = (Inr [], st)"
| "execute_all child env agent (a # as) ctx st =
     (case execute_one child env agent a ctx st of
        (Inl e, st1) \<Rightarrow> (Inl e, st1)
      | (Inr r, st1) \<Rightarrow>
          (case execute_all child env agent as ctx st1 of
             (Inl e, st2) \<Rightarrow> (Inl e, st2)
           | (Inr rs, st2) \<Rightarrow> (Inr (r # rs), st2)))"

definition execute ::
  "child_dispatch \<Rightarrow> dispatch_env \<Rightarrow> string \<Rightarrow> AgentAction list \<Rightarrow> DispatchContext \<Rightarrow> cascade \<Rightarrow> pydict list result \<times> cascade" where
  "execute child env agent actions ctx st =
     (let ((results, st1), amb) =
            request_scopes ctx
              (\<lambda>a. let (rs, st1) = execute_all child env agent actions ctx (st\<lparr>cs_ambient := a\<rparr>)
                   in ((rs, st1), cs_ambient st1)) (cs_ambient st)
      in (results, st1\<lparr>cs_ambient := amb\<rparr>))"


section \<open>Dispatching\<close>

definition depth_of :: "pydict \<Rightarrow> int result" where
  "depth_of md =
     (case py_get_or md ''cascade_depth'' (PyInt 0) of
        PyInt d \<Rightarrow> Inr d
      | PyBool b \<Rightarrow> Inr (if b then 1 else 0)
      | _ \<Rightarrow> Inl TypeError)"

text \<open>\<open>agents.get(target)\<close>: a key that cannot be hashed raises; one that is no string is not there.\<close>

definition lookup_agent :: "dispatch_env \<Rightarrow> pyval \<Rightarrow> (string \<times> (AgentEvent \<Rightarrow> turn_log \<Rightarrow> AgentAction list result)) option result" where
  "lookup_agent env target =
     (case target of
        PyStr t \<Rightarrow> Inr (map_option (Pair t) (env_agents env t))
      | PyList _ \<Rightarrow> Inl TypeError
      | PyDict _ \<Rightarrow> Inl TypeError
      | _ \<Rightarrow> Inr None)"

definition deepen :: "AgentEvent \<Rightarrow> int \<Rightarrow> AgentEvent" where
  "deepen ev depth = ev\<lparr>metadata := AList.update ''cascade_depth'' (PyInt depth) (metadata ev)\<rparr>"

definition dispatch_body ::
  "child_dispatch \<Rightarrow> dispatch_env \<Rightarrow> pyval \<Rightarrow> AgentEvent \<Rightarrow> bool \<Rightarrow> cascade \<Rightarrow> AgentAction list result \<times> cascade" where
  "dispatch_body child env target ev execute_actions st =
     (case depth_of (metadata ev) of
        Inl e \<Rightarrow> (Inl e, st)
      | Inr depth \<Rightarrow>
          if depth \<ge> env_max_cascade_depth env then (Inr [], st)
          else case lookup_agent env target of
            Inl e \<Rightarrow> (Inl e, st)
          | Inr None \<Rightarrow> (Inr [], st)
          | Inr (Some (aid, on_event)) \<Rightarrow>
              (let ev1 = deepen ev (depth + 1) in
               if \<not> env_accepts env aid (cs_turns st) then (Inr [], st)
               else let st1 = st\<lparr>cs_turns := cs_turns st @ [(aid, ev1)]\<rparr>
                    in case on_event ev1 (cs_turns st) of
                         Inl e \<Rightarrow> (Inl e, st1)
                       | Inr actions \<Rightarrow>
                           if execute_actions
                           then (case execute child env aid actions (for_event ev1 (depth + 1)) st1 of
                                   (Inl e, st2) \<Rightarrow> (Inl e, st2)
                                 | (Inr _, st2) \<Rightarrow> (Inr actions, st2))
                           else (Inr actions, st1)))"

text \<open>
  The recursion of a dispatch through its children, unrolled a number of times. That the number
  chosen by \<open>dispatch\<close> is enough for every chain of children is proved below: the definition then
  satisfies the recursion of the code itself.
\<close>

primrec dispatch_upto :: "nat \<Rightarrow> dispatch_env \<Rightarrow> pyval \<Rightarrow> AgentEvent \<Rightarrow> bool \<Rightarrow> cascade \<Rightarrow> AgentAction list result \<times> cascade" where
  "dispatch_upto 0 env target ev execute_actions st = (Inr [], st)"
| "dispatch_upto (Suc n) env target ev execute_actions st =
     dispatch_body (\<lambda>t e. dispatch_upto n env t e True) env target ev execute_actions st"

definition hops_left :: "dispatch_env \<Rightarrow> AgentEvent \<Rightarrow> nat" where
  "hops_left env ev = (case depth_of (metadata ev) of Inr d \<Rightarrow> nat (env_max_cascade_depth env - d) | Inl _ \<Rightarrow> 0)"

definition dispatch :: "dispatch_env \<Rightarrow> pyval \<Rightarrow> AgentEvent \<Rightarrow> bool \<Rightarrow> cascade \<Rightarrow> AgentAction list result \<times> cascade" where
  "dispatch env target ev execute_actions st =
     dispatch_upto (Suc (hops_left env ev)) env target ev execute_actions st"


section \<open>The code's own recursion\<close>

lemma child_event_depth [simp]: "depth_of (metadata (child_event now s t c ms ctx)) = Inr (dx_cascade_depth ctx)"
  by (simp add: child_event_def depth_of_def py_get_or_def)

lemma fan_out_cong:
  assumes "\<And>t st. child t ev st = child' t ev st"
  shows "fan_out child ev ts n st = fan_out child' ev ts n st"
  by (induction ts arbitrary: n st) (simp_all add: assms split: prod.split sum.split)

lemma handle_send_cong:
  assumes "\<And>t e st. depth_of (metadata e) = Inr (dx_cascade_depth ctx) \<Longrightarrow> child t e st = child' t e st"
  shows "handle_send_channel_message child env s a ctx st = handle_send_channel_message child' env s a ctx st"
  unfolding handle_send_channel_message_def Let_def
  by (intro option.case_cong refl if_cong) (subst fan_out_cong[of child _ child'], simp_all add: assms)

lemma execute_one_cong:
  assumes "\<And>t e st. depth_of (metadata e) = Inr (dx_cascade_depth ctx) \<Longrightarrow> child t e st = child' t e st"
  shows "execute_one child env s a ctx st = execute_one child' env s a ctx st"
  unfolding execute_one_def using handle_send_cong[of ctx child child', OF assms] by (simp split: ActionType.split)

lemma execute_all_cong:
  assumes "\<And>t e st. depth_of (metadata e) = Inr (dx_cascade_depth ctx) \<Longrightarrow> child t e st = child' t e st"
  shows "execute_all child env s as ctx st = execute_all child' env s as ctx st"
  by (induction as arbitrary: st) (simp_all add: execute_one_cong[of ctx child child', OF assms] split: prod.split sum.split)

lemma execute_cong:
  assumes "\<And>t e st. depth_of (metadata e) = Inr (dx_cascade_depth ctx) \<Longrightarrow> child t e st = child' t e st"
  shows "execute child env s as ctx st = execute child' env s as ctx st"
  unfolding execute_def by (simp add: execute_all_cong[of ctx child child', OF assms])

lemma dispatch_body_cong:
  assumes "\<And>t e st d. depth_of (metadata ev) = Inr d \<Longrightarrow> d < env_max_cascade_depth env \<Longrightarrow>
      depth_of (metadata e) = Inr (d + 1) \<Longrightarrow> child t e st = child' t e st"
  shows "dispatch_body child env t ev x st = dispatch_body child' env t ev x st"
proof (cases "depth_of (metadata ev)")
  case (Inr d)
  show ?thesis
  proof (cases "d < env_max_cascade_depth env")
    case True
    have "execute child env aid as (for_event (deepen ev (d + 1)) (d + 1)) s =
        execute child' env aid as (for_event (deepen ev (d + 1)) (d + 1)) s" for aid as s
      by (rule execute_cong) (use assms[OF Inr True] in \<open>simp add: for_event_def\<close>)
    then show ?thesis unfolding dispatch_body_def Inr
      by (auto simp: Let_def split: sum.split option.split)
  qed (simp add: dispatch_body_def Inr)
qed (simp add: dispatch_body_def)

lemma dispatch_upto_enough: "hops_left env ev < n \<Longrightarrow> dispatch_upto n env t ev x st = dispatch env t ev x st"
proof (induction n arbitrary: ev t x st)
  case (Suc n)
  have "dispatch_upto n env t e True s = dispatch_upto (hops_left env ev) env t e True s"
    if "depth_of (metadata ev) = Inr d" "d < env_max_cascade_depth env" "depth_of (metadata e) = Inr (d + 1)" for d t e s
  proof -
    have h: "hops_left env ev = Suc (hops_left env e)" using that by (simp add: hops_left_def)
    have "dispatch_upto n env t e True s = dispatch env t e True s" using Suc.prems h by (intro Suc.IH) simp
    then show ?thesis unfolding dispatch_def h .
  qed
  then show ?case unfolding dispatch_def dispatch_upto.simps by (intro dispatch_body_cong) blast
qed simp

lemma dispatch_rec:
  "dispatch env t ev x st = dispatch_body (\<lambda>t e. dispatch env t e True) env t ev x st"
proof -
  have "dispatch_upto (hops_left env ev) env t e True s = dispatch env t e True s"
    if "depth_of (metadata ev) = Inr d" "d < env_max_cascade_depth env" "depth_of (metadata e) = Inr (d + 1)" for d t e s
    using that by (intro dispatch_upto_enough) (simp add: hops_left_def)
  then show ?thesis unfolding dispatch_def[of env t ev] dispatch_upto.simps by (intro dispatch_body_cong) blast
qed



section \<open>What a cascade may do\<close>

text \<open>The request world of an event: its session, principal and epoch.\<close>

definition axes :: "pydict \<Rightarrow> string option \<times> string option \<times> string option" where
  "axes md = (session_id_from_metadata md, principal_id_from_metadata md, epoch_id_from_metadata md)"

definition axes_of :: "DispatchContext \<Rightarrow> string option \<times> string option \<times> string option" where
  "axes_of ctx =
     (let opt = (\<lambda>s. if s = [] then None else Some s)
      in (opt (dx_origin_session_id ctx), opt (dx_origin_principal_id ctx), opt (dx_origin_epoch_id ctx)))"

lemmas axis_keys = EVENT_SESSION_METADATA_KEY_def EVENT_PRINCIPAL_METADATA_KEY_def EVENT_EPOCH_METADATA_KEY_def

lemma from_metadata_nonempty:
  "session_id_from_metadata md \<noteq> Some []" "principal_id_from_metadata md \<noteq> Some []" "epoch_id_from_metadata md \<noteq> Some []"
  by (auto simp: session_id_from_metadata_def principal_id_from_metadata_def epoch_id_from_metadata_def split: pyval.split)

lemma or_str_opt: "x \<noteq> Some [] \<Longrightarrow> (if or_str x [] = [] then None else Some (or_str x [])) = x"
  by (cases x) (auto simp: or_str_def)

lemma axes_for_event [simp]: "axes_of (for_event ev d) = axes (metadata ev)"
  using from_metadata_nonempty[of "metadata ev"]
  by (simp add: axes_of_def axes_def for_event_def or_str_opt Let_def)

lemma axes_deepen [simp]: "axes (metadata (deepen ev d)) = axes (metadata ev)"
  by (simp add: axes_def deepen_def session_id_from_metadata_def principal_id_from_metadata_def
      epoch_id_from_metadata_def axis_keys)

lemma depth_deepen [simp]: "depth_of (metadata (deepen ev d)) = Inr d"
  by (simp add: depth_of_def deepen_def py_get_or_def update_conv')

lemma axes_child [simp]: "axes (metadata (child_event now s t c ms ctx)) = axes_of ctx"
  by (simp add: axes_def axes_of_def child_event_def session_id_from_metadata_def principal_id_from_metadata_def
      epoch_id_from_metadata_def axis_keys Let_def)

text \<open>
  What one operation may add to the cascade: at most \<open>n\<close> turns, each deeper than \<open>lo\<close>, within the
  ceiling and in the given world; publishes within the ceiling with bounded mentions; and the ambient
  scopes as they were.
\<close>

definition adds :: "dispatch_env \<Rightarrow> int \<Rightarrow> string option \<times> string option \<times> string option \<Rightarrow> nat \<Rightarrow> cascade \<Rightarrow> cascade \<Rightarrow> bool" where
  "adds env lo world n st st' \<longleftrightarrow>
     (\<exists>new wire. cs_turns st' = cs_turns st @ new \<and> cs_wire st' = cs_wire st @ wire \<and> length new \<le> n \<and>
        (\<forall>(aid, e) \<in> set new. \<exists>k. depth_of (metadata e) = Inr k \<and> lo < k \<and> k \<le> env_max_cascade_depth env \<and>
           axes (metadata e) = world) \<and>
        (\<forall>c \<in> set wire. lo < pc_cascade_depth c \<and> pc_cascade_depth c \<le> env_max_cascade_depth env \<and>
           length (pc_mentions c) \<le> MAX_MENTIONS_PER_ACTION)) \<and>
     cs_ambient st' = cs_ambient st"

lemma adds_refl: "adds env lo world n st st"
  by (auto simp: adds_def)

lemma adds_trans:
  assumes "adds env lo world n a b" "adds env lo world m b c"
  shows "adds env lo world (n + m) a c"
proof -
  obtain n1 w1 n2 w2 where "cs_turns b = cs_turns a @ n1" "cs_wire b = cs_wire a @ w1" "length n1 \<le> n"
    "cs_turns c = cs_turns b @ n2" "cs_wire c = cs_wire b @ w2" "length n2 \<le> m"
    and "(\<forall>(aid, e) \<in> set n1. \<exists>k. depth_of (metadata e) = Inr k \<and> lo < k \<and> k \<le> env_max_cascade_depth env \<and> axes (metadata e) = world)"
    and "(\<forall>(aid, e) \<in> set n2. \<exists>k. depth_of (metadata e) = Inr k \<and> lo < k \<and> k \<le> env_max_cascade_depth env \<and> axes (metadata e) = world)"
    and "(\<forall>c \<in> set w1. lo < pc_cascade_depth c \<and> pc_cascade_depth c \<le> env_max_cascade_depth env \<and> length (pc_mentions c) \<le> MAX_MENTIONS_PER_ACTION)"
    and "(\<forall>c \<in> set w2. lo < pc_cascade_depth c \<and> pc_cascade_depth c \<le> env_max_cascade_depth env \<and> length (pc_mentions c) \<le> MAX_MENTIONS_PER_ACTION)"
    using assms unfolding adds_def by blast
  then show ?thesis using assms unfolding adds_def
    by (intro conjI exI[of _ "n1 @ n2"] exI[of _ "w1 @ w2"]) auto
qed

lemma adds_mono: "adds env lo world n a b \<Longrightarrow> n \<le> m \<Longrightarrow> lo' \<le> lo \<Longrightarrow> adds env lo' world m a b"
  unfolding adds_def by fastforce

text \<open>What is assumed of the child dispatches while the parts of the executor are treated.\<close>

definition child_adds :: "child_dispatch \<Rightarrow> dispatch_env \<Rightarrow> DispatchContext \<Rightarrow> nat \<Rightarrow> bool" where
  "child_adds child env ctx n \<longleftrightarrow>
     (\<forall>t e st. depth_of (metadata e) = Inr (dx_cascade_depth ctx) \<and> axes (metadata e) = axes_of ctx \<longrightarrow>
        adds env (dx_cascade_depth ctx) (axes_of ctx) n st (snd (child t e st)))"

lemma fan_out_adds:
  assumes "\<And>t st. adds env lo world n st (snd (child t ev st))"
  shows "adds env lo world (length ts * n) st (snd (fan_out child ev ts k st))"
proof (induction ts arbitrary: k st)
  case (Cons t ts)
  have "adds env lo world n st (snd (child t ev st))" by (rule assms)
  moreover obtain r st1 where c: "child t ev st = (r, st1)" by (cases "child t ev st")
  moreover have "adds env lo world (length ts * n) st1 (snd (fan_out child ev (t # ts) k st))"
    by (cases r) (simp_all add: c Cons.IH)
  ultimately show ?case using adds_trans by fastforce
qed (simp add: adds_refl)

lemma length_send_mentions: "length (send_mentions pl) \<le> MAX_MENTIONS_PER_ACTION"
  by (simp add: send_mentions_def split: pyval.split)

lemma handle_send_adds:
  assumes "child_adds child env ctx n" "dx_cascade_depth ctx \<le> env_max_cascade_depth env"
  shows "adds env (dx_cascade_depth ctx - 1) (axes_of ctx) (MAX_MENTIONS_PER_ACTION * n) st
    (snd (handle_send_channel_message child env sender pl ctx st))"
proof -
  let ?ms = "send_mentions pl"
  have wire: "adds env (dx_cascade_depth ctx - 1) (axes_of ctx) (MAX_MENTIONS_PER_ACTION * n) st
      (st\<lparr>cs_wire := cs_wire st @ [\<lparr>pc_channel_id = c, pc_sender_id = s, pc_content = v, pc_mentions = ?ms,
        pc_metadata = m, pc_cascade_depth = dx_cascade_depth ctx\<rparr>]\<rparr>)" for c s v m
    using assms(2) length_send_mentions[of pl] unfolding adds_def
    by (intro conjI exI[of _ "[]"] exI[of _ "[\<lparr>pc_channel_id = c, pc_sender_id = s, pc_content = v, pc_mentions = ?ms,
        pc_metadata = m, pc_cascade_depth = dx_cascade_depth ctx\<rparr>]"]) auto
  have fan: "adds env (dx_cascade_depth ctx - 1) (axes_of ctx) (MAX_MENTIONS_PER_ACTION * n) st
      (snd (fan_out child (child_event (env_now env) sender tg ct ?ms ctx) ?ms 0 st))" for tg ct
  proof -
    have "adds env (dx_cascade_depth ctx) (axes_of ctx) (length ?ms * n) st
        (snd (fan_out child (child_event (env_now env) sender tg ct ?ms ctx) ?ms 0 st))"
      using assms(1) by (intro fan_out_adds) (simp add: child_adds_def)
    then show ?thesis by (rule adds_mono) (simp_all add: length_send_mentions)
  qed
  show ?thesis unfolding handle_send_channel_message_def Let_def
    using wire fan by (auto simp: adds_refl case_prod_beta split: option.split)
qed

lemma end_vote_adds:
  assumes "dx_cascade_depth ctx \<le> env_max_cascade_depth env"
  shows "adds env (dx_cascade_depth ctx - 1) world n st (snd (publish_end_interaction_vote env s a ctx st))"
proof -
  have "adds env (dx_cascade_depth ctx - 1) world n st (st\<lparr>cs_wire := cs_wire st @ [c]\<rparr>)"
    if "pc_cascade_depth c = dx_cascade_depth ctx" "pc_mentions c = []" for c
    using assms that unfolding adds_def by (intro conjI exI[of _ "[]"] exI[of _ "[c]"]) auto
  then show ?thesis unfolding publish_end_interaction_vote_def Let_def
    by (auto simp: adds_refl split: option.split publish_outcome.split)
qed

lemma notify_adds: "adds env lo world n st st' \<Longrightarrow> adds env lo world n st (notify_end_vote_outcome env a r st')"
  by (auto simp: adds_def notify_end_vote_outcome_def Let_def)

lemma reading_payload_adds:
  "(\<And>pl. adds env lo world n st (snd (body pl))) \<Longrightarrow> adds env lo world n st (snd (reading_payload a body st))"
  by (simp add: reading_payload_def adds_refl case_prod_beta split: sum.split)

lemma execute_one_adds:
  assumes "child_adds child env ctx n" "dx_cascade_depth ctx \<le> env_max_cascade_depth env"
  shows "adds env (dx_cascade_depth ctx - 1) (axes_of ctx) (MAX_MENTIONS_PER_ACTION * n) st (snd (execute_one child env s a ctx st))"
  using handle_send_adds[OF assms] notify_adds[OF end_vote_adds[OF assms(2)], of "axes_of ctx"]
  by (simp add: execute_one_def adds_refl reading_payload_adds case_prod_beta Let_def split: ActionType.split)

lemma execute_all_adds:
  assumes "child_adds child env ctx n" "dx_cascade_depth ctx \<le> env_max_cascade_depth env"
  shows "adds env (dx_cascade_depth ctx - 1) (axes_of ctx) (length as * (MAX_MENTIONS_PER_ACTION * n)) st
    (snd (execute_all child env s as ctx st))"
proof (induction as arbitrary: st)
  case (Cons a as)
  obtain r st1 where o: "execute_one child env s a ctx st = (r, st1)" by (cases "execute_one child env s a ctx st")
  have one: "adds env (dx_cascade_depth ctx - 1) (axes_of ctx) (MAX_MENTIONS_PER_ACTION * n) st st1"
    using execute_one_adds[OF assms, of st s a] o by simp
  show ?case
  proof (cases r)
    case (Inl e)
    then show ?thesis using adds_mono[OF one] by (simp add: o)
  next
    case (Inr v)
    then have "snd (execute_all child env s (a # as) ctx st) = snd (execute_all child env s as ctx st1)"
      by (simp add: o split: prod.split sum.split)
    then show ?thesis using adds_trans[OF one Cons.IH[of st1]] by simp
  qed
qed (simp add: adds_refl)

lemma request_scopes_run:
  assumes "\<And>a. snd (body a) = a"
  shows "\<exists>b. request_scopes ctx body a = (fst (body b), a)"
proof -
  have e: "\<exists>b. epoch_scope v (\<lambda>_. f) a = (fst (body b), a)" if "\<And>a. \<exists>b. f a = (fst (body b), a)" for v f a
    using that[of "a\<lparr>active_epoch := Some (normalize_epoch_id v)\<rparr>"] by (auto simp: epoch_scope_def Let_def)
  have p: "\<exists>b. principal_scope v (\<lambda>_. f) a = (fst (body b), a)" if "\<And>a. \<exists>b. f a = (fst (body b), a)" for v f a
    using that[of "a\<lparr>active_principal := Some (normalize_principal_id v)\<rparr>"] by (auto simp: principal_scope_def Let_def)
  have s: "\<exists>b. session_scope v (\<lambda>_. f) a = (fst (body b), a)" if "\<And>a. \<exists>b. f a = (fst (body b), a)" for v f a
    using that[of "a\<lparr>active_session := Some (normalize_session_id v)\<rparr>"] by (auto simp: session_scope_def Let_def)
  have "\<exists>b. body a = (fst (body b), a)" for a using assms by (metis prod.collapse)
  then show ?thesis unfolding request_scopes_def Let_def by (auto intro!: e p s)
qed

lemma adds_ambient:
  "adds env lo world n (st\<lparr>cs_ambient := b\<rparr>) st' \<Longrightarrow> adds env lo world n st (st'\<lparr>cs_ambient := cs_ambient st\<rparr>)"
  by (simp add: adds_def)

lemma execute_adds:
  assumes "child_adds child env ctx n" "dx_cascade_depth ctx \<le> env_max_cascade_depth env"
  shows "adds env (dx_cascade_depth ctx - 1) (axes_of ctx) (length as * (MAX_MENTIONS_PER_ACTION * n)) st
    (snd (execute child env s as ctx st))"
proof -
  let ?body = "\<lambda>a. let (rs, st1) = execute_all child env s as ctx (st\<lparr>cs_ambient := a\<rparr>) in ((rs, st1), cs_ambient st1)"
  have "snd (?body a) = a" for a
    using execute_all_adds[OF assms, of as "st\<lparr>cs_ambient := a\<rparr>" s] by (simp add: adds_def case_prod_beta)
  from request_scopes_run[of ?body, OF this] obtain b where
    b: "request_scopes ctx ?body (cs_ambient st) = (fst (?body b), cs_ambient st)" by blast
  have "snd (execute child env s as ctx st) = (snd (execute_all child env s as ctx (st\<lparr>cs_ambient := b\<rparr>)))\<lparr>cs_ambient := cs_ambient st\<rparr>"
    unfolding execute_def b by (simp add: case_prod_beta)
  then show ?thesis using adds_ambient[OF execute_all_adds[OF assms, of as "st\<lparr>cs_ambient := b\<rparr>" s]] by simp
qed

text \<open>The most turns a cascade can hold, when no agent answers an event with more than \<open>most\<close> actions.\<close>

fun cascade_bound :: "nat \<Rightarrow> nat \<Rightarrow> nat" where
  "cascade_bound most 0 = 0"
| "cascade_bound most (Suc hops) = 1 + most * (MAX_MENTIONS_PER_ACTION * cascade_bound most hops)"

definition answers_at_most :: "dispatch_env \<Rightarrow> nat \<Rightarrow> bool" where
  "answers_at_most env most \<longleftrightarrow>
     (\<forall>t f e h as. env_agents env t = Some f \<and> f e h = Inr as \<longrightarrow> length as \<le> most)"

lemma dispatch_dropped: "depth_of (metadata ev) = Inr d \<Longrightarrow> env_max_cascade_depth env \<le> d \<Longrightarrow> dispatch env t ev x st = (Inr [], st)"
  by (subst dispatch_rec) (simp add: dispatch_body_def)

lemma dx_depth_for_event [simp]: "dx_cascade_depth (for_event ev k) = k"
  by (simp add: for_event_def)

lemma one_turn_adds:
  assumes "d < env_max_cascade_depth env"
  shows "adds env d (axes (metadata ev)) 1 st (st\<lparr>cs_turns := cs_turns st @ [(aid, deepen ev (d + 1))]\<rparr>)"
  using assms unfolding adds_def by (intro conjI exI[of _ "[(aid, deepen ev (d + 1))]"] exI[of _ "[]"]) auto

lemma dispatch_body_adds:
  assumes "child_adds child env (for_event (deepen ev (d + 1)) (d + 1)) n" "answers_at_most env most"
    and "depth_of (metadata ev) = Inr d" "d < env_max_cascade_depth env"
  shows "adds env d (axes (metadata ev)) (1 + most * (MAX_MENTIONS_PER_ACTION * n)) st (snd (dispatch_body child env t ev x st))"
proof (cases "lookup_agent env t")
  case (Inr found)
  show ?thesis
  proof (cases found)
    case (Some p)
    obtain aid f where p: "p = (aid, f)" by (cases p)
    have f: "env_agents env aid = Some f" using Inr Some p by (auto simp: lookup_agent_def split: pyval.splits)
    let ?ctx = "for_event (deepen ev (d + 1)) (d + 1)"
    let ?st = "st\<lparr>cs_turns := cs_turns st @ [(aid, deepen ev (d + 1))]\<rparr>"
    have one: "adds env d (axes (metadata ev)) 1 st ?st" using assms(4) by (rule one_turn_adds)
    have ctx: "dx_cascade_depth ?ctx = d + 1" "axes_of ?ctx = axes (metadata ev)" by (simp_all add: dx_depth_for_event)
    have "adds env d (axes (metadata ev)) (most * (MAX_MENTIONS_PER_ACTION * n)) ?st (snd (execute child env aid as ?ctx ?st))"
      if "f (deepen ev (d + 1)) (cs_turns st) = Inr as" for as
    proof -
      have "length as \<le> most" using that f assms(2) by (auto simp: answers_at_most_def)
      moreover have "adds env (d + 1 - 1) (axes (metadata ev)) (length as * (MAX_MENTIONS_PER_ACTION * n)) ?st (snd (execute child env aid as ?ctx ?st))"
        using execute_adds[OF assms(1), of as ?st aid, unfolded ctx] assms(4) by linarith
      ultimately show ?thesis by (elim adds_mono) simp_all
    qed
    note run = adds_trans[OF one this]
    have le: "adds env d (axes (metadata ev)) (1 + most * (MAX_MENTIONS_PER_ACTION * n)) st ?st"
      by (rule adds_mono[OF one]) simp_all
    show ?thesis
      unfolding dispatch_body_def Let_def assms(3) Inr Some p sum.case option.case prod.case
      using assms(4) run le by (auto simp: adds_refl split: sum.split prod.split)
  qed (use assms Inr in \<open>simp add: dispatch_body_def adds_refl\<close>)
qed (use assms in \<open>simp add: dispatch_body_def adds_refl\<close>)

lemma dispatch_adds:
  assumes "answers_at_most env most"
  shows "depth_of (metadata ev) = Inr d \<Longrightarrow> hops_left env ev = n \<Longrightarrow>
    adds env d (axes (metadata ev)) (cascade_bound most n) st (snd (dispatch env t ev x st))"
proof (induction n arbitrary: ev d t x st)
  case 0
  then show ?case by (simp add: dispatch_dropped hops_left_def adds_refl)
next
  case (Suc n)
  let ?ctx = "for_event (deepen ev (d + 1)) (d + 1)"
  have lt: "d < env_max_cascade_depth env" using Suc.prems by (simp add: hops_left_def)
  have "child_adds (\<lambda>t e. dispatch env t e True) env ?ctx (cascade_bound most n)"
    unfolding child_adds_def
  proof (intro allI impI)
    fix t and e :: AgentEvent and st assume e: "depth_of (metadata e) = Inr (dx_cascade_depth ?ctx) \<and> axes (metadata e) = axes_of ?ctx"
    then have "hops_left env e = n" using Suc.prems lt by (simp add: hops_left_def for_event_def)
    from Suc.IH[OF conjunct1[OF e] this] show "adds env (dx_cascade_depth ?ctx) (axes_of ?ctx) (cascade_bound most n) st (snd (dispatch env t e True st))"
      using e by simp
  qed
  from dispatch_body_adds[OF this assms Suc.prems(1) lt] show ?case by (subst dispatch_rec) simp
qed


section \<open>Properties\<close>

lemma dispatch_body_hop_cong:
  assumes "\<And>t e st. hops_left env e < hops_left env ev \<Longrightarrow> child t e st = child' t e st"
  shows "dispatch_body child env t ev x st = dispatch_body child' env t ev x st"
  by (rule dispatch_body_cong) (use assms in \<open>simp add: hops_left_def\<close>)

text \<open>
  C12. A dispatch always returns: the recursion of \<open>EventDispatcher.dispatch\<close> through the executor and back
  has exactly one solution, a total function, whatever the agents answer, because every child event
  is one level deeper and an event at the ceiling is dropped.\<close>
theorem dispatch_recursion_total:
  "(\<forall>env t ev x st. f env t ev x st = dispatch_body (\<lambda>t e. f env t e True) env t ev x st) \<longleftrightarrow> f = dispatch"
proof
  assume f: "\<forall>env t ev x st. f env t ev x st = dispatch_body (\<lambda>t e. f env t e True) env t ev x st"
  have "f env t ev x st = dispatch env t ev x st" for env t ev x st
  proof (induction "hops_left env ev" arbitrary: t ev x st rule: less_induct)
    case less
    have "f env t ev x st = dispatch_body (\<lambda>t e. f env t e True) env t ev x st" using f by blast
    also have "\<dots> = dispatch_body (\<lambda>t e. dispatch env t e True) env t ev x st"
      by (rule dispatch_body_hop_cong) (rule less)
    also have "\<dots> = dispatch env t ev x st" by (rule dispatch_rec[symmetric])
    finally show ?case .
  qed
  then show "f = dispatch" by (intro ext)
qed (use dispatch_rec in blast)

text \<open>
  C11. A cascade is bounded: when no agent answers an event with more than \<open>most\<close> actions, a dispatch at
  depth \<open>d\<close> runs at most \<open>cascade_bound most\<close> of the remaining levels turns; every turn is deeper than \<open>d\<close>
  and within the ceiling, in the session, principal and epoch of the first event; every publish
  carries a depth within the ceiling and at most ten mentions; the ambient scopes are restored.\<close>
theorem cascade_bounded:
  assumes "answers_at_most env most" "depth_of (metadata ev) = Inr d"
  shows "\<exists>new wire.
    cs_turns (snd (dispatch env t ev x st)) = cs_turns st @ new \<and>
    cs_wire (snd (dispatch env t ev x st)) = cs_wire st @ wire \<and>
    length new \<le> cascade_bound most (nat (env_max_cascade_depth env - d)) \<and>
    (\<forall>(aid, e) \<in> set new. axes (metadata e) = axes (metadata ev) \<and>
       (\<exists>k. depth_of (metadata e) = Inr k \<and> d < k \<and> k \<le> env_max_cascade_depth env)) \<and>
    (\<forall>c \<in> set wire. d < pc_cascade_depth c \<and> pc_cascade_depth c \<le> env_max_cascade_depth env \<and>
       length (pc_mentions c) \<le> 10) \<and>
    cs_ambient (snd (dispatch env t ev x st)) = cs_ambient st"
proof -
  have "hops_left env ev = nat (env_max_cascade_depth env - d)" using assms(2) by (simp add: hops_left_def)
  from dispatch_adds[OF assms this, of st t x] obtain new wire where
    "cs_turns (snd (dispatch env t ev x st)) = cs_turns st @ new"
    "cs_wire (snd (dispatch env t ev x st)) = cs_wire st @ wire"
    "length new \<le> cascade_bound most (nat (env_max_cascade_depth env - d))"
    "cs_ambient (snd (dispatch env t ev x st)) = cs_ambient st"
    and n: "\<forall>(aid, e) \<in> set new. \<exists>k. depth_of (metadata e) = Inr k \<and> d < k \<and> k \<le> env_max_cascade_depth env \<and>
           axes (metadata e) = axes (metadata ev)"
    and w: "\<forall>c \<in> set wire. d < pc_cascade_depth c \<and> pc_cascade_depth c \<le> env_max_cascade_depth env \<and>
           length (pc_mentions c) \<le> 10"
    unfolding adds_def MAX_MENTIONS_PER_ACTION_def by blast
  moreover from n have "\<forall>(aid, e) \<in> set new. axes (metadata e) = axes (metadata ev) \<and>
       (\<exists>k. depth_of (metadata e) = Inr k \<and> d < k \<and> k \<le> env_max_cascade_depth env)" by fast
  ultimately show ?thesis by blast
qed

text \<open>Two agents who only ever mention each other, and no publisher.\<close>

definition message_to :: "string \<Rightarrow> pydict" where
  "message_to t = [(''channel_id'', PyStr ''group:x''), (''content'', PyStr ''hi''), (''mentions'', PyList [PyStr t])]"

definition mention :: "string \<Rightarrow> AgentAction" where
  "mention t = \<lparr>action_type = SEND_CHANNEL_MESSAGE, action_payload = PyDict (message_to t)\<rparr>"

definition ping_pong :: dispatch_env where
  "ping_pong = \<lparr>env_agents = (\<lambda>t. if t = ''a'' then Some (\<lambda>_ _. Inr [mention ''b''])
                              else if t = ''b'' then Some (\<lambda>_ _. Inr [mention ''a'']) else None),
     env_accepts = (\<lambda>_ _. True), env_max_cascade_depth = DEFAULT_MAX_CASCADE_DEPTH, env_dispatcher = True,
     env_publisher = None, env_vote_seam = (\<lambda>_. True), env_str = (\<lambda>_. []), env_now = 0\<rparr>"

definition first_event :: AgentEvent where
  "first_event = \<lparr>event_type = CHANNEL_MESSAGE, payload = [], channel_id = Some ''group:x'', sender_id = Some ''u'',
     message_id = None, thread_id = None, timestamp = 0,
     metadata = [(''session_id'', PyStr ''s1''), (''interaction_id'', PyStr ''i1'')]\<rparr>"

definition no_cascade :: cascade where
  "no_cascade = \<lparr>cs_turns = [], cs_wire = [], cs_outcomes = [],
     cs_ambient = \<lparr>active_principal = None, active_session = None, active_epoch = None,
       env_principal = None, env_session = None, env_epoch = None\<rparr>\<rparr>"

lemma ping_pong_answers: "answers_at_most ping_pong 1"
  by (simp add: answers_at_most_def ping_pong_def)

lemma first_event_depth: "depth_of (metadata first_event) = Inr 0"
  by code_simp

text \<open>The ping-pong runs exactly to the ceiling.\<close>

lemma ping_pong_run:
  "map fst (cs_turns (snd (dispatch ping_pong (PyStr ''a'') first_event True no_cascade))) =
     [''a'', ''b'', ''a'', ''b'', ''a'']"
  by code_simp

theorem cascade_bounded_witness:
  "length (cs_turns (snd (dispatch ping_pong (PyStr ''a'') first_event True no_cascade))) \<le>
     cascade_bound 1 (nat (env_max_cascade_depth ping_pong))"
  using cascade_bounded[OF ping_pong_answers first_event_depth, of "PyStr ''a''" True no_cascade]
  by (auto simp: no_cascade_def)

text \<open>
  The executor acts in the world the handler acted in: re-entering the scopes of the context made
  for an event is binding session, principal and epoch from the event's metadata, in the order of the
  handler's own binder; so the two cannot disagree on any axis.\<close>
lemma executor_world_is_handler_world:
  "request_scopes (for_event ev d) body =
     session_scope_from_metadata (metadata ev) (\<lambda>_.
       principal_scope_from_metadata (metadata ev) (\<lambda>_.
         epoch_scope_from_metadata (metadata ev) (\<lambda>_. body)))"
proof -
  note ne = from_metadata_nonempty[of "metadata ev"]
  have "epoch_scope_from_metadata (metadata ev) (\<lambda>_. f) = (let i = or_str (epoch_id_from_metadata (metadata ev)) []
      in if i \<noteq> [] then epoch_scope (Some i) (\<lambda>_. f) else f)" for f :: "ambient \<Rightarrow> 'a \<times> ambient"
    using ne by (auto simp: fun_eq_iff epoch_scope_from_metadata_def or_str_def split: option.split)
  moreover have "principal_scope_from_metadata (metadata ev) (\<lambda>_. f) = (let i = or_str (principal_id_from_metadata (metadata ev)) []
      in if i \<noteq> [] then principal_scope (Some i) (\<lambda>_. f) else f)" for f :: "ambient \<Rightarrow> 'a \<times> ambient"
    using ne by (auto simp: fun_eq_iff principal_scope_from_metadata_def or_str_def split: option.split)
  moreover have "session_scope_from_metadata (metadata ev) (\<lambda>_. f) = (let i = or_str (session_id_from_metadata (metadata ev)) []
      in if i \<noteq> [] then session_scope (Some i) (\<lambda>_. f) else f)" for f :: "ambient \<Rightarrow> 'a \<times> ambient"
    using ne by (auto simp: fun_eq_iff session_scope_from_metadata_def or_str_def split: option.split)
  ultimately show ?thesis by (simp add: request_scopes_def for_event_def Let_def)
qed

text \<open>The statuses an action of each kind may report.\<close>

fun statuses :: "ActionType \<Rightarrow> string list" where
  "statuses COMPLETE_TASK = [''completed'']"
| "statuses SEND_CHANNEL_MESSAGE =
     [''published'', ''channels_disabled'', ''failed'', ''no_dispatcher'', ''no_targets'', ''dispatched'']"
| "statuses USE_TOOL = [''skipped'']"
| "statuses DO_NOTHING = [''ok'']"
| "statuses END_INTERACTION_VOTE =
     [''not_implemented'', ''no_channel_id'', ''dm_channel'', ''channels_disabled'', ''failed'', ''published'']"
| "statuses _ = [''not_implemented'']"

definition reports :: "AgentAction \<Rightarrow> pydict \<Rightarrow> bool" where
  "reports a r \<longleftrightarrow>
     (\<exists>s \<in> set (statuses (action_type a)). py_get r ''status'' = PyStr s) \<and>
     (action_type a = SEND_CHANNEL_MESSAGE \<longrightarrow>
        map_of r ''channel_id'' \<noteq> None \<and> map_of r ''dispatched_to'' \<noteq> None \<and>
        (py_get r ''status'' = PyStr ''dispatched'' \<longrightarrow> (\<exists>n > 0. py_get r ''dispatched_to'' = PyInt n)))"

lemma send_reports:
  assumes "action_type a = SEND_CHANNEL_MESSAGE"
  shows "reports a (fst (handle_send_channel_message child env s pl ctx st))"
  using assms by (auto simp: reports_def handle_send_channel_message_def send_status_def Let_def case_prod_beta
      split: option.split publish_outcome.split)

lemma vote_reports:
  assumes "action_type a = END_INTERACTION_VOTE"
  shows "reports a (fst (publish_end_interaction_vote env s pl ctx st))"
  using assms by (auto simp: reports_def publish_end_interaction_vote_def vote_status_def Let_def
      split: option.split publish_outcome.split)

text \<open>The kinds of action that read their payload, and the actions that can be executed.\<close>

definition reads_payload :: "ActionType \<Rightarrow> bool" where
  "reads_payload k \<longleftrightarrow> k \<in> {COMPLETE_TASK, SEND_CHANNEL_MESSAGE, DELEGATE_ACTION, SPAWN_SUB_AGENT, END_INTERACTION_VOTE}"

definition executable :: "AgentAction \<Rightarrow> bool" where
  "executable a \<longleftrightarrow> (reads_payload (action_type a) \<longrightarrow> (\<exists>d. action_payload a = PyDict d))"

lemma reading_payload_dict: "action_payload a = PyDict d \<Longrightarrow> reading_payload a body st = (let (r, st1) = body d in (Inr r, st1))"
  by (simp add: reading_payload_def py_dict_of_def)

lemma reading_payload_other: "\<nexists>d. action_payload a = PyDict d \<Longrightarrow> reading_payload a body st = (Inl AttributeError, st)"
  by (cases "action_payload a") (simp_all add: reading_payload_def py_dict_of_def)

lemma execute_one_reports:
  assumes "executable a"
  shows "\<exists>r. fst (execute_one child env s a ctx st) = Inr r \<and> reports a r"
proof (cases "reads_payload (action_type a)")
  case True
  then obtain d where d: "action_payload a = PyDict d" using assms by (auto simp: executable_def)
  show ?thesis using True send_reports[of a] vote_reports[of a]
    by (cases "action_type a") (simp_all add: execute_one_def reading_payload_dict[OF d] reads_payload_def case_prod_beta Let_def, simp_all add: reports_def)
next
  case False
  then show ?thesis by (cases "action_type a") (simp_all add: execute_one_def reads_payload_def reports_def)
qed

lemma execute_one_raises: "\<not> executable a \<Longrightarrow> execute_one child env s a ctx st = (Inl AttributeError, st)"
  by (cases "action_type a") (auto simp: execute_one_def executable_def reads_payload_def reading_payload_other)

lemma execute_all_reports:
  "if list_all executable as then \<exists>rs. fst (execute_all child env s as ctx st) = Inr rs \<and> list_all2 reports as rs
   else execute_all child env s as ctx st = (Inl AttributeError, snd (execute_all child env s (takeWhile executable as) ctx st))"
proof (induction as arbitrary: st)
  case (Cons a as)
  show ?case
  proof (cases "executable a")
    case True
    then obtain r where r: "fst (execute_one child env s a ctx st) = Inr r" "reports a r" using execute_one_reports by blast
    obtain st1 where o: "execute_one child env s a ctx st = (Inr r, st1)" using r(1) by (metis prod.collapse)
    show ?thesis
    proof (cases "list_all executable as")
      case True
      then obtain rs where "fst (execute_all child env s as ctx st1) = Inr rs" "list_all2 reports as rs" using Cons.IH[of st1] by auto
      then show ?thesis using True \<open>executable a\<close> o r(2) by (auto simp: case_prod_beta)
    next
      case False
      then have f: "execute_all child env s as ctx st1 = (Inl AttributeError, snd (execute_all child env s (takeWhile executable as) ctx st1))"
        using Cons.IH[of st1] by simp
      have "snd (execute_all child env s (a # takeWhile executable as) ctx st) = snd (execute_all child env s (takeWhile executable as) ctx st1)"
        by (simp add: o split: prod.split sum.split)
      then show ?thesis using False \<open>executable a\<close> o f by simp
    qed
  qed (simp add: execute_one_raises)
qed simp

text \<open>Only the ambient scopes depend on what is executed; where nothing in them is changed they are restored.\<close>

lemma request_scopes_same: "\<exists>b. fst (request_scopes ctx f a) = fst (f b) \<and> fst (request_scopes ctx g a) = fst (g b)"
  unfolding request_scopes_def Let_def epoch_scope_def principal_scope_def session_scope_def
  by (simp add: case_prod_beta) blast

lemma request_scopes_fst: "\<exists>b. fst (request_scopes ctx body a) = fst (body b)"
  using request_scopes_same by blast

lemma execute_runs:
  "\<exists>b. \<forall>as \<in> {actions, actions'}. fst (execute child env agent as ctx st) = fst (execute_all child env agent as ctx (st\<lparr>cs_ambient := b\<rparr>)) \<and>
     (let st1 = snd (execute_all child env agent as ctx (st\<lparr>cs_ambient := b\<rparr>))
      in cs_turns (snd (execute child env agent as ctx st)) = cs_turns st1 \<and> cs_wire (snd (execute child env agent as ctx st)) = cs_wire st1 \<and>
         cs_outcomes (snd (execute child env agent as ctx st)) = cs_outcomes st1)"
proof -
  let ?body = "\<lambda>as a. let (rs, st1) = execute_all child env agent as ctx (st\<lparr>cs_ambient := a\<rparr>) in ((rs, st1), cs_ambient st1)"
  obtain b where "fst (request_scopes ctx (?body actions) (cs_ambient st)) = fst (?body actions b)"
    "fst (request_scopes ctx (?body actions') (cs_ambient st)) = fst (?body actions' b)" using request_scopes_same by blast
  then show ?thesis unfolding execute_def by (intro exI[of _ b]) (auto simp: case_prod_beta Let_def)
qed

text \<open>
  C13. Every action that can be read is executed and reported once, in order, with a status its kind allows;
  a report on a message always carries the channel and the number of recipients (or \<open>None\<close>), and says
  \<open>dispatched\<close> only when some recipient was reached. Publish errors, a disabled channel service and
  children that raise are statuses, not exceptions. The one thing that raises is an action of a kind whose payload is read, with a payload that is no object: then the actions before it have been
  executed as they would have been without it, none after it is, and no report is returned.\<close>
theorem every_action_reported:
  "if list_all executable actions
   then \<exists>results. fst (execute child env agent actions ctx st) = Inr results \<and> list_all2 reports actions results
   else fst (execute child env agent actions ctx st) = Inl AttributeError \<and>
     (let done = snd (execute child env agent (takeWhile executable actions) ctx st); st' = snd (execute child env agent actions ctx st)
      in cs_turns st' = cs_turns done \<and> cs_wire st' = cs_wire done \<and> cs_outcomes st' = cs_outcomes done)"
proof -
  obtain b where b: "\<forall>as \<in> {actions, takeWhile executable actions}.
      fst (execute child env agent as ctx st) = fst (execute_all child env agent as ctx (st\<lparr>cs_ambient := b\<rparr>)) \<and>
     (let st1 = snd (execute_all child env agent as ctx (st\<lparr>cs_ambient := b\<rparr>))
      in cs_turns (snd (execute child env agent as ctx st)) = cs_turns st1 \<and> cs_wire (snd (execute child env agent as ctx st)) = cs_wire st1 \<and>
         cs_outcomes (snd (execute child env agent as ctx st)) = cs_outcomes st1)"
    using execute_runs by blast
  show ?thesis
  proof (cases "list_all executable actions")
    case True
    then show ?thesis using b execute_all_reports[of actions child env agent ctx "st\<lparr>cs_ambient := b\<rparr>"] by simp
  next
    case False
    then have "execute_all child env agent actions ctx (st\<lparr>cs_ambient := b\<rparr>) =
        (Inl AttributeError, snd (execute_all child env agent (takeWhile executable actions) ctx (st\<lparr>cs_ambient := b\<rparr>)))"
      using execute_all_reports[of actions child env agent ctx "st\<lparr>cs_ambient := b\<rparr>"] by simp
    then show ?thesis using b False by (simp add: Let_def)
  qed
qed

text \<open>
  The executor promises that failures do not propagate, and the parser asks for an object only where a message, a delegation or a spawn is read: a vote whose payload is a list gets through
  it, and on a turn without a channel through the shaping of the reply, and raises out of the executor after the message before it went out.\<close>

definition listed_vote :: AgentAction where
  "listed_vote = \<lparr>action_type = END_INTERACTION_VOTE, action_payload = PyList [PyStr ''group:x'']\<rparr>"

definition listed_run :: "pydict list result \<times> cascade" where
  "listed_run = execute (\<lambda>_ _ st. (Inl TypeError, st)) (ping_pong\<lparr>env_publisher := Some (\<lambda>_ _. Pub_ok)\<rparr>) ''a'' [mention ''b'', listed_vote, mention ''b'']
     (for_event first_event 1) no_cascade"

theorem every_action_reported_witness:
  "fst listed_run = Inl AttributeError \<and> length (cs_wire (snd listed_run)) = 1"
proof -
  let ?as = "[mention ''b'', listed_vote, mention ''b'']" and ?env = "ping_pong\<lparr>env_publisher := Some (\<lambda>_ _. Pub_ok)\<rparr>"
  have e: "executable (mention ''b'')" "\<not> executable listed_vote"
    by (simp_all add: executable_def reads_payload_def mention_def listed_vote_def)
  have "length (cs_wire (snd (execute (\<lambda>_ _ st. (Inl TypeError, st)) ?env ''a'' [mention ''b''] (for_event first_event 1) no_cascade))) = 1" by code_simp
  then show ?thesis unfolding listed_run_def
    using every_action_reported[of ?as "\<lambda>_ _ st. (Inl TypeError, st)" ?env "''a''" "for_event first_event 1" no_cascade] e by (simp add: Let_def)
qed

definition claims :: "publish_call \<Rightarrow> string \<Rightarrow> pyval" where
  "claims c k = (case pc_metadata c of None \<Rightarrow> PyNone | Some md \<Rightarrow> py_get md k)"

lemma same_channel_claim_get:
  "(case same_channel_claim ctx t b of None \<Rightarrow> PyNone | Some md \<Rightarrow> py_get md ''interaction_id'') =
     (if dx_origin_interaction_id ctx \<noteq> [] \<and> t = dx_origin_channel_id ctx then PyStr (dx_origin_interaction_id ctx) else PyNone)"
  "(case same_channel_claim ctx t b of None \<Rightarrow> PyNone | Some md \<Rightarrow> py_get md ''synthesis_reply'') =
     (if dx_origin_interaction_id ctx \<noteq> [] \<and> t = dx_origin_channel_id ctx \<and> b \<and> dx_origin_synthesis_turn ctx
      then PyBool True else PyNone)"
  by (simp_all add: same_channel_claim_def)

text \<open>
  A message to a channel with a publisher is one publish and starts no turn: it goes out at the depth
  of the context with at most ten mentions, claims the interaction of the dispatch exactly when it
  answers in the channel it came from, and carries the synthesis mark exactly when it also answers a
  synthesis turn; the report says how the publisher answered.\<close>
lemma channel_send_is_one_publish:
  assumes "py_get_or pl ''channel_id'' (PyStr []) = PyStr target" "target \<noteq> []"
    and "env_publisher env = Some publish"
  shows "\<exists>c. handle_send_channel_message child env s pl ctx st =
      (send_status (case publish c (cs_wire st) of Pub_ok \<Rightarrow> ''published'' | Pub_channels_disabled \<Rightarrow> ''channels_disabled''
         | Pub_raises \<Rightarrow> ''failed'') target PyNone, st\<lparr>cs_wire := cs_wire st @ [c]\<rparr>) \<and>
    pc_channel_id c = target \<and> pc_sender_id c = s \<and> pc_cascade_depth c = dx_cascade_depth ctx \<and> length (pc_mentions c) \<le> 10 \<and>
    claims c ''interaction_id'' =
      (if dx_origin_interaction_id ctx \<noteq> [] \<and> target = dx_origin_channel_id ctx then PyStr (dx_origin_interaction_id ctx) else PyNone) \<and>
    claims c ''synthesis_reply'' =
      (if dx_origin_interaction_id ctx \<noteq> [] \<and> target = dx_origin_channel_id ctx \<and> dx_origin_synthesis_turn ctx
       then PyBool True else PyNone)"
  using assms length_send_mentions[of pl]
  by (intro exI[of _ "\<lparr>pc_channel_id = target, pc_sender_id = s, pc_content = py_get_or pl ''content'' (PyStr []),
      pc_mentions = send_mentions pl, pc_metadata = same_channel_claim ctx target True,
      pc_cascade_depth = dx_cascade_depth ctx\<rparr>"])
    (simp add: handle_send_channel_message_def claims_def same_channel_claim_get MAX_MENTIONS_PER_ACTION_def Let_def)

theorem channel_send_is_one_publish_witness:
  "\<exists>c. cs_wire (snd (handle_send_channel_message (\<lambda>_ _ st. (Inl TypeError, st))
      (ping_pong\<lparr>env_publisher := Some (\<lambda>_ _. Pub_ok)\<rparr>) ''a'' (message_to ''b'') (for_event first_event 1) no_cascade)) = [c] \<and>
    claims c ''interaction_id'' = PyStr ''i1''"
proof -
  have "py_get_or (message_to ''b'') ''channel_id'' (PyStr []) = PyStr ''group:x''" by code_simp
  moreover have "dx_origin_interaction_id (for_event first_event 1) = ''i1''"
    "dx_origin_channel_id (for_event first_event 1) = ''group:x''" by code_simp+
  ultimately show ?thesis
    using channel_send_is_one_publish[of "message_to ''b''" "''group:x''" "ping_pong\<lparr>env_publisher := Some (\<lambda>_ _. Pub_ok)\<rparr>"
        "\<lambda>_ _. Pub_ok" "\<lambda>_ _ st. (Inl TypeError, st)" "''a''" "for_event first_event 1" no_cascade]
    by (auto simp: no_cascade_def)
qed

definition vote_target :: "dispatch_env \<Rightarrow> pydict \<Rightarrow> string" where
  "vote_target env pl = py_strip (str_or_empty (env_str env) (py_get_or pl ''channel_id'' (PyStr [])))"

definition vote_token :: "dispatch_env \<Rightarrow> pydict \<Rightarrow> string" where
  "vote_token env pl = str_or_empty (env_str env) (py_get_or pl ''vote_close_token'' (PyStr []))"

definition vote_call :: "publish_call \<Rightarrow> bool" where
  "vote_call c \<longleftrightarrow> pc_channel_id c \<noteq> [] \<and> take 3 (pc_channel_id c) \<noteq> ''dm:'' \<and> pc_mentions c = [] \<and>
     claims c ''end_interaction_vote'' = PyBool True"

lemma is_dm: "take (length END_VOTE_DM_PREFIX) t = END_VOTE_DM_PREFIX \<longleftrightarrow> take 3 t = ''dm:''"
  by (simp add: END_VOTE_DM_PREFIX_def numeral_3_eq_3)

lemma vote_cases:
  obtains (silent) status where "publish_end_interaction_vote env s pl ctx st = (vote_status status (vote_target env pl) (vote_token env pl), st)"
      "status \<noteq> ''published''"
  | (no_channel) "publish_end_interaction_vote env s pl ctx st =
       ([(''action_type'', PyStr ''end_interaction_vote''), (''status'', PyStr ''no_channel_id'')], st)"
  | (sent) p c status rest where "env_publisher env = Some p" "vote_call c" "pc_channel_id c = vote_target env pl"
      "publish_end_interaction_vote env s pl ctx st =
         (vote_status status (vote_target env pl) (vote_token env pl) @ rest, st\<lparr>cs_wire := cs_wire st @ [c]\<rparr>)"
      "status = ''published'' \<longleftrightarrow> p c (cs_wire st) = Pub_ok"
proof (cases "env_publisher env")
  case None
  then show thesis using silent[of "''not_implemented''"]
    by (simp add: publish_end_interaction_vote_def vote_target_def vote_token_def VOTE_CLOSE_TOKEN_KEY_def Let_def)
next
  case (Some p)
  let ?claim = "same_channel_claim ctx (vote_target env pl) True"
  let ?content = "py_strip (str_or_empty (env_str env) (py_get_or pl ''content'' (PyStr [])))"
  define c where "c = \<lparr>pc_channel_id = vote_target env pl, pc_sender_id = s,
      pc_content = PyStr (if ?content = [] then END_VOTE_DEFAULT_CONTENT else ?content), pc_mentions = [],
      pc_metadata = Some ((''end_interaction_vote'', PyBool True) # (case ?claim of None \<Rightarrow> [] | Some c \<Rightarrow> c)),
      pc_cascade_depth = dx_cascade_depth ctx\<rparr>"
  define reply where "reply = (case ?claim of None \<Rightarrow> False | Some c \<Rightarrow> map_of c ''synthesis_reply'' \<noteq> None)"
  consider "vote_target env pl = []" | "vote_target env pl \<noteq> []" "take 3 (vote_target env pl) = ''dm:''"
    | "vote_target env pl \<noteq> []" "take 3 (vote_target env pl) \<noteq> ''dm:''" by blast
  then show thesis
  proof cases
    case 1
    then show thesis using no_channel Some
      by (simp add: publish_end_interaction_vote_def vote_target_def Let_def)
  next
    case 2
    then show thesis using silent[of "''dm_channel''"] Some
      unfolding publish_end_interaction_vote_def Let_def vote_target_def[symmetric]
      by (simp add: vote_token_def VOTE_CLOSE_TOKEN_KEY_def is_dm)
  next
    case 3
    have run: "publish_end_interaction_vote env s pl ctx st =
        (case p c (cs_wire st) of
           Pub_channels_disabled \<Rightarrow> (vote_status ''channels_disabled'' (vote_target env pl) (vote_token env pl), st\<lparr>cs_wire := cs_wire st @ [c]\<rparr>)
         | Pub_raises \<Rightarrow> (vote_status ''failed'' (vote_target env pl) (vote_token env pl), st\<lparr>cs_wire := cs_wire st @ [c]\<rparr>)
         | Pub_ok \<Rightarrow> (vote_status ''published'' (vote_target env pl) (vote_token env pl) @ [(''synthesis_reply'', PyBool reply)],
             st\<lparr>cs_wire := cs_wire st @ [c]\<rparr>))"
      using 3 Some unfolding publish_end_interaction_vote_def Let_def VOTE_CLOSE_TOKEN_KEY_def vote_target_def[symmetric]
        vote_token_def[symmetric] c_def[symmetric] reply_def[symmetric]
      by (simp add: is_dm)
    have "vote_call c" "pc_channel_id c = vote_target env pl" using 3 by (simp_all add: c_def vote_call_def claims_def)
    then show thesis
      using run sent[OF Some, of c "''channels_disabled''" "[]"] sent[OF Some, of c "''failed''" "[]"]
        sent[OF Some, of c "''published''" "[(''synthesis_reply'', PyBool reply)]"]
      by (cases "p c (cs_wire st)") simp_all
  qed
qed

lemma notify_keeps [simp]: "cs_wire (notify_end_vote_outcome env s r st) = cs_wire st"
  "cs_turns (notify_end_vote_outcome env s r st) = cs_turns st"
  by (simp_all add: notify_end_vote_outcome_def Let_def)

lemma notify_vote_status:
  "\<exists>outs. cs_outcomes (notify_end_vote_outcome env s (vote_status status t k @ rest) st) = cs_outcomes st @ outs \<and>
     length outs \<le> 1 \<and> (\<forall>out \<in> set outs. vo_agent out = s \<and> vo_channel_id out = t \<and> vo_token out = k \<and>
       (vo_published out \<longleftrightarrow> status = ''published''))"
  by (auto simp: notify_end_vote_outcome_def vote_status_def py_get_or_def str_or_empty_def Let_def)

text \<open>
  An end vote reaches the wire only for a named channel that is no direct message, without mentions
  and flagged as a vote; and the voter is told \<open>published\<close>, under the token its park stamped, exactly
  when its vote went out and the publisher took it.\<close>
lemma vote_outcome_truthful:
  assumes "action_type a = END_INTERACTION_VOTE" "action_payload a = PyDict pl"
  shows "\<exists>wire outs. cs_wire (snd (execute_one child env s a ctx st)) = cs_wire st @ wire \<and>
    cs_outcomes (snd (execute_one child env s a ctx st)) = cs_outcomes st @ outs \<and>
    cs_turns (snd (execute_one child env s a ctx st)) = cs_turns st \<and>
    length wire \<le> 1 \<and> length outs \<le> 1 \<and>
    (\<forall>c \<in> set wire. pc_channel_id c \<noteq> [] \<and> take 3 (pc_channel_id c) \<noteq> ''dm:'' \<and> pc_mentions c = [] \<and>
       claims c ''end_interaction_vote'' = PyBool True) \<and>
    (\<forall>out \<in> set outs. vo_agent out = s \<and>
       vo_token out = str_or_empty (env_str env) (py_get_or pl ''vote_close_token'' (PyStr [])) \<and>
       (vo_published out \<longleftrightarrow>
          (\<exists>p c. env_publisher env = Some p \<and> wire = [c] \<and> pc_channel_id c = vo_channel_id out \<and> p c (cs_wire st) = Pub_ok)))"
proof -
  have ex: "snd (execute_one child env s a ctx st) =
      (let (r, st1) = publish_end_interaction_vote env s pl ctx st in notify_end_vote_outcome env s r st1)"
    using assms by (simp add: execute_one_def reading_payload_dict case_prod_beta Let_def)
  show ?thesis
  proof (cases rule: vote_cases[of env s pl ctx st])
    case (silent status)
    obtain outs where outs: "cs_outcomes (notify_end_vote_outcome env s (vote_status status (vote_target env pl) (vote_token env pl)) st) = cs_outcomes st @ outs"
      "length outs \<le> 1" "\<forall>out \<in> set outs. vo_agent out = s \<and> vo_channel_id out = vote_target env pl \<and> vo_token out = vote_token env pl \<and>
       (vo_published out \<longleftrightarrow> status = ''published'')"
      using notify_vote_status[of env s status "vote_target env pl" "vote_token env pl" "[]" st] by auto
    show ?thesis unfolding ex silent(1)
      by (intro exI[of _ "[]"] exI[of _ outs]) (use outs silent(2) in \<open>auto simp: vote_token_def\<close>)
  next
    case no_channel
    then show ?thesis unfolding ex
      by (simp add: notify_end_vote_outcome_def py_get_or_def str_or_empty_def Let_def)
  next
    case (sent p c status rest)
    let ?st = "st\<lparr>cs_wire := cs_wire st @ [c]\<rparr>"
    obtain outs where outs: "cs_outcomes (notify_end_vote_outcome env s (vote_status status (vote_target env pl) (vote_token env pl) @ rest) ?st) = cs_outcomes st @ outs"
      "length outs \<le> 1" "\<forall>out \<in> set outs. vo_agent out = s \<and> vo_channel_id out = vote_target env pl \<and> vo_token out = vote_token env pl \<and>
       (vo_published out \<longleftrightarrow> status = ''published'')"
      using notify_vote_status[of env s status "vote_target env pl" "vote_token env pl" rest ?st] by auto
    show ?thesis unfolding ex sent(4)
      by (intro exI[of _ "[c]"] exI[of _ outs])
        (use outs sent(1,2,3,5) in \<open>simp add: vote_token_def vote_call_def case_prod_beta Let_def\<close>)
  qed
qed

definition sample_vote :: AgentAction where
  "sample_vote = \<lparr>action_type = END_INTERACTION_VOTE,
     action_payload = PyDict [(''channel_id'', PyStr '' group:x ''), (''vote_close_token'', PyStr ''t1'')]\<rparr>"

theorem vote_outcome_truthful_witness:
  "vo_token (hd (cs_outcomes (snd (execute_one (\<lambda>_ _ st. (Inl TypeError, st))
      (ping_pong\<lparr>env_publisher := Some (\<lambda>_ _. Pub_ok)\<rparr>) ''a'' sample_vote (for_event first_event 1) no_cascade)))) = ''t1''"
proof -
  let ?run = "execute_one (\<lambda>_ _ st. (Inl TypeError, st)) (ping_pong\<lparr>env_publisher := Some (\<lambda>_ _. Pub_ok)\<rparr>) ''a'' sample_vote
      (for_event first_event 1) no_cascade"
  have "str_or_empty (env_str (ping_pong\<lparr>env_publisher := Some (\<lambda>_ _. Pub_ok)\<rparr>))
      (py_get_or [(''channel_id'', PyStr '' group:x ''), (''vote_close_token'', PyStr ''t1'')] ''vote_close_token'' (PyStr [])) = ''t1''" by code_simp
  moreover have "action_type sample_vote = END_INTERACTION_VOTE"
    "action_payload sample_vote = PyDict [(''channel_id'', PyStr '' group:x ''), (''vote_close_token'', PyStr ''t1'')]" "cs_outcomes no_cascade = []"
    by (simp_all add: sample_vote_def no_cascade_def)
  moreover have "length (cs_outcomes (snd ?run)) = 1" by code_simp
  then have "hd (cs_outcomes (snd ?run)) \<in> set (cs_outcomes (snd ?run))" by (intro hd_in_set) auto
  ultimately show ?thesis
    using vote_outcome_truthful[of sample_vote _ "\<lambda>_ _ st. (Inl TypeError, st)"
      "ping_pong\<lparr>env_publisher := Some (\<lambda>_ _. Pub_ok)\<rparr>" "''a''" "for_event first_event 1" no_cascade]
    by auto
qed

end
