(* ===== verification/Py_Regex.thy ===== *)
theory Py_Regex
  imports Prelude
begin

text \<open>
  The parts of Python's \<open>re\<close> module the code uses, for patterns that match in at most one way at a
  position. A pattern is a function from the text at a position to what it matches there;
  \<open>IGNORECASE\<close> compares lower-cased characters, \<open>\s\<close> is \<open>py_isspace\<close> and \<open>\w\<close> is \<open>word_char\<close>, both cut to
  the Latin-1 range like the rest of the strings.
\<close>

definition word_char :: "char \<Rightarrow> bool" where
  "word_char c = (let n = of_char c :: nat in
     (48 \<le> n \<and> n \<le> 57) \<or> (65 \<le> n \<and> n \<le> 90) \<or> (97 \<le> n \<and> n \<le> 122) \<or> n = 95 \<or>
     n \<in> {170, 178, 179, 181, 185, 186, 188, 189, 190} \<or> (192 \<le> n \<and> n \<noteq> 215 \<and> n \<noteq> 247))"

definition is_digit :: "char \<Rightarrow> bool" where
  "is_digit c = (let n = of_char c :: nat in 48 \<le> n \<and> n \<le> 57)"

text \<open>A literal, written in lower case, matched without regard to case.\<close>

definition ci_prefix :: "string \<Rightarrow> string \<Rightarrow> bool" where
  "ci_prefix p s \<longleftrightarrow> length p \<le> length s \<and> py_lower (take (length p) s) = p"

text \<open>\<open>\b\<close> after a word character.\<close>

definition word_ends :: "string \<Rightarrow> bool" where
  "word_ends s \<longleftrightarrow> (case s of [] \<Rightarrow> True | c # _ \<Rightarrow> \<not> word_char c)"

abbreviation skip_space :: "string \<Rightarrow> string" where "skip_space \<equiv> dropWhile py_isspace"

text \<open>\<open>search\<close>: the match at the first position that has one.\<close>

fun re_search :: "(string \<Rightarrow> 'a option) \<Rightarrow> string \<Rightarrow> 'a option" where
  "re_search m [] = m []"
| "re_search m (c # cs) = (case m (c # cs) of Some v \<Rightarrow> Some v | None \<Rightarrow> re_search m cs)"

text \<open>\<open>sub\<close>: \<open>m s\<close> is the length of the match at the front of \<open>s\<close>, never empty; \<open>f\<close> is the replacement.\<close>

function re_sub :: "(string \<Rightarrow> nat option) \<Rightarrow> (string \<Rightarrow> string) \<Rightarrow> string \<Rightarrow> string" where
  "re_sub m f [] = []"
| "re_sub m f (c # cs) =
     (case m (c # cs) of
        Some n \<Rightarrow> f (take (max 1 n) (c # cs)) @ re_sub m f (drop (max 1 n) (c # cs))
      | None \<Rightarrow> c # re_sub m f cs)"
  by pat_completeness auto
termination by (relation "measure (length \<circ> snd \<circ> snd)") auto

text \<open>\<open>split\<close>: the pieces between the matches; \<open>w\<close> is the piece read so far.\<close>

function re_split_aux :: "(string \<Rightarrow> nat option) \<Rightarrow> string \<Rightarrow> string \<Rightarrow> string list" where
  "re_split_aux m w [] = [w]"
| "re_split_aux m w (c # cs) =
     (case m (c # cs) of
        Some n \<Rightarrow> w # re_split_aux m [] (drop (max 1 n) (c # cs))
      | None \<Rightarrow> re_split_aux m (w @ [c]) cs)"
  by pat_completeness auto
termination by (relation "measure (length \<circ> snd \<circ> snd)") auto

definition re_split :: "(string \<Rightarrow> nat option) \<Rightarrow> string \<Rightarrow> string list" where
  "re_split m s = re_split_aux m [] s"

lemma re_sub_id: "(\<And>i. m (drop i s) = None) \<Longrightarrow> re_sub m f s = s"
proof (induction s)
  case (Cons c s)
  have "m (drop i s) = None" for i using Cons.prems[of "Suc i"] by simp
  then show ?case using Cons.IH Cons.prems[of 0] by simp
qed simp

lemma re_search_None: "re_search m s = None \<longleftrightarrow> (\<forall>i \<le> length s. m (drop i s) = None)"
proof (induction s)
  case (Cons c s)
  show ?case
  proof (cases "m (c # s)")
    case None
    then show ?thesis using Cons.IH by (auto simp: less_Suc_eq_le[symmetric] drop_Cons split: nat.splits)
  next
    case (Some v)
    then show ?thesis by (auto intro: exI[of _ 0])
  qed
qed simp

lemma re_search_Some: "re_search m s = Some v \<Longrightarrow> \<exists>i \<le> length s. m (drop i s) = Some v"
proof (induction s)
  case (Cons c s)
  show ?case
  proof (cases "m (c # s)")
    case None
    then obtain i where "i \<le> length s" "m (drop i s) = Some v" using Cons by auto
    then show ?thesis by (intro exI[of _ "Suc i"]) simp
  next
    case (Some v)
    then show ?thesis using Cons.prems by (intro exI[of _ 0]) simp
  qed
qed simp

lemma ci_prefix_append: "ci_prefix p x \<Longrightarrow> ci_prefix p (x @ y)"
  by (simp add: ci_prefix_def)

end
