(* ===== verification/Inbound.thy ===== *)
theory Inbound
  imports Dispatch Event_Loop Py_Regex
begin

text \<open>
  The fire-and-forget inbound path (\<open>src/agents/chat_reply.py\<close>, \<open>EventDispatcher.enqueue_inbound\<close> of
  \<open>dispatch.py\<close>): a channel message is queued on the agent's loop, or on a capped set of detached tasks
  when the agent has none; processing it decides, executes and, when the turn is refused for budget
  or capacity, answers with an apology on the channel. Also the extraction of a chat reply from the
  actions of a turn, with its sanitizer.

  What a turn may raise is reduced to what the recovery tells apart. A cancellation is no \<open>Exception\<close>: it passes every
  handler of the source and ends the task, and is not modelled. The agent is a function of the
  event and the turns so far.
\<close>


section \<open>Chat replies\<close>

definition tag_start :: "char \<Rightarrow> bool" where
  "tag_start c = (let n = of_char c :: nat in (65 \<le> n \<and> n \<le> 90) \<or> (97 \<le> n \<and> n \<le> 122) \<or> c = CHR ''_'')"

text \<open>The front of a tag, \<open><|/?\<close>, and what follows it.\<close>

definition tag_open :: "string \<Rightarrow> (nat \<times> string) option" where
  "tag_open s =
     (if take 2 s \<noteq> ''<|'' then None
      else case drop 2 s of
             CHR ''/'' # r \<Rightarrow> Some (3, r)
           | r \<Rightarrow> Some (2, r))"

text \<open>\<open><\|/?user_message[^|]*\|>\<close>\<close>

definition match_user_message :: "string \<Rightarrow> nat option" where
  "match_user_message s =
     (case tag_open s of
        None \<Rightarrow> None
      | Some (k, r) \<Rightarrow>
          if take 12 r \<noteq> ''user_message'' then None
          else let inner = takeWhile (\<lambda>c. c \<noteq> CHR ''|'') (drop 12 r);
                   rest = dropWhile (\<lambda>c. c \<noteq> CHR ''|'') (drop 12 r)
               in if take 2 rest = ''|>'' then Some (k + 12 + length inner + 2) else None)"

text \<open>The least \<open>i \<le> n\<close> with the closing bar at \<open>i\<close> and no line break before it.\<close>

fun lazy_close :: "nat \<Rightarrow> string \<Rightarrow> nat option" where
  "lazy_close n s =
     (if take 2 s = ''|>'' then Some 2
      else case (n, s) of
             (Suc m, c # cs) \<Rightarrow> if c = CHR 10 then None else map_option Suc (lazy_close m cs)
           | _ \<Rightarrow> None)"

declare lazy_close.simps [simp del]

text \<open>\<open><\|/?[a-zA-Z_].{0,128}?\|>\<close>\<close>

definition match_any_tag :: "string \<Rightarrow> nat option" where
  "match_any_tag s =
     (case tag_open s of
        Some (k, c # r) \<Rightarrow> if tag_start c then map_option ((+) (k + 1)) (lazy_close 128 r) else None
      | _ \<Rightarrow> None)"

text \<open>\<open><\|/?[a-zA-Z_][^|>\s]{0,64}\Z\<close>\<close>

definition match_torn_tag :: "string \<Rightarrow> nat option" where
  "match_torn_tag s =
     (case tag_open s of
        Some (k, c # r) \<Rightarrow>
          if tag_start c \<and> length r \<le> 64 \<and> list_all (\<lambda>d. d \<noteq> CHR ''|'' \<and> d \<noteq> CHR ''>'' \<and> \<not> py_isspace d) r
          then Some (length s) else None
      | _ \<Rightarrow> None)"

definition sanitize_reply :: "string \<Rightarrow> string" where
  "sanitize_reply text = 
     py_strip (re_sub match_torn_tag (\<lambda>_. []) (re_sub match_any_tag (\<lambda>_. []) (re_sub match_user_message (\<lambda>_. []) text)))"

definition sanitize_value :: "pyval \<Rightarrow> string result" where
  "sanitize_value v = (case v of PyStr s \<Rightarrow> Inr (sanitize_reply s) | _ \<Rightarrow> Inl TypeError)"

definition is_substring :: "string \<Rightarrow> string \<Rightarrow> bool" where
  "is_substring u s \<longleftrightarrow> list_ex (\<lambda>i. take (length u) (drop i s) = u) [0 ..< length s + 1]"

text \<open>\<open>user_id in mentions\<close>\<close>

definition mentioned :: "string \<Rightarrow> pyval \<Rightarrow> bool result" where
  "mentioned u v =
     (case v of
        PyList xs \<Rightarrow> Inr (PyStr u \<in> set xs)
      | PyStr s \<Rightarrow> Inr (is_substring u s)
      | PyDict d \<Rightarrow> Inr (u \<in> fst ` set d)
      | _ \<Rightarrow> Inl TypeError)"

fun first_mention :: "string \<Rightarrow> AgentAction list \<Rightarrow> AgentAction option result" where
  "first_mention u [] = Inr None"
| "first_mention u (a # as) =
     bind_r (py_dict_of (action_payload a)) (\<lambda>pl. bind_r (mentioned u (py_get_or pl ''mentions'' (PyList [])))
       (\<lambda>b. if b then Inr (Some a) else first_mention u as))"

definition ok_reply :: "AgentAction \<Rightarrow> string \<Rightarrow> (string \<times> string) result" where
  "ok_reply a key =
     bind_r (py_dict_of (action_payload a)) (\<lambda>pl. bind_r (sanitize_value (py_get_or pl key (PyStr []))) (\<lambda>r. Inr (r, ''ok'')))"

definition extract_chat_reply :: "AgentAction list \<Rightarrow> string \<Rightarrow> (string \<times> string) result" where
  "extract_chat_reply actions user_id =
     (let send_messages = filter (\<lambda>a. action_type a = SEND_CHANNEL_MESSAGE) actions
      in bind_r (if user_id \<noteq> [] then first_mention user_id send_messages else Inr None) (\<lambda>found.
           case found of
             Some a \<Rightarrow> ok_reply a ''content''
           | None \<Rightarrow>
               (case send_messages of
                  a # _ \<Rightarrow> ok_reply a ''content''
                | [] \<Rightarrow>
                    (case find (\<lambda>a. action_type a = COMPLETE_TASK) actions of
                       Some a \<Rightarrow> ok_reply a ''result''
                     | None \<Rightarrow> Inr ([], ''empty'')))))"


section \<open>Apologies\<close>

text \<open>The exceptions a turn may raise, as far as the recovery tells them apart; a cancellation is not one of them.\<close>

datatype turn_error = Budget_exceeded string string | Resource_exhausted | Other_error

type_synonym publisher = "(publish_call \<Rightarrow> publish_call list \<Rightarrow> publish_outcome) option"

definition publish_chat_error_on_channel ::
  "publisher \<Rightarrow> string \<Rightarrow> string option \<Rightarrow> string option \<Rightarrow> string \<Rightarrow> string \<Rightarrow> string \<Rightarrow> cascade \<Rightarrow> cascade" where
  "publish_chat_error_on_channel publisher agent channel inbound_sender reply reason origin_interaction st =
     (case (publisher, channel) of
        (Some publish, Some ch) \<Rightarrow>
          (let origin = \<lparr>dx_cascade_depth = DEFAULT_MAX_CASCADE_DEPTH, dx_origin_channel_id = ch,
                         dx_origin_interaction_id = origin_interaction, dx_origin_synthesis_turn = False,
                         dx_origin_epoch_id = [], dx_origin_session_id = [], dx_origin_principal_id = []\<rparr>;
               call = \<lparr>pc_channel_id = ch, pc_sender_id = agent, pc_content = PyStr reply,
                       pc_mentions = (case inbound_sender of None \<Rightarrow> [] | Some s \<Rightarrow> if s = [] then [] else [PyStr s]),
                       pc_metadata = Some ([(''reply_status'', PyStr ''error''), (''error_reason'', PyStr reason)] @
                         (case same_channel_claim origin ch False of None \<Rightarrow> [] | Some c \<Rightarrow> c)),
                       pc_cascade_depth = 0\<rparr>
           in st\<lparr>cs_wire := cs_wire st @ [call]\<rparr>)
      | _ \<Rightarrow> st)"

text \<open>The dash of the reply is outside the range of characters used here and is written as two.\<close>

definition CAPACITY_REPLY :: string where
  "CAPACITY_REPLY = ''Agent is at capacity '' @ [CHR ''-'', CHR ''-''] @ '' please retry in a moment.''"

definition recover_chat_error ::
  "publisher \<Rightarrow> string \<Rightarrow> string option \<Rightarrow> string option \<Rightarrow> string \<Rightarrow> bool \<Rightarrow> turn_error \<Rightarrow> cascade \<Rightarrow> cascade" where
  "recover_chat_error publisher agent channel inbound_sender origin_interaction suppress_error_reply err st =
     (case err of
        Budget_exceeded message reason \<Rightarrow>
          if suppress_error_reply then st
          else publish_chat_error_on_channel publisher agent channel inbound_sender message reason origin_interaction st
      | Resource_exhausted \<Rightarrow>
          if suppress_error_reply then st
          else publish_chat_error_on_channel publisher agent channel inbound_sender CAPACITY_REPLY ''resource_exhausted''
                 origin_interaction st
      | Other_error \<Rightarrow> st)"


section \<open>Processing one inbound event\<close>

type_synonym turn = "AgentEvent \<Rightarrow> turn_log \<Rightarrow> turn_error + AgentAction list"

text \<open>The agent sees the event as it came; only its context is one level deeper.\<close>

definition process_inbound_channel_event ::
  "dispatch_env \<Rightarrow> string \<Rightarrow> turn \<Rightarrow> AgentEvent \<Rightarrow> int \<Rightarrow> cascade \<Rightarrow> unit result \<times> cascade" where
  "process_inbound_channel_event env agent on_event ev max_cascade_depth st =
     (case depth_of (metadata ev) of
        Inl e \<Rightarrow> (Inl e, st)
      | Inr depth \<Rightarrow>
          if depth \<ge> max_cascade_depth then (Inr (), st)
          else let ctx = for_event ev (depth + 1);
                   st1 = st\<lparr>cs_turns := cs_turns st @ [(agent, ev)]\<rparr>
               in (Inr (),
                   case on_event ev (cs_turns st) of
                     Inr actions \<Rightarrow>
                       (case execute (\<lambda>t e. dispatch env t e True) env agent actions ctx st1 of
                          (Inr _, st2) \<Rightarrow> st2
                        | (Inl _, st2) \<Rightarrow>
                            recover_chat_error (env_publisher env) agent (channel_id ev) (sender_id ev)
                              (dx_origin_interaction_id ctx) (dx_origin_synthesis_turn ctx) Other_error st2)
                   | Inl err \<Rightarrow>
                       recover_chat_error (env_publisher env) agent (channel_id ev) (sender_id ev)
                         (dx_origin_interaction_id ctx) (dx_origin_synthesis_turn ctx) err st1))"


section \<open>Accepting an inbound event\<close>

definition MAX_INBOUND_FALLBACK_TASKS :: nat where "MAX_INBOUND_FALLBACK_TASKS = 1000"

text \<open>
  The registered agents, the loops of their schedulers, and the detached tasks in flight, each with
  its agent and event. \<open>fallback_done\<close> is the done-callback of a task, and what the task did is
  \<open>process_inbound_channel_event\<close>.
\<close>

record EventDispatcher =
  ed_agents :: "string list"
  ed_loops :: "string \<Rightarrow> EventLoop option"
  ed_fallback :: "(nat \<times> string \<times> AgentEvent) list"
  ed_next_task :: nat

definition mk_EventDispatcher :: EventDispatcher where
  "mk_EventDispatcher = \<lparr>ed_agents = [], ed_loops = Map.empty, ed_fallback = [], ed_next_task = 0\<rparr>"

definition register_agent :: "string \<Rightarrow> EventDispatcher \<Rightarrow> EventDispatcher" where
  "register_agent a ed = ed\<lparr>ed_agents := List.insert a (ed_agents ed)\<rparr>"

definition register_tick_scheduler :: "string \<Rightarrow> EventLoop \<Rightarrow> EventDispatcher \<Rightarrow> EventDispatcher" where
  "register_tick_scheduler a el ed = ed\<lparr>ed_loops := (ed_loops ed)(a \<mapsto> el)\<rparr>"

definition enqueue_fallback :: "string \<Rightarrow> AgentEvent \<Rightarrow> EventDispatcher \<Rightarrow> bool \<times> EventDispatcher" where
  "enqueue_fallback target ev ed =
     (if target \<notin> set (ed_agents ed) then (False, ed)
      else if length (ed_fallback ed) \<ge> MAX_INBOUND_FALLBACK_TASKS then (False, ed)
      else (True, ed\<lparr>ed_fallback := ed_fallback ed @ [(ed_next_task ed, target, ev)], ed_next_task := ed_next_task ed + 1\<rparr>))"

definition fallback_done :: "nat \<Rightarrow> EventDispatcher \<Rightarrow> EventDispatcher" where
  "fallback_done k ed = ed\<lparr>ed_fallback := filter (\<lambda>t. fst t \<noteq> k) (ed_fallback ed)\<rparr>"

definition enqueue_inbound :: "bool \<Rightarrow> rat \<Rightarrow> string \<Rightarrow> AgentEvent \<Rightarrow> EventDispatcher \<Rightarrow> bool \<times> EventDispatcher" where
  "enqueue_inbound in_supervisor now target ev ed =
     (case ed_loops ed target of
        Some el \<Rightarrow>
          if is_running el
          then let (accepted, el1) = enqueue in_supervisor now (InboundEventWake ev None) el
               in (accepted, ed\<lparr>ed_loops := (ed_loops ed)(target \<mapsto> el1)\<rparr>)
          else enqueue_fallback target ev ed
      | None \<Rightarrow> enqueue_fallback target ev ed)"


section \<open>Properties\<close>

lemma apology_wire:
  "\<exists>wire. publish_chat_error_on_channel p agent ch sender reply reason i st = st\<lparr>cs_wire := cs_wire st @ wire\<rparr> \<and>
     length wire = (if p = None \<or> ch = None then 0 else 1) \<and>
     (\<forall>c \<in> set wire. ch = Some (pc_channel_id c) \<and> pc_cascade_depth c = 0 \<and>
        claims c ''reply_status'' = PyStr ''error'' \<and> claims c ''synthesis_reply'' = PyNone \<and>
        claims c ''interaction_id'' = (if i \<noteq> [] then PyStr i else PyNone))"
proof (cases "p = None \<or> ch = None")
  case True
  then show ?thesis by (intro exI[of _ "[]"]) (auto simp: publish_chat_error_on_channel_def split: option.split)
next
  case False
  then obtain publish chan where "p = Some publish" "ch = Some chan" by auto
  then show ?thesis
    by (intro exI[of _ "drop (length (cs_wire st)) (cs_wire (publish_chat_error_on_channel p agent ch sender reply reason i st))"])
      (simp add: publish_chat_error_on_channel_def claims_def same_channel_claim_def)
qed

text \<open>
  C14. A refused turn apologises at most once and never as a closing artifact: processing an inbound event
  never raises out of the turn; when the turn is refused for budget or capacity, and the event is no
  synthesis turn and has a channel and a publisher, exactly one message goes out, on that channel, at
  depth 0, marked as an error, claiming the interaction of the event and never the synthesis; any
  other failure, and every synthesis turn, publishes nothing.\<close>
theorem refused_turn_apologises_once:
  assumes "depth_of (metadata ev) = Inr d" "d < cap" "on_event ev (cs_turns st) = Inl err"
  shows "\<exists>wire. process_inbound_channel_event env agent on_event ev cap st =
      (Inr (), st\<lparr>cs_turns := cs_turns st @ [(agent, ev)], cs_wire := cs_wire st @ wire\<rparr>) \<and>
    length wire = (if err \<noteq> Other_error \<and> \<not> is_true (py_get (payload ev) ''synthesis_turn'') \<and>
                      env_publisher env \<noteq> None \<and> channel_id ev \<noteq> None then 1 else 0) \<and>
    (\<forall>c \<in> set wire. channel_id ev = Some (pc_channel_id c) \<and> pc_cascade_depth c = 0 \<and>
       claims c ''reply_status'' = PyStr ''error'' \<and> claims c ''synthesis_reply'' = PyNone \<and>
       claims c ''interaction_id'' = (if wire_interaction_id ev \<noteq> [] then PyStr (wire_interaction_id ev) else PyNone))"
proof -
  let ?st = "st\<lparr>cs_turns := cs_turns st @ [(agent, ev)]\<rparr>"
  let ?rec = "recover_chat_error (env_publisher env) agent (channel_id ev) (sender_id ev) (wire_interaction_id ev)
      (is_true (py_get (payload ev) ''synthesis_turn'')) err ?st"
  have run: "process_inbound_channel_event env agent on_event ev cap st = (Inr (), ?rec)"
    using assms by (simp add: process_inbound_channel_event_def Let_def for_event_def)
  show ?thesis
  proof (cases "err = Other_error \<or> is_true (py_get (payload ev) ''synthesis_turn'')")
    case True
    then show ?thesis unfolding run
      by (intro exI[of _ "[]"]) (auto simp: recover_chat_error_def split: turn_error.split)
  next
    case False
    then obtain reply reason where
      "?rec = publish_chat_error_on_channel (env_publisher env) agent (channel_id ev) (sender_id ev) reply reason (wire_interaction_id ev) ?st"
      by (cases err) (auto simp: recover_chat_error_def)
    then show ?thesis unfolding run
      using apology_wire[of "env_publisher env" agent "channel_id ev" "sender_id ev" reply reason "wire_interaction_id ev" ?st] False
      by auto
  qed
qed

theorem refused_turn_apologises_once_witness:
  "length (cs_wire (snd (process_inbound_channel_event (ping_pong\<lparr>env_publisher := Some (\<lambda>_ _. Pub_ok)\<rparr>) ''a''
     (\<lambda>_ _. Inl Resource_exhausted) first_event 5 no_cascade))) = 1"
proof -
  have "\<not> is_true (py_get (payload first_event) ''synthesis_turn'')" "channel_id first_event \<noteq> None" by code_simp+
  then show ?thesis
    using refused_turn_apologises_once[OF first_event_depth, of 5 "\<lambda>_ _. Inl Resource_exhausted" no_cascade Resource_exhausted
        "ping_pong\<lparr>env_publisher := Some (\<lambda>_ _. Pub_ok)\<rparr>" "''a''"]
    by (auto simp: no_cascade_def)
qed

lemma child_dispatch_adds:
  assumes "answers_at_most env most" "d < env_max_cascade_depth env"
  shows "child_adds (\<lambda>t e. dispatch env t e True) env (for_event ev (d + 1)) (cascade_bound most (nat (env_max_cascade_depth env - (d + 1))))"
  unfolding child_adds_def
proof (intro allI impI)
  fix t st and e :: AgentEvent
  assume e: "depth_of (metadata e) = Inr (dx_cascade_depth (for_event ev (d + 1))) \<and> axes (metadata e) = axes_of (for_event ev (d + 1))"
  then have "hops_left env e = nat (env_max_cascade_depth env - (d + 1))" by (simp add: hops_left_def)
  from dispatch_adds[OF assms(1) conjunct1[OF e] this, of st t True]
  show "adds env (dx_cascade_depth (for_event ev (d + 1))) (axes_of (for_event ev (d + 1)))
      (cascade_bound most (nat (env_max_cascade_depth env - (d + 1)))) st (snd (dispatch env t e True st))"
    using e by simp
qed

text \<open>
  An inbound message cannot set off more than a bounded cascade: a turn that answers with actions runs
  those actions in the event's own session, principal and epoch; the turns that follow are in that world
  too, deeper than the event, within the ceiling, and at most as many as the levels left allow.\<close>
lemma inbound_cascade_bounded:
  assumes "answers_at_most env most" "depth_of (metadata ev) = Inr d" "d < env_max_cascade_depth env"
    and "on_event ev (cs_turns st) = Inr actions"
  shows "\<exists>new wire st'. process_inbound_channel_event env agent on_event ev (env_max_cascade_depth env) st = (Inr (), st') \<and>
    cs_turns st' = cs_turns st @ [(agent, ev)] @ new \<and> cs_wire st' = cs_wire st @ wire \<and> cs_ambient st' = cs_ambient st \<and>
    length new \<le> length actions * (10 * cascade_bound most (nat (env_max_cascade_depth env - (d + 1)))) \<and>
    (\<forall>(aid, e) \<in> set new. axes (metadata e) = axes (metadata ev) \<and>
       (\<exists>k. depth_of (metadata e) = Inr k \<and> d < k \<and> k \<le> env_max_cascade_depth env)) \<and>
    (\<forall>c \<in> set wire. d < pc_cascade_depth c \<and> pc_cascade_depth c \<le> env_max_cascade_depth env \<and>
       length (pc_mentions c) \<le> 10)"
proof -
  let ?st = "st\<lparr>cs_turns := cs_turns st @ [(agent, ev)]\<rparr>"
  let ?st' = "snd (execute (\<lambda>t e. dispatch env t e True) env agent actions (for_event ev (d + 1)) ?st)"
  have run: "process_inbound_channel_event env agent on_event ev (env_max_cascade_depth env) st = (Inr (), ?st')"
    using assms(2-4) by (simp add: process_inbound_channel_event_def recover_chat_error_def Let_def split: prod.split sum.split)
  have "adds env (d + 1 - 1) (axes (metadata ev))
      (length actions * (MAX_MENTIONS_PER_ACTION * cascade_bound most (nat (env_max_cascade_depth env - (d + 1))))) ?st ?st'"
    using execute_adds[OF child_dispatch_adds[OF assms(1,3), of ev], of actions ?st agent] assms(3) by simp
  then obtain new wire where n: "cs_turns ?st' = cs_turns ?st @ new" "cs_wire ?st' = cs_wire ?st @ wire"
    "length new \<le> length actions * (10 * cascade_bound most (nat (env_max_cascade_depth env - (d + 1))))"
    "\<forall>(aid, e) \<in> set new. \<exists>k. depth_of (metadata e) = Inr k \<and> d < k \<and> k \<le> env_max_cascade_depth env \<and> axes (metadata e) = axes (metadata ev)"
    "\<forall>c \<in> set wire. d < pc_cascade_depth c \<and> pc_cascade_depth c \<le> env_max_cascade_depth env \<and> length (pc_mentions c) \<le> 10"
    "cs_ambient ?st' = cs_ambient ?st"
    unfolding adds_def MAX_MENTIONS_PER_ACTION_def by (simp del: of_nat_mult) blast
  have "\<forall>(aid, e) \<in> set new. axes (metadata e) = axes (metadata ev) \<and>
       (\<exists>k. depth_of (metadata e) = Inr k \<and> d < k \<and> k \<le> env_max_cascade_depth env)" using n(4) by fast
  then show ?thesis unfolding run using n
    by (intro exI[of _ new] exI[of _ wire] exI[of _ ?st'] conjI refl) auto
qed

theorem inbound_cascade_bounded_witness:
  "length (cs_turns (snd (process_inbound_channel_event ping_pong ''a'' (\<lambda>_ _. Inr [mention ''b'']) first_event 5 no_cascade))) \<le>
     1 + 10 * cascade_bound 1 4"
proof -
  have m: "env_max_cascade_depth ping_pong = 5" by code_simp
  show ?thesis
    using inbound_cascade_bounded[OF ping_pong_answers first_event_depth, of "\<lambda>_ _. Inr [mention ''b'']" no_cascade "[mention ''b'']" "''a''"]
    unfolding m by (auto simp: no_cascade_def)
qed

definition queue_of :: "EventDispatcher \<Rightarrow> string \<Rightarrow> WakeEvent list" where
  "queue_of ed a = (case ed_loops ed a of Some el \<Rightarrow> el_queue el | None \<Rightarrow> [])"

definition has_running_loop :: "EventDispatcher \<Rightarrow> string \<Rightarrow> bool" where
  "has_running_loop ed a \<longleftrightarrow> (case ed_loops ed a of Some el \<Rightarrow> is_running el | None \<Rightarrow> False)"

definition can_accept :: "EventDispatcher \<Rightarrow> string \<Rightarrow> bool" where
  "can_accept ed a \<longleftrightarrow>
     (case ed_loops ed a of
        Some el \<Rightarrow> if is_running el then \<not> el_stopped el \<and> \<not> queue_full el
                   else a \<in> set (ed_agents ed) \<and> length (ed_fallback ed) < 1000
      | None \<Rightarrow> a \<in> set (ed_agents ed) \<and> length (ed_fallback ed) < 1000)"

lemma enqueue_inbound_wake:
  "fst (enqueue s now (InboundEventWake ev None) el) = (\<not> el_stopped el \<and> \<not> queue_full el)"
  "el_queue (snd (enqueue s now (InboundEventWake ev None) el)) =
     el_queue el @ (if \<not> el_stopped el \<and> \<not> queue_full el then [InboundEventWake ev None] else [])"
  by (auto simp: enqueue_def emit_def log_queue_full_def put_nowait_def split: option.split)

text \<open>
  An inbound message that is accepted is kept and one that is refused leaves no trace: acceptance puts
  it at the end of the target's wake queue, or among the at most one thousand detached tasks when the
  target has no running loop; it is refused only for an unknown agent without a loop, a full or stopped
  queue, or a full task set, and then no queue and no task has changed. No other agent's queue is
  touched, and the cap on the tasks is kept.\<close>
lemma inbound_kept_or_refused:
  assumes "length (ed_fallback ed) \<le> 1000"
  shows "(let (accepted, ed') = enqueue_inbound in_supervisor now target ev ed in
    (accepted \<longleftrightarrow> can_accept ed target) \<and> length (ed_fallback ed') \<le> 1000 \<and>
    (\<forall>a. queue_of ed' a = queue_of ed a @
       (if accepted \<and> has_running_loop ed target \<and> a = target then [InboundEventWake ev None] else [])) \<and>
    map snd (ed_fallback ed') = map snd (ed_fallback ed) @
       (if accepted \<and> \<not> has_running_loop ed target then [(target, ev)] else []))"
proof (cases "has_running_loop ed target")
  case True
  then obtain el where "ed_loops ed target = Some el" "is_running el"
    by (auto simp: has_running_loop_def split: option.splits)
  then show ?thesis using assms True enqueue_inbound_wake[of in_supervisor now ev el]
    by (auto simp: enqueue_inbound_def can_accept_def queue_of_def case_prod_beta Let_def)
next
  case False
  then have "enqueue_inbound in_supervisor now target ev ed = enqueue_fallback target ev ed"
    "can_accept ed target \<longleftrightarrow> target \<in> set (ed_agents ed) \<and> length (ed_fallback ed) < 1000"
    by (auto simp: has_running_loop_def enqueue_inbound_def can_accept_def split: option.splits)
  then show ?thesis using assms False
    by (simp add: enqueue_fallback_def queue_of_def MAX_INBOUND_FALLBACK_TASKS_def)
qed

theorem inbound_kept_or_refused_witness:
  "map snd (ed_fallback (snd (enqueue_inbound False 0 ''a'' first_event (register_agent ''a'' mk_EventDispatcher)))) = [(''a'', first_event)]"
proof -
  have "fst (enqueue_inbound False 0 ''a'' first_event (register_agent ''a'' mk_EventDispatcher))"
    "\<not> has_running_loop (register_agent ''a'' mk_EventDispatcher) ''a''"
    "ed_fallback (register_agent ''a'' mk_EventDispatcher) = []" by code_simp+
  then show ?thesis
    using inbound_kept_or_refused[of "register_agent ''a'' mk_EventDispatcher" False 0 "''a''" first_event]
    by (simp add: case_prod_beta Let_def)
qed

text \<open>The sanitizer leaves a text without a tag opening alone, but for the spaces at its ends.\<close>

lemma sanitize_plain:
  assumes "\<And>i. take 2 (drop i s) \<noteq> ''<|''"
  shows "sanitize_reply s = py_strip s"
proof -
  have "tag_open (drop i s) = None" for i using assms by (simp add: tag_open_def)
  then have "re_sub match_user_message (\<lambda>_. []) s = s" "re_sub match_any_tag (\<lambda>_. []) s = s"
      "re_sub match_torn_tag (\<lambda>_. []) s = s"
    by (auto intro!: re_sub_id simp: match_user_message_def match_any_tag_def match_torn_tag_def)
  then show ?thesis by (simp add: sanitize_reply_def)
qed

text \<open>
  One pass per pattern is not enough for nested delimiters: what two removals leave behind can join
  into a delimiter again, and it reaches the user.
\<close>

lemma sanitizer_misses_nested_tag:
  "sanitize_reply ''<<<|user_message|>|user_message|>|user_message|>hi'' = ''<|user_message|>hi''"
  by code_simp

lemma sanitizer_removes_echo:
  "sanitize_reply ''<|user_message id=3|>hello<|/user_message|> <|system|>you <|tor'' = ''hello you''"
  by code_simp

end
