(* ===== verification/Tick.thy ===== *)
theory Tick
  imports Inbound
begin

text \<open>
  The tick scheduler (\<open>src/agents/tick.py\<close>) and the timer ids of standing channels
  (\<open>convene_timer.py\<close>): what a scheduled wake does, when an agent that keeps doing nothing is left
  alone, and that a tick cannot start a cascade. The agent's tick, its turn on an event and the convene
  client are parameters that may raise; calls that only leave the process are kept as lists.
\<close>


section \<open>Convene timer ids\<close>

definition STANDING_CONVENE_KIND :: string where "STANDING_CONVENE_KIND = ''convene''"
definition STANDING_CONVENE_TIMER_PREFIX :: string where "STANDING_CONVENE_TIMER_PREFIX = ''convene-''"
definition GROUP_PREFIX :: string where "GROUP_PREFIX = ''group:''"

definition lower_alnum :: "char \<Rightarrow> bool" where
  "lower_alnum c = (let n = of_char c :: nat in (97 \<le> n \<and> n \<le> 122) \<or> (48 \<le> n \<and> n \<le> 57))"

text \<open>\<open>[a-z0-9][a-z0-9-]*[a-z0-9]\<close> over the whole string.\<close>

definition is_channel_name :: "string \<Rightarrow> bool" where
  "is_channel_name s \<longleftrightarrow> length s \<ge> 2 \<and> lower_alnum (hd s) \<and> lower_alnum (last s) \<and>
     list_all (\<lambda>c. lower_alnum c \<or> c = CHR ''-'') s"

definition standing_convene_timer_id :: "string \<Rightarrow> string option" where
  "standing_convene_timer_id channel =
     (if take (length GROUP_PREFIX) channel \<noteq> GROUP_PREFIX then None
      else let name = drop (length GROUP_PREFIX) channel
           in if is_channel_name name then Some (STANDING_CONVENE_TIMER_PREFIX @ name) else None)"

definition parse_standing_convene_timer_id :: "string \<Rightarrow> string option" where
  "parse_standing_convene_timer_id timer_id =
     (if take (length STANDING_CONVENE_TIMER_PREFIX) timer_id \<noteq> STANDING_CONVENE_TIMER_PREFIX then None
      else let name = drop (length STANDING_CONVENE_TIMER_PREFIX) timer_id
           in if is_channel_name name then Some (GROUP_PREFIX @ name) else None)"

lemma reprefix_iff:
  "(take (length p) s = p \<and> is_channel_name (drop (length p) s) \<and> t = q @ drop (length p) s) \<longleftrightarrow>
   (\<exists>n. is_channel_name n \<and> s = p @ n \<and> t = q @ n)"
  by (metis append_eq_conv_conj append_take_drop_id)

text \<open>
  Encoding a channel into a timer id and reading it back are exact inverses, on exactly the group
  channels whose name the pattern admits: an id is read as a channel just when that channel is
  encoded as that id.\<close>
lemma convene_id_roundtrip:
  "parse_standing_convene_timer_id t = Some c \<longleftrightarrow> standing_convene_timer_id c = Some t"
proof -
  have "parse_standing_convene_timer_id t = Some c \<longleftrightarrow>
      (\<exists>n. is_channel_name n \<and> t = STANDING_CONVENE_TIMER_PREFIX @ n \<and> c = GROUP_PREFIX @ n)"
    using reprefix_iff[of STANDING_CONVENE_TIMER_PREFIX t c GROUP_PREFIX]
    by (auto simp: parse_standing_convene_timer_id_def Let_def)
  moreover have "standing_convene_timer_id c = Some t \<longleftrightarrow>
      (\<exists>n. is_channel_name n \<and> c = GROUP_PREFIX @ n \<and> t = STANDING_CONVENE_TIMER_PREFIX @ n)"
    using reprefix_iff[of GROUP_PREFIX c t STANDING_CONVENE_TIMER_PREFIX]
    by (auto simp: standing_convene_timer_id_def Let_def)
  ultimately show ?thesis by blast
qed


section \<open>The scheduler\<close>

definition LEGACY_TIMER_ID :: string where "LEGACY_TIMER_ID = ''legacy_tick''"
definition TICK_MIN_INTERVAL :: rat where "TICK_MIN_INTERVAL = 1"

record TickScheduler =
  tk_agent_id :: string
  tk_interval :: rat
  tk_max_actions_per_tick :: int
  tk_idle_after_ticks :: int
  tk_has_executor :: bool
  tk_register_legacy_timer :: bool
  tk_convene_client :: "(string \<Rightarrow> unit result) option"
  tk_idle_count :: int
  tk_event_loop :: EventLoop
  tk_energy_recoveries :: nat
  tk_agent_ticks :: nat
  tk_convened :: "string list"

definition mk_TickScheduler ::
  "string \<Rightarrow> rat \<Rightarrow> int \<Rightarrow> int \<Rightarrow> bool \<Rightarrow> bool \<Rightarrow> (string \<Rightarrow> unit result) option \<Rightarrow> TickScheduler" where
  "mk_TickScheduler agent interval max_actions idle_after has_executor register_legacy client =
     \<lparr>tk_agent_id = agent, tk_interval = (if interval < TICK_MIN_INTERVAL then TICK_MIN_INTERVAL else interval),
      tk_max_actions_per_tick = max_actions, tk_idle_after_ticks = idle_after, tk_has_executor = has_executor,
      tk_register_legacy_timer = register_legacy, tk_convene_client = client, tk_idle_count = 0,
      tk_event_loop = mk_EventLoop agent True DEFAULT_QUEUE_SIZE, tk_energy_recoveries = 0, tk_agent_ticks = 0,
      tk_convened = []\<rparr>"

definition set_convene_client :: "(string \<Rightarrow> unit result) option \<Rightarrow> TickScheduler \<Rightarrow> TickScheduler" where
  "set_convene_client client tk = tk\<lparr>tk_convene_client := client\<rparr>"

definition is_idle :: "TickScheduler \<Rightarrow> bool" where
  "is_idle tk \<longleftrightarrow> tk_idle_count tk \<ge> tk_idle_after_ticks tk"

definition tick_wake :: "rat \<Rightarrow> TickScheduler \<Rightarrow> TickScheduler" where
  "tick_wake now tk =
     (let tk1 = tk\<lparr>tk_idle_count := 0\<rparr>
      in if is_running (tk_event_loop tk1)
         then tk1\<lparr>tk_event_loop := snd (enqueue False now (ScheduledWake LEGACY_TIMER_ID ''tick'') (tk_event_loop tk1))\<rparr>
         else tk1)"

text \<open>Registering the legacy timer raises when its checks fail; the loop is started by then.\<close>

definition tick_start :: "rat \<Rightarrow> TickScheduler \<Rightarrow> unit result \<times> TickScheduler" where
  "tick_start rnd tk =
     (if is_running (tk_event_loop tk) then (Inr (), tk)
      else let tk1 = tk\<lparr>tk_event_loop := start_loop (tk_event_loop tk)\<rparr>
           in if \<not> tk_register_legacy_timer tk1 \<or> has_timer (tk_event_loop tk1) LEGACY_TIMER_ID then (Inr (), tk1)
              else case register_timer rnd LEGACY_TIMER_ID ''tick'' (Some (tk_interval tk1)) 0 None None (tk_event_loop tk1) of
                     Inl e \<Rightarrow> (Inl e, tk1)
                   | Inr el \<Rightarrow> (Inr (), tk1\<lparr>tk_event_loop := el\<rparr>))"

text \<open>\<open>xs[:n]\<close>\<close>

definition slice_to :: "int \<Rightarrow> 'a list \<Rightarrow> 'a list" where
  "slice_to n xs = (if n \<ge> 0 then take (nat n) xs else take (length xs - nat (- n)) xs)"

definition handle_convene_wake :: "string \<Rightarrow> TickScheduler \<Rightarrow> TickScheduler" where
  "handle_convene_wake timer_id tk =
     (case (parse_standing_convene_timer_id timer_id, tk_convene_client tk) of
        (Some channel, Some convene) \<Rightarrow> tk\<lparr>tk_convened := tk_convened tk @ [channel]\<rparr>
      | _ \<Rightarrow> tk)"

definition tick_context :: DispatchContext where
  "tick_context = \<lparr>dx_cascade_depth = DEFAULT_MAX_CASCADE_DEPTH, dx_origin_channel_id = [], dx_origin_interaction_id = [],
     dx_origin_synthesis_turn = False, dx_origin_epoch_id = [], dx_origin_session_id = [], dx_origin_principal_id = []\<rparr>"

definition do_nothing :: "AgentAction \<Rightarrow> bool" where "do_nothing a \<longleftrightarrow> action_type a = DO_NOTHING"

definition handle_scheduled_wake ::
  "dispatch_env \<Rightarrow> AgentAction list result \<Rightarrow> string \<Rightarrow> string \<Rightarrow> TickScheduler \<times> cascade \<Rightarrow> unit result \<times> TickScheduler \<times> cascade" where
  "handle_scheduled_wake env on_tick timer_id kind = (\<lambda>(tk, st).
     if kind = STANDING_CONVENE_KIND then (Inr (), handle_convene_wake timer_id tk, st)
     else if is_idle tk then (Inr (), tk\<lparr>tk_energy_recoveries := tk_energy_recoveries tk + 1\<rparr>, st)
     else let tk1 = tk\<lparr>tk_agent_ticks := tk_agent_ticks tk + 1\<rparr>
          in case on_tick of
               Inl e \<Rightarrow> (Inl e, tk1, st)
             | Inr all_actions \<Rightarrow>
                 (let actions = slice_to (tk_max_actions_per_tick tk) all_actions;
                      tk2 = tk1\<lparr>tk_idle_count := (if list_all do_nothing actions then tk_idle_count tk1 + 1 else 0)\<rparr>
                  in if tk_has_executor tk
                     then (case execute (\<lambda>t e. dispatch env t e True) env (tk_agent_id tk) actions tick_context st of
                             (Inl e, st1) \<Rightarrow> (Inl e, tk2, st1)
                           | (Inr _, st1) \<Rightarrow> (Inr (), tk2, st1))
                     else (Inr (), tk2, st)))"

text \<open>The synchronous path: the caller awaits the actions and executes them itself.\<close>

definition handle_event_wake :: "AgentAction list result \<Rightarrow> TickScheduler \<Rightarrow> AgentAction list result \<times> TickScheduler" where
  "handle_event_wake on_event tk = (on_event, tk\<lparr>tk_idle_count := 0\<rparr>)"

definition handle_inbound_event ::
  "dispatch_env \<Rightarrow> turn \<Rightarrow> AgentEvent \<Rightarrow> TickScheduler \<times> cascade \<Rightarrow> (turn_error + unit result) \<times> TickScheduler \<times> cascade" where
  "handle_inbound_event env on_event ev = (\<lambda>(tk, st).
     let tk1 = tk\<lparr>tk_idle_count := 0\<rparr>
     in if \<not> tk_has_executor tk1
        then (map_sum id (\<lambda>_. Inr ()) (on_event ev (cs_turns st)), tk1, st\<lparr>cs_turns := cs_turns st @ [(tk_agent_id tk1, ev)]\<rparr>)
        else let cap = (if env_dispatcher env then env_max_cascade_depth env else DEFAULT_MAX_CASCADE_DEPTH);
                 (r, st1) = process_inbound_channel_event env (tk_agent_id tk1) on_event ev cap st
             in (Inr r, tk1, st1))"


section \<open>Idle agents\<close>

definition run_ticks ::
  "dispatch_env \<Rightarrow> string \<Rightarrow> string \<Rightarrow> AgentAction list list \<Rightarrow> TickScheduler \<times> cascade \<Rightarrow> TickScheduler \<times> cascade" where
  "run_ticks env timer_id kind = fold (\<lambda>answer p. snd (handle_scheduled_wake env (Inr answer) timer_id kind p))"

lemma list_all_slice: "list_all P xs \<Longrightarrow> list_all P (slice_to n xs)"
  by (auto simp: slice_to_def list_all_iff dest: in_set_takeD)

lemma quiet_tick:
  assumes "list_all do_nothing answer" "kind \<noteq> STANDING_CONVENE_KIND"
  shows "\<exists>st'. snd (handle_scheduled_wake env (Inr answer) timer_id kind (tk, st)) =
    (if is_idle tk then tk\<lparr>tk_energy_recoveries := tk_energy_recoveries tk + 1\<rparr>
     else tk\<lparr>tk_agent_ticks := tk_agent_ticks tk + 1, tk_idle_count := tk_idle_count tk + 1\<rparr>, st')"
  using assms list_all_slice[OF assms(1)] by (auto simp: handle_scheduled_wake_def Let_def split: prod.split sum.split)

text \<open>
  An agent that keeps doing nothing is left alone: over any number of heartbeats that it answers with
  nothing, the agent is run only until its idle count reaches the threshold, whatever that is; every
  later heartbeat only recovers energy.\<close>
lemma idle_agent_left_alone:
  assumes "list_all (list_all do_nothing) answers" "kind \<noteq> STANDING_CONVENE_KIND"
  shows "(let tk' = fst (run_ticks env timer_id kind answers (tk, st));
              ran = min (length answers) (nat (tk_idle_after_ticks tk - tk_idle_count tk))
    in tk_agent_ticks tk' = tk_agent_ticks tk + ran \<and> tk_idle_count tk' = tk_idle_count tk + int ran \<and>
       tk_energy_recoveries tk' = tk_energy_recoveries tk + (length answers - ran))"
  using assms(1)
proof (induction answers arbitrary: tk st)
  case (Cons a answers)
  obtain st' where q: "snd (handle_scheduled_wake env (Inr a) timer_id kind (tk, st)) =
      (if is_idle tk then tk\<lparr>tk_energy_recoveries := tk_energy_recoveries tk + 1\<rparr>
       else tk\<lparr>tk_agent_ticks := tk_agent_ticks tk + 1, tk_idle_count := tk_idle_count tk + 1\<rparr>, st')"
    using quiet_tick[of a kind env timer_id tk st] Cons.prems assms(2) by auto
  show ?case
  proof (cases "is_idle tk")
    case True
    then show ?thesis
      using Cons.IH[of "tk\<lparr>tk_energy_recoveries := tk_energy_recoveries tk + 1\<rparr>" st'] Cons.prems q
      by (simp add: run_ticks_def Let_def is_idle_def)
  next
    case False
    then have "nat (tk_idle_after_ticks tk - tk_idle_count tk) = Suc (nat (tk_idle_after_ticks tk - (tk_idle_count tk + 1)))"
      by (simp add: is_idle_def)
    then show ?thesis
      using Cons.IH[of "tk\<lparr>tk_agent_ticks := tk_agent_ticks tk + 1, tk_idle_count := tk_idle_count tk + 1\<rparr>" st'] Cons.prems q False
      by (simp add: run_ticks_def Let_def)
  qed
qed (simp add: run_ticks_def)

definition quiet_answer :: AgentAction where "quiet_answer = \<lparr>action_type = DO_NOTHING, action_payload = PyDict []\<rparr>"

theorem idle_agent_left_alone_witness:
  "tk_agent_ticks (fst (run_ticks ping_pong ''t'' ''tick'' (replicate 5 [quiet_answer])
     (mk_TickScheduler ''a'' 60 3 2 True True None, no_cascade))) = 2"
proof -
  have "list_all (list_all do_nothing) (replicate 5 [quiet_answer])" "''tick'' \<noteq> STANDING_CONVENE_KIND" by code_simp+
  then show ?thesis
    using idle_agent_left_alone[of "replicate 5 [quiet_answer]" "''tick''" ping_pong "''t''"
        "mk_TickScheduler ''a'' 60 3 2 True True None" no_cascade]
    by (simp add: mk_TickScheduler_def Let_def)
qed


section \<open>Ticks and cascades\<close>

lemma fan_out_dropped: "cs_turns (snd (fan_out (\<lambda>_ _ st. (Inr [], st)) ev ts n st)) = cs_turns st"
  by (induction ts arbitrary: n) simp_all

lemma execute_one_dropped: "cs_turns (snd (execute_one (\<lambda>_ _ st. (Inr [], st)) env s a ctx st)) = cs_turns st"
  using fan_out_dropped
  by (auto simp: execute_one_def reading_payload_def handle_send_channel_message_def publish_end_interaction_vote_def Let_def case_prod_beta
      split: ActionType.split option.split publish_outcome.split sum.split)

lemma execute_all_dropped: "cs_turns (snd (execute_all (\<lambda>_ _ st. (Inr [], st)) env s as ctx st)) = cs_turns st"
proof (induction as arbitrary: st)
  case (Cons a as)
  then show ?case using execute_one_dropped[of env s a ctx st] by (auto split: prod.split sum.split) (metis snd_conv)+
qed simp

lemma execute_at_ceiling:
  assumes "env_max_cascade_depth env \<le> dx_cascade_depth ctx"
  shows "cs_turns (snd (execute (\<lambda>t e. dispatch env t e True) env s as ctx st)) = cs_turns st"
proof -
  have "execute (\<lambda>t e. dispatch env t e True) env s as ctx st = execute (\<lambda>_ _ st. (Inr [], st)) env s as ctx st"
    by (rule execute_cong) (use assms dispatch_dropped in auto)
  moreover obtain b where "fst (request_scopes ctx (\<lambda>a. let (rs, st1) = execute_all (\<lambda>_ _ st. (Inr [], st)) env s as ctx (st\<lparr>cs_ambient := a\<rparr>)
      in ((rs, st1), cs_ambient st1)) (cs_ambient st)) = fst (let (rs, st1) = execute_all (\<lambda>_ _ st. (Inr [], st)) env s as ctx (st\<lparr>cs_ambient := b\<rparr>)
      in ((rs, st1), cs_ambient st1))"
    using request_scopes_fst by blast
  ultimately show ?thesis unfolding execute_def by (simp add: case_prod_beta Let_def execute_all_dropped)
qed

text \<open>
  A tick cannot start a cascade: when the dispatcher's ceiling is at most the default, whatever an agent
  answers to a heartbeat starts no turn of any agent, because its actions are executed at the ceiling.\<close>
lemma tick_starts_no_turn:
  assumes "env_max_cascade_depth env \<le> 5"
  shows "cs_turns (snd (snd (handle_scheduled_wake env on_tick timer_id kind (tk, st)))) = cs_turns st"
  using execute_at_ceiling[of env tick_context] assms
  by (auto simp: handle_scheduled_wake_def tick_context_def DEFAULT_MAX_CASCADE_DEPTH_def Let_def split: sum.split prod.split) (metis snd_conv)+

theorem tick_starts_no_turn_witness:
  "cs_turns (snd (snd (handle_scheduled_wake ping_pong (Inr [mention ''b'']) ''t'' ''tick''
     (mk_TickScheduler ''a'' 60 3 2 True True None, no_cascade)))) = []"
proof -
  have "env_max_cascade_depth ping_pong \<le> 5" "cs_turns no_cascade = []" by code_simp+
  then show ?thesis
    using tick_starts_no_turn[of ping_pong "Inr [mention ''b'']" "''t''" "''tick''" "mk_TickScheduler ''a'' 60 3 2 True True None" no_cascade]
    by simp
qed

text \<open>
  With a higher configured ceiling it can: the depth of a tick is the default, not the dispatcher's
  own ceiling.
\<close>

lemma tick_cascades_above_default:
  "map fst (cs_turns (snd (snd (handle_scheduled_wake (ping_pong\<lparr>env_max_cascade_depth := 7\<rparr>) (Inr [mention ''b'']) ''t'' ''tick''
     (mk_TickScheduler ''a'' 60 3 2 True True None, no_cascade))))) = [''b'', ''a'']"
  by code_simp


section \<open>Starting\<close>

text \<open>The interval is clamped when the scheduler is made, so the legacy timer always registers.\<close>

lemma start_registers_timer:
  assumes "\<not> has_timer (tk_event_loop tk) LEGACY_TIMER_ID" "tk_interval tk \<ge> 1" "tk_register_legacy_timer tk"
    "\<not> is_running (tk_event_loop tk)"
  shows "fst (tick_start rnd tk) = Inr ()" "has_timer (tk_event_loop (snd (tick_start rnd tk))) LEGACY_TIMER_ID"
proof -
  have "\<not> has_timer (start_loop (tk_event_loop tk)) LEGACY_TIMER_ID" using assms(1) by (simp add: start_loop_def has_timer_def)
  then show "fst (tick_start rnd tk) = Inr ()" "has_timer (tk_event_loop (snd (tick_start rnd tk))) LEGACY_TIMER_ID"
    using assms by (simp_all add: tick_start_def register_timer_def arm_timer_def has_timer_def MIN_INTERVAL_def Let_def
        update_conv')
qed

lemma made_interval: "tk_interval (mk_TickScheduler a i m n x r c) \<ge> 1"
  by (simp add: mk_TickScheduler_def TICK_MIN_INTERVAL_def)

end
