(* ===== verification/Salience_Bid.thy ===== *)
theory Salience_Bid
  imports Deliberation Response_Gate
begin

text \<open>
  The bid on the open floor (\<open>src/agents/salience_bid.py\<close>, \<open>salience_addressing.py\<close>,
  \<open>persona_runtime/salience_gate.py\<close>): after the free gate admits an open-floor message of a governed
  channel, one cheap model call decides whether the persona has something to add.

  The names the six invitation patterns capture in a text are a parameter; everything the code does
  with them is modelled. The model call is a parameter that answers or fails in one of the ways the code
  tells apart. Scores and thresholds are exact decimals. Prompt text is not modelled.
\<close>


section \<open>Addressing in free text\<close>

definition NON_NAME_TOKENS :: "string list" where
  "NON_NAME_TOKENS =
     [''you'', ''u'', ''we'', ''us'', ''all'', ''everyone'', ''everybody'', ''anyone'', ''someone'', ''anybody'', ''somebody'',
      ''them'', ''they'', ''folks'', ''team'', ''people'', ''yall'', ''me'', ''i'', ''myself'', ''here'', ''there'', ''group'', ''guys'',
      ''gang'', ''crew'', ''squad'', ''others'', ''channel'', ''room'', ''chat'', ''two'', ''both'']"

definition NAME_FILLERS :: "string list" where
  "NAME_FILLERS =
     [''the'', ''a'', ''an'', ''our'', ''my'', ''your'', ''their'', ''his'', ''her'', ''its'', ''whole'', ''entire'', ''rest'', ''of'',
      ''both'', ''all'']"

definition NAME_TRAILERS :: "string list" where
  "NAME_TRAILERS =
     [''on'', ''about'', ''regarding'', ''re'', ''for'', ''this'', ''that'', ''here'', ''please'', ''think'', ''thinks'', ''say'',
      ''says'', ''too'', ''as'']"

definition PROSE_LEADERS :: "string list" where
  "PROSE_LEADERS = NON_NAME_TOKENS @
     [''and'', ''or'', ''but'', ''so'', ''then'', ''also'', ''plus'', ''if'', ''when'', ''while'', ''because'', ''the'', ''a'', ''an'',
      ''this'', ''that'', ''these'', ''those'', ''is'', ''are'', ''was'', ''were'', ''be'', ''been'', ''do'', ''does'', ''did'', ''can'',
      ''could'', ''should'', ''would'', ''will'', ''may'', ''might'', ''must'', ''shall'', ''ask'', ''tell'', ''see'', ''check'',
      ''get'', ''let'', ''lets'', ''go'', ''make'', ''take'', ''give'', ''pick'', ''use'', ''add'', ''maybe'', ''perhaps'', ''please'',
      ''just'']"

definition NAMELIKE_PROSE_WORDS :: "string list" where "NAMELIKE_PROSE_WORDS = [''will'', ''may'']"

definition NEVER_NAME_LEADERS :: "string list" where
  "NEVER_NAME_LEADERS = filter (\<lambda>w. w \<notin> set NAMELIKE_PROSE_WORDS) PROSE_LEADERS"

record NLAddressing =
  self_named :: bool
  other_named :: bool

definition name_char :: "char \<Rightarrow> bool" where
  "name_char c = (let n = of_char c :: nat in (97 \<le> n \<and> n \<le> 122) \<or> (48 \<le> n \<and> n \<le> 57))"

text \<open>\<open>re.findall("[a-z0-9]+", text.lower())\<close>\<close>

fun name_runs :: "string \<Rightarrow> string \<Rightarrow> string list" where
  "name_runs w [] = (if w = [] then [] else [w])"
| "name_runs w (c # cs) =
     (if name_char c then name_runs (w @ [c]) cs else (if w = [] then [] else [w]) @ name_runs [] cs)"

definition name_tokens :: "string \<Rightarrow> string list" where "name_tokens text = remdups (name_runs [] (py_lower text))"

definition strip_chars :: "string \<Rightarrow> string \<Rightarrow> string" where
  "strip_chars cs s = rev (dropWhile (\<lambda>c. c \<in> set cs) (rev (dropWhile (\<lambda>c. c \<in> set cs) s)))"

definition clean_name :: "string \<Rightarrow> string" where
  "clean_name captured =
     join '' '' (rev (dropWhile (\<lambda>w. strip_chars ''.,!?;:'' (py_lower w) \<in> set NAME_TRAILERS) (rev (py_split captured))))"

definition is_upper :: "char \<Rightarrow> bool" where
  "is_upper c = (let n = of_char c :: nat in (65 \<le> n \<and> n \<le> 90) \<or> (192 \<le> n \<and> n \<le> 222 \<and> n \<noteq> 215))"

definition leads_upper :: "string \<Rightarrow> bool" where
  "leads_upper w = (case w of [] \<Rightarrow> False | c # _ \<Rightarrow> is_upper c)"

definition STRIP_QUOTED :: string where "STRIP_QUOTED = ''.,!?;:'' @ [CHR 39, CHR 34]"

definition has_proper_name_capital :: "string \<Rightarrow> bool" where
  "has_proper_name_capital candidate =
     (case dropWhile (\<lambda>w. strip_chars STRIP_QUOTED (py_lower w) \<in> set NAME_FILLERS) (py_split candidate) of
        [] \<Rightarrow> False | w # _ \<Rightarrow> leads_upper w)"

text \<open>A separator of a list of names at the front of a text: comma, \<open>and\<close>, \<open>or\<close>, ampersand, plus.\<close>

definition around :: "char \<Rightarrow> string \<Rightarrow> nat option" where
  "around c s =
     (case skip_space s of [] \<Rightarrow> None | d # r \<Rightarrow> if d = c then Some (length s - length (skip_space r)) else None)"

definition spaced :: "string \<Rightarrow> string \<Rightarrow> nat option" where
  "spaced w s =
     (let r = skip_space s; t = drop (length w) r; u = skip_space t
      in if length r < length s \<and> ci_prefix w r \<and> length u < length t then Some (length s - length u) else None)"

definition list_separator :: "string \<Rightarrow> nat option" where
  "list_separator s =
     (case around (CHR '','') s of Some n \<Rightarrow> Some n
      | None \<Rightarrow> (case spaced ''and'' s of Some n \<Rightarrow> Some n
      | None \<Rightarrow> (case spaced ''or'' s of Some n \<Rightarrow> Some n
      | None \<Rightarrow> (case around (CHR ''&'') s of Some n \<Rightarrow> Some n
      | None \<Rightarrow> around (CHR ''+'') s))))"

fun keep_names :: "string list \<Rightarrow> string list" where
  "keep_names [] = []"
| "keep_names (part # parts) =
     (let stripped = py_strip part
      in if stripped = [] then []
         else let first_tok = strip_chars STRIP_QUOTED (py_lower (hd (py_split stripped)))
              in if first_tok \<in> set NEVER_NAME_LEADERS then []
                 else if leads_upper stripped \<or> first_tok \<notin> set PROSE_LEADERS then stripped # keep_names parts
                 else [])"

definition split_names :: "string \<Rightarrow> string list" where
  "split_names captured = (case re_split list_separator captured of [] \<Rightarrow> [] | p # ps \<Rightarrow> p # keep_names ps)"

text \<open>One capture: the flags so far, whether it is the first of its list, whether a name anchored the list.\<close>

fun judge_names :: "string list \<Rightarrow> string list \<Rightarrow> bool \<Rightarrow> bool \<Rightarrow> NLAddressing \<Rightarrow> NLAddressing" where
  "judge_names persona [] first seen acc = acc"
| "judge_names persona (cand # cands) first seen acc =
     (let core = filter (\<lambda>t. t \<notin> set NAME_FILLERS) (name_tokens (clean_name cand))
      in if core = [] \<or> set core \<subseteq> set NON_NAME_TOKENS then judge_names persona cands False seen acc
         else if set persona \<subseteq> set core \<or> set core \<subseteq> set persona
           then judge_names persona cands False True (acc\<lparr>self_named := True\<rparr>)
         else if has_proper_name_capital cand \<and> (first \<or> seen)
           then judge_names persona cands False True (acc\<lparr>other_named := True\<rparr>)
         else judge_names persona cands False seen acc)"

definition detect_nl_addressing :: "(string \<Rightarrow> string list) \<Rightarrow> string \<Rightarrow> string \<Rightarrow> NLAddressing" where
  "detect_nl_addressing captures content persona_name =
     (let none = \<lparr>self_named = False, other_named = False\<rparr>; persona = name_tokens persona_name
      in if content = [] \<or> persona_name = [] \<or> persona = [] then none
         else fold (\<lambda>cap acc. judge_names persona (split_names cap) True False acc) (captures content) none)"


section \<open>The bid\<close>

definition DECISIVE_SCORE :: rat where "DECISIVE_SCORE = 8 / 10"
definition ADDRESSED_SELF_BONUS :: rat where "ADDRESSED_SELF_BONUS = 2 / 10"
definition ADDRESSED_OTHER_PENALTY :: rat where "ADDRESSED_OTHER_PENALTY = 2 / 10"
definition ADDRESSED_OTHER_CEILING :: rat where "ADDRESSED_OTHER_CEILING = 9 / 10"
definition DEFAULT_SALIENCE_MAX_CHANNEL_MEMBERS :: int where "DEFAULT_SALIENCE_MAX_CHANNEL_MEMBERS = 20"

record SalienceDecision =
  sd_speak :: bool
  sd_score :: "rat option"
  sd_reason :: string
  sd_reason_note :: "string option"

definition skip_bid_for_channel_size :: "int option \<Rightarrow> int \<Rightarrow> bool" where
  "skip_bid_for_channel_size channel_size max_members =
     (if max_members \<le> 0 then False
      else case channel_size of None \<Rightarrow> False | Some n \<Rightarrow> if n \<le> 0 then False else n > max_members)"

text \<open>\<open>round(x, 6)\<close>: to the nearest multiple, an even one on a tie.\<close>

definition round6 :: "rat \<Rightarrow> rat" where
  "round6 x =
     (let y = x * 1000000; f = \<lfloor>y\<rfloor>; d = y - of_int f
      in of_int (if d < 1 / 2 \<or> (d = 1 / 2 \<and> even f) then f else f + 1) / 1000000)"

definition bar_for :: "rat option \<Rightarrow> NLAddressing \<Rightarrow> rat" where
  "bar_for threshold addressing =
     (let base = (case threshold of None \<Rightarrow> DECISIVE_SCORE | Some t \<Rightarrow> t);
          bar = (if self_named addressing then base - ADDRESSED_SELF_BONUS
                 else if other_named addressing then min (base + ADDRESSED_OTHER_PENALTY) (max ADDRESSED_OTHER_CEILING base)
                 else base)
      in round6 (max 0 (min 1 bar)))"

definition digits_value :: "string \<Rightarrow> rat" where
  "digits_value ds = of_nat (fold (\<lambda>c n. 10 * n + (of_char c - 48)) ds 0) / 10 ^ length ds"

text \<open>\<open>([01](?:\.\d+)?|0?\.\d+)(?!\d)\<close>\<close>

definition fraction :: "string \<Rightarrow> (rat \<times> string) option" where
  "fraction s =
     (case s of
        [] \<Rightarrow> None
      | c # r \<Rightarrow>
          (let ds = takeWhile is_digit r
           in if c = CHR ''.'' \<and> ds \<noteq> [] then Some (digits_value ds, dropWhile is_digit r) else None))"

definition no_digit :: "string \<Rightarrow> bool" where
  "no_digit s = (case s of [] \<Rightarrow> True | c # _ \<Rightarrow> \<not> is_digit c)"

definition score_number :: "string \<Rightarrow> rat option" where
  "score_number s =
     (case s of
        [] \<Rightarrow> None
      | c # r \<Rightarrow>
          if c = CHR ''0'' \<or> c = CHR ''1'' then
            (let w = (if c = CHR ''1'' then 1 else 0)
             in case fraction r of
                  Some (f, _) \<Rightarrow> Some (w + f)
                | None \<Rightarrow> if no_digit r then Some w else None)
          else (case fraction s of Some (f, _) \<Rightarrow> Some f | None \<Rightarrow> None))"

definition parse_score :: "string option \<Rightarrow> rat option" where
  "parse_score text =
     (case re_search (\<lambda>s. case after_label ''score'' s of None \<Rightarrow> None | Some r \<Rightarrow> score_number r) (or_str text []) of
        None \<Rightarrow> None
      | Some v \<Rightarrow> Some (max 0 (min 1 v)))"

definition parse_speak :: "string option \<Rightarrow> bool option" where
  "parse_speak text =
     re_search (\<lambda>s. case after_label ''speak'' s of None \<Rightarrow> None | Some r \<Rightarrow> yes_or_no False r) (or_str text [])"

text \<open>What the leased call comes back with.\<close>

datatype bid_answer =
    Alias_unresolvable
  | Lease_denied
  | Rpc_exhausted
  | Rpc_failed
  | Provider_failed
  | Bid_text "string option"

definition silent :: "string \<Rightarrow> SalienceDecision" where
  "silent reason = \<lparr>sd_speak = False, sd_score = None, sd_reason = reason, sd_reason_note = None\<rparr>"

text \<open>The decision, the raw texts surfaced for the plan, and the modes counted as parse failures.\<close>

definition evaluate_salience ::
  "bid_answer \<Rightarrow> NLAddressing \<Rightarrow> rat option \<Rightarrow> string \<Rightarrow> SalienceDecision \<times> string list \<times> string list" where
  "evaluate_salience answer addressing threshold mode =
     (case answer of
        Alias_unresolvable \<Rightarrow> (silent ''model_unresolvable'', [], [])
      | Lease_denied \<Rightarrow> (silent ''lease_denied'', [], [])
      | Rpc_exhausted \<Rightarrow> (silent ''lease_denied'', [], [])
      | Rpc_failed \<Rightarrow> (silent ''llm_error'', [], [])
      | Provider_failed \<Rightarrow> (silent ''llm_error'', [], [])
      | Bid_text text \<Rightarrow>
          if is_structured mode then
            (let ((speak, code, note), failures) = parse_verdict text mode
             in (\<lparr>sd_speak = speak, sd_score = None, sd_reason = code, sd_reason_note = note\<rparr>, [or_str text []], failures))
          else
            (case parse_score text of
               None \<Rightarrow> (silent ''parse_failure'', [], [])
             | Some score \<Rightarrow>
                 (if score < bar_for threshold addressing
                  then (\<lparr>sd_speak = False, sd_score = Some score, sd_reason = ''below_threshold'', sd_reason_note = None\<rparr>, [], [])
                  else if parse_speak text = Some False
                  then (\<lparr>sd_speak = False, sd_score = Some score, sd_reason = ''declined'', sd_reason_note = None\<rparr>, [], [])
                  else (\<lparr>sd_speak = True, sd_score = Some score, sd_reason = ''salient'', sd_reason_note = None\<rparr>, [], []))))"


section \<open>The seam in the action loop\<close>

definition MAX_REVISE_ROUNDS :: int where "MAX_REVISE_ROUNDS = 2"

record SalienceOutcome =
  so_silence :: bool
  so_user_message :: "string option"
  so_seed :: "pydict list option"
  so_plan :: "CompositionPlan option"
  so_revise :: int

text \<open>
  What the seam asks of the agent, each of which may raise, and what it leaves behind: counters, audit
  records, debug notes, stored events, and how often the model was called.
\<close>

record seam_env =
  se_agent_name :: string
  se_captures :: "string \<Rightarrow> string list"
  se_format_event :: "AgentEvent \<Rightarrow> string result"
  se_build_seed :: "AgentEvent \<Rightarrow> string \<Rightarrow> pydict list result"
  se_store_episode :: "AgentEvent \<Rightarrow> unit result"
  se_answer :: bid_answer

record seam_log =
  sl_skipped :: "string list"
  sl_gated :: "string list"
  sl_audit :: "(bool \<times> string \<times> int) list"
  sl_deliberations :: "(string \<times> string \<times> bool) list"
  sl_notes :: "(string \<times> string) list"
  sl_parse_failures :: "string list"
  sl_stored :: "AgentEvent list"
  sl_bids :: nat
  sl_warned :: "string list"

definition governed :: "AgentEvent \<Rightarrow> bool" where
  "governed ev = truthy (py_get (payload ev) ''salience_gated'')"

definition threshold_of :: "AgentEvent \<Rightarrow> rat option" where
  "threshold_of ev =
     (case py_get (payload ev) ''threshold'' of
        PyInt i \<Rightarrow> if 0 \<le> i \<and> i \<le> 1 then Some (of_int i) else None
      | PyFloat (Fin r) \<Rightarrow> if 0 \<le> r \<and> r \<le> 1 then Some r else None
      | _ \<Rightarrow> None)"

definition channel_size_of :: "AgentEvent \<Rightarrow> int option" where
  "channel_size_of ev = (case py_get (payload ev) ''channel_size'' of PyInt i \<Rightarrow> Some i | _ \<Rightarrow> None)"

definition max_members_of :: "AgentEvent \<Rightarrow> int" where
  "max_members_of ev =
     (case py_get (payload ev) ''salience_max_channel_members'' of PyInt i \<Rightarrow> i | _ \<Rightarrow> DEFAULT_SALIENCE_MAX_CHANNEL_MEMBERS)"

definition reasoning_mode_of :: "AgentEvent \<Rightarrow> string list \<Rightarrow> string \<times> string list" where
  "reasoning_mode_of ev warned =
     (case py_get (payload ev) ''reasoning_mode'' of
        PyStr raw \<Rightarrow>
          if raw = [] then (MODE_OFF, warned)
          else if is_known_mode raw then (raw, warned)
          else (MODE_OFF, snd (warn_if_unknown_mode raw warned))
      | _ \<Rightarrow> (MODE_OFF, warned))"

definition reasoning_revise_of :: "AgentEvent \<Rightarrow> int" where
  "reasoning_revise_of ev =
     (case py_get (payload ev) ''reasoning_revise'' of
        PyInt raw \<Rightarrow> if raw \<le> 0 then 0 else min raw MAX_REVISE_ROUNDS
      | _ \<Rightarrow> 0)"

definition silence_outcome :: SalienceOutcome where
  "silence_outcome = \<lparr>so_silence = True, so_user_message = None, so_seed = None, so_plan = None, so_revise = 0\<rparr>"

text \<open>A suppressed message is still remembered.\<close>

definition store_and_stay_silent :: "seam_env \<Rightarrow> AgentEvent \<Rightarrow> seam_log \<Rightarrow> SalienceOutcome option result \<times> seam_log" where
  "store_and_stay_silent se ev l =
     (case se_store_episode se ev of
        Inl e \<Rightarrow> (Inl e, l)
      | Inr _ \<Rightarrow> (Inr (Some silence_outcome), l\<lparr>sl_stored := sl_stored l @ [ev]\<rparr>))"

text \<open>The content of the payload must be a string, or falsy, for the addressing scan.\<close>

definition scan_addressing :: "seam_env \<Rightarrow> AgentEvent \<Rightarrow> NLAddressing result" where
  "scan_addressing se ev =
     (case py_get_or (payload ev) ''content'' (PyStr []) of
        PyStr content \<Rightarrow> Inr (detect_nl_addressing (se_captures se) content (se_agent_name se))
      | v \<Rightarrow> if truthy v \<and> se_agent_name se \<noteq> [] then Inl AttributeError
             else Inr \<lparr>self_named = False, other_named = False\<rparr>)"

definition after_bid ::
  "seam_env \<Rightarrow> AgentEvent \<Rightarrow> string \<Rightarrow> string \<Rightarrow> pydict list \<Rightarrow> SalienceDecision \<times> string list \<times> string list \<Rightarrow> seam_log \<Rightarrow>
     SalienceOutcome option result \<times> seam_log" where
  "after_bid se ev mode user_message seed bid l =
     (let (d, texts, failures) = bid;
          l1 = l\<lparr>sl_parse_failures := sl_parse_failures l @ failures\<rparr>;
          l2 = (if is_structured mode
                then l1\<lparr>sl_audit := sl_audit l1 @ [(sd_speak d, sd_reason d, max 0 (int (length seed) - 1))],
                        sl_deliberations := sl_deliberations l1 @ [(mode, sd_reason d, sd_speak d)]\<rparr>
                else l1)
      in if \<not> sd_speak d then
           (let l3 = l2\<lparr>sl_gated := sl_gated l2 @ [sd_reason d]\<rparr>;
                l4 = (case sd_reason_note d of
                        Some note \<Rightarrow> if is_structured mode then l3\<lparr>sl_notes := sl_notes l3 @ [(sd_reason d, note)]\<rparr> else l3
                      | None \<Rightarrow> l3)
            in store_and_stay_silent se ev l4)
         else
           (let plan = (if mode = MODE_PLAN then (case texts of t # _ \<Rightarrow> parse_plan (Some t) | [] \<Rightarrow> None) else None)
            in (Inr (Some \<lparr>so_silence = False, so_user_message = Some user_message, so_seed = Some seed, so_plan = plan,
                           so_revise = (if plan \<noteq> None then reasoning_revise_of ev else 0)\<rparr>), l2)))"

definition run_salience_gate ::
  "seam_env \<Rightarrow> AgentEvent \<Rightarrow> GateDecision \<Rightarrow> string option \<Rightarrow> seam_log \<Rightarrow> SalienceOutcome option result \<times> seam_log" where
  "run_salience_gate se ev decision mode_arg l =
     (if \<not> (is_open_floor_admit decision \<and> governed ev) then (Inr None, l)
      else let (mode, warned) = (case mode_arg of Some m \<Rightarrow> (m, sl_warned l) | None \<Rightarrow> reasoning_mode_of ev (sl_warned l));
               l0 = l\<lparr>sl_warned := warned\<rparr>
           in if skip_bid_for_channel_size (channel_size_of ev) (max_members_of ev)
              then store_and_stay_silent se ev (l0\<lparr>sl_skipped := sl_skipped l0 @ [''channel_too_large'']\<rparr>)
              else (case se_format_event se ev of
                      Inl e \<Rightarrow> (Inl e, l0)
                    | Inr user_message \<Rightarrow>
                        (case se_build_seed se ev user_message of
                           Inl e \<Rightarrow> (Inl e, l0)
                         | Inr seed \<Rightarrow>
                             (let l1 = l0\<lparr>sl_warned := snd (warn_if_unknown_mode mode (sl_warned l0))\<rparr>
                              in if se_answer se = Alias_unresolvable
                                 then after_bid se ev mode user_message seed
                                        (evaluate_salience Alias_unresolvable \<lparr>self_named = False, other_named = False\<rparr>
                                           (threshold_of ev) mode) l1
                                 else case scan_addressing se ev of
                                        Inl e \<Rightarrow> (Inl e, l1)
                                      | Inr addressing \<Rightarrow>
                                          after_bid se ev mode user_message seed
                                            (evaluate_salience (se_answer se) addressing (threshold_of ev) mode)
                                            (l1\<lparr>sl_bids := sl_bids l1 + 1\<rparr>)))))"


section \<open>Properties\<close>

lemma round6_mono: "x \<le> y \<Longrightarrow> round6 x \<le> round6 y"
proof -
  assume xy: "x \<le> y"
  let ?r = "\<lambda>z :: rat. if z - of_int \<lfloor>z\<rfloor> < 1 / 2 \<or> (z - of_int \<lfloor>z\<rfloor> = 1 / 2 \<and> even \<lfloor>z\<rfloor>) then \<lfloor>z\<rfloor> else \<lfloor>z\<rfloor> + 1"
  have "?r a \<le> ?r b" if "a \<le> b" for a b :: rat
  proof (cases "\<lfloor>a\<rfloor> = \<lfloor>b\<rfloor>")
    case True
    then show ?thesis using that by auto
  next
    case False
    then have "\<lfloor>a\<rfloor> + 1 \<le> \<lfloor>b\<rfloor>" using floor_mono[OF that] by linarith
    then show ?thesis by auto
  qed
  from this[of "x * 1000000" "y * 1000000"] xy show ?thesis by (simp add: round6_def Let_def divide_right_mono)
qed

lemma round6_fixed: "round6 0 = 0" "round6 1 = 1" "round6 (9 / 10) = 9 / 10"
  by (code_simp)+

lemma bar_for_eq:
  "bar_for t x =
     (let base = (case t of None \<Rightarrow> 8 / 10 | Some v \<Rightarrow> v)
      in round6 (max 0 (min 1 (if self_named x then base - 2 / 10
        else if other_named x then min (base + 2 / 10) (max (9 / 10) base) else base))))"
  by (cases t) (simp_all add: bar_for_def DECISIVE_SCORE_def ADDRESSED_SELF_BONUS_def ADDRESSED_OTHER_PENALTY_def
      ADDRESSED_OTHER_CEILING_def Let_def)

text \<open>
  Addressing in free text is a bias on the bar and never a decision: the bar stays between 0 and 1; being
  invited never raises it, another's invitation never lowers it; and another's invitation lifts it at
  most to the (rounded) larger of 0.9 and the configured threshold, so a score of 0.9 against an unset
  threshold speaks in every case.\<close>
lemma addressing_is_a_bias:
  "0 \<le> bar_for t a \<and> bar_for t a \<le> 1 \<and>
   bar_for t \<lparr>self_named = True, other_named = b\<rparr> \<le> bar_for t \<lparr>self_named = False, other_named = False\<rparr> \<and>
   bar_for t \<lparr>self_named = False, other_named = False\<rparr> \<le> bar_for t \<lparr>self_named = False, other_named = True\<rparr> \<and>
   bar_for t a \<le> round6 (max (9 / 10) (case t of None \<Rightarrow> 8 / 10 | Some v \<Rightarrow> max 0 v)) \<and>
   bar_for None a \<le> 9 / 10"
proof -
  have clamp: "0 \<le> round6 (max 0 (min 1 z))" "round6 (max 0 (min 1 z)) \<le> 1" for z :: rat
    using round6_mono[of 0 "max 0 (min 1 z)"] round6_mono[of "max 0 (min 1 z)" 1] round6_fixed by auto
  have mono: "y \<le> z \<Longrightarrow> round6 (max 0 (min 1 y)) \<le> round6 (max 0 (min 1 z))" for y z :: rat
    by (rule round6_mono) auto
  have top: "z \<le> w \<Longrightarrow> 0 \<le> w \<Longrightarrow> round6 (max 0 (min 1 z)) \<le> round6 w" for z w :: rat
    by (rule round6_mono) auto
  have range: "0 \<le> bar_for t a" "bar_for t a \<le> 1" unfolding bar_for_eq Let_def by (rule clamp)+
  have self: "bar_for t \<lparr>self_named = True, other_named = b\<rparr> \<le> bar_for t \<lparr>self_named = False, other_named = False\<rparr>"
    unfolding bar_for_eq Let_def by (rule mono) simp
  have other: "bar_for t \<lparr>self_named = False, other_named = False\<rparr> \<le> bar_for t \<lparr>self_named = False, other_named = True\<rparr>"
    unfolding bar_for_eq Let_def by (rule mono) simp
  have "bar_for t a \<le> round6 (max (9 / 10) (case t of None \<Rightarrow> 8 / 10 | Some v \<Rightarrow> max 0 v))"
    unfolding bar_for_eq Let_def by (rule top; cases t) auto
  moreover have "bar_for None a \<le> round6 (9 / 10)" unfolding bar_for_eq Let_def by (rule top) auto
  then have "bar_for None a \<le> 9 / 10" by (simp only: round6_fixed)
  ultimately show ?thesis using range self other by blast
qed

text \<open>
  A bid speaks only on a clear yes: exactly when the leased call came back with text and, in the structured
  modes, that text says a whole-word yes with no silence code, or in the scalar mode it has a score at
  or above the bar and no explicit no. Every other outcome is silence: an unresolvable model, a denied
  lease, an error, an answer without a verdict.\<close>
lemma bid_speaks_iff:
  "sd_speak (fst (evaluate_salience answer addressing threshold mode)) \<longleftrightarrow>
     (\<exists>text. answer = Bid_text text \<and>
        (if is_structured mode
         then parse_should_post (or_str text []) = Some True \<and> resolve_reason_code (or_str text []) True \<notin> set SILENCE_CODES
         else \<exists>score. parse_score text = Some score \<and> bar_for threshold addressing \<le> score \<and> parse_speak text \<noteq> Some False))"
proof (cases answer)
  case (Bid_text raw)
  have code: "resolve_reason_code t True = REASON_ADDS_SUBSTANCE \<longleftrightarrow> resolve_reason_code t True \<notin> set SILENCE_CODES" for t
    using resolve_code_cases(1)[of t] adds_no_silence by auto
  show ?thesis
  proof (cases "is_structured mode")
    case True
    then have e: "sd_speak (fst (evaluate_salience answer addressing threshold mode)) = fst (fst (parse_verdict raw mode))"
      by (simp add: Bid_text evaluate_salience_def case_prod_beta Let_def)
    show ?thesis
    proof (cases "parse_should_post (or_str raw [])")
      case (Some b)
      then show ?thesis unfolding e by (cases b) (simp_all add: True Bid_text parse_verdict_def Let_def code)
    qed (unfold e, simp add: True Bid_text parse_verdict_def Let_def)
  next
    case False
    then show ?thesis
      by (cases "parse_score raw") (simp_all add: Bid_text evaluate_salience_def silent_def not_less)
  qed
qed (simp_all add: evaluate_salience_def silent_def)

text \<open>Without a capital at the front of a captured name nobody is biased toward silence.\<close>

lemma judge_names_lowercase:
  "(\<And>n. n \<in> set names \<Longrightarrow> \<not> has_proper_name_capital n) \<Longrightarrow>
     other_named (judge_names persona names first seen acc) = other_named acc"
  by (induction names arbitrary: first seen acc) (simp_all add: Let_def)

lemma lowercase_suppresses_no_one:
  assumes "\<And>cap n. cap \<in> set (captures content) \<Longrightarrow> n \<in> set (split_names cap) \<Longrightarrow> \<not> has_proper_name_capital n"
  shows "\<not> other_named (detect_nl_addressing captures content persona)"
proof -
  have "other_named (fold (\<lambda>cap acc. judge_names p (split_names cap) True False acc) caps acc) = other_named acc"
    if "set caps \<subseteq> set (captures content)" for p caps acc
    using that
  proof (induction caps arbitrary: acc)
    case (Cons cap caps)
    then have "other_named (judge_names p (split_names cap) True False acc) = other_named acc"
      using assms[of cap] by (intro judge_names_lowercase) auto
    then show ?case using Cons by simp
  qed simp
  then show ?thesis by (simp add: detect_nl_addressing_def Let_def)
qed

text \<open>What one run of the seam may do, in terms of its outcome and of the log before and after.\<close>

definition seam_ok :: "AgentEvent \<Rightarrow> SalienceOutcome option result \<Rightarrow> seam_log \<Rightarrow> seam_log \<Rightarrow> bool" where
  "seam_ok ev res l l' \<longleftrightarrow>
     (case res of
        Inl _ \<Rightarrow> sl_stored l' = sl_stored l
      | Inr None \<Rightarrow> l' = l
      | Inr (Some out) \<Rightarrow>
          if so_silence out
          then out = silence_outcome \<and> sl_stored l' = sl_stored l @ [ev] \<and>
            length (sl_skipped l') + length (sl_gated l') = length (sl_skipped l) + length (sl_gated l) + 1
          else sl_stored l' = sl_stored l \<and> sl_gated l' = sl_gated l \<and> sl_skipped l' = sl_skipped l \<and> sl_notes l' = sl_notes l \<and>
            0 \<le> so_revise out \<and> so_revise out \<le> 2 \<and> (so_revise out > 0 \<longrightarrow> so_plan out \<noteq> None)) \<and>
     length (sl_audit l') \<le> length (sl_audit l) + 1 \<and> sl_bids l' \<le> sl_bids l + 1"

lemma revise_bounded: "0 \<le> reasoning_revise_of ev \<and> reasoning_revise_of ev \<le> 2"
  by (simp add: reasoning_revise_of_def MAX_REVISE_ROUNDS_def split: pyval.split)

lemma store_seam:
  assumes "sl_stored l1 = sl_stored l" "length (sl_skipped l1) + length (sl_gated l1) = length (sl_skipped l) + length (sl_gated l) + 1"
    and "length (sl_audit l1) \<le> length (sl_audit l) + 1" "sl_bids l1 \<le> sl_bids l + 1"
  shows "seam_ok ev (fst (store_and_stay_silent se ev l1)) l (snd (store_and_stay_silent se ev l1))"
  using assms by (cases "se_store_episode se ev") (simp_all add: store_and_stay_silent_def seam_ok_def silence_outcome_def)

lemma after_bid_seam:
  assumes "sl_stored l1 = sl_stored l" "sl_skipped l1 = sl_skipped l" "sl_gated l1 = sl_gated l" "sl_notes l1 = sl_notes l"
    "sl_audit l1 = sl_audit l" "sl_bids l1 \<le> sl_bids l + 1"
  shows "seam_ok ev (fst (after_bid se ev mode msg seed bid l1)) l (snd (after_bid se ev mode msg seed bid l1))"
proof -
  obtain d texts failures where bid: "bid = (d, texts, failures)" by (cases bid)
  show ?thesis
  proof (cases "sd_speak d")
    case True
    then show ?thesis using assms revise_bounded[of ev] by (simp add: bid after_bid_def Let_def seam_ok_def)
  next
    case False
    then show ?thesis unfolding bid after_bid_def Let_def prod.case
      by (simp only: False not_False_eq_True if_True) (rule store_seam, use assms in \<open>simp_all split: option.split\<close>)
  qed
qed

lemma decided: "fst (store_and_stay_silent se ev l) \<noteq> Inr None" "fst (after_bid se ev mode msg seed bid l) \<noteq> Inr None"
proof -
  show st: "fst (store_and_stay_silent se ev l) \<noteq> Inr None" for l by (simp add: store_and_stay_silent_def split: sum.split)
  show "fst (after_bid se ev mode msg seed bid l) \<noteq> Inr None" by (simp add: after_bid_def Let_def case_prod_beta st)
qed

lemma seam_fails: "sl_stored l' = sl_stored l \<Longrightarrow> sl_audit l' = sl_audit l \<Longrightarrow> sl_bids l' = sl_bids l \<Longrightarrow> seam_ok ev (Inl e) l l'"
  by (simp add: seam_ok_def)

text \<open>
  The seam remembers what it suppresses and leaves alone what it does not govern: an event that is no
  open-floor admit of a governed channel passes through with no effect at all; a suppressed event is stored
  exactly once and counted exactly once; an admitted one stores and counts nothing, and is revised at
  most twice and only under a plan; the model is called at most once, and not for an oversized channel;
  a failure of the agent's own parts stores nothing.\<close>
lemma seam_accounts:
  "(let (res, l') = run_salience_gate se ev decision mode l
    in seam_ok ev res l l' \<and>
       (res = Inr None \<longleftrightarrow> \<not> (is_open_floor_admit decision \<and> governed ev)) \<and>
       (skip_bid_for_channel_size (channel_size_of ev) (max_members_of ev) \<longrightarrow> sl_bids l' = sl_bids l))"
proof (cases "is_open_floor_admit decision \<and> governed ev")
  case False
  then show ?thesis by (simp add: run_salience_gate_def seam_ok_def)
next
  case True
  obtain m warned where m: "(case mode of Some m \<Rightarrow> (m, sl_warned l) | None \<Rightarrow> reasoning_mode_of ev (sl_warned l)) = (m, warned)"
    by (cases "case mode of Some m \<Rightarrow> (m, sl_warned l) | None \<Rightarrow> reasoning_mode_of ev (sl_warned l)")
  let ?l0 = "l\<lparr>sl_warned := warned\<rparr>"
  show ?thesis
  proof (cases "skip_bid_for_channel_size (channel_size_of ev) (max_members_of ev)")
    case skip: True
    let ?l1 = "?l0\<lparr>sl_skipped := sl_skipped ?l0 @ [''channel_too_large'']\<rparr>"
    have run: "run_salience_gate se ev decision mode l = store_and_stay_silent se ev ?l1"
      unfolding run_salience_gate_def using True skip by (simp add: m)
    have "seam_ok ev (fst (store_and_stay_silent se ev ?l1)) l (snd (store_and_stay_silent se ev ?l1))" by (rule store_seam) simp_all
    moreover have "sl_bids (snd (store_and_stay_silent se ev ?l1)) = sl_bids l"
      by (simp add: store_and_stay_silent_def split: sum.split)
    ultimately show ?thesis using True decided(1)[of se ev ?l1] unfolding run by (simp add: case_prod_beta)
  next
    case noskip: False
    have run: "seam_ok ev (fst (run_salience_gate se ev decision mode l)) l (snd (run_salience_gate se ev decision mode l)) \<and>
        fst (run_salience_gate se ev decision mode l) \<noteq> Inr None"
      unfolding run_salience_gate_def m using True noskip
      by (simp add: Let_def seam_fails decided after_bid_seam split: sum.split)
    then show ?thesis using True noskip by (simp add: case_prod_beta)
  qed
qed

definition governed_event :: AgentEvent where
  "governed_event = \<lparr>event_type = CHANNEL_MESSAGE, payload = [(''salience_gated'', PyBool True), (''content'', PyStr ''hi'')],
     channel_id = Some ''group:x'', sender_id = Some ''u'', message_id = None, thread_id = None, timestamp = 0, metadata = []\<rparr>"

definition silent_seam :: seam_env where
  "silent_seam = \<lparr>se_agent_name = ''Fox'', se_captures = (\<lambda>_. []), se_format_event = (\<lambda>_. Inr ''hi''),
     se_build_seed = (\<lambda>_ _. Inr []), se_store_episode = (\<lambda>_. Inr ()), se_answer = Bid_text (Some ''score: 10'')\<rparr>"

definition empty_seam_log :: seam_log where
  "empty_seam_log = \<lparr>sl_skipped = [], sl_gated = [], sl_audit = [], sl_deliberations = [], sl_notes = [], sl_parse_failures = [],
     sl_stored = [], sl_bids = 0, sl_warned = []\<rparr>"

theorem seam_accounts_witness:
  "sl_stored (snd (run_salience_gate silent_seam governed_event (gate_decision True POLICY_ALWAYS ''policy_always'') None
     empty_seam_log)) = [governed_event]"
proof -
  let ?run = "run_salience_gate silent_seam governed_event (gate_decision True POLICY_ALWAYS ''policy_always'') None empty_seam_log"
  have "fst ?run = Inr (Some silence_outcome)" by code_simp
  then have "sl_stored (snd ?run) = sl_stored empty_seam_log @ [governed_event]"
    using seam_accounts[of silent_seam governed_event "gate_decision True POLICY_ALWAYS ''policy_always''" None empty_seam_log]
    by (simp add: case_prod_beta Let_def seam_ok_def silence_outcome_def)
  then show ?thesis by (simp add: empty_seam_log_def)
qed

end
