(* ===== verification/Scope_Filters.thy ===== *)
theory Scope_Filters
  imports Scope_Ids
begin

text \<open>
  The predicates every memory tier reads with: \<open>src/agents/memory/_session_filter.py\<close>,
  \<open>_principal_filter.py\<close> and \<open>_epoch_filter.py\<close>, and the write shims of \<open>_salience.py\<close>.

  A helper of the source builds a piece of a \<open>WHERE\<close> clause and the list of its parameters. Here a piece is a list
  of conditions, each on one column, with the number of placeholders it has; \<open>sql_holds\<close> reads a row
  under it, taking the parameters from left to right, and is \<open>None\<close> when a placeholder has no
  parameter or a parameter has no placeholder.
\<close>


section \<open>Conditions with placeholders\<close>

datatype sql_cond =
    Col_Eq string
  | Col_In string nat
  | Col_Lit string string

type_synonym sql_clause = "sql_cond list \<times> string list"

fun cond_arity :: "sql_cond \<Rightarrow> nat" where
  "cond_arity (Col_Eq c) = 1"
| "cond_arity (Col_In c n) = n"
| "cond_arity (Col_Lit c v) = 0"

fun cond_holds :: "(string \<Rightarrow> string) \<Rightarrow> sql_cond \<Rightarrow> string list \<Rightarrow> bool" where
  "cond_holds row (Col_Eq c) ps = (row c \<in> set ps)"
| "cond_holds row (Col_In c n) ps = (row c \<in> set ps)"
| "cond_holds row (Col_Lit c v) ps = (row c = v)"

fun sql_holds :: "(string \<Rightarrow> string) \<Rightarrow> sql_cond list \<Rightarrow> string list \<Rightarrow> bool option" where
  "sql_holds row [] ps = (if ps = [] then Some True else None)"
| "sql_holds row (c # cs) ps =
     (if length ps < cond_arity c then None
      else map_option (\<lambda>b. cond_holds row c (take (cond_arity c) ps) \<and> b)
             (sql_holds row cs (drop (cond_arity c) ps)))"

definition clause_holds :: "(string \<Rightarrow> string) \<Rightarrow> sql_clause \<Rightarrow> bool option" where
  "clause_holds row cl = sql_holds row (fst cl) (snd cl)"

definition clause_and :: "sql_clause \<Rightarrow> sql_clause \<Rightarrow> sql_clause" where
  "clause_and a b = (fst a @ fst b, snd a @ snd b)"

lemma sql_holds_append:
  "sql_holds row cs ps = Some b \<Longrightarrow>
     sql_holds row (cs @ ds) (ps @ qs) = map_option (\<lambda>d. b \<and> d) (sql_holds row ds qs)"
proof (induction cs arbitrary: ps b)
  case Nil
  then show ?case by (auto split: if_splits simp: option.map_ident)
next
  case (Cons c cs)
  then have len: "\<not> length ps < cond_arity c" by (auto split: if_splits)
  then obtain b' where b': "sql_holds row cs (drop (cond_arity c) ps) = Some b'"
      "b = (cond_holds row c (take (cond_arity c) ps) \<and> b')"
    using Cons.prems by auto
  show ?case using Cons.IH[OF b'(1)] len b'(2) by (auto simp: option.map_comp comp_def)
qed

text \<open>Two clauses put together, the parameters in the order of the placeholders.\<close>

lemma clause_and_holds:
  "clause_holds row a = Some p \<Longrightarrow> clause_holds row b = Some q \<Longrightarrow>
     clause_holds row (clause_and a b) = Some (p \<and> q)"
  by (simp add: clause_holds_def clause_and_def sql_holds_append)


section \<open>The session filter\<close>

definition SESSIONS_ALL :: string where "SESSIONS_ALL = ''*''"

text \<open>The \<open>sessions=\<close> argument: absent, a string, or a list of ids.\<close>

datatype sessions_arg = Sess_None | Sess_Str string | Sess_List "string list"

definition resolve_active_session :: "ambient \<Rightarrow> string \<Rightarrow> string" where
  "resolve_active_session a snapshot = or_str (current_session_id a) snapshot"

definition resolve_session_list :: "ambient \<Rightarrow> sessions_arg \<Rightarrow> string \<Rightarrow> string list option result" where
  "resolve_session_list a sessions active =
     (if sessions = Sess_Str SESSIONS_ALL then Inr None
      else bind_r
        (case sessions of
           Sess_None \<Rightarrow> Inr [resolve_active_session a active]
         | Sess_List ids \<Rightarrow> if ids = [] then Inl ValueError else Inr ids
         | Sess_Str _ \<Rightarrow> Inl TypeError)
        (\<lambda>ids. Inr (Some (if LEGACY_SESSION_ID \<in> set ids then ids else ids @ [LEGACY_SESSION_ID]))))"

definition session_in_predicate :: "string list option \<Rightarrow> string \<Rightarrow> sql_clause" where
  "session_in_predicate sl column =
     (case sl of None \<Rightarrow> ([], []) | Some ids \<Rightarrow> ([Col_In column (length ids)], ids))"

definition session_in_clause :: "string list option \<Rightarrow> string \<Rightarrow> sql_clause" where
  "session_in_clause sl column = session_in_predicate sl column"

definition ROOM_BOOST_FACTOR :: rat where "ROOM_BOOST_FACTOR = 2"

text \<open>The ranking boost as the factor it multiplies a row's score by.\<close>

definition session_boost_expr :: "string list option \<Rightarrow> string \<Rightarrow> rat" where
  "session_boost_expr sl session_id =
     (case sl of
        None \<Rightarrow> 1
      | Some ids \<Rightarrow> if ids = [] then 1 else if session_id \<in> set ids then ROOM_BOOST_FACTOR else 1)"


section \<open>The principal and epoch filters\<close>

definition resolve_active_principal :: "ambient \<Rightarrow> string \<Rightarrow> string" where
  "resolve_active_principal a snapshot = or_str (current_principal_id a) snapshot"

definition resolve_write_principal :: "ambient \<Rightarrow> string option \<Rightarrow> string \<Rightarrow> string" where
  "resolve_write_principal a explicit snapshot =
     (case explicit of
        None \<Rightarrow> resolve_active_principal a snapshot
      | Some p \<Rightarrow> normalize_principal_id (Some p))"

definition principal_eq_clause :: "string \<Rightarrow> string \<Rightarrow> sql_clause" where
  "principal_eq_clause principal_id column = ([Col_Eq column], [principal_id])"

definition resolve_active_epoch :: "ambient \<Rightarrow> string \<Rightarrow> string" where
  "resolve_active_epoch a snapshot = or_str (current_epoch_id a) snapshot"

definition epoch_eq_clause :: "string \<Rightarrow> string \<Rightarrow> sql_clause" where
  "epoch_eq_clause epoch_id column = ([Col_Eq column], [epoch_id])"


section \<open>The snapshot a tier is built with\<close>

text \<open>
  Every tier keeps the three ids it resolved when it was built; a bound scope wins over them on
  every call.
\<close>

record tier_snapshot =
  ts_session :: string
  ts_principal :: string
  ts_epoch :: string

definition mk_snapshot :: "ambient \<Rightarrow> tier_snapshot" where
  "mk_snapshot a =
     \<lparr>ts_session = resolve_session_id_silent a, ts_principal = resolve_principal_id_silent a,
      ts_epoch = resolve_epoch_id_silent a\<rparr>"

text \<open>A task's overrides as the scopes bind them: absent or canonical.\<close>

definition ambient_ok :: "ambient \<Rightarrow> bool" where
  "ambient_ok a \<longleftrightarrow>
     (\<forall>s. active_principal a = Some s \<longrightarrow> canonical s) \<and>
     (\<forall>s. active_session a = Some s \<longrightarrow> canonical s) \<and>
     (\<forall>s. active_epoch a = Some s \<longrightarrow> canonical s)"

definition snapshot_ok :: "tier_snapshot \<Rightarrow> bool" where
  "snapshot_ok ts \<longleftrightarrow> canonical (ts_session ts) \<and> canonical (ts_principal ts) \<and> canonical (ts_epoch ts)"

lemma mk_snapshot_ok: "ambient_ok a \<Longrightarrow> snapshot_ok (mk_snapshot a)"
  unfolding snapshot_ok_def mk_snapshot_def ambient_ok_def
  by (auto intro!: principal.resolve_canonical session.resolve_canonical epoch.resolve_canonical
      simp: current_principal_id_def current_session_id_def current_epoch_id_def)

lemma or_str_canonical:
  "(\<And>s. v = Some s \<Longrightarrow> canonical s) \<Longrightarrow> canonical d \<Longrightarrow> canonical (or_str v d)"
  by (cases v) (auto simp: or_str_def)

lemma resolve_active_canonical:
  assumes "ambient_ok a" "snapshot_ok ts"
  shows "canonical (resolve_active_session a (ts_session ts))"
    and "canonical (resolve_active_principal a (ts_principal ts))"
    and "canonical (resolve_active_epoch a (ts_epoch ts))"
  using assms unfolding ambient_ok_def snapshot_ok_def resolve_active_session_def resolve_active_principal_def
    resolve_active_epoch_def current_principal_id_def current_session_id_def current_epoch_id_def
  by (auto intro!: or_str_canonical)


section \<open>The scope of a read\<close>

text \<open>
  What the three clauses say together of a row's four columns: the persona, the session, the principal
  and the epoch.
\<close>

record read_scope =
  rs_agent :: string
  rs_sessions :: "string list option"
  rs_principal :: string
  rs_epoch :: string

type_synonym scope_cols = "string \<times> string \<times> string \<times> string"

definition scope_admits :: "read_scope \<Rightarrow> scope_cols \<Rightarrow> bool" where
  "scope_admits sc = (\<lambda>(ag, se, pr, ep).
     ag = rs_agent sc \<and> (case rs_sessions sc of None \<Rightarrow> True | Some ids \<Rightarrow> se \<in> set ids) \<and>
     pr = rs_principal sc \<and> ep = rs_epoch sc)"

text \<open>The default scope of a turn: the room's session and the legacy one, exactly its person and epoch.\<close>

definition turn_sessions :: "ambient \<Rightarrow> tier_snapshot \<Rightarrow> string list" where
  "turn_sessions a ts =
     (let s = resolve_active_session a (ts_session ts)
      in if s = LEGACY_SESSION_ID then [s] else [s, LEGACY_SESSION_ID])"

definition turn_scope :: "string \<Rightarrow> tier_snapshot \<Rightarrow> ambient \<Rightarrow> read_scope" where
  "turn_scope agent ts a =
     \<lparr>rs_agent = agent, rs_sessions = Some (turn_sessions a ts),
      rs_principal = resolve_active_principal a (ts_principal ts),
      rs_epoch = resolve_active_epoch a (ts_epoch ts)\<rparr>"

lemma resolve_session_list_default:
  "resolve_session_list a Sess_None (ts_session ts) = Inr (Some (turn_sessions a ts))"
  by (simp add: resolve_session_list_def turn_sessions_def Let_def)

lemma session_in_clause_holds:
  "clause_holds row (session_in_clause sl c) =
     Some (case sl of None \<Rightarrow> True | Some ids \<Rightarrow> row c \<in> set ids)"
  by (simp add: clause_holds_def session_in_clause_def session_in_predicate_def split: option.split)

lemma eq_clause_holds:
  "clause_holds row (principal_eq_clause p c) = Some (row c = p)"
  "clause_holds row (epoch_eq_clause e c) = Some (row c = e)"
  by (simp_all add: clause_holds_def principal_eq_clause_def epoch_eq_clause_def)

text \<open>
  Every way to ask for sessions either refuses, asks for all of them by the one sentinel, or gives a
  list without an empty choice in which the legacy session is always there; the default list is the
  turn's own session and the legacy one and nothing else.
\<close>

lemma session_list_resolution:
  "(case resolve_session_list a sessions active of
      Inl e \<Rightarrow> (sessions = Sess_List [] \<and> e = ValueError) \<or>
               (\<exists>s. sessions = Sess_Str s \<and> s \<noteq> SESSIONS_ALL \<and> e = TypeError)
    | Inr None \<Rightarrow> sessions = Sess_Str SESSIONS_ALL
    | Inr (Some ids) \<Rightarrow> LEGACY_SESSION_ID \<in> set ids \<and>
        (case sessions of
           Sess_None \<Rightarrow> set ids = {resolve_active_session a active, LEGACY_SESSION_ID} \<and> distinct ids
         | Sess_List xs \<Rightarrow> xs \<noteq> [] \<and> set ids = insert LEGACY_SESSION_ID (set xs)
         | Sess_Str _ \<Rightarrow> False))"
  by (cases sessions) (auto simp: resolve_session_list_def)


section \<open>Rows under a scope\<close>

text \<open>
  The two statements the tiers build: a selection of the rows of a scope, and an update of those of
  them that meet a condition. \<open>cols\<close> gives the four scope columns of a row.
\<close>

definition rows_in :: "('r \<Rightarrow> scope_cols) \<Rightarrow> read_scope \<Rightarrow> 'r list \<Rightarrow> 'r list" where
  "rows_in cols sc rows = filter (\<lambda>r. scope_admits sc (cols r)) rows"

definition update_in :: "('r \<Rightarrow> scope_cols) \<Rightarrow> read_scope \<Rightarrow> ('r \<Rightarrow> bool) \<Rightarrow> ('r \<Rightarrow> 'r) \<Rightarrow> 'r list \<Rightarrow> 'r list" where
  "update_in cols sc P f rows = map (\<lambda>r. if P r \<and> scope_admits sc (cols r) then f r else r) rows"

text \<open>The laws of a table whose rows are named by a key and whose updates keep key and scope.\<close>

locale scoped_table =
  fixes cols :: "'r \<Rightarrow> scope_cols"
    and key :: "'r \<Rightarrow> string"
    and upd :: "'r \<Rightarrow> 'r"
  assumes upd_cols: "cols (upd r) = cols r"
    and upd_key: "key (upd r) = key r"
begin

lemma update_keys: "map key (update_in cols sc P upd rows) = map key rows"
  by (simp add: update_in_def upd_key)

lemma update_length: "length (update_in cols sc P upd rows) = length rows"
  by (simp add: update_in_def)

lemma rows_in_update:
  "rows_in cols sc (update_in cols sc P upd rows) =
     map (\<lambda>r. if P r then upd r else r) (rows_in cols sc rows)"
  by (induction rows) (auto simp: rows_in_def update_in_def upd_cols)

text \<open>A scope that shares no row with the updated one reads what it read before.\<close>

lemma rows_in_update_other:
  assumes "\<And>r. r \<in> set rows \<Longrightarrow> scope_admits sc (cols r) \<Longrightarrow> \<not> scope_admits sc' (cols r)"
  shows "rows_in cols sc' (update_in cols sc P upd rows) = rows_in cols sc' rows"
  using assms by (induction rows) (auto simp: rows_in_def update_in_def upd_cols)

lemma update_out_of_scope:
  "r \<in> set rows \<Longrightarrow> \<not> scope_admits sc (cols r) \<Longrightarrow> r \<in> set (update_in cols sc P upd rows)"
  by (force simp: update_in_def)

end

text \<open>Two scopes of different people, personas or epochs share no row.\<close>

lemma scopes_disjoint:
  "scope_admits sc c \<Longrightarrow> scope_admits sc' c \<Longrightarrow>
     rs_agent sc = rs_agent sc' \<and> rs_principal sc = rs_principal sc' \<and> rs_epoch sc = rs_epoch sc'"
  by (auto simp: scope_admits_def split: prod.splits)


section \<open>Write signals\<close>

text \<open>
  After a successful write a tier counts it under its session and sends an event on the write bus; both
  are guarded so that their failure is no failure of the write. The record holds what they carry.
\<close>

record tier_write =
  tw_agent :: string
  tw_session :: string
  tw_surface :: string
  tw_tier :: string
  tw_salience :: rat
  tw_at :: "rat option"

definition EPISODIC_APPEND_SALIENCE :: rat where "EPISODIC_APPEND_SALIENCE = 0"
definition NOTES_APPEND_SALIENCE :: rat where "NOTES_APPEND_SALIENCE = 0"
definition RELATIONSHIP_APPEND_SALIENCE :: rat where "RELATIONSHIP_APPEND_SALIENCE = 0"
definition FACTS_APPEND_SALIENCE :: rat where "FACTS_APPEND_SALIENCE = 0"
definition COMMITMENTS_APPEND_SALIENCE :: rat where "COMMITMENTS_APPEND_SALIENCE = 0"
definition REFLECTION_CONTRADICTION_SALIENCE :: rat where "REFLECTION_CONTRADICTION_SALIENCE = 6 / 10"

end
