(* ===== verification/Search_Text.thy ===== *)
theory Search_Text
  imports Py_Regex
begin

text \<open>
  The texts the memory tiers send to SQLite's two searches: the \<open>MATCH\<close> text of the full-text index
  (\<open>src/agents/memory/_fts5_query.py\<close>) and the \<open>LIKE\<close> pattern of the fallback (\<open>_notes_recall.py\<close>), with SQLite's \<open>LIKE\<close>
  and the JSON text of a list of strings. Characters are of the Latin-1 range, on which the
  normal form the code takes first is the identity.
\<close>


section \<open>The full-text query\<close>

definition FTS5_STOPWORDS :: "string list" where
  "FTS5_STOPWORDS =
     [''a'', ''about'', ''above'', ''after'', ''again'', ''against'', ''ain'', ''all'', ''am'', ''an'',
      ''and'', ''any'', ''are'', ''aren'', ''as'', ''at'', ''be'', ''because'', ''been'', ''before'',
      ''being'', ''below'', ''between'', ''both'', ''but'', ''by'', ''can'', ''couldn'', ''d'', ''did'',
      ''didn'', ''do'', ''does'', ''doesn'', ''doing'', ''don'', ''down'', ''during'', ''each'', ''few'',
      ''for'', ''from'', ''further'', ''had'', ''hadn'', ''has'', ''hasn'', ''have'', ''haven'', ''having'',
      ''he'', ''her'', ''here'', ''hers'', ''herself'', ''him'', ''himself'', ''his'', ''how'', ''i'', ''if'',
      ''in'', ''into'', ''is'', ''isn'', ''it'', ''its'', ''itself'', ''just'', ''ll'', ''m'', ''ma'', ''me'',
      ''mightn'', ''more'', ''most'', ''mustn'', ''my'', ''myself'', ''needn'', ''no'', ''nor'', ''not'',
      ''now'', ''o'', ''of'', ''off'', ''on'', ''once'', ''only'', ''or'', ''other'', ''our'', ''ours'',
      ''ourselves'', ''out'', ''over'', ''own'', ''re'', ''s'', ''same'', ''shan'', ''she'', ''should'',
      ''shouldn'', ''so'', ''some'', ''such'', ''t'', ''than'', ''that'', ''the'', ''their'', ''theirs'',
      ''them'', ''themselves'', ''then'', ''there'', ''these'', ''they'', ''this'', ''those'', ''through'',
      ''to'', ''too'', ''under'', ''until'', ''up'', ''ve'', ''very'', ''was'', ''wasn'', ''we'', ''were'',
      ''weren'', ''what'', ''when'', ''where'', ''which'', ''while'', ''who'', ''whom'', ''why'', ''will'',
      ''with'', ''won'', ''wouldn'', ''y'', ''you'', ''your'', ''yours'', ''yourself'', ''yourselves'']"

definition EPISODE_STRUCTURAL_WORDS :: "string list" where
  "EPISODE_STRUCTURAL_WORDS =
     [''actions'', ''agent'', ''approval'', ''assigned'', ''at'', ''channel'', ''close'', ''complete'',
      ''completed'', ''confidence'', ''count'', ''delegate'', ''deny'', ''do'', ''dm'', ''duplicate'',
      ''end'', ''event'', ''false'', ''gap'', ''governance'', ''grant'', ''group'', ''id'', ''idle'',
      ''interaction'', ''joined'', ''left'', ''live'', ''mention'', ''message'', ''nothing'', ''null'',
      ''participant'', ''payload'', ''pending'', ''pool'', ''reason'', ''request'', ''requested'',
      ''response'', ''room'', ''scope'', ''seconds'', ''send'', ''sender'', ''source'', ''spawn'',
      ''structural'', ''sub'', ''summary'', ''task'', ''thread'', ''tick'', ''timestamp'', ''tool'', ''true'',
      ''ttl'', ''turn'', ''turns'', ''type'', ''unavailable'', ''use'', ''user'', ''vote'']"

definition MAX_MATCH_PHRASES :: nat where "MAX_MATCH_PHRASES = 40"

definition TICK_TEXT :: string where
  "TICK_TEXT = ''Autonomous tick: review your goals and decide on next actions.''"

text \<open>\<open>[^\W_]\<close>\<close>

definition run_char :: "char \<Rightarrow> bool" where
  "run_char c \<longleftrightarrow> word_char c \<and> c \<noteq> CHR ''_''"

text \<open>\<open>findall\<close> of a run of such characters.\<close>

fun run_words :: "string \<Rightarrow> string \<Rightarrow> string list" where
  "run_words w [] = (if w = [] then [] else [w])"
| "run_words w (c # cs) =
     (if run_char c then run_words (w @ [c]) cs else (if w = [] then [] else [w]) @ run_words [] cs)"

definition trim_last :: "string list \<Rightarrow> string list \<Rightarrow> string list" where
  "trim_last trimmed runs = rev (dropWhile (\<lambda>r. r \<in> set trimmed) (rev runs))"

fun join :: "string \<Rightarrow> string list \<Rightarrow> string" where
  "join sep [] = []"
| "join sep [x] = x"
| "join sep (x # y # ys) = x @ sep @ join sep (y # ys)"

definition phrase_step :: "string list \<Rightarrow> bool \<Rightarrow> string \<Rightarrow> string list \<Rightarrow> string list" where
  "phrase_step trimmed primary word seen =
     (let runs = trim_last trimmed (map py_lower (run_words [] word))
      in if primary \<and> length runs = 1 \<and> length (hd runs) = 1 then seen
         else if runs = [] then seen
         else let p = join '' '' runs in if p \<in> set seen then seen else seen @ [p])"

definition phrases :: "string \<Rightarrow> string list \<Rightarrow> bool \<Rightarrow> string list" where
  "phrases raw trimmed primary = fold (phrase_step trimmed primary) (py_split raw) []"

definition quoted :: "string \<Rightarrow> string" where
  "quoted p = [CHR 34] @ p @ [CHR 34]"

definition fts5_match_query :: "string \<Rightarrow> string list \<Rightarrow> string option" where
  "fts5_match_query raw structural =
     (if \<not> list_ex run_char raw then None
      else if py_strip raw = TICK_TEXT then Some []
      else let ps = phrases raw (FTS5_STOPWORDS @ structural) True;
               qs = (if ps = [] \<and> length (py_split raw) = 1 then phrases raw [] False else ps)
           in Some (join '' OR '' (map quoted (take MAX_MATCH_PHRASES qs))))"


section \<open>\<open>LIKE\<close>\<close>

text \<open>SQLite's \<open>LIKE\<close> folds the 26 letters of ASCII and reads both texts up to their first zero character.\<close>

definition ascii_lower :: "char \<Rightarrow> char" where
  "ascii_lower c = (let n = of_char c :: nat in if 65 \<le> n \<and> n \<le> 90 then char_of (n + 32) else c)"

definition nocase_eq :: "string \<Rightarrow> string \<Rightarrow> bool" where
  "nocase_eq s t \<longleftrightarrow> map ascii_lower s = map ascii_lower t"

function like_match :: "string \<Rightarrow> string \<Rightarrow> bool" where
  "like_match [] s = (s = [])"
| "like_match (p # ps) s =
     (if p = CHR ''%'' then like_match ps s \<or> (case s of [] \<Rightarrow> False | _ # t \<Rightarrow> like_match (p # ps) t)
      else if p = CHR 92
      then (case ps of [] \<Rightarrow> False
            | q # qs \<Rightarrow> (case s of [] \<Rightarrow> False | c # t \<Rightarrow> ascii_lower q = ascii_lower c \<and> like_match qs t))
      else (case s of [] \<Rightarrow> False
            | c # t \<Rightarrow> (p = CHR ''_'' \<or> ascii_lower p = ascii_lower c) \<and> like_match ps t))"
  by pat_completeness auto
termination by (relation "measure (\<lambda>(p, s). length p + length s)") auto

definition c_string :: "string \<Rightarrow> string" where
  "c_string s = takeWhile (\<lambda>c. c \<noteq> CHR 0x00) s"

definition sqlite_like :: "string \<Rightarrow> string \<Rightarrow> bool" where
  "sqlite_like s pattern = like_match (c_string pattern) (c_string s)"

text \<open>\<open>s.replace(c, r)\<close> for one character.\<close>

definition replace_char :: "char \<Rightarrow> string \<Rightarrow> string \<Rightarrow> string" where
  "replace_char c r s = concat (map (\<lambda>d. if d = c then r else [d]) s)"

definition like_escape :: "string \<Rightarrow> string" where
  "like_escape q =
     replace_char (CHR ''_'') [CHR 92, CHR ''_'']
       (replace_char (CHR ''%'') [CHR 92, CHR ''%''] (replace_char (CHR 92) [CHR 92, CHR 92] q))"

definition like_pattern :: "string \<Rightarrow> string" where
  "like_pattern q = CHR ''%'' # like_escape q @ [CHR ''%'']"


section \<open>JSON text\<close>

definition hex_digit :: "nat \<Rightarrow> char" where
  "hex_digit n = char_of (if n < 10 then 48 + n else 87 + n)"

text \<open>\<open>json.dumps\<close> of a string, in ASCII.\<close>

definition json_char :: "char \<Rightarrow> string" where
  "json_char c =
     (let n = of_char c :: nat
      in if n = 34 \<or> n = 92 then [CHR 92, c]
         else if n = 10 then [CHR 92, CHR ''n''] else if n = 13 then [CHR 92, CHR ''r'']
         else if n = 9 then [CHR 92, CHR ''t''] else if n = 8 then [CHR 92, CHR ''b'']
         else if n = 12 then [CHR 92, CHR ''f'']
         else if 32 \<le> n \<and> n \<le> 126 then [c]
         else [CHR 92, CHR ''u'', CHR ''0'', CHR ''0'', hex_digit (n div 16), hex_digit (n mod 16)])"

definition json_string :: "string \<Rightarrow> string" where
  "json_string s = [CHR 34] @ concat (map json_char s) @ [CHR 34]"

definition json_list :: "string list \<Rightarrow> string" where
  "json_list xs = ''['' @ join '', '' (map json_string xs) @ '']''"


section \<open>A query never writes search syntax\<close>

definition plain_phrase :: "string \<Rightarrow> bool" where
  "plain_phrase p \<longleftrightarrow> p \<noteq> [] \<and> (\<forall>c \<in> set p. run_char c \<or> c = CHR '' '')"

lemma run_char_code: "run_char c \<longleftrightarrow> word_char c \<and> (of_char c :: nat) \<noteq> 95"
proof -
  have "(of_char (CHR ''_'') :: nat) = 95" by simp
  then have "c = CHR ''_'' \<longleftrightarrow> (of_char c :: nat) = 95" by (metis of_char_eq_iff)
  then show ?thesis by (simp add: run_char_def)
qed

lemma run_char_lower: "run_char (py_lower_char c) = run_char c"
  unfolding run_char_code by (auto simp: py_lower_char_def word_char_def Let_def of_char_of)

lemma run_words_run:
  "\<forall>c \<in> set w. run_char c \<Longrightarrow> r \<in> set (run_words w s) \<Longrightarrow> r \<noteq> [] \<and> (\<forall>c \<in> set r. run_char c)"
proof (induction s arbitrary: w)
  case (Cons c s)
  show ?case
  proof (cases "run_char c")
    case True
    then have "\<forall>c \<in> set (w @ [c]). run_char c" "r \<in> set (run_words (w @ [c]) s)"
      using Cons.prems by simp_all
    then show ?thesis by (rule Cons.IH)
  next
    case False
    have "r = w \<and> w \<noteq> [] \<or> r \<in> set (run_words [] s)"
      using Cons.prems(2) False by (cases "w = []") simp_all
    then show ?thesis using Cons.IH[of "[]"] Cons.prems(1) by (elim disjE conjE) simp_all
  qed
qed (simp split: if_splits)

lemma trim_last_subset: "set (trim_last t runs) \<subseteq> set runs"
  using set_dropWhileD by (fastforce simp: trim_last_def)

lemma join_plain:
  "runs \<noteq> [] \<Longrightarrow> \<forall>r \<in> set runs. r \<noteq> [] \<and> (\<forall>c \<in> set r. run_char c) \<Longrightarrow> plain_phrase (join '' '' runs)"
  by (induction "'' ''" runs rule: join.induct) (auto simp: plain_phrase_def)

lemma phrase_step_plain:
  assumes "\<forall>p \<in> set seen. plain_phrase p" "distinct seen"
  shows "(\<forall>p \<in> set (phrase_step t primary word seen). plain_phrase p) \<and> distinct (phrase_step t primary word seen)"
proof -
  let ?runs = "trim_last t (map py_lower (run_words [] word))"
  have "\<forall>r \<in> set ?runs. r \<noteq> [] \<and> (\<forall>c \<in> set r. run_char c)"
    using trim_last_subset[of t "map py_lower (run_words [] word)"] run_words_run[of "[]" _ word]
    by (fastforce simp: py_lower_def run_char_lower)
  then have "?runs \<noteq> [] \<Longrightarrow> plain_phrase (join '' '' ?runs)" using join_plain by blast
  then show ?thesis using assms by (auto simp: phrase_step_def Let_def)
qed

lemma phrases_plain: "(\<forall>p \<in> set (phrases raw t primary). plain_phrase p) \<and> distinct (phrases raw t primary)"
proof -
  have "(\<forall>p \<in> set seen. plain_phrase p) \<and> distinct seen \<Longrightarrow>
     (\<forall>p \<in> set (fold (phrase_step t primary) ws seen). plain_phrase p) \<and> distinct (fold (phrase_step t primary) ws seen)"
    for ws seen
  proof (induction ws arbitrary: seen)
    case (Cons w ws)
    show ?case using Cons.IH[of "phrase_step t primary w seen"] phrase_step_plain[of seen t primary w] Cons.prems by simp
  qed simp
  from this[of "[]" "py_split raw"] show ?thesis by (simp add: phrases_def)
qed

text \<open>
  Whatever the message says, the full-text query is absent (no letter or digit in it), empty, or a
  disjunction of at most 40 distinct quoted phrases of letters, digits and spaces, so no message
  can write an operator, a wildcard or a quote of the search language; the tick sentence searches nothing.
\<close>

lemma match_query_inert:
  "(case fts5_match_query raw structural of
      None \<Rightarrow> \<not> list_ex run_char raw
    | Some q \<Rightarrow> list_ex run_char raw \<and>
        (\<exists>ps. q = join '' OR '' (map quoted ps) \<and> length ps \<le> 40 \<and> distinct ps \<and>
              (\<forall>p \<in> set ps. plain_phrase p \<and> CHR 34 \<notin> set p)) \<and>
        (py_strip raw = TICK_TEXT \<longrightarrow> q = []))"
proof (cases "list_ex run_char raw \<and> py_strip raw \<noteq> TICK_TEXT")
  case True
  let ?ps = "phrases raw (FTS5_STOPWORDS @ structural) True"
  define qs where "qs = (if ?ps = [] \<and> length (py_split raw) = 1 then phrases raw [] False else ?ps)"
  have q: "fts5_match_query raw structural = Some (join '' OR '' (map quoted (take 40 qs)))"
    using True by (simp add: fts5_match_query_def Let_def qs_def MAX_MATCH_PHRASES_def)
  have "(\<forall>p \<in> set qs. plain_phrase p) \<and> distinct qs" unfolding qs_def using phrases_plain by simp
  moreover have "\<not> (run_char (CHR 34) \<or> CHR 34 = CHR '' '')" by code_simp
  then have "plain_phrase p \<Longrightarrow> CHR 34 \<notin> set p" for p unfolding plain_phrase_def by blast
  ultimately have "\<forall>p \<in> set (take 40 qs). plain_phrase p \<and> CHR 34 \<notin> set p" "distinct (take 40 qs)"
    using set_take_subset[of 40 qs] by (blast, simp)
  moreover have "length (take 40 qs) \<le> 40" by simp
  ultimately have "\<exists>ps. join '' OR '' (map quoted (take 40 qs)) = join '' OR '' (map quoted ps) \<and> length ps \<le> 40 \<and>
      distinct ps \<and> (\<forall>p \<in> set ps. plain_phrase p \<and> CHR 34 \<notin> set p)" by blast
  then show ?thesis unfolding q using True by simp
qed (auto simp: fts5_match_query_def intro!: exI[of _ "[]"])

theorem match_query_inert_witness:
  "fts5_match_query (''NOT x* OR '' @ [CHR 34] @ ''budget-plan it'' @ [CHR 39] @ ''s'') [] =
     Some ([CHR 34] @ ''budget plan'' @ [CHR 34])"
proof -
  have "fts5_match_query (''NOT x* OR '' @ [CHR 34] @ ''budget-plan it'' @ [CHR 39] @ ''s'') [] =
     Some ([CHR 34] @ ''budget plan'' @ [CHR 34])" by code_simp
  then show ?thesis
    using match_query_inert[of "''NOT x* OR '' @ [CHR 34] @ ''budget-plan it'' @ [CHR 39] @ ''s''" "[]"] by simp
qed


section \<open>The pattern finds the text itself\<close>

lemma like_percent: "like_match (CHR ''%'' # ps) s \<longleftrightarrow> (\<exists>a b. s = a @ b \<and> like_match ps b)"
proof (induction s)
  case Nil
  then show ?case by simp
next
  case (Cons c s)
  have "like_match (CHR ''%'' # ps) (c # s) \<longleftrightarrow> like_match ps (c # s) \<or> like_match (CHR ''%'' # ps) s" by simp
  also have "\<dots> \<longleftrightarrow> (\<exists>a b. c # s = a @ b \<and> like_match ps b)"
    unfolding Cons.IH by (auto simp: Cons_eq_append_conv)
  finally show ?case .
qed

lemma like_escape_Cons:
  "like_escape (c # q) = (if c \<in> {CHR 92, CHR ''%'', CHR ''_''} then [CHR 92, c] else [c]) @ like_escape q"
  by (auto simp: like_escape_def replace_char_def)

lemma like_escaped:
  "like_match (like_escape q @ ps) s \<longleftrightarrow> (\<exists>b t. s = b @ t \<and> nocase_eq b q \<and> like_match ps t)"
proof (induction q arbitrary: s)
  case Nil
  then show ?case by (simp add: like_escape_def replace_char_def nocase_eq_def)
next
  case (Cons c q)
  note ih = Cons.IH
  have "like_match (like_escape (c # q) @ ps) s \<longleftrightarrow>
      (case s of [] \<Rightarrow> False | d # t \<Rightarrow> ascii_lower c = ascii_lower d \<and> like_match (like_escape q @ ps) t)"
    by (auto simp: like_escape_Cons split: list.split)
  also have "\<dots> \<longleftrightarrow> (\<exists>b t. s = b @ t \<and> nocase_eq b (c # q) \<and> like_match ps t)"
  proof (cases s)
    case (Cons d u)
    have "(\<exists>b t. d # u = b @ t \<and> nocase_eq b (c # q) \<and> like_match ps t) \<longleftrightarrow>
        (\<exists>b t. ascii_lower c = ascii_lower d \<and> u = b @ t \<and> nocase_eq b q \<and> like_match ps t)"
      (is "?l \<longleftrightarrow> ?r")
    proof
      assume ?l
      then obtain b t where b: "d # u = b @ t" "nocase_eq b (c # q)" "like_match ps t" by blast
      then obtain e b' where "b = e # b'" by (cases b) (simp_all add: nocase_eq_def)
      then show ?r using b by (auto simp: nocase_eq_def)
    next
      assume ?r
      then obtain b t where "ascii_lower c = ascii_lower d" "u = b @ t" "nocase_eq b q" "like_match ps t" by blast
      then have "d # u = (d # b) @ t \<and> nocase_eq (d # b) (c # q) \<and> like_match ps t" by (simp add: nocase_eq_def)
      then show ?l by blast
    qed
    then show ?thesis using Cons by (simp add: ih)
  qed (simp add: nocase_eq_def)
  finally show ?case .
qed

lemma c_string_id: "CHR 0x00 \<notin> set s \<Longrightarrow> c_string s = s"
  by (auto simp: c_string_def takeWhile_eq_all_conv)

lemma like_escape_set: "set (like_escape q) \<subseteq> insert (CHR 92) (set q)"
  by (induction q) (auto simp: like_escape_Cons, simp add: like_escape_def replace_char_def)

text \<open>
  The fallback search means what it says: for texts without zero characters a text matches the
  escaped pattern exactly when the query occurs in it, up to the case of ASCII letters, and a percent sign, an
  underscore or a backslash in the query stands for itself.
\<close>

lemma like_finds_literal:
  assumes "CHR 0x00 \<notin> set q" "CHR 0x00 \<notin> set s"
  shows "sqlite_like s (like_pattern q) \<longleftrightarrow> (\<exists>a b t. s = a @ b @ t \<and> nocase_eq b q)"
proof -
  have "CHR 0x00 \<notin> set (like_pattern q)" using assms(1) like_escape_set by (fastforce simp: like_pattern_def)
  then have "sqlite_like s (like_pattern q) \<longleftrightarrow> like_match (like_pattern q) s"
    using assms(2) by (simp add: sqlite_like_def c_string_id)
  also have "\<dots> \<longleftrightarrow> (\<exists>a b t. s = a @ b @ t \<and> nocase_eq b q)"
    unfolding like_pattern_def like_percent like_escaped by (auto simp: like_percent)
  finally show ?thesis .
qed

theorem like_finds_literal_witness:
  "sqlite_like ''done: 50% OFF'' (like_pattern ''50% off'') \<and> \<not> sqlite_like ''done: 500 off'' (like_pattern ''50% off'')"
proof
  have "''done: 50% OFF'' = ''done: '' @ ''50% OFF'' @ [] \<and> nocase_eq ''50% OFF'' ''50% off''" by code_simp
  then have "\<exists>a b t. ''done: 50% OFF'' = a @ b @ t \<and> nocase_eq b ''50% off''" by (intro exI)
  moreover have "CHR 0x00 \<notin> set ''50% off''" "CHR 0x00 \<notin> set ''done: 50% OFF''" by code_simp+
  ultimately show "sqlite_like ''done: 50% OFF'' (like_pattern ''50% off'')"
    using like_finds_literal[of "''50% off''" "''done: 50% OFF''"] by blast
  show "\<not> sqlite_like ''done: 500 off'' (like_pattern ''50% off'')" by code_simp
qed

end
