(* ===== verification/Commitments.thy ===== *)
theory Commitments
  imports Scope_Filters Search_Text Security Decision_Types "HOL-Library.Option_ord"
begin

text \<open>
  The store of a persona's promises (\<open>src/agents/memory/commitments.py\<close>) over the table of migration 20
  (\<open>_migration_commitments.py\<close>).

  The table is the list of its rows in the order of their row numbers; nothing in this store deletes a row, so a
  new row is at the end. Instants are rationals (finite floats), the tag list is kept as the list its JSON
  text stands for, and the random id of a new row is an argument. Several stores (of several
  personas, in several scopes) share one table, so a store and the table are separate.
\<close>


section \<open>The table\<close>

definition COMMITMENT_STATES :: "string list" where
  "COMMITMENT_STATES = [''open'', ''fulfilled'', ''missed'', ''cancelled'']"

definition DIRECTIVE_STATUSES :: "string list" where
  "DIRECTIVE_STATUSES =
     [''pending'', ''accepted'', ''adapted'', ''refused'', ''escalated'', ''superseded'', ''fulfilled'']"

record commitment_row =
  cm_id :: string
  cm_agent_id :: string
  cm_kind :: string
  cm_description :: string
  cm_due_at :: "rat option"
  cm_target_party :: "string option"
  cm_created_at :: rat
  cm_state :: "string option"
  cm_fulfilled_at :: "rat option"
  cm_source_interaction_id :: "string option"
  cm_tags :: "string list"
  cm_issuer_id :: "string option"
  cm_directive_status :: "string option"
  cm_session_id :: string
  cm_principal_id :: string
  cm_epoch_id :: string
  cm_protection_level :: string

text \<open>SQLite's \<open>length\<close> of a text stops at its first zero character.\<close>

definition sqlite_length :: "string \<Rightarrow> nat" where
  "sqlite_length s = length (c_string s)"

text \<open>The checks of the table on one row.\<close>

definition row_shape :: "commitment_row \<Rightarrow> bool" where
  "row_shape r \<longleftrightarrow>
     sqlite_length (cm_description r) > 0 \<and>
     (case cm_state r of None \<Rightarrow> True | Some s \<Rightarrow> s \<in> set COMMITMENT_STATES) \<and>
     (cm_kind r = ''commitment'' \<and> cm_due_at r \<noteq> None \<and> cm_state r \<noteq> None \<and>
        cm_directive_status r = None \<and> cm_issuer_id r = None \<or>
      cm_kind r = ''directive'' \<and> cm_directive_status r \<noteq> None \<and>
        (case cm_issuer_id r of None \<Rightarrow> False | Some i \<Rightarrow> sqlite_length i > 0) \<and> cm_state r = None)"

definition insert_row :: "commitment_row \<Rightarrow> commitment_row list \<Rightarrow> commitment_row list result" where
  "insert_row r rows =
     (if cm_id r \<in> cm_id ` set rows \<or> \<not> row_shape r then Inl IntegrityError else Inr (rows @ [r]))"


section \<open>What a call returns and raises\<close>

record Commitment =
  c_id :: string
  c_description :: string
  c_due_at :: rat
  c_target_party :: "string option"
  c_created_at :: rat
  c_state :: string
  c_fulfilled_at :: "rat option"
  c_source_interaction_id :: "string option"
  c_tags :: "string list"
  c_session_id :: string
  c_protection_level :: string

text \<open>A row of kind commitment has a due time and a state; the other columns are copied.\<close>

definition row_to_commitment :: "commitment_row \<Rightarrow> Commitment" where
  "row_to_commitment r =
     \<lparr>c_id = cm_id r, c_description = cm_description r, c_due_at = the (cm_due_at r),
      c_target_party = cm_target_party r, c_created_at = cm_created_at r, c_state = the (cm_state r),
      c_fulfilled_at = cm_fulfilled_at r, c_source_interaction_id = cm_source_interaction_id r,
      c_tags = cm_tags r, c_session_id = cm_session_id r, c_protection_level = cm_protection_level r\<rparr>"

datatype commitment_error =
    Py_Error py_error
  | CommitmentNotFoundError
  | CommitmentClosedError string string
  | CommitmentCapError
  | Not_Initialised

type_synonym 'a cres = "commitment_error + 'a"


section \<open>Checks of the fields\<close>

definition MAX_DESCRIPTION_CHARS :: nat where "MAX_DESCRIPTION_CHARS = 1000"
definition MAX_OPEN_COMMITMENTS :: nat where "MAX_OPEN_COMMITMENTS = 500"
definition MAX_LIST_LIMIT :: int where "MAX_LIST_LIMIT = 100"

definition check_text :: "pyval \<Rightarrow> string result" where
  "check_text v =
     (case v of
        PyStr s \<Rightarrow> let t = py_strip s in if length t > MAX_DESCRIPTION_CHARS then Inl ValueError else Inr t
      | _ \<Rightarrow> Inl TypeError)"

definition check_description :: "pyval \<Rightarrow> string result" where
  "check_description v =
     (case v of
        PyStr s \<Rightarrow> if py_strip s = [] then Inl ValueError else check_text v
      | _ \<Rightarrow> Inl ValueError)"

definition check_due_at :: "pyval \<Rightarrow> rat result" where
  "check_due_at v =
     (case v of
        PyInt i \<Rightarrow> (case float_of_int i of None \<Rightarrow> Inl ValueError | Some x \<Rightarrow> Inr x)
      | PyFloat (Fin x) \<Rightarrow> Inr x
      | PyFloat _ \<Rightarrow> Inl ValueError
      | _ \<Rightarrow> Inl TypeError)"

definition check_tags :: "pyval \<Rightarrow> string list result" where
  "check_tags v =
     (case v of
        PyStr _ \<Rightarrow> Inl TypeError
      | _ \<Rightarrow> bind_r (py_iter v) (\<lambda>xs.
               mapM_r (\<lambda>x. case x of PyStr s \<Rightarrow> Inr s | _ \<Rightarrow> Inl TypeError) xs))"


section \<open>The store\<close>

record CommitmentStore =
  cs_agent_id :: string
  cs_ready :: bool
  cs_snapshot :: tier_snapshot

record commitment_db =
  db_rows :: "commitment_row list"
  db_writes :: "tier_write list"

definition mk_CommitmentStore :: "ambient \<Rightarrow> string \<Rightarrow> bool \<Rightarrow> CommitmentStore" where
  "mk_CommitmentStore a agent shared_db =
     \<lparr>cs_agent_id = agent, cs_ready = shared_db, cs_snapshot = mk_snapshot a\<rparr>"

text \<open>\<open>initialize\<close> and \<open>close\<close>; opening the file and its migrations are below the model.\<close>

definition initialize :: "CommitmentStore \<Rightarrow> CommitmentStore" where
  "initialize st = st\<lparr>cs_ready := True\<rparr>"

definition close_store :: "CommitmentStore \<Rightarrow> CommitmentStore" where
  "close_store st = st\<lparr>cs_ready := False\<rparr>"

text \<open>
  The predicate of every call, as the source builds it, and its reading of a row: \<open>row_cols\<close> are the
  columns the predicate names.
\<close>

definition scope_clause :: "CommitmentStore \<Rightarrow> ambient \<Rightarrow> sql_clause result" where
  "scope_clause st a =
     bind_r (resolve_session_list a Sess_None (ts_session (cs_snapshot st))) (\<lambda>sl.
       Inr (clause_and ([Col_Eq ''agent_id'', Col_Lit ''kind'' ''commitment''], [cs_agent_id st])
             (clause_and (session_in_clause sl ''session_id'')
               (clause_and
                 (principal_eq_clause (resolve_active_principal a (ts_principal (cs_snapshot st))) ''principal_id'')
                 (epoch_eq_clause (resolve_active_epoch a (ts_epoch (cs_snapshot st))) ''epoch_id'')))))"

definition row_cols :: "commitment_row \<Rightarrow> string \<Rightarrow> string" where
  "row_cols r c =
     (if c = ''agent_id'' then cm_agent_id r else if c = ''kind'' then cm_kind r
      else if c = ''session_id'' then cm_session_id r else if c = ''principal_id'' then cm_principal_id r
      else if c = ''epoch_id'' then cm_epoch_id r else [])"

definition in_scope :: "CommitmentStore \<Rightarrow> ambient \<Rightarrow> commitment_row \<Rightarrow> bool" where
  "in_scope st a r =
     (case scope_clause st a of Inl _ \<Rightarrow> False | Inr cl \<Rightarrow> clause_holds (row_cols r) cl = Some True)"

definition count_write :: "CommitmentStore \<Rightarrow> string \<Rightarrow> rat \<Rightarrow> commitment_db \<Rightarrow> commitment_db" where
  "count_write st session at_time db =
     db\<lparr>db_writes := db_writes db @
          [\<lparr>tw_agent = cs_agent_id st, tw_session = session, tw_surface = ''commitment'',
            tw_tier = ''commitments'', tw_salience = COMMITMENTS_APPEND_SALIENCE, tw_at = Some at_time\<rparr>]\<rparr>"

text \<open>The rows the cap counts: open ones of the persona and epoch that are not past their due time.\<close>

definition counts_open :: "string \<Rightarrow> string \<Rightarrow> rat \<Rightarrow> commitment_row \<Rightarrow> bool" where
  "counts_open agent ep now r \<longleftrightarrow>
     cm_agent_id r = agent \<and> cm_kind r = ''commitment'' \<and> cm_state r = Some ''open'' \<and>
     (case cm_due_at r of None \<Rightarrow> False | Some d \<Rightarrow> d \<ge> now) \<and> cm_epoch_id r = ep"

definition open_count :: "string \<Rightarrow> string \<Rightarrow> rat \<Rightarrow> commitment_row list \<Rightarrow> nat" where
  "open_count agent ep now rows = length (filter (counts_open agent ep now) rows)"

record create_args =
  ca_description :: pyval
  ca_due_at :: pyval
  ca_target_party :: "pyval option"
  ca_source_interaction_id :: "string option"
  ca_tags :: pyval
  ca_protection_level :: string

text \<open>The checked fields of a new row: description, due time, tags and target, scanned as the persona's own output.\<close>

definition checked_fields ::
  "patterns \<Rightarrow> create_args \<Rightarrow> (string \<times> rat \<times> string list \<times> string option) result" where
  "checked_fields ps args =
     bind_r (check_description (ca_description args)) (\<lambda>txt.
     bind_r (check_due_at (ca_due_at args)) (\<lambda>due.
     bind_r (check_tags (ca_tags args)) (\<lambda>tags.
     bind_r (case ca_target_party args of None \<Rightarrow> Inr [] | Some v \<Rightarrow> check_text v) (\<lambda>target.
     bind_r (sanitize ps txt ''agent_output'' ''passthrough'') (\<lambda>dscan.
     bind_r (if target = [] then Inr None
             else bind_r (sanitize ps target ''agent_output'' ''passthrough'') (\<lambda>t. Inr (Some (si_content t)))) (\<lambda>tscan.
       Inr (si_content dscan, due, tags, tscan)))))))"

definition new_row ::
  "CommitmentStore \<Rightarrow> ambient \<Rightarrow> rat \<Rightarrow> string \<Rightarrow> create_args \<Rightarrow> string \<times> rat \<times> string list \<times> string option \<Rightarrow> commitment_row" where
  "new_row st a now new_id args = (\<lambda>(txt, due, tags, target).
     \<lparr>cm_id = new_id, cm_agent_id = cs_agent_id st, cm_kind = ''commitment'', cm_description = txt,
      cm_due_at = Some due, cm_target_party = target, cm_created_at = now, cm_state = Some ''open'',
      cm_fulfilled_at = None, cm_source_interaction_id = ca_source_interaction_id args, cm_tags = tags,
      cm_issuer_id = None, cm_directive_status = None,
      cm_session_id = normalize_session_id (Some (resolve_active_session a (ts_session (cs_snapshot st)))),
      cm_principal_id = resolve_active_principal a (ts_principal (cs_snapshot st)),
      cm_epoch_id = resolve_active_epoch a (ts_epoch (cs_snapshot st)),
      cm_protection_level = ca_protection_level args\<rparr>)"

definition create ::
  "patterns \<Rightarrow> CommitmentStore \<Rightarrow> ambient \<Rightarrow> rat \<Rightarrow> string \<Rightarrow> create_args \<Rightarrow> commitment_db \<Rightarrow> string cres \<times> commitment_db" where
  "create ps st a now new_id args db =
     (if \<not> cs_ready st then (Inl Not_Initialised, db)
      else case checked_fields ps args of
        Inl e \<Rightarrow> (Inl (Py_Error e), db)
      | Inr fs \<Rightarrow>
          (let r = new_row st a now new_id args fs
           in if open_count (cs_agent_id st) (cm_epoch_id r) now (db_rows db) < MAX_OPEN_COMMITMENTS
              then case insert_row r (db_rows db) of
                     Inl e \<Rightarrow> (Inl (Py_Error e), db)
                   | Inr rows \<Rightarrow> (Inr new_id, count_write st (cm_session_id r) now (db\<lparr>db_rows := rows\<rparr>))
              else (Inl CommitmentCapError, db)))"

definition get :: "CommitmentStore \<Rightarrow> ambient \<Rightarrow> string \<Rightarrow> commitment_row list \<Rightarrow> Commitment option cres" where
  "get st a i rows =
     (if \<not> cs_ready st then Inl Not_Initialised
      else Inr (map_option row_to_commitment (find (\<lambda>r. cm_id r = i \<and> in_scope st a r) rows)))"

text \<open>A bound on the due time; \<open>None\<close> for one that is negative or no number.\<close>

definition due_within :: "rat \<Rightarrow> pyfloat \<Rightarrow> (rat \<Rightarrow> bool) option" where
  "due_within now w =
     (case w of
        Fin s \<Rightarrow> if s \<ge> 0 then Some (\<lambda>d. d \<le> now + s) else None
      | PosInf \<Rightarrow> Some (\<lambda>_. True)
      | NegInf \<Rightarrow> None
      | NaN \<Rightarrow> None)"

definition wanted :: "string option \<Rightarrow> string option \<Rightarrow> (rat \<Rightarrow> bool) \<Rightarrow> commitment_row \<Rightarrow> bool" where
  "wanted state tgt due_ok r \<longleftrightarrow>
     (case state of None \<Rightarrow> True | Some s \<Rightarrow> cm_state r = Some s) \<and>
     (case tgt of None \<Rightarrow> True
      | Some t \<Rightarrow> (case cm_target_party r of None \<Rightarrow> False | Some p \<Rightarrow> nocase_eq p t)) \<and>
     (case cm_due_at r of None \<Rightarrow> False | Some d \<Rightarrow> due_ok d)"

definition select_rows ::
  "CommitmentStore \<Rightarrow> ambient \<Rightarrow> rat \<Rightarrow> string option \<Rightarrow> pyfloat option \<Rightarrow> int \<Rightarrow> string option \<Rightarrow>
   commitment_row list \<Rightarrow> Commitment list cres" where
  "select_rows st a now state win limit tgt rows =
     (if limit < 1 then Inl (Py_Error ValueError)
      else if (case state of None \<Rightarrow> False | Some s \<Rightarrow> s \<notin> set COMMITMENT_STATES) then Inl (Py_Error ValueError)
      else case (case win of None \<Rightarrow> Some (\<lambda>_. True) | Some w \<Rightarrow> due_within now w) of
        None \<Rightarrow> Inl (Py_Error ValueError)
      | Some due_ok \<Rightarrow>
          if \<not> cs_ready st then Inl Not_Initialised
          else Inr (map row_to_commitment (take (nat (min limit MAX_LIST_LIMIT)) (sort_key cm_due_at
                 (filter (\<lambda>r. in_scope st a r \<and> wanted state tgt due_ok r) rows)))))"

definition list_commitments ::
  "CommitmentStore \<Rightarrow> ambient \<Rightarrow> rat \<Rightarrow> string option \<Rightarrow> pyfloat option \<Rightarrow> int \<Rightarrow> commitment_row list \<Rightarrow> Commitment list cres" where
  "list_commitments st a now state win limit rows = select_rows st a now state win limit None rows"

definition list_open_commitments ::
  "CommitmentStore \<Rightarrow> ambient \<Rightarrow> rat \<Rightarrow> pyfloat option \<Rightarrow> int \<Rightarrow> commitment_row list \<Rightarrow> Commitment list cres" where
  "list_open_commitments st a now win limit rows = select_rows st a now (Some ''open'') win limit None rows"

definition list_commitments_to ::
  "CommitmentStore \<Rightarrow> ambient \<Rightarrow> rat \<Rightarrow> pyval \<Rightarrow> string option \<Rightarrow> int \<Rightarrow> commitment_row list \<Rightarrow> Commitment list cres" where
  "list_commitments_to st a now tgt state limit rows =
     (case check_text tgt of
        Inl e \<Rightarrow> Inl (Py_Error e)
      | Inr t \<Rightarrow> if t = [] then Inl (Py_Error ValueError)
               else select_rows st a now state None limit (Some t) rows)"

definition set_closed :: "string \<Rightarrow> rat \<Rightarrow> commitment_row \<Rightarrow> commitment_row" where
  "set_closed state now r =
     r\<lparr>cm_state := Some state, cm_fulfilled_at := (if state = ''fulfilled'' then Some now else None)\<rparr>"

definition closes :: "CommitmentStore \<Rightarrow> ambient \<Rightarrow> string \<Rightarrow> commitment_row \<Rightarrow> bool" where
  "closes st a i r \<longleftrightarrow> cm_id r = i \<and> cm_state r = Some ''open'' \<and> in_scope st a r"

definition close_commitment ::
  "CommitmentStore \<Rightarrow> ambient \<Rightarrow> rat \<Rightarrow> string \<Rightarrow> string \<Rightarrow> commitment_db \<Rightarrow> Commitment cres \<times> commitment_db" where
  "close_commitment st a now i state db =
     (if \<not> cs_ready st then (Inl Not_Initialised, db)
      else let rowcount = length (filter (closes st a i) (db_rows db));
               db1 = db\<lparr>db_rows := map (\<lambda>r. if closes st a i r then set_closed state now r else r) (db_rows db)\<rparr>
           in case get st a i (db_rows db1) of
                Inl e \<Rightarrow> (Inl e, db1)
              | Inr None \<Rightarrow> (Inl CommitmentNotFoundError, db1)
              | Inr (Some c) \<Rightarrow>
                  if rowcount \<noteq> 1 then (Inl (CommitmentClosedError i (c_state c)), db1)
                  else (Inr c, count_write st (c_session_id c) now db1))"

definition fulfill :: "CommitmentStore \<Rightarrow> ambient \<Rightarrow> rat \<Rightarrow> string \<Rightarrow> commitment_db \<Rightarrow> Commitment cres \<times> commitment_db" where
  "fulfill st a now i db = close_commitment st a now i ''fulfilled'' db"

definition cancel :: "CommitmentStore \<Rightarrow> ambient \<Rightarrow> rat \<Rightarrow> string \<Rightarrow> commitment_db \<Rightarrow> Commitment cres \<times> commitment_db" where
  "cancel st a now i db = close_commitment st a now i ''cancelled'' db"


section \<open>The predicate and its reading\<close>

definition row_scope :: "commitment_row \<Rightarrow> scope_cols" where
  "row_scope r = (cm_agent_id r, cm_session_id r, cm_principal_id r, cm_epoch_id r)"

definition store_scope :: "CommitmentStore \<Rightarrow> ambient \<Rightarrow> read_scope" where
  "store_scope st a = turn_scope (cs_agent_id st) (cs_snapshot st) a"

lemma scope_clause_reading:
  "\<exists>cl. scope_clause st a = Inr cl \<and>
     clause_holds (row_cols r) cl =
       Some (cm_kind r = ''commitment'' \<and> scope_admits (store_scope st a) (row_scope r))"
proof -
  let ?ts = "cs_snapshot st"
  have hd: "clause_holds (row_cols r) ([Col_Eq ''agent_id'', Col_Lit ''kind'' ''commitment''], [cs_agent_id st])
      = Some (cm_agent_id r = cs_agent_id st \<and> cm_kind r = ''commitment'')"
    by (simp add: clause_holds_def row_cols_def)
  show ?thesis
    unfolding scope_clause_def resolve_session_list_default bind_r_simps
    by (rule exI, rule conjI, rule refl, subst clause_and_holds[OF hd clause_and_holds[OF session_in_clause_holds
          clause_and_holds[OF eq_clause_holds(1) eq_clause_holds(2)]]])
      (auto simp: row_cols_def scope_admits_def store_scope_def turn_scope_def row_scope_def)
qed

lemma in_scope_iff:
  "in_scope st a r \<longleftrightarrow> cm_kind r = ''commitment'' \<and> scope_admits (store_scope st a) (row_scope r)"
proof -
  obtain cl where "scope_clause st a = Inr cl" "clause_holds (row_cols r) cl =
       Some (cm_kind r = ''commitment'' \<and> scope_admits (store_scope st a) (row_scope r))"
    using scope_clause_reading by blast
  then show ?thesis by (simp add: in_scope_def)
qed

text \<open>Rows are named by their id; closing one keeps its id and its scope columns.\<close>

interpretation commitments: scoped_table row_scope cm_id "set_closed state now" for state now
  by unfold_locales (simp_all add: row_scope_def set_closed_def)

lemma set_closed_sel [simp]:
  "cm_id (set_closed s t r) = cm_id r" "cm_kind (set_closed s t r) = cm_kind r"
  "cm_agent_id (set_closed s t r) = cm_agent_id r" "cm_epoch_id (set_closed s t r) = cm_epoch_id r"
  "cm_due_at (set_closed s t r) = cm_due_at r" "cm_state (set_closed s t r) = Some s"
  "row_scope (set_closed s t r) = row_scope r" "cm_description (set_closed s t r) = cm_description r"
  "cm_issuer_id (set_closed s t r) = cm_issuer_id r" "cm_directive_status (set_closed s t r) = cm_directive_status r"
  "cm_fulfilled_at (set_closed s t r) = (if s = ''fulfilled'' then Some t else None)"
  by (simp_all add: set_closed_def row_scope_def)

lemma in_scope_set_closed [simp]: "in_scope st a (set_closed s t r) = in_scope st a r"
  by (simp add: in_scope_iff)

text \<open>The update of a closing call, in the form the table's laws speak of.\<close>

definition close_rows :: "CommitmentStore \<Rightarrow> ambient \<Rightarrow> rat \<Rightarrow> string \<Rightarrow> string \<Rightarrow> commitment_row list \<Rightarrow> commitment_row list" where
  "close_rows st a now i s rows = map (\<lambda>r. if closes st a i r then set_closed s now r else r) rows"

lemma close_rows_update:
  "close_rows st a now i s rows =
     update_in row_scope (store_scope st a)
       (\<lambda>r. cm_id r = i \<and> cm_state r = Some ''open'' \<and> cm_kind r = ''commitment'') (set_closed s now) rows"
  unfolding close_rows_def update_in_def by (rule map_cong) (auto simp: closes_def in_scope_iff)

lemma close_commitment_rows:
  "db_rows (snd (close_commitment st a now i s db)) =
     (if cs_ready st then close_rows st a now i s (db_rows db) else db_rows db)"
  by (simp add: close_commitment_def close_rows_def Let_def count_write_def split: sum.split option.split)

lemma create_rows:
  "db_rows (snd (create ps st a now new_id args db)) =
     (case fst (create ps st a now new_id args db) of
        Inl _ \<Rightarrow> db_rows db
      | Inr _ \<Rightarrow> (case checked_fields ps args of
                    Inl _ \<Rightarrow> db_rows db
                  | Inr fs \<Rightarrow> db_rows db @ [new_row st a now new_id args fs]))"
  by (auto simp: create_def Let_def count_write_def insert_row_def split: sum.splits if_splits)

lemma create_success:
  assumes "fst (create ps st a now new_id args db) = Inr j"
  obtains fs where "j = new_id" "cs_ready st" "checked_fields ps args = Inr fs"
    "open_count (cs_agent_id st) (cm_epoch_id (new_row st a now new_id args fs)) now (db_rows db) < MAX_OPEN_COMMITMENTS"
    "new_id \<notin> cm_id ` set (db_rows db)" "row_shape (new_row st a now new_id args fs)"
    "db_rows (snd (create ps st a now new_id args db)) = db_rows db @ [new_row st a now new_id args fs]"
  using assms
  by (auto simp: create_def Let_def count_write_def insert_row_def new_row_def split: sum.splits if_splits)


section \<open>Rows stay well formed\<close>

text \<open>
  What every row of the table satisfies: the checks of the schema, and for a commitment a stripped
  description of bounded length and a fulfilment time exactly when it is fulfilled.
\<close>

definition row_ok :: "commitment_row \<Rightarrow> bool" where
  "row_ok r \<longleftrightarrow> row_shape r \<and>
     (cm_kind r = ''commitment'' \<longrightarrow>
        length (cm_description r) \<le> MAX_DESCRIPTION_CHARS \<and> py_strip (cm_description r) = cm_description r \<and>
        (cm_fulfilled_at r \<noteq> None \<longleftrightarrow> cm_state r = Some ''fulfilled''))"

definition table_ok :: "commitment_row list \<Rightarrow> bool" where
  "table_ok rows \<longleftrightarrow> distinct (map cm_id rows) \<and> (\<forall>r \<in> set rows. row_ok r)"

lemma sanitize_passthrough:
  "sanitize ps s ''agent_output'' ''passthrough'' =
     Inr \<lparr>si_content = s, si_source = ''agent_output'', si_flagged = (match_all ps s \<noteq> []), si_flags = match_all ps s\<rparr>"
  by (simp add: sanitize_def validate_source_def KNOWN_CONTEXT_SOURCES_def KNOWN_SANITIZER_ACTIONS_def Let_def)

lemma checked_description:
  assumes "checked_fields ps args = Inr fs"
  shows "length (fst fs) \<le> MAX_DESCRIPTION_CHARS \<and> py_strip (fst fs) = fst fs \<and> fst fs \<noteq> []"
  using assms
  by (auto simp: checked_fields_def bind_r_Inr_iff sanitize_passthrough check_description_def check_text_def Let_def
      split: pyval.splits if_splits)

lemma new_row_sel [simp]:
  "cm_kind (new_row st a now i args fs) = ''commitment''" "cm_description (new_row st a now i args fs) = fst fs"
  "cm_state (new_row st a now i args fs) = Some ''open''" "cm_fulfilled_at (new_row st a now i args fs) = None"
  "cm_id (new_row st a now i args fs) = i" "cm_agent_id (new_row st a now i args fs) = cs_agent_id st"
  "cm_epoch_id (new_row st a now i args fs) = resolve_active_epoch a (ts_epoch (cs_snapshot st))"
  "cm_principal_id (new_row st a now i args fs) = resolve_active_principal a (ts_principal (cs_snapshot st))"
  "cm_session_id (new_row st a now i args fs) =
     normalize_session_id (Some (resolve_active_session a (ts_session (cs_snapshot st))))"
  by (simp_all add: new_row_def case_prod_beta)

lemma new_row_ok:
  assumes "checked_fields ps args = Inr fs" "row_shape (new_row st a now i args fs)"
  shows "row_ok (new_row st a now i args fs)"
  using assms(2) checked_description[OF assms(1)] by (simp add: row_ok_def)

lemma set_closed_ok:
  assumes "row_ok r" "cm_kind r = ''commitment''" "s \<in> {''fulfilled'', ''cancelled''}"
  shows "row_ok (set_closed s t r)"
  using assms by (auto simp: row_ok_def row_shape_def COMMITMENT_STATES_def)

lemma closes_kind: "closes st a i r \<Longrightarrow> cm_kind r = ''commitment'' \<and> cm_state r = Some ''open'' \<and> cm_id r = i"
  by (simp add: closes_def in_scope_iff)

lemma close_rows_ok:
  assumes "table_ok rows" "s \<in> {''fulfilled'', ''cancelled''}"
  shows "table_ok (close_rows st a now i s rows)"
  unfolding table_ok_def
proof
  show "distinct (map cm_id (close_rows st a now i s rows))"
    using assms(1) by (simp add: close_rows_update commitments.update_keys table_ok_def)
  show "\<forall>r \<in> set (close_rows st a now i s rows). row_ok r"
    using assms set_closed_ok closes_kind by (force simp: close_rows_def table_ok_def)
qed


section \<open>Runs of the store\<close>

text \<open>
  One call that may change the table, by any store in any scope, at an instant; and any number of them
  with a clock that does not go back.
\<close>

inductive store_step :: "rat \<Rightarrow> commitment_db \<Rightarrow> commitment_db \<Rightarrow> bool" where
  create: "store_step now db (snd (create ps st a now new_id args db))"
| fulfill: "store_step now db (snd (fulfill st a now i db))"
| cancel: "store_step now db (snd (cancel st a now i db))"

inductive store_run :: "rat \<Rightarrow> commitment_db \<Rightarrow> rat \<Rightarrow> commitment_db \<Rightarrow> bool" where
  start: "store_run t db t db"
| step: "store_run t db u db1 \<Longrightarrow> u \<le> v \<Longrightarrow> store_step v db1 db2 \<Longrightarrow> store_run t db v db2"

text \<open>What one call does to the rows: nothing, one new open row at the end, or one closing update.\<close>

lemma store_step_cases:
  assumes "store_step now db db'"
  obtains (same) "db_rows db' = db_rows db"
  | (created) ps st a i args fs where "checked_fields ps args = Inr fs" "row_shape (new_row st a now i args fs)"
      "i \<notin> cm_id ` set (db_rows db)"
      "open_count (cs_agent_id st) (resolve_active_epoch a (ts_epoch (cs_snapshot st))) now (db_rows db) < MAX_OPEN_COMMITMENTS"
      "db_rows db' = db_rows db @ [new_row st a now i args fs]"
  | (closed_row) st a i s where "s \<in> {''fulfilled'', ''cancelled''}" "db_rows db' = close_rows st a now i s (db_rows db)"
  using assms
proof cases
  case (create ps st a new_id args)
  then show ?thesis
  proof (cases "fst (create ps st a now new_id args db)")
    case (Inl e)
    then show ?thesis using same create by (simp add: create_rows)
  next
    case (Inr j)
    then show ?thesis using created create
      by (elim create_success[of ps st a now new_id args db]) simp
  qed
next
  case (fulfill st a i)
  then show ?thesis using same closed_row[of "''fulfilled''" st a i]
    by (cases "cs_ready st") (simp_all add: fulfill_def close_commitment_rows)
next
  case (cancel st a i)
  then show ?thesis using same closed_row[of "''cancelled''" st a i]
    by (cases "cs_ready st") (simp_all add: cancel_def close_commitment_rows)
qed

lemma store_step_ok:
  assumes "store_step now db db'" "table_ok (db_rows db)"
  shows "table_ok (db_rows db')"
  using assms(1)
proof (cases rule: store_step_cases)
  case (created ps st a i args fs)
  then show ?thesis using assms(2) new_row_ok[OF created(1,2)] by (auto simp: table_ok_def)
qed (use assms(2) close_rows_ok in auto)

text \<open>
  Whatever calls are made, by any personas in any scopes, every row stays well formed: ids stay
  unique, the state is one of the four, a description is non-empty, stripped and at most 1000 characters
  long, and a fulfilment time is there exactly on a fulfilled commitment.
\<close>

lemma rows_well_typed:
  assumes "store_run t db u db'" "table_ok (db_rows db)"
  shows "table_ok (db_rows db')"
  using assms by (induction rule: store_run.induct) (blast intro: store_step_ok)+


section \<open>A promise moves once\<close>

definition moved :: "commitment_row \<Rightarrow> commitment_row \<Rightarrow> bool" where
  "moved r r' \<longleftrightarrow> r' = r \<or>
     (cm_kind r = ''commitment'' \<and> cm_state r = Some ''open'' \<and>
      (\<exists>s t. s \<in> {''fulfilled'', ''cancelled''} \<and> r' = set_closed s t r))"

lemma moved_trans: "moved r1 r2 \<Longrightarrow> moved r2 r3 \<Longrightarrow> moved r1 r3"
  by (auto simp: moved_def)

lemma store_step_moves:
  assumes "store_step now db db'" "n < length (db_rows db)"
  shows "n < length (db_rows db') \<and> moved (db_rows db ! n) (db_rows db' ! n)"
  using assms(1)
proof (cases rule: store_step_cases)
  case (closed_row st a i s)
  show ?thesis
  proof (cases "closes st a i (db_rows db ! n)")
    case True
    then show ?thesis using assms(2) closed_row closes_kind[OF True] by (auto simp: close_rows_def moved_def)
  qed (use assms(2) closed_row in \<open>simp add: close_rows_def moved_def\<close>)
qed (use assms(2) in \<open>simp_all add: nth_append moved_def\<close>)

text \<open>
  A commitment moves at most once: after any run of calls a row that was there is still there, in its
  place, and it is either exactly as it was or it was an open commitment and is now fulfilled or cancelled with nothing
  else about it changed. A closed commitment, and every row that is not a commitment, never changes again.
\<close>

lemma commitment_moves_once:
  assumes "store_run t db u db'" "n < length (db_rows db)"
  shows "n < length (db_rows db') \<and> moved (db_rows db ! n) (db_rows db' ! n) \<and>
         (cm_state (db_rows db ! n) \<noteq> Some ''open'' \<or> cm_kind (db_rows db ! n) \<noteq> ''commitment'' \<longrightarrow>
            db_rows db' ! n = db_rows db ! n)"
proof -
  have "n < length (db_rows db') \<and> moved (db_rows db ! n) (db_rows db' ! n)"
    using assms
  proof (induction rule: store_run.induct)
    case (step t db u db1 v db2)
    then show ?case using store_step_moves[OF step(3)] moved_trans by blast
  qed (simp add: moved_def)
  then show ?thesis by (auto simp: moved_def)
qed


section \<open>The cap on open promises\<close>

lemma open_count_later: "now \<le> later \<Longrightarrow> open_count ag ep later rows \<le> open_count ag ep now rows"
  unfolding open_count_def
  by (induction rows) (auto simp: counts_open_def split: option.splits)

lemma open_count_append: "open_count ag ep now (xs @ ys) = open_count ag ep now xs + open_count ag ep now ys"
  by (simp add: open_count_def)

lemma open_count_close: "s \<noteq> ''open'' \<Longrightarrow> open_count ag ep now (close_rows st a t i s rows) \<le> open_count ag ep now rows"
  unfolding open_count_def close_rows_def by (induction rows) (auto simp: counts_open_def)

definition under_cap :: "rat \<Rightarrow> commitment_row list \<Rightarrow> bool" where
  "under_cap now rows \<longleftrightarrow> (\<forall>ag ep. open_count ag ep now rows \<le> MAX_OPEN_COMMITMENTS)"

lemma under_cap_later: "under_cap u rows \<Longrightarrow> u \<le> v \<Longrightarrow> under_cap v rows"
  unfolding under_cap_def using open_count_later le_trans by blast

lemma store_step_cap:
  assumes "store_step now db db'" "under_cap now (db_rows db)"
  shows "under_cap now (db_rows db')"
  using assms(1)
proof (cases rule: store_step_cases)
  case (created ps st a i args fs)
  show ?thesis unfolding under_cap_def
  proof (intro allI)
    fix ag ep
    show "open_count ag ep now (db_rows db') \<le> MAX_OPEN_COMMITMENTS"
    proof (cases "ag = cs_agent_id st \<and> ep = resolve_active_epoch a (ts_epoch (cs_snapshot st))")
      case True
      have "open_count ag ep now [new_row st a now i args fs] \<le> 1" by (simp add: open_count_def)
      then show ?thesis using created(4,5) True by (simp add: open_count_append)
    next
      case False
      then have "open_count ag ep now [new_row st a now i args fs] = 0"
        by (auto simp: open_count_def counts_open_def)
      then show ?thesis using created(5) assms(2) by (simp add: open_count_append under_cap_def)
    qed
  qed
next
  case (closed_row st a i s)
  then have "s \<noteq> ''open''" by auto
  then show ?thesis using assms(2) closed_row(2) open_count_close le_trans unfolding under_cap_def by metis
qed (use assms(2) in simp)

text \<open>
  At every point of a run whose clock does not go back, each persona has in each epoch at most 500
  open commitments that are not past their due time, counted over all its people and rooms.
\<close>

lemma open_commitments_capped:
  assumes "store_run t db u db'" "under_cap t (db_rows db)"
  shows "under_cap u (db_rows db')"
  using assms
proof (induction rule: store_run.induct)
  case (step t db u db1 v db2)
  then show ?case using store_step_cap under_cap_later by blast
qed


section \<open>Nobody else's promises\<close>

definition visible :: "CommitmentStore \<Rightarrow> ambient \<Rightarrow> commitment_row list \<Rightarrow> commitment_row list" where
  "visible st a rows = filter (in_scope st a) rows"

lemma find_filter: "find (\<lambda>x. P x \<and> Q x) xs = find P (filter Q xs)"
  by (induction xs) auto

lemma get_visible: "get st a i rows = (if cs_ready st then Inr (map_option row_to_commitment (find (\<lambda>r. cm_id r = i) (visible st a rows))) else Inl Not_Initialised)"
  by (simp add: get_def visible_def find_filter)

lemma filter_scope_split: "filter (\<lambda>r. in_scope st a r \<and> P r) rows = filter P (visible st a rows)"
  by (simp add: visible_def conj_commute)

lemma select_visible:
  "visible st a rows = visible st a rows' \<Longrightarrow>
     select_rows st a now state win limit tgt rows = select_rows st a now state win limit tgt rows'"
  unfolding select_rows_def filter_scope_split by (simp only:)

text \<open>The person, persona and epoch a call acts for.\<close>

definition acts_for :: "CommitmentStore \<Rightarrow> ambient \<Rightarrow> string \<times> string \<times> string" where
  "acts_for st a =
     (cs_agent_id st, resolve_active_principal a (ts_principal (cs_snapshot st)),
      resolve_active_epoch a (ts_epoch (cs_snapshot st)))"

lemma in_scope_acts_for: "in_scope st a r \<Longrightarrow> acts_for st a = (cm_agent_id r, cm_principal_id r, cm_epoch_id r)"
  by (auto simp: in_scope_iff scope_admits_def store_scope_def turn_scope_def row_scope_def acts_for_def)

lemma visible_close_other:
  assumes "acts_for st' a' \<noteq> acts_for st a"
  shows "visible st a (close_rows st' a' now i s rows) = visible st a rows"
proof -
  have "\<not> (closes st' a' i r \<and> in_scope st a r)" for r
    using assms in_scope_acts_for[of st' a' r] in_scope_acts_for[of st a r] by (auto simp: closes_def)
  then show ?thesis
    unfolding visible_def close_rows_def by (induction rows) auto
qed

lemma visible_create_other:
  assumes "acts_for st' a' \<noteq> acts_for st a"
  shows "visible st a (db_rows (snd (create ps st' a' now i args db))) = visible st a (db_rows db)"
proof -
  have "\<not> in_scope st a (new_row st' a' now i args fs)" for fs
    using assms in_scope_acts_for[of st a "new_row st' a' now i args fs"] by (auto simp: acts_for_def)
  then show ?thesis by (simp add: create_rows visible_def split: sum.split)
qed

text \<open>
  C20. No call for another person, another persona or another epoch changes what a turn reads: after it
  every lookup and every listing of the turn gives what it gave before. And what a turn does read is
  only its own persona's commitments, of its own person and epoch, from its own room or the legacy session.
\<close>

theorem promises_isolated:
  assumes "acts_for st' a' \<noteq> acts_for st a"
    and "db' \<in> {snd (create ps st' a' now' j args db), snd (fulfill st' a' now' j db), snd (cancel st' a' now' j db)}"
  shows "get st a i (db_rows db') = get st a i (db_rows db) \<and>
    list_commitments st a now state win limit (db_rows db') = list_commitments st a now state win limit (db_rows db) \<and>
    list_commitments_to st a now tgt state limit (db_rows db') = list_commitments_to st a now tgt state limit (db_rows db) \<and>
    (\<forall>r \<in> set (visible st a (db_rows db)).
       cm_kind r = ''commitment'' \<and> (cm_agent_id r, cm_principal_id r, cm_epoch_id r) = acts_for st a \<and>
       cm_session_id r \<in> {resolve_active_session a (ts_session (cs_snapshot st)), LEGACY_SESSION_ID})"
proof (intro conjI ballI)
  have v: "visible st a (db_rows db') = visible st a (db_rows db)"
    using assms visible_create_other[OF assms(1)] visible_close_other[OF assms(1)]
    by (auto simp: fulfill_def cancel_def close_commitment_rows)
  show "get st a i (db_rows db') = get st a i (db_rows db)" by (simp add: get_visible v)
  show "list_commitments st a now state win limit (db_rows db') = list_commitments st a now state win limit (db_rows db)"
    unfolding list_commitments_def by (rule select_visible[OF v])
  show "list_commitments_to st a now tgt state limit (db_rows db') = list_commitments_to st a now tgt state limit (db_rows db)"
    unfolding list_commitments_to_def using select_visible[OF v] by (simp split: sum.split)
next
  fix r assume "r \<in> set (visible st a (db_rows db))"
  then have r: "in_scope st a r" by (simp add: visible_def)
  then show "cm_kind r = ''commitment''" by (simp add: in_scope_iff)
  show "(cm_agent_id r, cm_principal_id r, cm_epoch_id r) = acts_for st a" using in_scope_acts_for[OF r] by simp
  show "cm_session_id r \<in> {resolve_active_session a (ts_session (cs_snapshot st)), LEGACY_SESSION_ID}"
    using r by (auto simp: in_scope_iff scope_admits_def store_scope_def turn_scope_def row_scope_def
        turn_sessions_def Let_def split: if_splits)
qed


section \<open>The store as a map\<close>

text \<open>
  What a turn may think it has: a map from ids to its commitments. The specification of a lookup is the
  map itself, that of closing is an update of an open entry, and that of making one is a new entry.
\<close>

definition abs_store :: "CommitmentStore \<Rightarrow> ambient \<Rightarrow> commitment_row list \<Rightarrow> (string \<rightharpoonup> Commitment)" where
  "abs_store st a rows i = map_option row_to_commitment (find (\<lambda>r. cm_id r = i) (visible st a rows))"

definition spec_close ::
  "rat \<Rightarrow> string \<Rightarrow> string \<Rightarrow> (string \<rightharpoonup> Commitment) \<Rightarrow> Commitment cres \<times> (string \<rightharpoonup> Commitment)" where
  "spec_close now i state m =
     (case m i of
        None \<Rightarrow> (Inl CommitmentNotFoundError, m)
      | Some c \<Rightarrow>
          if c_state c \<noteq> ''open'' then (Inl (CommitmentClosedError i (c_state c)), m)
          else let c' = c\<lparr>c_state := state, c_fulfilled_at := (if state = ''fulfilled'' then Some now else None)\<rparr>
               in (Inr c', m(i \<mapsto> c')))"

lemma find_map_inv: "(\<And>x. P (f x) = P x) \<Longrightarrow> find P (map f xs) = map_option f (find P xs)"
  by (induction xs) auto

lemma visible_close:
  "visible st a (close_rows st a now i s rows) =
     map (\<lambda>r. if closes st a i r then set_closed s now r else r) (visible st a rows)"
  unfolding visible_def close_rows_def by (induction rows) auto

lemma abs_close:
  "abs_store st a (close_rows st a now i s rows) j =
     map_option (\<lambda>r. row_to_commitment (if closes st a i r then set_closed s now r else r))
       (find (\<lambda>r. cm_id r = j) (visible st a rows))"
  unfolding abs_store_def visible_close
  by (subst find_map_inv) (simp_all add: option.map_comp comp_def)

lemma closes_count:
  assumes "distinct (map cm_id rows)"
  shows "length (filter (closes st a i) rows) =
     (case find (\<lambda>r. cm_id r = i) (visible st a rows) of
        None \<Rightarrow> 0 | Some r \<Rightarrow> if cm_state r = Some ''open'' then 1 else 0)"
  using assms
proof (induction rows)
  case (Cons r rows)
  have none: "filter (closes st a i) rows = [] \<and> find (\<lambda>r. cm_id r = i) (visible st a rows) = None" if "cm_id r = i"
    using Cons.prems that by (auto simp: filter_empty_conv closes_def visible_def find_None_iff image_iff)
  show ?case using Cons none by (cases "cm_id r = i") (auto simp: closes_def visible_def)
qed (simp add: visible_def)

lemma row_to_commitment_close:
  "row_to_commitment (set_closed s now r) =
     (row_to_commitment r)\<lparr>c_state := s, c_fulfilled_at := (if s = ''fulfilled'' then Some now else None)\<rparr>"
  by (simp add: row_to_commitment_def set_closed_def)

lemma close_commitment_refines:
  assumes ok: "table_ok (db_rows db)" and ready: "cs_ready st"
  shows "fst (close_commitment st a now i s db) = fst (spec_close now i s (abs_store st a (db_rows db))) \<and>
         abs_store st a (db_rows (snd (close_commitment st a now i s db))) =
           snd (spec_close now i s (abs_store st a (db_rows db)))"
proof -
  let ?f = "find (\<lambda>r. cm_id r = i) (visible st a (db_rows db))"
  have dist: "distinct (map cm_id (db_rows db))" using ok by (simp add: table_ok_def)
  have rows: "map (\<lambda>r. if closes st a i r then set_closed s now r else r) (db_rows db) = close_rows st a now i s (db_rows db)"
    by (simp add: close_rows_def)
  have get: "get st a i (close_rows st a now i s (db_rows db)) = Inr (abs_store st a (close_rows st a now i s (db_rows db)) i)"
    using ready by (simp add: get_visible abs_store_def)
  have other: "abs_store st a (close_rows st a now i s (db_rows db)) j = abs_store st a (db_rows db) j" if "j \<noteq> i" for j
  proof (cases "find (\<lambda>r. cm_id r = j) (visible st a (db_rows db))")
    case (Some r)
    then have "cm_id r = j" by (auto simp: find_Some_iff)
    then show ?thesis using that Some unfolding abs_close by (simp add: abs_store_def closes_def)
  next
    case None
    then show ?thesis unfolding abs_close by (simp add: abs_store_def)
  qed
  show ?thesis
  proof (cases ?f)
    case None
    then have a: "abs_store st a (close_rows st a now i s (db_rows db)) i = None" "abs_store st a (db_rows db) i = None"
      unfolding abs_close by (simp_all add: abs_store_def)
    have "abs_store st a (close_rows st a now i s (db_rows db)) = abs_store st a (db_rows db)"
      using a other by (metis ext)
    then show ?thesis using ready a unfolding close_commitment_def spec_close_def
      by (simp add: Let_def rows get)
  next
    case (Some r)
    then have "r \<in> set (visible st a (db_rows db))" "cm_id r = i" by (auto simp: find_Some_iff)
    then have r: "in_scope st a r" "cm_id r = i" "r \<in> set (db_rows db)" by (auto simp: visible_def)
    then obtain sv where sv: "cm_state r = Some sv"
      using ok by (auto simp: table_ok_def row_ok_def row_shape_def in_scope_iff)
    have cl: "closes st a i r \<longleftrightarrow> sv = ''open''" using r sv by (simp add: closes_def)
    have m: "abs_store st a (db_rows db) i = Some (row_to_commitment r)" using Some by (simp add: abs_store_def)
    have st: "c_state (row_to_commitment r) = sv" using sv by (simp add: row_to_commitment_def)
    have m': "abs_store st a (close_rows st a now i s (db_rows db)) i =
        Some (row_to_commitment (if sv = ''open'' then set_closed s now r else r))"
      using Some by (simp add: abs_close cl)
    have n: "length (filter (closes st a i) (db_rows db)) = (if sv = ''open'' then 1 else 0)"
      using closes_count[OF dist, of st a i] Some sv by simp
    have eq: "abs_store st a (close_rows st a now i s (db_rows db)) =
        (if sv = ''open'' then (abs_store st a (db_rows db))(i \<mapsto> row_to_commitment (set_closed s now r))
         else abs_store st a (db_rows db))"
    proof
      fix j
      show "abs_store st a (close_rows st a now i s (db_rows db)) j =
        (if sv = ''open'' then (abs_store st a (db_rows db))(i \<mapsto> row_to_commitment (set_closed s now r))
         else abs_store st a (db_rows db)) j"
        using m m' other[of j] by (cases "j = i") simp_all
    qed
    show ?thesis
      using ready m m' n eq st unfolding close_commitment_def spec_close_def
      by (simp add: Let_def rows get count_write_def row_to_commitment_close)
  qed
qed

lemma new_row_in_scope:
  assumes "ambient_ok a" "snapshot_ok (cs_snapshot st)"
  shows "in_scope st a (new_row st a now i args fs)"
  using session.norm_fixes_canonical[OF resolve_active_canonical(1)[OF assms]]
  by (simp add: in_scope_iff row_scope_def scope_admits_def store_scope_def turn_scope_def turn_sessions_def Let_def)

lemma find_snoc: "find P (xs @ [y]) = (case find P xs of Some x \<Rightarrow> Some x | None \<Rightarrow> if P y then Some y else None)"
  by (induction xs) auto

lemma abs_create:
  assumes "ambient_ok a" "snapshot_ok (cs_snapshot st)" "i \<notin> cm_id ` set rows"
  shows "abs_store st a (rows @ [new_row st a now i args fs]) =
           (abs_store st a rows)(i \<mapsto> row_to_commitment (new_row st a now i args fs))"
proof -
  have "visible st a (rows @ [new_row st a now i args fs]) = visible st a rows @ [new_row st a now i args fs]"
    using new_row_in_scope[OF assms(1,2)] by (simp add: visible_def)
  moreover have "find (\<lambda>r. cm_id r = i) (visible st a rows) = None"
    using assms(3) by (auto simp: find_None_iff visible_def)
  ultimately show ?thesis
    by (auto simp: abs_store_def fun_eq_iff find_snoc split: option.split)
qed

text \<open>
  C19. For a turn whose ids are canonical the store is a map from ids to its commitments: a lookup is a
  lookup in the map; closing an id that is not in it is "not found", closing one that is no longer open is refused with
  its state, and otherwise exactly that entry changes; making a commitment either raises and
  leaves the map alone or adds one open entry, made now, under an id the map did not have.
\<close>

theorem commitments_refine_map:
  assumes "table_ok (db_rows db)" "cs_ready st" "ambient_ok a" "snapshot_ok (cs_snapshot st)"
  shows "get st a i (db_rows db) = Inr (abs_store st a (db_rows db) i) \<and>
    fst (fulfill st a now i db) = fst (spec_close now i ''fulfilled'' (abs_store st a (db_rows db))) \<and>
    abs_store st a (db_rows (snd (fulfill st a now i db))) = snd (spec_close now i ''fulfilled'' (abs_store st a (db_rows db))) \<and>
    fst (cancel st a now i db) = fst (spec_close now i ''cancelled'' (abs_store st a (db_rows db))) \<and>
    abs_store st a (db_rows (snd (cancel st a now i db))) = snd (spec_close now i ''cancelled'' (abs_store st a (db_rows db))) \<and>
    (case fst (create ps st a now new_id args db) of
       Inl e \<Rightarrow> abs_store st a (db_rows (snd (create ps st a now new_id args db))) = abs_store st a (db_rows db)
     | Inr j \<Rightarrow> j = new_id \<and> abs_store st a (db_rows db) new_id = None \<and>
         (\<exists>c. abs_store st a (db_rows (snd (create ps st a now new_id args db))) = (abs_store st a (db_rows db))(new_id \<mapsto> c) \<and>
              c_state c = ''open'' \<and> c_created_at c = now \<and> c_fulfilled_at c = None \<and>
              ca_description args \<noteq> PyStr [] \<and> check_description (ca_description args) = Inr (c_description c) \<and>
              check_due_at (ca_due_at args) = Inr (c_due_at c) \<and> check_tags (ca_tags args) = Inr (c_tags c)))"
proof (intro conjI)
  show "get st a i (db_rows db) = Inr (abs_store st a (db_rows db) i)"
    using assms(2) by (simp add: get_visible abs_store_def)
  show "case fst (create ps st a now new_id args db) of
       Inl e \<Rightarrow> abs_store st a (db_rows (snd (create ps st a now new_id args db))) = abs_store st a (db_rows db)
     | Inr j \<Rightarrow> j = new_id \<and> abs_store st a (db_rows db) new_id = None \<and>
         (\<exists>c. abs_store st a (db_rows (snd (create ps st a now new_id args db))) = (abs_store st a (db_rows db))(new_id \<mapsto> c) \<and>
              c_state c = ''open'' \<and> c_created_at c = now \<and> c_fulfilled_at c = None \<and>
              ca_description args \<noteq> PyStr [] \<and> check_description (ca_description args) = Inr (c_description c) \<and>
              check_due_at (ca_due_at args) = Inr (c_due_at c) \<and> check_tags (ca_tags args) = Inr (c_tags c))"
  proof (cases "fst (create ps st a now new_id args db)")
    case (Inl e)
    then show ?thesis by (simp add: create_rows)
  next
    case (Inr j)
    then obtain fs where fs: "j = new_id" "checked_fields ps args = Inr fs" "new_id \<notin> cm_id ` set (db_rows db)"
        "db_rows (snd (create ps st a now new_id args db)) = db_rows db @ [new_row st a now new_id args fs]"
      by (rule create_success)
    have none: "abs_store st a (db_rows db) new_id = None"
      using fs(3) by (auto simp: abs_store_def find_None_iff visible_def)
    have chk: "check_description (ca_description args) = Inr (fst fs) \<and> check_due_at (ca_due_at args) = Inr (fst (snd fs)) \<and>
        check_tags (ca_tags args) = Inr (fst (snd (snd fs)))"
      using fs(2) by (auto simp: checked_fields_def bind_r_Inr_iff sanitize_passthrough)
    have "ca_description args \<noteq> PyStr []" using chk by (auto simp: check_description_def)
    then show ?thesis using Inr fs(1) none chk abs_create[OF assms(3,4) fs(3)]
      by (auto simp: fs(4) new_row_def row_to_commitment_def case_prod_beta)
  qed
qed (simp_all add: fulfill_def cancel_def close_commitment_refines[OF assms(1,2)])


section \<open>Listings\<close>

lemma sorted_map_the: "\<forall>x \<in> set xs. x \<noteq> None \<Longrightarrow> sorted (map the xs) = sorted xs"
proof (induction xs)
  case (Cons x xs)
  then obtain d where "x = Some d" by auto
  moreover have "(d \<le> the y) = (Some d \<le> y)" if "y \<in> set xs" for y using Cons.prems that by (cases y) auto
  ultimately show ?case using Cons by simp
qed simp

text \<open>
  A listing gives the nearest due first, at most the limit and never more than 100: the entries are
  in order of due time, they are the turn's own commitments that were asked for, and one of those that is
  left out is due no earlier than any that is listed.
\<close>

lemma listing_nearest_first:
  assumes "select_rows st a now state win limit tgt rows = Inr cs"
  shows "\<exists>due_ok. (case win of None \<Rightarrow> due_ok = (\<lambda>_. True) | Some w \<Rightarrow> due_within now w = Some due_ok) \<and>
    (let m = filter (wanted state tgt due_ok) (visible st a rows)
     in sorted (map c_due_at cs) \<and> int (length cs) = min (min limit 100) (int (length m)) \<and>
        set cs \<subseteq> row_to_commitment ` set m \<and>
        (\<forall>r \<in> set m. row_to_commitment r \<in> set cs \<or> (\<forall>c \<in> set cs. c_due_at c \<le> the (cm_due_at r))))"
proof -
  from assms obtain due_ok where d: "(case win of None \<Rightarrow> Some (\<lambda>_. True) | Some w \<Rightarrow> due_within now w) = Some due_ok"
      and lim: "limit \<ge> 1"
      and cs: "cs = map row_to_commitment (take (nat (min limit MAX_LIST_LIMIT)) (sort_key cm_due_at
                 (filter (\<lambda>r. in_scope st a r \<and> wanted state tgt due_ok r) rows)))"
    by (auto simp: select_rows_def split: if_splits option.splits)
  let ?k = "nat (min limit MAX_LIST_LIMIT)"
  let ?m = "filter (wanted state tgt due_ok) (visible st a rows)"
  let ?s = "sort_key cm_due_at ?m"
  have cs': "cs = map row_to_commitment (take ?k ?s)" using cs by (simp add: filter_scope_split)
  have due: "cm_due_at r \<noteq> None" if "r \<in> set ?m" for r
    using that by (cases "cm_due_at r") (auto simp: wanted_def)
  have sorted: "sorted (map cm_due_at ?s)" by simp
  have dues: "map c_due_at cs = map the (map cm_due_at (take ?k ?s))"
    by (simp add: cs' row_to_commitment_def)
  have in_s: "set (take ?k ?s) \<subseteq> set ?m" by (metis set_sort set_take_subset)
  have some: "\<forall>x \<in> set (map cm_due_at (take ?k ?s)). x \<noteq> None"
  proof
    fix x assume "x \<in> set (map cm_due_at (take ?k ?s))"
    then obtain r where "x = cm_due_at r" "r \<in> set (take ?k ?s)" unfolding set_map by (rule imageE)
    then show "x \<noteq> None" using due in_s by blast
  qed
  have "sorted (map cm_due_at (take ?k ?s))" using sorted_wrt_take[OF sorted, of ?k] unfolding take_map .
  then have "sorted (map c_due_at cs)" unfolding dues sorted_map_the[OF some] .
  moreover have "int (length cs) = min (min limit 100) (int (length ?m))"
    using lim by (simp add: cs' MAX_LIST_LIMIT_def)
  moreover have "set cs \<subseteq> row_to_commitment ` set ?m" using in_s unfolding cs' set_map by (rule image_mono)
  moreover have "row_to_commitment r \<in> set cs \<or> (\<forall>c \<in> set cs. c_due_at c \<le> the (cm_due_at r))" if r: "r \<in> set ?m" for r
  proof (cases "r \<in> set (take ?k ?s)")
    case False
    have "r \<in> set ?s" using r by simp
    then have "r \<in> set (drop ?k ?s)" using False by (metis append_take_drop_id Un_iff set_append)
    moreover have "sorted_wrt (\<lambda>x y. cm_due_at x \<le> cm_due_at y) (take ?k ?s @ drop ?k ?s)"
      using sorted by (simp add: sorted_map)
    ultimately have "cm_due_at x \<le> cm_due_at r" if "x \<in> set (take ?k ?s)" for x
      using that unfolding sorted_wrt_append by blast
    then have "the (cm_due_at x) \<le> the (cm_due_at r)" if "x \<in> set (take ?k ?s)" for x
      using that due[OF subsetD[OF in_s that]] due[OF r] by (metis less_eq_option_Some option.exhaust_sel)
    then show ?thesis by (auto simp: cs' row_to_commitment_def)
  qed (simp add: cs')
  ultimately show ?thesis using d by (intro exI[of _ due_ok]) (auto simp: Let_def split: option.splits)
qed


section \<open>A run of the store\<close>

text \<open>Two personas' stores over one table: Ada promises and keeps it, and Bo tries to cancel her promise.\<close>

definition plain_ambient :: ambient where
  "plain_ambient =
     \<lparr>active_principal = None, active_session = None, active_epoch = None,
      env_principal = None, env_session = None, env_epoch = None\<rparr>"

definition ada :: CommitmentStore where "ada = mk_CommitmentStore plain_ambient ''ada'' True"
definition bo :: CommitmentStore where "bo = mk_CommitmentStore plain_ambient ''bo'' True"

definition promise :: create_args where
  "promise = \<lparr>ca_description = PyStr '' send the notes '', ca_due_at = PyInt 9, ca_target_party = Some (PyStr ''Eve''),
     ca_source_interaction_id = None, ca_tags = PyList [PyStr ''notes''], ca_protection_level = ''internal''\<rparr>"

definition db0 :: commitment_db where "db0 = \<lparr>db_rows = [], db_writes = []\<rparr>"
definition db1 :: commitment_db where "db1 = snd (create [] ada plain_ambient 1 ''p1'' promise db0)"
definition db2 :: commitment_db where "db2 = snd (fulfill ada plain_ambient 2 ''p1'' db1)"

lemma sample_run: "store_run 0 db0 2 db2" "store_run 1 db1 2 db2"
proof -
  have "store_step 1 db0 db1" unfolding db1_def by (rule store_step.create)
  then have r1: "store_run 0 db0 1 db1" using store_run.step[OF store_run.start] by simp
  have s2: "store_step 2 db1 db2" unfolding db2_def by (rule store_step.fulfill)
  show "store_run 0 db0 2 db2" using store_run.step[OF r1 _ s2] by simp
  show "store_run 1 db1 2 db2" using store_run.step[OF store_run.start _ s2] by simp
qed

lemma sample_states:
  "map cm_state (db_rows db1) = [Some ''open'']" "map cm_state (db_rows db2) = [Some ''fulfilled'']"
  "map cm_description (db_rows db2) = [''send the notes'']" "map cm_fulfilled_at (db_rows db2) = [Some 2]"
  by code_simp+

lemma sample_ok: "table_ok (db_rows db0)" "under_cap 0 (db_rows db0)"
  by (simp_all add: table_ok_def under_cap_def open_count_def db0_def)

theorem rows_well_typed_witness: "table_ok (db_rows db2) \<and> map cm_state (db_rows db2) = [Some ''fulfilled'']"
  using rows_well_typed[OF sample_run(1) sample_ok(1)] sample_states by simp

theorem commitment_moves_once_witness:
  "length (db_rows db1) = 1 \<and> moved (db_rows db1 ! 0) (db_rows db2 ! 0) \<and>
   cm_state (db_rows db1 ! 0) = Some ''open'' \<and> cm_state (db_rows db2 ! 0) = Some ''fulfilled''"
proof -
  have l: "length (db_rows db1) = 1" "length (db_rows db2) = 1" by code_simp+
  then show ?thesis
    using commitment_moves_once[OF sample_run(2), of 0] sample_states
    by (cases "db_rows db1"; cases "db_rows db2") auto
qed

theorem open_commitments_capped_witness: "under_cap 2 (db_rows db2) \<and> open_count ''ada'' ''live'' 1 (db_rows db1) = 1"
proof
  show "under_cap 2 (db_rows db2)" by (rule open_commitments_capped[OF sample_run(1) sample_ok(2)])
  show "open_count ''ada'' ''live'' 1 (db_rows db1) = 1" by code_simp
qed

theorem promises_isolated_witness:
  "get ada plain_ambient ''p1'' (db_rows (snd (cancel bo plain_ambient 2 ''p1'' db1))) = get ada plain_ambient ''p1'' (db_rows db1) \<and>
   map_sum id (map_option c_state) (get ada plain_ambient ''p1'' (db_rows db1)) = Inr (Some ''open'') \<and>
   fst (cancel bo plain_ambient 2 ''p1'' db1) = Inl CommitmentNotFoundError"
proof (intro conjI)
  have "acts_for bo plain_ambient \<noteq> acts_for ada plain_ambient" by code_simp
  then show "get ada plain_ambient ''p1'' (db_rows (snd (cancel bo plain_ambient 2 ''p1'' db1))) = get ada plain_ambient ''p1'' (db_rows db1)"
    using promises_isolated[of bo plain_ambient ada plain_ambient "snd (cancel bo plain_ambient 2 ''p1'' db1)"] by blast
  show "map_sum id (map_option c_state) (get ada plain_ambient ''p1'' (db_rows db1)) = Inr (Some ''open'')" by code_simp
  show "fst (cancel bo plain_ambient 2 ''p1'' db1) = Inl CommitmentNotFoundError" by code_simp
qed

theorem commitments_refine_map_witness:
  "fst (fulfill ada plain_ambient 3 ''p1'' db2) = Inl (CommitmentClosedError ''p1'' ''fulfilled'') \<and>
   abs_store ada plain_ambient (db_rows (snd (fulfill ada plain_ambient 3 ''p1'' db2))) =
     snd (spec_close 3 ''p1'' ''fulfilled'' (abs_store ada plain_ambient (db_rows db2))) \<and>
   fst (create [] ada plain_ambient 1 ''p1'' promise db0) = Inr ''p1''"
proof (intro conjI)
  have ok: "table_ok (db_rows db2)" by (simp add: table_ok_def db2_def) code_simp
  have c: "cs_ready ada" "ambient_ok plain_ambient" "snapshot_ok (cs_snapshot ada)"
    using mk_snapshot_ok[of plain_ambient]
    by (simp_all add: ada_def mk_CommitmentStore_def ambient_ok_def plain_ambient_def)
  show "abs_store ada plain_ambient (db_rows (snd (fulfill ada plain_ambient 3 ''p1'' db2))) =
     snd (spec_close 3 ''p1'' ''fulfilled'' (abs_store ada plain_ambient (db_rows db2)))"
    using commitments_refine_map[OF ok c, of "''p1''" 3] by blast
  show "fst (fulfill ada plain_ambient 3 ''p1'' db2) = Inl (CommitmentClosedError ''p1'' ''fulfilled'')" by code_simp
  show "fst (create [] ada plain_ambient 1 ''p1'' promise db0) = Inr ''p1''" by code_simp
qed

theorem listing_nearest_first_witness:
  "\<exists>cs. list_commitments ada plain_ambient 3 None (Some (Fin 10)) 20 (db_rows db2) = Inr cs \<and>
     sorted (map c_due_at cs) \<and> map c_due_at cs = [9]"
proof -
  have e: "map_sum id (map c_due_at) (list_commitments ada plain_ambient 3 None (Some (Fin 10)) 20 (db_rows db2)) = Inr [9]"
    by code_simp
  then obtain cs where cs: "list_commitments ada plain_ambient 3 None (Some (Fin 10)) 20 (db_rows db2) = Inr cs"
    by (cases "list_commitments ada plain_ambient 3 None (Some (Fin 10)) 20 (db_rows db2)") auto
  then show ?thesis using e listing_nearest_first[OF cs[unfolded list_commitments_def]] by (auto simp: Let_def)
qed

end
