(* ===== verification/Notes.thy ===== *)
theory Notes
  imports Scope_Filters Search_Text Classification "HOL-Library.Product_Lexorder"
begin

text \<open>
  The notes tier: \<open>src/agents/memory/notes.py\<close>, \<open>_notes_mutations.py\<close>, \<open>_notes_recall.py\<close> and \<open>note_types.py\<close>.

  The table is the list of its rows in row order; a new row goes to the end, since SQLite numbers it after the largest
  number in use. The full-text index is a parameter: for a query text and a table it gives the relevance
  (the negated rank) of the rows that match, or \<open>None\<close> when SQLite raises. The random id of a new row
  and the clock are arguments. Rows with the same access count and creation time are pruned in row order.
\<close>


section \<open>Rows\<close>

record note_row =
  nt_id :: string
  nt_agent_id :: string
  nt_topic :: string
  nt_content :: string
  nt_tags :: "string list"
  nt_access_count :: int
  nt_created_at :: rat
  nt_updated_at :: rat
  nt_session_id :: string
  nt_principal_id :: string
  nt_epoch_id :: string
  nt_protection_level :: string
  nt_source_channel_id :: "string option"

record Note =
  note_id :: string
  note_agent_id :: string
  note_topic :: string
  note_content :: string
  note_tags :: "string list"
  note_access_count :: int
  note_created_at :: rat
  note_updated_at :: rat
  note_session_id :: string
  note_protection_level :: string
  note_source_channel_id :: "string option"

definition row_to_note :: "note_row \<Rightarrow> Note" where
  "row_to_note r =
     \<lparr>note_id = nt_id r, note_agent_id = nt_agent_id r, note_topic = nt_topic r, note_content = nt_content r,
      note_tags = nt_tags r, note_access_count = nt_access_count r, note_created_at = nt_created_at r,
      note_updated_at = nt_updated_at r, note_session_id = nt_session_id r,
      note_protection_level = nt_protection_level r, note_source_channel_id = nt_source_channel_id r\<rparr>"

definition MAX_NOTE_CONTENT_BYTES :: nat where "MAX_NOTE_CONTENT_BYTES = 10240"
definition MAX_RECALL_LIMIT :: int where "MAX_RECALL_LIMIT = 100"

definition check_note_content :: "string \<Rightarrow> unit result" where
  "check_note_content content =
     (if content = [] \<or> py_strip content = [] then Inl ValueError
      else if utf8_length content > MAX_NOTE_CONTENT_BYTES then Inl ValueError else Inr ())"

record NoteStore =
  ns_agent_id :: string
  ns_fts5 :: bool
  ns_snapshot :: tier_snapshot

record note_db =
  nd_rows :: "note_row list"
  nd_writes :: "tier_write list"

definition note_cols :: "note_row \<Rightarrow> string \<Rightarrow> string" where
  "note_cols r c =
     (if c = ''agent_id'' then nt_agent_id r else if c = ''session_id'' then nt_session_id r
      else if c = ''principal_id'' then nt_principal_id r else if c = ''epoch_id'' then nt_epoch_id r
      else if c = ''protection_level'' then nt_protection_level r else [])"


section \<open>Making a note\<close>

definition in_cell :: "string \<Rightarrow> string \<Rightarrow> string \<Rightarrow> string \<Rightarrow> note_row \<Rightarrow> bool" where
  "in_cell ag se pr ep r \<longleftrightarrow>
     nt_agent_id r = ag \<and> nt_session_id r = se \<and> nt_principal_id r = pr \<and> nt_epoch_id r = ep"

text \<open>The rows the pruning statement deletes, by id: the least used, oldest first, of one cell.\<close>

definition victims :: "int \<Rightarrow> note_row list \<Rightarrow> string list" where
  "victims max_notes cell =
     map nt_id (take (nat (max 0 (int (length cell) - max_notes + 1)))
       (sort_key (\<lambda>r. (nt_access_count r, nt_created_at r)) cell))"

definition prune_notes :: "string \<Rightarrow> int \<Rightarrow> string \<Rightarrow> string \<Rightarrow> string \<Rightarrow> note_row list \<Rightarrow> note_row list" where
  "prune_notes ag max_notes se pr ep rows =
     (let gone = victims max_notes (filter (in_cell ag se pr ep) rows)
      in filter (\<lambda>r. \<not> (in_cell ag se pr ep r \<and> nt_id r \<in> set gone)) rows)"

definition note_of ::
  "NoteStore \<Rightarrow> ambient \<Rightarrow> rat \<Rightarrow> string \<Rightarrow> string \<Rightarrow> string \<Rightarrow> string list option \<Rightarrow> string \<Rightarrow> string \<Rightarrow> note_row" where
  "note_of st a now new_id topic content tags session level =
     \<lparr>nt_id = new_id, nt_agent_id = ns_agent_id st, nt_topic = py_strip topic, nt_content = content,
      nt_tags = (case tags of None \<Rightarrow> [] | Some ts \<Rightarrow> ts), nt_access_count = 0, nt_created_at = now,
      nt_updated_at = now, nt_session_id = normalize_session_id (Some session),
      nt_principal_id = resolve_active_principal a (ts_principal (ns_snapshot st)),
      nt_epoch_id = resolve_active_epoch a (ts_epoch (ns_snapshot st)),
      nt_protection_level = level, nt_source_channel_id = None\<rparr>"

definition store_note ::
  "NoteStore \<Rightarrow> ambient \<Rightarrow> rat \<Rightarrow> string \<Rightarrow> string \<Rightarrow> string \<Rightarrow> string list option \<Rightarrow> int \<Rightarrow> string \<Rightarrow> string \<Rightarrow>
   note_db \<Rightarrow> string result \<times> note_db" where
  "store_note st a now new_id topic content tags max_notes session level db =
     (if max_notes < 1 then (Inl ValueError, db)
      else if topic = [] \<or> py_strip topic = [] then (Inl ValueError, db)
      else case check_note_content content of
        Inl e \<Rightarrow> (Inl e, db)
      | Inr _ \<Rightarrow>
          (let r = note_of st a now new_id topic content tags session level;
               kept = prune_notes (nt_agent_id r) max_notes (nt_session_id r) (nt_principal_id r) (nt_epoch_id r) (nd_rows db)
           in if new_id \<in> nt_id ` set kept then (Inl IntegrityError, db\<lparr>nd_rows := kept\<rparr>)
              else (Inr new_id,
                    db\<lparr>nd_rows := kept @ [r],
                       nd_writes := nd_writes db @
                         [\<lparr>tw_agent = ns_agent_id st, tw_session = nt_session_id r, tw_surface = ''note'',
                           tw_tier = ''notes'', tw_salience = NOTES_APPEND_SALIENCE, tw_at = None\<rparr>]\<rparr>)))"


section \<open>Recalling notes\<close>

definition protection_in_clause :: "string list option \<Rightarrow> string \<Rightarrow> sql_clause" where
  "protection_in_clause levels column =
     (case levels of None \<Rightarrow> ([], []) | Some ls \<Rightarrow> ([Col_In column (length ls)], ls))"

definition recall_clause :: "string \<Rightarrow> string list option \<Rightarrow> string \<Rightarrow> string \<Rightarrow> string list option \<Rightarrow> sql_clause" where
  "recall_clause ag sl pr ep levels =
     clause_and ([Col_Eq ''agent_id''], [ag])
       (clause_and (session_in_clause sl ''session_id'')
         (clause_and (principal_eq_clause pr ''principal_id'')
           (clause_and (epoch_eq_clause ep ''epoch_id'') (protection_in_clause levels ''protection_level''))))"

record recall_scope =
  rc_agent :: string
  rc_sessions :: "string list option"
  rc_principal :: string
  rc_epoch :: string
  rc_levels :: "string list option"

definition recallable :: "recall_scope \<Rightarrow> note_row \<Rightarrow> bool" where
  "recallable rc r \<longleftrightarrow>
     clause_holds (note_cols r)
       (recall_clause (rc_agent rc) (rc_sessions rc) (rc_principal rc) (rc_epoch rc) (rc_levels rc)) = Some True"

text \<open>\<open>ORDER BY updated_at DESC, rowid DESC\<close>\<close>

definition recall_notes_recency :: "recall_scope \<Rightarrow> int \<Rightarrow> note_row list \<Rightarrow> note_row list" where
  "recall_notes_recency rc limit rows =
     take (nat limit) (sort_key (\<lambda>r. - nt_updated_at r) (rev (filter (recallable rc) rows)))"

definition like_hit :: "string \<Rightarrow> note_row \<Rightarrow> bool" where
  "like_hit query r \<longleftrightarrow>
     (let p = like_pattern query
      in sqlite_like (nt_topic r) p \<or> sqlite_like (nt_content r) p \<or> sqlite_like (json_list (nt_tags r)) p)"

definition recall_notes_like :: "recall_scope \<Rightarrow> string \<Rightarrow> int \<Rightarrow> note_row list \<Rightarrow> note_row list" where
  "recall_notes_like rc query limit rows =
     take (nat limit) (sort_key (\<lambda>r. - nt_updated_at r) (rev (filter (\<lambda>r. like_hit query r \<and> recallable rc r) rows)))"

definition resolve_min_score :: "rat option \<Rightarrow> rat" where
  "resolve_min_score ms = (case ms of None \<Rightarrow> 0 | Some x \<Rightarrow> x)"

type_synonym fts_index = "string \<Rightarrow> note_row list \<Rightarrow> (note_row \<Rightarrow> rat option) option"

fun best_of :: "rat list \<Rightarrow> rat" where
  "best_of [] = 0"
| "best_of [x] = x"
| "best_of (x # y # ys) = max x (best_of (y # ys))"

text \<open>The candidates match and pass every filter; the floor is relative to the best of them.\<close>

definition recall_notes_fts5 ::
  "fts_index \<Rightarrow> recall_scope \<Rightarrow> string \<Rightarrow> int \<Rightarrow> rat option \<Rightarrow> note_row list \<Rightarrow> note_row list" where
  "recall_notes_fts5 fts rc query limit ms rows =
     (case fts5_match_query query [] of
        None \<Rightarrow> recall_notes_like rc query limit rows
      | Some m \<Rightarrow>
          if m = [] then []
          else case fts m rows of
            None \<Rightarrow> recall_notes_like rc query limit rows
          | Some rel \<Rightarrow>
              (let cands = filter (\<lambda>r. rel r \<noteq> None \<and> recallable rc r) rows;
                   best = best_of (map (the \<circ> rel) cands)
               in take (nat limit) (sort_key (\<lambda>r. - the (rel r))
                    (rev (filter (\<lambda>r. the (rel r) \<ge> resolve_min_score ms * best) cands)))))"

definition bump :: "string list \<Rightarrow> note_row \<Rightarrow> note_row" where
  "bump ids r = (if nt_id r \<in> set ids then r\<lparr>nt_access_count := nt_access_count r + 1\<rparr> else r)"

definition recall_notes ::
  "fts_index \<Rightarrow> NoteStore \<Rightarrow> ambient \<Rightarrow> string \<Rightarrow> int \<Rightarrow> pyfloat option \<Rightarrow> sessions_arg \<Rightarrow> string list option \<Rightarrow>
   note_db \<Rightarrow> Note list result \<times> note_db" where
  "recall_notes fts st a query limit ms sessions levels db =
     (if limit < 1 then (Inl ValueError, db)
      else if (case ms of None \<Rightarrow> False | Some (Fin x) \<Rightarrow> \<not> (0 \<le> x \<and> x \<le> 1) | Some _ \<Rightarrow> True) then (Inl ValueError, db)
      else if levels = Some [] then (Inl ValueError, db)
      else case resolve_session_list a sessions (ts_session (ns_snapshot st)) of
        Inl e \<Rightarrow> (Inl e, db)
      | Inr sl \<Rightarrow>
          (let k = min limit MAX_RECALL_LIMIT;
               floor = (case ms of Some (Fin x) \<Rightarrow> Some x | _ \<Rightarrow> None);
               rc = \<lparr>rc_agent = ns_agent_id st, rc_sessions = sl,
                     rc_principal = resolve_active_principal a (ts_principal (ns_snapshot st)),
                     rc_epoch = resolve_active_epoch a (ts_epoch (ns_snapshot st)), rc_levels = levels\<rparr>;
               found = (if query \<noteq> [] \<and> ns_fts5 st then recall_notes_fts5 fts rc query k floor (nd_rows db)
                        else if query \<noteq> [] then recall_notes_like rc query k (nd_rows db)
                        else recall_notes_recency rc k (nd_rows db));
               ids = map nt_id found
           in (Inr (map (row_to_note \<circ> bump ids) found), db\<lparr>nd_rows := map (bump ids) (nd_rows db)\<rparr>)))"


section \<open>Editing, deleting, counting\<close>

definition mutation_scope_clause :: "NoteStore \<Rightarrow> ambient \<Rightarrow> sql_clause result" where
  "mutation_scope_clause st a =
     bind_r (resolve_session_list a Sess_None (ts_session (ns_snapshot st))) (\<lambda>sl.
       Inr (clause_and (session_in_clause sl ''session_id'')
             (clause_and
               (principal_eq_clause (resolve_active_principal a (ts_principal (ns_snapshot st))) ''principal_id'')
               (epoch_eq_clause (resolve_active_epoch a (ts_epoch (ns_snapshot st))) ''epoch_id''))))"

definition mutable :: "NoteStore \<Rightarrow> ambient \<Rightarrow> note_row \<Rightarrow> bool" where
  "mutable st a r =
     (case mutation_scope_clause st a of
        Inl _ \<Rightarrow> False
      | Inr cl \<Rightarrow> clause_holds (note_cols r) (clause_and ([Col_Eq ''agent_id''], [ns_agent_id st]) cl) = Some True)"

definition restamped :: "string option \<Rightarrow> string list \<Rightarrow> string \<Rightarrow> string" where
  "restamped level below stored =
     (case level of
        Some l \<Rightarrow> if below \<noteq> [] then (if stored \<in> set below then l else stored) else stored
      | None \<Rightarrow> stored)"

definition edited :: "string \<Rightarrow> rat \<Rightarrow> string option \<Rightarrow> string list \<Rightarrow> note_row \<Rightarrow> note_row" where
  "edited content now level below r =
     r\<lparr>nt_content := content, nt_updated_at := now, nt_protection_level := restamped level below (nt_protection_level r)\<rparr>"

definition update_note ::
  "NoteStore \<Rightarrow> ambient \<Rightarrow> rat \<Rightarrow> string \<Rightarrow> string \<Rightarrow> string option \<Rightarrow> string list \<Rightarrow> note_db \<Rightarrow> bool result \<times> note_db" where
  "update_note st a now i content level below db =
     (case check_note_content content of
        Inl e \<Rightarrow> (Inl e, db)
      | Inr _ \<Rightarrow>
          (let hit = (\<lambda>r. nt_id r = i \<and> mutable st a r)
           in (Inr (list_ex hit (nd_rows db)),
               db\<lparr>nd_rows := map (\<lambda>r. if hit r then edited content now level below r else r) (nd_rows db)\<rparr>)))"

definition delete_note :: "NoteStore \<Rightarrow> ambient \<Rightarrow> string \<Rightarrow> note_db \<Rightarrow> bool \<times> note_db" where
  "delete_note st a i db =
     (let hit = (\<lambda>r. nt_id r = i \<and> mutable st a r)
      in (list_ex hit (nd_rows db), db\<lparr>nd_rows := filter (\<lambda>r. \<not> hit r) (nd_rows db)\<rparr>))"

definition count_notes :: "NoteStore \<Rightarrow> ambient \<Rightarrow> note_db \<Rightarrow> nat" where
  "count_notes st a db = length (filter (mutable st a) (nd_rows db))"


section \<open>The predicates and their reading\<close>

definition note_scope_cols :: "note_row \<Rightarrow> scope_cols" where
  "note_scope_cols r = (nt_agent_id r, nt_session_id r, nt_principal_id r, nt_epoch_id r)"

lemma protection_clause_holds:
  "clause_holds row (protection_in_clause levels c) = Some (case levels of None \<Rightarrow> True | Some ls \<Rightarrow> row c \<in> set ls)"
  by (simp add: clause_holds_def protection_in_clause_def split: option.split)

lemma agent_clause_holds: "clause_holds row ([Col_Eq c], [ag]) = Some (row c = ag)"
  by (simp add: clause_holds_def)

lemma note_cols_sel [simp]:
  "note_cols r ''agent_id'' = nt_agent_id r" "note_cols r ''session_id'' = nt_session_id r"
  "note_cols r ''principal_id'' = nt_principal_id r" "note_cols r ''epoch_id'' = nt_epoch_id r"
  "note_cols r ''protection_level'' = nt_protection_level r"
  by (simp_all add: note_cols_def)

lemma recallable_iff:
  "recallable rc r \<longleftrightarrow>
     scope_admits \<lparr>rs_agent = rc_agent rc, rs_sessions = rc_sessions rc, rs_principal = rc_principal rc, rs_epoch = rc_epoch rc\<rparr>
       (note_scope_cols r) \<and>
     (case rc_levels rc of None \<Rightarrow> True | Some ls \<Rightarrow> nt_protection_level r \<in> set ls)"
  unfolding recallable_def recall_clause_def
  by (subst clause_and_holds[OF agent_clause_holds clause_and_holds[OF session_in_clause_holds
        clause_and_holds[OF eq_clause_holds(1) clause_and_holds[OF eq_clause_holds(2) protection_clause_holds]]]])
    (auto simp: scope_admits_def note_scope_cols_def split: option.splits)

lemma mutable_iff:
  "mutable st a r \<longleftrightarrow> scope_admits (turn_scope (ns_agent_id st) (ns_snapshot st) a) (note_scope_cols r)"
  unfolding mutable_def mutation_scope_clause_def resolve_session_list_default bind_r_simps sum.case
  by (subst clause_and_holds[OF agent_clause_holds clause_and_holds[OF session_in_clause_holds
        clause_and_holds[OF eq_clause_holds(1) eq_clause_holds(2)]]])
    (auto simp: scope_admits_def note_scope_cols_def turn_scope_def)

interpretation notes_edit: scoped_table note_scope_cols nt_id "edited content now level below" for content now level below
  by unfold_locales (simp_all add: note_scope_cols_def edited_def)

interpretation notes_bump: scoped_table note_scope_cols nt_id "bump ids" for ids
  by unfold_locales (simp_all add: note_scope_cols_def bump_def)


section \<open>Pruning\<close>

lemma length_filter_take:
  assumes "distinct xs" "distinct ys" "set ys = set xs"
  shows "length (filter (\<lambda>x. x \<notin> set (take n ys)) xs) = length xs - n"
proof -
  have "length (filter (\<lambda>x. x \<notin> set (take n ys)) xs) = card (set xs - set (take n ys))"
    using assms(1) by (subst distinct_card[symmetric]) (simp_all add: set_diff_eq)
  also have "\<dots> = card (set xs) - card (set (take n ys))"
    using assms(3) set_take_subset[of n ys] by (intro card_Diff_subset) simp_all
  also have "card (set (take n ys)) = min (length ys) n" using assms(2) by (simp add: distinct_card)
  also have "card (set xs) = length xs" using assms(1) by (rule distinct_card)
  also have "length ys = length xs" using assms by (metis distinct_card)
  finally show ?thesis by simp
qed

lemma sorted_take_le:
  assumes "x \<in> set (take n (sort_key k xs))" "y \<in> set xs" "y \<notin> set (take n (sort_key k xs))"
  shows "k x \<le> k y"
proof -
  let ?s = "sort_key k xs"
  have "y \<in> set ?s" using assms(2) by simp
  then have "y \<in> set (drop n ?s)" using assms(3) by (metis append_take_drop_id Un_iff set_append)
  moreover have "sorted_wrt (\<lambda>x y. k x \<le> k y) (take n ?s @ drop n ?s)"
    using sorted_sort_key[of k xs] by (simp add: sorted_map)
  ultimately show ?thesis using assms(1) unfolding sorted_wrt_append by blast
qed

lemma prune_notes_exact:
  fixes ag se pr ep :: string and m :: int and rows :: "note_row list"
  assumes d: "distinct (map nt_id rows)"
  defines "cell \<equiv> filter (in_cell ag se pr ep) rows"
  defines "gone \<equiv> take (nat (max 0 (int (length cell) - m + 1))) (sort_key (\<lambda>r. (nt_access_count r, nt_created_at r)) cell)"
  shows "prune_notes ag m se pr ep rows = filter (\<lambda>r. r \<notin> set gone) rows"
    and "set gone \<subseteq> set cell"
    and "int (length (filter (in_cell ag se pr ep) (prune_notes ag m se pr ep rows))) \<le> max 0 (m - 1)"
    and "g \<in> set gone \<Longrightarrow> r \<in> set (prune_notes ag m se pr ep rows) \<Longrightarrow> in_cell ag se pr ep r \<Longrightarrow>
           (nt_access_count g, nt_created_at g) \<le> (nt_access_count r, nt_created_at r)"
proof -
  show sub: "set gone \<subseteq> set cell" unfolding gone_def by (metis set_sort set_take_subset)
  have mem: "(in_cell ag se pr ep r \<and> nt_id r \<in> set (victims m cell)) = (r \<in> set gone)" if "r \<in> set rows" for r
  proof -
    have v: "set (victims m cell) = nt_id ` set gone" by (simp add: victims_def gone_def)
    have "r = g" if "g \<in> set gone" "nt_id r = nt_id g" for g
    proof -
      have "g \<in> set rows" using sub that(1) by (auto simp: cell_def)
      then show ?thesis using d that(2) \<open>r \<in> set rows\<close> by (metis distinct_map inj_onD)
    qed
    then show ?thesis using sub unfolding v by (auto simp: cell_def)
  qed
  then show p: "prune_notes ag m se pr ep rows = filter (\<lambda>r. r \<notin> set gone) rows"
    unfolding prune_notes_def Let_def cell_def[symmetric] by (intro filter_cong) auto
  have dc: "distinct cell" using d by (simp add: cell_def distinct_map)
  have "filter (in_cell ag se pr ep) (prune_notes ag m se pr ep rows) = filter (\<lambda>r. r \<notin> set gone) cell"
    unfolding p cell_def by (simp add: conj_commute)
  moreover have "length (filter (\<lambda>r. r \<notin> set gone) cell) = length cell - nat (max 0 (int (length cell) - m + 1))"
    unfolding gone_def using dc by (intro length_filter_take) simp_all
  ultimately show "int (length (filter (in_cell ag se pr ep) (prune_notes ag m se pr ep rows))) \<le> max 0 (m - 1)" by simp
  show "(nt_access_count g, nt_created_at g) \<le> (nt_access_count r, nt_created_at r)"
    if "g \<in> set gone" "r \<in> set (prune_notes ag m se pr ep rows)" "in_cell ag se pr ep r"
    using sorted_take_le[of g _ "\<lambda>r. (nt_access_count r, nt_created_at r)" cell r] that
    unfolding p by (simp add: gone_def cell_def)
qed

lemma store_note_success:
  assumes "store_note st a now new_id topic content tags m session level db = (Inr i, db')"
  obtains r where "i = new_id" "r = note_of st a now new_id topic content tags session level" "m \<ge> 1"
    "check_note_content content = Inr ()"
    "nd_rows db' = prune_notes (nt_agent_id r) m (nt_session_id r) (nt_principal_id r) (nt_epoch_id r) (nd_rows db) @ [r]"
  using assms by (auto simp: store_note_def Let_def split: sum.splits if_splits)

text \<open>
  Storing a note adds it to the end and removes from its own cell (persona, session, person and
  epoch) exactly as many notes as make room: the cell ends with at most \<open>max_notes\<close>, every removed note was
  used less than every kept one of the cell, or as much and made no later, and no note of any other cell is touched.
\<close>

lemma store_note_prunes_least_used:
  assumes "distinct (map nt_id (nd_rows db))"
    and "store_note st a now new_id topic content tags m session level db = (Inr i, db')"
  shows "\<exists>gone r. nd_rows db' = filter (\<lambda>x. x \<notin> set gone) (nd_rows db) @ [r] \<and> nt_id r = i \<and>
     (let cell = in_cell (nt_agent_id r) (nt_session_id r) (nt_principal_id r) (nt_epoch_id r)
      in (\<forall>g \<in> set gone. cell g \<and> (\<forall>k \<in> set (filter (\<lambda>x. x \<notin> set gone) (nd_rows db)). cell k \<longrightarrow>
            (nt_access_count g, nt_created_at g) \<le> (nt_access_count k, nt_created_at k))) \<and>
         int (length (filter cell (nd_rows db'))) \<le> m)"
proof -
  obtain r where r: "i = new_id" "r = note_of st a now new_id topic content tags session level" "m \<ge> 1"
      "nd_rows db' = prune_notes (nt_agent_id r) m (nt_session_id r) (nt_principal_id r) (nt_epoch_id r) (nd_rows db) @ [r]"
    using store_note_success[OF assms(2)] by blast
  define cell where "cell = in_cell (nt_agent_id r) (nt_session_id r) (nt_principal_id r) (nt_epoch_id r)"
  define c where "c = filter cell (nd_rows db)"
  define gone where "gone = take (nat (max 0 (int (length c) - m + 1))) (sort_key (\<lambda>r. (nt_access_count r, nt_created_at r)) c)"
  note ex = prune_notes_exact[OF assms(1), where ag = "nt_agent_id r" and se = "nt_session_id r" and pr = "nt_principal_id r"
      and ep = "nt_epoch_id r" and m = m, folded cell_def, folded c_def, folded gone_def]
  have self: "cell r" by (simp add: cell_def in_cell_def)
  have "int (length (filter cell (nd_rows db'))) \<le> m" using ex(3) r(3) self by (simp add: r(4))
  moreover have "nt_id r = i" using r(1,2) by (simp add: note_of_def)
  moreover have "\<forall>g \<in> set gone. cell g \<and> (\<forall>k \<in> set (filter (\<lambda>x. x \<notin> set gone) (nd_rows db)). cell k \<longrightarrow>
            (nt_access_count g, nt_created_at g) \<le> (nt_access_count k, nt_created_at k))"
    using ex(2) ex(4) unfolding ex(1) by (auto simp: c_def)
  ultimately show ?thesis using r(4) ex(1) unfolding cell_def Let_def by (intro exI[of _ gone] exI[of _ r]) simp
qed


section \<open>What a recall returns\<close>

lemma recall_queries_sound:
  "set (recall_notes_recency rc k rows) \<subseteq> {r \<in> set rows. recallable rc r} \<and> length (recall_notes_recency rc k rows) \<le> nat k"
  "set (recall_notes_like rc q k rows) \<subseteq> {r \<in> set rows. recallable rc r} \<and> length (recall_notes_like rc q k rows) \<le> nat k"
  "set (recall_notes_fts5 fts rc q k ms rows) \<subseteq> {r \<in> set rows. recallable rc r} \<and> length (recall_notes_fts5 fts rc q k ms rows) \<le> nat k"
proof -
  show a: "set (recall_notes_recency rc k rows) \<subseteq> {r \<in> set rows. recallable rc r} \<and> length (recall_notes_recency rc k rows) \<le> nat k"
    by (auto simp: recall_notes_recency_def dest: in_set_takeD)
  show l: "set (recall_notes_like rc q k rows) \<subseteq> {r \<in> set rows. recallable rc r} \<and> length (recall_notes_like rc q k rows) \<le> nat k"
    by (auto simp: recall_notes_like_def dest: in_set_takeD)
  show "set (recall_notes_fts5 fts rc q k ms rows) \<subseteq> {r \<in> set rows. recallable rc r} \<and> length (recall_notes_fts5 fts rc q k ms rows) \<le> nat k"
    using l by (auto simp: recall_notes_fts5_def Let_def dest: in_set_takeD split: option.split)
qed

lemma recall_notes_success:
  assumes "recall_notes fts st a query limit ms sessions levels db = (Inr ns, db')"
  obtains rc found sl where
    "resolve_session_list a sessions (ts_session (ns_snapshot st)) = Inr sl"
    "rc = \<lparr>rc_agent = ns_agent_id st, rc_sessions = sl, rc_principal = resolve_active_principal a (ts_principal (ns_snapshot st)),
           rc_epoch = resolve_active_epoch a (ts_epoch (ns_snapshot st)), rc_levels = levels\<rparr>"
    "set found \<subseteq> {r \<in> set (nd_rows db). recallable rc r}" "int (length found) \<le> min limit 100"
    "ns = map (row_to_note \<circ> bump (map nt_id found)) found" "nd_rows db' = map (bump (map nt_id found)) (nd_rows db)"
    "nd_writes db' = nd_writes db"
proof -
  obtain sl where sl: "resolve_session_list a sessions (ts_session (ns_snapshot st)) = Inr sl"
    using assms by (auto simp: recall_notes_def split: if_splits sum.splits)
  let ?rc = "\<lparr>rc_agent = ns_agent_id st, rc_sessions = sl, rc_principal = resolve_active_principal a (ts_principal (ns_snapshot st)),
           rc_epoch = resolve_active_epoch a (ts_epoch (ns_snapshot st)), rc_levels = levels\<rparr>"
  let ?k = "min limit MAX_RECALL_LIMIT"
  let ?fl = "case ms of Some (Fin x) \<Rightarrow> Some x | _ \<Rightarrow> None"
  define found where "found = (if query \<noteq> [] \<and> ns_fts5 st then recall_notes_fts5 fts ?rc query ?k ?fl (nd_rows db)
                        else if query \<noteq> [] then recall_notes_like ?rc query ?k (nd_rows db)
                        else recall_notes_recency ?rc ?k (nd_rows db))"
  have lim: "limit \<ge> 1" using assms by (auto simp: recall_notes_def split: if_splits)
  have out: "ns = map (row_to_note \<circ> bump (map nt_id found)) found" "db' = db\<lparr>nd_rows := map (bump (map nt_id found)) (nd_rows db)\<rparr>"
    using assms sl unfolding recall_notes_def found_def Let_def by (auto split: if_splits)
  have "set found \<subseteq> {r \<in> set (nd_rows db). recallable ?rc r} \<and> length found \<le> nat ?k"
    unfolding found_def using recall_queries_sound by simp
  moreover from this have "int (length found) \<le> min limit 100" using lim by (simp add: MAX_RECALL_LIMIT_def) linarith
  ultimately show thesis using that[OF sl refl, of found] out by simp
qed

text \<open>
  C31. What a persona recalls at an acting level is within it: with the level set of the acting
  classification, every note a recall returns is the persona's own, of the turn's person and epoch and an
  admitted session, and its label ranks at or below the acting rank (an unreadable label is never
  returned); at most the limit and at most 100 come back, whatever the index answers.
\<close>

theorem recall_within_acting:
  assumes "injectable_levels acting = Inr levels"
    and "recall_notes fts st a query limit ms sessions (Some levels) db = (Inr ns, db')"
    and "n \<in> set ns"
  shows "(\<exists>bound r. acting_rank acting = Inr bound \<and> entry_rank_or_withhold (Some (note_protection_level n)) = Some r \<and> r \<le> bound) \<and>
     note_agent_id n = ns_agent_id st \<and>
     (\<exists>r \<in> set (nd_rows db). nt_id r = note_id n \<and> nt_content r = note_content n \<and>
        nt_principal_id r = resolve_active_principal a (ts_principal (ns_snapshot st)) \<and>
        nt_epoch_id r = resolve_active_epoch a (ts_epoch (ns_snapshot st)) \<and>
        (case resolve_session_list a sessions (ts_session (ns_snapshot st)) of
           Inr (Some ids) \<Rightarrow> nt_session_id r \<in> set ids | _ \<Rightarrow> sessions = Sess_Str SESSIONS_ALL)) \<and>
     int (length ns) \<le> min limit 100"
proof -
  obtain rc found sl where f: "resolve_session_list a sessions (ts_session (ns_snapshot st)) = Inr sl"
    "rc = \<lparr>rc_agent = ns_agent_id st, rc_sessions = sl, rc_principal = resolve_active_principal a (ts_principal (ns_snapshot st)),
           rc_epoch = resolve_active_epoch a (ts_epoch (ns_snapshot st)), rc_levels = Some levels\<rparr>"
    "set found \<subseteq> {r \<in> set (nd_rows db). recallable rc r}" "int (length found) \<le> min limit 100"
    "ns = map (row_to_note \<circ> bump (map nt_id found)) found"
    by (rule recall_notes_success[OF assms(2)])
  then obtain r where r: "r \<in> set (nd_rows db)" "recallable rc r" "n = row_to_note (bump (map nt_id found) r)"
    using assms(3) by auto
  have n: "note_id n = nt_id r" "note_content n = nt_content r" "note_agent_id n = nt_agent_id r"
      "note_protection_level n = nt_protection_level r" unfolding r(3) by (simp_all add: row_to_note_def bump_def)
  have adm: "nt_agent_id r = ns_agent_id st" "nt_principal_id r = resolve_active_principal a (ts_principal (ns_snapshot st))"
      "nt_epoch_id r = resolve_active_epoch a (ts_epoch (ns_snapshot st))" "nt_protection_level r \<in> set levels"
      "case sl of None \<Rightarrow> True | Some ids \<Rightarrow> nt_session_id r \<in> set ids"
    using r(2) unfolding recallable_iff f(2) by (auto simp: scope_admits_def note_scope_cols_def)
  have "sl = None \<Longrightarrow> sessions = Sess_Str SESSIONS_ALL"
    using f(1) by (auto simp: resolve_session_list_def bind_r_def split: if_splits sum.splits)
  then have "case resolve_session_list a sessions (ts_session (ns_snapshot st)) of
           Inr (Some ids) \<Rightarrow> nt_session_id r \<in> set ids | _ \<Rightarrow> sessions = Sess_Str SESSIONS_ALL"
    using adm(5) f(1) by (simp split: option.splits)
  moreover obtain l where "level_of (nt_protection_level r) = Some l" "l \<le> abs_level Public acting"
    using injectable_levels_eq[of acting] assms(1) adm(4) by auto
  then have "\<exists>bound k. acting_rank acting = Inr bound \<and> entry_rank_or_withhold (Some (nt_protection_level r)) = Some k \<and> k \<le> bound"
    by (simp add: entry_rank_eq acting.rank_ok less_eq_level_def)
  ultimately show ?thesis using n adm r(1) f(4,5) by auto
qed


section \<open>Editing raises, and stays in scope\<close>

definition raised :: "string option \<Rightarrow> string \<Rightarrow> rat \<Rightarrow> note_row \<Rightarrow> note_row \<Rightarrow> bool" where
  "raised acting content now r r' \<longleftrightarrow>
     r' = r\<lparr>nt_content := content, nt_updated_at := now, nt_protection_level := nt_protection_level r'\<rparr> \<and>
     (case level_of (nt_protection_level r) of
        Some l \<Rightarrow> level_of (nt_protection_level r') = Some (max l (abs_level Internal acting))
      | None \<Rightarrow> nt_protection_level r' = nt_protection_level r)"

lemma restamped_eq: "restamped (Some l) below x = (if x \<in> set below then l else x)"
  by (simp add: restamped_def)

text \<open>
  An edit with the acting turn's stamp changes at most the one note of that id in the turn's scope,
  and leaves every other note as it is; that note keeps its topic, tags, sessions and use count and
  its level becomes the maximum of the stored and the acting level (an unreadable label is kept). It reports
  whether there was such a note, and content that is blank or too long changes nothing.
\<close>

lemma edit_raises_in_scope:
  assumes "levels_below_stamp acting = Inr below"
  shows "(case update_note st a now i content (Some (normalize_for_stamp acting)) below db of
     (Inl e, db') \<Rightarrow> e = ValueError \<and> db' = db \<and> (py_strip content = [] \<or> utf8_length content > 10240)
   | (Inr found, db') \<Rightarrow>
       (found \<longleftrightarrow> (\<exists>r \<in> set (nd_rows db). nt_id r = i \<and> mutable st a r)) \<and>
       list_all2 (\<lambda>r r'. if nt_id r = i \<and> mutable st a r then raised acting content now r r' else r' = r)
         (nd_rows db) (nd_rows db'))"
proof (cases "check_note_content content")
  case (Inl e)
  then show ?thesis by (auto simp: update_note_def check_note_content_def MAX_NOTE_CONTENT_BYTES_def split: if_splits)
next
  case (Inr u)
  obtain ls where "levels_below_stamp acting = Inr ls" and
    ls: "\<forall>x. x \<in> set ls \<longleftrightarrow> (\<exists>l. level_of x = Some l \<and> l < abs_level Internal acting)"
    using levels_below_stamp_eq by blast
  then have below: "\<forall>x. x \<in> set below \<longleftrightarrow> (\<exists>l. level_of x = Some l \<and> l < abs_level Internal acting)" using assms by simp
  have lvl: "case level_of x of
        Some l \<Rightarrow> level_of (restamped (Some (normalize_for_stamp acting)) below x) = Some (max l (abs_level Internal acting))
      | None \<Rightarrow> restamped (Some (normalize_for_stamp acting)) below x = x" for x
    using below stamp.name_valid[of acting] by (auto simp: restamped_eq max_def split: option.splits)
  have "raised acting content now r (edited content now (Some (normalize_for_stamp acting)) below r)" for r
    using lvl[of "nt_protection_level r"] by (simp add: raised_def edited_def split: option.splits)
  then show ?thesis using Inr
    by (simp add: update_note_def Let_def list_ex_iff list_all2_conv_all_nth)
qed


section \<open>Nobody else's notes\<close>

definition note_acts_for :: "NoteStore \<Rightarrow> ambient \<Rightarrow> string \<times> string \<times> string" where
  "note_acts_for st a =
     (ns_agent_id st, resolve_active_principal a (ts_principal (ns_snapshot st)),
      resolve_active_epoch a (ts_epoch (ns_snapshot st)))"

definition owner :: "note_row \<Rightarrow> string \<times> string \<times> string" where
  "owner r = (nt_agent_id r, nt_principal_id r, nt_epoch_id r)"

lemma mutable_owner: "mutable st a r \<Longrightarrow> owner r = note_acts_for st a"
  by (auto simp: mutable_iff scope_admits_def turn_scope_def note_scope_cols_def owner_def note_acts_for_def)

lemma filter_owner_edit:
  "o' \<noteq> note_acts_for st a \<Longrightarrow>
     filter (\<lambda>r. owner r = o') (map (\<lambda>r. if nt_id r = i \<and> mutable st a r then edited c t l b r else r) rows) =
     filter (\<lambda>r. owner r = o') rows"
proof -
  assume ne: "o' \<noteq> note_acts_for st a"
  have "owner (edited c t l b r) = owner r" for r by (simp add: owner_def edited_def)
  then show ?thesis using ne mutable_owner by (induction rows) auto
qed

lemma filter_owner_delete:
  "o' \<noteq> note_acts_for st a \<Longrightarrow>
     filter (\<lambda>r. owner r = o') (filter (\<lambda>r. \<not> (nt_id r = i \<and> mutable st a r)) rows) = filter (\<lambda>r. owner r = o') rows"
  using mutable_owner by (induction rows) auto

lemma filter_owner_prune:
  "o' \<noteq> (ag, pr, ep) \<Longrightarrow> filter (\<lambda>r. owner r = o') (prune_notes ag m se pr ep rows) = filter (\<lambda>r. owner r = o') rows"
  unfolding prune_notes_def Let_def filter_filter by (rule filter_cong) (auto simp: in_cell_def owner_def)

lemma filter_owner_bump:
  assumes "distinct (map nt_id rows)" "set found \<subseteq> set rows" "\<And>r. r \<in> set found \<Longrightarrow> owner r \<noteq> o'"
  shows "filter (\<lambda>r. owner r = o') (map (bump (map nt_id found)) rows) = filter (\<lambda>r. owner r = o') rows"
proof -
  have "bump (map nt_id found) r = r" if "r \<in> set rows" "owner r = o'" for r
  proof -
    have "nt_id r \<notin> nt_id ` set found"
    proof
      assume "nt_id r \<in> nt_id ` set found"
      then obtain f where "f \<in> set found" "nt_id f = nt_id r" by auto
      then have "f = r" using assms(1,2) that(1) by (metis distinct_map inj_onD subsetD)
      then show False using \<open>f \<in> set found\<close> assms(3) that(2) by blast
    qed
    then show ?thesis by (simp add: bump_def)
  qed
  moreover have "owner (bump ids r) = owner r" for ids r by (simp add: owner_def bump_def)
  ultimately have "map (bump (map nt_id found)) (filter (\<lambda>r. owner r = o') rows) = filter (\<lambda>r. owner r = o') rows"
    by (intro map_idI) auto
  then show ?thesis by (simp add: filter_map comp_def \<open>\<And>r ids. owner (bump ids r) = owner r\<close>)
qed

lemma recallable_owner:
  "recallable rc r \<Longrightarrow> owner r = (rc_agent rc, rc_principal rc, rc_epoch rc)"
  by (auto simp: recallable_iff scope_admits_def note_scope_cols_def owner_def)

text \<open>
  Nothing a turn does to notes reaches anyone else's: storing (with its pruning), recalling (with its use
  counts), editing and deleting leave every note of another persona, person or epoch exactly as it
  was, in the same order.
\<close>

lemma notes_isolated:
  assumes "distinct (map nt_id (nd_rows db))" "other \<noteq> note_acts_for st a"
    and "db' \<in> {snd (store_note st a now new_id topic content tags m session level db),
                snd (recall_notes fts st a query limit ms sessions levels db),
                snd (update_note st a now i content stamp below db), snd (delete_note st a i db)}"
  shows "filter (\<lambda>r. owner r = other) (nd_rows db') = filter (\<lambda>r. owner r = other) (nd_rows db)"
proof -
  have p: "filter (\<lambda>r. owner r = other) (prune_notes (ns_agent_id st) m se (resolve_active_principal a (ts_principal (ns_snapshot st)))
      (resolve_active_epoch a (ts_epoch (ns_snapshot st))) (nd_rows db)) = filter (\<lambda>r. owner r = other) (nd_rows db)" for se
    using assms(2) by (intro filter_owner_prune) (simp add: note_acts_for_def)
  have "filter (\<lambda>r. owner r = other) (nd_rows (snd (store_note st a now new_id topic content tags m session level db))) =
      filter (\<lambda>r. owner r = other) (nd_rows db)"
    using p assms(2) by (auto simp: store_note_def Let_def note_of_def owner_def note_acts_for_def split: sum.split)
  moreover have "filter (\<lambda>r. owner r = other) (nd_rows (snd (recall_notes fts st a query limit ms sessions levels db))) =
      filter (\<lambda>r. owner r = other) (nd_rows db)"
  proof (cases "fst (recall_notes fts st a query limit ms sessions levels db)")
    case (Inl e)
    then have "snd (recall_notes fts st a query limit ms sessions levels db) = db"
      by (auto simp: recall_notes_def Let_def split: if_splits sum.splits)
    then show ?thesis by simp
  next
    case (Inr ns)
    then obtain d where rn: "recall_notes fts st a query limit ms sessions levels db = (Inr ns, d)" by (metis prod.collapse)
    then obtain rc found sl where f:
      "rc = \<lparr>rc_agent = ns_agent_id st, rc_sessions = sl, rc_principal = resolve_active_principal a (ts_principal (ns_snapshot st)),
           rc_epoch = resolve_active_epoch a (ts_epoch (ns_snapshot st)), rc_levels = levels\<rparr>"
      "set found \<subseteq> {r \<in> set (nd_rows db). recallable rc r}" "nd_rows d = map (bump (map nt_id found)) (nd_rows db)"
      by (rule recall_notes_success)
    have "owner r \<noteq> other" if "r \<in> set found" for r
      using that f(2) recallable_owner[of rc r] assms(2) by (auto simp: f(1) note_acts_for_def)
    then show ?thesis using filter_owner_bump[OF assms(1), of found other] f(2) by (auto simp: rn f(3))
  qed
  moreover have "filter (\<lambda>r. owner r = other) (nd_rows (snd (update_note st a now i content stamp below db))) =
      filter (\<lambda>r. owner r = other) (nd_rows db)"
    using filter_owner_edit[OF assms(2)] by (simp add: update_note_def Let_def split: sum.split)
  moreover have "filter (\<lambda>r. owner r = other) (nd_rows (snd (delete_note st a i db))) = filter (\<lambda>r. owner r = other) (nd_rows db)"
    using filter_owner_delete[OF assms(2)] by (simp add: delete_note_def Let_def)
  ultimately show ?thesis using assms(3) by auto
qed


section \<open>A small table\<close>

text \<open>Ada keeps two notes at most in her room; Bo keeps one. The index matches nothing.\<close>

definition sample_ambient :: ambient where
  "sample_ambient =
     \<lparr>active_principal = None, active_session = Some ''room'', active_epoch = None,
      env_principal = None, env_session = None, env_epoch = None\<rparr>"

definition ada_notes :: NoteStore where
  "ada_notes = \<lparr>ns_agent_id = ''ada'', ns_fts5 = False, ns_snapshot = mk_snapshot sample_ambient\<rparr>"

definition sample_note :: "string \<Rightarrow> string \<Rightarrow> int \<Rightarrow> rat \<Rightarrow> string \<Rightarrow> note_row" where
  "sample_note i ag n t level =
     \<lparr>nt_id = i, nt_agent_id = ag, nt_topic = ''plan'', nt_content = ''ship it'', nt_tags = [], nt_access_count = n,
      nt_created_at = t, nt_updated_at = t, nt_session_id = ''room'', nt_principal_id = ''local'', nt_epoch_id = ''live'',
      nt_protection_level = level, nt_source_channel_id = None\<rparr>"

definition notes_db :: note_db where
  "notes_db = \<lparr>nd_rows = [sample_note ''n1'' ''ada'' 4 1 ''secret'', sample_note ''n2'' ''ada'' 0 2 ''internal'',
                          sample_note ''n3'' ''bo'' 0 0 ''internal''], nd_writes = []\<rparr>"

definition after_store :: note_db where
  "after_store = snd (store_note ada_notes sample_ambient 5 ''n4'' ''todo'' ''call Eve'' None 2 ''room'' ''internal'' notes_db)"

lemma sample_distinct: "distinct (map nt_id (nd_rows notes_db))" by code_simp

theorem store_note_prunes_least_used_witness:
  "map nt_id (nd_rows after_store) = [''n1'', ''n3'', ''n4''] \<and>
   (\<exists>gone r. nd_rows after_store = filter (\<lambda>x. x \<notin> set gone) (nd_rows notes_db) @ [r] \<and> nt_id r = ''n4'')"
proof
  show "map nt_id (nd_rows after_store) = [''n1'', ''n3'', ''n4'']" by code_simp
  have "fst (store_note ada_notes sample_ambient 5 ''n4'' ''todo'' ''call Eve'' None 2 ''room'' ''internal'' notes_db) = Inr ''n4''"
    by code_simp
  then have "store_note ada_notes sample_ambient 5 ''n4'' ''todo'' ''call Eve'' None 2 ''room'' ''internal'' notes_db = (Inr ''n4'', after_store)"
    unfolding after_store_def by (metis prod.collapse)
  from store_note_prunes_least_used[OF sample_distinct this]
  show "\<exists>gone r. nd_rows after_store = filter (\<lambda>x. x \<notin> set gone) (nd_rows notes_db) @ [r] \<and> nt_id r = ''n4''" by blast
qed

definition recalled :: "Note list" where
  "recalled = (case fst (recall_notes (\<lambda>_ _. None) ada_notes sample_ambient ''SHIP'' 5 None Sess_None
     (Some [''public'', ''internal'']) notes_db) of Inr ns \<Rightarrow> ns | Inl _ \<Rightarrow> [])"

theorem recall_within_acting_witness:
  "map note_id recalled = [''n2''] \<and>
   (\<exists>bound r. acting_rank (Some ''internal'') = Inr bound \<and>
      entry_rank_or_withhold (Some (note_protection_level (hd recalled))) = Some r \<and> r \<le> bound)"
proof
  show ids: "map note_id recalled = [''n2'']" by code_simp
  let ?c = "recall_notes (\<lambda>_ _. None) ada_notes sample_ambient ''SHIP'' 5 None Sess_None (Some [''public'', ''internal'']) notes_db"
  have lev: "injectable_levels (Some ''internal'') = Inr [''public'', ''internal'']" by code_simp
  have "(case fst ?c of Inr _ \<Rightarrow> True | Inl _ \<Rightarrow> False)" by code_simp
  then have "?c = (Inr recalled, snd ?c)" unfolding recalled_def by (cases ?c) (simp split: sum.splits)
  moreover have "recalled \<noteq> []" using ids by auto
  then have "hd recalled \<in> set recalled" by (rule hd_in_set)
  ultimately show "\<exists>bound r. acting_rank (Some ''internal'') = Inr bound \<and>
      entry_rank_or_withhold (Some (note_protection_level (hd recalled))) = Some r \<and> r \<le> bound"
    using recall_within_acting[OF lev] by blast
qed

theorem edit_raises_in_scope_witness:
  "map nt_protection_level (nd_rows (snd (update_note ada_notes sample_ambient 9 ''n2'' ''moved'' (Some ''restricted'')
      [''public'', ''internal''] notes_db))) = [''secret'', ''restricted'', ''internal''] \<and>
   fst (update_note ada_notes sample_ambient 9 ''n3'' ''moved'' (Some ''restricted'') [''public'', ''internal''] notes_db) = Inr False"
proof
  have lev: "levels_below_stamp (Some ''restricted'') = Inr [''public'', ''internal'']" by code_simp
  show "map nt_protection_level (nd_rows (snd (update_note ada_notes sample_ambient 9 ''n2'' ''moved'' (Some ''restricted'')
      [''public'', ''internal''] notes_db))) = [''secret'', ''restricted'', ''internal'']" by code_simp
  have n: "normalize_for_stamp (Some ''restricted'') = ''restricted''" by code_simp
  have no: "(list_ex (\<lambda>r. nt_id r = ''n3'' \<and> mutable ada_notes sample_ambient r) (nd_rows notes_db)) = False" by code_simp
  have ok: "check_note_content ''moved'' = Inr ()" by code_simp
  show "fst (update_note ada_notes sample_ambient 9 ''n3'' ''moved'' (Some ''restricted'') [''public'', ''internal''] notes_db) = Inr False"
    using edit_raises_in_scope[OF lev, where st = ada_notes and a = sample_ambient and now = 9 and i = "''n3''" and content = "''moved''" and db = notes_db] no
    unfolding n by (simp add: update_note_def Let_def ok list_ex_iff)
qed

theorem notes_isolated_witness:
  "filter (\<lambda>r. owner r = (''bo'', ''local'', ''live'')) (nd_rows after_store) = [sample_note ''n3'' ''bo'' 0 0 ''internal'']"
proof -
  have "(''bo'', ''local'', ''live'') \<noteq> note_acts_for ada_notes sample_ambient" by code_simp
  then have "filter (\<lambda>r. owner r = (''bo'', ''local'', ''live'')) (nd_rows after_store) =
      filter (\<lambda>r. owner r = (''bo'', ''local'', ''live'')) (nd_rows notes_db)"
    unfolding after_store_def by (intro notes_isolated[OF sample_distinct]) auto
  also have "\<dots> = [sample_note ''n3'' ''bo'' 0 0 ''internal'']" by (simp add: notes_db_def sample_note_def owner_def)
  finally show ?thesis .
qed

end
