(* ===== verification/Relationships.thy ===== *)
theory Relationships
  imports Scope_Filters Search_Text Decision_Types
    "HOL-Library.Product_Lexorder" "HOL-Library.List_Lexorder" "HOL-Library.Char_ord"
begin

text \<open>
  Trust, identity and interaction history between two participants: \<open>src/agents/memory/relationship.py\<close>,
  \<open>relationship_mutations.py\<close>, \<open>relationship_queries.py\<close> and \<open>relationship_types.py\<close>.

  The \<open>relationships\<close> table has one row per primary key, so it is an association list from keys to rows; the
  \<open>interactions\<close> table is the list of its rows in row order. The identity column holds the value its JSON text stands for.
  Scores are exact numbers. The id of a new interaction, the clock and the conversion of a text to a float
  are arguments; the agent ids of configured peers are texts, as the configuration schema has them.
\<close>


section \<open>Values of an identity\<close>

definition IDENTITY_LIST_KEYS :: "string list" where "IDENTITY_LIST_KEYS = [''prefs'']"
definition IDENTITY_TEXT_UNION_KEYS :: "string list" where "IDENTITY_TEXT_UNION_KEYS = [''raw'']"
definition TEXT_UNION_SEP :: string where "TEXT_UNION_SEP = ''. ''"

text \<open>
  Python's \<open>==\<close> on these values compares numbers of different types by value and dictionaries without
  regard to order.
\<close>

fun py_norm :: "pyval \<Rightarrow> pyval" where
  "py_norm (PyBool b) = PyFloat (Fin (if b then 1 else 0))"
| "py_norm (PyInt i) = PyFloat (Fin (of_int i))"
| "py_norm (PyList xs) = PyList (map py_norm xs)"
| "py_norm (PyDict d) = PyDict (sort_key fst (map (\<lambda>(k, v). (k, py_norm v)) d))"
| "py_norm v = v"

definition py_eq :: "pyval \<Rightarrow> pyval \<Rightarrow> bool" where
  "py_eq a b \<longleftrightarrow> py_norm a = py_norm b"

definition is_absent :: "pyval \<Rightarrow> bool" where
  "is_absent v \<longleftrightarrow> v = PyNone \<or> v = PyStr []"

definition union_preserving :: "pyval list \<Rightarrow> pyval list \<Rightarrow> pyval list" where
  "union_preserving base items =
     fold (\<lambda>item out. if \<not> is_absent item \<and> \<not> list_ex (py_eq item) out then out @ [item] else out) items base"

text \<open>\<open>s.split(sep)\<close> for a separator that is not empty; \<open>w\<close> is the piece read so far.\<close>

function split_on :: "string \<Rightarrow> string \<Rightarrow> string \<Rightarrow> string list" where
  "split_on sep w [] = [w]"
| "split_on sep w (c # cs) =
     (if sep \<noteq> [] \<and> take (length sep) (c # cs) = sep then w # split_on sep [] (drop (length sep) (c # cs))
      else split_on sep (w @ [c]) cs)"
  by pat_completeness auto
termination by (relation "measure (\<lambda>(sep, w, s). length s)") auto

definition split_clauses :: "pyval \<Rightarrow> pyval list" where
  "split_clauses v =
     (if is_absent v then []
      else case v of
        PyStr s \<Rightarrow> map PyStr (filter (\<lambda>c. c \<noteq> []) (map py_strip (split_on TEXT_UNION_SEP [] s)))
      | _ \<Rightarrow> [v])"

text \<open>\<open>sep.join(xs)\<close> raises on an element that is no text.\<close>

definition join_texts :: "pyval list \<Rightarrow> pyval result" where
  "join_texts xs =
     bind_r (mapM_r (\<lambda>v. case v of PyStr s \<Rightarrow> Inr s | _ \<Rightarrow> Inl TypeError) xs)
       (\<lambda>ss. Inr (PyStr (join TEXT_UNION_SEP ss)))"

definition as_list :: "pyval \<Rightarrow> pyval list" where
  "as_list v = (case v of PyList xs \<Rightarrow> xs | _ \<Rightarrow> [v])"

definition merge_field :: "string \<times> pyval \<Rightarrow> pydict \<Rightarrow> pydict result" where
  "merge_field kv merged = (case kv of (key, value) \<Rightarrow>
     if is_absent value then Inr merged
     else if key \<in> set IDENTITY_LIST_KEYS
     then Inr (AList.update key
            (PyList (union_preserving (as_list (py_get_or merged key (PyList []))) (as_list value))) merged)
     else if key \<in> set IDENTITY_TEXT_UNION_KEYS
     then bind_r (join_texts (union_preserving (split_clauses (py_get merged key)) (split_clauses value)))
            (\<lambda>t. Inr (AList.update key t merged))
     else Inr (AList.update key value merged))"

fun merge_identity :: "pydict \<Rightarrow> pydict \<Rightarrow> pydict result" where
  "merge_identity merged [] = Inr merged"
| "merge_identity merged (kv # kvs) = bind_r (merge_field kv merged) (\<lambda>m. merge_identity m kvs)"


section \<open>The tables\<close>

record rel_key =
  rk_participant_id :: string
  rk_participant_type :: string
  rk_other_id :: string
  rk_other_type :: string
  rk_principal :: string
  rk_epoch :: string

record rel_row =
  rr_trust :: rat
  rr_count :: int
  rr_last_at :: "rat option"
  rr_notes :: "string option"
  rr_session :: string
  rr_identity :: "pydict option"

record interaction_row =
  ix_id :: string
  ix_key :: rel_key
  ix_type :: string
  ix_outcome :: "string option"
  ix_sentiment :: rat
  ix_created_at :: rat
  ix_session :: string

record rel_db =
  rd_rows :: "(rel_key \<times> rel_row) list"
  rd_interactions :: "interaction_row list"
  rd_writes :: "tier_write list"

definition MAX_TRUST_DELTA :: rat where "MAX_TRUST_DELTA = 2 / 10"
definition DEFAULT_TRUST :: rat where "DEFAULT_TRUST = 1 / 2"
definition MAX_RECENT_INTERACTIONS :: nat where "MAX_RECENT_INTERACTIONS = 10"
definition VALID_PARTICIPANT_TYPES :: "string list" where "VALID_PARTICIPANT_TYPES = [''agent'', ''user'']"

definition validate_other_id :: "string \<Rightarrow> unit result" where
  "validate_other_id other = (if other = [] \<or> py_strip other = [] then Inl ValueError else Inr ())"

definition validate_participant_type :: "string \<Rightarrow> unit result" where
  "validate_participant_type t = (if t \<notin> set VALID_PARTICIPANT_TYPES then Inl ValueError else Inr ())"

definition validate_participant_types :: "string \<Rightarrow> string \<Rightarrow> unit result" where
  "validate_participant_types t u = bind_r (validate_participant_type t) (\<lambda>_. validate_participant_type u)"

definition truncate_field :: "string \<Rightarrow> string" where
  "truncate_field v = (if length v > 1024 then take 1021 v @ ''...'' else v)"

definition validate_key :: "rel_key \<Rightarrow> unit result" where
  "validate_key k =
     bind_r (validate_other_id (rk_other_id k)) (\<lambda>_.
       validate_participant_types (rk_participant_type k) (rk_other_type k))"

definition clamp :: "rat \<Rightarrow> rat \<Rightarrow> rat \<Rightarrow> rat" where
  "clamp lo hi x = max lo (min hi x)"

text \<open>\<open>INSERT ... ON CONFLICT DO UPDATE\<close>, and \<open>INSERT OR IGNORE\<close>.\<close>

definition upsert :: "rel_key \<Rightarrow> rel_row \<Rightarrow> (rel_row \<Rightarrow> rel_row) \<Rightarrow> (rel_key \<times> rel_row) list \<Rightarrow> (rel_key \<times> rel_row) list" where
  "upsert k new upd rows = (case map_of rows k of None \<Rightarrow> rows @ [(k, new)] | Some r \<Rightarrow> AList.update k (upd r) rows)"

definition insert_or_ignore :: "rel_key \<Rightarrow> rel_row \<Rightarrow> (rel_key \<times> rel_row) list \<Rightarrow> (rel_key \<times> rel_row) list" where
  "insert_or_ignore k new rows = (case map_of rows k of None \<Rightarrow> rows @ [(k, new)] | Some _ \<Rightarrow> rows)"

definition neutral_row :: rel_row where
  "neutral_row = \<lparr>rr_trust = DEFAULT_TRUST, rr_count = 0, rr_last_at = None, rr_notes = None,
                  rr_session = LEGACY_SESSION_ID, rr_identity = None\<rparr>"


section \<open>Writes\<close>

definition update_trust :: "rel_key \<Rightarrow> pyfloat \<Rightarrow> string \<Rightarrow> rel_db \<Rightarrow> rat result \<times> rel_db" where
  "update_trust k delta reason db =
     (case validate_key k of
        Inl e \<Rightarrow> (Inl e, db)
      | Inr _ \<Rightarrow>
          (case delta of
             Fin d0 \<Rightarrow>
               (let d = clamp (- MAX_TRUST_DELTA) MAX_TRUST_DELTA d0;
                    why = truncate_field reason;
                    new = neutral_row\<lparr>rr_trust := clamp 0 1 (DEFAULT_TRUST + d), rr_notes := Some why\<rparr>;
                    rows = upsert k new (\<lambda>r. r\<lparr>rr_trust := clamp 0 1 (rr_trust r + d), rr_notes := Some why\<rparr>) (rd_rows db)
                in (Inr (case map_of rows k of Some r \<Rightarrow> rr_trust r | None \<Rightarrow> rr_trust new), db\<lparr>rd_rows := rows\<rparr>))
           | _ \<Rightarrow> (Inl ValueError, db)))"

definition get_identity :: "rel_key \<Rightarrow> rel_db \<Rightarrow> pydict option" where
  "get_identity k db = (case map_of (rd_rows db) k of None \<Rightarrow> None | Some r \<Rightarrow> rr_identity r)"

definition upsert_identity :: "rel_key \<Rightarrow> pydict \<Rightarrow> rel_db \<Rightarrow> pydict result \<times> rel_db" where
  "upsert_identity k fs db =
     (case validate_key k of
        Inl e \<Rightarrow> (Inl e, db)
      | Inr _ \<Rightarrow>
          (case merge_identity (case get_identity k db of None \<Rightarrow> [] | Some d \<Rightarrow> d) fs of
             Inl e \<Rightarrow> (Inl e, db)
           | Inr merged \<Rightarrow>
               if merged = [] then (Inr merged, db)
               else (Inr merged,
                     db\<lparr>rd_rows := upsert k (neutral_row\<lparr>rr_identity := Some merged\<rparr>)
                                    (\<lambda>r. r\<lparr>rr_identity := Some merged\<rparr>) (rd_rows db)\<rparr>)))"

definition decays :: "string \<Rightarrow> string \<Rightarrow> string \<Rightarrow> string \<Rightarrow> rel_key \<times> rel_row \<Rightarrow> bool" where
  "decays agent pt pr ep kr \<longleftrightarrow>
     rk_participant_id (fst kr) = agent \<and> rk_participant_type (fst kr) = pt \<and> rk_principal (fst kr) = pr \<and>
     rk_epoch (fst kr) = ep \<and> \<bar>rr_trust (snd kr) - 1 / 2\<bar> > 1 / 1000"

definition decayed :: "rat \<Rightarrow> rel_row \<Rightarrow> rel_row" where
  "decayed rate r = r\<lparr>rr_trust := rr_trust r + rate * (1 / 2 - rr_trust r)\<rparr>"

definition apply_decay :: "string \<Rightarrow> pyfloat \<Rightarrow> string \<Rightarrow> string \<Rightarrow> string \<Rightarrow> rel_db \<Rightarrow> nat result \<times> rel_db" where
  "apply_decay agent rate pt pr ep db =
     (case rate of
        Fin q \<Rightarrow>
          if 0 < q \<and> q \<le> 1
          then (Inr (length (filter (decays agent pt pr ep) (rd_rows db))),
                db\<lparr>rd_rows := map (\<lambda>kr. if decays agent pt pr ep kr then (fst kr, decayed q (snd kr)) else kr) (rd_rows db)\<rparr>)
          else (Inl ValueError, db)
      | _ \<Rightarrow> (Inl ValueError, db))"

definition record_interaction ::
  "rel_key \<Rightarrow> rat \<Rightarrow> string \<Rightarrow> string \<Rightarrow> string option \<Rightarrow> pyfloat \<Rightarrow> string \<Rightarrow> rel_db \<Rightarrow> string result \<times> rel_db" where
  "record_interaction k now new_id kind outcome sentiment session db =
     (case validate_key k of
        Inl e \<Rightarrow> (Inl e, db)
      | Inr _ \<Rightarrow>
          if kind = [] \<or> py_strip kind = [] then (Inl ValueError, db)
          else case sentiment of
            Fin s \<Rightarrow>
              (let sess = normalize_session_id (Some session);
                   out = (case outcome of Some t \<Rightarrow> if t = [] then Some t else Some (truncate_field t) | None \<Rightarrow> None);
                   ix = \<lparr>ix_id = new_id, ix_key = k, ix_type = kind, ix_outcome = out, ix_sentiment = clamp (- 1) 1 s,
                         ix_created_at = now, ix_session = sess\<rparr>
               in if new_id \<in> ix_id ` set (rd_interactions db) then (Inl IntegrityError, db)
                  else (Inr new_id,
                        db\<lparr>rd_interactions := rd_interactions db @ [ix],
                           rd_rows := upsert k (neutral_row\<lparr>rr_count := 1, rr_last_at := Some now, rr_session := sess\<rparr>)
                             (\<lambda>r. r\<lparr>rr_count := rr_count r + 1, rr_last_at := Some now\<rparr>) (rd_rows db),
                           rd_writes := rd_writes db @
                             [\<lparr>tw_agent = rk_participant_id k, tw_session = sess, tw_surface = ''relationship'',
                               tw_tier = ''relationship'', tw_salience = RELATIONSHIP_APPEND_SALIENCE, tw_at = None\<rparr>]\<rparr>))
          | _ \<Rightarrow> (Inl ValueError, db))"

record seed_entry =
  se_agent_id :: "string option"
  se_trust_level :: pyval

definition py_float :: "(string \<Rightarrow> pyfloat option) \<Rightarrow> pyval \<Rightarrow> pyfloat result" where
  "py_float parse v =
     (case v of
        PyBool b \<Rightarrow> Inr (Fin (if b then 1 else 0))
      | PyInt i \<Rightarrow> (case float_of_int i of None \<Rightarrow> Inl OverflowError | Some x \<Rightarrow> Inr (Fin x))
      | PyFloat f \<Rightarrow> Inr f
      | PyStr s \<Rightarrow> (case parse s of None \<Rightarrow> Inl ValueError | Some f \<Rightarrow> Inr f)
      | _ \<Rightarrow> Inl TypeError)"

text \<open>
  \<open>max(0.0, min(1.0, x))\<close>: the two functions keep their first argument unless the second compares
  smaller (greater), which NaN never does.
\<close>

definition clamp_trust :: "pyfloat \<Rightarrow> rat" where
  "clamp_trust x = (case x of Fin r \<Rightarrow> clamp 0 1 r | PosInf \<Rightarrow> 1 | NegInf \<Rightarrow> 0 | NaN \<Rightarrow> 1)"

fun seed_trust ::
  "(string \<Rightarrow> pyfloat option) \<Rightarrow> string \<Rightarrow> seed_entry list \<Rightarrow> string \<Rightarrow> string \<Rightarrow> string \<Rightarrow> rel_db \<Rightarrow> unit result \<times> rel_db" where
  "seed_trust parse agent [] session pr ep db = (Inr (), db)"
| "seed_trust parse agent (e # es) session pr ep db =
     (case se_agent_id e of
        None \<Rightarrow> seed_trust parse agent es session pr ep db
      | Some other \<Rightarrow>
          if se_trust_level e = PyNone then seed_trust parse agent es session pr ep db
          else case py_float parse (se_trust_level e) of
            Inl err \<Rightarrow>
              if err \<in> {TypeError, ValueError} then seed_trust parse agent es session pr ep db else (Inl err, db)
          | Inr f \<Rightarrow>
              (let k = \<lparr>rk_participant_id = agent, rk_participant_type = ''agent'', rk_other_id = other,
                        rk_other_type = ''agent'', rk_principal = pr, rk_epoch = ep\<rparr>
               in seed_trust parse agent es session pr ep
                    (db\<lparr>rd_rows := insert_or_ignore k (neutral_row\<lparr>rr_trust := clamp_trust f, rr_session := session\<rparr>) (rd_rows db)\<rparr>)))"


section \<open>Reads\<close>

definition get_trust :: "rel_key \<Rightarrow> rel_db \<Rightarrow> rat" where
  "get_trust k db = (case map_of (rd_rows db) k of Some r \<Rightarrow> rr_trust r | None \<Rightarrow> DEFAULT_TRUST)"

record RelationshipSummary =
  rs_other_id :: string
  rs_other_type :: string
  rs_trust_score :: rat
  rs_interaction_count :: nat
  rs_last_interaction_at :: "rat option"
  rs_notes :: "string option"
  rs_recent :: "interaction_row list"
  rs_first_interaction_at :: "rat option"

definition history :: "rel_key \<Rightarrow> string list option \<Rightarrow> rel_db \<Rightarrow> interaction_row list" where
  "history k sl db =
     filter (\<lambda>x. ix_key x = k \<and> (case sl of None \<Rightarrow> True | Some ids \<Rightarrow> ix_session x \<in> set ids)) (rd_interactions db)"

fun extreme :: "(rat \<Rightarrow> rat \<Rightarrow> rat) \<Rightarrow> rat list \<Rightarrow> rat option" where
  "extreme f [] = None"
| "extreme f (x # xs) = (case extreme f xs of None \<Rightarrow> Some x | Some y \<Rightarrow> Some (f x y))"

definition get_relationship_summary :: "rel_key \<Rightarrow> string list option \<Rightarrow> rel_db \<Rightarrow> RelationshipSummary" where
  "get_relationship_summary k sl db =
     (case map_of (rd_rows db) k of
        None \<Rightarrow> \<lparr>rs_other_id = rk_other_id k, rs_other_type = rk_other_type k, rs_trust_score = DEFAULT_TRUST,
                 rs_interaction_count = 0, rs_last_interaction_at = None, rs_notes = None, rs_recent = [],
                 rs_first_interaction_at = None\<rparr>
      | Some r \<Rightarrow>
          (let h = history k sl db
           in \<lparr>rs_other_id = rk_other_id k, rs_other_type = rk_other_type k, rs_trust_score = rr_trust r,
               rs_interaction_count = length h, rs_last_interaction_at = extreme max (map ix_created_at h),
               rs_notes = rr_notes r,
               rs_recent = take MAX_RECENT_INTERACTIONS (sort_key (\<lambda>x. - ix_created_at x) (rev h)),
               rs_first_interaction_at = extreme min (map ix_created_at h)\<rparr>))"

definition get_all_relationships ::
  "string \<Rightarrow> string \<Rightarrow> string list option \<Rightarrow> string \<Rightarrow> string \<Rightarrow> rel_db \<Rightarrow> RelationshipSummary list" where
  "get_all_relationships agent pt sl pr ep db =
     map (\<lambda>kr. let h = history (fst kr) sl db
               in \<lparr>rs_other_id = rk_other_id (fst kr), rs_other_type = rk_other_type (fst kr),
                   rs_trust_score = rr_trust (snd kr), rs_interaction_count = length h,
                   rs_last_interaction_at = extreme max (map ix_created_at h), rs_notes = rr_notes (snd kr),
                   rs_recent = [], rs_first_interaction_at = None\<rparr>)
       (sort_key (\<lambda>kr. (- rr_trust (snd kr), rk_other_id (fst kr), rk_other_type (fst kr)))
         (filter (\<lambda>kr. rk_participant_id (fst kr) = agent \<and> rk_participant_type (fst kr) = pt \<and>
                        rk_principal (fst kr) = pr \<and> rk_epoch (fst kr) = ep) (rd_rows db)))"


section \<open>The tier\<close>

record RelationshipMemory =
  rm_agent_id :: string
  rm_ready :: bool
  rm_snapshot :: tier_snapshot

definition tier_key :: "RelationshipMemory \<Rightarrow> ambient \<Rightarrow> string \<Rightarrow> string \<Rightarrow> string \<Rightarrow> rel_key" where
  "tier_key m a other pt ot =
     \<lparr>rk_participant_id = rm_agent_id m, rk_participant_type = pt, rk_other_id = other, rk_other_type = ot,
      rk_principal = resolve_active_principal a (ts_principal (rm_snapshot m)),
      rk_epoch = resolve_active_epoch a (ts_epoch (rm_snapshot m))\<rparr>"

datatype rel_op =
    Op_Update string string string pyfloat string
  | Op_Identity string string string pydict
  | Op_Decay pyfloat string
  | Op_Record string string string rat string string "string option" pyfloat string
  | Op_Seed "string \<Rightarrow> pyfloat option" "seed_entry list" string

text \<open>One call of the tier's write interface in an ambient scope; a tier that is not open raises.\<close>

definition tier_call :: "RelationshipMemory \<Rightarrow> ambient \<Rightarrow> rel_op \<Rightarrow> rel_db \<Rightarrow> rel_db" where
  "tier_call m a op db =
     (if \<not> rm_ready m then db
      else case op of
        Op_Update other pt ot delta why \<Rightarrow> snd (update_trust (tier_key m a other pt ot) delta why db)
      | Op_Identity other pt ot fs \<Rightarrow> snd (upsert_identity (tier_key m a other pt ot) fs db)
      | Op_Decay rate pt \<Rightarrow>
          snd (apply_decay (rm_agent_id m) rate pt (resolve_active_principal a (ts_principal (rm_snapshot m)))
                 (resolve_active_epoch a (ts_epoch (rm_snapshot m))) db)
      | Op_Record other pt ot now i kind outcome s session \<Rightarrow>
          snd (record_interaction (tier_key m a other pt ot) now i kind outcome s session db)
      | Op_Seed parse es session \<Rightarrow>
          snd (seed_trust parse (rm_agent_id m) es session (resolve_active_principal a (ts_principal (rm_snapshot m)))
                 (resolve_active_epoch a (ts_epoch (rm_snapshot m))) db))"


section \<open>The rows as a map\<close>

lemma upsert_map:
  "map_of (upsert k new upd rows) = (map_of rows)(k \<mapsto> (case map_of rows k of None \<Rightarrow> new | Some r \<Rightarrow> upd r))"
proof (cases "map_of rows k")
  case None
  then show ?thesis by (auto simp: upsert_def map_add_def fun_eq_iff split: option.split)
next
  case (Some r)
  then show ?thesis by (simp add: upsert_def update_conv')
qed

lemma insert_or_ignore_map:
  "map_of (insert_or_ignore k new rows) = (if map_of rows k = None then (map_of rows)(k \<mapsto> new) else map_of rows)"
  by (auto simp: insert_or_ignore_def map_add_def fun_eq_iff split: option.split)

lemma upsert_distinct: "distinct (map fst rows) \<Longrightarrow> distinct (map fst (upsert k new upd rows))"
  by (auto simp: upsert_def distinct_update map_of_eq_None_iff split: option.split)

lemma insert_or_ignore_distinct: "distinct (map fst rows) \<Longrightarrow> distinct (map fst (insert_or_ignore k new rows))"
  by (auto simp: insert_or_ignore_def map_of_eq_None_iff split: option.split)

lemma map_of_map_rows:
  "map_of (map (\<lambda>kr. if P kr then (fst kr, f (snd kr)) else kr) rows) k =
     map_option (\<lambda>r. if P (k, r) then f r else r) (map_of rows k)"
  by (induction rows) auto

lemma map_fst_map_rows: "map fst (map (\<lambda>kr. if P kr then (fst kr, f (snd kr)) else kr) rows) = map fst rows"
  by (induction rows) auto


section \<open>What every reachable store satisfies\<close>

text \<open>
  Keys are unique, scores and sentiments are in range, and the counter of a row is the number of
  interactions recorded for its pair; an interaction always has its row.
\<close>

definition met :: "rel_key \<Rightarrow> rel_db \<Rightarrow> nat" where
  "met k db = length (filter (\<lambda>x. ix_key x = k) (rd_interactions db))"

definition rel_inv :: "rel_db \<Rightarrow> bool" where
  "rel_inv db \<longleftrightarrow>
     distinct (map fst (rd_rows db)) \<and> distinct (map ix_id (rd_interactions db)) \<and>
     (\<forall>k r. map_of (rd_rows db) k = Some r \<longrightarrow>
        0 \<le> rr_trust r \<and> rr_trust r \<le> 1 \<and> rr_count r = int (met k db) \<and> (rr_last_at r = None \<longleftrightarrow> met k db = 0)) \<and>
     (\<forall>x \<in> set (rd_interactions db). map_of (rd_rows db) (ix_key x) \<noteq> None \<and> - 1 \<le> ix_sentiment x \<and> ix_sentiment x \<le> 1)"

lemma clamp_range: "lo \<le> hi \<Longrightarrow> lo \<le> clamp lo hi x \<and> clamp lo hi x \<le> hi"
  by (auto simp: clamp_def)

lemma clamp_trust_range: "0 \<le> clamp_trust x \<and> clamp_trust x \<le> 1"
  by (auto simp: clamp_trust_def clamp_def split: pyfloat.split)

lemma rel_inv_trust: "rel_inv db \<Longrightarrow> map_of (rd_rows db) k = Some r \<Longrightarrow> 0 \<le> rr_trust r \<and> rr_trust r \<le> 1"
  unfolding rel_inv_def by blast

text \<open>A change of rows that keeps the counters and the range keeps the invariant.\<close>

lemma rel_inv_rows:
  assumes inv: "rel_inv db" and d: "distinct (map fst rows)"
    and dom: "\<And>k. map_of (rd_rows db) k \<noteq> None \<Longrightarrow> map_of rows k \<noteq> None"
    and row: "\<And>k r. map_of rows k = Some r \<Longrightarrow> 0 \<le> rr_trust r \<and> rr_trust r \<le> 1 \<and>
        (case map_of (rd_rows db) k of
           Some r0 \<Rightarrow> rr_count r = rr_count r0 \<and> rr_last_at r = rr_last_at r0
         | None \<Rightarrow> rr_count r = 0 \<and> rr_last_at r = None)"
  shows "rel_inv (db\<lparr>rd_rows := rows\<rparr>)"
proof -
  have "met k db = 0" if "map_of (rd_rows db) k = None" for k
    using inv that by (auto simp: rel_inv_def met_def filter_empty_conv)
  then have "rr_count r = int (met k db) \<and> (rr_last_at r = None \<longleftrightarrow> met k db = 0)" if "map_of rows k = Some r" for k r
    using row[OF that] inv by (cases "map_of (rd_rows db) k") (auto simp: rel_inv_def)
  moreover have "met k (db\<lparr>rd_rows := rows\<rparr>) = met k db" for k by (simp add: met_def)
  ultimately show ?thesis using inv d dom row by (auto simp: rel_inv_def)
qed

lemma update_trust_inv: "rel_inv db \<Longrightarrow> rel_inv (snd (update_trust k delta why db))"
proof -
  assume inv: "rel_inv db"
  then have d: "distinct (map fst (rd_rows db))" by (simp add: rel_inv_def)
  have "rel_inv (db\<lparr>rd_rows := upsert k (neutral_row\<lparr>rr_trust := clamp 0 1 (DEFAULT_TRUST + x), rr_notes := n\<rparr>)
      (\<lambda>r. r\<lparr>rr_trust := clamp 0 1 (rr_trust r + x), rr_notes := n\<rparr>) (rd_rows db)\<rparr>)" for x n
  proof (rule rel_inv_rows[OF inv upsert_distinct[OF d]])
    fix j r assume "map_of (upsert k (neutral_row\<lparr>rr_trust := clamp 0 1 (DEFAULT_TRUST + x), rr_notes := n\<rparr>)
      (\<lambda>r. r\<lparr>rr_trust := clamp 0 1 (rr_trust r + x), rr_notes := n\<rparr>) (rd_rows db)) j = Some r"
    then show "0 \<le> rr_trust r \<and> rr_trust r \<le> 1 \<and> (case map_of (rd_rows db) j of
           Some r0 \<Rightarrow> rr_count r = rr_count r0 \<and> rr_last_at r = rr_last_at r0 | None \<Rightarrow> rr_count r = 0 \<and> rr_last_at r = None)"
      using rel_inv_trust[OF inv, of j] clamp_range[of 0 1]
      by (auto simp: upsert_map neutral_row_def split: if_splits option.splits)
  qed (auto simp: upsert_map)
  then show ?thesis using inv by (auto simp: update_trust_def Let_def split: sum.split pyfloat.split)
qed

lemma upsert_identity_inv: "rel_inv db \<Longrightarrow> rel_inv (snd (upsert_identity k fs db))"
proof -
  assume inv: "rel_inv db"
  then have d: "distinct (map fst (rd_rows db))" by (simp add: rel_inv_def)
  have "rel_inv (db\<lparr>rd_rows := upsert k (neutral_row\<lparr>rr_identity := x\<rparr>) (\<lambda>r. r\<lparr>rr_identity := x\<rparr>) (rd_rows db)\<rparr>)" for x
  proof (rule rel_inv_rows[OF inv upsert_distinct[OF d]])
    fix j r assume "map_of (upsert k (neutral_row\<lparr>rr_identity := x\<rparr>) (\<lambda>r. r\<lparr>rr_identity := x\<rparr>) (rd_rows db)) j = Some r"
    then show "0 \<le> rr_trust r \<and> rr_trust r \<le> 1 \<and> (case map_of (rd_rows db) j of
           Some r0 \<Rightarrow> rr_count r = rr_count r0 \<and> rr_last_at r = rr_last_at r0 | None \<Rightarrow> rr_count r = 0 \<and> rr_last_at r = None)"
      using rel_inv_trust[OF inv, of j]
      by (auto simp: upsert_map neutral_row_def DEFAULT_TRUST_def split: if_splits option.splits)
  qed (auto simp: upsert_map)
  then show ?thesis using inv by (simp add: upsert_identity_def split: sum.split)
qed

lemma decay_range: "0 < q \<Longrightarrow> q \<le> 1 \<Longrightarrow> 0 \<le> t \<Longrightarrow> t \<le> (1 :: rat) \<Longrightarrow> 0 \<le> t + q * (1 / 2 - t) \<and> t + q * (1 / 2 - t) \<le> 1"
proof -
  assume a: "0 < q" "q \<le> 1" "0 \<le> t" "t \<le> (1 :: rat)"
  have e: "t + q * (1 / 2 - t) = (1 - q) * t + q * (1 / 2)" by (simp add: algebra_simps)
  have "(1 - q) * t \<le> (1 - q) * 1" using a by (intro mult_left_mono) simp_all
  moreover have "0 \<le> (1 - q) * t" using a by simp
  ultimately show ?thesis unfolding e using a by simp
qed

lemma apply_decay_inv: "rel_inv db \<Longrightarrow> rel_inv (snd (apply_decay ag rate pt pr ep db))"
proof -
  assume inv: "rel_inv db"
  then have d: "distinct (map fst (rd_rows db))" by (simp add: rel_inv_def)
  have "rel_inv (db\<lparr>rd_rows := map (\<lambda>kr. if decays ag pt pr ep kr then (fst kr, decayed q (snd kr)) else kr) (rd_rows db)\<rparr>)"
    if q: "0 < q" "q \<le> 1" for q
  proof (rule rel_inv_rows[OF inv])
    fix j r assume "map_of (map (\<lambda>kr. if decays ag pt pr ep kr then (fst kr, decayed q (snd kr)) else kr) (rd_rows db)) j = Some r"
    then obtain r0 where r0: "map_of (rd_rows db) j = Some r0" "r = (if decays ag pt pr ep (j, r0) then decayed q r0 else r0)"
      unfolding map_of_map_rows by auto
    then have "0 \<le> rr_trust r0 \<and> rr_trust r0 \<le> 1" using inv by (auto simp: rel_inv_def)
    then show "0 \<le> rr_trust r \<and> rr_trust r \<le> 1 \<and> (case map_of (rd_rows db) j of
           Some r0 \<Rightarrow> rr_count r = rr_count r0 \<and> rr_last_at r = rr_last_at r0 | None \<Rightarrow> rr_count r = 0 \<and> rr_last_at r = None)"
      using r0 decay_range[OF q] by (simp add: decayed_def)
  qed (simp_all only: map_fst_map_rows d map_of_map_rows option.map_disc_iff not_False_eq_True)
  then show ?thesis using inv by (simp add: apply_decay_def split: pyfloat.split)
qed

lemma seed_trust_inv: "rel_inv db \<Longrightarrow> rel_inv (snd (seed_trust parse agent es session pr ep db))"
proof (induction parse agent es session pr ep db rule: seed_trust.induct)
  case (2 parse agent e es session pr ep db)
  have step: "rel_inv (db\<lparr>rd_rows := insert_or_ignore k (neutral_row\<lparr>rr_trust := clamp_trust f, rr_session := session\<rparr>) (rd_rows db)\<rparr>)" for k f
  proof (rule rel_inv_rows[OF 2(5)])
    fix j r assume "map_of (insert_or_ignore k (neutral_row\<lparr>rr_trust := clamp_trust f, rr_session := session\<rparr>) (rd_rows db)) j = Some r"
    then show "0 \<le> rr_trust r \<and> rr_trust r \<le> 1 \<and> (case map_of (rd_rows db) j of
           Some r0 \<Rightarrow> rr_count r = rr_count r0 \<and> rr_last_at r = rr_last_at r0 | None \<Rightarrow> rr_count r = 0 \<and> rr_last_at r = None)"
      using rel_inv_trust[OF 2(5), of j] clamp_trust_range[of f]
      by (auto simp: insert_or_ignore_map neutral_row_def split: if_splits option.splits)
  qed (use 2(5) in \<open>auto simp: insert_or_ignore_map rel_inv_def intro: insert_or_ignore_distinct\<close>)
  show ?case
    using 2(1)[OF _ 2(5)] 2(2)[OF _ _ 2(5)] 2(3)[OF _ _ _ _ 2(5)] 2(4)[OF _ _ _ refl step] 2(5)
    by (auto split: option.split sum.split)
qed simp

lemma record_interaction_inv:
  assumes inv: "rel_inv db"
  shows "rel_inv (snd (record_interaction k now i kind outcome s session db))"
proof -
  have "rel_inv (db\<lparr>rd_interactions := rd_interactions db @ [x],
      rd_rows := upsert k (neutral_row\<lparr>rr_count := 1, rr_last_at := Some now, rr_session := se\<rparr>)
        (\<lambda>r. r\<lparr>rr_count := rr_count r + 1, rr_last_at := Some now\<rparr>) (rd_rows db), rd_writes := w\<rparr>)" (is "rel_inv ?db'")
    if x: "ix_key x = k" "ix_id x \<notin> ix_id ` set (rd_interactions db)" "- 1 \<le> ix_sentiment x" "ix_sentiment x \<le> 1" for x se w
  proof -
    have met: "met j ?db' = met j db + (if j = k then 1 else 0)" for j using x(1) by (simp add: met_def)
    have none: "met j db = 0" if "map_of (rd_rows db) j = None" for j
      using inv that by (auto simp: rel_inv_def met_def filter_empty_conv)
    have old: "0 \<le> rr_trust r \<and> rr_trust r \<le> 1 \<and> rr_count r = int (met j db) \<and> (rr_last_at r = None \<longleftrightarrow> met j db = 0)"
      if "map_of (rd_rows db) j = Some r" for j r using inv that unfolding rel_inv_def by blast
    have rows: "0 \<le> rr_trust r \<and> rr_trust r \<le> 1 \<and> rr_count r = int (met j ?db') \<and> (rr_last_at r = None \<longleftrightarrow> met j ?db' = 0)"
      if "map_of (rd_rows ?db') j = Some r" for j r
      unfolding met using that old[of j] none[of k]
      by (auto simp: upsert_map neutral_row_def DEFAULT_TRUST_def split: if_splits option.splits)
    have "distinct (map fst (rd_rows ?db'))" using inv by (simp add: rel_inv_def upsert_distinct)
    moreover have "distinct (map ix_id (rd_interactions ?db'))" using inv x(2) by (simp add: rel_inv_def)
    moreover have "\<forall>y \<in> set (rd_interactions ?db'). map_of (rd_rows ?db') (ix_key y) \<noteq> None \<and> - 1 \<le> ix_sentiment y \<and> ix_sentiment y \<le> 1"
      using inv x by (auto simp: rel_inv_def upsert_map)
    ultimately show ?thesis using rows unfolding rel_inv_def by blast
  qed
  note new = this
  show ?thesis
    unfolding record_interaction_def Let_def using inv
    by (auto split: sum.split pyfloat.split intro!: new simp: clamp_range)
qed

lemma tier_call_inv: "rel_inv db \<Longrightarrow> rel_inv (tier_call m a op db)"
  by (cases op) (simp_all add: tier_call_def update_trust_inv upsert_identity_inv apply_decay_inv
      record_interaction_inv seed_trust_inv)

definition empty_db :: rel_db where "empty_db = \<lparr>rd_rows = [], rd_interactions = [], rd_writes = []\<rparr>"

definition run_calls :: "(RelationshipMemory \<times> ambient \<times> rel_op) list \<Rightarrow> rel_db \<Rightarrow> rel_db" where
  "run_calls cs db = fold (\<lambda>(m, a, op). tier_call m a op) cs db"

lemma run_calls_inv: "rel_inv db \<Longrightarrow> rel_inv (run_calls cs db)"
  unfolding run_calls_def by (induction cs arbitrary: db) (auto simp: tier_call_inv)

lemma empty_inv: "rel_inv empty_db"
  by (simp add: rel_inv_def empty_db_def)

text \<open>
  C29. After any calls of any personas in any scopes, whatever deltas, rates, sentiments and configured seeds they
  were given: trust is within 0 and 1 for every pair, there is one row per pair, person and epoch, and
  what a summary over all sessions counts is the counter the row keeps; a summary over some sessions
  never counts more, and it shows at most ten interactions, all of that pair.
\<close>

theorem relationships_sound:
  "let db = run_calls cs empty_db
   in 0 \<le> get_trust k db \<and> get_trust k db \<le> 1 \<and> distinct (map fst (rd_rows db)) \<and>
     int (rs_interaction_count (get_relationship_summary k None db)) = (case map_of (rd_rows db) k of Some r \<Rightarrow> rr_count r | None \<Rightarrow> 0) \<and>
     rs_interaction_count (get_relationship_summary k sl db) \<le> rs_interaction_count (get_relationship_summary k None db) \<and>
     length (rs_recent (get_relationship_summary k sl db)) \<le> 10 \<and>
     set (rs_recent (get_relationship_summary k sl db)) \<subseteq> {x \<in> set (rd_interactions db). ix_key x = k}"
  unfolding Let_def
proof (intro conjI)
  define db where "db = run_calls cs empty_db"
  have inv: "rel_inv db" unfolding db_def by (rule run_calls_inv[OF empty_inv])
  have cnt: "rr_count r = int (met k db)" if "map_of (rd_rows db) k = Some r" for r using inv that unfolding rel_inv_def by blast
  have "history k sl db = filter (\<lambda>x. case sl of None \<Rightarrow> True | Some ids \<Rightarrow> ix_session x \<in> set ids) (history k None db)"
    by (simp add: history_def conj_commute)
  then have sub: "length (history k sl db) \<le> length (history k None db)" by (metis length_filter_le)
  show "0 \<le> get_trust k (run_calls cs empty_db)" "get_trust k (run_calls cs empty_db) \<le> 1"
    using rel_inv_trust[OF inv, of k] unfolding db_def[symmetric]
    by (auto simp: get_trust_def DEFAULT_TRUST_def split: option.split)
  show "distinct (map fst (rd_rows (run_calls cs empty_db)))"
    using inv unfolding db_def[symmetric] by (simp add: rel_inv_def)
  show "int (rs_interaction_count (get_relationship_summary k None (run_calls cs empty_db))) =
      (case map_of (rd_rows (run_calls cs empty_db)) k of Some r \<Rightarrow> rr_count r | None \<Rightarrow> 0)"
    using cnt unfolding db_def[symmetric]
    by (simp add: get_relationship_summary_def Let_def history_def met_def split: option.split)
  show "rs_interaction_count (get_relationship_summary k sl (run_calls cs empty_db))
      \<le> rs_interaction_count (get_relationship_summary k None (run_calls cs empty_db))"
    using sub unfolding db_def[symmetric] by (simp add: get_relationship_summary_def Let_def split: option.split)
  show "length (rs_recent (get_relationship_summary k sl (run_calls cs empty_db))) \<le> 10"
    by (simp add: get_relationship_summary_def Let_def MAX_RECENT_INTERACTIONS_def split: option.split)
  show "set (rs_recent (get_relationship_summary k sl (run_calls cs empty_db)))
      \<subseteq> {x \<in> set (rd_interactions (run_calls cs empty_db)). ix_key x = k}"
    by (auto simp: get_relationship_summary_def Let_def history_def split: option.split dest!: in_set_takeD)
qed


section \<open>Trust moves slowly\<close>

text \<open>
  C30. One trust update moves a score by at most 0.2, whatever the delta, and returns what a later read
  gives; a delta that is not finite or a key that is not valid changes nothing. A decay pass multiplies the
  distance of its own rows from neutral by one minus the rate, so a score never crosses 0.5, and
  leaves rows within 0.001 of it, and every other persona's, person's and epoch's rows, alone.
\<close>

theorem trust_moves_slowly:
  assumes "rel_inv db"
  shows "(case update_trust k delta why db of
      (Inr t, db') \<Rightarrow> t = get_trust k db' \<and> \<bar>t - get_trust k db\<bar> \<le> 2 / 10 \<and>
         (\<forall>j. j \<noteq> k \<longrightarrow> map_of (rd_rows db') j = map_of (rd_rows db) j) \<and> (\<exists>d. delta = Fin d)
    | (Inl e, db') \<Rightarrow> e = ValueError \<and> db' = db) \<and>
    (case apply_decay ag rate pt pr ep db of
      (Inr n, db') \<Rightarrow> \<exists>q. rate = Fin q \<and> 0 < q \<and> q \<le> 1 \<and>
         (\<forall>j. map_of (rd_rows db') j =
            map_option (\<lambda>r. if decays ag pt pr ep (j, r) then r\<lparr>rr_trust := 1 / 2 + (1 - q) * (rr_trust r - 1 / 2)\<rparr> else r)
              (map_of (rd_rows db) j))
    | (Inl e, db') \<Rightarrow> e = ValueError \<and> db' = db)"
proof
  have val: "validate_key k = Inl e \<Longrightarrow> e = ValueError" for e
    by (auto simp: validate_key_def validate_other_id_def validate_participant_types_def validate_participant_type_def
        split: if_splits)
  have step: "\<bar>clamp 0 1 (t + clamp (- MAX_TRUST_DELTA) MAX_TRUST_DELTA d) - t\<bar> \<le> 2 / 10" if "0 \<le> t" "t \<le> 1" for t d
    using that by (auto simp: clamp_def MAX_TRUST_DELTA_def max_def min_def abs_if)
  have start: "\<bar>clamp 0 1 (DEFAULT_TRUST + clamp (- MAX_TRUST_DELTA) MAX_TRUST_DELTA d) - DEFAULT_TRUST\<bar> \<le> 2 / 10" for d
    by (rule step) (simp_all add: DEFAULT_TRUST_def)
  show "case update_trust k delta why db of
      (Inr t, db') \<Rightarrow> t = get_trust k db' \<and> \<bar>t - get_trust k db\<bar> \<le> 2 / 10 \<and>
         (\<forall>j. j \<noteq> k \<longrightarrow> map_of (rd_rows db') j = map_of (rd_rows db) j) \<and> (\<exists>d. delta = Fin d)
    | (Inl e, db') \<Rightarrow> e = ValueError \<and> db' = db"
    using rel_inv_trust[OF assms, of k] step start val
    by (auto simp: update_trust_def Let_def upsert_map get_trust_def neutral_row_def split: sum.split pyfloat.split option.split)
  have eq: "decayed q r = r\<lparr>rr_trust := 1 / 2 + (1 - q) * (rr_trust r - 1 / 2)\<rparr>" for q r
    by (simp add: decayed_def field_simps)
  show "case apply_decay ag rate pt pr ep db of
      (Inr n, db') \<Rightarrow> \<exists>q. rate = Fin q \<and> 0 < q \<and> q \<le> 1 \<and>
         (\<forall>j. map_of (rd_rows db') j =
            map_option (\<lambda>r. if decays ag pt pr ep (j, r) then r\<lparr>rr_trust := 1 / 2 + (1 - q) * (rr_trust r - 1 / 2)\<rparr> else r)
              (map_of (rd_rows db) j))
    | (Inl e, db') \<Rightarrow> e = ValueError \<and> db' = db"
    unfolding eq[symmetric] by (auto simp: apply_decay_def map_of_map_rows split: pyfloat.split)
qed


section \<open>Who a person is, in every room\<close>

lemma merge_field_other: "merge_field (key, v) m = Inr m' \<Longrightarrow> j \<noteq> key \<Longrightarrow> map_of m' j = map_of m j"
  by (auto simp: merge_field_def bind_r_Inr_iff update_conv' split: if_splits)

lemma merge_identity_other:
  "merge_identity m inc = Inr m' \<Longrightarrow> (\<And>v. (j, v) \<in> set inc \<Longrightarrow> is_absent v) \<Longrightarrow> map_of m' j = map_of m j"
proof (induction m inc rule: merge_identity.induct)
  case (2 m kv kvs)
  obtain k v where kv: "kv = (k, v)" by (cases kv)
  then obtain m1 where m1: "merge_field (k, v) m = Inr m1" "merge_identity m1 kvs = Inr m'"
    using 2(2) by (auto simp: bind_r_Inr_iff)
  have "map_of m1 j = map_of m j"
  proof (cases "j = k")
    case True
    then have "is_absent v" using 2(3)[of v] kv by simp
    then show ?thesis using m1(1) by (simp add: merge_field_def)
  qed (use merge_field_other[OF m1(1)] in simp)
  moreover have "map_of m' j = map_of m1 j" using 2(1)[OF m1(2)] 2(3) by auto
  ultimately show ?case by simp
qed simp

lemma merge_identity_scalar:
  assumes "merge_identity m inc = Inr m'" "distinct (map fst inc)" "(k, v) \<in> set inc" "\<not> is_absent v"
    "k \<notin> set IDENTITY_LIST_KEYS" "k \<notin> set IDENTITY_TEXT_UNION_KEYS"
  shows "map_of m' k = Some v"
  using assms
proof (induction m inc rule: merge_identity.induct)
  case (2 m kv kvs)
  obtain m1 where m1: "merge_field kv m = Inr m1" "merge_identity m1 kvs = Inr m'"
    using 2(2) by (auto simp: bind_r_Inr_iff)
  show ?case
  proof (cases "kv = (k, v)")
    case True
    then have "m1 = AList.update k v m" using m1(1) 2(5-7) by (simp add: merge_field_def)
    moreover have "map_of m' k = map_of m1 k"
      using 2(3) True by (intro merge_identity_other[OF m1(2)]) force
    ultimately show ?thesis by (simp add: update_conv')
  next
    case False
    then show ?thesis using 2(1)[OF m1(2)] 2(3-7) by auto
  qed
qed simp

lemma union_preserving_keeps: "\<exists>extra. union_preserving base items = base @ extra"
  unfolding union_preserving_def
proof (induction items arbitrary: base)
  case (Cons x xs)
  show ?case
    using Cons[of base] Cons[of "base @ [x]"] by auto
qed simp

lemma merge_field_list:
  assumes "merge_field (k, v) m = Inr m'" "map_of m j = Some (PyList xs)" "j \<in> set IDENTITY_LIST_KEYS"
  shows "\<exists>extra. map_of m' j = Some (PyList (xs @ extra))"
proof (cases "k = j \<and> \<not> is_absent v")
  case True
  then have "m' = AList.update j (PyList (union_preserving xs (as_list v))) m"
    using assms by (simp add: merge_field_def py_get_or_def as_list_def)
  then show ?thesis using union_preserving_keeps[of xs "as_list v"] by (auto simp: update_conv')
next
  case False
  then have "map_of m' j = map_of m j"
    using assms(1) merge_field_other[OF assms(1), of j] by (cases "k = j") (auto simp: merge_field_def)
  then show ?thesis using assms(2) by simp
qed

lemma merge_identity_list:
  "merge_identity m inc = Inr m' \<Longrightarrow> map_of m j = Some (PyList xs) \<Longrightarrow> j \<in> set IDENTITY_LIST_KEYS \<Longrightarrow>
     \<exists>extra. map_of m' j = Some (PyList (xs @ extra))"
proof (induction m inc arbitrary: xs rule: merge_identity.induct)
  case (2 m kv kvs)
  obtain k v where kv: "kv = (k, v)" by (cases kv)
  then obtain m1 where m1: "merge_field (k, v) m = Inr m1" "merge_identity m1 kvs = Inr m'"
    using 2(2) by (auto simp: bind_r_Inr_iff)
  obtain extra where "map_of m1 j = Some (PyList (xs @ extra))" using merge_field_list[OF m1(1) 2(3,4)] by blast
  then show ?case using 2(1)[OF m1(2), of "xs @ extra"] 2(4) by auto
qed simp

definition stored_identity :: "rel_key \<Rightarrow> rel_db \<Rightarrow> pydict" where
  "stored_identity k db = (case get_identity k db of None \<Rightarrow> [] | Some d \<Rightarrow> d)"

lemma upsert_identity_success:
  assumes "upsert_identity k fs db = (Inr m, db')"
  shows "merge_identity (stored_identity k db) fs = Inr m" "m \<noteq> [] \<Longrightarrow> get_identity k db' = Some m"
    "j \<noteq> k \<Longrightarrow> map_of (rd_rows db') j = map_of (rd_rows db) j"
  using assms unfolding upsert_identity_def stored_identity_def
  by (auto simp: get_identity_def upsert_map split: sum.splits if_splits option.splits)

lemma upsert_identity_failure: "fst (upsert_identity k fs db) = Inl e \<Longrightarrow> snd (upsert_identity k fs db) = db"
  unfolding upsert_identity_def by (auto split: sum.splits if_splits)

lemma merge_identity_nonempty:
  "merge_identity m inc = Inr m' \<Longrightarrow> m \<noteq> [] \<or> (\<exists>(k, v) \<in> set inc. \<not> is_absent v) \<Longrightarrow> m' \<noteq> []"
proof (induction m inc rule: merge_identity.induct)
  case (2 m kv kvs)
  obtain k v where kv: "kv = (k, v)" by (cases kv)
  obtain m1 where m1: "merge_field (k, v) m = Inr m1" "merge_identity m1 kvs = Inr m'"
    using 2(2) kv by (auto simp: bind_r_Inr_iff)
  have "AList.update k x m \<noteq> []" for x by (cases m) auto
  then have "m \<noteq> [] \<or> \<not> is_absent v \<Longrightarrow> m1 \<noteq> []" using m1(1) by (auto simp: merge_field_def bind_r_Inr_iff split: if_splits)
  then show ?case using 2(1)[OF m1(2)] 2(3) kv by auto
qed simp

text \<open>
  Writing a person's identity is read back in every session: after it the row of the pair holds the
  merged identity, with its trust, trust note and counter untouched and every other row as it was. The merge loses
  nothing: a field the note does not state keeps its value, a stated name or role replaces the old
  one, and the preferences only grow.
\<close>

lemma identity_accumulates:
  assumes "upsert_identity k fs db = (Inr m, db')" "distinct (map fst fs)"
  shows "(get_identity k db' = Some m \<or> m = [] \<and> db' = db) \<and> get_trust k db' = get_trust k db \<and>
     map_option rr_notes (map_of (rd_rows db') k) \<in> {map_option rr_notes (map_of (rd_rows db) k), Some None} \<and>
     (\<forall>j. j \<noteq> k \<longrightarrow> map_of (rd_rows db') j = map_of (rd_rows db) j) \<and>
     (\<forall>j. (\<forall>v. (j, v) \<in> set fs \<longrightarrow> is_absent v) \<longrightarrow> map_of m j = map_of (stored_identity k db) j) \<and>
     (\<forall>j v. (j, v) \<in> set fs \<and> \<not> is_absent v \<and> j \<in> {''name'', ''role''} \<longrightarrow> map_of m j = Some v) \<and>
     (\<forall>xs. map_of (stored_identity k db) ''prefs'' = Some (PyList xs) \<longrightarrow> (\<exists>extra. map_of m ''prefs'' = Some (PyList (xs @ extra))))"
proof -
  define old where "old = stored_identity k db"
  have merged: "merge_identity old fs = Inr m"
    using assms(1) unfolding upsert_identity_def old_def stored_identity_def by (auto split: sum.splits if_splits)
  have db': "db' = (if m = [] then db else db\<lparr>rd_rows := upsert k (neutral_row\<lparr>rr_identity := Some m\<rparr>)
                                    (\<lambda>r. r\<lparr>rr_identity := Some m\<rparr>) (rd_rows db)\<rparr>)"
    using assms(1) unfolding upsert_identity_def by (auto split: sum.splits if_splits)
  have "(get_identity k db' = Some m \<or> m = [] \<and> db' = db) \<and> get_trust k db' = get_trust k db \<and>
     map_option rr_notes (map_of (rd_rows db') k) \<in> {map_option rr_notes (map_of (rd_rows db) k), Some None} \<and>
     (\<forall>j. j \<noteq> k \<longrightarrow> map_of (rd_rows db') j = map_of (rd_rows db) j)"
    unfolding db' by (simp add: get_identity_def get_trust_def upsert_map neutral_row_def split: option.split)
  moreover have "\<forall>j. (\<forall>v. (j, v) \<in> set fs \<longrightarrow> is_absent v) \<longrightarrow> map_of m j = map_of old j"
    using merge_identity_other[OF merged] by blast
  moreover have "\<forall>j v. (j, v) \<in> set fs \<and> \<not> is_absent v \<and> j \<in> {''name'', ''role''} \<longrightarrow> map_of m j = Some v"
    using merge_identity_scalar[OF merged assms(2)] by (auto simp: IDENTITY_LIST_KEYS_def IDENTITY_TEXT_UNION_KEYS_def)
  moreover have "\<forall>xs. map_of old ''prefs'' = Some (PyList xs) \<longrightarrow> (\<exists>extra. map_of m ''prefs'' = Some (PyList (xs @ extra)))"
    using merge_identity_list[OF merged] by (simp add: IDENTITY_LIST_KEYS_def)
  ultimately show ?thesis unfolding old_def by blast
qed


section \<open>Nobody else's relationships\<close>

definition rel_acts_for :: "RelationshipMemory \<Rightarrow> ambient \<Rightarrow> string \<times> string \<times> string" where
  "rel_acts_for m a =
     (rm_agent_id m, resolve_active_principal a (ts_principal (rm_snapshot m)),
      resolve_active_epoch a (ts_epoch (rm_snapshot m)))"

definition key_owner :: "rel_key \<Rightarrow> string \<times> string \<times> string" where
  "key_owner k = (rk_participant_id k, rk_principal k, rk_epoch k)"

lemma tier_key_owner: "key_owner (tier_key m a other pt ot) = rel_acts_for m a"
  by (simp add: key_owner_def tier_key_def rel_acts_for_def)

definition same_for :: "rel_key \<Rightarrow> rel_db \<Rightarrow> rel_db \<Rightarrow> bool" where
  "same_for k db db' \<longleftrightarrow> map_of (rd_rows db') k = map_of (rd_rows db) k \<and>
     filter (\<lambda>x. ix_key x = k) (rd_interactions db') = filter (\<lambda>x. ix_key x = k) (rd_interactions db)"

lemma update_trust_same: "k \<noteq> j \<Longrightarrow> same_for k db (snd (update_trust j delta why db))"
  by (simp add: same_for_def update_trust_def Let_def upsert_map split: sum.split pyfloat.split)

lemma upsert_identity_same: "k \<noteq> j \<Longrightarrow> same_for k db (snd (upsert_identity j fs db))"
  by (simp add: same_for_def upsert_identity_def upsert_map split: sum.split)

lemma record_interaction_same: "k \<noteq> j \<Longrightarrow> same_for k db (snd (record_interaction j now i kind outcome s session db))"
  by (auto simp: same_for_def record_interaction_def Let_def upsert_map split: sum.split pyfloat.split)

lemma apply_decay_same:
  "key_owner k \<noteq> (ag, pr, ep) \<Longrightarrow> same_for k db (snd (apply_decay ag rate pt pr ep db))"
proof -
  assume "key_owner k \<noteq> (ag, pr, ep)"
  then have no: "\<not> decays ag pt pr ep (k, r)" for r by (auto simp: decays_def key_owner_def)
  show ?thesis by (simp add: same_for_def apply_decay_def map_of_map_rows no option.map_ident split: pyfloat.split)
qed

lemma seed_trust_map:
  "rd_interactions (snd (seed_trust parse ag es session pr ep db)) = rd_interactions db \<and>
   (map_of (rd_rows db) k \<noteq> None \<or> key_owner k \<noteq> (ag, pr, ep) \<longrightarrow>
      map_of (rd_rows (snd (seed_trust parse ag es session pr ep db))) k = map_of (rd_rows db) k)"
proof (induction parse ag es session pr ep db rule: seed_trust.induct)
  case (2 parse agent e es session pr ep db)
  show ?case
  proof (cases "se_agent_id e")
    case None
    then show ?thesis using 2(1) by simp
  next
    case (Some other)
    show ?thesis
    proof (cases "se_trust_level e = PyNone")
      case True
      then show ?thesis using Some 2(2) by simp
    next
      case False
      show ?thesis
      proof (cases "py_float parse (se_trust_level e)")
        case (Inl err)
        then show ?thesis using Some False 2(3)[OF Some False Inl] by simp
      next
        case (Inr f)
        show ?thesis using Some False Inr 2(4)[OF Some False Inr refl]
          by (auto simp: insert_or_ignore_map key_owner_def split: if_splits)
      qed
    qed
  qed
qed simp

lemma tier_call_same:
  assumes "key_owner k \<noteq> rel_acts_for m a"
  shows "same_for k db (tier_call m a op db)"
proof -
  have "k \<noteq> tier_key m a other pt ot" for other pt ot using assms tier_key_owner by metis
  then show ?thesis using assms seed_trust_map
    by (cases op) (auto simp: tier_call_def update_trust_same upsert_identity_same record_interaction_same
        rel_acts_for_def intro: apply_decay_same, auto simp: same_for_def)
qed

lemma same_for_reads:
  assumes "same_for k db db'"
  shows "get_trust k db' = get_trust k db \<and> get_identity k db' = get_identity k db \<and>
    get_relationship_summary k sl db' = get_relationship_summary k sl db"
proof -
  have "history k sl d = filter (\<lambda>x. case sl of None \<Rightarrow> True | Some ids \<Rightarrow> ix_session x \<in> set ids)
      (filter (\<lambda>x. ix_key x = k) (rd_interactions d))" for d by (simp add: history_def conj_commute)
  then have "history k sl db' = history k sl db" using assms unfolding same_for_def by (simp only:)
  then show ?thesis using assms
    by (simp add: same_for_def get_trust_def get_identity_def get_relationship_summary_def split: option.split)
qed

text \<open>
  No call of another persona, or for another person or epoch, changes what a turn reads of a
  relationship: the trust, the identity and the summary over any sessions are what they were. And the
  configured seeds of a persona never overwrite a row that is there.
\<close>

lemma relationships_isolated:
  assumes "key_owner k \<noteq> rel_acts_for m a"
  shows "get_trust k (tier_call m a op db) = get_trust k db \<and> get_identity k (tier_call m a op db) = get_identity k db \<and>
     get_relationship_summary k sl (tier_call m a op db) = get_relationship_summary k sl db \<and>
     (map_of (rd_rows db) j \<noteq> None \<longrightarrow>
        map_of (rd_rows (snd (seed_trust parse ag es session pr ep db))) j = map_of (rd_rows db) j)"
  using same_for_reads[OF tier_call_same[OF assms]] seed_trust_map by blast

text \<open>
  A configured trust level that is not a number is taken as full trust: the clamp of the seed keeps its bound
  when the comparison with NaN fails, so the peer starts at 1.
\<close>

lemma nan_seed_is_full_trust:
  assumes "map_of (rd_rows db) k = None" "rk_participant_type k = ''agent''" "rk_other_type k = ''agent''"
  shows "get_trust k (snd (seed_trust parse (rk_participant_id k) [\<lparr>se_agent_id = Some (rk_other_id k), se_trust_level = PyFloat NaN\<rparr>]
           session (rk_principal k) (rk_epoch k) db)) = 1"
proof -
  have "\<lparr>rk_participant_id = rk_participant_id k, rk_participant_type = ''agent'', rk_other_id = rk_other_id k,
      rk_other_type = ''agent'', rk_principal = rk_principal k, rk_epoch = rk_epoch k\<rparr> = k" using assms(2,3) by simp
  then show ?thesis using assms(1) by (simp add: py_float_def get_trust_def insert_or_ignore_map clamp_trust_def)
qed


section \<open>A meeting\<close>

definition rel_ambient :: ambient where
  "rel_ambient = \<lparr>active_principal = None, active_session = Some ''room'', active_epoch = None,
      env_principal = None, env_session = None, env_epoch = None\<rparr>"

definition ada_rel :: RelationshipMemory where
  "ada_rel = \<lparr>rm_agent_id = ''ada'', rm_ready = True, rm_snapshot = mk_snapshot rel_ambient\<rparr>"
definition bo_rel :: RelationshipMemory where
  "bo_rel = \<lparr>rm_agent_id = ''bo'', rm_ready = True, rm_snapshot = mk_snapshot rel_ambient\<rparr>"

definition eve_key :: rel_key where "eve_key = tier_key ada_rel rel_ambient ''eve'' ''agent'' ''user''"

definition meeting :: rel_db where
  "meeting = run_calls
     [(ada_rel, rel_ambient, Op_Record ''eve'' ''agent'' ''user'' 3 ''i1'' ''chat'' None (Fin 5) ''room''),
      (ada_rel, rel_ambient, Op_Update ''eve'' ''agent'' ''user'' (Fin 9) ''kind''),
      (ada_rel, rel_ambient, Op_Identity ''eve'' ''agent'' ''user'' [(''name'', PyStr ''Eve''), (''prefs'', PyList [PyStr ''tea''])])]
     empty_db"

lemma meeting_inv: "rel_inv meeting"
  unfolding meeting_def by (rule run_calls_inv[OF empty_inv])

theorem trust_moves_slowly_witness:
  "get_trust eve_key meeting = 7 / 10 \<and>
   \<bar>get_trust eve_key (snd (update_trust eve_key (Fin (- 50)) ''rude'' meeting)) - get_trust eve_key meeting\<bar> \<le> 2 / 10"
proof
  show "get_trust eve_key meeting = 7 / 10" by code_simp
  have "(case fst (update_trust eve_key (Fin (- 50)) ''rude'' meeting) of Inr _ \<Rightarrow> True | Inl _ \<Rightarrow> False)" by code_simp
  then obtain t d where e: "update_trust eve_key (Fin (- 50)) ''rude'' meeting = (Inr t, d)"
    by (cases "update_trust eve_key (Fin (- 50)) ''rude'' meeting") (auto split: sum.splits)
  show "\<bar>get_trust eve_key (snd (update_trust eve_key (Fin (- 50)) ''rude'' meeting)) - get_trust eve_key meeting\<bar> \<le> 2 / 10"
    using trust_moves_slowly[OF meeting_inv, where k = eve_key and delta = "Fin (- 50)" and why = "''rude''" and
        rate = NaN and ag = "[]" and pt = "[]" and pr = "[]" and ep = "[]"] unfolding e by auto
qed

theorem identity_accumulates_witness:
  "\<exists>m d. upsert_identity eve_key [(''role'', PyStr ''chair''), (''name'', PyStr [])] meeting = (Inr m, d) \<and>
     map_of m ''name'' = Some (PyStr ''Eve'') \<and> map_of m ''role'' = Some (PyStr ''chair'') \<and> get_identity eve_key d = Some m"
proof -
  let ?f = "[(''role'', PyStr ''chair''), (''name'', PyStr [])]"
  have "(case fst (upsert_identity eve_key ?f meeting) of Inr m \<Rightarrow> m \<noteq> [] | Inl _ \<Rightarrow> False)" by code_simp
  then obtain m d where e: "upsert_identity eve_key ?f meeting = (Inr m, d)" "m \<noteq> []"
    by (cases "upsert_identity eve_key ?f meeting") (auto split: sum.splits)
  have old: "map_of (stored_identity eve_key meeting) ''name'' = Some (PyStr ''Eve'')" by code_simp
  have "distinct (map fst ?f)" by simp
  note acc = identity_accumulates[OF e(1) this]
  have "map_of m ''name'' = Some (PyStr ''Eve'')" using acc old by (auto simp: is_absent_def)
  moreover have "map_of m ''role'' = Some (PyStr ''chair'')" using acc by (auto simp: is_absent_def)
  moreover have "get_identity eve_key d = Some m" using acc e(2) by blast
  ultimately show ?thesis using e(1) by blast
qed

theorem relationships_isolated_witness:
  "get_trust eve_key (tier_call bo_rel rel_ambient (Op_Update ''eve'' ''agent'' ''user'' (Fin (- 1)) ''no'') meeting) = 7 / 10"
proof -
  have "key_owner eve_key \<noteq> rel_acts_for bo_rel rel_ambient" by code_simp
  then have "get_trust eve_key (tier_call bo_rel rel_ambient (Op_Update ''eve'' ''agent'' ''user'' (Fin (- 1)) ''no'') meeting) =
      get_trust eve_key meeting" using relationships_isolated by blast
  moreover have "get_trust eve_key meeting = 7 / 10" by code_simp
  ultimately show ?thesis by simp
qed

theorem nan_seed_is_full_trust_witness:
  "get_trust (tier_key ada_rel rel_ambient ''max'' ''agent'' ''agent'')
     (snd (seed_trust (\<lambda>_. None) ''ada'' [\<lparr>se_agent_id = Some ''max'', se_trust_level = PyFloat NaN\<rparr>] ''room'' ''local'' ''live'' meeting)) = 1"
proof -
  let ?k = "tier_key ada_rel rel_ambient ''max'' ''agent'' ''agent''"
  have k: "map_of (rd_rows meeting) ?k = None" "rk_participant_type ?k = ''agent''" "rk_other_type ?k = ''agent''"
      "rk_participant_id ?k = ''ada''" "rk_other_id ?k = ''max''" "rk_principal ?k = ''local''" "rk_epoch ?k = ''live''"
    by code_simp+
  show ?thesis using nan_seed_is_full_trust[OF k(1-3), of "\<lambda>_. None" "''room''"] unfolding k(4-7) .
qed

end
