(* ===== verification/Note_Tools.thy ===== *)
theory Note_Tools
  imports Notes Relationships Permissions
begin

text \<open>
  The tools a persona keeps notes with (\<open>src/agents/tools/memory_tools.py\<close>), the person-identity write-through of
  the contact notes (\<open>src/agents/tools/identity_write_through.py\<close>) and the parser of their content
  (\<open>src/agents/memory/identity_parse.py\<close>).

  The acting classification and the participant type of the sender are bound per event and are arguments here. The notes
  tier is open. A result says which of the tool's answers it is; a text of an error is left out. A write that raises
  has written nothing: a commit that fails after its statement is not modelled.
\<close>


section \<open>Parsing a contact note\<close>





















section \<open>The write-through\<close>





section \<open>The tools\<close>

datatype note_result =
    Permission_Denied
  | Bad_Value
  | Invalid_Id
  | Note_Not_Found
  | Identity_Stored
  | Note_Stored string
  | Notes_Found "Note list"
  | Note_Updated
  | Note_Deleted
  | Raised py_error

record tool_env =
  te_gate :: PermissionGate
  te_store :: NoteStore
  te_rel :: "RelationshipMemory option"
  te_max_notes :: int
  te_session :: string

record memory_state =
  ms_notes :: note_db
  ms_rel :: rel_db


definition value_result :: "py_error \<Rightarrow> note_result" where
  "value_result e = (if e = ValueError then Bad_Value else Raised e)"

definition gated :: "tool_env \<Rightarrow> string \<Rightarrow> memory_state \<Rightarrow> note_result \<times> memory_state \<Rightarrow> note_result \<times> memory_state" where
  "gated te perm ms run =
     (case check (te_gate te) perm of
        Inl e \<Rightarrow> (Raised e, ms)
      | Inr ok \<Rightarrow> if ok then run else (Permission_Denied, ms))"


definition tool_recall_notes ::
  "fts_index \<Rightarrow> tool_env \<Rightarrow> ambient \<Rightarrow> string option \<Rightarrow> string \<Rightarrow> int \<Rightarrow> memory_state \<Rightarrow> note_result \<times> memory_state" where
  "tool_recall_notes fts te a acting query limit ms =
     gated te ''memory:read'' ms
       (case injectable_levels acting of
          Inl e \<Rightarrow> (value_result e, ms)
        | Inr levels \<Rightarrow>
            (case recall_notes fts (te_store te) a query limit None Sess_None (Some levels) (ms_notes ms) of
               (Inl e, notes) \<Rightarrow> (value_result e, ms\<lparr>ms_notes := notes\<rparr>)
             | (Inr ns, notes) \<Rightarrow> (Notes_Found ns, ms\<lparr>ms_notes := notes\<rparr>)))"

text \<open>\<open>uuid.UUID(s)\<close> does not raise: 32 characters that read as a number of base 16.\<close>

definition replace_text :: "string \<Rightarrow> string \<Rightarrow> string" where
  "replace_text old s = concat (split_on old [] s)"

definition hex_char :: "char \<Rightarrow> bool" where
  "hex_char c = (let n = of_char c :: nat in (48 \<le> n \<and> n \<le> 57) \<or> (65 \<le> n \<and> n \<le> 70) \<or> (97 \<le> n \<and> n \<le> 102))"

fun hex_groups :: "string \<Rightarrow> bool" where
  "hex_groups [] = False"
| "hex_groups [c] = hex_char c"
| "hex_groups (c # d # cs) = (hex_char c \<and> (if d = CHR ''_'' then hex_groups cs else hex_groups (d # cs)))"

definition base16 :: "string \<Rightarrow> bool" where
  "base16 s =
     (let t = py_strip s;
          u = (if t \<noteq> [] \<and> (hd t = CHR ''+'' \<or> hd t = CHR ''-'') then tl t else t);
          v = (if take 2 u = ''0x'' \<or> take 2 u = ''0X''
               then (let w = drop 2 u in if w \<noteq> [] \<and> hd w = CHR ''_'' then tl w else w) else u)
      in hex_groups v)"

definition is_uuid :: "string \<Rightarrow> bool" where
  "is_uuid s =
     (let brace = (\<lambda>c. c = CHR ''{'' \<or> c = CHR ''}'');
          h = replace_text ''uuid:'' (replace_text ''urn:'' s);
          k = replace_text ''-'' (rev (dropWhile brace (rev (dropWhile brace h))))
      in length k = 32 \<and> base16 k)"

definition tool_update_note ::
  "tool_env \<Rightarrow> ambient \<Rightarrow> string option \<Rightarrow> rat \<Rightarrow> string \<Rightarrow> string \<Rightarrow> memory_state \<Rightarrow> note_result \<times> memory_state" where
  "tool_update_note te a acting now i content ms =
     gated te ''memory:write'' ms
       (if \<not> is_uuid i then (Invalid_Id, ms)
        else case levels_below_stamp acting of
          Inl e \<Rightarrow> (value_result e, ms)
        | Inr below \<Rightarrow>
            (case update_note (te_store te) a now i content (Some (normalize_for_stamp acting)) below (ms_notes ms) of
               (Inl e, notes) \<Rightarrow> (value_result e, ms\<lparr>ms_notes := notes\<rparr>)
             | (Inr found, notes) \<Rightarrow> (if found then Note_Updated else Note_Not_Found, ms\<lparr>ms_notes := notes\<rparr>)))"

definition tool_delete_note :: "tool_env \<Rightarrow> ambient \<Rightarrow> string \<Rightarrow> memory_state \<Rightarrow> note_result \<times> memory_state" where
  "tool_delete_note te a i ms =
     gated te ''memory:write'' ms
       (if \<not> is_uuid i then (Invalid_Id, ms)
        else let r = delete_note (te_store te) a i (ms_notes ms)
             in (if fst r then Note_Deleted else Note_Not_Found, ms\<lparr>ms_notes := snd r\<rparr>))"

text \<open>The counter behind the reflection nudge, as \<open>_episodic_agent_state.py\<close> keeps it.\<close>

definition check_auto_reflect :: "int \<Rightarrow> int \<Rightarrow> bool \<times> int" where
  "check_auto_reflect after count =
     (if after \<le> 0 then (False, count)
      else let c = count + 1 in if c \<ge> after then (True, 0) else (False, c))"


section \<open>What the parser gives\<close>









section \<open>Where a stored note goes\<close>









text \<open>The reflection nudge comes at every \<open>after\<close>-th call and at no other.\<close>

lemma reflects_every:
  assumes "after > 0"
  shows "((\<lambda>bc. check_auto_reflect after (snd bc)) ^^ n) (False, 0) =
     (n > 0 \<and> int n mod after = 0, int n mod after)"
proof (induction n)
  case (Suc n)
  define k where "k = int n mod after"
  have k: "k < after" "0 \<le> k" using assms by (simp_all add: k_def)
  have "(1 + int n) mod after = (k + 1) mod after" by (simp add: k_def mod_simps add.commute)
  then have m: "(1 + int n) mod after = (if k + 1 = after then 0 else k + 1)" using k by (simp add: mod_pos_pos_trivial)
  have "((\<lambda>bc. check_auto_reflect after (snd bc)) ^^ Suc n) (False, 0) = check_auto_reflect after k"
    using Suc by (simp add: k_def)
  then show ?case using k m assms by (simp add: check_auto_reflect_def Let_def)
qed simp


section \<open>A small room\<close>





end
