(* ===== verification/Facts.thy ===== *)
theory Facts
  imports Scope_Filters Search_Text Py_Regex "HOL-Library.Product_Lexorder" "HOL-Library.Multiset"
begin

text \<open>
  The declarative facts of a persona: \<open>src/agents/memory/facts.py\<close>, \<open>_facts_write.py\<close>, \<open>_facts_supersede.py\<close>,
  \<open>_facts_reinforce.py\<close>, \<open>_facts_erasure.py\<close>, \<open>_facts_topics.py\<close>, \<open>_facts_audit.py\<close>, \<open>fact_types.py\<close> and
  \<open>fact_predicates.py\<close>.

  The table is the list of its rows in row order, a new row last. The random id of a new row is an argument; times are
  numbers. Text is Latin-1, and the case fold leaves the micro sign, whose fold is outside of it.
\<close>


section \<open>Predicates, subjects and objects\<close>

definition TOPIC_PREDICATES :: "string list" where
  "TOPIC_PREDICATES = [''topic.has_status'', ''topic.has_deadline'', ''topic.decided'', ''topic.owned_by'']"

definition PREDICATE_ALLOWLIST :: "string list" where
  "PREDICATE_ALLOWLIST =
     [''has_name'', ''lives_in'', ''works_at'', ''has_age'', ''speaks_language'',
      ''prefers'', ''dislikes'', ''loves'', ''avoids'',
      ''committed_to'', ''plans_to'', ''agreed_to'',
      ''has_child_named'', ''has_partner_named'', ''has_parent_named'', ''works_with'', ''knows'',
      ''self.has_preference'', ''self.holds_value'', ''self.committed_to'', ''self.has_attribute''] @ TOPIC_PREDICATES"

definition SINGLE_VALUED_PREDICATES :: "string list" where
  "SINGLE_VALUED_PREDICATES = [''has_name'', ''has_age'', ''lives_in'', ''topic.owned_by'']"

definition MAX_SUBJECT_CHARS :: nat where "MAX_SUBJECT_CHARS = 120"
definition MAX_OBJECT_CHARS :: nat where "MAX_OBJECT_CHARS = 400"

definition control_char :: "char \<Rightarrow> bool" where
  "control_char c = (let n = of_char c :: nat in n \<le> 31 \<or> n = 127 \<or> n = 133)"

text \<open>\<open><\s*/?\s*external_data\<close> at the front of a text, without regard to case.\<close>

definition delimiter_at :: "string \<Rightarrow> unit option" where
  "delimiter_at s =
     (case s of
        [] \<Rightarrow> None
      | c # cs \<Rightarrow>
          if c \<noteq> CHR ''<'' then None
          else let r = skip_space cs;
                   t = (case r of d # ds \<Rightarrow> if d = CHR ''/'' then skip_space ds else r | [] \<Rightarrow> [])
               in if ci_prefix ''external_data'' t then Some () else None)"

definition has_delimiter :: "string \<Rightarrow> bool" where
  "has_delimiter s \<longleftrightarrow> re_search delimiter_at s \<noteq> None"

definition validate_predicate :: "string \<Rightarrow> unit result" where
  "validate_predicate p =
     (if p = [] \<or> py_strip p = [] then Inl ValueError
      else if p \<notin> set PREDICATE_ALLOWLIST then Inl ValueError else Inr ())"

definition py_casefold :: "string \<Rightarrow> string" where
  "py_casefold s = concat (map (\<lambda>c. if (of_char c :: nat) = 223 then ''ss'' else [py_lower_char c]) s)"

definition canonicalize_subject :: "string \<Rightarrow> string result" where
  "canonicalize_subject raw =
     (if raw = [] \<or> py_strip raw = [] then Inl ValueError
      else Inr (join '' '' (py_split (py_casefold (py_strip raw)))))"

definition validate_subject :: "string \<Rightarrow> unit result" where
  "validate_subject s =
     (if length s > MAX_SUBJECT_CHARS then Inl ValueError
      else if list_ex control_char s then Inl ValueError
      else if has_delimiter s then Inl ValueError else Inr ())"

definition validate_object :: "string \<Rightarrow> unit result" where
  "validate_object s =
     (if s = [] \<or> py_strip s = [] then Inl ValueError
      else if length s > MAX_OBJECT_CHARS then Inl ValueError
      else if list_ex control_char s then Inl ValueError
      else if has_delimiter s then Inl ValueError else Inr ())"


section \<open>The table\<close>

record fact_row =
  fc_id :: string
  fc_agent_id :: string
  fc_subject :: string
  fc_predicate :: string
  fc_object :: string
  fc_certainty :: rat
  fc_source :: "string option"
  fc_asserted_at :: rat
  fc_last_recalled_at :: "rat option"
  fc_superseded_by :: "string option"
  fc_session_id :: string
  fc_principal_id :: string
  fc_epoch_id :: string
  fc_protection_level :: string
  fc_source_channel_id :: "string option"
  fc_speaker_id :: "string option"

record Fact =
  fact_id :: string
  fact_agent_id :: string
  fact_subject :: string
  fact_predicate :: string
  fact_object :: string
  fact_certainty :: rat
  fact_source_interaction_id :: "string option"
  fact_asserted_at :: rat
  fact_last_recalled_at :: "rat option"
  fact_superseded_by :: "string option"
  fact_session_id :: string
  fact_protection_level :: string
  fact_source_channel_id :: "string option"

definition row_to_fact :: "fact_row \<Rightarrow> Fact" where
  "row_to_fact r =
     \<lparr>fact_id = fc_id r, fact_agent_id = fc_agent_id r, fact_subject = fc_subject r, fact_predicate = fc_predicate r,
      fact_object = fc_object r, fact_certainty = fc_certainty r, fact_source_interaction_id = fc_source r,
      fact_asserted_at = fc_asserted_at r, fact_last_recalled_at = fc_last_recalled_at r,
      fact_superseded_by = fc_superseded_by r, fact_session_id = fc_session_id r,
      fact_protection_level = fc_protection_level r, fact_source_channel_id = fc_source_channel_id r\<rparr>"

text \<open>The audit records of the tier; the write event on the bus goes out with \<open>fact.store\<close> and no other.\<close>

datatype fact_audit =
    Audit_Store string string string string string "string option"
  | Audit_Supersede string string string
  | Audit_Recalled string "string list" rat

record fact_db =
  fd_rows :: "fact_row list"
  fd_audit :: "fact_audit list"
  fd_writes :: "(string \<times> string \<times> rat) list"

definition emit_audit :: "fact_audit \<Rightarrow> fact_db \<Rightarrow> fact_db" where
  "emit_audit x db =
     (let db' = db\<lparr>fd_audit := fd_audit db @ [x]\<rparr>
      in case x of
           Audit_Store ag _ _ _ _ _ \<Rightarrow> db'\<lparr>fd_writes := fd_writes db' @ [(ag, ''facts'', FACTS_APPEND_SALIENCE)]\<rparr>
         | _ \<Rightarrow> db')"

record FactStore =
  fs_agent_id :: string
  fs_ready :: bool
  fs_validator :: "string \<Rightarrow> unit result"
  fs_snapshot :: tier_snapshot

definition mk_FactStore :: "string \<Rightarrow> (string \<Rightarrow> unit result) option \<Rightarrow> ambient \<Rightarrow> FactStore" where
  "mk_FactStore agent validator a =
     \<lparr>fs_agent_id = agent, fs_ready = False,
      fs_validator = (case validator of None \<Rightarrow> validate_predicate | Some v \<Rightarrow> v), fs_snapshot = mk_snapshot a\<rparr>"


section \<open>Supersession\<close>

text \<open>The key of a chain: persona, subject, predicate, session, person and epoch.\<close>

definition chain_key :: "fact_row \<Rightarrow> string \<times> string \<times> string \<times> string \<times> string \<times> string" where
  "chain_key r = (fc_agent_id r, fc_subject r, fc_predicate r, fc_session_id r, fc_principal_id r, fc_epoch_id r)"

definition live :: "fact_row \<Rightarrow> bool" where "live r \<longleftrightarrow> fc_superseded_by r = None"

definition older_sessions :: "string \<Rightarrow> string list" where
  "older_sessions s = (if s = LEGACY_SESSION_ID then [s] else [s, LEGACY_SESSION_ID])"

definition written_together :: "fact_row \<Rightarrow> fact_row \<Rightarrow> bool" where
  "written_together new r \<longleftrightarrow>
     fc_source r \<noteq> None \<and>
     fc_source r = (if fc_predicate new \<in> set SINGLE_VALUED_PREDICATES then None else fc_source new) \<and>
     fc_asserted_at r = fc_asserted_at new \<and> fc_object r \<noteq> fc_object new"

definition swept :: "fact_row \<Rightarrow> fact_row \<Rightarrow> bool" where
  "swept new r \<longleftrightarrow>
     fc_agent_id r = fc_agent_id new \<and> fc_subject r = fc_subject new \<and> fc_predicate r = fc_predicate new \<and>
     fc_session_id r \<in> set (older_sessions (fc_session_id new)) \<and> fc_principal_id r = fc_principal_id new \<and>
     fc_epoch_id r = fc_epoch_id new \<and> live r \<and> fc_asserted_at r \<le> fc_asserted_at new \<and> fc_id r \<noteq> fc_id new \<and>
     \<not> written_together new r"

definition dominates :: "fact_row \<Rightarrow> fact_row \<Rightarrow> bool" where
  "dominates new r \<longleftrightarrow> chain_key r = chain_key new \<and> live r \<and> fc_asserted_at r > fc_asserted_at new"

text \<open>\<open>ORDER BY asserted_at DESC, rowid DESC LIMIT 1\<close>\<close>

definition newest_first :: "fact_row list \<Rightarrow> fact_row list" where
  "newest_first rows = sort_key (\<lambda>r. - fc_asserted_at r) (rev rows)"

record SupersessionResult =
  superseded_older_ids :: "string list"
  self_superseded_by :: "string option"

definition set_superseded :: "string \<Rightarrow> string \<Rightarrow> string list \<Rightarrow> fact_row list \<Rightarrow> fact_row list" where
  "set_superseded ag i ids rows =
     map (\<lambda>r. if fc_agent_id r = ag \<and> fc_id r \<in> set ids then r\<lparr>fc_superseded_by := Some i\<rparr> else r) rows"

definition apply_supersession :: "fact_row \<Rightarrow> fact_row list \<Rightarrow> SupersessionResult \<times> fact_row list" where
  "apply_supersession new rows =
     (let older = map fc_id (filter (swept new) rows);
          newer = (case newest_first (filter (dominates new) rows) of [] \<Rightarrow> None | r # _ \<Rightarrow> Some (fc_id r));
          rows1 = (if older \<noteq> [] then set_superseded (fc_agent_id new) (fc_id new) older rows else rows);
          rows2 = (case newer of
                     None \<Rightarrow> rows1
                   | Some d \<Rightarrow> set_superseded (fc_agent_id new) d [fc_id new] rows1)
      in (\<lparr>superseded_older_ids = older, self_superseded_by = newer\<rparr>, rows2))"

definition retract_fact :: "string \<Rightarrow> string \<Rightarrow> string \<Rightarrow> string \<Rightarrow> string \<Rightarrow> fact_db \<Rightarrow> bool \<times> fact_db" where
  "retract_fact ag i by_i pr ep db =
     (let hit = (\<lambda>r. fc_id r = i \<and> fc_agent_id r = ag \<and> live r \<and> fc_principal_id r = pr \<and> fc_epoch_id r = ep);
          retracted = list_ex hit (fd_rows db);
          db1 = db\<lparr>fd_rows := map (\<lambda>r. if hit r then r\<lparr>fc_superseded_by := Some by_i\<rparr> else r) (fd_rows db)\<rparr>
      in (retracted, if retracted then emit_audit (Audit_Supersede ag i by_i) db1 else db1))"


section \<open>Writing a fact\<close>

record fact_args =
  fa_subject :: string
  fa_predicate :: string
  fa_object :: string
  fa_source :: "string option"
  fa_asserted_at :: rat
  fa_certainty :: pyfloat
  fa_session :: string
  fa_protection :: string
  fa_channel :: "string option"
  fa_speaker :: "string option"
  fa_principal :: "string option"

definition fold_blank :: "string option \<Rightarrow> string option" where
  "fold_blank v = (case v of Some s \<Rightarrow> if py_strip s = [] then None else Some s | None \<Rightarrow> None)"

definition checked_certainty :: "pyfloat \<Rightarrow> rat result" where
  "checked_certainty c = (case c of Fin x \<Rightarrow> if 0 \<le> x \<and> x \<le> 1 then Inr x else Inl ValueError | _ \<Rightarrow> Inl ValueError)"

text \<open>The checks of \<open>insert_fact\<close> in their order, and the row it writes.\<close>

definition fact_of :: "FactStore \<Rightarrow> ambient \<Rightarrow> string \<Rightarrow> fact_args \<Rightarrow> fact_row result" where
  "fact_of st a new_id x =
     (if fa_subject x = [] \<or> py_strip (fa_subject x) = [] then Inl ValueError
      else bind_r (checked_certainty (fa_certainty x)) (\<lambda>cert.
        bind_r (fs_validator st (fa_predicate x)) (\<lambda>_.
        bind_r (validate_object (fa_object x)) (\<lambda>_.
        bind_r (canonicalize_subject (fa_subject x)) (\<lambda>subj.
        bind_r (validate_subject subj) (\<lambda>_.
          Inr \<lparr>fc_id = new_id, fc_agent_id = fs_agent_id st, fc_subject = subj, fc_predicate = fa_predicate x,
               fc_object = fa_object x, fc_certainty = cert, fc_source = fold_blank (fa_source x),
               fc_asserted_at = fa_asserted_at x, fc_last_recalled_at = None, fc_superseded_by = None,
               fc_session_id = normalize_session_id (Some (fa_session x)),
               fc_principal_id = resolve_write_principal a (fa_principal x) (ts_principal (fs_snapshot st)),
               fc_epoch_id = resolve_active_epoch a (ts_epoch (fs_snapshot st)),
               fc_protection_level = fa_protection x, fc_source_channel_id = fa_channel x,
               fc_speaker_id = (case fa_speaker x of Some s \<Rightarrow> if s = [] then None else Some s | None \<Rightarrow> None)\<rparr>))))))"

definition audit_of :: "fact_row \<Rightarrow> SupersessionResult \<Rightarrow> fact_audit list" where
  "audit_of r res =
     Audit_Store (fc_agent_id r) (fc_id r) (fc_subject r) (fc_predicate r) (fc_object r) (fc_source r) #
     map (\<lambda>o'. Audit_Supersede (fc_agent_id r) o' (fc_id r)) (superseded_older_ids res) @
     (case self_superseded_by res of None \<Rightarrow> [] | Some d \<Rightarrow> [Audit_Supersede (fc_agent_id r) (fc_id r) d])"

definition insert_fact :: "FactStore \<Rightarrow> ambient \<Rightarrow> string \<Rightarrow> fact_args \<Rightarrow> fact_db \<Rightarrow> string result \<times> fact_db" where
  "insert_fact st a new_id x db =
     (case fact_of st a new_id x of
        Inl e \<Rightarrow> (Inl e, db)
      | Inr r \<Rightarrow>
          if new_id \<in> fc_id ` set (fd_rows db) then (Inl IntegrityError, db)
          else let res = apply_supersession r (fd_rows db @ [r])
               in (Inr new_id, fold emit_audit (audit_of r (fst res)) (db\<lparr>fd_rows := snd res\<rparr>)))"

definition store_fact :: "FactStore \<Rightarrow> ambient \<Rightarrow> string \<Rightarrow> fact_args \<Rightarrow> fact_db \<Rightarrow> string result \<times> fact_db" where
  "store_fact st a new_id x db =
     (if \<not> fs_ready st then (Inl RuntimeError, db) else insert_fact st a new_id x db)"


section \<open>Recalling facts\<close>

definition MAX_FACT_RECALL :: int where "MAX_FACT_RECALL = 100"

definition fact_cols :: "fact_row \<Rightarrow> string \<Rightarrow> string" where
  "fact_cols r c =
     (if c = ''agent_id'' then fc_agent_id r else if c = ''subject'' then fc_subject r
      else if c = ''predicate'' then fc_predicate r else if c = ''session_id'' then fc_session_id r
      else if c = ''principal_id'' then fc_principal_id r else if c = ''epoch_id'' then fc_epoch_id r else [])"

text \<open>An explicitly empty collection is the condition \<open>1 = 0\<close>: an \<open>IN\<close> with no choice.\<close>

definition predicate_in_clause :: "string list option \<Rightarrow> sql_clause" where
  "predicate_in_clause ps =
     (case ps of None \<Rightarrow> ([], []) | Some xs \<Rightarrow> ([Col_In ''predicate'' (length xs)], xs))"

definition fact_scope_clause :: "string list option \<Rightarrow> string \<Rightarrow> string \<Rightarrow> sql_clause" where
  "fact_scope_clause sl pr ep =
     clause_and (session_in_clause sl ''session_id'')
       (clause_and (principal_eq_clause pr ''principal_id'') (epoch_eq_clause ep ''epoch_id''))"

definition recall_where :: "string \<Rightarrow> string \<Rightarrow> bool \<Rightarrow> string list option \<Rightarrow> string list option \<Rightarrow> string \<Rightarrow> string \<Rightarrow> fact_row \<Rightarrow> bool" where
  "recall_where ag subj include_superseded ps sl pr ep r \<longleftrightarrow>
     (include_superseded \<or> live r) \<and>
     clause_holds (fact_cols r)
       (clause_and ([Col_Eq ''agent_id'', Col_Eq ''subject''], [ag, subj])
         (clause_and (predicate_in_clause ps) (fact_scope_clause sl pr ep))) = Some True"

text \<open>
  The two orders. A row's place from the newest end and from the oldest are its places in two
  orders that are each other's reverse.
\<close>

definition RECALL_ORDERS :: "string list" where "RECALL_ORDERS = [''newest'', ''both_ends'']"

definition both_ends :: "'a list \<Rightarrow> 'a list" where
  "both_ends xs =
     map snd (sort_key (\<lambda>ix. (min (fst ix + 1) (length xs - fst ix), fst ix + 1)) (zip [0..<length xs] xs))"

definition recall_facts ::
  "FactStore \<Rightarrow> ambient \<Rightarrow> string \<Rightarrow> int \<Rightarrow> bool \<Rightarrow> sessions_arg \<Rightarrow> string list option \<Rightarrow> string \<Rightarrow> fact_db \<Rightarrow> Fact list result" where
  "recall_facts st a subject limit include_superseded sessions ps order db =
     (if limit < 1 then Inl ValueError
      else if order \<notin> set RECALL_ORDERS then Inl ValueError
      else bind_r (canonicalize_subject subject) (\<lambda>subj.
        bind_r (resolve_session_list a sessions (ts_session (fs_snapshot st))) (\<lambda>sl.
          if \<not> fs_ready st then Inl RuntimeError
          else let rows = newest_first (filter
                     (recall_where (fs_agent_id st) subj include_superseded ps sl
                       (resolve_active_principal a (ts_principal (fs_snapshot st)))
                       (resolve_active_epoch a (ts_epoch (fs_snapshot st)))) (fd_rows db))
               in Inr (map row_to_fact (take (nat (min limit MAX_FACT_RECALL))
                    (if order = ''both_ends'' then both_ends rows else rows))))))"

text \<open>One group per subject, the group asserted last first.\<close>

definition topic_where :: "string \<Rightarrow> string list option \<Rightarrow> string \<Rightarrow> string \<Rightarrow> fact_row \<Rightarrow> bool" where
  "topic_where ag sl pr ep r \<longleftrightarrow>
     live r \<and>
     clause_holds (fact_cols r)
       (clause_and ([Col_Eq ''agent_id''], [ag])
         (clause_and (predicate_in_clause (Some TOPIC_PREDICATES)) (fact_scope_clause sl pr ep))) = Some True"

fun max_of :: "'b::linorder list \<Rightarrow> 'b" where
  "max_of [x] = x"
| "max_of (x # y # ys) = max x (max_of (y # ys))"

definition topic_subjects ::
  "FactStore \<Rightarrow> ambient \<Rightarrow> int \<Rightarrow> sessions_arg \<Rightarrow> fact_db \<Rightarrow> string list result" where
  "topic_subjects st a limit sessions db =
     (if \<not> fs_ready st then Inl RuntimeError
      else bind_r (resolve_session_list a sessions (ts_session (fs_snapshot st))) (\<lambda>sl.
        if min limit (MAX_FACT_RECALL * 2) < 1 then Inl ValueError
        else let rows = filter (topic_where (fs_agent_id st) sl (resolve_active_principal a (ts_principal (fs_snapshot st)))
                                 (resolve_active_epoch a (ts_epoch (fs_snapshot st))) \<circ> snd)
                          (zip [0..<length (fd_rows db)] (fd_rows db));
                 grp = (\<lambda>s. filter (\<lambda>ir. fc_subject (snd ir) = s) rows)
             in Inr (take (nat (min limit (MAX_FACT_RECALL * 2)))
                  (sort_key (\<lambda>s. (- max_of (map (fc_asserted_at \<circ> snd) (grp s)), - int (max_of (map fst (grp s)))))
                    (remdups (map (fc_subject \<circ> snd) rows))))))"


section \<open>Reinforcement, retraction, retention, erasure\<close>

definition MAX_IDS_PER_UPDATE :: nat where "MAX_IDS_PER_UPDATE = 900"

function chunked :: "nat \<Rightarrow> 'b list \<Rightarrow> 'b list list" where
  "chunked n xs = (if xs = [] then [] else take (max 1 n) xs # chunked n (drop (max 1 n) xs))"
  by pat_completeness auto
termination by (relation "measure (length \<circ> snd)") auto
declare chunked.simps [simp del]

definition recalled_at :: "rat \<Rightarrow> string \<Rightarrow> string list \<Rightarrow> fact_row \<Rightarrow> fact_row" where
  "recalled_at t ag ids r =
     (if fc_agent_id r = ag \<and> fc_id r \<in> set ids
      then r\<lparr>fc_last_recalled_at := Some (max (case fc_last_recalled_at r of None \<Rightarrow> 0 | Some x \<Rightarrow> x) t)\<rparr> else r)"

definition mark_recalled_for_agent :: "string \<Rightarrow> string list \<Rightarrow> rat option \<Rightarrow> rat \<Rightarrow> fact_db \<Rightarrow> fact_db" where
  "mark_recalled_for_agent ag ids at_time now db =
     (if ids = [] then db
      else let t = (case at_time of None \<Rightarrow> now | Some x \<Rightarrow> x)
           in emit_audit (Audit_Recalled ag ids t)
                (db\<lparr>fd_rows := fold (\<lambda>chunk. map (recalled_at t ag chunk)) (chunked MAX_IDS_PER_UPDATE ids) (fd_rows db)\<rparr>))"

definition mark_recalled :: "FactStore \<Rightarrow> string list \<Rightarrow> rat option \<Rightarrow> rat \<Rightarrow> fact_db \<Rightarrow> unit result \<times> fact_db" where
  "mark_recalled st ids at_time now db =
     (if \<not> fs_ready st then (Inl RuntimeError, db)
      else (Inr (), mark_recalled_for_agent (fs_agent_id st) ids at_time now db))"

definition supersede :: "FactStore \<Rightarrow> ambient \<Rightarrow> string \<Rightarrow> string \<Rightarrow> fact_db \<Rightarrow> bool result \<times> fact_db" where
  "supersede st a i by_i db =
     (if \<not> fs_ready st then (Inl RuntimeError, db)
      else let r = retract_fact (fs_agent_id st) i by_i (resolve_active_principal a (ts_principal (fs_snapshot st)))
                     (resolve_active_epoch a (ts_epoch (fs_snapshot st))) db
           in (Inr (fst r), snd r))"

definition prune_facts :: "FactStore \<Rightarrow> rat \<Rightarrow> fact_db \<Rightarrow> nat result \<times> fact_db" where
  "prune_facts st before db =
     (if \<not> fs_ready st then (Inl RuntimeError, db)
      else let hit = (\<lambda>r. fc_agent_id r = fs_agent_id st \<and> \<not> live r \<and> fc_asserted_at r < before)
           in (Inr (length (filter hit (fd_rows db))), db\<lparr>fd_rows := filter (\<lambda>r. \<not> hit r) (fd_rows db)\<rparr>))"

text \<open>The first statement runs before the second; a subject that has no canonical form stops it before both.\<close>

definition delete_by_subject :: "FactStore \<Rightarrow> ambient \<Rightarrow> string \<Rightarrow> fact_db \<Rightarrow> (nat \<times> nat) result \<times> fact_db" where
  "delete_by_subject st a subject db =
     (if \<not> fs_ready st then (Inl RuntimeError, db)
      else case canonicalize_subject subject of
        Inl e \<Rightarrow> (Inl e, db)
      | Inr subj \<Rightarrow>
          (let mine = (\<lambda>r. fc_agent_id r = fs_agent_id st \<and>
                        fc_principal_id r = resolve_active_principal a (ts_principal (fs_snapshot st)));
               about = (\<lambda>r. mine r \<and> fc_subject r = subj);
               during = (\<lambda>r. mine r \<and> fc_source r = Some subject);
               rows1 = filter (\<lambda>r. \<not> about r) (fd_rows db)
           in (Inr (length (filter about (fd_rows db)), length (filter during rows1)),
               db\<lparr>fd_rows := filter (\<lambda>r. \<not> during r) rows1\<rparr>)))"


section \<open>What a write does to the rows\<close>

definition dominator :: "fact_row \<Rightarrow> fact_row list \<Rightarrow> string option" where
  "dominator new rows = (case newest_first (filter (dominates new) rows) of [] \<Rightarrow> None | r # _ \<Rightarrow> Some (fc_id r))"

definition sweep :: "fact_row \<Rightarrow> fact_row \<Rightarrow> fact_row" where
  "sweep new r = (if swept new r then r\<lparr>fc_superseded_by := Some (fc_id new)\<rparr> else r)"

lemma sweep_sel [simp]:
  "fc_id (sweep n r) = fc_id r" "chain_key (sweep n r) = chain_key r" "fc_asserted_at (sweep n r) = fc_asserted_at r"
  "fc_source (sweep n r) = fc_source r" "fc_object (sweep n r) = fc_object r" "fc_predicate (sweep n r) = fc_predicate r"
  "fc_agent_id (sweep n r) = fc_agent_id r" "fc_subject (sweep n r) = fc_subject r" "fc_session_id (sweep n r) = fc_session_id r"
  "fc_principal_id (sweep n r) = fc_principal_id r" "fc_epoch_id (sweep n r) = fc_epoch_id r"
  "live (sweep n r) \<longleftrightarrow> live r \<and> \<not> swept n r"
  by (simp_all add: sweep_def chain_key_def live_def)

lemma not_self: "\<not> swept r r" "\<not> dominates r r"
  by (simp_all add: swept_def dominates_def)

lemma supersession_rows:
  assumes "distinct (map fc_id (rows @ [r]))"
  shows "snd (apply_supersession r (rows @ [r])) = map (sweep r) rows @ [r\<lparr>fc_superseded_by :=
     (case dominator r rows of None \<Rightarrow> fc_superseded_by r | Some d \<Rightarrow> Some d)\<rparr>]"
    and "superseded_older_ids (fst (apply_supersession r (rows @ [r]))) = map fc_id (filter (swept r) rows)"
    and "self_superseded_by (fst (apply_supersession r (rows @ [r]))) = dominator r rows"
proof -
  have fresh: "fc_id r \<notin> fc_id ` set rows" and d: "distinct (map fc_id rows)" using assms by auto
  define older where "older = map fc_id (filter (swept r) rows)"
  have o: "map fc_id (filter (swept r) (rows @ [r])) = older" by (simp add: not_self older_def)
  have n: "filter (dominates r) (rows @ [r]) = filter (dominates r) rows" by (simp add: not_self)
  have mem: "(fc_agent_id x = fc_agent_id r \<and> fc_id x \<in> set older) = swept r x" if "x \<in> set rows" for x
    using that d unfolding older_def by (auto simp: swept_def dest: distinct_map[THEN iffD1, THEN conjunct2, THEN inj_onD])
  have self: "fc_id r \<notin> set older" using fresh by (auto simp: older_def)
  have sweep_eq: "(if older \<noteq> [] then set_superseded (fc_agent_id r) (fc_id r) older (rows @ [r]) else rows @ [r]) =
      map (sweep r) rows @ [r]"
  proof (cases "older = []")
    case True
    then have "\<not> swept r x" if "x \<in> set rows" for x using that by (auto simp: older_def filter_empty_conv)
    then show ?thesis using True by (simp add: sweep_def map_idI)
  next
    case False
    then show ?thesis using mem self by (simp add: set_superseded_def sweep_def)
  qed
  have fresh': "fc_id r \<notin> fc_id ` set (map (sweep r) rows)" using fresh by (auto simp: image_iff)
  have last: "set_superseded (fc_agent_id r) d [fc_id r] (map (sweep r) rows @ [r]) =
      map (sweep r) rows @ [r\<lparr>fc_superseded_by := Some d\<rparr>]" for d
    using fresh by (fastforce simp: set_superseded_def image_iff)
  show "snd (apply_supersession r (rows @ [r])) = map (sweep r) rows @ [r\<lparr>fc_superseded_by :=
     (case dominator r rows of None \<Rightarrow> fc_superseded_by r | Some d \<Rightarrow> Some d)\<rparr>]"
    unfolding apply_supersession_def Let_def o n sweep_eq dominator_def[symmetric]
    by (simp add: last split: option.split)
  show "superseded_older_ids (fst (apply_supersession r (rows @ [r]))) = map fc_id (filter (swept r) rows)"
    "self_superseded_by (fst (apply_supersession r (rows @ [r]))) = dominator r rows"
    unfolding apply_supersession_def Let_def o n dominator_def[symmetric] by (simp_all add: older_def)
qed

lemma set_newest_first [simp]: "set (newest_first rows) = set rows"
  by (simp add: newest_first_def)

lemma newest_first_Nil [simp]: "newest_first rows = [] \<longleftrightarrow> rows = []"
  by (metis set_newest_first set_empty)

lemma dominator_None: "dominator r rows = None \<longleftrightarrow> (\<forall>x \<in> set rows. \<not> dominates r x)"
proof -
  have "dominator r rows = None \<longleftrightarrow> newest_first (filter (dominates r) rows) = []"
    unfolding dominator_def by (metis list.case_eq_if option.distinct(1))
  then show ?thesis by (simp add: filter_empty_conv)
qed

lemma dominator_Some: "dominator r rows = Some d \<Longrightarrow> \<exists>x \<in> set rows. dominates r x \<and> fc_id x = d"
proof -
  assume "dominator r rows = Some d"
  then obtain x xs where x: "newest_first (filter (dominates r) rows) = x # xs" "fc_id x = d"
    by (auto simp: dominator_def split: list.splits)
  then have "x \<in> set (newest_first (filter (dominates r) rows))" by simp
  then show ?thesis using x(2) by auto
qed

lemma emit_audit_rows [simp]: "fd_rows (emit_audit x db) = fd_rows db"
  by (simp add: emit_audit_def Let_def split: fact_audit.split)

lemma emit_audits_rows [simp]: "fd_rows (fold emit_audit xs db) = fd_rows db"
  by (induction xs arbitrary: db) simp_all

lemma insert_fact_cases:
  assumes "distinct (map fc_id (fd_rows db))"
  obtains (refused) e where "store_fact st a i x db = (Inl e, db)"
  | (stored) r where "fact_of st a i x = Inr r" "fc_id r = i" "fc_superseded_by r = None" "i \<notin> fc_id ` set (fd_rows db)"
      "fst (store_fact st a i x db) = Inr i"
      "fd_rows (snd (store_fact st a i x db)) =
         map (sweep r) (fd_rows db) @ [r\<lparr>fc_superseded_by := dominator r (fd_rows db)\<rparr>]"
proof (cases "fst (store_fact st a i x db)")
  case (Inl e)
  then have "store_fact st a i x db = (Inl e, db)"
    by (auto simp: store_fact_def insert_fact_def Let_def split: if_splits sum.splits)
  then show thesis by (rule refused)
next
  case (Inr j)
  then obtain r where r: "fact_of st a i x = Inr r" "i \<notin> fc_id ` set (fd_rows db)" "fs_ready st"
    by (auto simp: store_fact_def insert_fact_def Let_def split: if_splits sum.splits)
  have sel: "fc_id r = i" "fc_superseded_by r = None" using r(1) by (auto simp: fact_of_def bind_r_Inr_iff split: if_splits)
  have "distinct (map fc_id (fd_rows db @ [r]))" using assms r(2) sel(1) by simp
  from supersession_rows(1)[OF this]
  have "fd_rows (snd (store_fact st a i x db)) =
         map (sweep r) (fd_rows db) @ [r\<lparr>fc_superseded_by := dominator r (fd_rows db)\<rparr>]"
    using r sel by (simp add: store_fact_def insert_fact_def Let_def split: option.split)
  moreover have "fst (store_fact st a i x db) = Inr i" using r by (simp add: store_fact_def insert_fact_def Let_def)
  ultimately show thesis using stored r sel by blast
qed


section \<open>Calls on the facts of several personas\<close>

datatype fact_op =
    Op_Store string fact_args
  | Op_Recalled "string list" "rat option" rat
  | Op_Supersede string string
  | Op_Prune rat
  | Op_Erase string

fun fact_call :: "FactStore \<Rightarrow> ambient \<Rightarrow> fact_op \<Rightarrow> fact_db \<Rightarrow> fact_db" where
  "fact_call st a (Op_Store i x) db = snd (store_fact st a i x db)"
| "fact_call st a (Op_Recalled ids at_time now) db = snd (mark_recalled st ids at_time now db)"
| "fact_call st a (Op_Supersede i by_i) db = snd (supersede st a i by_i db)"
| "fact_call st a (Op_Prune before) db = snd (prune_facts st before db)"
| "fact_call st a (Op_Erase subject) db = snd (delete_by_subject st a subject db)"

definition fact_calls :: "(FactStore \<times> ambient \<times> fact_op) list \<Rightarrow> fact_db \<Rightarrow> fact_db" where
  "fact_calls cs db = fold (\<lambda>(st, a, op). fact_call st a op) cs db"

definition no_facts :: fact_db where "no_facts = \<lparr>fd_rows = [], fd_audit = [], fd_writes = []\<rparr>"

text \<open>The chunks of an update are one update.\<close>

lemma recalled_at_append: "recalled_at t ag ys (recalled_at t ag xs r) = recalled_at t ag (xs @ ys) r"
  by (auto simp: recalled_at_def max_def)

lemma chunked_concat: "concat (chunked n xs) = xs"
proof (induction n xs rule: chunked.induct)
  case (1 n xs)
  then show ?case by (subst chunked.simps) (auto simp: append_take_drop_id)
qed

lemma fold_chunks: "cs \<noteq> [] \<Longrightarrow> fold (\<lambda>chunk. map (recalled_at t ag chunk)) cs rows = map (recalled_at t ag (concat cs)) rows"
proof (induction cs arbitrary: rows)
  case (Cons c cs)
  show ?case
  proof (cases "cs = []")
    case False
    then show ?thesis using Cons.IH[OF False] by (simp add: recalled_at_append comp_def)
  qed simp
qed simp

lemma mark_recalled_rows: "fd_rows (mark_recalled_for_agent ag ids at_time now db) =
    map (recalled_at (case at_time of None \<Rightarrow> now | Some x \<Rightarrow> x) ag ids) (fd_rows db)"
proof (cases "ids = []")
  case False
  then have "chunked MAX_IDS_PER_UPDATE ids \<noteq> []" by (subst chunked.simps) simp
  then show ?thesis using False
    by (simp add: mark_recalled_for_agent_def Let_def fold_chunks chunked_concat)
qed (simp add: mark_recalled_for_agent_def recalled_at_def map_idI)

text \<open>Every call but a store rewrites rows in place, keeping what they say, or removes some.\<close>

definition keeps :: "fact_row \<Rightarrow> fact_row \<Rightarrow> bool" where
  "keeps r r' \<longleftrightarrow>
     r' = r\<lparr>fc_last_recalled_at := fc_last_recalled_at r', fc_superseded_by := fc_superseded_by r'\<rparr> \<and>
     (live r' \<longrightarrow> live r)"

lemma keeps_refl [simp]: "keeps r r" by (simp add: keeps_def)

lemma keeps_sel:
  assumes "keeps r r'"
  shows "fc_id r' = fc_id r" "chain_key r' = chain_key r" "fc_asserted_at r' = fc_asserted_at r" "fc_source r' = fc_source r"
    "fc_object r' = fc_object r" "fc_predicate r' = fc_predicate r" "live r' \<Longrightarrow> live r"
proof -
  have e: "r' = r\<lparr>fc_last_recalled_at := fc_last_recalled_at r', fc_superseded_by := fc_superseded_by r'\<rparr>"
    and l: "live r' \<Longrightarrow> live r" using assms by (auto simp: keeps_def)
  show "fc_id r' = fc_id r" "chain_key r' = chain_key r" "fc_asserted_at r' = fc_asserted_at r" "fc_source r' = fc_source r"
    "fc_object r' = fc_object r" "fc_predicate r' = fc_predicate r"
    by (subst e, simp add: chain_key_def)+
  show "live r' \<Longrightarrow> live r" by (rule l)
qed

definition is_store :: "fact_op \<Rightarrow> bool" where "is_store op = (case op of Op_Store _ _ \<Rightarrow> True | _ \<Rightarrow> False)"

lemma other_call_rows:
  assumes "\<not> is_store op"
  shows "\<exists>P f. fd_rows (fact_call st a op db) = map f (filter P (fd_rows db)) \<and> (\<forall>r. keeps r (f r))"
proof (cases op)
  case (Op_Recalled ids at_time now)
  have "keeps r (recalled_at t ag ids r)" for r t ag by (simp add: keeps_def recalled_at_def live_def)
  then have "\<exists>P f. fd_rows (mark_recalled_for_agent ag ids at_time now db) = map f (filter P (fd_rows db)) \<and> (\<forall>r. keeps r (f r))" for ag
    unfolding mark_recalled_rows
    by (intro exI[of _ "\<lambda>_. True"] exI[of _ "recalled_at (case at_time of None \<Rightarrow> now | Some x \<Rightarrow> x) ag ids"]) simp
  moreover have "\<exists>P f. fd_rows db = map f (filter P (fd_rows db)) \<and> (\<forall>r. keeps r (f r))"
    by (intro exI[of _ "\<lambda>_. True"] exI[of _ "\<lambda>r. r"]) simp
  ultimately show ?thesis using Op_Recalled by (simp add: mark_recalled_def)
next
  case (Op_Supersede i by_i)
  have "\<exists>P f. fd_rows (snd (retract_fact ag i by_i pr ep db)) = map f (filter P (fd_rows db)) \<and> (\<forall>r. keeps r (f r))" for ag pr ep
    by (rule exI[of _ "\<lambda>_. True"], rule exI[of _ "\<lambda>r. if fc_id r = i \<and> fc_agent_id r = ag \<and> live r \<and> fc_principal_id r = pr \<and> fc_epoch_id r = ep
        then r\<lparr>fc_superseded_by := Some by_i\<rparr> else r"]) (simp add: retract_fact_def Let_def keeps_def live_def)
  moreover have "\<exists>P f. fd_rows db = map f (filter P (fd_rows db)) \<and> (\<forall>r. keeps r (f r))"
    by (intro exI[of _ "\<lambda>_. True"] exI[of _ "\<lambda>r. r"]) simp
  ultimately show ?thesis using Op_Supersede by (simp add: supersede_def Let_def)
next
  case (Op_Prune before)
  have "\<exists>P. fd_rows (fact_call st a op db) = filter P (fd_rows db)"
    using Op_Prune by (auto simp: prune_facts_def Let_def intro: exI[of _ "\<lambda>_. True"])
  then show ?thesis by (metis keeps_refl list.map_ident)
next
  case (Op_Erase subject)
  have "\<exists>P. fd_rows (fact_call st a op db) = filter P (fd_rows db)"
    using Op_Erase by (auto simp: delete_by_subject_def Let_def split: sum.split intro: exI[of _ "\<lambda>_. True"])
  then show ?thesis by (metis keeps_refl list.map_ident)
qed (use assms in \<open>simp add: is_store_def\<close>)


section \<open>The latest assertion wins\<close>

text \<open>
  Two facts of one chain are live together only when one extraction wrote both, saying different
  things under a predicate that may hold several values.
\<close>

definition coexist :: "fact_row \<Rightarrow> fact_row \<Rightarrow> bool" where
  "coexist r r' \<longleftrightarrow>
     fc_asserted_at r = fc_asserted_at r' \<and> fc_source r = fc_source r' \<and> fc_source r \<noteq> None \<and>
     fc_object r \<noteq> fc_object r' \<and> fc_predicate r \<notin> set SINGLE_VALUED_PREDICATES"

definition chains_ok :: "fact_row list \<Rightarrow> bool" where
  "chains_ok rows \<longleftrightarrow>
     distinct (map fc_id rows) \<and>
     (\<forall>r \<in> set rows. \<forall>r' \<in> set rows. live r \<and> live r' \<and> chain_key r = chain_key r' \<and> fc_id r \<noteq> fc_id r' \<longrightarrow> coexist r r')"

lemma chains_okD:
  "chains_ok rows \<Longrightarrow> r \<in> set rows \<Longrightarrow> r' \<in> set rows \<Longrightarrow> live r \<Longrightarrow> live r' \<Longrightarrow> chain_key r = chain_key r' \<Longrightarrow>
     fc_id r \<noteq> fc_id r' \<Longrightarrow> coexist r r'"
  by (simp add: chains_ok_def)

lemma coexist_transfer:
  assumes "coexist u v" "fc_asserted_at u' = fc_asserted_at u" "fc_source u' = fc_source u" "fc_object u' = fc_object u"
    "fc_predicate u' = fc_predicate u" "fc_asserted_at v' = fc_asserted_at v" "fc_source v' = fc_source v" "fc_object v' = fc_object v"
  shows "coexist u' v'"
  using assms(1) unfolding coexist_def assms(2-) by blast

lemma coexist_sym: "chain_key r = chain_key r' \<Longrightarrow> coexist r r' \<Longrightarrow> coexist r' r"
  unfolding coexist_def chain_key_def by (metis prod.inject)

lemma unswept_coexists:
  assumes "live r" "\<not> swept n r" "\<not> dominates n r" "chain_key r = chain_key n" "fc_id r \<noteq> fc_id n"
  shows "coexist r n"
proof -
  have "fc_session_id r \<in> set (older_sessions (fc_session_id n))"
    using assms(4) by (simp add: older_sessions_def chain_key_def)
  then have "written_together n r" using assms by (auto simp: swept_def dominates_def chain_key_def)
  then show ?thesis using assms(4) by (auto simp: written_together_def coexist_def chain_key_def split: if_splits)
qed

lemma store_chains_ok:
  assumes "chains_ok (fd_rows db)"
  shows "chains_ok (fd_rows (snd (store_fact st a i x db)))"
proof -
  have d: "distinct (map fc_id (fd_rows db))" using assms by (simp add: chains_ok_def)
  from d show ?thesis
  proof (cases rule: insert_fact_cases[where st = st and a = a and i = i and x = x])
    case (refused e)
    then show ?thesis using assms by simp
  next
    case (stored r)
    let ?n = "r\<lparr>fc_superseded_by := dominator r (fd_rows db)\<rparr>"
    have old: "coexist (sweep r u) (sweep r v)" if "u \<in> set (fd_rows db)" "v \<in> set (fd_rows db)" "live (sweep r u)" "live (sweep r v)"
        "chain_key u = chain_key v" "fc_id u \<noteq> fc_id v" for u v
    proof -
      have "live u" "live v" using that(3,4) by simp_all
      then have "coexist u v" using chains_okD[OF assms that(1,2)] that(5,6) by blast
      then show ?thesis by (rule coexist_transfer) simp_all
    qed
    have new: "coexist (sweep r u) ?n" if u: "u \<in> set (fd_rows db)" "live (sweep r u)" "live ?n" "chain_key u = chain_key r" for u
    proof -
      have "\<not> dominates r u" using u(1,3) dominator_None[of r "fd_rows db"] by (simp add: live_def)
      moreover have "fc_id u \<noteq> fc_id r" using stored(2,4) u(1) by (metis imageI)
      ultimately have "coexist u r" using unswept_coexists[of u r] u(2,4) by simp
      then show ?thesis by (rule coexist_transfer) simp_all
    qed
    have key: "chain_key ?n = chain_key r" "fc_id ?n = i" using stored(2) by (simp_all add: chain_key_def)
    have dist: "distinct (map fc_id (map (sweep r) (fd_rows db) @ [?n]))" using d stored(2,4) by (simp add: comp_def)
    show ?thesis unfolding stored(6) chains_ok_def
    proof (intro conjI ballI impI)
      show "distinct (map fc_id (map (sweep r) (fd_rows db) @ [?n]))" by (rule dist)
      fix p q
      assume p: "p \<in> set (map (sweep r) (fd_rows db) @ [?n])" and q: "q \<in> set (map (sweep r) (fd_rows db) @ [?n])"
        and l: "live p \<and> live q \<and> chain_key p = chain_key q \<and> fc_id p \<noteq> fc_id q"
      consider (oo) u v where "u \<in> set (fd_rows db)" "v \<in> set (fd_rows db)" "p = sweep r u" "q = sweep r v"
        | (on) u where "u \<in> set (fd_rows db)" "p = sweep r u" "q = ?n"
        | (no) u where "u \<in> set (fd_rows db)" "q = sweep r u" "p = ?n"
        | (nn) "p = ?n" "q = ?n" using p q by auto
      then show "coexist p q"
      proof cases
        case oo
        then show ?thesis using old[of u v] l by simp
      next
        case on
        then show ?thesis using new[of u] l key by simp
      next
        case no
        then show ?thesis using coexist_sym[OF _ new[of u]] l key by simp
      next
        case nn
        then show ?thesis using l by simp
      qed
    qed
  qed
qed

lemma other_chains_ok:
  assumes "chains_ok rows" "\<forall>r. keeps r (f r)"
  shows "chains_ok (map f (filter P rows))"
proof -
  have "distinct (map fc_id (map f (filter P rows)))"
  proof -
    have "map fc_id (map f (filter P rows)) = map fc_id (filter P rows)" using keeps_sel(1) assms(2) by simp
    moreover have "distinct (map fc_id (filter P rows))" using assms(1) by (simp add: chains_ok_def distinct_map_filter)
    ultimately show ?thesis by (simp only:)
  qed
  moreover have "coexist (f r) (f r')" if "r \<in> set rows" "r' \<in> set rows" "live (f r)" "live (f r')" "chain_key (f r) = chain_key (f r')"
      "fc_id (f r) \<noteq> fc_id (f r')" for r r'
  proof -
    note k = keeps_sel[OF assms(2)[rule_format, of r]] and k' = keeps_sel[OF assms(2)[rule_format, of r']]
    have "coexist r r'" using that k k' by (intro chains_okD[OF assms(1)]) simp_all
    then show ?thesis by (rule coexist_transfer) (simp_all add: k k')
  qed
  ultimately show ?thesis unfolding chains_ok_def by auto
qed

lemma call_chains_ok: "chains_ok (fd_rows db) \<Longrightarrow> chains_ok (fd_rows (fact_call st a op db))"
proof (cases "is_store op")
  case True
  then obtain i x where "op = Op_Store i x" by (cases op) (auto simp: is_store_def)
  then show "chains_ok (fd_rows db) \<Longrightarrow> ?thesis" using store_chains_ok by simp
next
  case False
  then show "chains_ok (fd_rows db) \<Longrightarrow> ?thesis"
    using other_call_rows[OF False, of st a db] other_chains_ok by metis
qed

lemma calls_chains_ok: "chains_ok (fd_rows db) \<Longrightarrow> chains_ok (fd_rows (fact_calls cs db))"
  unfolding fact_calls_def by (induction cs arbitrary: db) (auto simp: call_chains_ok)

text \<open>
  While nothing is retracted by hand or erased, every fact of a named session has in its own chain a live one asserted
  no earlier. The legacy session is left out: a named session's write may absorb its rows.
\<close>

definition covered :: "fact_row list \<Rightarrow> bool" where
  "covered rows \<longleftrightarrow>
     (\<forall>r \<in> set rows. fc_session_id r \<noteq> LEGACY_SESSION_ID \<longrightarrow>
        (\<exists>l \<in> set rows. live l \<and> chain_key l = chain_key r \<and> fc_asserted_at r \<le> fc_asserted_at l))"

lemma swept_chain: "swept n l \<Longrightarrow> fc_session_id l \<noteq> LEGACY_SESSION_ID \<Longrightarrow> chain_key l = chain_key n"
  by (auto simp: swept_def chain_key_def older_sessions_def split: if_splits)

lemma dominates_not_swept: "dominates n l \<Longrightarrow> \<not> swept n l"
  by (simp add: dominates_def swept_def)

lemma covered_by:
  assumes l: "l \<in> set rows" "live l" and key: "chain_key l = k" and s: "fc_session_id l \<noteq> LEGACY_SESSION_ID"
    and n: "n' = n\<lparr>fc_superseded_by := dominator n rows\<rparr>"
  shows "\<exists>l' \<in> set (map (sweep n) rows @ [n']). live l' \<and> chain_key l' = k \<and> fc_asserted_at l \<le> fc_asserted_at l'"
proof (cases "swept n l")
  case False
  then show ?thesis using l key by (intro bexI[of _ "sweep n l"]) simp_all
next
  case True
  then have at: "fc_asserted_at l \<le> fc_asserted_at n" "chain_key n = k"
    using swept_chain[OF True s] key by (simp_all add: swept_def)
  show ?thesis
  proof (cases "dominator n rows")
    case None
    then show ?thesis using at by (intro bexI[of _ n']) (simp_all add: n live_def chain_key_def)
  next
    case (Some d)
    then obtain y where y: "y \<in> set rows" "dominates n y" using dominator_Some by blast
    then have "live (sweep n y)" "chain_key y = k" "fc_asserted_at n \<le> fc_asserted_at y"
      using dominates_not_swept[OF y(2)] at(2) by (simp_all add: dominates_def)
    then show ?thesis using at(1) y(1) by (intro bexI[of _ "sweep n y"]) simp_all
  qed
qed

lemma store_covered:
  assumes "distinct (map fc_id (fd_rows db))" "covered (fd_rows db)"
  shows "covered (fd_rows (snd (store_fact st a i x db)))"
  using assms(1)
proof (cases rule: insert_fact_cases[where st = st and a = a and i = i and x = x])
  case (refused e)
  then show ?thesis using assms by simp
next
  case (stored r)
  define n' where "n' = r\<lparr>fc_superseded_by := dominator r (fd_rows db)\<rparr>"
  have cover_old: "\<exists>l' \<in> set (map (sweep r) (fd_rows db) @ [n']). live l' \<and> chain_key l' = chain_key u \<and> fc_asserted_at u \<le> fc_asserted_at l'"
    if u: "u \<in> set (fd_rows db)" "fc_session_id u \<noteq> LEGACY_SESSION_ID" for u
  proof -
    obtain l where l: "l \<in> set (fd_rows db)" "live l" "chain_key l = chain_key u" "fc_asserted_at u \<le> fc_asserted_at l"
      using assms(2) u unfolding covered_def by blast
    then have "fc_session_id l \<noteq> LEGACY_SESSION_ID" using u(2) by (simp add: chain_key_def)
    from covered_by[OF l(1-3) this n'_def] show ?thesis using l(4) by (meson order_trans)
  qed
  have cover_new: "\<exists>l' \<in> set (map (sweep r) (fd_rows db) @ [n']). live l' \<and> chain_key l' = chain_key n' \<and> fc_asserted_at n' \<le> fc_asserted_at l'"
  proof (cases "dominator r (fd_rows db)")
    case None
    then show ?thesis by (intro bexI[of _ n']) (simp_all add: n'_def live_def)
  next
    case (Some d)
    then obtain y where y: "y \<in> set (fd_rows db)" "dominates r y" using dominator_Some by blast
    then show ?thesis using dominates_not_swept[OF y(2)]
      by (intro bexI[of _ "sweep r y"]) (simp_all add: dominates_def n'_def chain_key_def)
  qed
  show ?thesis unfolding stored(6) n'_def[symmetric] covered_def
  proof (intro ballI impI)
    fix q assume q: "q \<in> set (map (sweep r) (fd_rows db) @ [n'])" "fc_session_id q \<noteq> LEGACY_SESSION_ID"
    then consider (old) u where "u \<in> set (fd_rows db)" "q = sweep r u" | (new) "q = n'" by auto
    then show "\<exists>l \<in> set (map (sweep r) (fd_rows db) @ [n']). live l \<and> chain_key l = chain_key q \<and> fc_asserted_at q \<le> fc_asserted_at l"
    proof cases
      case old
      then show ?thesis using cover_old[of u] q(2) by simp
    next
      case new
      then show ?thesis using cover_new by simp
    qed
  qed
qed

definition adds_only :: "fact_op \<Rightarrow> bool" where
  "adds_only op = (case op of Op_Supersede _ _ \<Rightarrow> False | Op_Erase _ \<Rightarrow> False | _ \<Rightarrow> True)"

lemma call_covered:
  assumes "adds_only op" "distinct (map fc_id (fd_rows db))" "covered (fd_rows db)"
  shows "covered (fd_rows (fact_call st a op db))"
proof (cases op)
  case (Op_Store i x)
  then show ?thesis using store_covered[OF assms(2,3)] by simp
next
  case (Op_Recalled ids at_time now)
  have sel: "chain_key (recalled_at t ag is r) = chain_key r" "live (recalled_at t ag is r) = live r"
    "fc_asserted_at (recalled_at t ag is r) = fc_asserted_at r" "fc_session_id (recalled_at t ag is r) = fc_session_id r" for t ag "is" r
    by (simp_all add: recalled_at_def chain_key_def live_def)
  show ?thesis using assms(3) Op_Recalled by (simp add: mark_recalled_def mark_recalled_rows covered_def sel)
next
  case (Op_Prune before)
  then show ?thesis using assms(3) by (auto simp: prune_facts_def Let_def covered_def)
qed (use assms(1) in \<open>simp_all add: adds_only_def\<close>)

text \<open>
  C23. The latest assertion wins. After any run of calls of any stores two live facts about one subject and predicate in
  one session come from one extraction, differ in what they say and are under a predicate that may hold several
  values, so a name, an age, a home and an owner have one live value; and while nothing is retracted or erased by
  hand, every fact of a named session has in its chain a live one asserted no earlier, which the invariant makes
  the latest: an out-of-order write never hides a newer one and no chain goes dark.
\<close>

theorem latest_assertion_wins:
  "chains_ok (fd_rows (fact_calls cs no_facts)) \<and>
   (list_all (\<lambda>c. adds_only (snd (snd c))) cs \<longrightarrow> covered (fd_rows (fact_calls cs no_facts)))"
proof -
  have "chains_ok (fd_rows db) \<and> (list_all (\<lambda>c. adds_only (snd (snd c))) cs \<longrightarrow> covered (fd_rows db) \<longrightarrow>
      covered (fd_rows (fact_calls cs db)))" if "chains_ok (fd_rows db)" for db
    using that
  proof (induction cs arbitrary: db)
    case (Cons c cs)
    obtain st a op where c: "c = (st, a, op)" by (cases c)
    have "chains_ok (fd_rows (fact_call st a op db))" using call_chains_ok[OF Cons.prems] .
    from Cons.IH[OF this] show ?case
      using call_covered[of op db st a] Cons.prems by (auto simp: c fact_calls_def chains_ok_def)
  qed (simp add: fact_calls_def)
  from this[of no_facts] calls_chains_ok[of no_facts cs] show ?thesis
    by (auto simp: no_facts_def chains_ok_def covered_def)
qed


section \<open>Both ends of a list\<close>

text \<open>The reference: newest, oldest, second newest, second oldest and so on.\<close>

function weave :: "'a list \<Rightarrow> 'a list" where
  "weave [] = []"
| "weave [x] = [x]"
| "weave (x # y # ys) = x # last (y # ys) # weave (butlast (y # ys))"
  by pat_completeness auto
termination by (relation "measure length") auto

lemma weave_Cons: "xs \<noteq> [] \<Longrightarrow> weave (x # xs) = x # last xs # weave (butlast xs)"
  by (cases xs) simp_all

lemma weave_map: "weave (map f xs) = map f (weave xs)"
proof (induction xs rule: weave.induct)
  case (3 x y ys)
  have "weave (map f (x # y # ys)) = f x # last (map f (y # ys)) # weave (butlast (map f (y # ys)))" by simp
  also have "last (map f (y # ys)) = f (last (y # ys))" by (rule last_map) simp
  also have "butlast (map f (y # ys)) = map f (butlast (y # ys))" by (rule map_butlast[symmetric])
  finally show ?case unfolding "3.IH" by simp
qed simp_all

lemma mset_weave: "mset (weave xs) = mset xs"
proof (induction xs rule: weave.induct)
  case (3 x y ys)
  have "mset (y # ys) = mset (butlast (y # ys) @ [last (y # ys)])" by (subst append_butlast_last_id) simp_all
  then have "add_mset (last (y # ys)) (mset (butlast (y # ys))) = mset (y # ys)" by simp
  then show ?case using "3.IH" by simp
qed simp_all

lemma set_weave [simp]: "set (weave xs) = set xs"
  by (metis mset_weave set_mset_mset)

lemma filter_one: "distinct ys \<Longrightarrow> k \<in> set ys \<Longrightarrow> filter (\<lambda>x. x = k) ys = [k]"
  by (induction ys) (auto simp: filter_empty_conv)

lemma butlast_upt: "butlast [i..<j] = [i..<j - 1]"
  by (cases "i < j") (simp_all add: butlast_conv_take)

definition near_end :: "nat \<Rightarrow> nat \<Rightarrow> nat \<times> nat" where
  "near_end n i = (min (i + 1) (n - i), i + 1)"

lemma weave_sorted: "lo + hi = n \<Longrightarrow> sorted (map (near_end n) (weave [lo..<hi]))"
proof (induction "hi - lo" arbitrary: lo hi rule: less_induct)
  case less
  show ?case
  proof (cases "lo + 1 < hi")
    case False
    then have "[lo..<hi] = [] \<or> [lo..<hi] = [lo]" by (cases "lo < hi") (simp_all add: upt_conv_Cons)
    then show ?thesis by auto
  next
    case True
    then have "[lo..<hi] = lo # [lo + 1..<hi]" "[lo + 1..<hi] \<noteq> []" by (simp_all add: upt_conv_Cons)
    then have w: "weave [lo..<hi] = lo # (hi - 1) # weave [lo + 1..<hi - 1]"
      using True by (simp add: weave_Cons butlast_upt)
    have ih: "sorted (map (near_end n) (weave [lo + 1..<hi - 1]))" using less(1)[of "hi - 1" "lo + 1"] True less(2) by simp
    have "near_end n (hi - 1) \<le> near_end n i" if "lo + 1 \<le> i" "i < hi - 1" for i
      using that less(2) by (auto simp: near_end_def less_eq_prod_def)
    moreover have "near_end n lo \<le> near_end n i" if "lo \<le> i" "i \<le> hi - 1" for i
      using that less(2) True by (auto simp: near_end_def less_eq_prod_def)
    ultimately show ?thesis using ih True by (auto simp: w)
  qed
qed

lemma insort_key_map: "insort_key f (g x) (map g ys) = map g (insort_key (\<lambda>x. f (g x)) x ys)"
  by (induction ys) simp_all

lemma sort_key_map: "sort_key f (map g xs) = map g (sort_key (\<lambda>x. f (g x)) xs)"
  by (induction xs) (simp_all add: insort_key_map)

lemma both_ends_eq: "both_ends xs = weave xs"
proof -
  let ?n = "length xs"
  let ?z = "zip [0..<?n] xs"
  have z: "?z = map (\<lambda>i. (i, xs ! i)) [0..<?n]" by (rule nth_equalityI) simp_all
  have k: "(\<lambda>ix. (min (fst ix + 1) (?n - fst ix), fst ix + 1)) = near_end ?n \<circ> fst" by (auto simp: near_end_def)
  have "sort_key (near_end ?n) [0..<?n] = weave [0..<?n]"
  proof (rule properties_for_sort_key)
    show "mset (weave [0..<?n]) = mset [0..<?n]" by (rule mset_weave)
    show "sorted (map (near_end ?n) (weave [0..<?n]))" by (rule weave_sorted) simp
    have d: "distinct (weave [0..<?n])" by (metis mset_weave mset_eq_imp_distinct_iff distinct_upt)
    have "filter (\<lambda>x. near_end ?n k = near_end ?n x) ys = [k]" if "k \<in> set ys" "distinct ys" for k and ys :: "nat list"
    proof -
      have "(\<lambda>x. near_end ?n k = near_end ?n x) = (\<lambda>x. x = k)" by (auto simp: near_end_def)
      then show ?thesis using that by (simp add: filter_one)
    qed
    then show "filter (\<lambda>x. near_end ?n k = near_end ?n x) (weave [0..<?n]) = filter (\<lambda>x. near_end ?n k = near_end ?n x) [0..<?n]"
      if "k \<in> set (weave [0..<?n])" for k
      using that d by simp
  qed
  then have "sort_key (near_end ?n \<circ> fst) ?z = map (\<lambda>i. (i, xs ! i)) (weave [0..<?n])"
    unfolding z by (simp add: sort_key_map comp_def)
  then have "both_ends xs = map ((!) xs) (weave [0..<?n])" unfolding both_ends_def k by (simp add: comp_def)
  also have "\<dots> = weave (map ((!) xs) [0..<?n])" by (rule weave_map[symmetric])
  finally show ?thesis by (simp add: map_nth)
qed


section \<open>The canonical subject\<close>

definition folded_char :: "char \<Rightarrow> bool" where
  "folded_char c \<longleftrightarrow> (of_char c :: nat) \<noteq> 223 \<and> py_lower_char c = c"

lemma casefold_folded: "list_all folded_char (py_casefold s)"
proof -
  have low: "folded_char (py_lower_char c)" if "(of_char c :: nat) \<noteq> 223" for c
    using that by (auto simp: folded_char_def py_lower_char_def Let_def of_char_of)
  have "folded_char CHR ''s''" by code_simp
  then show ?thesis using low by (auto simp: py_casefold_def list_all_iff)
qed

lemma casefold_fixed: "list_all folded_char s \<Longrightarrow> py_casefold s = s"
  by (induction s) (simp_all add: py_casefold_def folded_char_def)

definition plain_word :: "string \<Rightarrow> bool" where "plain_word w \<longleftrightarrow> w \<noteq> [] \<and> list_all (\<lambda>c. \<not> py_isspace c) w"

lemma split_aux_words: "list_all (\<lambda>c. \<not> py_isspace c) w \<Longrightarrow> list_all plain_word (py_split_aux w s)"
  by (induction w s rule: py_split_aux.induct) (auto simp: plain_word_def)

lemma split_aux_run: "list_all (\<lambda>c. \<not> py_isspace c) v \<Longrightarrow> py_split_aux w (v @ s) = py_split_aux (w @ v) s"
  by (induction v arbitrary: w) simp_all

lemma split_aux_chars: "set w \<subseteq> C \<Longrightarrow> set s \<subseteq> C \<Longrightarrow> \<Union> (set ` set (py_split_aux w s)) \<subseteq> C"
  by (induction w s rule: py_split_aux.induct) auto

lemma space_is_space: "py_isspace CHR '' ''" by code_simp

lemma split_join: "list_all plain_word ws \<Longrightarrow> py_split (join '' '' ws) = ws"
  unfolding py_split_def
proof (induction "'' ''" ws rule: join.induct)
  case (2 x)
  then show ?case using split_aux_run[of x "[]" "[]"] by (simp add: plain_word_def)
next
  case (3 x y ys)
  then show ?case using split_aux_run[of x "[]" "'' '' @ join '' '' (y # ys)"] by (simp add: plain_word_def space_is_space)
qed simp

lemma join_chars: "set (join '' '' ws) \<subseteq> insert CHR '' '' (\<Union> (set ` set ws))"
  by (induction "'' ''" ws rule: join.induct) auto

lemma join_ends:
  "ws \<noteq> [] \<Longrightarrow> list_all plain_word ws \<Longrightarrow>
     join '' '' ws \<noteq> [] \<and> \<not> py_isspace (hd (join '' '' ws)) \<and> \<not> py_isspace (last (join '' '' ws))"
proof (induction "'' ''" ws rule: join.induct)
  case (2 x)
  then show ?case by (cases x) (auto simp: plain_word_def list_all_iff)
next
  case (3 x y ys)
  then have "join '' '' (y # ys) \<noteq> []" "\<not> py_isspace (last (join '' '' (y # ys)))" by simp_all
  moreover have "x \<noteq> []" "\<not> py_isspace (hd x)" using 3(3) by (cases x; simp add: plain_word_def)+
  ultimately show ?case by simp
qed simp

lemma isspace_lower: "py_isspace (py_lower_char c) = py_isspace c"
  by (auto simp: py_isspace_def py_lower_char_def Let_def of_char_of)

lemma split_aux_nonempty: "w \<noteq> [] \<Longrightarrow> py_split_aux w s \<noteq> []"
  by (induction w s rule: py_split_aux.induct) auto

lemma split_casefold_nonempty:
  assumes "py_strip raw \<noteq> []"
  shows "py_split (py_casefold (py_strip raw)) \<noteq> []"
proof -
  obtain c cs where c: "py_strip raw = c # cs" "\<not> py_isspace c"
    using assms py_strip_fixed[of "py_strip raw"] py_strip_idem[of raw] by (cases "py_strip raw") simp_all
  have "\<not> py_isspace CHR ''s''" by code_simp
  then obtain d r where "py_casefold (py_strip raw) = d # r" "\<not> py_isspace d"
    using c isspace_lower[of c] by (cases "(of_char c :: nat) = 223") (auto simp: py_casefold_def)
  then show ?thesis by (simp add: py_split_def split_aux_nonempty)
qed

text \<open>The form a subject is stored in is its own canonical form, so reads and writes meet.\<close>

lemma canonicalize_idem:
  assumes "canonicalize_subject raw = Inr s"
  shows "canonicalize_subject s = Inr s"
proof -
  define ws where "ws = py_split (py_casefold (py_strip raw))"
  have s: "s = join '' '' ws" and ne: "py_strip raw \<noteq> []"
    using assms by (auto simp: canonicalize_subject_def ws_def split: if_splits)
  have words: "list_all plain_word ws" unfolding ws_def py_split_def by (rule split_aux_words) simp
  have "\<Union> (set ` set ws) \<subseteq> {c. folded_char c}"
    unfolding ws_def py_split_def using casefold_folded[of "py_strip raw"]
    by (intro split_aux_chars) (auto simp: list_all_iff)
  moreover have "folded_char CHR '' ''" by code_simp
  ultimately have fold: "list_all folded_char s" unfolding s list_all_iff using join_chars[of ws] by blast
  have "ws \<noteq> []" unfolding ws_def by (rule split_casefold_nonempty[OF ne])
  note ends = join_ends[OF this words, folded s]
  then have "py_strip s = s" by (simp add: py_strip_fixed)
  then show ?thesis using ends split_join[OF words, folded s] casefold_fixed[OF fold]
    by (simp add: canonicalize_subject_def s[symmetric])
qed


section \<open>What is on file\<close>

definition fact_ok :: "fact_row \<Rightarrow> bool" where
  "fact_ok r \<longleftrightarrow>
     fc_predicate r \<in> set PREDICATE_ALLOWLIST \<and>
     canonicalize_subject (fc_subject r) = Inr (fc_subject r) \<and> length (fc_subject r) \<le> 120 \<and>
     \<not> list_ex control_char (fc_subject r) \<and> \<not> has_delimiter (fc_subject r) \<and>
     py_strip (fc_object r) \<noteq> [] \<and> length (fc_object r) \<le> 400 \<and>
     \<not> list_ex control_char (fc_object r) \<and> \<not> has_delimiter (fc_object r) \<and>
     0 \<le> fc_certainty r \<and> fc_certainty r \<le> 1 \<and>
     (\<forall>s. fc_source r = Some s \<longrightarrow> py_strip s \<noteq> []) \<and> fc_speaker_id r \<noteq> Some []"

lemma fact_of_ok: "fact_of st a i x = Inr r \<Longrightarrow> fs_validator st = validate_predicate \<Longrightarrow> fact_ok r"
  unfolding fact_of_def fact_ok_def
  by (auto simp: bind_r_Inr_iff canonicalize_idem checked_certainty_def validate_predicate_def validate_object_def validate_subject_def
      MAX_SUBJECT_CHARS_def MAX_OBJECT_CHARS_def fold_blank_def split: if_splits pyfloat.splits option.splits)

lemma keeps_ok: "keeps r r' \<Longrightarrow> fact_ok r \<Longrightarrow> fact_ok r'"
proof -
  assume "keeps r r'" "fact_ok r"
  moreover obtain t d where "r' = r\<lparr>fc_last_recalled_at := t, fc_superseded_by := d\<rparr>" using \<open>keeps r r'\<close> unfolding keeps_def by blast
  ultimately show "fact_ok r'" by (simp add: fact_ok_def)
qed

lemma sweep_keeps: "keeps r (sweep n r)"
  by (simp add: keeps_def sweep_def live_def)

lemma call_ok:
  assumes "distinct (map fc_id (fd_rows db))" "list_all fact_ok (fd_rows db)" "fs_validator st = validate_predicate"
  shows "list_all fact_ok (fd_rows (fact_call st a op db))"
proof (cases "is_store op")
  case False
  obtain P f where f: "fd_rows (fact_call st a op db) = map f (filter P (fd_rows db))" "\<forall>r. keeps r (f r)"
    using other_call_rows[OF False] by blast
  have "fact_ok (f r)" if "r \<in> set (fd_rows db)" for r
    using keeps_ok[OF f(2)[rule_format, of r]] assms(2) that by (simp add: list_all_iff)
  then show ?thesis by (simp add: f(1) list_all_iff)
next
  case True
  then obtain i x where op: "op = Op_Store i x" by (cases op) (auto simp: is_store_def)
  from assms(1) show ?thesis
  proof (cases rule: insert_fact_cases[where st = st and a = a and i = i and x = x])
    case (refused e)
    then show ?thesis using assms(2) op by simp
  next
    case (stored r)
    have "fact_ok (r\<lparr>fc_superseded_by := d\<rparr>)" for d using fact_of_ok[OF stored(1) assms(3)] by (simp add: fact_ok_def)
    then show ?thesis using op stored(6) assms(2) keeps_ok[OF sweep_keeps] by (auto simp: list_all_iff)
  qed
qed

text \<open>
  C25. Whatever a conversation made the extractor write, a fact on file has a predicate of the closed list, a subject in
  its canonical form and within its bound, an object within its bound, neither with a control character nor with
  the delimiter of the quarantine envelope, a certainty within 0 and 1 and no blank source or speaker.
\<close>

theorem facts_well_formed:
  assumes "list_all (\<lambda>c. fs_validator (fst c) = validate_predicate) cs"
  shows "list_all fact_ok (fd_rows (fact_calls cs no_facts))"
proof -
  have "list_all fact_ok (fd_rows (fact_calls cs db))" if "chains_ok (fd_rows db)" "list_all fact_ok (fd_rows db)" for db
    using that assms
  proof (induction cs arbitrary: db)
    case (Cons c cs)
    obtain st a op where c: "c = (st, a, op)" by (cases c)
    have "list_all fact_ok (fd_rows (fact_call st a op db))"
      using Cons.prems c by (intro call_ok) (simp_all add: chains_ok_def)
    then show ?case using Cons.IH[OF call_chains_ok[OF Cons.prems(1)]] Cons.prems(3) by (simp add: c fact_calls_def)
  qed (simp add: fact_calls_def)
  then show ?thesis by (simp add: no_facts_def chains_ok_def)
qed


section \<open>What a recall returns\<close>

definition fact_scope_cols :: "fact_row \<Rightarrow> scope_cols" where
  "fact_scope_cols r = (fc_agent_id r, fc_session_id r, fc_principal_id r, fc_epoch_id r)"

lemma fact_cols_sel [simp]:
  "fact_cols r ''agent_id'' = fc_agent_id r" "fact_cols r ''subject'' = fc_subject r" "fact_cols r ''predicate'' = fc_predicate r"
  "fact_cols r ''session_id'' = fc_session_id r" "fact_cols r ''principal_id'' = fc_principal_id r" "fact_cols r ''epoch_id'' = fc_epoch_id r"
  by (simp_all add: fact_cols_def)

lemma predicate_clause_holds:
  "clause_holds row (predicate_in_clause ps) = Some (case ps of None \<Rightarrow> True | Some xs \<Rightarrow> row ''predicate'' \<in> set xs)"
  by (simp add: clause_holds_def predicate_in_clause_def split: option.split)

lemma fact_scope_holds:
  "clause_holds (fact_cols r) (fact_scope_clause sl pr ep) =
     Some ((case sl of None \<Rightarrow> True | Some ids \<Rightarrow> fc_session_id r \<in> set ids) \<and> fc_principal_id r = pr \<and> fc_epoch_id r = ep)"
  unfolding fact_scope_clause_def
  by (subst clause_and_holds[OF session_in_clause_holds clause_and_holds[OF eq_clause_holds(1) eq_clause_holds(2)]])
    (simp split: option.split)

lemma two_cols_hold: "clause_holds row ([Col_Eq c, Col_Eq d], [u, v]) = Some (row c = u \<and> row d = v)"
  by (simp add: clause_holds_def)

lemma recall_where_iff:
  "recall_where ag subj inc ps sl pr ep r \<longleftrightarrow>
     (inc \<or> live r) \<and> fc_subject r = subj \<and> (case ps of None \<Rightarrow> True | Some xs \<Rightarrow> fc_predicate r \<in> set xs) \<and>
     scope_admits \<lparr>rs_agent = ag, rs_sessions = sl, rs_principal = pr, rs_epoch = ep\<rparr> (fact_scope_cols r)"
  unfolding recall_where_def
  by (subst clause_and_holds[OF two_cols_hold clause_and_holds[OF predicate_clause_holds fact_scope_holds]])
    (auto simp: scope_admits_def fact_scope_cols_def split: option.splits)

lemma recall_facts_eq:
  "recall_facts st a subject limit inc sessions ps order db =
     (if limit < 1 \<or> order \<notin> set RECALL_ORDERS then Inl ValueError
      else bind_r (canonicalize_subject subject) (\<lambda>subj.
        bind_r (resolve_session_list a sessions (ts_session (fs_snapshot st))) (\<lambda>sl.
          if \<not> fs_ready st then Inl RuntimeError
          else let rows = newest_first (filter (recall_where (fs_agent_id st) subj inc ps sl
                       (resolve_active_principal a (ts_principal (fs_snapshot st)))
                       (resolve_active_epoch a (ts_epoch (fs_snapshot st)))) (fd_rows db))
               in Inr (map row_to_fact (take (nat (min limit 100))
                    (if order = ''both_ends'' then weave rows else rows))))))"
  unfolding recall_facts_def both_ends_eq MAX_FACT_RECALL_def by simp


section \<open>Nobody else's facts\<close>

definition fact_owner :: "fact_row \<Rightarrow> string \<times> string" where
  "fact_owner r = (fc_agent_id r, fc_principal_id r)"

text \<open>The person a call acts for: a store may be told, every other call takes the turn's.\<close>

definition fact_acts_for :: "FactStore \<Rightarrow> ambient \<Rightarrow> fact_op \<Rightarrow> string \<times> string" where
  "fact_acts_for st a op =
     (fs_agent_id st,
      case op of Op_Store _ x \<Rightarrow> resolve_write_principal a (fa_principal x) (ts_principal (fs_snapshot st))
      | _ \<Rightarrow> resolve_active_principal a (ts_principal (fs_snapshot st)))"

definition across_people :: "fact_op \<Rightarrow> bool" where
  "across_people op = (case op of Op_Recalled _ _ _ \<Rightarrow> True | Op_Prune _ \<Rightarrow> True | _ \<Rightarrow> False)"

lemma owner_map: "(\<And>r. r \<in> set rows \<Longrightarrow> fact_owner (f r) = fact_owner r \<and> (fact_owner r = own \<longrightarrow> f r = r)) \<Longrightarrow>
    filter (\<lambda>r. fact_owner r = own) (map f rows) = filter (\<lambda>r. fact_owner r = own) rows"
  by (induction rows) auto

lemma owner_filter: "(\<And>r. r \<in> set rows \<Longrightarrow> fact_owner r = own \<Longrightarrow> P r) \<Longrightarrow>
    filter (\<lambda>r. fact_owner r = own) (filter P rows) = filter (\<lambda>r. fact_owner r = own) rows"
  by (induction rows) auto

lemma store_other_owner:
  assumes "distinct (map fc_id (fd_rows db))" "own \<noteq> fact_acts_for st a (Op_Store i x)"
  shows "filter (\<lambda>r. fact_owner r = own) (fd_rows (snd (store_fact st a i x db))) = filter (\<lambda>r. fact_owner r = own) (fd_rows db)"
  using assms(1)
proof (cases rule: insert_fact_cases[where st = st and a = a and i = i and x = x])
  case (stored r)
  have o: "fact_owner r = fact_acts_for st a (Op_Store i x)"
    using stored(1) by (auto simp: fact_of_def bind_r_Inr_iff fact_owner_def fact_acts_for_def split: if_splits)
  have "fact_owner (sweep r u) = fact_owner u \<and> (fact_owner u = own \<longrightarrow> sweep r u = u)" for u
    using assms(2) o by (auto simp: sweep_def swept_def fact_owner_def)
  moreover have "fact_owner (r\<lparr>fc_superseded_by := d\<rparr>) \<noteq> own" for d using assms(2) o by (simp add: fact_owner_def)
  ultimately show ?thesis unfolding stored(6) by (simp add: owner_map)
qed simp

lemma call_other_owner:
  assumes "distinct (map fc_id (fd_rows db))" "own \<noteq> fact_acts_for st a op" "across_people op \<Longrightarrow> fst own \<noteq> fs_agent_id st"
  shows "filter (\<lambda>r. fact_owner r = own) (fd_rows (fact_call st a op db)) = filter (\<lambda>r. fact_owner r = own) (fd_rows db)"
proof (cases op)
  case (Op_Store i x)
  then show ?thesis using store_other_owner[OF assms(1)] assms(2) by simp
next
  case (Op_Recalled ids at_time now)
  then have "fact_owner (recalled_at t (fs_agent_id st) ids r) = fact_owner r \<and>
      (fact_owner r = own \<longrightarrow> recalled_at t (fs_agent_id st) ids r = r)" for t r
    using assms(3) by (auto simp: across_people_def recalled_at_def fact_owner_def)
  then show ?thesis using Op_Recalled by (simp add: mark_recalled_def mark_recalled_rows owner_map)
next
  case (Op_Supersede i by_i)
  let ?f = "\<lambda>r. if fc_id r = i \<and> fc_agent_id r = fs_agent_id st \<and> live r \<and>
      fc_principal_id r = resolve_active_principal a (ts_principal (fs_snapshot st)) \<and>
      fc_epoch_id r = resolve_active_epoch a (ts_epoch (fs_snapshot st)) then r\<lparr>fc_superseded_by := Some by_i\<rparr> else r"
  have "fact_owner (?f r) = fact_owner r \<and> (fact_owner r = own \<longrightarrow> ?f r = r)" for r
    using assms(2) Op_Supersede by (auto simp: fact_acts_for_def fact_owner_def)
  from owner_map[OF this, of "fd_rows db"] show ?thesis
    using Op_Supersede by (simp add: supersede_def retract_fact_def Let_def)
next
  case (Op_Prune before)
  have "filter (\<lambda>r. fact_owner r = own) (filter (\<lambda>r. \<not> (fc_agent_id r = fs_agent_id st \<and> Q r)) rows) =
      filter (\<lambda>r. fact_owner r = own) rows" for Q rows
    using assms(3) Op_Prune by (intro owner_filter) (auto simp: across_people_def fact_owner_def)
  then show ?thesis using Op_Prune by (simp add: prune_facts_def Let_def del: filter_filter de_Morgan_conj)
next
  case (Op_Erase subject)
  have f: "filter (\<lambda>r. fact_owner r = own) (filter (\<lambda>r. \<not> (fc_agent_id r = fs_agent_id st \<and>
      fc_principal_id r = resolve_active_principal a (ts_principal (fs_snapshot st)) \<and> Q r)) rows) = filter (\<lambda>r. fact_owner r = own) rows" for Q rows
    using assms(2) Op_Erase by (intro owner_filter) (auto simp: fact_acts_for_def fact_owner_def)
  show ?thesis using Op_Erase f[of "\<lambda>r. fc_source r = Some subject"] f[of "\<lambda>r. fc_subject r = _"]
    by (simp add: delete_by_subject_def Let_def conj_assoc split: sum.split del: filter_filter de_Morgan_conj)
qed

lemma recall_owner_only:
  assumes "filter (\<lambda>r. fact_owner r = (fs_agent_id st, resolve_active_principal a (ts_principal (fs_snapshot st)))) (fd_rows db') =
     filter (\<lambda>r. fact_owner r = (fs_agent_id st, resolve_active_principal a (ts_principal (fs_snapshot st)))) (fd_rows db)"
  shows "recall_facts st a subject limit inc sessions ps order db' = recall_facts st a subject limit inc sessions ps order db"
proof -
  let ?o = "\<lambda>r. fact_owner r = (fs_agent_id st, resolve_active_principal a (ts_principal (fs_snapshot st)))"
  have imp: "recall_where (fs_agent_id st) subj inc ps sl (resolve_active_principal a (ts_principal (fs_snapshot st))) ep r \<Longrightarrow> ?o r" for subj sl ep r
    by (simp add: recall_where_iff scope_admits_def fact_scope_cols_def fact_owner_def)
  have "filter (recall_where (fs_agent_id st) subj inc ps sl (resolve_active_principal a (ts_principal (fs_snapshot st))) ep) rows =
      filter (recall_where (fs_agent_id st) subj inc ps sl (resolve_active_principal a (ts_principal (fs_snapshot st))) ep) (filter ?o rows)"
    for subj sl ep rows using imp by (auto intro: filter_cong)
  then have same: "filter (recall_where (fs_agent_id st) subj inc ps sl (resolve_active_principal a (ts_principal (fs_snapshot st))) ep) (fd_rows db') =
      filter (recall_where (fs_agent_id st) subj inc ps sl (resolve_active_principal a (ts_principal (fs_snapshot st))) ep) (fd_rows db)"
    for subj sl ep using assms by metis
  show ?thesis unfolding recall_facts_def same by (rule refl)
qed

text \<open>
  Nobody else's facts. A store, a retraction and an erasure touch no fact of another persona or another
  person, and what such another recalls, in any way of asking, is what it recalled before; reinforcement and retention go
  by persona alone and reach no other persona's.
\<close>

lemma facts_isolated:
  assumes "distinct (map fc_id (fd_rows db))"
    and "other = (fs_agent_id st', resolve_active_principal a' (ts_principal (fs_snapshot st')))"
    and "other \<noteq> fact_acts_for st a op" "across_people op \<longrightarrow> fst other \<noteq> fs_agent_id st"
  shows "filter (\<lambda>r. fact_owner r = other) (fd_rows (fact_call st a op db)) = filter (\<lambda>r. fact_owner r = other) (fd_rows db) \<and>
     recall_facts st' a' subject limit inc sessions ps order (fact_call st a op db) =
       recall_facts st' a' subject limit inc sessions ps order db"
proof -
  have "filter (\<lambda>r. fact_owner r = other) (fd_rows (fact_call st a op db)) = filter (\<lambda>r. fact_owner r = other) (fd_rows db)"
    using assms by (intro call_other_owner) simp_all
  then show ?thesis using recall_owner_only[of st' a'] unfolding assms(2) by blast
qed

text \<open>
  C24. The right to be forgotten. Erasing a subject removes exactly this person's facts about it and those learned in the
  interaction of that name, in every session and epoch, live or superseded; the two counts add up to the facts removed, and
  no later recall about the subject, in any spelling that folds to it, finds one.
\<close>

theorem erased_is_gone:
  assumes "fs_ready st" "canonicalize_subject subject = Inr subj"
  shows "case delete_by_subject st a subject db of (res, db') \<Rightarrow>
     let gone = (\<lambda>r. fact_owner r = (fs_agent_id st, resolve_active_principal a (ts_principal (fs_snapshot st))) \<and>
                     (fc_subject r = subj \<or> fc_source r = Some subject))
     in fd_rows db' = filter (\<lambda>r. \<not> gone r) (fd_rows db) \<and>
        (\<exists>n m. res = Inr (n, m) \<and> n + m = length (filter gone (fd_rows db))) \<and>
        (\<forall>a' spelling limit inc sessions ps order fs.
           resolve_active_principal a' (ts_principal (fs_snapshot st)) = resolve_active_principal a (ts_principal (fs_snapshot st)) \<and>
           canonicalize_subject spelling = Inr subj \<and> recall_facts st a' spelling limit inc sessions ps order db' = Inr fs \<longrightarrow> fs = [])"
proof -
  define own where "own = (\<lambda>r. fact_owner r = (fs_agent_id st, resolve_active_principal a (ts_principal (fs_snapshot st))))"
  define gone where "gone = (\<lambda>r. own r \<and> (fc_subject r = subj \<or> fc_source r = Some subject))"
  define db' where "db' = snd (delete_by_subject st a subject db)"
  have mine: "(fc_agent_id r = fs_agent_id st \<and> fc_principal_id r = resolve_active_principal a (ts_principal (fs_snapshot st))) = own r" for r
    by (simp add: own_def fact_owner_def)
  have del: "delete_by_subject st a subject db =
      (Inr (length (filter (\<lambda>r. own r \<and> fc_subject r = subj) (fd_rows db)),
            length (filter (\<lambda>r. own r \<and> fc_source r = Some subject) (filter (\<lambda>r. \<not> (own r \<and> fc_subject r = subj)) (fd_rows db)))),
       db\<lparr>fd_rows := filter (\<lambda>r. \<not> (own r \<and> fc_source r = Some subject)) (filter (\<lambda>r. \<not> (own r \<and> fc_subject r = subj)) (fd_rows db))\<rparr>)"
    using assms by (simp add: delete_by_subject_def Let_def mine del: filter_filter)
  have rows: "fd_rows db' = filter (\<lambda>r. \<not> gone r) (fd_rows db)"
    unfolding db'_def del by (auto simp: gone_def intro: filter_cong)
  have count: "length (filter (\<lambda>r. own r \<and> fc_subject r = subj) xs) +
      length (filter (\<lambda>r. own r \<and> fc_source r = Some subject) (filter (\<lambda>r. \<not> (own r \<and> fc_subject r = subj)) xs)) = length (filter gone xs)" for xs
    by (induction xs) (auto simp: gone_def)
  have empty: "fs = []" if "resolve_active_principal a' (ts_principal (fs_snapshot st)) = resolve_active_principal a (ts_principal (fs_snapshot st))"
      "canonicalize_subject spelling = Inr subj" "recall_facts st a' spelling limit inc sessions ps order db' = Inr fs"
    for a' spelling limit inc sessions ps order fs
  proof -
    have "\<not> recall_where (fs_agent_id st) subj inc ps sl (resolve_active_principal a' (ts_principal (fs_snapshot st))) ep r"
      if "r \<in> set (fd_rows db')" for sl ep r
      using that \<open>resolve_active_principal a' (ts_principal (fs_snapshot st)) = _\<close>
      by (auto simp: rows gone_def own_def recall_where_iff scope_admits_def fact_scope_cols_def fact_owner_def)
    then have "filter (recall_where (fs_agent_id st) subj inc ps sl (resolve_active_principal a' (ts_principal (fs_snapshot st))) ep) (fd_rows db') = []" for sl ep
      by (simp add: filter_empty_conv)
    then show ?thesis using that(2,3) unfolding recall_facts_eq by (auto simp: bind_r_Inr_iff newest_first_def Let_def split: if_splits)
  qed
  obtain n m where out: "delete_by_subject st a subject db = (Inr (n, m), db')" "n + m = length (filter gone (fd_rows db))"
    using del count[of "fd_rows db"] unfolding db'_def by simp
  show ?thesis unfolding out(1) prod.case Let_def using rows out(2) empty
    unfolding gone_def own_def by blast
qed

text \<open>
  The \<open>both_ends\<close> order, computed in SQL from the place of each row counted from either end, is the plain
  alternation of the two ends of the newest-first list, cut at the limit: it reads the same facts, and what a limit keeps
  is the newest, the oldest, the second newest, the second oldest and so on.
\<close>

lemma both_ends_alternates:
  assumes "recall_facts st a subject 100 inc sessions ps ''newest'' db = Inr fs" "length fs < 100" "1 \<le> limit" "limit \<le> 100"
  shows "recall_facts st a subject limit inc sessions ps ''both_ends'' db = Inr (take (nat limit) (weave fs))"
proof -
  obtain subj sl where c: "canonicalize_subject subject = Inr subj"
      "resolve_session_list a sessions (ts_session (fs_snapshot st)) = Inr sl" "fs_ready st"
    using assms(1) by (auto simp: recall_facts_eq bind_r_Inr_iff split: if_splits)
  define rows where "rows = newest_first (filter (recall_where (fs_agent_id st) subj inc ps sl
      (resolve_active_principal a (ts_principal (fs_snapshot st))) (resolve_active_epoch a (ts_epoch (fs_snapshot st)))) (fd_rows db))"
  have "fs = map row_to_fact (take 100 rows)"
    using assms(1) c by (simp add: recall_facts_eq rows_def RECALL_ORDERS_def)
  then have "fs = map row_to_fact rows" using assms(2) by (simp add: min_def split: if_splits)
  then show ?thesis using c assms(3,4) by (simp add: recall_facts_eq rows_def[symmetric] RECALL_ORDERS_def weave_map take_map)
qed


section \<open>A small table\<close>

text \<open>Ada hears of Bo's town twice, out of order, and two things he likes in one conversation; Cy keeps one fact.\<close>

definition fact_ambient :: ambient where
  "fact_ambient = \<lparr>active_principal = None, active_session = Some ''room'', active_epoch = None,
      env_principal = None, env_session = None, env_epoch = None\<rparr>"

definition fact_store :: "string \<Rightarrow> FactStore" where
  "fact_store ag = (mk_FactStore ag None fact_ambient)\<lparr>fs_ready := True\<rparr>"

definition say :: "string \<Rightarrow> string \<Rightarrow> string \<Rightarrow> rat \<Rightarrow> fact_args" where
  "say subj p obj t = \<lparr>fa_subject = subj, fa_predicate = p, fa_object = obj, fa_source = Some ''talk'', fa_asserted_at = t,
     fa_certainty = Fin 1, fa_session = ''room'', fa_protection = ''internal'', fa_channel = None, fa_speaker = None, fa_principal = None\<rparr>"

definition fact_run :: "(FactStore \<times> ambient \<times> fact_op) list" where
  "fact_run =
     [(fact_store ''ada'', fact_ambient, Op_Store ''f1'' (say ''Bo'' ''lives_in'' ''Rome'' 5)),
      (fact_store ''ada'', fact_ambient, Op_Store ''f2'' (say '' bo'' ''lives_in'' ''Oslo'' 3)),
      (fact_store ''ada'', fact_ambient, Op_Store ''f3'' (say ''bo'' ''loves'' ''tea'' 6)),
      (fact_store ''ada'', fact_ambient, Op_Store ''f4'' (say ''bo'' ''loves'' ''rum'' 6)),
      (fact_store ''cy'', fact_ambient, Op_Store ''f5'' (say ''bo'' ''loves'' ''gin'' 7))]"

definition fact_table :: fact_db where "fact_table = fact_calls fact_run no_facts"

theorem latest_assertion_wins_witness:
  "map fc_superseded_by (fd_rows fact_table) = [None, Some ''f1'', None, None, None] \<and> covered (fd_rows fact_table)"
proof
  show "map fc_superseded_by (fd_rows fact_table) = [None, Some ''f1'', None, None, None]" by code_simp
  have "list_all (\<lambda>c. adds_only (snd (snd c))) fact_run" by code_simp
  then show "covered (fd_rows fact_table)" unfolding fact_table_def using latest_assertion_wins[of fact_run] by blast
qed

theorem facts_well_formed_witness: "list_all fact_ok (fd_rows fact_table) \<and> length (fd_rows fact_table) = 5"
proof
  have "list_all (\<lambda>c. fs_validator (fst c) = validate_predicate) fact_run"
    by (simp add: fact_run_def fact_store_def mk_FactStore_def)
  then show "list_all fact_ok (fd_rows fact_table)" unfolding fact_table_def by (rule facts_well_formed)
  show "length (fd_rows fact_table) = 5" by code_simp
qed

lemma fact_table_distinct: "distinct (map fc_id (fd_rows fact_table))" by code_simp

theorem facts_isolated_witness:
  "recall_facts (fact_store ''cy'') fact_ambient ''Bo'' 10 True Sess_None None ''newest''
     (fact_call (fact_store ''ada'') fact_ambient (Op_Erase ''bo'') fact_table) =
   recall_facts (fact_store ''cy'') fact_ambient ''Bo'' 10 True Sess_None None ''newest'' fact_table \<and>
   map_sum id (map fact_object) (recall_facts (fact_store ''cy'') fact_ambient ''Bo'' 10 True Sess_None None ''newest'' fact_table) = Inr [''gin'']"
proof
  let ?o = "(fs_agent_id (fact_store ''cy''), resolve_active_principal fact_ambient (ts_principal (fs_snapshot (fact_store ''cy''))))"
  have ne: "?o \<noteq> fact_acts_for (fact_store ''ada'') fact_ambient (Op_Erase ''bo'')" by code_simp
  have "across_people (Op_Erase ''bo'') \<longrightarrow> fst ?o \<noteq> fs_agent_id (fact_store ''ada'')" by (simp add: across_people_def)
  from facts_isolated[OF fact_table_distinct refl ne this]
  show "recall_facts (fact_store ''cy'') fact_ambient ''Bo'' 10 True Sess_None None ''newest''
     (fact_call (fact_store ''ada'') fact_ambient (Op_Erase ''bo'') fact_table) =
   recall_facts (fact_store ''cy'') fact_ambient ''Bo'' 10 True Sess_None None ''newest'' fact_table" by blast
  show "map_sum id (map fact_object) (recall_facts (fact_store ''cy'') fact_ambient ''Bo'' 10 True Sess_None None ''newest'' fact_table) = Inr [''gin'']"
    by code_simp
qed

theorem erased_is_gone_witness:
  "\<exists>db'. delete_by_subject (fact_store ''ada'') fact_ambient ''BO'' fact_table = (Inr (4, 0), db') \<and>
     recall_facts (fact_store ''ada'') fact_ambient ''Bo '' 10 True Sess_None None ''newest'' db' = Inr []"
proof -
  let ?d = "delete_by_subject (fact_store ''ada'') fact_ambient ''BO'' fact_table"
  have res: "fst ?d = Inr (4, 0)" by code_simp
  then obtain db' where d: "?d = (Inr (4, 0), db')" by (metis prod.collapse)
  have ready: "fs_ready (fact_store ''ada'')" by code_simp
  have c: "canonicalize_subject ''BO'' = Inr ''bo''" "canonicalize_subject ''Bo '' = Inr ''bo''" by code_simp+
  have "(case recall_facts (fact_store ''ada'') fact_ambient ''Bo '' 10 True Sess_None None ''newest'' (snd ?d) of Inr _ \<Rightarrow> True | Inl _ \<Rightarrow> False)"
    by code_simp
  then obtain fs where fs: "recall_facts (fact_store ''ada'') fact_ambient ''Bo '' 10 True Sess_None None ''newest'' db' = Inr fs"
    unfolding d snd_conv by (auto split: sum.splits)
  have "fs = []" using erased_is_gone[OF ready c(1), of fact_ambient fact_table] c(2) fs unfolding d prod.case Let_def by blast
  then show ?thesis using d fs by blast
qed

theorem both_ends_alternates_witness:
  "\<exists>fs. recall_facts (fact_store ''ada'') fact_ambient ''bo'' 100 True Sess_None None ''newest'' fact_table = Inr fs \<and>
     map fact_id fs = [''f4'', ''f3'', ''f1'', ''f2''] \<and>
     recall_facts (fact_store ''ada'') fact_ambient ''bo'' 3 True Sess_None None ''both_ends'' fact_table = Inr (take 3 (weave fs))"
proof -
  let ?r = "recall_facts (fact_store ''ada'') fact_ambient ''bo'' 100 True Sess_None None ''newest'' fact_table"
  have "map_sum id (map fact_id) ?r = Inr [''f4'', ''f3'', ''f1'', ''f2'']" by code_simp
  then obtain fs where fs: "?r = Inr fs" "map fact_id fs = [''f4'', ''f3'', ''f1'', ''f2'']" by (cases ?r) auto
  have "length (map fact_id fs) = 4" unfolding fs(2) by simp
  then have "length fs < 100" by simp
  from both_ends_alternates[OF fs(1) this, of 3] show ?thesis using fs by simp
qed

end
