(* ===== verification/Episodes.thy ===== *)
theory Episodes
  imports Scope_Filters Search_Text Classification Complex_Main "HOL-Library.Multiset"
begin

text \<open>
  The episodes of a persona: \<open>src/agents/memory/episodic.py\<close>, \<open>episodic_writes.py\<close>, \<open>episodic_crud.py\<close>,
  \<open>episodic_queries.py\<close>, \<open>episodic_room_ranked.py\<close>, \<open>episodic_closed.py\<close>, \<open>_episodic_replay_dedup.py\<close>,
  \<open>episodic_retention.py\<close>, \<open>_episodic_agent_state.py\<close>, \<open>interaction_janitor.py\<close> and \<open>episode_types.py\<close>.

  The table is the list of its rows in row order. The full-text index is a parameter as in the notes tier. The recall queries
  have no tie-break, so the order SQLite gives rows of one score is a parameter too: \<open>order f rows\<close> is the
  rows by falling \<open>f\<close>. The clock, the random id of a new row and the language model are arguments. A context is
  its JSON text. Scores are real numbers.
\<close>


section \<open>Rows\<close>

record episode_row =
  ep_id :: string
  ep_agent_id :: string
  ep_summary :: string
  ep_context_json :: string
  ep_outcome :: "string option"
  ep_importance :: rat
  ep_access_count :: int
  ep_last_accessed_at :: "rat option"
  ep_tags :: "string list option"
  ep_created_at :: rat
  ep_compressed_at :: "rat option"
  ep_compression_level :: int
  ep_interaction_id :: "string option"
  ep_started_at :: "rat option"
  ep_closed_at :: "rat option"
  ep_turn_count :: "int option"
  ep_scope :: "string option"
  ep_session_id :: string
  ep_principal_id :: string
  ep_epoch_id :: string
  ep_governance_id :: "string option"
  ep_protection_level :: string
  ep_source_channel_id :: "string option"
  ep_speaker_id :: "string option"
  ep_confidence :: rat
  ep_last_validated_at :: "rat option"

record Episode =
  epi_id :: string
  epi_agent_id :: string
  epi_summary :: string
  epi_context_json :: string
  epi_outcome :: "string option"
  epi_importance :: rat
  epi_access_count :: int
  epi_last_accessed_at :: "rat option"
  epi_tags :: "string list"
  epi_created_at :: rat
  epi_compressed_at :: "rat option"
  epi_compression_level :: int
  epi_scope :: "string option"
  epi_interaction_id :: "string option"
  epi_started_at :: "rat option"
  epi_closed_at :: "rat option"
  epi_turn_count :: "int option"
  epi_governance_id :: "string option"
  epi_protection_level :: string
  epi_source_channel_id :: "string option"
  epi_session_id :: string

definition row_to_episode :: "episode_row \<Rightarrow> Episode" where
  "row_to_episode r =
     \<lparr>epi_id = ep_id r, epi_agent_id = ep_agent_id r, epi_summary = ep_summary r, epi_context_json = ep_context_json r,
      epi_outcome = ep_outcome r, epi_importance = ep_importance r, epi_access_count = ep_access_count r,
      epi_last_accessed_at = ep_last_accessed_at r, epi_tags = (case ep_tags r of None \<Rightarrow> [] | Some ts \<Rightarrow> ts),
      epi_created_at = ep_created_at r, epi_compressed_at = ep_compressed_at r,
      epi_compression_level = ep_compression_level r, epi_scope = ep_scope r, epi_interaction_id = ep_interaction_id r,
      epi_started_at = ep_started_at r, epi_closed_at = ep_closed_at r, epi_turn_count = ep_turn_count r,
      epi_governance_id = ep_governance_id r, epi_protection_level = ep_protection_level r,
      epi_source_channel_id = ep_source_channel_id r, epi_session_id = ep_session_id r\<rparr>"

definition EPISODE_RECALL_LIMIT :: int where "EPISODE_RECALL_LIMIT = 100"

definition SUMMARY_PENDING_TEXT :: string where "SUMMARY_PENDING_TEXT = ''[summary pending]''"
definition SUMMARY_UNAVAILABLE_TEXT :: string where "SUMMARY_UNAVAILABLE_TEXT = ''[interaction summary unavailable]''"
definition DEFAULT_CLOSING_GRACE_SEC :: rat where "DEFAULT_CLOSING_GRACE_SEC = 300"

record EpisodicMemory =
  em_agent_id :: string
  em_ready :: bool
  em_fts5 :: bool
  em_snapshot :: tier_snapshot

record episode_db =
  ed_rows :: "episode_row list"
  ed_writes :: "tier_write list"
  ed_summary_failed :: nat


section \<open>Storing an episode\<close>

record episode_args =
  ea_summary :: string
  ea_context_json :: string
  ea_outcome :: "string option"
  ea_importance :: pyfloat
  ea_tags :: "string list option"
  ea_interaction_id :: "string option"
  ea_started_at :: "rat option"
  ea_closed_at :: "rat option"
  ea_turn_count :: "int option"
  ea_scope :: "string option"
  ea_governance_id :: "string option"
  ea_session :: string
  ea_surface :: string
  ea_protection :: string
  ea_channel :: "string option"
  ea_speaker :: "string option"
  ea_principal :: "string option"

text \<open>\<open>max(0.0, min(1.0, x))\<close>: \<open>min\<close> keeps its first argument unless the second is smaller, so no number becomes 1.\<close>

definition clamp_importance :: "pyfloat \<Rightarrow> rat" where
  "clamp_importance x =
     (case x of Fin q \<Rightarrow> max 0 (min 1 q) | PosInf \<Rightarrow> 1 | NegInf \<Rightarrow> 0 | NaN \<Rightarrow> 1)"

definition episode_of :: "EpisodicMemory \<Rightarrow> ambient \<Rightarrow> rat \<Rightarrow> string \<Rightarrow> episode_args \<Rightarrow> episode_row" where
  "episode_of m a now new_id x =
     \<lparr>ep_id = new_id, ep_agent_id = em_agent_id m, ep_summary = ea_summary x, ep_context_json = ea_context_json x,
      ep_outcome = ea_outcome x, ep_importance = clamp_importance (ea_importance x), ep_access_count = 0,
      ep_last_accessed_at = None, ep_tags = Some (case ea_tags x of None \<Rightarrow> [] | Some ts \<Rightarrow> ts), ep_created_at = now,
      ep_compressed_at = None, ep_compression_level = 0, ep_interaction_id = ea_interaction_id x,
      ep_started_at = ea_started_at x, ep_closed_at = ea_closed_at x, ep_turn_count = ea_turn_count x, ep_scope = ea_scope x,
      ep_session_id = normalize_session_id (Some (ea_session x)),
      ep_principal_id = resolve_write_principal a (ea_principal x) (ts_principal (em_snapshot m)),
      ep_epoch_id = resolve_active_epoch a (ts_epoch (em_snapshot m)), ep_governance_id = ea_governance_id x,
      ep_protection_level = ea_protection x, ep_source_channel_id = ea_channel x,
      ep_speaker_id = (case ea_speaker x of Some s \<Rightarrow> if s = [] then None else Some s | None \<Rightarrow> None),
      ep_confidence = 1, ep_last_validated_at = None\<rparr>"

definition store_episode ::
  "EpisodicMemory \<Rightarrow> ambient \<Rightarrow> rat \<Rightarrow> string \<Rightarrow> episode_args \<Rightarrow> episode_db \<Rightarrow> string result \<times> episode_db" where
  "store_episode m a now new_id x db =
     (if \<not> em_ready m then (Inl RuntimeError, db)
      else if ea_summary x = [] \<or> py_strip (ea_summary x) = [] then (Inl ValueError, db)
      else if new_id \<in> ep_id ` set (ed_rows db) then (Inl IntegrityError, db)
      else let r = episode_of m a now new_id x
           in (Inr new_id,
               db\<lparr>ed_rows := ed_rows db @ [r],
                  ed_writes := ed_writes db @
                    [\<lparr>tw_agent = em_agent_id m, tw_session = ep_session_id r, tw_surface = ea_surface x,
                      tw_tier = ''episodic'', tw_salience = EPISODIC_APPEND_SALIENCE, tw_at = None\<rparr>]\<rparr>))"


section \<open>Settling a summary\<close>

definition settle_rows :: "(episode_row \<Rightarrow> bool) \<Rightarrow> string \<Rightarrow> episode_row list \<Rightarrow> episode_row list" where
  "settle_rows hit text rows = map (\<lambda>r. if hit r then r\<lparr>ep_summary := text\<rparr> else r) rows"

definition awaits :: "string \<Rightarrow> string \<Rightarrow> episode_row \<Rightarrow> bool" where
  "awaits ag i r \<longleftrightarrow> ep_agent_id r = ag \<and> ep_interaction_id r = Some i \<and> ep_summary r = SUMMARY_PENDING_TEXT"

definition update_episode_summary :: "string \<Rightarrow> string \<Rightarrow> string \<Rightarrow> episode_db \<Rightarrow> bool \<times> episode_db" where
  "update_episode_summary ag i summary db =
     (list_ex (awaits ag i) (ed_rows db), db\<lparr>ed_rows := settle_rows (awaits ag i) summary (ed_rows db)\<rparr>)"

definition stuck :: "string \<Rightarrow> rat \<Rightarrow> episode_row \<Rightarrow> bool" where
  "stuck ag cutoff r \<longleftrightarrow>
     ep_agent_id r = ag \<and> ep_summary r = SUMMARY_PENDING_TEXT \<and> (\<exists>t. ep_closed_at r = Some t \<and> t < cutoff)"

lemma stuck_code [code]:
  "stuck ag cutoff r \<longleftrightarrow> ep_agent_id r = ag \<and> ep_summary r = SUMMARY_PENDING_TEXT \<and>
     (case ep_closed_at r of None \<Rightarrow> False | Some t \<Rightarrow> t < cutoff)"
  by (auto simp: stuck_def split: option.splits)

definition cleanup_closing_interactions :: "string \<Rightarrow> rat \<Rightarrow> rat \<Rightarrow> episode_db \<Rightarrow> nat \<times> episode_db" where
  "cleanup_closing_interactions ag grace now db =
     (let hit = stuck ag (now - grace);
          n = length (filter hit (ed_rows db))
      in (n, if n > 0
             then db\<lparr>ed_rows := settle_rows hit SUMMARY_UNAVAILABLE_TEXT (ed_rows db), ed_summary_failed := ed_summary_failed db + n\<rparr>
             else db))"


section \<open>Replayed spans\<close>

definition episode_exists_for_interaction :: "string \<Rightarrow> string \<Rightarrow> episode_db \<Rightarrow> bool" where
  "episode_exists_for_interaction ag i db \<longleftrightarrow>
     list_ex (\<lambda>r. ep_agent_id r = ag \<and> ep_interaction_id r = Some i \<and> ep_summary r \<noteq> SUMMARY_UNAVAILABLE_TEXT) (ed_rows db)"

definition clear_failed_episode_for_interaction :: "string \<Rightarrow> string \<Rightarrow> episode_db \<Rightarrow> nat \<times> episode_db" where
  "clear_failed_episode_for_interaction ag i db =
     (let hit = (\<lambda>r. ep_agent_id r = ag \<and> ep_interaction_id r = Some i \<and> ep_summary r = SUMMARY_UNAVAILABLE_TEXT)
      in (length (filter hit (ed_rows db)), db\<lparr>ed_rows := filter (\<lambda>r. \<not> hit r) (ed_rows db)\<rparr>))"


section \<open>Single episodes\<close>

definition get_episode :: "string \<Rightarrow> string \<Rightarrow> episode_db \<Rightarrow> Episode option" where
  "get_episode ag i db = map_option row_to_episode (find (\<lambda>r. ep_id r = i \<and> ep_agent_id r = ag) (ed_rows db))"

definition count_episodes :: "string \<Rightarrow> episode_db \<Rightarrow> nat" where
  "count_episodes ag db = length (filter (\<lambda>r. ep_agent_id r = ag) (ed_rows db))"

definition delete_episode :: "string \<Rightarrow> string \<Rightarrow> episode_db \<Rightarrow> bool \<times> episode_db" where
  "delete_episode ag i db =
     (let hit = (\<lambda>r. ep_id r = i \<and> ep_agent_id r = ag)
      in (list_ex hit (ed_rows db), db\<lparr>ed_rows := filter (\<lambda>r. \<not> hit r) (ed_rows db)\<rparr>))"

definition used :: "string \<Rightarrow> rat \<Rightarrow> string list \<Rightarrow> episode_row \<Rightarrow> episode_row" where
  "used ag now ids r =
     (if ep_agent_id r = ag \<and> ep_id r \<in> set ids
      then r\<lparr>ep_access_count := ep_access_count r + 1, ep_last_accessed_at := Some now\<rparr> else r)"

definition reinforce_episodes :: "string \<Rightarrow> rat \<Rightarrow> string list \<Rightarrow> episode_db \<Rightarrow> episode_db" where
  "reinforce_episodes ag now ids db = (if ids = [] then db else db\<lparr>ed_rows := map (used ag now ids) (ed_rows db)\<rparr>)"


section \<open>Recall\<close>

definition episode_cols :: "episode_row \<Rightarrow> string \<Rightarrow> string" where
  "episode_cols r c =
     (if c = ''agent_id'' then ep_agent_id r else if c = ''session_id'' then ep_session_id r
      else if c = ''principal_id'' then ep_principal_id r else if c = ''epoch_id'' then ep_epoch_id r else [])"

record episode_query =
  eq_agent :: string
  eq_min_importance :: rat
  eq_sessions :: "string list option"
  eq_boost :: "string list option"
  eq_principal :: string
  eq_epoch :: string

definition candidate :: "episode_query \<Rightarrow> episode_row \<Rightarrow> bool" where
  "candidate q r \<longleftrightarrow>
     ep_importance r \<ge> eq_min_importance q \<and>
     clause_holds (episode_cols r)
       (clause_and ([Col_Eq ''agent_id''], [eq_agent q])
         (clause_and (session_in_clause (eq_sessions q) ''session_id'')
           (clause_and (principal_eq_clause (eq_principal q) ''principal_id'')
             (epoch_eq_clause (eq_epoch q) ''epoch_id'')))) = Some True"

definition reject_wall_and_boost :: "string list option \<Rightarrow> string list option \<Rightarrow> unit result" where
  "reject_wall_and_boost sessions boost =
     (if sessions \<noteq> None \<and> (case boost of None \<Rightarrow> False | Some b \<Rightarrow> b \<noteq> []) then Inl ValueError else Inr ())"

type_synonym order_by = "(episode_row \<Rightarrow> real) \<Rightarrow> episode_row list \<Rightarrow> episode_row list"
type_synonym episode_index = "string \<Rightarrow> episode_row list \<Rightarrow> (episode_row \<Rightarrow> rat option) option"

definition episode_score :: "rat \<Rightarrow> episode_row \<Rightarrow> real" where
  "episode_score now r =
     (0.1 + of_rat (ep_importance r) * 0.9) * (1 + ln (1 + of_int (ep_access_count r))) *
     (1 / (1 + (of_rat now - of_rat (ep_created_at r)) / 86400))"

definition boosted :: "episode_query \<Rightarrow> rat \<Rightarrow> episode_row \<Rightarrow> real" where
  "boosted q now r = episode_score now r * of_rat (session_boost_expr (eq_boost q) (ep_session_id r))"

definition recall_recency :: "order_by \<Rightarrow> episode_query \<Rightarrow> rat \<Rightarrow> int \<Rightarrow> episode_row list \<Rightarrow> episode_row list result" where
  "recall_recency order q now limit rows =
     bind_r (reject_wall_and_boost (eq_sessions q) (eq_boost q)) (\<lambda>_.
       Inr (take (nat limit) (order (boosted q now) (filter (candidate q) rows))))"

definition recall_like :: "order_by \<Rightarrow> episode_query \<Rightarrow> string \<Rightarrow> rat \<Rightarrow> int \<Rightarrow> episode_row list \<Rightarrow> episode_row list result" where
  "recall_like order q query now limit rows =
     bind_r (reject_wall_and_boost (eq_sessions q) (eq_boost q)) (\<lambda>_.
       Inr (take (nat limit) (order (boosted q now)
         (filter (\<lambda>r. (sqlite_like (ep_summary r) (like_pattern query) \<or> sqlite_like (ep_context_json r) (like_pattern query)) \<and>
                      candidate q r) rows))))"

fun largest :: "rat list \<Rightarrow> rat" where
  "largest [] = 0"
| "largest [x] = x"
| "largest (x # y # ys) = max x (largest (y # ys))"

text \<open>The best relevance the floor measures against: of the admissible candidates, or of all when there is none.\<close>

definition floor_bar :: "string list option \<Rightarrow> (episode_row \<Rightarrow> rat option) \<Rightarrow> episode_row list \<Rightarrow> rat" where
  "floor_bar levels rel cands =
     (case levels of
        None \<Rightarrow> largest (map (the \<circ> rel) cands)
      | Some ls \<Rightarrow>
          (let adm = filter (\<lambda>r. ep_protection_level r \<in> set ls) cands
           in largest (map (the \<circ> rel) (if adm = [] then cands else adm))))"

definition floored :: "rat option \<Rightarrow> string list option \<Rightarrow> (episode_row \<Rightarrow> rat option) \<Rightarrow> episode_row list \<Rightarrow> episode_row list" where
  "floored ms levels rel cands =
     filter (\<lambda>r. the (rel r) \<ge> (case ms of None \<Rightarrow> 0 | Some x \<Rightarrow> x) * floor_bar levels rel cands) cands"

definition recall_fts5 ::
  "episode_index \<Rightarrow> order_by \<Rightarrow> episode_query \<Rightarrow> string \<Rightarrow> rat option \<Rightarrow> string list option \<Rightarrow> rat \<Rightarrow> int \<Rightarrow>
   episode_row list \<Rightarrow> episode_row list result" where
  "recall_fts5 fts order q query ms levels now limit rows =
     bind_r (reject_wall_and_boost (eq_sessions q) (eq_boost q)) (\<lambda>_.
       case fts5_match_query query EPISODE_STRUCTURAL_WORDS of
         None \<Rightarrow> recall_recency order q now limit rows
       | Some m \<Rightarrow>
           if m = [] then Inr []
           else case fts m rows of
             None \<Rightarrow> recall_like order q query now limit rows
           | Some rel \<Rightarrow>
               Inr (take (nat limit) (order (\<lambda>r. of_rat (the (rel r)) * boosted q now r)
                 (floored ms levels rel (filter (\<lambda>r. rel r \<noteq> None \<and> candidate q r) rows)))))"

definition relevance_by_id :: "episode_index \<Rightarrow> string \<Rightarrow> string list \<Rightarrow> episode_row list \<Rightarrow> (string \<times> rat) list option" where
  "relevance_by_id fts query ids rows =
     (case fts5_match_query query EPISODE_STRUCTURAL_WORDS of
        None \<Rightarrow> Some []
      | Some m \<Rightarrow>
          if m = [] \<or> ids = [] then Some []
          else map_option (\<lambda>rel. map (\<lambda>r. (ep_id r, the (rel r))) (filter (\<lambda>r. rel r \<noteq> None \<and> ep_id r \<in> set ids) rows)) (fts m rows))"

definition min_score_ok :: "pyfloat option \<Rightarrow> bool" where
  "min_score_ok ms = (case ms of None \<Rightarrow> True | Some (Fin x) \<Rightarrow> 0 \<le> x \<and> x \<le> 1 | Some _ \<Rightarrow> False)"

definition fin_of :: "pyfloat option \<Rightarrow> rat option" where
  "fin_of ms = (case ms of Some (Fin x) \<Rightarrow> Some x | _ \<Rightarrow> None)"

definition run_recall ::
  "episode_index \<Rightarrow> order_by \<Rightarrow> EpisodicMemory \<Rightarrow> episode_query \<Rightarrow> string \<Rightarrow> rat option \<Rightarrow> string list option \<Rightarrow> rat \<Rightarrow> int \<Rightarrow>
   episode_row list \<Rightarrow> episode_row list result" where
  "run_recall fts order m q query ms levels now limit rows =
     (if query \<noteq> [] \<and> em_fts5 m then recall_fts5 fts order q query ms levels now limit rows
      else if query \<noteq> [] then recall_like order q query now limit rows
      else recall_recency order q now limit rows)"

definition finished :: "episode_row list \<Rightarrow> episode_row list" where
  "finished rows = filter (\<lambda>r. ep_summary r \<noteq> SUMMARY_PENDING_TEXT) rows"

definition recall_episodes ::
  "episode_index \<Rightarrow> order_by \<Rightarrow> EpisodicMemory \<Rightarrow> ambient \<Rightarrow> rat \<Rightarrow> string \<Rightarrow> int \<Rightarrow> rat \<Rightarrow> pyfloat option \<Rightarrow> sessions_arg \<Rightarrow>
   string list option \<Rightarrow> episode_db \<Rightarrow> Episode list result \<times> episode_db" where
  "recall_episodes fts order m a now query limit min_importance ms sessions levels db =
     (if limit < 1 then (Inl ValueError, db)
      else if \<not> min_score_ok ms then (Inl ValueError, db)
      else case resolve_session_list a sessions (ts_session (em_snapshot m)) of
        Inl e \<Rightarrow> (Inl e, db)
      | Inr sl \<Rightarrow>
          if \<not> em_ready m then (Inl RuntimeError, db)
          else let q = \<lparr>eq_agent = em_agent_id m, eq_min_importance = min_importance, eq_sessions = sl, eq_boost = None,
                        eq_principal = resolve_active_principal a (ts_principal (em_snapshot m)),
                        eq_epoch = resolve_active_epoch a (ts_epoch (em_snapshot m))\<rparr>
               in case run_recall fts order m q query (fin_of ms) levels now (min limit EPISODE_RECALL_LIMIT) (ed_rows db) of
                    Inl e \<Rightarrow> (Inl e, db)
                  | Inr rows \<Rightarrow>
                      (let ids = map ep_id (finished rows)
                       in (Inr (map (row_to_episode \<circ> used (em_agent_id m) now ids) (finished rows)),
                           reinforce_episodes (em_agent_id m) now ids db)))"

definition recall_room_ranked ::
  "episode_index \<Rightarrow> order_by \<Rightarrow> EpisodicMemory \<Rightarrow> ambient \<Rightarrow> rat \<Rightarrow> string \<Rightarrow> int \<Rightarrow> rat \<Rightarrow> pyfloat option \<Rightarrow> bool \<Rightarrow>
   string list option \<Rightarrow> episode_db \<Rightarrow> Episode list result \<times> episode_db" where
  "recall_room_ranked fts order m a now query limit min_importance ms reinforce levels db =
     (if limit < 1 then (Inl ValueError, db)
      else if \<not> min_score_ok ms then (Inl ValueError, db)
      else case resolve_session_list a Sess_None (ts_session (em_snapshot m)) of
        Inl e \<Rightarrow> (Inl e, db)
      | Inr boost \<Rightarrow>
          if \<not> em_ready m then (Inl RuntimeError, db)
          else let q = \<lparr>eq_agent = em_agent_id m, eq_min_importance = min_importance, eq_sessions = None, eq_boost = boost,
                        eq_principal = resolve_active_principal a (ts_principal (em_snapshot m)),
                        eq_epoch = resolve_active_epoch a (ts_epoch (em_snapshot m))\<rparr>
               in case run_recall fts order m q query (fin_of ms) levels now (min limit EPISODE_RECALL_LIMIT) (ed_rows db) of
                    Inl e \<Rightarrow> (Inl e, db)
                  | Inr rows \<Rightarrow>
                      (let ids = (if reinforce then map ep_id (finished rows) else [])
                       in (Inr (map (row_to_episode \<circ> used (em_agent_id m) now ids) (finished rows)),
                           reinforce_episodes (em_agent_id m) now ids db)))"


section \<open>Closed interactions\<close>

definition closed_hit :: "string \<Rightarrow> string option \<Rightarrow> string option \<Rightarrow> int \<Rightarrow> episode_row \<Rightarrow> bool" where
  "closed_hit ag scope iid min_turns r \<longleftrightarrow>
     ep_agent_id r = ag \<and> ep_closed_at r \<noteq> None \<and> ep_interaction_id r \<noteq> None \<and>
     ep_summary r \<noteq> SUMMARY_PENDING_TEXT \<and> ep_summary r \<noteq> [] \<and>
     (case ep_turn_count r of None \<Rightarrow> False | Some n \<Rightarrow> n \<ge> max 1 min_turns) \<and>
     (scope \<noteq> None \<longrightarrow> ep_scope r = scope) \<and>
     (iid \<noteq> None \<longrightarrow> ep_interaction_id r = iid \<or> ep_governance_id r = iid)"

definition recall_closed_interactions ::
  "string \<Rightarrow> int \<Rightarrow> string option \<Rightarrow> string option \<Rightarrow> int \<Rightarrow> episode_row list \<Rightarrow> episode_row list" where
  "recall_closed_interactions ag limit scope iid min_turns rows =
     take (nat (max 1 (min limit EPISODE_RECALL_LIMIT)))
       (sort_key (\<lambda>r. - the (ep_closed_at r)) (rev (filter (closed_hit ag scope iid min_turns) rows)))"

definition closed_interactions ::
  "EpisodicMemory \<Rightarrow> int \<Rightarrow> string option \<Rightarrow> string option \<Rightarrow> int \<Rightarrow> episode_db \<Rightarrow> Episode list result" where
  "closed_interactions m limit scope iid min_turns db =
     (if \<not> em_ready m then Inl RuntimeError
      else Inr (map row_to_episode (recall_closed_interactions (em_agent_id m) limit scope iid min_turns (ed_rows db))))"


section \<open>Retention\<close>

definition MAX_CONTEXT_CHARS :: nat where "MAX_CONTEXT_CHARS = 2000"

definition retention_prompt :: "string \<Rightarrow> episode_row \<Rightarrow> string" where
  "retention_prompt snippet r =
     snippet @ [CHR 10, CHR 10] @ ''Summary: '' @ ep_summary r @ [CHR 10] @
     (case ep_outcome r of Some o' \<Rightarrow> if o' = [] then [] else ''Outcome: '' @ o' @ [CHR 10] | None \<Rightarrow> []) @
     (case ep_tags r of Some ts \<Rightarrow> if ts = [] then [] else ''Tags: '' @ join '', '' ts @ [CHR 10] | None \<Rightarrow> []) @
     (if ep_context_json r = [] \<or> ep_context_json r = ''{}'' then []
      else ''Context: '' @
        (if length (ep_context_json r) > MAX_CONTEXT_CHARS
         then take MAX_CONTEXT_CHARS (ep_context_json r) @ ''... [truncated]'' else ep_context_json r) @ [CHR 10])"

text \<open>One step of the batch: the model may raise, give no text or blank text, and then the row stays as it is.\<close>

type_synonym summariser = "string \<Rightarrow> string option result"

definition summarise_one ::
  "summariser \<Rightarrow> string \<Rightarrow> string \<Rightarrow> rat \<Rightarrow> episode_row \<Rightarrow> nat \<times> episode_row list \<Rightarrow> nat \<times> episode_row list" where
  "summarise_one llm snippet ag now r st =
     (case llm (retention_prompt snippet r) of
        Inr (Some text) \<Rightarrow>
          if py_strip text = [] then st
          else let hit = (\<lambda>x. ep_id x = ep_id r \<and> ep_agent_id x = ag)
               in (if list_ex hit (snd st) then fst st + 1 else fst st,
                   map (\<lambda>x. if hit x
                            then x\<lparr>ep_summary := py_strip text, ep_compression_level := ep_compression_level r + 1,
                                   ep_compressed_at := Some now\<rparr> else x) (snd st))
      | _ \<Rightarrow> st)"

definition raw_old :: "string \<Rightarrow> rat \<Rightarrow> episode_row \<Rightarrow> bool" where
  "raw_old ag cutoff r \<longleftrightarrow> ep_agent_id r = ag \<and> ep_compression_level r < 1 \<and> ep_created_at r < cutoff"

definition summarize_old_episodes ::
  "summariser \<Rightarrow> string \<Rightarrow> bool \<Rightarrow> string \<Rightarrow> rat \<Rightarrow> rat \<Rightarrow> int \<Rightarrow> episode_db \<Rightarrow> nat result \<times> episode_db" where
  "summarize_old_episodes llm snippet resolvable ag days now batch db =
     (if batch < 1 then (Inl ValueError, db)
      else if days < 0 then (Inl ValueError, db)
      else let rows = take (nat batch) (sort_key ep_created_at (filter (raw_old ag (now - days * 86400)) (ed_rows db)))
           in if rows = [] \<or> \<not> resolvable then (Inr 0, db)
              else let out = fold (summarise_one llm snippet ag now) rows (0, ed_rows db)
                   in (Inr (fst out), db\<lparr>ed_rows := snd out\<rparr>))"

definition delete_old_episodes :: "string \<Rightarrow> rat \<Rightarrow> rat \<Rightarrow> episode_db \<Rightarrow> nat result \<times> episode_db" where
  "delete_old_episodes ag days now db =
     (if days < 0 then (Inl ValueError, db)
      else let hit = (\<lambda>r. ep_agent_id r = ag \<and> ep_compression_level r \<ge> 1 \<and> ep_created_at r < now - days * 86400)
           in (Inr (length (filter hit (ed_rows db))), db\<lparr>ed_rows := filter (\<lambda>r. \<not> hit r) (ed_rows db)\<rparr>))"


section \<open>The state of an agent\<close>

record agent_state =
  as_count :: int
  as_state_json :: "string option"

type_synonym agent_states = "(string \<times> agent_state) list"

definition get_interaction_count :: "string \<Rightarrow> agent_states \<Rightarrow> int" where
  "get_interaction_count ag t = (case map_of t ag of None \<Rightarrow> 0 | Some r \<Rightarrow> as_count r)"

definition increment_interaction_count :: "string \<Rightarrow> agent_states \<Rightarrow> int \<times> agent_states" where
  "increment_interaction_count ag t =
     (let r = (case map_of t ag of None \<Rightarrow> \<lparr>as_count = 1, as_state_json = None\<rparr> | Some r \<Rightarrow> r\<lparr>as_count := as_count r + 1\<rparr>)
      in (as_count r, AList.update ag r t))"

definition reset_interaction_count :: "string \<Rightarrow> agent_states \<Rightarrow> agent_states" where
  "reset_interaction_count ag t =
     AList.update ag (case map_of t ag of None \<Rightarrow> \<lparr>as_count = 0, as_state_json = None\<rparr> | Some r \<Rightarrow> r\<lparr>as_count := 0\<rparr>) t"

definition persist_agent_state :: "string \<Rightarrow> string \<Rightarrow> agent_states \<Rightarrow> agent_states" where
  "persist_agent_state ag js t =
     AList.update ag (case map_of t ag of None \<Rightarrow> \<lparr>as_count = 0, as_state_json = Some js\<rparr> | Some r \<Rightarrow> r\<lparr>as_state_json := Some js\<rparr>) t"

definition load_agent_state :: "string \<Rightarrow> agent_states \<Rightarrow> string option" where
  "load_agent_state ag t =
     (case map_of t ag of
        None \<Rightarrow> None
      | Some r \<Rightarrow> (case as_state_json r of None \<Rightarrow> None | Some s \<Rightarrow> if s = [] then None else Some s))"

lemma agent_state_laws:
  "js \<noteq> [] \<Longrightarrow> load_agent_state ag (persist_agent_state ag js t) = Some js"
  "get_interaction_count ag (persist_agent_state ag js t) = get_interaction_count ag t"
  "fst (increment_interaction_count ag t) = get_interaction_count ag t + 1"
  "get_interaction_count ag (snd (increment_interaction_count ag t)) = get_interaction_count ag t + 1"
  "get_interaction_count ag (reset_interaction_count ag t) = 0"
  "load_agent_state ag (snd (increment_interaction_count ag t)) = load_agent_state ag t"
  "load_agent_state ag (reset_interaction_count ag t) = load_agent_state ag t"
  by (simp_all add: load_agent_state_def persist_agent_state_def get_interaction_count_def increment_interaction_count_def
      reset_interaction_count_def update_conv' Let_def split: option.split)


section \<open>The reading of the predicates\<close>

definition episode_scope_cols :: "episode_row \<Rightarrow> scope_cols" where
  "episode_scope_cols r = (ep_agent_id r, ep_session_id r, ep_principal_id r, ep_epoch_id r)"

lemma episode_cols_sel [simp]:
  "episode_cols r ''agent_id'' = ep_agent_id r" "episode_cols r ''session_id'' = ep_session_id r"
  "episode_cols r ''principal_id'' = ep_principal_id r" "episode_cols r ''epoch_id'' = ep_epoch_id r"
  by (simp_all add: episode_cols_def)

lemma one_col_holds: "clause_holds row ([Col_Eq c], [v]) = Some (row c = v)"
  by (simp add: clause_holds_def)

lemma candidate_iff:
  "candidate q r \<longleftrightarrow> ep_importance r \<ge> eq_min_importance q \<and>
     scope_admits \<lparr>rs_agent = eq_agent q, rs_sessions = eq_sessions q, rs_principal = eq_principal q, rs_epoch = eq_epoch q\<rparr> (episode_scope_cols r)"
  unfolding candidate_def
  by (subst clause_and_holds[OF one_col_holds clause_and_holds[OF session_in_clause_holds
        clause_and_holds[OF eq_clause_holds(1) eq_clause_holds(2)]]])
    (auto simp: scope_admits_def episode_scope_cols_def split: option.splits)

interpretation episodes_used: scoped_table episode_scope_cols ep_id "used ag now ids" for ag now ids
  by unfold_locales (simp_all add: episode_scope_cols_def used_def)

interpretation episodes_settled: scoped_table episode_scope_cols ep_id "ep_summary_update (\<lambda>_. t)" for t
  by unfold_locales (simp_all add: episode_scope_cols_def)


section \<open>What a recall returns\<close>

text \<open>\<open>ORDER BY\<close> gives the rows it was given.\<close>

definition orders :: "order_by \<Rightarrow> bool" where
  "orders order \<longleftrightarrow> (\<forall>f rows. mset (order f rows) = mset rows)"

lemma orders_set: "orders order \<Longrightarrow> set (order f rows) = set rows"
  by (metis orders_def set_mset_mset)

lemma take_ordered:
  assumes "orders order" "\<And>r. P r \<Longrightarrow> candidate q r"
  shows "set (take n (order f (filter P rows))) \<subseteq> {r \<in> set rows. candidate q r}" "length (take n (order f (filter P rows))) \<le> n"
  using assms(2) orders_set[OF assms(1)] by (auto dest!: in_set_takeD)

lemma floored_sub: "floored ms levels rel (filter P rows) = filter (\<lambda>r. P r \<and>
    the (rel r) \<ge> (case ms of None \<Rightarrow> 0 | Some x \<Rightarrow> x) * floor_bar levels rel (filter P rows)) rows"
  unfolding floored_def filter_filter by (rule filter_cong) auto

lemma run_recall_sound:
  assumes o: "orders order" and r: "run_recall fts order m q query ms levels now limit rows = Inr out"
  shows "set out \<subseteq> {r \<in> set rows. candidate q r} \<and> length out \<le> nat limit"
proof -
  have rec: "set out \<subseteq> {r \<in> set rows. candidate q r} \<and> length out \<le> nat limit" if "recall_recency order q now limit rows = Inr out" for out
    using that take_ordered[OF o, of "candidate q" q] by (auto simp: recall_recency_def bind_r_Inr_iff)
  have like: "set out \<subseteq> {r \<in> set rows. candidate q r} \<and> length out \<le> nat limit" if "recall_like order q query now limit rows = Inr out" for out
    using that take_ordered[OF o, where q = q and P = "\<lambda>r. (sqlite_like (ep_summary r) (like_pattern query) \<or>
        sqlite_like (ep_context_json r) (like_pattern query)) \<and> candidate q r"]
    by (auto simp: recall_like_def bind_r_Inr_iff)
  have fts: "set out \<subseteq> {r \<in> set rows. candidate q r} \<and> length out \<le> nat limit" if "recall_fts5 fts order q query ms levels now limit rows = Inr out" for out
  proof -
    have t: "set (take (nat limit) (order f (floored ms levels rel (filter (\<lambda>r. rel r \<noteq> None \<and> candidate q r) rows)))) \<subseteq> {r \<in> set rows. candidate q r}"
        "length (take (nat limit) (order f (floored ms levels rel (filter (\<lambda>r. rel r \<noteq> None \<and> candidate q r) rows)))) \<le> nat limit" for f rel
      unfolding floored_sub by (rule take_ordered(1)[OF o, where q = q], simp) simp
    have fin: ?thesis if "out = take (nat limit) (order f (floored ms levels rel (filter (\<lambda>r. rel r \<noteq> None \<and> candidate q r) rows)))" for f rel
      unfolding that using t[of f rel] by (rule conjI)
    note ok = that
    show ?thesis
    proof (cases "fts5_match_query query EPISODE_STRUCTURAL_WORDS")
      case None
      then show ?thesis using ok rec unfolding recall_fts5_def bind_r_Inr_iff by simp
    next
      case (Some mq)
      show ?thesis
      proof (cases "mq = [] \<or> fts mq rows = None")
        case True
        then have "out = [] \<or> recall_like order q query now limit rows = Inr out"
          using ok Some unfolding recall_fts5_def bind_r_Inr_iff by (auto split: if_splits)
        then show ?thesis using like by auto
      next
        case False
        then obtain rel where "fts mq rows = Some rel" by auto
        then have "out = take (nat limit) (order (\<lambda>r. of_rat (the (rel r)) * boosted q now r)
                 (floored ms levels rel (filter (\<lambda>r. rel r \<noteq> None \<and> candidate q r) rows)))"
          using ok Some False unfolding recall_fts5_def bind_r_Inr_iff by simp
        then show ?thesis by (rule fin)
      qed
    qed
  qed
  show ?thesis using r rec like fts unfolding run_recall_def by (auto split: if_splits)
qed

lemma recall_outcome:
  assumes "orders order" "run_recall fts order m q query ms levels now (min limit EPISODE_RECALL_LIMIT) rows = Inr out" "1 \<le> limit"
  shows "set (finished out) \<subseteq> {r \<in> set rows. candidate q r \<and> ep_summary r \<noteq> SUMMARY_PENDING_TEXT}" "int (length (finished out)) \<le> min limit 100"
proof -
  note s = run_recall_sound[OF assms(1,2)]
  show "set (finished out) \<subseteq> {r \<in> set rows. candidate q r \<and> ep_summary r \<noteq> SUMMARY_PENDING_TEXT}" using s by (auto simp: finished_def)
  have "length (finished out) \<le> length out" by (simp add: finished_def)
  then show "int (length (finished out)) \<le> min limit 100" using s assms(3) by (simp add: EPISODE_RECALL_LIMIT_def) linarith
qed

text \<open>
  C26. What an episodic recall returns, walled to the turn's rooms or ranked across rooms, is the persona's own, of the turn's
  person and epoch, at or above the asked importance and finished: never an interaction still waiting for its summary. At
  most the limit and at most 100 come back, whatever the index answers and however rows of equal score are
  ordered; the walled recall stays within the admitted sessions and counts one use of exactly the episodes it returned,
  the ranked one counts none unless it is told to.
\<close>

theorem recall_finished_in_scope:
  assumes "orders order"
    and "out = recall_episodes fts order m a now query limit imp ms sessions levels db \<or>
         out = recall_room_ranked fts order m a now query limit imp ms reinforce levels db"
    and "out = (Inr es, db')"
  shows "\<exists>rows. set rows \<subseteq> set (ed_rows db) \<and> int (length es) \<le> min limit 100 \<and>
     (\<forall>r \<in> set rows. ep_agent_id r = em_agent_id m \<and> ep_importance r \<ge> imp \<and> ep_summary r \<noteq> SUMMARY_PENDING_TEXT \<and>
        ep_principal_id r = resolve_active_principal a (ts_principal (em_snapshot m)) \<and>
        ep_epoch_id r = resolve_active_epoch a (ts_epoch (em_snapshot m))) \<and>
     (\<exists>ids. es = map (row_to_episode \<circ> used (em_agent_id m) now ids) rows \<and>
        ed_rows db' = map (used (em_agent_id m) now ids) (ed_rows db) \<and>
        (if out = recall_episodes fts order m a now query limit imp ms sessions levels db
         then ids = map ep_id rows \<and>
           (\<forall>sl. resolve_session_list a sessions (ts_session (em_snapshot m)) = Inr (Some sl) \<longrightarrow> (\<forall>r \<in> set rows. ep_session_id r \<in> set sl))
         else ids = (if reinforce then map ep_id rows else [])))"
proof -
  define ag pr ep where d: "ag = em_agent_id m" "pr = resolve_active_principal a (ts_principal (em_snapshot m))"
    "ep = resolve_active_epoch a (ts_epoch (em_snapshot m))"
  have reinf: "ed_rows (reinforce_episodes ag now ids db) = map (used ag now ids) (ed_rows db)" for ids
    by (simp add: reinforce_episodes_def used_def map_idI)
  have walled: "\<exists>rows sl. set rows \<subseteq> {r \<in> set (ed_rows db). candidate \<lparr>eq_agent = ag, eq_min_importance = imp, eq_sessions = sl, eq_boost = None,
        eq_principal = pr, eq_epoch = ep\<rparr> r \<and> ep_summary r \<noteq> SUMMARY_PENDING_TEXT} \<and> int (length rows) \<le> min limit 100 \<and>
      resolve_session_list a sessions (ts_session (em_snapshot m)) = Inr sl \<and>
      es = map (row_to_episode \<circ> used ag now (map ep_id rows)) rows \<and> ed_rows db' = map (used ag now (map ep_id rows)) (ed_rows db)"
    if "recall_episodes fts order m a now query limit imp ms sessions levels db = (Inr es, db')"
  proof -
    from that obtain sl rows where sl: "resolve_session_list a sessions (ts_session (em_snapshot m)) = Inr sl" "1 \<le> limit"
      and r: "run_recall fts order m \<lparr>eq_agent = ag, eq_min_importance = imp, eq_sessions = sl, eq_boost = None, eq_principal = pr, eq_epoch = ep\<rparr>
          query (fin_of ms) levels now (min limit EPISODE_RECALL_LIMIT) (ed_rows db) = Inr rows"
        "es = map (row_to_episode \<circ> used ag now (map ep_id (finished rows))) (finished rows)"
        "db' = reinforce_episodes ag now (map ep_id (finished rows)) db"
      unfolding recall_episodes_def d by (auto simp: Let_def split: if_splits sum.splits)
    show ?thesis using recall_outcome[OF assms(1) r(1) sl(2)] sl(1) r(2,3) reinf by (intro exI[of _ "finished rows"] exI[of _ sl]) simp
  qed
  have ranked: "\<exists>rows. set rows \<subseteq> {r \<in> set (ed_rows db). candidate \<lparr>eq_agent = ag, eq_min_importance = imp, eq_sessions = None, eq_boost = boost,
        eq_principal = pr, eq_epoch = ep\<rparr> r \<and> ep_summary r \<noteq> SUMMARY_PENDING_TEXT} \<and> int (length rows) \<le> min limit 100 \<and>
      es = map (row_to_episode \<circ> used ag now (if reinforce then map ep_id rows else [])) rows \<and>
      ed_rows db' = map (used ag now (if reinforce then map ep_id rows else [])) (ed_rows db)"
    if "recall_room_ranked fts order m a now query limit imp ms reinforce levels db = (Inr es, db')"
      "resolve_session_list a Sess_None (ts_session (em_snapshot m)) = Inr boost" for boost
  proof -
    from that obtain rows where lim: "1 \<le> limit"
      and r: "run_recall fts order m \<lparr>eq_agent = ag, eq_min_importance = imp, eq_sessions = None, eq_boost = boost, eq_principal = pr, eq_epoch = ep\<rparr>
          query (fin_of ms) levels now (min limit EPISODE_RECALL_LIMIT) (ed_rows db) = Inr rows"
        "es = map (row_to_episode \<circ> used ag now (if reinforce then map ep_id (finished rows) else [])) (finished rows)"
        "db' = reinforce_episodes ag now (if reinforce then map ep_id (finished rows) else []) db"
      unfolding recall_room_ranked_def d by (auto simp: Let_def split: if_splits sum.splits)
    show ?thesis using recall_outcome[OF assms(1) r(1) lim] r(2,3) reinf by (intro exI[of _ "finished rows"]) simp
  qed
  obtain boost where boost: "resolve_session_list a Sess_None (ts_session (em_snapshot m)) = Inr boost"
    using resolve_session_list_default by blast
  show ?thesis
  proof (cases "out = recall_episodes fts order m a now query limit imp ms sessions levels db")
    case True
    then obtain rows sl where w: "set rows \<subseteq> {r \<in> set (ed_rows db). candidate \<lparr>eq_agent = ag, eq_min_importance = imp, eq_sessions = sl, eq_boost = None,
        eq_principal = pr, eq_epoch = ep\<rparr> r \<and> ep_summary r \<noteq> SUMMARY_PENDING_TEXT}" "int (length rows) \<le> min limit 100"
      "resolve_session_list a sessions (ts_session (em_snapshot m)) = Inr sl"
      "es = map (row_to_episode \<circ> used ag now (map ep_id rows)) rows" "ed_rows db' = map (used ag now (map ep_id rows)) (ed_rows db)"
      using walled True assms(3) by auto
    have c: "\<forall>r \<in> set rows. ep_agent_id r = ag \<and> ep_importance r \<ge> imp \<and> ep_summary r \<noteq> SUMMARY_PENDING_TEXT \<and> ep_principal_id r = pr \<and> ep_epoch_id r = ep \<and> (\<forall>l. sl = Some l \<longrightarrow> ep_session_id r \<in> set l)"
      using w(1) by (auto simp: candidate_iff scope_admits_def episode_scope_cols_def d)
    show ?thesis
      by (rule exI[of _ rows], intro conjI exI[of _ "map ep_id rows"]) (use w c True in \<open>auto simp: d\<close>)
  next
    case False
    then obtain rows where w: "set rows \<subseteq> {r \<in> set (ed_rows db). candidate \<lparr>eq_agent = ag, eq_min_importance = imp, eq_sessions = None, eq_boost = boost,
        eq_principal = pr, eq_epoch = ep\<rparr> r \<and> ep_summary r \<noteq> SUMMARY_PENDING_TEXT}" "int (length rows) \<le> min limit 100"
      "es = map (row_to_episode \<circ> used ag now (if reinforce then map ep_id rows else [])) rows"
      "ed_rows db' = map (used ag now (if reinforce then map ep_id rows else [])) (ed_rows db)"
      using ranked[OF _ boost] False assms(2,3) by auto
    have c: "\<forall>r \<in> set rows. ep_agent_id r = ag \<and> ep_importance r \<ge> imp \<and> ep_summary r \<noteq> SUMMARY_PENDING_TEXT \<and> ep_principal_id r = pr \<and> ep_epoch_id r = ep"
      using w(1) by (auto simp: candidate_iff scope_admits_def episode_scope_cols_def d)
    show ?thesis
      by (rule exI[of _ rows], intro conjI exI[of _ "if reinforce then map ep_id rows else []"]) (use w c False in \<open>auto simp: d\<close>)
  qed
qed


section \<open>The floor\<close>

lemma largest_ge: "x \<in> set xs \<Longrightarrow> x \<le> largest xs"
  by (induction xs rule: largest.induct) (auto simp: le_max_iff_disj)

lemma largest_in: "xs \<noteq> [] \<Longrightarrow> largest xs \<in> set xs"
  by (induction xs rule: largest.induct) (auto simp: max_def)

lemma floor_bar_admissible:
  assumes "filter (\<lambda>r. ep_protection_level r \<in> set ls) cands \<noteq> []"
  shows "floor_bar (Some ls) rel cands = floor_bar None rel (filter (\<lambda>r. ep_protection_level r \<in> set ls) cands)"
  using assms by (simp add: floor_bar_def Let_def)

lemma floored_best:
  assumes "cands \<noteq> []" "\<And>r. r \<in> set cands \<Longrightarrow> 0 \<le> the (rel r)" "x \<le> 1"
  shows "\<exists>r \<in> set cands. the (rel r) = floor_bar None rel cands \<and> r \<in> set (floored (Some x) None rel cands)"
proof -
  have "largest (map (the \<circ> rel) cands) \<in> set (map (the \<circ> rel) cands)" using assms(1) by (intro largest_in) simp
  then obtain r where r: "r \<in> set cands" "the (rel r) = floor_bar None rel cands" by (auto simp: floor_bar_def)
  have "x * the (rel r) \<le> 1 * the (rel r)" using assms(2)[OF r(1)] assms(3) by (rule mult_right_mono[rotated])
  then show ?thesis using r by (auto simp: floored_def)
qed

lemma floored_admissible:
  fixes ls :: "string list"
  defines "adm \<equiv> filter (\<lambda>r. ep_protection_level r \<in> set ls)"
  shows "adm (floored ms (Some ls) rel cands) = floored ms None rel (adm cands)"
proof (cases "adm cands = []")
  case True
  then have "ep_protection_level r \<notin> set ls" if "r \<in> set cands" for r
    using that by (auto simp: adm_def filter_empty_conv)
  then have "adm (floored ms (Some ls) rel cands) = []"
    unfolding adm_def filter_empty_conv by (auto simp: floored_def)
  then show ?thesis unfolding True by (simp add: floored_def)
next
  case False
  then have ne: "filter (\<lambda>r. ep_protection_level r \<in> set ls) cands \<noteq> []" by (simp add: adm_def)
  show ?thesis unfolding floored_def floor_bar_admissible[OF ne] by (auto simp: adm_def intro: filter_cong)
qed

text \<open>
  Episodes that the turn may not read never move the relevance floor of those it may: the admissible episodes that pass the
  floor are exactly those that pass when the withheld ones are not there at all, so no withheld episode hides an
  admissible one or shows that it exists. And the floor never empties the admissible candidates: the best of
  them passes at every allowed floor.
\<close>

lemma withheld_never_sets_bar:
  defines "admissible ls \<equiv> filter (\<lambda>r. ep_protection_level r \<in> set ls)"
  shows "admissible ls (floored ms (Some ls) rel cands) = floored ms None rel (admissible ls cands) \<and>
     (admissible ls cands \<noteq> [] \<and> min_score_ok (Some (Fin x)) \<and> list_all (\<lambda>r. 0 \<le> the (rel r)) cands \<longrightarrow>
      admissible ls (floored (Some x) (Some ls) rel cands) \<noteq> [])"
proof (intro conjI impI)
  have eq: "admissible ls (floored ms (Some ls) rel cands) = floored ms None rel (admissible ls cands)" for ms
    unfolding admissible_def by (rule floored_admissible)
  then show "admissible ls (floored ms (Some ls) rel cands) = floored ms None rel (admissible ls cands)" .
  assume a: "admissible ls cands \<noteq> [] \<and> min_score_ok (Some (Fin x)) \<and> list_all (\<lambda>r. 0 \<le> the (rel r)) cands"
  then have "x \<le> 1" by (simp add: min_score_ok_def)
  with a obtain r where "r \<in> set (floored (Some x) None rel (admissible ls cands))"
    using floored_best[of "admissible ls cands" rel x] by (auto simp: admissible_def list_all_iff)
  then show "admissible ls (floored (Some x) (Some ls) rel cands) \<noteq> []" unfolding eq by auto
qed


section \<open>A summary is settled once\<close>

lemma settle_simps [simp]:
  "length (settle_rows h t rows) = length rows" "map ep_id (settle_rows h t rows) = map ep_id rows"
  by (simp_all add: settle_rows_def)

lemma settle_nothing: "(\<And>r. r \<in> set rows \<Longrightarrow> \<not> h r) \<Longrightarrow> settle_rows h t rows = rows"
  by (simp add: settle_rows_def map_idI)

lemma unavailable_not_pending: "SUMMARY_UNAVAILABLE_TEXT \<noteq> SUMMARY_PENDING_TEXT"
  by (simp add: SUMMARY_UNAVAILABLE_TEXT_def SUMMARY_PENDING_TEXT_def)

lemma settle_filter:
  assumes "\<And>r. r \<in> set rows \<Longrightarrow> h r \<Longrightarrow> \<not> P r" "\<And>r. P (r\<lparr>ep_summary := t\<rparr>) = P r"
  shows "filter P (settle_rows h t rows) = filter P rows"
  using assms(1) by (induction rows) (auto simp: settle_rows_def assms(2))

lemma ed_rows_cleanup: "ed_rows (snd (cleanup_closing_interactions ag grace now db)) = settle_rows (stuck ag (now - grace)) SUMMARY_UNAVAILABLE_TEXT (ed_rows db)"
proof (cases "filter (stuck ag (now - grace)) (ed_rows db) = []")
  case True
  then have "settle_rows (stuck ag (now - grace)) SUMMARY_UNAVAILABLE_TEXT (ed_rows db) = ed_rows db"
    by (intro settle_nothing) (simp add: filter_empty_conv)
  with True show ?thesis by (simp add: cleanup_closing_interactions_def Let_def)
qed (simp add: cleanup_closing_interactions_def Let_def)

lemma cleanup_nothing: "(\<And>r. r \<in> set (ed_rows db) \<Longrightarrow> \<not> stuck ag (now - grace) r) \<Longrightarrow> cleanup_closing_interactions ag grace now db = (0, db)"
  by (simp add: cleanup_closing_interactions_def Let_def)

lemma update_nothing: "(\<And>r. r \<in> set (ed_rows db) \<Longrightarrow> \<not> awaits ag i r) \<Longrightarrow> update_episode_summary ag i text db = (False, db)"
  by (simp add: update_episode_summary_def settle_nothing list_ex_iff)

lemma settled_awaits:
  assumes "t \<noteq> SUMMARY_PENDING_TEXT" "r \<in> set (settle_rows (awaits ag i) t rows)"
  shows "\<not> awaits ag i r"
proof -
  obtain r0 where "r = (if awaits ag i r0 then r0\<lparr>ep_summary := t\<rparr> else r0)" using assms(2) unfolding settle_rows_def set_map by blast
  with assms(1) show ?thesis by (cases "awaits ag i r0") (simp_all add: awaits_def)
qed

lemma settled_stuck:
  assumes "r \<in> set (settle_rows (stuck ag cutoff) SUMMARY_UNAVAILABLE_TEXT rows)"
  shows "\<not> stuck ag cutoff r"
proof -
  obtain r0 where "r = (if stuck ag cutoff r0 then r0\<lparr>ep_summary := SUMMARY_UNAVAILABLE_TEXT\<rparr> else r0)"
    using assms unfolding settle_rows_def set_map by blast
  then show ?thesis by (cases "stuck ag cutoff r0") (simp_all add: stuck_def unavailable_not_pending)
qed

lemma settle_keeps_no:
  assumes "\<And>r. r \<in> set rows \<Longrightarrow> \<not> awaits ag i r" "t \<noteq> SUMMARY_PENDING_TEXT" "r \<in> set (settle_rows h t rows)"
  shows "\<not> awaits ag i r"
  using assms by (auto simp: settle_rows_def awaits_def)

text \<open>
  The late summary of an interaction and the janitor's tombstone never overwrite each other. Once a summary is in, the janitor
  leaves the rows of the interaction alone, and another summary for it is refused and changes nothing, whichever
  janitor pass ran in between. Once the janitor has given a row up, no summary reaches it. After a pass no row of
  the persona is stuck at its cutoff, the counter of failed summaries grew by exactly the rows the pass gave
  up, and a second pass at that cutoff gives up none.
\<close>

lemma summary_settles_once:
  assumes "text \<noteq> SUMMARY_PENDING_TEXT"
  shows "(let db1 = snd (update_episode_summary ag i text db); db2 = snd (cleanup_closing_interactions ag' grace now db1);
              of_i = (\<lambda>r. ep_agent_id r = ag \<and> ep_interaction_id r = Some i)
          in update_episode_summary ag i other db2 = (False, db2) \<and> filter of_i (ed_rows db2) = filter of_i (ed_rows db1)) \<and>
     (case cleanup_closing_interactions ag grace now db of (n, db1) \<Rightarrow>
        \<not> list_ex (stuck ag (now - grace)) (ed_rows db1) \<and> ed_summary_failed db1 = ed_summary_failed db + n \<and>
        n = length (filter (stuck ag (now - grace)) (ed_rows db)) \<and>
        cleanup_closing_interactions ag grace now db1 = (0, db1) \<and>
        (\<forall>j < length (ed_rows db). stuck ag (now - grace) (ed_rows db ! j) \<longrightarrow>
           ed_rows (snd (update_episode_summary ag i other db1)) ! j = (ed_rows db ! j)\<lparr>ep_summary := SUMMARY_UNAVAILABLE_TEXT\<rparr>))"
proof (rule conjI)
  define db1 where "db1 = snd (update_episode_summary ag i text db)"
  have no: "\<not> awaits ag i r" if "r \<in> set (ed_rows db1)" for r
    using that settled_awaits[OF assms] by (simp add: db1_def update_episode_summary_def)
  define db2 where "db2 = snd (cleanup_closing_interactions ag' grace now db1)"
  have "\<not> awaits ag i r" if "r \<in> set (ed_rows db2)" for r
    using settle_keeps_no[OF no unavailable_not_pending] that by (auto simp: db2_def ed_rows_cleanup)
  then have "update_episode_summary ag i other db2 = (False, db2)" by (rule update_nothing)
  moreover have "filter (\<lambda>r. ep_agent_id r = ag \<and> ep_interaction_id r = Some i) (ed_rows db2) =
      filter (\<lambda>r. ep_agent_id r = ag \<and> ep_interaction_id r = Some i) (ed_rows db1)"
    unfolding db2_def ed_rows_cleanup by (rule settle_filter) (use no in \<open>auto simp: awaits_def stuck_def\<close>)
  ultimately show "let db1 = snd (update_episode_summary ag i text db); db2 = snd (cleanup_closing_interactions ag' grace now db1);
              of_i = (\<lambda>r. ep_agent_id r = ag \<and> ep_interaction_id r = Some i)
          in update_episode_summary ag i other db2 = (False, db2) \<and> filter of_i (ed_rows db2) = filter of_i (ed_rows db1)"
    by (simp add: Let_def db1_def db2_def)
next
  obtain n d where c: "cleanup_closing_interactions ag grace now db = (n, d)" by fastforce
  have rows: "ed_rows d = settle_rows (stuck ag (now - grace)) SUMMARY_UNAVAILABLE_TEXT (ed_rows db)" using ed_rows_cleanup[of ag grace now db] c by simp
  have n: "n = length (filter (stuck ag (now - grace)) (ed_rows db))" "ed_summary_failed d = ed_summary_failed db + n"
    using c by (auto simp: cleanup_closing_interactions_def Let_def split: if_splits)
  have no: "\<not> stuck ag (now - grace) r" if "r \<in> set (ed_rows d)" for r
    using that unfolding rows by (rule settled_stuck)
  have late: "ed_rows (snd (update_episode_summary ag i other d)) ! j = (ed_rows db ! j)\<lparr>ep_summary := SUMMARY_UNAVAILABLE_TEXT\<rparr>"
    if "j < length (ed_rows db)" "stuck ag (now - grace) (ed_rows db ! j)" for j
    using that unavailable_not_pending by (simp add: update_episode_summary_def rows settle_rows_def awaits_def)
  show "case cleanup_closing_interactions ag grace now db of (n, db1) \<Rightarrow>
        \<not> list_ex (stuck ag (now - grace)) (ed_rows db1) \<and> ed_summary_failed db1 = ed_summary_failed db + n \<and>
        n = length (filter (stuck ag (now - grace)) (ed_rows db)) \<and>
        cleanup_closing_interactions ag grace now db1 = (0, db1) \<and>
        (\<forall>j < length (ed_rows db). stuck ag (now - grace) (ed_rows db ! j) \<longrightarrow>
           ed_rows (snd (update_episode_summary ag i other db1)) ! j = (ed_rows db ! j)\<lparr>ep_summary := SUMMARY_UNAVAILABLE_TEXT\<rparr>)"
    unfolding c prod.case
  proof (intro conjI allI impI)
    show "\<not> list_ex (stuck ag (now - grace)) (ed_rows d)" using no by (auto simp: list_ex_iff)
    show "cleanup_closing_interactions ag grace now d = (0, d)" by (rule cleanup_nothing) (rule no)
  qed (rule n late; assumption)+
qed


section \<open>Retention makes progress\<close>

definition answered :: "summariser \<Rightarrow> string \<Rightarrow> episode_row \<Rightarrow> string option" where
  "answered llm snippet r =
     (case llm (retention_prompt snippet r) of Inr (Some t) \<Rightarrow> if py_strip t = [] then None else Some (py_strip t) | _ \<Rightarrow> None)"

definition squeezed :: "summariser \<Rightarrow> string \<Rightarrow> rat \<Rightarrow> episode_row list \<Rightarrow> episode_row \<Rightarrow> episode_row" where
  "squeezed llm snippet now cs x =
     (if x \<in> set cs then (case answered llm snippet x of None \<Rightarrow> x
        | Some t \<Rightarrow> x\<lparr>ep_summary := t, ep_compression_level := ep_compression_level x + 1, ep_compressed_at := Some now\<rparr>) else x)"

lemma squeezed_id [simp]: "ep_id (squeezed llm sn now cs x) = ep_id x" "ep_agent_id (squeezed llm sn now cs x) = ep_agent_id x"
  by (simp_all add: squeezed_def split: option.split)

lemma squeezed_none: "map (squeezed llm sn now []) rows = rows"
  by (rule map_idI) (simp add: squeezed_def)

lemma compress_batch:
  assumes "distinct (map ep_id rows)" "set cs \<subseteq> set rows" "distinct cs" "\<And>r. r \<in> set cs \<Longrightarrow> ep_agent_id r = ag"
  shows "fold (summarise_one llm sn ag now) cs (k, rows) =
     (k + length (filter (\<lambda>r. answered llm sn r \<noteq> None) cs), map (squeezed llm sn now cs) rows)"
  using assms(2-)
proof (induction cs rule: rev_induct)
  case Nil
  then show ?case by (simp add: squeezed_def)
next
  case (snoc c cs)
  then have c: "c \<in> set rows" "c \<notin> set cs" "ep_agent_id c = ag" by auto
  have same: "ep_id x = ep_id c \<longleftrightarrow> x = c" if "x \<in> set rows" for x
    using assms(1) c(1) that by (auto simp: distinct_map inj_on_eq_iff)
  have ex: "list_ex (\<lambda>x. ep_id x = ep_id c \<and> ep_agent_id x = ag) (map (squeezed llm sn now cs) rows)"
    using c by (auto simp: list_ex_iff)
  have ih: "fold (summarise_one llm sn ag now) cs (k, rows) =
     (k + length (filter (\<lambda>r. answered llm sn r \<noteq> None) cs), map (squeezed llm sn now cs) rows)"
    using snoc.prems by (intro snoc.IH) auto
  show ?case
  proof (cases "answered llm sn c")
    case None
    then have "summarise_one llm sn ag now c st = st" for st
      by (auto simp: summarise_one_def answered_def split: sum.splits option.splits if_splits)
    moreover have "squeezed llm sn now (cs @ [c]) x = squeezed llm sn now cs x" for x using None by (auto simp: squeezed_def)
    ultimately show ?thesis using ih None by simp
  next
    case (Some t)
    then have one: "summarise_one llm sn ag now c st =
        (if list_ex (\<lambda>x. ep_id x = ep_id c \<and> ep_agent_id x = ag) (snd st) then fst st + 1 else fst st,
         map (\<lambda>x. if ep_id x = ep_id c \<and> ep_agent_id x = ag
            then x\<lparr>ep_summary := t, ep_compression_level := ep_compression_level c + 1, ep_compressed_at := Some now\<rparr> else x) (snd st))" for st
      by (auto simp: summarise_one_def answered_def Let_def split: sum.splits option.splits if_splits)
    have "map (\<lambda>x. if ep_id x = ep_id c \<and> ep_agent_id x = ag
            then x\<lparr>ep_summary := t, ep_compression_level := ep_compression_level c + 1, ep_compressed_at := Some now\<rparr> else x)
          (map (squeezed llm sn now cs) rows) = map (squeezed llm sn now (cs @ [c])) rows"
      unfolding map_map
    proof (rule map_cong[OF refl])
      fix x assume x: "x \<in> set rows"
      show "((\<lambda>x. if ep_id x = ep_id c \<and> ep_agent_id x = ag
            then x\<lparr>ep_summary := t, ep_compression_level := ep_compression_level c + 1, ep_compressed_at := Some now\<rparr> else x) \<circ>
          squeezed llm sn now cs) x = squeezed llm sn now (cs @ [c]) x"
        using same[OF x] c Some by (cases "x = c") (simp_all add: squeezed_def[of _ _ _ "cs @ [c]"] squeezed_def[of _ _ _ cs c], simp add: squeezed_def)
    qed
    with ex ih Some show ?thesis by (simp add: one)
  qed
qed

lemma length_filter_split: "length (filter P xs) = length (filter (\<lambda>x. P x \<and> Q x) xs) + length (filter (\<lambda>x. P x \<and> \<not> Q x) xs)"
  by (induction xs) auto

lemma length_filter_subset:
  assumes "distinct xs" "distinct cs" "set cs \<subseteq> set xs"
  shows "length (filter (\<lambda>x. x \<in> set cs \<and> P x) xs) = length (filter P cs)"
proof -
  have "set (filter (\<lambda>x. x \<in> set cs \<and> P x) xs) = set (filter P cs)" using assms(3) by auto
  then show ?thesis using assms(1,2) by (metis distinct_card distinct_filter)
qed

text \<open>
  One retention pass on a table of raw and compressed episodes summarises at most the batch, whatever the model answers:
  the old raw episodes of the persona fall by exactly the number it returns, so passes with an answering model run
  out of work, and every row is either untouched or an old raw episode of the persona with the
  stripped, non-empty answer as its summary and its level raised by one. Deleting afterwards removes
  no episode that is still raw, and none of another persona.
\<close>

lemma retention_pass_progress:
  assumes "distinct (map ep_id (ed_rows db))" "list_all (\<lambda>r. 0 \<le> ep_compression_level r) (ed_rows db)"
    and "summarize_old_episodes llm sn ok ag days now batch db = (Inr n, db1)"
    and "delete_old_episodes ag days' now' db1 = (Inr k, db2)"
  defines "old \<equiv> raw_old ag (now - days * 86400)"
  shows "int n \<le> batch \<and> length (filter old (ed_rows db1)) + n = length (filter old (ed_rows db)) \<and>
     list_all2 (\<lambda>r r'. r' = r \<or> (\<exists>t. old r \<and> answered llm sn r = Some t \<and> t \<noteq> [] \<and>
        r' = r\<lparr>ep_summary := t, ep_compression_level := ep_compression_level r + 1, ep_compressed_at := Some now\<rparr>))
       (ed_rows db) (ed_rows db1) \<and>
     length (ed_rows db2) + k = length (ed_rows db1) \<and>
     (\<forall>r \<in> set (ed_rows db1). ep_compression_level r < 1 \<or> ep_agent_id r \<noteq> ag \<longrightarrow> r \<in> set (ed_rows db2))"
proof -
  define hit where "hit r \<longleftrightarrow> ep_agent_id r = ag \<and> ep_compression_level r \<ge> 1 \<and> ep_created_at r < now' - days' * 86400" for r :: episode_row
  have "k = length (filter hit (ed_rows db1))" "ed_rows db2 = filter (\<lambda>r. \<not> hit r) (ed_rows db1)"
    using assms(4) unfolding delete_old_episodes_def Let_def hit_def[symmetric] by (auto split: if_splits)
  then have del: "length (ed_rows db2) + k = length (ed_rows db1)"
      "\<forall>r \<in> set (ed_rows db1). ep_compression_level r < 1 \<or> ep_agent_id r \<noteq> ag \<longrightarrow> r \<in> set (ed_rows db2)"
    using sum_length_filter_compl[of hit "ed_rows db1"] by (auto simp: hit_def)
  define cs where "cs = take (nat batch) (sort_key ep_created_at (filter old (ed_rows db)))"
  have b: "1 \<le> batch" using assms(3) by (auto simp: summarize_old_episodes_def split: if_splits)
  have d: "distinct (ed_rows db)" using assms(1) by (simp add: distinct_map)
  have cs: "set cs \<subseteq> {r \<in> set (ed_rows db). old r}" "distinct cs" "length cs \<le> nat batch"
    using d by (auto simp: cs_def dest: in_set_takeD)
  let ?ok = "\<lambda>r. answered llm sn r \<noteq> None"
  have "n = length (filter ?ok (if ok then cs else [])) \<and> ed_rows db1 = map (squeezed llm sn now (if ok then cs else [])) (ed_rows db)"
  proof (cases "ok \<and> cs \<noteq> []")
    case True
    have "fold (summarise_one llm sn ag now) cs (0, ed_rows db) = (length (filter ?ok cs), map (squeezed llm sn now cs) (ed_rows db))"
      using compress_batch[OF assms(1), of cs ag llm sn now 0] cs by (auto simp: old_def raw_old_def)
    then show ?thesis using assms(3) True by (auto simp: summarize_old_episodes_def Let_def cs_def old_def split: if_splits)
  next
    case False
    then have "n = 0 \<and> db1 = db" using assms(3) by (auto simp: summarize_old_episodes_def Let_def cs_def old_def split: if_splits)
    with False show ?thesis by (auto simp: squeezed_none)
  qed
  then obtain ds where ds: "set ds \<subseteq> {r \<in> set (ed_rows db). old r}" "distinct ds" "length ds \<le> nat batch"
    and n: "n = length (filter ?ok ds)" and rows: "ed_rows db1 = map (squeezed llm sn now ds) (ed_rows db)"
    using cs by (cases ok) (auto intro: that[of cs] that[of "[]"])
  have sq: "old (squeezed llm sn now ds x) \<longleftrightarrow> old x \<and> \<not> (x \<in> set ds \<and> ?ok x)" if "x \<in> set (ed_rows db)" for x
    using that assms(2) ds(1) by (auto simp: squeezed_def old_def raw_old_def list_all_iff split: option.splits)
  have "filter (old \<circ> squeezed llm sn now ds) (ed_rows db) = filter (\<lambda>x. old x \<and> \<not> (x \<in> set ds \<and> ?ok x)) (ed_rows db)"
    by (rule filter_cong[OF refl]) (simp add: sq)
  then have "length (filter old (ed_rows db1)) = length (filter (\<lambda>x. old x \<and> \<not> (x \<in> set ds \<and> ?ok x)) (ed_rows db))"
    unfolding rows filter_map length_map by simp
  moreover have "filter (\<lambda>x. old x \<and> x \<in> set ds \<and> ?ok x) (ed_rows db) = filter (\<lambda>x. x \<in> set ds \<and> ?ok x) (ed_rows db)"
    using ds(1) by (intro filter_cong) auto
  moreover have "length (filter (\<lambda>x. x \<in> set ds \<and> ?ok x) (ed_rows db)) = n"
    unfolding n using ds(1) by (intro length_filter_subset[OF d ds(2)]) auto
  ultimately have "length (filter old (ed_rows db1)) + n = length (filter old (ed_rows db))"
    using length_filter_split[of old "ed_rows db" "\<lambda>x. x \<in> set ds \<and> ?ok x"] by simp
  moreover have "list_all2 (\<lambda>r r'. r' = r \<or> (\<exists>t. old r \<and> answered llm sn r = Some t \<and> t \<noteq> [] \<and>
        r' = r\<lparr>ep_summary := t, ep_compression_level := ep_compression_level r + 1, ep_compressed_at := Some now\<rparr>))
       (ed_rows db) (ed_rows db1)"
    unfolding rows list_all2_map2 list_all2_same using ds(1)
    by (auto simp: squeezed_def answered_def split: option.splits sum.splits if_splits)
  moreover have "int n \<le> batch" using ds(3) b length_filter_le[of ?ok ds] unfolding n by linarith
  ultimately show ?thesis using del by simp
qed


section \<open>The properties on a sample table\<close>

definition sample_args :: "string \<Rightarrow> string \<Rightarrow> episode_args" where
  "sample_args summary i =
     \<lparr>ea_summary = summary, ea_context_json = ''{}'', ea_outcome = None, ea_importance = Fin (1/2), ea_tags = None,
      ea_interaction_id = Some i, ea_started_at = Some 1, ea_closed_at = Some 2, ea_turn_count = Some 3, ea_scope = Some ''room'',
      ea_governance_id = None, ea_session = ''s1'', ea_surface = ''chat'', ea_protection = ''internal'', ea_channel = None,
      ea_speaker = None, ea_principal = None\<rparr>"

definition ada_episodes :: EpisodicMemory where
  "ada_episodes = \<lparr>em_agent_id = ''ada'', em_ready = True, em_fts5 = True,
     em_snapshot = \<lparr>ts_session = ''s1'', ts_principal = ''local'', ts_epoch = ''live''\<rparr>\<rparr>"

definition quiet :: ambient where
  "quiet = \<lparr>active_principal = None, active_session = None, active_epoch = None, env_principal = None, env_session = None, env_epoch = None\<rparr>"

definition two_episodes :: episode_db where
  "two_episodes =
     (let put = (\<lambda>now i t db. snd (store_episode ada_episodes quiet now i (sample_args t (''x'' @ i)) db))
      in put 20 ''2'' SUMMARY_PENDING_TEXT (put 10 ''1'' ''went to market'' \<lparr>ed_rows = [], ed_writes = [], ed_summary_failed = 0\<rparr>))"

definition recalled_episodes :: "Episode list result \<times> episode_db" where
  "recalled_episodes = recall_episodes (\<lambda>_ _. None) (\<lambda>_ rows. rows) ada_episodes quiet 30 [] 5 0 None Sess_None None two_episodes"

lemma recalled_episodes_eq:
  "recalled_episodes = (let ids = [''1''] in (Inr (map (row_to_episode \<circ> used ''ada'' 30 ids) (finished (ed_rows two_episodes))),
     reinforce_episodes ''ada'' 30 ids two_episodes))"
proof -
  let ?q = "\<lparr>eq_agent = ''ada'', eq_min_importance = 0, eq_sessions = Some [''s1'', ''legacy''], eq_boost = None, eq_principal = ''local'', eq_epoch = ''live''\<rparr>"
  have s: "resolve_session_list quiet Sess_None ''s1'' = Inr (Some [''s1'', ''legacy''])" "resolve_active_principal quiet ''local'' = ''local''"
    "resolve_active_epoch quiet ''live'' = ''live''" by code_simp+
  have f: "filter (candidate ?q) (ed_rows two_episodes) = ed_rows two_episodes" by code_simp
  have n: "take 5 (ed_rows two_episodes) = ed_rows two_episodes" "map ep_id (finished (ed_rows two_episodes)) = [''1'']" by code_simp+
  have "run_recall (\<lambda>_ _. None) (\<lambda>_ rows. rows) ada_episodes ?q [] None None 30 (min 5 EPISODE_RECALL_LIMIT) (ed_rows two_episodes) = Inr (ed_rows two_episodes)"
    using f n by (simp add: run_recall_def recall_recency_def reject_wall_and_boost_def EPISODE_RECALL_LIMIT_def)
  then show ?thesis
    unfolding recalled_episodes_def recall_episodes_def by (simp add: ada_episodes_def s n min_score_ok_def fin_of_def Let_def)
qed

theorem recall_finished_in_scope_witness:
  "\<exists>es db'. recalled_episodes = (Inr es, db') \<and> map epi_id es = [''1''] \<and> int (length es) \<le> 5"
proof -
  have one: "map epi_id (map (row_to_episode \<circ> used ''ada'' 30 [''1'']) (finished (ed_rows two_episodes))) = [''1'']" by code_simp
  obtain es db' where r: "recalled_episodes = (Inr es, db')" "map epi_id es = [''1'']"
    by (rule that[OF recalled_episodes_eq[unfolded Let_def] one])
  have "orders (\<lambda>_ rows. rows)" by (simp add: orders_def)
  from recall_finished_in_scope[OF this disjI1[OF refl] r(1)[unfolded recalled_episodes_def]] have "int (length es) \<le> 5" by auto
  then show ?thesis by (intro exI[of _ es] exI[of _ db'] conjI r)
qed

theorem withheld_never_sets_bar_witness:
  "filter (\<lambda>r. ep_protection_level r \<in> set [''internal'']) (floored (Some (1/2)) (Some [''internal'']) (\<lambda>_. Some 1) (ed_rows two_episodes)) \<noteq> []"
proof -
  have "filter (\<lambda>r. ep_protection_level r \<in> set [''internal'']) (ed_rows two_episodes) \<noteq> []" by code_simp
  moreover have "min_score_ok (Some (Fin (1/2)))" "list_all (\<lambda>r. 0 \<le> the (Some 1 :: rat option)) (ed_rows two_episodes)" by code_simp+
  ultimately show ?thesis
    using withheld_never_sets_bar[where ls = "[''internal'']" and rel = "\<lambda>_. Some 1" and cands = "ed_rows two_episodes" and x = "1/2"] by blast
qed

theorem summary_settles_once_witness:
  "fst (update_episode_summary ''ada'' ''x2'' ''late'' (snd (cleanup_closing_interactions ''ada'' DEFAULT_CLOSING_GRACE_SEC 500
      (snd (update_episode_summary ''ada'' ''x2'' ''met Bo'' two_episodes))))) = False \<and>
   fst (cleanup_closing_interactions ''ada'' DEFAULT_CLOSING_GRACE_SEC 500 two_episodes) = 1"
proof
  have "''met Bo'' \<noteq> SUMMARY_PENDING_TEXT" by code_simp
  from summary_settles_once[OF this, of "''ada''" "''x2''" two_episodes "''ada''" DEFAULT_CLOSING_GRACE_SEC 500 "''late''"]
  show "fst (update_episode_summary ''ada'' ''x2'' ''late'' (snd (cleanup_closing_interactions ''ada'' DEFAULT_CLOSING_GRACE_SEC 500
      (snd (update_episode_summary ''ada'' ''x2'' ''met Bo'' two_episodes))))) = False" by (simp add: Let_def)
  show "fst (cleanup_closing_interactions ''ada'' DEFAULT_CLOSING_GRACE_SEC 500 two_episodes) = 1" by code_simp
qed

theorem retention_pass_progress_witness:
  "\<exists>db1 db2. summarize_old_episodes (\<lambda>_. Inr (Some ''short'')) ''compress'' True ''ada'' 0 30 1 two_episodes = (Inr 1, db1) \<and>
     delete_old_episodes ''ada'' 0 40 db1 = (Inr 1, db2) \<and> map ep_id (ed_rows db2) = [''2''] \<and>
     length (filter (raw_old ''ada'' 30) (ed_rows db1)) + 1 = length (filter (raw_old ''ada'' 30) (ed_rows two_episodes))"
proof -
  let ?s = "summarize_old_episodes (\<lambda>_. Inr (Some ''short'')) ''compress'' True ''ada'' 0 30 1 two_episodes"
  let ?d = "delete_old_episodes ''ada'' 0 40 (snd ?s)"
  have "fst ?s = Inr 1" "fst ?d = Inr 1" and ids: "map ep_id (ed_rows (snd ?d)) = [''2'']" by code_simp+
  then have s: "?s = (Inr 1, snd ?s)" "?d = (Inr 1, snd ?d)" by (metis prod.collapse)+
  have t: "distinct (map ep_id (ed_rows two_episodes))" "list_all (\<lambda>r. 0 \<le> ep_compression_level r) (ed_rows two_episodes)" by code_simp+
  have "length (filter (raw_old ''ada'' 30) (ed_rows (snd ?s))) + 1 = length (filter (raw_old ''ada'' 30) (ed_rows two_episodes))"
    using retention_pass_progress[OF t s] by simp
  with ids show ?thesis by (intro exI conjI) (rule s, rule s)
qed

end
