(* ===== verification/Procedures.thy ===== *)
theory Procedures
  imports Episodes "HOL-Library.Sublist"
begin

text \<open>
  The procedural tier: \<open>src/agents/memory/decay.py\<close>, \<open>episodic_procedural.py\<close> and \<open>facade_procedural.py\<close>.

  A procedure is a row of the episodes table whose tags carry \<open>procedure:KEY\<close>. Its confidence is not rewritten over
  time: each read decays the stored one by its age. Decayed values are real numbers, every stored value is rational.
  The text of a float in the stored context is a parameter.
\<close>


section \<open>Decay\<close>

definition SECONDS_PER_DAY :: rat where "SECONDS_PER_DAY = 86400"
definition DEFAULT_LAMBDA_PER_DAY :: rat where "DEFAULT_LAMBDA_PER_DAY = 1 / 100"
definition DEFAULT_C_MIN :: rat where "DEFAULT_C_MIN = 1 / 10"
definition DEFAULT_STALE_CONFIDENCE_ALERT_THRESHOLD :: rat where "DEFAULT_STALE_CONFIDENCE_ALERT_THRESHOLD = 3 / 10"

definition compute_decayed_confidence :: "rat \<Rightarrow> rat \<Rightarrow> rat \<Rightarrow> real result" where
  "compute_decayed_confidence c0 age_seconds lambda_per_day =
     (if lambda_per_day < 0 then Inl ValueError
      else Inr (of_rat (max 0 (min 1 c0)) * exp (- of_rat lambda_per_day * of_rat (max 0 age_seconds / SECONDS_PER_DAY))))"

definition resolve_base_confidence :: "rat option \<Rightarrow> rat option \<Rightarrow> rat option \<Rightarrow> rat" where
  "resolve_base_confidence confidence importance last_validated_at =
     (case confidence of
        None \<Rightarrow> (case importance of None \<Rightarrow> 1 | Some i \<Rightarrow> i)
      | Some c \<Rightarrow> (case importance of
            Some i \<Rightarrow> if c = 1 \<and> last_validated_at = None \<and> i \<noteq> 1 then i else c
          | None \<Rightarrow> c))"

definition anchor :: "episode_row \<Rightarrow> rat" where
  "anchor r = (case ep_last_validated_at r of Some t \<Rightarrow> t | None \<Rightarrow> ep_created_at r)"

definition base_of :: "episode_row \<Rightarrow> rat" where
  "base_of r = resolve_base_confidence (Some (ep_confidence r)) (Some (ep_importance r)) (ep_last_validated_at r)"


section \<open>The tag\<close>

definition PROCEDURE_TAG :: string where "PROCEDURE_TAG = ''procedure:''"

text \<open>The predicate \<open>tags_json LIKE '%"procedure:%'\<close>; a missing tag list is the SQL null and matches neither way.\<close>

definition is_procedure :: "episode_row \<Rightarrow> bool" where
  "is_procedure r =
     (case ep_tags r of None \<Rightarrow> False
      | Some ts \<Rightarrow> sqlite_like (json_list ts) ([CHR ''%'', CHR 34] @ PROCEDURE_TAG @ ''%''))"

definition extract_procedure_key :: "string list \<Rightarrow> string option" where
  "extract_procedure_key ts =
     map_option (drop (length PROCEDURE_TAG)) (find (\<lambda>t. take (length PROCEDURE_TAG) t = PROCEDURE_TAG) ts)"

definition PROCEDURE_KEY_MAX_LEN :: nat where "PROCEDURE_KEY_MAX_LEN = 256"

definition key_char :: "char \<Rightarrow> bool" where
  "key_char c = (let n = of_char c :: nat in 65 \<le> n \<and> n \<le> 90 \<or> 97 \<le> n \<and> n \<le> 122 \<or> 48 \<le> n \<and> n \<le> 57 \<or> n = 46 \<or> n = 95 \<or> n = 45)"

definition validate_procedure_key :: "string \<Rightarrow> unit result" where
  "validate_procedure_key key =
     (if key = [] \<or> length key > PROCEDURE_KEY_MAX_LEN \<or> \<not> list_all key_char key then Inl ValueError else Inr ())"

definition validate_decay_params :: "rat \<Rightarrow> rat \<Rightarrow> rat \<Rightarrow> unit result" where
  "validate_decay_params lam c_min stale =
     (if lam < 0 then Inl ValueError
      else if \<not> (0 \<le> c_min \<and> c_min \<le> 1) then Inl ValueError
      else if \<not> (0 \<le> stale \<and> stale \<le> 1) then Inl ValueError
      else if stale < c_min then Inl ValueError else Inr ())"


section \<open>Scope\<close>

definition procedure_scope_clause :: "string list option \<Rightarrow> string \<Rightarrow> string \<Rightarrow> sql_clause" where
  "procedure_scope_clause sl principal_id epoch_id =
     clause_and (session_in_clause sl ''session_id'')
       (clause_and (principal_eq_clause principal_id ''principal_id'') (epoch_eq_clause epoch_id ''epoch_id''))"

definition in_procedure_scope :: "string \<Rightarrow> string list option \<Rightarrow> string \<Rightarrow> string \<Rightarrow> episode_row \<Rightarrow> bool" where
  "in_procedure_scope ag sl pr ep r \<longleftrightarrow>
     clause_holds (episode_cols r) (clause_and ([Col_Eq ''agent_id''], [ag]) (procedure_scope_clause sl pr ep)) = Some True"

lemma in_procedure_scope_iff:
  "in_procedure_scope ag sl pr ep r \<longleftrightarrow>
     scope_admits \<lparr>rs_agent = ag, rs_sessions = sl, rs_principal = pr, rs_epoch = ep\<rparr> (episode_scope_cols r)"
  unfolding in_procedure_scope_def procedure_scope_clause_def
  by (subst clause_and_holds[OF one_col_holds clause_and_holds[OF session_in_clause_holds
        clause_and_holds[OF eq_clause_holds(1) eq_clause_holds(2)]]])
    (auto simp: scope_admits_def episode_scope_cols_def split: option.splits)


section \<open>Recall\<close>

record ProcedureRecallEntry =
  pe_id :: string
  pe_key :: "string option"
  pe_content :: string
  pe_decayed :: real
  pe_base :: rat
  pe_last_validated_at :: "rat option"
  pe_created_at :: rat

definition procedure_entry :: "episode_row \<Rightarrow> real \<Rightarrow> ProcedureRecallEntry" where
  "procedure_entry r d =
     \<lparr>pe_id = ep_id r, pe_key = extract_procedure_key (case ep_tags r of None \<Rightarrow> [] | Some ts \<Rightarrow> ts),
      pe_content = ep_summary r, pe_decayed = d, pe_base = base_of r,
      pe_last_validated_at = ep_last_validated_at r, pe_created_at = ep_created_at r\<rparr>"

text \<open>One row: nothing below the floor, else its entry and whether the stale alert is logged.\<close>

definition admit_procedure :: "rat \<Rightarrow> rat \<Rightarrow> rat \<Rightarrow> rat option \<Rightarrow> episode_row \<Rightarrow> (ProcedureRecallEntry \<times> bool) option result" where
  "admit_procedure now lam c_min stale r =
     bind_r (compute_decayed_confidence (base_of r) (now - anchor r) lam) (\<lambda>d.
       Inr (if d < of_rat c_min then None
            else Some (procedure_entry r d, (case stale of None \<Rightarrow> False | Some s \<Rightarrow> d < of_rat s))))"

fun collect :: "(episode_row \<Rightarrow> (ProcedureRecallEntry \<times> bool) option result) \<Rightarrow> nat \<Rightarrow> episode_row list \<Rightarrow> (ProcedureRecallEntry \<times> bool) list result" where
  "collect f limit [] = Inr []"
| "collect f limit (r # rs) =
     bind_r (f r) (\<lambda>x. case x of
        None \<Rightarrow> collect f limit rs
      | Some e \<Rightarrow> if limit \<le> 1 then Inr [e] else bind_r (collect f (limit - 1) rs) (\<lambda>es. Inr (e # es)))"

definition sql_cutoff_seconds :: "rat \<Rightarrow> rat \<Rightarrow> real option" where
  "sql_cutoff_seconds lam c_min =
     (if lam > 0 \<and> c_min > 0 then Some (- ln (of_rat c_min) / of_rat lam * 86400) else None)"

definition newest_procedures :: "episode_row list \<Rightarrow> episode_row list" where
  "newest_procedures rows = sort_key (\<lambda>r. - ep_created_at r) (rev rows)"

definition recall_procedures ::
  "string \<Rightarrow> string \<Rightarrow> int \<Rightarrow> rat \<Rightarrow> rat \<Rightarrow> rat option \<Rightarrow> rat \<Rightarrow> string list option \<Rightarrow> string \<Rightarrow> string \<Rightarrow> episode_row list \<Rightarrow>
   (ProcedureRecallEntry \<times> bool) list result" where
  "recall_procedures ag query limit c_min lam stale now sl pr ep rows =
     (if limit < 1 then Inl ValueError
      else collect (admit_procedure now lam c_min stale) (nat (min limit EPISODE_RECALL_LIMIT))
        (newest_procedures (filter (\<lambda>r. is_procedure r \<and> in_procedure_scope ag sl pr ep r \<and>
           (case sql_cutoff_seconds lam c_min of None \<Rightarrow> True | Some t \<Rightarrow> of_rat now - of_rat (anchor r) \<le> t) \<and>
           (query = [] \<or> sqlite_like (ep_summary r) (like_pattern query))) rows)))"


section \<open>Refresh\<close>

text \<open>\<open>instr(s, t) > 0\<close>.\<close>

definition instr :: "string \<Rightarrow> string \<Rightarrow> bool" where
  "instr s t \<longleftrightarrow> sublist t s"

definition tagged :: "string \<Rightarrow> episode_row \<Rightarrow> bool" where
  "tagged key r =
     (case ep_tags r of None \<Rightarrow> False
      | Some ts \<Rightarrow> sqlite_like (json_list ts) ([CHR ''%'', CHR 34] @ PROCEDURE_TAG @ like_escape key @ [CHR 34, CHR ''%'']) \<and>
                  instr (json_list ts) (json_string (PROCEDURE_TAG @ key)))"

definition revalidated :: "rat \<Rightarrow> episode_row \<Rightarrow> episode_row" where
  "revalidated now r = r\<lparr>ep_confidence := 1, ep_last_validated_at := Some now\<rparr>"

definition refresh_confidence ::
  "string \<Rightarrow> string \<Rightarrow> string list option \<Rightarrow> string \<Rightarrow> string \<Rightarrow> rat \<Rightarrow> episode_row list \<Rightarrow> (bool \<times> episode_row list) result" where
  "refresh_confidence ag key sl pr ep now rows =
     (if key = [] \<or> py_strip key = [] then Inl ValueError
      else let hit = (\<lambda>r. tagged key r \<and> in_procedure_scope ag sl pr ep r)
           in Inr (list_ex hit rows, map (\<lambda>r. if hit r then revalidated now r else r) rows))"


section \<open>The facade\<close>

record MemoryStore =
  ms_initialized :: bool
  ms_episodic :: EpisodicMemory
  ms_snapshot :: tier_snapshot
  ms_lambda_per_day :: rat
  ms_c_min :: rat
  ms_stale_alert_threshold :: rat

definition procedure_context :: "(rat \<Rightarrow> string) \<Rightarrow> string \<Rightarrow> rat option \<Rightarrow> string" where
  "procedure_context float_text key expires_at =
     ''{'' @ json_string ''procedure_key'' @ '': '' @ json_string key @
     (case expires_at of None \<Rightarrow> [] | Some t \<Rightarrow> '', '' @ json_string ''expires_at'' @ '': '' @ float_text t) @ ''}''"

definition procedure_args :: "(rat \<Rightarrow> string) \<Rightarrow> string \<Rightarrow> string \<Rightarrow> rat \<Rightarrow> rat option \<Rightarrow> string \<Rightarrow> episode_args" where
  "procedure_args float_text key content confidence expires_at session =
     \<lparr>ea_summary = content, ea_context_json = procedure_context float_text key expires_at, ea_outcome = None,
      ea_importance = Fin confidence, ea_tags = Some [PROCEDURE_TAG @ key], ea_interaction_id = None, ea_started_at = None,
      ea_closed_at = None, ea_turn_count = None, ea_scope = None, ea_governance_id = None, ea_session = session,
      ea_surface = ''procedure'', ea_protection = ''internal'', ea_channel = None, ea_speaker = None, ea_principal = None\<rparr>"

definition write_session :: "MemoryStore \<Rightarrow> ambient \<Rightarrow> string option \<Rightarrow> string" where
  "write_session ms a session_id =
     normalize_session_id (Some (case session_id of Some s \<Rightarrow> s | None \<Rightarrow> or_str (current_session_id a) (ts_session (ms_snapshot ms))))"

text \<open>The stamp of the fresh row is a statement of its own, after the insert.\<close>

definition stamp_confidence :: "string \<Rightarrow> string \<Rightarrow> rat \<Rightarrow> rat \<Rightarrow> episode_row list \<Rightarrow> episode_row list" where
  "stamp_confidence ag i confidence now rows =
     map (\<lambda>r. if ep_id r = i \<and> ep_agent_id r = ag then r\<lparr>ep_confidence := confidence, ep_last_validated_at := Some now\<rparr> else r) rows"

definition store_procedure ::
  "(rat \<Rightarrow> string) \<Rightarrow> MemoryStore \<Rightarrow> ambient \<Rightarrow> rat \<Rightarrow> string \<Rightarrow> string \<Rightarrow> string \<Rightarrow> pyfloat \<Rightarrow> rat option \<Rightarrow> string option \<Rightarrow>
   episode_db \<Rightarrow> unit result \<times> episode_db" where
  "store_procedure float_text ms a now new_id key content confidence expires_at session_id db =
     (if \<not> ms_initialized ms then (Inl RuntimeError, db)
      else case validate_procedure_key key of
        Inl e \<Rightarrow> (Inl e, db)
      | Inr _ \<Rightarrow>
          (case confidence of
             Fin c \<Rightarrow>
               if \<not> (0 \<le> c \<and> c \<le> 1) then (Inl ValueError, db)
               else if \<not> em_ready (ms_episodic ms) then (Inl RuntimeError, db)
               else let ses = write_session ms a session_id; ag = em_agent_id (ms_episodic ms)
                    in case bind_r (resolve_session_list a (Sess_List [ses]) (ts_session (ms_snapshot ms))) (\<lambda>sl.
                              refresh_confidence ag key sl (resolve_active_principal a (ts_principal (ms_snapshot ms)))
                                (resolve_active_epoch a (ts_epoch (ms_snapshot ms))) now (ed_rows db)) of
                         Inl e \<Rightarrow> (Inl e, db)
                       | Inr (refreshed, rows) \<Rightarrow>
                           if refreshed then (Inr (), db\<lparr>ed_rows := rows\<rparr>)
                           else (case store_episode (ms_episodic ms) a now new_id
                                        (procedure_args float_text key content c expires_at ses) (db\<lparr>ed_rows := rows\<rparr>) of
                                   (Inl e, db') \<Rightarrow> (Inl e, db')
                                 | (Inr i, db') \<Rightarrow> (Inr (), db'\<lparr>ed_rows := stamp_confidence ag i c now (ed_rows db')\<rparr>))
           | _ \<Rightarrow> (Inl ValueError, db)))"

definition retrieve_procedures ::
  "MemoryStore \<Rightarrow> ambient \<Rightarrow> rat \<Rightarrow> string \<Rightarrow> int \<Rightarrow> sessions_arg \<Rightarrow> episode_db \<Rightarrow> (ProcedureRecallEntry \<times> bool) list result" where
  "retrieve_procedures ms a now query limit sessions db =
     (if \<not> ms_initialized ms then Inl RuntimeError
      else bind_r (resolve_session_list a sessions (ts_session (ms_snapshot ms))) (\<lambda>sl.
        if \<not> em_ready (ms_episodic ms) then Inl RuntimeError
        else recall_procedures (em_agent_id (ms_episodic ms)) query limit (ms_c_min ms) (ms_lambda_per_day ms)
          (Some (ms_stale_alert_threshold ms)) now sl (resolve_active_principal a (ts_principal (ms_snapshot ms)))
          (resolve_active_epoch a (ts_epoch (ms_snapshot ms))) (ed_rows db)))"


section \<open>What decay does\<close>

text \<open>The value a row is worth at a time, when the constant is not negative.\<close>

definition worth :: "rat \<Rightarrow> rat \<Rightarrow> rat \<Rightarrow> real" where
  "worth lam c0 age = of_rat (max 0 (min 1 c0)) * exp (- of_rat lam * of_rat (max 0 age / SECONDS_PER_DAY))"

lemma decayed_worth: "0 \<le> lam \<Longrightarrow> compute_decayed_confidence c0 age lam = Inr (worth lam c0 age)"
  by (simp add: compute_decayed_confidence_def worth_def)

lemma clamp_unit: "0 \<le> (of_rat (max 0 (min 1 c0)) :: real) \<and> of_rat (max 0 (min 1 c0)) \<le> (1 :: real)"
  by (simp add: max_def min_def)

lemma worth_bounds: "0 \<le> worth lam c0 age" "0 \<le> lam \<Longrightarrow> worth lam c0 age \<le> of_rat (max 0 (min 1 c0))"
proof -
  show "0 \<le> worth lam c0 age" using clamp_unit by (simp add: worth_def)
  assume l: "0 \<le> lam"
  have "0 \<le> (of_rat lam :: real) * of_rat (max 0 age / SECONDS_PER_DAY)"
    using l by (intro mult_nonneg_nonneg) (simp_all add: SECONDS_PER_DAY_def)
  then have "exp (- of_rat lam * of_rat (max 0 age / SECONDS_PER_DAY)) \<le> (1 :: real)" by simp
  from mult_left_mono[OF this, of "of_rat (max 0 (min 1 c0))"] clamp_unit show "worth lam c0 age \<le> of_rat (max 0 (min 1 c0))"
    unfolding worth_def by simp
qed

lemma worth_antimono:
  assumes "0 \<le> lam" "age \<le> age'" shows "worth lam c0 age' \<le> worth lam c0 age"
proof -
  have "max 0 age / SECONDS_PER_DAY \<le> max 0 age' / SECONDS_PER_DAY"
    using assms(2) by (intro divide_right_mono) (auto simp: SECONDS_PER_DAY_def max_def)
  then have "(of_rat (max 0 age / SECONDS_PER_DAY) :: real) \<le> of_rat (max 0 age' / SECONDS_PER_DAY)" by (simp only: of_rat_less_eq)
  then have "(of_rat lam :: real) * of_rat (max 0 age / SECONDS_PER_DAY) \<le> of_rat lam * of_rat (max 0 age' / SECONDS_PER_DAY)"
    using assms(1) by (intro mult_left_mono) simp_all
  then have "exp (- of_rat lam * of_rat (max 0 age' / SECONDS_PER_DAY)) \<le> (exp (- of_rat lam * of_rat (max 0 age / SECONDS_PER_DAY)) :: real)" by simp
  then show ?thesis unfolding worth_def using clamp_unit by (intro mult_left_mono) auto
qed

lemma worth_add:
  assumes "0 \<le> s" "0 \<le> t" shows "worth lam c0 (s + t) = worth lam c0 s * worth lam 1 t"
proof -
  have "(of_rat (max 0 (s + t) / SECONDS_PER_DAY) :: real) = of_rat (max 0 s / SECONDS_PER_DAY) + of_rat (max 0 t / SECONDS_PER_DAY)"
    using assms by (simp add: of_rat_add[symmetric] add_divide_distrib[symmetric] max_def)
  then have "exp (- of_rat lam * of_rat (max 0 (s + t) / SECONDS_PER_DAY)) =
      (exp (- of_rat lam * of_rat (max 0 s / SECONDS_PER_DAY)) * exp (- of_rat lam * of_rat (max 0 t / SECONDS_PER_DAY)) :: real)"
    by (simp add: exp_add[symmetric] distrib_left)
  then show ?thesis unfolding worth_def by (simp add: mult.assoc)
qed

lemma past_cutoff:
  assumes "sql_cutoff_seconds lam c_min = Some t" "\<not> of_rat now - of_rat a \<le> t"
  shows "worth lam c0 (now - a) < of_rat c_min"
proof -
  have l: "0 < lam" "0 < c_min" and t: "t = - ln (of_rat c_min) / of_rat lam * 86400"
    using assms(1) by (auto simp: sql_cutoff_seconds_def split: if_splits)
  have "t < of_rat (now - a)" using assms(2) by (simp add: of_rat_diff)
  also have "\<dots> \<le> of_rat (max 0 (now - a))" by (simp only: of_rat_less_eq)
  finally have "- ln (of_rat c_min) / of_rat lam < (of_rat (max 0 (now - a) / SECONDS_PER_DAY) :: real)"
    unfolding t by (simp add: SECONDS_PER_DAY_def of_rat_divide)
  then have "- of_rat lam * of_rat (max 0 (now - a) / SECONDS_PER_DAY) < ln (of_rat c_min :: real)"
    using l(1) by (simp add: field_simps)
  then have "exp (- of_rat lam * of_rat (max 0 (now - a) / SECONDS_PER_DAY)) < exp (ln (of_rat c_min :: real))" by (simp only: exp_less_cancel_iff)
  then have "exp (- of_rat lam * of_rat (max 0 (now - a) / SECONDS_PER_DAY)) < (of_rat c_min :: real)" using l(2) by simp
  moreover have "worth lam c0 (now - a) \<le> 1 * exp (- of_rat lam * of_rat (max 0 (now - a) / SECONDS_PER_DAY))"
    unfolding worth_def using clamp_unit by (intro mult_right_mono) auto
  ultimately show ?thesis by simp
qed

text \<open>
  A decayed confidence is never negative, never above the stored one clamped to the unit interval, never grows with age, not
  even for a row validated in the future of a skewed clock, and decaying twice is decaying over the sum of the times; a
  negative constant is refused.
\<close>

lemma decay_only_lowers:
  "(case compute_decayed_confidence c0 age lam of
      Inl e \<Rightarrow> lam < 0 \<and> e = ValueError
    | Inr d \<Rightarrow> 0 \<le> lam \<and> 0 \<le> d \<and> d \<le> of_rat (max 0 (min 1 c0)) \<and> d \<le> 1 \<and>
        (age \<le> 0 \<longrightarrow> d = of_rat (max 0 (min 1 c0))) \<and>
        (\<forall>later. age \<le> later \<longrightarrow> (\<exists>d'. compute_decayed_confidence c0 later lam = Inr d' \<and> d' \<le> d)) \<and>
        (\<forall>more. 0 \<le> age \<and> 0 \<le> more \<longrightarrow> (\<exists>f. compute_decayed_confidence 1 more lam = Inr f \<and>
            compute_decayed_confidence c0 (age + more) lam = Inr (d * f))))"
proof (cases "lam < 0")
  case True
  then show ?thesis by (simp add: compute_decayed_confidence_def)
next
  case False
  then have l: "0 \<le> lam" by simp
  have "worth lam c0 age \<le> 1" using worth_bounds(2)[OF l, of c0 age] clamp_unit[of c0] by linarith
  moreover have "age \<le> 0 \<Longrightarrow> worth lam c0 age = of_rat (max 0 (min 1 c0))" by (simp add: worth_def max_def)
  ultimately show ?thesis
    unfolding decayed_worth[OF l] sum.case using l worth_bounds(1)[of lam c0 age] worth_bounds(2)[OF l, of c0 age] worth_antimono[OF l] worth_add by simp
qed

theorem decay_only_lowers_witness:
  "\<exists>d d'. compute_decayed_confidence (4/5) 0 DEFAULT_LAMBDA_PER_DAY = Inr d \<and> d = of_rat (4/5) \<and>
     compute_decayed_confidence (4/5) 86400 DEFAULT_LAMBDA_PER_DAY = Inr d' \<and> d' \<le> d"
proof -
  have l: "0 \<le> DEFAULT_LAMBDA_PER_DAY" by (simp add: DEFAULT_LAMBDA_PER_DAY_def)
  have w: "worth DEFAULT_LAMBDA_PER_DAY (4/5) 0 = of_rat (4/5)" by (simp add: worth_def)
  from decay_only_lowers[where ?c0.0 = "4/5" and age = 0 and lam = DEFAULT_LAMBDA_PER_DAY]
  obtain d' where "compute_decayed_confidence (4/5) 86400 DEFAULT_LAMBDA_PER_DAY = Inr d'" "d' \<le> worth DEFAULT_LAMBDA_PER_DAY (4/5) 0"
    unfolding decayed_worth[OF l] sum.case by fastforce
  then show ?thesis unfolding decayed_worth[OF l, of "4/5" 0] using w by blast
qed


section \<open>The prefilter of the query drops nothing\<close>

definition admitted :: "rat \<Rightarrow> rat \<Rightarrow> rat \<Rightarrow> rat option \<Rightarrow> episode_row \<Rightarrow> (ProcedureRecallEntry \<times> bool) option" where
  "admitted now lam c_min stale r =
     (let d = worth lam (base_of r) (now - anchor r)
      in if d < of_rat c_min then None
         else Some (procedure_entry r d, (case stale of None \<Rightarrow> False | Some s \<Rightarrow> d < of_rat s)))"

lemma admit_procedure_admitted: "0 \<le> lam \<Longrightarrow> admit_procedure now lam c_min stale r = Inr (admitted now lam c_min stale r)"
  by (simp add: admit_procedure_def admitted_def decayed_worth Let_def)

lemma collect_take:
  assumes "\<And>r. f r = Inr (g r)" "1 \<le> limit"
  shows "collect f limit rows = Inr (take limit (List.map_filter g rows))"
  using assms(2) by (induction rows arbitrary: limit) (auto simp: assms(1) map_filter_simps take_Cons' split: option.splits)

lemma map_filter_filter: "(\<And>r. r \<in> set rows \<Longrightarrow> \<not> P r \<Longrightarrow> g r = None) \<Longrightarrow> List.map_filter g (filter P rows) = List.map_filter g rows"
  by (induction rows) (auto simp: map_filter_simps split: option.splits)

lemma newest_procedures_filter: "newest_procedures (filter P rows) = filter P (newest_procedures rows)"
  by (simp add: newest_procedures_def filter_sort rev_filter)

text \<open>
  C28. A procedural recall is the plain reading of the tier: take the procedures of the scope that contain the query, newest first,
  decay each, drop those below the floor, and keep the first of the rest up to the limit. The age cutoff in the
  SQL never hides a row the decay would admit, for any floor and constant, and stopping the cursor early never changes the answer.
\<close>

theorem recall_is_plain_decay:
  assumes "0 \<le> lam"
  shows "recall_procedures ag query limit c_min lam stale now sl pr ep rows =
     (if limit < 1 then Inl ValueError
      else Inr (take (nat (min limit 100)) (List.map_filter (admitted now lam c_min stale)
        (newest_procedures (filter (\<lambda>r. is_procedure r \<and> in_procedure_scope ag sl pr ep r \<and>
           (query = [] \<or> sqlite_like (ep_summary r) (like_pattern query))) rows)))))"
proof (cases "limit < 1")
  case False
  define young where "young r \<longleftrightarrow> (case sql_cutoff_seconds lam c_min of None \<Rightarrow> True | Some t \<Rightarrow> of_rat now - of_rat (anchor r) \<le> t)" for r
  define P where "P r \<longleftrightarrow> is_procedure r \<and> in_procedure_scope ag sl pr ep r \<and> (query = [] \<or> sqlite_like (ep_summary r) (like_pattern query))" for r
  have hidden: "admitted now lam c_min stale r = None" if "\<not> young r" for r
    using that past_cutoff[of lam c_min _ now "anchor r" "base_of r"] by (auto simp: young_def admitted_def Let_def split: option.splits)
  have "filter (\<lambda>r. is_procedure r \<and> in_procedure_scope ag sl pr ep r \<and> young r \<and> (query = [] \<or> sqlite_like (ep_summary r) (like_pattern query))) rows =
      filter young (filter P rows)" unfolding filter_filter by (rule filter_cong) (auto simp: P_def)
  then have "recall_procedures ag query limit c_min lam stale now sl pr ep rows =
      collect (admit_procedure now lam c_min stale) (nat (min limit 100)) (newest_procedures (filter young (filter P rows)))"
    using False by (simp add: recall_procedures_def young_def EPISODE_RECALL_LIMIT_def)
  also have "\<dots> = Inr (take (nat (min limit 100)) (List.map_filter (admitted now lam c_min stale) (newest_procedures (filter young (filter P rows)))))"
    using False by (intro collect_take admit_procedure_admitted assms) simp
  also have "List.map_filter (admitted now lam c_min stale) (newest_procedures (filter young (filter P rows))) =
      List.map_filter (admitted now lam c_min stale) (newest_procedures (filter P rows))"
    unfolding newest_procedures_filter[of young] by (rule map_filter_filter) (rule hidden)
  finally show ?thesis using False by (simp add: P_def[abs_def])
qed (simp add: recall_procedures_def)


section \<open>A key names its own rows\<close>

definition plain_text :: "string \<Rightarrow> bool" where
  "plain_text s \<longleftrightarrow> list_all (\<lambda>c. let n = of_char c :: nat in 32 \<le> n \<and> n \<le> 126 \<and> n \<noteq> 34 \<and> n \<noteq> 92) s"

lemma plain_text_append [simp]: "plain_text (s @ t) \<longleftrightarrow> plain_text s \<and> plain_text t"
  by (simp add: plain_text_def)

lemma plain_tag [simp]: "plain_text PROCEDURE_TAG"
  by code_simp

lemma plain_key: "validate_procedure_key key = Inr () \<Longrightarrow> plain_text key"
  by (auto simp: validate_procedure_key_def plain_text_def list_all_iff key_char_def Let_def split: if_splits)

lemma plain_chars: "plain_text s \<Longrightarrow> CHR 34 \<notin> set s \<and> CHR 0x00 \<notin> set s"
  by (auto simp: plain_text_def list_all_iff Let_def)

lemma json_string_plain: "plain_text s \<Longrightarrow> json_string s = [CHR 34] @ s @ [CHR 34]"
proof -
  assume "plain_text s"
  then have "concat (map json_char s) = s"
    by (induction s) (auto simp: plain_text_def json_char_def Let_def)
  then show ?thesis by (simp add: json_string_def)
qed

lemma json_list_one: "json_list [t] = [CHR ''[''] @ json_string t @ [CHR '']'']"
  by (simp add: json_list_def)

lemma like_escape_append: "like_escape (s @ t) = like_escape s @ like_escape t"
  by (simp add: like_escape_def replace_char_def)

lemma tag_pattern:
  "[CHR ''%'', CHR 34] @ PROCEDURE_TAG @ like_escape key @ [CHR 34, CHR ''%''] = like_pattern ([CHR 34] @ PROCEDURE_TAG @ key @ [CHR 34])"
proof -
  have "like_escape ([CHR 34] @ PROCEDURE_TAG) = [CHR 34] @ PROCEDURE_TAG" "like_escape [CHR 34] = [CHR 34]" by code_simp+
  then have "like_escape ([CHR 34] @ PROCEDURE_TAG @ key @ [CHR 34]) = [CHR 34] @ PROCEDURE_TAG @ like_escape key @ [CHR 34]"
    by (metis append.assoc like_escape_append)
  then show ?thesis by (simp add: like_pattern_def)
qed

lemma tagged_own:
  assumes "validate_procedure_key key = Inr ()" "ep_tags r = Some [PROCEDURE_TAG @ key]"
  shows "tagged key r"
proof -
  let ?q = "[CHR 34] @ PROCEDURE_TAG @ key @ [CHR 34]"
  note pk = plain_key[OF assms(1)]
  have js: "json_list [PROCEDURE_TAG @ key] = [CHR ''[''] @ ?q @ [CHR '']'']" "json_string (PROCEDURE_TAG @ key) = ?q"
    using pk by (simp_all add: json_list_one json_string_plain)
  have "CHR 0x00 \<notin> set ?q" using plain_chars[OF pk] plain_chars[OF plain_tag] by auto
  then have "sqlite_like ([CHR ''[''] @ ?q @ [CHR '']'']) (like_pattern ?q)"
    by (intro iffD2[OF like_finds_literal] exI[of _ "[CHR ''['']"] exI[of _ ?q] exI[of _ "[CHR '']'']"] conjI) (auto simp: nocase_eq_def)
  moreover have "sublist ?q ([CHR ''[''] @ ?q @ [CHR '']''])" unfolding sublist_def by blast
  ultimately show ?thesis unfolding tagged_def assms(2) option.case js tag_pattern instr_def by blast
qed

lemma quoted_once:
  assumes "x # q # t @ [q, y] = ps @ q # u @ q # ss" "q \<notin> set t" "q \<notin> set u" "x \<noteq> q" "y \<noteq> q"
  shows "t = u"
proof (cases ps)
  case Nil
  then show ?thesis using assms(1,4) by simp
next
  case (Cons p ps')
  show ?thesis
  proof (cases ps')
    case Nil
    then have "t @ q # [y] = u @ q # ss" using assms(1) Cons by simp
    then have "takeWhile (\<lambda>c. c \<noteq> q) (t @ q # [y]) = takeWhile (\<lambda>c. c \<noteq> q) (u @ q # ss)" by (rule arg_cong)
    moreover have "takeWhile (\<lambda>c. c \<noteq> q) (v @ q # w) = v" if "q \<notin> set v" for v w
      using that by (induction v) auto
    ultimately show ?thesis using assms(2,3) by metis
  next
    case (Cons p' z)
    then have "t @ [q, y] = z @ q # u @ q # ss" using assms(1) \<open>ps = p # ps'\<close> by auto
    then have "count_list (t @ [q, y]) q = count_list (z @ q # u @ q # ss) q" by simp
    moreover have "count_list t q = 0" using assms(2) by (simp add: count_list_0_iff)
    ultimately show ?thesis using assms(5) by simp
  qed
qed

lemma tagged_only:
  assumes "validate_procedure_key key = Inr ()" "ep_tags r = Some [t]" "plain_text t" "tagged key r"
  shows "t = PROCEDURE_TAG @ key"
proof -
  have "sublist ([CHR 34] @ (PROCEDURE_TAG @ key) @ [CHR 34]) ([CHR ''[''] @ ([CHR 34] @ t @ [CHR 34]) @ [CHR '']''])"
    using assms plain_key[OF assms(1)] by (simp add: tagged_def instr_def json_list_one json_string_plain)
  then obtain ps ss where "CHR ''['' # CHR 34 # t @ [CHR 34, CHR '']''] = ps @ CHR 34 # (PROCEDURE_TAG @ key) @ CHR 34 # ss"
    by (auto simp: sublist_def)
  moreover have "CHR 34 \<notin> set t" "CHR 34 \<notin> set (PROCEDURE_TAG @ key)"
    using plain_chars[OF assms(3)] plain_chars[OF plain_key[OF assms(1)]] plain_chars[OF plain_tag] by auto
  ultimately show ?thesis by (rule quoted_once) simp_all
qed


section \<open>Storing a procedure\<close>

definition one_scope :: "MemoryStore \<Rightarrow> ambient \<Rightarrow> string option \<Rightarrow> episode_row \<Rightarrow> bool" where
  "one_scope ms a session_id r \<longleftrightarrow>
     ep_agent_id r = em_agent_id (ms_episodic ms) \<and> ep_session_id r \<in> {write_session ms a session_id, LEGACY_SESSION_ID} \<and>
     ep_principal_id r = resolve_active_principal a (ts_principal (ms_snapshot ms)) \<and>
     ep_epoch_id r = resolve_active_epoch a (ts_epoch (ms_snapshot ms))"

definition names_row :: "MemoryStore \<Rightarrow> ambient \<Rightarrow> string option \<Rightarrow> string \<Rightarrow> episode_row \<Rightarrow> bool" where
  "names_row ms a session_id key r \<longleftrightarrow> tagged key r \<and> one_scope ms a session_id r"

lemma refresh_store:
  assumes "validate_procedure_key key = Inr ()"
  shows "bind_r (resolve_session_list a (Sess_List [write_session ms a ses]) (ts_session (ms_snapshot ms))) (\<lambda>sl.
      refresh_confidence (em_agent_id (ms_episodic ms)) key sl (resolve_active_principal a (ts_principal (ms_snapshot ms)))
        (resolve_active_epoch a (ts_epoch (ms_snapshot ms))) now rows) =
    Inr (list_ex (names_row ms a ses key) rows, map (\<lambda>r. if names_row ms a ses key r then revalidated now r else r) rows)"
proof -
  let ?sl = "if write_session ms a ses = LEGACY_SESSION_ID then [LEGACY_SESSION_ID] else [write_session ms a ses, LEGACY_SESSION_ID]"
  have sl: "resolve_session_list a (Sess_List [write_session ms a ses]) (ts_session (ms_snapshot ms)) = Inr (Some ?sl)"
    by (simp add: resolve_session_list_def)
  have hit: "tagged key r \<and> in_procedure_scope (em_agent_id (ms_episodic ms)) (Some ?sl)
      (resolve_active_principal a (ts_principal (ms_snapshot ms))) (resolve_active_epoch a (ts_epoch (ms_snapshot ms))) r \<longleftrightarrow> names_row ms a ses key r" for r
    by (auto simp: names_row_def one_scope_def in_procedure_scope_iff scope_admits_def episode_scope_cols_def)
  have k: "key \<noteq> []" "py_strip key \<noteq> []"
  proof -
    show "key \<noteq> []" using assms by (auto simp: validate_procedure_key_def)
    then have "key_char (hd key)" using assms by (cases key) (auto simp: validate_procedure_key_def split: if_splits)
    moreover have "\<not> py_isspace c" if "key_char c" for c
      using that unfolding key_char_def py_isspace_def Let_def by auto
    ultimately have "\<not> py_isspace (hd key)" by blast
    then have "dropWhile py_isspace key = key" using \<open>key \<noteq> []\<close> by (cases key) auto
    then have "py_strip key = [] \<longleftrightarrow> (\<forall>c \<in> set key. py_isspace c)" by (simp add: py_strip_def)
    then show "py_strip key \<noteq> []" using \<open>key \<noteq> []\<close> \<open>\<not> py_isspace (hd key)\<close> hd_in_set by blast
  qed
  show ?thesis unfolding sl bind_r_simps refresh_confidence_def Let_def hit using k by simp
qed


lemma store_procedure_ok:
  assumes "store_procedure ft ms a now i key content conf expires ses db = (Inr (), db1)"
  obtains c where "conf = Fin c" "0 \<le> c" "c \<le> 1" "validate_procedure_key key = Inr ()" "ms_initialized ms" "em_ready (ms_episodic ms)"
    "list_ex (names_row ms a ses key) (ed_rows db)" "ed_rows db1 = map (\<lambda>r. if names_row ms a ses key r then revalidated now r else r) (ed_rows db)"
  | c where "conf = Fin c" "0 \<le> c" "c \<le> 1" "validate_procedure_key key = Inr ()" "ms_initialized ms" "em_ready (ms_episodic ms)"
    "\<not> list_ex (names_row ms a ses key) (ed_rows db)" "i \<notin> ep_id ` set (ed_rows db)"
    "ed_rows db1 = ed_rows db @ [(episode_of (ms_episodic ms) a now i (procedure_args ft key content c expires (write_session ms a ses)))
        \<lparr>ep_confidence := c, ep_last_validated_at := Some now\<rparr>]"
proof -
  obtain c where pre: "conf = Fin c" "0 \<le> c" "c \<le> 1" "validate_procedure_key key = Inr ()" "ms_initialized ms" "em_ready (ms_episodic ms)"
    using assms by (auto simp: store_procedure_def split: if_splits sum.splits pyfloat.splits)
  show ?thesis
  proof (cases "list_ex (names_row ms a ses key) (ed_rows db)")
    case True
    then have "ed_rows db1 = map (\<lambda>r. if names_row ms a ses key r then revalidated now r else r) (ed_rows db)"
      using assms pre unfolding store_procedure_def Let_def pre(1) pre(4) refresh_store[OF pre(4)] by auto
    with True pre show ?thesis using that(1) by blast
  next
    case False
    have id: "map (\<lambda>r. if names_row ms a ses key r then revalidated now r else r) (ed_rows db) = ed_rows db"
      using False by (intro map_idI) (auto simp: list_ex_iff)
    let ?x = "procedure_args ft key content c expires (write_session ms a ses)"
    let ?r = "episode_of (ms_episodic ms) a now i ?x"
    have st: "(case store_episode (ms_episodic ms) a now i ?x (db\<lparr>ed_rows := ed_rows db\<rparr>) of (Inl e, db') \<Rightarrow> (Inl e, db')
        | (Inr j, db') \<Rightarrow> (Inr (), db'\<lparr>ed_rows := stamp_confidence (em_agent_id (ms_episodic ms)) j c now (ed_rows db')\<rparr>)) = (Inr (), db1)"
      using assms pre False unfolding store_procedure_def Let_def pre(1) pre(4) refresh_store[OF pre(4)] id by simp
    then have new: "i \<notin> ep_id ` set (ed_rows db)" and "ed_rows db1 = stamp_confidence (em_agent_id (ms_episodic ms)) i c now (ed_rows db @ [?r])"
      using pre by (auto simp: store_episode_def Let_def split: if_splits)
    then have "ed_rows db1 = ed_rows db @ [?r\<lparr>ep_confidence := c, ep_last_validated_at := Some now\<rparr>]"
      by (auto simp: stamp_confidence_def episode_of_def image_iff intro!: map_idI)
    with False pre new show ?thesis using that(2) by blast
  qed
qed


lemma names_row_revalidated [simp]: "names_row ms a ses key (revalidated now r) = names_row ms a ses key r"
  by (simp add: names_row_def one_scope_def tagged_def revalidated_def)

lemma write_session_normal: "normalize_session_id (Some (write_session ms a ses)) = write_session ms a ses"
  unfolding write_session_def by (rule session.norm_idem)

lemma fresh_named:
  assumes "validate_procedure_key key = Inr ()" "em_snapshot (ms_episodic ms) = ms_snapshot ms"
  shows "names_row ms a ses key ((episode_of (ms_episodic ms) a now i (procedure_args ft key content c expires (write_session ms a ses)))
        \<lparr>ep_confidence := c, ep_last_validated_at := Some now\<rparr>)"
proof -
  let ?r = "(episode_of (ms_episodic ms) a now i (procedure_args ft key content c expires (write_session ms a ses)))
        \<lparr>ep_confidence := c, ep_last_validated_at := Some now\<rparr>"
  have "tagged key ?r" by (rule tagged_own[OF assms(1)]) (simp add: episode_of_def procedure_args_def)
  moreover have "one_scope ms a ses ?r"
    using assms(2) by (simp add: one_scope_def episode_of_def procedure_args_def write_session_normal resolve_write_principal_def)
  ultimately show ?thesis by (simp add: names_row_def)
qed

text \<open>
  Storing a procedure leaves a row under exactly that key, in the scope a recall of the write session reads, worth its
  confidence at that moment; storing the key again, whatever the body and confidence passed, adds no row and makes
  every row of the key in scope worth 1 again with the clock restarted, however far it had decayed. No store touches a
  row stored under another key or in another persona, person, epoch or named session.
\<close>

lemma restore_refreshes:
  assumes "em_snapshot (ms_episodic ms) = ms_snapshot ms"
    and "store_procedure ft ms a now i key content conf expires ses db = (Inr (), db1)"
    and "0 \<le> c2" "c2 \<le> 1"
  shows "(\<exists>r \<in> set (ed_rows db1). names_row ms a ses key r \<and> ep_last_validated_at r = Some now) \<and>
     (\<forall>r \<in> set (ed_rows db). \<not> one_scope ms a ses r \<or>
        (\<exists>k. ep_tags r = Some [PROCEDURE_TAG @ k] \<and> plain_text k \<and> k \<noteq> key) \<longrightarrow> r \<in> set (ed_rows db1)) \<and>
     (case store_procedure ft ms a now2 i2 key content2 (Fin c2) expires2 ses db1 of (res, db2) \<Rightarrow>
        res = Inr () \<and> map ep_id (ed_rows db2) = map ep_id (ed_rows db1) \<and>
        (\<forall>r \<in> set (ed_rows db2). names_row ms a ses key r \<longrightarrow>
           worth lam (base_of r) (now2 - anchor r) = 1 \<and> ep_last_validated_at r = Some now2))"
proof -
  let ?named = "names_row ms a ses key"
  have v: "validate_procedure_key key = Inr ()" "ms_initialized ms" "em_ready (ms_episodic ms)"
    using store_procedure_ok[OF assms(2)] by blast+
  have spared: "\<not> ?named r" if "\<not> one_scope ms a ses r \<or> (\<exists>k. ep_tags r = Some [PROCEDURE_TAG @ k] \<and> plain_text k \<and> k \<noteq> key)" for r
    using that tagged_only[OF v(1), of r] by (auto simp: names_row_def)
  have row: "\<exists>r \<in> set (ed_rows db1). ?named r \<and> ep_last_validated_at r = Some now"
  proof (rule store_procedure_ok[OF assms(2)], goal_cases)
    case (1 c)
    then obtain r where "r \<in> set (ed_rows db)" "?named r" by (auto simp: list_ex_iff)
    then show ?case unfolding 1(8) by (intro bexI[of _ "revalidated now r"]) (auto, simp add: revalidated_def)
  next
    case (2 c)
    show ?case unfolding 2(9) using fresh_named[OF v(1) assms(1)] by auto
  qed
  have kept: "r \<in> set (ed_rows db1)" if "r \<in> set (ed_rows db)" "\<not> ?named r" for r
    by (rule store_procedure_ok[OF assms(2)]) (use that in \<open>auto simp: image_iff intro: bexI[of _ r]\<close>)
  let ?rows = "map (\<lambda>r. if ?named r then revalidated now2 r else r) (ed_rows db1)"
  have ex: "list_ex ?named (ed_rows db1)" using row by (auto simp: list_ex_iff)
  have again: "store_procedure ft ms a now2 i2 key content2 (Fin c2) expires2 ses db1 = (Inr (), db1\<lparr>ed_rows := ?rows\<rparr>)"
    using v assms(3,4) ex unfolding store_procedure_def Let_def refresh_store[OF v(1)] by simp
  have ids: "map ep_id ?rows = map ep_id (ed_rows db1)" by (simp add: revalidated_def)
  have full: "worth lam (base_of r) (now2 - anchor r) = 1 \<and> ep_last_validated_at r = Some now2" if mem: "r \<in> set ?rows" and nm: "?named r" for r
  proof -
    obtain r0 where r0: "r = (if ?named r0 then revalidated now2 r0 else r0)" using mem unfolding set_map by blast
    with nm have "?named r0" by (metis names_row_revalidated)
    then have "r = revalidated now2 r0" using r0 by simp
    then show ?thesis by (simp add: revalidated_def anchor_def base_of_def resolve_base_confidence_def worth_def)
  qed
  show ?thesis unfolding again prod.case
  proof (intro conjI ballI impI)
    fix r assume "r \<in> set (ed_rows db)" "\<not> one_scope ms a ses r \<or> (\<exists>k. ep_tags r = Some [PROCEDURE_TAG @ k] \<and> plain_text k \<and> k \<noteq> key)"
    then show "r \<in> set (ed_rows db1)" using kept spared by blast
  next
    fix r assume "r \<in> set (ed_rows (db1\<lparr>ed_rows := ?rows\<rparr>))" "?named r"
    then have f: "worth lam (base_of r) (now2 - anchor r) = 1 \<and> ep_last_validated_at r = Some now2" by (intro full) simp_all
    show "worth lam (base_of r) (now2 - anchor r) = 1" "ep_last_validated_at r = Some now2" using f by simp_all
  qed (use row ids in simp_all)
qed


section \<open>The properties on a sample store\<close>

definition ada_store :: MemoryStore where
  "ada_store = \<lparr>ms_initialized = True, ms_episodic = ada_episodes, ms_snapshot = em_snapshot ada_episodes,
     ms_lambda_per_day = DEFAULT_LAMBDA_PER_DAY, ms_c_min = DEFAULT_C_MIN, ms_stale_alert_threshold = DEFAULT_STALE_CONFIDENCE_ALERT_THRESHOLD\<rparr>"

definition with_procedure :: "unit result \<times> episode_db" where
  "with_procedure = store_procedure (\<lambda>_. ''0'') ada_store quiet 100 ''p1'' ''deploy.web'' ''run the script'' (Fin (1/2)) None None two_episodes"

theorem restore_refreshes_witness:
  "fst with_procedure = Inr () \<and> map ep_id (ed_rows (snd with_procedure)) = [''1'', ''2'', ''p1''] \<and>
   (case store_procedure (\<lambda>_. ''0'') ada_store quiet 900 ''p2'' ''deploy.web'' ''other'' (Fin 0) None None (snd with_procedure) of (res, db2) \<Rightarrow>
      res = Inr () \<and> map ep_id (ed_rows db2) = map ep_id (ed_rows (snd with_procedure)))"
proof -
  have f: "fst with_procedure = Inr ()" and ids: "map ep_id (ed_rows (snd with_procedure)) = [''1'', ''2'', ''p1'']" by code_simp+
  then have "with_procedure = (Inr (), snd with_procedure)" by (metis prod.collapse)
  then have s: "store_procedure (\<lambda>_. ''0'') ada_store quiet 100 ''p1'' ''deploy.web'' ''run the script'' (Fin (1/2)) None None two_episodes =
      (Inr (), snd with_procedure)" unfolding with_procedure_def .
  have e: "em_snapshot (ms_episodic ada_store) = ms_snapshot ada_store" by (simp add: ada_store_def)
  note r = restore_refreshes[OF e s, where ?c2.0 = 0 and ?now2.0 = 900 and ?i2.0 = "''p2''" and ?content2.0 = "''other''" and ?expires2.0 = None]
  show ?thesis using r f ids by (auto split: prod.splits)
qed

theorem recall_is_plain_decay_witness:
  "recall_procedures ''ada'' [] 5 (1/10) (1/100) None 100 None ''local'' ''live'' (ed_rows (snd with_procedure)) =
     Inr (take 5 (List.map_filter (admitted 100 (1/100) (1/10) None) (filter is_procedure (ed_rows (snd with_procedure)))))"
proof -
  have "newest_procedures (filter (\<lambda>r. is_procedure r \<and> in_procedure_scope ''ada'' None ''local'' ''live'' r \<and>
      ([] = [] \<or> sqlite_like (ep_summary r) (like_pattern []))) (ed_rows (snd with_procedure))) = filter is_procedure (ed_rows (snd with_procedure))"
    by code_simp
  then show ?thesis
    using recall_is_plain_decay[of "1/100" "''ada''" "[]" 5 "1/10" None 100 None "''local''" "''live''" "ed_rows (snd with_procedure)"] by simp
qed

text \<open>SQLite compares the tag without case, the key is read with it: such a row counts as a procedure and has no key.\<close>

lemma tag_case_split:
  "is_procedure ((hd (ed_rows two_episodes))\<lparr>ep_tags := Some [''Procedure:x'']\<rparr>) \<and> extract_procedure_key [''Procedure:x''] = None"
  by code_simp

end
