(* ===== verification/Eviction.thy ===== *)
theory Eviction
  imports Procedures "HOL-Library.Product_Lexorder"
begin

text \<open>
  Eviction of the episodes of task agents: \<open>src/agents/memory/eviction.py\<close>. A pass drops old episodes of low importance, then the
  lowest-scoring episodes above the cap, then the procedures that have decayed below the floor. Scores are rational numbers.
  A pass waits between its rules, and the decay rule between reading and deleting: what other writes of the same connection do to the rows there is an argument of the pass.
  Counting, scoring and deleting within the cap rule are one step.
\<close>


section \<open>A pass\<close>

definition TTL_IMPORTANCE_THRESHOLD :: rat where "TTL_IMPORTANCE_THRESHOLD = 3 / 10"
definition W_IMPORTANCE :: rat where "W_IMPORTANCE = 6 / 10"
definition W_RECENCY :: rat where "W_RECENCY = 3 / 10"
definition W_ACCESS :: rat where "W_ACCESS = 1 / 10"

record EvictionStats =
  ttl_evicted :: nat
  cap_evicted :: nat
  total_after :: nat
  procedural_evicted :: nat

record EvictionPass =
  ev_agent_id :: string
  ev_episodic_cap :: int
  ev_ttl_seconds :: rat
  ev_lambda_per_day :: rat
  ev_c_min :: rat

definition mk_EvictionPass :: "string \<Rightarrow> int \<Rightarrow> int \<Rightarrow> rat \<Rightarrow> rat \<Rightarrow> EvictionPass result" where
  "mk_EvictionPass ag cap days lam c_min =
     (if cap < 1 then Inl ValueError
      else if days < 1 then Inl ValueError
      else Inr \<lparr>ev_agent_id = ag, ev_episodic_cap = cap, ev_ttl_seconds = of_int days * 86400, ev_lambda_per_day = lam, ev_c_min = c_min\<rparr>)"

text \<open>The condition \<open>tags_json IS NULL OR tags_json NOT LIKE ...\<close> with the agent.\<close>

definition evictable :: "string \<Rightarrow> episode_row \<Rightarrow> bool" where
  "evictable ag r \<longleftrightarrow> ep_agent_id r = ag \<and> (ep_tags r = None \<or> \<not> is_procedure r)"

definition count_evictable :: "string \<Rightarrow> episode_row list \<Rightarrow> nat" where
  "count_evictable ag rows = length (filter (evictable ag) rows)"

definition evict_ttl :: "EvictionPass \<Rightarrow> rat \<Rightarrow> episode_row list \<Rightarrow> nat \<times> episode_row list" where
  "evict_ttl p now rows =
     (let hit = (\<lambda>r. evictable (ev_agent_id p) r \<and> ep_importance r < TTL_IMPORTANCE_THRESHOLD \<and> ep_created_at r < now - ev_ttl_seconds p)
      in (length (filter hit rows), filter (\<lambda>r. \<not> hit r) rows))"

definition hybrid_score :: "episode_row list \<Rightarrow> episode_row \<Rightarrow> rat" where
  "hybrid_score rows r =
     (let rec_min = Min (ep_created_at ` set rows); rec_max = Max (ep_created_at ` set rows);
          rec_span = rec_max - rec_min; acc_max = Max (ep_access_count ` set rows);
          recency_norm = (if rec_span > 0 then (ep_created_at r - rec_min) / rec_span else 1);
          access_norm = (if acc_max > 0 then of_int (ep_access_count r) / of_int acc_max else 0)
      in ep_importance r * W_IMPORTANCE + recency_norm * W_RECENCY + access_norm * W_ACCESS)"

definition score_rows :: "episode_row list \<Rightarrow> (string \<times> rat \<times> rat) list" where
  "score_rows rows = map (\<lambda>r. (ep_id r, hybrid_score rows r, ep_created_at r)) rows"

definition cap_victims :: "EvictionPass \<Rightarrow> episode_row list \<Rightarrow> string list" where
  "cap_victims p rows =
     (let excess = int (count_evictable (ev_agent_id p) rows) - ev_episodic_cap p
      in if excess \<le> 0 then []
         else map fst (take (nat excess) (sort_key snd (score_rows (filter (evictable (ev_agent_id p)) rows)))))"

definition evict_size_cap :: "EvictionPass \<Rightarrow> episode_row list \<Rightarrow> nat \<times> episode_row list" where
  "evict_size_cap p rows =
     (let ids = cap_victims p rows
      in (length ids, filter (\<lambda>r. \<not> (ep_agent_id r = ev_agent_id p \<and> ep_id r \<in> set ids)) rows))"

text \<open>The decay pass: what its \<open>SELECT\<close> picks, and its \<open>DELETE\<close> on the table as it then is.\<close>

definition decay_victims :: "EvictionPass \<Rightarrow> rat \<Rightarrow> episode_row list \<Rightarrow> string list result" where
  "decay_victims p now rows =
     bind_r (mapM_r (\<lambda>r. bind_r (compute_decayed_confidence (base_of r) (max 0 (now - anchor r)) (ev_lambda_per_day p)) (\<lambda>d.
         Inr (if d < of_rat (ev_c_min p) then [ep_id r] else [])))
       (filter (\<lambda>r. ep_agent_id r = ev_agent_id p \<and> is_procedure r) rows)) (\<lambda>vs. Inr (concat vs))"

definition delete_decayed :: "EvictionPass \<Rightarrow> rat \<Rightarrow> string list \<Rightarrow> episode_row list \<Rightarrow> nat \<times> episode_row list" where
  "delete_decayed p now victims rows =
     (let hit = (\<lambda>r. ep_agent_id r = ev_agent_id p \<and> ep_id r \<in> set victims \<and>
                     (case ep_last_validated_at r of None \<Rightarrow> True | Some t \<Rightarrow> t < now))
      in if victims = [] then (0, rows) else (length (filter hit rows), filter (\<lambda>r. \<not> hit r) rows))"

definition evict_procedural_decay :: "EvictionPass \<Rightarrow> rat \<Rightarrow> (episode_row list \<Rightarrow> episode_row list) \<Rightarrow> episode_row list \<Rightarrow> (nat \<times> episode_row list) result" where
  "evict_procedural_decay p now between rows =
     bind_r (decay_victims p now rows) (\<lambda>vs. Inr (delete_decayed p now vs (between rows)))"

text \<open>The points of a pass at which it waits and others may write: between its rules, between choosing and deleting the procedures, and before the final count.\<close>

datatype pass_await = After_ttl | After_cap | Before_delete | Before_count

definition run_pass ::
  "EvictionPass \<Rightarrow> rat \<Rightarrow> rat \<Rightarrow> (pass_await \<Rightarrow> episode_row list \<Rightarrow> episode_row list) \<Rightarrow> episode_row list \<Rightarrow> EvictionStats result \<times> episode_row list" where
  "run_pass p now_ttl now_decay meanwhile rows =
     (let (ttl, rows1) = evict_ttl p now_ttl rows;
          (cap, rows2) = evict_size_cap p (meanwhile After_ttl rows1)
      in case evict_procedural_decay p now_decay (meanwhile Before_delete) (meanwhile After_cap rows2) of
           Inl e \<Rightarrow> (Inl e, meanwhile After_cap rows2)
         | Inr (proc, rows3) \<Rightarrow>
             (let rows4 = meanwhile Before_count rows3
              in (Inr \<lparr>ttl_evicted = ttl, cap_evicted = cap, total_after = count_evictable (ev_agent_id p) rows4, procedural_evicted = proc\<rparr>, rows4)))"

abbreviation undisturbed :: "pass_await \<Rightarrow> episode_row list \<Rightarrow> episode_row list" where "undisturbed \<equiv> (\<lambda>_. id)"


section \<open>The loop\<close>

definition startup_delay :: "rat \<Rightarrow> rat" where
  "startup_delay cadence = min 60 (cadence / 10)"

text \<open>The passes of the loop at the clock readings it wakes at; a failed pass is logged and the loop goes on.\<close>

fun eviction_rounds :: "EvictionPass \<Rightarrow> (rat \<times> rat) list \<Rightarrow> episode_row list \<Rightarrow> episode_row list" where
  "eviction_rounds p [] rows = rows"
| "eviction_rounds p ((t, d) # ts) rows = eviction_rounds p ts (snd (run_pass p t d undisturbed rows))"

definition eviction_loop :: "string \<Rightarrow> int \<Rightarrow> int \<Rightarrow> rat \<Rightarrow> rat \<Rightarrow> rat \<Rightarrow> (rat \<times> rat) list \<Rightarrow> episode_row list \<Rightarrow> episode_row list result" where
  "eviction_loop ag cap days cadence lam c_min clocks rows =
     (if cadence \<le> 0 then Inl ValueError
      else bind_r (mk_EvictionPass ag cap days lam c_min) (\<lambda>p. Inr (eviction_rounds p clocks rows)))"


section \<open>The cap\<close>

lemma evictable_iff: "evictable ag r \<longleftrightarrow> ep_agent_id r = ag \<and> \<not> is_procedure r"
  by (auto simp: evictable_def is_procedure_def)

text \<open>A score is between 0 and 1, so a full weight on one axis never drowns the others.\<close>

lemma norm_unit:
  assumes "finite A" "x \<in> A" "Max A - Min A > (0 :: rat)"
  shows "0 \<le> (x - Min A) / (Max A - Min A)" "(x - Min A) / (Max A - Min A) \<le> 1"
  using assms Min_le[of A x] Max_ge[of A x] by (simp_all add: divide_le_eq)

lemma score_unit:
  assumes "r \<in> set rows" "\<And>r. r \<in> set rows \<Longrightarrow> 0 \<le> ep_importance r \<and> ep_importance r \<le> 1 \<and> 0 \<le> ep_access_count r"
  shows "0 \<le> hybrid_score rows r \<and> hybrid_score rows r \<le> 1"
proof -
  let ?C = "ep_created_at ` set rows" and ?A = "ep_access_count ` set rows"
  define rn where "rn = (if Max ?C - Min ?C > 0 then (ep_created_at r - Min ?C) / (Max ?C - Min ?C) else 1)"
  define an where "an = (if Max ?A > 0 then of_int (ep_access_count r) / of_int (Max ?A) else (0 :: rat))"
  have "0 \<le> rn \<and> rn \<le> 1" using norm_unit[of ?C "ep_created_at r"] assms(1) by (auto simp: rn_def)
  moreover have "ep_access_count r \<le> Max ?A" using assms(1) by (intro Max_ge) auto
  then have "0 \<le> an \<and> an \<le> 1" using assms(2)[OF assms(1)] by (auto simp: an_def divide_le_eq)
  moreover have "hybrid_score rows r = ep_importance r * (6/10) + rn * (3/10) + an * (1/10)"
    by (simp add: hybrid_score_def Let_def rn_def an_def W_IMPORTANCE_def W_RECENCY_def W_ACCESS_def)
  ultimately show ?thesis using assms(2)[OF assms(1)] by linarith
qed

lemma take_sort_le:
  assumes "x \<in> set (take k (sort_key f ys))" "y \<in> set (drop k (sort_key f ys))"
  shows "f x \<le> (f y :: 'k :: linorder)"
proof -
  have "sorted (map f (take k (sort_key f ys) @ drop k (sort_key f ys)))" by simp
  then show ?thesis using assms unfolding map_append sorted_append by auto
qed

definition rank_key :: "episode_row list \<Rightarrow> episode_row \<Rightarrow> rat \<times> rat" where
  "rank_key rows r = (hybrid_score rows r, ep_created_at r)"

lemma cap_victims_facts:
  assumes "distinct (map ep_id rows)" and e: "E = filter (evictable (ev_agent_id p)) rows"
  shows "set (cap_victims p rows) \<subseteq> ep_id ` set E" "distinct (cap_victims p rows)"
    "length (cap_victims p rows) = nat (int (length E) - ev_episodic_cap p) \<or> ev_episodic_cap p < 0"
    "v \<in> set E \<Longrightarrow> r \<in> set E \<Longrightarrow> ep_id v \<in> set (cap_victims p rows) \<Longrightarrow> ep_id r \<notin> set (cap_victims p rows) \<Longrightarrow> rank_key E v \<le> rank_key E r"
proof -
  define xs where "xs = sort_key snd (score_rows E)"
  define k where "k = nat (int (length E) - ev_episodic_cap p)"
  have cv: "cap_victims p rows = map fst (take k xs)"
    by (simp add: cap_victims_def count_evictable_def Let_def e xs_def k_def)
  have sx: "set xs = (\<lambda>r. (ep_id r, rank_key E r)) ` set E" by (auto simp: xs_def score_rows_def rank_key_def)
  have "mset (map fst xs) = mset (map ep_id E)" by (simp add: xs_def score_rows_def multiset.map_comp comp_def)
  moreover have dE: "distinct (map ep_id E)" using assms(1) by (simp add: e distinct_map_filter)
  ultimately have dx: "distinct (map fst xs)" by (metis mset_eq_imp_distinct_iff)
  show "set (cap_victims p rows) \<subseteq> ep_id ` set E"
    unfolding cv using sx set_take_subset[of k xs] by fastforce
  show "distinct (cap_victims p rows)" unfolding cv take_map[symmetric] using dx by (rule distinct_take)
  have "length xs = length E" by (simp add: xs_def score_rows_def)
  then show "length (cap_victims p rows) = nat (int (length E) - ev_episodic_cap p) \<or> ev_episodic_cap p < 0"
    unfolding cv by (auto simp: k_def)
  assume v: "v \<in> set E" "ep_id v \<in> set (cap_victims p rows)" and r: "r \<in> set E" "ep_id r \<notin> set (cap_victims p rows)"
  have inj: "inj_on ep_id (set E)" using dE by (simp add: distinct_map)
  have "(ep_id v, rank_key E v) \<in> set (take k xs)"
  proof -
    obtain x where x: "x \<in> set (take k xs)" "fst x = ep_id v" using v(2) unfolding cv by auto
    then have "x \<in> set xs" by (metis in_set_takeD)
    then obtain w where "w \<in> set E" "x = (ep_id w, rank_key E w)" using sx by auto
    with x v(1) inj show ?thesis by (auto dest: inj_onD)
  qed
  moreover have "(ep_id r, rank_key E r) \<in> set (drop k xs)"
  proof -
    have "(ep_id r, rank_key E r) \<in> set (take k xs @ drop k xs)" using r(1) sx by simp
    moreover have "(ep_id r, rank_key E r) \<notin> set (take k xs)" using r(2) unfolding cv by force
    ultimately show ?thesis unfolding set_append by blast
  qed
  ultimately show "rank_key E v \<le> rank_key E r" using take_sort_le[of _ k snd "score_rows E"] unfolding xs_def by fastforce
qed

lemma cap_pass:
  assumes "distinct (map ep_id rows)" "0 \<le> ev_episodic_cap p" "evict_size_cap p rows = (n, rows2)"
  defines "ag \<equiv> ev_agent_id p"
  shows "rows2 = filter (\<lambda>r. \<not> (evictable ag r \<and> ep_id r \<in> set (cap_victims p rows))) rows"
    "length rows2 + n = length rows" "int (count_evictable ag rows2) \<le> ev_episodic_cap p"
proof -
  define E where "E = filter (evictable ag) rows"
  note f = cap_victims_facts[OF assms(1) E_def[unfolded ag_def]]
  define V where "V = cap_victims p rows"
  have n: "n = length V" and r2: "rows2 = filter (\<lambda>r. \<not> (ep_agent_id r = ag \<and> ep_id r \<in> set V)) rows"
    using assms(3) by (auto simp: evict_size_cap_def Let_def V_def ag_def)
  have hit: "ep_agent_id r = ag \<and> ep_id r \<in> set V \<longleftrightarrow> evictable ag r \<and> ep_id r \<in> set V" if r: "r \<in> set rows" for r
  proof -
    have "evictable ag r" if iv: "ep_id r \<in> set V"
    proof -
      obtain w where "w \<in> set E" "ep_id w = ep_id r" using f(1) iv by (force simp: V_def)
      then show ?thesis using assms(1) r by (auto simp: E_def distinct_map dest: inj_onD)
    qed
    then show ?thesis by (auto simp: evictable_def)
  qed
  show r2': "rows2 = filter (\<lambda>r. \<not> (evictable ag r \<and> ep_id r \<in> set (cap_victims p rows))) rows"
    unfolding r2 by (rule filter_cong) (use hit in \<open>auto simp: V_def\<close>)
  have "filter (\<lambda>r. evictable ag r \<and> ep_id r \<in> set V) rows = filter (\<lambda>r. ep_id r \<in> set V) E" by (simp add: E_def conj_commute)
  moreover have "length (filter (\<lambda>r. ep_id r \<in> set V) E) = n"
  proof -
    have dE: "distinct (map ep_id E)" using assms(1) by (simp add: E_def distinct_map_filter)
    have "set (map ep_id (filter (\<lambda>r. ep_id r \<in> set V) E)) = set V" using f(1) by (auto simp: V_def)
    moreover have "distinct (map ep_id (filter (\<lambda>r. ep_id r \<in> set V) E))" using dE by (rule distinct_map_filter)
    ultimately have "length (map ep_id (filter (\<lambda>r. ep_id r \<in> set V) E)) = length V"
      using f(2) by (metis V_def distinct_card)
    then show ?thesis by (simp add: n)
  qed
  ultimately have gone: "length (filter (\<lambda>r. evictable ag r \<and> ep_id r \<in> set V) rows) = n" by simp
  then show "length rows2 + n = length rows"
    using sum_length_filter_compl[of "\<lambda>r. evictable ag r \<and> ep_id r \<in> set V" rows] unfolding r2' V_def by linarith
  have "count_evictable ag rows2 = length (filter (\<lambda>r. evictable ag r \<and> \<not> ep_id r \<in> set V) rows)"
    unfolding count_evictable_def r2' filter_filter V_def by (intro arg_cong[of _ _ length] filter_cong) auto
  moreover have "length E = n + length (filter (\<lambda>r. evictable ag r \<and> \<not> ep_id r \<in> set V) rows)"
    unfolding E_def using length_filter_split[of "evictable ag" rows "\<lambda>r. ep_id r \<in> set V"] gone by simp
  ultimately show "int (count_evictable ag rows2) \<le> ev_episodic_cap p"
    using f(3) assms(2) n unfolding V_def by linarith
qed


section \<open>Decay and recall agree\<close>

lemma decay_victims_eq:
  assumes "0 \<le> ev_lambda_per_day p"
  shows "decay_victims p now rows = Inr (map ep_id (filter (\<lambda>r. ep_agent_id r = ev_agent_id p \<and> is_procedure r \<and>
     worth (ev_lambda_per_day p) (base_of r) (now - anchor r) < of_rat (ev_c_min p)) rows))"
proof -
  let ?P = "\<lambda>r. ep_agent_id r = ev_agent_id p \<and> is_procedure r"
  let ?low = "\<lambda>r. worth (ev_lambda_per_day p) (base_of r) (now - anchor r) < of_rat (ev_c_min p)"
  have age: "worth lam c (max 0 t) = worth lam c t" for lam c t by (simp add: worth_def)
  have "mapM_r (\<lambda>r. bind_r (compute_decayed_confidence (base_of r) (max 0 (now - anchor r)) (ev_lambda_per_day p)) (\<lambda>d.
         Inr (if d < of_rat (ev_c_min p) then [ep_id r] else []))) xs = Inr (map (\<lambda>r. if ?low r then [ep_id r] else []) xs)" for xs
    by (induction xs) (simp_all add: decayed_worth[OF assms] age)
  then have "decay_victims p now rows = Inr (concat (map (\<lambda>r. if ?low r then [ep_id r] else []) (filter ?P rows)))"
    by (simp add: decay_victims_def)
  also have "concat (map (\<lambda>r. if ?low r then [ep_id r] else []) xs) = map ep_id (filter ?low xs)" for xs by (induction xs) auto
  finally show ?thesis by (simp add: conj_assoc)
qed

definition doomed :: "EvictionPass \<Rightarrow> rat \<Rightarrow> episode_row \<Rightarrow> bool" where
  "doomed p now r \<longleftrightarrow> ep_agent_id r = ev_agent_id p \<and> is_procedure r \<and>
     admitted now (ev_lambda_per_day p) (ev_c_min p) None r = None"

lemma doomed_worth: "doomed p now r \<longleftrightarrow> ep_agent_id r = ev_agent_id p \<and> is_procedure r \<and>
     worth (ev_lambda_per_day p) (base_of r) (now - anchor r) < of_rat (ev_c_min p)"
  by (simp add: doomed_def admitted_def Let_def)

lemma delete_decayed_rows:
  "snd (delete_decayed p now vs rows) = filter (\<lambda>r. \<not> (ep_agent_id r = ev_agent_id p \<and> ep_id r \<in> set vs \<and>
     (case ep_last_validated_at r of None \<Rightarrow> True | Some t \<Rightarrow> t < now))) rows"
  "length (snd (delete_decayed p now vs rows)) + fst (delete_decayed p now vs rows) = length rows"
proof -
  show "snd (delete_decayed p now vs rows) = filter (\<lambda>r. \<not> (ep_agent_id r = ev_agent_id p \<and> ep_id r \<in> set vs \<and>
     (case ep_last_validated_at r of None \<Rightarrow> True | Some t \<Rightarrow> t < now))) rows"
    by (simp add: delete_decayed_def Let_def)
  show "length (snd (delete_decayed p now vs rows)) + fst (delete_decayed p now vs rows) = length rows"
    using sum_length_filter_compl[of "\<lambda>r. ep_agent_id r = ev_agent_id p \<and> ep_id r \<in> set vs \<and>
     (case ep_last_validated_at r of None \<Rightarrow> True | Some t \<Rightarrow> t < now)" rows]
    by (simp only: delete_decayed_def Let_def split: if_split) simp
qed

lemma decay_pass:
  assumes "distinct (map ep_id rows)" "0 \<le> ev_lambda_per_day p" "evict_procedural_decay p now id rows = Inr (n, rows3)"
  shows "rows3 = filter (\<lambda>r. \<not> (doomed p now r \<and> (case ep_last_validated_at r of None \<Rightarrow> True | Some t \<Rightarrow> t < now))) rows" "length rows3 + n = length rows"
proof -
  let ?vs = "map ep_id (filter (doomed p now) rows)"
  have d: "delete_decayed p now ?vs rows = (n, rows3)"
    using assms(3) unfolding evict_procedural_decay_def decay_victims_eq[OF assms(2)] doomed_worth[symmetric] by simp
  have "ep_agent_id r = ev_agent_id p \<and> ep_id r \<in> set ?vs \<longleftrightarrow> doomed p now r" if "r \<in> set rows" for r
    using that assms(1) by (auto simp: distinct_map doomed_def dest: inj_onD)
  then show "rows3 = filter (\<lambda>r. \<not> (doomed p now r \<and> (case ep_last_validated_at r of None \<Rightarrow> True | Some t \<Rightarrow> t < now))) rows"
    using delete_decayed_rows(1)[of p now ?vs rows] unfolding d snd_conv by (auto intro!: filter_cong)
  show "length rows3 + n = length rows" using delete_decayed_rows(2)[of p now ?vs rows] unfolding d by simp
qed

text \<open>
  A procedure that is used again while the decay pass is between its read and its delete survives: whatever else was written
  in between, the delete removes no row whose validation stamp is at or after the pass's clock, none of another
  persona, and nothing but rows its read found. On an unchanged table the pass and a recall at the same moment
  agree on every procedure: it is a victim exactly when the recall would not admit it.
\<close>

lemma refreshed_survives_decay:
  assumes "0 \<le> ev_lambda_per_day p" "evict_procedural_decay p now between rows = Inr (n, rows3)"
  shows "(\<exists>vs. decay_victims p now rows = Inr vs \<and>
        set vs = ep_id ` {r \<in> set rows. doomed p now r} \<and>
        (\<forall>r \<in> set (between rows). (\<exists>t. ep_last_validated_at r = Some t \<and> now \<le> t) \<or> ep_agent_id r \<noteq> ev_agent_id p \<or>
           ep_id r \<notin> set vs \<longrightarrow> r \<in> set rows3)) \<and>
     set rows3 \<subseteq> set (between rows) \<and> length rows3 + n = length (between rows)"
proof -
  let ?vs = "map ep_id (filter (doomed p now) rows)"
  have vs: "decay_victims p now rows = Inr ?vs" unfolding decay_victims_eq[OF assms(1)] doomed_worth[symmetric] by simp
  have d: "delete_decayed p now ?vs (between rows) = (n, rows3)"
    using assms(2) unfolding evict_procedural_decay_def vs by simp
  note r = delete_decayed_rows[of p now ?vs "between rows", unfolded d fst_conv snd_conv]
  have "\<forall>r \<in> set (between rows). (\<exists>t. ep_last_validated_at r = Some t \<and> now \<le> t) \<or> ep_agent_id r \<noteq> ev_agent_id p \<or>
           ep_id r \<notin> set ?vs \<longrightarrow> r \<in> set rows3" unfolding r(1) by auto
  moreover have "set ?vs = ep_id ` {r \<in> set rows. doomed p now r}" by auto
  moreover have "set rows3 \<subseteq> set (between rows)" unfolding r(1) by auto
  ultimately show ?thesis using vs r(2) by blast
qed

text \<open>
  C27. After an eviction pass that no other write interrupts, the persona has at most the cap of ordinary episodes and the report says how many; the counts add up.
  Rows of other personas are as they were, and a procedure goes only when its decayed confidence is below the floor,
  never for its age, score or the cap. Every dropped episode either was past the age limit with an importance below the threshold, whatever its score, or ranks no higher than every
  ordinary episode that is left; so an episode that is recent or important goes only to the cap, and never while one it outscores stays.
\<close>

theorem eviction_pass_sound:
  assumes "mk_EvictionPass ag cap days lam c_min = Inr p" "0 \<le> lam" "distinct (map ep_id rows)"
    and "run_pass p now_ttl now_decay undisturbed rows = (Inr st, rows')"
  defines "old r \<equiv> ep_importance r < 3 / 10 \<and> ep_created_at r < now_ttl - of_int days * 86400"
  shows "total_after st = count_evictable ag rows' \<and> int (total_after st) \<le> cap \<and>
     length rows' + ttl_evicted st + cap_evicted st + procedural_evicted st = length rows \<and>
     filter (\<lambda>r. ep_agent_id r \<noteq> ag) rows' = filter (\<lambda>r. ep_agent_id r \<noteq> ag) rows \<and>
     (\<forall>r \<in> set rows. is_procedure r \<longrightarrow> r \<in> set rows' \<or> doomed p now_decay r) \<and>
     (let scored = filter (\<lambda>r. evictable ag r \<and> \<not> old r) rows
      in \<forall>v \<in> set rows. evictable ag v \<and> v \<notin> set rows' \<longrightarrow>
        old v \<or> (\<forall>r \<in> set rows'. evictable ag r \<longrightarrow> rank_key scored v \<le> rank_key scored r))"
proof -
  have p: "ev_agent_id p = ag" "ev_episodic_cap p = cap" "1 \<le> cap" "ev_ttl_seconds p = of_int days * 86400" "ev_lambda_per_day p = lam"
    using assms(1) by (auto simp: mk_EvictionPass_def split: if_splits)
  let ?old = "\<lambda>r. evictable ag r \<and> old r"
  define rows1 where "rows1 = filter (\<lambda>r. \<not> ?old r) rows"
  have ttl: "evict_ttl p now_ttl rows = (length (filter ?old rows), rows1)"
    by (simp add: evict_ttl_def p Let_def old_def rows1_def TTL_IMPORTANCE_THRESHOLD_def)
  obtain m rows2 where capE: "evict_size_cap p rows1 = (m, rows2)" by fastforce
  obtain n where dec: "evict_procedural_decay p now_decay id rows2 = Inr (n, rows')"
    and st: "st = \<lparr>ttl_evicted = length (filter ?old rows), cap_evicted = m, total_after = count_evictable ag rows', procedural_evicted = n\<rparr>"
    using assms(4) unfolding run_pass_def ttl id_apply prod.case Let_def capE by (auto simp: p split: sum.splits)
  have d1: "distinct (map ep_id rows1)" using assms(3) by (simp add: rows1_def distinct_map_filter)
  define E where "E = filter (evictable ag) rows1"
  note f = cap_victims_facts[OF d1 E_def[folded p(1)]]
  note c = cap_pass[OF d1 _ capE, unfolded p]
  have c1: "rows2 = filter (\<lambda>r. \<not> (evictable ag r \<and> ep_id r \<in> set (cap_victims p rows1))) rows1" using c(1) p(3) by simp
  have d2: "distinct (map ep_id rows2)" unfolding c1 using d1 by (rule distinct_map_filter)
  note x = decay_pass[OF d2 _ dec, unfolded p]
  have x1: "rows' = filter (\<lambda>r. \<not> (doomed p now_decay r \<and> (case ep_last_validated_at r of None \<Rightarrow> True | Some t \<Rightarrow> t < now_decay))) rows2"
    using x(1) assms(2) by simp
  have "count_evictable ag rows' = count_evictable ag rows2"
    unfolding count_evictable_def x1 filter_filter
    by (intro arg_cong[of _ _ length] filter_cong) (auto simp: doomed_def evictable_iff)
  then have total: "int (count_evictable ag rows') \<le> cap" using c(3) p(3) by simp
  have len: "length rows' + length (filter ?old rows) + m + n = length rows"
    using x(2) assms(2) c(2) p(3) sum_length_filter_compl[of ?old rows] by (simp add: rows1_def)
  have others: "filter (\<lambda>r. ep_agent_id r \<noteq> ag) rows' = filter (\<lambda>r. ep_agent_id r \<noteq> ag) rows"
    unfolding x1 c1 rows1_def filter_filter by (rule filter_cong) (auto simp: doomed_def evictable_def p)
  have procs: "r \<in> set rows' \<or> doomed p now_decay r" if "r \<in> set rows" "is_procedure r" for r
    using that by (auto simp: x1 c1 rows1_def evictable_iff)
  have ranked: "old v \<or> (\<forall>r \<in> set rows'. evictable ag r \<longrightarrow> rank_key E v \<le> rank_key E r)"
    if "v \<in> set rows" "evictable ag v" "v \<notin> set rows'" for v
  proof (cases "old v")
    case False
    then have v: "v \<in> set E" "ep_id v \<in> set (cap_victims p rows1)"
      using that by (auto simp: E_def x1 c1 rows1_def doomed_def evictable_iff)
    have "rank_key E v \<le> rank_key E r" if "r \<in> set rows'" "evictable ag r" for r
      using f(4)[OF v(1) _ v(2)] that by (auto simp: E_def x1 c1)
    then show ?thesis by blast
  qed simp
  moreover have "E = filter (\<lambda>r. evictable ag r \<and> \<not> old r) rows" unfolding E_def rows1_def filter_filter by (rule filter_cong) auto
  ultimately have "let scored = filter (\<lambda>r. evictable ag r \<and> \<not> old r) rows
      in \<forall>v \<in> set rows. evictable ag v \<and> v \<notin> set rows' \<longrightarrow>
        old v \<or> (\<forall>r \<in> set rows'. evictable ag r \<longrightarrow> rank_key scored v \<le> rank_key scored r)"
    unfolding Let_def by metis
  then show ?thesis using st total len others procs by simp
qed


section \<open>The properties on a sample table\<close>

definition tight_pass :: EvictionPass where
  "tight_pass = \<lparr>ev_agent_id = ''ada'', ev_episodic_cap = 1, ev_ttl_seconds = 86400, ev_lambda_per_day = 0, ev_c_min = 1/10\<rparr>"

definition crowded :: "episode_row list" where
  "crowded = ed_rows (snd with_procedure)"

lemma tight_rounds: "evict_ttl tight_pass 1000 crowded = (0, crowded)"
    "evict_size_cap tight_pass crowded = (1, filter (\<lambda>r. ep_id r \<noteq> ''1'') crowded)"
  by code_simp+

lemma tight_run: "\<exists>rows'. run_pass tight_pass 1000 1000 undisturbed crowded =
    (Inr \<lparr>ttl_evicted = 0, cap_evicted = 1, total_after = count_evictable ''ada'' rows', procedural_evicted = 0\<rparr>, rows')"
proof -
  let ?rows = "filter (\<lambda>r. ep_id r \<noteq> ''1'') crowded"
  have l: "0 \<le> ev_lambda_per_day tight_pass" by (simp add: tight_pass_def)
  have w: "worth 0 c t = of_rat (max 0 (min 1 c))" for c t by (simp add: worth_def)
  have "filter (\<lambda>r. ep_agent_id r = ''ada'' \<and> is_procedure r \<and> max 0 (min 1 (base_of r)) < 1/10) ?rows = []" by code_simp
  moreover have "(of_rat (max 0 (min 1 c)) < (of_rat (1/10) :: real)) = (max 0 (min 1 c) < 1/10)" for c by (simp only: of_rat_less)
  ultimately have "decay_victims tight_pass 1000 ?rows = Inr []"
    unfolding decay_victims_eq[OF l] by (simp add: tight_pass_def w)
  then have "evict_procedural_decay tight_pass 1000 id ?rows = Inr (0, ?rows)"
    by (simp add: evict_procedural_decay_def delete_decayed_def)
  moreover have "ev_agent_id tight_pass = ''ada''" by (simp add: tight_pass_def)
  ultimately show ?thesis unfolding run_pass_def id_apply tight_rounds Let_def prod.case by simp
qed

theorem eviction_pass_sound_witness:
  "\<exists>st rows'. run_pass tight_pass 1000 1000 undisturbed crowded = (Inr st, rows') \<and> cap_evicted st = 1 \<and> int (total_after st) \<le> 1 \<and>
     length rows' + 1 = length crowded"
proof -
  obtain rows' where r: "run_pass tight_pass 1000 1000 undisturbed crowded =
    (Inr \<lparr>ttl_evicted = 0, cap_evicted = 1, total_after = count_evictable ''ada'' rows', procedural_evicted = 0\<rparr>, rows')" using tight_run by blast
  have m: "mk_EvictionPass ''ada'' 1 1 0 (1/10) = Inr tight_pass" by (simp add: mk_EvictionPass_def tight_pass_def)
  have d: "distinct (map ep_id crowded)" by code_simp
  note e = eviction_pass_sound[OF m order.refl d r]
  show ?thesis using r e by (intro exI conjI) (assumption | simp)+
qed

theorem refreshed_survives_decay_witness:
  "\<exists>n rows3. evict_procedural_decay \<lparr>ev_agent_id = ''ada'', ev_episodic_cap = 1, ev_ttl_seconds = 86400, ev_lambda_per_day = 0, ev_c_min = 1\<rparr>
      200 (map (revalidated 200)) crowded = Inr (n, rows3) \<and> length rows3 + n = 3"
proof -
  let ?p = "\<lparr>ev_agent_id = ''ada'', ev_episodic_cap = 1, ev_ttl_seconds = 86400, ev_lambda_per_day = 0, ev_c_min = 1\<rparr>"
  have l: "0 \<le> ev_lambda_per_day ?p" by simp
  obtain n rows3 where e: "evict_procedural_decay ?p 200 (map (revalidated 200)) crowded = Inr (n, rows3)"
    unfolding evict_procedural_decay_def decay_victims_eq[OF l] by fastforce
  have "length crowded = 3" by code_simp
  then show ?thesis using refreshed_survives_decay[OF l e] e by auto
qed

end
