(* ===== verification/Fact_Extraction.thy ===== *)
theory Fact_Extraction
  imports Facts Relationships Interaction_Types Classification
begin

text \<open>
  Reading the answer of the closing summary: \<open>src/agents/persona_runtime/fact_envelope.py\<close> and \<open>fact_extractor.py\<close>. One model
  answer holds a summary, fact tuples and declassified restatements as one JSON object. The JSON reader and writer of the
  standard library are parameters on the value tree: \<open>loads\<close> gives \<open>None\<close> where it raises \<open>JSONDecodeError\<close>.
  The ids of new rows are drawn from a list.
\<close>


section \<open>The envelope\<close>

text \<open>\<open>FactsParseError\<close> with its \<open>reason\<close>.\<close>

datatype envelope_error = FactsParseError "string option"

definition FENCE :: string where "FENCE = [CHR 96, CHR 96, CHR 96]"

text \<open>\<open>inner[:inner.rfind(FENCE)]\<close>, or the whole text when there is none.\<close>

fun cut_at_fence :: "string \<Rightarrow> string option" where
  "cut_at_fence [] = None"
| "cut_at_fence (c # s) =
     (case cut_at_fence s of
        Some t \<Rightarrow> Some (c # t)
      | None \<Rightarrow> if take 3 (c # s) = FENCE then Some [] else None)"

definition strip_code_fence :: "string \<Rightarrow> string" where
  "strip_code_fence s =
     (if take 3 s \<noteq> FENCE then s
      else if CHR 10 \<notin> set s then s
      else let inner = tl (dropWhile (\<lambda>c. c \<noteq> CHR 10) s)
           in py_strip (case cut_at_fence inner of Some t \<Rightarrow> t | None \<Rightarrow> inner))"

definition split_combined_response ::
  "(string \<Rightarrow> pyval option) \<Rightarrow> (pyval \<Rightarrow> string) \<Rightarrow> string \<Rightarrow> envelope_error + (string \<times> string)" where
  "split_combined_response loads dumps raw =
     (let t = py_strip raw
      in if t = [] then Inl (FactsParseError None)
         else let body = strip_code_fence t
              in case loads body of
                   None \<Rightarrow> Inl (FactsParseError (if take 1 body \<in> {''{'', ''[''} then Some ''truncated'' else None))
                 | Some (PyDict env) \<Rightarrow>
                     (case map_of env ''summary'' of
                        Some (PyStr summary) \<Rightarrow> Inr (summary, dumps (py_get_or env ''facts'' (PyList [])))
                      | _ \<Rightarrow> Inl (FactsParseError (Some ''missing_summary'')))
                 | Some _ \<Rightarrow> Inl (FactsParseError (Some ''invalid_envelope'')))"

definition extract_projections :: "(string \<Rightarrow> pyval option) \<Rightarrow> string \<Rightarrow> string list \<Rightarrow> (string \<times> string) list" where
  "extract_projections loads raw levels =
     (case loads (strip_code_fence (py_strip raw)) of
        Some (PyDict env) \<Rightarrow>
          (case py_get env ''projections'' of
             PyDict ps \<Rightarrow>
               List.map_filter (\<lambda>level. case py_get ps level of
                   PyStr v \<Rightarrow> if py_strip v = [] then None else Some (level, py_strip v)
                 | _ \<Rightarrow> None) levels
           | _ \<Rightarrow> [])
      | _ \<Rightarrow> [])"

definition parse_facts_payload :: "(string \<Rightarrow> pyval option) \<Rightarrow> string \<Rightarrow> envelope_error + pydict list" where
  "parse_facts_payload loads raw =
     (let t = py_strip raw
      in if t = [] then Inl (FactsParseError None)
         else case loads t of
           Some (PyList items) \<Rightarrow>
             if list_all (\<lambda>i. case i of PyDict _ \<Rightarrow> True | _ \<Rightarrow> False) items
             then Inr (map (\<lambda>i. case i of PyDict d \<Rightarrow> d | _ \<Rightarrow> []) items) else Inl (FactsParseError None)
         | _ \<Rightarrow> Inl (FactsParseError None))"


section \<open>One tuple\<close>

definition required_str :: "pydict \<Rightarrow> string \<Rightarrow> string result" where
  "required_str raw key =
     (case map_of raw key of
        None \<Rightarrow> Inl KeyError
      | Some (PyStr s) \<Rightarrow> if py_strip s = [] then Inl ValueError else Inr s
      | Some _ \<Rightarrow> Inl ValueError)"

definition tuple_subject :: "pydict \<Rightarrow> string option \<Rightarrow> string option \<Rightarrow> string result" where
  "tuple_subject raw sender canonical_sender =
     bind_r (required_str raw ''subject'') (\<lambda>s.
     bind_r (canonicalize_subject s) (\<lambda>c.
       Inr (if sender \<noteq> None \<and> canonical_sender = Some c then the canonical_sender else c)))"

definition normalise_predicate :: "pydict \<Rightarrow> string result" where
  "normalise_predicate raw =
     bind_r (required_str raw ''predicate'') (\<lambda>p.
       let q = py_lower (py_strip p) in bind_r (validate_predicate q) (\<lambda>_. Inr q))"

definition coerce_certainty :: "pydict \<Rightarrow> rat result" where
  "coerce_certainty raw =
     (case map_of raw ''certainty'' of
        None \<Rightarrow> Inr 1
      | Some v \<Rightarrow>
          bind_r (case v of
                    PyInt i \<Rightarrow> (case float_of_int i of None \<Rightarrow> Inl OverflowError | Some x \<Rightarrow> Inr (Fin x))
                  | PyFloat f \<Rightarrow> Inr f
                  | _ \<Rightarrow> Inl ValueError)
            (\<lambda>f. case f of Fin x \<Rightarrow> if 0 \<le> x \<and> x \<le> 1 then Inr x else Inl ValueError | _ \<Rightarrow> Inl ValueError))"

record extracted =
  xt_subject :: string
  xt_predicate :: string
  xt_object :: string
  xt_certainty :: rat

definition extract_tuple :: "string option \<Rightarrow> string option \<Rightarrow> pydict \<Rightarrow> extracted result" where
  "extract_tuple sender canonical_sender raw =
     bind_r (tuple_subject raw sender canonical_sender) (\<lambda>s.
     bind_r (normalise_predicate raw) (\<lambda>p.
     bind_r (required_str raw ''object'') (\<lambda>ob.
     bind_r (coerce_certainty raw) (\<lambda>c.
       Inr \<lparr>xt_subject = s, xt_predicate = p, xt_object = ob, xt_certainty = c\<rparr>))))"


section \<open>The batch\<close>

record batch_source =
  bs_interaction_id :: string
  bs_asserted_at :: rat
  bs_session :: string
  bs_sender :: "string option"
  bs_level :: "string option"
  bs_channel :: "string option"
  bs_speaker :: "string option"
  bs_principal :: "string option"

definition args_of :: "batch_source \<Rightarrow> extracted \<Rightarrow> fact_args" where
  "args_of b x =
     \<lparr>fa_subject = xt_subject x, fa_predicate = xt_predicate x, fa_object = xt_object x,
      fa_source = Some (bs_interaction_id b), fa_asserted_at = bs_asserted_at b, fa_certainty = Fin (xt_certainty x),
      fa_session = bs_session b, fa_protection = normalize_for_stamp (bs_level b), fa_channel = bs_channel b,
      fa_speaker = bs_speaker b, fa_principal = bs_principal b\<rparr>"

text \<open>
  The loop over the tuples: how many were stored and how many refused, or the exception that leaves it, with the table as
  it is then. Only the caught kinds count as refusals.
\<close>

fun store_tuples ::
  "FactStore \<Rightarrow> ambient \<Rightarrow> batch_source \<Rightarrow> string option \<Rightarrow> string option \<Rightarrow> string list \<Rightarrow> pydict list \<Rightarrow> nat \<Rightarrow> nat \<Rightarrow> fact_db \<Rightarrow>
   (nat \<times> nat) result \<times> fact_db" where
  "store_tuples st a b sender canon ids [] stored failures db = (Inr (stored, failures), db)"
| "store_tuples st a b sender canon ids (raw # raws) stored failures db =
     (case extract_tuple sender canon raw of
        Inl e \<Rightarrow> if e \<in> {ValueError, KeyError, TypeError}
                then store_tuples st a b sender canon ids raws stored (failures + 1) db else (Inl e, db)
      | Inr x \<Rightarrow>
          (case store_fact st a (hd (ids @ [[]])) (args_of b x) db of
             (Inl e, db') \<Rightarrow> if e = ValueError then store_tuples st a b sender canon ids raws stored (failures + 1) db' else (Inl e, db')
           | (Inr _, db') \<Rightarrow> store_tuples st a b sender canon (tl ids) raws (stored + 1) failures db'))"

definition canonical_sender_of :: "string option \<Rightarrow> string option" where
  "canonical_sender_of sender =
     (case sender of None \<Rightarrow> None | Some s \<Rightarrow> (case canonicalize_subject s of Inr c \<Rightarrow> Some c | Inl _ \<Rightarrow> None))"

definition sender_of :: "batch_source \<Rightarrow> string option" where
  "sender_of b = (case bs_sender b of None \<Rightarrow> None | Some s \<Rightarrow> if py_strip s = [] then None else Some (py_strip s))"

definition store_extracted_facts ::
  "FactStore \<Rightarrow> ambient \<Rightarrow> batch_source \<Rightarrow> string list \<Rightarrow> pydict list \<Rightarrow> fact_db \<Rightarrow> (nat \<times> nat) result \<times> fact_db" where
  "store_extracted_facts st a b ids facts db =
     store_tuples st a b (sender_of b) (canonical_sender_of (sender_of b)) ids facts 0 0 db"

definition source_of :: "Interaction \<Rightarrow> string \<Rightarrow> batch_source" where
  "source_of i session_id =
     (let sp = (if i_speaker_id i = [] then None else Some (i_speaker_id i))
      in \<lparr>bs_interaction_id = i_interaction_id i,
          bs_asserted_at = (case i_closed_at i of Some t \<Rightarrow> if t = 0 then i_started_at i else t | None \<Rightarrow> i_started_at i),
          bs_session = session_id, bs_sender = sp, bs_level = i_classification i, bs_channel = i_source_channel_id i,
          bs_speaker = sp, bs_principal = Some (i_principal_id i)\<rparr>)"

text \<open>The dispatch counts its failures and never raises.\<close>

definition dispatch_facts_from_response ::
  "(string \<Rightarrow> pyval option) \<Rightarrow> FactStore \<Rightarrow> ambient \<Rightarrow> string list \<Rightarrow> string \<Rightarrow> Interaction \<Rightarrow> string \<Rightarrow> fact_db \<Rightarrow> nat \<times> fact_db" where
  "dispatch_facts_from_response loads st a ids facts_raw i session_id db =
     (case parse_facts_payload loads facts_raw of
        Inl _ \<Rightarrow> (1, db)
      | Inr facts \<Rightarrow>
          (case store_extracted_facts st a (source_of i session_id) ids facts db of
             (Inr (_, failures), db') \<Rightarrow> (failures, db')
           | (Inl _, db') \<Rightarrow> (0, db')))"


section \<open>What a batch writes\<close>

text \<open>A row that carries the record it was extracted from, whatever scope the close runs in.\<close>

definition carries :: "FactStore \<Rightarrow> ambient \<Rightarrow> batch_source \<Rightarrow> fact_row \<Rightarrow> bool" where
  "carries st a b r \<longleftrightarrow>
     fc_agent_id r = fs_agent_id st \<and> fc_source r = fold_blank (Some (bs_interaction_id b)) \<and> fc_asserted_at r = bs_asserted_at b \<and>
     fc_session_id r = normalize_session_id (Some (bs_session b)) \<and>
     fc_principal_id r = resolve_write_principal a (bs_principal b) (ts_principal (fs_snapshot st)) \<and>
     fc_epoch_id r = resolve_active_epoch a (ts_epoch (fs_snapshot st)) \<and>
     fc_protection_level r = normalize_for_stamp (bs_level b) \<and> fc_source_channel_id r = bs_channel b"

lemma carries_sweep [simp]: "carries st a b (sweep n r) = carries st a b r"
  by (simp add: carries_def sweep_def)

lemma carries_superseded [simp]: "carries st a b (r\<lparr>fc_superseded_by := d\<rparr>) = carries st a b r"
  by (simp add: carries_def)

lemma fact_of_carries: "fact_of st a i (args_of b x) = Inr r \<Longrightarrow> carries st a b r"
  by (auto simp: fact_of_def carries_def args_of_def bind_r_Inr_iff split: if_splits)

lemma keeps_trans:
  assumes "keeps r r'" "keeps r' r''" shows "keeps r r''"
proof -
  obtain t d t' d' where "r' = r\<lparr>fc_last_recalled_at := t, fc_superseded_by := d\<rparr>" "r'' = r'\<lparr>fc_last_recalled_at := t', fc_superseded_by := d'\<rparr>"
    using assms unfolding keeps_def by blast
  then have "r'' = r\<lparr>fc_last_recalled_at := t', fc_superseded_by := d'\<rparr>" by simp
  then have "r'' = r\<lparr>fc_last_recalled_at := fc_last_recalled_at r'', fc_superseded_by := fc_superseded_by r''\<rparr>" by simp
  moreover have "live r'' \<longrightarrow> live r" using assms unfolding keeps_def by blast
  ultimately show ?thesis unfolding keeps_def by blast
qed

text \<open>What becomes of the old rows, and how many new ones there are.\<close>

definition extends :: "FactStore \<Rightarrow> ambient \<Rightarrow> batch_source \<Rightarrow> nat \<Rightarrow> fact_row list \<Rightarrow> fact_row list \<Rightarrow> bool" where
  "extends st a b n rows rows' \<longleftrightarrow> distinct (map fc_id rows') \<and> (\<exists>olds news. rows' = olds @ news \<and> list_all2 keeps rows olds \<and>
     list_all (carries st a b) news \<and> length news = n)"

lemma extends_refl: "distinct (map fc_id rows) \<Longrightarrow> extends st a b 0 rows rows"
  by (auto simp: extends_def intro!: exI[of _ rows] exI[of _ "[]"] list_all2_refl)

lemma extends_store:
  assumes "extends st a b n rows (fd_rows db)" "fst (store_fact st a i (args_of b x) db) = Inr j"
  shows "extends st a b (n + 1) rows (fd_rows (snd (store_fact st a i (args_of b x) db)))"
proof -
  have d: "distinct (map fc_id (fd_rows db))" using assms(1) by (simp add: extends_def)
  then show ?thesis
  proof (cases rule: insert_fact_cases[where st = st and a = a and i = i and x = "args_of b x"])
    case (refused e)
    then show ?thesis using assms(2) by simp
  next
    case (stored r)
    obtain olds news where on: "fd_rows db = olds @ news" "list_all2 keeps rows olds" "list_all (carries st a b) news" "length news = n"
      using assms(1) by (auto simp: extends_def)
    let ?news = "map (sweep r) news @ [r\<lparr>fc_superseded_by := dominator r (fd_rows db)\<rparr>]"
    have "list_all2 keeps rows (map (sweep r) olds)"
      unfolding list_all2_map2 using on(2) by (rule list_all2_mono) (rule keeps_trans, assumption, rule sweep_keeps)
    moreover have "list_all (carries st a b) ?news" using on(3) fact_of_carries[OF stored(1)] by (simp add: list.pred_map comp_def)
    moreover have "distinct (map fc_id (fd_rows (snd (store_fact st a i (args_of b x) db))))"
    proof -
      have sw: "map fc_id (map (sweep r) (fd_rows db)) = map fc_id (fd_rows db)" by (simp add: sweep_def)
      show ?thesis unfolding stored(6) map_append sw using d stored(2,4) by simp
    qed
    moreover have "fd_rows (snd (store_fact st a i (args_of b x) db)) = map (sweep r) olds @ ?news"
      unfolding stored(6) using on(1) by simp
    moreover have "length ?news = n + 1" using on(4) by simp
    ultimately show ?thesis unfolding extends_def by blast
  qed
qed

lemma store_tuples_outcome:
  assumes "extends st a b stored rows (fd_rows db)"
  shows "case store_tuples st a b sender canon ids raws stored failures db of
      (Inr (s, f), db') \<Rightarrow> extends st a b s rows (fd_rows db') \<and> s + f = stored + failures + length raws
    | (Inl e, db') \<Rightarrow> (\<exists>s. extends st a b s rows (fd_rows db'))"
  using assms
proof (induction raws arbitrary: ids stored failures db)
  case Nil
  then show ?case by simp
next
  case (Cons raw raws)
  note ih = Cons.IH and ex = Cons.prems
  show ?case
  proof (cases "extract_tuple sender canon raw")
    case (Inl e)
    then show ?thesis using ih[OF ex, where ids = ids and failures = "failures + 1"] ex by (auto split: prod.splits sum.splits)
  next
    case (Inr x)
    obtain out db1 where sf: "store_fact st a (hd (ids @ [[]])) (args_of b x) db = (out, db1)" by fastforce
    show ?thesis
    proof (cases out)
      case out: (Inl e)
      have same: "fd_rows db1 = fd_rows db" using sf out
        by (auto simp: store_fact_def insert_fact_def Let_def split: if_splits sum.splits)
      have "extends st a b stored rows (fd_rows db1)" using ex same by simp
      then show ?thesis using ih[where stored = stored and db = db1 and ids = ids and failures = "failures + 1"] Inr sf out by (auto split: prod.splits sum.splits)
    next
      case out: (Inr j)
      have "extends st a b (stored + 1) rows (fd_rows db1)"
        using extends_store[OF ex, of "hd (ids @ [[]])" x] sf out by simp
      then show ?thesis using ih[where stored = "stored + 1" and db = db1 and ids = "tl ids" and failures = failures] Inr sf out by (auto split: prod.splits sum.splits)
    qed
  qed
qed

lemma store_extracted_outcome:
  assumes "distinct (map fc_id (fd_rows db))"
  shows "case store_extracted_facts st a b ids facts db of
      (Inr (s, f), db') \<Rightarrow> extends st a b s (fd_rows db) (fd_rows db') \<and> s + f = length facts
    | (Inl e, db') \<Rightarrow> (\<exists>s. extends st a b s (fd_rows db) (fd_rows db'))"
  unfolding store_extracted_facts_def by (rule store_tuples_outcome[OF extends_refl[OF assms], where failures = 0, unfolded add_0])

text \<open>
  Every fact a close extracts carries the record it came from: its interaction, tenant, session, room, level and time, whatever
  request the close happens to run in and whatever the model wrote. The facts already on file keep their place and what
  they say; at most their supersession changes. The restatements kept for weaker rooms are at the levels asked for,
  each strictly below the record's own.
\<close>

lemma facts_carry_the_record:
  assumes "distinct (map fc_id (fd_rows db))"
    and "dispatch_facts_from_response loads st a ids facts_raw i session db = (n, db')"
    and "levels_below_stamp (i_classification i) = Inr levels"
  shows "(\<exists>olds news. fd_rows db' = olds @ news \<and> list_all2 keeps (fd_rows db) olds \<and>
      (\<forall>r \<in> set news. fc_source r = fold_blank (Some (i_interaction_id i)) \<and> fc_session_id r = normalize_session_id (Some session) \<and>
        fc_principal_id r = normalize_principal_id (Some (i_principal_id i)) \<and>
        fc_protection_level r = normalize_for_stamp (i_classification i) \<and> fc_source_channel_id r = i_source_channel_id i)) \<and>
     (\<forall>(level, t) \<in> set (extract_projections loads raw levels). level \<in> set levels \<and> t \<noteq> [] \<and>
        (\<exists>r own. entry_rank_or_withhold (Some level) = Some r \<and> rank_for_stamp (i_classification i) = Inr own \<and> r < own))"
proof (rule conjI)
  let ?b = "source_of i session"
  have "\<exists>k. extends st a ?b k (fd_rows db) (fd_rows db')"
  proof (cases "parse_facts_payload loads facts_raw")
    case (Inl e)
    then show ?thesis using assms(2) extends_refl[OF assms(1)] by (auto simp: dispatch_facts_from_response_def)
  next
    case (Inr facts)
    obtain out db1 where so: "store_extracted_facts st a ?b ids facts db = (out, db1)" by fastforce
    then have "db' = db1" using assms(2) Inr by (auto simp: dispatch_facts_from_response_def split: sum.splits)
    with so show ?thesis
      using store_extracted_outcome[OF assms(1), where st = st and a = a and b = ?b and ids = ids and facts = facts] by (auto split: sum.splits prod.splits)
  qed
  then obtain olds news where on: "fd_rows db' = olds @ news" "list_all2 keeps (fd_rows db) olds" "list_all (carries st a ?b) news"
    by (auto simp: extends_def)
  have "fc_source r = fold_blank (Some (i_interaction_id i)) \<and> fc_session_id r = normalize_session_id (Some session) \<and>
        fc_principal_id r = normalize_principal_id (Some (i_principal_id i)) \<and>
        fc_protection_level r = normalize_for_stamp (i_classification i) \<and> fc_source_channel_id r = i_source_channel_id i"
    if "r \<in> set news" for r
    using on(3) that by (auto simp: list_all_iff carries_def source_of_def Let_def resolve_write_principal_def)
  with on show "\<exists>olds news. fd_rows db' = olds @ news \<and> list_all2 keeps (fd_rows db) olds \<and>
      (\<forall>r \<in> set news. fc_source r = fold_blank (Some (i_interaction_id i)) \<and> fc_session_id r = normalize_session_id (Some session) \<and>
        fc_principal_id r = normalize_principal_id (Some (i_principal_id i)) \<and>
        fc_protection_level r = normalize_for_stamp (i_classification i) \<and> fc_source_channel_id r = i_source_channel_id i)" by blast
next
  have "\<exists>r own. entry_rank_or_withhold (Some level) = Some r \<and> rank_for_stamp (i_classification i) = Inr own \<and> r < own" if "level \<in> set levels" for level
    using levels_below_stamp_eq[of "i_classification i"] assms(3) that stamp.rank_ok[of "i_classification i"]
    by (auto simp: entry_rank_eq less_level_def)
  moreover have "level \<in> set levels \<and> t \<noteq> []" if "(level, t) \<in> set (extract_projections loads raw levels)" for level t
    using that by (auto simp: extract_projections_def List.map_filter_def split: option.splits pyval.splits if_splits)
  ultimately show "\<forall>(level, t) \<in> set (extract_projections loads raw levels). level \<in> set levels \<and> t \<noteq> [] \<and>
        (\<exists>r own. entry_rank_or_withhold (Some level) = Some r \<and> rank_for_stamp (i_classification i) = Inr own \<and> r < own)" by blast
qed


section \<open>One bad tuple drops only itself\<close>

text \<open>A tuple on its own is good when it is read and the store would take it.\<close>

definition good_tuple :: "FactStore \<Rightarrow> ambient \<Rightarrow> batch_source \<Rightarrow> string option \<Rightarrow> string option \<Rightarrow> pydict \<Rightarrow> bool" where
  "good_tuple st a b sender canon raw =
     (case extract_tuple sender canon raw of
        Inl _ \<Rightarrow> False
      | Inr x \<Rightarrow> (case fact_of st a [] (args_of b x) of Inr _ \<Rightarrow> True | Inl _ \<Rightarrow> False))"

text \<open>A certainty written as an integer too large for a float is the one value the loop does not catch.\<close>

definition floatable :: "pydict \<Rightarrow> bool" where
  "floatable raw = (case map_of raw ''certainty'' of Some (PyInt i) \<Rightarrow> float_of_int i \<noteq> None | _ \<Rightarrow> True)"

lemma canonicalize_error: "canonicalize_subject s = Inl e \<Longrightarrow> e = ValueError"
  by (auto simp: canonicalize_subject_def Let_def split: if_splits)

lemma extract_error:
  assumes "extract_tuple sender canon raw = Inl e" "floatable raw"
  shows "e = ValueError \<or> e = KeyError"
proof -
  have rs: "required_str raw k = Inl e \<Longrightarrow> e = ValueError \<or> e = KeyError" for k e
    by (auto simp: required_str_def split: option.splits pyval.splits if_splits)
  have vp: "validate_predicate q = Inl e \<Longrightarrow> e = ValueError" for q e by (auto simp: validate_predicate_def split: if_splits)
  have cc: "coerce_certainty raw = Inl e \<Longrightarrow> e = ValueError" for e
    using assms(2) by (auto simp: coerce_certainty_def floatable_def bind_r_def split: option.splits pyval.splits pyfloat.splits if_splits sum.splits)
  show ?thesis
    using assms(1) rs vp cc canonicalize_error
    unfolding extract_tuple_def tuple_subject_def normalise_predicate_def Let_def bind_r_def
    by (auto split: sum.splits)
qed

lemma fact_of_id: "(\<exists>r. fact_of st a i x = Inr r) \<longleftrightarrow> (\<exists>r. fact_of st a j x = Inr r)"
  by (auto simp: fact_of_def bind_r_Inr_iff)

lemma fact_of_error:
  assumes "fact_of st a i x = Inl e" "fs_validator st = validate_predicate"
  shows "e = ValueError"
  using assms canonicalize_error
  by (auto simp: fact_of_def bind_r_def checked_certainty_def validate_predicate_def validate_object_def validate_subject_def Let_def
      split: if_splits sum.splits pyfloat.splits)


lemma store_fact_good:
  assumes "fs_ready st" "fact_of st a i x = Inr r" "i \<notin> fc_id ` set (fd_rows db)" "distinct (map fc_id (fd_rows db))"
  shows "\<exists>db'. store_fact st a i x db = (Inr i, db') \<and> map fc_id (fd_rows db') = map fc_id (fd_rows db) @ [i]"
  using assms(4)
proof (cases rule: insert_fact_cases[where st = st and a = a and i = i and x = x])
  case (refused e)
  then show ?thesis using assms(1-3) by (simp add: store_fact_def insert_fact_def Let_def)
next
  case (stored r')
  have sw: "map fc_id (map (sweep r') (fd_rows db)) = map fc_id (fd_rows db)" by (simp add: sweep_def)
  have "map fc_id (fd_rows (snd (store_fact st a i x db))) = map fc_id (fd_rows db) @ [i]"
    unfolding stored(6) map_append sw using stored(2) by simp
  then show ?thesis using stored(5) by (metis prod.collapse)
qed

lemma store_tuples_good:
  assumes "fs_ready st" "fs_validator st = validate_predicate" "list_all floatable raws" "distinct ids"
    "set ids \<inter> fc_id ` set (fd_rows db) = {}" "length raws \<le> length ids" "distinct (map fc_id (fd_rows db))"
  shows "fst (store_tuples st a b sender canon ids raws stored failures db) =
     Inr (stored + length (filter (good_tuple st a b sender canon) raws), failures + length (filter (\<lambda>r. \<not> good_tuple st a b sender canon r) raws))"
  using assms(3-)
proof (induction raws arbitrary: ids stored failures db)
  case Nil
  then show ?case by simp
next
  case (Cons raw raws)
  then obtain i rest where ids: "ids = i # rest" by (cases ids) auto
  have fl: "floatable raw" "list_all floatable raws" using Cons.prems(1) by simp_all
  show ?case
  proof (cases "extract_tuple sender canon raw")
    case (Inl e)
    then have "e \<in> {ValueError, KeyError, TypeError}" using extract_error[OF Inl fl(1)] by auto
    moreover have "\<not> good_tuple st a b sender canon raw" using Inl by (simp add: good_tuple_def)
    ultimately show ?thesis using Inl Cons.IH[OF fl(2) Cons.prems(2,3) _ Cons.prems(5)] Cons.prems(4) by simp
  next
    case (Inr x)
    show ?thesis
    proof (cases "fact_of st a i (args_of b x)")
      case bad: (Inl e)
      have "e = ValueError" using fact_of_error[OF bad assms(2)] .
      then have sf: "store_fact st a i (args_of b x) db = (Inl ValueError, db)"
        using bad assms(1) by (simp add: store_fact_def insert_fact_def)
      have "\<not> good_tuple st a b sender canon raw"
        using Inr bad fact_of_id[of st a i "args_of b x" "[]"] by (auto simp: good_tuple_def split: sum.splits)
      then show ?thesis using Inr sf Cons.IH[OF fl(2) Cons.prems(2,3) _ Cons.prems(5)] Cons.prems(4) ids by simp
    next
      case ok: (Inr r)
      have "i \<notin> fc_id ` set (fd_rows db)" using Cons.prems(3) ids by auto
      from store_fact_good[OF assms(1) ok this Cons.prems(5)]
      obtain db1 where db1: "store_fact st a i (args_of b x) db = (Inr i, db1)" "map fc_id (fd_rows db1) = map fc_id (fd_rows db) @ [i]" by blast
      have st1: "fc_id ` set (fd_rows db1) = insert i (fc_id ` set (fd_rows db))" using arg_cong[OF db1(2), of set] by simp
      have "good_tuple st a b sender canon raw"
        using Inr ok fact_of_id[of st a i "args_of b x" "[]"] by (auto simp: good_tuple_def split: sum.splits)
      moreover have "set rest \<inter> fc_id ` set (fd_rows db1) = {}" "distinct rest" "length raws \<le> length rest" "distinct (map fc_id (fd_rows db1))"
        using Cons.prems ids st1 db1(2) by auto
      ultimately show ?thesis using Inr db1(1) Cons.IH[OF fl(2), of rest db1] ids by simp
    qed
  qed
qed

text \<open>
  One bad tuple drops only itself. With an open store, fresh ids and no certainty beyond the float range, a batch runs to its
  end whatever else the model wrote: exactly the tuples that are good on their own are stored, every other one is
  counted as a failure once, and the two add up to the batch.
\<close>

lemma bad_tuple_drops_itself:
  assumes "fs_ready st" "fs_validator st = validate_predicate" "list_all floatable facts" "distinct ids"
    "set ids \<inter> fc_id ` set (fd_rows db) = {}" "length facts \<le> length ids" "distinct (map fc_id (fd_rows db))"
  shows "\<exists>s f db'. store_extracted_facts st a b ids facts db = (Inr (s, f), db') \<and> s + f = length facts \<and>
     s = length (filter (good_tuple st a b (sender_of b) (canonical_sender_of (sender_of b))) facts) \<and>
     (\<forall>r \<in> set (fd_rows db'). fc_id r \<in> fc_id ` set (fd_rows db) \<or> carries st a b r) \<and>
     length (fd_rows db') = length (fd_rows db) + s"
proof -
  let ?g = "good_tuple st a b (sender_of b) (canonical_sender_of (sender_of b))"
  let ?s = "length (filter ?g facts)" and ?f = "length (filter (\<lambda>r. \<not> ?g r) facts)"
  obtain db' where e: "store_extracted_facts st a b ids facts db = (Inr (?s, ?f), db')"
    using store_tuples_good[OF assms, of a b "sender_of b" "canonical_sender_of (sender_of b)" 0 0] unfolding store_extracted_facts_def
    by (metis add_0 prod.collapse)
  have ex: "extends st a b ?s (fd_rows db) (fd_rows db')" "?s + ?f = length facts"
    using store_extracted_outcome[OF assms(7), where st = st and a = a and b = b and ids = ids and facts = facts] unfolding e by simp_all
  then obtain olds news where on: "fd_rows db' = olds @ news" "list_all2 keeps (fd_rows db) olds" "list_all (carries st a b) news" "length news = ?s"
    by (auto simp: extends_def)
  have "map fc_id olds = map fc_id (fd_rows db)"
    using on(2) by (induction rule: list_all2_induct) (auto dest: keeps_sel(1))
  then have "fc_id ` set olds = fc_id ` set (fd_rows db)" by (metis list.set_map)
  then have "\<forall>r \<in> set (fd_rows db'). fc_id r \<in> fc_id ` set (fd_rows db) \<or> carries st a b r"
    using on by (auto simp: list_all_iff)
  moreover have "length (fd_rows db') = length (fd_rows db) + ?s" using on list_all2_lengthD[OF on(2)] by simp
  ultimately show ?thesis using e ex(2) by blast
qed



section \<open>A fence around the answer changes nothing\<close>

lemma cut_at_last_fence: "cut_at_fence (u @ FENCE) = Some u"
proof (induction u)
  case Nil
  show ?case by code_simp
qed simp

lemma py_strip_line: "py_strip (t @ [CHR 10]) = py_strip t"
proof -
  have sp: "py_isspace (CHR 10)" by code_simp
  show ?thesis
  proof (cases "dropWhile py_isspace t = []")
    case True
    then have e: "dropWhile py_isspace (t @ [CHR 10]) = []" using sp by (auto simp: dropWhile_eq_Nil_conv)
    show ?thesis unfolding py_strip_def True e ..
  next
    case False
    then have e: "dropWhile py_isspace (t @ [CHR 10]) = dropWhile py_isspace t @ [CHR 10]" by (auto simp: dropWhile_append dropWhile_eq_Nil_conv)
    show ?thesis unfolding py_strip_def e rev_append using sp by simp
  qed
qed

text \<open>
  A model that wraps its answer in a Markdown code fence, with or without a language name, is read exactly as one that does
  not: the same summary, facts, restatements and errors, for every answer that is not itself a fence.
\<close>

lemma fenced_answer_is_plain:
  assumes "py_strip t = t" "take 3 t \<noteq> FENCE" "CHR 10 \<notin> set lang"
  defines "fenced \<equiv> FENCE @ lang @ [CHR 10] @ t @ [CHR 10] @ FENCE"
  shows "(t \<noteq> [] \<longrightarrow> split_combined_response loads dumps fenced = split_combined_response loads dumps t) \<and>
     extract_projections loads fenced levels = extract_projections loads t levels"
proof -
  have nl: "CHR 10 \<notin> set (FENCE @ lang)" using assms(3) by (simp add: FENCE_def)
  have "dropWhile (\<lambda>c. c \<noteq> CHR 10) (u @ [CHR 10] @ w) = [CHR 10] @ w" if "CHR 10 \<notin> set u" for u w
    using that by (induction u) auto
  from this[OF nl, of "t @ [CHR 10] @ FENCE"] have inner: "tl (dropWhile (\<lambda>c. c \<noteq> CHR 10) fenced) = t @ [CHR 10] @ FENCE"
    by (simp add: fenced_def)
  have cut: "cut_at_fence (t @ [CHR 10] @ FENCE) = Some (t @ [CHR 10])" using cut_at_last_fence[of "t @ [CHR 10]"] by simp
  have "take 3 fenced = FENCE" "CHR 10 \<in> set fenced" by (simp_all add: fenced_def FENCE_def)
  then have f: "strip_code_fence fenced = t"
    unfolding strip_code_fence_def inner Let_def cut option.case py_strip_line assms(1) by simp
  have p: "strip_code_fence t = t" using assms(2) by (simp add: strip_code_fence_def)
  have "\<not> py_isspace (CHR 96)" by code_simp
  then have s: "py_strip fenced = fenced" "fenced \<noteq> []" by (simp_all add: py_strip_def fenced_def FENCE_def)
  show ?thesis
    unfolding split_combined_response_def extract_projections_def Let_def s(1) f p assms(1) using s(2) by simp
qed


section \<open>The properties on a sample answer\<close>

definition told :: "string \<Rightarrow> pyval \<Rightarrow> pydict" where
  "told ob c = [(''subject'', PyStr ''Bo''), (''predicate'', PyStr ''Has_Name''), (''object'', PyStr ob), (''certainty'', c)]"

definition talk :: Interaction where
  "talk = \<lparr>i_interaction_id = ''x1'', i_scope = ''room'', i_started_at = 5, i_turns = [], i_closed_at = Some 9, i_close_reason = ''idle'',
     i_structural_close_reason = [], i_wire_interaction_id = [], i_predecessor_wire_id = [], i_session_id = ''s1'', i_principal_id = ''pat'',
     i_speaker_id = ''bo'', i_epoch_id = [], i_replayed = False, i_replay_attributed = False, i_replay_window_complete = False,
     i_classification = Some ''restricted'', i_source_channel_id = Some ''c1'', i_meter_close_summary = False\<rparr>"

definition reader :: "string \<Rightarrow> pyval option" where
  "reader s = (if s = ''F'' then Some (PyList [PyDict (told ''Bo'' (PyInt 1)), PyDict [], PyDict (told ''Bob'' (PyFloat (Fin (1/2))))]) else None)"

theorem facts_carry_the_record_witness:
  "\<exists>n db'. dispatch_facts_from_response reader (fact_store ''ada'') fact_ambient [''f1'', ''f2'', ''f3''] ''F'' talk ''s1'' no_facts = (n, db') \<and>
     n = 1 \<and> map fc_principal_id (fd_rows db') = [''pat'', ''pat''] \<and> length (fd_rows db') = 2"
proof -
  let ?d = "dispatch_facts_from_response reader (fact_store ''ada'') fact_ambient [''f1'', ''f2'', ''f3''] ''F'' talk ''s1'' no_facts"
  have n: "fst ?d = 1" and l: "length (fd_rows (snd ?d)) = 2" by code_simp+
  have d: "distinct (map fc_id (fd_rows no_facts))" "fd_rows no_facts = []" by code_simp+
  have lv: "levels_below_stamp (i_classification talk) = Inr [''public'', ''internal'']" by code_simp
  have e: "?d = (fst ?d, snd ?d)" by simp
  from facts_carry_the_record[OF d(1) e lv, where raw = "[]"]
  obtain olds news where on: "fd_rows (snd ?d) = olds @ news" "list_all2 keeps (fd_rows no_facts) olds"
    "\<forall>r \<in> set news. fc_principal_id r = normalize_principal_id (Some (i_principal_id talk))" by blast
  have "olds = []" using on(2) d(2) by simp
  moreover have "normalize_principal_id (Some (i_principal_id talk)) = ''pat''" by code_simp
  ultimately have "map fc_principal_id (fd_rows (snd ?d)) = map (\<lambda>_. ''pat'') (fd_rows (snd ?d))" using on(1,3) by simp
  also have "\<dots> = [''pat'', ''pat'']" using l by (simp add: map_replicate_const numeral_2_eq_2)
  finally show ?thesis using n l by (intro exI[of _ "fst ?d"] exI[of _ "snd ?d"] conjI e)
qed

theorem bad_tuple_drops_itself_witness:
  "\<exists>db'. store_extracted_facts (fact_store ''ada'') fact_ambient (source_of talk ''s1'') [''f1'', ''f2'']
      [told ''Bo'' (PyInt 7), told ''Bo'' (PyInt 1)] no_facts = (Inr (1, 1), db')"
proof -
  let ?fs = "[told ''Bo'' (PyInt 7), told ''Bo'' (PyInt 1)]" and ?b = "source_of talk ''s1''"
  have "fs_ready (fact_store ''ada'')" by code_simp
  moreover have "fs_validator (fact_store ''ada'') = validate_predicate" by (simp add: fact_store_def mk_FactStore_def)
  moreover have "list_all floatable ?fs" "distinct [''f1'', ''f2'']" "set [''f1'', ''f2''] \<inter> fc_id ` set (fd_rows no_facts) = {}"
    "length ?fs \<le> length [''f1'', ''f2'']" "distinct (map fc_id (fd_rows no_facts))" by code_simp+
  ultimately obtain s f db' where r: "store_extracted_facts (fact_store ''ada'') fact_ambient ?b [''f1'', ''f2''] ?fs no_facts = (Inr (s, f), db')"
    "s + f = length ?fs" "s = length (filter (good_tuple (fact_store ''ada'') fact_ambient ?b (sender_of ?b) (canonical_sender_of (sender_of ?b))) ?fs)"
    using bad_tuple_drops_itself[of "fact_store ''ada''" ?fs "[''f1'', ''f2'']" no_facts fact_ambient ?b] by blast
  have "length (filter (good_tuple (fact_store ''ada'') fact_ambient ?b (sender_of ?b) (canonical_sender_of (sender_of ?b))) ?fs) = 1" by code_simp
  then show ?thesis using r by simp
qed

theorem fenced_answer_is_plain_witness:
  "split_combined_response (\<lambda>s. if s = ''J'' then Some (PyDict [(''summary'', PyStr ''ok'')]) else None) (\<lambda>_. ''[]'')
     (FENCE @ ''json'' @ [CHR 10] @ ''J'' @ [CHR 10] @ FENCE) = Inr (''ok'', ''[]'')"
proof -
  let ?l = "\<lambda>s. if s = ''J'' then Some (PyDict [(''summary'', PyStr ''ok'')]) else None"
  have "py_strip ''J'' = ''J''" "take 3 ''J'' \<noteq> FENCE" "CHR 10 \<notin> set ''json''" by code_simp+
  then have "split_combined_response ?l (\<lambda>_. ''[]'') (FENCE @ ''json'' @ [CHR 10] @ ''J'' @ [CHR 10] @ FENCE) = split_combined_response ?l (\<lambda>_. ''[]'') ''J''"
    using fenced_answer_is_plain[of "''J''" "''json''" ?l "\<lambda>_. ''[]''"] by blast
  also have "\<dots> = Inr (''ok'', ''[]'')" by code_simp
  finally show ?thesis .
qed

lemma bit_length_pow: "bit_length (2 ^ n) = Suc n"
  by (induction n) (simp_all add: bit_length.simps)

lemma huge_int: "float_of_int (2 ^ 1024) = None"
  using bit_length_pow[of 1024] by (simp add: float_of_int_def Let_def)

text \<open>The value the loop does not catch: the tuple after it is lost, and no failure is counted.\<close>

lemma huge_certainty_drops_rest:
  assumes "float_of_int i = None" "py_strip ob \<noteq> []"
  shows "store_extracted_facts st a b ids (told ob (PyInt i) # rest) db = (Inl OverflowError, db)"
proof -
  have "canonicalize_subject ''Bo'' = Inr ''bo''" "validate_predicate (py_lower (py_strip ''Has_Name'')) = Inr ()"
    "py_strip ''Has_Name'' \<noteq> []" "py_strip ''Bo'' \<noteq> []" by code_simp+
  then show ?thesis
    using assms by (simp add: store_extracted_facts_def extract_tuple_def tuple_subject_def normalise_predicate_def required_str_def
        coerce_certainty_def told_def Let_def)
qed

end
