(* ===== verification/Py_Text.thy ===== *)
theory Py_Text
  imports Scope_Ids
begin

text \<open>
  Texts that the runtime builds: decimal numbers, \<open>str\<close> of a value, and UTF-8. The text \<open>str\<close> gives a float, a list or a dictionary is
  an argument.
\<close>


section \<open>Building\<close>

fun nat_text :: "nat \<Rightarrow> string" where
  "nat_text n = (if n < 10 then [char_of (48 + n)] else nat_text (n div 10) @ [char_of (48 + n mod 10)])"

declare nat_text.simps [simp del]

definition int_text :: "int \<Rightarrow> string" where
  "int_text i = (if i < 0 then ''-'' @ nat_text (nat (- i)) else nat_text (nat i))"

definition str_text :: "(pyval \<Rightarrow> string) \<Rightarrow> pyval \<Rightarrow> string" where
  "str_text shown v =
     (case v of PyStr s \<Rightarrow> s | PyNone \<Rightarrow> ''None'' | PyBool b \<Rightarrow> if b then ''True'' else ''False'' | PyInt i \<Rightarrow> int_text i | _ \<Rightarrow> shown v)"

text \<open>\<open>s.encode("utf-8")\<close> for the code points of the model's strings.\<close>

definition utf8_char :: "char \<Rightarrow> string" where
  "utf8_char c =
     (let n = of_char c :: nat in if n < 128 then [c] else [char_of (192 + n div 64), char_of (128 + n mod 64)])"

definition utf8 :: "string \<Rightarrow> string" where
  "utf8 s = concat (map utf8_char s)"


section \<open>Numbers and bytes can be read back\<close>

definition digits_of :: "string \<Rightarrow> nat" where
  "digits_of s = foldl (\<lambda>v c. v * 10 + (of_char c - 48)) 0 s"

lemma nat_text_value: "digits_of (nat_text n) = n"
proof (induction n rule: nat_text.induct)
  case (1 n)
  show ?case
  proof (cases "n < 10")
    case True
    then show ?thesis by (simp add: nat_text.simps[of n] digits_of_def of_char_of)
  next
    case False
    then have "digits_of (nat_text n) = digits_of (nat_text (n div 10)) * 10 + n mod 10"
      by (simp add: nat_text.simps[of n] digits_of_def of_char_of)
    then show ?thesis using 1[OF False] by simp
  qed
qed

lemma nat_text_digits: "c \<in> set (nat_text n) \<Longrightarrow> 48 \<le> (of_char c :: nat) \<and> (of_char c :: nat) \<le> 57"
proof (induction n rule: nat_text.induct)
  case (1 n)
  show ?case
  proof (cases "n < 10")
    case True
    then show ?thesis using 1(2) by (simp add: nat_text.simps[of n] of_char_of)
  next
    case False
    then have "c \<in> set (nat_text (n div 10)) \<or> c = char_of (48 + n mod 10)" using 1(2) by (auto simp: nat_text.simps[of n])
    moreover have "48 + n mod 10 < 58" by simp
    ultimately show ?thesis using 1(1)[OF False] by (auto simp: of_char_of)
  qed
qed

lemma nat_text_no_colon: "CHR '':'' \<notin> set (nat_text n)"
  using nat_text_digits[of "CHR '':''" n] by auto

lemma utf8_Cons: "utf8 (c # s) = utf8_char c @ utf8 s" by (simp add: utf8_def)

lemma utf8_char_cases:
  obtains "(of_char c :: nat) < 128" "utf8_char c = [c]"
  | "128 \<le> (of_char c :: nat)" "(of_char c :: nat) < 256" "utf8_char c = [char_of (192 + of_char c div 64 :: nat), char_of (128 + of_char c mod 64 :: nat)]"
proof (cases "(of_char c :: nat) < 128")
  case True
  then show ?thesis using that(1) by (simp add: utf8_char_def Let_def)
next
  case False
  have "(of_char c :: nat) < 256" by (rule nat_of_char_less_256)
  then show ?thesis using that(2) False by (simp add: utf8_char_def Let_def)
qed

lemma utf8_char_prefix:
  assumes "utf8_char c @ s = utf8_char d @ t" shows "c = d \<and> s = t"
proof -
  have lead: "192 \<le> (of_char (char_of (192 + of_char x div 64 :: nat)) :: nat) \<and>
              of_char (char_of (192 + of_char x div 64 :: nat)) = (192 + of_char x div 64 :: nat) \<and>
              of_char (char_of (128 + of_char x mod 64 :: nat)) = (128 + of_char x mod 64 :: nat)" if "(of_char x :: nat) < 256" for x
  proof -
    have "(of_char x :: nat) div 64 < 4" using that less_mult_imp_div_less[of "of_char x" 4 64] by simp
    moreover have "(of_char x :: nat) mod 64 < 64" by simp
    ultimately show ?thesis by (simp add: of_char_of)
  qed
  show ?thesis
  proof (cases c rule: utf8_char_cases)
    case c: 1
    show ?thesis
    proof (cases d rule: utf8_char_cases)
      case 1
      then show ?thesis using assms c by simp
    next
      case 2
      then have "c = char_of (192 + of_char d div 64 :: nat)" using assms c by simp
      then show ?thesis using c(1) lead[OF 2(2)] by simp
    qed
  next
    case c: 2
    show ?thesis
    proof (cases d rule: utf8_char_cases)
      case 1
      then have "d = char_of (192 + of_char c div 64 :: nat)" using assms c by simp
      then show ?thesis using 1(1) lead[OF c(2)] by simp
    next
      case 2
      then have e: "char_of (192 + of_char c div 64 :: nat) = char_of (192 + of_char d div 64 :: nat)"
          "char_of (128 + of_char c mod 64 :: nat) = char_of (128 + of_char d mod 64 :: nat)" "s = t" using assms c by simp_all
      have "(of_char c :: nat) div 64 = of_char d div 64"
        using arg_cong[OF e(1), of "of_char :: char \<Rightarrow> nat"] lead[OF c(2)] lead[OF 2(2)] by simp
      moreover have "(of_char c :: nat) mod 64 = of_char d mod 64"
        using arg_cong[OF e(2), of "of_char :: char \<Rightarrow> nat"] lead[OF c(2)] lead[OF 2(2)] by simp
      ultimately have "(of_char c :: nat) = of_char d" by (metis div_mult_mod_eq)
      then show ?thesis using e(3) by simp
    qed
  qed
qed

lemma utf8_inj: "utf8 s = utf8 t \<Longrightarrow> s = t"
proof (induction s arbitrary: t)
  case Nil
  then show ?case by (cases t) (auto simp: utf8_Cons utf8_def utf8_char_def Let_def split: if_splits)
next
  case (Cons c s)
  then obtain d u where t: "t = d # u" by (cases t) (auto simp: utf8_Cons utf8_def utf8_char_def Let_def split: if_splits)
  then show ?case using Cons utf8_char_prefix[of c "utf8 s" d "utf8 u"] by (auto simp: utf8_Cons)
qed

lemma length_utf8: "length (utf8 s) = utf8_length s"
  by (induction s) (auto simp: utf8_def utf8_length_def utf8_char_def Let_def)

lemma takeWhile_colon: "takeWhile (\<lambda>c. c \<noteq> CHR '':'') (nat_text n @ '':'' @ s) = nat_text n"
proof -
  have "takeWhile (\<lambda>c. c \<noteq> CHR '':'') (u @ '':'' @ s) = u" if "CHR '':'' \<notin> set u" for u using that by (induction u) auto
  then show ?thesis using nat_text_no_colon by blast
qed

lemma nat_text_nonempty: "nat_text n \<noteq> []"
  by (subst nat_text.simps) simp

end
