(* ===== verification/Close_Path.thy ===== *)
theory Close_Path
  imports Py_Text Episodes Fact_Extraction Projections Working_Memory
begin

text \<open>
  What closing a record means: \<open>src/agents/persona_runtime/close_path.py\<close>, \<open>close_entries.py\<close>, \<open>replay_identity.py\<close>,
  \<open>record_write_scope.py\<close>, \<open>record_close.py\<close>, \<open>summarize_close.py\<close> and \<open>finalize_close.py\<close>.

  A closed record is written in two phases: a pending row at once, then, outside the lock, the summary, the facts, the restatements,
  the relationship and the reflection counter. SHA-256 and the JSON functions are parameters, as are the text \<open>str\<close> gives
  a value that is not a string, the prompt snippets and the answer of the model. Statements that may raise
  are arguments that say whether they do.
\<close>


section \<open>The turns of a record\<close>

definition ROOM_CLOSE_TURN_KEY :: string where "ROOM_CLOSE_TURN_KEY = ''room_close''"
definition LIVE_DUPLICATE_TURN_KEY :: string where "LIVE_DUPLICATE_TURN_KEY = ''live_duplicate''"
definition TRANSIENT_TURN_KEYS :: "string list" where "TRANSIENT_TURN_KEYS = [''text'', ''message_id'']"

definition is_foreign_room_close_turn :: "(pyval \<Rightarrow> string) \<Rightarrow> pydict \<Rightarrow> string \<Rightarrow> bool" where
  "is_foreign_room_close_turn shown pl speaker_id =
     (if \<not> is_true (py_get pl ROOM_CLOSE_TURN_KEY) then False
      else py_strip (str_text shown (py_get_or pl ''sender'' (PyStr []))) \<noteq> speaker_id)"

definition own_turn_items :: "(pyval \<Rightarrow> string) \<Rightarrow> Interaction \<Rightarrow> (nat \<times> Turn) list" where
  "own_turn_items shown i =
     filter (\<lambda>(idx, t). \<not> is_foreign_room_close_turn shown (turn_payload t) (i_speaker_id i) \<and>
                        \<not> truthy (py_get (turn_payload t) LIVE_DUPLICATE_TURN_KEY))
       (enumerate 1 (i_turns i))"

definition content_parts :: "(pyval \<Rightarrow> string) \<Rightarrow> pydict \<Rightarrow> string list" where
  "content_parts shown p =
     (let vals = filter (\<lambda>v. v \<noteq> []) (map (\<lambda>k. py_strip (str_text shown (py_get_or p k (PyStr [])))) [''text'', ''summary'']);
          sender = py_strip (str_text shown (py_get_or p ''sender'' (PyStr [])));
          parts = vals @ (if sender = [] then [] else [''sender='' @ sender])
      in if parts = [] then [''event_type='' @ str_text shown (py_get_or p ''event_type'' (PyStr ''unknown''))] else parts)"

definition interaction_to_entries :: "(pyval \<Rightarrow> string) \<Rightarrow> Interaction \<Rightarrow> MemoryEntry list" where
  "interaction_to_entries shown i =
     map (\<lambda>(idx, t). \<lparr>en_id = ''turn-'' @ nat_text idx, en_content = join '' | '' (content_parts shown (turn_payload t)),
                      en_importance = of_nat idx / of_nat (max (turn_count i) 1)\<rparr>) (own_turn_items shown i)"


section \<open>The identity of a replayed span\<close>

definition REPLAY_INTERACTION_ID_PREFIX :: string where "REPLAY_INTERACTION_ID_PREFIX = ''replay-''"

definition join_components :: "string list \<Rightarrow> string" where
  "join_components parts = concat (map (\<lambda>p. nat_text (length (utf8 p)) @ '':'' @ utf8 p) parts)"

definition replay_span_identity ::
  "(string \<Rightarrow> string) \<Rightarrow> Interaction \<Rightarrow> string \<Rightarrow> string \<Rightarrow> string \<Rightarrow> string list \<Rightarrow> string option" where
  "replay_span_identity sha256 i agent_id epoch_id protection_level message_ids =
     (if message_ids = [] \<or> \<not> list_all (\<lambda>m. m \<noteq> []) message_ids then None
      else Some (REPLAY_INTERACTION_ID_PREFIX @ sha256 (join_components
        ([agent_id, epoch_id, i_session_id i, protection_level, i_principal_id i, i_speaker_id i, i_scope i] @ message_ids))))"

text \<open>Which of the two statements of the guard go through.\<close>

record guard_faults =
  lookup_ok :: bool
  clear_ok :: bool

definition replay_span_already_derived ::
  "(string \<Rightarrow> string) \<Rightarrow> guard_faults \<Rightarrow> EpisodicMemory \<Rightarrow> ambient \<Rightarrow> Interaction \<Rightarrow> string \<Rightarrow> string \<Rightarrow> string list \<Rightarrow> episode_db \<Rightarrow>
   bool \<times> Interaction \<times> episode_db" where
  "replay_span_already_derived sha256 faults m a i agent_id protection_level message_ids db =
     (case replay_span_identity sha256 i agent_id
             (if i_epoch_id i \<noteq> [] then i_epoch_id i else resolve_active_epoch a (ts_epoch (em_snapshot m)))
             protection_level message_ids of
        None \<Rightarrow> (False, i, db)
      | Some identity \<Rightarrow>
          if \<not> (em_ready m \<and> lookup_ok faults) then (False, i, db)
          else let i' = i\<lparr>i_interaction_id := identity\<rparr>
               in if episode_exists_for_interaction (em_agent_id m) identity db then (True, i', db)
                  else (False, i', if clear_ok faults then snd (clear_failed_episode_for_interaction (em_agent_id m) identity db) else db))"


section \<open>Phase 1\<close>

definition record_write_scopes :: "Interaction \<Rightarrow> ambient \<Rightarrow> ambient" where
  "record_write_scopes i a =
     (let a1 = a\<lparr>active_principal := Some (normalize_principal_id (Some (i_principal_id i)))\<rparr>
      in if i_epoch_id i \<noteq> [] then a1\<lparr>active_epoch := Some (normalize_epoch_id (Some (i_epoch_id i)))\<rparr> else a1)"

definition persisted_payload :: "pydict \<Rightarrow> pydict" where
  "persisted_payload p = filter (\<lambda>(k, v). k \<notin> set TRANSIENT_TURN_KEYS) p"

definition close_context :: "(pyval \<Rightarrow> string) \<Rightarrow> Interaction \<Rightarrow> pydict" where
  "close_context shown i =
     (let own = own_turn_items shown i
      in [(''scope'', PyStr (i_scope i)), (''close_reason'', PyStr (i_close_reason i)), (''turn_count'', PyInt (int (length own))),
          (''governance_interaction_id'', PyStr (i_wire_interaction_id i)),
          (''turns'', PyList (map (\<lambda>(_, t). PyDict [(''at'', PyFloat (Fin (turn_at t))), (''payload'', PyDict (persisted_payload (turn_payload t)))]) own))])"

definition close_args :: "(pyval \<Rightarrow> string) \<Rightarrow> (pyval \<Rightarrow> string) \<Rightarrow> Interaction \<Rightarrow> string \<Rightarrow> episode_args" where
  "close_args shown dumps i protection_level =
     \<lparr>ea_summary = SUMMARY_PENDING_TEXT, ea_context_json = dumps (PyDict (close_context shown i)), ea_outcome = None, ea_importance = Fin (1/2),
      ea_tags = None, ea_interaction_id = Some (i_interaction_id i), ea_started_at = Some (i_started_at i), ea_closed_at = i_closed_at i,
      ea_turn_count = Some (int (length (own_turn_items shown i))), ea_scope = Some (i_scope i),
      ea_governance_id = (if i_wire_interaction_id i = [] then None else Some (i_wire_interaction_id i)),
      ea_session = i_session_id i, ea_surface = ''episode'', ea_protection = protection_level, ea_channel = i_source_channel_id i,
      ea_speaker = (if i_speaker_id i = [] then None else Some (i_speaker_id i)), ea_principal = Some (i_principal_id i)\<rparr>"

definition message_ids_of :: "(pyval \<Rightarrow> string) \<Rightarrow> Interaction \<Rightarrow> string list" where
  "message_ids_of shown i =
     map (\<lambda>t. let v = py_get (turn_payload t) ''message_id'' in if truthy v then str_text shown v else []) (i_turns i)"

text \<open>The record as it then is, the table, and whether the second phase is started.\<close>

definition persist_closed_interaction ::
  "(pyval \<Rightarrow> string) \<Rightarrow> (pyval \<Rightarrow> string) \<Rightarrow> (string \<Rightarrow> string) \<Rightarrow> guard_faults \<Rightarrow> EpisodicMemory \<Rightarrow> ambient \<Rightarrow> rat \<Rightarrow> string \<Rightarrow>
   Interaction \<Rightarrow> episode_db \<Rightarrow> bool \<times> Interaction \<times> episode_db" where
  "persist_closed_interaction shown dumps sha256 faults m a now new_id i db =
     (if turn_count i = 0 then (False, i, db)
      else if i_replayed i \<and> \<not> i_replay_attributed i then (False, i, db)
      else if i_replayed i \<and> \<not> i_replay_window_complete i then (False, i, db)
      else if own_turn_items shown i = [] then (False, i, db)
      else let level = normalize_for_stamp (i_classification i);
               (already, i1, db1) =
                 (if i_replayed i then replay_span_already_derived sha256 faults m a i (em_agent_id m) level (message_ids_of shown i) db
                  else (False, i, db))
           in if already then (False, i1, db1)
              else case store_episode m (record_write_scopes i1 a) now new_id (close_args shown dumps i1 level) db1 of
                     (Inl _, db2) \<Rightarrow> (False, i1, db2)
                   | (Inr _, db2) \<Rightarrow> (True, i1, db2))"


section \<open>The summary\<close>

definition SUMMARIZATION_TARGET_TOKENS :: int where "SUMMARIZATION_TARGET_TOKENS = 2000"

datatype close_call = Call_Unresolvable | Call_Timeout | Call_Denied | Call_Error | Call_Text "string option"

type_synonym close_summary = "string \<times> bool \<times> string option \<times> (string \<times> string) list"

definition summary_failed :: close_summary where "summary_failed = (SUMMARY_UNAVAILABLE_TEXT, True, None, [])"

definition projection_levels :: "Interaction \<Rightarrow> string list result" where
  "projection_levels i =
     bind_r (rank_for_stamp (i_classification i)) (\<lambda>own.
     bind_r (rank_index CLASSIFICATION_INTERNAL) (\<lambda>internal.
       if own \<le> internal then Inr [] else levels_below_stamp (i_classification i)))"

definition read_answer ::
  "(string \<Rightarrow> pyval option) \<Rightarrow> (pyval \<Rightarrow> string) \<Rightarrow> string list \<Rightarrow> string option \<Rightarrow> close_summary" where
  "read_answer loads dumps requested answer =
     (let t = py_strip (case answer of None \<Rightarrow> [] | Some s \<Rightarrow> s)
      in if t = [] then summary_failed
         else case split_combined_response loads dumps t of
                Inl (FactsParseError reason) \<Rightarrow> if reason = None then (t, False, None, []) else summary_failed
              | Inr (summary, facts_raw) \<Rightarrow>
                  if py_strip summary = [] then summary_failed
                  else (summary, False, Some facts_raw, if requested = [] then [] else extract_projections loads t requested))"

text \<open>The prompt, with the snippets and the rendering of the restatement request as arguments; the request may fail to render.\<close>

record prompt_snippets =
  sn_summarizer :: string
  sn_suffix :: string
  sn_projection :: "string \<Rightarrow> string list \<Rightarrow> string option"

definition build_summarization_prompt :: "prompt_snippets \<Rightarrow> Interaction \<Rightarrow> CompressedView \<Rightarrow> nat \<Rightarrow> string result" where
  "build_summarization_prompt sn i view shown_turns =
     bind_r (projection_levels i) (\<lambda>levels.
       Inr (sn_summarizer sn @ [CHR 10, CHR 10] @ ''Scope: '' @ i_scope i @ [CHR 10] @ ''Turns: '' @ nat_text shown_turns @ [CHR 10] @
         (if i_close_reason i = REASON_SHUTDOWN then [] else ''Close reason: '' @ i_close_reason i @ [CHR 10]) @
         ''Tokens (before compression / after): '' @ int_text (cv_tokens_before view) @ '' / '' @ int_text (cv_tokens_after view) @ [CHR 10] @
         ''Entries dropped during compression: '' @ int_text (cv_entries_dropped view) @ [CHR 10, CHR 10] @
         ''Compressed turns:'' @ [CHR 10] @ cv_summary view @ [CHR 10] @ sn_suffix sn @
         (if levels = [] then []
          else case sn_projection sn (normalize_for_stamp (i_classification i)) levels of
                 None \<Rightarrow> [] | Some t \<Rightarrow> [CHR 10] @ t @ [CHR 10])))"

text \<open>The wallet lease of the call: the agent and the interaction it is billed to.\<close>

definition close_lease :: "string \<Rightarrow> Interaction \<Rightarrow> (string \<times> string) option" where
  "close_lease agent_id i =
     (if i_meter_close_summary i \<and> i_wire_interaction_id i \<noteq> [] then Some (agent_id, i_wire_interaction_id i) else None)"

definition placeholder :: "Interaction \<Rightarrow> string \<Rightarrow> string \<Rightarrow> string" where
  "placeholder i n rest =
     ''Multi-turn interaction (scope='' @ i_scope i @ '', turns='' @ n @ '', reason='' @ i_close_reason i @ ''): '' @ rest"

definition summarize_closed_interaction ::
  "(pyval \<Rightarrow> string) \<Rightarrow> (string \<Rightarrow> pyval option) \<Rightarrow> (pyval \<Rightarrow> string) \<Rightarrow> prompt_snippets \<Rightarrow>
   (string \<Rightarrow> (string \<times> string) option \<Rightarrow> close_call) \<Rightarrow> string \<Rightarrow> Interaction \<Rightarrow> close_summary result" where
  "summarize_closed_interaction shown loads dumps sn llm agent_id i =
     (let p = turn_payload (hd (i_turns i));
          single = py_strip (str_text shown (py_get_or p ''summary'' (PyStr [])));
          entries = interaction_to_entries shown i
      in if turn_count i = 1 \<and> single \<noteq> [] \<and> py_strip (str_text shown (py_get_or p ''text'' (PyStr []))) = [] \<and> own_turn_items shown i \<noteq> []
         then Inr (placeholder i ''1'' (''first['' @ single @ ''] last['' @ single @ '']''), False, None, [])
         else if entries = []
         then Inr (placeholder i (nat_text (turn_count i)) (''no content attributable to this record'' @ [CHR 39] @ ''s speaker''), False, None, [])
         else bind_r (compress_entries entries SUMMARIZATION_TARGET_TOKENS) (\<lambda>view.
              bind_r (build_summarization_prompt sn i view (length entries)) (\<lambda>prompt.
              bind_r (projection_levels i) (\<lambda>requested.
                Inr (case llm prompt (close_lease agent_id i) of
                       Call_Text answer \<Rightarrow> read_answer loads dumps requested answer
                     | _ \<Rightarrow> summary_failed)))))"


section \<open>Phase 2\<close>

definition RECORD_INTERACTION_OUTCOME_CHARS :: nat where "RECORD_INTERACTION_OUTCOME_CHARS = 200"

definition extract_peer_from_interaction :: "string \<Rightarrow> Interaction \<Rightarrow> string option \<times> string" where
  "extract_peer_from_interaction agent_id i =
     (let body = drop 3 (i_scope i); a = takeWhile (\<lambda>c. c \<noteq> CHR '':'') body; b = drop (Suc (length a)) body
      in if CHR '':'' \<notin> set body then (None, ''agent'')
         else let peer = (if a = agent_id then Some b else if b = agent_id then Some a else None)
              in if peer = None \<or> peer = Some agent_id then (None, ''agent'')
                 else (peer,
                       case i_turns i of [] \<Rightarrow> ''agent''
                       | t # _ \<Rightarrow> (case py_get (turn_payload t) ''participant_type'' of
                                     PyStr s \<Rightarrow> if s \<in> {''agent'', ''user''} then s else ''agent'' | _ \<Rightarrow> ''agent'')))"

definition record_closed_interaction ::
  "RelationshipMemory \<Rightarrow> ambient \<Rightarrow> rat \<Rightarrow> string \<Rightarrow> string \<Rightarrow> Interaction \<Rightarrow> string \<Rightarrow> bool \<Rightarrow> string \<Rightarrow> rel_db \<Rightarrow> rel_db" where
  "record_closed_interaction rm a now new_id agent_id i summary failed session_id db =
     (if take 3 (i_scope i) \<noteq> ''dm:'' then db
      else if i_replayed i then db
      else case extract_peer_from_interaction agent_id i of
        (Some peer, ptype) \<Rightarrow>
          if peer = [] \<or> \<not> rm_ready rm then db
          else let s = py_strip summary;
                   outcome = (if failed \<or> s = [] then None else Some (take RECORD_INTERACTION_OUTCOME_CHARS s))
               in snd (record_interaction (tier_key rm a peer ''agent'' ptype) now new_id ''conversation'' outcome (Fin 0) session_id db)
      | _ \<Rightarrow> db)"

record close_world =
  cw_episodes :: episode_db
  cw_facts :: fact_db
  cw_projections :: "projection_row list"
  cw_relations :: rel_db
  cw_state :: agent_states
  cw_extraction_failed :: nat

record close_env =
  ce_memory :: EpisodicMemory
  ce_facts :: "FactStore option"
  ce_relation :: RelationshipMemory
  ce_auto_reflect_after :: int
  ce_update_ok :: bool
  ce_fact_ids :: "string list"
  ce_relation_id :: string

definition tick_auto_reflect_counter :: "close_env \<Rightarrow> close_world \<Rightarrow> close_world" where
  "tick_auto_reflect_counter e w =
     (if ce_auto_reflect_after e \<le> 0 \<or> \<not> em_ready (ce_memory e) then w
      else w\<lparr>cw_state := snd (increment_interaction_count (em_agent_id (ce_memory e)) (cw_state w))\<rparr>)"

definition finalize_closed_interaction ::
  "(string \<Rightarrow> pyval option) \<Rightarrow> close_env \<Rightarrow> ambient \<Rightarrow> rat \<Rightarrow> close_summary result \<Rightarrow> Interaction \<Rightarrow> string \<Rightarrow> close_world \<Rightarrow> close_world" where
  "finalize_closed_interaction loads e a now outcome i session_id w =
     (case outcome of
        Inl _ \<Rightarrow> w
      | Inr (summary, failed, facts_raw, projections) \<Rightarrow>
          if \<not> (ce_update_ok e \<and> em_ready (ce_memory e)) then w
          else case update_episode_summary (em_agent_id (ce_memory e)) (i_interaction_id i) summary (cw_episodes w) of
                 (False, eps) \<Rightarrow> w\<lparr>cw_episodes := eps\<rparr>
               | (True, eps) \<Rightarrow>
                   let w1 = w\<lparr>cw_episodes := eps\<rparr>;
                       w2 = (case (facts_raw, ce_facts e) of
                               (Some raw, Some st) \<Rightarrow>
                                 if failed then w1
                                 else (case dispatch_facts_from_response loads st a (ce_fact_ids e) raw i session_id (cw_facts w1) of
                                         (n, fdb) \<Rightarrow> w1\<lparr>cw_facts := fdb, cw_extraction_failed := cw_extraction_failed w1 + n\<rparr>)
                             | _ \<Rightarrow> w1);
                       w3 = (if projections = [] then w2
                             else w2\<lparr>cw_projections := snd (replace_entry_projections (em_agent_id (ce_memory e)) (i_interaction_id i) ENTRY_TIER_EPISODE projections
                                        (case i_closed_at i of Some t \<Rightarrow> if t = 0 then i_started_at i else t | None \<Rightarrow> i_started_at i) (cw_projections w2))\<rparr>);
                       w4 = w3\<lparr>cw_relations := record_closed_interaction (ce_relation e) a now (ce_relation_id e) (em_agent_id (ce_memory e)) i summary failed session_id (cw_relations w3)\<rparr>
                   in tick_auto_reflect_counter e w4)"

definition JANITOR_INTERVAL_SEC :: rat where "JANITOR_INTERVAL_SEC = 300"

definition maybe_run_janitor :: "(episode_db \<Rightarrow> episode_db result) \<Rightarrow> rat option \<Rightarrow> rat \<Rightarrow> rat \<Rightarrow> episode_db \<Rightarrow> rat option \<times> nat \<times> episode_db" where
  "maybe_run_janitor cleanup last_run now interval db =
     (case last_run of
        Some t \<Rightarrow> if now - t < interval then (last_run, 0, db)
                  else (case cleanup db of Inr db' \<Rightarrow> (Some now, 0, db') | Inl _ \<Rightarrow> (Some now, 1, db))
      | None \<Rightarrow> (case cleanup db of Inr db' \<Rightarrow> (Some now, 0, db') | Inl _ \<Rightarrow> (Some now, 1, db)))"

text \<open>Many records closed by one event: each is persisted behind its own guard.\<close>

fun persist_fanned_closes :: "('i \<Rightarrow> 'db \<Rightarrow> bool \<times> 'db) \<Rightarrow> 'i list \<Rightarrow> 'db \<Rightarrow> 'db" where
  "persist_fanned_closes persist [] db = db"
| "persist_fanned_closes persist (i # is') db = persist_fanned_closes persist is' (snd (persist i db))"



section \<open>The encoding of a span is one to one\<close>

lemma join_components_Cons: "join_components (p # ps) = nat_text (length (utf8 p)) @ '':'' @ utf8 p @ join_components ps"
  by (simp add: join_components_def)

lemma join_components_inj: "join_components ps = join_components qs \<Longrightarrow> ps = qs"
proof (induction ps arbitrary: qs)
  case Nil
  then show ?case by (cases qs) (auto simp: join_components_Cons join_components_def nat_text_nonempty)
next
  case (Cons p ps)
  then obtain q qs' where qs: "qs = q # qs'" by (cases qs) (auto simp: join_components_Cons join_components_def nat_text_nonempty)
  have e: "nat_text (length (utf8 p)) @ '':'' @ utf8 p @ join_components ps = nat_text (length (utf8 q)) @ '':'' @ utf8 q @ join_components qs'"
    using Cons.prems qs by (simp add: join_components_Cons)
  have "nat_text (length (utf8 p)) = nat_text (length (utf8 q))"
    using arg_cong[OF e, of "takeWhile (\<lambda>c. c \<noteq> CHR '':'')"] unfolding takeWhile_colon .
  then have len: "length (utf8 p) = length (utf8 q)" by (metis nat_text_value)
  then have "utf8 p @ join_components ps = utf8 q @ join_components qs'" using e by simp
  then have "utf8 p = utf8 q" "join_components ps = join_components qs'" using len by auto
  then show ?case using Cons.IH utf8_inj qs by blast
qed

lemma join_components_eq: "join_components ps = join_components qs \<longleftrightarrow> ps = qs"
  using join_components_inj by blast

lemma replay_identity_Some:
  "replay_span_identity sha256 i ag ep lv ms = Some d \<longleftrightarrow>
     ms \<noteq> [] \<and> [] \<notin> set ms \<and>
     d = REPLAY_INTERACTION_ID_PREFIX @ sha256 (join_components ([ag, ep, i_session_id i, lv, i_principal_id i, i_speaker_id i, i_scope i] @ ms))"
  by (auto simp: replay_span_identity_def list_all_iff)

text \<open>
  C35. The identity of a replayed span stands for the span and nothing else. Two spans that get an identity get the same one exactly if
  persona, epoch, session, protection level, person, speaker, scope and the whole sequence of message ids agree, so that no span is ever
  taken for another; the hash may not collide on the two encodings. A span with an unnamed message, or with none, gets no identity.\<close>

theorem replay_identity_faithful:
  assumes collision_free: "\<And>x y. x \<in> set encs \<Longrightarrow> y \<in> set encs \<Longrightarrow> sha256 x = sha256 y \<Longrightarrow> x = y"
    and "encs = map join_components [[ag, ep, i_session_id i, lv, i_principal_id i, i_speaker_id i, i_scope i] @ ms,
                                     [ag', ep', i_session_id i', lv', i_principal_id i', i_speaker_id i', i_scope i'] @ ms']"
  shows "((\<exists>d. replay_span_identity sha256 i ag ep lv ms = Some d \<and> replay_span_identity sha256 i' ag' ep' lv' ms' = Some d) \<longleftrightarrow>
            ms \<noteq> [] \<and> [] \<notin> set ms \<and> ag = ag' \<and> ep = ep' \<and> lv = lv' \<and> ms = ms' \<and> i_session_id i = i_session_id i' \<and>
            i_principal_id i = i_principal_id i' \<and> i_speaker_id i = i_speaker_id i' \<and> i_scope i = i_scope i') \<and>
         (replay_span_identity sha256 i ag ep lv ms = None \<longleftrightarrow> ms = [] \<or> [] \<in> set ms)"
proof -
  let ?e = "join_components ([ag, ep, i_session_id i, lv, i_principal_id i, i_speaker_id i, i_scope i] @ ms)"
  let ?e' = "join_components ([ag', ep', i_session_id i', lv', i_principal_id i', i_speaker_id i', i_scope i'] @ ms')"
  have "sha256 ?e = sha256 ?e' \<longleftrightarrow> ?e = ?e'" using collision_free[of ?e ?e'] assms(2) by auto
  also have "\<dots> \<longleftrightarrow> [ag, ep, i_session_id i, lv, i_principal_id i, i_speaker_id i, i_scope i] @ ms =
      [ag', ep', i_session_id i', lv', i_principal_id i', i_speaker_id i', i_scope i'] @ ms'" by (rule join_components_eq)
  finally have "sha256 ?e = sha256 ?e' \<longleftrightarrow> ag = ag' \<and> ep = ep' \<and> lv = lv' \<and> ms = ms' \<and> i_session_id i = i_session_id i' \<and>
            i_principal_id i = i_principal_id i' \<and> i_speaker_id i = i_speaker_id i' \<and> i_scope i = i_scope i'" by auto
  then have "(\<exists>d. replay_span_identity sha256 i ag ep lv ms = Some d \<and> replay_span_identity sha256 i' ag' ep' lv' ms' = Some d) \<longleftrightarrow>
            ms \<noteq> [] \<and> [] \<notin> set ms \<and> ag = ag' \<and> ep = ep' \<and> lv = lv' \<and> ms = ms' \<and> i_session_id i = i_session_id i' \<and>
            i_principal_id i = i_principal_id i' \<and> i_speaker_id i = i_speaker_id i' \<and> i_scope i = i_scope i'"
    unfolding replay_identity_Some by blast
  moreover have "replay_span_identity sha256 i ag ep lv ms = None \<longleftrightarrow> ms = [] \<or> [] \<in> set ms"
    by (auto simp: replay_span_identity_def list_all_iff)
  ultimately show ?thesis by blast
qed


section \<open>A span is on file once\<close>

definition is_replay_id :: "string \<Rightarrow> bool" where "is_replay_id d \<longleftrightarrow> take 7 d = REPLAY_INTERACTION_ID_PREFIX"

definition span_rows :: "string \<Rightarrow> string \<Rightarrow> episode_row list \<Rightarrow> episode_row list" where
  "span_rows ag d rows = filter (\<lambda>r. ep_agent_id r = ag \<and> ep_interaction_id r = Some d) rows"

definition live_rows :: "episode_row list \<Rightarrow> episode_row list" where
  "live_rows rows = filter (\<lambda>r. ep_summary r \<noteq> SUMMARY_UNAVAILABLE_TEXT) rows"


definition single :: "bool \<Rightarrow> string \<Rightarrow> string \<Rightarrow> episode_row list \<Rightarrow> bool" where
  "single strict ag d rows \<longleftrightarrow> length (live_rows (span_rows ag d rows)) \<le> 1 \<and> (strict \<longrightarrow> length (span_rows ag d rows) \<le> 1)"

lemma span_rows_simps [simp]:
  "span_rows ag d [] = []" "span_rows ag d (xs @ ys) = span_rows ag d xs @ span_rows ag d ys"
  "live_rows [] = []" "live_rows (xs @ ys) = live_rows xs @ live_rows ys"
  by (simp_all add: span_rows_def live_rows_def)



lemma identity_is_replay_id: "replay_span_identity sha256 i ag ep lv ms = Some d \<Longrightarrow> is_replay_id d"
  by (auto simp: replay_identity_Some is_replay_id_def REPLAY_INTERACTION_ID_PREFIX_def)


lemma close_row_simps [simp]:
  "ep_agent_id (episode_of m a now n (close_args shown dumps i lv)) = em_agent_id m"
  "ep_interaction_id (episode_of m a now n (close_args shown dumps i lv)) = Some (i_interaction_id i)"
  "ep_summary (episode_of m a now n (close_args shown dumps i lv)) = SUMMARY_PENDING_TEXT"
  by (simp_all add: episode_of_def close_args_def)







section \<open>A row is the record's own\<close>

lemma own_turn_items_same [simp]: "own_turn_items shown (i\<lparr>i_interaction_id := d\<rparr>) = own_turn_items shown i"
  by (simp add: own_turn_items_def)

lemma close_context_same [simp]: "close_context shown (i\<lparr>i_interaction_id := d\<rparr>) = close_context shown i"
  by (simp add: close_context_def)





section \<open>Phase 2 counts once\<close>

lemma finalize_nothing:
  assumes "\<And>r. r \<in> set (ed_rows (cw_episodes w)) \<Longrightarrow> \<not> awaits (em_agent_id (ce_memory e)) (i_interaction_id i) r"
  shows "finalize_closed_interaction loads e a now outcome i session_id w = w"
  using update_nothing[OF assms, of "cw_episodes w"]
  by (auto simp: finalize_closed_interaction_def split: sum.splits)

lemma tick_episodes [simp]: "cw_episodes (tick_auto_reflect_counter e w) = cw_episodes w" "cw_facts (tick_auto_reflect_counter e w) = cw_facts w"
  by (simp_all add: tick_auto_reflect_counter_def)

lemma finalize_episodes:
  "cw_episodes (finalize_closed_interaction loads e a now (Inr (summary, failed, raw, ps)) i session_id w) =
     (if ce_update_ok e \<and> em_ready (ce_memory e)
      then snd (update_episode_summary (em_agent_id (ce_memory e)) (i_interaction_id i) summary (cw_episodes w)) else cw_episodes w)"
  by (cases "fst (update_episode_summary (em_agent_id (ce_memory e)) (i_interaction_id i) summary (cw_episodes w))")
    (auto simp: finalize_closed_interaction_def Let_def split: prod.splits option.splits)

lemma finalize_failed_facts: "cw_facts (finalize_closed_interaction loads e a now (Inr (summary, True, raw, ps)) i session_id w) = cw_facts w"
  by (cases "fst (update_episode_summary (em_agent_id (ce_memory e)) (i_interaction_id i) summary (cw_episodes w))")
    (auto simp: finalize_closed_interaction_def Let_def split: prod.splits option.splits)

text \<open>
  The second phase of a close counts once. With nothing pending under the record's id, because another finalisation or the janitor
  settled it, a finalisation changes nothing at all: no summary, fact, restatement, relationship or counter. After a finalisation whose update went through, every later
  one of that record, with whatever summary, changes nothing. A failed summary writes no fact.\<close>

lemma finalised_once:
  assumes "ce_update_ok e" "em_ready (ce_memory e)" "summary \<noteq> SUMMARY_PENDING_TEXT"
    "w' = finalize_closed_interaction loads e a now (Inr (summary, failed, raw, ps)) i session_id w"
    "em_agent_id (ce_memory e') = em_agent_id (ce_memory e)" "i_interaction_id i' = i_interaction_id i"
  shows "finalize_closed_interaction loads e' a' now' outcome i' session_id' w' = w' \<and>
    (failed \<longrightarrow> cw_facts w' = cw_facts w) \<and>
    (\<not> list_ex (awaits (em_agent_id (ce_memory e)) (i_interaction_id i)) (ed_rows (cw_episodes w)) \<longrightarrow> w' = w)"
proof -
  have eps: "ed_rows (cw_episodes w') = settle_rows (awaits (em_agent_id (ce_memory e)) (i_interaction_id i)) summary (ed_rows (cw_episodes w))"
    using assms(1,2,4) by (simp add: finalize_episodes update_episode_summary_def)
  then have "\<not> awaits (em_agent_id (ce_memory e')) (i_interaction_id i') r" if "r \<in> set (ed_rows (cw_episodes w'))" for r
    using that assms(3,5,6) by (auto simp: settle_rows_def awaits_def split: if_splits)
  then have "finalize_closed_interaction loads e' a' now' outcome i' session_id' w' = w'" by (rule finalize_nothing)
  moreover have "failed \<longrightarrow> cw_facts w' = cw_facts w"
    using assms(4) by (cases failed) (simp_all add: finalize_failed_facts)
  moreover have "\<not> list_ex (awaits (em_agent_id (ce_memory e)) (i_interaction_id i)) (ed_rows (cw_episodes w)) \<longrightarrow> w' = w"
    using finalize_nothing[of w e i] assms(4) by (auto simp: list_ex_iff)
  ultimately show ?thesis by blast
qed


section \<open>The properties on a sample record\<close>

definition replayed_talk :: Interaction where
  "replayed_talk = talk\<lparr>i_turns := [\<lparr>turn_at = 6, turn_payload = [(''sender'', PyStr ''bo''), (''message_id'', PyStr ''m1''), (''text'', PyStr ''hi'')]\<rparr>,
       \<lparr>turn_at = 7, turn_payload = [(''sender'', PyStr ''bo''), (''message_id'', PyStr ''m2'')]\<rparr>],
     i_epoch_id := ''e1'', i_replayed := True, i_replay_attributed := True, i_replay_window_complete := True\<rparr>"

definition boot :: "string \<Rightarrow> episode_db \<Rightarrow> bool \<times> Interaction \<times> episode_db" where
  "boot n db = persist_closed_interaction (\<lambda>_. []) (\<lambda>_. ''{}'') (\<lambda>x. x) \<lparr>lookup_ok = True, clear_ok = True\<rparr> ada_episodes quiet 10 n replayed_talk db"

definition no_episodes :: episode_db where "no_episodes = \<lparr>ed_rows = [], ed_writes = [], ed_summary_failed = 0\<rparr>"
definition first_boot :: episode_db where "first_boot = snd (snd (boot ''1'' no_episodes))"


theorem replay_identity_faithful_witness:
  "\<not> (\<exists>d. replay_span_identity (\<lambda>x. x) replayed_talk ''ada'' ''e1'' ''internal'' [''m1'', ''2''] = Some d \<and>
          replay_span_identity (\<lambda>x. x) replayed_talk ''ada'' ''e1'' ''internal'' [''m12''] = Some d)"
  using replay_identity_faithful[of _ "\<lambda>x. x" "''ada''" "''e1''" replayed_talk "''internal''" "[''m1'', ''2'']" "''ada''" "''e1''" replayed_talk "''internal''" "[''m12'']"]
  by simp




definition close_start :: close_world where
  "close_start = \<lparr>cw_episodes = first_boot, cw_facts = \<lparr>fd_rows = [], fd_audit = [], fd_writes = []\<rparr>, cw_projections = [],
     cw_relations = \<lparr>rd_rows = [], rd_interactions = [], rd_writes = []\<rparr>, cw_state = [], cw_extraction_failed = 0\<rparr>"

definition close_setup :: close_env where
  "close_setup = \<lparr>ce_memory = ada_episodes, ce_facts = None, ce_relation = ada_rel, ce_auto_reflect_after = 3, ce_update_ok = True,
     ce_fact_ids = [], ce_relation_id = ''r''\<rparr>"

definition finalise_boot :: "string \<Rightarrow> close_world \<Rightarrow> close_world" where
  "finalise_boot t w = finalize_closed_interaction reader close_setup quiet 11 (Inr (t, False, None, [])) (fst (snd (boot ''1'' no_episodes))) ''s1'' w"

theorem finalised_once_witness:
  "map ep_summary (ed_rows (cw_episodes (finalise_boot ''done'' close_start))) = [''done''] \<and>
   finalise_boot ''again'' (finalise_boot ''done'' close_start) = finalise_boot ''done'' close_start"
proof -
  have "map ep_summary (ed_rows (cw_episodes (finalise_boot ''done'' close_start))) = [''done'']" by code_simp
  moreover have "finalise_boot ''again'' (finalise_boot ''done'' close_start) = finalise_boot ''done'' close_start"
    using finalised_once[of close_setup "''done''" "finalise_boot ''done'' close_start" reader quiet 11 False None "[]" "fst (snd (boot ''1'' no_episodes))" "''s1''" close_start
        close_setup "fst (snd (boot ''1'' no_episodes))"]
    by (simp add: finalise_boot_def close_setup_def ada_episodes_def SUMMARY_PENDING_TEXT_def)
  ultimately show ?thesis by blast
qed

end
