(* ===== verification/Sub_Agents.thy ===== *)
theory Sub_Agents
  imports Py_Text Procedures Relationships
begin

text \<open>
  Delegation to sub-agents: \<open>src/agents/sub_agents/delegation.py\<close>, \<open>merge.py\<close>, \<open>spawner.py\<close>, and the write of an observation from
  \<open>src/agents/memory/store.py\<close> that a merged entry goes through.

  The child agent, the JSON functions, the JSON-Schema validator and the text \<open>str\<close> gives a value that is not a string are parameters.
  A frozen set of tool names is a list without repetitions. The messages of the exceptions are left out.
  A slot either writes its row or raises and leaves none: a commit that fails after its insert is not modelled, nor is a
  cancellation in the middle of a batch, which is no \<open>Exception\<close> and which the source does not roll back.
\<close>


section \<open>The contract\<close>

text \<open>The two exceptions of the contract, and any other exception that comes through.\<close>

datatype delegation_error = DelegationContractError | DelegationFailure | Raised py_error

type_synonym 'a delegated = "delegation_error + 'a"

definition raised :: "'a result \<Rightarrow> 'a delegated" where
  "raised x = (case x of Inl e \<Rightarrow> Inl (Raised e) | Inr v \<Rightarrow> Inr v)"

definition bind_d :: "'a delegated \<Rightarrow> ('a \<Rightarrow> 'b delegated) \<Rightarrow> 'b delegated" where
  "bind_d x f = (case x of Inl e \<Rightarrow> Inl e | Inr v \<Rightarrow> f v)"

lemma bind_d_simps [simp]: "bind_d (Inl e) f = Inl e" "bind_d (Inr v) f = f v"
  by (simp_all add: bind_d_def)

lemma bind_d_Inr_iff: "bind_d x f = Inr y \<longleftrightarrow> (\<exists>v. x = Inr v \<and> f v = Inr y)"
  by (cases x) auto

definition DELEGATION_REQUEST_KEY :: string where "DELEGATION_REQUEST_KEY = ''_delegation_request''"
definition DELEGATION_RESULT_KEY :: string where "DELEGATION_RESULT_KEY = ''_delegation_result''"
definition CONTEXT_PACKAGE_KEY :: string where "CONTEXT_PACKAGE_KEY = ''_context_package''"
definition ALLOWED_TIERS :: "string list" where "ALLOWED_TIERS = [''episodic'', ''notes'']"
definition ALLOWED_STATUSES :: "string list" where "ALLOWED_STATUSES = [''completed'', ''partial'', ''failed'']"
definition ALLOWED_STRATEGIES :: "string list" where "ALLOWED_STRATEGIES = [''replace'', ''append'', ''patch'', ''reject_on_conflict'']"
definition MAX_CONTEXT_PACKAGE_BYTES :: int where "MAX_CONTEXT_PACKAGE_BYTES = 256 * 1024"

fun float_negative :: "pyfloat \<Rightarrow> bool" where
  "float_negative (Fin q) = (q < 0)"
| "float_negative NegInf = True"
| "float_negative _ = False"

fun float_not_positive :: "pyfloat \<Rightarrow> bool" where
  "float_not_positive (Fin q) = (q \<le> 0)"
| "float_not_positive NegInf = True"
| "float_not_positive _ = False"

fun in_unit :: "pyfloat \<Rightarrow> bool" where
  "in_unit (Fin q) = (0 \<le> q \<and> q \<le> 1)"
| "in_unit _ = False"

record BudgetEnvelope =
  be_tokens :: int
  be_timeout_seconds :: pyfloat
  be_max_llm_calls :: int

definition mk_BudgetEnvelope :: "int \<Rightarrow> pyfloat \<Rightarrow> int \<Rightarrow> BudgetEnvelope delegated" where
  "mk_BudgetEnvelope tokens timeout calls =
     (if tokens < 0 then Inl DelegationContractError
      else if float_negative timeout then Inl DelegationContractError
      else if calls < 0 then Inl DelegationContractError
      else Inr \<lparr>be_tokens = tokens, be_timeout_seconds = timeout, be_max_llm_calls = calls\<rparr>)"

record MemoryWriteEntry =
  mw_tier :: string
  mw_key :: string
  mw_content :: string
  mw_importance :: pyfloat
  mw_ttl_seconds :: "pyfloat option"
  mw_tags :: "pyval list"
  mw_merge_strategy :: string
  mw_source_agent :: pyval

definition with_source_agent :: "string \<Rightarrow> MemoryWriteEntry \<Rightarrow> MemoryWriteEntry" where
  "with_source_agent agent_id e = e\<lparr>mw_source_agent := PyStr agent_id\<rparr>"

record DelegationRequest =
  dq_objective :: string
  dq_acceptance_criteria :: "string list"
  dq_context_package :: pydict
  dq_budget :: BudgetEnvelope
  dq_allowed_tools :: "string list"
  dq_output_schema :: pydict
  dq_trust_ceiling :: pyfloat
  dq_max_memory_writes :: int

definition validate_request :: "DelegationRequest \<Rightarrow> unit delegated" where
  "validate_request q =
     (if dq_objective q = [] \<or> py_strip (dq_objective q) = [] then Inl DelegationContractError
      else if \<not> in_unit (dq_trust_ceiling q) then Inl DelegationContractError
      else if dq_max_memory_writes q < 0 then Inl DelegationContractError else Inr ())"

definition request_payload :: "DelegationRequest \<Rightarrow> pyval" where
  "request_payload q =
     PyDict [(''version'', PyInt 1), (''objective'', PyStr (dq_objective q)),
       (''acceptance_criteria'', PyList (map PyStr (dq_acceptance_criteria q))), (''context_package'', PyDict (dq_context_package q)),
       (''budget'', PyDict [(''tokens'', PyInt (be_tokens (dq_budget q))), (''timeout_seconds'', PyFloat (be_timeout_seconds (dq_budget q))),
         (''max_llm_calls'', PyInt (be_max_llm_calls (dq_budget q)))]),
       (''allowed_tools'', PyList (map PyStr (sort (dq_allowed_tools q)))), (''output_schema'', PyDict (dq_output_schema q)),
       (''trust_ceiling'', PyFloat (dq_trust_ceiling q)), (''max_memory_writes'', PyInt (dq_max_memory_writes q))]"

record DelegationResult =
  de_summary :: string
  de_status :: string
  de_artifacts :: pydict
  de_decisions :: "pyval list"
  de_memory_writes :: "MemoryWriteEntry list"
  de_risks :: "pyval list"

definition validate_result :: "DelegationResult \<Rightarrow> unit delegated" where
  "validate_result r = (if de_status r \<in> set ALLOWED_STATUSES then Inr () else Inl DelegationContractError)"


section \<open>Reading a result\<close>

text \<open>\<open>x or ()\<close> and \<open>x or {}\<close>, then \<open>tuple\<close> and \<open>dict\<close>. A list of pairs is a dictionary too; its keys are the strings of the model.\<close>

definition tuple_of :: "pyval \<Rightarrow> pyval list result" where
  "tuple_of v = (if truthy v then py_iter v else Inr [])"

fun pairs_dict :: "pyval list \<Rightarrow> pydict \<Rightarrow> pydict result" where
  "pairs_dict [] d = Inr d"
| "pairs_dict (x # xs) d =
     bind_r (py_iter x) (\<lambda>kv.
       case kv of
         [PyStr k, v] \<Rightarrow> pairs_dict xs (AList.update k v d)
       | [_, _] \<Rightarrow> Inl TypeError
       | _ \<Rightarrow> Inl ValueError)"

definition dict_of :: "pyval \<Rightarrow> pydict result" where
  "dict_of v =
     (if \<not> truthy v then Inr []
      else case v of PyDict d \<Rightarrow> Inr d | PyList xs \<Rightarrow> pairs_dict xs [] | PyStr _ \<Rightarrow> Inl ValueError | _ \<Rightarrow> Inl TypeError)"

definition read_entry :: "(pyval \<Rightarrow> string) \<Rightarrow> (string \<Rightarrow> pyfloat option) \<Rightarrow> pydict \<Rightarrow> MemoryWriteEntry result" where
  "read_entry shown parse raw =
     bind_r (py_float parse (py_get_or raw ''importance'' (PyFloat (Fin (1/2))))) (\<lambda>importance.
     bind_r (if py_get raw ''ttl_seconds'' = PyNone then Inr None
             else bind_r (py_float parse (py_get raw ''ttl_seconds'')) (\<lambda>t. Inr (Some t))) (\<lambda>ttl.
     bind_r (tuple_of (py_get raw ''tags'')) (\<lambda>tags.
       Inr \<lparr>mw_tier = str_text shown (py_get_or raw ''tier'' (PyStr [])), mw_key = str_text shown (py_get_or raw ''key'' (PyStr [])),
            mw_content = str_text shown (py_get_or raw ''content'' (PyStr [])), mw_importance = importance, mw_ttl_seconds = ttl,
            mw_tags = tags, mw_merge_strategy = str_text shown (py_get_or raw ''merge_strategy'' (PyStr ''replace'')),
            mw_source_agent = py_get raw ''source_agent''\<rparr>)))"

fun read_entries :: "(pyval \<Rightarrow> string) \<Rightarrow> (string \<Rightarrow> pyfloat option) \<Rightarrow> pyval list \<Rightarrow> MemoryWriteEntry list delegated" where
  "read_entries shown parse [] = Inr []"
| "read_entries shown parse (raw # raws) =
     (case raw of
        PyDict d \<Rightarrow> bind_d (raised (read_entry shown parse d)) (\<lambda>e. bind_d (read_entries shown parse raws) (\<lambda>es. Inr (e # es)))
      | _ \<Rightarrow> Inl DelegationContractError)"

definition from_metadata_value ::
  "(string \<Rightarrow> pyval option) \<Rightarrow> (pyval \<Rightarrow> string) \<Rightarrow> (string \<Rightarrow> pyfloat option) \<Rightarrow> string \<Rightarrow> DelegationResult delegated" where
  "from_metadata_value loads shown parse text =
     (case loads text of
        None \<Rightarrow> Inl DelegationContractError
      | Some (PyDict data) \<Rightarrow>
          (let writes = py_get data ''memory_writes''
           in bind_d (if \<not> truthy writes then Inr [] else case writes of PyList xs \<Rightarrow> read_entries shown parse xs | _ \<Rightarrow> Inl DelegationContractError) (\<lambda>entries.
              bind_d (raised (dict_of (py_get data ''artifacts''))) (\<lambda>artifacts.
              bind_d (raised (tuple_of (py_get data ''decisions''))) (\<lambda>decisions.
              bind_d (raised (tuple_of (py_get data ''risks''))) (\<lambda>risks.
              let r = \<lparr>de_summary = str_text shown (py_get_or data ''summary'' (PyStr [])), de_status = str_text shown (py_get_or data ''status'' (PyStr [])),
                       de_artifacts = artifacts, de_decisions = decisions, de_memory_writes = entries, de_risks = risks\<rparr>
              in bind_d (validate_result r) (\<lambda>_. Inr r))))))
      | Some _ \<Rightarrow> Inl DelegationContractError)"


section \<open>Merging\<close>

definition REASON_SCHEMA_INVALID :: string where "REASON_SCHEMA_INVALID = ''schema_invalid''"
definition REASON_TRUST_CEILING :: string where "REASON_TRUST_CEILING = ''trust_ceiling''"
definition REASON_CAP_EXCEEDED :: string where "REASON_CAP_EXCEEDED = ''cap_exceeded''"
definition REASON_SOURCE_AGENT_SET :: string where "REASON_SOURCE_AGENT_SET = ''source_agent_set''"
definition REASON_PROCEDURAL_TIER_REJECTED :: string where "REASON_PROCEDURAL_TIER_REJECTED = ''procedural_tier_rejected''"
definition REASON_RESERVED_TAG_PREFIX :: string where "REASON_RESERVED_TAG_PREFIX = ''reserved_tag_prefix''"
definition REASON_CONFLICT :: string where "REASON_CONFLICT = ''conflict''"
definition RESERVED_TAG_PREFIXES :: "string list" where
  "RESERVED_TAG_PREFIXES = [''tier:'', ''key:'', ''source:'', ''channel:'', ''procedure:'']"

record RejectedEntry =
  re_index :: nat
  re_reason :: string

record MergeOutcome =
  mo_admitted :: "MemoryWriteEntry list"
  mo_rejected :: "RejectedEntry list"
  mo_artifacts :: pydict

fun reasons :: "RejectedEntry list \<Rightarrow> (string \<times> nat) list \<Rightarrow> (string \<times> nat) list" where
  "reasons [] out = out"
| "reasons (r # rs) out = reasons rs (AList.update (re_reason r) ((case map_of out (re_reason r) of None \<Rightarrow> 0 | Some n \<Rightarrow> n) + 1) out)"

text \<open>RFC 7396: objects merge key by key, a null deletes, anything else replaces.\<close>

function (sequential) apply_json_merge_patch :: "pyval \<Rightarrow> pyval \<Rightarrow> pyval" and patch_items :: "pydict \<Rightarrow> pydict \<Rightarrow> pydict" where
  "apply_json_merge_patch tgt (PyDict p) = PyDict (patch_items (case tgt of PyDict d \<Rightarrow> d | _ \<Rightarrow> []) p)"
| "apply_json_merge_patch tgt p = p"
| "patch_items out [] = out"
| "patch_items out ((k, v) # ps) =
     patch_items (if v = PyNone then AList.delete k out else AList.update k (apply_json_merge_patch (py_get out k) v) out) ps"
  by pat_completeness auto
termination
  by (relation "measure (case_sum (\<lambda>(t, p). size p) (\<lambda>(out, ps). size_list (size_prod (\<lambda>_. 0) size) ps))") auto


fun union_tags :: "string list \<Rightarrow> string list \<Rightarrow> string list" where
  "union_tags out [] = out"
| "union_tags out (t # ts) = union_tags (if t \<in> set out then out else out @ [t]) ts"

definition is_string :: "pyval \<Rightarrow> bool" where "is_string v = (case v of PyStr _ \<Rightarrow> True | _ \<Rightarrow> False)"

definition reserved_tag :: "string \<Rightarrow> bool" where
  "reserved_tag t = list_ex (\<lambda>p. take (length p) t = p) RESERVED_TAG_PREFIXES"

text \<open>Each tag is asked for its prefix, which only a string has; the first reserved one rejects the entry.\<close>

fun tags_clear :: "pyval list \<Rightarrow> bool result" where
  "tags_clear [] = Inr True"
| "tags_clear (t # ts) = (case t of PyStr s \<Rightarrow> if reserved_tag s then Inr False else tags_clear ts | _ \<Rightarrow> Inl AttributeError)"

definition validate_entry :: "MemoryWriteEntry \<Rightarrow> string option result" where
  "validate_entry e =
     (if mw_source_agent e \<noteq> PyNone then Inr (Some REASON_SOURCE_AGENT_SET)
      else bind_r (tags_clear (mw_tags e)) (\<lambda>ok.
        if \<not> ok then Inr (Some REASON_RESERVED_TAG_PREFIX)
        else if mw_tier e = ''procedural'' then Inr (Some REASON_PROCEDURAL_TIER_REJECTED)
        else if mw_tier e \<notin> set ALLOWED_TIERS then Inr (Some REASON_SCHEMA_INVALID)
        else if mw_key e = [] \<or> py_strip (mw_key e) = [] then Inr (Some REASON_SCHEMA_INVALID)
        else if mw_content e = [] \<or> py_strip (mw_content e) = [] then Inr (Some REASON_SCHEMA_INVALID)
        else if \<not> in_unit (mw_importance e) then Inr (Some REASON_SCHEMA_INVALID)
        else if (case mw_ttl_seconds e of None \<Rightarrow> False | Some t \<Rightarrow> float_not_positive t) then Inr (Some REASON_SCHEMA_INVALID)
        else if mw_merge_strategy e \<notin> set ALLOWED_STRATEGIES then Inr (Some REASON_SCHEMA_INVALID)
        else Inr None))"

definition apply_strategy :: "MemoryWriteEntry \<Rightarrow> string set \<Rightarrow> string option" where
  "apply_strategy e known = (if mw_merge_strategy e = ''reject_on_conflict'' \<and> mw_key e \<in> known then Some REASON_CONFLICT else None)"

fun float_above :: "pyfloat \<Rightarrow> pyfloat \<Rightarrow> bool" where
  "float_above (Fin x) (Fin y) = (x > y)"
| "float_above PosInf (Fin y) = True"
| "float_above PosInf NegInf = True"
| "float_above (Fin x) NegInf = True"
| "float_above _ _ = False"

type_synonym metric = "string \<times> string \<times> nat"

fun merge_entries ::
  "pyfloat \<Rightarrow> string \<Rightarrow> (nat \<times> MemoryWriteEntry) list \<Rightarrow> string set \<Rightarrow> MergeOutcome \<Rightarrow> metric list \<Rightarrow> (MergeOutcome \<times> metric list) result" where
  "merge_entries trust source [] known out ms = Inr (out, ms)"
| "merge_entries trust source ((idx, e) # es) known out ms =
     bind_r (validate_entry e) (\<lambda>rejection.
       case rejection of
         Some reason \<Rightarrow> merge_entries trust source es known (out\<lparr>mo_rejected := mo_rejected out @ [\<lparr>re_index = idx, re_reason = reason\<rparr>]\<rparr>) ms
       | None \<Rightarrow>
           (let e1 = with_source_agent source e; above = float_above (mw_importance e1) trust;
                ms1 = (if above then ms @ [(''delegation_memory_writes_downscaled'', REASON_TRUST_CEILING, 1)] else ms);
                e2 = (if above then e1\<lparr>mw_importance := trust\<rparr> else e1)
            in case apply_strategy e2 known of
                 Some reason \<Rightarrow> merge_entries trust source es known (out\<lparr>mo_rejected := mo_rejected out @ [\<lparr>re_index = idx, re_reason = reason\<rparr>]\<rparr>) ms1
               | None \<Rightarrow> merge_entries trust source es (insert (mw_key e2) known) (out\<lparr>mo_admitted := mo_admitted out @ [e2]\<rparr>) ms1))"

definition over_cap :: "int \<Rightarrow> (nat \<times> MemoryWriteEntry) list \<Rightarrow> RejectedEntry list" where
  "over_cap cap ies = map (\<lambda>(idx, e). \<lparr>re_index = idx, re_reason = REASON_CAP_EXCEEDED\<rparr>) (filter (\<lambda>(idx, e). int idx \<ge> cap) ies)"

definition final_metrics :: "DelegationResult \<Rightarrow> MergeOutcome \<Rightarrow> metric list" where
  "final_metrics r out =
     (''delegation_merge_outcome'', de_status r, 1) # map (\<lambda>(reason, n). (''delegation_memory_writes_rejected'', reason, n)) (reasons (mo_rejected out) []) @
     (if mo_admitted out = [] then [] else [(''delegation_memory_writes_admitted'', ''ok'', length (mo_admitted out))])"

definition merge_result ::
  "DelegationResult \<Rightarrow> DelegationRequest \<Rightarrow> string \<Rightarrow> pydict option \<Rightarrow> string list \<Rightarrow> MergeOutcome delegated \<times> metric list" where
  "merge_result r q source_agent existing_artifacts existing_keys =
     (case validate_result r of
        Inl _ \<Rightarrow> (Inl DelegationFailure, [(''delegation_merge_outcome'', ''failed'', 1)])
      | Inr _ \<Rightarrow>
          (let artifacts = patch_items (case existing_artifacts of None \<Rightarrow> [] | Some d \<Rightarrow> d) (de_artifacts r);
               ies = enumerate 0 (de_memory_writes r);
               out = \<lparr>mo_admitted = [], mo_rejected = over_cap (dq_max_memory_writes q) ies, mo_artifacts = artifacts\<rparr>
           in case merge_entries (dq_trust_ceiling q) source_agent (filter (\<lambda>(idx, e). int idx < dq_max_memory_writes q) ies) (set existing_keys) out [] of
                Inl e \<Rightarrow> (Inl (Raised e), [])
              | Inr (out', ms) \<Rightarrow> (Inr out', ms @ final_metrics r out')))"

text \<open>The stand-alone merge of one artifact.\<close>

definition merge_artifacts :: "(pyval \<Rightarrow> string) \<Rightarrow> pyval \<Rightarrow> pyval \<Rightarrow> string \<Rightarrow> pyval delegated" where
  "merge_artifacts shown existing incoming strategy =
     (if strategy \<notin> set ALLOWED_STRATEGIES then Inl DelegationContractError
      else if strategy = ''replace'' then Inr incoming
      else if strategy = ''append''
      then (case (existing, incoming) of (PyList xs, PyList ys) \<Rightarrow> Inr (PyList (xs @ ys)) | _ \<Rightarrow> Inl DelegationContractError)
      else if strategy = ''patch''
      then (case (existing, incoming) of
              (PyList xs, PyList ys) \<Rightarrow> Inr (PyList (map PyStr (union_tags (map (str_text shown) xs) (map (str_text shown) ys))))
            | (PyDict _, PyDict _) \<Rightarrow> Inr (apply_json_merge_patch existing incoming)
            | _ \<Rightarrow> Inr incoming)
      else if existing = PyNone then Inr incoming else Inl DelegationContractError)"


section \<open>Dispatching\<close>

record TaskInput =
  ti_task_id :: string
  ti_workflow_id :: string
  ti_payload :: string
  ti_context :: "(string \<times> string) list"
  ti_max_llm_calls :: int
  ti_max_tokens :: int
  ti_allowed_tools :: "string list"
  ti_sub_agent_parent_id :: string

datatype TaskStatus = TS_COMPLETED | TS_FAILED

record TaskOutput =
  to_status :: TaskStatus
  to_metadata :: pydict

definition extract_result ::
  "(string \<Rightarrow> pyval option) \<Rightarrow> (pyval \<Rightarrow> string) \<Rightarrow> (string \<Rightarrow> pyfloat option) \<Rightarrow> TaskOutput \<Rightarrow> DelegationResult delegated" where
  "extract_result loads shown parse output =
     (if to_status output = TS_FAILED then Inl DelegationFailure
      else case py_get (to_metadata output) DELEGATION_RESULT_KEY of
        PyStr raw \<Rightarrow> (case from_metadata_value loads shown parse raw of Inl DelegationContractError \<Rightarrow> Inl DelegationFailure | x \<Rightarrow> x)
      | _ \<Rightarrow> Inl DelegationFailure)"

record schema_check =
  sc_schema_ok :: "pydict \<Rightarrow> bool"
  sc_conforms :: "pydict \<Rightarrow> pydict \<Rightarrow> bool"

definition enforce_output_schema :: "schema_check \<Rightarrow> DelegationRequest \<Rightarrow> DelegationResult \<Rightarrow> unit delegated" where
  "enforce_output_schema sc q r =
     (if dq_output_schema q = [] then Inr ()
      else if \<not> sc_schema_ok sc (dq_output_schema q) then Inl DelegationFailure
      else if sc_conforms sc (dq_output_schema q) (de_artifacts r) then Inr () else Inl DelegationFailure)"

definition delegation_task :: "(pyval \<Rightarrow> string) \<Rightarrow> string \<Rightarrow> string \<Rightarrow> string option \<Rightarrow> DelegationRequest \<Rightarrow> TaskInput delegated" where
  "delegation_task dumps parent task_id workflow_id q =
     bind_d (validate_request q) (\<lambda>_.
       let pkg = (if dq_context_package q = [] then [] else dumps (PyDict (dq_context_package q)));
           payload = dumps (request_payload q)
       in if dq_context_package q \<noteq> [] \<and> int (length pkg) > MAX_CONTEXT_PACKAGE_BYTES then Inl DelegationContractError
          else if int (length payload) > MAX_CONTEXT_PACKAGE_BYTES then Inl DelegationContractError
          else Inr \<lparr>ti_task_id = ''delegation-'' @ task_id, ti_workflow_id = or_str workflow_id ''delegation'', ti_payload = dq_objective q,
                    ti_context = (DELEGATION_REQUEST_KEY, payload) # (if pkg = [] then [] else [(CONTEXT_PACKAGE_KEY, pkg)]),
                    ti_max_llm_calls = be_max_llm_calls (dq_budget q), ti_max_tokens = be_tokens (dq_budget q),
                    ti_allowed_tools = sort (dq_allowed_tools q), ti_sub_agent_parent_id = parent\<rparr>)"


section \<open>Keeping what was admitted\<close>

text \<open>One observation: the checks of the facade, then the episode.\<close>

definition observation_args :: "(pyval \<Rightarrow> string) \<Rightarrow> string \<Rightarrow> pyfloat \<Rightarrow> pyfloat option \<Rightarrow> string list \<Rightarrow> string \<Rightarrow> episode_args" where
  "observation_args dumps content importance ttl tags session =
     \<lparr>ea_summary = content, ea_context_json = dumps (PyDict (case ttl of None \<Rightarrow> [] | Some t \<Rightarrow> [(''ttl_seconds'', PyFloat t)])),
      ea_outcome = None, ea_importance = importance, ea_tags = Some tags, ea_interaction_id = None, ea_started_at = None, ea_closed_at = None,
      ea_turn_count = None, ea_scope = None, ea_governance_id = None, ea_session = session, ea_surface = ''observation'',
      ea_protection = ''internal'', ea_channel = None, ea_speaker = None, ea_principal = None\<rparr>"

definition store_observation ::
  "(pyval \<Rightarrow> string) \<Rightarrow> MemoryStore \<Rightarrow> ambient \<Rightarrow> rat \<Rightarrow> string \<Rightarrow> string \<Rightarrow> pyfloat \<Rightarrow> pyfloat option \<Rightarrow> string list \<Rightarrow> episode_db \<Rightarrow>
   string result \<times> episode_db" where
  "store_observation dumps ms a now new_id content importance ttl tags db =
     (if \<not> ms_initialized ms then (Inl RuntimeError, db)
      else if content = [] \<or> py_strip content = [] then (Inl ValueError, db)
      else if (case ttl of None \<Rightarrow> False | Some t \<Rightarrow> float_not_positive t) then (Inl ValueError, db)
      else store_episode (ms_episodic ms) a now new_id
             (observation_args dumps content importance ttl tags (or_str (current_session_id a) (ts_session (ms_snapshot ms)))) db)"

definition entry_tags :: "(pyval \<Rightarrow> string) \<Rightarrow> MemoryWriteEntry \<Rightarrow> string list" where
  "entry_tags shown e =
     map (str_text shown) (mw_tags e) @ [''tier:'' @ mw_tier e, ''key:'' @ mw_key e,
       ''source:'' @ (if truthy (mw_source_agent e) then str_text shown (mw_source_agent e) else ''unknown'')]"

text \<open>
  The entries in order, each under a fresh id of the list; the flag of an entry says whether its statement goes through. On the first
  failure what was stored is deleted again, last one first, as far as the deletes go through.
\<close>

fun store_admitted ::
  "(pyval \<Rightarrow> string) \<Rightarrow> (pyval \<Rightarrow> string) \<Rightarrow> MemoryStore \<Rightarrow> ambient \<Rightarrow> rat \<Rightarrow> (string \<times> bool) list \<Rightarrow> MemoryWriteEntry list \<Rightarrow> string list \<Rightarrow> episode_db \<Rightarrow>
   (py_error option \<times> string list) \<times> episode_db" where
  "store_admitted shown dumps ms a now slots [] ids db = ((None, ids), db)"
| "store_admitted shown dumps ms a now slots (e # es) ids db =
     (case slots of
        [] \<Rightarrow> ((Some RuntimeError, ids), db)
      | (new_id, ok) # rest \<Rightarrow>
          if \<not> ok then ((Some RuntimeError, ids), db)
          else case store_observation dumps ms a now new_id (mw_content e) (mw_importance e) (mw_ttl_seconds e) (entry_tags shown e) db of
                 (Inl err, db') \<Rightarrow> ((Some err, ids), db')
               | (Inr i, db') \<Rightarrow> store_admitted shown dumps ms a now rest es (ids @ [i]) db')"

fun rollback_persisted :: "string \<Rightarrow> (string \<Rightarrow> bool) \<Rightarrow> string list \<Rightarrow> episode_db \<Rightarrow> episode_db" where
  "rollback_persisted ag delete_ok [] db = db"
| "rollback_persisted ag delete_ok (i # is') db =
     rollback_persisted ag delete_ok is' (if delete_ok i then snd (delete_episode ag i db) else db)"

definition persist_admitted ::
  "(pyval \<Rightarrow> string) \<Rightarrow> (pyval \<Rightarrow> string) \<Rightarrow> (string \<Rightarrow> bool) \<Rightarrow> MemoryStore \<Rightarrow> ambient \<Rightarrow> rat \<Rightarrow> (string \<times> bool) list \<Rightarrow> MemoryWriteEntry list \<Rightarrow> episode_db \<Rightarrow>
   string list result \<times> episode_db" where
  "persist_admitted shown dumps delete_ok ms a now slots entries db =
     (case store_admitted shown dumps ms a now slots entries [] db of
        ((None, ids), db') \<Rightarrow> (Inr ids, db')
      | ((Some e, ids), db') \<Rightarrow> (Inl e, rollback_persisted (em_agent_id (ms_episodic ms)) delete_ok (rev ids) db'))"

record SpawnResult =
  sr_result :: DelegationResult
  sr_outcome :: MergeOutcome
  sr_raw_output :: TaskOutput
  sr_admitted_entry_ids :: "string list"

record spawn_env =
  sp_loads :: "string \<Rightarrow> pyval option"
  sp_dumps :: "pyval \<Rightarrow> string"
  sp_shown :: "pyval \<Rightarrow> string"
  sp_parse :: "string \<Rightarrow> pyfloat option"
  sp_schema :: schema_check
  sp_parent_agent_id :: string
  sp_store :: MemoryStore
  sp_delete_ok :: "string \<Rightarrow> bool"

text \<open>The whole dispatch of the spawner that is bound to a memory store.\<close>

definition dispatch_child ::
  "spawn_env \<Rightarrow> (TaskInput \<Rightarrow> TaskOutput result) \<Rightarrow> string \<Rightarrow> ambient \<Rightarrow> rat \<Rightarrow> string \<Rightarrow> (string \<times> bool) list \<Rightarrow> string option \<Rightarrow> pydict option \<Rightarrow>
   string list \<Rightarrow> bool \<Rightarrow> DelegationRequest \<Rightarrow> episode_db \<Rightarrow> SpawnResult delegated \<times> episode_db" where
  "dispatch_child v handle child_id a now task_id slots workflow_id artifacts keys persist q db =
     (case bind_d (delegation_task (sp_dumps v) (sp_parent_agent_id v) task_id workflow_id q) (\<lambda>task.
           bind_d (raised (handle task)) (\<lambda>output.
           bind_d (extract_result (sp_loads v) (sp_shown v) (sp_parse v) output) (\<lambda>r.
           bind_d (enforce_output_schema (sp_schema v) q r) (\<lambda>_.
           bind_d (fst (merge_result r q child_id artifacts keys)) (\<lambda>out. Inr (r, out, output)))))) of
        Inl e \<Rightarrow> (Inl e, db)
      | Inr (r, out, output) \<Rightarrow>
          if persist \<and> mo_admitted out \<noteq> []
          then (case persist_admitted (sp_shown v) (sp_dumps v) (sp_delete_ok v) (sp_store v) a now slots (mo_admitted out) db of
                  (Inl e, db') \<Rightarrow> (Inl (Raised e), db')
                | (Inr ids, db') \<Rightarrow> (Inr \<lparr>sr_result = r, sr_outcome = out, sr_raw_output = output, sr_admitted_entry_ids = ids\<rparr>, db'))
          else (Inr \<lparr>sr_result = r, sr_outcome = out, sr_raw_output = output, sr_admitted_entry_ids = []\<rparr>, db))"


section \<open>What a merge admits\<close>

definition stamped :: "pyfloat \<Rightarrow> string \<Rightarrow> MemoryWriteEntry \<Rightarrow> MemoryWriteEntry" where
  "stamped trust source e =
     (let e1 = with_source_agent source e in if float_above (mw_importance e1) trust then e1\<lparr>mw_importance := trust\<rparr> else e1)"

lemma stamped_sel [simp]:
  "mw_tier (stamped t s e) = mw_tier e" "mw_key (stamped t s e) = mw_key e" "mw_content (stamped t s e) = mw_content e"
  "mw_tags (stamped t s e) = mw_tags e" "mw_merge_strategy (stamped t s e) = mw_merge_strategy e" "mw_ttl_seconds (stamped t s e) = mw_ttl_seconds e"
  "mw_source_agent (stamped t s e) = PyStr s"
  by (simp_all add: stamped_def with_source_agent_def Let_def)

lemma stamped_importance:
  "in_unit (mw_importance e) \<Longrightarrow> in_unit t \<Longrightarrow> \<exists>x y. t = Fin y \<and> mw_importance (stamped t s e) = Fin x \<and> 0 \<le> x \<and> x \<le> y \<and> x \<le> 1"
  by (cases "mw_importance e"; cases t) (auto simp: stamped_def with_source_agent_def Let_def)

lemma merge_entries_step:
  "merge_entries trust source ((idx, e) # es) known out ms =
     bind_r (validate_entry e) (\<lambda>rejection.
       case (case rejection of Some reason \<Rightarrow> Some reason | None \<Rightarrow> apply_strategy (stamped trust source e) known) of
         Some reason \<Rightarrow> merge_entries trust source es known (out\<lparr>mo_rejected := mo_rejected out @ [\<lparr>re_index = idx, re_reason = reason\<rparr>]\<rparr>)
           (ms @ (if rejection = None \<and> float_above (mw_importance e) trust then [(''delegation_memory_writes_downscaled'', REASON_TRUST_CEILING, 1)] else []))
       | None \<Rightarrow> merge_entries trust source es (insert (mw_key e) known) (out\<lparr>mo_admitted := mo_admitted out @ [stamped trust source e]\<rparr>)
           (ms @ (if float_above (mw_importance e) trust then [(''delegation_memory_writes_downscaled'', REASON_TRUST_CEILING, 1)] else [])))"
  by (cases "validate_entry e")
    (auto simp: stamped_def with_source_agent_def Let_def split: option.splits)

declare merge_entries.simps(2) [simp del]

text \<open>Which positions of the list were admitted, and that no admitted entry that forbids it met a known key.\<close>

definition conflict_free :: "string set \<Rightarrow> MemoryWriteEntry list \<Rightarrow> bool" where
  "conflict_free known es \<longleftrightarrow>
     (\<forall>k < length es. mw_merge_strategy (es ! k) = ''reject_on_conflict'' \<longrightarrow> mw_key (es ! k) \<notin> known \<union> mw_key ` set (take k es))"

lemma conflict_free_Cons:
  "conflict_free known (e # es) \<longleftrightarrow>
     (mw_merge_strategy e = ''reject_on_conflict'' \<longrightarrow> mw_key e \<notin> known) \<and> conflict_free (insert (mw_key e) known) es"
  unfolding conflict_free_def by (auto simp: nth_Cons less_Suc_eq_0_disj split: nat.splits)

definition picked :: "pyfloat \<Rightarrow> string \<Rightarrow> nat set \<Rightarrow> (nat \<times> MemoryWriteEntry) list \<Rightarrow> MemoryWriteEntry list" where
  "picked trust source I es = map (\<lambda>(i, e). stamped trust source e) (filter (\<lambda>(i, e). i \<in> I) es)"

definition others :: "nat set \<Rightarrow> (nat \<times> MemoryWriteEntry) list \<Rightarrow> nat list" where
  "others I es = map fst (filter (\<lambda>(i, e). i \<notin> I) es)"

lemma picked_simps [simp]:
  "picked t s I [] = []" "others I [] = []"
  "picked t s I ((i, e) # es) = (if i \<in> I then stamped t s e # picked t s I es else picked t s I es)"
  "others I ((i, e) # es) = (if i \<in> I then others I es else i # others I es)"
  by (simp_all add: picked_def others_def)

lemma merge_entries_outcome:
  assumes "merge_entries trust source es known out ms = Inr (out', ms')" "distinct (map fst es)"
  shows "\<exists>I. I \<subseteq> fst ` set es \<and> mo_artifacts out' = mo_artifacts out \<and>
     mo_admitted out' = mo_admitted out @ picked trust source I es \<and>
     map re_index (mo_rejected out') = map re_index (mo_rejected out) @ others I es \<and>
     (\<forall>(i, e) \<in> set es. i \<in> I \<longrightarrow> validate_entry e = Inr None) \<and>
     conflict_free known (picked trust source I es)"
  using assms
proof (induction es arbitrary: known out ms)
  case Nil
  then show ?case by (auto simp: conflict_free_def)
next
  case (Cons ie es)
  obtain idx e where ie: "ie = (idx, e)" by (cases ie)
  have d: "distinct (map fst es)" "idx \<notin> fst ` set es" using Cons.prems(2) ie by auto
  have same: "picked trust source (insert idx I) es = picked trust source I es" "others (insert idx I) es = others I es" for I
    using d(2) by (auto simp: picked_def others_def intro!: arg_cong[of _ _ "map f" for f] filter_cong simp: rev_image_eqI)
  obtain rejection where v: "validate_entry e = Inr rejection"
    using Cons.prems(1) ie by (cases "validate_entry e") (auto simp: merge_entries_step)
  show ?case
  proof (cases "case rejection of Some reason \<Rightarrow> Some reason | None \<Rightarrow> apply_strategy (stamped trust source e) known")
    case (Some reason)
    then obtain ms1 where "merge_entries trust source es known (out\<lparr>mo_rejected := mo_rejected out @ [\<lparr>re_index = idx, re_reason = reason\<rparr>]\<rparr>) ms1 = Inr (out', ms')"
      using Cons.prems(1) ie v by (auto simp: merge_entries_step)
    from Cons.IH[OF this d(1)] obtain I where I: "I \<subseteq> fst ` set es" "mo_artifacts out' = mo_artifacts out"
      "mo_admitted out' = mo_admitted out @ picked trust source I es"
      "map re_index (mo_rejected out') = (map re_index (mo_rejected out) @ [idx]) @ others I es"
      "\<forall>(i, e) \<in> set es. i \<in> I \<longrightarrow> validate_entry e = Inr None"
      "conflict_free known (picked trust source I es)"
      by (elim exE conjE, intro that) simp_all
    moreover have "idx \<notin> I" using I(1) d(2) by auto
    ultimately show ?thesis using ie by (intro exI[of _ I]) auto
  next
    case None
    then have r: "rejection = None" "apply_strategy (stamped trust source e) known = None" by (auto split: option.splits)
    then obtain ms1 where "merge_entries trust source es (insert (mw_key e) known) (out\<lparr>mo_admitted := mo_admitted out @ [stamped trust source e]\<rparr>) ms1 = Inr (out', ms')"
      using Cons.prems(1) ie v by (auto simp: merge_entries_step)
    from Cons.IH[OF this d(1)] obtain I where I: "I \<subseteq> fst ` set es" "mo_artifacts out' = mo_artifacts out"
      "mo_admitted out' = (mo_admitted out @ [stamped trust source e]) @ picked trust source I es"
      "map re_index (mo_rejected out') = map re_index (mo_rejected out) @ others I es"
      "\<forall>(i, e) \<in> set es. i \<in> I \<longrightarrow> validate_entry e = Inr None"
      "conflict_free (insert (mw_key e) known) (picked trust source I es)"
      by (elim exE conjE, intro that) simp_all
    have "mw_merge_strategy e = ''reject_on_conflict'' \<longrightarrow> mw_key e \<notin> known" using r(2) by (auto simp: apply_strategy_def split: if_splits)
    then show ?thesis using I ie v r(1) same d(2) by (intro exI[of _ "insert idx I"]) (auto simp: conflict_free_Cons rev_image_eqI)
  qed
qed

lemma check_tags_True: "tags_clear ts = Inr True \<longleftrightarrow> (\<forall>t \<in> set ts. \<exists>s. t = PyStr s \<and> \<not> reserved_tag s)"
  by (induction ts) (auto split: pyval.splits if_splits)

lemma validate_entry_None:
  assumes "validate_entry e = Inr None"
  shows "mw_source_agent e = PyNone \<and> (\<forall>t \<in> set (mw_tags e). \<exists>s. t = PyStr s \<and> \<not> reserved_tag s) \<and> mw_tier e \<in> set ALLOWED_TIERS \<and>
    py_strip (mw_key e) \<noteq> [] \<and> py_strip (mw_content e) \<noteq> [] \<and> in_unit (mw_importance e) \<and> mw_merge_strategy e \<in> set ALLOWED_STRATEGIES"
  using assms unfolding validate_entry_def
  by (cases "tags_clear (mw_tags e)") (auto simp: check_tags_True[symmetric] split: if_splits option.splits)


lemma picked_length:
  assumes "distinct (map fst ies)" "0 \<le> cap" "\<forall>i \<in> I. int i < cap"
  shows "int (length (picked t s I ies)) \<le> cap"
proof -
  have "length (picked t s I ies) = card (set (map fst (filter (\<lambda>(i, e). i \<in> I) ies)))"
    using distinct_card[OF filter_distinct_map_fst[OF assms(1), of "\<lambda>(i, e). i \<in> I"]] by (simp add: picked_def)
  also have "\<dots> \<le> card {..<nat cap}" using assms(3) by (intro card_mono) auto
  finally show ?thesis using assms(2) by simp
qed

definition on_terms :: "pyfloat \<Rightarrow> string \<Rightarrow> MemoryWriteEntry \<Rightarrow> bool" where
  "on_terms trust source e \<longleftrightarrow>
     mw_tier e \<in> {''episodic'', ''notes''} \<and> mw_source_agent e = PyStr source \<and> py_strip (mw_key e) \<noteq> [] \<and> py_strip (mw_content e) \<noteq> [] \<and>
     (\<forall>t \<in> set (mw_tags e). \<exists>s. t = PyStr s \<and> \<not> reserved_tag s) \<and>
     (\<exists>x y. mw_importance e = Fin x \<and> trust = Fin y \<and> 0 \<le> x \<and> x \<le> y)"

lemma stamped_on_terms: "validate_entry e = Inr None \<Longrightarrow> in_unit trust \<Longrightarrow> on_terms trust source (stamped trust source e)"
  using validate_entry_None[of e] stamped_importance[of e trust source] by (auto simp: on_terms_def ALLOWED_TIERS_def)

text \<open>
  C33. What a sub-agent proposes to remember is admitted only on the caller's terms. A merge that returns decides every proposed write exactly
  once: the rejected positions are exactly the ones not admitted, each listed once, and the admitted ones keep their order. At most the cap is admitted. Every admitted
  write is of a delegatable tier, names the child as its source whatever the child claimed, carries no tag of a reserved prefix, has an
  importance of at most the trust ceiling, and if it forbids conflicts meets no key the caller had or an earlier write took. The
  artifacts are the caller's patched by the child's. A tag that is no string makes the merge raise, and then nothing is admitted.\<close>

theorem merge_on_callers_terms:
  assumes "merge_result r q source artifacts keys = (Inr out, ms)" "validate_request q = Inr ()"
  shows "\<exists>I. I \<subseteq> {i. i < length (de_memory_writes r) \<and> int i < dq_max_memory_writes q} \<and>
     mo_admitted out = picked (dq_trust_ceiling q) source I (enumerate 0 (de_memory_writes r)) \<and>
     distinct (map re_index (mo_rejected out)) \<and> re_index ` set (mo_rejected out) = {..<length (de_memory_writes r)} - I \<and>
     int (length (mo_admitted out)) \<le> dq_max_memory_writes q \<and>
     (\<forall>e \<in> set (mo_admitted out). on_terms (dq_trust_ceiling q) source e) \<and>
     conflict_free (set keys) (mo_admitted out) \<and>
     PyDict (mo_artifacts out) = apply_json_merge_patch (PyDict (case artifacts of None \<Rightarrow> [] | Some d \<Rightarrow> d)) (PyDict (de_artifacts r))"
proof -
  let ?cap = "dq_max_memory_writes q"
  let ?ies = "enumerate 0 (de_memory_writes r)"
  let ?in = "filter (\<lambda>(idx, e). int idx < ?cap) ?ies"
  let ?out0 = "\<lparr>mo_admitted = [], mo_rejected = over_cap ?cap ?ies, mo_artifacts = patch_items (case artifacts of None \<Rightarrow> [] | Some d \<Rightarrow> d) (de_artifacts r)\<rparr>"
  obtain ms0 where m: "merge_entries (dq_trust_ceiling q) source ?in (set keys) ?out0 [] = Inr (out, ms0)"
    using assms(1) by (auto simp: merge_result_def Let_def split: sum.splits)
  have dist: "distinct (map fst ?ies)" by simp
  from merge_entries_outcome[OF m filter_distinct_map_fst[OF dist]] obtain I where I: "I \<subseteq> fst ` set ?in" "mo_artifacts out = mo_artifacts ?out0"
    "mo_admitted out = mo_admitted ?out0 @ picked (dq_trust_ceiling q) source I ?in"
    "map re_index (mo_rejected out) = map re_index (mo_rejected ?out0) @ others I ?in"
    "\<forall>(i, e) \<in> set ?in. i \<in> I \<longrightarrow> validate_entry e = Inr None"
    "conflict_free (set keys) (picked (dq_trust_ceiling q) source I ?in)" by blast
  have sub: "I \<subseteq> {i. i < length (de_memory_writes r) \<and> int i < ?cap}" using I(1) by (auto simp: in_set_enumerate_eq)
  have pick: "picked (dq_trust_ceiling q) source I ?in = picked (dq_trust_ceiling q) source I ?ies"
    using sub unfolding picked_def by (auto intro!: arg_cong[of _ _ "map f" for f] filter_cong)
  have rej: "map re_index (mo_rejected out) = map fst (filter (\<lambda>(i, e). int i \<ge> ?cap) ?ies) @ map fst (filter (\<lambda>(i, e). int i < ?cap \<and> i \<notin> I) ?ies)"
    using I(4) by (simp add: over_cap_def others_def split_def comp_def)
  have "distinct (map re_index (mo_rejected out))"
    unfolding rej using dist by (auto simp: distinct_map inj_on_def in_set_enumerate_eq)
  moreover have "re_index ` set (mo_rejected out) = {..<length (de_memory_writes r)} - I"
  proof -
    have "re_index ` set (mo_rejected out) = set (map re_index (mo_rejected out))" by simp
    also have "\<dots> = fst ` set ?ies - I" unfolding rej using sub by (auto simp: image_iff)
    also have "fst ` set ?ies = {..<length (de_memory_writes r)}" by (metis list.set_map map_fst_enumerate atLeast_upt plus_nat.add_0)
    finally show ?thesis .
  qed
  moreover have adm: "mo_admitted out = picked (dq_trust_ceiling q) source I ?ies" using I(3) pick by simp
  moreover have "int (length (mo_admitted out)) \<le> ?cap"
    unfolding adm by (rule picked_length[OF dist]) (use assms(2) sub in \<open>auto simp: validate_request_def split: if_splits\<close>)
  moreover have "on_terms (dq_trust_ceiling q) source e" if e: "e \<in> set (mo_admitted out)" for e
  proof -
    obtain e0 where "e = stamped (dq_trust_ceiling q) source e0" "validate_entry e0 = Inr None" using e I(3,5) by (auto simp: picked_def)
    then show ?thesis using assms(2) stamped_on_terms by (auto simp: validate_request_def split: if_splits)
  qed
  moreover have "conflict_free (set keys) (mo_admitted out)" using I(3,6) by simp
  moreover have "PyDict (mo_artifacts out) = apply_json_merge_patch (PyDict (case artifacts of None \<Rightarrow> [] | Some d \<Rightarrow> d)) (PyDict (de_artifacts r))"
    using I(2) by simp
  ultimately show ?thesis using sub by blast
qed



section \<open>All or nothing\<close>

lemma store_observation_cases:
  assumes "store_observation dumps ms a now i content importance ttl tags db = (out, db')"
  shows "(\<exists>e. out = Inl e) \<and> db' = db \<or>
    out = Inr i \<and> i \<notin> ep_id ` set (ed_rows db) \<and>
    ed_rows db' = ed_rows db @ [episode_of (ms_episodic ms) a now i (observation_args dumps content importance ttl tags (or_str (current_session_id a) (ts_session (ms_snapshot ms))))]"
  using assms unfolding store_observation_def store_episode_def by (auto simp: Let_def split: if_splits)

definition keeps_entry :: "(pyval \<Rightarrow> string) \<Rightarrow> string \<Rightarrow> MemoryWriteEntry \<Rightarrow> episode_row \<Rightarrow> bool" where
  "keeps_entry shown ag e r \<longleftrightarrow>
     ep_agent_id r = ag \<and> ep_summary r = mw_content e \<and> ep_importance r = clamp_importance (mw_importance e) \<and> ep_tags r = Some (entry_tags shown e)"

lemma store_admitted_outcome:
  assumes "store_admitted shown dumps ms a now slots es ids db = ((err, ids'), db')"
  shows "\<exists>news. ed_rows db' = ed_rows db @ news \<and> ids' = ids @ map ep_id news \<and> ep_id ` set news \<inter> ep_id ` set (ed_rows db) = {} \<and>
    (\<forall>r \<in> set news. ep_agent_id r = em_agent_id (ms_episodic ms)) \<and>
    (err = None \<longrightarrow> list_all2 (keeps_entry shown (em_agent_id (ms_episodic ms))) es news)"
  using assms
proof (induction es arbitrary: slots ids db)
  case Nil
  then show ?case by simp
next
  case (Cons e es)
  show ?case
  proof (cases slots)
    case Nil
    then show ?thesis using Cons.prems by auto
  next
    case (Cons io rest)
    obtain i ok where io: "io = (i, ok)" by (cases io)
    show ?thesis
    proof (cases ok)
      case False
      then show ?thesis using Cons.prems Cons io by auto
    next
      case True
      obtain res db1 where ob: "store_observation dumps ms a now i (mw_content e) (mw_importance e) (mw_ttl_seconds e) (entry_tags shown e) db = (res, db1)" by fastforce
      show ?thesis
      proof (cases res)
        case (Inl x)
        then show ?thesis using Cons.prems Cons io True ob store_observation_cases[OF ob] by auto
      next
        case (Inr v)
        let ?r = "episode_of (ms_episodic ms) a now i (observation_args dumps (mw_content e) (mw_importance e) (mw_ttl_seconds e) (entry_tags shown e)
                    (or_str (current_session_id a) (ts_session (ms_snapshot ms))))"
        have st: "v = i" "i \<notin> ep_id ` set (ed_rows db)" "ed_rows db1 = ed_rows db @ [?r]" using store_observation_cases[OF ob] Inr by auto
        have "store_admitted shown dumps ms a now rest es (ids @ [i]) db1 = ((err, ids'), db')" using Cons.prems Cons io True ob Inr st(1) by simp
        from Cons.IH[OF this] obtain news where n: "ed_rows db' = ed_rows db1 @ news" "ids' = (ids @ [i]) @ map ep_id news"
          "ep_id ` set news \<inter> ep_id ` set (ed_rows db1) = {}" "\<forall>r \<in> set news. ep_agent_id r = em_agent_id (ms_episodic ms)"
          "err = None \<longrightarrow> list_all2 (keeps_entry shown (em_agent_id (ms_episodic ms))) es news" by blast
        have r: "ep_id ?r = i" "keeps_entry shown (em_agent_id (ms_episodic ms)) e ?r" "ep_agent_id ?r = em_agent_id (ms_episodic ms)"
          by (simp_all add: episode_of_def observation_args_def keeps_entry_def)
        show ?thesis using n st r by (intro exI[of _ "?r # news"]) auto
      qed
    qed
  qed
qed

lemma rollback_rows:
  "(\<And>i. i \<in> set ids \<Longrightarrow> delete_ok i) \<Longrightarrow>
   ed_rows (rollback_persisted ag delete_ok ids db) = filter (\<lambda>r. \<not> (ep_id r \<in> set ids \<and> ep_agent_id r = ag)) (ed_rows db)"
proof (induction ids arbitrary: db)
  case (Cons i ids)
  then show ?case by (auto simp: delete_episode_def Let_def intro!: filter_cong)
qed simp

lemma dispatch_outcome:
  assumes "dispatch_child v handle child_id a now task_id slots workflow_id artifacts keys persist q db = (out, db')"
  obtains (unchanged) "db' = db" "\<forall>sr. out = Inr sr \<longrightarrow> \<not> (persist \<and> mo_admitted (sr_outcome sr) \<noteq> [])"
      "\<forall>sr. out = Inr sr \<longrightarrow> fst (merge_result (sr_result sr) q child_id artifacts keys) = Inr (sr_outcome sr)"
  | (failed) e entries where "out = Inl (Raised e)"
      "persist_admitted (sp_shown v) (sp_dumps v) (sp_delete_ok v) (sp_store v) a now slots entries db = (Inl e, db')"
  | (kept) sr where "out = Inr sr" "persist \<and> mo_admitted (sr_outcome sr) \<noteq> []" "fst (merge_result (sr_result sr) q child_id artifacts keys) = Inr (sr_outcome sr)"
      "persist_admitted (sp_shown v) (sp_dumps v) (sp_delete_ok v) (sp_store v) a now slots (mo_admitted (sr_outcome sr)) db = (Inr (sr_admitted_entry_ids sr), db')"
proof -
  let ?x = "bind_d (delegation_task (sp_dumps v) (sp_parent_agent_id v) task_id workflow_id q) (\<lambda>task.
           bind_d (raised (handle task)) (\<lambda>output.
           bind_d (extract_result (sp_loads v) (sp_shown v) (sp_parse v) output) (\<lambda>r.
           bind_d (enforce_output_schema (sp_schema v) q r) (\<lambda>_.
           bind_d (fst (merge_result r q child_id artifacts keys)) (\<lambda>out. Inr (r, out, output))))))"
  show ?thesis
  proof (cases ?x)
    case (Inl e)
    then have "db' = db" "out = Inl e" using assms by (simp_all add: dispatch_child_def)
    then show ?thesis using unchanged by simp
  next
    case (Inr y)
    then obtain r mo reply where y: "y = (r, mo, reply)" "fst (merge_result r q child_id artifacts keys) = Inr mo"
      by (auto simp: bind_d_Inr_iff)
    show ?thesis
    proof (cases "persist \<and> mo_admitted mo \<noteq> []")
      case False
      then have "db' = db" "out = Inr \<lparr>sr_result = r, sr_outcome = mo, sr_raw_output = reply, sr_admitted_entry_ids = []\<rparr>"
        using assms Inr y(1) by (auto simp: dispatch_child_def)
      then show ?thesis using False y(2) unchanged by simp
    next
      case True
      obtain res db1 where p: "persist_admitted (sp_shown v) (sp_dumps v) (sp_delete_ok v) (sp_store v) a now slots (mo_admitted mo) db = (res, db1)" by fastforce
      show ?thesis
      proof (cases res)
        case (Inl e)
        then show ?thesis using failed p assms Inr y(1) True by (auto simp: dispatch_child_def)
      next
        case (Inr ids)
        then show ?thesis using kept[of "\<lparr>sr_result = r, sr_outcome = mo, sr_raw_output = reply, sr_admitted_entry_ids = ids\<rparr>"] p assms \<open>?x = Inr y\<close> y True
          by (simp add: dispatch_child_def)
      qed
    qed
  qed
qed

text \<open>
  C34. A delegation keeps all of what it merged or none of it. When a dispatch raises, for whatever reason (a bad request, a failed or malformed
  answer, a schema violation, a store that breaks in the middle of the batch), the memory is what it was, provided the deletes of the
  rollback go through. When it returns and persists, one row per admitted write has been added, in order, each with its content, its capped
  importance and the tags that name its tier, key and source, under the ids it reports; a dispatch that is not to persist stores nothing.\<close>

theorem delegation_all_or_nothing:
  assumes "dispatch_child v handle child_id a now task_id slots workflow_id artifacts keys persist q db = (out, db')" "\<And>i. sp_delete_ok v i"
  shows "(case out of
      Inl _ \<Rightarrow> ed_rows db' = ed_rows db
    | Inr sr \<Rightarrow> fst (merge_result (sr_result sr) q child_id artifacts keys) = Inr (sr_outcome sr) \<and>
        (if persist \<and> mo_admitted (sr_outcome sr) \<noteq> []
         then \<exists>news. ed_rows db' = ed_rows db @ news \<and> map ep_id news = sr_admitted_entry_ids sr \<and>
                list_all2 (keeps_entry (sp_shown v) (em_agent_id (ms_episodic (sp_store v)))) (mo_admitted (sr_outcome sr)) news
         else db' = db))"
  using assms(1)
proof (cases rule: dispatch_outcome)
  case unchanged
  then show ?thesis by (auto split: sum.splits)
next
  case (failed e entries)
  let ?ag = "em_agent_id (ms_episodic (sp_store v))"
  obtain ids db1 where s: "store_admitted (sp_shown v) (sp_dumps v) (sp_store v) a now slots entries [] db = ((Some e, ids), db1)"
      "db' = rollback_persisted ?ag (sp_delete_ok v) (rev ids) db1"
    using failed(2) by (auto simp: persist_admitted_def split: prod.splits option.splits)
  from store_admitted_outcome[OF s(1)] obtain news where n: "ed_rows db1 = ed_rows db @ news" "ids = map ep_id news"
    "ep_id ` set news \<inter> ep_id ` set (ed_rows db) = {}" "\<forall>r \<in> set news. ep_agent_id r = ?ag" by auto
  have "ed_rows db' = filter (\<lambda>r. \<not> (ep_id r \<in> set (rev ids) \<and> ep_agent_id r = ?ag)) (ed_rows db @ news)"
    using s(2) n(1) rollback_rows assms(2) by simp
  also have "\<dots> = ed_rows db" using n(2-4) by (auto simp: filter_empty_conv intro!: filter_True)
  finally show ?thesis using failed(1) by simp
next
  case (kept sr)
  then obtain ids where s: "store_admitted (sp_shown v) (sp_dumps v) (sp_store v) a now slots (mo_admitted (sr_outcome sr)) [] db = ((None, sr_admitted_entry_ids sr), db')"
    by (auto simp: persist_admitted_def split: prod.splits option.splits)
  from store_admitted_outcome[OF s] show ?thesis using kept(1,2,3) by auto
qed



section \<open>Merge patches\<close>

text \<open>Values whose objects have no key twice, at any depth; parsed JSON is one.\<close>

fun keys_once :: "pyval \<Rightarrow> bool" where
  "keys_once (PyDict d) = (distinct (map fst d) \<and> (\<forall>(k, v) \<in> set d. keys_once v))"
| "keys_once (PyList xs) = (\<forall>x \<in> set xs. keys_once x)"
| "keys_once _ = True"

lemma patch_items_key: "k \<notin> fst ` set p \<Longrightarrow> map_of (patch_items out p) k = map_of out k"
proof (induction p arbitrary: out)
  case (Cons kv p)
  then show ?case by (cases kv) (auto simp: update_conv' delete_conv')
qed simp

lemma patch_items_value:
  "distinct (map fst p) \<Longrightarrow> (k, v) \<in> set p \<Longrightarrow>
   map_of (patch_items out p) k = (if v = PyNone then None else Some (apply_json_merge_patch (py_get out k) v))"
proof (induction p arbitrary: out)
  case (Cons kv p)
  obtain k0 v0 where kv: "kv = (k0, v0)" by (cases kv)
  show ?case
  proof (cases "k = k0")
    case True
    then have "v = v0" "k \<notin> fst ` set p" using Cons.prems kv by (auto simp: rev_image_eqI)
    then show ?thesis using kv True by (simp add: patch_items_key update_conv' delete_conv')
  next
    case False
    then have "(k, v) \<in> set p" "distinct (map fst p)" using Cons.prems kv by auto
    moreover have "py_get (if v0 = PyNone then AList.delete k0 out else AList.update k0 x out) k = py_get out k" for x
      using False by (simp add: py_get_def update_conv' delete_conv')
    ultimately show ?thesis using Cons.IH kv by simp
  qed
qed simp

lemma patch_items_settled:
  "(\<And>k v. (k, v) \<in> set p \<Longrightarrow> map_of out k = (if v = PyNone then None else Some (apply_json_merge_patch (py_get out k) v))) \<Longrightarrow> patch_items out p = out"
proof (induction p)
  case (Cons kv p)
  obtain k v where kv: "kv = (k, v)" by (cases kv)
  have h: "map_of out k = (if v = PyNone then None else Some (apply_json_merge_patch (py_get out k) v))" using Cons.prems kv by simp
  have same: "map_of out k = Some x \<Longrightarrow> AList.update k x out = out" for x by (induction out) (auto split: if_splits)
  have "k \<notin> fst ` set out \<Longrightarrow> AList.delete k out = out" by (induction out) auto
  then have "(if v = PyNone then AList.delete k out else AList.update k (apply_json_merge_patch (py_get out k) v) out) = out"
    using h same by (auto simp: map_of_eq_None_iff)
  then show ?case using Cons kv by simp
qed simp

lemma patch_again: "keys_once p \<Longrightarrow> apply_json_merge_patch (apply_json_merge_patch t p) p = apply_json_merge_patch t p"
proof (induction p arbitrary: t)
  case (PyDict d)
  let ?o = "patch_items (case t of PyDict d \<Rightarrow> d | _ \<Rightarrow> []) d"
  have "patch_items ?o d = ?o"
  proof (rule patch_items_settled)
    fix k v assume kv: "(k, v) \<in> set d"
    have val: "map_of ?o k = (if v = PyNone then None else Some (apply_json_merge_patch (py_get (case t of PyDict d \<Rightarrow> d | _ \<Rightarrow> []) k) v))"
      by (rule patch_items_value) (use PyDict.prems kv in auto)
    show "map_of ?o k = (if v = PyNone then None else Some (apply_json_merge_patch (py_get ?o k) v))"
    proof (cases "v = PyNone")
      case False
      have "keys_once v" using PyDict.prems kv by auto
      then show ?thesis using val False PyDict.IH[OF kv, of v] by (simp add: py_get_def)
    qed (use val in simp)
  qed
  then show ?case by simp
qed simp_all

text \<open>
  Artifacts are merged as RFC 7396 says. Under a patch without repeated keys, a key the patch does not name keeps its value, a key named
  with null is gone, any other named key holds what its own patch makes of the old value; a patch that is no object replaces the whole. Applying a
  patch a second time changes nothing, so a result that is delivered twice merges as if delivered once.\<close>

lemma merge_patch_rfc7396:
  assumes "keys_once patch"
  shows "apply_json_merge_patch (apply_json_merge_patch t patch) patch = apply_json_merge_patch t patch \<and>
    (case patch of
       PyDict p \<Rightarrow> (\<exists>out. apply_json_merge_patch t patch = PyDict out \<and>
         (\<forall>k. map_of out k =
            (case map_of p k of
               None \<Rightarrow> map_of (case t of PyDict d \<Rightarrow> d | _ \<Rightarrow> []) k
             | Some v \<Rightarrow> if v = PyNone then None else Some (apply_json_merge_patch (py_get (case t of PyDict d \<Rightarrow> d | _ \<Rightarrow> []) k) v))))
     | _ \<Rightarrow> apply_json_merge_patch t patch = patch)"
proof -
  have "\<exists>out. apply_json_merge_patch t (PyDict p) = PyDict out \<and>
         (\<forall>k. map_of out k =
            (case map_of p k of
               None \<Rightarrow> map_of (case t of PyDict d \<Rightarrow> d | _ \<Rightarrow> []) k
             | Some v \<Rightarrow> if v = PyNone then None else Some (apply_json_merge_patch (py_get (case t of PyDict d \<Rightarrow> d | _ \<Rightarrow> []) k) v)))"
    if "patch = PyDict p" for p
  proof (intro exI conjI allI)
    show "apply_json_merge_patch t (PyDict p) = PyDict (patch_items (case t of PyDict d \<Rightarrow> d | _ \<Rightarrow> []) p)" by simp
    fix k
    show "map_of (patch_items (case t of PyDict d \<Rightarrow> d | _ \<Rightarrow> []) p) k =
        (case map_of p k of None \<Rightarrow> map_of (case t of PyDict d \<Rightarrow> d | _ \<Rightarrow> []) k
         | Some v \<Rightarrow> if v = PyNone then None else Some (apply_json_merge_patch (py_get (case t of PyDict d \<Rightarrow> d | _ \<Rightarrow> []) k) v))"
    proof (cases "map_of p k")
      case None
      then have "k \<notin> fst ` set p" by (simp add: map_of_eq_None_iff)
      then show ?thesis using None patch_items_key by simp
    next
      case (Some v)
      then show ?thesis using patch_items_value[of p k v] map_of_SomeD[OF Some] assms that by simp
    qed
  qed
  then show ?thesis using patch_again[OF assms] by (cases patch) auto
qed


section \<open>The properties on a sample delegation\<close>

definition sample_write :: "string \<Rightarrow> pyfloat \<Rightarrow> MemoryWriteEntry" where
  "sample_write key importance =
     \<lparr>mw_tier = ''notes'', mw_key = key, mw_content = ''seen'', mw_importance = importance, mw_ttl_seconds = None, mw_tags = [PyStr ''tag''],
      mw_merge_strategy = ''reject_on_conflict'', mw_source_agent = PyNone\<rparr>"

definition sample_request :: DelegationRequest where
  "sample_request =
     \<lparr>dq_objective = ''look'', dq_acceptance_criteria = [], dq_context_package = [],
      dq_budget = \<lparr>be_tokens = 0, be_timeout_seconds = Fin 0, be_max_llm_calls = 0\<rparr>, dq_allowed_tools = [], dq_output_schema = [],
      dq_trust_ceiling = Fin (8/10), dq_max_memory_writes = 2\<rparr>"

definition sample_result :: DelegationResult where
  "sample_result = \<lparr>de_summary = ''done'', de_status = ''completed'', de_artifacts = [(''a'', PyInt 1)], de_decisions = [],
     de_memory_writes = [sample_write ''k'' (Fin 1), sample_write ''k'' (Fin (1/2)), sample_write ''l'' (Fin 1)], de_risks = []\<rparr>"

theorem merge_on_callers_terms_witness:
  "\<exists>out ms. merge_result sample_result sample_request ''kid'' None [] = (Inr out, ms) \<and> length (mo_admitted out) = 1 \<and>
     re_index ` set (mo_rejected out) = {1, 2}"
proof -
  have "\<exists>out. fst (merge_result sample_result sample_request ''kid'' None []) = Inr out \<and> length (mo_admitted out) = 1 \<and> map re_index (mo_rejected out) = [2, 1]"
    by (rule exI[of _ "case fst (merge_result sample_result sample_request ''kid'' None []) of Inr out \<Rightarrow> out"]) code_simp
  then obtain out ms where m: "merge_result sample_result sample_request ''kid'' None [] = (Inr out, ms)" "length (mo_admitted out) = 1" "map re_index (mo_rejected out) = [2, 1]"
    by (metis prod.collapse)
  have q: "validate_request sample_request = Inr ()" by code_simp
  have "set (map re_index (mo_rejected out)) = {1, 2}" using m(3) by auto
  then show ?thesis using merge_on_callers_terms[OF m(1) q] m by auto
qed

definition sample_store :: MemoryStore where
  "sample_store = \<lparr>ms_initialized = True, ms_episodic = ada_episodes, ms_snapshot = em_snapshot ada_episodes, ms_lambda_per_day = 0, ms_c_min = 0,
     ms_stale_alert_threshold = 0\<rparr>"

definition sample_spawn :: spawn_env where
  "sample_spawn =
     \<lparr>sp_loads = (\<lambda>_. Some (PyDict [(''status'', PyStr ''completed''),
        (''memory_writes'', PyList (map (\<lambda>k. PyDict [(''tier'', PyStr ''notes''), (''key'', PyStr k), (''content'', PyStr ''seen'')]) [''k'', ''l'']))])),
      sp_dumps = (\<lambda>_. ''{}''), sp_shown = (\<lambda>_. []), sp_parse = (\<lambda>_. None), sp_schema = \<lparr>sc_schema_ok = (\<lambda>_. True), sc_conforms = (\<lambda>_ _. True)\<rparr>,
      sp_parent_agent_id = ''ada'', sp_store = sample_store, sp_delete_ok = (\<lambda>_. True)\<rparr>"

definition sample_dispatch :: "(string \<times> bool) list \<Rightarrow> SpawnResult delegated \<times> episode_db" where
  "sample_dispatch slots =
     dispatch_child sample_spawn (\<lambda>_. Inr \<lparr>to_status = TS_COMPLETED, to_metadata = [(DELEGATION_RESULT_KEY, PyStr ''r'')]\<rparr>) ''kid'' quiet 5 ''1'' slots None None []
       True sample_request two_episodes"

theorem delegation_all_or_nothing_witness:
  "length (ed_rows (snd (sample_dispatch [(''n1'', True), (''n2'', True)]))) = 4 \<and>
   ed_rows (snd (sample_dispatch [(''n1'', True), (''n2'', False)])) = ed_rows two_episodes"
proof -
  let ?d = "sample_dispatch [(''n1'', True), (''n2'', False)]"
  have e: "fst ?d = Inl (Raised RuntimeError)" by code_simp
  have "dispatch_child sample_spawn (\<lambda>_. Inr \<lparr>to_status = TS_COMPLETED, to_metadata = [(DELEGATION_RESULT_KEY, PyStr ''r'')]\<rparr>) ''kid'' quiet 5 ''1''
      [(''n1'', True), (''n2'', False)] None None [] True sample_request two_episodes = (fst ?d, snd ?d)" unfolding sample_dispatch_def by simp
  from delegation_all_or_nothing[OF this] have "ed_rows (snd ?d) = ed_rows two_episodes" unfolding e by (simp add: sample_spawn_def)
  moreover have "length (ed_rows (snd (sample_dispatch [(''n1'', True), (''n2'', True)]))) = 4" by code_simp
  ultimately show ?thesis by blast
qed

theorem merge_patch_rfc7396_witness:
  "apply_json_merge_patch (apply_json_merge_patch (PyDict [(''a'', PyInt 1), (''b'', PyInt 2)]) (PyDict [(''a'', PyNone), (''c'', PyDict [(''d'', PyNone)])]))
     (PyDict [(''a'', PyNone), (''c'', PyDict [(''d'', PyNone)])]) = PyDict [(''b'', PyInt 2), (''c'', PyDict [])]"
  using merge_patch_rfc7396[of "PyDict [(''a'', PyNone), (''c'', PyDict [(''d'', PyNone)])]" "PyDict [(''a'', PyInt 1), (''b'', PyInt 2)]"] by simp

text \<open>An importance that is no number raises out of the reading, past the handler that turns a bad answer into a failed delegation.\<close>

lemma bad_number_escapes:
  "extract_result (\<lambda>_. Some (PyDict [(''memory_writes'', PyList [PyDict [(''importance'', PyStr ''high'')]])])) (\<lambda>_. []) (\<lambda>_. None)
     \<lparr>to_status = TS_COMPLETED, to_metadata = [(DELEGATION_RESULT_KEY, PyStr ''r'')]\<rparr> = Inl (Raised ValueError)"
  by code_simp

end
