(* ===== verification/Reply_Shaping.thy ===== *)
theory Reply_Shaping
  imports Dispatch Injection_Gate Deliberation
begin

text \<open>
  From the text a model answered to the actions of a turn: parsing and checking them (\<open>src/agents/persona_runtime/action_parser.py\<close>,
  \<open>action_validation.py\<close>), binding them to the channel the turn came from (\<open>channel_reply.py\<close>) and keeping the turn in that channel
  (\<open>single_channel_turn.py\<close>). A payload is whatever JSON value the model wrote, so reading a key of one that is no object raises as it does in the code.
  The JSON reader, \<open>int\<close> of text and \<open>str\<close> of other values are arguments. The ellipsis of the empty reply is written as three dots.
\<close>


section \<open>Reading actions\<close>

record ParsedAction =
  px_type :: ActionType
  px_payload :: pyval

definition ACTION_TYPES :: "(string \<times> ActionType) list" where
  "ACTION_TYPES =
     [(''send_channel_message'', SEND_CHANNEL_MESSAGE), (''complete_task'', COMPLETE_TASK), (''delegate'', DELEGATE_ACTION),
      (''spawn_sub_agent'', SPAWN_SUB_AGENT), (''use_tool'', USE_TOOL), (''request_approval'', REQUEST_APPROVAL), (''grant_approval'', GRANT_APPROVAL),
      (''deny_approval'', DENY_APPROVAL), (''do_nothing'', DO_NOTHING), (''end_interaction_vote'', END_INTERACTION_VOTE)]"

definition action_type_of :: "pyval \<Rightarrow> ActionType option" where
  "action_type_of v = (case v of PyStr s \<Rightarrow> map_of ACTION_TYPES s | _ \<Rightarrow> None)"

definition complete_with :: "string \<Rightarrow> ParsedAction" where
  "complete_with t = \<lparr>px_type = COMPLETE_TASK, px_payload = PyDict [(''result'', PyStr t)]\<rparr>"

definition noop_action :: ParsedAction where "noop_action = \<lparr>px_type = DO_NOTHING, px_payload = PyDict []\<rparr>"

text \<open>\<open>action.payload.get(key, default)\<close>.\<close>

definition payload_get :: "ParsedAction \<Rightarrow> string \<Rightarrow> pyval \<Rightarrow> pyval result" where
  "payload_get a k d = bind_r (py_dict_of (px_payload a)) (\<lambda>p. Inr (py_get_or p k d))"

definition nonblank :: "pyval \<Rightarrow> bool" where
  "nonblank v = (case v of PyStr s \<Rightarrow> py_strip s \<noteq> [] | _ \<Rightarrow> False)"

definition MAX_SUB_AGENT_TOKENS :: int where "MAX_SUB_AGENT_TOKENS = 100000"
definition MAX_SUB_AGENT_TIMEOUT_SECONDS :: int where "MAX_SUB_AGENT_TIMEOUT_SECONDS = 3600"
definition MAX_SUB_AGENT_LLM_CALLS :: int where "MAX_SUB_AGENT_LLM_CALLS = 50"

definition SUB_AGENT_CAPS :: "(string \<times> int) list" where
  "SUB_AGENT_CAPS =
     [(''max_tokens'', MAX_SUB_AGENT_TOKENS), (''timeout_seconds'', MAX_SUB_AGENT_TIMEOUT_SECONDS), (''max_llm_calls'', MAX_SUB_AGENT_LLM_CALLS)]"

definition id_char :: "char \<Rightarrow> bool" where
  "id_char c = (let n = of_char c :: nat in 97 \<le> n \<and> n \<le> 122 \<or> 48 \<le> n \<and> n \<le> 57)"

definition id_text :: "string \<Rightarrow> bool" where
  "id_text s = (s \<noteq> [] \<and> list_all (\<lambda>c. id_char c \<or> c = CHR ''-'') s \<and> id_char (hd s) \<and> id_char (last s))"

text \<open>The pattern ends with \<open>$\<close>, which also matches before a final newline.\<close>

definition AGENT_ID_RE :: "string \<Rightarrow> bool" where
  "AGENT_ID_RE s = (id_text s \<or> s \<noteq> [] \<and> last s = CHR 10 \<and> id_text (butlast s))"

definition is_agent_id :: "pyval \<Rightarrow> bool" where
  "is_agent_id v = (case v of PyStr s \<Rightarrow> AGENT_ID_RE s | _ \<Rightarrow> False)"

definition py_int_of :: "(string \<Rightarrow> int option) \<Rightarrow> pyval \<Rightarrow> int result" where
  "py_int_of int_str v =
     (case v of
        PyInt i \<Rightarrow> Inr i
      | PyBool b \<Rightarrow> Inr (if b then 1 else 0)
      | PyFloat (Fin r) \<Rightarrow> Inr (if r < 0 then \<lceil>r\<rceil> else \<lfloor>r\<rfloor>)
      | PyFloat NaN \<Rightarrow> Inl ValueError
      | PyFloat _ \<Rightarrow> Inl OverflowError
      | PyStr s \<Rightarrow> (case int_str s of Some i \<Rightarrow> Inr i | None \<Rightarrow> Inl ValueError)
      | _ \<Rightarrow> Inl TypeError)"

definition clamp_field :: "(string \<Rightarrow> int option) \<Rightarrow> string \<times> int \<Rightarrow> pydict \<Rightarrow> pydict result" where
  "clamp_field int_str field p =
     (case map_of p (fst field) of
        None \<Rightarrow> Inr p
      | Some v \<Rightarrow>
          (case py_int_of int_str v of
             Inr i \<Rightarrow> Inr (if i > snd field then AList.update (fst field) (PyInt (snd field)) p else p)
           | Inl e \<Rightarrow> if e \<in> {TypeError, ValueError} then Inr (AList.delete (fst field) p) else Inl e))"

fun clamp_fields :: "(string \<Rightarrow> int option) \<Rightarrow> (string \<times> int) list \<Rightarrow> pydict \<Rightarrow> pydict result" where
  "clamp_fields int_str [] p = Inr p"
| "clamp_fields int_str (f # fs) p = bind_r (clamp_field int_str f p) (clamp_fields int_str fs)"

definition validate_action_payload :: "(string \<Rightarrow> int option) \<Rightarrow> ParsedAction \<Rightarrow> ParsedAction result" where
  "validate_action_payload int_str a =
     (case px_type a of
        DELEGATE_ACTION \<Rightarrow> bind_r (py_dict_of (px_payload a)) (\<lambda>p.
          Inr (if \<not> is_agent_id (py_get p ''agent_id'') then noop_action else if \<not> nonblank (py_get p ''task'') then noop_action else a))
      | SEND_CHANNEL_MESSAGE \<Rightarrow> bind_r (py_dict_of (px_payload a)) (\<lambda>p.
          Inr (if \<not> nonblank (py_get p ''channel_id'') then noop_action else if \<not> nonblank (py_get p ''content'') then noop_action else a))
      | SPAWN_SUB_AGENT \<Rightarrow> bind_r (py_dict_of (px_payload a)) (\<lambda>p.
          if \<not> nonblank (py_get p ''role'') then Inr noop_action
          else if \<not> nonblank (py_get p ''task'') then Inr noop_action
          else bind_r (clamp_fields int_str SUB_AGENT_CAPS p) (\<lambda>p'. Inr (a\<lparr>px_payload := PyDict p'\<rparr>)))
      | _ \<Rightarrow> Inr a)"

definition CODE_FENCE :: string where "CODE_FENCE = [CHR 96, CHR 96, CHR 96]"

text \<open>The text before the first place a marker stands at, and the text after it.\<close>

fun cut_on :: "string \<Rightarrow> string \<Rightarrow> (string \<times> string) option" where
  "cut_on p [] = (if p = [] then Some ([], []) else None)"
| "cut_on p (c # s) =
     (if take (length p) (c # s) = p then Some ([], drop (length p) (c # s))
      else map_option (\<lambda>(before, after). (c # before, after)) (cut_on p s))"

definition parse_one :: "(string \<Rightarrow> int option) \<Rightarrow> pyval \<Rightarrow> ParsedAction option result" where
  "parse_one int_str raw =
     bind_r (py_dict_of raw) (\<lambda>d.
       case action_type_of (py_get_or d ''action_type'' (PyStr ''do_nothing'')) of
         None \<Rightarrow> Inr None
       | Some t \<Rightarrow> bind_r (validate_action_payload int_str \<lparr>px_type = t, px_payload = py_get_or d ''payload'' (PyDict [])\<rparr>) (\<lambda>a. Inr (Some a)))"

definition read_actions :: "(string \<Rightarrow> int option) \<Rightarrow> pyval \<Rightarrow> ParsedAction list result" where
  "read_actions int_str raw =
     bind_r (py_iter raw) (\<lambda>xs. bind_r (mapM_r (parse_one int_str) xs) (\<lambda>found. Inr (List.map_filter (\<lambda>a. a) found)))"

definition prose_around :: "string \<Rightarrow> string \<Rightarrow> string" where
  "prose_around before after = join [CHR 10, CHR 10] (filter (\<lambda>p. p \<noteq> []) [py_strip before, py_strip after])"

definition finish_parse :: "(string \<Rightarrow> int option) \<Rightarrow> string \<Rightarrow> string \<Rightarrow> pyval \<Rightarrow> ParsedAction list result" where
  "finish_parse int_str t prose raw =
     bind_r (read_actions int_str raw) (\<lambda>as'.
       Inr (if as' = [] then [complete_with t]
            else if prose \<noteq> [] \<and> list_ex (\<lambda>a. px_type a = END_INTERACTION_VOTE) as' then as' @ [complete_with prose] else as'))"

text \<open>
  The fence pattern takes the first opening fence and the first closing one after it; the blanks it eats at both inner edges are stripped from the
  group anyway.
\<close>

definition parse_actions :: "(string \<Rightarrow> pyval option) \<Rightarrow> (string \<Rightarrow> int option) \<Rightarrow> string option \<Rightarrow> ParsedAction list result" where
  "parse_actions loads int_str response_text =
     (let t = or_str response_text []; stripped = py_strip t
      in if take 1 stripped = ''['' then
           (case loads stripped of None \<Rightarrow> Inr [complete_with t] | Some raw \<Rightarrow> finish_parse int_str t [] raw)
         else case cut_on (CODE_FENCE @ ''json'') stripped of
           None \<Rightarrow> Inr [complete_with t]
         | Some (before, rest) \<Rightarrow>
             (case cut_on CODE_FENCE rest of
                None \<Rightarrow> Inr [complete_with t]
              | Some (inner, after) \<Rightarrow>
                  (case loads (py_strip inner) of None \<Rightarrow> Inr [complete_with t] | Some raw \<Rightarrow> finish_parse int_str t (prose_around before after) raw)))"


section \<open>Binding to the channel of the turn\<close>

definition DM_EMPTY_REPLY_FALLBACK :: string where "DM_EMPTY_REPLY_FALLBACK = ''...''"
definition REPLY_DM_PREFIX :: string where "REPLY_DM_PREFIX = ''dm:''"
definition REPLY_GROUP_PREFIX :: string where "REPLY_GROUP_PREFIX = ''group:''"

definition starts_with :: "string \<Rightarrow> string \<Rightarrow> bool" where "starts_with p s = (take (length p) s = p)"

definition channel_text :: "(pyval \<Rightarrow> string) \<Rightarrow> ParsedAction \<Rightarrow> string result" where
  "channel_text shown a = bind_r (payload_get a ''channel_id'' (PyStr [])) (\<lambda>c. Inr (py_strip (str_or_empty shown c)))"

definition payload_with :: "ParsedAction \<Rightarrow> string \<Rightarrow> string \<Rightarrow> pyval" where
  "payload_with a k v = (case px_payload a of PyDict p \<Rightarrow> PyDict (AList.update k (PyStr v) p) | x \<Rightarrow> x)"

definition off_channel :: "AgentEvent \<Rightarrow> bool" where
  "off_channel ev = (event_type ev \<noteq> CHANNEL_MESSAGE \<or> or_str (channel_id ev) [] = [])"

definition bind_vote :: "(pyval \<Rightarrow> string) \<Rightarrow> string \<Rightarrow> ParsedAction \<Rightarrow> ParsedAction result" where
  "bind_vote shown cid a =
     (if px_type a = END_INTERACTION_VOTE
      then bind_r (channel_text shown a) (\<lambda>c. Inr (if c = [] then \<lparr>px_type = END_INTERACTION_VOTE, px_payload = payload_with a ''channel_id'' cid\<rparr> else a))
      else Inr a)"

definition bind_end_vote_channel :: "(pyval \<Rightarrow> string) \<Rightarrow> AgentEvent \<Rightarrow> ParsedAction list \<Rightarrow> ParsedAction list result" where
  "bind_end_vote_channel shown ev as' =
     (if off_channel ev then Inr as' else mapM_r (bind_vote shown (or_str (channel_id ev) [])) as')"

fun find_vote :: "(pyval \<Rightarrow> string) \<Rightarrow> nat \<Rightarrow> ParsedAction list \<Rightarrow> (nat \<times> string) option result" where
  "find_vote shown i [] = Inr None"
| "find_vote shown i (a # as') =
     (if px_type a \<noteq> END_INTERACTION_VOTE then find_vote shown (Suc i) as'
      else bind_r (channel_text shown a) (\<lambda>c. if starts_with REPLY_GROUP_PREFIX c then Inr (Some (i, c)) else find_vote shown (Suc i) as'))"

text \<open>The free text beside the vote: a message to its own channel, or the result of a task.\<close>

definition prose_text :: "pyval \<Rightarrow> string option" where
  "prose_text v = (case v of PyStr s \<Rightarrow> if py_strip s \<noteq> [] then Some (py_strip s) else None | _ \<Rightarrow> None)"

definition says :: "(pyval \<Rightarrow> string) \<Rightarrow> string \<Rightarrow> ParsedAction \<Rightarrow> string option result" where
  "says shown vote_channel a =
     (if px_type a = SEND_CHANNEL_MESSAGE then
        bind_r (channel_text shown a) (\<lambda>c.
          if c = vote_channel then bind_r (payload_get a ''content'' (PyStr [])) (\<lambda>v. Inr (prose_text v)) else Inr None)
      else if px_type a = COMPLETE_TASK then bind_r (payload_get a ''result'' (PyStr [])) (\<lambda>v. Inr (prose_text v))
      else Inr None)"

definition prose_of :: "(pyval \<Rightarrow> string) \<Rightarrow> nat \<Rightarrow> string \<Rightarrow> nat \<times> ParsedAction \<Rightarrow> string option result" where
  "prose_of shown vote_idx vote_channel ia = (if fst ia = vote_idx then Inr None else says shown vote_channel (snd ia))"

fun keep_first :: "string list \<Rightarrow> string list \<Rightarrow> string list" where
  "keep_first seen [] = []"
| "keep_first seen (x # xs) = (if x \<in> set seen then keep_first seen xs else x # keep_first (x # seen) xs)"

definition vote_content :: "(pyval \<Rightarrow> string) \<Rightarrow> ParsedAction \<Rightarrow> string" where
  "vote_content shown a = (case px_payload a of PyDict p \<Rightarrow> py_strip (str_or_empty shown (py_get_or p ''content'' (PyStr []))) | _ \<Rightarrow> [])"

definition folded_content :: "(pyval \<Rightarrow> string) \<Rightarrow> ParsedAction \<Rightarrow> string list \<Rightarrow> string" where
  "folded_content shown vote parts =
     (let existing = vote_content shown vote
      in join [CHR 10, CHR 10] (keep_first [] (parts @ (if existing = [] then [] else [existing]))))"

fun rebuild_votes :: "nat \<Rightarrow> string \<Rightarrow> nat \<Rightarrow> ParsedAction list \<Rightarrow> string option list \<Rightarrow> ParsedAction list" where
  "rebuild_votes vote_idx content i (a # as') (p # ps) =
     (if p \<noteq> None then rebuild_votes vote_idx content (Suc i) as' ps
      else (if i = vote_idx then \<lparr>px_type = END_INTERACTION_VOTE, px_payload = payload_with a ''content'' content\<rparr> else a) # rebuild_votes vote_idx content (Suc i) as' ps)"
| "rebuild_votes _ _ _ _ _ = []"

definition fold_prose_into_end_vote :: "(pyval \<Rightarrow> string) \<Rightarrow> AgentEvent \<Rightarrow> ParsedAction list \<Rightarrow> ParsedAction list result" where
  "fold_prose_into_end_vote shown ev as' =
     (if off_channel ev then Inr as'
      else bind_r (find_vote shown 0 as') (\<lambda>found.
        case found of
          None \<Rightarrow> Inr as'
        | Some (vote_idx, vote_channel) \<Rightarrow>
            bind_r (mapM_r (prose_of shown vote_idx vote_channel) (enumerate 0 as')) (\<lambda>prose.
              let parts = List.map_filter (\<lambda>p. p) prose
              in Inr (if parts = [] then as'
                      else rebuild_votes vote_idx (folded_content shown (as' ! vote_idx) parts) 0 as' prose))))"

fun already_sends :: "string \<Rightarrow> ParsedAction list \<Rightarrow> bool result" where
  "already_sends cid [] = Inr False"
| "already_sends cid (a # as') =
     (if px_type a \<noteq> SEND_CHANNEL_MESSAGE then already_sends cid as'
      else bind_r (payload_get a ''channel_id'' PyNone) (\<lambda>c. if c = PyStr cid then Inr True else already_sends cid as'))"

fun first_result :: "ParsedAction list \<Rightarrow> string option result" where
  "first_result [] = Inr None"
| "first_result (a # as') =
     (if px_type a \<noteq> COMPLETE_TASK then first_result as'
      else bind_r (payload_get a ''result'' (PyStr [])) (\<lambda>v. case v of PyStr s \<Rightarrow> if py_strip s \<noteq> [] then Inr (Some s) else first_result as' | _ \<Rightarrow> first_result as'))"

definition reply_mentions :: "AgentEvent \<Rightarrow> pyval list" where
  "reply_mentions ev =
     (let forced = truthy (py_get (payload ev) ''convene'') \<or> truthy (py_get (payload ev) ''synthesis_turn'');
          sender = or_str (sender_id ev) []
      in if forced \<or> sender = [] then [] else [PyStr sender])"

definition channel_reply :: "AgentEvent \<Rightarrow> string \<Rightarrow> ParsedAction" where
  "channel_reply ev reply_text =
     \<lparr>px_type = SEND_CHANNEL_MESSAGE,
      px_payload = PyDict [(''channel_id'', PyStr (or_str (channel_id ev) [])), (''content'', PyStr reply_text), (''mentions'', PyList (reply_mentions ev))]\<rparr>"

definition promote_reply :: "AgentEvent \<Rightarrow> ParsedAction list \<Rightarrow> ParsedAction list result" where
  "promote_reply ev as' =
     (let cid = or_str (channel_id ev) []
      in bind_r (already_sends cid as') (\<lambda>sent.
           if sent then Inr as'
           else bind_r (first_result as') (\<lambda>found.
             case found of
               Some reply_text \<Rightarrow> Inr (channel_reply ev reply_text # as')
             | None \<Rightarrow>
                 if \<not> starts_with REPLY_DM_PREFIX cid then Inr as'
                 else Inr (channel_reply ev DM_EMPTY_REPLY_FALLBACK # as'))))"

definition synthesize_channel_reply :: "(pyval \<Rightarrow> string) \<Rightarrow> AgentEvent \<Rightarrow> ParsedAction list \<Rightarrow> ParsedAction list result" where
  "synthesize_channel_reply shown ev as' =
     (if off_channel ev then Inr as'
      else bind_r (bind_end_vote_channel shown ev as') (\<lambda>as1. bind_r (fold_prose_into_end_vote shown ev as1) (promote_reply ev)))"

definition guard_action :: "string \<Rightarrow> ParsedAction \<Rightarrow> ParsedAction result" where
  "guard_action cid a =
     (if px_type a = SEND_CHANNEL_MESSAGE
      then bind_r (payload_get a ''channel_id'' PyNone) (\<lambda>t.
        Inr (case t of PyStr s \<Rightarrow> if s \<noteq> [] \<and> s \<noteq> cid then noop_action else a | _ \<Rightarrow> a))
      else Inr a)"

definition enforce_single_channel_turn :: "AgentEvent \<Rightarrow> ParsedAction list \<Rightarrow> ParsedAction list result" where
  "enforce_single_channel_turn ev as' =
     (if event_type ev \<notin> set CHANNEL_ACTING_EVENT_TYPES \<or> or_str (channel_id ev) [] = [] then Inr as'
      else mapM_r (guard_action (or_str (channel_id ev) [])) as')"


section \<open>Messages of a turn are complete\<close>

text \<open>A message to a channel has an object as its payload, with a channel and some content.\<close>

definition complete_send :: "ParsedAction \<Rightarrow> bool" where
  "complete_send a = (px_type a = SEND_CHANNEL_MESSAGE \<longrightarrow>
     (\<exists>p s t. px_payload a = PyDict p \<and> py_get p ''channel_id'' = PyStr s \<and> s \<noteq> [] \<and> py_get p ''content'' = PyStr t \<and> py_strip t \<noteq> []))"

lemma nonblank_iff: "nonblank v \<longleftrightarrow> (\<exists>s. v = PyStr s \<and> py_strip s \<noteq> [])"
  by (auto simp: nonblank_def split: pyval.splits)

lemma complete_send_simps [simp]: "complete_send (complete_with t)" "complete_send noop_action"
  by (simp_all add: complete_send_def complete_with_def noop_action_def)

lemma validated_complete: "validate_action_payload int_str a = Inr a' \<Longrightarrow> complete_send a'"
  by (cases "px_type a")
    (auto simp: validate_action_payload_def bind_r_Inr_iff nonblank_iff py_dict_of_def complete_send_def noop_action_def split: pyval.splits if_splits)

lemma mapM_r_all: "mapM_r f xs = Inr ys \<Longrightarrow> (\<And>x y. f x = Inr y \<Longrightarrow> x \<in> set xs \<Longrightarrow> P y) \<Longrightarrow> \<forall>y \<in> set ys. P y"
  by (induction xs arbitrary: ys) (auto simp: bind_r_Inr_iff)

lemma read_actions_complete:
  assumes "read_actions int_str raw = Inr as'" shows "\<forall>a \<in> set as'. complete_send a"
proof -
  obtain xs found where f: "mapM_r (parse_one int_str) xs = Inr found" "as' = List.map_filter (\<lambda>a. a) found"
    using assms by (auto simp: read_actions_def bind_r_Inr_iff)
  have "\<forall>o' \<in> set found. \<forall>a. o' = Some a \<longrightarrow> complete_send a"
    by (rule mapM_r_all[OF f(1)]) (auto simp: parse_one_def bind_r_Inr_iff validated_complete split: option.splits)
  then show ?thesis by (auto simp: f(2) List.map_filter_def)
qed

lemma finish_complete: "finish_parse int_str t prose raw = Inr as' \<Longrightarrow> \<forall>a \<in> set as'. complete_send a"
  using read_actions_complete by (auto simp: finish_parse_def bind_r_Inr_iff split: if_splits)

lemma parse_complete:
  assumes "parse_actions loads int_str t = Inr as'" shows "\<forall>a \<in> set as'. complete_send a"
  using assms finish_complete
  by (auto simp: parse_actions_def Let_def split: if_splits option.splits)

lemma bind_vote_complete: "bind_vote shown c a = Inr a' \<Longrightarrow> complete_send a \<Longrightarrow> complete_send a'"
  by (auto simp: bind_vote_def bind_r_Inr_iff complete_send_def split: if_splits)

lemma rebuild_complete: "(\<forall>a \<in> set as'. complete_send a) \<Longrightarrow> \<forall>a \<in> set (rebuild_votes k c i as' ps). complete_send a"
  by (induction k c i as' ps rule: rebuild_votes.induct) (auto simp: complete_send_def)

lemma bind_end_vote_complete:
  "bind_end_vote_channel shown ev as' = Inr bs \<Longrightarrow> \<forall>a \<in> set as'. complete_send a \<Longrightarrow> \<forall>a \<in> set bs. complete_send a"
  unfolding bind_end_vote_channel_def by (auto split: if_splits dest!: mapM_r_all[where P = complete_send] intro: bind_vote_complete)

lemma fold_prose_complete:
  "fold_prose_into_end_vote shown ev as' = Inr bs \<Longrightarrow> \<forall>a \<in> set as'. complete_send a \<Longrightarrow> \<forall>a \<in> set bs. complete_send a"
  using rebuild_complete by (fastforce simp: fold_prose_into_end_vote_def bind_r_Inr_iff Let_def split: if_splits option.splits prod.splits)

lemma first_result_nonblank: "first_result as' = Inr (Some t) \<Longrightarrow> py_strip t \<noteq> []"
proof (induction as')
  case (Cons a as')
  show ?case
  proof (cases "px_type a = COMPLETE_TASK")
    case True
    then obtain v where v: "payload_get a ''result'' (PyStr []) = Inr v" using Cons.prems by (auto simp: bind_r_Inr_iff)
    then show ?thesis using Cons True by (cases v) (auto split: if_splits)
  qed (use Cons in simp)
qed simp

lemma channel_reply_complete: "or_str (channel_id ev) [] \<noteq> [] \<Longrightarrow> py_strip t \<noteq> [] \<Longrightarrow> complete_send (channel_reply ev t)"
  by (simp add: complete_send_def channel_reply_def)

lemma fallback_nonblank: "py_strip DM_EMPTY_REPLY_FALLBACK \<noteq> []" by code_simp

lemma promote_reply_outcome:
  assumes "promote_reply ev as' = Inr bs"
  shows "already_sends (or_str (channel_id ev) []) as' = Inr True \<and> bs = as' \<or>
     (\<exists>t. py_strip t \<noteq> [] \<and> bs = channel_reply ev t # as') \<or>
     \<not> starts_with REPLY_DM_PREFIX (or_str (channel_id ev) []) \<and> first_result as' = Inr None \<and> bs = as'"
proof -
  obtain sent where s: "already_sends (or_str (channel_id ev) []) as' = Inr sent"
    using assms by (auto simp: promote_reply_def Let_def bind_r_Inr_iff)
  show ?thesis
  proof (cases sent)
    case False
    then obtain found where f: "first_result as' = Inr found" using assms s by (auto simp: promote_reply_def Let_def bind_r_Inr_iff)
    show ?thesis using assms s False f first_result_nonblank fallback_nonblank
      by (cases found) (auto simp: promote_reply_def Let_def split: if_splits)
  qed (use assms s in \<open>simp add: promote_reply_def Let_def\<close>)
qed

lemma synthesize_steps:
  assumes "synthesize_channel_reply shown ev as' = Inr bs" "\<not> off_channel ev"
  obtains as1 as2 where "bind_end_vote_channel shown ev as' = Inr as1" "fold_prose_into_end_vote shown ev as1 = Inr as2" "promote_reply ev as2 = Inr bs"
  using assms by (auto simp: synthesize_channel_reply_def bind_r_Inr_iff)

lemma synthesize_complete:
  assumes "synthesize_channel_reply shown ev as' = Inr bs" "\<forall>a \<in> set as'. complete_send a"
  shows "\<forall>a \<in> set bs. complete_send a"
proof (cases "off_channel ev")
  case False
  then have c: "or_str (channel_id ev) [] \<noteq> []" by (simp add: off_channel_def)
  obtain as1 as2 where s: "bind_end_vote_channel shown ev as' = Inr as1" "fold_prose_into_end_vote shown ev as1 = Inr as2" "promote_reply ev as2 = Inr bs"
    using synthesize_steps[OF assms(1) False] .
  have "\<forall>a \<in> set as2. complete_send a" using fold_prose_complete[OF s(2)] bind_end_vote_complete[OF s(1)] assms(2) by blast
  then show ?thesis using promote_reply_outcome[OF s(3)] channel_reply_complete[OF c] by auto
qed (use assms in \<open>simp add: synthesize_channel_reply_def\<close>)


section \<open>A turn stays in its room\<close>

text \<open>The one channel a message of a turn names.\<close>

definition sends_to :: "string \<Rightarrow> ParsedAction \<Rightarrow> bool" where
  "sends_to c a = (px_type a = SEND_CHANNEL_MESSAGE \<and>
     (\<exists>p t. px_payload a = PyDict p \<and> py_get p ''channel_id'' = PyStr c \<and> py_get p ''content'' = PyStr t \<and> py_strip t \<noteq> []))"

lemma payload_get_dict: "px_payload a = PyDict p \<Longrightarrow> payload_get a k d = Inr (py_get_or p k d)"
  by (simp add: payload_get_def py_dict_of_def)

lemma py_get_or_None: "py_get_or p k PyNone = py_get p k"
  by (simp add: py_get_or_def py_get_def split: option.splits)

lemma guard_action_outcome:
  assumes "guard_action c a = Inr a'" "complete_send a"
  shows "(px_type a' = SEND_CHANNEL_MESSAGE \<longrightarrow> sends_to c a') \<and> (sends_to c a \<longrightarrow> a' = a) \<and> (px_type a \<noteq> SEND_CHANNEL_MESSAGE \<longrightarrow> a' = a)"
proof (cases "px_type a = SEND_CHANNEL_MESSAGE")
  case True
  then obtain p s t where p: "px_payload a = PyDict p" "py_get p ''channel_id'' = PyStr s" "s \<noteq> []" "py_get p ''content'' = PyStr t" "py_strip t \<noteq> []"
    using assms(2) by (auto simp: complete_send_def)
  show ?thesis using assms(1) True p by (auto simp: guard_action_def payload_get_dict py_get_or_None sends_to_def noop_action_def split: if_splits)
qed (use assms in \<open>auto simp: guard_action_def sends_to_def\<close>)

lemma enforce_outcome:
  assumes "enforce_single_channel_turn ev as' = Inr bs" "\<forall>a \<in> set as'. complete_send a"
    "event_type ev \<in> set CHANNEL_ACTING_EVENT_TYPES" "or_str (channel_id ev) [] = c" "c \<noteq> []"
  shows "length bs = length as' \<and> (\<forall>i < length as'. (px_type (bs ! i) = SEND_CHANNEL_MESSAGE \<longrightarrow> sends_to c (bs ! i)) \<and>
      (sends_to c (as' ! i) \<longrightarrow> bs ! i = as' ! i) \<and> (px_type (as' ! i) \<noteq> SEND_CHANNEL_MESSAGE \<longrightarrow> bs ! i = as' ! i))"
proof -
  have m: "mapM_r (guard_action c) as' = Inr bs" using assms by (simp add: enforce_single_channel_turn_def)
  from mapM_r_Inr_map[OF m] show ?thesis using guard_action_outcome assms(2) by (metis nth_mem)
qed

lemma already_sends_finds:
  "already_sends c as' = Inr True \<Longrightarrow> \<forall>a \<in> set as'. complete_send a \<Longrightarrow> \<exists>a \<in> set as'. sends_to c a"
proof (induction as')
  case (Cons a as')
  show ?case
  proof (cases "px_type a = SEND_CHANNEL_MESSAGE")
    case True
    then obtain p s t where p: "px_payload a = PyDict p" "py_get p ''channel_id'' = PyStr s" "py_get p ''content'' = PyStr t" "py_strip t \<noteq> []"
      using Cons.prems(2) by (auto simp: complete_send_def)
    then have g: "payload_get a ''channel_id'' PyNone = Inr (PyStr s)" by (simp add: payload_get_dict py_get_or_None)
    show ?thesis
    proof (cases "s = c")
      case True
      then have "sends_to c a" using p \<open>px_type a = _\<close> by (auto simp: sends_to_def)
      then show ?thesis by simp
    next
      case False
      then show ?thesis using Cons g True by auto
    qed
  qed (use Cons in auto)
qed simp

text \<open>
  What the model wrote, once it is read and bound to a DM, has a message with some content to that very channel, and the guard that keeps the turn in its room leaves it.\<close>

lemma dm_reply_made:
  assumes "parse_actions loads int_str response_text = Inr as0" "synthesize_channel_reply shown ev as0 = Inr as1"
    "event_type ev = CHANNEL_MESSAGE" "channel_id ev = Some (''dm:'' @ peer)"
  shows "\<exists>a \<in> set as1. sends_to (''dm:'' @ peer) a"
proof -
  let ?c = "''dm:'' @ peer"
  have c: "or_str (channel_id ev) [] = ?c" "\<not> off_channel ev" using assms(3,4) by (auto simp: off_channel_def)
  have ok0: "\<forall>a \<in> set as0. complete_send a" using parse_complete[OF assms(1)] .
  obtain bs1 bs2 where s: "bind_end_vote_channel shown ev as0 = Inr bs1" "fold_prose_into_end_vote shown ev bs1 = Inr bs2" "promote_reply ev bs2 = Inr as1"
    using synthesize_steps[OF assms(2) c(2)] .
  have ok2: "\<forall>a \<in> set bs2. complete_send a" using fold_prose_complete[OF s(2)] bind_end_vote_complete[OF s(1)] ok0 by blast
  have reply: "sends_to ?c (channel_reply ev t)" if "py_strip t \<noteq> []" for t using that c(1) by (simp add: sends_to_def channel_reply_def)
  show ?thesis
    using promote_reply_outcome[OF s(3)] already_sends_finds[of ?c bs2] ok2 reply c(1)
    by (auto simp: starts_with_def REPLY_DM_PREFIX_def)
qed

lemma enforce_keeps_sends:
  assumes "enforce_single_channel_turn ev as1 = Inr as2" "\<forall>a \<in> set as1. complete_send a" "event_type ev = CHANNEL_MESSAGE"
    "or_str (channel_id ev) [] = c" "c \<noteq> []" "\<exists>a \<in> set as1. sends_to c a"
  shows "\<exists>a \<in> set as2. sends_to c a"
proof -
  obtain i where i: "i < length as1" "sends_to c (as1 ! i)" using assms(6) by (auto simp: in_set_conv_nth)
  have "as2 ! i = as1 ! i \<and> length as2 = length as1"
    using enforce_outcome[OF assms(1,2) _ assms(4,5)] i assms(3) by (simp add: CHANNEL_ACTING_EVENT_TYPES_def)
  then show ?thesis using i by (metis nth_mem)
qed


section \<open>What is said beside a vote travels with it\<close>











section \<open>What the model asks for is checked\<close>

definition within_cap :: "(string \<Rightarrow> int option) \<Rightarrow> string \<times> int \<Rightarrow> pydict \<Rightarrow> bool" where
  "within_cap int_str field p = (\<forall>v. map_of p (fst field) = Some v \<longrightarrow> (\<exists>i. py_int_of int_str v = Inr i \<and> i \<le> snd field))"

lemma clamp_field_within:
  assumes "clamp_field int_str field p = Inr p'"
  shows "within_cap int_str field p' \<and> (\<forall>k. k \<noteq> fst field \<longrightarrow> map_of p' k = map_of p k)"
proof (cases "map_of p (fst field)")
  case (Some v)
  then show ?thesis using assms
    by (cases "py_int_of int_str v") (auto simp: clamp_field_def within_cap_def update_conv' delete_conv' py_int_of_def split: if_splits)
qed (use assms in \<open>simp add: clamp_field_def within_cap_def\<close>)

lemma clamp_fields_within:
  "clamp_fields int_str fs p = Inr p' \<Longrightarrow> distinct (map fst fs) \<Longrightarrow>
     (\<forall>f \<in> set fs. within_cap int_str f p') \<and> (\<forall>k. k \<notin> fst ` set fs \<longrightarrow> map_of p' k = map_of p k)"
proof (induction fs arbitrary: p)
  case (Cons f fs)
  then obtain q where q: "clamp_field int_str f p = Inr q" "clamp_fields int_str fs q = Inr p'" by (auto simp: bind_r_Inr_iff)
  have ih: "\<forall>f \<in> set fs. within_cap int_str f p'" "\<forall>k. k \<notin> fst ` set fs \<longrightarrow> map_of p' k = map_of q k"
    using Cons.IH[OF q(2)] Cons.prems(2) by auto
  have "within_cap int_str f p'" using clamp_field_within[OF q(1)] ih(2) Cons.prems(2) by (simp add: within_cap_def)
  then show ?case using ih clamp_field_within[OF q(1)] by auto
qed simp

definition checked_action :: "(string \<Rightarrow> int option) \<Rightarrow> ParsedAction \<Rightarrow> bool" where
  "checked_action int_str a =
     (case px_type a of
        SEND_CHANNEL_MESSAGE \<Rightarrow> \<exists>p. px_payload a = PyDict p \<and> nonblank (py_get p ''channel_id'') \<and> nonblank (py_get p ''content'')
      | DELEGATE_ACTION \<Rightarrow> \<exists>p. px_payload a = PyDict p \<and> is_agent_id (py_get p ''agent_id'') \<and> nonblank (py_get p ''task'')
      | SPAWN_SUB_AGENT \<Rightarrow> \<exists>p. px_payload a = PyDict p \<and> nonblank (py_get p ''role'') \<and> nonblank (py_get p ''task'') \<and> (\<forall>f \<in> set SUB_AGENT_CAPS. within_cap int_str f p)
      | _ \<Rightarrow> True)"

lemma caps_apart: "distinct (map fst SUB_AGENT_CAPS)" "''role'' \<notin> fst ` set SUB_AGENT_CAPS" "''task'' \<notin> fst ` set SUB_AGENT_CAPS"
  by (simp_all add: SUB_AGENT_CAPS_def)

lemma checked_do_nothing [simp]: "checked_action int_str noop_action" "checked_action int_str (complete_with t)"
  by (simp_all add: checked_action_def noop_action_def complete_with_def)

lemma validated_checked:
  assumes "validate_action_payload int_str a = Inr a'" shows "checked_action int_str a'"
proof (cases "px_type a = SPAWN_SUB_AGENT")
  case True
  then obtain p where p: "px_payload a = PyDict p" using assms by (auto simp: validate_action_payload_def bind_r_Inr_iff py_dict_of_def split: pyval.splits)
  show ?thesis
  proof (cases "nonblank (py_get p ''role'') \<and> nonblank (py_get p ''task'')")
    case nb: True
    then obtain p' where p': "clamp_fields int_str SUB_AGENT_CAPS p = Inr p'" "a' = a\<lparr>px_payload := PyDict p'\<rparr>"
      using assms True p by (auto simp: validate_action_payload_def py_dict_of_def bind_r_Inr_iff)
    have "py_get p' ''role'' = py_get p ''role''" "py_get p' ''task'' = py_get p ''task''"
      using clamp_fields_within[OF p'(1) caps_apart(1)] caps_apart by (simp_all add: py_get_def)
    then show ?thesis using clamp_fields_within[OF p'(1) caps_apart(1)] nb True p'(2) by (simp add: checked_action_def)
  qed (use assms True p in \<open>auto simp: validate_action_payload_def py_dict_of_def split: if_splits\<close>)
next
  case False
  then show ?thesis using assms
    by (cases "px_type a") (auto simp: validate_action_payload_def bind_r_Inr_iff py_dict_of_def checked_action_def noop_action_def split: pyval.splits if_splits)
qed

lemma read_actions_checked:
  assumes "read_actions int_str raw = Inr as'" shows "\<forall>a \<in> set as'. checked_action int_str a"
proof -
  obtain xs found where f: "mapM_r (parse_one int_str) xs = Inr found" "as' = List.map_filter (\<lambda>a. a) found"
    using assms by (auto simp: read_actions_def bind_r_Inr_iff)
  have "\<forall>o' \<in> set found. \<forall>a. o' = Some a \<longrightarrow> checked_action int_str a"
    by (rule mapM_r_all[OF f(1)]) (auto simp: parse_one_def bind_r_Inr_iff validated_checked split: option.splits)
  then show ?thesis by (auto simp: f(2) List.map_filter_def)
qed

text \<open>
  Reading a model's answer gives at least one action, and each one that acts on others is checked: a message has a channel and content, a delegation a well-formed agent id and
  a task, a sub-agent a role and a task, with the tokens, seconds and calls it asks for within their caps. An answer that is no action list is kept whole as
  the result of the turn.\<close>

lemma parsed_actions_checked:
  assumes "parse_actions loads int_str response_text = Inr as'"
  shows "as' \<noteq> [] \<and> (\<forall>a \<in> set as'. checked_action int_str a) \<and>
    ((\<forall>s. loads s = None) \<longrightarrow> as' = [complete_with (or_str response_text [])])"
proof -
  have fin: "as' \<noteq> [] \<and> (\<forall>a \<in> set as'. checked_action int_str a)" if "finish_parse int_str t prose raw = Inr as'" for t prose raw
    using that read_actions_checked by (auto simp: finish_parse_def bind_r_Inr_iff split: if_splits)
  have "as' = [complete_with (or_str response_text [])] \<or> (\<exists>t prose raw. finish_parse int_str t prose raw = Inr as')"
    using assms by (auto simp: parse_actions_def Let_def split: if_splits option.splits)
  then have "as' \<noteq> [] \<and> (\<forall>a \<in> set as'. checked_action int_str a)" using fin by auto
  moreover have "(\<forall>s. loads s = None) \<longrightarrow> as' = [complete_with (or_str response_text [])]"
    using assms by (auto simp: parse_actions_def Let_def split: if_splits option.splits)
  ultimately show ?thesis by blast
qed


section \<open>The properties on sample turns\<close>

definition room_event :: "string \<Rightarrow> AgentEvent" where
  "room_event c = \<lparr>event_type = CHANNEL_MESSAGE, payload = [], channel_id = Some c, sender_id = Some ''alice'', message_id = None, thread_id = None,
     timestamp = 0, metadata = []\<rparr>"

definition vote_for :: "string \<Rightarrow> ParsedAction" where
  "vote_for c = \<lparr>px_type = END_INTERACTION_VOTE, px_payload = PyDict [(''channel_id'', PyStr c), (''content'', PyStr ''done'')]\<rparr>"


theorem parsed_actions_checked_witness:
  "checked_action (\<lambda>_. None) \<lparr>px_type = SPAWN_SUB_AGENT, px_payload = PyDict [(''role'', PyStr ''r''), (''task'', PyStr ''t''), (''max_llm_calls'', PyInt 50)]\<rparr>"
proof -
  let ?loads = "\<lambda>_. Some (PyList [PyDict [(''action_type'', PyStr ''spawn_sub_agent''),
    (''payload'', PyDict [(''role'', PyStr ''r''), (''task'', PyStr ''t''), (''max_llm_calls'', PyInt 51)])]])"
  have "parse_actions ?loads (\<lambda>_. None) (Some ''[]'') =
    Inr [\<lparr>px_type = SPAWN_SUB_AGENT, px_payload = PyDict [(''role'', PyStr ''r''), (''task'', PyStr ''t''), (''max_llm_calls'', PyInt 50)]\<rparr>]" by code_simp
  from parsed_actions_checked[OF this] show ?thesis by simp
qed

text \<open>
  A single action in a fence instead of a list, a list of anything but objects, and a cap given as an infinite number all raise out of the parser, which promises the
  raw text as the result when parsing fails.
\<close>

lemma parser_lets_errors_out:
  "parse_actions (\<lambda>_. Some (PyDict [(''action_type'', PyStr ''do_nothing'')])) (\<lambda>_. None) (Some (CODE_FENCE @ ''json x'' @ CODE_FENCE)) = Inl AttributeError"
  "parse_actions (\<lambda>_. Some (PyList [PyInt 1])) (\<lambda>_. None) (Some ''[1]'') = Inl AttributeError"
  "parse_actions (\<lambda>_. Some (PyInt 5)) (\<lambda>_. None) (Some (CODE_FENCE @ ''json 5'' @ CODE_FENCE)) = Inl TypeError"
  "parse_actions (\<lambda>_. Some (PyList [PyDict [(''action_type'', PyStr ''spawn_sub_agent''),
     (''payload'', PyDict [(''role'', PyStr ''r''), (''task'', PyStr ''t''), (''max_tokens'', PyFloat PosInf)])]])) (\<lambda>_. None) (Some ''[]'') = Inl OverflowError"
  by code_simp+

text \<open>
  A vote is a publish too, but the guard looks at messages only: a vote that names another room keeps it, and takes the text the turn wrote for its own
  room along.
\<close>

lemma vote_leaves_room:
  "bind_r (synthesize_channel_reply (\<lambda>_. []) (room_event ''group:private'') [complete_with ''what was said here'', vote_for ''group:other''])
     (enforce_single_channel_turn (room_event ''group:private'')) =
   Inr [\<lparr>px_type = END_INTERACTION_VOTE,
         px_payload = PyDict [(''channel_id'', PyStr ''group:other''), (''content'', PyStr (''what was said here'' @ [CHR 10, CHR 10] @ ''done''))]\<rparr>]"
  by code_simp

end
