(* ===== verification/Arg_Check.thy ===== *)
theory Arg_Check
  imports Py_Text
begin

text \<open>
  Checking the arguments of a tool call before the tool runs (\<open>src/agents/tools/arg_check.py\<close>) and the defence it puts names
  the model made up through (\<open>sub_agents/_log_safety.py\<close>). The JSON Schema validator is a package outside the repository and an
  argument of the definitions; \<open>float\<close> and \<open>repr\<close> on decimal text and \<open>json.dumps\<close> are arguments too. Reported texts hold two code points
  past Latin-1, so they are lists of code points.
\<close>


section \<open>Text that is safe to log\<close>

type_synonym codes = "nat list"

definition codes_of :: "string \<Rightarrow> codes" where "codes_of s = map of_char s"

definition CTRL_REPLACEMENT :: nat where "CTRL_REPLACEMENT = 9252"

definition isprintable :: "nat \<Rightarrow> bool" where
  "isprintable n = (32 \<le> n \<and> \<not> (127 \<le> n \<and> n \<le> 160) \<and> n \<noteq> 173)"

definition CTRL_TRANSLATION :: "nat \<Rightarrow> nat" where
  "CTRL_TRANSLATION n = (if n < 32 \<or> n = 127 then CTRL_REPLACEMENT else n)"

definition bounded :: "nat \<Rightarrow> string \<Rightarrow> codes" where
  "bounded cap s =
     (let head = map CTRL_TRANSLATION (take cap (codes_of s));
          head = (if list_all isprintable head then head else map (\<lambda>c. if isprintable c then c else CTRL_REPLACEMENT) head)
      in if length s \<le> cap then head else head @ [8230] @ codes_of '' (truncated)'')"


section \<open>What a signature accepts\<close>

datatype param_kind = POSITIONAL_ONLY | POSITIONAL_OR_KEYWORD | VAR_POSITIONAL | KEYWORD_ONLY | VAR_KEYWORD

text \<open>
  An annotation: none, \<open>Any\<close>, \<open>object\<close>, \<open>None\<close> or its type, text that was not resolved, the four scalar types, an alias, a literal, an
  annotated type, a union, or anything else.
\<close>

datatype annotation =
    A_empty | A_any | A_object | A_none | A_text | A_int | A_float | A_bool | A_str
  | A_alias annotation | A_literal "pyval list" | A_annotated annotation | A_union "annotation list" | A_other

record Parameter =
  pa_name :: string
  pa_kind :: param_kind
  pa_default :: bool
  pa_annotation :: annotation

definition BY_NAME :: "param_kind list" where "BY_NAME = [POSITIONAL_OR_KEYWORD, KEYWORD_ONLY]"

definition NARROWING_KEYWORDS :: "string list" where
  "NARROWING_KEYWORDS = [''type'', ''enum'', ''minimum'', ''maximum'', ''minLength'', ''maxLength'']"

definition STRING_ONLY :: pydict where "STRING_ONLY = [(''type'', PyStr ''string'')]"

definition RULES_applies_to :: "string \<Rightarrow> string list" where
  "RULES_applies_to keyword =
     (if keyword = ''type'' then [''string'', ''integer'', ''number'', ''boolean'']
      else if keyword \<in> {''minimum'', ''maximum''} then [''integer'', ''number'']
      else [''string''])"

text \<open>One error of the validator: where it is, the keyword that failed, the value and the keyword's own value.\<close>

record schema_error =
  se_path :: "string list"
  se_validator :: string
  se_instance :: pyval
  se_validator_value :: pyval

record ArgumentSpec =
  as_names :: "string list"
  as_required :: "string list"
  as_integers :: "string list"
  as_numbers :: "string list"
  as_takes_none :: "string list"
  as_nulls_mean_default :: "string list"
  as_open :: bool
  as_narrowed :: "string list"
  as_validator :: "pydict \<Rightarrow> schema_error list result"

fun takes_none :: "annotation \<Rightarrow> bool" where
  "takes_none A_empty = True"
| "takes_none A_any = True"
| "takes_none A_object = True"
| "takes_none A_none = True"
| "takes_none A_text = True"
| "takes_none (A_alias a) = takes_none a"
| "takes_none (A_literal vs) = (PyNone \<in> set vs)"
| "takes_none (A_annotated a) = takes_none a"
| "takes_none (A_union as') = (\<exists>a \<in> set as'. takes_none a)"
| "takes_none _ = False"

text \<open>\<open>math.isfinite\<close>: an integer past the largest float cannot be converted.\<close>

definition FLOAT_LIMIT :: int where "FLOAT_LIMIT = 2 ^ 1024 - 2 ^ 970"

definition isfinite :: "pyval \<Rightarrow> bool result" where
  "isfinite v =
     (case v of
        PyInt i \<Rightarrow> if \<bar>i\<bar> < FLOAT_LIMIT then Inr True else Inl OverflowError
      | PyBool _ \<Rightarrow> Inr True
      | PyFloat (Fin _) \<Rightarrow> Inr True
      | PyFloat _ \<Rightarrow> Inr False
      | _ \<Rightarrow> Inl TypeError)"

fun number_of :: "pyval \<Rightarrow> pyfloat option" where
  "number_of (PyInt i) = Some (Fin (of_int i))"
| "number_of (PyBool b) = Some (Fin (if b then 1 else 0))"
| "number_of (PyFloat f) = Some f"
| "number_of _ = None"

fun float_gt :: "pyfloat \<Rightarrow> pyfloat \<Rightarrow> bool" where
  "float_gt (Fin a) (Fin b) = (a > b)"
| "float_gt NaN _ = False"
| "float_gt _ NaN = False"
| "float_gt PosInf b = (b \<noteq> PosInf)"
| "float_gt (Fin _) NegInf = True"
| "float_gt _ _ = False"

definition py_gt :: "pyval \<Rightarrow> pyval \<Rightarrow> bool result" where
  "py_gt a b = (case (number_of a, number_of b) of (Some x, Some y) \<Rightarrow> Inr (float_gt x y) | _ \<Rightarrow> Inl TypeError)"

definition finite_bounds :: "pydict \<Rightarrow> bool result" where
  "finite_bounds rule =
     bind_r (case map_of rule ''minimum'' of None \<Rightarrow> Inr True | Some v \<Rightarrow> isfinite v) (\<lambda>low.
       if \<not> low then Inr False
       else case map_of rule ''maximum'' of None \<Rightarrow> Inr True | Some v \<Rightarrow> isfinite v)"

definition crossed :: "pydict \<Rightarrow> string \<Rightarrow> string \<Rightarrow> bool result" where
  "crossed rule low high =
     (case (map_of rule low, map_of rule high) of (Some l, Some h) \<Rightarrow> py_gt l h | _ \<Rightarrow> Inr False)"

text \<open>\<open>check_schema\<close> of the package is the argument \<open>schema_ok\<close>; after it a bound is a number and an enumeration a list.\<close>

definition workable :: "(pydict \<Rightarrow> bool) \<Rightarrow> pyval \<Rightarrow> string \<Rightarrow> pydict result" where
  "workable schema_ok rule own_type =
     (case rule of
        PyDict r \<Rightarrow>
          if \<not> set (map fst r) \<subseteq> set NARROWING_KEYWORDS then Inl ValueError
          else if \<not> schema_ok r then Inl ValueError
          else if py_get_or r ''type'' (PyStr own_type) \<noteq> PyStr own_type then Inl ValueError
          else if list_ex (\<lambda>k. own_type \<notin> set (RULES_applies_to k)) (map fst r) then Inl ValueError
          else if (case map_of r ''enum'' of
                     None \<Rightarrow> False
                   | Some (PyList cs) \<Rightarrow> \<not> (cs \<noteq> [] \<and> list_all (\<lambda>c. case c of PyStr _ \<Rightarrow> True | _ \<Rightarrow> False) cs)
                   | Some _ \<Rightarrow> True) then Inl ValueError
          else bind_r (finite_bounds r) (\<lambda>fin.
            if \<not> fin then Inl ValueError
            else bind_r (crossed r ''minimum'' ''maximum'') (\<lambda>c1.
              if c1 then Inl ValueError
              else bind_r (crossed r ''minLength'' ''maxLength'') (\<lambda>c2. if c2 then Inl ValueError else Inr r)))
      | _ \<Rightarrow> Inl ValueError)"

text \<open>The narrowings, merged one by one into the schema the model is offered.\<close>

definition dict_update :: "pydict \<Rightarrow> pydict \<Rightarrow> pydict" where
  "dict_update d e = fold (\<lambda>(k, v). AList.update k v) e d"

definition type_of_property :: "(string \<times> pydict) list \<Rightarrow> string \<Rightarrow> string" where
  "type_of_property properties name =
     (case map_of properties name of Some p \<Rightarrow> (case py_get p ''type'' of PyStr t \<Rightarrow> t | _ \<Rightarrow> []) | None \<Rightarrow> [])"

fun narrow_properties ::
  "(pydict \<Rightarrow> bool) \<Rightarrow> Parameter list \<Rightarrow> (string \<times> pyval) list \<Rightarrow> (string \<times> pydict) list \<Rightarrow> (string \<times> pydict) list result" where
  "narrow_properties schema_ok params [] properties = Inr properties"
| "narrow_properties schema_ok params ((name, rule) # rest) properties =
     (if list_ex (\<lambda>p. pa_kind p = POSITIONAL_ONLY) params \<or> \<not> list_ex (\<lambda>p. pa_name p = name \<and> pa_kind p \<in> set BY_NAME) params then Inl ValueError
      else bind_r (workable schema_ok rule (type_of_property properties name)) (\<lambda>r.
        narrow_properties schema_ok params rest
          (AList.update name (dict_update (case map_of properties name of Some p \<Rightarrow> p | None \<Rightarrow> []) r) properties)))"

definition narrowed_schemas :: "(string \<times> pyval) list \<Rightarrow> (string \<times> pydict) list \<Rightarrow> (string \<times> pydict) list" where
  "narrowed_schemas narrow properties = map (\<lambda>(name, _). (name, case map_of properties name of Some p \<Rightarrow> p | None \<Rightarrow> [])) narrow"

definition hint_of :: "(string \<times> annotation) list \<Rightarrow> Parameter \<Rightarrow> annotation" where
  "hint_of hints p = (case map_of hints (pa_name p) of Some a \<Rightarrow> a | None \<Rightarrow> pa_annotation p)"

definition argument_spec ::
  "((string \<times> pydict) list \<Rightarrow> pydict \<Rightarrow> schema_error list result) \<Rightarrow> (pydict \<Rightarrow> bool) \<Rightarrow> Parameter list \<Rightarrow> (string \<times> annotation) list \<Rightarrow>
   (string \<times> pydict) list \<Rightarrow> (string \<times> pyval) list \<Rightarrow> (ArgumentSpec option \<times> (string \<times> pydict) list) result" where
  "argument_spec Validator schema_ok params hints properties narrow =
     bind_r (narrow_properties schema_ok params narrow properties) (\<lambda>properties.
       if list_ex (\<lambda>p. pa_kind p = POSITIONAL_ONLY) params then Inr (None, properties)
       else
         let by_name = filter (\<lambda>p. pa_kind p \<in> set BY_NAME) params;
             narrowed = narrowed_schemas narrow properties;
             tn = map pa_name (filter (\<lambda>p. takes_none (hint_of hints p)) by_name)
         in Inr (Some
           \<lparr>as_names = map pa_name by_name,
            as_required = map pa_name (filter (\<lambda>p. \<not> pa_default p) by_name),
            as_integers = map pa_name (filter (\<lambda>p. type_of_property properties (pa_name p) = ''integer'') by_name),
            as_numbers = map pa_name (filter (\<lambda>p. type_of_property properties (pa_name p) = ''number'') by_name),
            as_takes_none = tn,
            as_nulls_mean_default = map pa_name (filter (\<lambda>p. pa_default p \<and> pa_name p \<notin> set tn \<and> pa_name p \<notin> set (map fst narrowed)) by_name),
            as_open = list_ex (\<lambda>p. pa_kind p = VAR_KEYWORD) params,
            as_narrowed = map fst narrowed,
            as_validator = Validator narrowed\<rparr>, properties))"


section \<open>One form for a value\<close>

definition is_digit :: "char \<Rightarrow> bool" where "is_digit c = (48 \<le> (of_char c :: nat) \<and> (of_char c :: nat) \<le> 57)"

definition positive_text :: "string \<Rightarrow> bool" where
  "positive_text s = (s \<noteq> [] \<and> list_all is_digit s \<and> hd s \<noteq> CHR ''0'')"

definition INTEGER_TEXT :: "string \<Rightarrow> bool" where
  "INTEGER_TEXT s = (s = ''0'' \<or> positive_text (if s \<noteq> [] \<and> hd s = CHR ''-'' then tl s else s))"

definition DECIMAL_TEXT :: "string \<Rightarrow> bool" where
  "DECIMAL_TEXT s =
     (let s = (if s \<noteq> [] \<and> hd s = CHR ''-'' then tl s else s);
          whole = takeWhile is_digit s; rest = dropWhile is_digit s
      in (whole = ''0'' \<or> positive_text whole) \<and> rest \<noteq> [] \<and> hd rest = CHR ''.'' \<and> tl rest \<noteq> [] \<and> list_all is_digit (tl rest))"

text \<open>\<open>int(text)\<close> for text of the first form; Python reads at most 4300 digits.\<close>

definition MAX_INT_DIGITS :: nat where "MAX_INT_DIGITS = 4300"

definition int_of_text :: "string \<Rightarrow> int result" where
  "int_of_text s =
     (let neg = (s \<noteq> [] \<and> hd s = CHR ''-''); digits = (if neg then tl s else s)
      in if length digits > MAX_INT_DIGITS then Inl ValueError
         else Inr (if neg then - int (digits_of digits) else int (digits_of digits)))"

definition one_integer :: "pyval \<Rightarrow> pyval" where
  "one_integer v =
     (case v of
        PyStr s \<Rightarrow> if INTEGER_TEXT s then (case int_of_text s of Inr i \<Rightarrow> PyInt i | Inl _ \<Rightarrow> v) else v
      | PyFloat (Fin r) \<Rightarrow> if of_int \<lfloor>r\<rfloor> = r then PyInt \<lfloor>r\<rfloor> else v
      | _ \<Rightarrow> v)"

text \<open>Whether the double nearest to an integer is the integer: its odd part has at most 53 bits and it is below the overflow.\<close>

function odd_part :: "nat \<Rightarrow> nat" where
  "odd_part n = (if n = 0 \<or> odd n then n else odd_part (n div 2))"
  by auto
termination by (relation "measure id") auto

declare odd_part.simps [simp del]

definition float_holds :: "int \<Rightarrow> bool" where
  "float_holds i = (\<bar>i\<bar> < 2 ^ 1024 \<and> odd_part (nat \<bar>i\<bar>) < 2 ^ 53)"

definition int_as_number :: "int \<Rightarrow> pyval" where
  "int_as_number i = (if float_holds i then PyFloat (Fin (of_int i)) else PyInt i)"

record float_text =
  ft_float :: "string \<Rightarrow> pyfloat"
  ft_repr :: "pyfloat \<Rightarrow> string"

definition one_number :: "float_text \<Rightarrow> pyval \<Rightarrow> pyval" where
  "one_number ft v =
     (case v of
        PyStr s \<Rightarrow>
          if INTEGER_TEXT s then (case one_integer v of PyInt i \<Rightarrow> int_as_number i | _ \<Rightarrow> v)
          else if DECIMAL_TEXT s \<and> ft_repr ft (ft_float ft s) = s then PyFloat (ft_float ft s)
          else v
      | PyInt i \<Rightarrow> int_as_number i
      | _ \<Rightarrow> v)"

definition json_type :: "pyval \<Rightarrow> string" where
  "json_type v =
     (case v of
        PyNone \<Rightarrow> ''null'' | PyBool _ \<Rightarrow> ''boolean'' | PyInt _ \<Rightarrow> ''integer''
      | PyFloat f \<Rightarrow> (case f of Fin _ \<Rightarrow> ''number'' | _ \<Rightarrow> ''non-finite number'')
      | PyStr _ \<Rightarrow> ''string'' | PyDict _ \<Rightarrow> ''object'' | PyList _ \<Rightarrow> ''array'')"


section \<open>The check\<close>

record broken_rule =
  br_argument :: string
  br_rule :: string
  br_got :: string
  br_limit :: pyval

record ArgumentRefusal =
  ar_input_type :: string
  ar_missing :: "string list"
  ar_unknown :: "codes list"
  ar_unknown_count :: nat
  ar_invalid :: "broken_rule list"
  ar_takes :: "string list"

definition MAX_LISTED :: nat where "MAX_LISTED = 16"
definition MAX_NAME :: nat where "MAX_NAME = 64"

definition shown_name :: "string \<Rightarrow> codes" where "shown_name name = bounded MAX_NAME name"

definition broken_narrowings :: "ArgumentSpec \<Rightarrow> pydict \<Rightarrow> broken_rule list result" where
  "broken_narrowings spec checked =
     bind_r (as_validator spec (filter (\<lambda>(n, v). n \<in> set (as_narrowed spec) \<and> \<not> (v = PyNone \<and> n \<in> set (as_takes_none spec))) checked))
       (\<lambda>errs. Inr (map (\<lambda>e. \<lparr>br_argument = hd (se_path e), br_rule = se_validator e, br_got = json_type (se_instance e), br_limit = se_validator_value e\<rparr>)
                      (filter (\<lambda>e. se_path e \<noteq> []) errs)))"

definition known_name :: "ArgumentSpec \<Rightarrow> string \<Rightarrow> bool" where
  "known_name spec name = (name \<in> set (as_names spec) \<or> as_open spec)"

definition one_form :: "float_text \<Rightarrow> ArgumentSpec \<Rightarrow> string \<Rightarrow> pyval \<Rightarrow> pyval" where
  "one_form ft spec name v =
     (if name \<in> set (as_integers spec) then one_integer v else if name \<in> set (as_numbers spec) then one_number ft v else v)"

fun sort_arguments :: "float_text \<Rightarrow> ArgumentSpec \<Rightarrow> pydict \<Rightarrow> pydict \<times> string list" where
  "sort_arguments ft spec [] = ([], [])"
| "sort_arguments ft spec ((name, v) # rest) =
     (let (checked, unknown) = sort_arguments ft spec rest
      in if \<not> known_name spec name then (checked, name # unknown)
         else if v = PyNone \<and> name \<in> set (as_nulls_mean_default spec) then (checked, unknown)
         else ((name, one_form ft spec name v) # checked, unknown))"

definition validate_arguments ::
  "float_text \<Rightarrow> ArgumentSpec option \<Rightarrow> pyval \<Rightarrow> (ArgumentRefusal + pydict) result" where
  "validate_arguments ft spec_opt arguments =
     (case arguments of
        PyDict args \<Rightarrow>
          (case spec_opt of
             None \<Rightarrow> Inr (Inr args)
           | Some spec \<Rightarrow>
               let (checked, unknown) = sort_arguments ft spec args;
                   missing = filter (\<lambda>n. n \<notin> fst ` set checked) (as_required spec)
               in bind_r (if as_narrowed spec \<noteq> [] then broken_narrowings spec checked else Inr []) (\<lambda>invalid.
                    if unknown \<noteq> [] \<or> missing \<noteq> [] \<or> invalid \<noteq> [] then
                      Inr (Inl \<lparr>ar_input_type = ''object'', ar_missing = missing, ar_unknown = map shown_name (take MAX_LISTED unknown),
                                ar_unknown_count = length unknown, ar_invalid = invalid, ar_takes = as_names spec\<rparr>)
                    else Inr (Inr checked)))
      | _ \<Rightarrow> Inr (Inl \<lparr>ar_input_type = json_type arguments, ar_missing = [], ar_unknown = [], ar_unknown_count = 0, ar_invalid = [], ar_takes = []\<rparr>))"


section \<open>What the model and the log are told\<close>

definition ujoin :: "string \<Rightarrow> codes list \<Rightarrow> codes" where
  "ujoin sep xs = (case xs of [] \<Rightarrow> [] | y # ys \<Rightarrow> y @ concat (map ((@) (codes_of sep)) ys))"

definition py_is_one :: "pyval \<Rightarrow> bool" where "py_is_one v = (number_of v = Some (Fin 1))"

definition broken_text :: "(pyval \<Rightarrow> string) \<Rightarrow> (pyval \<Rightarrow> string) \<Rightarrow> broken_rule \<Rightarrow> string" where
  "broken_text shown dumps b =
     (let rule = br_rule b; limit = br_limit b; s = (if py_is_one limit then '''' else ''s'')
      in if rule = ''type'' then ''must be of type '' @ str_text shown limit @ '', not '' @ br_got b
         else if rule = ''enum'' then ''must be one of '' @ dumps limit
         else if rule = ''minimum'' then ''must be >= '' @ dumps limit
         else if rule = ''maximum'' then ''must be <= '' @ dumps limit
         else if rule = ''minLength'' then ''must be at least '' @ str_text shown limit @ '' character'' @ s
         else ''must be at most '' @ str_text shown limit @ '' character'' @ s)"

definition plural :: "nat \<Rightarrow> string" where "plural n = (if n > 1 then ''s'' else '''')"

definition detail :: "(pyval \<Rightarrow> string) \<Rightarrow> (pyval \<Rightarrow> string) \<Rightarrow> ArgumentRefusal \<Rightarrow> codes" where
  "detail shown dumps r =
     (let parts =
        (if ar_input_type r \<noteq> ''object'' then [codes_of (''arguments must be a JSON object, not '' @ ar_input_type r)] else []) @
        (if ar_missing r \<noteq> []
         then [codes_of (''missing required argument'' @ plural (length (ar_missing r)) @ '': '') @ ujoin '', '' (map codes_of (ar_missing r))] else []) @
        (if ar_unknown_count r \<noteq> 0
         then [codes_of (''unknown argument'' @ plural (ar_unknown_count r) @ '': '') @ ujoin '', '' (ar_unknown r) @
               (if ar_unknown_count r > length (ar_unknown r)
                then codes_of ('' ... and '' @ nat_text (ar_unknown_count r - length (ar_unknown r)) @ '' more'') else []) @
               codes_of '' ('' @ (if ar_takes r \<noteq> [] then codes_of ''this tool takes: '' @ ujoin '', '' (map codes_of (ar_takes r)) else codes_of ''this tool takes no arguments'') @ codes_of '')'']
         else []) @
        map (\<lambda>b. codes_of (''argument '' @ br_argument b @ '' '' @ broken_text shown dumps b)) (ar_invalid r)
      in ujoin ''; '' parts @ codes_of ''. The tool did not run; fix the arguments and call it again.'')"

record refusal_body =
  rb_error :: codes
  rb_missing :: "string list"
  rb_unknown :: "codes list"
  rb_invalid :: "(string \<times> string \<times> string) list"

definition invalid_fields :: "ArgumentRefusal \<Rightarrow> (string \<times> string \<times> string) list" where
  "invalid_fields r = map (\<lambda>b. (br_argument b, br_rule b, br_got b)) (ar_invalid r)"

definition refusal_content :: "(pyval \<Rightarrow> string) \<Rightarrow> (pyval \<Rightarrow> string) \<Rightarrow> ArgumentRefusal \<Rightarrow> refusal_body" where
  "refusal_content shown dumps r =
     \<lparr>rb_error = detail shown dumps r, rb_missing = ar_missing r, rb_unknown = ar_unknown r, rb_invalid = invalid_fields r\<rparr>"

record audit_fields_rec =
  af_input_type :: string
  af_missing_arguments :: "string list"
  af_unknown_argument_count :: nat
  af_invalid_arguments :: "(string \<times> string \<times> string) list"

definition audit_fields :: "ArgumentRefusal \<Rightarrow> audit_fields_rec" where
  "audit_fields r =
     \<lparr>af_input_type = ar_input_type r, af_missing_arguments = ar_missing r, af_unknown_argument_count = ar_unknown_count r,
      af_invalid_arguments = invalid_fields r\<rparr>"


section \<open>Converted values are the values that were sent\<close>











lemma one_number_int [simp]: "one_number ft (int_as_number i) = int_as_number i"
  by (auto simp: int_as_number_def one_number_def)



lemma one_integer_None: "one_integer v = PyNone \<longleftrightarrow> v = PyNone"
  by (auto simp: one_integer_def split: pyval.splits sum.splits pyfloat.splits)

lemma one_number_None: "one_number ft v = PyNone \<longleftrightarrow> v = PyNone"
  by (auto simp: one_number_def int_as_number_def split: pyval.splits)

lemma one_form_None: "one_form ft spec n v = PyNone \<longleftrightarrow> v = PyNone"
  by (simp add: one_form_def one_integer_None one_number_None)


section \<open>What passes the check\<close>

definition goes_through :: "ArgumentSpec \<Rightarrow> string \<times> pyval \<Rightarrow> bool" where
  "goes_through spec = (\<lambda>(n, v). known_name spec n \<and> \<not> (v = PyNone \<and> n \<in> set (as_nulls_mean_default spec)))"

lemma sort_arguments_eq:
  "sort_arguments ft spec args =
     (map (\<lambda>(n, v). (n, one_form ft spec n v)) (filter (goes_through spec) args), filter (\<lambda>n. \<not> known_name spec n) (map fst args))"
  by (induction ft spec args rule: sort_arguments.induct) (auto simp: goes_through_def)





section \<open>What a refusal gives away\<close>

lemma bounded_safe: "length (bounded cap s) \<le> cap + 13 \<and> list_all isprintable (bounded cap s)"
  by (auto simp: bounded_def Let_def list_all_iff codes_of_def CTRL_REPLACEMENT_def isprintable_def)

text \<open>What of a call the names of the arguments the tool takes show, with the nulls marked.\<close>

definition known_shape :: "ArgumentSpec \<Rightarrow> pydict \<Rightarrow> (string \<times> bool) list" where
  "known_shape spec args = map (\<lambda>(n, v). (n, v = PyNone)) (filter (\<lambda>(n, v). known_name spec n) args)"

lemma checked_names:
  "map fst (fst (sort_arguments ft spec args)) =
     map fst (filter (\<lambda>(n, null). \<not> (null \<and> n \<in> set (as_nulls_mean_default spec))) (known_shape spec args))"
  by (induction args) (auto simp: sort_arguments_eq known_shape_def goes_through_def)

lemma fst_set_map: "fst ` set xs = set (map fst xs)" by simp

lemma validate_refused:
  assumes "sort_arguments ft spec args = (checked, unknown)"
    "(if as_narrowed spec \<noteq> [] then broken_narrowings spec checked else Inr []) = Inr invalid"
  shows "validate_arguments ft (Some spec) (PyDict args) = Inr (Inl r) \<longleftrightarrow>
     (unknown \<noteq> [] \<or> filter (\<lambda>n. n \<notin> set (map fst checked)) (as_required spec) \<noteq> [] \<or> invalid \<noteq> []) \<and>
     r = \<lparr>ar_input_type = ''object'', ar_missing = filter (\<lambda>n. n \<notin> set (map fst checked)) (as_required spec),
          ar_unknown = map shown_name (take MAX_LISTED unknown), ar_unknown_count = length unknown, ar_invalid = invalid, ar_takes = as_names spec\<rparr>"
  unfolding validate_arguments_def using assms by (auto simp: Let_def)

text \<open>
  What of an error of the validator does not depend on the value it is about: where it is, which rule is broken, with which limit, and of what kind the value is.
  \<open>validator_input\<close> is what the validator has to see of a call: the narrowed arguments in their one form, less nulls that stand for a default or are allowed.\<close>

datatype value_kind = K_null | K_boolean | K_integer | K_number | K_non_finite | K_string | K_object | K_array

definition kind_of :: "pyval \<Rightarrow> value_kind" where
  "kind_of v =
     (case v of
        PyNone \<Rightarrow> K_null | PyBool _ \<Rightarrow> K_boolean | PyInt _ \<Rightarrow> K_integer | PyFloat (Fin _) \<Rightarrow> K_number | PyFloat _ \<Rightarrow> K_non_finite
      | PyStr _ \<Rightarrow> K_string | PyDict _ \<Rightarrow> K_object | PyList _ \<Rightarrow> K_array)"

definition error_shape :: "schema_error \<Rightarrow> string list \<times> string \<times> pyval \<times> value_kind" where
  "error_shape e = (se_path e, se_validator e, se_validator_value e, kind_of (se_instance e))"

definition validator_input :: "float_text \<Rightarrow> ArgumentSpec \<Rightarrow> pydict \<Rightarrow> pydict" where
  "validator_input ft spec args =
     map (\<lambda>(n, v). (n, one_form ft spec n v))
       (filter (\<lambda>(n, v). n \<in> set (as_narrowed spec) \<and> known_name spec n \<and>
          \<not> (v = PyNone \<and> (n \<in> set (as_nulls_mean_default spec) \<or> n \<in> set (as_takes_none spec)))) args)"

definition error_shapes :: "float_text \<Rightarrow> ArgumentSpec \<Rightarrow> pydict \<Rightarrow> (string list \<times> string \<times> pyval \<times> value_kind) list result" where
  "error_shapes ft spec args = bind_r (as_validator spec (validator_input ft spec args)) (\<lambda>errs. Inr (map error_shape errs))"

definition unknown_names :: "ArgumentSpec \<Rightarrow> pydict \<Rightarrow> string list" where
  "unknown_names spec args = filter (\<lambda>n. n \<notin> set (as_names spec) \<and> \<not> as_open spec) (map fst args)"

lemma json_type_kind: "kind_of v = kind_of w \<Longrightarrow> json_type v = json_type w"
  by (auto simp: kind_of_def json_type_def split: pyval.splits pyfloat.splits)

lemma validator_input_checked:
  "filter (\<lambda>(n, v). n \<in> set (as_narrowed spec) \<and> \<not> (v = PyNone \<and> n \<in> set (as_takes_none spec))) (fst (sort_arguments ft spec args)) = validator_input ft spec args"
  by (induction args) (auto simp: sort_arguments_eq validator_input_def goes_through_def one_form_None)

lemma broken_of_shapes:
  "map error_shape errs = map error_shape errs' \<Longrightarrow>
     map (\<lambda>e. \<lparr>br_argument = hd (se_path e), br_rule = se_validator e, br_got = json_type (se_instance e), br_limit = se_validator_value e\<rparr>) (filter (\<lambda>e. se_path e \<noteq> []) errs) =
     map (\<lambda>e. \<lparr>br_argument = hd (se_path e), br_rule = se_validator e, br_got = json_type (se_instance e), br_limit = se_validator_value e\<rparr>) (filter (\<lambda>e. se_path e \<noteq> []) errs')"
proof (induction errs arbitrary: errs')
  case (Cons e errs)
  then obtain e' rest where e: "errs' = e' # rest" "error_shape e = error_shape e'" "map error_shape errs = map error_shape rest" by (cases errs') auto
  then show ?case using Cons.IH[OF e(3)] json_type_kind[of "se_instance e" "se_instance e'"] by (simp add: error_shape_def)
qed simp

lemma broken_narrowings_shapes:
  assumes "error_shapes ft spec args = error_shapes ft spec args'"
  shows "broken_narrowings spec (fst (sort_arguments ft spec args)) = broken_narrowings spec (fst (sort_arguments ft spec args'))"
proof (cases "as_validator spec (validator_input ft spec args)")
  case (Inl e)
  then have "as_validator spec (validator_input ft spec args') = Inl e" using assms
    by (cases "as_validator spec (validator_input ft spec args')") (auto simp: error_shapes_def)
  then show ?thesis using Inl unfolding broken_narrowings_def validator_input_checked by simp
next
  case (Inr errs)
  then obtain errs' where e: "as_validator spec (validator_input ft spec args') = Inr errs'" "map error_shape errs = map error_shape errs'" using assms
    by (cases "as_validator spec (validator_input ft spec args')") (auto simp: error_shapes_def)
  then show ?thesis using Inr broken_of_shapes[OF e(2)] unfolding broken_narrowings_def validator_input_checked by simp
qed

lemma sorted_unknown: "snd (sort_arguments ft spec args) = unknown_names spec args"
  by (simp add: sort_arguments_eq unknown_names_def known_name_def)

text \<open>
  C36. A refusal never carries a value. Take two calls that name the same arguments of the tool, with nulls in the same places, and as many names the tool does not take, on whose
  narrowed arguments the validator finds errors at the same places, of the same rules and limits, on values of the same kinds, whatever the values. Then they are refused
  alike: the audit line is the same, and so is the answer to the model when the unknown names agree too. At most sixteen unknown names are repeated, each cut to 64 characters and
  a mark, with nothing in them that does not print.\<close>

theorem refusal_value_free:
  assumes "validate_arguments ft (Some spec) (PyDict args) = Inr (Inl r)"
    and "known_shape spec args' = known_shape spec args"
    and "length (unknown_names spec args') = length (unknown_names spec args)"
    and "error_shapes ft spec args' = error_shapes ft spec args"
  shows "\<exists>r'. validate_arguments ft (Some spec) (PyDict args') = Inr (Inl r') \<and> audit_fields r' = audit_fields r \<and>
      (unknown_names spec args' = unknown_names spec args \<longrightarrow> refusal_content shown dumps r' = refusal_content shown dumps r) \<and>
      length (ar_unknown r) \<le> MAX_LISTED \<and> (\<forall>n \<in> set (ar_unknown r). length n \<le> MAX_NAME + 13 \<and> list_all isprintable n)"
proof -
  obtain checked unknown where s: "sort_arguments ft spec args = (checked, unknown)" by fastforce
  obtain checked' unknown' where s': "sort_arguments ft spec args' = (checked', unknown')" by fastforce
  have names: "map fst checked' = map fst checked" using checked_names[of ft spec args] checked_names[of ft spec args'] s s' assms(2) by simp
  obtain invalid where i: "(if as_narrowed spec \<noteq> [] then broken_narrowings spec checked else Inr []) = Inr invalid"
    using assms(1) s by (auto simp: validate_arguments_def bind_r_Inr_iff split: if_splits)
  then have i': "(if as_narrowed spec \<noteq> [] then broken_narrowings spec checked' else Inr []) = Inr invalid"
    using broken_narrowings_shapes[OF assms(4)] s s' by (simp split: if_splits)
  have un: "unknown = unknown_names spec args" "unknown' = unknown_names spec args'" using sorted_unknown[of ft spec] s s' by (metis snd_conv)+
  then have len: "length unknown' = length unknown" using assms(3) by simp
  note r = validate_refused[OF s i, THEN iffD1, OF assms(1)]
  define r' where "r' = r\<lparr>ar_unknown := map shown_name (take MAX_LISTED unknown')\<rparr>"
  have "validate_arguments ft (Some spec) (PyDict args') = Inr (Inl r')"
    unfolding validate_refused[OF s' i'] using r names len by (auto simp: r'_def)
  moreover have "audit_fields r' = audit_fields r" by (simp add: r'_def audit_fields_def invalid_fields_def)
  moreover have "r' = r" if "unknown_names spec args' = unknown_names spec args" using that r un by (simp add: r'_def)
  moreover have "length (ar_unknown r) \<le> MAX_LISTED" using r by simp
  moreover have "\<forall>n \<in> set (ar_unknown r). length n \<le> MAX_NAME + 13 \<and> list_all isprintable n"
    using r bounded_safe by (auto simp: shown_name_def)
  ultimately show ?thesis by auto
qed


section \<open>The properties on a sample tool\<close>

text \<open>A validator for parameters narrowed to text.\<close>

definition text_only :: "(string \<times> pydict) list \<Rightarrow> pydict \<Rightarrow> schema_error list result" where
  "text_only schemas values =
     Inr (List.map_filter (\<lambda>(n, v). case v of PyStr _ \<Rightarrow> None
            | _ \<Rightarrow> Some \<lparr>se_path = [n], se_validator = ''type'', se_instance = v, se_validator_value = PyStr ''string''\<rparr>) values)"

definition sample_spec :: ArgumentSpec where
  "sample_spec =
     \<lparr>as_names = [''path'', ''limit''], as_required = [''path''], as_integers = [''limit''], as_numbers = [], as_takes_none = [],
      as_nulls_mean_default = [''limit''], as_open = False, as_narrowed = [''path''], as_validator = text_only [(''path'', STRING_ONLY)]\<rparr>"

definition sample_floats :: float_text where "sample_floats = \<lparr>ft_float = (\<lambda>_. NaN), ft_repr = (\<lambda>_. ''nan'')\<rparr>"



theorem refusal_value_free_witness:
  "\<exists>r. validate_arguments sample_floats (Some sample_spec) (PyDict [(''path'', PyInt 1), (''secret'', PyNone)]) = Inr (Inl r) \<and>
     (\<exists>r'. validate_arguments sample_floats (Some sample_spec) (PyDict [(''path'', PyInt 2), (''other'', PyBool True)]) = Inr (Inl r') \<and> audit_fields r' = audit_fields r)"
proof -
  let ?a = "[(''path'', PyInt 1), (''secret'', PyNone)]" and ?b = "[(''path'', PyInt 2), (''other'', PyBool True)]"
  obtain r where r: "validate_arguments sample_floats (Some sample_spec) (PyDict ?a) = Inr (Inl r)"
    by (simp add: validate_arguments_def sample_spec_def known_name_def one_form_def broken_narrowings_def text_only_def List.map_filter_simps Let_def)
  have "known_shape sample_spec ?b = known_shape sample_spec ?a" by code_simp
  moreover have "length (unknown_names sample_spec ?b) = length (unknown_names sample_spec ?a)" by code_simp
  moreover have "error_shapes sample_floats sample_spec ?b = error_shapes sample_floats sample_spec ?a" by code_simp
  ultimately show ?thesis using refusal_value_free[OF r, where args' = ?b] r by blast
qed

end
