(* ===== verification/Tool_Round.thy ===== *)
theory Tool_Round
  imports Arg_Check Security
begin

text \<open>
  The tools of an agent: the registry and the decorator that fills it (\<open>src/agents/tools/registry.py\<close>), which registered tools an agent's list gives it and
  which calls it admits (\<open>tools/tool_list.py\<close>), and the round of a persona turn that offers tools and runs the calls the model makes
  (\<open>persona_runtime/tool_round.py\<close>). A tool is a function on the state of the world that returns or raises; spans and metrics are not
  modelled, the records of refused calls are a log. The pattern list of the sanitizer and the JSON functions are arguments.
\<close>


section \<open>The registry\<close>

record ToolResult =
  tr_success :: bool
  tr_data :: pyval
  tr_error :: "string option"
  tr_error_type :: "string option"

text \<open>How the function behind a tool ends: with a result, with another value, or with an exception of a type and a message.\<close>

datatype tool_outcome = Returned ToolResult | ReturnedValue pyval | Raises string string

type_synonym 'w tool_func = "pydict \<Rightarrow> 'w \<Rightarrow> ToolResult result \<times> 'w"

record 'w ToolDefinition =
  td_name :: string
  td_description :: string
  td_parameters :: pydict
  td_permissions :: "string list"
  td_tier :: string
  td_func :: "'w tool_func option"
  td_argument_spec :: "ArgumentSpec option"

type_synonym 'w tool_registry = "(string \<times> 'w ToolDefinition) list"

definition wrapper :: "(pydict \<Rightarrow> 'w \<Rightarrow> tool_outcome \<times> 'w) \<Rightarrow> 'w tool_func" where
  "wrapper func kwargs w =
     (case func kwargs w of
        (Returned r, w') \<Rightarrow> (Inr r, w')
      | (ReturnedValue v, w') \<Rightarrow> (Inr \<lparr>tr_success = True, tr_data = v, tr_error = None, tr_error_type = None\<rparr>, w')
      | (Raises kind message, w') \<Rightarrow> (Inr \<lparr>tr_success = False, tr_data = PyNone, tr_error = Some message, tr_error_type = Some kind\<rparr>, w'))"

definition known_type :: "annotation \<Rightarrow> string" where
  "known_type a = (case a of A_int \<Rightarrow> ''integer'' | A_float \<Rightarrow> ''number'' | A_bool \<Rightarrow> ''boolean'' | _ \<Rightarrow> ''string'')"

definition sendable :: "Parameter list \<Rightarrow> Parameter list" where
  "sendable params = filter (\<lambda>p. pa_kind p \<notin> {VAR_POSITIONAL, VAR_KEYWORD}) params"

definition tool_properties :: "(string \<times> annotation) list \<Rightarrow> Parameter list \<Rightarrow> (string \<times> pydict) list" where
  "tool_properties hints params = map (\<lambda>p. (pa_name p, [(''type'', PyStr (known_type (hint_of hints p)))])) (sendable params)"

definition tool_required :: "Parameter list \<Rightarrow> string list" where
  "tool_required params = map pa_name (filter (\<lambda>p. \<not> pa_default p) (sendable params))"

definition tool_schema :: "(string \<times> pydict) list \<Rightarrow> string list \<Rightarrow> pydict" where
  "tool_schema properties required =
     [(''type'', PyStr ''object''), (''properties'', PyDict (map (\<lambda>(n, p). (n, PyDict p)) properties))] @
     (if required \<noteq> [] then [(''required'', PyList (map PyStr required))] else [])"

record tool_source =
  ts_func_name :: string
  ts_doc :: "string option"
  ts_params :: "Parameter list"
  ts_hints :: "(string \<times> annotation) list"

record tool_options =
  to_name :: "string option"
  to_description :: string
  to_permissions :: "string list option"
  to_tier :: string
  to_narrow :: "(string \<times> pyval) list option"

definition register_tool ::
  "((string \<times> pydict) list \<Rightarrow> pydict \<Rightarrow> schema_error list result) \<Rightarrow> (pydict \<Rightarrow> bool) \<Rightarrow> tool_options \<Rightarrow> tool_source \<Rightarrow>
   (pydict \<Rightarrow> 'w \<Rightarrow> tool_outcome \<times> 'w) \<Rightarrow> 'w tool_registry \<Rightarrow> 'w tool_registry result" where
  "register_tool Validator schema_ok opts src func reg =
     (let tool_name = or_str (to_name opts) (ts_func_name src);
          properties = tool_properties (ts_hints src) (ts_params src);
          required = tool_required (ts_params src);
          narrow = (case to_narrow opts of None \<Rightarrow> [] | Some n \<Rightarrow> n)
      in bind_r (argument_spec Validator schema_ok (ts_params src) (ts_hints src) properties narrow) (\<lambda>(spec, properties).
           Inr (AList.update tool_name
             \<lparr>td_name = tool_name,
              td_description = (if to_description opts \<noteq> [] then to_description opts else or_str (ts_doc src) []),
              td_parameters = tool_schema properties required,
              td_permissions = (case to_permissions opts of None \<Rightarrow> [] | Some ps \<Rightarrow> ps),
              td_tier = to_tier opts, td_func = Some (wrapper func), td_argument_spec = spec\<rparr> reg)))"

definition get_tool :: "'w tool_registry \<Rightarrow> string \<Rightarrow> 'w ToolDefinition option" where "get_tool reg name = map_of reg name"
definition list_tools :: "'w tool_registry \<Rightarrow> 'w ToolDefinition list" where "list_tools reg = map snd reg"


section \<open>Which tools an agent has\<close>

definition listed_names :: "pydict \<Rightarrow> string list" where
  "listed_names config =
     (case py_get config ''tools'' of
        PyList xs \<Rightarrow> List.map_filter (\<lambda>x. case x of PyStr s \<Rightarrow> Some s | _ \<Rightarrow> None) xs
      | _ \<Rightarrow> [])"

definition offered_tools :: "pydict \<Rightarrow> 'w tool_registry \<Rightarrow> 'w ToolDefinition list" where
  "offered_tools config reg =
     (let names = listed_names config in if names = [] then [] else filter (\<lambda>td. td_name td \<in> set names) (list_tools reg))"

record ToolCall =
  tc_id :: string
  tc_name :: string
  tc_input :: pyval

record LLMToolResult =
  lt_tool_call_id :: string
  lt_content :: string
  lt_is_error :: bool

definition refuse_call :: "ToolCall \<Rightarrow> LLMToolResult" where
  "refuse_call call = \<lparr>lt_tool_call_id = tc_id call, lt_content = ''Unknown tool: '' @ tc_name call, lt_is_error = True\<rparr>"

datatype tool_record = Refused string string | Arg_Invalid string string audit_fields_rec

record round_env =
  te_float_text :: float_text
  te_shown :: "pyval \<Rightarrow> string"
  te_dumps :: "pyval \<Rightarrow> string"
  te_encode :: "refusal_body \<Rightarrow> string"
  te_patterns :: patterns

record 'w AdmittedCall =
  ac_run :: "'w tool_func"
  ac_arguments :: pydict

definition admit_call ::
  "round_env \<Rightarrow> 'w tool_registry \<Rightarrow> ToolCall \<Rightarrow> (LLMToolResult + 'w AdmittedCall) \<times> tool_record list" where
  "admit_call env tools call =
     (case map_of tools (tc_name call) of
        None \<Rightarrow> (Inl (refuse_call call), [])
      | Some td \<Rightarrow>
          (case td_func td of
             None \<Rightarrow> (Inl (refuse_call call), [])
           | Some run \<Rightarrow>
               (case validate_arguments (te_float_text env) (td_argument_spec td) (tc_input call) of
                  Inl _ \<Rightarrow> (Inl \<lparr>lt_tool_call_id = tc_id call, lt_content = ''Internal tool error'', lt_is_error = True\<rparr>,
                            [Refused (tc_name call) ''argument_check_error''])
                | Inr (Inl refusal) \<Rightarrow>
                    (Inl \<lparr>lt_tool_call_id = tc_id call, lt_content = te_encode env (refusal_content (te_shown env) (te_dumps env) refusal), lt_is_error = True\<rparr>,
                     [Refused (tc_name call) ''tool_argument_validation_error'', Arg_Invalid (tc_name call) (tc_id call) (audit_fields refusal)])
                | Inr (Inr checked) \<Rightarrow> (Inr \<lparr>ac_run = run, ac_arguments = checked\<rparr>, []))))"


section \<open>The round\<close>

definition by_name :: "'w ToolDefinition list \<Rightarrow> 'w tool_registry \<Rightarrow> 'w tool_registry" where
  "by_name tds m = fold (\<lambda>td. AList.update (td_name td) td) tds m"

definition tool_map :: "pydict \<Rightarrow> 'w tool_registry \<Rightarrow> 'w ToolDefinition list \<Rightarrow> 'w tool_registry" where
  "tool_map config reg memory_tools = by_name memory_tools (by_name (offered_tools config reg) [])"

definition offer :: "'w ToolDefinition \<Rightarrow> pydict" where
  "offer td = [(''name'', PyStr (td_name td)), (''description'', PyStr (td_description td)), (''parameters'', PyDict (td_parameters td))]"

definition build_tool_definitions :: "pydict \<Rightarrow> 'w tool_registry \<Rightarrow> 'w ToolDefinition list \<Rightarrow> pydict list" where
  "build_tool_definitions config reg memory_tools =
     map snd (fold (\<lambda>td. AList.update (td_name td) (offer td)) memory_tools
       (fold (\<lambda>td. AList.update (td_name td) (offer td)) (offered_tools config reg) []))"

definition data_text :: "round_env \<Rightarrow> pyval \<Rightarrow> string" where
  "data_text env v = (case v of PyDict _ \<Rightarrow> te_dumps env v | PyList _ \<Rightarrow> te_dumps env v | _ \<Rightarrow> str_text (te_shown env) v)"

definition result_content :: "round_env \<Rightarrow> string \<Rightarrow> ToolResult \<Rightarrow> string result" where
  "result_content env name r =
     (if tr_success r then maybe_wrap_tool_content (te_patterns env) name (data_text env (tr_data r))
      else
        let error_msg = or_str (tr_error r) ''Tool failed'';
            content = (if or_str (tr_error_type r) [] \<noteq> [] then ''Tool error ('' @ or_str (tr_error_type r) [] @ ''): '' @ error_msg else error_msg)
        in if truthy (tr_data r)
           then bind_r (maybe_wrap_tool_content (te_patterns env) name (data_text env (tr_data r))) (\<lambda>out. Inr (content @ [CHR 10] @ out))
           else Inr content)"

definition run_call :: "round_env \<Rightarrow> ToolCall \<Rightarrow> 'w AdmittedCall \<Rightarrow> 'w \<Rightarrow> LLMToolResult \<times> 'w" where
  "run_call env call admitted w =
     (let internal = \<lparr>lt_tool_call_id = tc_id call, lt_content = ''Internal tool error'', lt_is_error = True\<rparr>
      in case ac_run admitted (ac_arguments admitted) w of
           (Inl _, w') \<Rightarrow> (internal, w')
         | (Inr r, w') \<Rightarrow>
             (case result_content env (tc_name call) r of
                Inl _ \<Rightarrow> (internal, w')
              | Inr content \<Rightarrow> (\<lparr>lt_tool_call_id = tc_id call, lt_content = content, lt_is_error = \<not> tr_success r\<rparr>, w')))"

fun execute_calls ::
  "round_env \<Rightarrow> 'w tool_registry \<Rightarrow> ToolCall list \<Rightarrow> 'w \<Rightarrow> (LLMToolResult list \<times> tool_record list) \<times> 'w" where
  "execute_calls env tools [] w = (([], []), w)"
| "execute_calls env tools (call # calls) w =
     (case admit_call env tools call of
        (Inl res, recs) \<Rightarrow> (case execute_calls env tools calls w of ((rs, recs2), w') \<Rightarrow> ((res # rs, recs @ recs2), w'))
      | (Inr admitted, recs) \<Rightarrow>
          (case run_call env call admitted w of
             (res, w') \<Rightarrow> (case execute_calls env tools calls w' of ((rs, recs2), w'') \<Rightarrow> ((res # rs, recs @ recs2), w''))))"

definition execute_tools ::
  "round_env \<Rightarrow> pydict \<Rightarrow> 'w tool_registry \<Rightarrow> 'w ToolDefinition list \<Rightarrow> ToolCall list \<Rightarrow> 'w \<Rightarrow> (LLMToolResult list \<times> tool_record list) \<times> 'w" where
  "execute_tools env config reg memory_tools calls w = execute_calls env (tool_map config reg memory_tools) calls w"


section \<open>Only admitted calls run\<close>

lemma by_name_lookup:
  "map_of (by_name tds m) n = Some td \<Longrightarrow> td \<in> set tds \<and> td_name td = n \<or> n \<notin> td_name ` set tds \<and> map_of m n = Some td"
proof (induction tds arbitrary: m)
  case (Cons x tds)
  have "map_of (by_name tds (AList.update (td_name x) x m)) n = Some td" using Cons.prems by (simp add: by_name_def)
  from Cons.IH[OF this] show ?case by (auto simp: update_conv' split: if_splits)
qed (simp add: by_name_def)

lemma offered_by_name:
  "map (\<lambda>(n, td). (n, offer td)) (fold (\<lambda>td. AList.update (td_name td) td) tds m) =
     fold (\<lambda>td. AList.update (td_name td) (offer td)) tds (map (\<lambda>(n, td). (n, offer td)) m)"
proof (induction tds arbitrary: m)
  case (Cons x tds)
  have "map (\<lambda>(n, td). (n, offer td)) (AList.update (td_name x) x m) = AList.update (td_name x) (offer x) (map (\<lambda>(n, td). (n, offer td)) m)"
    by (induction m) auto
  then show ?case using Cons.IH by simp
qed simp

lemma build_tool_definitions_eq: "build_tool_definitions config reg ms = map (\<lambda>(n, td). offer td) (tool_map config reg ms)"
proof -
  have "fold (\<lambda>td. AList.update (td_name td) (offer td)) ms (fold (\<lambda>td. AList.update (td_name td) (offer td)) (offered_tools config reg) []) =
      map (\<lambda>(n, td). (n, offer td)) (tool_map config reg ms)"
    unfolding tool_map_def by_name_def offered_by_name by simp
  then show ?thesis by (simp add: build_tool_definitions_def split_def comp_def)
qed

definition admitted_calls :: "round_env \<Rightarrow> 'w tool_registry \<Rightarrow> ToolCall list \<Rightarrow> 'w AdmittedCall list" where
  "admitted_calls env tools calls = List.map_filter (\<lambda>call. case fst (admit_call env tools call) of Inr a \<Rightarrow> Some a | Inl _ \<Rightarrow> None) calls"

definition run_all :: "'w AdmittedCall list \<Rightarrow> 'w \<Rightarrow> 'w" where
  "run_all admitted w = fold (\<lambda>a w. snd (ac_run a (ac_arguments a) w)) admitted w"

lemma admit_refusal_id: "admit_call env tools call = (Inl res, recs) \<Longrightarrow> lt_tool_call_id res = tc_id call \<and> lt_is_error res"
  by (auto simp: admit_call_def refuse_call_def split: option.splits sum.splits)

lemma admit_checked:
  "admit_call env tools call = (Inr a, recs) \<Longrightarrow>
     \<exists>td. map_of tools (tc_name call) = Some td \<and> td_func td = Some (ac_run a) \<and>
       validate_arguments (te_float_text env) (td_argument_spec td) (tc_input call) = Inr (Inr (ac_arguments a))"
  by (auto simp: admit_call_def split: option.splits sum.splits)

lemma run_call_id: "lt_tool_call_id (fst (run_call env call a w)) = tc_id call"
  by (simp add: run_call_def Let_def split: prod.splits sum.splits)

lemma run_call_world: "snd (run_call env call a w) = snd (ac_run a (ac_arguments a) w)"
  by (simp add: run_call_def Let_def split: prod.splits sum.splits)

lemma execute_calls_outcome:
  "execute_calls env tools calls w = ((results, recs), w') \<Longrightarrow>
     map lt_tool_call_id results = map tc_id calls \<and> w' = run_all (admitted_calls env tools calls) w"
proof (induction calls arbitrary: w results recs)
  case (Cons call calls)
  note run_all_def[simp] admitted_calls_def[simp] List.map_filter_simps[simp]
  show ?case
  proof (cases "admit_call env tools call")
    case (Pair x l)
    then show ?thesis
    proof (cases x)
      case (Inl res)
      then obtain rs l' where e: "execute_calls env tools calls w = ((rs, l'), w')" "results = res # rs"
        using Cons.prems Pair by (auto split: prod.splits)
      from Cons.IH[OF e(1)] show ?thesis using e(2) Pair Inl admit_refusal_id[of env tools call res l] by auto
    next
      case (Inr a)
      then obtain rs l' where e: "execute_calls env tools calls (snd (run_call env call a w)) = ((rs, l'), w')" "results = fst (run_call env call a w) # rs"
        using Cons.prems Pair by (auto split: prod.splits)
      from Cons.IH[OF e(1)] show ?thesis using e(2) Pair Inr run_call_id[of env call a w] run_call_world[of env call a w] by auto
    qed
  qed
qed (simp add: run_all_def admitted_calls_def List.map_filter_simps)

text \<open>
  C5. A tool round answers every call once, in order, under its own id, and changes the world only by the calls it admits, run in order. Each of them runs the function of a
  tool of the called name that is a memory tool of the agent or, when none has that name, a registered tool on the agent's list, on arguments that passed the check of
  that very tool. The tools the model is offered are exactly the ones such a call can name, each described by the definition that would run.\<close>

theorem tool_round_confined:
  assumes "execute_tools env config reg memory_tools calls w = ((results, recs), w')"
  shows "map lt_tool_call_id results = map tc_id calls \<and>
    w' = run_all (admitted_calls env (tool_map config reg memory_tools) calls) w \<and>
    (\<forall>a \<in> set (admitted_calls env (tool_map config reg memory_tools) calls). \<exists>call \<in> set calls. \<exists>td.
       td_name td = tc_name call \<and> td_func td = Some (ac_run a) \<and>
       (td \<in> set memory_tools \<or>
        tc_name call \<notin> td_name ` set memory_tools \<and> td \<in> set (list_tools reg) \<and> PyStr (tc_name call) \<in> set (case py_get config ''tools'' of PyList xs \<Rightarrow> xs | _ \<Rightarrow> [])) \<and>
       validate_arguments (te_float_text env) (td_argument_spec td) (tc_input call) = Inr (Inr (ac_arguments a))) \<and>
    build_tool_definitions config reg memory_tools = map (\<lambda>(n, td). offer td) (tool_map config reg memory_tools) \<and>
    (\<forall>(n, td) \<in> set (tool_map config reg memory_tools). td_name td = n)"
proof -
  let ?tools = "tool_map config reg memory_tools"
  have dist: "distinct (map fst ?tools)"
  proof -
    have "distinct (map fst (by_name tds m))" if "distinct (map fst m)" for tds and m :: "'a tool_registry"
      using that by (induction tds arbitrary: m) (auto simp: by_name_def distinct_update)
    then show ?thesis unfolding tool_map_def by simp
  qed
  have origin: "td_name td = n \<and> (td \<in> set memory_tools \<or> n \<notin> td_name ` set memory_tools \<and> td \<in> set (offered_tools config reg))"
    if "map_of ?tools n = Some td" for n td
    using that unfolding tool_map_def by (auto dest!: by_name_lookup)
  have "\<exists>call \<in> set calls. \<exists>td. td_name td = tc_name call \<and> td_func td = Some (ac_run a) \<and>
       (td \<in> set memory_tools \<or>
        tc_name call \<notin> td_name ` set memory_tools \<and> td \<in> set (list_tools reg) \<and> PyStr (tc_name call) \<in> set (case py_get config ''tools'' of PyList xs \<Rightarrow> xs | _ \<Rightarrow> [])) \<and>
       validate_arguments (te_float_text env) (td_argument_spec td) (tc_input call) = Inr (Inr (ac_arguments a))"
    if a: "a \<in> set (admitted_calls env ?tools calls)" for a
  proof -
    obtain call recs' where c: "call \<in> set calls" "admit_call env ?tools call = (Inr a, recs')"
      using a by (auto simp: admitted_calls_def List.map_filter_def split: sum.splits prod.splits) (metis prod.collapse)
    from admit_checked[OF c(2)] obtain td where td: "map_of ?tools (tc_name call) = Some td" "td_func td = Some (ac_run a)"
      "validate_arguments (te_float_text env) (td_argument_spec td) (tc_input call) = Inr (Inr (ac_arguments a))" by blast
    have "td \<in> set (list_tools reg) \<and> PyStr (tc_name call) \<in> set (case py_get config ''tools'' of PyList xs \<Rightarrow> xs | _ \<Rightarrow> [])" if "td \<in> set (offered_tools config reg)" "td_name td = tc_name call"
      using that by (auto simp: offered_tools_def Let_def listed_names_def List.map_filter_def split: if_splits pyval.splits)
    then show ?thesis using origin[OF td(1)] td c(1) by blast
  qed
  moreover have "\<forall>(n, td) \<in> set ?tools. td_name td = n" using origin map_of_is_SomeI[OF dist] by fast
  ultimately show ?thesis
    using execute_calls_outcome[OF assms[unfolded execute_tools_def]] build_tool_definitions_eq[of config reg memory_tools] by blast
qed


section \<open>What is offered is what is checked\<close>

lemma dict_update_get:
  "distinct (map fst r) \<Longrightarrow> py_get (dict_update d r) k = (case map_of r k of None \<Rightarrow> py_get d k | Some v \<Rightarrow> v)"
proof (induction r arbitrary: d)
  case (Cons x r)
  obtain k' v where x: "x = (k', v)" by (cases x)
  have "py_get (dict_update d (x # r)) k = (case map_of r k of None \<Rightarrow> py_get (AList.update k' v d) k | Some v \<Rightarrow> v)"
    using Cons by (simp add: dict_update_def x)
  moreover have "map_of r k' = None" using Cons.prems by (simp add: x map_of_eq_None_iff)
  ultimately show ?case by (simp add: x split: option.splits)
qed (simp add: dict_update_def)

lemma workable_keeps_type:
  assumes "workable ok rule t = Inr r"
  shows "rule = PyDict r \<and> (map_of r ''type'' = None \<or> map_of r ''type'' = Some (PyStr t))"
proof -
  obtain d where d: "rule = PyDict d" using assms by (auto simp: workable_def split: pyval.splits)
  have "d = r" "py_get_or d ''type'' (PyStr t) = PyStr t"
    using assms d by (auto simp: workable_def bind_r_Inr_iff split: if_splits)
  then show ?thesis using d by (auto simp: py_get_or_def split: option.splits)
qed

definition rules_once :: "(string \<times> pyval) list \<Rightarrow> bool" where
  "rules_once narrow = list_all (\<lambda>(n, rule). case rule of PyDict r \<Rightarrow> distinct (map fst r) | _ \<Rightarrow> True) narrow"

lemma narrow_properties_keep:
  assumes "narrow_properties ok params narrow properties = Inr properties'" "rules_once narrow"
    "\<And>p. p \<in> set params \<Longrightarrow> pa_kind p \<in> set BY_NAME \<Longrightarrow> pa_name p \<in> fst ` set properties"
    "\<And>n p. map_of properties n = Some p \<Longrightarrow> \<exists>t. py_get p ''type'' = PyStr t"
  shows "map fst properties' = map fst properties \<and> (\<forall>n. type_of_property properties' n = type_of_property properties n) \<and> set (map fst narrow) \<subseteq> fst ` set properties"
  using assms
proof (induction ok params narrow properties rule: narrow_properties.induct)
  case (2 ok params name rule rest properties)
  obtain r where r: "workable ok rule (type_of_property properties name) = Inr r"
    and ex: "\<exists>p \<in> set params. pa_name p = name \<and> pa_kind p \<in> set BY_NAME"
    and rest: "narrow_properties ok params rest
      (AList.update name (dict_update (case map_of properties name of Some p \<Rightarrow> p | None \<Rightarrow> []) r) properties) = Inr properties'"
    using 2(2) by (auto simp: bind_r_Inr_iff list_ex_iff split: if_splits)
  have k: "name \<in> fst ` set properties" using ex 2(4) by auto
  then obtain p where p: "map_of properties name = Some p" by (metis map_of_eq_None_iff option.exhaust)
  let ?new = "AList.update name (dict_update p r) properties"
  have dr: "distinct (map fst r)" using 2(3) workable_keeps_type[OF r] by (simp add: rules_once_def)
  have keys: "map fst ?new = map fst properties" using k by (simp add: update_keys)
  obtain t where t: "py_get p ''type'' = PyStr t" using 2(5) p by blast
  have "type_of_property properties name = t" using p t by (simp add: type_of_property_def)
  then have t': "py_get (dict_update p r) ''type'' = PyStr t"
    using workable_keeps_type[OF r] dict_update_get[OF dr] t by auto
  have types: "type_of_property ?new n = type_of_property properties n" for n
    using p t t' by (auto simp: type_of_property_def update_conv')
  have guard: "\<not> (list_ex (\<lambda>p. pa_kind p = POSITIONAL_ONLY) params \<or> \<not> list_ex (\<lambda>p. pa_name p = name \<and> pa_kind p \<in> set BY_NAME) params)"
    using 2(2) by (auto split: if_splits)
  have "map fst properties' = map fst ?new \<and> (\<forall>n. type_of_property properties' n = type_of_property ?new n) \<and> set (map fst rest) \<subseteq> fst ` set ?new"
  proof (rule "2.IH"[OF guard, of r, unfolded p option.case])
    show "narrow_properties ok params rest ?new = Inr properties'" using rest p by simp
    show "rules_once rest" using 2(3) by (simp add: rules_once_def)
    show "pa_name q \<in> fst ` set ?new" if "q \<in> set params" "pa_kind q \<in> set BY_NAME" for q
      using 2(4)[OF that] keys by (metis list.set_map)
    show "\<exists>t. py_get q ''type'' = PyStr t" if "map_of ?new n = Some q" for n q
      using that t' 2(5) by (auto simp: update_conv' split: if_splits)
  qed
  then show ?case using keys types k by (metis (no_types, lifting) fst_conv insert_subset list.set_map list.simps(15) list.simps(9))
qed simp

lemma narrowed_schemas_lookup:
  assumes "(n, schema) \<in> set (narrowed_schemas narrow properties)" "set (map fst narrow) \<subseteq> fst ` set properties"
  shows "map_of properties n = Some schema"
proof -
  have "n \<in> fst ` set properties" using assms by (force simp: narrowed_schemas_def)
  then obtain p where "map_of properties n = Some p" by (metis map_of_eq_None_iff option.exhaust)
  then show ?thesis using assms(1) by (auto simp: narrowed_schemas_def)
qed

text \<open>
  What a registered tool offers the model is what its calls are checked against. Its schema has exactly the parameters the check knows, with the same required ones; every narrowed
  parameter is checked against the entry it is offered with; a parameter is offered as an integer or a number exactly when its values are brought to that form, and
  that is what its annotation says, narrowed or not. Only a tool with a positional-only parameter has no check of its own.\<close>

lemma offered_is_checked:
  assumes "register_tool Validator schema_ok opts src func reg = Inr reg'" "distinct (map pa_name (ts_params src))"
    "rules_once (case to_narrow opts of None \<Rightarrow> [] | Some n \<Rightarrow> n)"
  shows "\<exists>td properties. get_tool reg' (or_str (to_name opts) (ts_func_name src)) = Some td \<and>
    td_parameters td = tool_schema properties (tool_required (ts_params src)) \<and>
    map fst properties = map pa_name (sendable (ts_params src)) \<and>
    (\<forall>p \<in> set (sendable (ts_params src)). type_of_property properties (pa_name p) = known_type (hint_of (ts_hints src) p)) \<and>
    (case td_argument_spec td of
       None \<Rightarrow> \<exists>p \<in> set (ts_params src). pa_kind p = POSITIONAL_ONLY
     | Some spec \<Rightarrow> as_names spec = map fst properties \<and> as_required spec = tool_required (ts_params src) \<and>
         (\<forall>n. n \<in> set (as_integers spec) \<longleftrightarrow> n \<in> fst ` set properties \<and> type_of_property properties n = ''integer'') \<and>
         (\<forall>n. n \<in> set (as_numbers spec) \<longleftrightarrow> n \<in> fst ` set properties \<and> type_of_property properties n = ''number'') \<and>
         (\<exists>narrowed. as_validator spec = Validator narrowed \<and> as_narrowed spec = map fst narrowed \<and>
            (\<forall>(n, schema) \<in> set narrowed. map_of properties n = Some schema)))"
proof -
  let ?ps = "ts_params src" and ?hs = "ts_hints src" and ?narrow = "case to_narrow opts of None \<Rightarrow> [] | Some n \<Rightarrow> n"
  let ?props = "tool_properties ?hs ?ps" and ?name = "or_str (to_name opts) (ts_func_name src)"
  obtain spec properties where a: "argument_spec Validator schema_ok ?ps ?hs ?props ?narrow = Inr (spec, properties)"
    and reg': "map_of reg' ?name = Some \<lparr>td_name = ?name,
              td_description = (if to_description opts \<noteq> [] then to_description opts else or_str (ts_doc src) []),
              td_parameters = tool_schema properties (tool_required ?ps), td_permissions = (case to_permissions opts of None \<Rightarrow> [] | Some ps \<Rightarrow> ps),
              td_tier = to_tier opts, td_func = Some (wrapper func), td_argument_spec = spec\<rparr>"
    using assms(1) by (auto simp: register_tool_def Let_def bind_r_Inr_iff update_conv')
  have n: "narrow_properties schema_ok ?ps ?narrow ?props = Inr properties" using a by (auto simp: argument_spec_def bind_r_Inr_iff Let_def split: if_splits)
  have keys0: "map fst ?props = map pa_name (sendable ?ps)" by (simp add: tool_properties_def)
  have type0: "type_of_property ?props (pa_name p) = known_type (hint_of ?hs p)" if "p \<in> set (sendable ?ps)" for p
  proof -
    have "distinct (map fst ?props)" unfolding keys0 sendable_def using assms(2) by (rule distinct_map_filter)
    moreover have "(pa_name p, [(''type'', PyStr (known_type (hint_of ?hs p)))]) \<in> set ?props" using that by (auto simp: tool_properties_def)
    ultimately show ?thesis by (simp add: type_of_property_def map_of_is_SomeI)
  qed
  have keep: "map fst properties = map fst ?props \<and> (\<forall>n. type_of_property properties n = type_of_property ?props n) \<and> set (map fst ?narrow) \<subseteq> fst ` set ?props"
    by (rule narrow_properties_keep[OF n assms(3)])
      (auto simp: tool_properties_def sendable_def BY_NAME_def image_iff dest!: map_of_SomeD)
  have spec: "case spec of None \<Rightarrow> \<exists>p \<in> set ?ps. pa_kind p = POSITIONAL_ONLY
     | Some spec \<Rightarrow> as_names spec = map fst properties \<and> as_required spec = tool_required ?ps \<and>
         (\<forall>n. n \<in> set (as_integers spec) \<longleftrightarrow> n \<in> fst ` set properties \<and> type_of_property properties n = ''integer'') \<and>
         (\<forall>n. n \<in> set (as_numbers spec) \<longleftrightarrow> n \<in> fst ` set properties \<and> type_of_property properties n = ''number'') \<and>
         (\<exists>narrowed. as_validator spec = Validator narrowed \<and> as_narrowed spec = map fst narrowed \<and>
            (\<forall>(n, schema) \<in> set narrowed. map_of properties n = Some schema))"
  proof (cases "list_ex (\<lambda>p. pa_kind p = POSITIONAL_ONLY) ?ps")
    case True
    then show ?thesis using a n by (auto simp: argument_spec_def list_ex_iff)
  next
    case False
    have kinds: "filter (\<lambda>p. pa_kind p \<in> set BY_NAME) ?ps = sendable ?ps"
      unfolding sendable_def by (rule filter_cong) (use False in \<open>auto simp: BY_NAME_def list_ex_iff intro: param_kind.exhaust\<close>)
    have names: "fst ` set properties = pa_name ` set (sendable ?ps)" using keep keys0 by (metis list.set_map)
    have sc: "map_of properties n = Some schema" if "(n, schema) \<in> set (narrowed_schemas ?narrow properties)" for n schema
      using narrowed_schemas_lookup[OF that] keep by (metis list.set_map)
    obtain sp where sp: "spec = Some sp" "as_names sp = map pa_name (sendable ?ps)" "as_required sp = tool_required ?ps"
      "as_integers sp = map pa_name (filter (\<lambda>p. type_of_property properties (pa_name p) = ''integer'') (sendable ?ps))"
      "as_numbers sp = map pa_name (filter (\<lambda>p. type_of_property properties (pa_name p) = ''number'') (sendable ?ps))"
      "as_validator sp = Validator (narrowed_schemas ?narrow properties)" "as_narrowed sp = map fst (narrowed_schemas ?narrow properties)"
      using a n False by (auto simp: argument_spec_def Let_def kinds tool_required_def)
    have "as_names sp = map fst properties" using sp(2) keep keys0 by simp
    moreover have "n \<in> set (as_integers sp) \<longleftrightarrow> n \<in> fst ` set properties \<and> type_of_property properties n = ''integer''" for n
      unfolding sp(4) names by auto
    moreover have "n \<in> set (as_numbers sp) \<longleftrightarrow> n \<in> fst ` set properties \<and> type_of_property properties n = ''number''" for n
      unfolding sp(5) names by auto
    moreover have "\<exists>narrowed. as_validator sp = Validator narrowed \<and> as_narrowed sp = map fst narrowed \<and> (\<forall>(n, schema) \<in> set narrowed. map_of properties n = Some schema)"
      using sp(6,7) sc by blast
    ultimately show ?thesis using sp(1,3) by simp
  qed
  show ?thesis
    using reg' spec keep keys0 type0 by (intro exI[of _ "the (map_of reg' ?name)"] exI[of _ properties]) (simp add: get_tool_def)
qed


section \<open>The properties on a sample registry\<close>

definition sample_source :: tool_source where
  "sample_source =
     \<lparr>ts_func_name = ''file_read'', ts_doc = None,
      ts_params = [\<lparr>pa_name = ''path'', pa_kind = POSITIONAL_OR_KEYWORD, pa_default = False, pa_annotation = A_str\<rparr>,
                   \<lparr>pa_name = ''limit'', pa_kind = POSITIONAL_OR_KEYWORD, pa_default = True, pa_annotation = A_int\<rparr>],
      ts_hints = []\<rparr>"

definition sample_options :: tool_options where
  "sample_options =
     \<lparr>to_name = None, to_description = [], to_permissions = None, to_tier = ''builtin'', to_narrow = Some [(''path'', PyDict STRING_ONLY)]\<rparr>"

text \<open>A tool that counts its runs.\<close>

definition counted :: "pydict \<Rightarrow> nat \<Rightarrow> tool_outcome \<times> nat" where
  "counted args n = (ReturnedValue (PyStr ''read''), Suc n)"

definition sample_registry :: "nat tool_registry" where
  "sample_registry = (case register_tool text_only (\<lambda>_. True) sample_options sample_source counted [] of Inr reg \<Rightarrow> reg | Inl _ \<Rightarrow> [])"

definition sample_env :: round_env where
  "sample_env = \<lparr>te_float_text = sample_floats, te_shown = (\<lambda>_. []), te_dumps = (\<lambda>_. []), te_encode = (\<lambda>_. ''refused''), te_patterns = []\<rparr>"

definition sample_calls :: "ToolCall list" where
  "sample_calls =
     [\<lparr>tc_id = ''1'', tc_name = ''shell_exec'', tc_input = PyDict []\<rparr>, \<lparr>tc_id = ''2'', tc_name = ''file_read'', tc_input = PyDict [(''path'', PyInt 0)]\<rparr>,
      \<lparr>tc_id = ''3'', tc_name = ''file_read'', tc_input = PyDict [(''path'', PyStr ''a''), (''limit'', PyStr ''5'')]\<rparr>]"

theorem tool_round_confined_witness:
  "map lt_tool_call_id (fst (fst (execute_tools sample_env [(''tools'', PyList [PyStr ''file_read''])] sample_registry [] sample_calls 0))) = [''1'', ''2'', ''3''] \<and>
   snd (execute_tools sample_env [(''tools'', PyList [PyStr ''file_read''])] sample_registry [] sample_calls 0) = 1"
proof -
  let ?config = "[(''tools'', PyList [PyStr ''file_read''])]"
  let ?e = "execute_tools sample_env ?config sample_registry [] sample_calls 0"
  have "?e = ((fst (fst ?e), snd (fst ?e)), snd ?e)" by simp
  from tool_round_confined[OF this] have "map lt_tool_call_id (fst (fst ?e)) = map tc_id sample_calls" by blast
  moreover have "snd ?e = 1" by code_simp
  ultimately show ?thesis by (simp add: sample_calls_def)
qed

theorem offered_is_checked_witness:
  "\<exists>td spec. get_tool sample_registry ''file_read'' = Some td \<and> td_argument_spec td = Some spec \<and> as_required spec = [''path''] \<and> ''limit'' \<in> set (as_integers spec)"
proof -
  have r: "register_tool text_only (\<lambda>_. True) sample_options sample_source counted [] = Inr sample_registry"
    by (simp add: sample_registry_def register_tool_def argument_spec_def sample_options_def sample_source_def workable_def BY_NAME_def STRING_ONLY_def
        NARROWING_KEYWORDS_def py_get_or_def type_of_property_def tool_properties_def sendable_def known_type_def hint_of_def RULES_applies_to_def finite_bounds_def
        crossed_def Let_def)
  have d: "distinct (map pa_name (ts_params sample_source))" "rules_once (case to_narrow sample_options of None \<Rightarrow> [] | Some n \<Rightarrow> n)"
    by (simp_all add: sample_source_def sample_options_def rules_once_def STRING_ONLY_def)
  have "or_str (to_name sample_options) (ts_func_name sample_source) = ''file_read''" by (simp add: sample_options_def sample_source_def)
  with offered_is_checked[OF r d] show ?thesis
    by (fastforce simp: sample_source_def tool_required_def sendable_def known_type_def hint_of_def split: option.splits)
qed

end
