(* ===== verification/Reflexion.thy ===== *)
theory Reflexion
  imports Reply_Shaping Salience_Bid Tool_Round Decision_Types
begin

text \<open>
  Revising a composed reply against the private plan of the turn (\<open>src/agents/persona_runtime/reflexion.py\<close>), and what a leased call of a turn is charged to
  (\<open>wallet_cause.py\<close>). The model behind the client is a function of the calls made so far and the call at hand, so it may answer, refuse or fail as it likes.
  Prompt snippets are files, and loading or filling one may fail.
\<close>


section \<open>Calls and what they are charged to\<close>

datatype Cause =
    CAUSE_UNSPECIFIED | CAUSE_CHAT | CAUSE_CHANNEL_MESSAGE | CAUSE_AUTONOMOUS_TICK | CAUSE_WORKFLOW_TASK | CAUSE_SUB_AGENT

datatype call_purpose = P_TURN | P_CRITIC | P_REVISE

record llm_call =
  lc_purpose :: call_purpose
  lc_model :: pyval
  lc_model_alias :: pyval
  lc_messages :: "pydict list"
  lc_system :: string
  lc_tools :: "pydict list"
  lc_max_tokens :: pyval
  lc_cause :: Cause
  lc_agent_id :: string
  lc_interaction_id :: string

record LLMResponse =
  lr_text :: "string option"
  lr_tool_calls :: "ToolCall list"
  lr_stop_reason :: StopReason

text \<open>A denied lease with its reason, back-pressure of the wallet, another status of the wire, any other exception.\<close>

datatype llm_exn = BudgetExceededError string | ResourceExhausted | RpcError | ProviderException

type_synonym llm_client = "llm_call list \<Rightarrow> llm_call \<Rightarrow> llm_exn + LLMResponse"

definition cause_for_event :: "AgentEvent \<Rightarrow> Cause" where
  "cause_for_event ev =
     (if event_type ev = CHANNEL_MESSAGE then (if map_of (metadata ev) ''chat_session_id'' \<noteq> None then CAUSE_CHAT else CAUSE_CHANNEL_MESSAGE)
      else if event_type ev = TICK then CAUSE_AUTONOMOUS_TICK
      else if event_type ev = TASK_ASSIGNED then CAUSE_WORKFLOW_TASK
      else CAUSE_UNSPECIFIED)"

text \<open>The parent a task names, if the event carries a task that a spawner marked, is an argument.\<close>

definition lease_attribution_for_event :: "(AgentEvent \<Rightarrow> string) \<Rightarrow> AgentEvent \<Rightarrow> string \<Rightarrow> Cause \<times> string \<times> string" where
  "lease_attribution_for_event task_parent ev agent =
     (if event_type ev = TASK_ASSIGNED \<and> task_parent ev \<noteq> [] then (CAUSE_SUB_AGENT, task_parent ev, wire_interaction_id ev)
      else (cause_for_event ev, agent, wire_interaction_id ev))"


section \<open>The loop\<close>

definition CRITIC_MAX_OUTPUT_TOKENS :: int where "CRITIC_MAX_OUTPUT_TOKENS = 64"
definition CRITIQUE_MAX_CHARS :: nat where "CRITIQUE_MAX_CHARS = 240"

record ReflexionResult =
  rr_text :: string
  rr_rounds :: nat
  rr_changed :: bool
  rr_degraded :: bool

record reflexion_env =
  re_snippet :: "string \<Rightarrow> string option"
  re_format :: "string \<Rightarrow> string \<Rightarrow> string \<Rightarrow> string option"
  re_critic_model :: "(string \<times> string) option"
  re_name :: string
  re_role :: string
  re_model :: pyval
  re_model_alias :: pyval
  re_lease :: "Cause \<times> string \<times> string"
  re_max_tokens :: pyval

definition plan_brief :: "CompositionPlan \<Rightarrow> string" where
  "plan_brief plan =
     join [CHR 10]
       ([''Intent: '' @ cp_intent plan] @
        (if cp_key_points plan \<noteq> [] then [''Key points to land: '' @ join ''; '' (cp_key_points plan)] else []) @
        (if cp_avoid_restating plan \<noteq> [] then [''Do not restate: '' @ join ''; '' (cp_avoid_restating plan)] else []))"

definition parse_weak :: "string option \<Rightarrow> bool" where
  "parse_weak t =
     (re_search (\<lambda>s. case after_label ''weak'' s of None \<Rightarrow> None | Some r \<Rightarrow> yes_or_no True r) (or_str t []) = Some True)"

definition parse_critique :: "string option \<Rightarrow> string" where
  "parse_critique t =
     (case re_search (\<lambda>s. case after_label ''critique'' s of None \<Rightarrow> None | Some r \<Rightarrow> if r = [] then None else Some (line_of r)) (or_str t []) of
        None \<Rightarrow> [] | Some v \<Rightarrow> take CRITIQUE_MAX_CHARS (py_strip v))"

definition user_message :: "string \<Rightarrow> pydict" where
  "user_message t = [(''role'', PyStr ''user''), (''content'', PyStr t)]"

definition reflexion_call :: "reflexion_env \<Rightarrow> call_purpose \<Rightarrow> pyval \<Rightarrow> pyval \<Rightarrow> pyval \<Rightarrow> string \<Rightarrow> string \<Rightarrow> llm_call" where
  "reflexion_call re purpose model alias max_tokens system prompt =
     \<lparr>lc_purpose = purpose, lc_model = model, lc_model_alias = alias, lc_messages = [user_message prompt], lc_system = system, lc_tools = [],
      lc_max_tokens = max_tokens, lc_cause = fst (re_lease re), lc_agent_id = fst (snd (re_lease re)), lc_interaction_id = snd (snd (re_lease re))\<rparr>"

text \<open>The system prompt and the snippet that ends the user's, if both load and the first can be filled in.\<close>

definition load_prompts :: "reflexion_env \<Rightarrow> string \<Rightarrow> string \<Rightarrow> (string \<times> string) option" where
  "load_prompts re system_name user_name =
     (case re_snippet re system_name of
        None \<Rightarrow> None
      | Some s \<Rightarrow>
          (case re_format re s (re_name re) (re_role re) of
             None \<Rightarrow> None
           | Some system \<Rightarrow> map_option (\<lambda>ending. (system, ending)) (re_snippet re user_name)))"

definition critic_prompt :: "string \<Rightarrow> string \<Rightarrow> string \<Rightarrow> string" where
  "critic_prompt brief draft ending =
     ''Your private plan for the message:'' @ [CHR 10] @ brief @ [CHR 10, CHR 10] @
     ''Your draft message:'' @ [CHR 10] @ draft @ [CHR 10, CHR 10] @ ending"

definition revise_prompt :: "string \<Rightarrow> string \<Rightarrow> string \<Rightarrow> string \<Rightarrow> string" where
  "revise_prompt brief critique draft ending =
     ''Your private plan for the message:'' @ [CHR 10] @ brief @ [CHR 10, CHR 10] @
     (if critique = [] then [] else ''A reviewer flagged: '' @ critique @ [CHR 10, CHR 10]) @
     ''Your current draft:'' @ [CHR 10] @ draft @ [CHR 10, CHR 10] @ ending"

datatype critic_signal = Critic_degraded | Strong_draft | Weak_draft string

definition run_critic :: "reflexion_env \<Rightarrow> llm_client \<Rightarrow> string \<times> string \<Rightarrow> string \<Rightarrow> string \<Rightarrow> llm_call list \<Rightarrow> critic_signal \<times> llm_call list" where
  "run_critic re client critic draft brief calls =
     (case load_prompts re ''reflexion-critic-system'' ''reflexion-critic-user'' of
        None \<Rightarrow> (Critic_degraded, calls)
      | Some (system, ending) \<Rightarrow>
          let call = reflexion_call re P_CRITIC (PyStr (fst critic)) (PyStr (snd critic)) (PyInt CRITIC_MAX_OUTPUT_TOKENS) system (critic_prompt brief draft ending)
          in (case client calls call of
                Inl _ \<Rightarrow> Critic_degraded
              | Inr r \<Rightarrow> if \<not> parse_weak (lr_text r) then Strong_draft else Weak_draft (parse_critique (lr_text r)), calls @ [call]))"

definition run_revise :: "reflexion_env \<Rightarrow> llm_client \<Rightarrow> string \<Rightarrow> string \<Rightarrow> string \<Rightarrow> llm_call list \<Rightarrow> string option \<times> llm_call list" where
  "run_revise re client draft critique brief calls =
     (case load_prompts re ''reflexion-revise-system'' ''reflexion-revise-user'' of
        None \<Rightarrow> (None, calls)
      | Some (system, ending) \<Rightarrow>
          let call = reflexion_call re P_REVISE (re_model re) (re_model_alias re) (re_max_tokens re) system (revise_prompt brief critique draft ending)
          in (case client calls call of
                Inl _ \<Rightarrow> None
              | Inr r \<Rightarrow> if lr_stop_reason r = MAX_TOKENS \<or> py_strip (or_str (lr_text r) []) = [] then None
                          else Some (py_strip (or_str (lr_text r) [])), calls @ [call]))"

fun reflexion_rounds ::
  "reflexion_env \<Rightarrow> llm_client \<Rightarrow> string \<times> string \<Rightarrow> string \<Rightarrow> nat \<Rightarrow> string \<Rightarrow> nat \<Rightarrow> llm_call list \<Rightarrow> (string \<times> nat \<times> bool) \<times> llm_call list" where
  "reflexion_rounds re client critic brief 0 current rounds calls = ((current, rounds, False), calls)"
| "reflexion_rounds re client critic brief (Suc n) current rounds calls =
     (case run_critic re client critic current brief calls of
        (Critic_degraded, calls') \<Rightarrow> ((current, rounds, True), calls')
      | (Strong_draft, calls') \<Rightarrow> ((current, rounds, False), calls')
      | (Weak_draft critique, calls') \<Rightarrow>
          (case run_revise re client current critique brief calls' of
             (None, calls'') \<Rightarrow> ((current, rounds, True), calls'')
           | (Some revised, calls'') \<Rightarrow>
               if revised = current then ((current, rounds, False), calls'')
               else reflexion_rounds re client critic brief n revised (Suc rounds) calls''))"

definition run_reflexion ::
  "reflexion_env \<Rightarrow> llm_client \<Rightarrow> string \<Rightarrow> CompositionPlan option \<Rightarrow> int \<Rightarrow> llm_call list \<Rightarrow> ReflexionResult \<times> llm_call list" where
  "run_reflexion re client draft plan revise calls =
     (let rounds_cap = min revise MAX_REVISE_ROUNDS;
          kept = (\<lambda>degraded. \<lparr>rr_text = draft, rr_rounds = 0, rr_changed = False, rr_degraded = degraded\<rparr>)
      in case plan of
           None \<Rightarrow> (kept False, calls)
         | Some p \<Rightarrow>
             if rounds_cap \<le> 0 \<or> py_strip draft = [] then (kept False, calls)
             else (case re_critic_model re of
                     None \<Rightarrow> (kept True, calls)
                   | Some critic \<Rightarrow>
                       (case reflexion_rounds re client critic (plan_brief p) (nat rounds_cap) draft 0 calls of
                          ((current, rounds, degraded), calls') \<Rightarrow>
                            (\<lparr>rr_text = current, rr_rounds = rounds, rr_changed = (current \<noteq> draft), rr_degraded = degraded\<rparr>, calls'))))"

text \<open>The first message of the turn with some content, and where it stands.\<close>

fun first_draft :: "(pyval \<Rightarrow> string) \<Rightarrow> nat \<Rightarrow> ParsedAction list \<Rightarrow> (nat \<times> string) option result" where
  "first_draft shown i [] = Inr None"
| "first_draft shown i (a # as') =
     (if px_type a \<noteq> SEND_CHANNEL_MESSAGE then first_draft shown (Suc i) as'
      else bind_r (payload_get a ''content'' (PyStr [])) (\<lambda>v.
        if py_strip (str_text shown v) \<noteq> [] then Inr (Some (i, str_text shown v)) else first_draft shown (Suc i) as'))"

definition reflexion_outcome :: "ReflexionResult \<Rightarrow> string" where
  "reflexion_outcome r = (if rr_changed r then ''revised'' else if rr_degraded r then ''degraded'' else ''noop'')"

definition maybe_revise_channel_message ::
  "(pyval \<Rightarrow> string) \<Rightarrow> reflexion_env \<Rightarrow> llm_client \<Rightarrow> ParsedAction list \<Rightarrow> SalienceOutcome option \<Rightarrow> llm_call list \<Rightarrow>
   (ParsedAction list \<times> string list) result \<times> llm_call list" where
  "maybe_revise_channel_message shown re client as' salience calls =
     (case salience of
        None \<Rightarrow> (Inr (as', []), calls)
      | Some s \<Rightarrow>
          if so_plan s = None \<or> so_revise s < 1 then (Inr (as', []), calls)
          else (case first_draft shown 0 as' of
                  Inl e \<Rightarrow> (Inl e, calls)
                | Inr None \<Rightarrow> (Inr (as', []), calls)
                | Inr (Some (idx, draft)) \<Rightarrow>
                    (case run_reflexion re client draft (so_plan s) (so_revise s) calls of
                       (result, calls') \<Rightarrow>
                         (Inr (if \<not> rr_changed result then as'
                               else as'[idx := \<lparr>px_type = SEND_CHANNEL_MESSAGE, px_payload = payload_with (as' ! idx) ''content'' (rr_text result)\<rparr>],
                               [reflexion_outcome result]), calls'))))"


section \<open>Never losing the post\<close>

lemma run_critic_calls: "\<exists>new. snd (run_critic re client critic draft brief calls) = calls @ new \<and> length new \<le> 1 \<and> (\<forall>c \<in> set new. lc_purpose c = P_CRITIC)"
  by (auto simp: run_critic_def Let_def reflexion_call_def split: option.splits prod.splits)

lemma run_revise_calls: "\<exists>new. snd (run_revise re client draft critique brief calls) = calls @ new \<and> length new \<le> 1 \<and> (\<forall>c \<in> set new. lc_purpose c = P_REVISE)"
  by (auto simp: run_revise_def Let_def reflexion_call_def split: option.splits prod.splits)

text \<open>A rewrite is the whole answer to a call of the client that was not cut off.\<close>

definition written_by :: "llm_client \<Rightarrow> llm_call list \<Rightarrow> string \<Rightarrow> bool" where
  "written_by client calls t \<longleftrightarrow>
     (\<exists>before c r. prefix (before @ [c]) calls \<and> lc_purpose c = P_REVISE \<and> client before c = Inr r \<and> lr_stop_reason r \<noteq> MAX_TOKENS \<and>
        t = py_strip (or_str (lr_text r) []))"

lemma run_revise_written:
  assumes "run_revise re client draft critique brief calls = (Some revised, calls')"
  shows "written_by client calls' revised \<and> py_strip revised \<noteq> []"
proof -
  obtain call r where c: "calls' = calls @ [call]" "lc_purpose call = P_REVISE" "client calls call = Inr r" "lr_stop_reason r \<noteq> MAX_TOKENS"
    "revised = py_strip (or_str (lr_text r) [])" "revised \<noteq> []"
    using assms by (auto simp: run_revise_def Let_def reflexion_call_def split: option.splits prod.splits sum.splits if_splits)
  show ?thesis unfolding written_by_def using c by (intro conjI exI[of _ calls] exI[of _ call] exI[of _ r]) auto
qed

lemma written_by_more: "written_by client calls t \<Longrightarrow> written_by client (calls @ new) t"
  unfolding written_by_def by (elim exE conjE) (intro exI conjI, auto simp: prefix_def)

lemma reflexion_rounds_outcome:
  assumes "reflexion_rounds re client critic brief n current rounds calls = ((final, rounds', degraded), calls')" "py_strip current \<noteq> []"
  shows "py_strip final \<noteq> [] \<and> rounds \<le> rounds' \<and> rounds' \<le> rounds + n \<and> (rounds' = rounds \<longrightarrow> final = current) \<and>
     (final = current \<or> written_by client calls' final) \<and>
     (\<exists>new. calls' = calls @ new \<and> length (filter (\<lambda>c. lc_purpose c = P_CRITIC) new) \<le> n \<and> length (filter (\<lambda>c. lc_purpose c = P_REVISE) new) \<le> n \<and>
        (\<forall>c \<in> set new. lc_purpose c \<noteq> P_TURN))"
  using assms
proof (induction n arbitrary: current rounds calls)
  case (Suc n)
  obtain signal c1 where k: "run_critic re client critic current brief calls = (signal, c1)" by fastforce
  obtain new1 where n1: "c1 = calls @ new1" "length new1 \<le> 1" "\<forall>c \<in> set new1. lc_purpose c = P_CRITIC"
    using run_critic_calls[of re client critic current brief calls] k by auto
  have f1: "length (filter (\<lambda>c. lc_purpose c = P_CRITIC) new1) \<le> 1" "filter (\<lambda>c. lc_purpose c = P_REVISE) new1 = []"
    using n1 length_filter_le[of "\<lambda>c. lc_purpose c = P_CRITIC" new1] by (auto simp: filter_empty_conv)
  show ?case
  proof (cases signal)
    case (Weak_draft critique)
    obtain revised c2 where v: "run_revise re client current critique brief c1 = (revised, c2)" by fastforce
    obtain new2 where n2: "c2 = c1 @ new2" "length new2 \<le> 1" "\<forall>c \<in> set new2. lc_purpose c = P_REVISE"
      using run_revise_calls[of re client current critique brief c1] v by auto
    have f2: "length (filter (\<lambda>c. lc_purpose c = P_REVISE) new2) \<le> 1" "filter (\<lambda>c. lc_purpose c = P_CRITIC) new2 = []"
      using n2 length_filter_le[of "\<lambda>c. lc_purpose c = P_REVISE" new2] by (auto simp: filter_empty_conv)
    show ?thesis
    proof (cases "\<exists>t. revised = Some t \<and> t \<noteq> current")
      case True
      then obtain t where t: "revised = Some t" "t \<noteq> current" by blast
      have w: "written_by client c2 t" "py_strip t \<noteq> []" using run_revise_written v t(1) by blast+
      have r: "reflexion_rounds re client critic brief n t (Suc rounds) c2 = ((final, rounds', degraded), calls')"
        using Suc.prems(1) k Weak_draft v t by simp
      note ih = Suc.IH[OF r w(2)]
      then obtain new3 where n3: "calls' = c2 @ new3" "length (filter (\<lambda>c. lc_purpose c = P_CRITIC) new3) \<le> n"
        "length (filter (\<lambda>c. lc_purpose c = P_REVISE) new3) \<le> n" "\<forall>c \<in> set new3. lc_purpose c \<noteq> P_TURN" by blast
      have "final = current \<or> written_by client calls' final" using ih w(1) n3(1) written_by_more by blast
      moreover have "\<exists>new. calls' = calls @ new \<and> length (filter (\<lambda>c. lc_purpose c = P_CRITIC) new) \<le> Suc n \<and>
          length (filter (\<lambda>c. lc_purpose c = P_REVISE) new) \<le> Suc n \<and> (\<forall>c \<in> set new. lc_purpose c \<noteq> P_TURN)"
        using n1 n2 n3 f1 f2 by (intro exI[of _ "new1 @ new2 @ new3"]) auto
      ultimately show ?thesis using ih by auto
    next
      case False
      then have "final = current" "rounds' = rounds" "calls' = c2" using Suc.prems(1) k Weak_draft v by (auto split: option.splits if_splits)
      then show ?thesis using Suc.prems(2) n1 n2 f1 f2 by (auto intro!: exI[of _ "new1 @ new2"])
    qed
  qed (use Suc.prems k n1 f1 in auto)
qed (auto intro: exI[of _ "[]"])

lemma run_reflexion_outcome:
  assumes "run_reflexion re client draft plan revise calls = (r, calls')"
  shows "(py_strip draft \<noteq> [] \<longrightarrow> py_strip (rr_text r) \<noteq> []) \<and> (rr_changed r \<longleftrightarrow> rr_text r \<noteq> draft) \<and> (rr_changed r \<longrightarrow> 0 < rr_rounds r \<and> written_by client calls' (rr_text r)) \<and>
    int (rr_rounds r) \<le> max 0 (min revise MAX_REVISE_ROUNDS) \<and>
    (\<exists>new. calls' = calls @ new \<and> (\<forall>c \<in> set new. lc_purpose c \<noteq> P_TURN) \<and>
       int (length (filter (\<lambda>c. lc_purpose c = P_CRITIC) new)) \<le> max 0 (min revise MAX_REVISE_ROUNDS) \<and>
       int (length (filter (\<lambda>c. lc_purpose c = P_REVISE) new)) \<le> max 0 (min revise MAX_REVISE_ROUNDS) \<and>
       (plan = None \<or> revise \<le> 0 \<or> py_strip draft = [] \<longrightarrow> new = []))"
proof (cases "plan = None \<or> min revise MAX_REVISE_ROUNDS \<le> 0 \<or> py_strip draft = [] \<or> re_critic_model re = None")
  case True
  then have "rr_text r = draft" "rr_rounds r = 0" "\<not> rr_changed r" "calls' = calls"
    using assms by (auto simp: run_reflexion_def Let_def split: option.splits if_splits)
  then show ?thesis by auto
next
  case False
  then obtain p critic where p: "plan = Some p" "re_critic_model re = Some critic" by auto
  let ?n = "nat (min revise MAX_REVISE_ROUNDS)"
  obtain final rounds degraded where l: "reflexion_rounds re client critic (plan_brief p) ?n draft 0 calls = ((final, rounds, degraded), calls')"
    and r: "r = \<lparr>rr_text = final, rr_rounds = rounds, rr_changed = (final \<noteq> draft), rr_degraded = degraded\<rparr>"
    using assms False p by (auto simp: run_reflexion_def Let_def split: prod.splits)
  have d: "py_strip draft \<noteq> []" using False by blast
  have cap: "0 < min revise MAX_REVISE_ROUNDS" using False by linarith
  from reflexion_rounds_outcome[OF l d] obtain new where n: "calls' = calls @ new" "length (filter (\<lambda>c. lc_purpose c = P_CRITIC) new) \<le> ?n"
    "length (filter (\<lambda>c. lc_purpose c = P_REVISE) new) \<le> ?n" "\<forall>c \<in> set new. lc_purpose c \<noteq> P_TURN" by blast
  have "int (length (filter (\<lambda>c. lc_purpose c = P_CRITIC) new)) \<le> max 0 (min revise MAX_REVISE_ROUNDS)"
       "int (length (filter (\<lambda>c. lc_purpose c = P_REVISE) new)) \<le> max 0 (min revise MAX_REVISE_ROUNDS)"
       "int rounds \<le> max 0 (min revise MAX_REVISE_ROUNDS)"
    using n(2,3) reflexion_rounds_outcome[OF l d] cap by linarith+
  moreover have "py_strip final \<noteq> []" "rounds = 0 \<longrightarrow> final = draft" "final = draft \<or> written_by client calls' final"
    using reflexion_rounds_outcome[OF l d] by auto
  ultimately show ?thesis unfolding r using n(1,4) p(1) d cap by (intro conjI exI[of _ new]) auto
qed

text \<open>
  C38. Revising a reply never loses it. Whatever the critic and the writer answer, refuse or fail with, a draft with some text comes back as a text with some: the draft
  itself, or the complete answer of a rewrite that was not cut off. There are at most as many critic calls and rewrites as the channel's setting and never more than
  two of each; with no plan, no setting or a blank draft no call is made. A result counts as changed exactly if it differs from the draft, which needs a round.\<close>

theorem reflexion_keeps_post:
  assumes "run_reflexion re client draft plan revise calls = (r, calls')"
  shows "(py_strip draft \<noteq> [] \<longrightarrow> py_strip (rr_text r) \<noteq> []) \<and> (rr_changed r \<longleftrightarrow> rr_text r \<noteq> draft) \<and> (rr_changed r \<longrightarrow> 0 < rr_rounds r \<and> written_by client calls' (rr_text r)) \<and>
    int (rr_rounds r) \<le> max 0 (min revise MAX_REVISE_ROUNDS) \<and>
    (\<exists>new. calls' = calls @ new \<and> (\<forall>c \<in> set new. lc_purpose c \<noteq> P_TURN) \<and>
       int (length (filter (\<lambda>c. lc_purpose c = P_CRITIC) new)) \<le> max 0 (min revise MAX_REVISE_ROUNDS) \<and>
       int (length (filter (\<lambda>c. lc_purpose c = P_REVISE) new)) \<le> max 0 (min revise MAX_REVISE_ROUNDS) \<and>
       (plan = None \<or> revise \<le> 0 \<or> py_strip draft = [] \<longrightarrow> new = []))"
  by (rule run_reflexion_outcome[OF assms])


section \<open>The property on a sample draft\<close>

definition sample_reflexion :: reflexion_env where
  "sample_reflexion =
     \<lparr>re_snippet = (\<lambda>_. Some ''x''), re_format = (\<lambda>s _ _. Some s), re_critic_model = Some (''small'', ''fast''), re_name = ''Fox'', re_role = ''guide'',
      re_model = PyStr ''big'', re_model_alias = PyNone, re_lease = (CAUSE_CHANNEL_MESSAGE, ''fox'', []), re_max_tokens = PyInt 9\<rparr>"

text \<open>A critic that finds every draft weak, and a writer whose second answer is cut off.\<close>

definition harsh_client :: llm_client where
  "harsh_client calls call =
     Inr \<lparr>lr_text = Some (if lc_purpose call = P_CRITIC then ''weak: yes'' else ''better''), lr_tool_calls = [],
          lr_stop_reason = (if length calls > 2 then MAX_TOKENS else END_TURN)\<rparr>"

definition sample_plan :: CompositionPlan where
  "sample_plan = \<lparr>cp_intent = ''greet'', cp_key_points = [], cp_addressed_to = ''room'', cp_avoid_restating = []\<rparr>"

theorem reflexion_keeps_post_witness:
  "py_strip (rr_text (fst (run_reflexion sample_reflexion harsh_client ''draft'' (Some sample_plan) 5 []))) \<noteq> [] \<and>
   length (snd (run_reflexion sample_reflexion harsh_client ''draft'' (Some sample_plan) 5 [])) = 4"
proof -
  let ?r = "run_reflexion sample_reflexion harsh_client ''draft'' (Some sample_plan) 5 []"
  have "?r = (fst ?r, snd ?r)" by simp
  from reflexion_keeps_post[OF this] have "py_strip ''draft'' \<noteq> [] \<longrightarrow> py_strip (rr_text (fst ?r)) \<noteq> []" by blast
  moreover have "py_strip ''draft'' \<noteq> []" by code_simp
  moreover have "length (snd ?r) = 4" by code_simp
  ultimately show ?thesis by blast
qed

end
