(* ===== verification/Action_Loop.thy ===== *)
theory Action_Loop
  imports Reflexion Working_Memory
begin

text \<open>
  One turn of a persona (\<open>src/agents/persona_runtime/action_loop.py\<close>): the inbound sanitizer (\<open>channel_ingest.py\<close>), the replay branch, the response gate with its
  suppress path (\<open>gate_suppress.py\<close>), the salience seam, memory injection, the loop of model calls and tool rounds, its errors (\<open>llm_call_errors.py\<close>), and the way
  from the answer to the actions. What the turn asks of the rest of the agent (storing an event, closing an interaction, injecting memory, formatting, seeding, saving
  its state) are functions on the state of the world that may raise. Counters are a log; each drain of energy is counted.
\<close>


section \<open>A turn and its surroundings\<close>

datatype turn_exn = Py_raise py_error | Llm_raise llm_exn

datatype turn_counter = Replayed_count string | Gated_count string string | Idle_count string | Reflexion_count string

record 'w turn_state =
  tt_world :: 'w
  tt_calls :: "llm_call list"
  tt_seam :: seam_log
  tt_counters :: "turn_counter list"
  tt_drained :: nat

type_synonym ('w, 'a) turn = "'w turn_state \<Rightarrow> (turn_exn + 'a) \<times> 'w turn_state"

type_synonym ('w, 'a) world_op = "'w \<Rightarrow> 'a result \<times> 'w"

record 'w persona_env =
  pe_agent_id :: string
  pe_config :: pydict
  pe_patterns :: patterns
  pe_loads :: "string \<Rightarrow> pyval option"
  pe_int :: "string \<Rightarrow> int option"
  pe_shown :: "pyval \<Rightarrow> string"
  pe_seam :: seam_env
  pe_tool_env :: round_env
  pe_registry :: "'w tool_registry"
  pe_memory_tools :: "'w ToolDefinition list"
  pe_reflexion :: reflexion_env
  pe_task_parent :: "AgentEvent \<Rightarrow> string"
  pe_store_event_episode :: "AgentEvent \<Rightarrow> ParsedAction list \<Rightarrow> ('w, unit) world_op"
  pe_close_on_notification :: "AgentEvent \<Rightarrow> ('w, unit) world_op"
  pe_close_on_cost :: "AgentEvent \<Rightarrow> ('w, unit) world_op"
  pe_format_event :: "AgentEvent \<Rightarrow> string result"
  pe_inject_memory_context :: "AgentEvent \<Rightarrow> pyval \<Rightarrow> ('w, int) world_op"
  pe_build_seed_messages :: "AgentEvent \<Rightarrow> string \<Rightarrow> ('w, pydict list) world_op"
  pe_has_active_goal_payload :: "'w \<Rightarrow> bool"
  pe_has_pending_turn :: "'w \<Rightarrow> bool"
  pe_build_system_prompt :: "'w \<Rightarrow> string"
  pe_working_memory :: "'w \<Rightarrow> WorkingMemory"
  pe_append_tool_round :: "pydict list \<Rightarrow> LLMResponse \<Rightarrow> LLMToolResult list \<Rightarrow> pydict list"
  pe_persist_persona_state :: "('w, unit) world_op"

definition return_t :: "'a \<Rightarrow> ('w, 'a) turn" where "return_t v st = (Inr v, st)"

definition bind_t :: "('w, 'a) turn \<Rightarrow> ('a \<Rightarrow> ('w, 'b) turn) \<Rightarrow> ('w, 'b) turn" where
  "bind_t f g st = (case f st of (Inl e, st') \<Rightarrow> (Inl e, st') | (Inr v, st') \<Rightarrow> g v st')"

definition lift_t :: "'a result \<Rightarrow> ('w, 'a) turn" where
  "lift_t r st = (case r of Inl e \<Rightarrow> (Inl (Py_raise e), st) | Inr v \<Rightarrow> (Inr v, st))"

definition on_world :: "('w, 'a) world_op \<Rightarrow> ('w, 'a) turn" where
  "on_world f st = (case f (tt_world st) of
     (Inl e, w) \<Rightarrow> (Inl (Py_raise e), st\<lparr>tt_world := w\<rparr>) | (Inr v, w) \<Rightarrow> (Inr v, st\<lparr>tt_world := w\<rparr>))"

definition count_t :: "turn_counter list \<Rightarrow> ('w, unit) turn" where
  "count_t cs st = (Inr (), st\<lparr>tt_counters := tt_counters st @ cs\<rparr>)"


section \<open>Events that start no turn\<close>

definition sanitize_inbound_event :: "patterns \<Rightarrow> AgentEvent \<Rightarrow> AgentEvent result" where
  "sanitize_inbound_event ps ev =
     (if event_type ev \<noteq> CHANNEL_MESSAGE then Inr ev
      else case py_get_or (payload ev) ''content'' (PyStr []) of
        PyStr content \<Rightarrow>
          if content = [] then Inr ev
          else bind_r (sanitize ps content ''channel_message'' ''passthrough'') (\<lambda>r.
            Inr (if si_content r = content then ev else ev\<lparr>payload := AList.update ''content'' (PyStr (si_content r)) (payload ev)\<rparr>))
      | _ \<Rightarrow> Inr ev)"

definition replayed_event :: "'w persona_env \<Rightarrow> AgentEvent \<Rightarrow> ('w, ParsedAction list) turn" where
  "replayed_event env ev =
     (if sender_id ev \<noteq> Some (pe_agent_id env)
      then bind_t (on_world (pe_store_event_episode env ev [])) (\<lambda>_.
        bind_t (count_t [Replayed_count (or_str (channel_id ev) [])]) (\<lambda>_. return_t [noop_action]))
      else return_t [noop_action])"

definition suppressed_event_actions :: "'w persona_env \<Rightarrow> AgentEvent \<Rightarrow> GateDecision \<Rightarrow> ('w, ParsedAction list) turn" where
  "suppressed_event_actions env ev decision =
     bind_t (count_t [Gated_count (or_str (channel_id ev) []) (if gd_policy decision = [] then ''unknown'' else gd_policy decision)]) (\<lambda>_.
       if gd_reason decision = ''close_notification''
       then bind_t (on_world (pe_close_on_notification env ev)) (\<lambda>_. return_t [noop_action])
       else if gd_policy decision \<noteq> POLICY_DEFENSE_IN_DEPTH
       then bind_t (on_world (pe_store_event_episode env ev [])) (\<lambda>_. return_t [noop_action])
       else return_t [noop_action])"

definition salience_seam :: "'w persona_env \<Rightarrow> AgentEvent \<Rightarrow> GateDecision \<Rightarrow> ('w, SalienceOutcome option) turn" where
  "salience_seam env ev decision st =
     (case run_salience_gate (pe_seam env) ev decision None (tt_seam st) of
        (Inl e, l) \<Rightarrow> (Inl (Py_raise e), st\<lparr>tt_seam := l\<rparr>)
      | (Inr s, l) \<Rightarrow> (Inr s, st\<lparr>tt_seam := l\<rparr>))"


section \<open>Calls and their errors\<close>

definition provider_error :: "ParsedAction list" where "provider_error = [complete_with ''LLM provider error'']"

definition handle_llm_call_exception :: "llm_exn \<Rightarrow> AgentEvent \<Rightarrow> ParsedAction list option \<times> turn_counter list" where
  "handle_llm_call_exception exc ev =
     (case exc of
        BudgetExceededError _ \<Rightarrow> if event_type ev = TICK then (Some [noop_action], [Idle_count ''budget_denied'']) else (None, [])
      | ResourceExhausted \<Rightarrow> if event_type ev = TICK then (Some [noop_action], [Idle_count ''resource_exhausted'']) else (None, [])
      | RpcError \<Rightarrow> (Some provider_error, [])
      | ProviderException \<Rightarrow> (Some provider_error, []))"

definition handle_llm_call_exception_with_cost_close :: "'w persona_env \<Rightarrow> llm_exn \<Rightarrow> AgentEvent \<Rightarrow> ('w, ParsedAction list) turn" where
  "handle_llm_call_exception_with_cost_close env exc ev st =
     (let st1 = (if exc = BudgetExceededError ''interaction_budget_exhausted'' then st\<lparr>tt_world := snd (pe_close_on_cost env ev (tt_world st))\<rparr> else st);
          (result, cs) = handle_llm_call_exception exc ev;
          st2 = st1\<lparr>tt_counters := tt_counters st1 @ cs\<rparr>
      in case result of None \<Rightarrow> (Inl (Llm_raise exc), st2) | Some as' \<Rightarrow> (Inr as', st2))"

definition build_compose_system_prompt :: "'w persona_env \<Rightarrow> SalienceOutcome option \<Rightarrow> 'w \<Rightarrow> string" where
  "build_compose_system_prompt env salience w =
     (let sections = map snd (build_context (pe_working_memory env w));
          gap = [CHR 10, CHR 10]
      in pe_build_system_prompt env w @
         (if sections \<noteq> [] then gap @ join gap sections else []) @
         (case salience of Some s \<Rightarrow> (case so_plan s of Some plan \<Rightarrow> gap @ render_plan_section plan | None \<Rightarrow> []) | None \<Rightarrow> []))"

definition turn_call :: "'w persona_env \<Rightarrow> AgentEvent \<Rightarrow> string \<Rightarrow> pydict list \<Rightarrow> llm_call" where
  "turn_call env ev system messages =
     (let lease = lease_attribution_for_event (pe_task_parent env) ev (pe_agent_id env)
      in \<lparr>lc_purpose = P_TURN, lc_model = py_get (pe_config env) ''model'', lc_model_alias = py_get (pe_config env) ''model_alias'', lc_messages = messages,
          lc_system = system, lc_tools = build_tool_definitions (pe_config env) (pe_registry env) (pe_memory_tools env),
          lc_max_tokens = py_get_or (pe_config env) ''max_tokens'' (PyInt 4096),
          lc_cause = fst lease, lc_agent_id = fst (snd lease), lc_interaction_id = snd (snd lease)\<rparr>)"

definition PERSONA_DEFAULT_MAX_LLM_CALLS :: int where "PERSONA_DEFAULT_MAX_LLM_CALLS = 10"

definition max_llm_calls :: "'w persona_env \<Rightarrow> pyval" where
  "max_llm_calls env = py_get_or (pe_config env) ''max_llm_calls'' (PyInt PERSONA_DEFAULT_MAX_LLM_CALLS)"

text \<open>\<open>range(n)\<close>: how often the loop may run.\<close>

definition py_range :: "pyval \<Rightarrow> nat result" where
  "py_range v = (case v of PyInt i \<Rightarrow> Inr (nat i) | PyBool b \<Rightarrow> Inr (if b then 1 else 0) | _ \<Rightarrow> Inl TypeError)"

fun call_loop ::
  "'w persona_env \<Rightarrow> llm_client \<Rightarrow> (pydict list \<Rightarrow> llm_call) \<Rightarrow> nat \<Rightarrow> pydict list \<Rightarrow> LLMResponse option \<Rightarrow> 'w turn_state \<Rightarrow>
   (llm_exn + LLMResponse option) \<times> 'w turn_state" where
  "call_loop env client mk 0 messages response st = (Inr response, st)"
| "call_loop env client mk (Suc n) messages response st =
     (let call = mk messages; st1 = st\<lparr>tt_calls := tt_calls st @ [call]\<rparr>
      in case client (tt_calls st) call of
           Inl exc \<Rightarrow> (Inl exc, st1)
         | Inr r \<Rightarrow>
             if lr_stop_reason r = TOOL_USE then
               (case execute_tools (pe_tool_env env) (pe_config env) (pe_registry env) (pe_memory_tools env) (lr_tool_calls r) (tt_world st1) of
                  ((results, recs), w) \<Rightarrow> call_loop env client mk n (pe_append_tool_round env messages r results) (Some r) (st1\<lparr>tt_world := w\<rparr>))
             else (Inr (Some r), st1))"


section \<open>From the answer to the actions\<close>

definition revise_t :: "'w persona_env \<Rightarrow> llm_client \<Rightarrow> AgentEvent \<Rightarrow> SalienceOutcome option \<Rightarrow> ParsedAction list \<Rightarrow> ('w, ParsedAction list) turn" where
  "revise_t env client ev salience as' st =
     (let re = (pe_reflexion env)\<lparr>re_model := py_get (pe_config env) ''model'', re_model_alias := py_get (pe_config env) ''model_alias'',
                                  re_lease := lease_attribution_for_event (pe_task_parent env) ev (pe_agent_id env),
                                  re_max_tokens := py_get_or (pe_config env) ''max_tokens'' (PyInt 4096)\<rparr>
      in case maybe_revise_channel_message (pe_shown env) re client as' salience (tt_calls st) of
           (Inl e, calls) \<Rightarrow> (Inl (Py_raise e), st\<lparr>tt_calls := calls\<rparr>)
         | (Inr (bs, outcomes), calls) \<Rightarrow> (Inr bs, st\<lparr>tt_calls := calls, tt_counters := tt_counters st @ map Reflexion_count outcomes\<rparr>))"

definition drain_energy :: "ParsedAction list \<Rightarrow> ('w, unit) turn" where
  "drain_energy as' st = (Inr (), st\<lparr>tt_drained := tt_drained st + length (filter (\<lambda>a. px_type a \<noteq> DO_NOTHING) as')\<rparr>)"

definition answer_text :: "'w persona_env \<Rightarrow> LLMResponse \<Rightarrow> string option" where
  "answer_text env r =
     (if lr_stop_reason r = TOOL_USE
      then Some (''Max LLM call budget exhausted after '' @ str_text (pe_shown env) (max_llm_calls env) @ '' iterations'')
      else lr_text r)"

definition finish_turn :: "'w persona_env \<Rightarrow> llm_client \<Rightarrow> AgentEvent \<Rightarrow> SalienceOutcome option \<Rightarrow> LLMResponse \<Rightarrow> ('w, ParsedAction list) turn" where
  "finish_turn env client ev salience r =
     (if lr_stop_reason r = MAX_TOKENS then return_t [complete_with ''Response truncated: max_tokens limit reached'']
      else bind_t (lift_t (parse_actions (pe_loads env) (pe_int env) (answer_text env r))) (\<lambda>as1.
        bind_t (lift_t (synthesize_channel_reply (pe_shown env) ev as1)) (\<lambda>as2.
          bind_t (revise_t env client ev salience as2) (\<lambda>as3.
            bind_t (lift_t (enforce_single_channel_turn ev as3)) (\<lambda>as4.
              bind_t (drain_energy as4) (\<lambda>_.
                bind_t (on_world (pe_store_event_episode env ev as4)) (\<lambda>_.
                  bind_t (on_world (pe_persist_persona_state env)) (\<lambda>_. return_t as4))))))))"

definition compose_turn :: "'w persona_env \<Rightarrow> llm_client \<Rightarrow> AgentEvent \<Rightarrow> SalienceOutcome option \<Rightarrow> string \<Rightarrow> ('w, ParsedAction list) turn" where
  "compose_turn env client ev salience message st =
     (let system = build_compose_system_prompt env salience (tt_world st);
          seeds = (case salience of Some s \<Rightarrow> so_seed s | None \<Rightarrow> None)
      in bind_t (case seeds of Some seed \<Rightarrow> return_t seed | None \<Rightarrow> on_world (pe_build_seed_messages env ev message)) (\<lambda>messages.
           bind_t (lift_t (py_range (max_llm_calls env))) (\<lambda>n st1.
             case call_loop env client (turn_call env ev system) n messages None st1 of
               (Inl exc, st2) \<Rightarrow> handle_llm_call_exception_with_cost_close env exc ev st2
             | (Inr None, st2) \<Rightarrow> (Inr [complete_with ''No LLM response''], st2)
             | (Inr (Some r), st2) \<Rightarrow> finish_turn env client ev salience r st2)) st)"

definition admitted_turn :: "'w persona_env \<Rightarrow> llm_client \<Rightarrow> AgentEvent \<Rightarrow> SalienceOutcome option \<Rightarrow> ('w, ParsedAction list) turn" where
  "admitted_turn env client ev salience =
     bind_t (case (case salience of Some s \<Rightarrow> so_user_message s | None \<Rightarrow> None) of
               Some m \<Rightarrow> return_t m | None \<Rightarrow> lift_t (pe_format_event env ev)) (\<lambda>message.
       bind_t (on_world (pe_inject_memory_context env ev
                 (if event_type ev = CHANNEL_MESSAGE then py_get_or (payload ev) ''content'' (PyStr []) else PyStr message))) (\<lambda>tokens st.
         if event_type ev = TICK \<and> tokens = 0 \<and> \<not> pe_has_active_goal_payload env (tt_world st) \<and> \<not> pe_has_pending_turn env (tt_world st)
         then (Inr [noop_action], st\<lparr>tt_counters := tt_counters st @ [Idle_count ''empty_context_tick'']\<rparr>)
         else compose_turn env client ev salience message st))"

definition MISSING_MODEL :: string where
  "MISSING_MODEL = ''Agent config missing required '' @ [CHR 39] @ ''model'' @ [CHR 39] @ '' field''"

definition on_event_inner :: "'w persona_env \<Rightarrow> llm_client \<Rightarrow> AgentEvent \<Rightarrow> ('w, ParsedAction list) turn" where
  "on_event_inner env client ev0 =
     (if map_of (pe_config env) ''model'' = None then return_t [complete_with MISSING_MODEL]
      else bind_t (lift_t (sanitize_inbound_event (pe_patterns env) ev0)) (\<lambda>ev.
        if is_true (py_get (metadata ev) ''replay_mode'') then replayed_event env ev
        else let decision = evaluate_response_gate ev (pe_agent_id env)
             in if \<not> gd_respond decision then suppressed_event_actions env ev decision
                else bind_t (salience_seam env ev decision) (\<lambda>salience.
                  if (case salience of Some s \<Rightarrow> so_silence s | None \<Rightarrow> False) then return_t [noop_action]
                  else admitted_turn env client ev salience)))"


section \<open>A calculus for turns\<close>

text \<open>
  What a step of a turn keeps to: the exceptions it may end with, the values it may return, and how many calls for the turn and for revising it adds.
\<close>

definition calls_for :: "bool \<Rightarrow> llm_call list \<Rightarrow> nat" where
  "calls_for turn cs = length (filter (\<lambda>c. (lc_purpose c = P_TURN) = turn) cs)"

lemma calls_for_simps [simp]: "calls_for b [] = 0" "calls_for b (xs @ ys) = calls_for b xs + calls_for b ys"
  by (simp_all add: calls_for_def)

definition keeps_to :: "(turn_exn \<Rightarrow> bool) \<Rightarrow> ('a \<Rightarrow> bool) \<Rightarrow> nat \<Rightarrow> nat \<Rightarrow> ('w, 'a) turn \<Rightarrow> bool" where
  "keeps_to E Q n m f \<longleftrightarrow>
     (\<forall>st res st'. f st = (res, st') \<longrightarrow> (case res of Inl e \<Rightarrow> E e | Inr v \<Rightarrow> Q v) \<and>
        (\<exists>new. tt_calls st' = tt_calls st @ new \<and> calls_for True new \<le> n \<and> calls_for False new \<le> m))"

lemma keeps_toI:
  assumes "\<And>st e st'. f st = (Inl e, st') \<Longrightarrow> E e \<and> (\<exists>new. tt_calls st' = tt_calls st @ new \<and> calls_for True new \<le> n \<and> calls_for False new \<le> m)"
    and "\<And>st v st'. f st = (Inr v, st') \<Longrightarrow> Q v \<and> (\<exists>new. tt_calls st' = tt_calls st @ new \<and> calls_for True new \<le> n \<and> calls_for False new \<le> m)"
  shows "keeps_to E Q n m f"
  unfolding keeps_to_def using assms by (auto split: sum.splits)

lemma keeps_toD:
  assumes "keeps_to E Q n m f" "f st = (res, st')"
  obtains new where "case res of Inl e \<Rightarrow> E e | Inr v \<Rightarrow> Q v" "tt_calls st' = tt_calls st @ new" "calls_for True new \<le> n" "calls_for False new \<le> m"
  using assms unfolding keeps_to_def by blast

lemma keeps_to_bind:
  assumes "keeps_to E R n1 m1 f" "\<And>v. R v \<Longrightarrow> keeps_to E Q n2 m2 (g v)"
  shows "keeps_to E Q (n1 + n2) (m1 + m2) (bind_t f g)"
  unfolding keeps_to_def
proof (intro allI impI)
  fix st res st'
  assume b: "bind_t f g st = (res, st')"
  obtain res1 st1 where f: "f st = (res1, st1)" by fastforce
  from keeps_toD[OF assms(1) f] obtain new1 where n1: "case res1 of Inl e \<Rightarrow> E e | Inr v \<Rightarrow> R v" "tt_calls st1 = tt_calls st @ new1"
    "calls_for True new1 \<le> n1" "calls_for False new1 \<le> m1" .
  show "(case res of Inl e \<Rightarrow> E e | Inr v \<Rightarrow> Q v) \<and> (\<exists>new. tt_calls st' = tt_calls st @ new \<and> calls_for True new \<le> n1 + n2 \<and> calls_for False new \<le> m1 + m2)"
  proof (cases res1)
    case (Inl e)
    then show ?thesis using b f n1 by (auto simp: bind_t_def)
  next
    case (Inr v)
    then have g: "g v st1 = (res, st')" using b f by (simp add: bind_t_def)
    have "R v" using n1(1) Inr by simp
    from keeps_toD[OF assms(2)[OF this] g] obtain new2 where "case res of Inl e \<Rightarrow> E e | Inr v \<Rightarrow> Q v" "tt_calls st' = tt_calls st1 @ new2"
      "calls_for True new2 \<le> n2" "calls_for False new2 \<le> m2" .
    then show ?thesis using n1 by (auto intro!: exI[of _ "new1 @ new2"])
  qed
qed

lemma keeps_to_free:
  assumes "keeps_to E R 0 0 f" "\<And>v. R v \<Longrightarrow> keeps_to E Q n m (g v)"
  shows "keeps_to E Q n m (bind_t f g)"
  using keeps_to_bind[OF assms] by simp

lemma keeps_to_return: "Q v \<Longrightarrow> keeps_to E Q n m (return_t v)"
  by (rule keeps_toI) (auto simp: return_t_def)

lemma keeps_to_lift: "(\<And>e. E (Py_raise e)) \<Longrightarrow> (\<And>v. r = Inr v \<Longrightarrow> Q v) \<Longrightarrow> keeps_to E Q n m (lift_t r)"
  by (rule keeps_toI) (auto simp: lift_t_def split: sum.splits)

lemma keeps_to_world: "(\<And>e. E (Py_raise e)) \<Longrightarrow> keeps_to E (\<lambda>_. True) n m (on_world f)"
  by (rule keeps_toI) (auto simp: on_world_def split: prod.splits sum.splits)

lemma keeps_to_count: "keeps_to E (\<lambda>_. True) n m (count_t cs)"
  by (rule keeps_toI) (auto simp: count_t_def)

lemma keeps_to_drain: "keeps_to E (\<lambda>_. True) n m (drain_energy as')"
  by (rule keeps_toI) (auto simp: drain_energy_def)

lemma keeps_to_seam: "(\<And>e. E (Py_raise e)) \<Longrightarrow> keeps_to E (\<lambda>_. True) n m (salience_seam env ev d)"
  by (rule keeps_toI) (auto simp: salience_seam_def split: prod.splits sum.splits)

lemma keeps_to_if: "(b \<Longrightarrow> keeps_to E Q n m f) \<Longrightarrow> (\<not> b \<Longrightarrow> keeps_to E Q n m g) \<Longrightarrow> keeps_to E Q n m (if b then f else g)"
  by simp

lemma keeps_to_after_world: "(\<And>e. E (Py_raise e)) \<Longrightarrow> (\<And>v. keeps_to E Q n m (g v)) \<Longrightarrow> keeps_to E Q n m (bind_t (on_world f) g)"
  by (rule keeps_to_free[OF keeps_to_world]) auto

lemma keeps_to_after_count: "keeps_to E Q n m (g ()) \<Longrightarrow> keeps_to E Q n m (bind_t (count_t cs) g)"
  by (rule keeps_to_free[OF keeps_to_count]) auto

lemma keeps_to_after_drain: "keeps_to E Q n m (g ()) \<Longrightarrow> keeps_to E Q n m (bind_t (drain_energy as') g)"
  by (rule keeps_to_free[OF keeps_to_drain]) auto

lemmas keeps_to_rules = keeps_to_if keeps_to_return keeps_to_after_world keeps_to_after_count keeps_to_after_drain


section \<open>The steps of a turn\<close>

lemma inbound_passthrough: "sanitize_inbound_event ps ev = Inr ev"
  by (auto simp: sanitize_inbound_event_def sanitize_def validate_source_def KNOWN_CONTEXT_SOURCES_def KNOWN_SANITIZER_ACTIONS_def Let_def split: pyval.splits)

lemma calls_for_split:
  "\<forall>c \<in> set new. lc_purpose c \<noteq> P_TURN \<Longrightarrow>
     calls_for True new = 0 \<and> calls_for False new = length (filter (\<lambda>c. lc_purpose c = P_CRITIC) new) + length (filter (\<lambda>c. lc_purpose c = P_REVISE) new)"
proof (induction new)
  case (Cons c new)
  then show ?case by (cases "lc_purpose c") (auto simp: calls_for_def)
qed (simp add: calls_for_def)

lemma first_draft_at:
  "first_draft shown i as' = Inr (Some (idx, draft)) \<Longrightarrow>
     i \<le> idx \<and> idx < i + length as' \<and> px_type (as' ! (idx - i)) = SEND_CHANNEL_MESSAGE \<and> py_strip draft \<noteq> []"
proof (induction as' arbitrary: i)
  case (Cons a as')
  show ?case
  proof (cases "px_type a = SEND_CHANNEL_MESSAGE \<and> idx = i")
    case True
    then have "py_strip draft \<noteq> []"
      using Cons.prems Cons.IH[of "Suc i"] by (auto simp: bind_r_Inr_iff split: if_splits)
    then show ?thesis using True by simp
  next
    case False
    then have "first_draft shown (Suc i) as' = Inr (Some (idx, draft))" using Cons.prems by (auto simp: bind_r_Inr_iff split: if_splits)
    from Cons.IH[OF this] show ?thesis by (auto simp: nth_Cons')
  qed
qed simp

lemma revise_outcome:
  assumes "maybe_revise_channel_message shown re client as' salience calls = (res, calls')" "\<forall>a \<in> set as'. complete_send a"
  shows "(\<forall>bs outs. res = Inr (bs, outs) \<longrightarrow> (\<forall>b \<in> set bs. complete_send b)) \<and>
    (\<exists>new. calls' = calls @ new \<and> calls_for True new = 0 \<and> calls_for False new \<le> 4)"
proof (cases "\<exists>s idx draft. salience = Some s \<and> so_plan s \<noteq> None \<and> \<not> so_revise s < 1 \<and> first_draft shown 0 as' = Inr (Some (idx, draft))")
  case False
  then have "calls' = calls" "\<forall>bs outs. res = Inr (bs, outs) \<longrightarrow> bs = as'"
    using assms(1) by (auto simp: maybe_revise_channel_message_def split: option.splits if_splits sum.splits)
  then show ?thesis using assms(2) by simp
next
  case True
  then obtain s idx draft where s: "salience = Some s" "so_plan s \<noteq> None" "\<not> so_revise s < 1" "first_draft shown 0 as' = Inr (Some (idx, draft))" by blast
  obtain r where r: "run_reflexion re client draft (so_plan s) (so_revise s) calls = (r, calls')"
    and res: "res = Inr (if \<not> rr_changed r then as'
       else as'[idx := \<lparr>px_type = SEND_CHANNEL_MESSAGE, px_payload = payload_with (as' ! idx) ''content'' (rr_text r)\<rparr>], [reflexion_outcome r])"
    using assms(1) s by (auto simp: maybe_revise_channel_message_def split: prod.splits)
  from first_draft_at[OF s(4)] have idx: "idx < length as'" "px_type (as' ! idx) = SEND_CHANNEL_MESSAGE" "py_strip draft \<noteq> []" by auto
  note keep = run_reflexion_outcome[OF r]
  have "complete_send \<lparr>px_type = SEND_CHANNEL_MESSAGE, px_payload = payload_with (as' ! idx) ''content'' (rr_text r)\<rparr>"
    using assms(2) idx keep nth_mem[OF idx(1)] by (fastforce simp: complete_send_def payload_with_def)
  then have "\<forall>bs outs. res = Inr (bs, outs) \<longrightarrow> (\<forall>b \<in> set bs. complete_send b)"
    using assms(2) set_update_subset_insert[of as' idx] unfolding res by auto
  moreover obtain new where new: "calls' = calls @ new" "\<forall>c \<in> set new. lc_purpose c \<noteq> P_TURN"
       "int (length (filter (\<lambda>c. lc_purpose c = P_CRITIC) new)) \<le> max 0 (min (so_revise s) MAX_REVISE_ROUNDS)"
       "int (length (filter (\<lambda>c. lc_purpose c = P_REVISE) new)) \<le> max 0 (min (so_revise s) MAX_REVISE_ROUNDS)"
    using keep by blast
  have "calls_for False new \<le> 4" using calls_for_split[OF new(2)] new(3,4) by (simp add: MAX_REVISE_ROUNDS_def)
  ultimately show ?thesis using new(1) calls_for_split[OF new(2)] by blast
qed

lemma keeps_to_revise:
  assumes "\<forall>a \<in> set as'. complete_send a" "\<And>e. E (Py_raise e)"
  shows "keeps_to E (\<lambda>bs. \<forall>b \<in> set bs. complete_send b) 0 4 (revise_t env client ev salience as')"
proof (rule keeps_toI)
  fix st e st' assume "revise_t env client ev salience as' st = (Inl e, st')"
  then show "E e \<and> (\<exists>new. tt_calls st' = tt_calls st @ new \<and> calls_for True new \<le> 0 \<and> calls_for False new \<le> 4)"
    using assms(2) revise_outcome[OF _ assms(1)] by (fastforce simp: revise_t_def Let_def split: prod.splits sum.splits)
next
  fix st bs st' assume "revise_t env client ev salience as' st = (Inr bs, st')"
  then show "(\<forall>b \<in> set bs. complete_send b) \<and> (\<exists>new. tt_calls st' = tt_calls st @ new \<and> calls_for True new \<le> 0 \<and> calls_for False new \<le> 4)"
    using revise_outcome[OF _ assms(1)] by (fastforce simp: revise_t_def Let_def split: prod.splits sum.splits)
qed

lemma call_loop_outcome:
  assumes "call_loop env client mk n messages response st = (res, st')" "\<And>ms. lc_purpose (mk ms) = P_TURN"
  shows "\<exists>new. tt_calls st' = tt_calls st @ new \<and> length new \<le> n \<and> calls_for False new = 0"
  using assms
proof (induction n arbitrary: messages response st)
  case (Suc n)
  let ?st1 = "st\<lparr>tt_calls := tt_calls st @ [mk messages]\<rparr>"
  have one: "calls_for False [mk messages] = 0" using assms(2) by (simp add: calls_for_def)
  show ?case
  proof (cases "\<exists>r. client (tt_calls st) (mk messages) = Inr r \<and> lr_stop_reason r = TOOL_USE")
    case True
    then obtain r where r: "client (tt_calls st) (mk messages) = Inr r" "lr_stop_reason r = TOOL_USE" by blast
    obtain results recs w where x: "execute_tools (pe_tool_env env) (pe_config env) (pe_registry env) (pe_memory_tools env) (lr_tool_calls r) (tt_world ?st1) = ((results, recs), w)"
      by (metis prod.collapse)
    have "call_loop env client mk n (pe_append_tool_round env messages r results) (Some r) (?st1\<lparr>tt_world := w\<rparr>) = (res, st')"
      using Suc.prems(1) r x by (simp add: Let_def)
    from Suc.IH[OF this assms(2)] obtain new where "tt_calls st' = tt_calls st @ [mk messages] @ new" "length new \<le> n" "calls_for False new = 0" by auto
    then show ?thesis using one calls_for_simps(2)[of False "[mk messages]" new] by (intro exI[of _ "[mk messages] @ new"]) simp
  next
    case False
    then have "tt_calls st' = tt_calls st @ [mk messages]" using Suc.prems(1) by (auto simp: Let_def split: sum.splits if_splits)
    then show ?thesis using one by (intro exI[of _ "[mk messages]"]) simp
  qed
qed simp


lemma calls_for_le: "calls_for b xs \<le> length xs"
  by (simp add: calls_for_def)

text \<open>The exceptions a turn may end with: those of the code, and a refusal of the wallet to a caller who waits.\<close>

definition may_raise :: "AgentEvent \<Rightarrow> turn_exn \<Rightarrow> bool" where
  "may_raise ev e =
     (case e of
        Py_raise _ \<Rightarrow> True
      | Llm_raise x \<Rightarrow> event_type ev \<noteq> TICK \<and> (x = ResourceExhausted \<or> (\<exists>reason. x = BudgetExceededError reason)))"

text \<open>What a turn returns: messages of a channel-anchored one are complete and for its own channel.\<close>

definition in_room :: "AgentEvent \<Rightarrow> ParsedAction list \<Rightarrow> bool" where
  "in_room ev as' =
     (event_type ev \<in> set CHANNEL_ACTING_EVENT_TYPES \<longrightarrow> or_str (channel_id ev) [] \<noteq> [] \<longrightarrow>
        (\<forall>a \<in> set as'. px_type a = SEND_CHANNEL_MESSAGE \<longrightarrow> sends_to (or_str (channel_id ev) []) a))"

lemma may_raise_py [simp]: "may_raise ev (Py_raise e)"
  by (simp add: may_raise_def)

lemma in_room_quiet [simp]: "in_room ev [noop_action]" "in_room ev [complete_with t]"
  by (simp_all add: in_room_def noop_action_def complete_with_def)

lemma enforced_in_room:
  assumes "enforce_single_channel_turn ev as' = Inr bs" "\<forall>a \<in> set as'. complete_send a" shows "in_room ev bs"
  using enforce_outcome[OF assms _ refl] unfolding in_room_def by (metis in_set_conv_nth)

lemma keeps_to_finish:
  assumes py: "\<And>e. E (Py_raise e)"
  shows "keeps_to E (in_room ev) 0 4 (finish_turn env client ev salience r)"
proof -
  have rest: "keeps_to E (in_room ev) 0 0
      (bind_t (lift_t (enforce_single_channel_turn ev as3)) (\<lambda>as4. bind_t (drain_energy as4) (\<lambda>_.
         bind_t (on_world (pe_store_event_episode env ev as4)) (\<lambda>_. bind_t (on_world (pe_persist_persona_state env)) (\<lambda>_. return_t as4)))))"
    if "\<forall>a \<in> set as3. complete_send a" for as3
    by (rule keeps_to_free, rule keeps_to_lift[where Q = "in_room ev"]) (use that py in \<open>auto intro: enforced_in_room intro!: keeps_to_rules\<close>)
  show ?thesis unfolding finish_turn_def
  proof (rule keeps_to_if)
    show "keeps_to E (in_room ev) 0 4 (return_t [complete_with ''Response truncated: max_tokens limit reached''])"
      by (rule keeps_to_return) simp
    have p: "keeps_to E (\<lambda>as1. \<forall>a \<in> set as1. complete_send a) 0 0 (lift_t (parse_actions (pe_loads env) (pe_int env) (answer_text env r)))"
      by (rule keeps_to_lift) (auto dest: parse_complete intro: py)
    have s: "keeps_to E (\<lambda>as2. \<forall>a \<in> set as2. complete_send a) 0 0 (lift_t (synthesize_channel_reply (pe_shown env) ev as1))"
      if "\<forall>a \<in> set as1. complete_send a" for as1 by (rule keeps_to_lift) (use that synthesize_complete py in \<open>auto\<close>)
    have v: "keeps_to E (in_room ev) 0 4 (bind_t (revise_t env client ev salience as2) (\<lambda>as3.
        bind_t (lift_t (enforce_single_channel_turn ev as3)) (\<lambda>as4. bind_t (drain_energy as4) (\<lambda>_.
         bind_t (on_world (pe_store_event_episode env ev as4)) (\<lambda>_. bind_t (on_world (pe_persist_persona_state env)) (\<lambda>_. return_t as4))))))"
      if "\<forall>a \<in> set as2. complete_send a" for as2
      using keeps_to_bind[OF keeps_to_revise[where E = E, OF that py] rest] by simp
    show "keeps_to E (in_room ev) 0 4
       (bind_t (lift_t (parse_actions (pe_loads env) (pe_int env) (answer_text env r))) (\<lambda>as1.
        bind_t (lift_t (synthesize_channel_reply (pe_shown env) ev as1)) (\<lambda>as2.
          bind_t (revise_t env client ev salience as2) (\<lambda>as3.
            bind_t (lift_t (enforce_single_channel_turn ev as3)) (\<lambda>as4.
              bind_t (drain_energy as4) (\<lambda>_.
                bind_t (on_world (pe_store_event_episode env ev as4)) (\<lambda>_.
                  bind_t (on_world (pe_persist_persona_state env)) (\<lambda>_. return_t as4))))))))"
      by (rule keeps_to_free[OF p], rule keeps_to_free[OF s], assumption, rule v)
  qed
qed

lemma keeps_to_handle: "keeps_to (may_raise ev) (in_room ev) n m (handle_llm_call_exception_with_cost_close env exc ev)"
  by (rule keeps_toI)
    (auto simp: handle_llm_call_exception_with_cost_close_def handle_llm_call_exception_def Let_def may_raise_def provider_error_def
      split: llm_exn.splits if_splits prod.splits option.splits)

definition call_cap :: "'w persona_env \<Rightarrow> nat" where
  "call_cap env = (case py_range (max_llm_calls env) of Inr n \<Rightarrow> n | Inl _ \<Rightarrow> 0)"

lemma keeps_to_loop:
  "keeps_to (may_raise ev) (in_room ev) n 4 (\<lambda>st1. case call_loop env client (turn_call env ev system) n messages None st1 of
      (Inl exc, st2) \<Rightarrow> handle_llm_call_exception_with_cost_close env exc ev st2
    | (Inr None, st2) \<Rightarrow> (Inr [complete_with ''No LLM response''], st2)
    | (Inr (Some r), st2) \<Rightarrow> finish_turn env client ev salience r st2)" (is "keeps_to _ _ _ _ ?f")
  unfolding keeps_to_def
proof (intro allI impI)
  fix st res st'
  assume f: "?f st = (res, st')"
  obtain lres st2 where l: "call_loop env client (turn_call env ev system) n messages None st = (lres, st2)" by fastforce
  have "lc_purpose (turn_call env ev system ms) = P_TURN" for ms by (simp add: turn_call_def Let_def)
  from call_loop_outcome[OF l this] obtain new1 where n1: "tt_calls st2 = tt_calls st @ new1" "length new1 \<le> n" "calls_for False new1 = 0" by blast
  have "keeps_to (may_raise ev) (in_room ev) 0 4 (\<lambda>st2. case lres of Inl exc \<Rightarrow> handle_llm_call_exception_with_cost_close env exc ev st2
     | Inr None \<Rightarrow> return_t [complete_with ''No LLM response''] st2 | Inr (Some r) \<Rightarrow> finish_turn env client ev salience r st2)"
  proof (cases lres)
    case (Inr r)
    then show ?thesis using keeps_to_finish[of "may_raise ev"] by (cases r) (auto intro: keeps_to_return)
  qed (simp add: keeps_to_handle)
  moreover have "(case lres of Inl exc \<Rightarrow> handle_llm_call_exception_with_cost_close env exc ev st2
     | Inr None \<Rightarrow> return_t [complete_with ''No LLM response''] st2 | Inr (Some r) \<Rightarrow> finish_turn env client ev salience r st2) = (res, st')"
    using f l by (auto simp: return_t_def split: sum.splits option.splits)
  ultimately obtain new2 where "case res of Inl e \<Rightarrow> may_raise ev e | Inr v \<Rightarrow> in_room ev v" "tt_calls st' = tt_calls st2 @ new2"
    "calls_for True new2 \<le> 0" "calls_for False new2 \<le> 4" by (rule keeps_toD)
  then show "(case res of Inl e \<Rightarrow> may_raise ev e | Inr v \<Rightarrow> in_room ev v) \<and>
      (\<exists>new. tt_calls st' = tt_calls st @ new \<and> calls_for True new \<le> n \<and> calls_for False new \<le> 4)"
    using n1 calls_for_le[of True new1] by (intro conjI exI[of _ "new1 @ new2"]) auto
qed


lemma keeps_to_compose: "keeps_to (may_raise ev) (in_room ev) (call_cap env) 4 (compose_turn env client ev salience message)"
proof -
  have "keeps_to (may_raise ev) (in_room ev) (call_cap env) 4
      (bind_t (case seeds of Some seed \<Rightarrow> return_t seed | None \<Rightarrow> on_world (pe_build_seed_messages env ev message)) (\<lambda>messages.
         bind_t (lift_t (py_range (max_llm_calls env))) (\<lambda>n st1.
             case call_loop env client (turn_call env ev system) n messages None st1 of
               (Inl exc, st2) \<Rightarrow> handle_llm_call_exception_with_cost_close env exc ev st2
             | (Inr None, st2) \<Rightarrow> (Inr [complete_with ''No LLM response''], st2)
             | (Inr (Some r), st2) \<Rightarrow> finish_turn env client ev salience r st2)))" for seeds system
  proof (rule keeps_to_free)
    show "keeps_to (may_raise ev) (\<lambda>_. True) 0 0 (case seeds of Some seed \<Rightarrow> return_t seed | None \<Rightarrow> on_world (pe_build_seed_messages env ev message))"
      by (cases seeds) (auto intro: keeps_to_return keeps_to_world)
    show "keeps_to (may_raise ev) (in_room ev) (call_cap env) 4 (bind_t (lift_t (py_range (max_llm_calls env))) (\<lambda>n st1.
             case call_loop env client (turn_call env ev system) n messages None st1 of
               (Inl exc, st2) \<Rightarrow> handle_llm_call_exception_with_cost_close env exc ev st2
             | (Inr None, st2) \<Rightarrow> (Inr [complete_with ''No LLM response''], st2)
             | (Inr (Some r), st2) \<Rightarrow> finish_turn env client ev salience r st2))" for messages
    proof (rule keeps_to_free[where R = "\<lambda>n. n = call_cap env"])
      show "keeps_to (may_raise ev) (\<lambda>n. n = call_cap env) 0 0 (lift_t (py_range (max_llm_calls env)))"
        by (rule keeps_to_lift) (auto simp: call_cap_def)
    qed (use keeps_to_loop in simp)
  qed
  then show ?thesis unfolding compose_turn_def keeps_to_def Let_def by blast
qed

lemma keeps_to_admitted: "keeps_to (may_raise ev) (in_room ev) (call_cap env) 4 (admitted_turn env client ev salience)"
proof -
  have inner: "keeps_to (may_raise ev) (in_room ev) (call_cap env) 4 (\<lambda>st.
         if event_type ev = TICK \<and> tokens = 0 \<and> \<not> pe_has_active_goal_payload env (tt_world st) \<and> \<not> pe_has_pending_turn env (tt_world st)
         then (Inr [noop_action], st\<lparr>tt_counters := tt_counters st @ [Idle_count ''empty_context_tick'']\<rparr>)
         else compose_turn env client ev salience message st)" for tokens message
    using keeps_to_compose[of ev env client salience message] unfolding keeps_to_def by auto
  show ?thesis unfolding admitted_turn_def
  proof (rule keeps_to_free[where R = "\<lambda>_. True"])
    show "keeps_to (may_raise ev) (\<lambda>_. True) 0 0
        (case (case salience of Some s \<Rightarrow> so_user_message s | None \<Rightarrow> None) of Some m \<Rightarrow> return_t m | None \<Rightarrow> lift_t (pe_format_event env ev))"
      by (auto intro: keeps_to_return keeps_to_lift split: option.splits)
  qed (auto intro!: keeps_to_after_world inner keeps_to_compose)
qed

lemma keeps_to_on_event: "keeps_to (may_raise ev) (in_room ev) (call_cap env) 4 (on_event_inner env client ev)"
proof -
  have seam: "keeps_to (may_raise ev) (in_room ev) (call_cap env) 4 (bind_t (salience_seam env ev d) (\<lambda>salience.
                  if (case salience of Some s \<Rightarrow> so_silence s | None \<Rightarrow> False) then return_t [noop_action] else admitted_turn env client ev salience))" for d
    by (rule keeps_to_free[OF keeps_to_seam]) (auto intro: keeps_to_return keeps_to_admitted)
  have quiet: "keeps_to (may_raise ev) (in_room ev) (call_cap env) 4 (replayed_event env ev)"
    "keeps_to (may_raise ev) (in_room ev) (call_cap env) 4 (suppressed_event_actions env ev d)" for d
    unfolding replayed_event_def suppressed_event_actions_def by (auto intro!: keeps_to_rules)
  have "keeps_to (may_raise ev) (in_room ev) (call_cap env) 4
      (bind_t (lift_t (Inr ev)) (\<lambda>ev. if is_true (py_get (metadata ev) ''replay_mode'') then replayed_event env ev
        else let decision = evaluate_response_gate ev (pe_agent_id env)
             in if \<not> gd_respond decision then suppressed_event_actions env ev decision
                else bind_t (salience_seam env ev decision) (\<lambda>salience.
                  if (case salience of Some s \<Rightarrow> so_silence s | None \<Rightarrow> False) then return_t [noop_action]
                  else admitted_turn env client ev salience)))"
    by (rule keeps_to_free[where R = "\<lambda>e. e = ev"]) (auto intro!: keeps_to_lift seam quiet simp: Let_def)
  then show ?thesis unfolding on_event_inner_def inbound_passthrough by (auto intro: keeps_to_return)
qed


section \<open>How a turn ends\<close>

text \<open>The wallet's refusals among the failures of a call.\<close>

definition wallet_refusal :: "llm_exn \<Rightarrow> bool" where
  "wallet_refusal x \<longleftrightarrow> x = ResourceExhausted \<or> (\<exists>reason. x = BudgetExceededError reason)"

text \<open>Calls that were all answered, one after the other.\<close>

fun answered :: "llm_client \<Rightarrow> llm_call list \<Rightarrow> llm_call list \<Rightarrow> bool" where
  "answered client before [] \<longleftrightarrow> True"
| "answered client before (c # cs) \<longleftrightarrow> (\<exists>r. client before c = Inr r) \<and> answered client (before @ [c]) cs"

lemma answered_at: "answered client before (p @ c # q) \<Longrightarrow> \<exists>r. client (before @ p) c = Inr r"
proof (induction p arbitrary: before)
  case (Cons a p)
  then show ?case using Cons.IH[of "before @ [a]"] by simp
qed auto

lemma call_loop_trace:
  assumes "call_loop env client mk n messages response st = (res, st')" "\<And>ms. lc_purpose (mk ms) = P_TURN"
  shows "\<exists>new. tt_calls st' = tt_calls st @ new \<and> (\<forall>c \<in> set new. lc_purpose c = P_TURN) \<and>
    (case res of
       Inl x \<Rightarrow> \<exists>pre call. new = pre @ [call] \<and> answered client (tt_calls st) pre \<and> client (tt_calls st @ pre) call = Inl x
     | Inr resp \<Rightarrow> answered client (tt_calls st) new \<and>
         (new = [] \<longrightarrow> n = 0 \<and> resp = response) \<and> (new \<noteq> [] \<longrightarrow> (\<exists>r. resp = Some r \<and> client (tt_calls st @ butlast new) (last new) = Inr r)))"
  using assms
proof (induction n arbitrary: messages response st)
  case (Suc n)
  let ?c = "mk messages"
  let ?st1 = "st\<lparr>tt_calls := tt_calls st @ [?c]\<rparr>"
  show ?case
  proof (cases "\<exists>r. client (tt_calls st) ?c = Inr r \<and> lr_stop_reason r = TOOL_USE")
    case True
    then obtain r where r: "client (tt_calls st) ?c = Inr r" "lr_stop_reason r = TOOL_USE" by blast
    obtain results recs w where x: "execute_tools (pe_tool_env env) (pe_config env) (pe_registry env) (pe_memory_tools env) (lr_tool_calls r) (tt_world ?st1) = ((results, recs), w)"
      by (metis prod.collapse)
    have "call_loop env client mk n (pe_append_tool_round env messages r results) (Some r) (?st1\<lparr>tt_world := w\<rparr>) = (res, st')"
      using Suc.prems(1) r x by (simp add: Let_def)
    from Suc.IH[OF this assms(2)] obtain new where n: "tt_calls st' = tt_calls st @ ?c # new" "\<forall>c \<in> set new. lc_purpose c = P_TURN"
      "case res of
       Inl x \<Rightarrow> \<exists>pre call. new = pre @ [call] \<and> answered client (tt_calls st @ [?c]) pre \<and> client (tt_calls st @ ?c # pre) call = Inl x
     | Inr resp \<Rightarrow> answered client (tt_calls st @ [?c]) new \<and>
         (new = [] \<longrightarrow> n = 0 \<and> resp = Some r) \<and> (new \<noteq> [] \<longrightarrow> (\<exists>r. resp = Some r \<and> client (tt_calls st @ ?c # butlast new) (last new) = Inr r))" by (cases res) auto
    show ?thesis
    proof (intro exI[of _ "?c # new"] conjI)
      show "case res of
         Inl x \<Rightarrow> \<exists>pre call. ?c # new = pre @ [call] \<and> answered client (tt_calls st) pre \<and> client (tt_calls st @ pre) call = Inl x
       | Inr resp \<Rightarrow> answered client (tt_calls st) (?c # new) \<and>
         (?c # new = [] \<longrightarrow> Suc n = 0 \<and> resp = response) \<and>
         (?c # new \<noteq> [] \<longrightarrow> (\<exists>r. resp = Some r \<and> client (tt_calls st @ butlast (?c # new)) (last (?c # new)) = Inr r))"
      proof (cases res)
        case (Inl x)
        then obtain pre call where "new = pre @ [call]" "answered client (tt_calls st @ [?c]) pre" "client (tt_calls st @ ?c # pre) call = Inl x" using n(3) by auto
        then show ?thesis using Inl r(1) by (auto intro!: exI[of _ "?c # pre"] exI[of _ call])
      qed (use n(3) r(1) in \<open>auto split: if_splits\<close>)
    qed (use n(1,2) assms(2) in auto)
  next
    case False
    then show ?thesis using Suc.prems(1) assms(2) by (intro exI[of _ "[?c]"]) (auto simp: Let_def split: sum.splits if_splits)
  qed
qed auto

lemma bind_t_Inr: "bind_t f g st = (Inr v, st') \<longleftrightarrow> (\<exists>u st1. f st = (Inr u, st1) \<and> g u st1 = (Inr v, st'))"
  by (auto simp: bind_t_def split: prod.splits sum.splits)

lemma bind_t_cases:
  assumes "bind_t f g st = (res, st')"
  obtains (stops) e where "f st = (Inl e, st')" "res = Inl e" | (goes_on) u st1 where "f st = (Inr u, st1)" "g u st1 = (res, st')"
proof (cases "f st")
  case (Pair r st1)
  then show thesis using assms stops goes_on by (cases r) (auto simp: bind_t_def)
qed

lemma lift_t_outcome:
  "lift_t r st = (Inl e, st') \<longleftrightarrow> (\<exists>e'. r = Inl e' \<and> e = Py_raise e' \<and> st' = st)"
  "lift_t r st = (Inr v, st') \<longleftrightarrow> r = Inr v \<and> st' = st"
  by (auto simp: lift_t_def split: sum.splits)

lemma on_world_outcome: "on_world f st = (res, st') \<Longrightarrow> tt_calls st' = tt_calls st \<and> (\<forall>e. res = Inl e \<longrightarrow> (\<exists>e'. e = Py_raise e'))"
  by (auto simp: on_world_def split: prod.splits sum.splits)

text \<open>After its model calls a turn settles the failure of one, has no answer at all, or goes on from the last answer.\<close>

definition after_calls ::
  "'w persona_env \<Rightarrow> llm_client \<Rightarrow> AgentEvent \<Rightarrow> SalienceOutcome option \<Rightarrow> (llm_exn + LLMResponse option) \<times> 'w turn_state \<Rightarrow> (turn_exn + ParsedAction list) \<times> 'w turn_state" where
  "after_calls env client ev salience called =
     (case called of
        (Inl exc, st2) \<Rightarrow> handle_llm_call_exception_with_cost_close env exc ev st2
      | (Inr None, st2) \<Rightarrow> (Inr [complete_with ''No LLM response''], st2)
      | (Inr (Some r), st2) \<Rightarrow> finish_turn env client ev salience r st2)"

text \<open>A turn ends without a call, or in what follows its calls.\<close>

definition calls_nothing :: "'w persona_env \<Rightarrow> AgentEvent \<Rightarrow> 'w turn_state \<Rightarrow> (turn_exn + ParsedAction list) \<times> 'w turn_state \<Rightarrow> bool" where
  "calls_nothing env ev st out \<longleftrightarrow> tt_calls (snd out) = tt_calls st \<and>
     (case fst out of
        Inl e \<Rightarrow> \<exists>e'. e = Py_raise e'
      | Inr as' \<Rightarrow> as' = [complete_with MISSING_MODEL] \<and> map_of (pe_config env) ''model'' = None \<or>
          as' = [noop_action] \<and> (is_true (py_get (metadata ev) ''replay_mode'') \<or> \<not> gd_respond (evaluate_response_gate ev (pe_agent_id env)) \<or>
            event_type ev = TICK \<or> is_open_floor_admit (evaluate_response_gate ev (pe_agent_id env))))"

definition calls_the_model :: "'w persona_env \<Rightarrow> llm_client \<Rightarrow> AgentEvent \<Rightarrow> 'w turn_state \<Rightarrow> (turn_exn + ParsedAction list) \<times> 'w turn_state \<Rightarrow> bool" where
  "calls_the_model env client ev st out \<longleftrightarrow>
     (\<exists>salience system messages st1. tt_calls st1 = tt_calls st \<and>
        after_calls env client ev salience (call_loop env client (turn_call env ev system) (call_cap env) messages None st1) = out)"

lemma calls_nothing_raised: "tt_calls st' = tt_calls st \<Longrightarrow> calls_nothing env ev st (Inl (Py_raise e), st')"
  by (simp add: calls_nothing_def)

lemma compose_turn_ends:
  assumes "compose_turn env client ev salience message st = (res, st')"
  shows "calls_nothing env ev st (res, st') \<or> calls_the_model env client ev st (res, st')"
proof -
  let ?system = "build_compose_system_prompt env salience (tt_world st)"
  let ?seeds = "case salience of Some s \<Rightarrow> so_seed s | None \<Rightarrow> None"
  let ?seeding = "case ?seeds of Some seed \<Rightarrow> return_t seed | None \<Rightarrow> on_world (pe_build_seed_messages env ev message)"
  have seeding: "tt_calls st1 = tt_calls st \<and> (\<forall>e. r = Inl e \<longrightarrow> (\<exists>e'. e = Py_raise e'))" if "?seeding st = (r, st1)" for r st1
    using that on_world_outcome[of _ st r st1] by (cases ?seeds) (auto simp: return_t_def)
  from assms have "bind_t ?seeding (\<lambda>messages. bind_t (lift_t (py_range (max_llm_calls env))) (\<lambda>n st1.
      after_calls env client ev salience (call_loop env client (turn_call env ev ?system) n messages None st1))) st = (res, st')"
    by (simp add: compose_turn_def after_calls_def Let_def)
  then show ?thesis
  proof (cases rule: bind_t_cases)
    case (stops e)
    then show ?thesis using seeding calls_nothing_raised by blast
  next
    case (goes_on messages st1)
    from goes_on(2) show ?thesis
    proof (cases rule: bind_t_cases)
      case (stops e)
      then show ?thesis using seeding[OF goes_on(1)] calls_nothing_raised by (auto simp: lift_t_outcome)
    next
      case n: (goes_on n st2)
      then have "n = call_cap env" "st2 = st1" by (auto simp: lift_t_outcome call_cap_def)
      then show ?thesis using n(2) seeding[OF goes_on(1)] unfolding calls_the_model_def by blast
    qed
  qed
qed

lemma calls_moved:
  assumes "tt_calls st1 = tt_calls st"
  shows "calls_nothing env ev st1 out = calls_nothing env ev st out" "calls_the_model env client ev st1 out = calls_the_model env client ev st out"
  using assms by (simp_all add: calls_nothing_def calls_the_model_def)

lemma admitted_turn_ends:
  assumes "admitted_turn env client ev salience st = (res, st')"
  shows "calls_nothing env ev st (res, st') \<or> calls_the_model env client ev st (res, st')"
  using assms unfolding admitted_turn_def
proof (cases rule: bind_t_cases)
  case (stops e)
  then show ?thesis by (auto simp: return_t_def lift_t_outcome calls_nothing_def split: option.splits)
next
  case (goes_on message st1)
  then have c1: "tt_calls st1 = tt_calls st" by (auto simp: return_t_def lift_t_outcome split: option.splits)
  from goes_on(2) show ?thesis
  proof (cases rule: bind_t_cases)
    case (stops e)
    then show ?thesis using on_world_outcome[OF stops(1)] c1 calls_nothing_raised by auto
  next
    case t: (goes_on tokens st2)
    have c2: "tt_calls st2 = tt_calls st" using on_world_outcome[OF t(1)] c1 by simp
    show ?thesis
    proof (cases "event_type ev = TICK \<and> tokens = 0 \<and> \<not> pe_has_active_goal_payload env (tt_world st2) \<and> \<not> pe_has_pending_turn env (tt_world st2)")
      case True
      then show ?thesis using t(2) c2 by (auto simp: calls_nothing_def)
    next
      case False
      then have "compose_turn env client ev salience message st2 = (res, st')" using t(2) by (simp only: if_False)
      from compose_turn_ends[OF this] show ?thesis unfolding calls_moved[OF c2] .
    qed
  qed
qed

lemma seam_without_floor:
  "\<not> is_open_floor_admit d \<Longrightarrow> salience_seam env ev d st = (Inr None, st\<lparr>tt_seam := tt_seam st\<rparr>)"
  by (simp add: salience_seam_def run_salience_gate_def)

lemma on_event_ends:
  fixes env :: "'w persona_env"
  assumes "on_event_inner env client ev st = (res, st')"
  shows "calls_nothing env ev st (res, st') \<or> calls_the_model env client ev st (res, st')"
proof (cases "map_of (pe_config env) ''model'' = None \<or> is_true (py_get (metadata ev) ''replay_mode'') \<or> \<not> gd_respond (evaluate_response_gate ev (pe_agent_id env))")
  case True
  then have "calls_nothing env ev st (res, st')" using assms
    by (auto simp: on_event_inner_def inbound_passthrough bind_t_def lift_t_def suppressed_event_actions_def replayed_event_def on_world_def count_t_def return_t_def
        calls_nothing_def Let_def split: prod.splits sum.splits if_splits)
  then show ?thesis by simp
next
  case False
  let ?d = "evaluate_response_gate ev (pe_agent_id env)"
  have lifted: "bind_t (lift_t (Inr v)) g = g v" for v and g :: "AgentEvent \<Rightarrow> ('w, ParsedAction list) turn" by (rule ext) (simp add: bind_t_def lift_t_def)
  obtain m where "map_of (pe_config env) ''model'' = Some m" using False by auto
  with assms False have "bind_t (salience_seam env ev ?d) (\<lambda>salience.
      if (case salience of Some s \<Rightarrow> so_silence s | None \<Rightarrow> False) then return_t [noop_action] else admitted_turn env client ev salience) st = (res, st')"
    by (simp add: on_event_inner_def inbound_passthrough lifted Let_def)
  then show ?thesis
  proof (cases rule: bind_t_cases)
    case (stops e)
    then show ?thesis using calls_nothing_raised by (auto simp: salience_seam_def calls_nothing_def split: prod.splits sum.splits)
  next
    case (goes_on salience st1)
    have c1: "tt_calls st1 = tt_calls st" using goes_on(1) by (auto simp: salience_seam_def split: prod.splits sum.splits)
    show ?thesis
    proof (cases "case salience of Some s \<Rightarrow> so_silence s | None \<Rightarrow> False")
      case True
      then have "is_open_floor_admit ?d" using goes_on(1) seam_without_floor[of ?d env ev st] by (cases salience) auto
      then show ?thesis using goes_on(2) True c1 by (auto simp: calls_nothing_def return_t_def)
    next
      case silent: False
      then have "admitted_turn env client ev salience st1 = (res, st')" using goes_on(2) by (simp only: if_False)
      from admitted_turn_ends[OF this] show ?thesis unfolding calls_moved[OF c1] .
    qed
  qed
qed

definition TRUNCATED :: "ParsedAction list" where "TRUNCATED = [complete_with ''Response truncated: max_tokens limit reached'']"

lemma handle_outcome:
  "handle_llm_call_exception_with_cost_close env x ev st = (res, st') \<Longrightarrow>
     tt_calls st' = tt_calls st \<and>
     res = (if wallet_refusal x then (if event_type ev = TICK then Inr [noop_action] else Inl (Llm_raise x)) else Inr provider_error)"
  by (auto simp: handle_llm_call_exception_with_cost_close_def handle_llm_call_exception_def wallet_refusal_def Let_def
      split: llm_exn.splits if_splits prod.splits option.splits)

lemma model_turn_cases:
  assumes "calls_the_model env client ev st (res, st')"
  obtains (failed) x pre call where "tt_calls st' = tt_calls st @ pre @ [call]" "\<forall>c \<in> set (pre @ [call]). lc_purpose c = P_TURN"
      "answered client (tt_calls st) pre" "client (tt_calls st @ pre) call = Inl x"
      "res = (if wallet_refusal x then (if event_type ev = TICK then Inr [noop_action] else Inl (Llm_raise x)) else Inr provider_error)"
    | (no_calls) "tt_calls st' = tt_calls st" "call_cap env = 0" "res = Inr [complete_with ''No LLM response'']"
    | (answer) turns revisions r salience st2 where "tt_calls st' = tt_calls st @ turns @ revisions" "turns \<noteq> []" "\<forall>c \<in> set turns. lc_purpose c = P_TURN"
      "\<forall>c \<in> set revisions. lc_purpose c \<noteq> P_TURN" "answered client (tt_calls st) turns" "client (tt_calls st @ butlast turns) (last turns) = Inr r"
      "finish_turn env client ev salience r st2 = (res, st')" "\<forall>e. res = Inl e \<longrightarrow> (\<exists>e'. e = Py_raise e')"
proof -
  from assms obtain salience system messages st1 where c: "tt_calls st1 = tt_calls st"
    "after_calls env client ev salience (call_loop env client (turn_call env ev system) (call_cap env) messages None st1) = (res, st')"
    unfolding calls_the_model_def by blast
  obtain lres st2 where l: "call_loop env client (turn_call env ev system) (call_cap env) messages None st1 = (lres, st2)" by fastforce
  have "lc_purpose (turn_call env ev system ms) = P_TURN" for ms by (simp add: turn_call_def Let_def)
  from call_loop_trace[OF l this] obtain turns where t: "tt_calls st2 = tt_calls st @ turns" "\<forall>c \<in> set turns. lc_purpose c = P_TURN"
    "case lres of
       Inl x \<Rightarrow> \<exists>pre call. turns = pre @ [call] \<and> answered client (tt_calls st) pre \<and> client (tt_calls st @ pre) call = Inl x
     | Inr resp \<Rightarrow> answered client (tt_calls st) turns \<and> (turns = [] \<longrightarrow> call_cap env = 0 \<and> resp = None) \<and>
         (turns \<noteq> [] \<longrightarrow> (\<exists>r. resp = Some r \<and> client (tt_calls st @ butlast turns) (last turns) = Inr r))" unfolding c(1) by blast
  show thesis
  proof (cases lres)
    case (Inl x)
    then obtain pre call where "turns = pre @ [call]" "answered client (tt_calls st) pre" "client (tt_calls st @ pre) call = Inl x" using t(3) by auto
    then show thesis using failed handle_outcome[of env x ev st2 res st'] c(2) l Inl t(1,2) by (simp add: after_calls_def)
  next
    case (Inr resp)
    show thesis
    proof (cases "turns = []")
      case True
      then show thesis using no_calls c(2) l Inr t(1,3) by (simp add: after_calls_def)
    next
      case False
      then obtain r where r: "resp = Some r" "client (tt_calls st @ butlast turns) (last turns) = Inr r" "answered client (tt_calls st) turns" using t(3) Inr by auto
      then have f: "finish_turn env client ev salience r st2 = (res, st')" using c(2) l Inr by (simp add: after_calls_def)
      have k: "keeps_to (\<lambda>e. \<exists>e'. e = Py_raise e') (in_room ev) 0 4 (finish_turn env client ev salience r)" by (rule keeps_to_finish) simp
      obtain revisions where v:
        "case res of Inl e \<Rightarrow> \<exists>e'. e = Py_raise e' | Inr as' \<Rightarrow> in_room ev as'" "tt_calls st' = tt_calls st2 @ revisions" "calls_for True revisions \<le> 0"
        by (rule keeps_toD[OF k f]) blast
      have "\<forall>c \<in> set revisions. lc_purpose c \<noteq> P_TURN" using v(3) by (auto simp: calls_for_def filter_empty_conv)
      moreover have "\<forall>e. res = Inl e \<longrightarrow> (\<exists>e'. e = Py_raise e')" using v(1) by auto
      ultimately show thesis using answer[of turns revisions r salience st2] False t(1,2) r v(2) f by simp
    qed
  qed
qed

lemma revise_keeps_sends:
  assumes "maybe_revise_channel_message shown re client as' salience calls = (Inr (bs, outs), calls')" "\<forall>a \<in> set as'. complete_send a"
    "\<exists>a \<in> set as'. sends_to c a"
  shows "\<exists>b \<in> set bs. sends_to c b"
proof (cases "bs = as'")
  case False
  then obtain plan rounds idx draft r where s: "first_draft shown 0 as' = Inr (Some (idx, draft))" "run_reflexion re client draft plan rounds calls = (r, calls')"
    and bs: "bs = as'[idx := \<lparr>px_type = SEND_CHANNEL_MESSAGE, px_payload = payload_with (as' ! idx) ''content'' (rr_text r)\<rparr>]"
    using assms(1) by (auto simp: maybe_revise_channel_message_def split: option.splits if_splits sum.splits prod.splits)
  from first_draft_at[OF s(1)] have idx: "idx < length as'" "px_type (as' ! idx) = SEND_CHANNEL_MESSAGE" "py_strip draft \<noteq> []" by auto
  obtain i where i: "i < length as'" "sends_to c (as' ! i)" using assms(3) by (auto simp: in_set_conv_nth)
  show ?thesis
  proof (cases "i = idx")
    case True
    have "py_strip (rr_text r) \<noteq> []" using run_reflexion_outcome[OF s(2)] idx(3) by blast
    then have "sends_to c (bs ! i)" using i True idx(1) unfolding bs by (auto simp: sends_to_def payload_with_def py_get_def update_conv')
    then show ?thesis using i(1) unfolding bs by (metis length_list_update nth_mem)
  next
    case False
    then have "bs ! i = as' ! i" "i < length bs" using i(1) unfolding bs by simp_all
    then show ?thesis using i(2) by (metis nth_mem)
  qed
qed (use assms(3) in simp)

lemma finished_dm_answered:
  assumes "finish_turn env client ev salience r st = (Inr as', st')" "lr_stop_reason r \<noteq> MAX_TOKENS"
    "event_type ev = CHANNEL_MESSAGE" "channel_id ev = Some (''dm:'' @ peer)"
  shows "\<exists>a \<in> set as'. sends_to (''dm:'' @ peer) a"
proof -
  from assms(1,2) obtain as1 as2 as3 st2 st3 where p: "parse_actions (pe_loads env) (pe_int env) (answer_text env r) = Inr as1"
    "synthesize_channel_reply (pe_shown env) ev as1 = Inr as2" "revise_t env client ev salience as2 st2 = (Inr as3, st3)"
    "enforce_single_channel_turn ev as3 = Inr as'"
    by (auto simp: finish_turn_def bind_t_Inr lift_t_outcome return_t_def)
  have ok: "\<forall>a \<in> set as2. complete_send a" using synthesize_complete[OF p(2) parse_complete[OF p(1)]] .
  from p(3) obtain re outs calls' where m: "maybe_revise_channel_message (pe_shown env) re client as2 salience (tt_calls st2) = (Inr (as3, outs), calls')"
    by (auto simp: revise_t_def Let_def split: prod.splits sum.splits)
  have sends: "\<exists>a \<in> set as3. sends_to (''dm:'' @ peer) a" using revise_keeps_sends[OF m ok dm_reply_made[OF p(1,2) assms(3,4)]] .
  have "\<forall>a \<in> set as3. complete_send a" using revise_outcome[OF m ok] by blast
  then show ?thesis using enforce_keeps_sends[OF p(4) _ assms(3) _ _ sends] assms(4) by simp
qed

lemma split_before:
  assumes "c \<notin> set ys" "xs @ ys = p @ c # q"
  obtains us where "xs = p @ c # us"
proof (cases "length p < length xs")
  case True
  have "take (length xs) (p @ c # q) = xs" unfolding assms(2)[symmetric] by simp
  then have "xs = p @ c # take (length xs - length p - 1) q" using True by (cases "length xs - length p") auto
  then show thesis by (rule that)
next
  case False
  have "drop (length xs) (p @ c # q) = ys" unfolding assms(2)[symmetric] by simp
  then have "c \<in> set ys" using False by (metis append_is_Nil_conv drop_append in_set_conv_decomp not_less_iff_gr_or_eq diff_is_0_eq drop0 linorder_not_le order.order_iff_strict)
  then show thesis using assms(1) by simp
qed

lemma dm_gate:
  assumes "event_type ev = CHANNEL_MESSAGE" "channel_id ev = Some (''dm:'' @ peer)"
  shows "evaluate_response_gate ev agent = gate_dm ev (payload ev) agent"
  using assms by (simp add: evaluate_response_gate_def Let_def DM_CHANNEL_PREFIX_def)


section \<open>What a turn guarantees\<close>

text \<open>
  C4. A turn that acts in a channel speaks only there. Whatever the model answers in however many rounds, whatever its tools do and however its reply is revised, every message
  among the actions of a turn that a channel message or a mention started names that channel and has some content.\<close>

theorem turn_stays_in_room:
  assumes "on_event_inner env client ev st = (Inr as', st')" "event_type ev \<in> set CHANNEL_ACTING_EVENT_TYPES" "channel_id ev = Some c" "c \<noteq> []"
  shows "\<forall>a \<in> set as'. px_type a = SEND_CHANNEL_MESSAGE \<longrightarrow> sends_to c a"
proof -
  obtain new where "in_room ev as'" using keeps_toD[OF keeps_to_on_event assms(1)] by auto
  then show ?thesis using assms by (simp add: in_room_def)
qed

text \<open>
  C9. A turn costs a bounded number of model calls: at most the configured number for the turn itself, ten when nothing is configured and none when the setting is
  negative, and at most four more for revising its reply. The bid a message on the open floor asks for before the turn is a call of the salience seam, kept in \<open>tt_seam\<close>, and is not counted here.\<close>

theorem turn_calls_bounded:
  assumes "on_event_inner env client ev st = (res, st')"
  shows "\<exists>new. tt_calls st' = tt_calls st @ new \<and>
    length (filter (\<lambda>c. lc_purpose c = P_TURN) new) \<le> call_cap env \<and> length (filter (\<lambda>c. lc_purpose c \<noteq> P_TURN) new) \<le> 4 \<and>
    (map_of (pe_config env) ''max_llm_calls'' = None \<longrightarrow> call_cap env = 10) \<and>
    (\<forall>i. map_of (pe_config env) ''max_llm_calls'' = Some (PyInt i) \<longrightarrow> int (call_cap env) = max 0 i)"
  using keeps_toD[OF keeps_to_on_event assms]
  by (fastforce simp: calls_for_def call_cap_def max_llm_calls_def py_get_or_def py_range_def PERSONA_DEFAULT_MAX_LLM_CALLS_def)

text \<open>
  C10. A failed call of the model ends its turn there, and decides its result. When a call for the turn itself fails, it is the last call of the turn, of whatever kind; a refusal of the wallet, a
  denied lease or an exhausted wallet, leaves the turn as that exception where someone waits for an answer and is a turn that does nothing on a tick, and every other failure of the
  model, of the provider or of the wire, is the result ''LLM provider error''. No exception of the model leaves a turn in any other way. The exceptions of the code itself, which the model
  has as \<open>Py_raise\<close>, are not spoken of.\<close>

theorem only_refusals_escape:
  assumes "on_event_inner env client ev st = (res, st')"
  shows "\<exists>new. tt_calls st' = tt_calls st @ new \<and>
    (\<forall>pre call post x. new = pre @ call # post \<and> lc_purpose call = P_TURN \<and> client (tt_calls st @ pre) call = Inl x \<longrightarrow>
       post = [] \<and> res = (if wallet_refusal x then (if event_type ev = TICK then Inr [noop_action] else Inl (Llm_raise x)) else Inr provider_error)) \<and>
    (\<forall>x. res = Inl (Llm_raise x) \<longrightarrow> wallet_refusal x \<and> event_type ev \<noteq> TICK \<and>
       (\<exists>pre call. new = pre @ [call] \<and> lc_purpose call = P_TURN \<and> client (tt_calls st @ pre) call = Inl x))"
  using on_event_ends[OF assms]
proof
  assume "calls_nothing env ev st (res, st')"
  then show ?thesis by (intro exI[of _ "[]"]) (auto simp: calls_nothing_def)
next
  assume "calls_the_model env client ev st (res, st')"
  then show ?thesis
  proof (cases rule: model_turn_cases)
    case (failed x pre call)
    have last: "post = [] \<and> y = x" if "pre @ [call] = p @ c # post" "client (tt_calls st @ p) c = Inl y" for p c post y
    proof (cases "post = []")
      case False
      then have "pre = p @ c # butlast post" using that(1) by (metis butlast.simps(2) butlast_append butlast_snoc list.distinct(1))
      then show ?thesis using answered_at[of client "tt_calls st" p c] failed(3) that(2) by auto
    qed (use that failed(4) in auto)
    have raised: "y = x \<and> wallet_refusal x \<and> event_type ev \<noteq> TICK" if "res = Inl (Llm_raise y)" for y using failed(5) that by (simp split: if_splits)
    show ?thesis
    proof (rule exI[of _ "pre @ [call]"], intro conjI[OF failed(1)] conjI allI impI; (elim conjE)?)
      fix p c post y assume "pre @ [call] = p @ c # post" "client (tt_calls st @ p) c = Inl y"
      from last[OF this] show "post = []" "res = (if wallet_refusal y then (if event_type ev = TICK then Inr [noop_action] else Inl (Llm_raise y)) else Inr provider_error)"
        using failed(5) by simp_all
    next
      fix y assume "res = Inl (Llm_raise y)"
      from raised[OF this] show "wallet_refusal y" "event_type ev \<noteq> TICK"
        "\<exists>p c. pre @ [call] = p @ [c] \<and> lc_purpose c = P_TURN \<and> client (tt_calls st @ p) c = Inl y"
        using failed(2,4) by auto
    qed
  next
    case (answer turns revisions r salience st2)
    have "False" if e: "turns @ revisions = p @ c # post" and c: "lc_purpose c = P_TURN" "client (tt_calls st @ p) c = Inl y" for p c post y
    proof -
      have "c \<notin> set revisions" using answer(4) c(1) by blast
      then obtain us where "turns = p @ c # us" using e by (rule split_before)
      then show False using answered_at[of client "tt_calls st" p c us] answer(5) c(2) by auto
    qed
    then show ?thesis using answer(1,8) by (intro exI[of _ "turns @ revisions"]) auto
  qed (auto intro: exI[of _ "[]"])
qed

text \<open>
  C16. A direct message is answered in its channel, unless the model fails to answer it. Take a message in a DM from someone else, neither replayed nor the notice of a close, to a persona with a
  model. The turn is never silent by choice: when the last call for it was answered in full, the turn has a message with some content to that very channel, however the
  answer reads and however it is revised, or the code itself raised on the way. An answer cut off at the token limit and a call that fails are results without a message, or the
  wallet's refusal; a turn without any call has raised, or has a limit of no calls.\<close>

theorem dm_answered_or_failed:
  assumes "on_event_inner env client ev st = (res, st')" "event_type ev = CHANNEL_MESSAGE" "channel_id ev = Some (''dm:'' @ peer)"
    "sender_id ev \<noteq> Some (pe_agent_id env)" "map_of (pe_config env) ''model'' \<noteq> None"
    "\<not> is_true (py_get (metadata ev) ''replay_mode'')" "\<not> is_true (py_get (payload ev) ''interaction_close_notification'')"
  shows "\<exists>turns revisions. tt_calls st' = tt_calls st @ turns @ revisions \<and>
    (\<forall>c \<in> set turns. lc_purpose c = P_TURN) \<and> (\<forall>c \<in> set revisions. lc_purpose c \<noteq> P_TURN) \<and>
    (if turns = [] then (\<exists>e. res = Inl (Py_raise e)) \<or> call_cap env = 0 \<and> res = Inr [complete_with ''No LLM response'']
     else case client (tt_calls st @ butlast turns) (last turns) of
       Inl x \<Rightarrow> res = (if wallet_refusal x then Inl (Llm_raise x) else Inr provider_error)
     | Inr r \<Rightarrow> if lr_stop_reason r = MAX_TOKENS then res = Inr TRUNCATED
                else (\<exists>e. res = Inl (Py_raise e)) \<or> (\<exists>as'. res = Inr as' \<and> (\<exists>a \<in> set as'. sends_to (''dm:'' @ peer) a)))"
  using on_event_ends[OF assms(1)]
proof
  have gate: "gd_respond (evaluate_response_gate ev (pe_agent_id env))" "\<not> is_open_floor_admit (evaluate_response_gate ev (pe_agent_id env))"
    unfolding dm_gate[OF assms(2,3)] using assms(4,7) by (simp_all add: gate_dm_def is_open_floor_admit_def)
  assume "calls_nothing env ev st (res, st')"
  then show ?thesis using gate assms(2,5,6) by (intro exI[of _ "[]"]) (auto simp: calls_nothing_def split: sum.splits)
next
  assume "calls_the_model env client ev st (res, st')"
  then show ?thesis
  proof (cases rule: model_turn_cases)
    case (failed x pre call)
    then show ?thesis using assms(2) by (intro exI[of _ "pre @ [call]"] exI[of _ "[]"]) auto
  next
    case no_calls
    then show ?thesis by (intro exI[of _ "[]"]) simp
  next
    case (answer turns revisions r salience st2)
    have "res = Inr TRUNCATED" if "lr_stop_reason r = MAX_TOKENS" using answer(7) that by (simp add: finish_turn_def return_t_def TRUNCATED_def)
    moreover have "(\<exists>e. res = Inl (Py_raise e)) \<or> (\<exists>as'. res = Inr as' \<and> (\<exists>a \<in> set as'. sends_to (''dm:'' @ peer) a))" if "lr_stop_reason r \<noteq> MAX_TOKENS"
      using finished_dm_answered[of env client ev salience r st2 _ st' peer] answer(7,8) that assms(2,3) by (cases res) auto
    ultimately show ?thesis using answer(1-4,6) by (intro exI[of _ turns] exI[of _ revisions]) auto
  qed
qed

text \<open>
  C15. An event that starts no turn costs nothing. A replayed message and a message the response gate refuses call no model and ask for no bid; the turn does nothing, and what it
  leaves is at most the stored event or the close it announces, with one counter: a replayed message of someone else is stored, one's own never is.\<close>

theorem quiet_events_cost_nothing:
  assumes "on_event_inner env client ev st = (res, st')" "map_of (pe_config env) ''model'' \<noteq> None"
    "is_true (py_get (metadata ev) ''replay_mode'') \<or> \<not> gd_respond (evaluate_response_gate ev (pe_agent_id env))"
  shows "tt_calls st' = tt_calls st \<and> tt_seam st' = tt_seam st \<and> tt_drained st' = tt_drained st \<and> (\<forall>as'. res = Inr as' \<longrightarrow> as' = [noop_action]) \<and>
    (let own = (sender_id ev = Some (pe_agent_id env)); d = evaluate_response_gate ev (pe_agent_id env)
     in tt_world st' =
          (if is_true (py_get (metadata ev) ''replay_mode'') then (if own then tt_world st else snd (pe_store_event_episode env ev [] (tt_world st)))
           else if gd_reason d = ''close_notification'' then snd (pe_close_on_notification env ev (tt_world st))
           else if gd_policy d = POLICY_DEFENSE_IN_DEPTH then tt_world st
           else snd (pe_store_event_episode env ev [] (tt_world st))))"
proof (cases "is_true (py_get (metadata ev) ''replay_mode'')")
  case True
  then show ?thesis using assms
    by (auto simp: on_event_inner_def inbound_passthrough bind_t_def lift_t_def replayed_event_def on_world_def count_t_def return_t_def Let_def
        split: prod.splits sum.splits if_splits)
next
  case False
  then show ?thesis using assms
    by (auto simp: on_event_inner_def inbound_passthrough bind_t_def lift_t_def suppressed_event_actions_def on_world_def count_t_def return_t_def Let_def
        split: prod.splits sum.splits if_splits)
qed


section \<open>The properties on a sample persona\<close>

text \<open>A persona whose world counts the events it stored, with no tools.\<close>

definition stored_once :: "(nat, unit) world_op" where "stored_once n = (Inr (), Suc n)"

definition sample_persona :: "nat persona_env" where
  "sample_persona =
     \<lparr>pe_agent_id = ''fox'', pe_config = [(''model'', PyStr ''big''), (''max_llm_calls'', PyInt 2)], pe_patterns = [], pe_loads = (\<lambda>_. None), pe_int = (\<lambda>_. None),
      pe_shown = (\<lambda>_. []), pe_seam = silent_seam, pe_tool_env = sample_env, pe_registry = [], pe_memory_tools = [], pe_reflexion = sample_reflexion,
      pe_task_parent = (\<lambda>_. []), pe_store_event_episode = (\<lambda>_ _. stored_once), pe_close_on_notification = (\<lambda>_. stored_once), pe_close_on_cost = (\<lambda>_. stored_once),
      pe_format_event = (\<lambda>_. Inr ''event''), pe_inject_memory_context = (\<lambda>_ _ n. (Inr 0, n)), pe_build_seed_messages = (\<lambda>_ _ n. (Inr [], n)),
      pe_has_active_goal_payload = (\<lambda>_. True), pe_has_pending_turn = (\<lambda>_. False), pe_build_system_prompt = (\<lambda>_. ''You are Fox.''),
      pe_working_memory = (\<lambda>_. mk_WorkingMemory 10 ''small''), pe_append_tool_round = (\<lambda>ms _ _. ms), pe_persist_persona_state = (\<lambda>n. (Inr (), n))\<rparr>"

definition start_state :: "nat turn_state" where
  "start_state = \<lparr>tt_world = 0, tt_calls = [], tt_seam = empty_seam_log, tt_counters = [], tt_drained = 0\<rparr>"

definition answering :: "llm_exn + LLMResponse \<Rightarrow> llm_client" where "answering x calls call = x"

definition said :: "StopReason \<Rightarrow> string \<Rightarrow> llm_exn + LLMResponse" where
  "said stop t = Inr \<lparr>lr_text = Some t, lr_tool_calls = [], lr_stop_reason = stop\<rparr>"

definition dm_turn :: "llm_exn + LLMResponse \<Rightarrow> (turn_exn + ParsedAction list) \<times> nat turn_state" where
  "dm_turn x = on_event_inner sample_persona (answering x) (room_event ''dm:alice'') start_state"

theorem turn_stays_in_room_witness:
  "fst (dm_turn (said END_TURN ''hello'')) = Inr [channel_reply (room_event ''dm:alice'') ''hello'', complete_with ''hello''] \<and>
   sends_to ''dm:alice'' (channel_reply (room_event ''dm:alice'') ''hello'')"
proof -
  have r: "fst (dm_turn (said END_TURN ''hello'')) = Inr [channel_reply (room_event ''dm:alice'') ''hello'', complete_with ''hello'']" by code_simp
  then have "on_event_inner sample_persona (answering (said END_TURN ''hello'')) (room_event ''dm:alice'') start_state =
      (Inr [channel_reply (room_event ''dm:alice'') ''hello'', complete_with ''hello''], snd (dm_turn (said END_TURN ''hello'')))"
    unfolding dm_turn_def by (metis prod.collapse)
  moreover have "event_type (room_event ''dm:alice'') \<in> set CHANNEL_ACTING_EVENT_TYPES" "channel_id (room_event ''dm:alice'') = Some ''dm:alice''"
    by (simp_all add: room_event_def CHANNEL_ACTING_EVENT_TYPES_def)
  ultimately have "\<forall>a \<in> set [channel_reply (room_event ''dm:alice'') ''hello'', complete_with ''hello'']. px_type a = SEND_CHANNEL_MESSAGE \<longrightarrow> sends_to ''dm:alice'' a"
    using turn_stays_in_room by blast
  then show ?thesis using r by (simp add: channel_reply_def)
qed

theorem turn_calls_bounded_witness:
  "length (tt_calls (snd (dm_turn (said TOOL_USE [])))) = 2 \<and> call_cap sample_persona = 2"
proof -
  let ?d = "dm_turn (said TOOL_USE [])"
  have "on_event_inner sample_persona (answering (said TOOL_USE [])) (room_event ''dm:alice'') start_state = (fst ?d, snd ?d)" by (simp add: dm_turn_def)
  from turn_calls_bounded[OF this] have "\<forall>i. map_of (pe_config sample_persona) ''max_llm_calls'' = Some (PyInt i) \<longrightarrow> int (call_cap sample_persona) = max 0 i" by blast
  then have "int (call_cap sample_persona) = max 0 2" by (simp add: sample_persona_def)
  moreover have "length (tt_calls (snd ?d)) = 2" by code_simp
  ultimately show ?thesis by simp
qed

theorem only_refusals_escape_witness:
  "length (tt_calls (snd (dm_turn (Inl ResourceExhausted)))) = 1 \<and> fst (dm_turn (Inl ResourceExhausted)) = Inl (Llm_raise ResourceExhausted) \<and>
   fst (dm_turn (Inl RpcError)) = Inr provider_error"
proof -
  let ?d = "\<lambda>x. dm_turn (Inl x)"
  have one: "\<exists>call. tt_calls (snd (?d x)) = [call] \<and> lc_purpose call = P_TURN" if "x \<in> {ResourceExhausted, RpcError}" for x
  proof -
    have "map lc_purpose (tt_calls (snd (?d ResourceExhausted))) = [P_TURN]" "map lc_purpose (tt_calls (snd (?d RpcError))) = [P_TURN]" by code_simp+
    then show ?thesis using that by auto
  qed
  have out: "fst (?d x) = (if wallet_refusal x then Inl (Llm_raise x) else Inr provider_error)" if "x \<in> {ResourceExhausted, RpcError}" for x
  proof -
    from one[OF that] obtain call where c: "tt_calls (snd (?d x)) = [call]" "lc_purpose call = P_TURN" by blast
    have "on_event_inner sample_persona (answering (Inl x)) (room_event ''dm:alice'') start_state = (fst (?d x), snd (?d x))" by (simp add: dm_turn_def)
    from only_refusals_escape[OF this] obtain new where n: "tt_calls (snd (?d x)) = new"
      "\<forall>pre call post y. new = pre @ call # post \<and> lc_purpose call = P_TURN \<and> answering (Inl x) pre call = Inl y \<longrightarrow>
         post = [] \<and> fst (?d x) = (if wallet_refusal y then (if event_type (room_event ''dm:alice'') = TICK then Inr [noop_action] else Inl (Llm_raise y)) else Inr provider_error)"
      by (auto simp: start_state_def)
    have "event_type (room_event ''dm:alice'') \<noteq> TICK" by (simp add: room_event_def)
    then show ?thesis using n(2)[rule_format, of "[]" call "[]" x] n(1) c by (simp add: answering_def)
  qed
  have "wallet_refusal ResourceExhausted" "\<not> wallet_refusal RpcError" by (simp_all add: wallet_refusal_def)
  then show ?thesis using one[of ResourceExhausted] out[of ResourceExhausted] out[of RpcError] by auto
qed

theorem dm_answered_or_failed_witness:
  "\<exists>as'. fst (dm_turn (said END_TURN ''hello'')) = Inr as' \<and> (\<exists>a \<in> set as'. sends_to ''dm:alice'' a)"
proof -
  let ?x = "said END_TURN ''hello''"
  let ?d = "dm_turn ?x"
  have "on_event_inner sample_persona (answering ?x) (room_event ''dm:alice'') start_state = (fst ?d, snd ?d)" by (simp add: dm_turn_def)
  moreover have "event_type (room_event ''dm:alice'') = CHANNEL_MESSAGE" "channel_id (room_event ''dm:alice'') = Some (''dm:'' @ ''alice'')"
    "sender_id (room_event ''dm:alice'') \<noteq> Some (pe_agent_id sample_persona)" by (simp_all add: room_event_def sample_persona_def)
  moreover have "map_of (pe_config sample_persona) ''model'' \<noteq> None" "\<not> is_true (py_get (metadata (room_event ''dm:alice'')) ''replay_mode'')"
    "\<not> is_true (py_get (payload (room_event ''dm:alice'')) ''interaction_close_notification'')" by code_simp+
  ultimately have "\<exists>turns revisions. tt_calls (snd ?d) = tt_calls start_state @ turns @ revisions \<and>
    (\<forall>c \<in> set turns. lc_purpose c = P_TURN) \<and> (\<forall>c \<in> set revisions. lc_purpose c \<noteq> P_TURN) \<and>
    (if turns = [] then (\<exists>e. fst ?d = Inl (Py_raise e)) \<or> call_cap sample_persona = 0 \<and> fst ?d = Inr [complete_with ''No LLM response'']
     else case answering ?x (tt_calls start_state @ butlast turns) (last turns) of
       Inl x \<Rightarrow> fst ?d = (if wallet_refusal x then Inl (Llm_raise x) else Inr provider_error)
     | Inr r \<Rightarrow> if lr_stop_reason r = MAX_TOKENS then fst ?d = Inr TRUNCATED
                else (\<exists>e. fst ?d = Inl (Py_raise e)) \<or> (\<exists>as'. fst ?d = Inr as' \<and> (\<exists>a \<in> set as'. sends_to (''dm:'' @ ''alice'') a)))"
    by (rule dm_answered_or_failed)
  then obtain turns revisions where t: "tt_calls (snd ?d) = tt_calls start_state @ turns @ revisions" "\<forall>c \<in> set revisions. lc_purpose c \<noteq> P_TURN"
    and out: "if turns = [] then (\<exists>e. fst ?d = Inl (Py_raise e)) \<or> call_cap sample_persona = 0 \<and> fst ?d = Inr [complete_with ''No LLM response'']
     else case answering ?x (tt_calls start_state @ butlast turns) (last turns) of
       Inl x \<Rightarrow> fst ?d = (if wallet_refusal x then Inl (Llm_raise x) else Inr provider_error)
     | Inr r \<Rightarrow> if lr_stop_reason r = MAX_TOKENS then fst ?d = Inr TRUNCATED
                else (\<exists>e. fst ?d = Inl (Py_raise e)) \<or> (\<exists>as'. fst ?d = Inr as' \<and> (\<exists>a \<in> set as'. sends_to (''dm:'' @ ''alice'') a))" by (elim exE conjE)
  have "map lc_purpose (tt_calls (snd ?d)) = [P_TURN]" by code_simp
  then have "turns \<noteq> []" using t(1,2) by (auto simp: start_state_def)
  moreover have "isl (fst ?d) = False" by code_simp
  moreover have "answering ?x before call = Inr \<lparr>lr_text = Some ''hello'', lr_tool_calls = [], lr_stop_reason = END_TURN\<rparr>" for before call
    by (simp add: answering_def said_def)
  ultimately show ?thesis using out by auto
qed

definition echo_event :: AgentEvent where
  "echo_event = (room_event ''dm:alice'')\<lparr>metadata := [(''replay_mode'', PyBool True)]\<rparr>"

theorem quiet_events_cost_nothing_witness:
  "tt_calls (snd (on_event_inner sample_persona (answering (Inl RpcError)) echo_event start_state)) = [] \<and>
   tt_world (snd (on_event_inner sample_persona (answering (Inl RpcError)) echo_event start_state)) = 1"
proof -
  let ?d = "on_event_inner sample_persona (answering (Inl RpcError)) echo_event start_state"
  have "?d = (fst ?d, snd ?d)" by simp
  moreover have "map_of (pe_config sample_persona) ''model'' \<noteq> None" by code_simp
  moreover have "is_true (py_get (metadata echo_event) ''replay_mode'')" by code_simp
  ultimately have "tt_calls (snd ?d) = tt_calls start_state" using quiet_events_cost_nothing by blast
  moreover have "tt_world (snd ?d) = 1" by code_simp
  ultimately show ?thesis by (simp add: start_state_def)
qed

text \<open>
  A reply to a direct message that is cut off, or that the provider fails on, leaves the turn before the step that binds an answer to the channel, so nothing is
  published there.
\<close>

lemma truncated_dm_unanswered:
  "fst (dm_turn (said MAX_TOKENS ''hel'')) = Inr [complete_with ''Response truncated: max_tokens limit reached'']"
  "fst (dm_turn (Inl ProviderException)) = Inr [complete_with ''LLM provider error'']"
  by code_simp+

end
