(* ===== verification/Conversation_Window.thy ===== *)
theory Conversation_Window
  imports Security Working_Memory Persona_Types Py_Text
begin

text \<open>
  The transcript a turn starts from (\<open>src/agents/persona_runtime/conversation_window.py\<close>, \<open>_conversation_window_cache.py\<close>, \<open>conversation_seed.py\<close>): the fetch of the channel's last messages
  (\<open>channel_history_fetcher.py\<close>) behind a bounded cache, and the way from the rows to the messages of the model, together with the text an event becomes
  (\<open>_format_event\<close> of \<open>prompt_assembly.py\<close>, \<open>operator_directive.py\<close>, \<open>prompt_safety.py\<close>). The tokenizer, the snippet files, \<open>json.dumps\<close> and the server's answers are parameters.
  Between the lookup and the answer of the server other turns may use the cache; a fetch is therefore two steps.
\<close>


section \<open>The text of an event\<close>

text \<open>\<open>s.replace(old, new)\<close> for a text \<open>old\<close> that is not empty.\<close>

definition match_text :: "string \<Rightarrow> string \<Rightarrow> nat option" where
  "match_text old s = (if take (length old) s = old then Some (length old) else None)"

definition py_replace :: "string \<Rightarrow> string \<Rightarrow> string \<Rightarrow> string" where
  "py_replace old new s = re_sub (match_text old) (\<lambda>_. new) s"

abbreviation backslash :: char where "backslash \<equiv> CHR 0x5C"
abbreviation newline :: char where "newline \<equiv> CHR 0x0A"
abbreviation quote_mark :: char where "quote_mark \<equiv> CHR 0x22"

definition escape_prompt_delimiters :: "string \<Rightarrow> string" where
  "escape_prompt_delimiters t = py_replace ''|>'' (backslash # ''|>'') (py_replace ''<|'' (backslash # ''<|'') t)"

record prompt_env =
  pr_snippet :: "string \<Rightarrow> string result"
  pr_shown :: "pyval \<Rightarrow> string"
  pr_dumps :: "pydict \<Rightarrow> string option"
  pr_task_text :: "pyval \<Rightarrow> string option"

definition OPERATOR_DIRECTIVE_MAX_CHARS :: nat where "OPERATOR_DIRECTIVE_MAX_CHARS = 8000"

definition bound_directive :: "nat \<Rightarrow> string \<Rightarrow> string \<Rightarrow> string" where
  "bound_directive max_chars kind directive =
     (if length directive \<le> max_chars then directive
      else take max_chars directive @ [newline] @ ''[... '' @ kind @ '' directive truncated ...]'')"

definition format_operator_directive :: "prompt_env \<Rightarrow> string \<Rightarrow> nat \<Rightarrow> string \<Rightarrow> pyval \<Rightarrow> string result" where
  "format_operator_directive env snippet max_chars kind directive =
     (case directive of
        PyStr d \<Rightarrow>
          bind_r (wrap_external (bound_directive max_chars kind d) ''external'' False True) (\<lambda>envelope.
            bind_r (pr_snippet env snippet) (\<lambda>framing. Inr (framing @ [newline, newline] @ envelope)))
      | _ \<Rightarrow> Inl TypeError)"

definition format_convener_opening :: "prompt_env \<Rightarrow> pyval \<Rightarrow> string result" where
  "format_convener_opening env directive = format_operator_directive env ''convener-opening'' OPERATOR_DIRECTIVE_MAX_CHARS ''convene'' directive"

definition format_synthesis_turn :: "prompt_env \<Rightarrow> pyval \<Rightarrow> string result" where
  "format_synthesis_turn env directive = format_operator_directive env ''synthesis-turn'' OPERATOR_DIRECTIVE_MAX_CHARS ''synthesis'' directive"

definition format_chair_escalation :: "prompt_env \<Rightarrow> string \<Rightarrow> bool \<Rightarrow> string result" where
  "format_chair_escalation env formatted resynthesize =
     bind_r (pr_snippet env (if resynthesize then ''chair-escalation-resynthesize'' else ''chair-escalation''))
       (\<lambda>framing. Inr (framing @ [newline, newline] @ formatted))"

definition user_header :: "string \<Rightarrow> string" where
  "user_header sender = ''<|user_message user_id='' @ [quote_mark] @ filter (\<lambda>c. c \<noteq> quote_mark) sender @ [quote_mark] @ ''|>'' @ [newline]"

definition user_footer :: string where
  "user_footer = newline # ''<|/user_message|>''"

definition format_channel_message :: "prompt_env \<Rightarrow> AgentEvent \<Rightarrow> string result" where
  "format_channel_message env ev =
     (let sender = or_str (sender_id ev) ''unknown''; content = py_get_or (payload ev) ''content'' (PyStr [])
      in if is_true (py_get (payload ev) ''convene'') then format_convener_opening env content
         else if is_true (py_get (payload ev) ''synthesis_turn'') then format_synthesis_turn env content
         else bind_r
           (if py_get_or (metadata ev) ''sender_participant_type'' (PyStr ''agent'') = PyStr ''user'' then
              bind_r (py_str_of content) (\<lambda>c. Inr (user_header sender @ escape_prompt_delimiters c @ user_footer))
            else Inr (''Message from '' @ sender @ '':'' @ [newline, newline] @ str_text (pr_shown env) content))
           (\<lambda>formatted.
              if is_true (py_get (payload ev) ''chair_escalation'')
              then format_chair_escalation env formatted (is_true (py_get (payload ev) ''chair_escalation_resynthesize''))
              else Inr formatted))"

fun event_type_value :: "EventType \<Rightarrow> string" where
  "event_type_value TASK_ASSIGNED = ''task_assigned''"
| "event_type_value CHANNEL_MESSAGE = ''channel_message''"
| "event_type_value MENTION = ''mention''"
| "event_type_value SUB_AGENT_COMPLETED = ''sub_agent_completed''"
| "event_type_value APPROVAL_REQUESTED = ''approval_requested''"
| "event_type_value APPROVAL_RESPONSE = ''approval_response''"
| "event_type_value TICK = ''tick''"
| "event_type_value AGENT_JOINED = ''agent_joined''"
| "event_type_value AGENT_LEFT = ''agent_left''"

definition format_event :: "prompt_env \<Rightarrow> AgentEvent \<Rightarrow> string result" where
  "format_event env ev =
     (let text = str_text (pr_shown env) in
      case event_type ev of
        TASK_ASSIGNED \<Rightarrow>
          Inr (''You have been assigned a task:'' @ [newline, newline] @
               (case pr_task_text env (py_get (payload ev) ''task'') of Some t \<Rightarrow> t | None \<Rightarrow> text (PyDict (payload ev))))
      | CHANNEL_MESSAGE \<Rightarrow> format_channel_message env ev
      | MENTION \<Rightarrow>
          Inr (''You were mentioned by '' @ or_str (sender_id ev) ''unknown'' @ '':'' @ [newline, newline] @
               text (py_get_or (payload ev) ''content'' (PyStr [])))
      | SUB_AGENT_COMPLETED \<Rightarrow>
          Inr (''A sub-agent completed its task:'' @ [newline, newline] @ text (py_get_or (payload ev) ''result'' (PyStr [])))
      | TICK \<Rightarrow> Inr ''Autonomous tick: review your goals and decide on next actions.''
      | e \<Rightarrow>
          Inr (''Event ('' @ event_type_value e @ ''): '' @
               (case pr_dumps env (payload ev) of Some t \<Rightarrow> t | None \<Rightarrow> text (PyDict (payload ev)))))"


section \<open>Configuration\<close>

record ConversationWindowConfig =
  cw_max_turns :: int
  cw_max_tokens :: int
  cw_enabled :: bool

definition DEFAULT_MAX_TURNS :: int where "DEFAULT_MAX_TURNS = 20"
definition DEFAULT_MAX_TOKENS :: int where "DEFAULT_MAX_TOKENS = 2048"

definition default_window_config :: ConversationWindowConfig where
  "default_window_config = \<lparr>cw_max_turns = DEFAULT_MAX_TURNS, cw_max_tokens = DEFAULT_MAX_TOKENS, cw_enabled = True\<rparr>"

definition count_or :: "pyval \<Rightarrow> int \<Rightarrow> int" where
  "count_or raw d = (case raw of PyInt i \<Rightarrow> if i \<ge> 1 then i else d | _ \<Rightarrow> d)"

definition resolve_conversation_window_config :: "pydict \<Rightarrow> ConversationWindowConfig" where
  "resolve_conversation_window_config config =
     (case py_get config ''conversation_window'' of
        PyDict block \<Rightarrow>
          \<lparr>cw_max_turns = count_or (py_get block ''max_turns'') DEFAULT_MAX_TURNS,
           cw_max_tokens = count_or (py_get block ''max_tokens'') DEFAULT_MAX_TOKENS,
           cw_enabled = (case py_get block ''enabled'' of PyBool b \<Rightarrow> b | _ \<Rightarrow> True)\<rparr>
      | _ \<Rightarrow> default_window_config)"


section \<open>The fetch\<close>

text \<open>\<open>urllib.parse.quote(s, safe='')\<close>.\<close>

definition unreserved :: "char \<Rightarrow> bool" where
  "unreserved c = (let n = of_char c :: nat in (48 \<le> n \<and> n \<le> 57) \<or> (65 \<le> n \<and> n \<le> 90) \<or> (97 \<le> n \<and> n \<le> 122) \<or> c \<in> set ''_.-~'')"

definition upper_hex :: "nat \<Rightarrow> char" where
  "upper_hex n = char_of (if n < 10 then 48 + n else 55 + n)"

definition quote_byte :: "char \<Rightarrow> string" where
  "quote_byte b = (if unreserved b then [b] else (let n = of_char b :: nat in [CHR ''%'', upper_hex (n div 16), upper_hex (n mod 16)]))"

definition quote :: "string \<Rightarrow> string" where
  "quote s = concat (map quote_byte (utf8 s))"

definition rstrip_slash :: "string \<Rightarrow> string" where
  "rstrip_slash s = rev (dropWhile (\<lambda>c. c = CHR ''/'') (rev s))"

definition fetch_url :: "string \<Rightarrow> string \<Rightarrow> int \<Rightarrow> string \<Rightarrow> string" where
  "fetch_url orchestrator_url channel limit as_participant =
     rstrip_slash orchestrator_url @ ''/api/v1/channels/'' @ quote channel @ ''/messages?limit='' @ int_text limit @
     (if as_participant \<noteq> [] then ''&as_participant='' @ quote as_participant else [])"

text \<open>What the server does with the request; reading the body as text or as JSON may raise.\<close>

record http_reply =
  hr_status :: int
  hr_text_ok :: bool
  hr_json :: "pyval option"

datatype fetch_outcome = Fetch_raised | Fetch_none | Fetch_rows "pyval list"

definition http_fetch :: "bool \<Rightarrow> http_reply option \<Rightarrow> fetch_outcome" where
  "http_fetch raise_on_rate_limit reply =
     (case reply of
        None \<Rightarrow> Fetch_none
      | Some r \<Rightarrow>
          if hr_status r \<ge> 400 then
            (if hr_text_ok r \<and> hr_status r = 429 \<and> raise_on_rate_limit then Fetch_raised else Fetch_none)
          else (case hr_json r of
                  None \<Rightarrow> Fetch_none
                | Some (PyDict d) \<Rightarrow> (case py_get d ''messages'' of PyList ms \<Rightarrow> Fetch_rows ms | _ \<Rightarrow> Fetch_rows [])
                | Some _ \<Rightarrow> Fetch_rows []))"


section \<open>The cache\<close>

type_synonym window_key = "string \<times> int \<times> string"
type_synonym window_value = "string \<times> pyval list"

definition DEFAULT_WINDOW_CACHE_CAPACITY :: int where "DEFAULT_WINDOW_CACHE_CAPACITY = 256"

record window_cache =
  wc_capacity :: int
  wc_data :: "(window_key \<times> window_value) list"

definition mk_WindowCache :: "int \<Rightarrow> window_cache result" where
  "mk_WindowCache capacity = (if capacity < 1 then Inl ValueError else Inr \<lparr>wc_capacity = capacity, wc_data = []\<rparr>)"

definition moved_to_end :: "window_key \<Rightarrow> window_value \<Rightarrow> (window_key \<times> window_value) list \<Rightarrow> (window_key \<times> window_value) list" where
  "moved_to_end key v data = AList.delete key data @ [(key, v)]"

definition cache_get :: "window_key \<Rightarrow> window_cache \<Rightarrow> window_value option \<times> window_cache" where
  "cache_get key c =
     (case map_of (wc_data c) key of
        None \<Rightarrow> (None, c)
      | Some v \<Rightarrow> (Some v, c\<lparr>wc_data := moved_to_end key v (wc_data c)\<rparr>))"

definition cache_put :: "window_key \<Rightarrow> window_value \<Rightarrow> window_cache \<Rightarrow> nat \<times> window_cache" where
  "cache_put key v c =
     (let data = moved_to_end key v (wc_data c)
      in if int (length data) > wc_capacity c then (1, c\<lparr>wc_data := tl data\<rparr>) else (0, c\<lparr>wc_data := data\<rparr>))"

definition cache_clear :: "window_cache \<Rightarrow> window_cache" where
  "cache_clear c = c\<lparr>wc_data := []\<rparr>"

datatype window_metric = Cache_access bool | Cache_eviction nat | Fallback string | Fetch_duration

record window_state =
  ws_cache :: window_cache
  ws_metrics :: "window_metric list"

definition window_count :: "window_metric \<Rightarrow> window_state \<Rightarrow> window_state" where
  "window_count m ws = ws\<lparr>ws_metrics := ws_metrics ws @ [m]\<rparr>"

text \<open>Up to the request: the rows of a hit.\<close>

definition fetch_begin :: "window_key \<Rightarrow> string option \<Rightarrow> window_state \<Rightarrow> pyval list option \<times> window_state" where
  "fetch_begin key mid ws =
     (case mid of
        None \<Rightarrow> (None, ws)
      | Some m \<Rightarrow>
          (case cache_get key (ws_cache ws) of
             (cached, c) \<Rightarrow>
               (case cached of
                  Some (m', rows) \<Rightarrow>
                    if m' = m then (Some rows, window_count (Cache_access True) (ws\<lparr>ws_cache := c\<rparr>))
                    else (None, window_count (Cache_access False) (ws\<lparr>ws_cache := c\<rparr>))
                | None \<Rightarrow> (None, window_count (Cache_access False) (ws\<lparr>ws_cache := c\<rparr>)))))"

text \<open>From the answer on.\<close>

definition fetch_end :: "window_key \<Rightarrow> string option \<Rightarrow> fetch_outcome \<Rightarrow> window_state \<Rightarrow> pyval list option \<times> window_state" where
  "fetch_end key mid outcome ws =
     (case outcome of
        Fetch_raised \<Rightarrow> (None, window_count (Fallback ''fetch_failed'') ws)
      | Fetch_none \<Rightarrow> (None, window_count (Fallback ''fetch_none'') ws)
      | Fetch_rows raw \<Rightarrow>
          (let ws1 = window_count Fetch_duration ws
           in case mid of
                None \<Rightarrow> (Some raw, ws1)
              | Some m \<Rightarrow>
                  (case cache_put key (m, raw) (ws_cache ws1) of
                     (evicted, c) \<Rightarrow>
                       (Some raw, if evicted \<noteq> 0 then window_count (Cache_eviction evicted) (ws1\<lparr>ws_cache := c\<rparr>) else ws1\<lparr>ws_cache := c\<rparr>))))"

definition fetch_window ::
  "(window_key \<Rightarrow> fetch_outcome) \<Rightarrow> (window_state \<Rightarrow> window_state) \<Rightarrow> window_key \<Rightarrow> string option \<Rightarrow> window_state \<Rightarrow>
   pyval list option \<times> window_state" where
  "fetch_window fetch meanwhile key mid ws =
     (case fetch_begin key mid ws of
        (Some rows, ws1) \<Rightarrow> (Some rows, ws1)
      | (None, ws1) \<Rightarrow> fetch_end key mid (fetch key) (meanwhile ws1))"


section \<open>From rows to messages\<close>

record chat_turn =
  ct_role :: string
  ct_content :: string

definition user_turn :: "string \<Rightarrow> chat_turn" where "user_turn t = \<lparr>ct_role = ''user'', ct_content = t\<rparr>"
definition assistant_turn :: "string \<Rightarrow> chat_turn" where "assistant_turn t = \<lparr>ct_role = ''assistant'', ct_content = t\<rparr>"

definition is_row_of :: "string \<Rightarrow> pyval \<Rightarrow> bool" where
  "is_row_of mid row = (case row of PyDict d \<Rightarrow> py_get d ''id'' = PyStr mid | _ \<Rightarrow> False)"

definition drop_rows_newer_than_current :: "string option \<Rightarrow> pyval list \<Rightarrow> pyval list" where
  "drop_rows_newer_than_current current raw =
     (case current of
        None \<Rightarrow> raw
      | Some m \<Rightarrow> (let rows = dropWhile (\<lambda>row. \<not> is_row_of m row) raw in if rows = [] then raw else rows))"

text \<open>The timestamp of the synthetic event is never read.\<close>

definition peer_event :: "pyval \<Rightarrow> string \<Rightarrow> AgentEvent" where
  "peer_event sender content =
     (let label = filter (\<lambda>c. c \<noteq> quote_mark) (case sender of PyStr s \<Rightarrow> if s \<noteq> [] then s else ''unknown'' | _ \<Rightarrow> ''unknown'')
      in \<lparr>event_type = CHANNEL_MESSAGE, payload = [(''content'', PyStr (''['' @ label @ '']: '' @ content))], channel_id = None,
          sender_id = (case sender of PyStr s \<Rightarrow> Some s | _ \<Rightarrow> None), message_id = None, thread_id = None, timestamp = 0,
          metadata = [(''sender_participant_type'', PyStr ''user'')]\<rparr>)"

definition format_peer_turn :: "prompt_env \<Rightarrow> pyval \<Rightarrow> string \<Rightarrow> string result" where
  "format_peer_turn env sender content = format_event env (peer_event sender content)"

definition replayed_turn :: "prompt_env \<Rightarrow> string \<Rightarrow> string option \<Rightarrow> pyval \<Rightarrow> chat_turn option result" where
  "replayed_turn env agent current row =
     (case row of
        PyDict d \<Rightarrow>
          if current \<noteq> None \<and> py_get d ''id'' = PyStr (the current) then Inr None
          else (case py_get d ''content'' of
                  PyStr content \<Rightarrow>
                    if content = [] then Inr None
                    else if py_get d ''sender_id'' = PyStr agent then Inr (Some (assistant_turn content))
                    else bind_r (format_peer_turn env (py_get d ''sender_id'') content) (\<lambda>t. Inr (Some (user_turn t)))
                | _ \<Rightarrow> Inr None)
      | _ \<Rightarrow> Inr None)"

definition turn_tokens :: "(string \<Rightarrow> nat option) \<Rightarrow> chat_turn list \<Rightarrow> int" where
  "turn_tokens encode ts = sum_list (map (\<lambda>t. estimate_tokens encode (ct_content t) True) ts)"

fun fit_tokens :: "(string \<Rightarrow> nat option) \<Rightarrow> int \<Rightarrow> chat_turn list \<Rightarrow> chat_turn list" where
  "fit_tokens encode max_tokens [] = []"
| "fit_tokens encode max_tokens (t # ts) =
     (if turn_tokens encode (t # ts) > max_tokens then fit_tokens encode max_tokens ts else t # ts)"

fun fit_count :: "int \<Rightarrow> chat_turn list \<Rightarrow> chat_turn list result" where
  "fit_count max_turns [] = (if 0 > max_turns then Inl IndexError else Inr [])"
| "fit_count max_turns (t # ts) = (if int (length (t # ts)) > max_turns then fit_count max_turns ts else Inr (t # ts))"

definition apply_admission :: "(string \<Rightarrow> nat option) \<Rightarrow> ConversationWindowConfig \<Rightarrow> chat_turn list \<Rightarrow> chat_turn list result" where
  "apply_admission encode cfg turns = fit_count (cw_max_turns cfg) (fit_tokens encode (cw_max_tokens cfg) turns)"

definition drop_leading_assistant_turns :: "chat_turn list \<Rightarrow> chat_turn list" where
  "drop_leading_assistant_turns turns = dropWhile (\<lambda>t. ct_role t \<noteq> ''user'') turns"

definition assemble_replayed_turns ::
  "prompt_env \<Rightarrow> (string \<Rightarrow> nat option) \<Rightarrow> string \<Rightarrow> string option \<Rightarrow> ConversationWindowConfig \<Rightarrow> pyval list \<Rightarrow> chat_turn list result" where
  "assemble_replayed_turns env encode agent current cfg raw =
     bind_r (mapM_r (replayed_turn env agent current) (rev (drop_rows_newer_than_current current raw))) (\<lambda>ts.
       bind_r (apply_admission encode cfg (List.map_filter id ts)) (\<lambda>admitted. Inr (drop_leading_assistant_turns admitted)))"

definition build_conversation_messages ::
  "prompt_env \<Rightarrow> (string \<Rightarrow> nat option) \<Rightarrow> (window_key \<Rightarrow> fetch_outcome) \<Rightarrow> (window_state \<Rightarrow> window_state) \<Rightarrow> AgentEvent \<Rightarrow> string \<Rightarrow> string \<Rightarrow>
   ConversationWindowConfig \<Rightarrow> window_state \<Rightarrow> chat_turn list result \<times> window_state" where
  "build_conversation_messages env encode fetch meanwhile ev agent current_user_message cfg ws =
     (let current_turn = user_turn current_user_message; channel = or_str (channel_id ev) []
      in if \<not> cw_enabled cfg \<or> channel = [] then (Inr [current_turn], ws)
         else (case fetch_window fetch meanwhile (channel, cw_max_turns cfg + 1, agent) (message_id ev) ws of
                 (None, ws1) \<Rightarrow> (Inr [current_turn], ws1)
               | (Some raw, ws1) \<Rightarrow>
                   (bind_r (assemble_replayed_turns env encode agent (message_id ev) cfg raw) (\<lambda>replayed. Inr (replayed @ [current_turn])), ws1)))"

text \<open>The agent's end: the fetcher arrives after construction, the configuration is resolved once.\<close>

record window_agent =
  wa_agent_id :: string
  wa_config :: pydict
  wa_fetcher :: "(window_key \<Rightarrow> fetch_outcome) option"
  wa_resolved :: "ConversationWindowConfig option"

definition set_history_fetcher :: "(window_key \<Rightarrow> fetch_outcome) \<Rightarrow> window_agent \<Rightarrow> window_agent" where
  "set_history_fetcher f wa = wa\<lparr>wa_fetcher := Some f\<rparr>"

definition build_seed_messages ::
  "prompt_env \<Rightarrow> (string \<Rightarrow> nat option) \<Rightarrow> (window_state \<Rightarrow> window_state) \<Rightarrow> AgentEvent \<Rightarrow> string \<Rightarrow> window_agent \<Rightarrow> window_state \<Rightarrow>
   chat_turn list result \<times> window_agent \<times> window_state" where
  "build_seed_messages env encode meanwhile ev current_user_message wa ws =
     (case wa_fetcher wa of
        None \<Rightarrow> (Inr [user_turn current_user_message], wa, ws)
      | Some fetch \<Rightarrow>
          (let cfg = (case wa_resolved wa of None \<Rightarrow> resolve_conversation_window_config (wa_config wa) | Some c \<Rightarrow> c);
               wa1 = wa\<lparr>wa_resolved := Some cfg\<rparr>
           in case build_conversation_messages env encode fetch meanwhile ev (wa_agent_id wa) current_user_message cfg ws of
                (r, ws1) \<Rightarrow> (r, wa1, ws1)))"


section \<open>Escaped text closes nothing\<close>

text \<open>Every delimiter in the text has a backslash before it; \<open>p\<close> is the character before the text.\<close>

fun guarded :: "char \<Rightarrow> string \<Rightarrow> string \<Rightarrow> bool" where
  "guarded p d [] \<longleftrightarrow> True"
| "guarded p d (c # cs) \<longleftrightarrow> (take (length d) (c # cs) = d \<longrightarrow> p = backslash) \<and> guarded c d cs"

definition no_bare_delimiter :: "string \<Rightarrow> bool" where
  "no_bare_delimiter s \<longleftrightarrow> guarded (CHR '' '') ''<|'' s \<and> guarded (CHR '' '') ''|>'' s"

lemma match_two: "match_text [a, b] s = (case s of c # d # r \<Rightarrow> if c = a \<and> d = b then Some 2 else None | _ \<Rightarrow> None)"
  by (auto simp: match_text_def split: list.splits)

lemma starts_two: "take 2 s = [a, b] \<longleftrightarrow> (\<exists>r. s = a # b # r)"
  by (cases s; cases "tl s") auto

lemma starts_one: "take (Suc 0) s = [a] \<longleftrightarrow> (\<exists>r. s = a # r)"
  by (cases s) auto

lemma replace_two_simps:
  "py_replace [a, b] new [] = []"
  "py_replace [a, b] new [c] = [c]"
  "py_replace [a, b] new (c # d # r) = (if c = a \<and> d = b then new @ py_replace [a, b] new r else c # py_replace [a, b] new (d # r))"
  by (simp_all add: py_replace_def match_two numeral_2_eq_2)

lemma replace_two_hd:
  "py_replace [a, b] (e # new) s = c # r \<Longrightarrow> c \<noteq> e \<Longrightarrow> \<exists>r'. s = c # r'"
  by (cases s; cases "tl s") (auto simp: replace_two_simps split: if_splits)

lemma replace_two_induct:
  "P [] \<Longrightarrow> (\<And>c. P [c]) \<Longrightarrow> (\<And>r. P r \<Longrightarrow> P (a # b # r)) \<Longrightarrow> (\<And>c d r. \<not> (c = a \<and> d = b) \<Longrightarrow> P (d # r) \<Longrightarrow> P (c # d # r)) \<Longrightarrow> P s"
proof (induction s rule: length_induct)
  case (1 s)
  show ?case
  proof (cases s rule: remdups_adj.cases)
    case (3 c d r)
    have r: "P r" "P (d # r)" using 1 3 by auto
    show ?thesis using 1(4)[OF r(1)] 1(5)[of c d r, OF _ r(2)] 3 by blast
  qed (use 1 in auto)
qed

lemma escape_open_guarded: "guarded p ''<|'' (py_replace ''<|'' (backslash # ''<|'') s)"
proof (induction s arbitrary: p rule: replace_two_induct[where a = "CHR ''<''" and b = "CHR ''|''"])
  case (4 c d r)
  have "take 2 (c # py_replace ''<|'' (backslash # ''<|'') (d # r)) \<noteq> ''<|''"
    using 4(1) replace_two_hd[of "CHR ''<''" "CHR ''|''" backslash "''<|''" "d # r"] by (auto simp: starts_one)
  then show ?case using 4 by (auto simp: replace_two_simps)
qed (simp_all add: replace_two_simps)

lemma escape_close_guarded:
  "guarded p ''<|'' s \<Longrightarrow> guarded p ''<|'' (py_replace ''|>'' (backslash # ''|>'') s) \<and> guarded p ''|>'' (py_replace ''|>'' (backslash # ''|>'') s)"
proof (induction s arbitrary: p rule: replace_two_induct[where a = "CHR ''|''" and b = "CHR ''>''"])
  case (4 c d r)
  let ?rest = "py_replace ''|>'' (backslash # ''|>'') (d # r)"
  have hd: "\<exists>r'. d # r = x # r'" if "?rest = x # y" "x \<noteq> backslash" for x y
    using replace_two_hd[OF that] .
  have "p = backslash" if "take 2 (c # ?rest) = ''<|''"
    using that 4(3) hd[of "CHR ''|''"] by (auto simp: starts_one)
  moreover have "take 2 (c # ?rest) \<noteq> ''|>''" using 4(1) hd[of "CHR ''>''"] by (auto simp: starts_one)
  ultimately show ?case using 4 by (auto simp: replace_two_simps)
qed (simp_all add: replace_two_simps)

lemma escaped_no_bare_delimiter: "no_bare_delimiter (escape_prompt_delimiters s)"
  unfolding no_bare_delimiter_def escape_prompt_delimiters_def using escape_close_guarded[OF escape_open_guarded] by blast

lemma format_peer_turn_text:
  "format_peer_turn env sender content =
     Inr (user_header (or_str (case sender of PyStr s \<Rightarrow> Some s | _ \<Rightarrow> None) ''unknown'') @
          escape_prompt_delimiters (''['' @ filter (\<lambda>c. c \<noteq> quote_mark) (or_str (case sender of PyStr s \<Rightarrow> Some s | _ \<Rightarrow> None) ''unknown'') @ '']: '' @ content) @
          user_footer)"
  by (auto simp: format_peer_turn_def peer_event_def format_event_def format_channel_message_def Let_def py_get_or_def py_str_of_def or_str_def split: pyval.splits)


section \<open>Admission keeps the longest end that fits\<close>

lemma tokens_nonneg: "0 \<le> turn_tokens encode ts"
  unfolding turn_tokens_def by (rule sum_list_nonneg) (auto simp: estimate_tokens_def split: option.splits)

lemma tokens_append: "turn_tokens encode (xs @ ys) = turn_tokens encode xs + turn_tokens encode ys"
  by (simp add: turn_tokens_def)

definition window_fits :: "(string \<Rightarrow> nat option) \<Rightarrow> ConversationWindowConfig \<Rightarrow> chat_turn list \<Rightarrow> bool" where
  "window_fits encode cfg ts \<longleftrightarrow> turn_tokens encode ts \<le> cw_max_tokens cfg \<and> int (length ts) \<le> cw_max_turns cfg"

lemma fit_tokens_longest:
  assumes "0 \<le> n"
  shows "suffix (fit_tokens encode n ts) ts \<and> turn_tokens encode (fit_tokens encode n ts) \<le> n \<and>
    (\<forall>s. suffix s ts \<and> turn_tokens encode s \<le> n \<longrightarrow> suffix s (fit_tokens encode n ts))"
proof (induction ts)
  case (Cons t ts)
  then show ?case by (auto simp: suffix_Cons)
qed (use assms in \<open>simp add: turn_tokens_def\<close>)

lemma fit_count_longest:
  assumes "0 \<le> n"
  shows "\<exists>r. fit_count n ts = Inr r \<and> suffix r ts \<and> int (length r) \<le> n \<and> (\<forall>s. suffix s ts \<and> int (length s) \<le> n \<longrightarrow> suffix s r)"
proof (induction ts)
  case (Cons t ts)
  then show ?case by (auto simp: suffix_Cons)
qed (use assms in simp)

lemma tokens_suffix: "suffix s ts \<Longrightarrow> turn_tokens encode s \<le> turn_tokens encode ts"
  by (auto simp: suffix_def tokens_append tokens_nonneg)

lemma admission_longest:
  assumes "0 \<le> cw_max_turns cfg" "0 \<le> cw_max_tokens cfg"
  shows "\<exists>r. apply_admission encode cfg ts = Inr r \<and> suffix r ts \<and> window_fits encode cfg r \<and>
    (\<forall>s. suffix s ts \<and> window_fits encode cfg s \<longrightarrow> suffix s r)"
proof -
  note t = fit_tokens_longest[OF assms(2), of encode ts]
  from fit_count_longest[OF assms(1)] obtain r where r: "fit_count (cw_max_turns cfg) (fit_tokens encode (cw_max_tokens cfg) ts) = Inr r"
    "suffix r (fit_tokens encode (cw_max_tokens cfg) ts)" "int (length r) \<le> cw_max_turns cfg"
    "\<forall>s. suffix s (fit_tokens encode (cw_max_tokens cfg) ts) \<and> int (length s) \<le> cw_max_turns cfg \<longrightarrow> suffix s r" by metis
  then show ?thesis using t tokens_suffix[OF r(2), of encode] unfolding apply_admission_def window_fits_def
    by (meson order_trans suffix_order.order_trans)
qed

lemma resolved_counts: "1 \<le> cw_max_turns (resolve_conversation_window_config config) \<and> 1 \<le> cw_max_tokens (resolve_conversation_window_config config)"
  by (auto simp: resolve_conversation_window_config_def default_window_config_def DEFAULT_MAX_TURNS_def DEFAULT_MAX_TOKENS_def count_or_def split: pyval.splits)


section \<open>What a row becomes\<close>

text \<open>
  The plain reading of one row, and of rows, newest first, as a transcript, oldest first. The rows that count are those from the current message on where the
  server's answer has that message, and otherwise, as without a message id, all of them.\<close>

definition plain_turn :: "string \<Rightarrow> string option \<Rightarrow> pyval \<Rightarrow> chat_turn option" where
  "plain_turn agent current row =
     (case row of
        PyDict d \<Rightarrow>
          (case py_get d ''content'' of
             PyStr content \<Rightarrow>
               if content = [] \<or> (case current of None \<Rightarrow> False | Some m \<Rightarrow> py_get d ''id'' = PyStr m) then None
               else Some (if py_get d ''sender_id'' = PyStr agent then assistant_turn content
                          else let who = or_str (case py_get d ''sender_id'' of PyStr s \<Rightarrow> Some s | _ \<Rightarrow> None) ''unknown'' in
                            user_turn (user_header who @ escape_prompt_delimiters (''['' @ filter (\<lambda>c. c \<noteq> quote_mark) who @ '']: '' @ content) @ user_footer))
           | _ \<Rightarrow> None)
      | _ \<Rightarrow> None)"

definition transcript :: "string \<Rightarrow> string option \<Rightarrow> pyval list \<Rightarrow> chat_turn list" where
  "transcript agent current rows = List.map_filter (plain_turn agent current) (rev rows)"

definition rows_up_to :: "string option \<Rightarrow> pyval list \<Rightarrow> pyval list \<Rightarrow> bool" where
  "rows_up_to current raw rows \<longleftrightarrow>
     (case current of
        None \<Rightarrow> rows = raw
      | Some m \<Rightarrow>
          (\<forall>newer d older. raw = newer @ PyDict d # older \<and> py_get d ''id'' = PyStr m \<and>
             (\<forall>d'. PyDict d' \<in> set newer \<longrightarrow> py_get d' ''id'' \<noteq> PyStr m) \<longrightarrow> rows = PyDict d # older) \<and>
          ((\<forall>d. PyDict d \<in> set raw \<longrightarrow> py_get d ''id'' \<noteq> PyStr m) \<longrightarrow> rows = raw))"

lemma not_row_of: "\<not> is_row_of m row \<longleftrightarrow> (\<forall>d. row = PyDict d \<longrightarrow> py_get d ''id'' \<noteq> PyStr m)"
  by (auto simp: is_row_of_def split: pyval.splits)

lemma drop_rows_up_to: "rows_up_to current raw (drop_rows_newer_than_current current raw)"
proof (cases current)
  case (Some m)
  have "dropWhile (\<lambda>row. \<not> is_row_of m row) (newer @ PyDict d # older) = PyDict d # older"
    if "py_get d ''id'' = PyStr m" "\<forall>d'. PyDict d' \<in> set newer \<longrightarrow> py_get d' ''id'' \<noteq> PyStr m" for newer d older
    using that by (subst dropWhile_append2) (auto simp: not_row_of)
  moreover have "dropWhile (\<lambda>row. \<not> is_row_of m row) raw = []" if "\<forall>d. PyDict d \<in> set raw \<longrightarrow> py_get d ''id'' \<noteq> PyStr m"
    using that by (auto simp: not_row_of)
  ultimately show ?thesis using Some by (auto simp: rows_up_to_def drop_rows_newer_than_current_def simp del: dropWhile_eq_Nil_conv)
qed (simp add: rows_up_to_def drop_rows_newer_than_current_def)

lemma replayed_turn_plain: "replayed_turn env agent current row = Inr (plain_turn agent current row)"
  by (auto simp: replayed_turn_def plain_turn_def format_peer_turn_text Let_def split: pyval.splits option.splits)

lemma replayed_turns_plain: "mapM_r (replayed_turn env agent current) rows = Inr (map (plain_turn agent current) rows)"
  using mapM_r_map[of rows "replayed_turn env agent current" id] by (simp add: replayed_turn_plain)

lemma map_filter_id: "List.map_filter id (map f xs) = List.map_filter f xs"
  by (simp add: List.map_filter_def comp_def filter_map)

lemma assemble_outcome:
  assumes "0 \<le> cw_max_turns cfg" "0 \<le> cw_max_tokens cfg"
  shows "\<exists>admitted. assemble_replayed_turns env encode agent current cfg raw = Inr (dropWhile (\<lambda>t. ct_role t \<noteq> ''user'') admitted) \<and>
    suffix admitted (transcript agent current (drop_rows_newer_than_current current raw)) \<and> window_fits encode cfg admitted \<and>
    (\<forall>s. suffix s (transcript agent current (drop_rows_newer_than_current current raw)) \<and> window_fits encode cfg s \<longrightarrow> suffix s admitted)"
  using admission_longest[OF assms, of encode "transcript agent current (drop_rows_newer_than_current current raw)"]
  by (auto simp: assemble_replayed_turns_def replayed_turns_plain map_filter_id transcript_def drop_leading_assistant_turns_def)


definition attributed :: "string \<Rightarrow> string option \<Rightarrow> pyval list \<Rightarrow> chat_turn \<Rightarrow> bool" where
  "attributed agent current rows t \<longleftrightarrow>
     (\<exists>d c. PyDict d \<in> set rows \<and> py_get d ''content'' = PyStr c \<and>
        (\<forall>m. current = Some m \<longrightarrow> py_get d ''id'' \<noteq> PyStr m) \<and>
        (if py_get d ''sender_id'' = PyStr agent then t = assistant_turn c
         else \<exists>who body. t = user_turn (user_header who @ body @ user_footer) \<and> no_bare_delimiter body))"

lemma transcript_attributed: "t \<in> set (transcript agent current rows) \<Longrightarrow> attributed agent current rows t"
proof -
  assume "t \<in> set (transcript agent current rows)"
  then obtain row where row: "row \<in> set rows" "plain_turn agent current row = Some t"
    by (auto simp: transcript_def List.map_filter_def)
  then obtain d c where d: "row = PyDict d" "py_get d ''content'' = PyStr c" "\<forall>m. current = Some m \<longrightarrow> py_get d ''id'' \<noteq> PyStr m"
    by (auto simp: plain_turn_def split: pyval.splits if_splits option.splits)
  then show ?thesis using row escaped_no_bare_delimiter
    by (auto simp: attributed_def plain_turn_def Let_def split: if_splits intro!: exI[of _ d])
qed


section \<open>A cache of fetched rows\<close>

text \<open>What a client may rely on in a cache that forgets: a value read under a key was put there under it.\<close>

locale forgetting_cache =
  fixes get :: "'k \<Rightarrow> 'c \<Rightarrow> 'v option \<times> 'c" and put :: "'k \<Rightarrow> 'v \<Rightarrow> 'c \<Rightarrow> nat \<times> 'c" and holds :: "'c \<Rightarrow> 'k \<Rightarrow> 'v \<Rightarrow> bool"
  assumes get_holds: "get k c = (Some v, c') \<Longrightarrow> holds c k v"
    and get_keeps: "get k c = (r, c') \<Longrightarrow> holds c' k' v \<Longrightarrow> holds c k' v"
    and put_holds: "put k v c = (n, c') \<Longrightarrow> holds c' k' v' \<Longrightarrow> (k' = k \<and> v' = v) \<or> holds c k' v'"
begin

definition sound :: "('k \<Rightarrow> 'v \<Rightarrow> bool) \<Rightarrow> 'c \<Rightarrow> bool" where
  "sound P c \<longleftrightarrow> (\<forall>k v. holds c k v \<longrightarrow> P k v)"

lemma sound_get: "sound P c \<Longrightarrow> get k c = (r, c') \<Longrightarrow> sound P c' \<and> (\<forall>v. r = Some v \<longrightarrow> P k v)"
  unfolding sound_def using get_holds get_keeps by metis

lemma sound_put: "sound P c \<Longrightarrow> P k v \<Longrightarrow> put k v c = (n, c') \<Longrightarrow> sound P c'"
  unfolding sound_def using put_holds by metis

lemma sound_mono: "sound P c \<Longrightarrow> (\<And>k v. P k v \<Longrightarrow> Q k v) \<Longrightarrow> sound Q c"
  unfolding sound_def by blast

end

lemma moved_set: "set (moved_to_end k v data) \<subseteq> insert (k, v) (set data)"
  by (auto simp: moved_to_end_def AList.delete_eq)

lemma tl_set: "x \<in> set (tl xs) \<Longrightarrow> x \<in> set xs"
  by (cases xs) auto

interpretation wc: forgetting_cache cache_get cache_put "\<lambda>c k v. (k, v) \<in> set (wc_data c)"
proof (unfold_locales, goal_cases)
  case (1 k c v c')
  then show ?case by (auto simp: cache_get_def split: option.splits dest: map_of_SomeD)
next
  case (2 k c r c' k' v)
  show ?case
  proof (cases "map_of (wc_data c) k")
    case (Some w)
    then show ?thesis using 2 moved_set[of k w "wc_data c"] map_of_SomeD[OF Some] by (auto simp: cache_get_def)
  qed (use 2 in \<open>simp add: cache_get_def\<close>)
next
  case (3 k v c n c' k' v')
  then have "(k', v') \<in> set (moved_to_end k v (wc_data c))" by (auto simp: cache_put_def Let_def split: if_splits dest: tl_set)
  then show ?case using moved_set[of k v "wc_data c"] by auto
qed


text \<open>Any interleaving of the two steps of fetches, oldest first, with what the server answered.\<close>

datatype window_step = Begin window_key "string option" | Arrive window_key "string option" fetch_outcome | Clear

fun window_steps :: "window_step list \<Rightarrow> window_state \<Rightarrow> window_state" where
  "window_steps [] ws = ws"
| "window_steps (Begin key mid # es) ws = window_steps es (snd (fetch_begin key mid ws))"
| "window_steps (Arrive key mid o' # es) ws = window_steps es (snd (fetch_end key mid o' ws))"
| "window_steps (Clear # es) ws = window_steps es (ws\<lparr>ws_cache := cache_clear (ws_cache ws)\<rparr>)"

definition fetched_for :: "window_step list \<Rightarrow> window_key \<Rightarrow> window_value \<Rightarrow> bool" where
  "fetched_for es key v \<longleftrightarrow> Arrive key (Some (fst v)) (Fetch_rows (snd v)) \<in> set es"

lemma begin_sound:
  assumes "wc.sound P (ws_cache ws)" "fetch_begin key mid ws = (r, ws')"
  shows "wc.sound P (ws_cache ws') \<and> (\<forall>rows. r = Some rows \<longrightarrow> (\<exists>m. mid = Some m \<and> P key (m, rows)))"
proof (cases mid)
  case (Some m)
  obtain cached c where g: "cache_get key (ws_cache ws) = (cached, c)" by fastforce
  show ?thesis using wc.sound_get[OF assms(1) g] assms(2) Some g
    by (auto simp: fetch_begin_def window_count_def split: option.splits if_splits)
qed (use assms in \<open>auto simp: fetch_begin_def\<close>)

lemma end_sound:
  assumes "wc.sound P (ws_cache ws)" "fetch_end key mid o' ws = (r, ws')"
    "\<And>m rows. mid = Some m \<Longrightarrow> o' = Fetch_rows rows \<Longrightarrow> P key (m, rows)"
  shows "wc.sound P (ws_cache ws')"
proof (cases o')
  case (Fetch_rows rows)
  show ?thesis
  proof (cases mid)
    case (Some m)
    obtain n c where p: "cache_put key (m, rows) (ws_cache ws) = (n, c)" by fastforce
    show ?thesis using wc.sound_put[OF assms(1) assms(3)[OF Some Fetch_rows] p] assms(2) Fetch_rows Some p
      by (auto simp: fetch_end_def window_count_def Let_def split: if_splits)
  qed (use assms Fetch_rows in \<open>auto simp: fetch_end_def window_count_def\<close>)
qed (use assms in \<open>auto simp: fetch_end_def window_count_def\<close>)

lemma steps_sound:
  assumes "wc.sound P (ws_cache ws)" "\<And>key v. fetched_for es key v \<Longrightarrow> P key v"
  shows "wc.sound P (ws_cache (window_steps es ws))"
  using assms
proof (induction es arbitrary: ws)
  case (Cons e es)
  have es: "\<And>key v. fetched_for es key v \<Longrightarrow> P key v" using Cons.prems(2) by (auto simp: fetched_for_def)
  show ?case
  proof (cases e)
    case (Begin key mid)
    then show ?thesis using Cons.IH[OF _ es] begin_sound[OF Cons.prems(1), of key mid] by (metis prod.collapse window_steps.simps(2))
  next
    case (Arrive key mid o')
    have "wc.sound P (ws_cache (snd (fetch_end key mid o' ws)))"
      using Cons.prems(2)[of key] Arrive by (intro end_sound[OF Cons.prems(1) surjective_pairing]) (auto simp: fetched_for_def)
    then show ?thesis using Cons.IH[OF _ es] Arrive by simp
  next
    case Clear
    have "wc.sound P (cache_clear (ws_cache ws))" by (simp add: wc.sound_def cache_clear_def)
    then show ?thesis using Cons.IH[OF _ es] Clear by simp
  qed
qed simp


section \<open>Least recently used\<close>

datatype cache_op = Get window_key | Put window_key window_value | Forget

datatype cache_answer = Got "window_value option" | Evicted nat | Forgotten

fun cache_op_step :: "cache_op \<Rightarrow> window_cache \<Rightarrow> cache_answer \<times> window_cache" where
  "cache_op_step (Get k) c = (Got (fst (cache_get k c)), snd (cache_get k c))"
| "cache_op_step (Put k v) c = (Evicted (fst (cache_put k v c)), snd (cache_put k v c))"
| "cache_op_step Forget c = (Forgotten, cache_clear c)"

fun cache_ops :: "cache_op list \<Rightarrow> window_cache \<Rightarrow> cache_answer list \<times> window_cache" where
  "cache_ops [] c = ([], c)"
| "cache_ops (op # ops) c = (case cache_op_step op c of (a, c1) \<Rightarrow> (case cache_ops ops c1 of (as', c2) \<Rightarrow> (a # as', c2)))"

text \<open>
  The reference keeps no order: a clock, and entries with the time of their last use. Reading an entry and putting one set its time to now; an entry too many
  is repaid by the entry whose last use is the longest ago.\<close>

type_synonym stamped = "(window_key \<times> window_value \<times> nat) list"

definition last_use :: "window_key \<times> window_value \<times> nat \<Rightarrow> nat" where "last_use e = snd (snd e)"

definition drop_stalest :: "stamped \<Rightarrow> stamped" where
  "drop_stalest es = filter (\<lambda>e. \<exists>e' \<in> set es. last_use e' < last_use e) es"

fun lru_step :: "int \<Rightarrow> cache_op \<Rightarrow> nat \<times> stamped \<Rightarrow> cache_answer \<times> nat \<times> stamped" where
  "lru_step cap (Get k) (now, es) =
     (case map_of es k of
        None \<Rightarrow> (Got None, now, es)
      | Some (v, t) \<Rightarrow> (Got (Some v), now + 1, AList.update k (v, now) es))"
| "lru_step cap (Put k v) (now, es) =
     (let es1 = AList.update k (v, now) es
      in if int (length es1) > cap then (Evicted 1, now + 1, drop_stalest es1) else (Evicted 0, now + 1, es1))"
| "lru_step cap Forget (now, es) = (Forgotten, now, [])"

fun lru_ops :: "int \<Rightarrow> cache_op list \<Rightarrow> nat \<times> stamped \<Rightarrow> cache_answer list \<times> nat \<times> stamped" where
  "lru_ops cap [] r = ([], r)"
| "lru_ops cap (op # ops) r = (case lru_step cap op r of (a, r1) \<Rightarrow> (case lru_ops cap ops r1 of (as', r2) \<Rightarrow> (a # as', r2)))"

text \<open>The order of the cache is the order of the last uses.\<close>

definition unstamped :: "stamped \<Rightarrow> (window_key \<times> window_value) list" where
  "unstamped xs = map (\<lambda>(k, v, t). (k, v)) xs"

definition by_last_use :: "stamped \<Rightarrow> (window_key \<times> window_value) list \<Rightarrow> stamped \<Rightarrow> nat \<Rightarrow> bool" where
  "by_last_use xs data es now \<longleftrightarrow>
     data = unstamped xs \<and> set xs = set es \<and> distinct (map fst xs) \<and> distinct (map fst es) \<and>
     sorted_wrt (\<lambda>a b. last_use a < last_use b) xs \<and> (\<forall>e \<in> set xs. last_use e < now)"

definition lru_sim :: "int \<Rightarrow> window_cache \<Rightarrow> nat \<times> stamped \<Rightarrow> bool" where
  "lru_sim cap c r \<longleftrightarrow> wc_capacity c = cap \<and> int (length (wc_data c)) \<le> cap \<and> (\<exists>xs. by_last_use xs (wc_data c) (snd r) (fst r))"

lemma by_last_use_length: "by_last_use xs data es now \<Longrightarrow> length data = length es"
proof -
  assume b: "by_last_use xs data es now"
  then have "distinct xs" "distinct es" "set xs = set es" by (auto simp: by_last_use_def distinct_map)
  then have "length xs = length es" by (metis distinct_card)
  then show ?thesis using b by (simp add: by_last_use_def unstamped_def)
qed

lemma by_last_use_map: "by_last_use xs data es now \<Longrightarrow> map_of data k = map_option fst (map_of es k)"
proof -
  assume b: "by_last_use xs data es now"
  have "map_of (unstamped xs) k = map_option fst (map_of xs k)" for xs by (induction xs) (auto simp: unstamped_def)
  moreover have "map_of xs k = map_of es k" using b map_of_inject_set[of xs es] by (auto simp: by_last_use_def)
  ultimately show ?thesis using b by (simp add: by_last_use_def)
qed

lemma update_set: "distinct (map fst es) \<Longrightarrow> set (AList.update k x es) = insert (k, x) {e \<in> set es. fst e \<noteq> k}"
  by (induction es) (auto simp: image_iff)

lemma unstamped_moved: "unstamped (AList.delete k xs @ [(k, v, t)]) = moved_to_end k v (unstamped xs)"
  by (induction xs) (auto simp: unstamped_def moved_to_end_def AList.delete_eq)

lemma delete_keys: "map fst (AList.delete k data) = filter (\<lambda>x. x \<noteq> k) (map fst data)"
  by (induction data) (auto simp: AList.delete_eq)

lemma used_entries:
  assumes "by_last_use xs data es now"
  shows "set (AList.delete k xs @ [(k, v, now)]) = set (AList.update k (v, now) es)"
    "distinct (map fst (AList.delete k xs @ [(k, v, now)]))" "distinct (map fst (AList.update k (v, now) es))"
proof -
  have b: "set xs = set es" "distinct (map fst xs)" "distinct (map fst es)" using assms by (auto simp: by_last_use_def)
  show "set (AList.delete k xs @ [(k, v, now)]) = set (AList.update k (v, now) es)" using b by (auto simp: update_set AList.delete_eq)
  show "distinct (map fst (AList.delete k xs @ [(k, v, now)]))" using b(2) by (simp add: delete_keys)
  show "distinct (map fst (AList.update k (v, now) es))" using b(3) by (rule distinct_update)
qed

lemma alist_update_length: "k \<in> fst ` set es \<Longrightarrow> length (AList.update k x es) = length es"
  by (induction es) auto

lemma used_now:
  assumes "by_last_use xs data es now"
  shows "by_last_use (AList.delete k xs @ [(k, v, now)]) (moved_to_end k v data) (AList.update k (v, now) es) (now + 1)"
proof -
  have d: "set (AList.delete k xs) \<subseteq> set xs" by (auto simp: AList.delete_eq)
  then have "\<forall>e \<in> set (AList.delete k xs). last_use e < now" using assms unfolding by_last_use_def by blast
  moreover have "sorted_wrt (\<lambda>a b. last_use a < last_use b) (AList.delete k xs)"
    unfolding AList.delete_eq using assms by (intro sorted_wrt_filter) (simp add: by_last_use_def)
  moreover have "last_use (k, v, now) = now" by (simp add: last_use_def)
  moreover have "moved_to_end k v data = unstamped (AList.delete k xs @ [(k, v, now)])" using assms by (simp only: unstamped_moved by_last_use_def)
  moreover have "\<forall>e \<in> set (AList.delete k xs @ [(k, v, now)]). last_use e < now + 1" using calculation(1,3) by auto
  ultimately show ?thesis using used_entries[OF assms, of k v] unfolding by_last_use_def
    by (simp only: sorted_wrt_append) simp
qed

lemma stalest_is_first:
  assumes "by_last_use (x # xs) data es now"
  shows "by_last_use xs (tl data) (drop_stalest es) now"
proof -
  have s: "set es = insert x (set xs)" "\<forall>e \<in> set xs. last_use x < last_use e" "x \<notin> set xs" using assms by (auto simp: by_last_use_def)
  have "set (drop_stalest es) = set xs" using s by (fastforce simp: drop_stalest_def)
  moreover have "distinct (map fst (drop_stalest es))" using assms by (auto simp: by_last_use_def drop_stalest_def intro: distinct_map_filter)
  ultimately show ?thesis using assms by (auto simp: by_last_use_def unstamped_def)
qed

lemma lru_sim_step:
  assumes "lru_sim cap c r" "1 \<le> cap" "cache_op_step op c = (a, c')" "lru_step cap op r = (b, r')"
  shows "a = b \<and> lru_sim cap c' r'"
proof -
  obtain now es where r: "r = (now, es)" by fastforce
  obtain xs where x: "by_last_use xs (wc_data c) es now" using assms(1) r by (auto simp: lru_sim_def)
  have c: "wc_capacity c = cap" "int (length (wc_data c)) \<le> cap" using assms(1) by (auto simp: lru_sim_def)
  note moved = used_now[OF x]
  show ?thesis
  proof (cases op)
    case (Get k)
    show ?thesis
    proof (cases "map_of es k")
      case None
      then show ?thesis using assms Get r by_last_use_map[OF x, of k] by (auto simp: cache_get_def)
    next
      case (Some e)
      obtain v t where e: "e = (v, t)" by fastforce
      have "k \<in> fst ` set es" using map_of_SomeD[OF Some] by force
      then have "length (AList.update k (v, now) es) = length es" by (rule alist_update_length)
      then have "int (length (moved_to_end k v (wc_data c))) \<le> cap"
        using by_last_use_length[OF moved[of k v]] by_last_use_length[OF x] c(2) by simp
      then show ?thesis using assms Get r Some e by_last_use_map[OF x, of k] moved[of k v] c(1)
        by (auto simp: cache_get_def lru_sim_def)
    qed
  next
    case (Put k v)
    let ?data = "moved_to_end k v (wc_data c)" and ?es = "AList.update k (v, now) es"
    have l: "length ?data = length ?es" by (rule by_last_use_length[OF moved])
    show ?thesis
    proof (cases "int (length ?data) > cap")
      case True
      obtain y ys where y: "AList.delete k xs @ [(k, v, now)] = y # ys" by (cases "AList.delete k xs @ [(k, v, now)]") auto
      from stalest_is_first[OF moved[of k v, unfolded y]] have "by_last_use ys (tl ?data) (drop_stalest ?es) (now + 1)" .
      moreover have "length ?data \<le> Suc (length (wc_data c))" by (simp add: moved_to_end_def length_delete_le)
      then have "int (length (tl ?data)) \<le> cap" using c(2) by auto
      ultimately show ?thesis using assms Put r True l c(1) by (auto simp: cache_put_def Let_def lru_sim_def)
    next
      case False
      then show ?thesis using assms Put r l c(1) moved[of k v] by (auto simp: cache_put_def Let_def lru_sim_def)
    qed
  next
    case Forget
    then show ?thesis using assms r by (auto simp: cache_clear_def lru_sim_def by_last_use_def unstamped_def)
  qed
qed

lemma lru_sim_ops:
  assumes "lru_sim cap c r" "1 \<le> cap"
  shows "fst (cache_ops ops c) = fst (lru_ops cap ops r) \<and> lru_sim cap (snd (cache_ops ops c)) (snd (lru_ops cap ops r))"
  using assms(1)
proof (induction ops arbitrary: c r)
  case (Cons op ops)
  obtain a c1 where s1: "cache_op_step op c = (a, c1)" by fastforce
  obtain b r1 where s2: "lru_step cap op r = (b, r1)" by (metis prod.collapse)
  note s = s1 s2
  from lru_sim_step[OF Cons.prems assms(2) s] Cons.IH[of c1 r1] show ?case using s by (auto split: prod.splits)
qed simp


section \<open>The address of a request\<close>

lemma upper_hex_inj: "a < 16 \<Longrightarrow> b < 16 \<Longrightarrow> upper_hex a = upper_hex b \<Longrightarrow> a = b"
proof -
  assume h: "a < 16" "b < 16" "upper_hex a = upper_hex b"
  then have "(of_char (upper_hex a) :: nat) = of_char (upper_hex b)" by simp
  then show "a = b" using h(1,2) by (auto simp: upper_hex_def of_char_of split: if_splits)
qed

lemma nibbles: "(of_char x :: nat) div 16 < 16" "(of_char x :: nat) mod 16 < 16"
  using nat_of_char_less_256[of x] by (simp_all add: less_mult_imp_div_less)

lemma quote_byte_prefix: "quote_byte c @ s = quote_byte d @ t \<Longrightarrow> c = d \<and> s = t"
proof -
  assume q: "quote_byte c @ s = quote_byte d @ t"
  have pct: "\<not> unreserved (CHR ''%'')" by (simp add: unreserved_def)
  show ?thesis
  proof (cases "unreserved c"; cases "unreserved d")
    assume n: "\<not> unreserved c" "\<not> unreserved d"
    then have "(of_char c :: nat) div 16 = of_char d div 16" "(of_char c :: nat) mod 16 = of_char d mod 16" "s = t"
      using q nibbles upper_hex_inj by (auto simp: quote_byte_def Let_def)
    then have "(of_char c :: nat) = of_char d" by (metis div_mult_mod_eq)
    then show ?thesis using \<open>s = t\<close> by simp
  qed (use q pct in \<open>auto simp: quote_byte_def Let_def\<close>)
qed

lemma quote_inj: "quote a = quote b \<Longrightarrow> a = b"
proof -
  have "concat (map quote_byte x) = concat (map quote_byte y) \<Longrightarrow> x = y" for x y
  proof (induction x arbitrary: y)
    case Nil
    then show ?case by (cases y) (auto simp: quote_byte_def Let_def split: if_splits)
  next
    case (Cons c x)
    then show ?case
    proof (cases y)
      case Nil
      then show ?thesis using Cons.prems by (auto simp: quote_byte_def Let_def split: if_splits)
    next
      case (Cons d z)
      then show ?thesis using Cons.IH quote_byte_prefix[of c "concat (map quote_byte x)" d] Cons.prems by auto
    qed
  qed
  then show "quote a = quote b \<Longrightarrow> a = b" using utf8_inj unfolding quote_def by blast
qed

lemma quote_no_slash: "CHR ''/'' \<notin> set (quote s)"
proof -
  have "upper_hex n \<noteq> CHR ''/''" if "n < 16" for n
  proof
    assume "upper_hex n = CHR ''/''"
    then have "(of_char (upper_hex n) :: nat) = of_char (CHR ''/'')" by simp
    then show False using that by (auto simp: upper_hex_def of_char_of split: if_splits)
  qed
  then have "CHR ''/'' \<noteq> upper_hex (of_char b div 16) \<and> CHR ''/'' \<noteq> upper_hex (of_char b mod 16)" for b using nibbles[of b] by metis
  moreover have "\<not> unreserved (CHR ''/'')" by (simp add: unreserved_def)
  ultimately have "CHR ''/'' \<notin> set (quote_byte b)" for b by (auto simp: quote_byte_def Let_def)
  then show ?thesis by (auto simp: quote_def)
qed

lemma int_text_no_amp: "CHR ''&'' \<notin> set (int_text i)"
  using nat_text_digits[of "CHR ''&''"] by (auto simp: int_text_def)

lemma int_text_inj: "int_text i = int_text j \<Longrightarrow> i = j"
proof -
  have "CHR ''-'' \<notin> set (nat_text n)" for n using nat_text_digits[of "CHR ''-''" n] by auto
  then have "nat_text n \<noteq> CHR ''-'' # x" for n x by (metis list.set_intros(1))
  moreover have "n = m" if "nat_text n = nat_text m" for n m using that nat_text_value by metis
  moreover assume "int_text i = int_text j"
  ultimately have "(i < 0) = (j < 0) \<and> nat \<bar>i\<bar> = nat \<bar>j\<bar>" by (cases "i < 0"; cases "j < 0") (auto simp: int_text_def dest: sym)
  then show "i = j" by linarith
qed

lemma split_once: "a @ x # r = a' @ x # r' \<Longrightarrow> x \<notin> set a \<Longrightarrow> x \<notin> set a' \<Longrightarrow> a = a' \<and> r = r'"
proof (induction a arbitrary: a')
  case Nil
  then show ?case by (cases a') auto
next
  case (Cons y a)
  then show ?case by (cases a') auto
qed


section \<open>Properties\<close>

text \<open>
  C17. The transcript of a turn is the longest recent one that fits, and says who said what. Whatever the server answers and other turns do meanwhile, the messages end with
  the current one, verbatim, and start with a user message; before it comes the longest end of the transcript within both the token and the turn bound of
  the configuration, less leading messages of the persona. The transcript is that of the rows from the newest row of the current message on, when the answer has one; only when
  it has none, or the event has no message id, is it that of all rows. Each message is such a row and not the current message itself: the persona's own text as its own,
  anyone else's as a user message in which no delimiter of the block stands without a backslash.\<close>

theorem window_longest_recent:
  assumes "build_conversation_messages env encode fetch meanwhile ev agent message (resolve_conversation_window_config config) ws = (r, ws')"
  shows "\<exists>replayed. r = Inr (replayed @ [user_turn message]) \<and> (replayed \<noteq> [] \<longrightarrow> ct_role (hd replayed) = ''user'') \<and>
    (\<forall>raw. cw_enabled (resolve_conversation_window_config config) \<and> or_str (channel_id ev) [] \<noteq> [] \<and>
       fetch_window fetch meanwhile (or_str (channel_id ev) [], cw_max_turns (resolve_conversation_window_config config) + 1, agent) (message_id ev) ws = (Some raw, ws') \<longrightarrow>
       (\<exists>rows. rows_up_to (message_id ev) raw rows \<and>
         (\<exists>admitted. replayed = dropWhile (\<lambda>t. ct_role t \<noteq> ''user'') admitted \<and>
            suffix admitted (transcript agent (message_id ev) rows) \<and> window_fits encode (resolve_conversation_window_config config) admitted \<and>
            (\<forall>s. suffix s (transcript agent (message_id ev) rows) \<and> window_fits encode (resolve_conversation_window_config config) s \<longrightarrow> suffix s admitted)) \<and>
         (\<forall>t \<in> set replayed. \<exists>d c. PyDict d \<in> set rows \<and> py_get d ''content'' = PyStr c \<and>
            (\<forall>m. message_id ev = Some m \<longrightarrow> py_get d ''id'' \<noteq> PyStr m) \<and>
            (if py_get d ''sender_id'' = PyStr agent then t = assistant_turn c
             else \<exists>who body. t = user_turn (user_header who @ body @ user_footer) \<and> no_bare_delimiter body))))"
proof -
  let ?cfg = "resolve_conversation_window_config config"
  show ?thesis
  proof (cases "\<not> cw_enabled ?cfg \<or> or_str (channel_id ev) [] = []")
    case True
    then show ?thesis using assms by (intro exI[of _ "[]"]) (auto simp: build_conversation_messages_def Let_def)
  next
    case False
    obtain fetched ws1 where f: "fetch_window fetch meanwhile (or_str (channel_id ev) [], cw_max_turns ?cfg + 1, agent) (message_id ev) ws = (fetched, ws1)" by fastforce
    show ?thesis
    proof (cases fetched)
      case None
      then show ?thesis using assms False f by (intro exI[of _ "[]"]) (auto simp: build_conversation_messages_def Let_def)
    next
      case (Some raw)
      define rows where "rows = drop_rows_newer_than_current (message_id ev) raw"
      have up: "rows_up_to (message_id ev) raw rows" unfolding rows_def by (rule drop_rows_up_to)
      have "0 \<le> cw_max_turns ?cfg" "0 \<le> cw_max_tokens ?cfg" using resolved_counts[of config] by auto
      from assemble_outcome[OF this, of env encode agent "message_id ev" raw] obtain admitted where a:
        "assemble_replayed_turns env encode agent (message_id ev) ?cfg raw = Inr (dropWhile (\<lambda>t. ct_role t \<noteq> ''user'') admitted)"
        "suffix admitted (transcript agent (message_id ev) rows)" "window_fits encode ?cfg admitted"
        "\<forall>s. suffix s (transcript agent (message_id ev) rows) \<and> window_fits encode ?cfg s \<longrightarrow> suffix s admitted" unfolding rows_def by blast
      let ?replayed = "dropWhile (\<lambda>t. ct_role t \<noteq> ''user'') admitted"
      have r: "r = Inr (?replayed @ [user_turn message])" "ws' = ws1"
        using assms False f Some a(1) by (auto simp: build_conversation_messages_def Let_def)
      have "set ?replayed \<subseteq> set (transcript agent (message_id ev) rows)" using a(2) set_mono_suffix by (fastforce dest: set_dropWhileD)
      then have "\<forall>t \<in> set ?replayed. attributed agent (message_id ev) rows t" using transcript_attributed by blast
      then have w: "\<exists>rows'. rows_up_to (message_id ev) raw rows' \<and>
          (\<exists>admitted'. ?replayed = dropWhile (\<lambda>t. ct_role t \<noteq> ''user'') admitted' \<and>
            suffix admitted' (transcript agent (message_id ev) rows') \<and> window_fits encode ?cfg admitted' \<and>
            (\<forall>s. suffix s (transcript agent (message_id ev) rows') \<and> window_fits encode ?cfg s \<longrightarrow> suffix s admitted')) \<and>
          (\<forall>t \<in> set ?replayed. attributed agent (message_id ev) rows' t)"
        using up a(2,3,4) by blast
      show ?thesis using r f Some w hd_dropWhile[of "\<lambda>t. ct_role t \<noteq> ''user''" admitted]
        unfolding attributed_def by (intro exI[of _ ?replayed]) auto
    qed
  qed
qed

text \<open>
  C18. No persona is served another's view of a channel. Over any interleaving of lookups, answers and clearings, rows that come out of the cache were fetched for the same channel, the same
  limit and the same persona, and for the very message the turn answers.\<close>

theorem cached_rows_are_own:
  assumes "mk_WindowCache cap = Inr c" "fetch_begin (channel, limit, agent) mid (window_steps es \<lparr>ws_cache = c, ws_metrics = ms\<rparr>) = (Some rows, ws')"
  shows "\<exists>m. mid = Some m \<and> Arrive (channel, limit, agent) (Some m) (Fetch_rows rows) \<in> set es"
proof -
  have "wc.sound (fetched_for es) (ws_cache \<lparr>ws_cache = c, ws_metrics = ms\<rparr>)"
    using assms(1) by (auto simp: wc.sound_def mk_WindowCache_def split: if_splits)
  from begin_sound[OF steps_sound[OF this] assms(2)] show ?thesis by (auto simp: fetched_for_def)
qed

text \<open>
  C40. The cache is a least recently used cache. Over any reads, writes and clearings of a new cache, every read answers, and every write evicts, exactly as in the reference that keeps
  for each entry the time it was last read or written and drops the entry whose last use is the longest ago when a write makes one entry too many; the cache has at most its capacity
  of entries and one per key, with the values of the reference.\<close>

theorem window_cache_lru:
  assumes "mk_WindowCache cap = Inr c" "cache_ops ops c = (answers, c')" "lru_ops cap ops (0, []) = (expected, now, es)"
  shows "answers = expected \<and> int (length (wc_data c')) \<le> cap \<and> distinct (map fst (wc_data c')) \<and>
    map_of (wc_data c') k = map_option fst (map_of es k)"
proof -
  have c: "1 \<le> cap" "c = \<lparr>wc_capacity = cap, wc_data = []\<rparr>" using assms by (auto simp: mk_WindowCache_def split: if_splits)
  then have "lru_sim cap c (0, [])" by (simp add: lru_sim_def by_last_use_def unstamped_def)
  from lru_sim_ops[OF this c(1), of ops] have l: "answers = expected" "lru_sim cap c' (now, es)" using assms by auto
  from l(2) obtain xs where x: "by_last_use xs (wc_data c') es now" by (auto simp: lru_sim_def)
  then have "distinct (map fst (wc_data c'))" by (auto simp: by_last_use_def unstamped_def comp_def case_prod_unfold)
  then show ?thesis using l by_last_use_map[OF x] by (simp add: lru_sim_def)
qed

text \<open>
  The address of a history request names exactly what is asked for: two requests of personas with the same address ask for the same channel, the same number of
  messages and the same participant, whatever characters their names have.\<close>

lemma fetch_url_faithful:
  assumes "fetch_url base channel limit agent = fetch_url base channel' limit' agent'" "agent \<noteq> []" "agent' \<noteq> []"
  shows "channel = channel' \<and> limit = limit' \<and> agent = agent'"
proof -
  have "quote channel @ CHR ''/'' # ''messages?limit='' @ int_text limit @ ''&as_participant='' @ quote agent =
    quote channel' @ CHR ''/'' # ''messages?limit='' @ int_text limit' @ ''&as_participant='' @ quote agent'"
    using assms by (simp add: fetch_url_def)
  from split_once[OF this quote_no_slash quote_no_slash]
  have "quote channel = quote channel'" "int_text limit @ CHR ''&'' # ''as_participant='' @ quote agent = int_text limit' @ CHR ''&'' # ''as_participant='' @ quote agent'"
    by auto
  then show ?thesis using split_once[OF _ int_text_no_amp int_text_no_amp] quote_inj int_text_inj by blast
qed


section \<open>The properties on a sample channel\<close>

definition sample_prompt :: prompt_env where
  "sample_prompt = \<lparr>pr_snippet = (\<lambda>_. Inl ValueError), pr_shown = (\<lambda>_. []), pr_dumps = (\<lambda>_. None), pr_task_text = (\<lambda>_. None)\<rparr>"

definition sample_row :: "string \<Rightarrow> string \<Rightarrow> string \<Rightarrow> pyval" where
  "sample_row i who t = PyDict [(''id'', PyStr i), (''sender_id'', PyStr who), (''content'', PyStr t)]"

definition sample_rows :: "pyval list" where
  "sample_rows = [sample_row ''4'' ''bob'' ''later'', sample_row ''3'' ''bob'' ''now'', sample_row ''2'' ''fox'' ''hi'', sample_row ''1'' ''bob'' ''<|x'', sample_row ''0'' ''fox'' ''hello'']"

definition sample_message :: AgentEvent where
  "sample_message = \<lparr>event_type = CHANNEL_MESSAGE, payload = [], channel_id = Some ''group:x'', sender_id = Some ''bob'', message_id = Some ''3'',
     thread_id = None, timestamp = 0, metadata = []\<rparr>"

definition sample_cache :: window_state where
  "sample_cache = \<lparr>ws_cache = \<lparr>wc_capacity = 1, wc_data = []\<rparr>, ws_metrics = []\<rparr>"

definition sample_seed :: "chat_turn list result \<times> window_state" where
  "sample_seed = build_conversation_messages sample_prompt (\<lambda>_. None) (\<lambda>_. Fetch_rows sample_rows) id sample_message ''fox'' ''now'' (resolve_conversation_window_config []) sample_cache"

theorem window_longest_recent_witness:
  "\<exists>replayed. fst sample_seed = Inr (replayed @ [user_turn ''now'']) \<and> length replayed = 2 \<and> ct_role (hd replayed) = ''user''"
proof -
  have "build_conversation_messages sample_prompt (\<lambda>_. None) (\<lambda>_. Fetch_rows sample_rows) id sample_message ''fox'' ''now'' (resolve_conversation_window_config []) sample_cache =
      (fst sample_seed, snd sample_seed)" by (simp add: sample_seed_def)
  from window_longest_recent[OF this] obtain replayed where r: "fst sample_seed = Inr (replayed @ [user_turn ''now''])" "replayed \<noteq> [] \<longrightarrow> ct_role (hd replayed) = ''user''" by blast
  have "(case fst sample_seed of Inr ts \<Rightarrow> length ts | Inl _ \<Rightarrow> 0) = 3" by code_simp
  then have "length replayed = 2" using r(1) by simp
  then show ?thesis using r by (intro exI[of _ replayed]) auto
qed

theorem cached_rows_are_own_witness:
  "Arrive (''group:x'', 21, ''fox'') (Some ''3'') (Fetch_rows sample_rows) \<in> set [Begin (''group:x'', 21, ''fox'') (Some ''3''), Arrive (''group:x'', 21, ''fox'') (Some ''3'') (Fetch_rows sample_rows)]"
proof -
  let ?es = "[Begin (''group:x'', 21, ''fox'') (Some ''3''), Arrive (''group:x'', 21, ''fox'') (Some ''3'') (Fetch_rows sample_rows)]"
  let ?ws = "window_steps ?es \<lparr>ws_cache = \<lparr>wc_capacity = 1, wc_data = []\<rparr>, ws_metrics = []\<rparr>"
  have "mk_WindowCache 1 = Inr \<lparr>wc_capacity = 1, wc_data = []\<rparr>" by (simp add: mk_WindowCache_def)
  moreover have "fst (fetch_begin (''group:x'', 21, ''fox'') (Some ''3'') ?ws) = Some sample_rows" by code_simp
  then have "fetch_begin (''group:x'', 21, ''fox'') (Some ''3'') ?ws = (Some sample_rows, snd (fetch_begin (''group:x'', 21, ''fox'') (Some ''3'') ?ws))" by (metis prod.collapse)
  ultimately show ?thesis using cached_rows_are_own by blast
qed

definition sample_ops :: "cache_op list" where
  "sample_ops = [Put (''a'', 1, ''fox'') (''1'', []), Put (''b'', 1, ''fox'') (''2'', []), Get (''a'', 1, ''fox''), Put (''c'', 1, ''fox'') (''3'', []),
     Get (''a'', 1, ''fox''), Get (''b'', 1, ''fox'')]"

theorem window_cache_lru_witness:
  "fst (cache_ops sample_ops \<lparr>wc_capacity = 2, wc_data = []\<rparr>) = [Evicted 0, Evicted 0, Got (Some (''1'', [])), Evicted 1, Got (Some (''1'', [])), Got None]"
proof -
  have "mk_WindowCache 2 = Inr \<lparr>wc_capacity = 2, wc_data = []\<rparr>" by (simp add: mk_WindowCache_def)
  from window_cache_lru[OF this surjective_pairing, of sample_ops]
  have "fst (cache_ops sample_ops \<lparr>wc_capacity = 2, wc_data = []\<rparr>) = fst (lru_ops 2 sample_ops (0, []))" by (metis prod.collapse)
  moreover have "fst (lru_ops 2 sample_ops (0, [])) = [Evicted 0, Evicted 0, Got (Some (''1'', [])), Evicted 1, Got (Some (''1'', [])), Got None]" by code_simp
  ultimately show ?thesis by simp
qed

theorem fetch_url_faithful_witness:
  "fetch_url ''http://o/'' ''group:x'' 21 ''fox'' = ''http://o/api/v1/channels/group%3Ax/messages?limit=21&as_participant=fox'' \<and>
   fetch_url ''http://o/'' ''group:x'' 21 ''fox'' \<noteq> fetch_url ''http://o/'' ''group:x'' 21 ''fox&limit=9''"
proof -
  have "fetch_url ''http://o/'' ''group:x'' 21 ''fox'' = ''http://o/api/v1/channels/group%3Ax/messages?limit=21&as_participant=fox''" by code_simp
  then show ?thesis using fetch_url_faithful[of "''http://o/''" "''group:x''" 21 "''fox''" "''group:x''" 21 "''fox&limit=9''"] by auto
qed

text \<open>
  The sender in the header of a user block loses its quote marks only: a sender id with a delimiter ends the header early, while the label in the body is escaped, so the two
  do not agree.\<close>

lemma sender_ends_header:
  "format_peer_turn sample_prompt (PyStr ''a|>'') ''hi'' =
     Inr (''<|user_message user_id='' @ [quote_mark] @ ''a|>'' @ [quote_mark] @ ''|>'' @ [newline] @ ''[a'' @ [backslash] @ ''|>]: hi'' @ [newline] @ ''<|/user_message|>'')"
  by code_simp

end
