(* ===== verification/Spec2Isabelle.thy ===== *)
theory Spec2Isabelle
  imports
    Scope_Ids Classification Audience Memory_Budget Projections Injection_Gate
    Permissions Decision_Pipeline Response_Gate Interaction_Tracker
    Working_Memory Event_Loop Wake_Salience Dispatch Inbound Tick
    Security Salience_Bid Commitments Note_Tools Facts
    Eviction Fact_Extraction Close_Path Sub_Agents Action_Loop
    Conversation_Window
begin

text \<open>
  A verification library for the Python agent runtime of Persatrix (\<open>src/agents\<close>).

  \<^bold>\<open>The program.\<close> A persona agent is a long-running process that receives events (channel messages,
  mentions, timer ticks), decides whether to react, assembles what it may remember into a prompt,
  chooses an action, and files what was said into interactions that are later summarised. Its parts,
  in the order in which an event meets them:

  \<^item> the dispatcher routes an event to its agent, runs the answer's actions and whatever they start, up to
    a depth; the inbound path and the tick scheduler are its callers;
  \<^item> the event loop queues the wake and hands it to the agent, one at a time; memory writes can wake
    the agent too, under a rate limit;
  \<^item> the scope axes say for which principal, session and epoch the turn runs;
  \<^item> the response gate decides, before any model is called, whether a channel message starts a turn, and the
    salience gate asks for a bid where the floor is open;
  \<^item> the injection gate decides, entry by entry, which memories this turn may carry: by
    classification against the acting channel, by audience against the people in the room, with
    projections standing in for what is withheld, under a token budget, into named sections of the
    working memory;
  \<^item> the action loop of a turn calls the model in rounds, runs the tools it asks for after checking their
    arguments, reads its answer into actions, binds them to the channel of the event and may revise the reply;
  \<^item> the decision pipeline turns candidate actions into one permitted choice and a record of it; the
    permission gate guards the tools an action may use;
  \<^item> the interaction tracker files each turn under its principal, speaker and scope, and closes
    interactions by detectors, by room events and by the turn cap; the close path writes a closed one as an
    episode, has it summarised and takes facts out of the answer;
  \<^item> the memory tiers keep episodes, facts, notes, relationships, commitments and procedures, filtered by
    scope on every read and shrunk by eviction and retention passes;
  \<^item> sub-agents get a bounded task and hand back a result that is merged on the caller's terms.

  \<^bold>\<open>The theories.\<close> One per component; every definition carries the name it has in the source, without a
  leading underscore, and a private helper that is inlined in the source keeps the lines it comes from.

  \<^item> \<open>Prelude\<close>: strings, dictionaries, dynamically typed values, errors as values.
  \<^item> \<open>Scope_Ids\<close>: \<open>principal_id.py\<close>, \<open>session_id.py\<close>, \<open>epoch_id.py\<close>. The three task-local overrides are
    one record, a scope is a state transformer that restores what it found; the shared contract of an
    axis is the locale \<open>id_axis\<close>, interpreted on all three.
  \<^item> \<open>Classification\<close>: \<open>persona_runtime/classification.py\<close>. The resolvers of labels to ranks are proved to
    implement a four-point linear order with their three different directions of failure.
  \<^item> \<open>Persona_Types\<close>: the event and action vocabulary and the classification stamp of an event.
  \<^item> \<open>Audience\<close>: \<open>persona_runtime/audience.py\<close> and the member reader of \<open>channel_roster.py\<close>.
  \<^item> \<open>Memory_Budget\<close>: \<open>persona_runtime/memory_budget.py\<close>.
  \<^item> \<open>Projections\<close>: \<open>memory/projections.py\<close> over a table with the primary key of the schema.
  \<^item> \<open>Injection_Gate\<close>: \<open>persona_runtime/injection_gate.py\<close>, \<open>projection_branch.py\<close> and the gated part of
    \<open>memory_context.py\<close>. The locale \<open>gate_op\<close> states what every operation of the gate keeps; it is
    interpreted on the filter and on the projection rebuild, and the safety of a whole turn rests on it.
  \<^item> \<open>Permissions\<close>: \<open>tools/permissions.py\<close>.
  \<^item> \<open>Decision_Types\<close>, \<open>Decision_Pipeline\<close>: \<open>decision/decision_types.py\<close>, \<open>action_classes.py\<close>,
    \<open>pipeline.py\<close>, \<open>baseline.py\<close>. The locale \<open>decision_policy\<close> is what the pipeline needs of a policy; the
    baseline policy is its interpretation.
  \<^item> \<open>Response_Gate\<close>: \<open>response_gate.py\<close>, \<open>response_policies.py\<close>.
  \<^item> \<open>Interaction_Types\<close>, \<open>Interaction_Tracker\<close>: \<open>memory/interaction_types.py\<close>, \<open>interaction_key.py\<close>,
    \<open>boundary_detectors.py\<close>, \<open>interaction_tracker.py\<close>, \<open>_replay_bookkeeping.py\<close>,
    \<open>interaction_metrics.py\<close>. The protocol of a detector is the locale \<open>BoundaryDetector\<close>, interpreted on
    the four of the source. The tracker works on an explicit heap, because a close is by object identity.
  \<^item> \<open>Working_Memory\<close>: \<open>memory/working.py\<close>, \<open>store_compress.py\<close>.
  \<^item> \<open>Event_Loop\<close>, \<open>Wake_Salience\<close>: \<open>event_loop.py\<close>, \<open>event_loop_types.py\<close>, \<open>event_loop_lifecycle.py\<close>,
    \<open>event_loop_timers.py\<close>, \<open>event_loop_salience.py\<close>, \<open>memory/_events.py\<close>. Everything between two awaits is one
    function, and an inductive relation interleaves them.
  \<^item> \<open>Dispatch\<close>: \<open>dispatch.py\<close>, \<open>dispatch_context.py\<close>, \<open>action_executor.py\<close>, \<open>end_vote_action.py\<close>; \<open>Inbound\<close>:
    \<open>chat_reply.py\<close> and the inbound processing; \<open>Tick\<close>: \<open>tick.py\<close> and the convene wake.
  \<^item> \<open>Py_Regex\<close>, \<open>Py_Text\<close>, \<open>Search_Text\<close>: the regular expressions, the number and UTF-8 texts and the search texts
    the other theories use; \<open>Scope_Filters\<close>: the WHERE clauses and their reading on a row.
  \<^item> \<open>Security\<close>: \<open>security.py\<close> and the sanitizer; \<open>Deliberation\<close>: the structured verdict and the private plan;
    \<open>Salience_Bid\<close>: \<open>salience_bid.py\<close>, \<open>salience_addressing.py\<close> and the seam \<open>salience_gate.py\<close>.
  \<^item> \<open>Commitments\<close>, \<open>Notes\<close>, \<open>Relationships\<close>, \<open>Facts\<close>, \<open>Episodes\<close>, \<open>Procedures\<close>: the tiers of \<open>memory/\<close>, each as the
    list of rows its table holds with the operations of its module; \<open>Note_Tools\<close>: the memory tools of a persona on
    top of notes and relationships; \<open>Eviction\<close>: \<open>memory/eviction.py\<close> over the episode rows.
  \<^item> \<open>Fact_Extraction\<close>, \<open>Close_Path\<close>: \<open>persona_runtime/fact_envelope.py\<close>, \<open>fact_extractor.py\<close>, \<open>close_path.py\<close>,
    \<open>close_entries.py\<close>, \<open>replay_identity.py\<close>, \<open>record_write_scope.py\<close>, \<open>summarize_close.py\<close>, \<open>record_close.py\<close>,
    \<open>finalize_close.py\<close>, \<open>close_fan.py\<close>: both phases of a close and the guard of a replayed one.
  \<^item> \<open>Sub_Agents\<close>: \<open>sub_agents/delegation.py\<close>, \<open>merge.py\<close>, \<open>spawner.py\<close>.
  \<^item> \<open>Arg_Check\<close>, \<open>Tool_Round\<close>: \<open>tools/arg_check.py\<close>, \<open>sub_agents/_log_safety.py\<close>, \<open>tools/registry.py\<close>,
    \<open>tools/tool_list.py\<close>, \<open>persona_runtime/tool_round.py\<close>: what a tool offers, what its calls are checked against, and a
    round of calls; a tool is a function on the world of the run.
  \<^item> \<open>Reply_Shaping\<close>: \<open>action_parser.py\<close>, \<open>action_validation.py\<close>, \<open>channel_reply.py\<close>, \<open>single_channel_turn.py\<close>;
    \<open>Reflexion\<close>: \<open>reflexion.py\<close>, \<open>wallet_cause.py\<close>; \<open>Action_Loop\<close>: \<open>action_loop.py\<close>, \<open>gate_suppress.py\<close>,
    \<open>channel_ingest.py\<close>, \<open>compose_prompt.py\<close>, \<open>llm_call_errors.py\<close>. A turn is a state transformer that may fail; the model is
    a function of the calls made so far.
  \<^item> \<open>Conversation_Window\<close>: \<open>conversation_window.py\<close>, \<open>_conversation_window_cache.py\<close>, \<open>conversation_seed.py\<close>,
    \<open>channel_history_fetcher.py\<close>, the event texts of \<open>prompt_assembly.py\<close>, \<open>operator_directive.py\<close>, \<open>convener.py\<close>,
    \<open>synthesis_turn.py\<close>, \<open>prompt_safety.py\<close>. The locale \<open>forgetting_cache\<close> is what a fetch needs of a cache that may forget;
    the least-recently-used cache of the source is its interpretation.

  \<^bold>\<open>What is shown.\<close>
  \<^item> Confidentiality: a gated turn always returns and injects nothing above the acting level or outside
    the live audience, verbatim or projected; floor events see public memory only; the manifest names
    only what was admitted; the recall level set is the per-entry comparison; unreadable labels fail
    closed in each of their directions.
  \<^item> Turn-taking: exactly which messages reach the open floor, what never starts a turn, and that no
    spoofed flag helps.
  \<^item> Decisions: the pipeline settles for every policy and every behaviour of its checks, selects only what
    every check and gate let through, and records what it removed; records survive their encoding.
  \<^item> Interactions: at most one open record per key over all operation sequences, closed records are
    final, room closes and idle sweeps are exact, a turn lands where its key says.
  \<^item> Scheduling: bounded first-in first-out wakes, every caller's handle has a place that settles it,
    a stop that was begun returns within seven steps of the loop's own, timers and salience wakes are rate-limited.
  \<^item> Dispatch: the recursion through the executor has one total solution, a cascade is bounded and keeps its
    world, every action that can be read is reported once, a refused turn apologises once, a tick starts no turn.
  \<^item> Memory: no call for another persona, person or epoch changes or reads what belongs to this one; facts of
    one chain come from one extraction; a summary settles once; trust moves by bounded steps; commitments
    refine a map; the plain reading of a procedural recall is what its prefiltered loop returns; a pass of
    eviction that nothing interrupts leaves at most the cap and drops, beside what is old and unimportant, only what scores
    no higher than what stays; a procedure used again meanwhile survives.
  \<^item> Closing: a replayed span is on file at most once over any boots, failures and sweeps, its identity is
    faithful, and a closed row is filed under its own frozen scope from its own turns only.
  \<^item> Delegation: what a sub-agent proposes is admitted on the caller's terms, all of it is kept or none.
  \<^item> Turns: what a turn sends stays in the room that started it, and a direct message is answered unless the model fails, its answer is cut
    off or the code raises; it costs a bounded number of model calls, none when the message is replayed or refused; a failed
    call is its last and decides its result, and only a refusal of the wallet leaves it as an exception of the model; a tool runs only when listed and only on checked arguments, and a refusal repeats no value; a revision
    never loses the reply.
  \<^item> Transcripts: the messages before the current one are the longest recent end that fits, attributed and with every
    delimiter of another speaker escaped; the cache refines the reference that evicts the entry whose last use is the longest ago, and never serves another persona's
    rows.
  \<^item> Bounds: the token budget, the context window and the compression pass.

  \<^bold>\<open>How code becomes definitions.\<close>
  \<^item> A finite float is the rational it denotes; the three special values are separate where the code
    can meet them. Strings are over the Latin-1 range. A dictionary is an association list with distinct
    keys in insertion order. An exception is a value of \<^typ>\<open>py_error\<close>.
  \<^item> Clocks, identifiers, random draws, the active span and the ambient scopes are arguments. Code that is
    not in the repository or is only called is a parameter that may fail: the tokenizer, the roster
    fetch, the policy and check callables, the language model, the loop's callbacks. No law is assumed
    of them but the ones a statement names.
  \<^item> Loops are structural recursion over the list they walk, so every definition is total and needs no
    fuel; the one loop that may run for ever, the supervisor, is a step relation, and that a stop
    returns is proved for every run of the loop's own steps, whose number a rank bounds.
  \<^item> Log lines and metric attributes are left out; counters that a component bumps are a list in its
    state. A ghost field is only ever written.

  \<^bold>\<open>Not modelled.\<close> The schema migrations, which are SQL scripts; prompt texts and the scoring of recall; the
  triggers, pacing and drain of closes; the
  wallet client and the shared pool; the tools themselves, model providers, servers and observability, which
  are input and output; the cancellation of a task outside the event loop, and a commit that fails after its
  statement; the Go orchestrator and the console.
\<close>

end
